(* ===== verification/Prelude.thy ===== *)
theory Prelude
  imports Main "HOL-Library.AList" "HOL-Library.Sublist" "HOL-Library.Word"
begin

text \<open>
  Shared vocabulary of the LenOS development.

  \<^item> Rust's \<open>Result\<close> is a sum (\<open>Inl\<close> the error), Rust strings are lists of UTF-8 bytes
    (\<open>string\<close>), \<open>u8\<close> and \<open>u64\<close> are words.
  \<^item> \<open>HashMap\<close> and \<open>DashMap\<close> are association lists with distinct keys (\<open>hm_*\<close>): the list
    order stands for the iteration order, which Rust leaves unspecified, so a fact proved for
    every association list holds for every iteration order. The laws the clients use are the
    locale \<open>hash_map\<close>, interpreted on the association lists as \<open>hm\<close>.
  \<^item> A map from keys to vectors of entries (\<open>entry(k).or_default().push(x)\<close>, \<open>retain\<close> and
    removal of an emptied entry) is the locale \<open>bucket_index\<close>.
  \<^item> A component with a step function and an invariant is the locale \<open>invariant_machine\<close>.
  \<^item> The collections \<open>wire_simps\<close> (encoders against decoders) and \<open>redis_simps\<close> (the store after
    each command) carry the proofs about the relay mesh and its session directory.
  \<^item> The \<open>str\<close> functions the sources call (\<open>split\<close>, \<open>strip_prefix\<close>, decimal printing, ASCII
    classes) with their round-trip lemmas.
\<close>

named_theorems wire_simps
named_theorems redis_simps

type_synonym u8 = "8 word"
type_synonym u16 = "16 word"
type_synonym u32 = "32 word"
type_synonym u64 = "64 word"
type_synonym bytes = "u8 list"
type_synonym uuid = string
type_synonym ('e, 'a) result = "'e + 'a"

abbreviation Err :: "'e \<Rightarrow> ('e, 'a) result" where "Err \<equiv> Inl"
abbreviation Ok :: "'a \<Rightarrow> ('e, 'a) result" where "Ok \<equiv> Inr"

section \<open>Results and options\<close>

definition is_ok :: "('e, 'a) result \<Rightarrow> bool" where
  "is_ok r = (case r of Inl _ \<Rightarrow> False | Inr _ \<Rightarrow> True)"

definition err :: "('e, 'a) result \<Rightarrow> 'e option" where
  "err r = (case r of Inl e \<Rightarrow> Some e | Inr _ \<Rightarrow> None)"

definition ok_or :: "'a option \<Rightarrow> 'e \<Rightarrow> ('e, 'a) result" where
  "ok_or x e = (case x of None \<Rightarrow> Inl e | Some a \<Rightarrow> Inr a)"

definition unwrap_or :: "'a option \<Rightarrow> 'a \<Rightarrow> 'a" where
  "unwrap_or x d = (case x of None \<Rightarrow> d | Some a \<Rightarrow> a)"

definition is_none_or :: "'a option \<Rightarrow> ('a \<Rightarrow> bool) \<Rightarrow> bool" where
  "is_none_or x P = (case x of None \<Rightarrow> True | Some a \<Rightarrow> P a)"

definition is_some_and :: "'a option \<Rightarrow> ('a \<Rightarrow> bool) \<Rightarrow> bool" where
  "is_some_and x P = (case x of None \<Rightarrow> False | Some a \<Rightarrow> P a)"

lemma is_ok_simps [simp]: "is_ok (Inr a)" "\<not> is_ok (Inl e)"
  by (simp_all add: is_ok_def)

lemma is_ok_conv: "is_ok r \<longleftrightarrow> (\<exists>a. r = Inr a)"
  by (cases r) simp_all

lemma is_ok_unit_conv: "is_ok r \<longleftrightarrow> r = Inr ()"
  by (cases r) simp_all

lemma err_simps [simp]: "err (Inl e) = Some e" "err (Inr a) = None"
  by (simp_all add: err_def)

lemma err_None_conv: "err r = None \<longleftrightarrow> is_ok r"
  by (cases r) simp_all

lemma ok_or_simps [simp]: "ok_or None e = Inl e" "ok_or (Some a) e = Inr a"
  by (simp_all add: ok_or_def)

lemma unwrap_or_simps [simp]: "unwrap_or None d = d" "unwrap_or (Some a) d = a"
  by (simp_all add: unwrap_or_def)

lemma is_none_or_simps [simp]: "is_none_or None P" "is_none_or (Some a) P = P a"
  by (simp_all add: is_none_or_def)

lemma is_some_and_simps [simp]: "\<not> is_some_and None P" "is_some_and (Some a) P = P a"
  by (simp_all add: is_some_and_def)

section \<open>Hash maps\<close>

type_synonym ('k, 'v) hmap = "('k \<times> 'v) list"

definition hm_get :: "('k, 'v) hmap \<Rightarrow> 'k \<Rightarrow> 'v option" where
  "hm_get m k = map_of m k"

definition hm_insert :: "'k \<Rightarrow> 'v \<Rightarrow> ('k, 'v) hmap \<Rightarrow> ('k, 'v) hmap" where
  "hm_insert k v m = AList.update k v m"

definition hm_remove :: "'k \<Rightarrow> ('k, 'v) hmap \<Rightarrow> ('k, 'v) hmap" where
  "hm_remove k m = AList.delete k m"

definition hm_keys :: "('k, 'v) hmap \<Rightarrow> 'k list" where
  "hm_keys m = map fst m"

definition hm_values :: "('k, 'v) hmap \<Rightarrow> 'v list" where
  "hm_values m = map snd m"

definition hm_retain :: "('k \<Rightarrow> 'v \<Rightarrow> bool) \<Rightarrow> ('k, 'v) hmap \<Rightarrow> ('k, 'v) hmap" where
  "hm_retain P m = filter (\<lambda>(k, v). P k v) m"

text \<open>\<open>if let Some(v) = m.get_mut(k) { *v = f(v) }\<close>\<close>

definition hm_modify :: "'k \<Rightarrow> ('v \<Rightarrow> 'v) \<Rightarrow> ('k, 'v) hmap \<Rightarrow> ('k, 'v) hmap" where
  "hm_modify k f m = (case hm_get m k of None \<Rightarrow> m | Some v \<Rightarrow> hm_insert k (f v) m)"

definition hm_wf :: "('k, 'v) hmap \<Rightarrow> bool" where
  "hm_wf m = distinct (hm_keys m)"

locale hash_map =
  fixes empty :: 'm
    and get :: "'m \<Rightarrow> 'k \<Rightarrow> 'v option"
    and insert_at :: "'k \<Rightarrow> 'v \<Rightarrow> 'm \<Rightarrow> 'm"
    and remove_at :: "'k \<Rightarrow> 'm \<Rightarrow> 'm"
    and entries :: "'m \<Rightarrow> ('k \<times> 'v) list"
    and wf :: "'m \<Rightarrow> bool"
  assumes get_empty: "get empty k = None"
    and get_insert: "get (insert_at k v m) k' = (if k' = k then Some v else get m k')"
    and get_remove: "get (remove_at k m) k' = (if k' = k then None else get m k')"
    and entries_get: "wf m \<Longrightarrow> (k, v) \<in> set (entries m) \<longleftrightarrow> get m k = Some v"
    and entries_distinct: "wf m \<Longrightarrow> distinct (map fst (entries m))"
    and wf_empty: "wf empty"
    and wf_insert: "wf m \<Longrightarrow> wf (insert_at k v m)"
    and wf_remove: "wf m \<Longrightarrow> wf (remove_at k m)"
begin

lemma key_iff: "wf m \<Longrightarrow> k \<in> set (map fst (entries m)) \<longleftrightarrow> get m k \<noteq> None"
  using entries_get [of m k] by force

lemma insert_twice: "get (insert_at k v (insert_at k w m)) k' = get (insert_at k v m) k'"
  by (simp add: get_insert)

lemma insert_commute:
  "k \<noteq> k' \<Longrightarrow> get (insert_at k v (insert_at k' w m)) x = get (insert_at k' w (insert_at k v m)) x"
  by (simp add: get_insert)

lemma remove_insert: "get m k = None \<Longrightarrow> get (remove_at k (insert_at k v m)) x = get m x"
  by (simp add: get_insert get_remove)

end

interpretation hm: hash_map "[]" hm_get hm_insert hm_remove "\<lambda>m. m" hm_wf
proof unfold_locales
  show "hm_get [] k = None" for k :: 'a by (simp add: hm_get_def)
  show "hm_get (hm_insert k v m) k' = (if k' = k then Some v else hm_get m k')"
    for k k' :: 'a and v :: 'b and m
    by (simp add: hm_get_def hm_insert_def update_conv')
  show "hm_get (hm_remove k m) k' = (if k' = k then None else hm_get m k')"
    for k k' :: 'a and m :: "('a, 'b) hmap"
    by (simp add: hm_get_def hm_remove_def delete_conv')
  show "(k, v) \<in> set m \<longleftrightarrow> hm_get m k = Some v" if "hm_wf m" for k :: 'a and v :: 'b and m
    using that by (simp add: hm_get_def hm_wf_def hm_keys_def)
  show "distinct (map fst m)" if "hm_wf m" for m :: "('a, 'b) hmap"
    using that by (simp add: hm_wf_def hm_keys_def)
  show "hm_wf []" by (simp add: hm_wf_def hm_keys_def)
  show "hm_wf (hm_insert k v m)" if "hm_wf m" for k :: 'a and v :: 'b and m
    using that by (simp add: hm_wf_def hm_keys_def hm_insert_def distinct_update)
  show "hm_wf (hm_remove k m)" if "hm_wf m" for k :: 'a and m :: "('a, 'b) hmap"
    using that by (simp add: hm_wf_def hm_keys_def hm_remove_def distinct_delete)
qed

lemmas hm_simps [simp] = hm.get_empty hm.get_insert hm.get_remove
  hm.wf_empty hm.wf_insert hm.wf_remove

lemma hm_key_iff: "k \<in> set (hm_keys m) \<longleftrightarrow> hm_get m k \<noteq> None"
  by (simp add: hm_get_def hm_keys_def map_of_eq_None_iff)

lemma hm_get_modify [simp]:
  "hm_get (hm_modify k f m) k' = (if k' = k then map_option f (hm_get m k) else hm_get m k')"
  by (auto simp: hm_modify_def split: option.splits)

lemma hm_wf_modify [simp]: "hm_wf m \<Longrightarrow> hm_wf (hm_modify k f m)"
  by (simp add: hm_modify_def split: option.splits)

lemma hm_wf_retain [simp]: "hm_wf m \<Longrightarrow> hm_wf (hm_retain P m)"
  by (induction m) (auto simp: hm_wf_def hm_keys_def hm_retain_def)

lemma hm_get_retain:
  "hm_wf m \<Longrightarrow> hm_get (hm_retain P m) k =
    (case hm_get m k of None \<Rightarrow> None | Some v \<Rightarrow> if P k v then Some v else None)"
proof (induction m)
  case (Cons x m)
  have "hm_wf m" and "k = fst x \<Longrightarrow> hm_get m k = None"
    using Cons.prems by (auto simp: hm_wf_def hm_keys_def hm_get_def map_of_eq_None_iff)
  with Cons.IH show ?case
    by (cases x) (auto simp: hm_retain_def hm_get_def split: option.splits)
qed (simp add: hm_retain_def hm_get_def)

lemma hm_modify_Cons: "hm_get m k = None \<Longrightarrow> hm_modify k f m = m"
  by (simp add: hm_modify_def)

section \<open>Buckets: a map from keys to vectors of entries\<close>

text \<open>\<open>bucket m k\<close> is the vector stored at \<open>k\<close>, empty when the key is absent.\<close>

definition bucket :: "('k, 'e list) hmap \<Rightarrow> 'k \<Rightarrow> 'e list" where
  "bucket m k = unwrap_or (hm_get m k) []"

definition bucket_push :: "'e \<Rightarrow> 'k \<Rightarrow> ('k, 'e list) hmap \<Rightarrow> ('k, 'e list) hmap" where
  "bucket_push x k m = hm_insert k (bucket m k @ [x]) m"

text \<open>
  \<open>if let Some(mut entries) = m.get_mut(k) \<^bold>{ entries.retain(|e| e != x);
  if entries.is_empty() \<^bold>{ m.remove(k) \<^bold>} \<^bold>}\<close>
\<close>

definition bucket_drop :: "'e \<Rightarrow> 'k \<Rightarrow> ('k, 'e list) hmap \<Rightarrow> ('k, 'e list) hmap" where
  "bucket_drop x k m =
     (case hm_get m k of
        None \<Rightarrow> m
      | Some es \<Rightarrow>
          let es' = filter (\<lambda>e. e \<noteq> x) es
          in if es' = [] then hm_remove k m else hm_insert k es' m)"

locale bucket_index =
  fixes entries_at :: "'m \<Rightarrow> 'k \<Rightarrow> 'e list"
    and push_at :: "'e \<Rightarrow> 'k \<Rightarrow> 'm \<Rightarrow> 'm"
    and drop_at :: "'e \<Rightarrow> 'k \<Rightarrow> 'm \<Rightarrow> 'm"
  assumes entries_push: "entries_at (push_at x k m) k' =
      (if k' = k then entries_at m k @ [x] else entries_at m k')"
    and entries_drop: "entries_at (drop_at x k m) k' =
      (if k' = k then filter (\<lambda>e. e \<noteq> x) (entries_at m k) else entries_at m k')"
begin

lemma push_all_set:
  "set (entries_at (foldl (\<lambda>m k. push_at x k m) m ks) k') =
     set (entries_at m k') \<union> (if k' \<in> set ks then {x} else {})"
  by (induction ks arbitrary: m) (auto simp: entries_push)

lemma drop_all_set:
  "set (entries_at (foldl (\<lambda>m k. drop_at x k m) m ks) k') =
     set (entries_at m k') - (if k' \<in> set ks then {x} else {})"
  by (induction ks arbitrary: m) (auto simp: entries_drop)

end

lemma bucket_push_at: "bucket (bucket_push x k m) k' =
    (if k' = k then bucket m k @ [x] else bucket m k')"
  by (simp add: bucket_def bucket_push_def)

lemma bucket_drop_at: "bucket (bucket_drop x k m) k' =
    (if k' = k then filter (\<lambda>e. e \<noteq> x) (bucket m k) else bucket m k')"
  by (auto simp: bucket_def bucket_drop_def Let_def unwrap_or_def split: option.splits)

interpretation bk: bucket_index bucket bucket_push bucket_drop
  by unfold_locales (rule bucket_push_at, rule bucket_drop_at)

lemma bucket_empty [simp]: "bucket [] k = []"
  by (simp add: bucket_def)

section \<open>Machines with an invariant\<close>

locale invariant_machine =
  fixes step :: "'s \<Rightarrow> 'op \<Rightarrow> 's"
    and init :: 's
    and inv :: "'s \<Rightarrow> bool"
  assumes inv_init: "inv init"
    and inv_step: "inv s \<Longrightarrow> inv (step s op)"
begin

lemma inv_run: "inv s \<Longrightarrow> inv (foldl step s ops)"
  by (induction ops arbitrary: s) (auto intro: inv_step)

lemma inv_reachable: "inv (foldl step init ops)"
  by (rule inv_run [OF inv_init])

end

section \<open>Strings\<close>

fun split_on :: "char \<Rightarrow> string \<Rightarrow> string list" where
  "split_on c [] = [[]]"
| "split_on c (x # xs) =
     (if x = c then [] # split_on c xs
      else (case split_on c xs of [] \<Rightarrow> [[x]] | s # ss \<Rightarrow> (x # s) # ss))"

fun join_with :: "char \<Rightarrow> string list \<Rightarrow> string" where
  "join_with c [] = []"
| "join_with c [s] = s"
| "join_with c (s # ss) = s @ c # join_with c ss"

definition strip_prefix_str :: "string \<Rightarrow> string \<Rightarrow> string option" where
  "strip_prefix_str p s = (if prefix p s then Some (drop (length p) s) else None)"

text \<open>\<open>s.split_once(c)\<close>: the parts around the first \<open>c\<close>.\<close>

fun split_once :: "char \<Rightarrow> string \<Rightarrow> (string \<times> string) option" where
  "split_once c [] = None"
| "split_once c (x # xs) =
     (if x = c then Some ([], xs) else map_option (\<lambda>(a, b). (x # a, b)) (split_once c xs))"

definition is_ascii_digit :: "char \<Rightarrow> bool" where
  "is_ascii_digit c = (of_char c \<ge> (48::nat) \<and> of_char c \<le> (57::nat))"

definition is_ascii_lower :: "char \<Rightarrow> bool" where
  "is_ascii_lower c = (of_char c \<ge> (97::nat) \<and> of_char c \<le> (122::nat))"

definition is_ascii_upper :: "char \<Rightarrow> bool" where
  "is_ascii_upper c = (of_char c \<ge> (65::nat) \<and> of_char c \<le> (90::nat))"

definition is_ascii_alphanumeric :: "char \<Rightarrow> bool" where
  "is_ascii_alphanumeric c = (is_ascii_digit c \<or> is_ascii_lower c \<or> is_ascii_upper c)"

definition is_ascii_hexdigit :: "char \<Rightarrow> bool" where
  "is_ascii_hexdigit c =
     (is_ascii_digit c
      \<or> (of_char c \<ge> (97::nat) \<and> of_char c \<le> (102::nat))
      \<or> (of_char c \<ge> (65::nat) \<and> of_char c \<le> (70::nat)))"

text \<open>\<open>n.to_string()\<close> for an unsigned integer.\<close>

fun nat_to_string :: "nat \<Rightarrow> string" where
  "nat_to_string n =
     (if n < 10 then [char_of (48 + n)] else nat_to_string (n div 10) @ [char_of (48 + n mod 10)])"

declare nat_to_string.simps [simp del]

lemma split_on_ne [simp]: "split_on c s \<noteq> []"
  by (cases s) (auto split: list.splits)

lemma join_with_Cons: "ss \<noteq> [] \<Longrightarrow> join_with c (s # ss) = s @ c # join_with c ss"
  by (cases ss) simp_all

lemma join_with_Cons_hd: "join_with c ((x # s) # ss) = x # join_with c (s # ss)"
  by (cases ss) simp_all

lemma join_split [simp]: "join_with c (split_on c s) = s"
proof (induction s)
  case (Cons x xs)
  then show ?case
    by (cases "split_on c xs") (auto simp: join_with_Cons join_with_Cons_hd)
qed simp

lemma split_on_no_sep: "c \<notin> set s \<Longrightarrow> split_on c s = [s]"
  by (induction s) auto

lemma split_on_append: "c \<notin> set s \<Longrightarrow> split_on c (s @ c # t) = s # split_on c t"
  by (induction s) auto

lemma split_join: "ss \<noteq> [] \<Longrightarrow> \<forall>s \<in> set ss. c \<notin> set s \<Longrightarrow> split_on c (join_with c ss) = ss"
proof (induction ss)
  case (Cons s ss)
  then show ?case
    by (cases ss) (auto simp: split_on_no_sep split_on_append)
qed simp

lemma split_on_parts: "s \<in> set (split_on c t) \<Longrightarrow> c \<notin> set s"
proof (induction t arbitrary: s)
  case (Cons x xs)
  then show ?case
    by (cases "split_on c xs") (auto split: if_splits)
qed simp

lemma split_once_Some: "split_once c s = Some (a, b) \<Longrightarrow> s = a @ c # b \<and> c \<notin> set a"
  by (induction s arbitrary: a) (auto split: if_splits)

lemma split_once_append: "c \<notin> set a \<Longrightarrow> split_once c (a @ c # b) = Some (a, b)"
  by (induction a) auto

lemma strip_prefix_str_append [simp]: "strip_prefix_str p (p @ s) = Some s"
  by (simp add: strip_prefix_str_def)

lemma strip_prefix_str_Some: "strip_prefix_str p s = Some t \<longleftrightarrow> s = p @ t"
  by (auto simp: strip_prefix_str_def prefix_def)

lemma digit_char: "d < 10 \<Longrightarrow> is_ascii_digit (char_of (48 + d :: nat))"
  by (simp add: is_ascii_digit_def)

lemma nat_to_string_digits: "c \<in> set (nat_to_string n) \<Longrightarrow> is_ascii_digit c"
proof (induction n arbitrary: c rule: nat_to_string.induct)
  case (1 n)
  show ?case
  proof (cases "n < 10")
    case True
    with "1.prems" show ?thesis by (simp add: nat_to_string.simps [of n] digit_char)
  next
    case False
    with "1.prems" have "c \<in> set (nat_to_string (n div 10)) \<or> c = char_of (48 + n mod 10)"
      by (auto simp: nat_to_string.simps [of n])
    with False "1.IH" show ?thesis by (auto simp: digit_char)
  qed
qed

text \<open>The value of a string of digits; printing is its right inverse, hence injective.\<close>

definition digits_value :: "string \<Rightarrow> nat" where
  "digits_value s = foldl (\<lambda>a c. 10 * a + (of_char c - 48)) 0 s"

lemma digits_value_nat_to_string [simp]: "digits_value (nat_to_string n) = n"
proof (induction n rule: nat_to_string.induct)
  case (1 n)
  show ?case
  proof (cases "n < 10")
    case True
    then show ?thesis by (simp add: nat_to_string.simps [of n] digits_value_def)
  next
    case False
    with "1.IH" have "digits_value (nat_to_string (n div 10)) = n div 10" by simp
    with False show ?thesis
      by (simp add: nat_to_string.simps [of n] digits_value_def)
  qed
qed

lemma nat_to_string_inj: "nat_to_string m = nat_to_string n \<Longrightarrow> m = n"
  by (metis digits_value_nat_to_string)

lemma nat_to_string_sep: "\<not> is_ascii_digit c \<Longrightarrow> c \<notin> set (nat_to_string n)"
  using nat_to_string_digits by blast

text \<open>\<open>s.parse::<u64>()\<close>: decimal digits with an optional \<open>+\<close>, below \<open>2 ^ 64\<close>.\<close>

definition parse_u64 :: "string \<Rightarrow> u64 option" where
  "parse_u64 s =
     (let d = (case s of [] \<Rightarrow> s | c # cs \<Rightarrow> if c = CHR ''+'' then cs else s)
      in if d \<noteq> [] \<and> list_all is_ascii_digit d \<and> int (digits_value d) < 18446744073709551616
         then Some (of_nat (digits_value d)) else None)"

lemma nat_to_string_ne [simp]: "nat_to_string n \<noteq> []"
  by (simp add: nat_to_string.simps [of n])

lemma parse_u64_nat_to_string:
  assumes "int n < 18446744073709551616"
  shows "parse_u64 (nat_to_string n) = Some (of_nat n)"
proof -
  obtain c cs where s: "nat_to_string n = c # cs" by (cases "nat_to_string n") simp_all
  then have "is_ascii_digit c" using nat_to_string_digits [of c n] by simp
  then have "c \<noteq> CHR ''+''" by (auto simp: is_ascii_digit_def)
  moreover have "list_all is_ascii_digit (nat_to_string n)"
    using nat_to_string_digits by (auto simp: list_all_iff)
  ultimately show ?thesis
    using assms s digits_value_nat_to_string [of n] by (simp add: parse_u64_def Let_def)
qed

lemma digit_consts [simp]:
  "\<not> is_ascii_digit CHR '':''" "\<not> is_ascii_digit CHR ''|''"
  by (simp_all add: is_ascii_digit_def)

section \<open>Lists\<close>

text \<open>
  A vector filled through a \<open>HashSet\<close> guard (\<open>if seen.insert(x) \<^bold>{ out.push(x) \<^bold>}\<close>): first
  occurrences, in order.
\<close>

definition push_new :: "'a list \<Rightarrow> 'a \<Rightarrow> 'a list" where
  "push_new out x = (if x \<in> set out then out else out @ [x])"

definition push_all_new :: "'a list \<Rightarrow> 'a list \<Rightarrow> 'a list" where
  "push_all_new out xs = foldl push_new out xs"

lemma set_push_new [simp]: "set (push_new out x) = insert x (set out)"
  by (auto simp: push_new_def)

lemma distinct_push_new [simp]: "distinct (push_new out x) = distinct out"
  by (auto simp: push_new_def)

lemma set_push_all_new [simp]: "set (push_all_new out xs) = set out \<union> set xs"
  unfolding push_all_new_def by (induction xs arbitrary: out) auto

lemma distinct_push_all_new [simp]: "distinct (push_all_new out xs) = distinct out"
  unfolding push_all_new_def by (induction xs arbitrary: out) auto

section \<open>JSON\<close>

text \<open>\<open>serde_json::Value\<close>: a number is its text, an object lists its entries with distinct keys.\<close>

datatype Value = Null | Bool bool | Number string | String string
  | Array "Value list" | Object "(string \<times> Value) list"

section \<open>White space and numbers\<close>

text \<open>
  \<open>str::trim\<close> on UTF-8: the length of the white-space character at the front of a string, and (on
  the reversed string) at its end. The characters are the ASCII controls 9 to 13, space, U+0085, U+00A0,
  U+1680, U+2000 to U+200A, U+2028, U+2029, U+202F, U+205F and U+3000.
\<close>

definition ws1 :: "nat \<Rightarrow> bool" where
  "ws1 a = (9 \<le> a \<and> a \<le> 13 \<or> a = 32)"

definition ws2 :: "nat \<Rightarrow> nat \<Rightarrow> bool" where
  "ws2 a b = (a = 194 \<and> (b = 133 \<or> b = 160))"

definition ws3 :: "nat \<Rightarrow> nat \<Rightarrow> nat \<Rightarrow> bool" where
  "ws3 a b c = (a = 225 \<and> b = 154 \<and> c = 128
     \<or> a = 226 \<and> b = 128 \<and> (128 \<le> c \<and> c \<le> 138 \<or> c = 168 \<or> c = 169 \<or> c = 175)
     \<or> a = 226 \<and> b = 129 \<and> c = 159 \<or> a = 227 \<and> b = 128 \<and> c = 128)"

fun trim_start :: "string \<Rightarrow> string" where
  "trim_start [] = []"
| "trim_start (a # s) =
     (if ws1 (of_char a) then trim_start s
      else (case s of
          [] \<Rightarrow> a # s
        | b # t \<Rightarrow>
            if ws2 (of_char a) (of_char b) then trim_start t
            else (case t of
                [] \<Rightarrow> a # s
              | c # u \<Rightarrow> if ws3 (of_char a) (of_char b) (of_char c) then trim_start u else a # s)))"

fun trim_end_rev :: "string \<Rightarrow> string" where
  "trim_end_rev [] = []"
| "trim_end_rev (c # s) =
     (if ws1 (of_char c) then trim_end_rev s
      else (case s of
          [] \<Rightarrow> c # s
        | b # t \<Rightarrow>
            if ws2 (of_char b) (of_char c) then trim_end_rev t
            else (case t of
                [] \<Rightarrow> c # s
              | a # u \<Rightarrow> if ws3 (of_char a) (of_char b) (of_char c) then trim_end_rev u else c # s)))"

definition trim :: "string \<Rightarrow> string" where
  "trim s = rev (trim_end_rev (rev (trim_start s)))"

definition strip_suffix_str :: "string \<Rightarrow> string \<Rightarrow> string option" where
  "strip_suffix_str p s = (if suffix p s then Some (take (length s - length p) s) else None)"

text \<open>\<open>s.find(p)\<close>: what precedes and what follows the first occurrence of \<open>p\<close>.\<close>

fun split_at :: "string \<Rightarrow> string \<Rightarrow> (string \<times> string) option" where
  "split_at p s =
     (if prefix p s then Some ([], drop (length p) s)
      else (case s of
          [] \<Rightarrow> None
        | x # xs \<Rightarrow> map_option (\<lambda>(a, b). (x # a, b)) (split_at p xs)))"

declare split_at.simps [simp del]

lemma split_at_Some: "split_at p s = Some (a, b) \<Longrightarrow> s = a @ p @ b"
proof (induction p s arbitrary: a rule: split_at.induct)
  case (1 p s)
  then show ?case
    by (subst (asm) split_at.simps) (auto simp: prefix_def split: if_splits list.splits)
qed

lemma split_at_shorter: "split_at p s = Some (a, b) \<Longrightarrow> p \<noteq> [] \<Longrightarrow> length b < length s"
  by (drule split_at_Some) simp

end
