(* ===== verification/Channel.thy ===== *)
theory Channel
  imports Prelude
begin

text \<open>
  \<^verbatim>\<open>crates/lenos-core/src/channel.rs\<close>: channel visibility, channel type and member role, with their
  canonical strings and the permission levels of the role hierarchy. The level is injective, so
  roles are a linear order (\<open>instantiation MemberRole :: linorder\<close>) and \<open>has_at_least\<close> is that
  order; the clients then use \<open>max\<close> and its library lemmas for "the stricter role".
\<close>

datatype ChannelVisibility = Open | Private

fun visibility_as_str :: "ChannelVisibility \<Rightarrow> string" where
  "visibility_as_str Open = ''open''"
| "visibility_as_str Private = ''private''"

definition visibility_from_str :: "string \<Rightarrow> ChannelVisibility option" where
  "visibility_from_str s =
     (if s = ''open'' then Some Open
      else if s = ''private'' then Some Private
      else None)"

datatype ChannelType = StreamChannel | Forum | Dm | WorkflowChannel

fun channel_type_as_str :: "ChannelType \<Rightarrow> string" where
  "channel_type_as_str StreamChannel = ''stream''"
| "channel_type_as_str Forum = ''forum''"
| "channel_type_as_str Dm = ''dm''"
| "channel_type_as_str WorkflowChannel = ''workflow''"

definition channel_type_from_str :: "string \<Rightarrow> ChannelType option" where
  "channel_type_from_str s =
     (if s = ''stream'' then Some StreamChannel
      else if s = ''forum'' then Some Forum
      else if s = ''dm'' then Some Dm
      else if s = ''workflow'' then Some WorkflowChannel
      else None)"

datatype MemberRole = Owner | Admin | Member | Guest | Bot

fun role_as_str :: "MemberRole \<Rightarrow> string" where
  "role_as_str Owner = ''owner''"
| "role_as_str Admin = ''admin''"
| "role_as_str Member = ''member''"
| "role_as_str Guest = ''guest''"
| "role_as_str Bot = ''bot''"

definition role_from_str :: "string \<Rightarrow> MemberRole option" where
  "role_from_str s =
     (if s = ''owner'' then Some Owner
      else if s = ''admin'' then Some Admin
      else if s = ''member'' then Some Member
      else if s = ''guest'' then Some Guest
      else if s = ''bot'' then Some Bot
      else None)"

fun is_elevated :: "MemberRole \<Rightarrow> bool" where
  "is_elevated Owner = True"
| "is_elevated Admin = True"
| "is_elevated _ = False"

fun permission_level :: "MemberRole \<Rightarrow> u8" where
  "permission_level Owner = 4"
| "permission_level Admin = 3"
| "permission_level Member = 2"
| "permission_level Guest = 1"
| "permission_level Bot = 0"

definition has_at_least :: "MemberRole \<Rightarrow> MemberRole \<Rightarrow> bool" where
  "has_at_least role required = (permission_level role \<ge> permission_level required)"

section \<open>Roles as a linear order\<close>

lemma permission_level_inj: "permission_level r = permission_level q \<Longrightarrow> r = q"
  by (cases r; cases q) simp_all

instantiation MemberRole :: linorder
begin

definition less_eq_MemberRole :: "MemberRole \<Rightarrow> MemberRole \<Rightarrow> bool" where
  "less_eq_MemberRole r q = (permission_level r \<le> permission_level q)"

definition less_MemberRole :: "MemberRole \<Rightarrow> MemberRole \<Rightarrow> bool" where
  "less_MemberRole r q = (permission_level r < permission_level q)"

instance
  by standard
    (auto simp: less_eq_MemberRole_def less_MemberRole_def intro: permission_level_inj)

end

lemma has_at_least_iff: "has_at_least role required \<longleftrightarrow> required \<le> role"
  by (simp add: has_at_least_def less_eq_MemberRole_def)

lemma role_le_bounds [simp]: "Bot \<le> r" "r \<le> Owner"
  by (cases r; simp add: less_eq_MemberRole_def)+

lemma role_le_table [simp]:
  "Guest \<le> Member" "Guest \<le> Admin" "Member \<le> Admin"
  "\<not> Admin \<le> Member" "\<not> Admin \<le> Guest" "\<not> Admin \<le> Bot"
  "\<not> Member \<le> Guest" "\<not> Member \<le> Bot" "\<not> Guest \<le> Bot"
  "\<not> Owner \<le> Admin" "\<not> Owner \<le> Member" "\<not> Owner \<le> Guest" "\<not> Owner \<le> Bot"
  by (simp_all add: less_eq_MemberRole_def word_le_nat_alt)

lemma is_elevated_iff: "is_elevated r \<longleftrightarrow> Admin \<le> r"
  by (cases r) simp_all

lemma role_from_as_str [simp]: "role_from_str (role_as_str r) = Some r"
  by (cases r) (simp_all add: role_from_str_def)

lemma role_from_str_Some: "role_from_str s = Some r \<Longrightarrow> s = role_as_str r"
  by (auto simp: role_from_str_def split: if_splits)

text \<open>The stricter of two roles, as the sources write it: keep the existing one on a tie.\<close>

definition stricter :: "MemberRole option \<Rightarrow> MemberRole \<Rightarrow> MemberRole" where
  "stricter acc role =
     (case acc of
        None \<Rightarrow> role
      | Some existing \<Rightarrow>
          if permission_level role > permission_level existing then role else existing)"

lemma stricter_max: "stricter (Some e) r = max e r"
  by (auto simp: stricter_def max_def less_eq_MemberRole_def intro: permission_level_inj)

lemma stricter_None [simp]: "stricter None r = r"
  by (simp add: stricter_def)

end
