(* ===== verification/GitPerms.thy ===== *)
theory GitPerms
  imports Channel
begin

text \<open>
  \<^verbatim>\<open>crates/lenos-core/src/git_perms.rs\<close>: ref patterns, \<open>lenos-protect\<close> tags, and the evaluation of a
  push against the protection rules. \<open>unreachable!()\<close> in \<open>RefPattern::matches\<close> is the value
  \<open>None\<close>, so "never panics" is a statement. The lemmas show that the parser only builds
  well-formed patterns, that matching is the declarative relation \<open>segs_match\<close>, and that the
  decision of \<open>evaluate_ref_update\<close> is the order-independent one of \<open>allowed_spec\<close>.
\<close>

definition MAX_PROTECTION_RULES :: nat where "MAX_PROTECTION_RULES = 50"
definition MAX_PATTERN_LENGTH :: nat where "MAX_PATTERN_LENGTH = 256"
definition MAX_WILDCARDS_PER_PATTERN :: nat where "MAX_WILDCARDS_PER_PATTERN = 3"

definition GIT_NO_CHANNEL_BINDING_TOKEN :: string where
  "GIT_NO_CHANNEL_BINDING_TOKEN = ''no_channel_binding''"

definition GIT_NO_CHANNEL_BINDING_BODY :: string where
  "GIT_NO_CHANNEL_BINDING_BODY = ''no_channel_binding: repository has no channel binding''"

section \<open>Ref patterns\<close>

datatype PatternSegment = Literal string | Wildcard | RecursiveWildcard

record RefPattern =
  raw :: string
  segments :: "PatternSegment list"

datatype PatternError =
    EmptyPattern | TooLong | MissingRefsPrefix | InvalidSegment string | TooManyWildcards

text \<open>
  The loop of \<open>RefPattern::parse\<close> over the \<open>/\<close>-separated parts: \<open>i != parts.len() - 1\<close> is
  \<open>rest \<noteq> []\<close>, and \<open>wc\<close> is \<open>wildcard_count\<close>.
\<close>

fun parse_parts :: "nat \<Rightarrow> string list \<Rightarrow> (PatternError, PatternSegment list) result" where
  "parse_parts wc [] = Ok []"
| "parse_parts wc (part # rest) =
     (if part = ''**'' then
        (if rest \<noteq> [] then Err (InvalidSegment ''** must be the last segment'')
         else if wc + 1 > MAX_WILDCARDS_PER_PATTERN then Err TooManyWildcards
         else (case parse_parts (wc + 1) rest of
                 Inl e \<Rightarrow> Inl e | Inr segs \<Rightarrow> Inr (RecursiveWildcard # segs)))
      else if part = ''*'' then
        (if wc + 1 > MAX_WILDCARDS_PER_PATTERN then Err TooManyWildcards
         else (case parse_parts (wc + 1) rest of
                 Inl e \<Rightarrow> Inl e | Inr segs \<Rightarrow> Inr (Wildcard # segs)))
      else if part = [] then Err (InvalidSegment [])
      else if CHR ''*'' \<in> set part \<or> CHR ''?'' \<in> set part
              \<or> CHR ''['' \<in> set part \<or> CHR '']'' \<in> set part then
        Err (InvalidSegment part)
      else if \<not> list_all (\<lambda>c. is_ascii_alphanumeric c \<or> c = CHR ''.'' \<or> c = CHR ''_''
                          \<or> c = CHR ''-'') part then
        Err (InvalidSegment part)
      else (case parse_parts wc rest of
              Inl e \<Rightarrow> Inl e | Inr segs \<Rightarrow> Inr (Literal part # segs)))"

definition RefPattern_parse :: "string \<Rightarrow> (PatternError, RefPattern) result" where
  "RefPattern_parse pattern =
     (if pattern = [] then Err EmptyPattern
      else if length pattern > MAX_PATTERN_LENGTH then Err TooLong
      else if \<not> prefix ''refs/'' pattern then Err MissingRefsPrefix
      else (case parse_parts 0 (split_on CHR ''/'' pattern) of
              Inl e \<Rightarrow> Inl e
            | Inr segs \<Rightarrow> Inr \<lparr>raw = pattern, segments = segs\<rparr>))"

text \<open>One segment test; \<open>None\<close> is the \<open>unreachable!()\<close> panic.\<close>

fun segment_matches :: "PatternSegment \<Rightarrow> string \<Rightarrow> bool option" where
  "segment_matches Wildcard seg = Some True"
| "segment_matches (Literal lit) seg = Some (lit = seg)"
| "segment_matches RecursiveWildcard seg = None"

text \<open>\<open>zip(..).all(..)\<close>: left to right, stopping at the first \<open>false\<close>.\<close>

fun zip_all_match :: "PatternSegment list \<Rightarrow> string list \<Rightarrow> bool option" where
  "zip_all_match (p # ps) (s # ss) =
     (case segment_matches p s of
        None \<Rightarrow> None
      | Some False \<Rightarrow> Some False
      | Some True \<Rightarrow> zip_all_match ps ss)"
| "zip_all_match _ _ = Some True"

definition RefPattern_matches :: "RefPattern \<Rightarrow> string \<Rightarrow> bool option" where
  "RefPattern_matches pat ref_name =
     (let ref_segments = split_on CHR ''/'' ref_name; segs = segments pat
      in if segs \<noteq> [] \<and> last segs = RecursiveWildcard then
           (let prefix_len = length segs - 1
            in if length ref_segments \<le> prefix_len then Some False
               else zip_all_match (take prefix_len segs) (take prefix_len ref_segments))
         else if length ref_segments \<noteq> length segs then Some False
         else zip_all_match segs ref_segments)"

section \<open>Ref updates\<close>

datatype UpdateKind = Create | FastForward | NonFastForward | Delete

definition ZERO_OID :: string where
  "ZERO_OID = replicate 40 CHR ''0''"

definition classify :: "string \<Rightarrow> string \<Rightarrow> bool \<Rightarrow> UpdateKind" where
  "classify old_oid new_oid is_ancestor =
     (if old_oid = ZERO_OID then Create
      else if new_oid = ZERO_OID then Delete
      else if is_ancestor then FastForward
      else NonFastForward)"

record RefUpdate =
  ru_ref_name :: string
  ru_kind :: UpdateKind
  ru_old_oid :: string
  ru_new_oid :: string

section \<open>Protection rules\<close>

record ProtectionRule =
  pattern :: RefPattern
  push_role :: "MemberRole option"
  no_force_push :: bool
  no_delete :: bool
  require_patch :: bool

datatype RuleParseError =
    TooFewValues | TooManyRules | InvalidPattern PatternError | UnknownRule string
  | InvalidRole string

text \<open>
  The loop over \<open>values[1..]\<close>: the record under construction and the unknown rules are its
  mutable locals.
\<close>

fun parse_rules ::
  "ProtectionRule \<Rightarrow> string list \<Rightarrow> string list
    \<Rightarrow> (RuleParseError, ProtectionRule \<times> string list) result" where
  "parse_rules r unknowns [] = Ok (r, unknowns)"
| "parse_rules r unknowns (rule_str # rest) =
     (case strip_prefix_str ''push:'' rule_str of
        Some role_str \<Rightarrow>
          (case role_from_str role_str of
             None \<Rightarrow> Err (InvalidRole role_str)
           | Some role \<Rightarrow>
               if role = Bot \<or> role = Guest then Err (InvalidRole role_str)
               else parse_rules (r\<lparr>push_role := Some (stricter (push_role r) role)\<rparr>) unknowns rest)
      | None \<Rightarrow>
          if rule_str = ''no-force-push'' then parse_rules (r\<lparr>no_force_push := True\<rparr>) unknowns rest
          else if rule_str = ''no-delete'' then parse_rules (r\<lparr>no_delete := True\<rparr>) unknowns rest
          else if rule_str = ''require-patch'' then
            parse_rules (r\<lparr>require_patch := True\<rparr>) unknowns rest
          else parse_rules r (unknowns @ [rule_str]) rest)"

definition parse_protection_tag_with_warnings ::
  "string list \<Rightarrow> (RuleParseError, ProtectionRule \<times> string list) result" where
  "parse_protection_tag_with_warnings values =
     (case values of
        [] \<Rightarrow> Err TooFewValues
      | [_] \<Rightarrow> Err TooFewValues
      | v # vs \<Rightarrow>
          (case RefPattern_parse v of
             Inl e \<Rightarrow> Err (InvalidPattern e)
           | Inr pat \<Rightarrow>
               parse_rules
                 \<lparr>pattern = pat, push_role = None, no_force_push = False, no_delete = False,
                  require_patch = False\<rparr> [] vs))"

definition parse_protection_tag :: "string list \<Rightarrow> (RuleParseError, ProtectionRule) result" where
  "parse_protection_tag values =
     (case parse_protection_tag_with_warnings values of
        Inl e \<Rightarrow> Inl e
      | Inr (rule, _) \<Rightarrow> Inr rule)"

record ParsedProtection =
  pp_rules :: "ProtectionRule list"
  pp_unknown_rules :: "string list"

fun parse_tags_loop ::
  "ParsedProtection \<Rightarrow> string list list \<Rightarrow> (RuleParseError, ParsedProtection) result" where
  "parse_tags_loop acc [] = Ok acc"
| "parse_tags_loop acc (tag # rest) =
     (case tag of
        [] \<Rightarrow> parse_tags_loop acc rest
      | name # values \<Rightarrow>
          if name \<noteq> ''lenos-protect'' then parse_tags_loop acc rest
          else if length (pp_rules acc) \<ge> MAX_PROTECTION_RULES then Err TooManyRules
          else (case parse_protection_tag_with_warnings values of
                  Inl e \<Rightarrow> Inl e
                | Inr (rule, unknowns) \<Rightarrow>
                    parse_tags_loop
                      \<lparr>pp_rules = pp_rules acc @ [rule],
                       pp_unknown_rules = pp_unknown_rules acc @ unknowns\<rparr> rest))"

definition parse_protection_tags ::
  "string list list \<Rightarrow> (RuleParseError, ParsedProtection) result" where
  "parse_protection_tags tags = parse_tags_loop \<lparr>pp_rules = [], pp_unknown_rules = []\<rparr> tags"

definition default_min_role :: "string \<Rightarrow> UpdateKind \<Rightarrow> MemberRole" where
  "default_min_role ref_name kind =
     (let is_branch = prefix ''refs/heads/'' ref_name;
          is_tag = prefix ''refs/tags/'' ref_name
      in case kind of
           Create \<Rightarrow> if is_branch \<or> is_tag then Member else Admin
         | FastForward \<Rightarrow> if is_branch then Member else if is_tag then Admin else Admin
         | NonFastForward \<Rightarrow> Admin
         | Delete \<Rightarrow> Admin)"

section \<open>Policy evaluation\<close>

record EffectiveRules =
  er_push_role :: "MemberRole option"
  er_no_force_push :: bool
  er_no_delete :: bool
  er_require_patch :: bool
  er_has_explicit_match :: bool

definition effective_start :: EffectiveRules where
  "effective_start =
     \<lparr>er_push_role = None, er_no_force_push = False, er_no_delete = False,
      er_require_patch = False, er_has_explicit_match = False\<rparr>"

definition union_rule :: "EffectiveRules \<Rightarrow> ProtectionRule \<Rightarrow> EffectiveRules" where
  "union_rule e rule =
     \<lparr>er_push_role =
        (case push_role rule of
           None \<Rightarrow> er_push_role e
         | Some role \<Rightarrow> Some (stricter (er_push_role e) role)),
      er_no_force_push = (er_no_force_push e \<or> no_force_push rule),
      er_no_delete = (er_no_delete e \<or> no_delete rule),
      er_require_patch = (er_require_patch e \<or> require_patch rule),
      er_has_explicit_match = True\<rparr>"

text \<open>\<open>EffectiveRules::for_ref\<close>; \<open>None\<close> when a \<open>matches\<close> call panics.\<close>

fun for_ref_loop :: "string \<Rightarrow> EffectiveRules \<Rightarrow> ProtectionRule list \<Rightarrow> EffectiveRules option" where
  "for_ref_loop ref_name e [] = Some e"
| "for_ref_loop ref_name e (rule # rules) =
     (case RefPattern_matches (pattern rule) ref_name of
        None \<Rightarrow> None
      | Some m \<Rightarrow> for_ref_loop ref_name (if m then union_rule e rule else e) rules)"

definition for_ref :: "string \<Rightarrow> ProtectionRule list \<Rightarrow> EffectiveRules option" where
  "for_ref ref_name rules = for_ref_loop ref_name effective_start rules"

record Denial =
  denied_ref :: string
  reason :: string

definition evaluate_effective ::
  "RefUpdate \<Rightarrow> MemberRole \<Rightarrow> EffectiveRules \<Rightarrow> (Denial, unit) result" where
  "evaluate_effective update role effective =
     (let deny = (\<lambda>why. Err \<lparr>denied_ref = ru_ref_name update, reason = why\<rparr>);
          default_role = default_min_role (ru_ref_name update) (ru_kind update)
      in if \<not> er_has_explicit_match effective then
           (if \<not> has_at_least role default_role then
              deny (''requires '' @ role_as_str default_role @ '' role (you have ''
                    @ role_as_str role @ ''), using built-in defaults'')
            else Ok ())
         else if er_require_patch effective then
           deny ''direct push denied: require-patch is set, submit a NIP-34 patch''
         else
           (let min_role =
              (case er_push_role effective of
                 Some explicit \<Rightarrow>
                   if permission_level explicit \<ge> permission_level default_role
                   then explicit else default_role
               | None \<Rightarrow> default_role)
            in if \<not> has_at_least role min_role then
                 deny (''requires '' @ role_as_str min_role @ '' role (you have ''
                       @ role_as_str role @ '')'')
               else if er_no_force_push effective \<and> ru_kind update = NonFastForward then
                 deny ''non-fast-forward update denied: no-force-push is set''
               else if er_no_delete effective \<and> ru_kind update = Delete then
                 deny ''ref deletion denied: no-delete is set''
               else Ok ()))"

definition evaluate_ref_update ::
  "RefUpdate \<Rightarrow> MemberRole \<Rightarrow> ProtectionRule list \<Rightarrow> (Denial, unit) result option" where
  "evaluate_ref_update update role rules =
     map_option (evaluate_effective update role) (for_ref (ru_ref_name update) rules)"

text \<open>\<open>evaluate_push\<close>: collect every denial; \<open>None\<close> when a ref evaluation panics.\<close>

fun collect_denials ::
  "RefUpdate list \<Rightarrow> MemberRole \<Rightarrow> ProtectionRule list \<Rightarrow> Denial list option" where
  "collect_denials [] role rules = Some []"
| "collect_denials (u # us) role rules =
     (case evaluate_ref_update u role rules of
        None \<Rightarrow> None
      | Some r \<Rightarrow>
          map_option (\<lambda>ds. (case err r of None \<Rightarrow> ds | Some d \<Rightarrow> d # ds))
            (collect_denials us role rules))"

definition evaluate_push ::
  "RefUpdate list \<Rightarrow> MemberRole \<Rightarrow> ProtectionRule list \<Rightarrow> (Denial list, unit) result option" where
  "evaluate_push updates role rules =
     map_option (\<lambda>denials. if denials = [] then Ok () else Err denials)
       (collect_denials updates role rules)"

section \<open>Well-formed patterns\<close>

definition is_wild :: "PatternSegment \<Rightarrow> bool" where
  "is_wild s = (s = Wildcard \<or> s = RecursiveWildcard)"

definition literal_ok :: "string \<Rightarrow> bool" where
  "literal_ok l = (l \<noteq> [] \<and> list_all (\<lambda>c. is_ascii_alphanumeric c \<or> c = CHR ''.''
     \<or> c = CHR ''_'' \<or> c = CHR ''-'') l)"

definition wf_segments :: "PatternSegment list \<Rightarrow> bool" where
  "wf_segments segs =
     (RecursiveWildcard \<notin> set (butlast segs)
      \<and> (\<forall>l. Literal l \<in> set segs \<longrightarrow> literal_ok l))"

fun segment_text :: "PatternSegment \<Rightarrow> string" where
  "segment_text (Literal l) = l"
| "segment_text Wildcard = ''*''"
| "segment_text RecursiveWildcard = ''**''"

definition wf_pattern :: "RefPattern \<Rightarrow> bool" where
  "wf_pattern p =
     (wf_segments (segments p)
      \<and> segments p \<noteq> []
      \<and> length (filter is_wild (segments p)) \<le> MAX_WILDCARDS_PER_PATTERN
      \<and> length (raw p) \<le> MAX_PATTERN_LENGTH
      \<and> prefix ''refs/'' (raw p)
      \<and> join_with CHR ''/'' (map segment_text (segments p)) = raw p)"

lemma parse_parts_text: "parse_parts wc parts = Ok segs \<Longrightarrow> map segment_text segs = parts"
  by (induction wc parts arbitrary: segs rule: parse_parts.induct)
    (auto split: if_splits sum.splits)

lemma parse_parts_wild:
  "parse_parts wc parts = Ok segs \<Longrightarrow> wc \<le> MAX_WILDCARDS_PER_PATTERN
    \<Longrightarrow> wc + length (filter is_wild segs) \<le> MAX_WILDCARDS_PER_PATTERN"
  by (induction wc parts arbitrary: segs rule: parse_parts.induct)
    (force split: if_splits sum.splits simp: is_wild_def)+

lemma parse_parts_wf: "parse_parts wc parts = Ok segs \<Longrightarrow> wf_segments segs"
proof (induction wc parts arbitrary: segs rule: parse_parts.induct)
  case (2 wc part rest)
  then show ?case
    by (auto simp: wf_segments_def literal_ok_def split: if_splits sum.splits)
qed (simp add: wf_segments_def)

lemma parse_parts_ne: "parse_parts wc parts = Ok segs \<Longrightarrow> parts \<noteq> [] \<Longrightarrow> segs \<noteq> []"
  using parse_parts_text by fastforce

lemma parse_wf: "RefPattern_parse s = Ok p \<Longrightarrow> wf_pattern p"
  by (auto simp: RefPattern_parse_def wf_pattern_def parse_parts_text parse_parts_wf
      dest: parse_parts_ne parse_parts_wild split: if_splits sum.splits)

lemma parse_raw: "RefPattern_parse s = Ok p \<Longrightarrow> raw p = s"
  by (auto simp: RefPattern_parse_def split: if_splits sum.splits)

section \<open>Matching, declaratively\<close>

text \<open>\<open>*\<close> takes one segment, a final \<open>**\<close> takes one or more.\<close>

inductive segs_match :: "PatternSegment list \<Rightarrow> string list \<Rightarrow> bool" where
  sm_nil: "segs_match [] []"
| sm_lit: "segs_match ps ss \<Longrightarrow> segs_match (Literal l # ps) (l # ss)"
| sm_wild: "segs_match ps ss \<Longrightarrow> segs_match (Wildcard # ps) (s # ss)"
| sm_rec: "ss \<noteq> [] \<Longrightarrow> segs_match [RecursiveWildcard] ss"

inductive_simps segs_match_simps [simp]:
  "segs_match [] ss"
  "segs_match (Literal l # ps) ss"
  "segs_match (Wildcard # ps) ss"
  "segs_match (RecursiveWildcard # ps) ss"

lemma zip_all_match_plain:
  "RecursiveWildcard \<notin> set ps \<Longrightarrow> length ss = length ps
    \<Longrightarrow> zip_all_match ps ss = Some (segs_match ps ss)"
proof (induction ps arbitrary: ss)
  case (Cons p ps)
  then obtain s ss' where "ss = s # ss'" by (cases ss) auto
  with Cons show ?case by (cases p) (auto split: bool.splits)
qed simp

lemma segs_match_length_plain:
  "segs_match ps ss \<Longrightarrow> RecursiveWildcard \<notin> set ps \<Longrightarrow> length ss = length ps"
  by (induction rule: segs_match.induct) auto

lemma segs_match_rec_snoc:
  "RecursiveWildcard \<notin> set ps \<Longrightarrow>
    segs_match (ps @ [RecursiveWildcard]) ss \<longleftrightarrow>
      length ps < length ss \<and> segs_match ps (take (length ps) ss)"
proof (induction ps arbitrary: ss)
  case (Cons p ps)
  then show ?case by (cases p; cases ss) auto
qed auto

lemma wf_segments_cases:
  assumes "wf_segments segs"
  obtains (plain) "RecursiveWildcard \<notin> set segs"
  | (recursive) ps where "segs = ps @ [RecursiveWildcard]" "RecursiveWildcard \<notin> set ps"
  using assms
  by (cases segs rule: rev_cases) (auto simp: wf_segments_def)

lemma matches_iff:
  assumes "wf_segments (segments pat)"
  shows "RefPattern_matches pat ref_name =
    Some (segs_match (segments pat) (split_on CHR ''/'' ref_name))"
  using assms
proof (cases rule: wf_segments_cases)
  case plain
  then have not_rec: "(segments pat \<noteq> [] \<and> last (segments pat) = RecursiveWildcard) = False"
    using last_in_set by metis
  have "length ss = length (segments pat)" if "segs_match (segments pat) ss" for ss
    using that plain by (rule segs_match_length_plain)
  then show ?thesis
    unfolding RefPattern_matches_def Let_def not_rec if_False
    using plain by (auto simp: zip_all_match_plain)
next
  case (recursive ps)
  then show ?thesis
    by (auto simp: RefPattern_matches_def Let_def zip_all_match_plain segs_match_rec_snoc)
qed

section \<open>The decision, declaratively\<close>

definition matching_rules :: "string \<Rightarrow> ProtectionRule list \<Rightarrow> ProtectionRule list" where
  "matching_rules ref_name rules =
     filter (\<lambda>r. RefPattern_matches (pattern r) ref_name = Some True) rules"

definition wf_rules :: "ProtectionRule list \<Rightarrow> bool" where
  "wf_rules rules = (\<forall>r \<in> set rules. wf_pattern (pattern r))"

text \<open>What one matching rule demands of an update by \<open>role\<close>.\<close>

definition rule_permits :: "RefUpdate \<Rightarrow> MemberRole \<Rightarrow> ProtectionRule \<Rightarrow> bool" where
  "rule_permits u role r =
     (\<not> require_patch r
      \<and> (case push_role r of None \<Rightarrow> True | Some q \<Rightarrow> q \<le> role)
      \<and> (no_force_push r \<longrightarrow> ru_kind u \<noteq> NonFastForward)
      \<and> (no_delete r \<longrightarrow> ru_kind u \<noteq> Delete))"

definition allowed_spec :: "RefUpdate \<Rightarrow> MemberRole \<Rightarrow> ProtectionRule list \<Rightarrow> bool" where
  "allowed_spec u role rules =
     (default_min_role (ru_ref_name u) (ru_kind u) \<le> role
      \<and> (\<forall>r \<in> set (matching_rules (ru_ref_name u) rules). rule_permits u role r))"

lemma rule_permits_mono: "rule_permits u role r \<Longrightarrow> role \<le> higher \<Longrightarrow> rule_permits u higher r"
  by (auto simp: rule_permits_def split: option.splits)

lemma for_ref_loop_fold:
  "wf_rules rules \<Longrightarrow>
    for_ref_loop ref_name e rules = Some (foldl union_rule e (matching_rules ref_name rules))"
proof (induction rules arbitrary: e)
  case (Cons r rules)
  then have "wf_segments (segments (pattern r))" and "wf_rules rules"
    by (auto simp: wf_rules_def wf_pattern_def)
  with Cons.IH show ?case
    by (auto simp: matching_rules_def matches_iff)
qed (simp add: matching_rules_def)

lemma for_ref_fold:
  "wf_rules rules \<Longrightarrow>
    for_ref ref_name rules = Some (foldl union_rule effective_start (matching_rules ref_name rules))"
  by (simp add: for_ref_def for_ref_loop_fold)

lemma fold_union_flags:
  "er_require_patch (foldl union_rule e rs) = (er_require_patch e \<or> (\<exists>r \<in> set rs. require_patch r))"
  "er_no_force_push (foldl union_rule e rs) = (er_no_force_push e \<or> (\<exists>r \<in> set rs. no_force_push r))"
  "er_no_delete (foldl union_rule e rs) = (er_no_delete e \<or> (\<exists>r \<in> set rs. no_delete r))"
  "er_has_explicit_match (foldl union_rule e rs) = (er_has_explicit_match e \<or> rs \<noteq> [])"
  by (induction rs arbitrary: e) (auto simp: union_rule_def)

text \<open>The role an accumulated push rule demands: none is below every role.\<close>

definition role_within :: "MemberRole option \<Rightarrow> MemberRole \<Rightarrow> bool" where
  "role_within req role = (case req of None \<Rightarrow> True | Some q \<Rightarrow> q \<le> role)"

lemma role_within_stricter: "stricter acc q \<le> role \<longleftrightarrow> role_within acc role \<and> q \<le> role"
  by (cases acc) (auto simp: role_within_def stricter_max)

lemma fold_union_role:
  "role_within (er_push_role (foldl union_rule e rs)) role \<longleftrightarrow>
     role_within (er_push_role e) role \<and> (\<forall>r \<in> set rs. role_within (push_role r) role)"
proof (induction rs arbitrary: e)
  case (Cons r rs)
  have "role_within (er_push_role (union_rule e r)) role \<longleftrightarrow>
      role_within (er_push_role e) role \<and> role_within (push_role r) role"
    by (auto simp: union_rule_def role_within_def role_within_stricter split: option.splits)
  with Cons.IH show ?case by auto
qed simp

lemma evaluate_effective_ok:
  "is_ok (evaluate_effective u role e) \<longleftrightarrow>
     default_min_role (ru_ref_name u) (ru_kind u) \<le> role
     \<and> (er_has_explicit_match e \<longrightarrow>
           \<not> er_require_patch e \<and> role_within (er_push_role e) role
           \<and> (er_no_force_push e \<longrightarrow> ru_kind u \<noteq> NonFastForward)
           \<and> (er_no_delete e \<longrightarrow> ru_kind u \<noteq> Delete))"
  by (auto simp: evaluate_effective_def Let_def has_at_least_iff role_within_def
      less_eq_MemberRole_def split: option.splits)

lemma evaluate_ref_update_spec:
  assumes "wf_rules rules"
  shows "\<exists>r. evaluate_ref_update u role rules = Some r \<and> (is_ok r \<longleftrightarrow> allowed_spec u role rules)"
proof -
  let ?ms = "matching_rules (ru_ref_name u) rules"
  have "is_ok (evaluate_effective u role (foldl union_rule effective_start ?ms)) \<longleftrightarrow>
      allowed_spec u role rules"
    unfolding evaluate_effective_ok fold_union_flags fold_union_role
    by (auto simp: allowed_spec_def rule_permits_def effective_start_def role_within_def)
  with assms show ?thesis
    by (simp add: evaluate_ref_update_def for_ref_fold)
qed

lemma evaluate_effective_ref:
  "evaluate_effective u role e = Inl d \<Longrightarrow> denied_ref d = ru_ref_name u"
  by (auto simp: evaluate_effective_def Let_def split: if_splits option.splits)

lemma collect_denials_spec:
  assumes "wf_rules rules"
  shows "\<exists>ds. collect_denials us role rules = Some ds
    \<and> map denied_ref ds = map ru_ref_name (filter (\<lambda>u. \<not> allowed_spec u role rules) us)"
proof (induction us)
  case (Cons u us)
  obtain r where r: "evaluate_ref_update u role rules = Some r"
    "is_ok r \<longleftrightarrow> allowed_spec u role rules"
    using evaluate_ref_update_spec [OF assms] by blast
  have "denied_ref d = ru_ref_name u" if "r = Inl d" for d
    using r(1) that by (auto simp: evaluate_ref_update_def dest: evaluate_effective_ref)
  with r Cons.IH show ?case
    by (cases r) auto
qed simp

section \<open>Parsed rules\<close>

definition wf_rule :: "ProtectionRule \<Rightarrow> bool" where
  "wf_rule r = (wf_pattern (pattern r)
     \<and> (case push_role r of None \<Rightarrow> True | Some q \<Rightarrow> Member \<le> q))"

lemma push_role_ge_Member: "q \<noteq> Bot \<Longrightarrow> q \<noteq> Guest \<Longrightarrow> Member \<le> q"
  by (cases q) simp_all

lemma parse_rules_wf:
  "parse_rules r us vs = Ok (r', us') \<Longrightarrow> wf_rule r \<Longrightarrow> wf_rule r' \<and> pattern r' = pattern r"
proof (induction r us vs rule: parse_rules.induct)
  case (2 r us v vs)
  have "wf_rule (r\<lparr>push_role := Some (stricter (push_role r) q)\<rparr>)"
    if "q \<noteq> Bot" "q \<noteq> Guest" for q
    using "2.prems"(2) push_role_ge_Member [OF that]
    by (auto simp: wf_rule_def stricter_max le_max_iff_disj split: option.splits)
  with "2" show ?case
    by (auto simp: wf_rule_def split: option.splits if_splits)
qed simp

lemma parse_rules_flags:
  "parse_rules r us vs = Ok (r', us') \<Longrightarrow>
     no_force_push r' = (no_force_push r \<or> ''no-force-push'' \<in> set vs)
   \<and> no_delete r' = (no_delete r \<or> ''no-delete'' \<in> set vs)
   \<and> require_patch r' = (require_patch r \<or> ''require-patch'' \<in> set vs)"
  by (induction r us vs rule: parse_rules.induct)
    (auto simp: strip_prefix_str_Some split: option.splits if_splits)

lemma push_str_inj: "''push:'' @ role_as_str q = ''push:'' @ role_as_str q' \<Longrightarrow> q = q'"
  by (metis role_from_as_str option.inject same_append_eq)

lemma parse_rules_roles:
  "parse_rules r us vs = Ok (r', us') \<Longrightarrow>
     role_within (push_role r') role \<longleftrightarrow>
       role_within (push_role r) role
       \<and> (\<forall>q. ''push:'' @ role_as_str q \<in> set vs \<longrightarrow> q \<le> role)"
proof (induction r us vs rule: parse_rules.induct)
  case (2 r us v vs)
  show ?case
  proof (cases "strip_prefix_str ''push:'' v")
    case None
    then have "v \<noteq> ''push:'' @ role_as_str q" for q
      by (metis strip_prefix_str_append option.distinct(1))
    then have tail: "(\<forall>q. ''push:'' @ role_as_str q \<in> set (v # vs) \<longrightarrow> q \<le> role) \<longleftrightarrow>
        (\<forall>q. ''push:'' @ role_as_str q \<in> set vs \<longrightarrow> q \<le> role)"
      by (metis set_ConsD list.set_intros(2))
    show ?thesis
      unfolding tail using None "2.prems" "2.IH"(1-4) [OF None]
      by (simp only: parse_rules.simps option.case) (simp split: if_splits)
  next
    case (Some rs)
    with "2.prems" obtain p where p: "role_from_str rs = Some p" "p \<noteq> Bot" "p \<noteq> Guest"
      and rec: "parse_rules (r\<lparr>push_role := Some (stricter (push_role r) p)\<rparr>) us vs = Ok (r', us')"
      by (auto split: option.splits if_splits)
    from Some p(1) have v: "v = ''push:'' @ role_as_str p"
      using role_from_str_Some strip_prefix_str_Some by metis
    have "role_within (push_role r') role \<longleftrightarrow>
        (role_within (push_role r) role \<and> p \<le> role)
        \<and> (\<forall>q. ''push:'' @ role_as_str q \<in> set vs \<longrightarrow> q \<le> role)"
      using "2.IH"(5) [OF Some p(1) _ rec] p(2,3)
      by (simp add: role_within_def [of "Some _"] role_within_stricter)
    then show ?thesis
      unfolding v using push_str_inj by fastforce
  qed
qed simp

lemma parse_tag_wf:
  "parse_protection_tag_with_warnings vs = Ok (r, us) \<Longrightarrow> wf_rule r"
  by (auto simp: parse_protection_tag_with_warnings_def wf_rule_def
      simp del: parse_rules.simps dest!: parse_rules_wf dest: parse_wf
      split: list.splits sum.splits)

lemma parse_tags_loop_wf:
  "parse_tags_loop acc tags = Ok pp \<Longrightarrow> \<forall>r \<in> set (pp_rules acc). wf_rule r
    \<Longrightarrow> length (pp_rules acc) \<le> MAX_PROTECTION_RULES
    \<Longrightarrow> (\<forall>r \<in> set (pp_rules pp). wf_rule r) \<and> length (pp_rules pp) \<le> MAX_PROTECTION_RULES"
proof (induction acc tags rule: parse_tags_loop.induct)
  case (2 acc tag rest)
  then show ?case
    by (auto split: list.splits if_splits sum.splits dest: parse_tag_wf)
qed simp

lemma parse_protection_tags_wf:
  "parse_protection_tags tags = Ok pp \<Longrightarrow> wf_rules (pp_rules pp)"
  using parse_tags_loop_wf [of "\<lparr>pp_rules = [], pp_unknown_rules = []\<rparr>" tags pp]
  by (auto simp: parse_protection_tags_def wf_rules_def wf_rule_def)

lemma evaluate_push_spec:
  assumes "wf_rules rules"
  shows "\<exists>res. evaluate_push us role rules = Some res
    \<and> (res = Ok () \<longleftrightarrow> list_all (\<lambda>u. allowed_spec u role rules) us)
    \<and> (\<forall>ds. res = Err ds \<longrightarrow> map denied_ref ds =
          map ru_ref_name (filter (\<lambda>u. \<not> allowed_spec u role rules) us))"
proof -
  obtain ds where ds: "collect_denials us role rules = Some ds"
    "map denied_ref ds = map ru_ref_name (filter (\<lambda>u. \<not> allowed_spec u role rules) us)"
    using collect_denials_spec [OF assms] by blast
  from ds(2) have "ds = [] \<longleftrightarrow> filter (\<lambda>u. \<not> allowed_spec u role rules) us = []"
    by (metis map_is_Nil_conv)
  with ds show ?thesis
    by (auto simp: evaluate_push_def filter_empty_conv list_all_iff)
qed

section \<open>Properties\<close>

text \<open>
  C3. A pattern accepted by the parser is well formed (it prints back to its source, stays within
  the length and wildcard bounds, \<open>**\<close> only at the end), and matching it against any ref name
  returns the declarative answer: the \<open>unreachable!()\<close> branch is never taken.
\<close>
theorem ref_pattern_matches_spec:
  assumes "RefPattern_parse s = Ok p"
  shows "wf_pattern p \<and> raw p = s
    \<and> RefPattern_matches p ref_name = Some (segs_match (segments p) (split_on CHR ''/'' ref_name))"
  using parse_wf [OF assms] parse_raw [OF assms] matches_iff [of p ref_name]
  by (simp add: wf_pattern_def)

theorem ref_pattern_matches_spec_witness:
  "\<exists>p. RefPattern_parse ''refs/heads/**'' = Ok p
    \<and> RefPattern_matches p ''refs/heads/a/b'' = Some True
    \<and> segs_match (segments p) (split_on CHR ''/'' ''refs/heads/a/b'')"
proof -
  let ?p = "\<lparr>raw = ''refs/heads/**'',
    segments = [Literal ''refs'', Literal ''heads'', RecursiveWildcard]\<rparr>"
  have p: "RefPattern_parse ''refs/heads/**'' = Ok ?p"
    by code_simp
  have "RefPattern_matches ?p ''refs/heads/a/b'' = Some True"
    by code_simp
  with p ref_pattern_matches_spec [OF p, of "''refs/heads/a/b''"] show ?thesis by auto
qed

text \<open>
  C2. The push decision is a conjunction over the ref updates and the matching rules: for rules
  parsed from an announcement the evaluation never panics, the push is accepted exactly when every
  update satisfies the built-in default and every matching rule, in any rule order, and otherwise
  the denials name exactly the refs that fail, in the order of the push.
\<close>
theorem evaluate_push_decision:
  assumes "parse_protection_tags tags = Ok pp"
  shows "\<exists>res. evaluate_push us role (pp_rules pp) = Some res
    \<and> (res = Ok () \<longleftrightarrow> list_all (\<lambda>u. allowed_spec u role (pp_rules pp)) us)
    \<and> (\<forall>ds. res = Err ds \<longrightarrow> map denied_ref ds =
          map ru_ref_name (filter (\<lambda>u. \<not> allowed_spec u role (pp_rules pp)) us))"
  by (rule evaluate_push_spec [OF parse_protection_tags_wf [OF assms]])

definition sample_tags :: "string list list" where
  "sample_tags = [[''d'', ''repo''],
     [''lenos-protect'', ''refs/heads/main'', ''push:admin'', ''no-delete'', ''future'']]"

definition sample_main :: RefPattern where
  "sample_main = \<lparr>raw = ''refs/heads/main'',
     segments = [Literal ''refs'', Literal ''heads'', Literal ''main'']\<rparr>"

definition sample_rules :: "ProtectionRule list" where
  "sample_rules = [\<lparr>pattern = sample_main, push_role = Some Admin, no_force_push = False,
     no_delete = True, require_patch = False\<rparr>]"

definition sample_update :: RefUpdate where
  "sample_update = \<lparr>ru_ref_name = ''refs/heads/main'', ru_kind = FastForward,
     ru_old_oid = [], ru_new_oid = []\<rparr>"

lemma sample_ref: "ru_ref_name sample_update = ''refs/heads/main''"
  by (simp add: sample_update_def)

lemma sample_tags_parse:
  "parse_protection_tags sample_tags = Ok \<lparr>pp_rules = sample_rules, pp_unknown_rules = [''future'']\<rparr>"
  by code_simp

lemma sample_allowed:
  "allowed_spec sample_update Admin sample_rules" "\<not> allowed_spec sample_update Member sample_rules"
  by code_simp+

theorem evaluate_push_decision_witness:
  "evaluate_push [sample_update] Admin sample_rules = Some (Ok ())
   \<and> (\<exists>ds. evaluate_push [sample_update] Member sample_rules = Some (Err ds)
        \<and> map denied_ref ds = [''refs/heads/main''])"
proof -
  note d = evaluate_push_decision [OF sample_tags_parse, of "[sample_update]", simplified]
  from d [of Admin] have "evaluate_push [sample_update] Admin sample_rules = Some (Ok ())"
    by (auto simp: sample_allowed)
  moreover obtain res where "evaluate_push [sample_update] Member sample_rules = Some res"
    "res \<noteq> Ok ()" "\<forall>ds. res = Err ds \<longrightarrow> map denied_ref ds = [''refs/heads/main'']"
    using d [of Member] by (auto simp: sample_allowed sample_ref)
  ultimately show ?thesis by (cases res) auto
qed

text \<open>
  Protection rules only restrict. Adding rules to a repository never turns a refused update
  into an accepted one, a role that meets or exceeds an accepted role is accepted too, and no rule
  ever lets a guest or a bot role update a ref.
\<close>
theorem protection_never_weakens:
  assumes "wf_rules rules" "wf_rules extra"
    and "evaluate_ref_update u role (rules @ extra) = Some (Ok ())"
  shows "evaluate_ref_update u role rules = Some (Ok ())
    \<and> (has_at_least higher role \<longrightarrow> evaluate_ref_update u higher (rules @ extra) = Some (Ok ()))
    \<and> role \<noteq> Guest \<and> role \<noteq> Bot"
proof -
  have ok: "evaluate_ref_update u r rs = Some (Ok ()) \<longleftrightarrow> allowed_spec u r rs" if "wf_rules rs" for r rs
    using evaluate_ref_update_spec [OF that, of u r] by (auto simp: is_ok_unit_conv)
  have wf: "wf_rules (rules @ extra)" using assms(1,2) by (auto simp: wf_rules_def)
  from assms(3) have a: "allowed_spec u role (rules @ extra)" by (simp add: ok [OF wf])
  then have "Member \<le> role"
    by (auto simp: allowed_spec_def default_min_role_def Let_def
        split: UpdateKind.splits if_splits elim: order_trans [rotated])
  moreover from a have "allowed_spec u role rules"
    by (auto simp: allowed_spec_def matching_rules_def)
  moreover from a have "allowed_spec u higher (rules @ extra)" if "has_at_least higher role"
    using that by (auto simp: allowed_spec_def has_at_least_iff intro: rule_permits_mono)
  ultimately show ?thesis
    using ok [OF assms(1)] ok [OF wf] by auto
qed

theorem protection_never_weakens_witness:
  "evaluate_ref_update sample_update Admin ([] @ sample_rules) = Some (Ok ())
   \<and> evaluate_ref_update sample_update Admin [] = Some (Ok ())
   \<and> evaluate_ref_update sample_update Owner ([] @ sample_rules) = Some (Ok ())"
proof -
  have "evaluate_ref_update sample_update Admin ([] @ sample_rules) = Some (Ok ())"
    by code_simp
  moreover have "wf_rules sample_rules"
    using parse_protection_tags_wf [OF sample_tags_parse] by simp
  ultimately show ?thesis
    using protection_never_weakens [of "[]" sample_rules sample_update Admin Owner]
    by (simp add: wf_rules_def has_at_least_iff)
qed

end
