(* ===== verification/GitPolicy.thy ===== *)
theory GitPolicy
  imports GitPerms "HOL-Library.List_Lexorder" "HOL-Library.Char_ord" "HOL-Library.Multiset"
begin

text \<open>
  \<^verbatim>\<open>crates/lenos-relay/src/api/git/policy.rs\<close> and \<^verbatim>\<open>binding.rs\<close>: the pre-receive hook callback. The
  handler \<open>hook_policy_check\<close> is a function of the request and of a record \<open>policy_env\<close> that holds
  what it calls outside this repository's own logic: HMAC-SHA256, hex and UUID parsing, the clock,
  the configured secret and the four database lookups (each may fail). Every early return is a
  \<open>Forbidden\<close> response with the source's body. The lemmas show what an allow answer implies, and
  that the HMAC message determines the request.
\<close>


record HookRefUpdate =
  old_oid :: string
  new_oid :: string
  ref_name :: string
  is_ancestor :: bool

record HookCallbackRequest =
  repo_id :: string
  repo_owner :: string
  community_id :: string
  pusher_pubkey :: string
  ref_updates :: "HookRefUpdate list"
  timestamp :: nat
  signature :: string

datatype HookCallbackResponse =
    Forbidden string
  | AllowedPush
  | DeniedPush "Denial list"

text \<open>The kind 30617 announcement: its author (hex) and the slices of its tags.\<close>

record RepoEvent =
  repo_author :: string
  repo_tags :: "string list list"

record policy_env =
  hmac_sha256 :: "string \<Rightarrow> string \<Rightarrow> string"
  hex_decode :: "string \<Rightarrow> string option"
  uuid_parse :: "string \<Rightarrow> uuid option"
  now_secs :: nat
  hook_secret :: string
  query_repo :: "uuid \<Rightarrow> string \<Rightarrow> string \<Rightarrow> (unit, RepoEvent option) result"
  get_channel_archived :: "uuid \<Rightarrow> uuid \<Rightarrow> (unit, bool) result"
  is_agent_owner :: "uuid \<Rightarrow> string \<Rightarrow> string \<Rightarrow> (unit, bool) result"
  get_member_role :: "uuid \<Rightarrow> uuid \<Rightarrow> string \<Rightarrow> (unit, string option) result"

definition MAX_CALLBACK_AGE_SECS :: nat where "MAX_CALLBACK_AGE_SECS = 30"

section \<open>Channel binding\<close>

datatype RepoBinding = NotBound | Bound uuid | Broken

definition resolve_repo_binding :: "policy_env \<Rightarrow> string list list \<Rightarrow> RepoBinding" where
  "resolve_repo_binding env tags =
     (case find (\<lambda>t. t \<noteq> [] \<and> hd t = ''lenos-channel'') tags of
        None \<Rightarrow> NotBound
      | Some (_ # v # _) \<Rightarrow>
          (case uuid_parse env v of Some i \<Rightarrow> Bound i | None \<Rightarrow> Broken)
      | Some _ \<Rightarrow> Broken)"

section \<open>The HMAC message\<close>

definition hmac_ref :: "HookRefUpdate \<Rightarrow> string" where
  "hmac_ref r =
     old_oid r @ new_oid r @ nat_to_string (length (ref_name r)) @ '':'' @ ref_name r
     @ (if is_ancestor r then ''1'' else ''0'')"

definition hmac_payload :: "HookCallbackRequest \<Rightarrow> string" where
  "hmac_payload req =
     nat_to_string (length (repo_id req)) @ '':'' @ repo_id req @ ''|''
     @ repo_owner req @ ''|'' @ community_id req @ ''|'' @ pusher_pubkey req @ ''|''
     @ concat (map hmac_ref (sort_key ref_name (ref_updates req))) @ ''|''
     @ nat_to_string (timestamp req)"

definition compute_hmac :: "policy_env \<Rightarrow> string \<Rightarrow> HookCallbackRequest \<Rightarrow> string" where
  "compute_hmac env secret req = hmac_sha256 env secret (hmac_payload req)"

definition verify_hmac :: "policy_env \<Rightarrow> string \<Rightarrow> HookCallbackRequest \<Rightarrow> bool" where
  "verify_hmac env secret req =
     (case hex_decode env (signature req) of
        None \<Rightarrow> False
      | Some provided \<Rightarrow> compute_hmac env secret req = provided)"

section \<open>The handler\<close>

definition lowercase_hex :: "char \<Rightarrow> bool" where
  "lowercase_hex c = (is_ascii_hexdigit c \<and> \<not> is_ascii_upper c)"

definition invalid_ref :: "HookRefUpdate \<Rightarrow> string option" where
  "invalid_ref r =
     (if length (old_oid r) \<noteq> 40 \<or> \<not> list_all is_ascii_hexdigit (old_oid r) then
        Some ''invalid old_oid''
      else if length (new_oid r) \<noteq> 40 \<or> \<not> list_all is_ascii_hexdigit (new_oid r) then
        Some ''invalid new_oid''
      else if ref_name r = [] \<or> length (ref_name r) > 256 \<or> \<not> prefix ''refs/'' (ref_name r)
              \<or> sublist ''..'' (ref_name r)
              \<or> list_ex (\<lambda>b. of_char b \<le> (32::nat) \<or> of_char b = (127::nat)) (ref_name r) then
        Some ''invalid ref_name''
      else None)"

fun first_invalid_ref :: "HookRefUpdate list \<Rightarrow> string option" where
  "first_invalid_ref [] = None"
| "first_invalid_ref (r # rs) =
     (case invalid_ref r of Some why \<Rightarrow> Some why | None \<Rightarrow> first_invalid_ref rs)"

text \<open>Step 1, the structural checks; the community of a structurally valid request.\<close>

definition validate_fields ::
  "policy_env \<Rightarrow> HookCallbackRequest \<Rightarrow> (string, uuid) result" where
  "validate_fields env req =
     (if repo_id req = [] \<or> length (repo_id req) > 64 then Err ''invalid repo_id''
      else if length (repo_owner req) \<noteq> 64 \<or> \<not> list_all lowercase_hex (repo_owner req) then
        Err ''invalid repo_owner''
      else if length (pusher_pubkey req) \<noteq> 64 \<or> \<not> list_all lowercase_hex (pusher_pubkey req) then
        Err ''invalid pusher_pubkey''
      else (case uuid_parse env (community_id req) of
              None \<Rightarrow> Err ''invalid community_id''
            | Some community \<Rightarrow>
                if ref_updates req = [] \<or> length (ref_updates req) > 500 then
                  Err ''invalid ref_updates count''
                else (case first_invalid_ref (ref_updates req) of
                        Some why \<Rightarrow> Err why
                      | None \<Rightarrow> Ok community)))"

text \<open>Step 7, the pusher's role.\<close>

definition resolve_role ::
  "policy_env \<Rightarrow> uuid \<Rightarrow> HookCallbackRequest \<Rightarrow> RepoEvent \<Rightarrow> string \<Rightarrow> uuid option
    \<Rightarrow> (string, MemberRole) result" where
  "resolve_role env community req repo owner_bytes channel_id =
     (case hex_decode env (pusher_pubkey req) of
        None \<Rightarrow> Err ''invalid pusher pubkey''
      | Some pusher_bytes \<Rightarrow>
          if length pusher_bytes \<noteq> 32 then Err ''invalid pusher pubkey''
          else
            (let is_repo_owner = (pusher_pubkey req = repo_author repo)
             in case (if is_repo_owner then Ok False
                      else is_agent_owner env community owner_bytes pusher_bytes) of
                  Inl _ \<Rightarrow> Err ''internal error''
                | Inr is_managed_agent_owner \<Rightarrow>
                    if is_repo_owner \<or> is_managed_agent_owner then Ok Owner
                    else (case channel_id of
                            None \<Rightarrow> Err GIT_NO_CHANNEL_BINDING_BODY
                          | Some ch_id \<Rightarrow>
                              (case get_member_role env community ch_id pusher_bytes of
                                 Inl _ \<Rightarrow> Err ''internal error''
                               | Inr None \<Rightarrow> Err ''not a channel member''
                               | Inr (Some role_str) \<Rightarrow>
                                   (case role_from_str role_str of
                                      None \<Rightarrow> Err ''internal error''
                                    | Some role \<Rightarrow> Ok role)))))"

fun git_role :: "MemberRole \<Rightarrow> MemberRole" where
  "git_role Bot = Member"
| "git_role r = r"

definition to_ref_update :: "HookRefUpdate \<Rightarrow> RefUpdate" where
  "to_ref_update r =
     \<lparr>ru_ref_name = ref_name r, ru_kind = classify (old_oid r) (new_oid r) (is_ancestor r),
      ru_old_oid = old_oid r, ru_new_oid = new_oid r\<rparr>"

fun push_response :: "(Denial list, unit) result \<Rightarrow> HookCallbackResponse" where
  "push_response (Inr _) = AllowedPush"
| "push_response (Inl denials) = DeniedPush denials"

text \<open>Steps 5 to 9, once the announcement is loaded; \<open>None\<close> is a panic of the evaluation.\<close>

definition channel_of_binding :: "RepoBinding \<Rightarrow> (string, uuid option) result" where
  "channel_of_binding b =
     (case b of Bound i \<Rightarrow> Ok (Some i) | NotBound \<Rightarrow> Ok None
      | Broken \<Rightarrow> Err ''invalid channel binding'')"

definition check_archived :: "policy_env \<Rightarrow> uuid \<Rightarrow> uuid option \<Rightarrow> (string, unit) result" where
  "check_archived env community channel_id =
     (case channel_id of
        None \<Rightarrow> Ok ()
      | Some ch_id \<Rightarrow>
          (case get_channel_archived env community ch_id of
             Inl _ \<Rightarrow> Err ''internal error''
           | Inr archived \<Rightarrow>
               if archived then Err ''channel is archived (read-only)'' else Ok ()))"

definition policy_for_repo ::
  "policy_env \<Rightarrow> uuid \<Rightarrow> HookCallbackRequest \<Rightarrow> string \<Rightarrow> RepoEvent
    \<Rightarrow> HookCallbackResponse option" where
  "policy_for_repo env community req owner_bytes repo =
     (case parse_protection_tags (repo_tags repo) of
        Inl _ \<Rightarrow> Some (Forbidden ''malformed protection rules'')
      | Inr parsed \<Rightarrow>
          (case channel_of_binding (resolve_repo_binding env (repo_tags repo)) of
             Inl why \<Rightarrow> Some (Forbidden why)
           | Inr channel_id \<Rightarrow>
               (case check_archived env community channel_id of
                  Inl why \<Rightarrow> Some (Forbidden why)
                | Inr _ \<Rightarrow>
                    (case resolve_role env community req repo owner_bytes channel_id of
                       Inl why \<Rightarrow> Some (Forbidden why)
                     | Inr role \<Rightarrow>
                         map_option push_response
                           (evaluate_push (map to_ref_update (ref_updates req)) (git_role role)
                              (pp_rules parsed))))))"

definition hook_policy_check ::
  "policy_env \<Rightarrow> HookCallbackRequest \<Rightarrow> HookCallbackResponse option" where
  "hook_policy_check env req =
     (case validate_fields env req of
        Inl why \<Rightarrow> Some (Forbidden why)
      | Inr community \<Rightarrow>
          if \<not> verify_hmac env (hook_secret env) req then
            Some (Forbidden ''signature verification failed'')
          else if now_secs env - timestamp req > MAX_CALLBACK_AGE_SECS then
            Some (Forbidden ''callback expired'')
          else if timestamp req - now_secs env > 5 then
            Some (Forbidden ''callback timestamp invalid'')
          else
            (case hex_decode env (repo_owner req) of
               None \<Rightarrow> Some (Forbidden ''invalid repo owner'')
             | Some owner_bytes \<Rightarrow>
                 if length owner_bytes \<noteq> 32 then Some (Forbidden ''invalid repo owner'')
                 else
                   (case query_repo env community owner_bytes (repo_id req) of
                      Inl _ \<Rightarrow> Some (Forbidden ''internal error'')
                    | Inr None \<Rightarrow> Some (Forbidden ''repository not found'')
                    | Inr (Some repo) \<Rightarrow> policy_for_repo env community req owner_bytes repo)))"

section \<open>What an allow answer implies\<close>

lemma policy_for_repo_total:
  "\<exists>r. policy_for_repo env community req owner_bytes repo = Some r"
proof (cases "parse_protection_tags (repo_tags repo)")
  case (Inr parsed)
  obtain res where "evaluate_push us role (pp_rules parsed) = Some (res us role)" for us role
    using evaluate_push_spec [OF parse_protection_tags_wf [OF Inr]] by metis
  with Inr show ?thesis
    by (auto simp: policy_for_repo_def split: sum.splits)
qed (simp add: policy_for_repo_def)

lemma evaluate_push_ok_iff:
  "wf_rules rules \<Longrightarrow>
    evaluate_push us role rules = Some (Ok ()) \<longleftrightarrow> list_all (\<lambda>u. allowed_spec u role rules) us"
  using evaluate_push_spec [of rules us role] by auto

lemma push_response_allowed [simp]: "push_response r = AllowedPush \<longleftrightarrow> r = Ok ()"
  by (cases r) simp_all

lemma policy_for_repo_allowed:
  assumes "policy_for_repo env community req owner_bytes repo = Some AllowedPush"
  shows "\<exists>parsed channel_id role.
      parse_protection_tags (repo_tags repo) = Ok parsed
    \<and> channel_of_binding (resolve_repo_binding env (repo_tags repo)) = Ok channel_id
    \<and> check_archived env community channel_id = Ok ()
    \<and> resolve_role env community req repo owner_bytes channel_id = Ok role
    \<and> list_all (\<lambda>r. allowed_spec (to_ref_update r) (git_role role) (pp_rules parsed))
        (ref_updates req)"
proof -
  from assms obtain parsed channel_id role where
    p: "parse_protection_tags (repo_tags repo) = Ok parsed"
    and c: "channel_of_binding (resolve_repo_binding env (repo_tags repo)) = Ok channel_id"
      "check_archived env community channel_id = Ok ()"
      "resolve_role env community req repo owner_bytes channel_id = Ok role"
    and e: "evaluate_push (map to_ref_update (ref_updates req)) (git_role role) (pp_rules parsed)
        = Some (Ok ())"
    by (auto simp: policy_for_repo_def split: sum.splits)
  from e have "list_all (\<lambda>u. allowed_spec u (git_role role) (pp_rules parsed))
      (map to_ref_update (ref_updates req))"
    using evaluate_push_ok_iff [OF parse_protection_tags_wf [OF p]] by simp
  with p c show ?thesis
    by (auto simp: list.pred_map comp_def)
qed

section \<open>The HMAC message determines the request\<close>

lemma sep_append_eq:
  "c \<notin> set a \<Longrightarrow> c \<notin> set a' \<Longrightarrow> a @ c # x = a' @ c # x' \<Longrightarrow> a = a' \<and> x = x'"
proof (induction a arbitrary: a')
  case Nil
  then show ?case by (cases a') auto
next
  case (Cons y a)
  then show ?case by (cases a') auto
qed

text \<open>A length-prefixed field followed by anything.\<close>

lemma len_prefixed_eq:
  assumes "nat_to_string (length a) @ CHR '':'' # a @ x = nat_to_string (length b) @ CHR '':'' # b @ y"
  shows "a = b \<and> x = y"
proof -
  have "nat_to_string (length a) = nat_to_string (length b) \<and> a @ x = b @ y"
    using sep_append_eq [OF _ _ assms] nat_to_string_sep by simp
  then show ?thesis using nat_to_string_inj by auto
qed

definition wf_hook_ref :: "HookRefUpdate \<Rightarrow> bool" where
  "wf_hook_ref r = (length (old_oid r) = 40 \<and> length (new_oid r) = 40
     \<and> list_all is_ascii_hexdigit (old_oid r))"

lemma hmac_ref_eq:
  assumes "wf_hook_ref r" "wf_hook_ref s" "hmac_ref r @ x = hmac_ref s @ y"
  shows "r = s \<and> x = y"
proof -
  let ?flag = "\<lambda>r::HookRefUpdate. if is_ancestor r then CHR ''1'' else CHR ''0''"
  from assms have "old_oid r = old_oid s" "new_oid r = new_oid s"
    and rest: "nat_to_string (length (ref_name r)) @ CHR '':'' # ref_name r @ ?flag r # x
      = nat_to_string (length (ref_name s)) @ CHR '':'' # ref_name s @ ?flag s # y"
    by (auto simp: hmac_ref_def wf_hook_ref_def split: if_splits)
  moreover from len_prefixed_eq [OF rest]
  have "ref_name r = ref_name s" "is_ancestor r = is_ancestor s" "x = y"
    by (auto split: if_splits)
  ultimately show ?thesis by simp
qed

lemma hmac_ref_head:
  "wf_hook_ref r \<Longrightarrow> hmac_ref r @ x \<noteq> CHR ''|'' # y"
  by (cases "old_oid r") (auto simp: hmac_ref_def wf_hook_ref_def is_ascii_hexdigit_def)

lemma hmac_refs_eq:
  "list_all wf_hook_ref rs \<Longrightarrow> list_all wf_hook_ref ss \<Longrightarrow>
   concat (map hmac_ref rs) @ CHR ''|'' # x = concat (map hmac_ref ss) @ CHR ''|'' # y \<Longrightarrow>
   rs = ss \<and> x = y"
proof (induction rs arbitrary: ss)
  case Nil
  then show ?case
    by (cases ss) (auto dest: hmac_ref_head [THEN notE, OF _ sym])
next
  case (Cons r rs)
  then obtain s ss' where ss: "ss = s # ss'"
    by (cases ss) (auto dest: hmac_ref_head [THEN notE])
  with Cons.prems have "r = s \<and> concat (map hmac_ref rs) @ CHR ''|'' # x
      = concat (map hmac_ref ss') @ CHR ''|'' # y"
    by (intro hmac_ref_eq) auto
  with Cons ss show ?case by auto
qed

lemma first_invalid_ref_None:
  "first_invalid_ref rs = None \<Longrightarrow> list_all wf_hook_ref rs"
  by (induction rs) (auto simp: invalid_ref_def wf_hook_ref_def split: option.splits if_splits)

lemma validate_fields_Ok:
  assumes "validate_fields env req = Ok community"
  shows "length (repo_owner req) = 64" "length (pusher_pubkey req) = 64"
    "uuid_parse env (community_id req) = Some community"
    "list_all wf_hook_ref (sort_key ref_name (ref_updates req))"
  using assms first_invalid_ref_None
  by (auto simp: validate_fields_def list_all_iff split: if_splits option.splits)

lemma hmac_payload_determines:
  assumes v: "validate_fields env r1 = Ok c1" "validate_fields env r2 = Ok c2"
    and bar: "CHR ''|'' \<notin> set (community_id r1)" "CHR ''|'' \<notin> set (community_id r2)"
    and eq: "hmac_payload r1 = hmac_payload r2"
  shows "repo_id r1 = repo_id r2" "repo_owner r1 = repo_owner r2"
    "community_id r1 = community_id r2" "pusher_pubkey r1 = pusher_pubkey r2"
    "sort_key ref_name (ref_updates r1) = sort_key ref_name (ref_updates r2)"
    "timestamp r1 = timestamp r2"
proof -
  let ?tail = "\<lambda>r::HookCallbackRequest. concat (map hmac_ref (sort_key ref_name (ref_updates r)))
      @ CHR ''|'' # nat_to_string (timestamp r)"
  let ?mid = "\<lambda>r::HookCallbackRequest. pusher_pubkey r @ CHR ''|'' # ?tail r"
  note l = validate_fields_Ok [OF v(1)] validate_fields_Ok [OF v(2)]
  have "repo_id r1 = repo_id r2
      \<and> CHR ''|'' # repo_owner r1 @ CHR ''|'' # community_id r1 @ CHR ''|'' # ?mid r1
      = CHR ''|'' # repo_owner r2 @ CHR ''|'' # community_id r2 @ CHR ''|'' # ?mid r2"
    by (rule len_prefixed_eq) (use eq in \<open>simp add: hmac_payload_def\<close>)
  then have 1: "repo_id r1 = repo_id r2" "repo_owner r1 = repo_owner r2"
    and "community_id r1 @ CHR ''|'' # ?mid r1 = community_id r2 @ CHR ''|'' # ?mid r2"
    using l by auto
  then have 2: "community_id r1 = community_id r2" and "?mid r1 = ?mid r2"
    using sep_append_eq [OF bar] by auto
  then have 3: "pusher_pubkey r1 = pusher_pubkey r2" and "?tail r1 = ?tail r2"
    using l by auto
  then have "sort_key ref_name (ref_updates r1) = sort_key ref_name (ref_updates r2)
      \<and> nat_to_string (timestamp r1) = nat_to_string (timestamp r2)"
    using l by (intro hmac_refs_eq) auto
  with 1 2 3 show "repo_id r1 = repo_id r2" "repo_owner r1 = repo_owner r2"
    "community_id r1 = community_id r2" "pusher_pubkey r1 = pusher_pubkey r2"
    "sort_key ref_name (ref_updates r1) = sort_key ref_name (ref_updates r2)"
    "timestamp r1 = timestamp r2"
    using nat_to_string_inj by auto
qed

lemma hook_allowed:
  assumes "hook_policy_check env req = Some AllowedPush"
  obtains community owner_bytes repo where
    "validate_fields env req = Ok community"
    "verify_hmac env (hook_secret env) req"
    "now_secs env \<le> timestamp req + 30" "timestamp req \<le> now_secs env + 5"
    "query_repo env community owner_bytes (repo_id req) = Ok (Some repo)"
    "policy_for_repo env community req owner_bytes repo = Some AllowedPush"
  using assms
  by (auto simp: hook_policy_check_def MAX_CALLBACK_AGE_SECS_def
      split: sum.splits if_splits option.splits)

section \<open>Properties\<close>

text \<open>
  C1. The hook endpoint always answers, and it fails closed: an allow answer means that the HMAC
  over the request verified, the timestamp lies within the 30 s window (5 s into the future), the
  announcement was found in the request's community, its protection tags parsed, its channel
  binding is not broken and the bound channel is not archived, every database lookup on the way
  succeeded, and every ref update is permitted for the resolved role (bots as members).
\<close>
theorem hook_policy_fails_closed:
  "(\<exists>resp. hook_policy_check env req = Some resp)
   \<and> (hook_policy_check env req = Some AllowedPush \<longrightarrow>
       verify_hmac env (hook_secret env) req
       \<and> now_secs env \<le> timestamp req + 30 \<and> timestamp req \<le> now_secs env + 5
       \<and> (\<exists>community owner_bytes repo parsed channel_id role.
            uuid_parse env (community_id req) = Some community
          \<and> query_repo env community owner_bytes (repo_id req) = Ok (Some repo)
          \<and> parse_protection_tags (repo_tags repo) = Ok parsed
          \<and> channel_of_binding (resolve_repo_binding env (repo_tags repo)) = Ok channel_id
          \<and> (\<forall>ch. channel_id = Some ch \<longrightarrow> get_channel_archived env community ch = Ok False)
          \<and> resolve_role env community req repo owner_bytes channel_id = Ok role
          \<and> list_all (\<lambda>r. allowed_spec (to_ref_update r) (git_role role) (pp_rules parsed))
              (ref_updates req)))"
proof (intro conjI impI)
  show "\<exists>resp. hook_policy_check env req = Some resp"
    using policy_for_repo_total
    by (auto simp: hook_policy_check_def split: sum.splits option.splits)
next
  assume a: "hook_policy_check env req = Some AllowedPush"
  then obtain community owner_bytes repo where h:
    "validate_fields env req = Ok community"
    "verify_hmac env (hook_secret env) req"
    "now_secs env \<le> timestamp req + 30" "timestamp req \<le> now_secs env + 5"
    "query_repo env community owner_bytes (repo_id req) = Ok (Some repo)"
    "policy_for_repo env community req owner_bytes repo = Some AllowedPush"
    by (rule hook_allowed)
  have archived: "channel_id = Some ch \<Longrightarrow> get_channel_archived env community ch = Ok False"
    if "check_archived env community channel_id = Ok ()" for channel_id ch
    using that by (auto simp: check_archived_def split: option.splits sum.splits if_splits)
  show "verify_hmac env (hook_secret env) req" by (rule h(2))
  show "now_secs env \<le> timestamp req + 30" by (rule h(3))
  show "timestamp req \<le> now_secs env + 5" by (rule h(4))
  show "\<exists>community owner_bytes repo parsed channel_id role.
            uuid_parse env (community_id req) = Some community
          \<and> query_repo env community owner_bytes (repo_id req) = Ok (Some repo)
          \<and> parse_protection_tags (repo_tags repo) = Ok parsed
          \<and> channel_of_binding (resolve_repo_binding env (repo_tags repo)) = Ok channel_id
          \<and> (\<forall>ch. channel_id = Some ch \<longrightarrow> get_channel_archived env community ch = Ok False)
          \<and> resolve_role env community req repo owner_bytes channel_id = Ok role
          \<and> list_all (\<lambda>r. allowed_spec (to_ref_update r) (git_role role) (pp_rules parsed))
              (ref_updates req)"
    using policy_for_repo_allowed [OF h(6)] h(5) validate_fields_Ok(3) [OF h(1)] archived by blast
qed

definition sample_env :: policy_env where
  "sample_env =
     \<lparr>hmac_sha256 = (\<lambda>_ msg. msg), hex_decode = (\<lambda>s. Some (take 32 s)), uuid_parse = Some,
      now_secs = 1000, hook_secret = ''secret'',
      query_repo = (\<lambda>_ _ _. Ok (Some \<lparr>repo_author = replicate 64 CHR ''a'',
         repo_tags = [[''lenos-channel'', ''c1'']]\<rparr>)),
      get_channel_archived = (\<lambda>_ _. Ok False), is_agent_owner = (\<lambda>_ _ _. Ok False),
      get_member_role = (\<lambda>_ _ _. Ok (Some ''bot''))\<rparr>"

definition sample_req :: HookCallbackRequest where
  "sample_req =
     \<lparr>repo_id = ''repo'', repo_owner = replicate 64 CHR ''a'', community_id = ''c0'',
      pusher_pubkey = replicate 64 CHR ''b'',
      ref_updates = [\<lparr>old_oid = replicate 40 CHR ''1'', new_oid = replicate 40 CHR ''2'',
        ref_name = ''refs/heads/main'', is_ancestor = True\<rparr>],
      timestamp = 990, signature = []\<rparr>"

definition sample_env' :: policy_env where
  "sample_env' = sample_env\<lparr>hex_decode := (\<lambda>s. if s = [] then Some (hmac_payload sample_req)
     else Some (take 32 s))\<rparr>"

lemma sample_allowed_push: "hook_policy_check sample_env' sample_req = Some AllowedPush"
  by code_simp

theorem hook_policy_fails_closed_witness:
  "hook_policy_check sample_env' sample_req = Some AllowedPush
   \<and> verify_hmac sample_env' (hook_secret sample_env') sample_req"
  using hook_policy_fails_closed [of sample_env' sample_req] sample_allowed_push by simp

text \<open>
  C4. The HMAC message is unambiguous: two structurally valid requests with the same message agree
  on the repository, its owner, the community, the pusher, the timestamp and the ref updates (up to
  the order of the updates, which the message sorts away). The premise on the community string is
  a documented fact of the UUID syntax: no accepted form contains a vertical bar.
\<close>
theorem hmac_payload_injective:
  assumes "validate_fields env r1 = Ok c1" "validate_fields env r2 = Ok c2"
    and "\<And>s u. uuid_parse env s = Some u \<Longrightarrow> CHR ''|'' \<notin> set s"
    and "hmac_payload r1 = hmac_payload r2"
  shows "repo_id r1 = repo_id r2 \<and> repo_owner r1 = repo_owner r2
    \<and> community_id r1 = community_id r2 \<and> c1 = c2 \<and> pusher_pubkey r1 = pusher_pubkey r2
    \<and> timestamp r1 = timestamp r2 \<and> mset (ref_updates r1) = mset (ref_updates r2)"
proof -
  have u: "uuid_parse env (community_id r1) = Some c1" "uuid_parse env (community_id r2) = Some c2"
    using validate_fields_Ok(3) assms(1,2) by auto
  note d = hmac_payload_determines [OF assms(1,2) assms(3) [OF u(1)] assms(3) [OF u(2)] assms(4)]
  have "mset (ref_updates r1) = mset (ref_updates r2)"
    using d(5) by (metis mset_sort)
  with d u show ?thesis by auto
qed

definition strict_uuid :: "string \<Rightarrow> uuid option" where
  "strict_uuid s = (if CHR ''|'' \<in> set s then None else Some s)"

theorem hmac_payload_injective_witness:
  "validate_fields (sample_env\<lparr>uuid_parse := strict_uuid\<rparr>) sample_req = Ok ''c0''
   \<and> repo_id sample_req = repo_id (sample_req\<lparr>signature := ''x''\<rparr>)"
proof -
  have v: "validate_fields (sample_env\<lparr>uuid_parse := strict_uuid\<rparr>) sample_req = Ok ''c0''"
    "validate_fields (sample_env\<lparr>uuid_parse := strict_uuid\<rparr>) (sample_req\<lparr>signature := ''x''\<rparr>)
      = Ok ''c0''"
    by code_simp+
  have "repo_id sample_req = repo_id (sample_req\<lparr>signature := ''x''\<rparr>)"
    using hmac_payload_injective [OF v]
    by (simp add: strict_uuid_def hmac_payload_def split: if_splits)
  with v show ?thesis by simp
qed

text \<open>
  A broken channel binding refuses everyone, the repository owner included, and never with the
  remediation body reserved for unbound repositories.
\<close>
theorem broken_binding_refuses_all:
  assumes "resolve_repo_binding env (repo_tags repo) = Broken"
  shows "\<exists>why. policy_for_repo env community req owner_bytes repo = Some (Forbidden why)
    \<and> why \<noteq> GIT_NO_CHANNEL_BINDING_BODY"
  using assms
  by (auto simp: policy_for_repo_def channel_of_binding_def GIT_NO_CHANNEL_BINDING_BODY_def
      split: sum.splits)

theorem broken_binding_refuses_all_witness:
  "\<exists>why. policy_for_repo sample_env ''c0'' sample_req []
      \<lparr>repo_author = replicate 64 CHR ''b'',
       repo_tags = [[''lenos-channel''], [''lenos-channel'', ''c1'']]\<rparr>
      = Some (Forbidden why) \<and> why \<noteq> GIT_NO_CHANNEL_BINDING_BODY"
  by (rule broken_binding_refuses_all) (simp add: resolve_repo_binding_def)


end
