(* ===== verification/Kinds.thy ===== *)
theory Kinds
  imports Prelude
begin

text \<open>
  \<^verbatim>\<open>crates/lenos-core/src/kind.rs\<close>: the registry of event kinds, the kind lists that drive the read
  gates, and the classifiers the pipeline dispatches on. Kinds are \<open>nat\<close>: the code only compares
  them (the \<open>u32\<close> constants all fit the 16-bit kind of an event).
\<close>

section \<open>The constants\<close>

definition KIND_PROFILE :: nat where "KIND_PROFILE = 0"
definition KIND_TEXT_NOTE :: nat where "KIND_TEXT_NOTE = 1"
definition KIND_CONTACT_LIST :: nat where "KIND_CONTACT_LIST = 3"
definition KIND_MUTE_LIST :: nat where "KIND_MUTE_LIST = 10000"
definition KIND_PIN_LIST :: nat where "KIND_PIN_LIST = 10001"
definition KIND_NIP65_RELAY_LIST_METADATA :: nat where "KIND_NIP65_RELAY_LIST_METADATA = 10002"
definition KIND_BOOKMARK_LIST :: nat where "KIND_BOOKMARK_LIST = 10003"
definition KIND_EMOJI_LIST :: nat where "KIND_EMOJI_LIST = 10030"
definition KIND_FOLLOW_SET :: nat where "KIND_FOLLOW_SET = 30000"
definition KIND_BOOKMARK_SET :: nat where "KIND_BOOKMARK_SET = 30003"
definition KIND_EMOJI_SET :: nat where "KIND_EMOJI_SET = 30030"
definition KIND_CHANNEL_METADATA :: nat where "KIND_CHANNEL_METADATA = 41"
definition KIND_DELETION :: nat where "KIND_DELETION = 5"
definition KIND_REACTION :: nat where "KIND_REACTION = 7"
definition KIND_GIFT_WRAP :: nat where "KIND_GIFT_WRAP = 1059"
definition KIND_FILE_METADATA :: nat where "KIND_FILE_METADATA = 1063"
definition KIND_LONG_FORM :: nat where "KIND_LONG_FORM = 30023"
definition KIND_USER_STATUS :: nat where "KIND_USER_STATUS = 30315"
definition KIND_READ_STATE :: nat where "KIND_READ_STATE = 30078"
definition KIND_GROWTH_REPORT :: nat where "KIND_GROWTH_REPORT = 30079"
definition KIND_GROWTH_SUGGESTION :: nat where "KIND_GROWTH_SUGGESTION = 30080"
definition KIND_AUTH :: nat where "KIND_AUTH = 22242"
definition KIND_BLOSSOM_AUTH :: nat where "KIND_BLOSSOM_AUTH = 24242"
definition KIND_NOSTR_IDENTITY_BINDING :: nat where "KIND_NOSTR_IDENTITY_BINDING = 24243"
definition KIND_HTTP_AUTH :: nat where "KIND_HTTP_AUTH = 27235"
definition KIND_AGENT_PROFILE :: nat where "KIND_AGENT_PROFILE = 10100"
definition KIND_AGENT_ENGRAM :: nat where "KIND_AGENT_ENGRAM = 30174"
definition KIND_EVENT_REMINDER :: nat where "KIND_EVENT_REMINDER = 30300"
definition KIND_PUSH_LEASE :: nat where "KIND_PUSH_LEASE = 30350"
definition KIND_PERSONA :: nat where "KIND_PERSONA = 30175"
definition KIND_TEAM :: nat where "KIND_TEAM = 30176"
definition KIND_MANAGED_AGENT :: nat where "KIND_MANAGED_AGENT = 30177"
definition KIND_TEAM_CATALOG :: nat where "KIND_TEAM_CATALOG = 30178"
definition KIND_REPORT :: nat where "KIND_REPORT = 1984"
definition KIND_PRODUCT_FEEDBACK :: nat where "KIND_PRODUCT_FEEDBACK = 42000"
definition KIND_NIP29_PUT_USER :: nat where "KIND_NIP29_PUT_USER = 9000"
definition KIND_NIP29_REMOVE_USER :: nat where "KIND_NIP29_REMOVE_USER = 9001"
definition KIND_NIP29_EDIT_METADATA :: nat where "KIND_NIP29_EDIT_METADATA = 9002"
definition KIND_NIP29_DELETE_EVENT :: nat where "KIND_NIP29_DELETE_EVENT = 9005"
definition KIND_NIP29_CREATE_GROUP :: nat where "KIND_NIP29_CREATE_GROUP = 9007"
definition KIND_NIP29_DELETE_GROUP :: nat where "KIND_NIP29_DELETE_GROUP = 9008"
definition KIND_NIP29_CREATE_INVITE :: nat where "KIND_NIP29_CREATE_INVITE = 9009"
definition KIND_NIP29_JOIN_REQUEST :: nat where "KIND_NIP29_JOIN_REQUEST = 9021"
definition KIND_NIP29_LEAVE_REQUEST :: nat where "KIND_NIP29_LEAVE_REQUEST = 9022"
definition KIND_MODERATION_BAN :: nat where "KIND_MODERATION_BAN = 9040"
definition KIND_MODERATION_UNBAN :: nat where "KIND_MODERATION_UNBAN = 9041"
definition KIND_MODERATION_TIMEOUT :: nat where "KIND_MODERATION_TIMEOUT = 9042"
definition KIND_MODERATION_UNTIMEOUT :: nat where "KIND_MODERATION_UNTIMEOUT = 9043"
definition KIND_MODERATION_RESOLVE_REPORT :: nat where "KIND_MODERATION_RESOLVE_REPORT = 9044"
definition RELAY_ADMIN_ADD_MEMBER :: nat where "RELAY_ADMIN_ADD_MEMBER = 9030"
definition RELAY_ADMIN_REMOVE_MEMBER :: nat where "RELAY_ADMIN_REMOVE_MEMBER = 9031"
definition RELAY_ADMIN_CHANGE_ROLE :: nat where "RELAY_ADMIN_CHANGE_ROLE = 9032"
definition RELAY_ADMIN_SET_WORKSPACE_PROFILE :: nat where "RELAY_ADMIN_SET_WORKSPACE_PROFILE = 9033"
definition KIND_NIP43_MEMBERSHIP_LIST :: nat where "KIND_NIP43_MEMBERSHIP_LIST = 13534"
definition KIND_NIP43_MEMBER_ADDED :: nat where "KIND_NIP43_MEMBER_ADDED = 8000"
definition KIND_NIP43_MEMBER_REMOVED :: nat where "KIND_NIP43_MEMBER_REMOVED = 8001"
definition KIND_NIP43_LEAVE_REQUEST :: nat where "KIND_NIP43_LEAVE_REQUEST = 28936"
definition KIND_IA_ARCHIVE_REQUEST :: nat where "KIND_IA_ARCHIVE_REQUEST = 9035"
definition KIND_IA_UNARCHIVE_REQUEST :: nat where "KIND_IA_UNARCHIVE_REQUEST = 9036"
definition KIND_IA_ARCHIVED :: nat where "KIND_IA_ARCHIVED = 8002"
definition KIND_IA_UNARCHIVED :: nat where "KIND_IA_UNARCHIVED = 8003"
definition KIND_IA_ARCHIVED_LIST :: nat where "KIND_IA_ARCHIVED_LIST = 13535"
definition KIND_NIP29_GROUP_METADATA :: nat where "KIND_NIP29_GROUP_METADATA = 39000"
definition KIND_NIP29_GROUP_ADMINS :: nat where "KIND_NIP29_GROUP_ADMINS = 39001"
definition KIND_NIP29_GROUP_MEMBERS :: nat where "KIND_NIP29_GROUP_MEMBERS = 39002"
definition KIND_NIP29_GROUP_ROLES :: nat where "KIND_NIP29_GROUP_ROLES = 39003"
definition KIND_THREAD_SUMMARY :: nat where "KIND_THREAD_SUMMARY = 39005"
definition KIND_WINDOW_BOUNDS :: nat where "KIND_WINDOW_BOUNDS = 39006"
definition KIND_WORKFLOW_DEF :: nat where "KIND_WORKFLOW_DEF = 30620"
definition KIND_DM_VISIBILITY :: nat where "KIND_DM_VISIBILITY = 30622"
definition PARAM_REPLACEABLE_KIND_MIN :: nat where "PARAM_REPLACEABLE_KIND_MIN = 30000"
definition PARAM_REPLACEABLE_KIND_MAX :: nat where "PARAM_REPLACEABLE_KIND_MAX = 39999"
definition EPHEMERAL_KIND_MIN :: nat where "EPHEMERAL_KIND_MIN = 20000"
definition EPHEMERAL_KIND_MAX :: nat where "EPHEMERAL_KIND_MAX = 29999"
definition KIND_PRESENCE_UPDATE :: nat where "KIND_PRESENCE_UPDATE = 20001"
definition KIND_PAIRING :: nat where "KIND_PAIRING = 24134"
definition KIND_TYPING_INDICATOR :: nat where "KIND_TYPING_INDICATOR = 20002"
definition KIND_AGENT_OBSERVER_FRAME :: nat where "KIND_AGENT_OBSERVER_FRAME = 24200"
definition KIND_HUDDLE_REACTION :: nat where "KIND_HUDDLE_REACTION = 24810"
definition KIND_STREAM_MESSAGE :: nat where "KIND_STREAM_MESSAGE = 9"
definition KIND_STREAM_MESSAGE_V2 :: nat where "KIND_STREAM_MESSAGE_V2 = 40002"
definition KIND_STREAM_MESSAGE_EDIT :: nat where "KIND_STREAM_MESSAGE_EDIT = 40003"
definition KIND_STREAM_MESSAGE_PINNED :: nat where "KIND_STREAM_MESSAGE_PINNED = 40004"
definition KIND_STREAM_MESSAGE_BOOKMARKED :: nat where "KIND_STREAM_MESSAGE_BOOKMARKED = 40005"
definition KIND_STREAM_MESSAGE_SCHEDULED :: nat where "KIND_STREAM_MESSAGE_SCHEDULED = 40006"
definition KIND_STREAM_REMINDER :: nat where "KIND_STREAM_REMINDER = 40007"
definition KIND_STREAM_MESSAGE_DIFF :: nat where "KIND_STREAM_MESSAGE_DIFF = 40008"
definition KIND_CANVAS :: nat where "KIND_CANVAS = 40100"
definition KIND_SYSTEM_MESSAGE :: nat where "KIND_SYSTEM_MESSAGE = 40099"
definition KIND_CHANNEL_SUMMARY :: nat where "KIND_CHANNEL_SUMMARY = 40901"
definition KIND_PRESENCE_SNAPSHOT :: nat where "KIND_PRESENCE_SNAPSHOT = 40902"
definition KIND_DM_OPEN :: nat where "KIND_DM_OPEN = 41010"
definition KIND_DM_ADD_MEMBER :: nat where "KIND_DM_ADD_MEMBER = 41011"
definition KIND_DM_HIDE :: nat where "KIND_DM_HIDE = 41012"
definition KIND_DM_CREATED :: nat where "KIND_DM_CREATED = 41001"
definition KIND_JOB_REQUEST :: nat where "KIND_JOB_REQUEST = 43001"
definition KIND_JOB_ACCEPTED :: nat where "KIND_JOB_ACCEPTED = 43002"
definition KIND_JOB_PROGRESS :: nat where "KIND_JOB_PROGRESS = 43003"
definition KIND_JOB_RESULT :: nat where "KIND_JOB_RESULT = 43004"
definition KIND_JOB_CANCEL :: nat where "KIND_JOB_CANCEL = 43005"
definition KIND_JOB_ERROR :: nat where "KIND_JOB_ERROR = 43006"
definition KIND_MEMBER_ADDED_NOTIFICATION :: nat where "KIND_MEMBER_ADDED_NOTIFICATION = 44100"
definition KIND_MEMBER_REMOVED_NOTIFICATION :: nat where "KIND_MEMBER_REMOVED_NOTIFICATION = 44101"
definition KIND_AGENT_TURN_METRIC :: nat where "KIND_AGENT_TURN_METRIC = 44200"
definition KIND_FORUM_POST :: nat where "KIND_FORUM_POST = 45001"
definition KIND_FORUM_VOTE :: nat where "KIND_FORUM_VOTE = 45002"
definition KIND_FORUM_COMMENT :: nat where "KIND_FORUM_COMMENT = 45003"
definition KIND_WORKFLOW_TRIGGER :: nat where "KIND_WORKFLOW_TRIGGER = 46020"
definition KIND_APPROVAL_GRANT :: nat where "KIND_APPROVAL_GRANT = 46030"
definition KIND_APPROVAL_DENY :: nat where "KIND_APPROVAL_DENY = 46031"
definition KIND_WORKFLOW_TRIGGERED :: nat where "KIND_WORKFLOW_TRIGGERED = 46001"
definition KIND_WORKFLOW_STEP_STARTED :: nat where "KIND_WORKFLOW_STEP_STARTED = 46002"
definition KIND_WORKFLOW_STEP_COMPLETED :: nat where "KIND_WORKFLOW_STEP_COMPLETED = 46003"
definition KIND_WORKFLOW_STEP_FAILED :: nat where "KIND_WORKFLOW_STEP_FAILED = 46004"
definition KIND_WORKFLOW_COMPLETED :: nat where "KIND_WORKFLOW_COMPLETED = 46005"
definition KIND_WORKFLOW_FAILED :: nat where "KIND_WORKFLOW_FAILED = 46006"
definition KIND_WORKFLOW_CANCELLED :: nat where "KIND_WORKFLOW_CANCELLED = 46007"
definition KIND_WORKFLOW_APPROVAL_REQUESTED :: nat where "KIND_WORKFLOW_APPROVAL_REQUESTED = 46010"
definition KIND_WORKFLOW_APPROVAL_GRANTED :: nat where "KIND_WORKFLOW_APPROVAL_GRANTED = 46011"
definition KIND_WORKFLOW_APPROVAL_DENIED :: nat where "KIND_WORKFLOW_APPROVAL_DENIED = 46012"
definition KIND_AUDIT_ENTRY :: nat where "KIND_AUDIT_ENTRY = 48001"
definition KIND_HUDDLE_STARTED :: nat where "KIND_HUDDLE_STARTED = 48100"
definition KIND_HUDDLE_PARTICIPANT_JOINED :: nat where "KIND_HUDDLE_PARTICIPANT_JOINED = 48101"
definition KIND_HUDDLE_PARTICIPANT_LEFT :: nat where "KIND_HUDDLE_PARTICIPANT_LEFT = 48102"
definition KIND_HUDDLE_ENDED :: nat where "KIND_HUDDLE_ENDED = 48103"
definition KIND_HUDDLE_RECORDING :: nat where "KIND_HUDDLE_RECORDING = 48104"
definition KIND_HUDDLE_GUIDELINES :: nat where "KIND_HUDDLE_GUIDELINES = 48106"
definition KIND_MEDIA_UPLOAD :: nat where "KIND_MEDIA_UPLOAD = 49001"
definition KIND_GIT_REPO_ANNOUNCEMENT :: nat where "KIND_GIT_REPO_ANNOUNCEMENT = 30617"
definition KIND_GIT_REPO_STATE :: nat where "KIND_GIT_REPO_STATE = 30618"
definition KIND_GIT_PATCH :: nat where "KIND_GIT_PATCH = 1617"
definition KIND_GIT_PULL_REQUEST :: nat where "KIND_GIT_PULL_REQUEST = 1618"
definition KIND_GIT_PR_UPDATE :: nat where "KIND_GIT_PR_UPDATE = 1619"
definition KIND_GIT_ISSUE :: nat where "KIND_GIT_ISSUE = 1621"
definition KIND_GIT_STATUS_OPEN :: nat where "KIND_GIT_STATUS_OPEN = 1630"
definition KIND_GIT_STATUS_MERGED :: nat where "KIND_GIT_STATUS_MERGED = 1631"
definition KIND_GIT_STATUS_CLOSED :: nat where "KIND_GIT_STATUS_CLOSED = 1632"
definition KIND_GIT_STATUS_DRAFT :: nat where "KIND_GIT_STATUS_DRAFT = 1633"
definition KIND_PROJECT :: nat where "KIND_PROJECT = 30621"

lemmas kind_defs =
  KIND_PROFILE_def KIND_TEXT_NOTE_def KIND_CONTACT_LIST_def KIND_MUTE_LIST_def KIND_PIN_LIST_def
  KIND_NIP65_RELAY_LIST_METADATA_def KIND_BOOKMARK_LIST_def KIND_EMOJI_LIST_def
  KIND_FOLLOW_SET_def KIND_BOOKMARK_SET_def KIND_EMOJI_SET_def KIND_CHANNEL_METADATA_def
  KIND_DELETION_def KIND_REACTION_def KIND_GIFT_WRAP_def KIND_FILE_METADATA_def
  KIND_LONG_FORM_def KIND_USER_STATUS_def KIND_READ_STATE_def KIND_GROWTH_REPORT_def
  KIND_GROWTH_SUGGESTION_def KIND_AUTH_def KIND_BLOSSOM_AUTH_def KIND_NOSTR_IDENTITY_BINDING_def
  KIND_HTTP_AUTH_def KIND_AGENT_PROFILE_def KIND_AGENT_ENGRAM_def KIND_EVENT_REMINDER_def
  KIND_PUSH_LEASE_def KIND_PERSONA_def KIND_TEAM_def KIND_MANAGED_AGENT_def KIND_TEAM_CATALOG_def
  KIND_REPORT_def KIND_PRODUCT_FEEDBACK_def KIND_NIP29_PUT_USER_def KIND_NIP29_REMOVE_USER_def
  KIND_NIP29_EDIT_METADATA_def KIND_NIP29_DELETE_EVENT_def KIND_NIP29_CREATE_GROUP_def
  KIND_NIP29_DELETE_GROUP_def KIND_NIP29_CREATE_INVITE_def KIND_NIP29_JOIN_REQUEST_def
  KIND_NIP29_LEAVE_REQUEST_def KIND_MODERATION_BAN_def KIND_MODERATION_UNBAN_def
  KIND_MODERATION_TIMEOUT_def KIND_MODERATION_UNTIMEOUT_def KIND_MODERATION_RESOLVE_REPORT_def
  RELAY_ADMIN_ADD_MEMBER_def RELAY_ADMIN_REMOVE_MEMBER_def RELAY_ADMIN_CHANGE_ROLE_def
  RELAY_ADMIN_SET_WORKSPACE_PROFILE_def KIND_NIP43_MEMBERSHIP_LIST_def
  KIND_NIP43_MEMBER_ADDED_def KIND_NIP43_MEMBER_REMOVED_def KIND_NIP43_LEAVE_REQUEST_def
  KIND_IA_ARCHIVE_REQUEST_def KIND_IA_UNARCHIVE_REQUEST_def KIND_IA_ARCHIVED_def
  KIND_IA_UNARCHIVED_def KIND_IA_ARCHIVED_LIST_def KIND_NIP29_GROUP_METADATA_def
  KIND_NIP29_GROUP_ADMINS_def KIND_NIP29_GROUP_MEMBERS_def KIND_NIP29_GROUP_ROLES_def
  KIND_THREAD_SUMMARY_def KIND_WINDOW_BOUNDS_def KIND_WORKFLOW_DEF_def KIND_DM_VISIBILITY_def
  PARAM_REPLACEABLE_KIND_MIN_def PARAM_REPLACEABLE_KIND_MAX_def EPHEMERAL_KIND_MIN_def
  EPHEMERAL_KIND_MAX_def KIND_PRESENCE_UPDATE_def KIND_PAIRING_def KIND_TYPING_INDICATOR_def
  KIND_AGENT_OBSERVER_FRAME_def KIND_HUDDLE_REACTION_def KIND_STREAM_MESSAGE_def
  KIND_STREAM_MESSAGE_V2_def KIND_STREAM_MESSAGE_EDIT_def KIND_STREAM_MESSAGE_PINNED_def
  KIND_STREAM_MESSAGE_BOOKMARKED_def KIND_STREAM_MESSAGE_SCHEDULED_def KIND_STREAM_REMINDER_def
  KIND_STREAM_MESSAGE_DIFF_def KIND_CANVAS_def KIND_SYSTEM_MESSAGE_def KIND_CHANNEL_SUMMARY_def
  KIND_PRESENCE_SNAPSHOT_def KIND_DM_OPEN_def KIND_DM_ADD_MEMBER_def KIND_DM_HIDE_def
  KIND_DM_CREATED_def KIND_JOB_REQUEST_def KIND_JOB_ACCEPTED_def KIND_JOB_PROGRESS_def
  KIND_JOB_RESULT_def KIND_JOB_CANCEL_def KIND_JOB_ERROR_def KIND_MEMBER_ADDED_NOTIFICATION_def
  KIND_MEMBER_REMOVED_NOTIFICATION_def KIND_AGENT_TURN_METRIC_def KIND_FORUM_POST_def
  KIND_FORUM_VOTE_def KIND_FORUM_COMMENT_def KIND_WORKFLOW_TRIGGER_def KIND_APPROVAL_GRANT_def
  KIND_APPROVAL_DENY_def KIND_WORKFLOW_TRIGGERED_def KIND_WORKFLOW_STEP_STARTED_def
  KIND_WORKFLOW_STEP_COMPLETED_def KIND_WORKFLOW_STEP_FAILED_def KIND_WORKFLOW_COMPLETED_def
  KIND_WORKFLOW_FAILED_def KIND_WORKFLOW_CANCELLED_def KIND_WORKFLOW_APPROVAL_REQUESTED_def
  KIND_WORKFLOW_APPROVAL_GRANTED_def KIND_WORKFLOW_APPROVAL_DENIED_def KIND_AUDIT_ENTRY_def
  KIND_HUDDLE_STARTED_def KIND_HUDDLE_PARTICIPANT_JOINED_def KIND_HUDDLE_PARTICIPANT_LEFT_def
  KIND_HUDDLE_ENDED_def KIND_HUDDLE_RECORDING_def KIND_HUDDLE_GUIDELINES_def
  KIND_MEDIA_UPLOAD_def KIND_GIT_REPO_ANNOUNCEMENT_def KIND_GIT_REPO_STATE_def KIND_GIT_PATCH_def
  KIND_GIT_PULL_REQUEST_def KIND_GIT_PR_UPDATE_def KIND_GIT_ISSUE_def KIND_GIT_STATUS_OPEN_def
  KIND_GIT_STATUS_MERGED_def KIND_GIT_STATUS_CLOSED_def KIND_GIT_STATUS_DRAFT_def
  KIND_PROJECT_def

definition AUTHOR_ONLY_KINDS :: "nat list" where
  "AUTHOR_ONLY_KINDS = [KIND_EVENT_REMINDER, KIND_PUSH_LEASE]"

definition RESULT_GATED_KINDS :: "nat list" where
  "RESULT_GATED_KINDS = [KIND_DM_VISIBILITY, KIND_AGENT_TURN_METRIC]"

definition P_GATED_KINDS :: "nat list" where
  "P_GATED_KINDS = [KIND_AGENT_OBSERVER_FRAME, KIND_MEMBER_ADDED_NOTIFICATION,
     KIND_MEMBER_REMOVED_NOTIFICATION, KIND_GIFT_WRAP, KIND_DM_VISIBILITY,
     KIND_AGENT_TURN_METRIC]"

definition SHARED_GATED_KINDS :: "nat list" where
  "SHARED_GATED_KINDS = [KIND_PERSONA, KIND_TEAM_CATALOG]"

definition ALL_KINDS :: "nat list" where
  "ALL_KINDS = [KIND_PROFILE, KIND_TEXT_NOTE, KIND_CONTACT_LIST, KIND_MUTE_LIST, KIND_PIN_LIST,
     KIND_NIP65_RELAY_LIST_METADATA, KIND_BOOKMARK_LIST, KIND_EMOJI_LIST, KIND_FOLLOW_SET,
     KIND_BOOKMARK_SET, KIND_EMOJI_SET, KIND_CHANNEL_METADATA, KIND_DELETION, KIND_REACTION,
     KIND_GIFT_WRAP, KIND_FILE_METADATA, KIND_AGENT_PROFILE, KIND_AGENT_ENGRAM,
     KIND_EVENT_REMINDER, KIND_PERSONA, KIND_TEAM, KIND_MANAGED_AGENT, KIND_TEAM_CATALOG,
     KIND_REPORT, KIND_PRODUCT_FEEDBACK, KIND_NIP29_PUT_USER, KIND_NIP29_REMOVE_USER,
     KIND_NIP29_EDIT_METADATA, KIND_NIP29_DELETE_EVENT, KIND_NIP29_CREATE_GROUP,
     KIND_NIP29_DELETE_GROUP, KIND_NIP29_CREATE_INVITE, KIND_NIP29_JOIN_REQUEST,
     KIND_NIP29_LEAVE_REQUEST, KIND_MODERATION_BAN, KIND_MODERATION_UNBAN,
     KIND_MODERATION_TIMEOUT, KIND_MODERATION_UNTIMEOUT, KIND_MODERATION_RESOLVE_REPORT,
     RELAY_ADMIN_ADD_MEMBER, RELAY_ADMIN_REMOVE_MEMBER, RELAY_ADMIN_CHANGE_ROLE,
     RELAY_ADMIN_SET_WORKSPACE_PROFILE, KIND_NIP43_MEMBERSHIP_LIST, KIND_NIP43_MEMBER_ADDED,
     KIND_NIP43_MEMBER_REMOVED, KIND_NIP43_LEAVE_REQUEST, KIND_IA_ARCHIVE_REQUEST,
     KIND_IA_UNARCHIVE_REQUEST, KIND_IA_ARCHIVED, KIND_IA_UNARCHIVED, KIND_IA_ARCHIVED_LIST,
     KIND_NIP29_GROUP_METADATA, KIND_NIP29_GROUP_ADMINS, KIND_NIP29_GROUP_MEMBERS,
     KIND_NIP29_GROUP_ROLES, KIND_THREAD_SUMMARY, KIND_WINDOW_BOUNDS, KIND_PRESENCE_UPDATE,
     KIND_TYPING_INDICATOR, KIND_HUDDLE_REACTION, KIND_BLOSSOM_AUTH, KIND_PAIRING,
     KIND_AGENT_OBSERVER_FRAME, KIND_HTTP_AUTH, KIND_STREAM_MESSAGE, KIND_STREAM_MESSAGE_V2,
     KIND_STREAM_MESSAGE_EDIT, KIND_STREAM_MESSAGE_PINNED, KIND_STREAM_MESSAGE_BOOKMARKED,
     KIND_STREAM_MESSAGE_SCHEDULED, KIND_STREAM_REMINDER, KIND_STREAM_MESSAGE_DIFF, KIND_CANVAS,
     KIND_SYSTEM_MESSAGE, KIND_CHANNEL_SUMMARY, KIND_PRESENCE_SNAPSHOT, KIND_DM_VISIBILITY,
     KIND_DM_OPEN, KIND_DM_ADD_MEMBER, KIND_DM_HIDE, KIND_DM_CREATED, KIND_JOB_REQUEST,
     KIND_JOB_ACCEPTED, KIND_JOB_PROGRESS, KIND_JOB_RESULT, KIND_JOB_CANCEL, KIND_JOB_ERROR,
     KIND_MEMBER_ADDED_NOTIFICATION, KIND_MEMBER_REMOVED_NOTIFICATION, KIND_AGENT_TURN_METRIC,
     KIND_GROWTH_REPORT, KIND_GROWTH_SUGGESTION, KIND_WORKFLOW_DEF, KIND_LONG_FORM,
     KIND_USER_STATUS, KIND_READ_STATE, KIND_FORUM_POST, KIND_FORUM_VOTE, KIND_FORUM_COMMENT,
     KIND_WORKFLOW_TRIGGER, KIND_APPROVAL_GRANT, KIND_APPROVAL_DENY, KIND_WORKFLOW_TRIGGERED,
     KIND_WORKFLOW_STEP_STARTED, KIND_WORKFLOW_STEP_COMPLETED, KIND_WORKFLOW_STEP_FAILED,
     KIND_WORKFLOW_COMPLETED, KIND_WORKFLOW_FAILED, KIND_WORKFLOW_CANCELLED,
     KIND_WORKFLOW_APPROVAL_REQUESTED, KIND_WORKFLOW_APPROVAL_GRANTED,
     KIND_WORKFLOW_APPROVAL_DENIED, KIND_AUDIT_ENTRY, KIND_HUDDLE_STARTED,
     KIND_HUDDLE_PARTICIPANT_JOINED, KIND_HUDDLE_PARTICIPANT_LEFT, KIND_HUDDLE_ENDED,
     KIND_HUDDLE_RECORDING, KIND_HUDDLE_GUIDELINES, KIND_MEDIA_UPLOAD,
     KIND_GIT_REPO_ANNOUNCEMENT, KIND_GIT_REPO_STATE, KIND_GIT_PATCH, KIND_GIT_PULL_REQUEST,
     KIND_GIT_PR_UPDATE, KIND_GIT_ISSUE, KIND_GIT_STATUS_OPEN, KIND_GIT_STATUS_MERGED,
     KIND_GIT_STATUS_CLOSED, KIND_GIT_STATUS_DRAFT, KIND_PROJECT]"

section \<open>The classifiers\<close>

definition is_shared_gated_kind :: "nat \<Rightarrow> bool" where
  "is_shared_gated_kind kind = (kind \<in> set SHARED_GATED_KINDS)"

definition is_moderation_command_kind :: "nat \<Rightarrow> bool" where
  "is_moderation_command_kind kind =
     (kind \<in> {KIND_MODERATION_BAN, KIND_MODERATION_UNBAN, KIND_MODERATION_TIMEOUT,
        KIND_MODERATION_UNTIMEOUT, KIND_MODERATION_RESOLVE_REPORT})"

definition is_ephemeral :: "nat \<Rightarrow> bool" where
  "is_ephemeral kind = (kind \<ge> EPHEMERAL_KIND_MIN \<and> kind \<le> EPHEMERAL_KIND_MAX)"

definition is_replaceable :: "nat \<Rightarrow> bool" where
  "is_replaceable kind =
     (kind = 0 \<or> kind = 3 \<or> kind = KIND_CHANNEL_METADATA \<or> (10000 \<le> kind \<and> kind \<le> 19999))"

definition is_parameterized_replaceable :: "nat \<Rightarrow> bool" where
  "is_parameterized_replaceable kind =
     (kind \<ge> PARAM_REPLACEABLE_KIND_MIN \<and> kind \<le> PARAM_REPLACEABLE_KIND_MAX)"

definition is_workflow_execution_kind :: "nat \<Rightarrow> bool" where
  "is_workflow_execution_kind kind =
     (kind \<ge> KIND_WORKFLOW_TRIGGERED \<and> kind \<le> KIND_WORKFLOW_APPROVAL_DENIED)"

definition is_relay_admin_kind :: "nat \<Rightarrow> bool" where
  "is_relay_admin_kind kind =
     (kind \<in> {RELAY_ADMIN_ADD_MEMBER, RELAY_ADMIN_REMOVE_MEMBER, RELAY_ADMIN_CHANGE_ROLE,
        RELAY_ADMIN_SET_WORKSPACE_PROFILE})"

definition is_identity_archive_request_kind :: "nat \<Rightarrow> bool" where
  "is_identity_archive_request_kind kind =
     (kind \<in> {KIND_IA_ARCHIVE_REQUEST, KIND_IA_UNARCHIVE_REQUEST})"

definition is_command_kind :: "nat \<Rightarrow> bool" where
  "is_command_kind kind =
     (kind \<in> {KIND_WORKFLOW_DEF, KIND_DM_OPEN, KIND_DM_ADD_MEMBER, KIND_DM_HIDE,
        KIND_WORKFLOW_TRIGGER, KIND_APPROVAL_GRANT, KIND_APPROVAL_DENY})"

definition is_relay_only_kind :: "nat \<Rightarrow> bool" where
  "is_relay_only_kind kind =
     (kind \<in> {KIND_NIP43_MEMBERSHIP_LIST, KIND_CHANNEL_SUMMARY, KIND_PRESENCE_SNAPSHOT,
        KIND_DM_VISIBILITY, KIND_THREAD_SUMMARY, KIND_WINDOW_BOUNDS})"

lemmas kind_classes =
  is_shared_gated_kind_def is_moderation_command_kind_def is_ephemeral_def is_replaceable_def
  is_parameterized_replaceable_def is_workflow_execution_kind_def is_relay_admin_kind_def
  is_identity_archive_request_kind_def is_command_kind_def is_relay_only_kind_def

lemma replaceable_classes_disjoint:
  "\<not> (is_replaceable k \<and> is_parameterized_replaceable k)"
  "\<not> (is_replaceable k \<and> is_ephemeral k)"
  "\<not> (is_parameterized_replaceable k \<and> is_ephemeral k)"
  by (auto simp: kind_classes kind_defs)

lemma routed_kinds:
  "is_relay_admin_kind k \<longleftrightarrow> 9030 \<le> k \<and> k \<le> 9033"
  "is_identity_archive_request_kind k \<longleftrightarrow> 9035 \<le> k \<and> k \<le> 9036"
  "is_moderation_command_kind k \<longleftrightarrow> 9040 \<le> k \<and> k \<le> 9044"
  "is_workflow_execution_kind k \<longleftrightarrow> 46001 \<le> k \<and> k \<le> 46012"
  by (auto simp: kind_classes kind_defs)

section \<open>Properties\<close>

text \<open>
  Dispatch on the kind is unambiguous: a kind is in at most one of the storage classes
  (ephemeral, replaceable, parameterized replaceable) and in at most one of the routing classes
  (relay admin, identity archival, moderation, command, relay only, workflow execution), and none
  of the directly executed requests is an ephemeral or replaceable event.
\<close>
theorem kind_dispatch_unambiguous:
  "length (filter (\<lambda>p. p k) [is_ephemeral, is_replaceable, is_parameterized_replaceable]) \<le> 1
   \<and> length (filter (\<lambda>p. p k) [is_relay_admin_kind, is_identity_archive_request_kind,
        is_moderation_command_kind, is_command_kind, is_relay_only_kind,
        is_workflow_execution_kind]) \<le> 1
   \<and> \<not> ((is_relay_admin_kind k \<or> is_identity_archive_request_kind k \<or> is_moderation_command_kind k)
        \<and> (is_ephemeral k \<or> is_replaceable k \<or> is_parameterized_replaceable k))"
proof (intro conjI)
  show "length (filter (\<lambda>p. p k) [is_ephemeral, is_replaceable, is_parameterized_replaceable]) \<le> 1"
    using replaceable_classes_disjoint [of k] by auto
  have "is_command_kind k \<Longrightarrow> k \<in> {30620, 41010, 41011, 41012, 46020, 46030, 46031}"
    and "is_relay_only_kind k \<Longrightarrow> k \<in> {13534, 40901, 40902, 30622, 39005, 39006}"
    by (simp_all add: kind_classes kind_defs)
  then show "length (filter (\<lambda>p. p k) [is_relay_admin_kind, is_identity_archive_request_kind,
        is_moderation_command_kind, is_command_kind, is_relay_only_kind,
        is_workflow_execution_kind]) \<le> 1"
    by (auto simp: routed_kinds)
  show "\<not> ((is_relay_admin_kind k \<or> is_identity_archive_request_kind k \<or> is_moderation_command_kind k)
        \<and> (is_ephemeral k \<or> is_replaceable k \<or> is_parameterized_replaceable k))"
    unfolding routed_kinds
    by (auto simp: is_ephemeral_def is_replaceable_def is_parameterized_replaceable_def kind_defs)
qed

text \<open>
  The registry has no duplicate kind and every registered kind fits the 16-bit kind of an
  event. It is not complete, although its comment says "all registered kind constants": the
  NIP-42 auth kind, the identity-binding kind and the (author-only) push-lease kind are missing.
\<close>
theorem kind_registry_sound:
  "distinct ALL_KINDS \<and> list_all (\<lambda>k. k < 2 ^ 16) ALL_KINDS
   \<and> KIND_AUTH \<notin> set ALL_KINDS \<and> KIND_NOSTR_IDENTITY_BINDING \<notin> set ALL_KINDS
   \<and> KIND_PUSH_LEASE \<notin> set ALL_KINDS \<and> KIND_PUSH_LEASE \<in> set AUTHOR_ONLY_KINDS"
proof (intro conjI)
  show "distinct ALL_KINDS" by (simp add: ALL_KINDS_def kind_defs)
  show "list_all (\<lambda>k. k < 2 ^ 16) ALL_KINDS" by (simp add: ALL_KINDS_def kind_defs)
  show "KIND_AUTH \<notin> set ALL_KINDS" by (simp add: ALL_KINDS_def kind_defs)
  show "KIND_NOSTR_IDENTITY_BINDING \<notin> set ALL_KINDS" by (simp add: ALL_KINDS_def kind_defs)
  show "KIND_PUSH_LEASE \<notin> set ALL_KINDS" by (simp add: ALL_KINDS_def kind_defs)
  show "KIND_PUSH_LEASE \<in> set AUTHOR_ONLY_KINDS" by (simp add: AUTHOR_ONLY_KINDS_def)
qed

end
