(* ===== verification/Nostr.thy ===== *)
theory Nostr
  imports Kinds
begin

text \<open>
  The data of the \<open>nostr\<close> crate as the sources observe it, and \<^verbatim>\<open>crates/lenos-core/src/event.rs\<close>,
  \<^verbatim>\<open>filter.rs\<close> and the event predicates of \<^verbatim>\<open>kind.rs\<close>.

  The crate itself is not part of the repository, so a tag is the record of the three observations
  the code makes on it: \<open>t.kind().to_string()\<close>, \<open>t.content()\<close> and \<open>t.as_slice()\<close>. Event ids, public
  keys and UUIDs are their lowercase hexadecimal or canonical strings, as \<open>to_hex()\<close> and
  \<open>to_string()\<close> give them. A filter's sets (\<open>BTreeSet\<close>) are lists.
\<close>

type_synonym CommunityId = uuid

record Tag =
  tag_kind :: string
  tag_content :: "string option"
  tag_slice :: "string list"

record Event =
  ev_id :: string
  ev_pubkey :: string
  ev_created_at :: nat
  ev_kind :: nat
  ev_tags :: "Tag list"
  ev_content :: string

record Filter =
  f_ids :: "string list option"
  f_authors :: "string list option"
  f_kinds :: "nat list option"
  f_since :: "nat option"
  f_until :: "nat option"
  f_generic_tags :: "(string \<times> string list) list"

record StoredEvent =
  event :: Event
  received_at :: nat
  channel_id :: "uuid option"
  verified :: bool

definition StoredEvent_with_received_at ::
  "Event \<Rightarrow> nat \<Rightarrow> uuid option \<Rightarrow> bool \<Rightarrow> StoredEvent" where
  "StoredEvent_with_received_at e t ch v =
     \<lparr>event = e, received_at = t, channel_id = ch, verified = v\<rparr>"

definition StoredEvent_new :: "nat \<Rightarrow> Event \<Rightarrow> uuid option \<Rightarrow> StoredEvent" where
  "StoredEvent_new now e ch = \<lparr>event = e, received_at = now, channel_id = ch, verified = False\<rparr>"

section \<open>Event predicates of the kind registry\<close>

text \<open>The loop of \<open>event_is_shared\<close>; \<open>None\<close> is the early \<open>return false\<close>.\<close>

fun shared_count :: "nat \<Rightarrow> Tag list \<Rightarrow> nat option" where
  "shared_count count [] = Some count"
| "shared_count count (tag # tags) =
     (let parts = tag_slice tag
      in if length parts = 2 \<and> parts ! 0 = ''shared'' then
           (if parts ! 1 \<noteq> ''true'' then None else shared_count (count + 1) tags)
         else if parts \<noteq> [] \<and> parts ! 0 = ''shared'' then None
         else shared_count count tags)"

definition event_is_shared :: "Event \<Rightarrow> bool" where
  "event_is_shared e = (shared_count 0 (ev_tags e) = Some 1)"

definition is_unshared_gated_event :: "Event \<Rightarrow> string \<Rightarrow> bool" where
  "is_unshared_gated_event e requester_pubkey =
     (if \<not> is_shared_gated_kind (ev_kind e) then False
      else if ev_pubkey e = requester_pubkey then False
      else \<not> event_is_shared e)"

section \<open>Filter matching\<close>

definition reader_authorized_for_event :: "Event \<Rightarrow> string \<Rightarrow> bool" where
  "reader_authorized_for_event e reader_pubkey_hex =
     (if ev_kind e \<noteq> KIND_DM_VISIBILITY \<and> ev_kind e \<noteq> KIND_AGENT_TURN_METRIC then True
      else list_ex (\<lambda>t. tag_content t = Some reader_pubkey_hex)
             (filter (\<lambda>t. tag_kind t = ''p'') (ev_tags e)))"

text \<open>One iteration of the loop over \<open>generic_tags\<close>; \<open>False\<close> is its \<open>return false\<close>.\<close>

definition generic_tag_ok :: "StoredEvent \<Rightarrow> string \<times> string list \<Rightarrow> bool" where
  "generic_tag_ok ev kv =
     (let tag_key = fst kv; tag_values = snd kv; tags = ev_tags (event ev);
          has_match = list_ex (\<lambda>v. list_ex (\<lambda>t. tag_kind t = tag_key \<and> tag_content t = Some v) tags)
                        tag_values
      in if \<not> has_match \<and> tag_key = ''h'' then
           (if \<not> list_ex (\<lambda>t. tag_kind t = ''h'') tags then
              (case channel_id ev of
                 Some ch \<Rightarrow> list_ex (\<lambda>v. v = ch) tag_values
               | None \<Rightarrow> False)
            else False)
         else has_match)"

definition filter_match_one :: "Filter \<Rightarrow> StoredEvent \<Rightarrow> bool" where
  "filter_match_one f ev =
     (let e = event ev
      in if \<not> is_none_or (f_kinds f) (\<lambda>ks. ev_kind e \<in> set ks) then False
         else if \<not> is_none_or (f_authors f) (\<lambda>as. ev_pubkey e \<in> set as) then False
         else if \<not> is_none_or (f_since f) (\<lambda>t. \<not> ev_created_at e < t) then False
         else if \<not> is_none_or (f_until f) (\<lambda>t. \<not> ev_created_at e > t) then False
         else if \<not> is_none_or (f_ids f) (\<lambda>is. list_ex (\<lambda>i. prefix i (ev_id e)) is) then False
         else list_all (generic_tag_ok ev) (f_generic_tags f))"

definition filters_match :: "Filter list \<Rightarrow> StoredEvent \<Rightarrow> bool" where
  "filters_match fs ev = list_ex (\<lambda>f. filter_match_one f ev) fs"

lemma filter_match_one_kind:
  "filter_match_one f ev \<Longrightarrow> f_kinds f = Some ks \<Longrightarrow> ev_kind (event ev) \<in> set ks"
  by (auto simp: filter_match_one_def Let_def split: if_splits)

lemma filter_match_one_tag:
  "filter_match_one f ev \<Longrightarrow> kv \<in> set (f_generic_tags f) \<Longrightarrow> generic_tag_ok ev kv"
  by (auto simp: filter_match_one_def Let_def list_all_iff split: if_splits)

lemma generic_tag_ok_not_h:
  "generic_tag_ok ev (k, vs) \<Longrightarrow> k \<noteq> ''h'' \<Longrightarrow>
    \<exists>v \<in> set vs. \<exists>t \<in> set (ev_tags (event ev)). tag_kind t = k \<and> tag_content t = Some v"
  by (auto simp: generic_tag_ok_def Let_def list_ex_iff split: if_splits)

lemma filters_match_ex: "filters_match fs ev \<longleftrightarrow> (\<exists>f \<in> set fs. filter_match_one f ev)"
  by (auto simp: filters_match_def list_ex_iff)

section \<open>Properties\<close>

text \<open>
  A channel filter never selects an event of another channel: when a filter carries an
  \<open>#h\<close> constraint and matches, either the event itself names one of the requested channels in an
  \<open>h\<close> tag, or it has no \<open>h\<close> tag at all and the relay's own channel scope for it is one of them.
\<close>
theorem h_filter_scopes_channel:
  assumes "filter_match_one f ev" and "(''h'', chans) \<in> set (f_generic_tags f)"
  shows "(\<exists>t \<in> set (ev_tags (event ev)). tag_kind t = ''h'' \<and>
            (\<exists>c \<in> set chans. tag_content t = Some c))
    \<or> ((\<forall>t \<in> set (ev_tags (event ev)). tag_kind t \<noteq> ''h'') \<and>
        (\<exists>c \<in> set chans. channel_id ev = Some c))"
  using filter_match_one_tag [OF assms]
  by (auto simp: generic_tag_ok_def Let_def list_ex_iff split: if_splits option.splits)

definition sample_filter :: Filter where
  "sample_filter = \<lparr>f_ids = None, f_authors = None, f_kinds = Some [7], f_since = None,
     f_until = None, f_generic_tags = [(''h'', [''c1''])]\<rparr>"

definition sample_reaction :: StoredEvent where
  "sample_reaction = \<lparr>event = \<lparr>ev_id = ''ab'', ev_pubkey = ''cd'', ev_created_at = 5, ev_kind = 7,
     ev_tags = [], ev_content = ''+''\<rparr>, received_at = 6, channel_id = Some ''c1'', verified = True\<rparr>"

theorem h_filter_scopes_channel_witness:
  "filter_match_one sample_filter sample_reaction
   \<and> (\<exists>c \<in> set [''c1'']. channel_id sample_reaction = Some c)"
proof -
  have m: "filter_match_one sample_filter sample_reaction"
    by (simp add: filter_match_one_def sample_filter_def sample_reaction_def generic_tag_ok_def)
  have "(''h'', [''c1'']) \<in> set (f_generic_tags sample_filter)"
    by (simp add: sample_filter_def)
  from m h_filter_scopes_channel [OF m this] show ?thesis
    by (auto simp: sample_reaction_def)
qed

text \<open>
  Events of the author-only-unless-shared kinds reach a foreign reader only when they carry
  exactly one \<open>shared\<close> tag, of exactly two elements, with the value \<open>true\<close>; the author always
  reads them.
\<close>
theorem shared_gate_exact:
  "is_unshared_gated_event e reader \<longleftrightarrow>
     is_shared_gated_kind (ev_kind e) \<and> reader \<noteq> ev_pubkey e
     \<and> filter (\<lambda>s. s \<noteq> [] \<and> hd s = ''shared'') (map tag_slice (ev_tags e)) \<noteq> [[''shared'', ''true'']]"
proof -
  have count: "shared_count n ts = Some m \<longleftrightarrow>
      filter (\<lambda>s. s \<noteq> [] \<and> hd s = ''shared'') (map tag_slice ts) =
        replicate (m - n) [''shared'', ''true''] \<and> n \<le> m" for n m ts
  proof (induction ts arbitrary: n)
    case (Cons t ts)
    obtain xs where xs: "tag_slice t = xs" by simp
    consider (shared) "xs = [''shared'', ''true'']"
      | (bad) "xs \<noteq> [''shared'', ''true'']" "xs \<noteq> []" "hd xs = ''shared''"
      | (other) "\<not> (xs \<noteq> [] \<and> hd xs = ''shared'')"
      by blast
    then show ?case
    proof cases
      case shared
      then show ?thesis
        using xs Cons.IH [of "n + 1"]
        by (cases "m - n") (auto simp: Suc_diff_Suc)
    next
      case bad
      have "shared_count n (t # ts) = None"
        using xs bad
        by (cases xs; cases "tl xs") (auto simp: Let_def)
      with xs bad show ?thesis by (cases "m - n") auto
    next
      case other
      then show ?thesis
        using xs Cons.IH [of n] by (cases xs) (auto simp: Let_def)
    qed
  qed auto
  show ?thesis
    using count [of 0 "ev_tags e" 1]
    by (auto simp: is_unshared_gated_event_def event_is_shared_def)
qed

end
