(* ===== verification/Subscriptions.thy ===== *)
theory Subscriptions
  imports Nostr
begin

text \<open>
  \<^verbatim>\<open>crates/lenos-relay/src/subscription.rs\<close>: the registry of live WebSocket subscriptions and its five
  fan-out indexes.

  The registry is a record of the six \<open>DashMap\<close>s. \<open>register_scoped\<close>, \<open>remove_subscription\<close>,
  \<open>remove_connection\<close> and \<open>remove_channel_subscriptions_scoped\<close> are state-passing functions;
  \<open>fan_out_scoped\<close> reads. A \<open>HashSet\<close> that only guards pushes to a vector (\<open>seen\<close>) is the vector's
  own set. Metrics are left out.

  The abstract specification of the component is a plain map from (connection, subscription) to its
  entry. \<open>reg_inv\<close> says that the indexes hold exactly the entries the registered filters ask for; it
  is an invariant of every operation, and under it \<open>fan_out_scoped\<close> is the set of all registered
  subscriptions of the event's scope whose filters match.
\<close>

type_synonym ConnId = uuid
type_synonym SubId = string
type_synonym SubEntry = "Filter list \<times> CommunityId \<times> uuid option"
type_synonym sub_ref = "ConnId \<times> SubId"

record IndexKey =
  ik_channel_id :: uuid
  ik_kind :: nat

record GlobalPKindIndexKey =
  gp_community_id :: CommunityId
  gp_kind :: nat
  gp_p :: string

record RemovedSubscription =
  rs_community_id :: CommunityId
  rs_channel_id :: "uuid option"

record SubscriptionRegistry =
  subs :: "(ConnId, (SubId, SubEntry) hmap) hmap"
  channel_kind_index :: "(CommunityId \<times> IndexKey, sub_ref list) hmap"
  channel_wildcard_index :: "(CommunityId \<times> uuid, sub_ref list) hmap"
  global_kind_index :: "(CommunityId \<times> nat, sub_ref list) hmap"
  global_p_kind_index :: "(GlobalPKindIndexKey, sub_ref list) hmap"
  global_wildcard_index :: "(CommunityId, sub_ref list) hmap"

definition SubscriptionRegistry_new :: SubscriptionRegistry where
  "SubscriptionRegistry_new =
     \<lparr>subs = [], channel_kind_index = [], channel_wildcard_index = [], global_kind_index = [],
      global_p_kind_index = [], global_wildcard_index = []\<rparr>"

section \<open>Index keys of a subscription and of an event\<close>

fun extract_kinds_loop :: "nat list \<Rightarrow> Filter list \<Rightarrow> nat list option" where
  "extract_kinds_loop kinds [] = Some kinds"
| "extract_kinds_loop kinds (f # fs) =
     (case f_kinds f of
        Some filter_kinds \<Rightarrow> extract_kinds_loop (push_all_new kinds filter_kinds) fs
      | None \<Rightarrow> None)"

definition extract_kinds_from_filters :: "Filter list \<Rightarrow> nat list option" where
  "extract_kinds_from_filters filters = extract_kinds_loop [] filters"

definition p_tag :: string where "p_tag = ''p''"

text \<open>The keys of one filter, in the order of the two nested loops.\<close>

definition filter_p_keys :: "CommunityId \<Rightarrow> nat list \<Rightarrow> string list \<Rightarrow> GlobalPKindIndexKey list" where
  "filter_p_keys community_id kinds p_values =
     concat (map (\<lambda>kind. map (\<lambda>p. \<lparr>gp_community_id = community_id, gp_kind = kind, gp_p = p\<rparr>) p_values)
               kinds)"

fun global_p_keys_loop ::
  "CommunityId \<Rightarrow> GlobalPKindIndexKey list \<Rightarrow> Filter list \<Rightarrow> GlobalPKindIndexKey list option" where
  "global_p_keys_loop community_id keys [] = Some keys"
| "global_p_keys_loop community_id keys (f # fs) =
     (case f_kinds f of
        None \<Rightarrow> None
      | Some kinds \<Rightarrow>
          if kinds = [] then global_p_keys_loop community_id keys fs
          else (case hm_get (f_generic_tags f) p_tag of
                  None \<Rightarrow> None
                | Some p_values \<Rightarrow>
                    if p_values = [] then None
                    else global_p_keys_loop community_id
                           (push_all_new keys (filter_p_keys community_id kinds p_values)) fs))"

definition extract_global_p_kind_index_keys ::
  "CommunityId \<Rightarrow> Filter list \<Rightarrow> GlobalPKindIndexKey list option" where
  "extract_global_p_kind_index_keys community_id filters = global_p_keys_loop community_id [] filters"

fun p_values_loop :: "string list \<Rightarrow> Tag list \<Rightarrow> string list" where
  "p_values_loop values [] = values"
| "p_values_loop values (tag # tags) =
     (if tag_kind tag \<noteq> ''p'' then p_values_loop values tags
      else (case tag_content tag of
              Some v \<Rightarrow> p_values_loop (push_new values v) tags
            | None \<Rightarrow> p_values_loop values tags))"

definition event_p_tag_values :: "StoredEvent \<Rightarrow> string list" where
  "event_p_tag_values ev = p_values_loop [] (ev_tags (event ev))"

section \<open>Operations\<close>

definition remove_from_index ::
  "ConnId \<Rightarrow> SubId \<Rightarrow> Filter list \<Rightarrow> CommunityId \<Rightarrow> uuid option
    \<Rightarrow> SubscriptionRegistry \<Rightarrow> SubscriptionRegistry" where
  "remove_from_index conn_id sub_id filters community_id channel_id' r =
     (let x = (conn_id, sub_id)
      in case channel_id' of
           Some ch_id \<Rightarrow>
             (case extract_kinds_from_filters filters of
                None \<Rightarrow> r\<lparr>channel_wildcard_index :=
                          bucket_drop x (community_id, ch_id) (channel_wildcard_index r)\<rparr>
              | Some kinds \<Rightarrow>
                  if kinds = [] then r
                  else r\<lparr>channel_kind_index :=
                         foldl (\<lambda>m k. bucket_drop x k m) (channel_kind_index r)
                           (map (\<lambda>kind. (community_id, \<lparr>ik_channel_id = ch_id, ik_kind = kind\<rparr>)) kinds)\<rparr>)
         | None \<Rightarrow>
             (case extract_global_p_kind_index_keys community_id filters of
                Some keys \<Rightarrow> r\<lparr>global_p_kind_index :=
                               foldl (\<lambda>m k. bucket_drop x k m) (global_p_kind_index r) keys\<rparr>
              | None \<Rightarrow>
                  (case extract_kinds_from_filters filters of
                     None \<Rightarrow> r\<lparr>global_wildcard_index :=
                               bucket_drop x community_id (global_wildcard_index r)\<rparr>
                   | Some kinds \<Rightarrow>
                       if kinds = [] then r
                       else r\<lparr>global_kind_index :=
                              foldl (\<lambda>m k. bucket_drop x k m) (global_kind_index r)
                                (map (\<lambda>kind. (community_id, kind)) kinds)\<rparr>)))"

definition remove_subscription ::
  "ConnId \<Rightarrow> SubId \<Rightarrow> SubscriptionRegistry \<Rightarrow> RemovedSubscription option \<times> SubscriptionRegistry" where
  "remove_subscription conn_id sub_id r =
     (case hm_get (subs r) conn_id of
        None \<Rightarrow> (None, r)
      | Some conn_subs \<Rightarrow>
          (case hm_get conn_subs sub_id of
             None \<Rightarrow> (None, r)
           | Some (filters, community_id, channel_id') \<Rightarrow>
               let r1 = r\<lparr>subs := hm_insert conn_id (hm_remove sub_id conn_subs) (subs r)\<rparr>;
                   r2 = remove_from_index conn_id sub_id filters community_id channel_id' r1
               in (Some \<lparr>rs_community_id = community_id, rs_channel_id = channel_id'\<rparr>, r2)))"

text \<open>The second half of \<open>register_scoped\<close>: the index entries of a new subscription.\<close>

definition add_to_index ::
  "ConnId \<Rightarrow> SubId \<Rightarrow> Filter list \<Rightarrow> CommunityId \<Rightarrow> uuid option
    \<Rightarrow> SubscriptionRegistry \<Rightarrow> SubscriptionRegistry" where
  "add_to_index conn_id sub_id filters community_id channel_id' r =
     (let x = (conn_id, sub_id)
      in case channel_id' of
           Some ch_id \<Rightarrow>
             (case extract_kinds_from_filters filters of
                None \<Rightarrow> r\<lparr>channel_wildcard_index :=
                          bucket_push x (community_id, ch_id) (channel_wildcard_index r)\<rparr>
              | Some kinds \<Rightarrow>
                  if kinds = [] then r
                  else r\<lparr>channel_kind_index :=
                         foldl (\<lambda>m k. bucket_push x k m) (channel_kind_index r)
                           (map (\<lambda>kind. (community_id, \<lparr>ik_channel_id = ch_id, ik_kind = kind\<rparr>)) kinds)\<rparr>)
         | None \<Rightarrow>
             (case extract_global_p_kind_index_keys community_id filters of
                Some keys \<Rightarrow> r\<lparr>global_p_kind_index :=
                               foldl (\<lambda>m k. bucket_push x k m) (global_p_kind_index r) keys\<rparr>
              | None \<Rightarrow>
                  (case extract_kinds_from_filters filters of
                     None \<Rightarrow> r\<lparr>global_wildcard_index :=
                               bucket_push x community_id (global_wildcard_index r)\<rparr>
                   | Some kinds \<Rightarrow>
                       if kinds = [] then r
                       else r\<lparr>global_kind_index :=
                              foldl (\<lambda>m k. bucket_push x k m) (global_kind_index r)
                                (map (\<lambda>kind. (community_id, kind)) kinds)\<rparr>)))"

definition register_scoped ::
  "CommunityId \<Rightarrow> ConnId \<Rightarrow> SubId \<Rightarrow> Filter list \<Rightarrow> uuid option
    \<Rightarrow> SubscriptionRegistry \<Rightarrow> RemovedSubscription option \<times> SubscriptionRegistry" where
  "register_scoped community_id conn_id sub_id filters channel_id' r =
     (let (removed, r1) = remove_subscription conn_id sub_id r;
          conn_subs = unwrap_or (hm_get (subs r1) conn_id) [];
          r2 = r1\<lparr>subs := hm_insert conn_id
                           (hm_insert sub_id (filters, community_id, channel_id') conn_subs) (subs r1)\<rparr>
      in (removed, add_to_index conn_id sub_id filters community_id channel_id' r2))"

fun remove_all_from_index ::
  "ConnId \<Rightarrow> (SubId \<times> SubEntry) list \<Rightarrow> SubscriptionRegistry
    \<Rightarrow> RemovedSubscription list \<times> SubscriptionRegistry" where
  "remove_all_from_index conn_id [] r = ([], r)"
| "remove_all_from_index conn_id ((sub_id, filters, community_id, channel_id') # rest) r =
     (let r1 = remove_from_index conn_id sub_id filters community_id channel_id' r;
          (removed, r2) = remove_all_from_index conn_id rest r1
      in (\<lparr>rs_community_id = community_id, rs_channel_id = channel_id'\<rparr> # removed, r2))"

definition remove_connection ::
  "ConnId \<Rightarrow> SubscriptionRegistry \<Rightarrow> RemovedSubscription list \<times> SubscriptionRegistry" where
  "remove_connection conn_id r =
     (case hm_get (subs r) conn_id of
        Some conn_subs \<Rightarrow>
          remove_all_from_index conn_id conn_subs (r\<lparr>subs := hm_remove conn_id (subs r)\<rparr>)
      | None \<Rightarrow> ([], r))"

text \<open>The \<open>filter_map\<close> over the selected ids, one removal after another.\<close>

fun remove_subscriptions ::
  "ConnId \<Rightarrow> SubId list \<Rightarrow> SubscriptionRegistry
    \<Rightarrow> (SubId \<times> RemovedSubscription) list \<times> SubscriptionRegistry" where
  "remove_subscriptions conn_id [] r = ([], r)"
| "remove_subscriptions conn_id (sub_id # rest) r =
     (let (removed, r1) = remove_subscription conn_id sub_id r;
          (out, r2) = remove_subscriptions conn_id rest r1
      in (case removed of None \<Rightarrow> out | Some x \<Rightarrow> (sub_id, x) # out, r2))"

definition remove_channel_subscriptions_scoped ::
  "CommunityId \<Rightarrow> ConnId \<Rightarrow> uuid \<Rightarrow> SubscriptionRegistry
    \<Rightarrow> (SubId \<times> RemovedSubscription) list \<times> SubscriptionRegistry" where
  "remove_channel_subscriptions_scoped community_id conn_id ch r =
     (let sub_ids = unwrap_or
            (map_option (\<lambda>conn_subs. map fst (filter
                 (\<lambda>(sub_id, (_, sub_community_id, sub_channel_id)).
                    sub_community_id = community_id \<and> sub_channel_id = Some ch) conn_subs))
               (hm_get (subs r) conn_id)) []
      in remove_subscriptions conn_id sub_ids r)"

text \<open>The loop over the channel/kind index in \<open>channel_subscriber_conns_scoped\<close>.\<close>

definition kind_index_conns ::
  "CommunityId \<Rightarrow> uuid \<Rightarrow> (CommunityId \<times> IndexKey, sub_ref list) hmap \<Rightarrow> ConnId list" where
  "kind_index_conns community_id ch index =
     foldl (\<lambda>conns (key, refs).
         if fst key = community_id \<and> ik_channel_id (snd key) = ch
         then push_all_new conns (map fst refs) else conns) [] index"

definition channel_subscriber_conns_scoped ::
  "CommunityId \<Rightarrow> uuid \<Rightarrow> SubscriptionRegistry \<Rightarrow> ConnId list" where
  "channel_subscriber_conns_scoped community_id ch r =
     (let conns = kind_index_conns community_id ch (channel_kind_index r)
      in (case hm_get (channel_wildcard_index r) (community_id, ch) of
            Some refs \<Rightarrow> push_all_new conns (map fst refs)
          | None \<Rightarrow> conns))"

definition push_match ::
  "SubscriptionRegistry \<Rightarrow> CommunityId \<Rightarrow> StoredEvent \<Rightarrow> sub_ref list \<Rightarrow> sub_ref \<Rightarrow> sub_ref list" where
  "push_match r community_id ev results x =
     (case hm_get (subs r) (fst x) of
        Some conn_subs \<Rightarrow>
          (case hm_get conn_subs (snd x) of
             Some (filters, sub_community_id, sub_channel_id) \<Rightarrow>
               if sub_community_id = community_id \<and> sub_channel_id = channel_id ev
                  \<and> filters_match filters ev
               then push_new results x else results
           | None \<Rightarrow> results)
      | None \<Rightarrow> results)"

definition push_candidates ::
  "SubscriptionRegistry \<Rightarrow> CommunityId \<Rightarrow> StoredEvent \<Rightarrow> sub_ref list \<Rightarrow> sub_ref list option
    \<Rightarrow> sub_ref list" where
  "push_candidates r community_id ev results candidates =
     (case candidates of
        Some xs \<Rightarrow> foldl (push_match r community_id ev) results xs
      | None \<Rightarrow> results)"

definition fan_out_scoped ::
  "CommunityId \<Rightarrow> StoredEvent \<Rightarrow> SubscriptionRegistry \<Rightarrow> sub_ref list" where
  "fan_out_scoped community_id ev r =
     (let kind = ev_kind (event ev); push = push_candidates r community_id ev
      in case channel_id ev of
           Some ch \<Rightarrow>
             (let results = push [] (hm_get (channel_kind_index r)
                              (community_id, \<lparr>ik_channel_id = ch, ik_kind = kind\<rparr>))
              in push results (hm_get (channel_wildcard_index r) (community_id, ch)))
         | None \<Rightarrow>
             (let results = foldl (\<lambda>results p. push results (hm_get (global_p_kind_index r)
                              \<lparr>gp_community_id = community_id, gp_kind = kind, gp_p = p\<rparr>))
                              [] (event_p_tag_values ev);
                  results = push results (hm_get (global_kind_index r) (community_id, kind))
              in push results (hm_get (global_wildcard_index r) community_id)))"

definition get_filters :: "ConnId \<Rightarrow> SubId \<Rightarrow> SubscriptionRegistry \<Rightarrow> Filter list option" where
  "get_filters conn_id sub_id r =
     Option.bind (hm_get (subs r) conn_id) (\<lambda>conn_subs. map_option fst (hm_get conn_subs sub_id))"

definition total_subscriptions :: "SubscriptionRegistry \<Rightarrow> nat" where
  "total_subscriptions r = sum_list (map length (hm_values (subs r)))"

definition total_connections :: "SubscriptionRegistry \<Rightarrow> nat" where
  "total_connections r = length (subs r)"

definition count_entry :: "(CommunityId, nat) hmap \<Rightarrow> SubEntry \<Rightarrow> (CommunityId, nat) hmap" where
  "count_entry counts e =
     (let community_id = fst (snd e)
      in hm_insert community_id (unwrap_or (hm_get counts community_id) 0 + 1) counts)"

definition per_community_subscriptions :: "SubscriptionRegistry \<Rightarrow> (CommunityId, nat) hmap" where
  "per_community_subscriptions r =
     foldl (\<lambda>counts conn_subs. foldl count_entry counts (hm_values conn_subs)) [] (hm_values (subs r))"

section \<open>Facts on the keys\<close>

lemma extract_kinds_loop_wildcard:
  "f \<in> set fs \<Longrightarrow> f_kinds f = None \<Longrightarrow> extract_kinds_loop acc fs = None"
  by (induction fs arbitrary: acc) (auto split: option.splits)

lemma extract_kinds_loop_set:
  "extract_kinds_loop acc fs = Some ks \<Longrightarrow>
    set ks = set acc \<union> {k. \<exists>f \<in> set fs. \<exists>l. f_kinds f = Some l \<and> k \<in> set l}"
  by (induction fs arbitrary: acc) (fastforce split: option.splits)+

lemma extract_kinds_mem:
  assumes "extract_kinds_from_filters fs = Some ks" and "f \<in> set fs" and "filter_match_one f ev"
  shows "ev_kind (event ev) \<in> set ks"
proof -
  obtain l where "f_kinds f = Some l"
    using assms(1) extract_kinds_loop_wildcard [OF assms(2)]
    by (cases "f_kinds f") (auto simp: extract_kinds_from_filters_def)
  with filter_match_one_kind [OF assms(3)] assms(1,2) show ?thesis
    by (auto simp: extract_kinds_from_filters_def dest: extract_kinds_loop_set)
qed

lemma set_filter_p_keys [simp]:
  "set (filter_p_keys c kinds ps) =
     {\<lparr>gp_community_id = c, gp_kind = k, gp_p = p\<rparr> | k p. k \<in> set kinds \<and> p \<in> set ps}"
  by (auto simp: filter_p_keys_def)

lemma global_p_keys_loop_mono:
  "global_p_keys_loop c acc fs = Some keys \<Longrightarrow> set acc \<subseteq> set keys"
  by (induction fs arbitrary: acc) (fastforce split: option.splits if_splits)+

lemma set_p_values_loop:
  "set (p_values_loop acc ts) =
     set acc \<union> {v. \<exists>t \<in> set ts. tag_kind t = ''p'' \<and> tag_content t = Some v}"
  by (induction ts arbitrary: acc) (auto split: option.splits)

lemma global_p_keys_loop_mem:
  assumes "global_p_keys_loop c acc fs = Some keys" and "f \<in> set fs" and m: "filter_match_one f ev"
  shows "\<exists>p \<in> set (event_p_tag_values ev).
    \<lparr>gp_community_id = c, gp_kind = ev_kind (event ev), gp_p = p\<rparr> \<in> set keys"
  using assms(1,2)
proof (induction fs arbitrary: acc)
  case (Cons g fs)
  show ?case
  proof (cases "f = g")
    case True
    obtain ks where ks: "f_kinds f = Some ks" "ev_kind (event ev) \<in> set ks"
      using Cons.prems(1) True filter_match_one_kind [OF m] by (auto split: option.splits)
    then obtain ps where ps: "hm_get (f_generic_tags f) p_tag = Some ps"
      and keys: "global_p_keys_loop c (push_all_new acc (filter_p_keys c ks ps)) fs = Some keys"
      using Cons.prems(1) True by (auto split: option.splits if_splits)
    have "(''p'', ps) \<in> set (f_generic_tags f)"
      using ps by (auto simp: hm_get_def p_tag_def dest: map_of_SomeD)
    from generic_tag_ok_not_h [OF filter_match_one_tag [OF m this]]
    obtain p t where "p \<in> set ps" "t \<in> set (ev_tags (event ev))" "tag_kind t = ''p''"
      "tag_content t = Some p" by auto
    then have "p \<in> set (event_p_tag_values ev)"
      and "\<lparr>gp_community_id = c, gp_kind = ev_kind (event ev), gp_p = p\<rparr>
        \<in> set (push_all_new acc (filter_p_keys c ks ps))"
      using ks(2) by (auto simp: event_p_tag_values_def set_p_values_loop)
    then show ?thesis using global_p_keys_loop_mono [OF keys] by blast
  next
    case False
    then show ?thesis using Cons by (fastforce split: option.splits if_splits)
  qed
qed simp

section \<open>The indexes as one relation\<close>

text \<open>A place of one of the five indexes, and the places a subscription entry belongs to.\<close>

datatype index_ref =
    AtChannelKind "CommunityId \<times> IndexKey"
  | AtChannelWildcard "CommunityId \<times> uuid"
  | AtGlobalKind "CommunityId \<times> nat"
  | AtGlobalPKind GlobalPKindIndexKey
  | AtGlobalWildcard CommunityId

fun refs_at :: "SubscriptionRegistry \<Rightarrow> index_ref \<Rightarrow> sub_ref list" where
  "refs_at r (AtChannelKind k) = bucket (channel_kind_index r) k"
| "refs_at r (AtChannelWildcard k) = bucket (channel_wildcard_index r) k"
| "refs_at r (AtGlobalKind k) = bucket (global_kind_index r) k"
| "refs_at r (AtGlobalPKind k) = bucket (global_p_kind_index r) k"
| "refs_at r (AtGlobalWildcard k) = bucket (global_wildcard_index r) k"

definition places :: "SubEntry \<Rightarrow> index_ref list" where
  "places e = (case e of (fs, c, Some ch) \<Rightarrow>
        (case extract_kinds_from_filters fs of
           None \<Rightarrow> [AtChannelWildcard (c, ch)]
         | Some ks \<Rightarrow> map (\<lambda>k. AtChannelKind (c, \<lparr>ik_channel_id = ch, ik_kind = k\<rparr>)) ks)
    | (fs, c, None) \<Rightarrow>
        (case extract_global_p_kind_index_keys c fs of
           Some keys \<Rightarrow> map AtGlobalPKind keys
         | None \<Rightarrow>
             (case extract_kinds_from_filters fs of
                None \<Rightarrow> [AtGlobalWildcard c]
              | Some ks \<Rightarrow> map (\<lambda>k. AtGlobalKind (c, k)) ks)))"

definition event_places :: "CommunityId \<Rightarrow> StoredEvent \<Rightarrow> index_ref list" where
  "event_places c ev = (case channel_id ev of
       Some ch \<Rightarrow> [AtChannelKind (c, \<lparr>ik_channel_id = ch, ik_kind = ev_kind (event ev)\<rparr>),
                   AtChannelWildcard (c, ch)]
     | None \<Rightarrow> map (\<lambda>p. AtGlobalPKind \<lparr>gp_community_id = c, gp_kind = ev_kind (event ev), gp_p = p\<rparr>)
                 (event_p_tag_values ev)
               @ [AtGlobalKind (c, ev_kind (event ev)), AtGlobalWildcard c])"

definition lookup :: "SubscriptionRegistry \<Rightarrow> sub_ref \<Rightarrow> SubEntry option" where
  "lookup r x = (case hm_get (subs r) (fst x) of None \<Rightarrow> None | Some m \<Rightarrow> hm_get m (snd x))"

lemma lookup_subs_update [simp]:
  "refs_at (r\<lparr>subs := m\<rparr>) = refs_at r"
  by (rule ext) (case_tac x; simp)

lemma add_to_index_subs [simp]: "subs (add_to_index c s fs co ch r) = subs r"
  by (simp add: add_to_index_def Let_def split: option.splits)

lemma remove_from_index_subs [simp]: "subs (remove_from_index c s fs co ch r) = subs r"
  by (simp add: remove_from_index_def Let_def split: option.splits)

lemma add_to_index_refs:
  "set (refs_at (add_to_index c s fs co ch r) k) =
     set (refs_at r k) \<union> (if k \<in> set (places (fs, co, ch)) then {(c, s)} else {})"
  by (cases k) (auto simp: add_to_index_def places_def Let_def bucket_push_at bk.push_all_set
        split: option.splits)

lemma remove_from_index_refs:
  "set (refs_at (remove_from_index c s fs co ch r) k) =
     set (refs_at r k) - (if k \<in> set (places (fs, co, ch)) then {(c, s)} else {})"
  by (cases k) (auto simp: remove_from_index_def places_def Let_def bucket_drop_at bk.drop_all_set
        split: option.splits)

text \<open>A matching subscription of the event's scope sits in one of the places the event looks up.\<close>

lemma places_meet_event:
  assumes "filters_match fs ev"
  shows "set (places (fs, c, channel_id ev)) \<inter> set (event_places c ev) \<noteq> {}"
proof -
  obtain f where f: "f \<in> set fs" "filter_match_one f ev"
    using assms by (auto simp: filters_match_ex)
  have kinds: "ev_kind (event ev) \<in> set ks" if "extract_kinds_from_filters fs = Some ks" for ks
    using extract_kinds_mem [OF that f] .
  have keys: "\<exists>p \<in> set (event_p_tag_values ev).
      \<lparr>gp_community_id = c, gp_kind = ev_kind (event ev), gp_p = p\<rparr> \<in> set ks"
    if "extract_global_p_kind_index_keys c fs = Some ks" for ks
    using global_p_keys_loop_mem [OF _ f] that by (simp add: extract_global_p_kind_index_keys_def)
  show ?thesis
    using kinds keys
    by (cases "channel_id ev"; cases "extract_kinds_from_filters fs";
        cases "extract_global_p_kind_index_keys c fs")
      (fastforce simp: places_def event_places_def)+
qed
section \<open>Refinement to a map of subscriptions\<close>

definition reg_inv :: "SubscriptionRegistry \<Rightarrow> bool" where
  "reg_inv r \<longleftrightarrow>
     hm_wf (subs r) \<and> (\<forall>c m. hm_get (subs r) c = Some m \<longrightarrow> hm_wf m)
     \<and> hm_wf (channel_kind_index r)
     \<and> (\<forall>k x. x \<in> set (refs_at r k) \<longleftrightarrow> (\<exists>e. lookup r x = Some e \<and> k \<in> set (places e)))"

lemma reg_inv_refs:
  "reg_inv r \<Longrightarrow> x \<in> set (refs_at r k) \<longleftrightarrow> (\<exists>e. lookup r x = Some e \<and> k \<in> set (places e))"
  unfolding reg_inv_def by blast

lemma reg_invI:
  assumes "hm_wf (subs r)" and "\<And>c m. hm_get (subs r) c = Some m \<Longrightarrow> hm_wf m"
    and "hm_wf (channel_kind_index r)"
    and "\<And>k x. x \<in> set (refs_at r k) \<longleftrightarrow> (\<exists>e. lookup r x = Some e \<and> k \<in> set (places e))"
  shows "reg_inv r"
  using assms by (simp add: reg_inv_def)

lemma wf_bucket_fold [simp]:
  "hm_wf m \<Longrightarrow> hm_wf (foldl (\<lambda>m k. bucket_push x k m) m ks)"
  "hm_wf m \<Longrightarrow> hm_wf (foldl (\<lambda>m k. bucket_drop x k m) m ks)"
  by (induction ks arbitrary: m)
    (auto simp: bucket_push_def bucket_drop_def Let_def split: option.splits)

lemma index_wf [simp]:
  "hm_wf (channel_kind_index r) \<Longrightarrow> hm_wf (channel_kind_index (add_to_index c s fs co ch r))"
  "hm_wf (channel_kind_index r) \<Longrightarrow> hm_wf (channel_kind_index (remove_from_index c s fs co ch r))"
  by (simp_all add: add_to_index_def remove_from_index_def Let_def split: option.splits)

lemma lookup_new [simp]: "lookup SubscriptionRegistry_new x = None"
  by (simp add: lookup_def SubscriptionRegistry_new_def)

lemma reg_inv_new: "reg_inv SubscriptionRegistry_new"
proof -
  have "refs_at SubscriptionRegistry_new k = []" for k
    by (cases k) (simp_all add: SubscriptionRegistry_new_def)
  then show ?thesis by (simp add: reg_inv_def) (simp add: SubscriptionRegistry_new_def)
qed

lemma lookup_remove_subscription:
  "lookup (snd (remove_subscription c s r)) = (lookup r)((c, s) := None)"
  by (rule ext) (auto simp: lookup_def remove_subscription_def Let_def split: option.splits)

lemma fst_remove_subscription:
  "fst (remove_subscription c s r) =
     map_option (\<lambda>(fs, co, ch). \<lparr>rs_community_id = co, rs_channel_id = ch\<rparr>) (lookup r (c, s))"
  by (auto simp: lookup_def remove_subscription_def Let_def split: option.splits)

lemma remove_subscription_inv:
  assumes inv: "reg_inv r"
  shows "reg_inv (snd (remove_subscription c s r))"
proof (cases "lookup r (c, s)")
  case None
  then have "snd (remove_subscription c s r) = r"
    by (auto simp: lookup_def remove_subscription_def split: option.splits)
  with inv show ?thesis by simp
next
  case (Some e)
  obtain fs co ch where e: "e = (fs, co, ch)" by (cases e)
  from Some obtain m where m: "hm_get (subs r) c = Some m" "hm_get m s = Some e"
    by (auto simp: lookup_def split: option.splits)
  let ?r = "snd (remove_subscription c s r)"
  have r: "?r = remove_from_index c s fs co ch (r\<lparr>subs := hm_insert c (hm_remove s m) (subs r)\<rparr>)"
    using m e by (simp add: remove_subscription_def Let_def)
  have "x \<in> set (refs_at ?r k) \<longleftrightarrow> (\<exists>e. lookup ?r x = Some e \<and> k \<in> set (places e))" for k x
    using Some e unfolding lookup_remove_subscription
    by (auto simp: r remove_from_index_refs reg_inv_refs [OF inv])
  moreover have "hm_wf (subs r)" "\<And>c m. hm_get (subs r) c = Some m \<Longrightarrow> hm_wf m"
    "hm_wf (channel_kind_index r)"
    using inv by (auto simp: reg_inv_def)
  ultimately show ?thesis using m by (intro reg_invI) (auto simp: r split: if_splits)
qed

lemma lookup_register_scoped:
  "lookup (snd (register_scoped co c s fs ch r)) = (lookup r)((c, s) \<mapsto> (fs, co, ch))"
proof
  fix x
  let ?q = "snd (remove_subscription c s r)"
  have "lookup (snd (register_scoped co c s fs ch r)) x =
      (if x = (c, s) then Some (fs, co, ch) else lookup ?q x)"
    by (cases x) (auto simp: register_scoped_def Let_def lookup_def unwrap_or_def
        split: prod.splits option.splits)
  then show "lookup (snd (register_scoped co c s fs ch r)) x = ((lookup r)((c, s) \<mapsto> (fs, co, ch))) x"
    by (simp add: lookup_remove_subscription)
qed

lemma register_scoped_inv:
  assumes inv: "reg_inv r"
  shows "reg_inv (snd (register_scoped co c s fs ch r))"
proof -
  let ?q = "snd (remove_subscription c s r)" and ?r = "snd (register_scoped co c s fs ch r)"
  have q: "reg_inv ?q" using remove_subscription_inv [OF inv] .
  define m where "m = unwrap_or (hm_get (subs ?q) c) []"
  have m: "hm_wf m" using q by (auto simp: m_def reg_inv_def unwrap_or_def split: option.splits)
  have r: "?r = add_to_index c s fs co ch
      (?q\<lparr>subs := hm_insert c (hm_insert s (fs, co, ch) m) (subs ?q)\<rparr>)"
    by (simp add: register_scoped_def Let_def m_def split: prod.splits)
  have "x \<in> set (refs_at ?r k) \<longleftrightarrow> (\<exists>e. lookup ?r x = Some e \<and> k \<in> set (places e))" for k x
    unfolding lookup_register_scoped
    by (auto simp: r add_to_index_refs reg_inv_refs [OF q] lookup_remove_subscription)
  moreover have "hm_wf (subs ?q)" "\<And>c m. hm_get (subs ?q) c = Some m \<Longrightarrow> hm_wf m"
    "hm_wf (channel_kind_index ?q)"
    using q by (auto simp: reg_inv_def)
  ultimately show ?thesis using m by (intro reg_invI) (auto simp: r split: if_splits)
qed

lemma remove_all_subs [simp]: "subs (snd (remove_all_from_index c es r)) = subs r"
  by (induction c es r rule: remove_all_from_index.induct) (auto simp: Let_def split: prod.splits)

lemma remove_all_wf [simp]:
  "hm_wf (channel_kind_index r) \<Longrightarrow> hm_wf (channel_kind_index (snd (remove_all_from_index c es r)))"
  by (induction c es r rule: remove_all_from_index.induct) (auto simp: Let_def split: prod.splits)

lemma remove_all_refs:
  "set (refs_at (snd (remove_all_from_index c es r)) k) =
     set (refs_at r k) - (\<lambda>e. (c, fst e)) ` set (filter (\<lambda>e. k \<in> set (places (snd e))) es)"
proof (induction es arbitrary: r)
  case (Cons e es)
  obtain s fs co ch where e: "e = (s, fs, co, ch)" by (cases e)
  have "snd (remove_all_from_index c (e # es) r) =
      snd (remove_all_from_index c es (remove_from_index c s fs co ch r))"
    by (simp add: e Let_def split: prod.splits)
  then show ?case
    unfolding Cons.IH by (auto simp: e Cons.IH remove_from_index_refs)
qed simp

lemma lookup_remove_connection:
  "lookup (snd (remove_connection c r)) = (\<lambda>x. if fst x = c then None else lookup r x)"
  by (rule ext) (auto simp: lookup_def remove_connection_def split: option.splits)

lemma remove_connection_inv:
  assumes inv: "reg_inv r"
  shows "reg_inv (snd (remove_connection c r))"
proof (cases "hm_get (subs r) c")
  case None
  with inv show ?thesis by (simp add: remove_connection_def)
next
  case (Some m)
  let ?r = "snd (remove_connection c r)"
  have r: "?r = snd (remove_all_from_index c m (r\<lparr>subs := hm_remove c (subs r)\<rparr>))"
    using Some by (simp add: remove_connection_def)
  have wf: "hm_wf m" using inv Some by (auto simp: reg_inv_def)
  have look: "lookup r (c, s) = hm_get m s" for s using Some by (simp add: lookup_def)
  have "x \<in> set (refs_at ?r k) \<longleftrightarrow> (\<exists>e. lookup ?r x = Some e \<and> k \<in> set (places e))" for k x
    unfolding lookup_remove_connection
    by (cases x) (auto simp: r remove_all_refs reg_inv_refs [OF inv] look image_iff Bex_def
        hm.entries_get [OF wf])
  moreover have "hm_wf (subs r)" "\<And>c m. hm_get (subs r) c = Some m \<Longrightarrow> hm_wf m"
    "hm_wf (channel_kind_index r)"
    using inv by (auto simp: reg_inv_def)
  ultimately show ?thesis by (intro reg_invI) (auto simp: r split: if_splits)
qed

lemma remove_subscriptions_inv: "reg_inv r \<Longrightarrow> reg_inv (snd (remove_subscriptions c ss r))"
proof (induction c ss r rule: remove_subscriptions.induct)
  case (2 c s ss r)
  then show ?case
    using remove_subscription_inv [of r c s] by (auto simp: Let_def split: prod.splits)
qed simp

lemma lookup_remove_subscriptions:
  "lookup (snd (remove_subscriptions c ss r)) =
     (\<lambda>x. if fst x = c \<and> snd x \<in> set ss then None else lookup r x)"
proof (induction c ss r rule: remove_subscriptions.induct)
  case (2 c s ss r)
  then show ?case
    using lookup_remove_subscription [of c s r]
    by (auto simp: Let_def fun_eq_iff split: prod.splits)
qed simp

lemma lookup_remove_channel_subscriptions:
  assumes "reg_inv r"
  shows "lookup (snd (remove_channel_subscriptions_scoped co c ch r)) =
     (\<lambda>x. case lookup r x of
        None \<Rightarrow> None
      | Some (fs, co', ch') \<Rightarrow> if fst x = c \<and> co' = co \<and> ch' = Some ch then None else Some (fs, co', ch'))"
proof (cases "hm_get (subs r) c")
  case None
  then show ?thesis
    by (auto simp: remove_channel_subscriptions_scoped_def lookup_def fun_eq_iff split: option.splits)
next
  case (Some m)
  have wf: "hm_wf m" using assms Some by (auto simp: reg_inv_def)
  have look: "lookup r (c, s) = hm_get m s" for s using Some by (simp add: lookup_def)
  have mem: "s \<in> set (map fst (filter (\<lambda>(_, (_, co', ch')). co' = co \<and> ch' = Some ch) m)) \<longleftrightarrow>
      (\<exists>fs. hm_get m s = Some (fs, co, Some ch))" for s
    by (auto simp: image_iff Bex_def hm.entries_get [OF wf])
  show ?thesis
    unfolding remove_channel_subscriptions_scoped_def Let_def lookup_remove_subscriptions
    by (rule ext) (use mem Some look in \<open>auto split: option.splits\<close>)
qed

lemma remove_channel_subscriptions_inv:
  "reg_inv r \<Longrightarrow> reg_inv (snd (remove_channel_subscriptions_scoped co c ch r))"
  by (simp add: remove_channel_subscriptions_scoped_def Let_def remove_subscriptions_inv)

section \<open>Runs of the registry\<close>

datatype reg_op =
    Register CommunityId ConnId SubId "Filter list" "uuid option"
  | RemoveSubscription ConnId SubId
  | RemoveConnection ConnId
  | RemoveChannelSubscriptions CommunityId ConnId uuid

fun reg_step :: "SubscriptionRegistry \<Rightarrow> reg_op \<Rightarrow> SubscriptionRegistry" where
  "reg_step r (Register co c s fs ch) = snd (register_scoped co c s fs ch r)"
| "reg_step r (RemoveSubscription c s) = snd (remove_subscription c s r)"
| "reg_step r (RemoveConnection c) = snd (remove_connection c r)"
| "reg_step r (RemoveChannelSubscriptions co c ch) =
     snd (remove_channel_subscriptions_scoped co c ch r)"

text \<open>The abstract specification: a map from (connection, subscription id) to its entry.\<close>

type_synonym sub_table = "sub_ref \<rightharpoonup> SubEntry"

fun table_step :: "sub_table \<Rightarrow> reg_op \<Rightarrow> sub_table" where
  "table_step t (Register co c s fs ch) = t((c, s) \<mapsto> (fs, co, ch))"
| "table_step t (RemoveSubscription c s) = t((c, s) := None)"
| "table_step t (RemoveConnection c) = (\<lambda>x. if fst x = c then None else t x)"
| "table_step t (RemoveChannelSubscriptions co c ch) =
     (\<lambda>x. case t x of
        None \<Rightarrow> None
      | Some (fs, co', ch') \<Rightarrow> if fst x = c \<and> co' = co \<and> ch' = Some ch then None else Some (fs, co', ch'))"

lemma reg_step_inv: "reg_inv r \<Longrightarrow> reg_inv (reg_step r op)"
  by (cases op) (simp_all add: register_scoped_inv remove_subscription_inv remove_connection_inv
      remove_channel_subscriptions_inv)

lemma reg_step_refines: "reg_inv r \<Longrightarrow> lookup (reg_step r op) = table_step (lookup r) op"
  by (cases op) (simp_all add: lookup_register_scoped lookup_remove_subscription
      lookup_remove_connection lookup_remove_channel_subscriptions)

interpretation registry: invariant_machine reg_step SubscriptionRegistry_new reg_inv
  by unfold_locales (rule reg_inv_new, rule reg_step_inv)

abbreviation registry_after :: "reg_op list \<Rightarrow> SubscriptionRegistry" where
  "registry_after ops \<equiv> foldl reg_step SubscriptionRegistry_new ops"

abbreviation table_after :: "reg_op list \<Rightarrow> sub_table" where
  "table_after ops \<equiv> foldl table_step Map.empty ops"

lemma run_refines: "reg_inv r \<Longrightarrow> lookup (foldl reg_step r ops) = foldl table_step (lookup r) ops"
  by (induction ops arbitrary: r) (simp_all add: reg_step_inv reg_step_refines)

lemma lookup_after: "lookup (registry_after ops) = table_after ops"
proof -
  have "lookup SubscriptionRegistry_new = Map.empty" by (rule ext) simp
  with run_refines [OF reg_inv_new, of ops] show ?thesis by simp
qed

section \<open>Fan-out\<close>

definition deliverable :: "CommunityId \<Rightarrow> StoredEvent \<Rightarrow> SubEntry \<Rightarrow> bool" where
  "deliverable c ev e \<longleftrightarrow> fst (snd e) = c \<and> snd (snd e) = channel_id ev \<and> filters_match (fst e) ev"

lemma push_match_lookup:
  "push_match r c ev results x =
     (if is_some_and (lookup r x) (deliverable c ev) then push_new results x else results)"
  by (auto simp: push_match_def lookup_def deliverable_def split: option.splits)

lemma set_push_matches:
  "set (foldl (push_match r c ev) results xs) =
     set results \<union> {x \<in> set xs. is_some_and (lookup r x) (deliverable c ev)}"
  by (induction xs arbitrary: results) (auto simp: push_match_lookup)

lemma distinct_push_matches: "distinct (foldl (push_match r c ev) results xs) = distinct results"
  by (induction xs arbitrary: results) (auto simp: push_match_lookup)

lemma push_candidates_bucket:
  "push_candidates r c ev results (hm_get m k) = foldl (push_match r c ev) results (bucket m k)"
  by (simp add: push_candidates_def bucket_def split: option.splits)

lemma fan_out_places:
  "fan_out_scoped c ev r =
     foldl (push_match r c ev) [] (concat (map (refs_at r) (event_places c ev)))"
proof -
  have "foldl (\<lambda>res p. foldl (push_match r c ev) res (bucket m (g p))) acc ps =
      foldl (push_match r c ev) acc (concat (map (\<lambda>p. bucket m (g p)) ps))"
    for m :: "(GlobalPKindIndexKey, sub_ref list) hmap" and g :: "string \<Rightarrow> GlobalPKindIndexKey"
      and acc ps
    by (induction ps arbitrary: acc) simp_all
  then show ?thesis
    by (simp add: fan_out_scoped_def event_places_def Let_def push_candidates_bucket comp_def
        split: option.splits)
qed

lemma fan_out_exact:
  assumes "reg_inv r"
  shows "set (fan_out_scoped c ev r) = {x. is_some_and (lookup r x) (deliverable c ev)}"
proof -
  have "\<exists>k \<in> set (event_places c ev). x \<in> set (refs_at r k)"
    if d: "is_some_and (lookup r x) (deliverable c ev)" for x
  proof -
    obtain fs where e: "lookup r x = Some (fs, c, channel_id ev)" "filters_match fs ev"
      using d by (cases "lookup r x") (auto simp: deliverable_def)
    with places_meet_event [OF e(2), of c] assms show ?thesis
      unfolding reg_inv_def by blast
  qed
  then show ?thesis by (auto simp: fan_out_places set_push_matches)
qed

lemma distinct_fan_out: "distinct (fan_out_scoped c ev r)"
  by (simp add: fan_out_places distinct_push_matches)

section \<open>Results of the removals, counters\<close>

definition scope_of :: "SubEntry \<Rightarrow> RemovedSubscription" where
  "scope_of e = \<lparr>rs_community_id = fst (snd e), rs_channel_id = snd (snd e)\<rparr>"

lemma fst_remove_all:
  "fst (remove_all_from_index c es r) = map (\<lambda>x. scope_of (snd x)) es"
  by (induction c es r rule: remove_all_from_index.induct)
    (auto simp: Let_def scope_of_def split: prod.splits)

lemma set_remove_connection:
  assumes "reg_inv r"
  shows "set (fst (remove_connection c r)) = {scope_of e | s e. lookup r (c, s) = Some e}"
proof (cases "hm_get (subs r) c")
  case None
  then show ?thesis by (simp add: remove_connection_def lookup_def)
next
  case (Some m)
  have wf: "hm_wf m" using assms Some by (auto simp: reg_inv_def)
  have "set (map (\<lambda>x. scope_of (snd x)) m) = {scope_of e | s e. (s, e) \<in> set m}"
    by force
  with Some show ?thesis
    by (simp add: remove_connection_def fst_remove_all lookup_def hm.entries_get [OF wf])
qed

lemma fst_remove_subscription_scope:
  "fst (remove_subscription c s r) = map_option scope_of (lookup r (c, s))"
  by (auto simp: fst_remove_subscription scope_of_def intro!: option.map_cong0)

lemma fst_register_scoped:
  "fst (register_scoped co c s fs ch r) = map_option scope_of (lookup r (c, s))"
  by (simp add: register_scoped_def Let_def fst_remove_subscription_scope [symmetric] split: prod.splits)

definition all_refs :: "SubscriptionRegistry \<Rightarrow> sub_ref list" where
  "all_refs r = concat (map (\<lambda>(c, m). map (Pair c) (hm_keys m)) (subs r))"

lemma length_all_refs: "length (all_refs r) = total_subscriptions r"
  by (simp add: all_refs_def total_subscriptions_def length_concat hm_values_def hm_keys_def comp_def
      split_def)

lemma distinct_tagged:
  "distinct (map fst xs) \<Longrightarrow> \<forall>(c, m) \<in> set xs. distinct (map fst m) \<Longrightarrow>
    distinct (concat (map (\<lambda>(c, m). map (Pair c) (map fst m)) xs))"
proof (induction xs)
  case (Cons x xs)
  obtain c m where x: "x = (c, m)" by (cases x)
  have "distinct (map (Pair c) (map fst m))"
    using Cons.prems x by (simp only: distinct_map) (auto intro: inj_onI)
  with Cons x show ?case by force
qed simp

lemma all_refs_dom:
  assumes "reg_inv r"
  shows "distinct (all_refs r) \<and> set (all_refs r) = dom (lookup r)"
proof
  have wf: "hm_wf (subs r)" and inner: "\<And>c m. (c, m) \<in> set (subs r) \<Longrightarrow> hm_wf m"
    using assms hm.entries_get [of "subs r"] by (auto simp: reg_inv_def)
  show "distinct (all_refs r)"
    unfolding all_refs_def hm_keys_def
    by (rule distinct_tagged) (use wf inner in \<open>auto simp: hm_wf_def hm_keys_def\<close>)
  have "x \<in> set (all_refs r) \<longleftrightarrow> (\<exists>m. (fst x, m) \<in> set (subs r) \<and> snd x \<in> set (hm_keys m))" for x
    by (cases x) (force simp: all_refs_def)
  then show "set (all_refs r) = dom (lookup r)"
    by (auto simp: hm.entries_get [OF wf] hm_key_iff lookup_def split: option.splits)
qed

lemma total_subscriptions_card: "reg_inv r \<Longrightarrow> total_subscriptions r = card (dom (lookup r))"
  using all_refs_dom [of r] distinct_card [of "all_refs r"] by (simp add: length_all_refs)

lemma length_hm_values [simp]: "length (hm_values m) = length m"
  by (simp add: hm_values_def)

lemma sum_values_insert:
  "sum_list (hm_values (hm_insert k (unwrap_or (hm_get m k) 0 + n) m)) = sum_list (hm_values m) + (n::nat)"
proof (induction m)
  case (Cons x m)
  then show ?case
    by (cases x; cases "fst x = k") (simp_all add: hm_values_def hm_insert_def hm_get_def)
qed (simp add: hm_values_def hm_insert_def hm_get_def)

lemma sum_count_entries:
  "sum_list (hm_values (foldl count_entry counts es)) = sum_list (hm_values counts) + length es"
proof (induction es arbitrary: counts)
  case (Cons e es)
  then show ?case
    using sum_values_insert [of "fst (snd e)" counts 1] by (simp add: count_entry_def Let_def)
qed simp

lemma per_community_sum:
  "sum_list (hm_values (per_community_subscriptions r)) = total_subscriptions r"
proof -
  have "sum_list (hm_values (foldl (\<lambda>counts m. foldl count_entry counts (hm_values m)) counts ms)) =
      sum_list (hm_values counts) + sum_list (map length ms)"
    for counts and ms :: "(SubId, SubEntry) hmap list"
    by (induction ms arbitrary: counts) (simp_all add: sum_count_entries)
  from this [of "[]" "hm_values (subs r)"] show ?thesis
    by (simp add: per_community_subscriptions_def total_subscriptions_def) (simp add: hm_values_def)
qed

lemma set_subscriber_fold:
  "set (foldl (\<lambda>conns (key, refs). if P key then push_all_new conns (map fst refs) else conns) acc xs) =
     set acc \<union> (\<Union>x \<in> set (filter (\<lambda>x. P (fst x)) xs). fst ` set (snd x))"
proof (induction xs arbitrary: acc)
  case (Cons x xs)
  then show ?case by (cases x; cases "P (fst x)") (simp_all del: set_filter add: Un_assoc)
qed simp

lemma kind_index_conns_mem:
  assumes wf: "hm_wf idx"
  shows "c \<in> set (kind_index_conns co ch idx) \<longleftrightarrow>
    (\<exists>s k. (c, s) \<in> set (bucket idx (co, \<lparr>ik_channel_id = ch, ik_kind = k\<rparr>)))"
proof
  assume "c \<in> set (kind_index_conns co ch idx)"
  then obtain ik refs s where "((co, ik), refs) \<in> set idx" "(c, s) \<in> set refs" "ik_channel_id ik = ch"
    by (auto simp: kind_index_conns_def set_subscriber_fold)
  then have "hm_get idx (co, \<lparr>ik_channel_id = ch, ik_kind = ik_kind ik\<rparr>) = Some refs"
    by (cases ik) (auto simp: hm.entries_get [OF wf])
  with \<open>(c, s) \<in> set refs\<close>
  show "\<exists>s k. (c, s) \<in> set (bucket idx (co, \<lparr>ik_channel_id = ch, ik_kind = k\<rparr>))"
    by (metis bucket_def unwrap_or_simps(2))
next
  assume "\<exists>s k. (c, s) \<in> set (bucket idx (co, \<lparr>ik_channel_id = ch, ik_kind = k\<rparr>))"
  then obtain s k where sk: "(c, s) \<in> set (bucket idx (co, \<lparr>ik_channel_id = ch, ik_kind = k\<rparr>))"
    by blast
  then obtain refs where "hm_get idx (co, \<lparr>ik_channel_id = ch, ik_kind = k\<rparr>) = Some refs"
    and "(c, s) \<in> set refs"
    by (cases "hm_get idx (co, \<lparr>ik_channel_id = ch, ik_kind = k\<rparr>)") (auto simp: bucket_def)
  moreover from this have "((co, \<lparr>ik_channel_id = ch, ik_kind = k\<rparr>), refs) \<in> set idx"
    by (simp add: hm.entries_get [OF wf])
  ultimately show "c \<in> set (kind_index_conns co ch idx)"
    unfolding kind_index_conns_def set_subscriber_fold
    by (intro UnI2 UN_I [where a = "((co, \<lparr>ik_channel_id = ch, ik_kind = k\<rparr>), refs)"])
      (auto intro: rev_image_eqI)
qed

lemma subscriber_conns_refs:
  assumes "reg_inv r"
  shows "c \<in> set (channel_subscriber_conns_scoped co ch r) \<longleftrightarrow>
    (\<exists>s. (c, s) \<in> set (refs_at r (AtChannelWildcard (co, ch)))
       \<or> (\<exists>k. (c, s) \<in> set (refs_at r (AtChannelKind (co, \<lparr>ik_channel_id = ch, ik_kind = k\<rparr>)))))"
proof -
  have "hm_wf (channel_kind_index r)" using assms by (simp add: reg_inv_def)
  note kinds = kind_index_conns_mem [OF this, of c co ch]
  show ?thesis
    unfolding channel_subscriber_conns_scoped_def Let_def refs_at.simps
    by (cases "hm_get (channel_wildcard_index r) (co, ch)") (use kinds in \<open>force simp: bucket_def\<close>)+
qed

lemma subscriber_conns_distinct: "distinct (channel_subscriber_conns_scoped co ch r)"
proof -
  have "distinct (foldl (\<lambda>conns (key, refs). if P key then push_all_new conns (map fst refs) else conns)
      acc xs) = distinct acc"
    for P :: "CommunityId \<times> IndexKey \<Rightarrow> bool" and acc and xs :: "(_ \<times> sub_ref list) list"
    by (induction xs arbitrary: acc) (auto split: prod.splits)
  from this [of "\<lambda>key. fst key = co \<and> ik_channel_id (snd key) = ch" "[]" "channel_kind_index r"]
  show ?thesis
    by (auto simp: channel_subscriber_conns_scoped_def kind_index_conns_def Let_def split: option.splits)
qed

lemma subscriber_conns_spec:
  assumes "reg_inv r"
  shows "set (channel_subscriber_conns_scoped co ch r) =
    {c. \<exists>s fs. lookup r (c, s) = Some (fs, co, Some ch) \<and> extract_kinds_from_filters fs \<noteq> Some []}"
proof -
  have wild: "AtChannelWildcard (co, ch) \<in> set (places e) \<longleftrightarrow>
      (\<exists>fs. e = (fs, co, Some ch) \<and> extract_kinds_from_filters fs = None)" for e
    by (cases e) (auto simp: places_def split: option.splits)
  have kind: "(\<exists>k. AtChannelKind (co, \<lparr>ik_channel_id = ch, ik_kind = k\<rparr>) \<in> set (places e)) \<longleftrightarrow>
      (\<exists>fs k ks. e = (fs, co, Some ch) \<and> extract_kinds_from_filters fs = Some (k # ks))" for e
  proof -
    have "(\<exists>k. k \<in> set ks) \<longleftrightarrow> (\<exists>k ks'. ks = k # ks')" for ks :: "nat list"
      by (cases ks) auto
    then show ?thesis by (cases e) (auto simp: places_def split: option.splits)
  qed
  have split: "x \<noteq> Some [] \<longleftrightarrow> x = None \<or> (\<exists>k ks. x = Some (k # ks))" for x :: "nat list option"
    by (cases x) (auto simp: neq_Nil_conv)
  show ?thesis
    unfolding set_eq_iff subscriber_conns_refs [OF assms] reg_inv_refs [OF assms] mem_Collect_eq split
    using wild kind by (metis (no_types, lifting))
qed

section \<open>Properties\<close>

text \<open>
  C5. Fan-out through the indexes is exact: after any sequence of registrations and removals, the
  result of \<open>fan_out_scoped\<close> has no duplicates and is exactly the set of registered subscriptions of
  the event's community and channel scope whose filters match. So no subscription of another
  community or channel ever receives the event, and the index choice (kind, \<open>#p\<close>, wildcard) never
  loses a delivery.
\<close>
theorem fan_out_delivers_exactly:
  "distinct (fan_out_scoped community ev (registry_after ops)) \<and>
   set (fan_out_scoped community ev (registry_after ops)) =
     {x. \<exists>fs. table_after ops x = Some (fs, community, channel_id ev) \<and> filters_match fs ev}"
proof -
  have "set (fan_out_scoped community ev (registry_after ops)) =
      {x. is_some_and (table_after ops x) (deliverable community ev)}"
    using fan_out_exact [OF registry.inv_reachable] by (simp only: lookup_after)
  moreover have "is_some_and e (deliverable community ev) \<longleftrightarrow>
      (\<exists>fs. e = Some (fs, community, channel_id ev) \<and> filters_match fs ev)" for e
    by (cases e) (auto simp: deliverable_def)
  ultimately show ?thesis by (simp add: distinct_fan_out)
qed

text \<open>
  The registry refines a plain table of subscriptions: after any sequence of operations, every
  lookup agrees with the table, the indexes hold exactly the entries of the live subscriptions (no
  leak, no loss), a replacement or removal reports the scope of the entry it displaced, and closing
  a connection reports the scopes of all its subscriptions.
\<close>
theorem registry_refines_table:
  "get_filters c s (registry_after ops) = map_option fst (table_after ops (c, s)) \<and>
   (x \<in> set (refs_at (registry_after ops) k) \<longleftrightarrow>
      (\<exists>e. table_after ops x = Some e \<and> k \<in> set (places e))) \<and>
   fst (register_scoped co c s fs ch (registry_after ops)) =
     map_option scope_of (table_after ops (c, s)) \<and>
   fst (remove_subscription c s (registry_after ops)) = map_option scope_of (table_after ops (c, s)) \<and>
   set (fst (remove_connection c (registry_after ops))) =
     {scope_of e | s e. table_after ops (c, s) = Some e}"
proof -
  have inv: "reg_inv (registry_after ops)" by (rule registry.inv_reachable)
  have "get_filters c s r = map_option fst (lookup r (c, s))" for r
    by (simp add: get_filters_def lookup_def split: option.splits)
  then show ?thesis
    unfolding lookup_after [symmetric] set_remove_connection [OF inv] reg_inv_refs [OF inv]
    by (simp only: fst_register_scoped fst_remove_subscription_scope)
qed

text \<open>
  Stale index candidates are harmless: fan-out works on snapshots of the index buckets while
  other tasks change the registry, so each candidate may be checked against another registry state.
  Whatever those states are, a candidate is delivered exactly when the registry state at its own
  check holds a matching subscription of the event's community and channel under that id.
\<close>
theorem stale_candidates_harmless:
  "distinct (foldl (\<lambda>results (r, x). push_match r community ev results x) [] candidates) \<and>
   set (foldl (\<lambda>results (r, x). push_match r community ev results x) [] candidates) =
     {x. \<exists>r fs. (r, x) \<in> set candidates \<and> lookup r x = Some (fs, community, channel_id ev)
          \<and> filters_match fs ev}"
proof -
  have one: "push_match r community ev results x =
      (if \<exists>fs. lookup r x = Some (fs, community, channel_id ev) \<and> filters_match fs ev
       then push_new results x else results)" for r results x
    by (auto simp: push_match_lookup is_some_and_def deliverable_def split: option.splits)
  have "distinct (foldl (\<lambda>results (r, x). push_match r community ev results x) acc candidates) = distinct acc \<and>
    set (foldl (\<lambda>results (r, x). push_match r community ev results x) acc candidates) = set acc \<union>
     {x. \<exists>r fs. (r, x) \<in> set candidates \<and> lookup r x = Some (fs, community, channel_id ev)
          \<and> filters_match fs ev}" for acc
  proof (induction candidates arbitrary: acc)
    case (Cons y ys)
    obtain r x where "y = (r, x)" by (cases y)
    with Cons show ?case
      by (cases "\<exists>fs. lookup r x = Some (fs, community, channel_id ev) \<and> filters_match fs ev")
        (auto simp: one)
  qed simp
  from this [of "[]"] show ?thesis by simp
qed

text \<open>
  The counters and the subscriber list agree with the table: the total is the number of live
  subscriptions, the per-community counts add up to it, and the connections reported for a channel
  are exactly those with a live subscription of that channel whose filters can match some kind,
  each reported once.
\<close>
theorem registry_counters_exact:
  "total_subscriptions (registry_after ops) = card (dom (table_after ops)) \<and>
   sum_list (hm_values (per_community_subscriptions (registry_after ops))) = card (dom (table_after ops)) \<and>
   distinct (channel_subscriber_conns_scoped co ch (registry_after ops)) \<and>
   set (channel_subscriber_conns_scoped co ch (registry_after ops)) =
     {c. \<exists>s fs. table_after ops (c, s) = Some (fs, co, Some ch)
          \<and> extract_kinds_from_filters fs \<noteq> Some []}"
  using registry.inv_reachable [of ops]
  by (simp only: per_community_sum total_subscriptions_card subscriber_conns_spec lookup_after
      subscriber_conns_distinct simp_thms)

text \<open>
  \<open>total_connections\<close> counts connections, not connections with a live subscription: a connection
  that closed its last subscription is still counted.
\<close>
theorem idle_connection_counted:
  "let r = registry_after [Register ''co'' ''c'' ''s'' [] None, RemoveSubscription ''c'' ''s'']
   in total_subscriptions r = 0 \<and> total_connections r = 1"
  by code_simp

end
