(* ===== verification/PairingCrypto.thy ===== *)
theory PairingCrypto
  imports Nostr
begin

text \<open>
  \<^verbatim>\<open>crates/lenos-core/src/pairing\<close>: the NIP-AB message types (\<^verbatim>\<open>types.rs\<close>), the errors (\<^verbatim>\<open>mod.rs\<close>),
  the key derivations (\<^verbatim>\<open>crypto.rs\<close>) and the QR code URI (\<^verbatim>\<open>qr.rs\<close>).

  The primitives the code calls from other crates are the fields of the record \<open>pairing_env\<close>: HKDF
  extract and expand, ECDH, NIP-44, JSON, hexadecimal and percent coding, URL parsing, signing and
  verification. What the theorems need of them is stated where it is used (\<open>hex_laws\<close>,
  \<open>percent_laws\<close>, and \<open>pairing_laws\<close> of the session theory). A fixed array \<open>[u8; 32]\<close> is a list of
  32 bytes; keys and ids are their hexadecimal strings.
\<close>

type_synonym SecretKey = string
type_synonym PublicKey = string

section \<open>Messages and errors\<close>

datatype PayloadType = Nsec | Bunker | Connect | Custom

datatype AbortReason = SasMismatchReason | UserDenied | Timeout | ProtocolError | Unknown

datatype PairingMessage =
    Offer string u32
  | SasConfirm string
  | Payload PayloadType string
  | Complete bool
  | AbortMsg AbortReason

definition default_version :: u32 where "default_version = 1"

datatype PairingError =
    InvalidQr string
  | InvalidSessionId
  | SasMismatch
  | TranscriptMismatch
  | UnexpectedMessage string string
  | SessionExpired
  | Nip44 string
  | Json string
  | InvalidPubkey string
  | SigningError string

section \<open>External primitives\<close>

record pairing_env =
  hkdf_extract :: "bytes \<Rightarrow> bytes \<Rightarrow> bytes"
  hkdf_expand :: "bytes \<Rightarrow> bytes \<Rightarrow> nat \<Rightarrow> bytes"
  generate_shared_key :: "SecretKey \<Rightarrow> PublicKey \<Rightarrow> (string, bytes) result"
  public_key :: "SecretKey \<Rightarrow> PublicKey"
  pubkey_to_bytes :: "PublicKey \<Rightarrow> bytes"
  pubkey_from_hex :: "string \<Rightarrow> (string, PublicKey) result"
  nip44_encrypt :: "SecretKey \<Rightarrow> PublicKey \<Rightarrow> string \<Rightarrow> (string, string) result"
  nip44_decrypt :: "SecretKey \<Rightarrow> PublicKey \<Rightarrow> string \<Rightarrow> (string, string) result"
  message_to_json :: "PairingMessage \<Rightarrow> (string, string) result"
  message_from_json :: "string \<Rightarrow> (string, PairingMessage) result"
  zeroize_string :: "string \<Rightarrow> string"
  hex_encode_bytes :: "bytes \<Rightarrow> string"
  hex_decode_str :: "string \<Rightarrow> (string, bytes) result"
  event_verify :: "Event \<Rightarrow> (string, unit) result"
  tag_public_key :: "PublicKey \<Rightarrow> Tag"
  sign_with_keys :: "SecretKey \<Rightarrow> nat \<Rightarrow> string \<Rightarrow> Tag list \<Rightarrow> nat \<Rightarrow> (string, Event) result"
  percent_encode :: "string \<Rightarrow> string"
  percent_decode_lossy :: "string \<Rightarrow> string"
  url_scheme_host :: "string \<Rightarrow> (string, string \<times> bool) result"
  debug_str :: "string \<Rightarrow> string"

section \<open>Key derivation\<close>

definition INFO_SESSION_ID :: string where "INFO_SESSION_ID = ''nostr-pair-session-id''"
definition INFO_SAS :: string where "INFO_SAS = ''nostr-pair-sas-v1''"
definition INFO_TRANSCRIPT :: string where "INFO_TRANSCRIPT = ''nostr-pair-transcript-v1''"

text \<open>A byte string literal \<open>b"..."\<close>.\<close>

definition byte_str :: "string \<Rightarrow> bytes" where
  "byte_str s = map of_char s"

text \<open>\<open>okm[..32]\<close> cannot panic: HKDF-Expand returns exactly the length it is asked for.\<close>

definition hkdf32 :: "pairing_env \<Rightarrow> bytes \<Rightarrow> bytes \<Rightarrow> bytes \<Rightarrow> bytes" where
  "hkdf32 env salt ikm info =
     (let prk = hkdf_extract env salt ikm; okm = hkdf_expand env prk info 32 in take 32 okm)"

definition derive_session_id :: "pairing_env \<Rightarrow> bytes \<Rightarrow> bytes" where
  "derive_session_id env session_secret = hkdf32 env [] session_secret (byte_str INFO_SESSION_ID)"

definition derive_sas :: "pairing_env \<Rightarrow> bytes \<Rightarrow> bytes \<Rightarrow> u32 \<times> bytes" where
  "derive_sas env ecdh_shared session_secret =
     (let sas_input = hkdf32 env session_secret ecdh_shared (byte_str INFO_SAS);
          sas_code = (word_rcat [sas_input ! 0, sas_input ! 1, sas_input ! 2, sas_input ! 3] :: u32)
                       mod 1000000
      in (sas_code, sas_input))"

definition derive_transcript_hash ::
  "pairing_env \<Rightarrow> bytes \<Rightarrow> bytes \<Rightarrow> bytes \<Rightarrow> bytes \<Rightarrow> bytes \<Rightarrow> bytes" where
  "derive_transcript_hash env session_id source_pubkey target_pubkey sas_input session_secret =
     (let transcript = session_id @ source_pubkey @ target_pubkey @ sas_input
      in hkdf32 env session_secret transcript (byte_str INFO_TRANSCRIPT))"

text \<open>\<open>format!("{code:06}")\<close>: the decimal number, padded with zeros on the left to width six.\<close>

definition format_sas :: "u32 \<Rightarrow> string" where
  "format_sas code =
     (let s = nat_to_string (unat code) in replicate (6 - length s) CHR ''0'' @ s)"

definition ct_eq :: "bytes \<Rightarrow> bytes \<Rightarrow> bool" where
  "ct_eq a b = (a = b)"

section \<open>QR code URI\<close>

record QrPayload =
  source_pubkey :: PublicKey
  qr_session_secret :: bytes
  relays :: "string list"
  qr_version :: u32

definition url_encode :: "pairing_env \<Rightarrow> string \<Rightarrow> string" where
  "url_encode env s = percent_encode env s"

definition url_decode :: "pairing_env \<Rightarrow> string \<Rightarrow> string" where
  "url_decode env s = percent_decode_lossy env s"

definition is_lowercase_hex :: "char \<Rightarrow> bool" where
  "is_lowercase_hex c = (is_ascii_digit c \<or> (of_char c \<ge> (97::nat) \<and> of_char c \<le> (102::nat)))"

definition encode_qr :: "pairing_env \<Rightarrow> QrPayload \<Rightarrow> string" where
  "encode_qr env payload =
     (let pubkey_hex = source_pubkey payload;
          secret_hex = hex_encode_bytes env (qr_session_secret payload);
          uri = ''nostrpair://'' @ pubkey_hex @ ''?secret='' @ secret_hex;
          uri = foldl (\<lambda>uri relay. uri @ ''&relay='' @ url_encode env relay) uri (relays payload)
      in uri @ ''&v=1'')"

text \<open>\<open>value.parse::<u32>().ok()\<close>: decimal digits with an optional \<open>+\<close>, below \<open>2 ^ 32\<close>.\<close>

definition parse_u32 :: "string \<Rightarrow> u32 option" where
  "parse_u32 s =
     (let d = (case s of [] \<Rightarrow> s | c # cs \<Rightarrow> if c = CHR ''+'' then cs else s)
      in if d \<noteq> [] \<and> list_all is_ascii_digit d \<and> int (digits_value d) < 4294967296
         then Some (of_nat (digits_value d)) else None)"

record qr_params =
  qp_secret :: "string option"
  qp_relays :: "string list"
  qp_version :: "u32 option"

definition qr_param :: "pairing_env \<Rightarrow> qr_params \<Rightarrow> string \<Rightarrow> qr_params" where
  "qr_param env q pair =
     (case split_once CHR ''='' pair of
        None \<Rightarrow> q
      | Some (key, v) \<Rightarrow>
          if key = ''secret'' then q\<lparr>qp_secret := Some v\<rparr>
          else if key = ''relay'' then q\<lparr>qp_relays := qp_relays q @ [url_decode env v]\<rparr>
          else if key = ''v'' then q\<lparr>qp_version := parse_u32 v\<rparr>
          else q)"

text \<open>The validation loop over the relay URLs; \<open>Some e\<close> is its first error.\<close>

fun relay_error :: "pairing_env \<Rightarrow> string list \<Rightarrow> PairingError option" where
  "relay_error env [] = None"
| "relay_error env (relay # rest) =
     (case url_scheme_host env relay of
        Inl e \<Rightarrow> Some (InvalidQr (''invalid relay URL '' @ debug_str env relay @ '': '' @ e))
      | Inr (scheme, has_host) \<Rightarrow>
          if scheme \<noteq> ''wss'' \<and> scheme \<noteq> ''ws'' then
            Some (InvalidQr (''relay URL must use wss:// or ws:// scheme, got '' @ debug_str env scheme))
          else if \<not> has_host then Some (InvalidQr (''relay URL has no host: '' @ debug_str env relay))
          else relay_error env rest)"

text \<open>The UTF-8 bytes of the one character of the messages that is not ASCII.\<close>

definition ELLIPSIS :: string where "ELLIPSIS = [CHR 0xE2, CHR 0x80, CHR 0xA6]"

text \<open>The loop over the query parameters.\<close>

definition parse_query :: "pairing_env \<Rightarrow> string \<Rightarrow> qr_params" where
  "parse_query env query =
     foldl (qr_param env) \<lparr>qp_secret = None, qp_relays = [], qp_version = None\<rparr> (split_on CHR ''&'' query)"

text \<open>\<open>decode_qr\<close> from the version check on.\<close>

definition check_params ::
  "pairing_env \<Rightarrow> PublicKey \<Rightarrow> qr_params \<Rightarrow> (PairingError, QrPayload) result" where
  "check_params env pk q =
     (let version = unwrap_or (qp_version q) 1
      in if version \<noteq> 1 then
           Err (InvalidQr (''unsupported protocol version '' @ nat_to_string (unat version) @ '', expected 1''))
         else (case qp_secret q of
           None \<Rightarrow> Err (InvalidQr (''missing '' @ [CHR 0x27] @ ''secret'' @ [CHR 0x27] @ '' query parameter''))
         | Some secret_str \<Rightarrow>
         if length secret_str \<noteq> 64 \<or> \<not> list_all is_lowercase_hex secret_str then
           Err (InvalidQr (''secret must be 64 lowercase hex chars, got '' @ debug_str env secret_str))
         else (case hex_decode_str env secret_str of
           Inl e \<Rightarrow> Err (InvalidQr (''invalid secret hex: '' @ e))
         | Inr secret \<Rightarrow>
         if length secret \<noteq> 32 then Err (InvalidQr ''secret must be exactly 32 bytes'')
         else if secret = replicate 32 0 then Err (InvalidQr ''session_secret must not be all zeros'')
         else if qp_relays q = [] then
           Err (InvalidQr (''at least one '' @ [CHR 0x27] @ ''relay'' @ [CHR 0x27]
                           @ '' query parameter is required''))
         else (case relay_error env (qp_relays q) of
           Some e \<Rightarrow> Err e
         | None \<Rightarrow> Ok \<lparr>source_pubkey = pk, qr_session_secret = secret, relays = qp_relays q,
                       qr_version = version\<rparr>))))"

text \<open>\<open>decode_qr\<close> after the length check.\<close>

definition decode_uri :: "pairing_env \<Rightarrow> string \<Rightarrow> (PairingError, QrPayload) result" where
  "decode_uri env uri =
     (case strip_prefix_str ''nostrpair://'' uri of
        None \<Rightarrow> Err (InvalidQr ''URI must start with nostrpair://'')
      | Some rest \<Rightarrow>
      (case split_once CHR ''?'' rest of
         None \<Rightarrow> Err (InvalidQr (''missing query string (expected ?secret='' @ ELLIPSIS @ ''&relay=''
                                 @ ELLIPSIS @ '')''))
       | Some (pubkey_hex, query) \<Rightarrow>
       if length pubkey_hex \<noteq> 64 \<or> \<not> list_all is_lowercase_hex pubkey_hex then
         Err (InvalidQr (''pubkey must be 64 lowercase hex chars, got '' @ debug_str env pubkey_hex))
       else (case pubkey_from_hex env pubkey_hex of
         Inl e \<Rightarrow> Err (InvalidQr (''invalid pubkey: '' @ e))
       | Inr pk \<Rightarrow> check_params env pk (parse_query env query))))"

definition decode_qr :: "pairing_env \<Rightarrow> string \<Rightarrow> (PairingError, QrPayload) result" where
  "decode_qr env uri =
     (if length uri > 2048 then
        Err (InvalidQr (''URI exceeds 2048-character limit ('' @ nat_to_string (length uri) @ '' chars)''))
      else decode_uri env uri)"

section \<open>Facts on derivations and URIs\<close>

text \<open>The documented behaviour of the \<open>hex\<close> and \<open>percent-encoding\<close> crates, at one argument.\<close>

definition hex_laws :: "pairing_env \<Rightarrow> bytes \<Rightarrow> bool" where
  "hex_laws env b \<longleftrightarrow>
     hex_decode_str env (hex_encode_bytes env b) = Ok b
     \<and> length (hex_encode_bytes env b) = 2 * length b
     \<and> list_all is_lowercase_hex (hex_encode_bytes env b)"

definition percent_laws :: "pairing_env \<Rightarrow> string \<Rightarrow> bool" where
  "percent_laws env s \<longleftrightarrow>
     percent_decode_lossy env (percent_encode env s) = s
     \<and> list_all (\<lambda>c. is_ascii_alphanumeric c \<or> c = CHR ''%'') (percent_encode env s)"

text \<open>What a payload must satisfy to be scanned: exactly what \<open>decode_qr\<close> checks.\<close>

definition qr_valid :: "pairing_env \<Rightarrow> QrPayload \<Rightarrow> bool" where
  "qr_valid env p \<longleftrightarrow>
     length (qr_session_secret p) = 32 \<and> qr_session_secret p \<noteq> replicate 32 0
     \<and> relays p \<noteq> [] \<and> relay_error env (relays p) = None \<and> qr_version p = 1"

lemma relay_error_None:
  "relay_error env rs = None \<longleftrightarrow>
     (\<forall>r \<in> set rs. url_scheme_host env r = Ok (''wss'', True) \<or> url_scheme_host env r = Ok (''ws'', True))"
  by (induction rs) (auto split: sum.splits)

lemma join_with_snoc: "xs \<noteq> [] \<Longrightarrow> join_with c (xs @ [y]) = join_with c xs @ c # y"
  by (induction xs rule: join_with.induct) (auto simp: join_with_Cons)

definition qr_pairs :: "pairing_env \<Rightarrow> QrPayload \<Rightarrow> string list" where
  "qr_pairs env p = (''secret='' @ hex_encode_bytes env (qr_session_secret p))
     # map (\<lambda>r. ''relay='' @ percent_encode env r) (relays p) @ [''v=1'']"

lemma encode_qr_pairs:
  "encode_qr env p = ''nostrpair://'' @ source_pubkey p @ CHR ''?'' # join_with CHR ''&'' (qr_pairs env p)"
proof -
  have "foldl (\<lambda>uri relay. uri @ ''&relay='' @ url_encode env relay) (pre @ join_with CHR ''&'' xs) rs =
      pre @ join_with CHR ''&'' (xs @ map (\<lambda>r. ''relay='' @ percent_encode env r) rs)"
    if "xs \<noteq> []" for xs pre rs
    using that
  proof (induction rs arbitrary: xs)
    case (Cons r rs)
    have "(pre @ join_with CHR ''&'' xs) @ ''&relay='' @ url_encode env r =
        pre @ join_with CHR ''&'' (xs @ [''relay='' @ percent_encode env r])"
      using Cons.prems by (simp add: join_with_snoc url_encode_def)
    with Cons.IH [of "xs @ [''relay='' @ percent_encode env r]"] show ?case by simp
  qed simp
  from this [of "[''secret='' @ hex_encode_bytes env (qr_session_secret p)]"
      "''nostrpair://'' @ source_pubkey p @ ''?''" "relays p"]
  show ?thesis
    by (simp add: encode_qr_def qr_pairs_def Let_def)
      (simp add: join_with_snoc [of "_ # _", simplified])
qed

lemma hex_char_sep:
  "is_lowercase_hex c \<Longrightarrow> c \<noteq> CHR ''?'' \<and> c \<noteq> CHR ''&'' \<and> c \<noteq> CHR ''=''"
  by (auto simp: is_lowercase_hex_def is_ascii_digit_def)

lemma percent_char_sep:
  "is_ascii_alphanumeric c \<or> c = CHR ''%'' \<Longrightarrow> c \<noteq> CHR ''&'' \<and> c \<noteq> CHR ''=''"
  by (auto simp: is_ascii_alphanumeric_def is_ascii_digit_def is_ascii_lower_def is_ascii_upper_def)

lemma split_qr_pairs:
  assumes "hex_laws env (qr_session_secret p)" and "\<forall>r \<in> set (relays p). percent_laws env r"
  shows "split_on CHR ''&'' (join_with CHR ''&'' (qr_pairs env p)) = qr_pairs env p"
proof (rule split_join)
  show "qr_pairs env p \<noteq> []" by (simp add: qr_pairs_def)
  have "CHR ''&'' \<notin> set (hex_encode_bytes env (qr_session_secret p))"
    using assms(1) hex_char_sep by (auto simp: hex_laws_def list_all_iff)
  moreover have "CHR ''&'' \<notin> set (percent_encode env r)" if "r \<in> set (relays p)" for r
    using assms(2) that percent_char_sep unfolding percent_laws_def list_all_iff by blast
  ultimately show "\<forall>s \<in> set (qr_pairs env p). CHR ''&'' \<notin> set s"
    by (auto simp: qr_pairs_def)
qed

lemma parse_u32_one: "parse_u32 ''1'' = Some 1"
  by (simp add: parse_u32_def is_ascii_digit_def digits_value_def)

lemma qr_param_pairs:
  assumes "\<forall>r \<in> set (relays p). percent_laws env r"
  shows "foldl (qr_param env) \<lparr>qp_secret = None, qp_relays = [], qp_version = None\<rparr> (qr_pairs env p) =
    \<lparr>qp_secret = Some (hex_encode_bytes env (qr_session_secret p)), qp_relays = relays p,
     qp_version = Some 1\<rparr>"
proof -
  have rel: "foldl (qr_param env) q (map (\<lambda>r. ''relay='' @ percent_encode env r) rs) =
      q\<lparr>qp_relays := qp_relays q @ rs\<rparr>" if "\<forall>r \<in> set rs. percent_laws env r" for q rs
    using that
    by (induction rs arbitrary: q) (auto simp: qr_param_def url_decode_def percent_laws_def)
  show ?thesis
    using rel [OF assms] by (simp add: qr_pairs_def qr_param_def parse_u32_one)
qed

lemma nat_to_string_length: "n < 10 ^ k \<Longrightarrow> 0 < k \<Longrightarrow> length (nat_to_string n) \<le> k"
proof (induction k arbitrary: n)
  case (Suc k)
  show ?case
  proof (cases "n < 10")
    case False
    then have "n div 10 < 10 ^ k" and "0 < k"
      using Suc.prems by (auto intro: Nat.gr0I)
    with Suc.IH False show ?thesis by (simp add: nat_to_string.simps [of n])
  qed (simp add: nat_to_string.simps [of n])
qed simp

lemma digits_value_zeros: "digits_value (replicate k CHR ''0'' @ s) = digits_value s"
  by (induction k) (simp_all add: digits_value_def)

section \<open>A concrete environment\<close>

text \<open>
  Concrete functions with the documented behaviour of the primitives, so that the hypotheses of the
  properties are evaluated: hexadecimal and percent coding as the crates do them, and stand-ins
  without cryptographic strength for the rest.
\<close>

definition hex_digit :: "nat \<Rightarrow> char" where
  "hex_digit n = (if n < 10 then char_of (48 + n) else char_of (87 + n))"

definition hex_value :: "char \<Rightarrow> nat" where
  "hex_value c = (if is_ascii_digit c then of_char c - 48 else of_char c - 87)"

definition hex_pair :: "u8 \<Rightarrow> string" where
  "hex_pair b = [hex_digit (unat b div 16), hex_digit (unat b mod 16)]"

fun unhex :: "string \<Rightarrow> (string, bytes) result" where
  "unhex [] = Ok []"
| "unhex [c] = Err ''Odd number of digits''"
| "unhex (c # d # cs) =
     (if is_lowercase_hex c \<and> is_lowercase_hex d then
        (case unhex cs of Inl e \<Rightarrow> Err e | Inr bs \<Rightarrow> Ok (of_nat (16 * hex_value c + hex_value d) # bs))
      else Err ''Invalid character'')"

definition percent_one :: "char \<Rightarrow> string" where
  "percent_one c = (if is_ascii_alphanumeric c then [c]
     else (let n = of_char c in
       CHR ''%'' # (if n div 16 < 10 then char_of (48 + n div 16) else char_of (55 + n div 16 :: nat))
       # [if n mod 16 < 10 then char_of (48 + n mod 16) else char_of (55 + n mod 16 :: nat)]))"

definition upper_hex_value :: "char \<Rightarrow> nat" where
  "upper_hex_value c = (if is_ascii_digit c then of_char c - 48 else of_char c - 55)"

fun percent_undo :: "string \<Rightarrow> string" where
  "percent_undo [] = []"
| "percent_undo [x] = [x]"
| "percent_undo [x, c] = [x, c]"
| "percent_undo (x # c # d # cs) =
     (if x = CHR ''%'' then char_of (16 * upper_hex_value c + upper_hex_value d) # percent_undo cs
      else x # percent_undo (c # d # cs))"

definition payload_char :: "PayloadType \<Rightarrow> char" where
  "payload_char t = (case t of Nsec \<Rightarrow> CHR ''n'' | Bunker \<Rightarrow> CHR ''b'' | Connect \<Rightarrow> CHR ''k'' | Custom \<Rightarrow> CHR ''x'')"

definition sample_to_json :: "PairingMessage \<Rightarrow> (string, string) result" where
  "sample_to_json m = (case m of
     Offer sid v \<Rightarrow> Ok (CHR ''o'' # sid)
   | SasConfirm h \<Rightarrow> Ok (CHR ''s'' # h)
   | Payload t d \<Rightarrow> Ok (CHR ''p'' # payload_char t # d)
   | Complete ok \<Rightarrow> Ok (if ok then ''ct'' else ''cf'')
   | AbortMsg r \<Rightarrow> Ok ''a'')"

definition sample_from_json :: "string \<Rightarrow> (string, PairingMessage) result" where
  "sample_from_json s =
     (case s of
        [] \<Rightarrow> Err ''EOF while parsing a value''
      | x # r \<Rightarrow>
          if x = CHR ''o'' then Ok (Offer r 1)
          else if x = CHR ''s'' then Ok (SasConfirm r)
          else if x = CHR ''p'' then
            (case r of
               [] \<Rightarrow> Err ''EOF while parsing a value''
             | t # d \<Rightarrow> Ok (Payload (if t = CHR ''n'' then Nsec else if t = CHR ''b'' then Bunker
                                  else if t = CHR ''k'' then Connect else Custom) d))
          else if x = CHR ''c'' then Ok (Complete (r = ''t''))
          else Ok (AbortMsg UserDenied))"

definition sample_env :: pairing_env where
  "sample_env = \<lparr>
     hkdf_extract = (\<lambda>salt ikm. salt @ ikm),
     hkdf_expand = (\<lambda>prk info n. take n (prk @ info @ replicate n 0)),
     generate_shared_key = (\<lambda>sk pk. Ok [of_nat (length sk * length pk)]),
     public_key = (\<lambda>sk. sk),
     pubkey_to_bytes = (\<lambda>pk. map of_char (take 32 pk)),
     pubkey_from_hex = Ok,
     nip44_encrypt = (\<lambda>sk pk m. Ok (replicate 132 CHR ''A'' @ m)),
     nip44_decrypt = (\<lambda>sk pk c. Ok (drop 132 c)),
     message_to_json = sample_to_json,
     message_from_json = sample_from_json,
     zeroize_string = (\<lambda>_. []),
     hex_encode_bytes = (\<lambda>bs. concat (map hex_pair bs)),
     hex_decode_str = unhex,
     event_verify = (\<lambda>_. Ok ()),
     tag_public_key = (\<lambda>pk. \<lparr>tag_kind = ''p'', tag_content = Some pk, tag_slice = [''p'', pk]\<rparr>),
     sign_with_keys = (\<lambda>sk kind content tags ts. Ok \<lparr>ev_id = content, ev_pubkey = sk,
        ev_created_at = ts, ev_kind = kind, ev_tags = tags, ev_content = content\<rparr>),
     percent_encode = (\<lambda>s. concat (map percent_one s)),
     percent_decode_lossy = percent_undo,
     url_scheme_host = (\<lambda>u. if prefix ''wss://'' u \<and> length u > 6 then Ok (''wss'', True)
        else Err ''relative URL without a base''),
     debug_str = (\<lambda>s. [CHR 0x22] @ s @ [CHR 0x22])\<rparr>"

definition sample_qr :: QrPayload where
  "sample_qr = \<lparr>source_pubkey = replicate 64 CHR ''1'', qr_session_secret = replicate 32 7,
     relays = [''wss://relay.io'', ''wss://b.io/x''], qr_version = 1\<rparr>"

lemma hex_digit_facts:
  "n < 16 \<Longrightarrow> is_lowercase_hex (hex_digit n) \<and> hex_value (hex_digit n) = n"
  by (auto simp: hex_digit_def hex_value_def is_lowercase_hex_def is_ascii_digit_def)

lemma unhex_hex: "unhex (concat (map hex_pair bs)) = Ok bs"
proof (induction bs)
  case (Cons b bs)
  have "unat b < 256" using unsigned_less [of b] by simp
  then have d: "unat b div 16 < 16" "unat b mod 16 < 16" by auto
  have "(of_nat (16 * (unat b div 16) + unat b mod 16) :: u8) = b"
    by (simp only: mult_div_mod_eq) simp
  with Cons hex_digit_facts [OF d(1)] hex_digit_facts [OF d(2)] show ?case
    by (simp add: hex_pair_def)
qed simp

lemma sample_hex_laws: "hex_laws sample_env b"
proof -
  have "unat x < 256" for x :: u8 using unsigned_less [of x] by simp
  then have "unat x div 16 < 16" for x :: u8 by (simp add: less_mult_imp_div_less)
  then have "list_all is_lowercase_hex (concat (map hex_pair b))"
    using hex_digit_facts by (induction b) (auto simp: hex_pair_def)
  moreover have "length (concat (map hex_pair b)) = 2 * length b"
    by (induction b) (simp_all add: hex_pair_def)
  ultimately show ?thesis by (simp add: hex_laws_def sample_env_def unhex_hex)
qed

lemma sample_qr_laws:
  "list_all (percent_laws sample_env) (relays sample_qr)" "qr_valid sample_env sample_qr"
  "list_all is_lowercase_hex (source_pubkey sample_qr)" "length (encode_qr sample_env sample_qr) = 210"
  by code_simp+

section \<open>Properties\<close>

text \<open>
  A QR code decodes to the payload it was made of: for a payload that a target may accept, with
  a valid hexadecimal key and a URI within the size limit, \<open>decode_qr\<close> after \<open>encode_qr\<close> is the
  identity. The \<open>hex\<close> and \<open>percent-encoding\<close> crates are assumed to behave as documented on the
  secret and the relay URLs at hand.
\<close>
theorem qr_round_trip:
  assumes "hex_laws env (qr_session_secret p)" and "\<forall>r \<in> set (relays p). percent_laws env r"
    and "qr_valid env p"
    and "length (source_pubkey p) = 64" and "list_all is_lowercase_hex (source_pubkey p)"
    and "pubkey_from_hex env (source_pubkey p) = Ok (source_pubkey p)"
    and "length (encode_qr env p) \<le> 2048"
  shows "decode_qr env (encode_qr env p) = Ok p"
proof -
  have pk: "CHR ''?'' \<notin> set (source_pubkey p)"
    using assms(5) hex_char_sep by (auto simp: list_all_iff)
  have q: "parse_query env (join_with CHR ''&'' (qr_pairs env p)) =
      \<lparr>qp_secret = Some (hex_encode_bytes env (qr_session_secret p)), qp_relays = relays p,
       qp_version = Some 1\<rparr>"
    by (simp only: parse_query_def split_qr_pairs [OF assms(1,2)] qr_param_pairs [OF assms(2)])
  have uri: "strip_prefix_str ''nostrpair://'' (encode_qr env p) =
      Some (source_pubkey p @ CHR ''?'' # join_with CHR ''&'' (qr_pairs env p))"
    unfolding encode_qr_pairs by (rule strip_prefix_str_append)
  show ?thesis
    using assms
    by (simp add: decode_qr_def decode_uri_def uri split_once_append [OF pk] q)
      (simp add: check_params_def hex_laws_def qr_valid_def)
qed

theorem qr_round_trip_witness:
  "decode_qr sample_env (encode_qr sample_env sample_qr) = Ok sample_qr"
  by (rule qr_round_trip)
    (use sample_qr_laws sample_hex_laws in \<open>simp_all add: list_all_iff,
      simp_all add: sample_env_def sample_qr_def\<close>)

text \<open>
  Whatever is scanned, a decoded payload is usable: the URI is within the limit, the public key
  was accepted by the parser, the secret has 32 bytes and is not all zeros, the version is 1, and
  there is at least one relay, each a \<open>ws\<close> or \<open>wss\<close> URL with a host.
\<close>
theorem decode_qr_sound:
  assumes "decode_qr env uri = Ok p"
  shows "length uri \<le> 2048 \<and> prefix ''nostrpair://'' uri \<and> qr_valid env p
    \<and> (\<exists>pk_hex. length pk_hex = 64 \<and> list_all is_lowercase_hex pk_hex
         \<and> pubkey_from_hex env pk_hex = Ok (source_pubkey p))
    \<and> relays p \<noteq> []
    \<and> (\<forall>r \<in> set (relays p). url_scheme_host env r \<in> {Ok (''wss'', True), Ok (''ws'', True)})"
proof -
  obtain rest pk_hex query where uri: "length uri \<le> 2048" "uri = ''nostrpair://'' @ rest"
    and pk: "length pk_hex = 64" "list_all is_lowercase_hex pk_hex"
    and rest: "is_ok (pubkey_from_hex env pk_hex)"
      "check_params env (projr (pubkey_from_hex env pk_hex)) (parse_query env query) = Ok p"
    using assms
    by (auto simp: decode_qr_def decode_uri_def strip_prefix_str_Some not_less is_ok_def
        split: if_splits option.splits sum.splits)
  from rest(2) have "qr_valid env p" "source_pubkey p = projr (pubkey_from_hex env pk_hex)"
    by (auto simp: check_params_def qr_valid_def Let_def split: if_splits option.splits sum.splits)
  with uri pk rest(1) show ?thesis
    by (auto simp: qr_valid_def relay_error_None is_ok_conv)
qed

theorem decode_qr_sound_witness:
  "\<exists>uri. decode_qr sample_env uri = Ok sample_qr \<and> qr_valid sample_env sample_qr"
proof -
  have "decode_uri sample_env (encode_qr sample_env sample_qr) = Ok sample_qr" by code_simp
  then have "decode_qr sample_env (encode_qr sample_env sample_qr) = Ok sample_qr"
    by (simp add: decode_qr_def sample_qr_laws)
  with decode_qr_sound [OF this] show ?thesis by blast
qed

text \<open>
  The short authentication string is always six decimal digits, and two different codes are
  never shown as the same string.
\<close>
theorem sas_code_six_digits:
  "length (format_sas (fst (derive_sas env ecdh secret))) = 6
   \<and> list_all is_ascii_digit (format_sas (fst (derive_sas env ecdh secret)))
   \<and> digits_value (format_sas (fst (derive_sas env ecdh secret))) = unat (fst (derive_sas env ecdh secret))
   \<and> (format_sas a = format_sas b \<longleftrightarrow> a = b)"
proof -
  define code where "code = fst (derive_sas env ecdh secret)"
  have val: "digits_value (format_sas c) = unat c" for c
    by (simp add: format_sas_def Let_def digits_value_zeros)
  have "code = word_rcat (map ((!) (snd (derive_sas env ecdh secret))) [0, 1, 2, 3]) mod 1000000"
    by (simp add: code_def derive_sas_def Let_def)
  then have "unat code < 10 ^ 6"
    by (simp add: unat_mod)
  then have "length (nat_to_string (unat code)) \<le> 6" by (rule nat_to_string_length) simp
  then have "length (format_sas code) = 6" by (simp add: format_sas_def Let_def)
  moreover have "list_all is_ascii_digit (format_sas code)"
    using nat_to_string_digits by (auto simp: format_sas_def Let_def list_all_iff is_ascii_digit_def)
  moreover have "format_sas a = format_sas b \<longleftrightarrow> a = b"
    by (metis val word_unat_eq_iff)
  ultimately show ?thesis using val by (simp add: code_def)
qed

text \<open>A version number that does not fit \<open>u32\<close> is treated as absent, hence as version 1.\<close>

theorem oversized_version_accepted:
  "unwrap_or (qp_version (qr_param env q ''v=4294967298'')) 1 = 1"
  by (simp add: qr_param_def parse_u32_def is_ascii_digit_def digits_value_def)

end
