(* ===== verification/PairingSession.thy ===== *)
theory PairingSession
  imports PairingCrypto
begin

text \<open>
  \<^verbatim>\<open>crates/lenos-core/src/pairing/session.rs\<close>: one side of a NIP-AB pairing as a state machine.

  A method of \<open>PairingSession\<close> is a function from the session to a result and the session after it:
  a mutation that precedes an error stays (\<open>try_in s r k\<close> is the \<open>?\<close> operator at session \<open>s\<close>). The
  clock and the random generator are the fields of \<open>pairing_ctx\<close>, given to each call. \<open>pair_step\<close>
  runs one method, and the log of a run is the list of the methods that succeeded.
\<close>

datatype Role = Source | Target

datatype SessionState =
  Waiting | Confirming | AwaitingConfirmation | Transferring | PayloadExchanged | Completed | Aborted

record PairingSession =
  ps_role :: Role
  ps_state :: SessionState
  ps_keys :: SecretKey
  ps_session_secret :: bytes
  ps_relay_urls :: "string list"
  ps_peer_pubkey :: "PublicKey option"
  ps_session_id :: bytes
  ps_sas_code :: "u32 option"
  ps_sas_input :: "bytes option"
  ps_processed_ids :: "string list"
  ps_created_at :: int
  ps_timeout :: int

text \<open>Instants and durations are nanoseconds; \<open>ctx_unix\<close> is the wall clock in seconds.\<close>

record pairing_ctx =
  ctx_instant :: int
  ctx_unix :: u64
  ctx_random :: u64

definition DEFAULT_TIMEOUT :: int where "DEFAULT_TIMEOUT = 120 * 1000000000"

definition PAIRING_KIND :: nat where "PAIRING_KIND = KIND_PAIRING mod 65536"

definition try_in :: "'s \<Rightarrow> ('e, 'a) result \<Rightarrow> ('a \<Rightarrow> ('e, 'b) result \<times> 's) \<Rightarrow> ('e, 'b) result \<times> 's" where
  "try_in s r k = (case r of Inl e \<Rightarrow> (Err e, s) | Inr a \<Rightarrow> k a)"

lemma try_in_simps [simp]: "try_in s (Inl e) k = (Err e, s)" "try_in s (Inr a) k = k a"
  by (simp_all add: try_in_def)

definition map_err :: "('e \<Rightarrow> 'f) \<Rightarrow> ('e, 'a) result \<Rightarrow> ('f, 'a) result" where
  "map_err f r = (case r of Inl e \<Rightarrow> Inl (f e) | Inr a \<Rightarrow> Inr a)"

section \<open>Checks\<close>

fun debug_state :: "SessionState \<Rightarrow> string" where
  "debug_state Waiting = ''Waiting''"
| "debug_state Confirming = ''Confirming''"
| "debug_state AwaitingConfirmation = ''AwaitingConfirmation''"
| "debug_state Transferring = ''Transferring''"
| "debug_state PayloadExchanged = ''PayloadExchanged''"
| "debug_state Completed = ''Completed''"
| "debug_state Aborted = ''Aborted''"

fun debug_role :: "Role \<Rightarrow> string" where
  "debug_role Source = ''Source''"
| "debug_role Target = ''Target''"

definition is_expired :: "pairing_ctx \<Rightarrow> PairingSession \<Rightarrow> bool" where
  "is_expired ctx s = (max 0 (ctx_instant ctx - ps_created_at s) > ps_timeout s)"

definition check_expired :: "pairing_ctx \<Rightarrow> PairingSession \<Rightarrow> (PairingError, unit) result" where
  "check_expired ctx s = (if is_expired ctx s then Err SessionExpired else Ok ())"

definition expect_state :: "SessionState \<Rightarrow> PairingSession \<Rightarrow> (PairingError, unit) result" where
  "expect_state expected s =
     (if ps_state s \<noteq> expected
      then Err (UnexpectedMessage (''state '' @ debug_state expected) (''state '' @ debug_state (ps_state s)))
      else Ok ())"

definition expect_role :: "Role \<Rightarrow> PairingSession \<Rightarrow> (PairingError, unit) result" where
  "expect_role expected s =
     (if ps_role s \<noteq> expected
      then Err (UnexpectedMessage (''role '' @ debug_role expected) (''role '' @ debug_role (ps_role s)))
      else Ok ())"

definition unexpected :: "string \<Rightarrow> PairingMessage \<Rightarrow> PairingError" where
  "unexpected expected got =
     UnexpectedMessage expected
       (case got of Offer _ _ \<Rightarrow> ''offer'' | SasConfirm _ \<Rightarrow> ''sas-confirm'' | Payload _ _ \<Rightarrow> ''payload''
        | Complete _ \<Rightarrow> ''complete'' | AbortMsg _ \<Rightarrow> ''abort'')"

definition validate_event_basics ::
  "pairing_env \<Rightarrow> PairingSession \<Rightarrow> Event \<Rightarrow> (PairingError, unit) result" where
  "validate_event_basics env s ev =
     (case event_verify env ev of
        Inl e \<Rightarrow> Err (InvalidPubkey (''event verification failed: '' @ e))
      | Inr _ \<Rightarrow>
          if ev_id ev \<in> set (ps_processed_ids s) then
            Err (UnexpectedMessage ''new event'' ''duplicate event id'')
          else if ev_kind ev \<noteq> PAIRING_KIND then
            Err (UnexpectedMessage (''kind '' @ nat_to_string PAIRING_KIND) (''kind '' @ nat_to_string (ev_kind ev)))
          else if \<not> list_ex (\<lambda>t. tag_slice t \<noteq> [] \<and> tag_slice t ! 0 = ''p''
                        \<and> length (tag_slice t) > 1 \<and> tag_slice t ! 1 = public_key env (ps_keys s)) (ev_tags ev)
          then Err (InvalidPubkey ''event p-tag does not match our ephemeral pubkey'')
          else Ok ())"

definition validate_event_from_peer ::
  "pairing_env \<Rightarrow> PairingSession \<Rightarrow> Event \<Rightarrow> (PairingError, unit) result" where
  "validate_event_from_peer env s ev =
     (case validate_event_basics env s ev of
        Inl e \<Rightarrow> Err e
      | Inr _ \<Rightarrow>
          (case ps_peer_pubkey s of
             Some expected \<Rightarrow>
               if ev_pubkey ev \<noteq> expected
               then Err (InvalidPubkey (''event from '' @ ev_pubkey ev @ '' but expected '' @ expected))
               else Ok ()
           | None \<Rightarrow> Ok ()))"

definition record_event :: "Event \<Rightarrow> PairingSession \<Rightarrow> PairingSession" where
  "record_event ev s = s\<lparr>ps_processed_ids := push_new (ps_processed_ids s) (ev_id ev)\<rparr>"

text \<open>The UTF-8 bytes of the en dash and of the less-or-equal sign of two error messages.\<close>

definition EN_DASH :: string where "EN_DASH = [CHR 0xE2, CHR 0x80, CHR 0x93]"
definition LESS_EQUAL :: string where "LESS_EQUAL = [CHR 0xE2, CHR 0x89, CHR 0xA4]"

text \<open>
  The length in the second error is read after \<open>zeroize\<close>, as in the source.
\<close>

definition decrypt_message ::
  "pairing_env \<Rightarrow> PairingSession \<Rightarrow> Event \<Rightarrow> (PairingError, PairingMessage) result" where
  "decrypt_message env s ev =
     (let content_len = length (ev_content ev)
      in if \<not> (132 \<le> content_len \<and> content_len \<le> 87472) then
           Err (UnexpectedMessage (''NIP-44 content (132'' @ EN_DASH @ ''87472 chars)'')
                  (nat_to_string content_len @ '' chars''))
         else (case nip44_decrypt env (ps_keys s) (ev_pubkey ev) (ev_content ev) of
           Inl e \<Rightarrow> Err (Nip44 e)
         | Inr decrypted \<Rightarrow>
             if length decrypted > 65535 then
               Err (UnexpectedMessage (''plaintext '' @ LESS_EQUAL @ '' 65535 bytes'')
                      (nat_to_string (length (zeroize_string env decrypted)) @ '' bytes''))
             else map_err Json (message_from_json env decrypted)))"

text \<open>\<open>now.saturating_sub(jitter)\<close> with \<open>jitter = rand::random::<u64>() % 31\<close>.\<close>

definition jittered_time :: "pairing_ctx \<Rightarrow> u64" where
  "jittered_time ctx =
     (let jitter = ctx_random ctx mod 31
      in if ctx_unix ctx < jitter then 0 else ctx_unix ctx - jitter)"

definition build_event ::
  "pairing_env \<Rightarrow> pairing_ctx \<Rightarrow> PairingSession \<Rightarrow> PairingMessage \<Rightarrow> (PairingError, Event) result" where
  "build_event env ctx s message =
     (case ps_peer_pubkey s of
        None \<Rightarrow> Err (InvalidPubkey ''no peer pubkey set'')
      | Some peer \<Rightarrow>
      (case message_to_json env message of
         Inl e \<Rightarrow> Err (Json e)
       | Inr plaintext \<Rightarrow>
       (case nip44_encrypt env (ps_keys s) peer plaintext of
          Inl e \<Rightarrow> Err (Nip44 e)
        | Inr encrypted \<Rightarrow>
            map_err SigningError
              (sign_with_keys env (ps_keys s) PAIRING_KIND encrypted [tag_public_key env peer]
                 (unat (jittered_time ctx))))))"

text \<open>\<open>hex::decode(s).ok().and_then(|b| <[u8; 32]>::try_from(b).ok())\<close>\<close>

definition hex_to_array :: "pairing_env \<Rightarrow> string \<Rightarrow> bytes option" where
  "hex_to_array env h =
     (case hex_decode_str env h of
        Inl _ \<Rightarrow> None
      | Inr b \<Rightarrow> if length b = 32 then Some b else None)"

section \<open>Source operations\<close>

text \<open>\<open>new_source\<close>: the generated keys and the random secret are arguments.\<close>

definition new_source ::
  "pairing_env \<Rightarrow> pairing_ctx \<Rightarrow> SecretKey \<Rightarrow> bytes \<Rightarrow> string \<Rightarrow> PairingSession \<times> QrPayload" where
  "new_source env ctx keys session_secret relay_url =
     (\<lparr>ps_role = Source, ps_state = Waiting, ps_keys = keys, ps_session_secret = session_secret,
       ps_relay_urls = [relay_url], ps_peer_pubkey = None,
       ps_session_id = derive_session_id env session_secret, ps_sas_code = None, ps_sas_input = None,
       ps_processed_ids = [], ps_created_at = ctx_instant ctx, ps_timeout = DEFAULT_TIMEOUT\<rparr>,
      \<lparr>source_pubkey = public_key env keys, qr_session_secret = session_secret, relays = [relay_url],
       qr_version = 1\<rparr>)"

text \<open>\<open>handle_offer\<close> from the session id check on.\<close>

definition accept_offer ::
  "pairing_env \<Rightarrow> PairingSession \<Rightarrow> Event \<Rightarrow> string \<Rightarrow> (PairingError, string) result \<times> PairingSession" where
  "accept_offer env s ev session_id_hex =
     (case hex_to_array env session_id_hex of
        None \<Rightarrow> (Err InvalidSessionId, s)
      | Some i \<Rightarrow>
          if \<not> ct_eq i (ps_session_id s) then (Err InvalidSessionId, s)
          else let s1 = s\<lparr>ps_peer_pubkey := Some (ev_pubkey ev)\<rparr>
               in try_in s1 (map_err SigningError (generate_shared_key env (ps_keys s1) (ev_pubkey ev)))
                    (\<lambda>ecdh. let (code, sas_input) = derive_sas env ecdh (ps_session_secret s1);
                               s2 = s1\<lparr>ps_sas_code := Some code, ps_sas_input := Some sas_input,
                                       ps_state := Confirming\<rparr>
                           in (Ok (format_sas code), record_event ev s2)))"

definition handle_offer ::
  "pairing_env \<Rightarrow> pairing_ctx \<Rightarrow> Event \<Rightarrow> PairingSession \<Rightarrow> (PairingError, string) result \<times> PairingSession" where
  "handle_offer env ctx ev s =
     try_in s (check_expired ctx s) (\<lambda>_.
     try_in s (expect_state Waiting s) (\<lambda>_.
     try_in s (expect_role Source s) (\<lambda>_.
     try_in s (validate_event_basics env s ev) (\<lambda>_.
     try_in s (decrypt_message env s ev) (\<lambda>msg.
       case msg of
         Offer session_id version \<Rightarrow>
           if version \<noteq> 1 then
             (Err (UnexpectedMessage ''version 1'' (''version '' @ nat_to_string (unat version))), s)
           else accept_offer env s ev session_id
       | other \<Rightarrow> (Err (unexpected ''offer'' other), s))))))"

definition confirm_sas ::
  "pairing_env \<Rightarrow> pairing_ctx \<Rightarrow> PairingSession \<Rightarrow> (PairingError, Event) result \<times> PairingSession" where
  "confirm_sas env ctx s =
     try_in s (check_expired ctx s) (\<lambda>_.
     try_in s (expect_state Confirming s) (\<lambda>_.
     try_in s (expect_role Source s) (\<lambda>_.
     try_in s (ok_or (ps_sas_input s) SasMismatch) (\<lambda>sas_input.
     try_in s (ok_or (ps_peer_pubkey s) (InvalidPubkey ''no peer'')) (\<lambda>peer.
       let transcript_hash = derive_transcript_hash env (ps_session_id s)
             (pubkey_to_bytes env (public_key env (ps_keys s))) (pubkey_to_bytes env peer)
             sas_input (ps_session_secret s)
       in try_in s (build_event env ctx s (SasConfirm (hex_encode_bytes env transcript_hash))) (\<lambda>ev.
            (Ok ev, s\<lparr>ps_state := Transferring\<rparr>)))))))"

definition send_payload ::
  "pairing_env \<Rightarrow> pairing_ctx \<Rightarrow> PayloadType \<Rightarrow> string \<Rightarrow> PairingSession
    \<Rightarrow> (PairingError, Event) result \<times> PairingSession" where
  "send_payload env ctx payload_type payload s =
     try_in s (check_expired ctx s) (\<lambda>_.
     try_in s (expect_state Transferring s) (\<lambda>_.
     try_in s (expect_role Source s) (\<lambda>_.
     try_in s (build_event env ctx s (Payload payload_type payload)) (\<lambda>ev.
       (Ok ev, s\<lparr>ps_state := PayloadExchanged\<rparr>)))))"

definition handle_complete ::
  "pairing_env \<Rightarrow> pairing_ctx \<Rightarrow> Event \<Rightarrow> PairingSession \<Rightarrow> (PairingError, unit) result \<times> PairingSession" where
  "handle_complete env ctx ev s =
     try_in s (check_expired ctx s) (\<lambda>_.
     try_in s (expect_state PayloadExchanged s) (\<lambda>_.
     try_in s (expect_role Source s) (\<lambda>_.
     try_in s (validate_event_from_peer env s ev) (\<lambda>_.
     try_in s (decrypt_message env s ev) (\<lambda>msg.
       case msg of
         Complete success \<Rightarrow>
           if success then (Ok (), record_event ev (s\<lparr>ps_state := Completed\<rparr>))
           else (Err (UnexpectedMessage ''complete(success=true)'' ''complete(success=false)''),
                 s\<lparr>ps_state := Aborted\<rparr>)
       | other \<Rightarrow> (Err (unexpected ''complete'' other), s))))))"

section \<open>Target operations\<close>

definition new_target ::
  "pairing_env \<Rightarrow> pairing_ctx \<Rightarrow> SecretKey \<Rightarrow> QrPayload \<Rightarrow> (PairingError, PairingSession \<times> Event) result" where
  "new_target env ctx keys qr =
     (let session_id = derive_session_id env (qr_session_secret qr)
      in case generate_shared_key env keys (source_pubkey qr) of
           Inl e \<Rightarrow> Err (SigningError e)
         | Inr ecdh \<Rightarrow>
             (let (code, sas_input) = derive_sas env ecdh (qr_session_secret qr);
                  session = \<lparr>ps_role = Target, ps_state = Waiting, ps_keys = keys,
                     ps_session_secret = qr_session_secret qr, ps_relay_urls = relays qr,
                     ps_peer_pubkey = Some (source_pubkey qr), ps_session_id = session_id,
                     ps_sas_code = Some code, ps_sas_input = Some sas_input, ps_processed_ids = [],
                     ps_created_at = ctx_instant ctx, ps_timeout = DEFAULT_TIMEOUT\<rparr>
              in case build_event env ctx session (Offer (hex_encode_bytes env session_id) 1) of
                   Inl e \<Rightarrow> Err e
                 | Inr ev \<Rightarrow> Ok (session\<lparr>ps_state := Confirming\<rparr>, ev)))"

definition handle_sas_confirm ::
  "pairing_env \<Rightarrow> pairing_ctx \<Rightarrow> Event \<Rightarrow> PairingSession \<Rightarrow> (PairingError, string) result \<times> PairingSession" where
  "handle_sas_confirm env ctx ev s =
     try_in s (check_expired ctx s) (\<lambda>_.
     try_in s (expect_state Confirming s) (\<lambda>_.
     try_in s (expect_role Target s) (\<lambda>_.
     try_in s (validate_event_from_peer env s ev) (\<lambda>_.
     try_in s (decrypt_message env s ev) (\<lambda>msg.
       case msg of
         SasConfirm received_hash \<Rightarrow>
           try_in s (ok_or (ps_sas_input s) SasMismatch) (\<lambda>sas_input.
           try_in s (ok_or (ps_peer_pubkey s) (InvalidPubkey ''no peer'')) (\<lambda>peer.
             let expected_hash = derive_transcript_hash env (ps_session_id s) (pubkey_to_bytes env peer)
                   (pubkey_to_bytes env (public_key env (ps_keys s))) sas_input (ps_session_secret s);
                 matches = is_some_and (hex_to_array env received_hash) (\<lambda>rb. ct_eq rb expected_hash)
             in if \<not> matches then (Err TranscriptMismatch, s\<lparr>ps_state := Aborted\<rparr>)
                else let s1 = record_event ev (s\<lparr>ps_state := AwaitingConfirmation\<rparr>)
                     in try_in s1 (ok_or (ps_sas_code s1) SasMismatch) (\<lambda>code. (Ok (format_sas code), s1))))
       | other \<Rightarrow> (Err (unexpected ''sas-confirm'' other), s))))))"

definition confirm_target_sas ::
  "pairing_ctx \<Rightarrow> PairingSession \<Rightarrow> (PairingError, unit) result \<times> PairingSession" where
  "confirm_target_sas ctx s =
     try_in s (check_expired ctx s) (\<lambda>_.
     try_in s (expect_state AwaitingConfirmation s) (\<lambda>_.
     try_in s (expect_role Target s) (\<lambda>_. (Ok (), s\<lparr>ps_state := Transferring\<rparr>))))"

definition handle_payload ::
  "pairing_env \<Rightarrow> pairing_ctx \<Rightarrow> Event \<Rightarrow> PairingSession
    \<Rightarrow> (PairingError, PayloadType \<times> string) result \<times> PairingSession" where
  "handle_payload env ctx ev s =
     try_in s (check_expired ctx s) (\<lambda>_.
     try_in s (expect_state Transferring s) (\<lambda>_.
     try_in s (expect_role Target s) (\<lambda>_.
     try_in s (validate_event_from_peer env s ev) (\<lambda>_.
     try_in s (decrypt_message env s ev) (\<lambda>msg.
       case msg of
         Payload payload_type payload \<Rightarrow>
           (Ok (payload_type, payload), record_event ev (s\<lparr>ps_state := PayloadExchanged\<rparr>))
       | other \<Rightarrow> (Err (unexpected ''payload'' other), s))))))"

definition send_complete ::
  "pairing_env \<Rightarrow> pairing_ctx \<Rightarrow> PairingSession \<Rightarrow> (PairingError, Event) result \<times> PairingSession" where
  "send_complete env ctx s =
     try_in s (check_expired ctx s) (\<lambda>_.
     try_in s (expect_state PayloadExchanged s) (\<lambda>_.
     try_in s (expect_role Target s) (\<lambda>_.
     try_in s (build_event env ctx s (Complete True)) (\<lambda>ev.
       (Ok ev, s\<lparr>ps_state := Completed\<rparr>)))))"

section \<open>Abort and observers\<close>

definition is_terminal :: "SessionState \<Rightarrow> bool" where
  "is_terminal st = (st = Completed \<or> st = Aborted)"

definition abort ::
  "pairing_env \<Rightarrow> pairing_ctx \<Rightarrow> AbortReason \<Rightarrow> PairingSession
    \<Rightarrow> (PairingError, Event option) result \<times> PairingSession" where
  "abort env ctx reason s =
     (if is_terminal (ps_state s) then
        (Err (UnexpectedMessage ''non-terminal state'' (''state '' @ debug_state (ps_state s))), s)
      else if ps_peer_pubkey s = None then (Ok None, s\<lparr>ps_state := Aborted\<rparr>)
      else try_in s (build_event env ctx s (AbortMsg reason)) (\<lambda>ev. (Ok (Some ev), s\<lparr>ps_state := Aborted\<rparr>)))"

definition handle_abort ::
  "pairing_env \<Rightarrow> Event \<Rightarrow> PairingSession \<Rightarrow> (PairingError, AbortReason) result \<times> PairingSession" where
  "handle_abort env ev s =
     (if is_terminal (ps_state s) then
        (Err (UnexpectedMessage ''non-terminal state'' (''state '' @ debug_state (ps_state s))), s)
      else if ps_peer_pubkey s = None then
        (Err (InvalidPubkey ''cannot accept abort before peer is known''), s)
      else
        try_in s (validate_event_from_peer env s ev) (\<lambda>_.
        try_in s (decrypt_message env s ev) (\<lambda>msg.
          case msg of
            AbortMsg reason \<Rightarrow> (Ok reason, record_event ev (s\<lparr>ps_state := Aborted\<rparr>))
          | other \<Rightarrow> (Err (unexpected ''abort'' other), s))))"

definition sas_code :: "PairingSession \<Rightarrow> string option" where
  "sas_code s = map_option format_sas (ps_sas_code s)"

definition qr_uri :: "pairing_env \<Rightarrow> PairingSession \<Rightarrow> string option" where
  "qr_uri env s =
     (if ps_role s \<noteq> Source then None
      else Some (encode_qr env \<lparr>source_pubkey = public_key env (ps_keys s),
             qr_session_secret = ps_session_secret s, relays = ps_relay_urls s, qr_version = 1\<rparr>))"

section \<open>Runs of a session\<close>

datatype pair_op =
    HandleOffer Event | ConfirmSas | SendPayload PayloadType string | HandleComplete Event
  | HandleSasConfirm Event | ConfirmTargetSas | HandlePayload Event | SendComplete
  | AbortSession AbortReason | HandleAbort Event

definition outcome :: "('e, 'a) result \<times> 's \<Rightarrow> bool \<times> 's" where
  "outcome x = (is_ok (fst x), snd x)"

fun pair_step :: "pairing_env \<Rightarrow> pairing_ctx \<Rightarrow> pair_op \<Rightarrow> PairingSession \<Rightarrow> bool \<times> PairingSession" where
  "pair_step env ctx (HandleOffer ev) s = outcome (handle_offer env ctx ev s)"
| "pair_step env ctx ConfirmSas s = outcome (confirm_sas env ctx s)"
| "pair_step env ctx (SendPayload t d) s = outcome (send_payload env ctx t d s)"
| "pair_step env ctx (HandleComplete ev) s = outcome (handle_complete env ctx ev s)"
| "pair_step env ctx (HandleSasConfirm ev) s = outcome (handle_sas_confirm env ctx ev s)"
| "pair_step env ctx ConfirmTargetSas s = outcome (confirm_target_sas ctx s)"
| "pair_step env ctx (HandlePayload ev) s = outcome (handle_payload env ctx ev s)"
| "pair_step env ctx SendComplete s = outcome (send_complete env ctx s)"
| "pair_step env ctx (AbortSession r) s = outcome (abort env ctx r s)"
| "pair_step env ctx (HandleAbort ev) s = outcome (handle_abort env ev s)"

text \<open>A run, with the log of the operations that succeeded.\<close>

fun pair_run :: "pairing_env \<Rightarrow> PairingSession \<times> pair_op list \<Rightarrow> pairing_ctx \<times> pair_op
    \<Rightarrow> PairingSession \<times> pair_op list" where
  "pair_run env (s, log) (ctx, op) =
     (let (ok, s') = pair_step env ctx op s in (s', if ok then log @ [op] else log))"

text \<open>The transitions of the protocol, per role.\<close>

inductive protocol_step :: "Role \<Rightarrow> SessionState \<Rightarrow> pair_op \<Rightarrow> SessionState \<Rightarrow> bool" where
  src_offer: "protocol_step Source Waiting (HandleOffer ev) Confirming"
| src_confirm: "protocol_step Source Confirming ConfirmSas Transferring"
| src_payload: "protocol_step Source Transferring (SendPayload t d) PayloadExchanged"
| src_complete: "protocol_step Source PayloadExchanged (HandleComplete ev) Completed"
| tgt_confirm: "protocol_step Target Confirming (HandleSasConfirm ev) AwaitingConfirmation"
| tgt_approve: "protocol_step Target AwaitingConfirmation ConfirmTargetSas Transferring"
| tgt_payload: "protocol_step Target Transferring (HandlePayload ev) PayloadExchanged"
| tgt_complete: "protocol_step Target PayloadExchanged SendComplete Completed"
| abort_local: "\<not> is_terminal st \<Longrightarrow> protocol_step r st (AbortSession reason) Aborted"
| abort_peer: "\<not> is_terminal st \<Longrightarrow> protocol_step r st (HandleAbort ev) Aborted"

inductive_cases protocol_stepE: "protocol_step r st op st'"

fun op_event :: "pair_op \<Rightarrow> Event option" where
  "op_event (HandleOffer ev) = Some ev"
| "op_event (HandleComplete ev) = Some ev"
| "op_event (HandleSasConfirm ev) = Some ev"
| "op_event (HandlePayload ev) = Some ev"
| "op_event (HandleAbort ev) = Some ev"
| "op_event _ = None"

definition is_abort :: "pair_op \<Rightarrow> bool" where
  "is_abort op = (case op of AbortSession _ \<Rightarrow> True | HandleAbort _ \<Rightarrow> True | _ \<Rightarrow> False)"

text \<open>What never changes in a session, and what each state guarantees.\<close>

definition same_identity :: "PairingSession \<Rightarrow> PairingSession \<Rightarrow> bool" where
  "same_identity s s' \<longleftrightarrow>
     ps_role s' = ps_role s \<and> ps_keys s' = ps_keys s \<and> ps_session_secret s' = ps_session_secret s
     \<and> ps_session_id s' = ps_session_id s \<and> ps_created_at s' = ps_created_at s
     \<and> ps_timeout s' = ps_timeout s \<and> ps_relay_urls s' = ps_relay_urls s"

definition session_inv :: "PairingSession \<Rightarrow> bool" where
  "session_inv s \<longleftrightarrow>
     (ps_role s = Target \<or> ps_state s \<in> {Confirming, Transferring, PayloadExchanged, Completed} \<longrightarrow>
        ps_peer_pubkey s \<noteq> None \<and> ps_sas_input s \<noteq> None \<and> ps_sas_code s \<noteq> None)
     \<and> (ps_role s = Source \<longrightarrow> ps_state s \<noteq> AwaitingConfirmation)
     \<and> (ps_role s = Target \<longrightarrow> ps_state s \<noteq> Waiting)"

lemma try_in_split:
  "P (try_in s r k) \<longleftrightarrow> (\<forall>e. r = Inl e \<longrightarrow> P (Err e, s)) \<and> (\<forall>a. r = Inr a \<longrightarrow> P (k a))"
  by (cases r) simp_all

lemma try_in_Inr:
  "try_in s r k = (Inr b, s') \<longleftrightarrow> (\<exists>a. r = Inr a \<and> k a = (Inr b, s'))"
  by (cases r) simp_all

lemma guard_simps [simp]:
  "check_expired ctx s = Inr u \<longleftrightarrow> \<not> is_expired ctx s"
  "expect_state st s = Inr u \<longleftrightarrow> ps_state s = st"
  "expect_role r s = Inr u \<longleftrightarrow> ps_role s = r"
  by (simp_all add: check_expired_def expect_state_def expect_role_def)

lemma ok_or_Inr [simp]: "ok_or x e = Inr a \<longleftrightarrow> x = Some a"
  by (cases x) simp_all

lemma record_event_simps [simp]:
  "ps_state (record_event ev s) = ps_state s" "ps_role (record_event ev s) = ps_role s"
  "ps_peer_pubkey (record_event ev s) = ps_peer_pubkey s" "ps_sas_code (record_event ev s) = ps_sas_code s"
  "ps_sas_input (record_event ev s) = ps_sas_input s" "ps_keys (record_event ev s) = ps_keys s"
  "ps_processed_ids (record_event ev s) = push_new (ps_processed_ids s) (ev_id ev)"
  "same_identity s (record_event ev s') = same_identity s s'"
  by (simp_all add: record_event_def same_identity_def)

lemma same_identity_simps [simp]:
  "same_identity s s" "same_identity s (s\<lparr>ps_state := st\<rparr>)"
  "same_identity s (s\<lparr>ps_peer_pubkey := p\<rparr>)"
  "same_identity s (s\<lparr>ps_peer_pubkey := p, ps_sas_code := c, ps_sas_input := i, ps_state := st\<rparr>)"
  by (simp_all add: same_identity_def)

lemmas op_defs = handle_offer_def accept_offer_def confirm_sas_def send_payload_def
  handle_complete_def handle_sas_confirm_def confirm_target_sas_def handle_payload_def
  send_complete_def abort_def handle_abort_def

lemma validate_peer_basics:
  "validate_event_from_peer env s ev = Inr u \<longleftrightarrow>
     validate_event_basics env s ev = Inr () \<and> is_none_or (ps_peer_pubkey s) (\<lambda>p. ev_pubkey ev = p)"
  by (auto simp: validate_event_from_peer_def split: sum.splits option.splits)

lemma message_result_cases:
  fixes r :: "('e, PairingMessage) result"
  obtains (failed) e where "r = Inl e" | (offer) h v where "r = Inr (Offer h v)"
  | (confirm) h where "r = Inr (SasConfirm h)" | (payload) t d where "r = Inr (Payload t d)"
  | (complete) b where "r = Inr (Complete b)" | (abort) x where "r = Inr (AbortMsg x)"
  by (cases r; cases "projr r") auto

text \<open>When each operation succeeds, and the session after it.\<close>

lemma accept_offer_ok:
  "accept_offer env s ev h = (Inr x, s') \<longleftrightarrow>
     (\<exists>ecdh. hex_to_array env h = Some (ps_session_id s)
        \<and> generate_shared_key env (ps_keys s) (ev_pubkey ev) = Ok ecdh
        \<and> x = format_sas (fst (derive_sas env ecdh (ps_session_secret s)))
        \<and> s' = record_event ev (s\<lparr>ps_peer_pubkey := Some (ev_pubkey ev),
              ps_sas_code := Some (fst (derive_sas env ecdh (ps_session_secret s))),
              ps_sas_input := Some (snd (derive_sas env ecdh (ps_session_secret s))),
              ps_state := Confirming\<rparr>))"
  by (cases "hex_to_array env h"; cases "generate_shared_key env (ps_keys s) (ev_pubkey ev)")
    (auto simp: accept_offer_def ct_eq_def Let_def map_err_def split_def)

lemma handle_offer_ok:
  "handle_offer env ctx ev s = (Inr x, s') \<longleftrightarrow>
     \<not> is_expired ctx s \<and> ps_state s = Waiting \<and> ps_role s = Source
     \<and> validate_event_basics env s ev = Ok ()
     \<and> (\<exists>h. decrypt_message env s ev = Ok (Offer h 1) \<and> accept_offer env s ev h = (Inr x, s'))"
  by (cases "decrypt_message env s ev" rule: message_result_cases)
    (auto simp: handle_offer_def try_in_Inr)

lemma confirm_sas_ok:
  "confirm_sas env ctx s = (Inr x, s') \<longleftrightarrow>
     \<not> is_expired ctx s \<and> ps_state s = Confirming \<and> ps_role s = Source
     \<and> (\<exists>i p. ps_sas_input s = Some i \<and> ps_peer_pubkey s = Some p
        \<and> build_event env ctx s (SasConfirm (hex_encode_bytes env (derive_transcript_hash env
             (ps_session_id s) (pubkey_to_bytes env (public_key env (ps_keys s)))
             (pubkey_to_bytes env p) i (ps_session_secret s)))) = Ok x)
     \<and> s' = s\<lparr>ps_state := Transferring\<rparr>"
  by (auto simp: confirm_sas_def try_in_Inr Let_def)

lemma send_payload_ok:
  "send_payload env ctx t d s = (Inr x, s') \<longleftrightarrow>
     \<not> is_expired ctx s \<and> ps_state s = Transferring \<and> ps_role s = Source
     \<and> build_event env ctx s (Payload t d) = Ok x \<and> s' = s\<lparr>ps_state := PayloadExchanged\<rparr>"
  by (auto simp: send_payload_def try_in_Inr)

lemma handle_complete_ok:
  "handle_complete env ctx ev s = (Inr x, s') \<longleftrightarrow>
     \<not> is_expired ctx s \<and> ps_state s = PayloadExchanged \<and> ps_role s = Source
     \<and> validate_event_from_peer env s ev = Ok () \<and> decrypt_message env s ev = Ok (Complete True)
     \<and> s' = record_event ev (s\<lparr>ps_state := Completed\<rparr>)"
  by (cases "decrypt_message env s ev" rule: message_result_cases)
    (auto simp: handle_complete_def try_in_Inr)

lemma handle_sas_confirm_ok:
  "handle_sas_confirm env ctx ev s = (Inr x, s') \<longleftrightarrow>
     \<not> is_expired ctx s \<and> ps_state s = Confirming \<and> ps_role s = Target
     \<and> validate_event_from_peer env s ev = Ok ()
     \<and> (\<exists>h i p c. decrypt_message env s ev = Ok (SasConfirm h) \<and> ps_sas_input s = Some i
        \<and> ps_peer_pubkey s = Some p
        \<and> hex_to_array env h = Some (derive_transcript_hash env (ps_session_id s)
             (pubkey_to_bytes env p) (pubkey_to_bytes env (public_key env (ps_keys s))) i
             (ps_session_secret s))
        \<and> ps_sas_code s = Some c \<and> x = format_sas c)
     \<and> s' = record_event ev (s\<lparr>ps_state := AwaitingConfirmation\<rparr>)"
  by (cases "decrypt_message env s ev" rule: message_result_cases; cases "ps_sas_input s";
      cases "ps_peer_pubkey s"; cases "ps_sas_code s")
    (auto simp: handle_sas_confirm_def try_in_Inr Let_def ct_eq_def is_some_and_def split: option.splits)

lemma confirm_target_sas_ok:
  "confirm_target_sas ctx s = (Inr x, s') \<longleftrightarrow>
     \<not> is_expired ctx s \<and> ps_state s = AwaitingConfirmation \<and> ps_role s = Target
     \<and> s' = s\<lparr>ps_state := Transferring\<rparr>"
  by (auto simp: confirm_target_sas_def try_in_Inr)

lemma handle_payload_ok:
  "handle_payload env ctx ev s = (Inr x, s') \<longleftrightarrow>
     \<not> is_expired ctx s \<and> ps_state s = Transferring \<and> ps_role s = Target
     \<and> validate_event_from_peer env s ev = Ok ()
     \<and> decrypt_message env s ev = Ok (Payload (fst x) (snd x))
     \<and> s' = record_event ev (s\<lparr>ps_state := PayloadExchanged\<rparr>)"
  by (cases x; cases "decrypt_message env s ev" rule: message_result_cases)
    (auto simp: handle_payload_def try_in_Inr)

lemma send_complete_ok:
  "send_complete env ctx s = (Inr x, s') \<longleftrightarrow>
     \<not> is_expired ctx s \<and> ps_state s = PayloadExchanged \<and> ps_role s = Target
     \<and> build_event env ctx s (Complete True) = Ok x \<and> s' = s\<lparr>ps_state := Completed\<rparr>"
  by (auto simp: send_complete_def try_in_Inr)

lemma abort_ok:
  "abort env ctx r s = (Inr x, s') \<Longrightarrow> \<not> is_terminal (ps_state s) \<and> s' = s\<lparr>ps_state := Aborted\<rparr>"
  by (auto simp: abort_def try_in_Inr split: if_splits)

lemma handle_abort_ok:
  "handle_abort env ev s = (Inr x, s') \<longleftrightarrow>
     \<not> is_terminal (ps_state s) \<and> ps_peer_pubkey s \<noteq> None
     \<and> validate_event_from_peer env s ev = Ok () \<and> decrypt_message env s ev = Ok (AbortMsg x)
     \<and> s' = record_event ev (s\<lparr>ps_state := Aborted\<rparr>)"
  by (cases "decrypt_message env s ev" rule: message_result_cases)
    (auto simp: handle_abort_def try_in_Inr)

lemmas op_ok = handle_offer_ok accept_offer_ok confirm_sas_ok send_payload_ok handle_complete_ok
  handle_sas_confirm_ok confirm_target_sas_ok handle_payload_ok send_complete_ok handle_abort_ok

lemma outcome_True: "outcome x = (True, s') \<longleftrightarrow> (\<exists>a. x = (Inr a, s'))"
  by (cases x) (auto simp: outcome_def is_ok_conv)

lemma outcome_False: "outcome x = (False, s') \<longleftrightarrow> (\<exists>e. x = (Inl e, s'))"
  by (cases x; cases "fst x") (auto simp: outcome_def)

text \<open>An operation that succeeds is a transition of the protocol.\<close>

lemma step_success:
  assumes "pair_step env ctx op s = (True, s')"
  shows "protocol_step (ps_role s) (ps_state s) op (ps_state s')"
  using assms
  by (cases op) (auto simp: outcome_True op_ok intro: protocol_step.intros dest!: abort_ok)

text \<open>The session after an operation that failed.\<close>

lemma try_in_Inl:
  "try_in s r k = (Inl e, s') \<longleftrightarrow> (r = Inl e \<and> s' = s) \<or> (\<exists>a. r = Inr a \<and> k a = (Inl e, s'))"
  by (cases r) auto

lemma handle_offer_err:
  "handle_offer env ctx ev s = (Inl e, s') \<Longrightarrow>
     s' = s \<or> (s' = s\<lparr>ps_peer_pubkey := Some (ev_pubkey ev)\<rparr> \<and> ps_state s = Waiting \<and> ps_role s = Source)"
  by (cases "decrypt_message env s ev" rule: message_result_cases)
    (auto simp: handle_offer_def accept_offer_def try_in_Inl Let_def split_def
      split: if_splits option.splits)

lemma handle_complete_err:
  "handle_complete env ctx ev s = (Inl e, s') \<Longrightarrow>
     s' = s \<or> (s' = s\<lparr>ps_state := Aborted\<rparr> \<and> ps_state s = PayloadExchanged)"
  by (cases "decrypt_message env s ev" rule: message_result_cases)
    (auto simp: handle_complete_def try_in_Inl split: if_splits)

lemma handle_sas_confirm_err:
  "handle_sas_confirm env ctx ev s = (Inl e, s') \<Longrightarrow> ps_sas_code s \<noteq> None \<Longrightarrow>
     s' = s \<or> (s' = s\<lparr>ps_state := Aborted\<rparr> \<and> ps_state s = Confirming)"
  by (cases "decrypt_message env s ev" rule: message_result_cases)
    (auto simp: handle_sas_confirm_def try_in_Inl Let_def split: if_splits)

lemma sender_err:
  "confirm_sas env ctx s = (Inl e, s') \<Longrightarrow> s' = s"
  "send_payload env ctx t d s = (Inl e, s') \<Longrightarrow> s' = s"
  "confirm_target_sas ctx s = (Inl e, s') \<Longrightarrow> s' = s"
  "send_complete env ctx s = (Inl e, s') \<Longrightarrow> s' = s"
  "abort env ctx r s = (Inl e, s') \<Longrightarrow> s' = s"
  by (auto simp: op_defs try_in_Inl Let_def split: if_splits)

lemma receiver_err:
  "handle_payload env ctx ev s = (Inl e, s') \<Longrightarrow> s' = s"
  "handle_abort env ev s = (Inl e, s') \<Longrightarrow> s' = s"
  by (cases "decrypt_message env s ev" rule: message_result_cases;
      auto simp: handle_payload_def handle_abort_def try_in_Inl split: if_splits)+

lemma step_failure:
  assumes "pair_step env ctx op s = (False, s')" and "session_inv s"
  shows "s' = s \<or> (s' = s\<lparr>ps_state := Aborted\<rparr> \<and> \<not> is_terminal (ps_state s))
    \<or> (\<exists>p. s' = s\<lparr>ps_peer_pubkey := Some p\<rparr> \<and> ps_state s = Waiting \<and> ps_role s = Source)"
proof (cases op)
  case (HandleSasConfirm ev)
  then obtain e where e: "handle_sas_confirm env ctx ev s = (Inl e, s')"
    using assms(1) by (auto simp: outcome_False)
  show ?thesis
  proof (cases "ps_role s")
    case Source
    with e have "s' = s"
      by (auto simp: handle_sas_confirm_def try_in_Inl check_expired_def expect_state_def expect_role_def
          split: if_splits)
    then show ?thesis by simp
  next
    case Target
    with assms(2) handle_sas_confirm_err [OF e] show ?thesis
      by (auto simp: session_inv_def is_terminal_def)
  qed
qed (use assms(1) in \<open>auto simp: outcome_False is_terminal_def
      dest!: handle_offer_err handle_complete_err sender_err receiver_err\<close>)

section \<open>Invariant of a run\<close>

fun op_name :: "pair_op \<Rightarrow> string" where
  "op_name (HandleOffer _) = ''handle_offer''"
| "op_name ConfirmSas = ''confirm_sas''"
| "op_name (SendPayload _ _) = ''send_payload''"
| "op_name (HandleComplete _) = ''handle_complete''"
| "op_name (HandleSasConfirm _) = ''handle_sas_confirm''"
| "op_name ConfirmTargetSas = ''confirm_target_sas''"
| "op_name (HandlePayload _) = ''handle_payload''"
| "op_name SendComplete = ''send_complete''"
| "op_name (AbortSession _) = ''abort''"
| "op_name (HandleAbort _) = ''handle_abort''"

fun protocol :: "Role \<Rightarrow> string list" where
  "protocol Source = [''handle_offer'', ''confirm_sas'', ''send_payload'', ''handle_complete'']"
| "protocol Target = [''handle_sas_confirm'', ''confirm_target_sas'', ''handle_payload'', ''send_complete'']"

fun phase :: "Role \<Rightarrow> SessionState \<Rightarrow> nat" where
  "phase Source Waiting = 0"
| "phase Source Confirming = 1"
| "phase Target Waiting = 0"
| "phase Target Confirming = 0"
| "phase _ AwaitingConfirmation = 1"
| "phase _ Transferring = 2"
| "phase _ PayloadExchanged = 3"
| "phase _ Completed = 4"
| "phase _ Aborted = 0"

definition cut_short :: "Role \<Rightarrow> string list \<Rightarrow> bool" where
  "cut_short r names \<longleftrightarrow> (\<exists>n < 4. names = take n (protocol r)
     \<or> names = take n (protocol r) @ [''abort''] \<or> names = take n (protocol r) @ [''handle_abort''])"

definition log_ok :: "Role \<Rightarrow> SessionState \<Rightarrow> string list \<Rightarrow> bool" where
  "log_ok r st names \<longleftrightarrow>
     (if st = Aborted then cut_short r names else names = take (phase r st) (protocol r))"

definition accepted :: "pair_op list \<Rightarrow> Event list" where
  "accepted log = List.map_filter op_event log"

text \<open>A verified pairing event addressed to the holder of \<open>keys\<close>.\<close>

definition authentic :: "pairing_env \<Rightarrow> SecretKey \<Rightarrow> Event \<Rightarrow> bool" where
  "authentic env keys ev \<longleftrightarrow> event_verify env ev = Ok () \<and> ev_kind ev = PAIRING_KIND
     \<and> (\<exists>t \<in> set (ev_tags ev). take 2 (tag_slice t) = [''p'', public_key env keys])"

definition run_inv :: "pairing_env \<Rightarrow> PairingSession \<times> pair_op list \<Rightarrow> bool" where
  "run_inv env = (\<lambda>(s, log). session_inv s \<and> log_ok (ps_role s) (ps_state s) (map op_name log)
     \<and> ps_processed_ids s = map ev_id (accepted log) \<and> distinct (ps_processed_ids s)
     \<and> (\<forall>e \<in> set (accepted log). ps_peer_pubkey s = Some (ev_pubkey e))
     \<and> (\<forall>e \<in> set (accepted log). authentic env (ps_keys s) e))"

lemma accepted_simps [simp]:
  "accepted [] = []"
  "accepted (log @ [op]) = accepted log @ (case op_event op of None \<Rightarrow> [] | Some e \<Rightarrow> [e])"
  by (auto simp: accepted_def List.map_filter_def split: option.splits)

lemma phase_short: "\<not> is_terminal st \<Longrightarrow> phase r st < 4"
  by (cases r; cases st) (simp_all add: is_terminal_def)

lemma log_step:
  assumes "protocol_step r st op st'" and "log_ok r st names" and "r = Source \<longrightarrow> st \<noteq> AwaitingConfirmation"
    and "r = Target \<longrightarrow> st \<noteq> Waiting"
  shows "log_ok r st' (names @ [op_name op])"
proof -
  have "phase r st < 4" if "\<not> is_terminal st" using phase_short that .
  with assms show ?thesis
    by (cases rule: protocol_step.cases)
      (auto simp: log_ok_def cut_short_def is_terminal_def numeral_2_eq_2 numeral_3_eq_3 numeral_eq_Suc
        split: if_splits)
qed

lemma log_fail: "log_ok r st names \<Longrightarrow> \<not> is_terminal st \<Longrightarrow> log_ok r Aborted names"
  using phase_short [of st r] by (auto simp: log_ok_def cut_short_def is_terminal_def)

lemma step_shape:
  assumes "pair_step env ctx op s = (True, s')"
  shows "same_identity s s' \<and>
    (ps_peer_pubkey s' = ps_peer_pubkey s \<and> ps_sas_code s' = ps_sas_code s \<and> ps_sas_input s' = ps_sas_input s
       \<and> (\<forall>ev. op \<noteq> HandleOffer ev)
     \<or> ps_peer_pubkey s' \<noteq> None \<and> ps_sas_code s' \<noteq> None \<and> ps_sas_input s' \<noteq> None \<and> ps_state s = Waiting)"
  using assms by (cases op) (auto simp: outcome_True op_ok dest!: abort_ok)

lemma step_inv:
  assumes "pair_step env ctx op s = (ok, s')" and "session_inv s"
  shows "session_inv s' \<and> same_identity s s'"
proof (cases ok)
  case True
  with assms have step: "pair_step env ctx op s = (True, s')" by simp
  from step_shape [OF step] have same: "same_identity s s'" by simp
  then have role: "ps_role s' = ps_role s" by (simp add: same_identity_def)
  have "session_inv s'"
    using step_success [OF step] step_shape [OF step] assms(2)
    by (cases rule: protocol_step.cases) (auto simp: session_inv_def role)
  with same show ?thesis by simp
next
  case False
  with assms have "pair_step env ctx op s = (False, s')" by simp
  from step_failure [OF this assms(2)] show ?thesis
  proof (elim disjE exE conjE)
    fix p assume "s' = s\<lparr>ps_peer_pubkey := Some p\<rparr>" "ps_state s = Waiting" "ps_role s = Source"
    then show ?thesis by (simp add: session_inv_def)
  qed (use assms(2) in \<open>simp_all add: session_inv_def\<close>)
qed

lemma basics_authentic:
  assumes "validate_event_basics env s ev = Inr u"
  shows "authentic env (ps_keys s) ev"
proof -
  have two: "take 2 xs = [xs ! 0, xs ! 1]" if "length xs > 1" for xs :: "string list"
    using that by (cases xs; cases "tl xs") (auto simp: numeral_2_eq_2)
  obtain t where "t \<in> set (ev_tags ev)" "tag_slice t ! 0 = ''p''" "length (tag_slice t) > 1"
    "tag_slice t ! 1 = public_key env (ps_keys s)" "event_verify env ev = Ok ()" "ev_kind ev = PAIRING_KIND"
    using assms by (auto simp: validate_event_basics_def list_ex_iff split: sum.splits if_splits)
  then show ?thesis using two [of "tag_slice t"] unfolding authentic_def by metis
qed

lemma basics_fresh: "validate_event_basics env s ev = Inr u \<Longrightarrow> ev_id ev \<notin> set (ps_processed_ids s)"
  by (auto simp: validate_event_basics_def split: sum.splits if_splits)

text \<open>The effect of an accepted event, and of a successful operation without event.\<close>

lemma step_event:
  assumes "pair_step env ctx op s = (True, s')" and "op_event op = Some ev" and "session_inv s"
  shows "validate_event_basics env s ev = Ok () \<and> ps_processed_ids s' = ps_processed_ids s @ [ev_id ev]
    \<and> ps_peer_pubkey s' = Some (ev_pubkey ev)
    \<and> (ps_state s = Waiting \<or> ps_peer_pubkey s' = ps_peer_pubkey s)"
  using assms basics_fresh [of env s ev]
  by (cases op) (auto simp: outcome_True op_ok session_inv_def push_new_def validate_peer_basics is_none_or_def
      split: option.splits)

lemma step_no_event:
  assumes "pair_step env ctx op s = (True, s')" and "op_event op = None"
  shows "ps_processed_ids s' = ps_processed_ids s \<and> ps_peer_pubkey s' = ps_peer_pubkey s"
  using assms by (cases op) (auto simp: outcome_True op_ok dest!: abort_ok)

lemma waiting_source_log:
  "run_inv env (s, log) \<Longrightarrow> ps_state s = Waiting \<Longrightarrow> log = []"
  by (cases "ps_role s") (auto simp: run_inv_def log_ok_def session_inv_def)

lemma run_inv_step:
  assumes inv: "run_inv env (s, log)"
  shows "run_inv env (pair_run env (s, log) (ctx, op))"
proof -
  obtain ok s' where step: "pair_step env ctx op s = (ok, s')" by (cases "pair_step env ctx op s")
  have s: "session_inv s" and log: "log_ok (ps_role s) (ps_state s) (map op_name log)"
    using inv by (auto simp: run_inv_def)
  from step_inv [OF step s] have s': "session_inv s'" and role: "ps_role s' = ps_role s"
    and keys: "ps_keys s' = ps_keys s"
    by (auto simp: same_identity_def)
  show ?thesis
  proof (cases ok)
    case True
    with step have step: "pair_step env ctx op s = (True, s')" by simp
    have "log_ok (ps_role s') (ps_state s') (map op_name (log @ [op]))"
      using log_step [OF step_success [OF step] log] s by (simp add: session_inv_def role)
    moreover have "ps_processed_ids s' = map ev_id (accepted (log @ [op])) \<and> distinct (ps_processed_ids s')
       \<and> (\<forall>e \<in> set (accepted (log @ [op])). ps_peer_pubkey s' = Some (ev_pubkey e))
       \<and> (\<forall>e \<in> set (accepted (log @ [op])). authentic env (ps_keys s') e)"
    proof (cases "op_event op")
      case None
      with step_no_event [OF step] inv keys show ?thesis by (auto simp: run_inv_def)
    next
      case (Some ev)
      note ev = step_event [OF step Some s]
      then have "ev_id ev \<notin> set (ps_processed_ids s)" "authentic env (ps_keys s) ev"
        using basics_fresh basics_authentic by blast+
      with ev Some inv keys waiting_source_log [OF inv] show ?thesis
        by (auto simp: run_inv_def)
    qed
    ultimately have "run_inv env (s', log @ [op])"
      using s' unfolding run_inv_def split by blast
    then show ?thesis using step by simp
  next
    case False
    with step have step: "pair_step env ctx op s = (False, s')" by simp
    have run: "pair_run env (s, log) (ctx, op) = (s', log)" using step by simp
    from step_failure [OF step s] show ?thesis
    proof (elim disjE exE conjE)
      assume "s' = s"
      with inv run show ?thesis by simp
    next
      assume "s' = s\<lparr>ps_state := Aborted\<rparr>" "\<not> is_terminal (ps_state s)"
      with inv run s' log_fail [OF log] show ?thesis by (auto simp: run_inv_def)
    next
      fix p assume "s' = s\<lparr>ps_peer_pubkey := Some p\<rparr>" "ps_state s = Waiting"
      with inv run s' waiting_source_log [OF inv] show ?thesis by (auto simp: run_inv_def)
    qed
  qed
qed

lemma run_inv_new_source: "run_inv env (fst (new_source env ctx keys secret url), [])"
  by (simp add: run_inv_def new_source_def session_inv_def log_ok_def)

interpretation source_run: invariant_machine
  "pair_run env" "(fst (new_source env ctx keys secret url), [])" "run_inv env"
  for env ctx keys secret url
  by unfold_locales (rule run_inv_new_source, metis run_inv_step surj_pair)

lemma run_inv_new_target:
  "new_target env ctx keys qr = Ok (s, ev) \<Longrightarrow> run_inv env (s, [])"
  by (auto simp: new_target_def run_inv_def session_inv_def log_ok_def Let_def split: sum.splits prod.splits)

text \<open>A session as \<open>new_source\<close> or \<open>new_target\<close> returns it.\<close>

inductive fresh_session :: "pairing_env \<Rightarrow> PairingSession \<Rightarrow> bool" for env where
  fresh_source: "fresh_session env (fst (new_source env ctx keys secret url))"
| fresh_target: "new_target env ctx keys qr = Ok (s, ev) \<Longrightarrow> fresh_session env s"

lemma fresh_run_inv: "fresh_session env s \<Longrightarrow> run_inv env (foldl (pair_run env) (s, []) ops)"
  by (induction rule: fresh_session.induct)
    (auto intro: source_run.inv_run run_inv_new_source run_inv_new_target)

text \<open>A run keeps the identity of the session, and the peer of a target.\<close>

lemma step_target_peer:
  assumes "pair_step env ctx op s = (ok, s')" and "session_inv s" and "ps_role s = Target"
  shows "ps_peer_pubkey s' = ps_peer_pubkey s"
proof (cases ok)
  case True
  with assms step_shape [of env ctx op s s'] show ?thesis by (auto simp: session_inv_def)
next
  case False
  with assms step_failure [of env ctx op s s'] show ?thesis by auto
qed

lemma run_identity:
  "run_inv env (s, log) \<Longrightarrow>
     (let s' = fst (foldl (pair_run env) (s, log) ops)
      in ps_role s' = ps_role s \<and> ps_keys s' = ps_keys s
         \<and> (ps_role s = Target \<longrightarrow> ps_peer_pubkey s' = ps_peer_pubkey s))"
proof (induction ops arbitrary: s log)
  case (Cons x ops)
  obtain ctx op where x: "x = (ctx, op)" by (cases x)
  obtain ok s' where step: "pair_step env ctx op s = (ok, s')" by (cases "pair_step env ctx op s")
  have s: "session_inv s" using Cons.prems by (simp add: run_inv_def)
  have "ps_role s' = ps_role s \<and> ps_keys s' = ps_keys s"
    using step_inv [OF step s] by (simp add: same_identity_def)
  with Cons.IH run_inv_step [OF Cons.prems, of ctx op] step_target_peer [OF step s] x step
  show ?case by (simp add: Let_def)
qed simp

section \<open>A message between two sessions\<close>

text \<open>
  What the protocol relies on: the message survives JSON and NIP-44 within the size limits, and a
  signed event carries the author, kind, content and tags it was built from, verifies, and has an id
  that depends on its content. Signing drops tags that point to the author itself, so the law asks
  for two different keys.
\<close>

definition sendable :: "pairing_env \<Rightarrow> SecretKey \<Rightarrow> SecretKey \<Rightarrow> PairingMessage \<Rightarrow> bool" where
  "sendable env x y m \<longleftrightarrow>
     (\<exists>j c. message_to_json env m = Ok j \<and> message_from_json env j = Ok m \<and> length j \<le> 65535
        \<and> nip44_encrypt env x (public_key env y) j = Ok c
        \<and> nip44_decrypt env y (public_key env x) c = Ok j
        \<and> 132 \<le> length c \<and> length c \<le> 87472)"

definition sign_laws :: "pairing_env \<Rightarrow> SecretKey \<Rightarrow> SecretKey \<Rightarrow> bool" where
  "sign_laws env x y \<longleftrightarrow>
     public_key env x \<noteq> public_key env y
     \<and> tag_slice (tag_public_key env (public_key env y)) = [''p'', public_key env y]
     \<and> (\<forall>c ts. \<exists>e. sign_with_keys env x PAIRING_KIND c [tag_public_key env (public_key env y)] ts = Ok e
          \<and> ev_pubkey e = public_key env x \<and> ev_kind e = PAIRING_KIND \<and> ev_content e = c
          \<and> ev_tags e = [tag_public_key env (public_key env y)] \<and> event_verify env e = Ok ())
     \<and> (\<forall>c c' ts ts' e e'.
          sign_with_keys env x PAIRING_KIND c [tag_public_key env (public_key env y)] ts = Ok e \<longrightarrow>
          sign_with_keys env x PAIRING_KIND c' [tag_public_key env (public_key env y)] ts' = Ok e' \<longrightarrow>
          c \<noteq> c' \<longrightarrow> ev_id e \<noteq> ev_id e')"

definition channel_laws :: "pairing_env \<Rightarrow> SecretKey \<Rightarrow> SecretKey \<Rightarrow> bool" where
  "channel_laws env x y \<longleftrightarrow> sign_laws env x y \<and> sign_laws env y x
     \<and> (\<exists>k. generate_shared_key env x (public_key env y) = Ok k
          \<and> generate_shared_key env y (public_key env x) = Ok k)
     \<and> (\<forall>prk info. length (hkdf_expand env prk info 32) = 32)
     \<and> (\<forall>b. hex_laws env b)
     \<and> (\<forall>h. length h = 64 \<longrightarrow> sendable env y x (Offer h 1) \<and> sendable env x y (SasConfirm h))
     \<and> sendable env y x (Complete True)"

definition carries :: "pairing_env \<Rightarrow> SecretKey \<Rightarrow> SecretKey \<Rightarrow> PairingMessage \<Rightarrow> Event \<Rightarrow> bool" where
  "carries env x y m e \<longleftrightarrow>
     ev_pubkey e = public_key env x
     \<and> (\<forall>r. ps_keys r = y \<longrightarrow> decrypt_message env r e = Ok m)
     \<and> (\<forall>r. ps_keys r = y \<longrightarrow> ev_id e \<notin> set (ps_processed_ids r) \<longrightarrow> validate_event_basics env r e = Ok ())
     \<and> (\<exists>ts. sign_with_keys env x PAIRING_KIND (ev_content e) [tag_public_key env (public_key env y)] ts = Ok e)"

lemma message_arrives:
  assumes "sendable env x y m" and "sign_laws env x y"
    and "ps_keys s = x" and "ps_peer_pubkey s = Some (public_key env y)"
  shows "\<exists>e. build_event env ctx s m = Ok e \<and> carries env x y m e"
proof -
  obtain j c where jc: "message_to_json env m = Ok j" "message_from_json env j = Ok m" "length j \<le> 65535"
    "nip44_encrypt env x (public_key env y) j = Ok c" "nip44_decrypt env y (public_key env x) c = Ok j"
    "132 \<le> length c" "length c \<le> 87472"
    using assms(1) unfolding sendable_def by blast
  obtain e where e: "sign_with_keys env x PAIRING_KIND c [tag_public_key env (public_key env y)]
      (unat (jittered_time ctx)) = Ok e" "ev_pubkey e = public_key env x" "ev_kind e = PAIRING_KIND"
    "ev_content e = c" "ev_tags e = [tag_public_key env (public_key env y)]" "event_verify env e = Ok ()"
    using assms(2) unfolding sign_laws_def by blast
  have tag: "tag_slice (tag_public_key env (public_key env y)) = [''p'', public_key env y]"
    using assms(2) by (simp add: sign_laws_def)
  have "build_event env ctx s m = Ok e"
    using assms(3,4) jc e by (simp add: build_event_def map_err_def)
  moreover have "carries env x y m e"
    unfolding carries_def
    using jc e tag by (auto simp: decrypt_message_def validate_event_basics_def map_err_def)
  ultimately show ?thesis by blast
qed

lemma carries_ids_differ:
  assumes "carries env x y m e" and "carries env x y m' e'" and "m \<noteq> m'" and "sign_laws env x y"
  shows "ev_id e \<noteq> ev_id e'"
proof -
  define r :: PairingSession where "r = undefined\<lparr>ps_keys := y\<rparr>"
  have r: "ps_keys r = y" by (simp add: r_def)
  have "ev_content e \<noteq> ev_content e'"
  proof
    assume same: "ev_content e = ev_content e'"
    have pk: "ev_pubkey e = ev_pubkey e'" using assms(1,2) by (simp add: carries_def)
    have "decrypt_message env r e = decrypt_message env r e'"
      unfolding decrypt_message_def same pk by (rule refl)
    with assms(1-3) r show False by (auto simp: carries_def)
  qed
  moreover obtain ts ts' where
    "sign_with_keys env x PAIRING_KIND (ev_content e) [tag_public_key env (public_key env y)] ts = Ok e"
    "sign_with_keys env x PAIRING_KIND (ev_content e') [tag_public_key env (public_key env y)] ts' = Ok e'"
    using assms(1,2) by (auto simp: carries_def)
  ultimately show ?thesis using assms(4) unfolding sign_laws_def by metis
qed

lemma carries_accept:
  "carries env x y m e \<Longrightarrow> ps_keys r = y \<Longrightarrow> ps_peer_pubkey r = Some (public_key env x) \<Longrightarrow>
     ev_id e \<notin> set (ps_processed_ids r) \<Longrightarrow>
     validate_event_from_peer env r e = Ok () \<and> decrypt_message env r e = Ok m"
  by (auto simp: carries_def validate_peer_basics)

lemma hkdf32_length: "channel_laws env x y \<Longrightarrow> length (hkdf32 env s i n) = 32"
  by (simp add: channel_laws_def hkdf32_def Let_def)

lemma hex_array_round:
  "channel_laws env x y \<Longrightarrow> length b = 32 \<Longrightarrow>
     hex_to_array env (hex_encode_bytes env b) = Some b \<and> length (hex_encode_bytes env b) = 64"
  by (auto simp: channel_laws_def hex_laws_def hex_to_array_def)

section \<open>The two sides of a regular exchange\<close>

text \<open>
  The sessions of a source with key \<open>a\<close> and a target with key \<open>b\<close> that share the ECDH secret \<open>k\<close>,
  created at \<open>t0\<close>, in state \<open>st\<close> with the processed event ids \<open>ids\<close>.
\<close>

record exchange =
  ex_env :: pairing_env
  ex_source :: SecretKey
  ex_target :: SecretKey
  ex_secret :: bytes
  ex_url :: string
  ex_shared :: bytes
  ex_start :: int

definition source_at :: "exchange \<Rightarrow> SessionState \<Rightarrow> string list \<Rightarrow> PairingSession" where
  "source_at x st ids = \<lparr>ps_role = Source, ps_state = st, ps_keys = ex_source x,
     ps_session_secret = ex_secret x, ps_relay_urls = [ex_url x],
     ps_peer_pubkey = Some (public_key (ex_env x) (ex_target x)),
     ps_session_id = derive_session_id (ex_env x) (ex_secret x),
     ps_sas_code = Some (fst (derive_sas (ex_env x) (ex_shared x) (ex_secret x))),
     ps_sas_input = Some (snd (derive_sas (ex_env x) (ex_shared x) (ex_secret x))),
     ps_processed_ids = ids, ps_created_at = ex_start x, ps_timeout = DEFAULT_TIMEOUT\<rparr>"

definition target_at :: "exchange \<Rightarrow> SessionState \<Rightarrow> string list \<Rightarrow> PairingSession" where
  "target_at x st ids = (source_at x st ids)\<lparr>ps_role := Target, ps_keys := ex_target x,
     ps_peer_pubkey := Some (public_key (ex_env x) (ex_source x))\<rparr>"

definition exchange_ok :: "exchange \<Rightarrow> bool" where
  "exchange_ok x \<longleftrightarrow> channel_laws (ex_env x) (ex_source x) (ex_target x)
     \<and> generate_shared_key (ex_env x) (ex_source x) (public_key (ex_env x) (ex_target x)) = Ok (ex_shared x)
     \<and> generate_shared_key (ex_env x) (ex_target x) (public_key (ex_env x) (ex_source x)) = Ok (ex_shared x)"

definition in_time :: "exchange \<Rightarrow> pairing_ctx \<Rightarrow> bool" where
  "in_time x ctx \<longleftrightarrow> ctx_instant ctx - ex_start x \<le> DEFAULT_TIMEOUT"

lemma at_simps [simp]:
  "ps_role (source_at x st ids) = Source" "ps_role (target_at x st ids) = Target"
  "ps_state (source_at x st ids) = st" "ps_state (target_at x st ids) = st"
  "ps_keys (source_at x st ids) = ex_source x" "ps_keys (target_at x st ids) = ex_target x"
  "ps_peer_pubkey (source_at x st ids) = Some (public_key (ex_env x) (ex_target x))"
  "ps_peer_pubkey (target_at x st ids) = Some (public_key (ex_env x) (ex_source x))"
  "ps_processed_ids (source_at x st ids) = ids" "ps_processed_ids (target_at x st ids) = ids"
  "ps_session_secret (source_at x st ids) = ex_secret x" "ps_session_secret (target_at x st ids) = ex_secret x"
  "ps_session_id (source_at x st ids) = derive_session_id (ex_env x) (ex_secret x)"
  "ps_session_id (target_at x st ids) = derive_session_id (ex_env x) (ex_secret x)"
  "ps_sas_code (target_at x st ids) = ps_sas_code (source_at x st ids)"
  "ps_sas_code (source_at x st ids) = Some (fst (derive_sas (ex_env x) (ex_shared x) (ex_secret x)))"
  "ps_sas_input (target_at x st ids) = ps_sas_input (source_at x st ids)"
  "ps_sas_input (source_at x st ids) = Some (snd (derive_sas (ex_env x) (ex_shared x) (ex_secret x)))"
  "(source_at x st ids)\<lparr>ps_state := st'\<rparr> = source_at x st' ids"
  "(target_at x st ids)\<lparr>ps_state := st'\<rparr> = target_at x st' ids"
  "ev_id e \<notin> set ids \<Longrightarrow> record_event e (source_at x st ids) = source_at x st (ids @ [ev_id e])"
  "ev_id e \<notin> set ids \<Longrightarrow> record_event e (target_at x st ids) = target_at x st (ids @ [ev_id e])"
  by (simp_all add: source_at_def target_at_def record_event_def push_new_def)

lemma at_live [simp]:
  "in_time x ctx \<Longrightarrow> \<not> is_expired ctx (source_at x st ids)"
  "in_time x ctx \<Longrightarrow> \<not> is_expired ctx (target_at x st ids)"
  by (simp_all add: is_expired_def in_time_def source_at_def target_at_def DEFAULT_TIMEOUT_def max_def)

lemma exchange_okD:
  assumes "exchange_ok x"
  shows "channel_laws (ex_env x) (ex_source x) (ex_target x)"
    and "sign_laws (ex_env x) (ex_source x) (ex_target x)" and "sign_laws (ex_env x) (ex_target x) (ex_source x)"
    and "sendable (ex_env x) (ex_target x) (ex_source x) (Complete True)"
    and "length h = 64 \<Longrightarrow> sendable (ex_env x) (ex_target x) (ex_source x) (Offer h 1)"
    and "length h = 64 \<Longrightarrow> sendable (ex_env x) (ex_source x) (ex_target x) (SasConfirm h)"
  using assms by (auto simp: exchange_ok_def channel_laws_def)

text \<open>Messages between the two, in both directions.\<close>

lemma source_sends:
  assumes "exchange_ok x" and "sendable (ex_env x) (ex_source x) (ex_target x) m"
  shows "\<exists>e. build_event (ex_env x) ctx (source_at x st ids) m = Ok e
    \<and> carries (ex_env x) (ex_source x) (ex_target x) m e"
  using message_arrives [OF assms(2) exchange_okD(2) [OF assms(1)]] by simp

lemma target_sends:
  assumes "exchange_ok x" and "sendable (ex_env x) (ex_target x) (ex_source x) m"
  shows "\<exists>e. build_event (ex_env x) ctx (target_at x st ids) m = Ok e
    \<and> carries (ex_env x) (ex_target x) (ex_source x) m e"
  using message_arrives [OF assms(2) exchange_okD(3) [OF assms(1)]] by simp

lemma target_receives:
  "carries (ex_env x) (ex_source x) (ex_target x) m e \<Longrightarrow> ev_id e \<notin> set ids \<Longrightarrow>
     validate_event_from_peer (ex_env x) (target_at x st ids) e = Ok ()
     \<and> decrypt_message (ex_env x) (target_at x st ids) e = Ok m"
  by (rule carries_accept) simp_all

lemma source_receives:
  "carries (ex_env x) (ex_target x) (ex_source x) m e \<Longrightarrow> ev_id e \<notin> set ids \<Longrightarrow>
     validate_event_from_peer (ex_env x) (source_at x st ids) e = Ok ()
     \<and> decrypt_message (ex_env x) (source_at x st ids) e = Ok m"
  by (rule carries_accept) simp_all

lemma offer_step:
  assumes ok: "exchange_ok x" and "in_time x ctx" and "ctx_instant ctx0 = ex_start x"
  defines "start \<equiv> new_source (ex_env x) ctx0 (ex_source x) (ex_secret x) (ex_url x)"
  shows "\<exists>offer. new_target (ex_env x) ctx0 (ex_target x) (snd start) = Ok (target_at x Confirming [], offer)
    \<and> handle_offer (ex_env x) ctx offer (fst start) =
        (Ok (format_sas (fst (derive_sas (ex_env x) (ex_shared x) (ex_secret x)))),
         source_at x Confirming [ev_id offer])
    \<and> (\<exists>h. carries (ex_env x) (ex_target x) (ex_source x) (Offer h 1) offer)"
proof -
  let ?sid = "derive_session_id (ex_env x) (ex_secret x)"
  note laws = exchange_okD(1) [OF ok]
  have hex: "hex_to_array (ex_env x) (hex_encode_bytes (ex_env x) ?sid) = Some ?sid"
    "length (hex_encode_bytes (ex_env x) ?sid) = 64"
    using hex_array_round [OF laws, of ?sid] hkdf32_length [OF laws] by (auto simp: derive_session_id_def)
  obtain offer where offer: "build_event (ex_env x) ctx0 (target_at x Waiting [])
      (Offer (hex_encode_bytes (ex_env x) ?sid) 1) = Ok offer"
    "carries (ex_env x) (ex_target x) (ex_source x) (Offer (hex_encode_bytes (ex_env x) ?sid) 1) offer"
    using target_sends [OF ok exchange_okD(5) [OF ok hex(2)]] by blast
  have "new_target (ex_env x) ctx0 (ex_target x) (snd start) = Ok (target_at x Confirming [], offer)"
    using ok offer(1) assms(3)
    by (simp add: start_def new_target_def new_source_def Let_def split_def exchange_ok_def
        target_at_def source_at_def)
  moreover have "\<not> is_expired ctx (fst start)"
    using at_live(1) [OF assms(2)] assms(3)
    by (simp add: is_expired_def source_at_def start_def new_source_def)
  then have "handle_offer (ex_env x) ctx offer (fst start) =
        (Ok (format_sas (fst (derive_sas (ex_env x) (ex_shared x) (ex_secret x)))),
         source_at x Confirming [ev_id offer])"
    using offer(2) hex ok assms(3)
    by (auto simp: handle_offer_ok accept_offer_ok start_def new_source_def carries_def exchange_ok_def
        source_at_def record_event_def push_new_def)
  ultimately show ?thesis using offer(2) by blast
qed

lemma confirm_steps:
  assumes ok: "exchange_ok x" and "in_time x ctx" and "in_time x ctx'"
  shows "\<exists>e h. confirm_sas (ex_env x) ctx (source_at x Confirming ids) = (Ok e, source_at x Transferring ids)
    \<and> handle_sas_confirm (ex_env x) ctx' e (target_at x Confirming []) =
        (Ok (format_sas (fst (derive_sas (ex_env x) (ex_shared x) (ex_secret x)))),
         target_at x AwaitingConfirmation [ev_id e])
    \<and> carries (ex_env x) (ex_source x) (ex_target x) (SasConfirm h) e"
proof -
  define tr where "tr = derive_transcript_hash (ex_env x) (derive_session_id (ex_env x) (ex_secret x))
    (pubkey_to_bytes (ex_env x) (public_key (ex_env x) (ex_source x)))
    (pubkey_to_bytes (ex_env x) (public_key (ex_env x) (ex_target x)))
    (snd (derive_sas (ex_env x) (ex_shared x) (ex_secret x))) (ex_secret x)"
  note laws = exchange_okD(1) [OF ok]
  have hex: "hex_to_array (ex_env x) (hex_encode_bytes (ex_env x) tr) = Some tr"
    "length (hex_encode_bytes (ex_env x) tr) = 64"
    using hex_array_round [OF laws, of tr] hkdf32_length [OF laws]
    by (auto simp: tr_def derive_transcript_hash_def Let_def)
  obtain e where e: "build_event (ex_env x) ctx (source_at x Confirming ids)
      (SasConfirm (hex_encode_bytes (ex_env x) tr)) = Ok e"
    "carries (ex_env x) (ex_source x) (ex_target x) (SasConfirm (hex_encode_bytes (ex_env x) tr)) e"
    using source_sends [OF ok exchange_okD(6) [OF ok hex(2)]] by blast
  have "confirm_sas (ex_env x) ctx (source_at x Confirming ids) = (Ok e, source_at x Transferring ids)"
    using e(1) assms(2) by (simp add: confirm_sas_ok tr_def)
  moreover have "handle_sas_confirm (ex_env x) ctx' e (target_at x Confirming []) =
        (Ok (format_sas (fst (derive_sas (ex_env x) (ex_shared x) (ex_secret x)))),
         target_at x AwaitingConfirmation [ev_id e])"
    using target_receives [OF e(2), of "[]"] hex(1) assms(3)
    by (auto simp: handle_sas_confirm_ok tr_def)
  ultimately show ?thesis using e(2) by blast
qed

lemma transfer_steps:
  assumes ok: "exchange_ok x" and send: "sendable (ex_env x) (ex_source x) (ex_target x) (Payload t d)"
    and "in_time x ctx" and "in_time x ctx'"
    and "carries (ex_env x) (ex_source x) (ex_target x) (SasConfirm h) c"
  shows "\<exists>e. send_payload (ex_env x) ctx t d (source_at x Transferring ids) =
        (Ok e, source_at x PayloadExchanged ids)
    \<and> handle_payload (ex_env x) ctx' e (target_at x Transferring [ev_id c]) =
        (Ok (t, d), target_at x PayloadExchanged [ev_id c, ev_id e])"
proof -
  obtain e where e: "build_event (ex_env x) ctx (source_at x Transferring ids) (Payload t d) = Ok e"
    "carries (ex_env x) (ex_source x) (ex_target x) (Payload t d) e"
    using source_sends [OF ok send] by blast
  have "ev_id e \<noteq> ev_id c"
    using carries_ids_differ [OF e(2) assms(5) _ exchange_okD(2) [OF ok]] by simp
  with target_receives [OF e(2), of "[ev_id c]"] assms(3,4) e(1) show ?thesis
    by (intro exI [of _ e]) (simp add: send_payload_ok handle_payload_ok)
qed

lemma complete_steps:
  assumes ok: "exchange_ok x" and "in_time x ctx" and "in_time x ctx'"
    and "carries (ex_env x) (ex_target x) (ex_source x) (Offer h 1) c"
  shows "\<exists>e. send_complete (ex_env x) ctx (target_at x PayloadExchanged ids) = (Ok e, target_at x Completed ids)
    \<and> handle_complete (ex_env x) ctx' e (source_at x PayloadExchanged [ev_id c]) =
        (Ok (), source_at x Completed [ev_id c, ev_id e])"
proof -
  obtain e where e: "build_event (ex_env x) ctx (target_at x PayloadExchanged ids) (Complete True) = Ok e"
    "carries (ex_env x) (ex_target x) (ex_source x) (Complete True) e"
    using target_sends [OF ok exchange_okD(4) [OF ok]] by blast
  have "ev_id e \<noteq> ev_id c"
    using carries_ids_differ [OF e(2) assms(4) _ exchange_okD(3) [OF ok]] by simp
  with source_receives [OF e(2), of "[ev_id c]"] assms(2,3) e(1) show ?thesis
    by (intro exI [of _ e]) (simp add: send_complete_ok handle_complete_ok)
qed

section \<open>A concrete exchange\<close>

definition sample_ctx :: pairing_ctx where
  "sample_ctx = \<lparr>ctx_instant = 0, ctx_unix = 1000, ctx_random = 7\<rparr>"

definition sample_exchange :: exchange where
  "sample_exchange = \<lparr>ex_env = sample_env, ex_source = ''alice'', ex_target = ''bob'',
     ex_secret = replicate 32 7, ex_url = ''wss://relay.io'', ex_shared = [15], ex_start = 0\<rparr>"

definition sample_source :: PairingSession where
  "sample_source = fst (new_source sample_env sample_ctx ''alice'' (replicate 32 7) ''wss://relay.io'')"

lemma sample_source_fresh: "fresh_session sample_env sample_source"
  unfolding sample_source_def by (rule fresh_source)

lemma sample_sendable:
  "length h = 64 \<Longrightarrow> sendable sample_env a b (Offer h 1)"
  "length h = 64 \<Longrightarrow> sendable sample_env a b (SasConfirm h)"
  "sendable sample_env a b (Complete True)"
  "length d \<le> 1000 \<Longrightarrow> sendable sample_env a b (Payload t d)"
  by (auto simp: sendable_def sample_env_def sample_to_json_def sample_from_json_def payload_char_def
      split: PayloadType.splits)

lemma sample_sign_laws: "a \<noteq> b \<Longrightarrow> sign_laws sample_env a b"
  by (auto simp: sign_laws_def sample_env_def)

lemma sample_channel_laws: "a \<noteq> b \<Longrightarrow> channel_laws sample_env a b"
  using sample_sign_laws [of a b] sample_sign_laws [of b a] sample_hex_laws sample_sendable
  by (auto simp: channel_laws_def) (auto simp: sample_env_def)

lemma sample_exchange_ok: "exchange_ok sample_exchange"
  using sample_channel_laws [of "''alice''" "''bob''"]
  by (simp add: exchange_ok_def sample_exchange_def) (simp add: sample_env_def)

lemma sample_in_time: "in_time sample_exchange sample_ctx"
  by (simp add: in_time_def sample_exchange_def sample_ctx_def DEFAULT_TIMEOUT_def)

text \<open>The sample offer, accepted by the sample source.\<close>

lemma sample_offer:
  "\<exists>offer. handle_offer sample_env sample_ctx offer sample_source =
     (Ok (format_sas (fst (derive_sas sample_env [15] (replicate 32 7)))),
      source_at sample_exchange Confirming [ev_id offer])"
  using offer_step [OF sample_exchange_ok sample_in_time, of sample_ctx]
  by (auto simp: sample_source_def sample_exchange_def sample_ctx_def)

section \<open>Properties\<close>

text \<open>
  C6. In any session that starts at \<open>new_source\<close> or \<open>new_target\<close>, whatever methods are called with
  whatever events, the calls that succeed are a prefix of the role's protocol, possibly cut short by
  one abort. In particular the source sends its payload at most once and only after an accepted offer
  and the user's confirmation of the short authentication string; the target accepts a payload at
  most once and only after a verified \<open>sas-confirm\<close> and the user's approval.
\<close>
theorem pairing_protocol_order:
  assumes "fresh_session env s"
  shows "\<exists>n \<le> 4. let names = map op_name (snd (foldl (pair_run env) (s, []) ops)); p = protocol (ps_role s)
    in names = take n p \<or> (n < 4 \<and> names \<in> {take n p @ [''abort''], take n p @ [''handle_abort'']})"
proof -
  obtain s' log where run: "foldl (pair_run env) (s, []) ops = (s', log)" by fastforce
  have inv: "run_inv env (s', log)" using fresh_run_inv [OF assms, of ops] run by simp
  have "ps_role s' = ps_role s"
    using run_identity [OF fresh_run_inv [OF assms, of "[]", simplified], of ops] run by simp
  with inv have "log_ok (ps_role s) (ps_state s') (map op_name log)" by (simp add: run_inv_def)
  moreover have "phase (ps_role s) (ps_state s') \<le> 4"
    by (cases "ps_role s"; cases "ps_state s'") simp_all
  ultimately obtain n where "n \<le> 4" "map op_name log = take n (protocol (ps_role s))
      \<or> n < 4 \<and> map op_name log \<in> {take n (protocol (ps_role s)) @ [''abort''],
           take n (protocol (ps_role s)) @ [''handle_abort'']}"
    unfolding log_ok_def cut_short_def by (metis insertCI less_imp_le)
  then show ?thesis unfolding run snd_conv Let_def by blast
qed

theorem pairing_protocol_order_witness:
  "\<exists>n \<le> 4. let names = map op_name (snd (foldl (pair_run sample_env) (sample_source, []) []));
       p = protocol (ps_role sample_source)
    in names = take n p \<or> (n < 4 \<and> names \<in> {take n p @ [''abort''], take n p @ [''handle_abort'']})"
  by (rule pairing_protocol_order [OF sample_source_fresh])

text \<open>
  Every event a session acts on is authentic, and all of them come from one peer: in any run, the
  accepted events verify, are pairing events addressed to this session's key, have pairwise different
  ids (a redelivered event is refused), and share one author, which for a target is the key of the
  scanned code.
\<close>
theorem accepted_events_authentic:
  assumes "fresh_session env s"
  shows "let evs = accepted (snd (foldl (pair_run env) (s, []) ops)) in
    distinct (map ev_id evs)
    \<and> (\<exists>peer. list_all (\<lambda>e. ev_pubkey e = peer \<and> authentic env (ps_keys s) e) evs
         \<and> (ps_role s = Target \<longrightarrow> ps_peer_pubkey s = Some peer))"
proof -
  obtain s' log where run: "foldl (pair_run env) (s, []) ops = (s', log)" by fastforce
  have s: "run_inv env (s, [])" using fresh_run_inv [OF assms, of "[]"] by simp
  have inv: "run_inv env (s', log)" using fresh_run_inv [OF assms, of ops] run by simp
  have same: "ps_keys s' = ps_keys s \<and> (ps_role s = Target \<longrightarrow> ps_peer_pubkey s' = ps_peer_pubkey s)"
    using run_identity [OF s, of ops] run by simp
  have "\<exists>peer. list_all (\<lambda>e. ev_pubkey e = peer \<and> authentic env (ps_keys s) e) (accepted log)
      \<and> (ps_role s = Target \<longrightarrow> ps_peer_pubkey s = Some peer)"
  proof (cases "ps_peer_pubkey s'")
    case None
    with inv have "accepted log = []" by (cases "accepted log") (auto simp: run_inv_def)
    with s show ?thesis by (auto simp: run_inv_def session_inv_def)
  next
    case (Some p)
    with inv same show ?thesis
      by (intro exI [of _ p]) (auto simp: run_inv_def list_all_iff)
  qed
  with inv show ?thesis by (auto simp: run run_inv_def)
qed

theorem accepted_events_authentic_witness:
  "\<exists>offer. let evs = accepted (snd (foldl (pair_run sample_env) (sample_source, [])
       [(sample_ctx, HandleOffer offer), (sample_ctx, HandleOffer offer)]))
   in evs = [offer] \<and> list_all (authentic sample_env (ps_keys sample_source)) evs"
proof -
  obtain offer where offer: "handle_offer sample_env sample_ctx offer sample_source =
     (Ok (format_sas (fst (derive_sas sample_env [15] (replicate 32 7)))),
      source_at sample_exchange Confirming [ev_id offer])"
    using sample_offer by blast
  have again: "outcome (handle_offer sample_env sample_ctx offer (source_at sample_exchange Confirming ids)) =
      (False, source_at sample_exchange Confirming ids)" for ids
    by (simp add: outcome_def handle_offer_def check_expired_def expect_state_def sample_in_time)
  have "snd (foldl (pair_run sample_env) (sample_source, [])
       [(sample_ctx, HandleOffer offer), (sample_ctx, HandleOffer offer)]) = [HandleOffer offer]"
    using offer again by (simp add: outcome_def)
  then have "accepted (snd (foldl (pair_run sample_env) (sample_source, [])
       [(sample_ctx, HandleOffer offer), (sample_ctx, HandleOffer offer)])) = [offer]"
    using accepted_simps(2) [of "[]" "HandleOffer offer"] by simp
  with accepted_events_authentic [OF sample_source_fresh,
      of "[(sample_ctx, HandleOffer offer), (sample_ctx, HandleOffer offer)]"]
  show ?thesis by (intro exI [of _ offer]) (auto simp: Let_def)
qed

text \<open>
  A completed or aborted session is inert, and so is an expired one except for aborting: every
  method fails and leaves the session as it is.
\<close>
theorem finished_session_inert:
  assumes "is_terminal (ps_state s) \<or> (is_expired ctx s \<and> \<not> is_abort op)"
  shows "pair_step env ctx op s = (False, s)"
  using assms
  by (cases op)
    (auto simp: op_defs outcome_def check_expired_def expect_state_def is_terminal_def is_abort_def
      split: if_splits)

theorem finished_session_inert_witness:
  "pair_step sample_env sample_ctx ConfirmSas (source_at sample_exchange Completed []) =
     (False, source_at sample_exchange Completed [])"
  by (rule finished_session_inert) (simp add: is_terminal_def)

text \<open>
  The target's acceptance of \<open>sas-confirm\<close> is bound to the whole transcript: it succeeds exactly
  when the received hash is the hash of session id, both public keys, the SAS input and the secret as
  the target derives them; any other hash aborts the session.
\<close>
theorem sas_confirm_binds_transcript:
  assumes "session_inv s" and "ps_role s = Target" and "ps_state s = Confirming" and "\<not> is_expired ctx s"
    and "validate_event_from_peer env s ev = Ok ()" and "decrypt_message env s ev = Ok (SasConfirm h)"
  shows "\<exists>peer sas_input. ps_peer_pubkey s = Some peer \<and> ps_sas_input s = Some sas_input \<and>
    (let expected = derive_transcript_hash env (ps_session_id s) (pubkey_to_bytes env peer)
           (pubkey_to_bytes env (public_key env (ps_keys s))) sas_input (ps_session_secret s)
     in if hex_to_array env h = Some expected
        then fst (handle_sas_confirm env ctx ev s) = Ok (the (sas_code s))
             \<and> ps_state (snd (handle_sas_confirm env ctx ev s)) = AwaitingConfirmation
        else handle_sas_confirm env ctx ev s = (Err TranscriptMismatch, s\<lparr>ps_state := Aborted\<rparr>))"
proof -
  obtain p i c where "ps_peer_pubkey s = Some p" "ps_sas_input s = Some i" "ps_sas_code s = Some c"
    using assms(1,2) by (auto simp: session_inv_def)
  with assms(2-6) show ?thesis
    by (auto simp: handle_sas_confirm_def Let_def check_expired_def expect_state_def expect_role_def
        ct_eq_def is_some_and_def sas_code_def split: option.splits)
qed

theorem sas_confirm_binds_transcript_witness:
  "\<exists>ev. ps_state (snd (handle_sas_confirm sample_env sample_ctx ev (target_at sample_exchange Confirming [])))
     \<in> {AwaitingConfirmation, Aborted}"
proof -
  let ?s = "target_at sample_exchange Confirming []"
  have env: "ex_env sample_exchange = sample_env" by (simp add: sample_exchange_def)
  have "length (replicate 64 CHR ''0'') = 64" by simp
  then obtain e where "carries sample_env (ex_source sample_exchange) (ex_target sample_exchange)
      (SasConfirm (replicate 64 CHR ''0'')) e"
    using source_sends [OF sample_exchange_ok, unfolded env, OF sample_sendable(2)] by blast
  from target_receives [of sample_exchange, unfolded env, OF this, of "[]" Confirming]
  have e: "validate_event_from_peer sample_env ?s e = Ok ()"
    "decrypt_message sample_env ?s e = Ok (SasConfirm (replicate 64 CHR ''0''))" by auto
  have "session_inv ?s" by (simp add: session_inv_def)
  from sas_confirm_binds_transcript [OF this _ _ _ e, of sample_ctx] sample_in_time
  show ?thesis by (intro exI [of _ e]) (auto simp: Let_def split: if_splits)
qed

text \<open>
  C7. Pairing completes: with primitives that behave as documented, and every call made within the
  session timeout, the protocol run between a source and a target that scanned its code succeeds at
  every step, both devices show the same short authentication string, the target receives exactly the
  payload the source sent, and both sessions end completed.
\<close>
theorem pairing_completes:
  assumes laws: "channel_laws env a b" and payload: "sendable env a b (Payload t d)"
    and clock: "\<forall>i. ctx_instant (ctx i) - ctx_instant (ctx 0) \<le> DEFAULT_TIMEOUT"
  shows "\<exists>src qr tgt offer sas src1 confirm src2 tgt1 tgt2 ev src3 tgt3 complete tgt4 src4.
    new_source env (ctx 0) a secret url = (src, qr)
    \<and> new_target env (ctx 0) b qr = Ok (tgt, offer)
    \<and> handle_offer env (ctx 1) offer src = (Ok sas, src1)
    \<and> confirm_sas env (ctx 2) src1 = (Ok confirm, src2)
    \<and> handle_sas_confirm env (ctx 3) confirm tgt = (Ok sas, tgt1)
    \<and> confirm_target_sas (ctx 4) tgt1 = (Ok (), tgt2)
    \<and> send_payload env (ctx 5) t d src2 = (Ok ev, src3)
    \<and> handle_payload env (ctx 6) ev tgt2 = (Ok (t, d), tgt3)
    \<and> send_complete env (ctx 7) tgt3 = (Ok complete, tgt4)
    \<and> handle_complete env (ctx 8) complete src3 = (Ok (), src4)
    \<and> ps_state src4 = Completed \<and> ps_state tgt4 = Completed"
proof -
  obtain k where "generate_shared_key env a (public_key env b) = Ok k"
    "generate_shared_key env b (public_key env a) = Ok k"
    using laws by (auto simp: channel_laws_def)
  define x where "x = \<lparr>ex_env = env, ex_source = a, ex_target = b, ex_secret = secret, ex_url = url,
    ex_shared = k, ex_start = ctx_instant (ctx 0)\<rparr>"
  have x [simp]: "ex_env x = env" "ex_source x = a" "ex_target x = b" "ex_secret x = secret"
    "ex_url x = url" "ex_start x = ctx_instant (ctx 0)" by (simp_all add: x_def)
  have ok: "exchange_ok x"
    using laws \<open>generate_shared_key env a _ = _\<close> \<open>generate_shared_key env b _ = _\<close>
    by (simp add: exchange_ok_def x_def)
  have time: "in_time x (ctx i)" for i using clock by (simp add: in_time_def)
  let ?start = "new_source env (ctx 0) a secret url"
  from offer_step [OF ok time, of "ctx 0" 1] obtain offer h where offer:
    "new_target env (ctx 0) b (snd ?start) = Ok (target_at x Confirming [], offer)"
    "handle_offer env (ctx 1) offer (fst ?start) =
       (Ok (format_sas (fst (derive_sas env (ex_shared x) secret))), source_at x Confirming [ev_id offer])"
    "carries env b a (Offer h 1) offer" by auto
  from confirm_steps [OF ok time time, of 2 "[ev_id offer]" 3] obtain confirm g where confirm:
    "confirm_sas env (ctx 2) (source_at x Confirming [ev_id offer]) =
       (Ok confirm, source_at x Transferring [ev_id offer])"
    "handle_sas_confirm env (ctx 3) confirm (target_at x Confirming []) =
       (Ok (format_sas (fst (derive_sas env (ex_shared x) secret))),
        target_at x AwaitingConfirmation [ev_id confirm])"
    "carries env a b (SasConfirm g) confirm" by auto
  have approve: "confirm_target_sas (ctx 4) (target_at x AwaitingConfirmation [ev_id confirm]) =
      (Ok (), target_at x Transferring [ev_id confirm])"
    by (simp add: confirm_target_sas_ok time)
  from transfer_steps [OF ok _ time time, of t d g confirm 5 "[ev_id offer]" 6] payload confirm(3)
  obtain ev where ev:
    "send_payload env (ctx 5) t d (source_at x Transferring [ev_id offer]) =
       (Ok ev, source_at x PayloadExchanged [ev_id offer])"
    "handle_payload env (ctx 6) ev (target_at x Transferring [ev_id confirm]) =
       (Ok (t, d), target_at x PayloadExchanged [ev_id confirm, ev_id ev])" by auto
  from complete_steps [OF ok time time, of h offer 7 "[ev_id confirm, ev_id ev]" 8] offer(3)
  obtain complete where complete:
    "send_complete env (ctx 7) (target_at x PayloadExchanged [ev_id confirm, ev_id ev]) =
       (Ok complete, target_at x Completed [ev_id confirm, ev_id ev])"
    "handle_complete env (ctx 8) complete (source_at x PayloadExchanged [ev_id offer]) =
       (Ok (), source_at x Completed [ev_id offer, ev_id complete])" by auto
  have "?start = (fst ?start, snd ?start)" by simp
  with offer(1,2) confirm(1,2) approve ev complete at_simps(3,4) show ?thesis by fast
qed

theorem pairing_completes_witness:
  "\<exists>src qr tgt offer sas src1. new_source sample_env sample_ctx ''alice'' (replicate 32 7) ''wss://relay.io'' = (src, qr)
    \<and> new_target sample_env sample_ctx ''bob'' qr = Ok (tgt, offer)
    \<and> handle_offer sample_env sample_ctx offer src = (Ok sas, src1)"
  using pairing_completes [where env = sample_env and a = "''alice''" and b = "''bob''"
      and ctx = "\<lambda>_. sample_ctx" and t = Nsec and d = "''nsec1x''" and secret = "replicate 32 7"
      and url = "''wss://relay.io''"]
    sample_channel_laws [of "''alice''" "''bob''"] sample_sendable(4) [of "''nsec1x''"]
  by (simp add: DEFAULT_TIMEOUT_def) blast

end
