(* ===== verification/AudioRoom.thy ===== *)
theory AudioRoom
  imports Nostr
begin

text \<open>
  \<^verbatim>\<open>crates/lenos-relay/src/audio/room.rs\<close>: huddle rooms, peer admission, the owner roster and frame
  fan-out, and the room manager.

  The channel ends a peer holds (\<open>audio_tx\<close>, \<open>ctrl_tx\<close>) belong to tokio; a peer is identified by its
  id, and the calls of \<open>try_send\<close> an operation makes are part of its result, in order. The roster
  broadcast is the log of the deltas sent. \<open>guard_poisoned\<close> is the state of the standard mutex that
  \<open>lock()\<close> reports; no operation of the room sets it. Fresh UUIDs and clock values are arguments.

  \<open>room_inv\<close> is the invariant of the admission machine; \<open>reachable_room\<close> are the states every
  interleaving of the (mutually exclusive, lock-protected) operations can produce.
\<close>

section \<open>Data\<close>

record AudioPeer =
  ap_pubkey :: string
  ap_peer_index :: u8

datatype PeerCtrl = CtrlJson string | CtrlClose

definition MAX_PEERS_PER_ROOM :: nat where "MAX_PEERS_PER_ROOM = 25"

record RosterPeer =
  rp_pubkey :: string
  rp_peer_index :: u8

record RosterSnapshot =
  snap_revision :: u64
  snap_peers :: "RosterPeer list"

record RosterDelta =
  rd_revision :: u64
  rd_joined :: "RosterPeer option"
  rd_left :: "RosterPeer option"

datatype AdmissionError = Ended | Full | VersionMismatch u8 u8

record AdmissionGuard =
  next_fresh :: u8
  free :: "u8 list"
  ended :: bool
  pinned_version :: "u8 option"
  roster_revision :: u64

definition AdmissionGuard_new :: AdmissionGuard where
  "AdmissionGuard_new = \<lparr>next_fresh = 0, free = [], ended = False, pinned_version = None, roster_revision = 0\<rparr>"

text \<open>\<open>Vec::pop\<close> and \<open>Vec::push\<close> work at the end of the vector.\<close>

definition alloc :: "AdmissionGuard \<Rightarrow> u8 option \<times> AdmissionGuard" where
  "alloc g =
     (if free g \<noteq> [] then (Some (last (free g)), g\<lparr>free := butlast (free g)\<rparr>)
      else if next_fresh g = 255 then (None, g)
      else (Some (next_fresh g), g\<lparr>next_fresh := next_fresh g + 1\<rparr>))"

definition release :: "u8 \<Rightarrow> AdmissionGuard \<Rightarrow> AdmissionGuard" where
  "release idx g = g\<lparr>free := free g @ [idx]\<rparr>"

record RecordedFrame =
  rf_peer_index :: u8
  rf_timestamp_ms :: u64
  rf_data :: "u8 list"

record Room =
  room_community_id :: CommunityId
  room_channel_id :: uuid
  peers :: "(uuid, AudioPeer) hmap"
  guard :: AdmissionGuard
  guard_poisoned :: bool
  roster_log :: "RosterDelta list"
  recording :: "string option"

definition Room_new :: "CommunityId \<Rightarrow> uuid \<Rightarrow> Room" where
  "Room_new c ch = \<lparr>room_community_id = c, room_channel_id = ch, peers = [], guard = AdmissionGuard_new,
     guard_poisoned = False, roster_log = [], recording = None\<rparr>"

section \<open>Room operations\<close>

definition attach_recorder :: "string \<Rightarrow> Room \<Rightarrow> Room" where
  "attach_recorder handle r = (if recording r = None then r\<lparr>recording := Some handle\<rparr> else r)"

definition mark_ended :: "Room \<Rightarrow> bool \<times> Room" where
  "mark_ended r =
     (if guard_poisoned r then (False, r)
      else (peers r = [], r\<lparr>guard := (guard r)\<lparr>ended := True\<rparr>\<rparr>))"

definition clear_ended :: "Room \<Rightarrow> Room" where
  "clear_ended r = (if guard_poisoned r then r else r\<lparr>guard := (guard r)\<lparr>ended := False\<rparr>\<rparr>)"

text \<open>The version check both admissions make.\<close>

definition version_error :: "AdmissionGuard \<Rightarrow> u8 \<Rightarrow> AdmissionError option" where
  "version_error g requested =
     (case pinned_version g of
        Some pinned \<Rightarrow> if pinned \<noteq> requested then Some (VersionMismatch pinned requested) else None
      | None \<Rightarrow> None)"

text \<open>\<open>pinned_version.get_or_insert(v)\<close>\<close>

definition pin :: "u8 \<Rightarrow> AdmissionGuard \<Rightarrow> AdmissionGuard" where
  "pin v g = (case pinned_version g of None \<Rightarrow> g\<lparr>pinned_version := Some v\<rparr> | Some _ \<Rightarrow> g)"

text \<open>The common end of the admissions: insert the peer, bump the revision, publish the delta.\<close>

definition insert_peer :: "uuid \<Rightarrow> string \<Rightarrow> u8 \<Rightarrow> Room \<Rightarrow> Room" where
  "insert_peer peer_id pubkey peer_index r =
     (let rev = roster_revision (guard r) + 1
      in r\<lparr>peers := hm_insert peer_id \<lparr>ap_pubkey = pubkey, ap_peer_index = peer_index\<rparr> (peers r),
           guard := (guard r)\<lparr>roster_revision := rev\<rparr>,
           roster_log := roster_log r @
             [\<lparr>rd_revision = rev, rd_joined = Some \<lparr>rp_pubkey = pubkey, rp_peer_index = peer_index\<rparr>,
               rd_left = None\<rparr>]\<rparr>)"

definition add_peer ::
  "uuid \<Rightarrow> string \<Rightarrow> u8 \<Rightarrow> Room \<Rightarrow> (AdmissionError, uuid \<times> u8) result \<times> Room" where
  "add_peer peer_id pubkey requested_version r =
     (if guard_poisoned r then (Err Ended, r)
      else if ended (guard r) then (Err Ended, r)
      else if length (peers r) \<ge> MAX_PEERS_PER_ROOM then (Err Full, r)
      else (case version_error (guard r) requested_version of
        Some e \<Rightarrow> (Err e, r)
      | None \<Rightarrow>
          (case alloc (guard r) of
             (None, g) \<Rightarrow> (Err Full, r\<lparr>guard := g\<rparr>)
           | (Some peer_index, g) \<Rightarrow>
               (Ok (peer_id, peer_index),
                insert_peer peer_id pubkey peer_index (r\<lparr>guard := pin requested_version g\<rparr>)))))"

text \<open>\<open>peer_index.saturating_add(1)\<close>\<close>

definition saturating_succ :: "u8 \<Rightarrow> u8" where
  "saturating_succ x = (if x = 255 then 255 else x + 1)"

definition reserve_index :: "u8 \<Rightarrow> AdmissionGuard \<Rightarrow> AdmissionGuard" where
  "reserve_index peer_index g =
     (let g1 = g\<lparr>free := filter (\<lambda>idx. idx \<noteq> peer_index) (free g)\<rparr>
      in if peer_index \<ge> next_fresh g1 then g1\<lparr>next_fresh := saturating_succ peer_index\<rparr> else g1)"

definition add_peer_at_index ::
  "uuid \<Rightarrow> string \<Rightarrow> u8 \<Rightarrow> u8 \<Rightarrow> Room \<Rightarrow> (AdmissionError, uuid) result \<times> Room" where
  "add_peer_at_index peer_id pubkey requested_version peer_index r =
     (if guard_poisoned r then (Err Ended, r)
      else if ended (guard r) then (Err Ended, r)
      else if length (peers r) \<ge> MAX_PEERS_PER_ROOM
              \<or> list_ex (\<lambda>p. ap_peer_index p = peer_index) (hm_values (peers r)) then (Err Full, r)
      else (case version_error (guard r) requested_version of
        Some e \<Rightarrow> (Err e, r)
      | None \<Rightarrow>
          (Ok peer_id,
           insert_peer peer_id pubkey peer_index
             (r\<lparr>guard := reserve_index peer_index (pin requested_version (guard r))\<rparr>))))"

text \<open>The common part of the removals: recycle the index, bump the revision, publish the delta.\<close>

definition drop_peer :: "uuid \<Rightarrow> AudioPeer \<Rightarrow> Room \<Rightarrow> Room" where
  "drop_peer peer_id peer r =
     (let g = release (ap_peer_index peer) (guard r); rev = roster_revision g + 1
      in r\<lparr>peers := hm_remove peer_id (peers r),
           guard := g\<lparr>roster_revision := rev\<rparr>,
           roster_log := roster_log r @
             [\<lparr>rd_revision = rev, rd_joined = None,
               rd_left = Some \<lparr>rp_pubkey = ap_pubkey peer, rp_peer_index = ap_peer_index peer\<rparr>\<rparr>]\<rparr>)"

definition remove_peer :: "uuid \<Rightarrow> Room \<Rightarrow> Room" where
  "remove_peer peer_id r =
     (if guard_poisoned r then r
      else (case hm_get (peers r) peer_id of None \<Rightarrow> r | Some peer \<Rightarrow> drop_peer peer_id peer r))"

definition remove_peer_and_check_ended :: "uuid \<Rightarrow> Room \<Rightarrow> (u8 \<times> bool) option \<times> Room" where
  "remove_peer_and_check_ended peer_id r =
     (if guard_poisoned r then (None, r)
      else (case hm_get (peers r) peer_id of
        None \<Rightarrow> (None, r)
      | Some peer \<Rightarrow>
          (let r1 = drop_peer peer_id peer r
           in if \<not> ended (guard r1) \<and> peers r1 = []
              then (Some (ap_peer_index peer, True), r1\<lparr>guard := (guard r1)\<lparr>ended := True\<rparr>\<rparr>)
              else (Some (ap_peer_index peer, False), r1))))"

text \<open>The frames handed to \<open>try_send\<close>, per peer, and the recorded frame.\<close>

definition broadcast_frame ::
  "u64 \<Rightarrow> uuid \<Rightarrow> u8 list \<Rightarrow> Room \<Rightarrow> (uuid \<times> u8 list) list \<times> RecordedFrame option" where
  "broadcast_frame now_ms sender_id frame r =
     (case hm_get (peers r) sender_id of
        None \<Rightarrow> ([], None)
      | Some p \<Rightarrow>
          (let prefixed = ap_peer_index p # frame
           in (map (\<lambda>(k, _). (k, prefixed)) (filter (\<lambda>(k, _). k \<noteq> sender_id) (peers r)),
               if recording r = None then None
               else Some \<lparr>rf_peer_index = ap_peer_index p, rf_timestamp_ms = now_ms, rf_data = frame\<rparr>)))"

definition deliver_prefixed ::
  "u64 \<Rightarrow> u8 \<Rightarrow> u8 list \<Rightarrow> Room \<Rightarrow> (uuid \<times> u8 list) list \<times> RecordedFrame option" where
  "deliver_prefixed now_ms author_index prefixed r =
     (map (\<lambda>(k, _). (k, prefixed)) (filter (\<lambda>(_, p). ap_peer_index p \<noteq> author_index) (peers r)),
      if recording r \<noteq> None \<and> length prefixed > 1
      then Some \<lparr>rf_peer_index = author_index, rf_timestamp_ms = now_ms, rf_data = drop 1 prefixed\<rparr>
      else None)"

definition broadcast_control :: "string \<Rightarrow> Room \<Rightarrow> (uuid \<times> PeerCtrl) list" where
  "broadcast_control json r = map (\<lambda>(k, _). (k, CtrlJson json)) (peers r)"

definition roster_snapshot :: "Room \<Rightarrow> RosterSnapshot" where
  "roster_snapshot r =
     \<lparr>snap_revision = roster_revision (guard r),
      snap_peers = sort_key rp_peer_index
        (map (\<lambda>p. \<lparr>rp_pubkey = ap_pubkey p, rp_peer_index = ap_peer_index p\<rparr>) (hm_values (peers r)))\<rparr>"

definition peer_pubkeys :: "Room \<Rightarrow> (string \<times> u8) list" where
  "peer_pubkeys r = map (\<lambda>p. (ap_pubkey p, ap_peer_index p)) (hm_values (peers r))"

definition room_is_empty :: "Room \<Rightarrow> bool" where
  "room_is_empty r = (peers r = [])"

section \<open>The room manager\<close>

text \<open>
  Rooms are shared (\<open>Arc<Room>\<close>), so they live in a store and the manager maps keys to addresses; a
  room removed from the map stays in the store for the tasks that still hold it.
\<close>

record AudioRoomManager =
  rooms :: "(CommunityId \<times> uuid, nat) hmap"
  room_store :: "Room list"
  recording_dir :: "string option"

definition AudioRoomManager_new :: AudioRoomManager where
  "AudioRoomManager_new = \<lparr>rooms = [], room_store = [], recording_dir = None\<rparr>"

definition with_recording :: "string \<Rightarrow> AudioRoomManager" where
  "with_recording dir = \<lparr>rooms = [], room_store = [], recording_dir = Some dir\<rparr>"

text \<open>
  The result is the address of the room, the path components of the recording the call spawns a
  writer for (if any), and the manager.
\<close>

definition get_or_create ::
  "nat \<Rightarrow> CommunityId \<Rightarrow> uuid \<Rightarrow> AudioRoomManager \<Rightarrow> nat \<times> string list option \<times> AudioRoomManager" where
  "get_or_create now_secs c ch mgr =
     (let (a, mgr') = (case hm_get (rooms mgr) (c, ch) of
            Some a \<Rightarrow> (a, mgr)
          | None \<Rightarrow> (length (room_store mgr),
                     mgr\<lparr>rooms := hm_insert (c, ch) (length (room_store mgr)) (rooms mgr),
                         room_store := room_store mgr @ [Room_new c ch]\<rparr>));
          spawned = (if recording (room_store mgr' ! a) = None
                     then map_option (\<lambda>dir. [dir, c, ch, nat_to_string now_secs @ ''.lenosopu'']) (recording_dir mgr')
                     else None)
      in (a, spawned, mgr'))"

definition manager_get :: "CommunityId \<Rightarrow> uuid \<Rightarrow> AudioRoomManager \<Rightarrow> nat option" where
  "manager_get c ch mgr = hm_get (rooms mgr) (c, ch)"

definition get_unambiguous_by_channel :: "uuid \<Rightarrow> AudioRoomManager \<Rightarrow> nat option" where
  "get_unambiguous_by_channel ch mgr =
     (case filter (\<lambda>(k, _). snd k = ch) (rooms mgr) of
        [(_, a)] \<Rightarrow> Some a
      | _ \<Rightarrow> None)"

definition cleanup_if_empty :: "CommunityId \<Rightarrow> uuid \<Rightarrow> AudioRoomManager \<Rightarrow> nat option \<times> AudioRoomManager" where
  "cleanup_if_empty c ch mgr =
     (case hm_get (rooms mgr) (c, ch) of
        None \<Rightarrow> (None, mgr)
      | Some a \<Rightarrow>
          if room_is_empty (room_store mgr ! a)
          then (Some a, mgr\<lparr>rooms := hm_remove (c, ch) (rooms mgr)\<rparr>)
          else (None, mgr))"

section \<open>The index allocator\<close>

text \<open>\<open>guard_inv g U\<close>: the allocator never hands out an index of the used set \<open>U\<close>.\<close>

definition guard_inv :: "AdmissionGuard \<Rightarrow> u8 set \<Rightarrow> bool" where
  "guard_inv g U \<longleftrightarrow> distinct (free g) \<and> set (free g) \<inter> U = {}
     \<and> (\<forall>i \<in> set (free g) \<union> U. i < next_fresh g \<or> i = 255)"

lemma u8_succ: "n \<noteq> (255 :: u8) \<Longrightarrow> unat (n + 1) = unat n + 1"
proof -
  assume "n \<noteq> 255"
  moreover have "(- 1 :: u8) = 255" by simp
  ultimately have "n + 1 \<noteq> 0" using eq_neg_iff_add_eq_0 [of n 1] by metis
  then show ?thesis using unatSuc [of n] by (simp add: add.commute)
qed

lemma alloc_inv:
  assumes "guard_inv g U" and "alloc g = (Some i, g')"
  shows "i \<notin> U \<and> guard_inv g' (insert i U)"
proof (cases "free g = []")
  case True
  with assms(2) have i: "i = next_fresh g" "g' = g\<lparr>next_fresh := next_fresh g + 1\<rparr>" "next_fresh g \<noteq> 255"
    by (auto simp: alloc_def split: if_splits)
  then have "x < next_fresh g + 1" if "x < next_fresh g \<or> x = next_fresh g" for x
    using that u8_succ [of "next_fresh g"] by (auto simp: word_less_nat_alt)
  with assms(1) True i show ?thesis by (auto simp: guard_inv_def)
next
  case False
  then obtain fs j where fs: "free g = fs @ [j]" by (meson rev_exhaust)
  with assms(2) have "i = j" "g' = g\<lparr>free := fs\<rparr>" by (auto simp: alloc_def)
  with assms(1) fs show ?thesis by (auto simp: guard_inv_def)
qed

lemma release_inv: "guard_inv g U \<Longrightarrow> i \<in> U \<Longrightarrow> guard_inv (release i g) (U - {i})"
  by (auto simp: guard_inv_def release_def)

lemma reserve_inv: "guard_inv g U \<Longrightarrow> i \<notin> U \<Longrightarrow> guard_inv (reserve_index i g) (insert i U)"
proof -
  assume inv: "guard_inv g U" and "i \<notin> U"
  have grow: "x < saturating_succ i \<or> x = 255" if "x < next_fresh g \<or> x = 255 \<or> x = i" "next_fresh g \<le> i" for x
    using that u8_succ [of i] by (cases "i = 255")
      (auto simp: saturating_succ_def word_less_nat_alt word_le_nat_alt)
  show ?thesis
  proof (cases "next_fresh g \<le> i")
    case True
    with inv \<open>i \<notin> U\<close> grow show ?thesis by (auto simp: guard_inv_def reserve_index_def Let_def)
  next
    case False
    with inv \<open>i \<notin> U\<close> show ?thesis by (auto simp: guard_inv_def reserve_index_def Let_def)
  qed
qed

lemma guard_inv_fields [simp]:
  "guard_inv (g\<lparr>ended := e\<rparr>) U = guard_inv g U" "guard_inv (g\<lparr>roster_revision := v\<rparr>) U = guard_inv g U"
  "guard_inv (pin w g) U = guard_inv g U"
  by (simp_all add: guard_inv_def pin_def split: option.splits)

section \<open>The roster\<close>

text \<open>
  A client keeps a map from peer index to public key and applies the deltas in order;
  \<open>roster_of\<close> is the map the owner's peer table stands for.
\<close>

definition roster_of :: "(uuid, AudioPeer) hmap \<Rightarrow> u8 \<rightharpoonup> string" where
  "roster_of ps = map_of (map (\<lambda>p. (ap_peer_index p, ap_pubkey p)) (hm_values ps))"

definition apply_roster :: "(u8 \<rightharpoonup> string) \<Rightarrow> RosterDelta \<Rightarrow> u8 \<rightharpoonup> string" where
  "apply_roster m d =
     (let m1 = (case rd_joined d of None \<Rightarrow> m | Some p \<Rightarrow> m(rp_peer_index p \<mapsto> rp_pubkey p))
      in case rd_left d of None \<Rightarrow> m1 | Some p \<Rightarrow> m1(rp_peer_index p := None))"

abbreviation seats :: "Room \<Rightarrow> u8 set" where
  "seats r \<equiv> dom (roster_of (peers r))"

definition indices_distinct :: "(uuid, AudioPeer) hmap \<Rightarrow> bool" where
  "indices_distinct ps \<longleftrightarrow> distinct (map ap_peer_index (hm_values ps))"

lemma hm_insert_fresh: "hm_get m k = None \<Longrightarrow> hm_insert k v m = m @ [(k, v)]"
  unfolding hm_insert_def hm_get_def by (induction m) (auto split: if_splits)

lemma hm_remove_filter: "hm_remove k m = filter (\<lambda>x. k \<noteq> fst x) m"
  by (simp add: hm_remove_def AList.delete_eq split_def)

lemma hm_get_value: "hm_get m k = Some v \<Longrightarrow> v \<in> set (hm_values m)"
  by (auto simp: hm_get_def hm_values_def intro: rev_image_eqI dest!: map_of_SomeD)

lemma seats_index: "p \<in> set (hm_values ps) \<Longrightarrow> ap_peer_index p \<in> dom (roster_of ps)"
  by (auto simp: roster_of_def dom_map_of_conv_image_fst image_image)

lemma roster_insert:
  assumes "hm_get ps k = None" and "ap_peer_index p \<notin> dom (roster_of ps)"
  shows "roster_of (hm_insert k p ps) = (roster_of ps)(ap_peer_index p \<mapsto> ap_pubkey p)"
proof -
  have "map_of (xs @ [(i, v)]) = (map_of xs)(i \<mapsto> v)" if "i \<notin> dom (map_of xs)"
    for xs :: "(u8 \<times> string) list" and i v
    using that by (auto simp: map_add_def fun_eq_iff split: option.splits)
  with assms show ?thesis
    by (simp add: hm_insert_fresh roster_of_def hm_values_def)
qed

lemma indices_insert:
  "hm_get ps k = None \<Longrightarrow> ap_peer_index p \<notin> dom (roster_of ps) \<Longrightarrow> indices_distinct ps \<Longrightarrow>
     indices_distinct (hm_insert k p ps)"
  using seats_index [of _ ps] by (auto simp: indices_distinct_def hm_insert_fresh hm_values_def) force+

lemma indices_remove: "indices_distinct ps \<Longrightarrow> indices_distinct (hm_remove k ps)"
  by (induction ps) (auto simp: indices_distinct_def hm_remove_filter hm_values_def)

lemma roster_remove:
  assumes "hm_wf ps" and "indices_distinct ps" and "hm_get ps k = Some p"
  shows "roster_of (hm_remove k ps) = (roster_of ps)(ap_peer_index p := None)"
  using assms
proof (induction ps)
  case (Cons x ps)
  obtain j q where x: "x = (j, q)" by (cases x)
  have wf: "hm_wf ps" "j \<notin> set (map fst ps)" using Cons.prems(1) x by (simp_all add: hm_wf_def hm_keys_def)
  have ind: "indices_distinct ps" "ap_peer_index q \<notin> set (map ap_peer_index (hm_values ps))"
    using Cons.prems(2) x by (simp_all add: indices_distinct_def hm_values_def)
  have out: "roster_of ps (ap_peer_index q) = None"
    using ind(2) by (auto simp: roster_of_def map_of_eq_None_iff)
  show ?case
  proof (cases "j = k")
    case True
    then have "p = q" and "filter (\<lambda>x. k \<noteq> fst x) ps = ps"
      using Cons.prems(3) x wf(2) by (auto simp: hm_get_def filter_id_conv)
    with True x out show ?thesis
      by (auto simp: hm_remove_filter roster_of_def hm_values_def fun_eq_iff)
  next
    case False
    then have get: "hm_get ps k = Some p" using Cons.prems(3) x by (simp add: hm_get_def)
    then have "p \<in> set (hm_values ps)" by (rule hm_get_value)
    with ind(2) have "ap_peer_index p \<noteq> ap_peer_index q" by (metis image_eqI list.set_map)
    with Cons.IH [OF wf(1) ind(1) get] False x show ?thesis
      by (auto simp: hm_remove_filter roster_of_def hm_values_def fun_eq_iff)
  qed
qed (simp add: hm_get_def)

section \<open>Invariant of a room\<close>

definition roster_ok :: "Room \<Rightarrow> bool" where
  "roster_ok r \<longleftrightarrow>
     map rd_revision (roster_log r) = map of_nat [1..<Suc (length (roster_log r))]
     \<and> roster_revision (guard r) = of_nat (length (roster_log r))
     \<and> foldl apply_roster Map.empty (roster_log r) = roster_of (peers r)"

definition room_inv :: "Room \<Rightarrow> bool" where
  "room_inv r \<longleftrightarrow> hm_wf (peers r) \<and> indices_distinct (peers r) \<and> guard_inv (guard r) (seats r)
     \<and> length (peers r) \<le> MAX_PEERS_PER_ROOM
     \<and> (peers r \<noteq> [] \<longrightarrow> pinned_version (guard r) \<noteq> None)
     \<and> roster_ok r"

lemma room_inv_new: "room_inv (Room_new c ch)"
  by (simp add: room_inv_def Room_new_def AdmissionGuard_new_def indices_distinct_def guard_inv_def
      roster_ok_def roster_of_def hm_values_def)

lemma insert_peer_inv:
  assumes inv: "room_inv r" and fresh: "hm_get (peers r) k = None" and room: "length (peers r) < MAX_PEERS_PER_ROOM"
    and seat: "i \<notin> seats r" and g: "guard_inv g (insert i (seats r))"
    and pin: "pinned_version g \<noteq> None" and rev: "roster_revision g = roster_revision (guard r)"
  shows "room_inv (insert_peer k pk i (r\<lparr>guard := g\<rparr>))"
proof -
  let ?p = "\<lparr>ap_pubkey = pk, ap_peer_index = i\<rparr>"
  have roster: "roster_of (hm_insert k ?p (peers r)) = (roster_of (peers r))(i \<mapsto> pk)"
    using roster_insert [OF fresh, of ?p] seat by simp
  have "indices_distinct (hm_insert k ?p (peers r))"
    using indices_insert [OF fresh, of ?p] seat inv by (simp add: room_inv_def)
  moreover have "length (hm_insert k ?p (peers r)) \<le> MAX_PEERS_PER_ROOM"
    using room by (simp add: hm_insert_fresh [OF fresh])
  ultimately show ?thesis
    using assms roster
    by (simp add: room_inv_def roster_ok_def insert_peer_def Let_def apply_roster_def)
qed

lemma drop_peer_inv:
  assumes inv: "room_inv r" and p: "hm_get (peers r) k = Some p"
  shows "room_inv (drop_peer k p r)"
proof -
  have roster: "roster_of (hm_remove k (peers r)) = (roster_of (peers r))(ap_peer_index p := None)"
    using roster_remove [OF _ _ p] inv by (simp add: room_inv_def)
  have seat: "ap_peer_index p \<in> seats r"
    using p by (intro seats_index hm_get_value)
  have "guard_inv (release (ap_peer_index p) (guard r)) (seats r - {ap_peer_index p})"
    using release_inv seat inv by (simp add: room_inv_def)
  moreover have "length (hm_remove k (peers r)) \<le> length (peers r)"
    by (simp add: hm_remove_filter)
  moreover have "hm_remove k (peers r) \<noteq> [] \<Longrightarrow> peers r \<noteq> []"
    by (auto simp: hm_remove_filter)
  ultimately show ?thesis
    using inv roster indices_remove [of "peers r" k]
    by (auto simp: room_inv_def roster_ok_def drop_peer_def Let_def apply_roster_def release_def)
qed

section \<open>Runs of a room\<close>

datatype room_op =
    AddPeer uuid string u8
  | AddPeerAtIndex uuid string u8 u8
  | RemovePeer uuid
  | RemovePeerAndCheckEnded uuid
  | MarkEnded
  | ClearEnded
  | AttachRecorder string

text \<open>The state after an operation, and whether it told its caller to end the room.\<close>

fun room_exec :: "Room \<Rightarrow> room_op \<Rightarrow> bool \<times> Room" where
  "room_exec r (AddPeer k pk v) = (False, snd (add_peer k pk v r))"
| "room_exec r (AddPeerAtIndex k pk v i) = (False, snd (add_peer_at_index k pk v i r))"
| "room_exec r (RemovePeer k) = (False, remove_peer k r)"
| "room_exec r (RemovePeerAndCheckEnded k) =
     (let (out, r') = remove_peer_and_check_ended k r in (is_some_and out snd, r'))"
| "room_exec r MarkEnded = (False, snd (mark_ended r))"
| "room_exec r ClearEnded = (False, clear_ended r)"
| "room_exec r (AttachRecorder h) = (False, attach_recorder h r)"

text \<open>\<open>Uuid::new_v4()\<close> never returns the id of a connected peer.\<close>

definition fresh_op :: "Room \<Rightarrow> room_op \<Rightarrow> bool" where
  "fresh_op r op = (case op of
     AddPeer k _ _ \<Rightarrow> hm_get (peers r) k = None
   | AddPeerAtIndex k _ _ _ \<Rightarrow> hm_get (peers r) k = None
   | _ \<Rightarrow> True)"

definition room_step :: "Room \<Rightarrow> room_op \<Rightarrow> Room" where
  "room_step r op = (if fresh_op r op then snd (room_exec r op) else r)"

inductive reachable_room :: "Room \<Rightarrow> bool" where
  room_start: "reachable_room (Room_new c ch)"
| room_next: "reachable_room r \<Longrightarrow> fresh_op r op \<Longrightarrow> reachable_room (snd (room_exec r op))"

lemma pin_fields [simp]:
  "pinned_version (pin v g) \<noteq> None" "roster_revision (pin v g) = roster_revision g"
  "free (pin v g) = free g" "next_fresh (pin v g) = next_fresh g"
  by (simp_all add: pin_def split: option.splits)

lemma alloc_fields:
  "alloc g = (i, g') \<Longrightarrow> roster_revision g' = roster_revision g \<and> pinned_version g' = pinned_version g
     \<and> ended g' = ended g"
  by (auto simp: alloc_def split: if_splits)

lemma reserve_fields [simp]:
  "roster_revision (reserve_index i g) = roster_revision g"
  "pinned_version (reserve_index i g) = pinned_version g"
  by (simp_all add: reserve_index_def Let_def)

lemma room_inv_guard:
  "room_inv r \<Longrightarrow> guard_inv g (seats r) \<Longrightarrow> pinned_version g = pinned_version (guard r) \<Longrightarrow>
     roster_revision g = roster_revision (guard r) \<Longrightarrow> room_inv (r\<lparr>guard := g\<rparr>)"
  by (simp add: room_inv_def roster_ok_def)

lemma room_inv_ended [simp]: "room_inv (r\<lparr>guard := (guard r)\<lparr>ended := e\<rparr>\<rparr>) = room_inv r"
  by (simp add: room_inv_def roster_ok_def)

lemma add_peer_inv:
  assumes inv: "room_inv r" and "hm_get (peers r) k = None"
  shows "room_inv (snd (add_peer k pk v r))"
proof (cases "is_ok (fst (add_peer k pk v r))")
  case False
  have "alloc (guard r) = (None, g) \<Longrightarrow> g = guard r" for g by (auto simp: alloc_def split: if_splits)
  with False have "snd (add_peer k pk v r) = r"
    by (auto simp: add_peer_def split: option.splits prod.splits if_splits)
  with inv show ?thesis by simp
next
  case True
  then obtain i g where a: "alloc (guard r) = (Some i, g)" "length (peers r) < MAX_PEERS_PER_ROOM"
    and r': "snd (add_peer k pk v r) = insert_peer k pk i (r\<lparr>guard := pin v g\<rparr>)"
    by (auto simp: add_peer_def split: option.splits prod.splits if_splits)
  have "i \<notin> seats r \<and> guard_inv g (insert i (seats r))"
    using alloc_inv [OF _ a(1)] inv by (simp add: room_inv_def)
  then have seat: "i \<notin> seats r" and g: "guard_inv (pin v g) (insert i (seats r))" by simp_all
  have "roster_revision (pin v g) = roster_revision (guard r)" using alloc_fields [OF a(1)] by simp
  from insert_peer_inv [OF inv assms(2) a(2) seat g pin_fields(1) this] r' show ?thesis by simp
qed

lemma add_peer_at_index_inv:
  assumes inv: "room_inv r" and "hm_get (peers r) k = None"
  shows "room_inv (snd (add_peer_at_index k pk v i r))"
proof (cases "is_ok (fst (add_peer_at_index k pk v i r))")
  case False
  then have "snd (add_peer_at_index k pk v i r) = r"
    by (auto simp: add_peer_at_index_def split: option.splits if_splits)
  with inv show ?thesis by simp
next
  case True
  then have a: "\<not> list_ex (\<lambda>p. ap_peer_index p = i) (hm_values (peers r))" "length (peers r) < MAX_PEERS_PER_ROOM"
    and r': "snd (add_peer_at_index k pk v i r) =
      insert_peer k pk i (r\<lparr>guard := reserve_index i (pin v (guard r))\<rparr>)"
    by (auto simp: add_peer_at_index_def split: option.splits if_splits)
  from a(1) have seat: "i \<notin> seats r"
    by (auto simp: roster_of_def list_ex_iff dest!: map_of_SomeD)
  then have g: "guard_inv (reserve_index i (pin v (guard r))) (insert i (seats r))"
    using reserve_inv inv by (simp add: room_inv_def)
  have "pinned_version (reserve_index i (pin v (guard r))) \<noteq> None" unfolding reserve_fields by (rule pin_fields)
  from insert_peer_inv [OF inv assms(2) a(2) seat g this] r' show ?thesis by simp
qed

lemma room_exec_inv:
  assumes inv: "room_inv r" and "fresh_op r op"
  shows "room_inv (snd (room_exec r op))"
proof (cases op)
  case (RemovePeer k)
  with inv drop_peer_inv [of r k] show ?thesis by (auto simp: remove_peer_def split: option.splits)
next
  case (RemovePeerAndCheckEnded k)
  with inv drop_peer_inv [of r k] show ?thesis
    by (auto simp: remove_peer_and_check_ended_def Let_def split: option.splits)
next
  case (AttachRecorder h)
  with inv show ?thesis by (simp add: attach_recorder_def room_inv_def roster_ok_def)
qed (use assms in \<open>simp_all add: fresh_op_def add_peer_inv add_peer_at_index_inv mark_ended_def clear_ended_def\<close>)

interpretation room: invariant_machine room_step "Room_new c ch" room_inv for c ch
  by unfold_locales (simp_all add: room_inv_new room_step_def room_exec_inv)

lemma reachable_room_inv: "reachable_room r \<Longrightarrow> room_inv r"
  by (induction rule: reachable_room.induct) (simp_all add: room_inv_new room_exec_inv)

lemma reachable_run: "reachable_room r \<Longrightarrow> reachable_room (foldl room_step r ops)"
  by (induction ops arbitrary: r) (simp_all add: room_step_def room_next)

lemma inv_peer_unique:
  assumes "room_inv r" and "hm_get (peers r) k = Some p" and "hm_get (peers r) k' = Some q"
    and "ap_peer_index p = ap_peer_index q"
  shows "k = k'"
proof -
  have wf: "hm_wf (peers r)" and d: "distinct (map (\<lambda>x. ap_peer_index (snd x)) (peers r))"
    using assms(1) by (simp_all add: room_inv_def indices_distinct_def hm_values_def comp_def)
  have "(k, p) \<in> set (peers r)" "(k', q) \<in> set (peers r)"
    using assms(2,3) by (simp_all add: hm.entries_get [OF wf])
  moreover have "inj_on (\<lambda>x. ap_peer_index (snd x)) (set (peers r))"
    using d by (simp add: distinct_map)
  ultimately show ?thesis using assms(4) by (metis fst_conv inj_onD snd_conv)
qed

lemma roster_lookup:
  assumes "room_inv r"
  shows "roster_of (peers r) i = Some pk \<longleftrightarrow>
    (\<exists>k p. hm_get (peers r) k = Some p \<and> ap_peer_index p = i \<and> ap_pubkey p = pk)"
proof -
  have wf: "hm_wf (peers r)" and "distinct (map fst (map (\<lambda>p. (ap_peer_index p, ap_pubkey p)) (hm_values (peers r))))"
    using assms by (simp_all add: room_inv_def indices_distinct_def comp_def)
  from this(2) have "roster_of (peers r) i = Some pk \<longleftrightarrow>
      (i, pk) \<in> set (map (\<lambda>p. (ap_peer_index p, ap_pubkey p)) (hm_values (peers r)))"
    unfolding roster_of_def by (rule map_of_eq_Some_iff)
  also have "\<dots> \<longleftrightarrow> (\<exists>k p. (k, p) \<in> set (peers r) \<and> ap_peer_index p = i \<and> ap_pubkey p = pk)"
    by (force simp: hm_values_def)
  finally show ?thesis by (simp add: hm.entries_get [OF wf])
qed

section \<open>Ending a room\<close>

fun room_signals :: "Room \<Rightarrow> room_op list \<Rightarrow> bool list" where
  "room_signals r [] = []"
| "room_signals r (op # ops) = fst (room_exec r op) # room_signals (snd (room_exec r op)) ops"

lemma insert_peer_fields [simp]:
  "ended (guard (insert_peer k pk i r)) = ended (guard r)" "guard_poisoned (insert_peer k pk i r) = guard_poisoned r"
  by (simp_all add: insert_peer_def Let_def)

lemma drop_peer_fields [simp]:
  "ended (guard (drop_peer k p r)) = ended (guard r)" "guard_poisoned (drop_peer k p r) = guard_poisoned r"
  "peers (drop_peer k p r) = hm_remove k (peers r)"
  by (simp_all add: drop_peer_def release_def Let_def)

text \<open>Without \<open>clear_ended\<close>, an ended room stays ended, gives no signal and admits nobody.\<close>

lemma exec_ended:
  assumes "ended (guard r)" and "op \<noteq> ClearEnded"
  shows "\<not> fst (room_exec r op) \<and> ended (guard (snd (room_exec r op)))
    \<and> set (hm_keys (peers (snd (room_exec r op)))) \<subseteq> set (hm_keys (peers r))"
  using assms
  by (cases op) (auto simp: add_peer_def add_peer_at_index_def remove_peer_def mark_ended_def
      remove_peer_and_check_ended_def attach_recorder_def Let_def hm_remove_filter hm_keys_def
      split: option.splits)

lemma exec_signal: "fst (room_exec r op) \<Longrightarrow> ended (guard (snd (room_exec r op))) \<and> peers (snd (room_exec r op)) = []"
  by (cases op) (auto simp: remove_peer_and_check_ended_def Let_def split: option.splits if_splits)

lemma signals_ended:
  "ended (guard r) \<Longrightarrow> ClearEnded \<notin> set ops \<Longrightarrow> filter (\<lambda>b. b) (room_signals r ops) = []"
proof (induction ops arbitrary: r)
  case (Cons op ops)
  with exec_ended [of r op] show ?case by auto
qed simp

section \<open>Properties\<close>

text \<open>
  Seats in a huddle room: in every reachable state, two connected peers never share an index, an
  index is never both free and in use, at most 25 peers are connected, an occupied room has its
  protocol version pinned, and a successful admission hands out an index that is not in use.
\<close>
theorem room_admission_invariant:
  assumes "reachable_room r"
  shows "(\<forall>k k' p q. hm_get (peers r) k = Some p \<longrightarrow> hm_get (peers r) k' = Some q \<longrightarrow>
            ap_peer_index p = ap_peer_index q \<longrightarrow> k = k')
    \<and> (\<forall>p \<in> set (hm_values (peers r)). ap_peer_index p \<notin> set (free (guard r)))
    \<and> distinct (free (guard r)) \<and> length (peers r) \<le> 25
    \<and> (peers r \<noteq> [] \<longrightarrow> pinned_version (guard r) \<noteq> None)
    \<and> (\<forall>k pk v i. fst (add_peer k pk v r) = Ok (k, i) \<longrightarrow>
         (\<forall>p \<in> set (hm_values (peers r)). ap_peer_index p \<noteq> i))"
proof -
  have inv: "room_inv r" using assms by (rule reachable_room_inv)
  have "ap_peer_index p \<notin> set (free (guard r))" if "p \<in> set (hm_values (peers r))" for p
    using seats_index [OF that] inv by (auto simp: room_inv_def guard_inv_def)
  moreover have "ap_peer_index p \<noteq> i" if "fst (add_peer k pk v r) = Ok (k, i)"
    "p \<in> set (hm_values (peers r))" for k pk v i p
  proof -
    have "fst (alloc (guard r)) = Some i"
      using that(1) by (cases "alloc (guard r)")
        (auto simp: add_peer_def split: if_splits option.splits)
    then have "alloc (guard r) = (Some i, snd (alloc (guard r)))" by (simp add: prod_eq_iff)
    with alloc_inv [of "guard r" "seats r"] inv seats_index [OF that(2)] show ?thesis
      by (auto simp: room_inv_def)
  qed
  ultimately show ?thesis
    using inv inv_peer_unique [OF inv]
    by (auto simp: room_inv_def guard_inv_def MAX_PEERS_PER_ROOM_def)
qed

definition sample_room :: Room where
  "sample_room = foldl room_step (Room_new ''co'' ''ch'')
     [AddPeer ''a'' ''alice'' 2, AddPeerAtIndex ''b'' ''bob'' 2 7, AddPeer ''c'' ''carol'' 2, RemovePeer ''a'']"

lemma sample_room_reachable: "reachable_room sample_room"
  unfolding sample_room_def by (rule reachable_run) (rule room_start)

theorem room_admission_invariant_witness:
  "length (peers sample_room) = 2 \<and> distinct (free (guard sample_room)) \<and> free (guard sample_room) = [0]"
proof -
  have "length (peers sample_room) = 2" "free (guard sample_room) = [0]" by code_simp+
  with room_admission_invariant [OF sample_room_reachable] show ?thesis by blast
qed

text \<open>
  C8. The roster stream is complete: in every reachable state, the deltas published so far carry the
  revisions 1, 2, 3 and so on (modulo \<open>2 ^ 64\<close>) without gap, a client that applied them in order holds
  exactly the map from index to public key of the connected peers, and so does a client that starts
  from the snapshot, whose revision is the number of deltas it accounts for.
\<close>
theorem roster_replay_exact:
  assumes "reachable_room r"
  shows "map rd_revision (roster_log r) = map of_nat [1..<Suc (length (roster_log r))]
    \<and> snap_revision (roster_snapshot r) = of_nat (length (roster_log r))
    \<and> foldl apply_roster Map.empty (roster_log r) =
        map_of (map (\<lambda>p. (rp_peer_index p, rp_pubkey p)) (snap_peers (roster_snapshot r)))
    \<and> (\<forall>i pk. foldl apply_roster Map.empty (roster_log r) i = Some pk \<longleftrightarrow>
         (\<exists>k p. hm_get (peers r) k = Some p \<and> ap_peer_index p = i \<and> ap_pubkey p = pk))"
proof -
  have inv: "room_inv r" using assms by (rule reachable_room_inv)
  let ?pairs = "map (\<lambda>p. (ap_peer_index p, ap_pubkey p)) (hm_values (peers r))"
  let ?snap = "map (\<lambda>p. (rp_peer_index p, rp_pubkey p)) (snap_peers (roster_snapshot r))"
  have "distinct (map fst ?pairs)"
    using inv by (simp add: room_inv_def indices_distinct_def comp_def)
  moreover have "distinct (map fst ?snap)"
    using inv
    by (auto simp: room_inv_def indices_distinct_def roster_snapshot_def comp_def distinct_map inj_on_def)
  moreover have "set ?snap = set ?pairs" by (simp add: roster_snapshot_def image_image)
  ultimately have "map_of ?snap = map_of ?pairs" by (simp only: map_of_inject_set)
  with inv roster_lookup [OF inv] show ?thesis
    by (auto simp: room_inv_def roster_ok_def roster_of_def) (auto simp: roster_snapshot_def)
qed

theorem roster_replay_exact_witness:
  "foldl apply_roster Map.empty (roster_log sample_room) 7 = Some ''bob''
   \<and> snap_revision (roster_snapshot sample_room) = 4"
proof -
  have "hm_get (peers sample_room) ''b'' = Some \<lparr>ap_pubkey = ''bob'', ap_peer_index = 7\<rparr>"
    "length (roster_log sample_room) = 4"
    by code_simp+
  moreover from this(1) have "\<exists>k p. hm_get (peers sample_room) k = Some p \<and> ap_peer_index p = 7
      \<and> ap_pubkey p = ''bob''"
    by (intro exI [of _ "''b''"]) simp
  then have "foldl apply_roster Map.empty (roster_log sample_room) 7 = Some ''bob''"
    using roster_replay_exact [OF sample_room_reachable] by blast
  moreover have "snap_revision (roster_snapshot sample_room) = of_nat (length (roster_log sample_room))"
    using roster_replay_exact [OF sample_room_reachable] by blast
  ultimately show ?thesis by simp
qed

text \<open>
  Auto-end fires at most once: as long as nobody rolls the end back with \<open>clear_ended\<close>, at most one
  of any sequence of concurrent departures is told to end the room, it is told so only when the room
  is empty, and from an ended room on no peer is admitted.
\<close>
theorem auto_end_at_most_once:
  assumes "ClearEnded \<notin> set ops"
  shows "length (filter (\<lambda>b. b) (room_signals r ops)) \<le> 1
    \<and> (ended (guard r) \<longrightarrow> set (hm_keys (peers (foldl (\<lambda>r op. snd (room_exec r op)) r ops))) \<subseteq> set (hm_keys (peers r)))"
proof
  show "length (filter (\<lambda>b. b) (room_signals r ops)) \<le> 1"
    using assms
  proof (induction ops arbitrary: r)
    case (Cons op ops)
    show ?case
    proof (cases "fst (room_exec r op)")
      case True
      with exec_signal [OF True] Cons.prems show ?thesis by (simp add: signals_ended)
    next
      case False
      with Cons show ?thesis by simp
    qed
  qed simp
  show "ended (guard r) \<longrightarrow> set (hm_keys (peers (foldl (\<lambda>r op. snd (room_exec r op)) r ops))) \<subseteq> set (hm_keys (peers r))"
    using assms
  proof (induction ops arbitrary: r)
    case (Cons op ops)
    then have "ended (guard r) \<Longrightarrow> ended (guard (snd (room_exec r op)))
        \<and> set (hm_keys (peers (snd (room_exec r op)))) \<subseteq> set (hm_keys (peers r))"
      using exec_ended [of r op] by auto
    moreover have "ClearEnded \<notin> set ops" using Cons.prems by simp
    ultimately show ?case using Cons.IH [of "snd (room_exec r op)"] by auto
  qed simp
qed

theorem auto_end_at_most_once_witness:
  "let ops = [RemovePeerAndCheckEnded ''b'', RemovePeerAndCheckEnded ''c'', AddPeer ''d'' ''dave'' 2]
   in ClearEnded \<notin> set ops \<and> room_signals sample_room ops = [False, True, False]
      \<and> length (filter (\<lambda>b. b) (room_signals sample_room ops)) \<le> 1"
proof -
  have "room_signals sample_room [RemovePeerAndCheckEnded ''b'', RemovePeerAndCheckEnded ''c'',
      AddPeer ''d'' ''dave'' 2] = [False, True, False]" by code_simp
  with auto_end_at_most_once [of "[RemovePeerAndCheckEnded ''b'', RemovePeerAndCheckEnded ''c'',
      AddPeer ''d'' ''dave'' 2]" sample_room] show ?thesis by simp
qed

text \<open>
  A frame reaches exactly the other peers, once each, prefixed by an index that every roster maps
  to the sender; and delivering a prefixed frame that came back over the mesh reaches the same peers
  as the sender's own broadcast, so nobody hears himself.
\<close>
theorem frame_fan_out_exact:
  assumes "reachable_room r" and "hm_get (peers r) sender = Some p"
  shows "let sent = fst (broadcast_frame now sender frame r) in
    distinct (map fst sent) \<and> set (map fst sent) = set (hm_keys (peers r)) - {sender}
    \<and> list_all (\<lambda>(_, f). f = ap_peer_index p # frame) sent
    \<and> foldl apply_roster Map.empty (roster_log r) (ap_peer_index p) = Some (ap_pubkey p)
    \<and> fst (deliver_prefixed now (ap_peer_index p) (ap_peer_index p # frame) r) = sent"
proof -
  have inv: "room_inv r" using assms(1) by (rule reachable_room_inv)
  then have wf: "hm_wf (peers r)" by (simp add: room_inv_def)
  have same: "filter (\<lambda>(_, q). ap_peer_index q \<noteq> ap_peer_index p) (peers r) =
      filter (\<lambda>(k, _). k \<noteq> sender) (peers r)"
  proof (rule filter_cong [OF refl], clarify)
    fix k q assume "(k, q) \<in> set (peers r)"
    then have k: "hm_get (peers r) k = Some q" by (simp add: hm.entries_get [OF wf])
    show "(ap_peer_index q \<noteq> ap_peer_index p) = (k \<noteq> sender)"
      using inv_peer_unique [OF inv k assms(2)] k assms(2) by auto
  qed
  have sent: "fst (broadcast_frame now sender frame r) =
      map (\<lambda>(k, _). (k, ap_peer_index p # frame)) (filter (\<lambda>(k, _). k \<noteq> sender) (peers r))"
    using assms(2) by (simp add: broadcast_frame_def Let_def)
  have keys: "map fst (map (\<lambda>(k, _). (k, f)) xs) = map fst xs" for f :: "u8 list" and xs :: "(uuid \<times> AudioPeer) list"
    by (induction xs) auto
  have "distinct (map fst (filter (\<lambda>(k, _). k \<noteq> sender) (peers r)))"
    using wf by (auto simp: hm_wf_def hm_keys_def intro: distinct_map_filter)
  moreover have "set (map fst (filter (\<lambda>(k, _). k \<noteq> sender) (peers r))) = set (hm_keys (peers r)) - {sender}"
    by (auto simp: hm_keys_def)
  moreover have "foldl apply_roster Map.empty (roster_log r) (ap_peer_index p) = Some (ap_pubkey p)"
    using inv roster_lookup [OF inv] assms(2) by (auto simp: room_inv_def roster_ok_def)
  ultimately show ?thesis
    unfolding sent Let_def keys
    by (simp add: deliver_prefixed_def same) (auto simp: list_all_iff)
qed

theorem frame_fan_out_exact_witness:
  "let sent = fst (broadcast_frame 0 ''b'' [1, 2] sample_room)
   in sent = [(''c'', [7, 1, 2])] \<and> fst (deliver_prefixed 0 7 [7, 1, 2] sample_room) = sent"
proof -
  have b: "hm_get (peers sample_room) ''b'' = Some \<lparr>ap_pubkey = ''bob'', ap_peer_index = 7\<rparr>"
    "fst (broadcast_frame 0 ''b'' [1, 2] sample_room) = [(''c'', [7, 1, 2])]"
    by code_simp+
  with frame_fan_out_exact [OF sample_room_reachable b(1), of 0 "[1, 2]"] show ?thesis
    by (simp add: Let_def)
qed

section \<open>Rooms of different communities\<close>

datatype manager_op =
    GetOrCreate nat CommunityId uuid
  | CleanupIfEmpty CommunityId uuid
  | OnRoom nat room_op

fun manager_step :: "AudioRoomManager \<Rightarrow> manager_op \<Rightarrow> AudioRoomManager" where
  "manager_step mgr (GetOrCreate now c ch) = snd (snd (get_or_create now c ch mgr))"
| "manager_step mgr (CleanupIfEmpty c ch) = snd (cleanup_if_empty c ch mgr)"
| "manager_step mgr (OnRoom a op) =
     (if a < length (room_store mgr)
      then mgr\<lparr>room_store := (room_store mgr)[a := room_step (room_store mgr ! a) op]\<rparr> else mgr)"

definition manager_inv :: "AudioRoomManager \<Rightarrow> bool" where
  "manager_inv mgr \<longleftrightarrow> hm_wf (rooms mgr)
     \<and> (\<forall>c ch a. hm_get (rooms mgr) (c, ch) = Some a \<longrightarrow> a < length (room_store mgr)
          \<and> room_community_id (room_store mgr ! a) = c \<and> room_channel_id (room_store mgr ! a) = ch)
     \<and> list_all room_inv (room_store mgr)"

lemma room_step_key:
  "room_community_id (room_step r op) = room_community_id r \<and> room_channel_id (room_step r op) = room_channel_id r"
  by (cases op) (auto simp: room_step_def add_peer_def add_peer_at_index_def remove_peer_def mark_ended_def
      clear_ended_def attach_recorder_def remove_peer_and_check_ended_def insert_peer_def drop_peer_def Let_def
      split: option.splits prod.splits)

lemma get_or_create_inv:
  assumes "manager_inv mgr"
  shows "manager_inv (snd (snd (get_or_create now c ch mgr)))"
proof (cases "hm_get (rooms mgr) (c, ch)")
  case (Some a)
  with assms show ?thesis by (simp add: get_or_create_def Let_def)
next
  case None
  have "a < length xs \<Longrightarrow> (xs @ [x]) ! a = xs ! a" for a and xs :: "Room list" and x
    by (simp add: nth_append)
  with None assms show ?thesis
    by (auto simp: get_or_create_def Let_def manager_inv_def Room_new_def room_inv_new [unfolded Room_new_def]
        less_SucI)
qed

lemma manager_step_inv: "manager_inv mgr \<Longrightarrow> manager_inv (manager_step mgr op)"
proof (cases op)
  case (OnRoom a rop)
  assume inv: "manager_inv mgr"
  have "room_inv (room_step (room_store mgr ! a) rop)" if "a < length (room_store mgr)"
    using inv that room.inv_step [of "room_store mgr ! a" rop] by (auto simp: manager_inv_def list_all_length)
  with inv OnRoom room_step_key [of "room_store mgr ! a" rop] show ?thesis
    by (auto simp: manager_inv_def list_all_length nth_list_update)
next
  case (CleanupIfEmpty c ch)
  assume "manager_inv mgr"
  with CleanupIfEmpty show ?thesis
    by (auto simp: cleanup_if_empty_def manager_inv_def split: option.splits)
qed (simp add: get_or_create_inv)

lemma manager_inv_new: "manager_inv AudioRoomManager_new"
  by (simp add: manager_inv_def AudioRoomManager_new_def)

interpretation room_manager: invariant_machine manager_step AudioRoomManager_new manager_inv
  by unfold_locales (rule manager_inv_new, rule manager_step_inv)

lemma distinct_singleton: "distinct xs \<Longrightarrow> xs = [x] \<longleftrightarrow> set xs = {x}"
  by (cases xs; cases "tl xs") auto

text \<open>
  Audio rooms are isolated per community: after any sequence of manager and room operations, the
  room found for a community and channel carries exactly that community and channel, two different
  keys never share a room, and the lookup by channel alone (for mesh frames, which carry no
  community) returns a room only when no other community has an active room of that channel.
\<close>
theorem audio_rooms_tenant_isolated:
  "let mgr = foldl manager_step AudioRoomManager_new ops in
   (\<forall>c ch a. manager_get c ch mgr = Some a \<longrightarrow>
      room_community_id (room_store mgr ! a) = c \<and> room_channel_id (room_store mgr ! a) = ch) \<and>
   (\<forall>c ch c' ch' a. manager_get c ch mgr = Some a \<longrightarrow> manager_get c' ch' mgr = Some a \<longrightarrow> c = c' \<and> ch = ch') \<and>
   (\<forall>ch a. get_unambiguous_by_channel ch mgr = Some a \<longleftrightarrow>
      (\<exists>c. manager_get c ch mgr = Some a \<and> (\<forall>c'. manager_get c' ch mgr \<noteq> None \<longrightarrow> c' = c)))"
proof -
  define mgr where "mgr = foldl manager_step AudioRoomManager_new ops"
  have inv: "manager_inv mgr" unfolding mgr_def by (rule room_manager.inv_reachable)
  then have wf: "hm_wf (rooms mgr)" by (simp add: manager_inv_def)
  have key: "manager_get c ch mgr = Some a \<Longrightarrow>
      room_community_id (room_store mgr ! a) = c \<and> room_channel_id (room_store mgr ! a) = ch" for c ch a
    using inv by (simp add: manager_inv_def manager_get_def)
  have mem: "((c, ch), a) \<in> set (rooms mgr) \<longleftrightarrow> manager_get c ch mgr = Some a" for c ch a
    by (simp add: hm.entries_get [OF wf] manager_get_def)
  have "get_unambiguous_by_channel ch mgr = Some a \<longleftrightarrow>
      (\<exists>c. manager_get c ch mgr = Some a \<and> (\<forall>c'. manager_get c' ch mgr \<noteq> None \<longrightarrow> c' = c))" for ch a
  proof -
    define hits where "hits = filter (\<lambda>(k, _). snd k = ch) (rooms mgr)"
    have hit: "((c, ch'), b) \<in> set hits \<longleftrightarrow> manager_get c ch mgr = Some b \<and> ch' = ch" for c ch' b
      using mem by (auto simp: hits_def)
    have d: "distinct hits" using wf by (auto simp: hits_def hm_wf_def hm_keys_def distinct_map)
    have "get_unambiguous_by_channel ch mgr = Some a \<longleftrightarrow> (\<exists>k. hits = [(k, a)])"
      by (auto simp: get_unambiguous_by_channel_def hits_def [symmetric] split: list.splits prod.splits)
    also have "\<dots> \<longleftrightarrow> (\<exists>c. set hits = {((c, ch), a)})"
      using distinct_singleton [OF d] hit by (metis insertI1 prod.collapse)
    also have "\<dots> \<longleftrightarrow> (\<exists>c. manager_get c ch mgr = Some a \<and> (\<forall>c'. manager_get c' ch mgr \<noteq> None \<longrightarrow> c' = c))"
    proof (rule ex_cong1)
      fix c
      have "set hits = {((c, ch), a)} \<longleftrightarrow> (\<forall>c' b. manager_get c' ch mgr = Some b \<longleftrightarrow> c' = c \<and> b = a)"
        by (simp add: set_eq_iff hit) blast
      then show "set hits = {((c, ch), a)} \<longleftrightarrow>
          manager_get c ch mgr = Some a \<and> (\<forall>c'. manager_get c' ch mgr \<noteq> None \<longrightarrow> c' = c)"
        by (metis not_None_eq option.inject)
    qed
    finally show ?thesis .
  qed
  moreover have "c = c' \<and> ch = ch'" if "manager_get c ch mgr = Some a" "manager_get c' ch' mgr = Some a" for c ch c' ch' a
    using key [OF that(1)] key [OF that(2)] by simp
  ultimately show ?thesis unfolding Let_def mgr_def [symmetric] using key by blast
qed

theorem audio_rooms_tenant_isolated_witness:
  "let mgr = foldl manager_step AudioRoomManager_new [GetOrCreate 0 ''c1'' ''x'', GetOrCreate 0 ''c2'' ''x'']
   in manager_get ''c1'' ''x'' mgr = Some 0 \<and> room_community_id (room_store mgr ! 0) = ''c1''
      \<and> get_unambiguous_by_channel ''x'' mgr = None"
proof -
  define mgr where "mgr = foldl manager_step AudioRoomManager_new [GetOrCreate 0 ''c1'' ''x'', GetOrCreate 0 ''c2'' ''x'']"
  have "manager_get ''c1'' ''x'' mgr = Some 0" "get_unambiguous_by_channel ''x'' mgr = None"
    unfolding mgr_def by code_simp+
  with audio_rooms_tenant_isolated [of "[GetOrCreate 0 ''c1'' ''x'', GetOrCreate 0 ''c2'' ''x'']"]
  show ?thesis unfolding Let_def mgr_def [symmetric] by blast
qed

text \<open>
  The owner of a room can assign index 255 to a remote peer, and it is recycled to a local one, although
  an index is documented to be between 0 and 254.
\<close>

theorem index_255_recycled:
  "fst (add_peer ''c'' ''carol'' 2 (foldl room_step (Room_new ''co'' ''ch'')
     [AddPeerAtIndex ''b'' ''bob'' 2 255, RemovePeer ''b''])) = Ok (''c'', 255)"
  by code_simp

end
