(* ===== verification/EventQueue.thy ===== *)
theory EventQueue
  imports Nostr "HOL-Library.Multiset"
begin

text \<open>
  \<^verbatim>\<open>crates/lenos-acp/src/queue.rs\<close>: the per-channel event queue of the agent harness.

  The queue is a record of its maps; \<open>HashSet\<close> is a list without duplicates, \<open>VecDeque\<close> a list.
  Instants and durations are nanoseconds; the value of \<open>Instant::now()\<close> and of the subsecond clock
  are arguments. The retry delay is computed in \<open>f64\<close> by the source; \<open>retry_delay\<close> is the exact
  rational value rounded down to a nanosecond, so the rounding of \<open>f64\<close> (far below a microsecond) is
  not modelled. Logging is left out.
\<close>

section \<open>Data\<close>

definition MAX_PENDING_PER_CHANNEL :: nat where "MAX_PENDING_PER_CHANNEL = 500"
definition MAX_BATCH_EVENTS :: nat where "MAX_BATCH_EVENTS = 50"
definition MAX_RETRIES :: nat where "MAX_RETRIES = 10"
definition BASE_RETRY_DELAY_SECS :: nat where "BASE_RETRY_DELAY_SECS = 5"
definition MAX_RETRY_DELAY_SECS :: nat where "MAX_RETRY_DELAY_SECS = 300"
definition IN_FLIGHT_DEADLINE_BUFFER_SECS :: int where "IN_FLIGHT_DEADLINE_BUFFER_SECS = 100"
definition DEFAULT_IN_FLIGHT_DEADLINE_SECS :: int where "DEFAULT_IN_FLIGHT_DEADLINE_SECS = 7300"

definition from_secs :: "int \<Rightarrow> int" where "from_secs s = s * 1000000000"

datatype DedupMode = DropMode | QueueMode

record QueuedEvent =
  qe_channel_id :: uuid
  qe_event :: Event
  qe_received_at :: int
  qe_prompt_tag :: string

record BatchEvent =
  be_event :: Event
  be_prompt_tag :: string
  be_received_at :: int

datatype CancelReason = Interrupt | Steer

record FlushBatch =
  fb_channel_id :: uuid
  fb_events :: "BatchEvent list"
  fb_cancelled_events :: "BatchEvent list"
  fb_cancel_reason :: "CancelReason option"

record EventQueue =
  queues :: "(uuid, QueuedEvent list) hmap"
  in_flight_channels :: "uuid list"
  in_flight_deadlines :: "(uuid, int) hmap"
  in_flight_batch_sizes :: "(uuid, nat) hmap"
  retry_after :: "(uuid, int) hmap"
  retry_counts :: "(uuid, nat) hmap"
  dedup_mode :: DedupMode
  cancelled_batches :: "(uuid, BatchEvent list) hmap"
  cancel_reasons :: "(uuid, CancelReason) hmap"
  withheld_native_steer :: "(uuid, QueuedEvent list) hmap"
  in_flight_deadline :: int

definition EventQueue_new :: "DedupMode \<Rightarrow> EventQueue" where
  "EventQueue_new mode = \<lparr>queues = [], in_flight_channels = [], in_flight_deadlines = [],
     in_flight_batch_sizes = [], retry_after = [], retry_counts = [], dedup_mode = mode,
     cancelled_batches = [], cancel_reasons = [], withheld_native_steer = [],
     in_flight_deadline = from_secs DEFAULT_IN_FLIGHT_DEADLINE_SECS\<rparr>"

definition with_in_flight_deadline :: "int \<Rightarrow> EventQueue \<Rightarrow> EventQueue" where
  "with_in_flight_deadline max_turn_secs q =
     q\<lparr>in_flight_deadline := from_secs (max_turn_secs + IN_FLIGHT_DEADLINE_BUFFER_SECS)\<rparr>"

section \<open>Operations\<close>

definition extend_in_flight_deadline :: "int \<Rightarrow> uuid \<Rightarrow> int \<Rightarrow> EventQueue \<Rightarrow> EventQueue" where
  "extend_in_flight_deadline now c max_turn_secs q =
     (case hm_get (in_flight_deadlines q) c of
        None \<Rightarrow> q
      | Some current \<Rightarrow>
          let extended = now + from_secs (max_turn_secs + IN_FLIGHT_DEADLINE_BUFFER_SECS)
          in if extended > current
             then q\<lparr>in_flight_deadlines := hm_insert c extended (in_flight_deadlines q)\<rparr> else q)"

definition push :: "QueuedEvent \<Rightarrow> EventQueue \<Rightarrow> bool \<times> EventQueue" where
  "push e q =
     (if dedup_mode q = DropMode \<and> qe_channel_id e \<in> set (in_flight_channels q) then (False, q)
      else
        let c = qe_channel_id e; queue = bucket (queues q) c;
            queue = (if length queue \<ge> MAX_PENDING_PER_CHANNEL then tl queue else queue)
        in (True, q\<lparr>queues := hm_insert c (queue @ [e]) (queues q)\<rparr>))"

text \<open>\<open>while queue.len() > MAX \<^bold>{ queue.pop_back() \<^bold>}\<close>\<close>

definition cap_back :: "'a list \<Rightarrow> 'a list" where
  "cap_back queue = take MAX_PENDING_PER_CHANNEL queue"

definition recover_withheld_for_expired_channel :: "uuid \<Rightarrow> EventQueue \<Rightarrow> EventQueue" where
  "recover_withheld_for_expired_channel c q =
     (case hm_get (withheld_native_steer q) c of
        None \<Rightarrow> q
      | Some entries \<Rightarrow>
          q\<lparr>withheld_native_steer := hm_remove c (withheld_native_steer q),
            queues := hm_insert c (cap_back (entries @ bucket (queues q) c)) (queues q)\<rparr>)"

definition expire_one :: "EventQueue \<Rightarrow> uuid \<Rightarrow> EventQueue" where
  "expire_one q c =
     recover_withheld_for_expired_channel c
       (q\<lparr>in_flight_batch_sizes := hm_remove c (in_flight_batch_sizes q),
          in_flight_channels := filter (\<lambda>x. x \<noteq> c) (in_flight_channels q),
          in_flight_deadlines := hm_remove c (in_flight_deadlines q)\<rparr>)"

definition expire_in_flight :: "int \<Rightarrow> EventQueue \<Rightarrow> EventQueue" where
  "expire_in_flight now q =
     foldl expire_one q (map fst (filter (\<lambda>(_, deadline). now \<ge> deadline) (in_flight_deadlines q)))"

text \<open>The channels \<open>flush_next\<close> chooses from.\<close>

definition flushable :: "int \<Rightarrow> EventQueue \<Rightarrow> uuid \<times> QueuedEvent list \<Rightarrow> bool" where
  "flushable now q x =
     (snd x \<noteq> [] \<and> fst x \<notin> set (in_flight_channels q)
      \<and> is_none_or (hm_get (retry_after q) (fst x)) (\<lambda>t. t \<le> now))"

text \<open>\<open>Iterator::min_by_key\<close>: the first of the minimal elements.\<close>

fun min_by_key :: "('a \<Rightarrow> int) \<Rightarrow> 'a list \<Rightarrow> 'a option" where
  "min_by_key f [] = None"
| "min_by_key f (x # xs) =
     (case min_by_key f xs of None \<Rightarrow> Some x | Some y \<Rightarrow> if f x \<le> f y then Some x else Some y)"

definition to_batch_event :: "QueuedEvent \<Rightarrow> BatchEvent" where
  "to_batch_event e = \<lparr>be_event = qe_event e, be_prompt_tag = qe_prompt_tag e, be_received_at = qe_received_at e\<rparr>"

definition to_queued_event :: "uuid \<Rightarrow> BatchEvent \<Rightarrow> QueuedEvent" where
  "to_queued_event c b = \<lparr>qe_channel_id = c, qe_event = be_event b, qe_received_at = be_received_at b,
     qe_prompt_tag = be_prompt_tag b\<rparr>"

definition set_in_flight :: "int \<Rightarrow> uuid \<Rightarrow> nat \<Rightarrow> EventQueue \<Rightarrow> EventQueue" where
  "set_in_flight now c n q =
     q\<lparr>in_flight_channels := push_new (in_flight_channels q) c,
       in_flight_deadlines := hm_insert c (now + in_flight_deadline q) (in_flight_deadlines q),
       in_flight_batch_sizes := hm_insert c n (in_flight_batch_sizes q)\<rparr>"

text \<open>The re-dispatch of a cancelled batch when no queued events are ready.\<close>

definition flush_cancelled :: "int \<Rightarrow> EventQueue \<Rightarrow> FlushBatch option \<times> EventQueue" where
  "flush_cancelled now q =
     (case find (\<lambda>c. c \<notin> set (in_flight_channels q)) (hm_keys (cancelled_batches q)) of
        None \<Rightarrow> (None, q)
      | Some c \<Rightarrow>
          let cancelled = bucket (cancelled_batches q) c;
              q1 = q\<lparr>cancelled_batches := hm_remove c (cancelled_batches q),
                     cancel_reasons := hm_remove c (cancel_reasons q)\<rparr>
          in (Some \<lparr>fb_channel_id = c, fb_events = cancelled, fb_cancelled_events = [],
                    fb_cancel_reason = hm_get (cancel_reasons q) c\<rparr>,
              set_in_flight now c (length cancelled) q1))"

definition flush_queued :: "int \<Rightarrow> uuid \<Rightarrow> EventQueue \<Rightarrow> FlushBatch \<times> EventQueue" where
  "flush_queued now c q =
     (let queue = bucket (queues q) c;
          drain_count = min MAX_BATCH_EVENTS (length queue);
          events = sort_key (\<lambda>b. ev_created_at (be_event b)) (map to_batch_event (take drain_count queue));
          rest = drop drain_count queue;
          q1 = q\<lparr>queues := (if rest = [] then hm_remove c (queues q) else hm_insert c rest (queues q))\<rparr>;
          q2 = set_in_flight now c (length events) q1;
          cancelled = bucket (cancelled_batches q2) c;
          reason = (if cancelled = [] then None else hm_get (cancel_reasons q2) c)
      in (\<lparr>fb_channel_id = c, fb_events = events, fb_cancelled_events = cancelled, fb_cancel_reason = reason\<rparr>,
          q2\<lparr>cancelled_batches := hm_remove c (cancelled_batches q2),
             cancel_reasons := hm_remove c (cancel_reasons q2)\<rparr>))"

definition next_channel :: "int \<Rightarrow> EventQueue \<Rightarrow> uuid option" where
  "next_channel now q =
     map_option fst (min_by_key (\<lambda>x. qe_received_at (hd (snd x))) (filter (flushable now q) (queues q)))"

definition flush_next :: "int \<Rightarrow> EventQueue \<Rightarrow> FlushBatch option \<times> EventQueue" where
  "flush_next now q =
     (let q1 = expire_in_flight now q
      in case next_channel now q1 of
           None \<Rightarrow> flush_cancelled now q1
         | Some c \<Rightarrow> (let (b, q2) = flush_queued now c q1 in (Some b, q2)))"

definition mark_complete :: "int \<Rightarrow> uuid \<Rightarrow> EventQueue \<Rightarrow> EventQueue" where
  "mark_complete now c q =
     (let q1 = q\<lparr>in_flight_channels := filter (\<lambda>x. x \<noteq> c) (in_flight_channels q),
                 in_flight_deadlines := hm_remove c (in_flight_deadlines q),
                 in_flight_batch_sizes := hm_remove c (in_flight_batch_sizes q)\<rparr>
      in case hm_get (retry_after q1) c of
           Some deadline \<Rightarrow>
             if deadline > now then q1
             else q1\<lparr>retry_after := hm_remove c (retry_after q1), retry_counts := hm_remove c (retry_counts q1)\<rparr>
         | None \<Rightarrow> q1\<lparr>retry_counts := hm_remove c (retry_counts q1)\<rparr>)"

definition capped_delay_secs :: "nat \<Rightarrow> nat" where
  "capped_delay_secs attempt =
     min (BASE_RETRY_DELAY_SECS * 2 ^ min (attempt - 1) 6) MAX_RETRY_DELAY_SECS"

text \<open>\<open>capped * (0.8 + (nanos / u32::MAX) * 0.4)\<close> seconds, in nanoseconds.\<close>

definition retry_delay :: "nat \<Rightarrow> int \<Rightarrow> int" where
  "retry_delay capped nanos =
     (int capped * (800000000 * 4294967295 + 400000000 * nanos)) div 4294967295"

definition requeue_front :: "FlushBatch \<Rightarrow> EventQueue \<Rightarrow> EventQueue" where
  "requeue_front batch q =
     (let c = fb_channel_id batch
      in q\<lparr>queues := hm_insert c (cap_back (map (to_queued_event c) (fb_events batch) @ bucket (queues q) c))
                       (queues q)\<rparr>)"

definition requeue :: "int \<Rightarrow> int \<Rightarrow> FlushBatch \<Rightarrow> EventQueue \<Rightarrow> FlushBatch option \<times> EventQueue" where
  "requeue now nanos batch q =
     (let c = fb_channel_id batch;
          attempt = unwrap_or (hm_get (retry_counts q) c) 0 + 1;
          q1 = q\<lparr>retry_counts := hm_insert c attempt (retry_counts q)\<rparr>
      in if attempt > MAX_RETRIES then
           (Some batch, q1\<lparr>retry_counts := hm_remove c (retry_counts q1), retry_after := hm_remove c (retry_after q1)\<rparr>)
         else
           (None, (requeue_front batch q1)\<lparr>retry_after :=
              hm_insert c (now + retry_delay (capped_delay_secs attempt) nanos) (retry_after q1)\<rparr>))"

definition requeue_preserve_timestamps :: "FlushBatch \<Rightarrow> EventQueue \<Rightarrow> EventQueue" where
  "requeue_preserve_timestamps batch q = requeue_front batch q"

definition requeue_as_cancelled :: "FlushBatch \<Rightarrow> CancelReason \<Rightarrow> EventQueue \<Rightarrow> EventQueue" where
  "requeue_as_cancelled batch reason q =
     (let c = fb_channel_id batch
      in q\<lparr>cancelled_batches := hm_insert c (bucket (cancelled_batches q) c @ fb_cancelled_events batch @ fb_events batch)
                                  (cancelled_batches q),
           cancel_reasons := hm_insert c reason (cancel_reasons q)\<rparr>)"

definition has_flushable_work :: "int \<Rightarrow> EventQueue \<Rightarrow> bool \<times> EventQueue" where
  "has_flushable_work now q =
     (let q1 = expire_in_flight now q
      in (list_ex (flushable now q1) (queues q1)
          \<or> list_ex (\<lambda>c. c \<notin> set (in_flight_channels q1)) (hm_keys (cancelled_batches q1)), q1))"

definition pending_channels :: "EventQueue \<Rightarrow> nat" where
  "pending_channels q = length (queues q)"

definition drain_channel :: "uuid \<Rightarrow> EventQueue \<Rightarrow> string list \<times> EventQueue" where
  "drain_channel c q =
     (map (\<lambda>e. ev_id (qe_event e)) (bucket (queues q) c),
      q\<lparr>queues := hm_remove c (queues q), retry_after := hm_remove c (retry_after q),
        retry_counts := hm_remove c (retry_counts q), cancelled_batches := hm_remove c (cancelled_batches q),
        cancel_reasons := hm_remove c (cancel_reasons q),
        withheld_native_steer := hm_remove c (withheld_native_steer q)\<rparr>)"

definition is_channel_in_flight :: "uuid \<Rightarrow> EventQueue \<Rightarrow> bool" where
  "is_channel_in_flight c q = (c \<in> set (in_flight_channels q))"

definition has_in_flight :: "EventQueue \<Rightarrow> bool" where
  "has_in_flight q = (in_flight_channels q \<noteq> [])"

text \<open>
  \<open>if entries.is_empty() \<^bold>{ m.remove(k) \<^bold>}\<close> after a change of the entries at a present key.
\<close>

definition store_or_remove :: "'k \<Rightarrow> 'e list \<Rightarrow> ('k, 'e list) hmap \<Rightarrow> ('k, 'e list) hmap" where
  "store_or_remove k es m = (if es = [] then hm_remove k m else hm_insert k es m)"

text \<open>The first entry with the event id, and the entries without it.\<close>

fun take_event :: "string \<Rightarrow> QueuedEvent list \<Rightarrow> (QueuedEvent \<times> QueuedEvent list) option" where
  "take_event i [] = None"
| "take_event i (e # es) =
     (if ev_id (qe_event e) = i then Some (e, es)
      else map_option (\<lambda>(x, rest). (x, e # rest)) (take_event i es))"

definition mark_native_steer_pending :: "uuid \<Rightarrow> string \<Rightarrow> EventQueue \<Rightarrow> bool \<times> EventQueue" where
  "mark_native_steer_pending c event_id q =
     (case hm_get (queues q) c of
        None \<Rightarrow> (False, q)
      | Some es \<Rightarrow>
          (case take_event event_id es of
             None \<Rightarrow> (False, q)
           | Some (e, rest) \<Rightarrow>
               (True, q\<lparr>queues := store_or_remove c rest (queues q),
                        withheld_native_steer := bucket_push e c (withheld_native_steer q)\<rparr>)))"

definition release_native_steer :: "uuid \<Rightarrow> string \<Rightarrow> EventQueue \<Rightarrow> EventQueue" where
  "release_native_steer c event_id q =
     (case hm_get (withheld_native_steer q) c of
        None \<Rightarrow> q
      | Some es \<Rightarrow>
          (case take_event event_id es of
             None \<Rightarrow> q
           | Some (e, rest) \<Rightarrow>
               q\<lparr>withheld_native_steer := store_or_remove c rest (withheld_native_steer q),
                 queues := hm_insert c (cap_back (e # bucket (queues q) c)) (queues q)\<rparr>))"

text \<open>\<open>retain\<close> of the other events at one key, dropping an emptied entry.\<close>

definition retain_other :: "uuid \<Rightarrow> string \<Rightarrow> (uuid, QueuedEvent list) hmap \<Rightarrow> (uuid, QueuedEvent list) hmap" where
  "retain_other c event_id m =
     (case hm_get m c of
        None \<Rightarrow> m
      | Some es \<Rightarrow> store_or_remove c (filter (\<lambda>e. ev_id (qe_event e) \<noteq> event_id) es) m)"

definition remove_event :: "uuid \<Rightarrow> string \<Rightarrow> EventQueue \<Rightarrow> EventQueue" where
  "remove_event c event_id q =
     q\<lparr>withheld_native_steer := retain_other c event_id (withheld_native_steer q),
       queues := retain_other c event_id (queues q)\<rparr>"

definition compact_expired_state :: "int \<Rightarrow> EventQueue \<Rightarrow> EventQueue" where
  "compact_expired_state now q =
     (let ra = hm_retain (\<lambda>_ deadline. deadline > now) (retry_after q)
      in q\<lparr>retry_after := ra,
           retry_counts := hm_retain (\<lambda>c _. hm_get ra c \<noteq> None
              \<or> is_some_and (hm_get (queues q) c) (\<lambda>es. es \<noteq> []) \<or> c \<in> set (in_flight_channels q))
             (retry_counts q)\<rparr>)"

section \<open>Thread tags\<close>

record ThreadTags =
  root_event_id :: "string option"
  parent_event_id :: "string option"
  mentioned_pubkeys :: "string list"

fun thread_tags_loop ::
  "string option \<Rightarrow> string option \<Rightarrow> string list \<Rightarrow> Tag list \<Rightarrow> string option \<times> string option \<times> string list" where
  "thread_tags_loop root reply mentions [] = (root, reply, mentions)"
| "thread_tags_loop root reply mentions (tag # tags) =
     (let parts = tag_slice tag
      in if parts \<noteq> [] \<and> parts ! 0 = ''e'' \<and> length parts \<ge> 4 then
           (if parts ! 3 = ''root'' then thread_tags_loop (Some (parts ! 1)) reply mentions tags
            else if parts ! 3 = ''reply'' then thread_tags_loop root (Some (parts ! 1)) mentions tags
            else thread_tags_loop root reply mentions tags)
         else if parts \<noteq> [] \<and> parts ! 0 = ''p'' \<and> length parts \<ge> 2 then
           thread_tags_loop root reply (mentions @ [parts ! 1]) tags
         else thread_tags_loop root reply mentions tags)"

definition parse_thread_tags :: "Event \<Rightarrow> ThreadTags" where
  "parse_thread_tags ev =
     (let (root, reply, mentions) = thread_tags_loop None None [] (ev_tags ev);
          (r, p) = (case (root, reply) of
             (Some r, Some p) \<Rightarrow> (Some r, Some p)
           | (Some r, None) \<Rightarrow> (Some r, Some r)
           | (None, Some p) \<Rightarrow> (Some p, Some p)
           | (None, None) \<Rightarrow> (None, None))
      in \<lparr>root_event_id = r, parent_event_id = p, mentioned_pubkeys = mentions\<rparr>)"

section \<open>Shared facts\<close>

lemma bucket_insert [simp]: "bucket (hm_insert k es m) k' = (if k' = k then es else bucket m k')"
  by (simp add: bucket_def)

lemma bucket_remove [simp]: "bucket (hm_remove k m) k' = (if k' = k then [] else bucket m k')"
  by (simp add: bucket_def)

lemma bucket_store_or_remove [simp]:
  "bucket (store_or_remove k es m) k' = (if k' = k then es else bucket m k')"
  by (simp add: store_or_remove_def)

lemma wf_store_or_remove [simp]: "hm_wf m \<Longrightarrow> hm_wf (store_or_remove k es m)"
  by (simp add: store_or_remove_def)

lemma bucket_get: "hm_get m k = Some es \<Longrightarrow> bucket m k = es"
  by (simp add: bucket_def)

lemma wf_bucket_push [simp]: "hm_wf m \<Longrightarrow> hm_wf (bucket_push x k m)"
  by (simp add: bucket_push_def)

lemma min_by_key_None: "min_by_key f xs = None \<longleftrightarrow> xs = []"
  by (cases xs) (auto split: option.splits)

lemma min_by_key_spec:
  "min_by_key f xs = Some x \<Longrightarrow> x \<in> set xs \<and> (\<forall>y \<in> set xs. f x \<le> f y)"
proof (induction xs arbitrary: x)
  case (Cons a xs)
  show ?case
  proof (cases "min_by_key f xs")
    case None
    with Cons.prems show ?thesis by (simp add: min_by_key_None)
  next
    case (Some y)
    with Cons.prems Cons.IH [OF Some] show ?thesis by (cases "f a \<le> f y") force+
  qed
qed simp

lemma take_event_Some:
  "take_event i es = Some (e, rest) \<Longrightarrow>
     ev_id (qe_event e) = i \<and> e \<in> set es \<and> mset es = add_mset e (mset rest) \<and> set rest \<subseteq> set es
     \<and> length es = Suc (length rest)"
  by (induction es arbitrary: rest) (fastforce split: if_splits)+

lemma take_event_None: "take_event i es = None \<longleftrightarrow> (\<forall>e \<in> set es. ev_id (qe_event e) \<noteq> i)"
  by (induction es) auto

lemma length_cap_back [simp]: "length (cap_back es) \<le> MAX_PENDING_PER_CHANNEL"
  by (simp add: cap_back_def)

lemma set_cap_back: "set (cap_back es) \<subseteq> set es"
  by (simp add: cap_back_def set_take_subset)

lemma mset_cap_back: "mset (cap_back es) \<subseteq># mset es"
proof -
  have "mset (take n es) + mset (drop n es) = mset es" for n
    by (metis append_take_drop_id mset_append)
  then show ?thesis unfolding cap_back_def by (metis mset_subset_eq_add_left)
qed

lemma cap_back_short: "length es \<le> MAX_PENDING_PER_CHANNEL \<Longrightarrow> cap_back es = es"
  by (simp add: cap_back_def)

section \<open>Expiry\<close>

lemma expire_one_fields [simp]:
  "in_flight_channels (expire_one q c) = filter (\<lambda>x. x \<noteq> c) (in_flight_channels q)"
  "in_flight_deadlines (expire_one q c) = hm_remove c (in_flight_deadlines q)"
  "retry_after (expire_one q c) = retry_after q" "retry_counts (expire_one q c) = retry_counts q"
  "cancelled_batches (expire_one q c) = cancelled_batches q" "cancel_reasons (expire_one q c) = cancel_reasons q"
  "in_flight_deadline (expire_one q c) = in_flight_deadline q" "dedup_mode (expire_one q c) = dedup_mode q"
  by (simp_all add: expire_one_def recover_withheld_for_expired_channel_def split: option.splits)

lemma expire_one_stores:
  "bucket (queues (expire_one q c)) c' =
     (if c' = c \<and> hm_get (withheld_native_steer q) c \<noteq> None
      then cap_back (bucket (withheld_native_steer q) c @ bucket (queues q) c) else bucket (queues q) c')"
  "bucket (withheld_native_steer (expire_one q c)) c' = (if c' = c then [] else bucket (withheld_native_steer q) c')"
  by (auto simp: expire_one_def recover_withheld_for_expired_channel_def bucket_def split: option.splits)

lemma expire_fold_fields:
  "in_flight_channels (foldl expire_one q cs) = filter (\<lambda>x. x \<notin> set cs) (in_flight_channels q)"
  "hm_get (in_flight_deadlines (foldl expire_one q cs)) c =
     (if c \<in> set cs then None else hm_get (in_flight_deadlines q) c)"
  "retry_after (foldl expire_one q cs) = retry_after q" "retry_counts (foldl expire_one q cs) = retry_counts q"
  "cancelled_batches (foldl expire_one q cs) = cancelled_batches q"
  "cancel_reasons (foldl expire_one q cs) = cancel_reasons q"
  "in_flight_deadline (foldl expire_one q cs) = in_flight_deadline q"
  by (induction cs arbitrary: q) (auto intro: filter_cong)

definition expired_at :: "int \<Rightarrow> EventQueue \<Rightarrow> uuid \<Rightarrow> bool" where
  "expired_at now q c = is_some_and (hm_get (in_flight_deadlines q) c) (\<lambda>d. d \<le> now)"

lemma expired_list:
  "hm_wf (in_flight_deadlines q) \<Longrightarrow>
     c \<in> set (map fst (filter (\<lambda>(_, d). now \<ge> d) (in_flight_deadlines q))) \<longleftrightarrow> expired_at now q c"
  by (cases "hm_get (in_flight_deadlines q) c")
    (auto simp: expired_at_def image_iff Bex_def hm.entries_get)

lemma expire_fields [simp]:
  "retry_after (expire_in_flight now q) = retry_after q"
  "cancelled_batches (expire_in_flight now q) = cancelled_batches q"
  "cancel_reasons (expire_in_flight now q) = cancel_reasons q"
  "in_flight_deadline (expire_in_flight now q) = in_flight_deadline q"
  by (simp_all add: expire_in_flight_def expire_fold_fields)

lemma expire_in_flight_channels:
  "hm_wf (in_flight_deadlines q) \<Longrightarrow>
     c \<in> set (in_flight_channels (expire_in_flight now q)) \<longleftrightarrow>
       c \<in> set (in_flight_channels q) \<and> \<not> expired_at now q c"
  using expired_list [of q c now] by (simp add: expire_in_flight_def expire_fold_fields)

section \<open>Contents of a channel\<close>

text \<open>Everything the queue still owes the agent for a channel: queued, withheld and cancelled events.\<close>

definition pending :: "EventQueue \<Rightarrow> uuid \<Rightarrow> BatchEvent multiset" where
  "pending q c = image_mset to_batch_event (mset (bucket (queues q) c) + mset (bucket (withheld_native_steer q) c))
     + mset (bucket (cancelled_batches q) c)"

definition delivered :: "FlushBatch \<Rightarrow> BatchEvent multiset" where
  "delivered b = mset (fb_events b) + mset (fb_cancelled_events b)"

lemma pending_expire_one: "pending (expire_one q c) c' \<subseteq># pending q c'"
proof (cases "c' = c \<and> hm_get (withheld_native_steer q) c \<noteq> None")
  case True
  have "image_mset to_batch_event (mset (cap_back (bucket (withheld_native_steer q) c @ bucket (queues q) c)))
      \<subseteq># image_mset to_batch_event (mset (bucket (queues q) c) + mset (bucket (withheld_native_steer q) c))"
    by (rule image_mset_subseteq_mono) (metis mset_cap_back mset_append add.commute)
  with True show ?thesis by (simp add: pending_def expire_one_stores)
next
  case False
  moreover have "hm_get (withheld_native_steer q) c = None \<Longrightarrow> bucket (withheld_native_steer q) c = []"
    by (simp add: bucket_def)
  ultimately show ?thesis by (auto simp: pending_def expire_one_stores)
qed

lemma pending_expire: "pending (expire_in_flight now q) c \<subseteq># pending q c"
proof -
  have "pending (foldl expire_one q cs) c \<subseteq># pending q c" for cs
    by (induction cs arbitrary: q) (auto intro: subset_mset.order_trans pending_expire_one)
  then show ?thesis by (simp add: expire_in_flight_def)
qed

lemma pending_set_in_flight [simp]:
  "pending (set_in_flight now c n q) c' = pending q c'"
  "cancelled_batches (set_in_flight now c n q) = cancelled_batches q"
  "cancel_reasons (set_in_flight now c n q) = cancel_reasons q" "queues (set_in_flight now c n q) = queues q"
  "withheld_native_steer (set_in_flight now c n q) = withheld_native_steer q"
  by (simp_all add: set_in_flight_def pending_def)

lemma flush_queued_conserves:
  assumes "flush_queued now c q = (b, q')"
  shows "pending q c' = pending q' c' + (if c' = fb_channel_id b then delivered b else {#})
    \<and> fb_channel_id b = c"
proof -
  let ?n = "min MAX_BATCH_EVENTS (length (bucket (queues q) c))"
  have split: "mset (bucket (queues q) c) =
      mset (take ?n (bucket (queues q) c)) + mset (drop ?n (bucket (queues q) c))"
    by (metis append_take_drop_id mset_append)
  have b: "fb_channel_id b = c" "delivered b = image_mset to_batch_event (mset (take ?n (bucket (queues q) c)))
      + mset (bucket (cancelled_batches q) c)"
    using assms by (auto simp: flush_queued_def Let_def delivered_def)
  have q': "bucket (queues q') c' = (if c' = c then drop ?n (bucket (queues q) c) else bucket (queues q) c')"
    "withheld_native_steer q' = withheld_native_steer q"
    "bucket (cancelled_batches q') c' = (if c' = c then [] else bucket (cancelled_batches q) c')"
    using assms by (auto simp: flush_queued_def Let_def)
  show ?thesis
    using b q' split by (auto simp: pending_def)
qed

lemma flush_cancelled_conserves:
  assumes "flush_cancelled now q = (Some b, q')"
  shows "pending q c' = pending q' c' + (if c' = fb_channel_id b then delivered b else {#})"
  using assms
  by (auto simp: flush_cancelled_def Let_def delivered_def split: option.splits)
    (auto simp: pending_def)

lemma flush_conserves:
  assumes "flush_next now q = (Some b, q')"
  shows "pending (expire_in_flight now q) c = pending q' c + (if c = fb_channel_id b then delivered b else {#})"
  using assms flush_queued_conserves flush_cancelled_conserves
  by (cases "next_channel now (expire_in_flight now q)")
    (auto simp: flush_next_def Let_def split: prod.splits)

section \<open>Invariant\<close>

definition stores_ok :: "EventQueue \<Rightarrow> bool" where
  "stores_ok q \<longleftrightarrow> hm_wf (queues q)
     \<and> (\<forall>c. length (bucket (queues q) c) \<le> MAX_PENDING_PER_CHANNEL)
     \<and> (\<forall>c. \<forall>e \<in> set (bucket (queues q) c) \<union> set (bucket (withheld_native_steer q) c). qe_channel_id e = c)"

definition flight_ok :: "EventQueue \<Rightarrow> bool" where
  "flight_ok q \<longleftrightarrow> hm_wf (in_flight_deadlines q)
     \<and> (\<forall>c. c \<in> set (in_flight_channels q) \<longleftrightarrow> hm_get (in_flight_deadlines q) c \<noteq> None)"

definition queue_inv :: "EventQueue \<Rightarrow> bool" where
  "queue_inv q \<longleftrightarrow> stores_ok q \<and> flight_ok q"

lemma stores_okI:
  assumes "hm_wf (queues q)" and "\<And>c. length (bucket (queues q) c) \<le> MAX_PENDING_PER_CHANNEL"
    and "\<And>c e. e \<in> set (bucket (queues q) c) \<Longrightarrow> qe_channel_id e = c"
    and "\<And>c e. e \<in> set (bucket (withheld_native_steer q) c) \<Longrightarrow> qe_channel_id e = c"
  shows "stores_ok q"
  using assms by (auto simp: stores_ok_def)

lemma stores_okD:
  assumes "stores_ok q"
  shows "hm_wf (queues q)" and "length (bucket (queues q) c) \<le> MAX_PENDING_PER_CHANNEL"
    and "e \<in> set (bucket (queues q) c) \<Longrightarrow> qe_channel_id e = c"
    and "e \<in> set (bucket (withheld_native_steer q) c) \<Longrightarrow> qe_channel_id e = c"
  using assms by (auto simp: stores_ok_def)

lemma stores_ok_cong:
  "queues q' = queues q \<Longrightarrow> withheld_native_steer q' = withheld_native_steer q \<Longrightarrow> stores_ok q' = stores_ok q"
  by (simp add: stores_ok_def)

lemma flight_ok_cong:
  "in_flight_channels q' = in_flight_channels q \<Longrightarrow> in_flight_deadlines q' = in_flight_deadlines q \<Longrightarrow>
     flight_ok q' = flight_ok q"
  by (simp add: flight_ok_def)

lemma push_stores: "stores_ok q \<Longrightarrow> stores_ok (snd (push e q))"
proof (cases "dedup_mode q = DropMode \<and> qe_channel_id e \<in> set (in_flight_channels q)")
  case False
  assume ok: "stores_ok q"
  let ?es = "bucket (queues q) (qe_channel_id e)"
  have len: "length ((if MAX_PENDING_PER_CHANNEL \<le> length ?es then tl ?es else ?es) @ [e]) \<le> MAX_PENDING_PER_CHANNEL"
    using stores_okD(2) [OF ok, of "qe_channel_id e"] by (auto simp: MAX_PENDING_PER_CHANNEL_def)
  have "set (tl ?es) \<subseteq> set ?es" by (cases ?es) auto
  with False len stores_okD [OF ok] show ?thesis
    by (intro stores_okI) (auto simp: push_def Let_def split: if_splits)
qed (simp add: push_def)

lemma expire_one_ok: "queue_inv q \<Longrightarrow> queue_inv (expire_one q c)"
proof -
  assume "queue_inv q"
  then have s: "stores_ok q" and f: "flight_ok q" by (auto simp: queue_inv_def)
  have wf: "hm_wf (queues (expire_one q c))"
    using stores_okD(1) [OF s]
    by (simp add: expire_one_def recover_withheld_for_expired_channel_def split: option.splits)
  have "stores_ok (expire_one q c)"
    using stores_okD [OF s] wf
    by (intro stores_okI) (auto simp: expire_one_stores split: if_splits dest!: subsetD [OF set_cap_back])
  moreover have "flight_ok (expire_one q c)" using f by (auto simp: flight_ok_def)
  ultimately show ?thesis by (simp add: queue_inv_def)
qed

lemma expire_ok: "queue_inv q \<Longrightarrow> queue_inv (expire_in_flight now q)"
proof -
  have "queue_inv q \<Longrightarrow> queue_inv (foldl expire_one q cs)" for cs
    by (induction cs arbitrary: q) (auto intro: expire_one_ok)
  then show "queue_inv q \<Longrightarrow> queue_inv (expire_in_flight now q)" by (simp add: expire_in_flight_def)
qed

lemma set_in_flight_ok: "flight_ok q \<Longrightarrow> flight_ok (set_in_flight now c n q)"
  by (auto simp: flight_ok_def set_in_flight_def)

lemma flush_queued_ok: "queue_inv q \<Longrightarrow> queue_inv (snd (flush_queued now c q))"
proof -
  assume "queue_inv q"
  then have s: "stores_ok q" and f: "flight_ok q" by (auto simp: queue_inv_def)
  let ?q = "snd (flush_queued now c q)"
  have "bucket (queues ?q) c' = (if c' = c then drop (min MAX_BATCH_EVENTS (length (bucket (queues q) c)))
      (bucket (queues q) c) else bucket (queues q) c')" for c'
    by (auto simp: flush_queued_def Let_def)
  moreover have "withheld_native_steer ?q = withheld_native_steer q" "hm_wf (queues ?q)"
    using stores_okD(1) [OF s] by (auto simp: flush_queued_def Let_def)
  ultimately have "stores_ok ?q"
    using stores_okD [OF s]
    by (intro stores_okI) (auto split: if_splits dest: in_set_dropD intro: le_trans [OF diff_le_self])
  moreover have "flight_ok ?q"
    using set_in_flight_ok [of "q\<lparr>queues := _\<rparr>"] f
    by (simp add: flush_queued_def Let_def flight_ok_def set_in_flight_def)
  ultimately show ?thesis by (simp add: queue_inv_def)
qed

lemma flush_cancelled_ok: "queue_inv q \<Longrightarrow> queue_inv (snd (flush_cancelled now q))"
  by (auto simp: queue_inv_def flush_cancelled_def Let_def stores_ok_def flight_ok_def set_in_flight_def
      split: option.splits)

lemma flush_next_ok: "queue_inv q \<Longrightarrow> queue_inv (snd (flush_next now q))"
  using flush_queued_ok [OF expire_ok] flush_cancelled_ok [OF expire_ok]
  by (auto simp: flush_next_def Let_def split_def split: option.splits)

lemma requeue_front_ok: "stores_ok q \<Longrightarrow> stores_ok (requeue_front b q)"
proof -
  assume ok: "stores_ok q"
  have "qe_channel_id e = fb_channel_id b" if "e \<in> set (cap_back (map (to_queued_event (fb_channel_id b)) (fb_events b)
      @ bucket (queues q) (fb_channel_id b)))" for e
    using subsetD [OF set_cap_back that] stores_okD(3) [OF ok] by (auto simp: to_queued_event_def)
  with stores_okD [OF ok] show ?thesis
    by (intro stores_okI) (auto simp: requeue_front_def Let_def split: if_splits)
qed

lemma requeue_ok: "stores_ok q \<Longrightarrow> stores_ok (snd (requeue now nanos b q))"
  using requeue_front_ok [of "q\<lparr>retry_counts := _\<rparr>" b]
  by (simp add: requeue_def Let_def stores_ok_def)

lemma steer_ok:
  "stores_ok q \<Longrightarrow> stores_ok (snd (mark_native_steer_pending c i q))"
  "stores_ok q \<Longrightarrow> stores_ok (release_native_steer c i q)"
proof -
  assume ok: "stores_ok q"
  note d = stores_okD [OF ok]
  show "stores_ok (snd (mark_native_steer_pending c i q))"
  proof (cases "hm_get (queues q) c")
    case (Some es)
    note es = bucket_get [OF Some]
    show ?thesis
    proof (cases "take_event i es")
      case (Some x)
      then obtain e rest where x: "take_event i es = Some (e, rest)" by (cases x) auto
      note t = take_event_Some [OF x]
      have "length rest \<le> MAX_PENDING_PER_CHANNEL" using t d(2) [of c] es by simp
      with \<open>hm_get (queues q) c = _\<close> x t es d show ?thesis
        by (intro stores_okI) (auto simp: mark_native_steer_pending_def bucket_push_at split: if_splits)
    qed (simp add: mark_native_steer_pending_def Some ok)
  qed (simp add: mark_native_steer_pending_def ok)
  show "stores_ok (release_native_steer c i q)"
  proof (cases "hm_get (withheld_native_steer q) c")
    case (Some es)
    note es = bucket_get [OF Some]
    show ?thesis
    proof (cases "take_event i es")
      case (Some x)
      then obtain e rest where x: "take_event i es = Some (e, rest)" by (cases x) auto
      note t = take_event_Some [OF x]
      have "qe_channel_id y = c" if "y \<in> set (cap_back (e # bucket (queues q) c))" for y
        using subsetD [OF set_cap_back that] t es d(3,4) by auto
      with \<open>hm_get (withheld_native_steer q) c = _\<close> x t es d show ?thesis
        by (intro stores_okI) (auto simp: release_native_steer_def split: if_splits)
    qed (simp add: release_native_steer_def Some ok)
  qed (simp add: release_native_steer_def ok)
qed

lemma bucket_retain_other:
  "bucket (retain_other c i m) c' =
     (if c' = c then filter (\<lambda>e. ev_id (qe_event e) \<noteq> i) (bucket m c) else bucket m c')"
  by (auto simp: retain_other_def bucket_def split: option.splits) (auto simp: store_or_remove_def)

lemma remove_event_ok: "stores_ok q \<Longrightarrow> stores_ok (remove_event c i q)"
proof -
  assume ok: "stores_ok q"
  have "hm_wf (retain_other c i (queues q))"
    using stores_okD(1) [OF ok] by (auto simp: retain_other_def split: option.splits)
  moreover have "length (filter P (bucket (queues q) c)) \<le> MAX_PENDING_PER_CHANNEL" for P
    by (rule le_trans [OF length_filter_le stores_okD(2) [OF ok]])
  ultimately show ?thesis
    using stores_okD [OF ok]
    by (intro stores_okI) (auto simp: remove_event_def bucket_retain_other split: if_splits)
qed

datatype queue_op =
    PushOp QueuedEvent
  | FlushNext int
  | MarkComplete int uuid
  | Requeue int int FlushBatch
  | RequeuePreserve FlushBatch
  | RequeueAsCancelled FlushBatch CancelReason
  | HasFlushableWork int
  | DrainChannel uuid
  | MarkSteerPending uuid string
  | ReleaseSteer uuid string
  | RemoveEvent uuid string
  | ExtendDeadline int uuid int
  | CompactExpired int

fun queue_step :: "EventQueue \<Rightarrow> queue_op \<Rightarrow> EventQueue" where
  "queue_step q (PushOp e) = snd (push e q)"
| "queue_step q (FlushNext now) = snd (flush_next now q)"
| "queue_step q (MarkComplete now c) = mark_complete now c q"
| "queue_step q (Requeue now nanos b) = snd (requeue now nanos b q)"
| "queue_step q (RequeuePreserve b) = requeue_preserve_timestamps b q"
| "queue_step q (RequeueAsCancelled b r) = requeue_as_cancelled b r q"
| "queue_step q (HasFlushableWork now) = snd (has_flushable_work now q)"
| "queue_step q (DrainChannel c) = snd (drain_channel c q)"
| "queue_step q (MarkSteerPending c i) = snd (mark_native_steer_pending c i q)"
| "queue_step q (ReleaseSteer c i) = release_native_steer c i q"
| "queue_step q (RemoveEvent c i) = remove_event c i q"
| "queue_step q (ExtendDeadline now c t) = extend_in_flight_deadline now c t q"
| "queue_step q (CompactExpired now) = compact_expired_state now q"

lemma flight_unchanged:
  "flight_ok (snd (push e q)) = flight_ok q" "flight_ok (snd (requeue now nanos b q)) = flight_ok q"
  "flight_ok (requeue_front b q) = flight_ok q" "flight_ok (requeue_as_cancelled b r q) = flight_ok q"
  "flight_ok (snd (drain_channel c q)) = flight_ok q"
  "flight_ok (snd (mark_native_steer_pending c i q)) = flight_ok q"
  "flight_ok (release_native_steer c i q) = flight_ok q" "flight_ok (remove_event c i q) = flight_ok q"
  "flight_ok (compact_expired_state now q) = flight_ok q"
  by (auto simp: push_def requeue_def requeue_front_def requeue_as_cancelled_def drain_channel_def
      mark_native_steer_pending_def release_native_steer_def remove_event_def compact_expired_state_def
      Let_def flight_ok_def split: option.splits)

lemma flight_changed:
  "flight_ok q \<Longrightarrow> flight_ok (mark_complete now c q)"
  "flight_ok q \<Longrightarrow> flight_ok (extend_in_flight_deadline now c t q)"
  by (auto simp: flight_ok_def mark_complete_def extend_in_flight_deadline_def Let_def split: option.splits)

lemma stores_unchanged:
  "stores_ok (mark_complete now c q) = stores_ok q" "stores_ok (requeue_as_cancelled b r q) = stores_ok q"
  "stores_ok (extend_in_flight_deadline now c t q) = stores_ok q" "stores_ok (compact_expired_state now q) = stores_ok q"
  by (auto simp: mark_complete_def requeue_as_cancelled_def extend_in_flight_deadline_def
      compact_expired_state_def Let_def stores_ok_def split: option.splits)

lemma drain_ok: "stores_ok q \<Longrightarrow> stores_ok (snd (drain_channel c q))"
  by (auto simp: stores_ok_def drain_channel_def)

lemma queue_step_inv: "queue_inv q \<Longrightarrow> queue_inv (queue_step q op)"
proof (cases op)
  case (FlushNext now)
  assume "queue_inv q"
  with FlushNext flush_next_ok show ?thesis by simp
next
  case (HasFlushableWork now)
  assume "queue_inv q"
  with HasFlushableWork expire_ok show ?thesis by (simp add: has_flushable_work_def Let_def)
qed (simp_all add: queue_inv_def push_stores requeue_ok requeue_front_ok requeue_preserve_timestamps_def
    steer_ok remove_event_ok drain_ok flight_unchanged flight_changed stores_unchanged)

lemma queue_inv_new: "queue_inv (EventQueue_new mode)"
  by (simp add: queue_inv_def stores_ok_def flight_ok_def EventQueue_new_def)

interpretation queue: invariant_machine queue_step "EventQueue_new mode" queue_inv for mode
  by unfold_locales (rule queue_inv_new, rule queue_step_inv)

section \<open>What a flush returns\<close>

lemma next_channel_spec:
  assumes "hm_wf (queues q)" and "next_channel now q = Some c"
  shows "bucket (queues q) c \<noteq> [] \<and> flushable now q (c, bucket (queues q) c)
    \<and> (\<forall>c'. flushable now q (c', bucket (queues q) c') \<longrightarrow>
         qe_received_at (hd (bucket (queues q) c)) \<le> qe_received_at (hd (bucket (queues q) c')))"
proof -
  obtain x where x: "min_by_key (\<lambda>x. qe_received_at (hd (snd x))) (filter (flushable now q) (queues q)) = Some x"
    and c: "c = fst x"
    using assms(2) by (auto simp: next_channel_def)
  have entry: "(c', es) \<in> set (queues q) \<longleftrightarrow> hm_get (queues q) c' = Some es" for c' es
    by (rule hm.entries_get [OF assms(1)])
  from min_by_key_spec [OF x] have "x \<in> set (queues q)" "flushable now q x"
    and least: "\<And>y. y \<in> set (queues q) \<Longrightarrow> flushable now q y \<Longrightarrow>
      qe_received_at (hd (snd x)) \<le> qe_received_at (hd (snd y))"
    by auto
  then have b: "bucket (queues q) c = snd x"
    using entry [of c "snd x"] c by (simp add: bucket_def)
  have "(c', bucket (queues q) c') \<in> set (queues q)" if "flushable now q (c', bucket (queues q) c')" for c'
    using that entry [of c'] by (cases "hm_get (queues q) c'") (auto simp: flushable_def bucket_def)
  with least b c \<open>flushable now q x\<close> show ?thesis
    by (auto simp: flushable_def) (metis snd_conv flushable_def fst_conv)
qed

lemma next_channel_None:
  "next_channel now q = None \<longleftrightarrow> \<not> list_ex (flushable now q) (queues q)"
  by (auto simp: next_channel_def min_by_key_None filter_empty_conv list_ex_iff)

lemma flush_cancelled_None:
  "fst (flush_cancelled now q) = None \<longleftrightarrow>
     \<not> list_ex (\<lambda>c. c \<notin> set (in_flight_channels q)) (hm_keys (cancelled_batches q))"
proof -
  have "fst (flush_cancelled now q) = None \<longleftrightarrow>
      find (\<lambda>c. c \<notin> set (in_flight_channels q)) (hm_keys (cancelled_batches q)) = None"
    by (simp add: flush_cancelled_def Let_def split: option.splits)
  then show ?thesis by (auto simp: find_None_iff list_ex_iff)
qed

lemma flush_queued_batch:
  "fst (flush_queued now c q) =
     \<lparr>fb_channel_id = c,
      fb_events = sort_key (\<lambda>b. ev_created_at (be_event b)) (map to_batch_event (take MAX_BATCH_EVENTS (bucket (queues q) c))),
      fb_cancelled_events = bucket (cancelled_batches q) c,
      fb_cancel_reason = (if bucket (cancelled_batches q) c = [] then None else hm_get (cancel_reasons q) c)\<rparr>"
  by (simp add: flush_queued_def Let_def min_def)

lemma flush_in_flight:
  assumes "flush_next now q = (Some b, q')"
  shows "fb_channel_id b \<notin> set (in_flight_channels (expire_in_flight now q))
      \<or> next_channel now (expire_in_flight now q) = Some (fb_channel_id b)"
    and "fb_channel_id b \<in> set (in_flight_channels q')"
    and "hm_get (in_flight_deadlines q') (fb_channel_id b) = Some (now + in_flight_deadline q)"
  using assms
  by (auto simp: flush_next_def flush_cancelled_def flush_queued_def Let_def set_in_flight_def
      find_Some_iff split: option.splits)

section \<open>Overflow\<close>

text \<open>No channel holds more events, queued and withheld, than the cap.\<close>

definition fits :: "EventQueue \<Rightarrow> bool" where
  "fits q \<longleftrightarrow> (\<forall>c. length (bucket (queues q) c) + length (bucket (withheld_native_steer q) c)
     \<le> MAX_PENDING_PER_CHANNEL)"

lemma expire_one_fits: "fits q \<Longrightarrow> fits (expire_one q c) \<and> pending (expire_one q c) c' = pending q c'"
proof -
  assume f: "fits q"
  have none: "hm_get (withheld_native_steer q) c = None \<Longrightarrow> bucket (withheld_native_steer q) c = []"
    by (simp add: bucket_def)
  have len: "length (bucket (withheld_native_steer q) c @ bucket (queues q) c) \<le> MAX_PENDING_PER_CHANNEL"
    "length (bucket (queues q) c) \<le> MAX_PENDING_PER_CHANNEL"
    using f [unfolded fits_def, rule_format, of c] by simp_all
  from cap_back_short [OF len(1)] f none len(2) show ?thesis
    by (auto simp: fits_def pending_def expire_one_stores add.commute)
qed

lemma expire_fits: "fits q \<Longrightarrow> fits (expire_in_flight now q) \<and> pending (expire_in_flight now q) c = pending q c"
proof -
  have "fits q \<Longrightarrow> fits (foldl expire_one q cs) \<and> pending (foldl expire_one q cs) c = pending q c" for cs
    by (induction cs arbitrary: q) (auto simp: expire_one_fits)
  then show "fits q \<Longrightarrow> fits (expire_in_flight now q) \<and> pending (expire_in_flight now q) c = pending q c"
    by (simp add: expire_in_flight_def)
qed

lemma mark_steer_pending_keeps: "pending (snd (mark_native_steer_pending c' i q)) c = pending q c"
proof (cases "hm_get (queues q) c'")
  case (Some es)
  show ?thesis
  proof (cases "take_event i es")
    case (Some x)
    then obtain e rest where x: "take_event i es = Some (e, rest)" by (cases x) auto
    from take_event_Some [OF this] have "mset es = add_mset e (mset rest)" by simp
    with x \<open>hm_get (queues q) c' = Some es\<close> bucket_get [OF \<open>hm_get (queues q) c' = Some es\<close>] show ?thesis
      by (auto simp: mark_native_steer_pending_def pending_def bucket_push_at)
  qed (simp add: mark_native_steer_pending_def Some)
qed (simp add: mark_native_steer_pending_def)

lemma to_batch_queued [simp]: "to_batch_event (to_queued_event c b) = b"
  by (simp add: to_batch_event_def to_queued_event_def)

lemma requeue_front_pending:
  assumes "length (fb_events b) + length (bucket (queues q) (fb_channel_id b)) \<le> MAX_PENDING_PER_CHANNEL"
  shows "pending (requeue_front b q) c = pending q c + (if c = fb_channel_id b then mset (fb_events b) else {#})"
proof -
  have "length (map (to_queued_event (fb_channel_id b)) (fb_events b) @ bucket (queues q) (fb_channel_id b))
      \<le> MAX_PENDING_PER_CHANNEL" using assms by simp
  from cap_back_short [OF this] show ?thesis
    by (simp add: requeue_front_def pending_def Let_def comp_def multiset.map_comp)
qed

lemma flush_room:
  assumes "flush_next now q = (Some b, q')" and "fits q" and "next_channel now (expire_in_flight now q) \<noteq> None"
  shows "length (fb_events b) + length (bucket (queues q') (fb_channel_id b)) \<le> MAX_PENDING_PER_CHANNEL"
proof -
  let ?r = "expire_in_flight now q"
  obtain c where c: "next_channel now ?r = Some c" using assms(3) by auto
  then have b: "(b, q') = flush_queued now c ?r"
    using assms(1) by (auto simp: flush_next_def split: prod.splits)
  have fit: "length (bucket (queues ?r) c) \<le> MAX_PENDING_PER_CHANNEL"
    using expire_fits [OF assms(2), of now] by (auto simp: fits_def intro: le_trans [OF le_add1])
  have "length (fb_events b) + length (bucket (queues q') c) = length (bucket (queues ?r) c)" "fb_channel_id b = c"
    using b by (auto simp: flush_queued_def Let_def)
  with fit show ?thesis by simp
qed

section \<open>Delays\<close>

lemma retry_delay_bounds:
  assumes "0 \<le> nanos" and "nanos < 1000000000" and "0 < capped"
  shows "800000000 * int capped \<le> retry_delay capped nanos"
    and "retry_delay capped nanos < 900000000 * int capped"
proof -
  let ?m = "800000000 * 4294967295 + 400000000 * nanos"
  have "800000000 * int capped * 4294967295 \<le> int capped * ?m"
    using assms(1) by (simp add: algebra_simps)
  then have "800000000 * int capped * 4294967295 div 4294967295 \<le> int capped * ?m div 4294967295"
    by (rule zdiv_mono1) simp
  then show "800000000 * int capped \<le> retry_delay capped nanos"
    by (simp add: retry_delay_def)
  have "int capped * ?m < int capped * (900000000 * 4294967295)"
    using assms(2,3) by (intro mult_strict_left_mono) auto
  then have upper: "int capped * ?m < 900000000 * int capped * 4294967295" by simp
  have div_less: "x div k < y" if "x < y * k" "0 < k" for x y k :: int
  proof -
    have "k * (x div k) \<le> x" using that(2) by (simp add: minus_mod_eq_mult_div [symmetric])
    with that(1) have "k * (x div k) < k * y" by (simp only: mult.commute [of y k])
    with that(2) show ?thesis by (simp only: mult_less_cancel_left_pos)
  qed
  show "retry_delay capped nanos < 900000000 * int capped"
    unfolding retry_delay_def by (rule div_less [OF upper]) simp
qed

lemma capped_delay_bounds: "5 \<le> capped_delay_secs n \<and> capped_delay_secs n \<le> 300"
proof -
  have "(1 :: nat) \<le> 2 ^ min (n - 1) 6" by simp
  then show ?thesis by (simp add: capped_delay_secs_def BASE_RETRY_DELAY_SECS_def MAX_RETRY_DELAY_SECS_def)
qed

lemma flush_next_batch:
  assumes "flush_next now q = (Some b, q')" and wf: "hm_wf (queues (expire_in_flight now q))"
  defines "c \<equiv> fb_channel_id b" and "r \<equiv> expire_in_flight now q"
  shows "if list_ex (flushable now r) (queues r)
       then flushable now r (c, bucket (queues r) c)
            \<and> (\<forall>c'. flushable now r (c', bucket (queues r) c') \<longrightarrow>
                 qe_received_at (hd (bucket (queues r) c)) \<le> qe_received_at (hd (bucket (queues r) c')))
            \<and> mset (fb_events b) = mset (map to_batch_event (take 50 (bucket (queues r) c)))
            \<and> sorted (map (\<lambda>x. ev_created_at (be_event x)) (fb_events b))
            \<and> fb_cancelled_events b = bucket (cancelled_batches q) c
       else fb_events b = bucket (cancelled_batches q) c \<and> fb_cancelled_events b = []"
proof (cases "next_channel now r")
  case None
  with assms(1) have "flush_cancelled now r = (Some b, q')" by (simp add: flush_next_def r_def)
  then have "fb_events b = bucket (cancelled_batches q) c \<and> fb_cancelled_events b = []"
    by (auto simp: flush_cancelled_def Let_def c_def r_def split: option.splits)
  with None show ?thesis by (simp add: next_channel_None)
next
  case (Some c')
  have b: "b = fst (flush_queued now c' r)"
    using assms(1) Some by (auto simp: flush_next_def r_def split: prod.splits)
  then have "c' = c" by (simp add: c_def flush_queued_batch)
  with Some next_channel_spec [OF wf [folded r_def] Some] next_channel_None [of now r] show ?thesis
    by (simp add: b flush_queued_batch MAX_BATCH_EVENTS_def r_def)
qed

section \<open>A sample run\<close>

definition sample_event :: "string \<Rightarrow> nat \<Rightarrow> Event" where
  "sample_event i t = \<lparr>ev_id = i, ev_pubkey = ''pk'', ev_created_at = t, ev_kind = 9, ev_tags = [], ev_content = []\<rparr>"

definition sample_queued :: "uuid \<Rightarrow> string \<Rightarrow> nat \<Rightarrow> QueuedEvent" where
  "sample_queued c i t = \<lparr>qe_channel_id = c, qe_event = sample_event i t, qe_received_at = int t, qe_prompt_tag = ''mention''\<rparr>"

definition sample_first :: FlushBatch where
  "sample_first = \<lparr>fb_channel_id = ''c1'', fb_events = [to_batch_event (sample_queued ''c1'' ''e1'' 1)],
     fb_cancelled_events = [], fb_cancel_reason = None\<rparr>"

text \<open>A turn on \<open>c1\<close> is interrupted, cancelled, and a new event for the channel arrives.\<close>

definition sample_ops :: "queue_op list" where
  "sample_ops = [PushOp (sample_queued ''c1'' ''e1'' 1), FlushNext 10, RequeueAsCancelled sample_first Steer,
     MarkComplete 11 ''c1'', PushOp (sample_queued ''c1'' ''e2'' 2), PushOp (sample_queued ''c2'' ''e3'' 3)]"

definition sample_queue :: EventQueue where
  "sample_queue = foldl queue_step (EventQueue_new QueueMode) sample_ops"

definition sample_merged :: FlushBatch where
  "sample_merged = \<lparr>fb_channel_id = ''c1'', fb_events = [to_batch_event (sample_queued ''c1'' ''e2'' 2)],
     fb_cancelled_events = [to_batch_event (sample_queued ''c1'' ''e1'' 1)], fb_cancel_reason = Some Steer\<rparr>"

lemma sample_flush: "flush_next 12 sample_queue = (Some sample_merged, snd (flush_next 12 sample_queue))"
proof -
  have "fst (flush_next 12 sample_queue) = Some sample_merged" by code_simp
  then show ?thesis by (simp add: prod_eq_iff)
qed

lemma sample_fits: "fits sample_queue"
proof -
  have "queues sample_queue = [(''c1'', [sample_queued ''c1'' ''e2'' 2]), (''c2'', [sample_queued ''c2'' ''e3'' 3])]"
    "withheld_native_steer sample_queue = []" by code_simp+
  then show ?thesis by (simp add: fits_def bucket_def hm_get_def MAX_PENDING_PER_CHANNEL_def)
qed

lemma sample_ready: "next_channel 12 (expire_in_flight 12 sample_queue) = Some ''c1''"
  by code_simp

section \<open>Properties\<close>

text \<open>
  C9. A batch is only dispatched to an idle channel, fairly: whenever \<open>flush_next\<close> returns a batch, its
  channel had no turn in flight unless that turn's deadline had passed, it is in flight afterwards
  with a fresh deadline, and either it had queued events, was not throttled, and its head was the
  oldest among all ready channels, the batch being its first (at most 50) events in order of
  creation; or no channel was ready and the batch is a cancelled one re-dispatched. The doc comment of
  \<open>flush_next\<close> says otherwise: it has ALL events of the channel drained, and \<open>None\<close> returned when no ready queue has an
  event; the statement is what the code does.
\<close>
theorem flush_next_dispatch:
  assumes "q = foldl queue_step (EventQueue_new mode) ops" and "flush_next now q = (Some b, q')"
  defines "c \<equiv> fb_channel_id b" and "r \<equiv> expire_in_flight now q"
  shows "(c \<in> set (in_flight_channels q) \<longrightarrow> (\<exists>d \<le> now. hm_get (in_flight_deadlines q) c = Some d))
    \<and> c \<in> set (in_flight_channels q') \<and> hm_get (in_flight_deadlines q') c = Some (now + in_flight_deadline q)
    \<and> (if list_ex (flushable now r) (queues r)
       then flushable now r (c, bucket (queues r) c)
            \<and> (\<forall>c'. flushable now r (c', bucket (queues r) c') \<longrightarrow>
                 qe_received_at (hd (bucket (queues r) c)) \<le> qe_received_at (hd (bucket (queues r) c')))
            \<and> mset (fb_events b) = mset (map to_batch_event (take 50 (bucket (queues r) c)))
            \<and> sorted (map (\<lambda>x. ev_created_at (be_event x)) (fb_events b))
            \<and> fb_cancelled_events b = bucket (cancelled_batches q) c
       else fb_events b = bucket (cancelled_batches q) c \<and> fb_cancelled_events b = [])"
proof -
  have inv: "queue_inv q" unfolding assms(1) by (rule queue.inv_reachable)
  have r: "queue_inv r" unfolding r_def using inv by (rule expire_ok)
  have wf: "hm_wf (queues r)" "hm_wf (in_flight_deadlines q)"
    using r inv by (auto simp: queue_inv_def stores_ok_def flight_ok_def)
  have idle: "c \<notin> set (in_flight_channels r)"
    using flush_in_flight(1) [OF assms(2)] next_channel_spec [OF wf(1), of now c]
    by (auto simp: c_def r_def flushable_def)
  then have "c \<in> set (in_flight_channels q) \<longrightarrow> expired_at now q c"
    using expire_in_flight_channels [OF wf(2)] by (auto simp: r_def)
  then have "c \<in> set (in_flight_channels q) \<longrightarrow> (\<exists>d \<le> now. hm_get (in_flight_deadlines q) c = Some d)"
    by (cases "hm_get (in_flight_deadlines q) c") (auto simp: expired_at_def)
  moreover note flush_next_batch [OF assms(2) wf(1) [unfolded r_def], folded c_def r_def]
  ultimately show ?thesis using flush_in_flight(2,3) [OF assms(2)] by (simp add: c_def)
qed

theorem flush_next_dispatch_witness:
  "''c1'' \<in> set (in_flight_channels (snd (flush_next 12 sample_queue)))
   \<and> fst (flush_next 12 sample_queue) = Some sample_merged"
proof -
  have "fb_channel_id sample_merged = ''c1''" by (simp add: sample_merged_def)
  with flush_next_dispatch [OF sample_queue_def sample_flush]
  have "''c1'' \<in> set (in_flight_channels (snd (flush_next 12 sample_queue)))" by simp
  with sample_flush show ?thesis by (metis fst_conv)
qed

text \<open>
  \<open>has_flushable_work\<close> answers true exactly when \<open>flush_next\<close>, called at the same instant, returns a
  batch.
\<close>
theorem flushable_work_exact:
  "fst (has_flushable_work now q) \<longleftrightarrow> fst (flush_next now q) \<noteq> None"
  using next_channel_None [of now "expire_in_flight now q"] flush_cancelled_None [of now "expire_in_flight now q"]
  by (auto simp: flush_next_def has_flushable_work_def Let_def split: option.splits prod.splits)

text \<open>
  C10. Flushing neither loses nor duplicates an event: what the queue owed a channel before (queued,
  withheld for a steer, or cancelled) is what it owes afterwards plus the batch; cancelling the batch
  puts everything back; and withholding an event for a steer changes nothing that is owed. The
  per-channel cap must not be exceeded by the queued and withheld events together; otherwise events
  are dropped, but never duplicated.
\<close>
theorem flush_conserves_events:
  assumes "flush_next now q = (Some b, q')"
  shows "pending q' c + (if c = fb_channel_id b then delivered b else {#}) \<subseteq># pending q c
    \<and> (fits q \<longrightarrow> pending q c = pending q' c + (if c = fb_channel_id b then delivered b else {#})
         \<and> pending (requeue_as_cancelled b reason q') c = pending q c)
    \<and> pending (snd (mark_native_steer_pending c' i q)) c = pending q c"
proof -
  have flush: "pending (expire_in_flight now q) c = pending q' c + (if c = fb_channel_id b then delivered b else {#})"
    by (rule flush_conserves [OF assms])
  have "pending (requeue_as_cancelled b reason q') c =
      pending q' c + (if c = fb_channel_id b then delivered b else {#})"
    by (simp add: requeue_as_cancelled_def pending_def delivered_def Let_def)
  with flush pending_expire [of now q c] expire_fits [of q now c] show ?thesis
    by (auto simp: mark_steer_pending_keeps)
qed

theorem flush_conserves_events_witness:
  "pending (requeue_as_cancelled sample_merged Steer (snd (flush_next 12 sample_queue))) ''c1'' =
     pending sample_queue ''c1''"
  using flush_conserves_events [OF sample_flush] sample_fits by blast

text \<open>
  C11. Requeueing a merged batch loses its cancelled part: when no agent is available,
  \<open>requeue_preserve_timestamps\<close> puts back the new events only, so what the channel is owed shrinks by
  exactly the cancelled events merged into the batch.
\<close>
theorem requeue_loses_cancelled:
  assumes "flush_next now q = (Some b, q')" and "fits q" and "next_channel now (expire_in_flight now q) \<noteq> None"
  shows "pending q (fb_channel_id b) =
    pending (requeue_preserve_timestamps b q') (fb_channel_id b) + mset (fb_cancelled_events b)"
  using flush_conserves [OF assms(1), of "fb_channel_id b"] expire_fits [OF assms(2), of now "fb_channel_id b"]
    requeue_front_pending [OF flush_room [OF assms], of "fb_channel_id b"]
  by (simp add: requeue_preserve_timestamps_def delivered_def ac_simps)

theorem requeue_loses_cancelled_witness:
  "pending sample_queue ''c1'' =
     pending (requeue_preserve_timestamps sample_merged (snd (flush_next 12 sample_queue))) ''c1''
     + {#to_batch_event (sample_queued ''c1'' ''e1'' 1)#}"
  using requeue_loses_cancelled [OF sample_flush sample_fits] sample_ready
  by (simp add: sample_merged_def)

text \<open>
  Retries are bounded: a failed batch is requeued while its channel has used fewer than ten
  attempts, each time with a throttle between 80 and 90 percent of the capped exponential delay (at
  most 300 seconds), during which the channel is not flushed; the next failure returns the batch to
  the caller, leaves the queues alone and clears the counter and the throttle.
\<close>
theorem retry_budget_bounded:
  assumes "0 \<le> nanos" and "nanos < 1000000000"
  defines "n q c \<equiv> unwrap_or (hm_get (retry_counts q) c) 0"
  shows "let c = fb_channel_id b; (out, q') = requeue now nanos b q in
    if n q c < 10 then
      out = None \<and> n q' c = n q c + 1 \<and>
      (\<exists>t. hm_get (retry_after q') c = Some t
         \<and> 800000000 * int (capped_delay_secs (n q c + 1)) \<le> t - now
         \<and> t - now < 900000000 * int (capped_delay_secs (n q c + 1))
         \<and> t - now \<le> 300000000000
         \<and> (\<forall>now' < t. \<forall>es. \<not> flushable now' q' (c, es)))
    else out = Some b \<and> queues q' = queues q \<and> hm_get (retry_counts q') c = None \<and> hm_get (retry_after q') c = None"
proof -
  let ?c = "fb_channel_id b"
  let ?s = "capped_delay_secs (n q ?c + 1)"
  have s: "0 < ?s" "?s \<le> 300" using capped_delay_bounds [of "n q ?c + 1"] by simp_all
  note bounds = retry_delay_bounds [OF assms(1,2) s(1)]
  have "int ?s * 900000000 \<le> 300 * 900000000" using s(2) by simp
  with bounds show ?thesis
    by (auto simp: requeue_def Let_def n_def MAX_RETRIES_def requeue_front_def flushable_def)
qed

theorem retry_budget_bounded_witness:
  "fst (requeue 0 0 sample_first (EventQueue_new DropMode)) = None
   \<and> (\<exists>t. hm_get (retry_after (snd (requeue 0 0 sample_first (EventQueue_new DropMode)))) ''c1'' = Some t
        \<and> 4000000000 \<le> t \<and> t < 4500000000)"
proof -
  have "capped_delay_secs 1 = 5" by code_simp
  then show ?thesis
    using retry_budget_bounded [of 0 sample_first 0 "EventQueue_new DropMode"]
    by (auto simp: Let_def split_def EventQueue_new_def sample_first_def)
qed

text \<open>
  In every state the harness can reach, a channel's queue holds at most 500 events, every queued or
  withheld event sits under its own channel, and a channel is in flight exactly when it has a
  deadline, so no turn can block its channel forever.
\<close>
theorem queue_depth_and_deadlines:
  "let q = foldl queue_step (EventQueue_new mode) ops in
   length (bucket (queues q) c) \<le> 500
   \<and> list_all (\<lambda>e. qe_channel_id e = c) (bucket (queues q) c @ bucket (withheld_native_steer q) c)
   \<and> (is_channel_in_flight c q \<longleftrightarrow> hm_get (in_flight_deadlines q) c \<noteq> None)"
  using queue.inv_reachable [of mode ops]
  by (auto simp: Let_def queue_inv_def stores_ok_def flight_ok_def list_all_iff is_channel_in_flight_def
      MAX_PENDING_PER_CHANNEL_def)

end
