(* ===== verification/MeshWire.thy ===== *)
theory MeshWire
  imports Nostr
begin

text \<open>
  The wire contract of the relay mesh: \<^verbatim>\<open>crates/lenos-relay-mesh/src/wire.rs\<close> (frames, version byte),
  the errors and \<open>encode_datagram_checked\<close> of \<^verbatim>\<open>lib.rs\<close>, and the length-delimited framing of
  \<^verbatim>\<open>peer.rs\<close>.

  Postcard is a parameter (\<open>codec\<close>); \<open>codec_law\<close> is its documented round trip. A QUIC stream is the
  list of bytes written to it and not yet read, and its end is the end of the list: \<open>read_exact\<close>
  reads from the front. The outcome of each \<open>write_all\<close> is an argument; an error ends the stream, so
  what a failed write left behind is not modelled.
\<close>

section \<open>Frames and errors\<close>

type_synonym RuntimeId = bytes

definition WIRE_VERSION :: u8 where "WIRE_VERSION = 1"
definition MAX_STREAM_FRAME :: nat where "MAX_STREAM_FRAME = 16 * 1024 * 1024"

record FencedHeader =
  fh_session_id :: uuid
  fh_generation :: u64
  fh_owner_runtime_id :: RuntimeId

datatype Profile = ReliableStream | RealtimeMedia | HuddleControl

record MeshDatagram =
  md_fenced :: FencedHeader
  md_seq :: u64
  md_payload :: bytes

datatype StreamRole = Control | Session FencedHeader Profile

record StreamHello =
  sh_sender :: RuntimeId
  sh_role :: StreamRole

datatype GoodbyeReason = SessionEnded | Draining | StaleGenerationReason

datatype MeshStreamFrame =
    Hello StreamHello
  | Data FencedHeader bytes
  | Goodbye FencedHeader GoodbyeReason
  | Gossip bytes

datatype MeshError =
    Encode string
  | Decode string
  | UnknownWireVersion u8
  | EmptyFrame
  | FrameTooLarge nat nat
  | DatagramTooLarge nat nat
  | PeerNotConnected RuntimeId
  | PeerDraining RuntimeId
  | StaleGeneration uuid u64 u64
  | NoActiveLease uuid u64 u64 RuntimeId
  | OwnerMismatch uuid u64 RuntimeId RuntimeId
  | FutureGeneration uuid u64 u64
  | Disabled
  | Transport string
  | RedisErr string

section \<open>Encoding\<close>

record 'a codec =
  pc_to :: "'a \<Rightarrow> (string, bytes) result"
  pc_from :: "bytes \<Rightarrow> (string, 'a) result"

definition codec_law :: "'a codec \<Rightarrow> 'a \<Rightarrow> bool" where
  "codec_law c x \<longleftrightarrow> (\<forall>b. pc_to c x = Ok b \<longrightarrow> pc_from c b = Ok x)"

definition wire_encode :: "'a codec \<Rightarrow> 'a \<Rightarrow> (MeshError, bytes) result" where
  "wire_encode c frame =
     (case pc_to c frame of Inl e \<Rightarrow> Err (Encode e) | Inr b \<Rightarrow> Ok (WIRE_VERSION # b))"

definition wire_decode :: "'a codec \<Rightarrow> bytes \<Rightarrow> (MeshError, 'a) result" where
  "wire_decode c b =
     (case b of
        [] \<Rightarrow> Err EmptyFrame
      | v # rest \<Rightarrow>
          if v = WIRE_VERSION
          then (case pc_from c rest of Inl e \<Rightarrow> Err (Decode e) | Inr x \<Rightarrow> Ok x)
          else Err (UnknownWireVersion v))"

definition encode_datagram_checked ::
  "MeshDatagram codec \<Rightarrow> MeshDatagram \<Rightarrow> nat \<Rightarrow> (MeshError, bytes) result" where
  "encode_datagram_checked c dgram max_datagram_size =
     (case wire_encode c dgram of
        Inl e \<Rightarrow> Err e
      | Inr b \<Rightarrow>
          if length b > max_datagram_size then Err (DatagramTooLarge (length b) max_datagram_size)
          else Ok b)"

section \<open>Framing\<close>

text \<open>\<open>(n as u32).to_le_bytes()\<close> and \<open>u32::from_le_bytes\<close>.\<close>

definition to_le_bytes :: "nat \<Rightarrow> bytes" where
  "to_le_bytes n = map (\<lambda>i. of_nat (n div 256 ^ i)) [0, 1, 2, 3]"

definition from_le_bytes :: "bytes \<Rightarrow> nat" where
  "from_le_bytes b = foldr (\<lambda>x a. unat x + 256 * a) b 0"

definition send_frame ::
  "MeshStreamFrame codec \<Rightarrow> string option \<Rightarrow> string option \<Rightarrow> MeshStreamFrame \<Rightarrow> bytes \<Rightarrow>
   (MeshError, bytes) result" where
  "send_frame c write1 write2 frame out =
     (case wire_encode c frame of
        Inl e \<Rightarrow> Err e
      | Inr b \<Rightarrow>
          if length b > MAX_STREAM_FRAME then Err (FrameTooLarge (length b) MAX_STREAM_FRAME)
          else (case write1 of
              Some e \<Rightarrow> Err (Transport e)
            | None \<Rightarrow>
                (case write2 of
                   Some e \<Rightarrow> Err (Transport e)
                 | None \<Rightarrow> Ok (out @ to_le_bytes (length b) @ b))))"

text \<open>
  \<open>recv_frame\<close> on a finished stream holding \<open>inp\<close>; \<open>msg n\<close> is the text of iroh's \<open>FinishedEarly(n)\<close>.
  The result carries the bytes left.
\<close>

definition recv_frame ::
  "MeshStreamFrame codec \<Rightarrow> (nat \<Rightarrow> string) \<Rightarrow> bytes \<Rightarrow>
   (MeshError, MeshStreamFrame option \<times> bytes) result" where
  "recv_frame c msg inp =
     (if inp = [] then Ok (None, [])
      else if length inp < 4 then Err (Transport (msg (length inp)))
      else let len = from_le_bytes (take 4 inp); rest = drop 4 inp
        in if len > MAX_STREAM_FRAME then Err (FrameTooLarge len MAX_STREAM_FRAME)
           else if length rest < len then Err (Transport (msg (length rest)))
           else (case wire_decode c (take len rest) of
               Inl e \<Rightarrow> Err e
             | Inr frame \<Rightarrow> Ok (Some frame, drop len rest)))"

lemma recv_frame_shrinks:
  "recv_frame c msg inp = Inr (Some f, rest) \<Longrightarrow> length rest < length inp"
  by (auto simp: recv_frame_def Let_def split: if_splits sum.splits)

text \<open>The receive loop of a stream: frames until the end of the stream or the first error.\<close>

function recv_all ::
  "MeshStreamFrame codec \<Rightarrow> (nat \<Rightarrow> string) \<Rightarrow> bytes \<Rightarrow> MeshStreamFrame list \<times> MeshError option" where
  "recv_all c msg inp =
     (case recv_frame c msg inp of
        Inl e \<Rightarrow> ([], Some e)
      | Inr (None, _) \<Rightarrow> ([], None)
      | Inr (Some f, rest) \<Rightarrow> (let (fs, e) = recv_all c msg rest in (f # fs, e)))"
  by pat_completeness auto
termination
  by (relation "measure (\<lambda>(_, _, inp). length inp)") (auto dest: recv_frame_shrinks)

declare recv_all.simps [simp del]

lemma recv_all_nil [simp]: "recv_all c msg [] = ([], None)"
  by (simp add: recv_all.simps [of c msg "[]"] recv_frame_def)

fun send_all ::
  "MeshStreamFrame codec \<Rightarrow> MeshStreamFrame list \<Rightarrow> bytes \<Rightarrow> (MeshError, bytes) result" where
  "send_all c [] out = Ok out"
| "send_all c (f # fs) out =
     (case send_frame c None None f out of Inl e \<Rightarrow> Err e | Inr out' \<Rightarrow> send_all c fs out')"

section \<open>Lemmas\<close>

lemma length_to_le_bytes [simp]: "length (to_le_bytes n) = 4"
  by (simp add: to_le_bytes_def)

lemma from_to_le_bytes [wire_simps]:
  assumes "n < 4294967296"
  shows "from_le_bytes (to_le_bytes n) = n"
proof -
  have byte: "unat (of_nat m :: u8) = m mod 256" for m
    by (simp add: unsigned_of_nat take_bit_eq_mod)
  have split: "m mod 256 + 256 * (m div 256) = m" for m :: nat by simp
  have div: "n div 65536 = n div 256 div 256" "n div 16777216 = n div 65536 div 256"
    by (simp_all add: div_mult2_eq [symmetric])
  have "n div 16777216 < 256" using assms by (simp add: less_mult_imp_div_less)
  then have "from_le_bytes (to_le_bytes n) =
      n mod 256 + (256 * (n div 256 mod 256) + (65536 * (n div 65536 mod 256) + 16777216 * (n div 16777216)))"
    by (simp add: from_le_bytes_def to_le_bytes_def byte)
  then show ?thesis
    using split [of n] split [of "n div 256"] split [of "n div 65536"] div by linarith
qed

lemma wire_decode_encode [wire_simps]:
  "codec_law c x \<Longrightarrow> wire_encode c x = Inr b \<Longrightarrow> wire_decode c b = Inr x"
  by (auto simp: codec_law_def wire_encode_def wire_decode_def split: sum.splits)

lemma wire_encode_ne: "wire_encode c x = Inr b \<Longrightarrow> b \<noteq> []"
  by (auto simp: wire_encode_def split: sum.splits)

lemma send_frame_Ok:
  assumes "send_frame c None None f out = Inr out'"
  obtains b where "wire_encode c f = Inr b" and "length b \<le> MAX_STREAM_FRAME"
    and "out' = out @ to_le_bytes (length b) @ b"
  using assms by (auto simp: send_frame_def split: sum.splits if_splits)

lemma recv_frame_sent:
  assumes "codec_law c f" and "wire_encode c f = Inr b" and "length b \<le> MAX_STREAM_FRAME"
  shows "recv_frame c msg (to_le_bytes (length b) @ b @ rest) = Inr (Some f, rest)"
proof -
  have "from_le_bytes (to_le_bytes (length b)) = length b"
    using assms(3) by (intro from_to_le_bytes) (simp add: MAX_STREAM_FRAME_def)
  moreover have "to_le_bytes (length b) \<noteq> []"
    by (metis length_to_le_bytes list.size(3) zero_neq_numeral)
  ultimately show ?thesis
    using assms by (simp add: recv_frame_def Let_def wire_decode_encode)
qed

lemma send_frame_acc: "send_frame c w1 w2 f (out @ xs) = map_sum id (append out) (send_frame c w1 w2 f xs)"
  by (simp add: send_frame_def split: sum.splits option.splits)

lemma send_all_acc: "send_all c fs (out @ xs) = map_sum id (append out) (send_all c fs xs)"
  by (induction fs arbitrary: xs) (auto simp: send_frame_acc split: sum.splits)

lemma send_all_Cons:
  assumes "send_all c (f # fs) [] = Inr out"
  obtains b t where "wire_encode c f = Inr b" and "length b \<le> MAX_STREAM_FRAME"
    and "out = to_le_bytes (length b) @ b @ t" and "send_all c fs [] = Inr t"
proof -
  from assms obtain o1 where o1: "send_frame c None None f [] = Inr o1" "send_all c fs o1 = Inr out"
    by (auto split: sum.splits)
  obtain b where b: "wire_encode c f = Inr b" "length b \<le> MAX_STREAM_FRAME"
      "o1 = to_le_bytes (length b) @ b"
    by (rule send_frame_Ok [OF o1(1)]) simp
  obtain t where "send_all c fs [] = Inr t" "out = o1 @ t"
    using o1(2) send_all_acc [of c fs o1 "[]"] by (cases "send_all c fs []") auto
  with b show thesis by (intro that) simp_all
qed

lemma send_all_ConsI:
  assumes "wire_encode c f = Inr b" and "length b \<le> MAX_STREAM_FRAME" and "send_all c fs [] = Inr t"
  shows "send_all c (f # fs) [] = Inr (to_le_bytes (length b) @ b @ t)"
  using assms send_all_acc [of c fs "to_le_bytes (length b) @ b" "[]"] by (simp add: send_frame_def)

text \<open>A stream cut inside a frame is an error; nothing of that frame is delivered.\<close>

lemma recv_frame_cut:
  assumes "length b \<le> MAX_STREAM_FRAME" and "prefix p (to_le_bytes (length b) @ b @ t)"
    and "p \<noteq> []" and "length p < 4 + length b"
  shows "\<exists>e. recv_frame c msg p = Inl (Transport e)"
proof (cases "length p < 4")
  case False
  obtain zs where "to_le_bytes (length b) @ b @ t = p @ zs" using assms(2) by (auto simp: prefix_def)
  with False have "take 4 p = take 4 (to_le_bytes (length b) @ b @ t)" by simp
  then have "take 4 p = to_le_bytes (length b)" by simp
  then have "from_le_bytes (take 4 p) = length b"
    using assms(1) by (simp add: from_to_le_bytes MAX_STREAM_FRAME_def)
  moreover have "length p - 4 < length b" using assms(4) False by linarith
  ultimately show ?thesis using assms False by (simp add: recv_frame_def Let_def)
qed (use assms in \<open>simp add: recv_frame_def\<close>)

lemma recv_all_cut:
  "send_all c fs [] = Inr out \<Longrightarrow> list_all (codec_law c) fs \<Longrightarrow> prefix p out \<Longrightarrow>
   \<exists>n. fst (recv_all c msg p) = take n fs
      \<and> (snd (recv_all c msg p) = None \<longrightarrow> send_all c (take n fs) [] = Inr p)"
proof (induction fs arbitrary: out p)
  case Nil
  then show ?case by simp
next
  case (Cons f fs)
  obtain b t where b: "wire_encode c f = Inr b" "length b \<le> MAX_STREAM_FRAME"
      "out = to_le_bytes (length b) @ b @ t" "send_all c fs [] = Inr t"
    by (rule send_all_Cons [OF Cons.prems(1)])
  consider "p = []" | "p \<noteq> []" "length p < 4 + length b" | "4 + length b \<le> length p" by linarith
  then show ?case
  proof cases
    case 1
    then show ?thesis
      by (intro exI [of _ 0]) simp
  next
    case 2
    then obtain e where "recv_frame c msg p = Inl (Transport e)"
      using recv_frame_cut [OF b(2)] Cons.prems(3) b(3) by blast
    then show ?thesis by (intro exI [of _ 0]) (simp add: recv_all.simps [of c msg p])
  next
    case 3
    let ?h = "to_le_bytes (length b) @ b"
    have "length ?h \<le> length p" using 3 by simp
    with Cons.prems(3) b(3) have "prefix ?h p"
      using prefix_length_prefix [of ?h out p] by (simp add: prefix_def)
    then obtain p' where p: "p = to_le_bytes (length b) @ b @ p'" by (auto simp: prefix_def)
    with Cons.prems(3) b(3) have "prefix p' t" by simp
    then obtain n where n: "fst (recv_all c msg p') = take n fs"
        "snd (recv_all c msg p') = None \<longrightarrow> send_all c (take n fs) [] = Inr p'"
      using Cons.IH [OF b(4), of p'] Cons.prems(2) by auto
    have "recv_frame c msg p = Inr (Some f, p')"
      using recv_frame_sent [of c f b msg p'] Cons.prems(2) b p by simp
    then have "recv_all c msg p = (f # fst (recv_all c msg p'), snd (recv_all c msg p'))"
      by (simp add: recv_all.simps [of c msg p] split: prod.splits)
    with n send_all_ConsI [OF b(1,2), of "take n fs" p'] p show ?thesis
      by (intro exI [of _ "Suc n"]) auto
  qed
qed

lemma recv_all_sent:
  "send_all c fs [] = Inr out \<Longrightarrow> list_all (codec_law c) fs \<Longrightarrow> recv_all c msg out = (fs, None)"
proof (induction fs arbitrary: out)
  case Nil
  then show ?case by simp
next
  case (Cons f fs)
  obtain b t where b: "wire_encode c f = Inr b" "length b \<le> MAX_STREAM_FRAME"
      "out = to_le_bytes (length b) @ b @ t" "send_all c fs [] = Inr t"
    by (rule send_all_Cons [OF Cons.prems(1)])
  then have "recv_frame c msg out = Inr (Some f, t)"
    using recv_frame_sent [of c f b msg t] Cons.prems(2) by simp
  with Cons.IH [OF b(4)] Cons.prems(2) show ?case by (simp add: recv_all.simps [of c msg out])
qed

section \<open>Properties\<close>

text \<open>A codec for the witness: frames are stored as their payload bytes.\<close>

definition gossip_codec :: "MeshStreamFrame codec" where
  "gossip_codec = \<lparr>pc_to = (\<lambda>f. case f of Gossip b \<Rightarrow> Ok b | _ \<Rightarrow> Err ''unsupported''),
     pc_from = (\<lambda>b. Ok (Gossip b))\<rparr>"

text \<open>
  C12. Frames written to a mesh stream arrive as they were sent: the receiver reads exactly the frames
  the sender wrote, in order, and then the end of the stream. A stream cut at any byte delivers only
  whole frames that were sent, a prefix of them, and ends cleanly only when the cut falls between
  two frames. A frame the sender accepts is never refused by the receiver for its size.
\<close>

theorem mesh_frames_round_trip:
  assumes "list_all (codec_law c) fs" and "send_all c fs [] = Ok out"
  shows "recv_all c msg out = (fs, None)
    \<and> (\<forall>p. prefix p out \<longrightarrow> (\<exists>n. fst (recv_all c msg p) = take n fs
        \<and> (snd (recv_all c msg p) = None \<longrightarrow> send_all c (take n fs) [] = Ok p)))"
  using recv_all_sent recv_all_cut assms by blast

theorem mesh_frames_round_trip_witness:
  "\<exists>out. send_all gossip_codec [Gossip [1, 2], Gossip []] [] = Ok out
     \<and> recv_all gossip_codec (\<lambda>_. ''early'') out = ([Gossip [1, 2], Gossip []], None)
     \<and> length out = 12"
proof -
  let ?fs = "[Gossip [1, 2], Gossip []]"
  have law: "list_all (codec_law gossip_codec) ?fs"
    by (simp add: codec_law_def gossip_codec_def)
  have "send_all gossip_codec ?fs [] = Ok [3, 0, 0, 0, 1, 1, 2, 1, 0, 0, 0, 1]"
    by (simp add: send_frame_def wire_encode_def gossip_codec_def MAX_STREAM_FRAME_def
        to_le_bytes_def WIRE_VERSION_def)
  with mesh_frames_round_trip [OF law this] show ?thesis by (intro exI) auto
qed

end
