(* ===== verification/TunnelDirectory.thy ===== *)
theory TunnelDirectory
  imports MeshWire PairingCrypto
begin

text \<open>
  \<^verbatim>\<open>crates/lenos-relay/src/tunnel/directory.rs\<close>: the fenced session directory.

  The four Lua scripts are translated line by line (\<open>lua_*\<close>) over a record \<open>redis\<close> of the Redis
  commands they call; Redis, the \<open>hex\<close> crate and the display of errors are parameters, and
  \<open>redis_laws\<close>, \<open>runtime_hex\<close> state what the documentation of the first two promises. Redis runs a
  script atomically, so a script is one step. \<open>rd_elapse\<close> lets time pass: keys with a time to live
  disappear. Lua prints numbers of up to fourteen digits exactly; \<open>lua_tostring\<close> is a parameter with
  that law only.

  A call of the directory can fail before the script runs, or after it (the reply is lost): the
  argument \<open>fault\<close>. The outer option of a result is \<open>None\<close> when the code would panic in \<open>expect\<close>.

  \<open>dir_view\<close> abstracts the store of one session to its generation counter and its live lease. The
  operations are shown to refine plain functions on that view, and runs of any number of runtimes are
  shown to be fenced.
\<close>

section \<open>Redis\<close>

record 's redis =
  rd_get :: "'s \<Rightarrow> string \<Rightarrow> string option"
  rd_ttl :: "'s \<Rightarrow> string \<Rightarrow> nat option"
  rd_incr :: "'s \<Rightarrow> string \<Rightarrow> (nat \<times> 's) option"
  rd_set_px :: "'s \<Rightarrow> string \<Rightarrow> string \<Rightarrow> nat \<Rightarrow> 's"
  rd_pexpire :: "'s \<Rightarrow> string \<Rightarrow> nat \<Rightarrow> 's"
  rd_del :: "'s \<Rightarrow> string \<Rightarrow> 's"
  rd_elapse :: "'s \<Rightarrow> nat \<Rightarrow> 's"
  lua_tostring :: "nat \<Rightarrow> string"
  hex_encode :: "bytes \<Rightarrow> string"
  hex_decode :: "string \<Rightarrow> bytes option"

text \<open>What the script invocation of one call does besides running the script.\<close>

datatype fault = NoFault | PoolFault string | RequestLost string | ReplyLost string

datatype DirectoryError =
    Pool string
  | Redis string
  | MalformedLease CommunityId uuid string
  | MalformedGeneration CommunityId uuid string
  | UnexpectedScriptStatus string
  | InvalidLeaseTtl

record SessionLease =
  sl_community_id :: CommunityId
  sl_session_id :: uuid
  sl_owner_runtime_id :: RuntimeId
  sl_generation :: u64
  sl_profile :: Profile

datatype AcquireResult = Acquired SessionLease | Exists SessionLease
datatype RenewResult = Renewed SessionLease | Lost "SessionLease option" "u64 option"
datatype ReleaseResult = Released SessionLease | NotOwner "SessionLease option" "u64 option"

section \<open>Keys and values\<close>

definition lease_key :: "CommunityId \<Rightarrow> uuid \<Rightarrow> string" where
  "lease_key c sid = ''lenos:'' @ c @ '':tunnel:'' @ sid @ '':lease''"

definition generation_key :: "CommunityId \<Rightarrow> uuid \<Rightarrow> string" where
  "generation_key c sid = ''lenos:'' @ c @ '':tunnel:'' @ sid @ '':generation''"

fun as_wire_str :: "Profile \<Rightarrow> string" where
  "as_wire_str ReliableStream = ''reliable-stream''"
| "as_wire_str RealtimeMedia = ''realtime-media''"
| "as_wire_str HuddleControl = ''huddle-control''"

definition profile_from_wire :: "string \<Rightarrow> Profile option" where
  "profile_from_wire s =
     (if s = ''reliable-stream'' then Some ReliableStream
      else if s = ''realtime-media'' then Some RealtimeMedia
      else if s = ''huddle-control'' then Some HuddleControl
      else None)"

definition runtime_from_hex :: "'s redis \<Rightarrow> string \<Rightarrow> RuntimeId option" where
  "runtime_from_hex R s =
     (case hex_decode R s of None \<Rightarrow> None | Some b \<Rightarrow> if length b = 32 then Some b else None)"

text \<open>The parts are taken from \<open>value.split('|')\<close> one by one; the owner is decoded last.\<close>

definition parse_lease ::
  "'s redis \<Rightarrow> CommunityId \<Rightarrow> uuid \<Rightarrow> string \<Rightarrow> (DirectoryError, SessionLease) result" where
  "parse_lease R c sid value =
     (let malformed = Err (MalformedLease c sid value) in
      case split_on CHR ''|'' value of
        owner_hex # generation # profile # rest \<Rightarrow>
          (case parse_u64 generation of
             None \<Rightarrow> malformed
           | Some g \<Rightarrow>
               if g = 0 then malformed
               else (case profile_from_wire profile of
                   None \<Rightarrow> malformed
                 | Some p \<Rightarrow>
                     if rest \<noteq> [] then malformed
                     else (case runtime_from_hex R owner_hex of
                         None \<Rightarrow> malformed
                       | Some owner \<Rightarrow>
                           Ok \<lparr>sl_community_id = c, sl_session_id = sid, sl_owner_runtime_id = owner,
                               sl_generation = g, sl_profile = p\<rparr>)))
      | _ \<Rightarrow> malformed)"

definition parse_optional_lease ::
  "'s redis \<Rightarrow> CommunityId \<Rightarrow> uuid \<Rightarrow> string \<Rightarrow> (DirectoryError, SessionLease option) result" where
  "parse_optional_lease R c sid value =
     (if value = [] then Ok None else map_sum id Some (parse_lease R c sid value))"

definition parse_optional_generation ::
  "CommunityId \<Rightarrow> uuid \<Rightarrow> string \<Rightarrow> (DirectoryError, u64 option) result" where
  "parse_optional_generation c sid value =
     (if value = [] then Ok None
      else (case parse_u64 value of
          None \<Rightarrow> Err (MalformedGeneration c sid value)
        | Some g \<Rightarrow> if g = 0 then Err (MalformedGeneration c sid value) else Ok (Some g)))"

text \<open>\<open>ttl_ms\<close>: milliseconds as a positive \<open>i64\<close>.\<close>

definition ttl_ms :: "int \<Rightarrow> (DirectoryError, nat) result" where
  "ttl_ms ms = (if 0 < ms \<and> ms < 9223372036854775808 then Ok (nat ms) else Err InvalidLeaseTtl)"

section \<open>The scripts\<close>

text \<open>\<open>redis.call('GET', k) or ''\<close>\<close>

definition get_or_empty :: "'s redis \<Rightarrow> 's \<Rightarrow> string \<Rightarrow> string" where
  "get_or_empty R s k = unwrap_or (rd_get R s k) []"

text \<open>A script replies with three strings, or with an error (\<open>None\<close>) when a command fails.\<close>

type_synonym reply = "(string \<times> string \<times> string) option"

definition lua_acquire ::
  "'s redis \<Rightarrow> string \<Rightarrow> string \<Rightarrow> string \<Rightarrow> string \<Rightarrow> nat \<Rightarrow> 's \<Rightarrow> reply \<times> 's" where
  "lua_acquire R lk gk owner profile ttl s =
     (case rd_get R s lk of
        Some current \<Rightarrow> (Some (''exists'', current, get_or_empty R s gk), s)
      | None \<Rightarrow>
          (case rd_incr R s gk of
             None \<Rightarrow> (None, s)
           | Some (generation, s') \<Rightarrow>
               (let value = owner @ ''|'' @ lua_tostring R generation @ ''|'' @ profile
                in (Some (''acquired'', value, lua_tostring R generation), rd_set_px R s' lk value ttl))))"

text \<open>\<open>string.match(current, '^([^|]+)|([^|]+)|([^|]+)$')\<close>\<close>

definition lua_match3 :: "string \<Rightarrow> (string \<times> string \<times> string) option" where
  "lua_match3 v =
     (case split_on CHR ''|'' v of
        [a, b, c] \<Rightarrow> if a \<noteq> [] \<and> b \<noteq> [] \<and> c \<noteq> [] then Some (a, b, c) else None
      | _ \<Rightarrow> None)"

definition lua_renew ::
  "'s redis \<Rightarrow> string \<Rightarrow> string \<Rightarrow> string \<Rightarrow> string \<Rightarrow> nat \<Rightarrow> 's \<Rightarrow> reply \<times> 's" where
  "lua_renew R lk gk owner generation ttl s =
     (case rd_get R s lk of
        None \<Rightarrow> (Some (''missing'', '''', get_or_empty R s gk), s)
      | Some current \<Rightarrow>
          (case lua_match3 current of
             None \<Rightarrow> (Some (''lost'', current, get_or_empty R s gk), s)
           | Some (current_owner, current_generation, _) \<Rightarrow>
               if current_owner = owner \<and> current_generation = generation
               then (let s' = rd_pexpire R s lk ttl
                     in (Some (''renewed'', current, unwrap_or (rd_get R s' gk) current_generation), s'))
               else (Some (''lost'', current, unwrap_or (rd_get R s gk) current_generation), s)))"

definition lua_release ::
  "'s redis \<Rightarrow> string \<Rightarrow> string \<Rightarrow> string \<Rightarrow> string \<Rightarrow> 's \<Rightarrow> reply \<times> 's" where
  "lua_release R lk gk owner generation s =
     (case rd_get R s lk of
        None \<Rightarrow> (Some (''missing'', '''', get_or_empty R s gk), s)
      | Some current \<Rightarrow>
          (case lua_match3 current of
             None \<Rightarrow> (Some (''lost'', current, get_or_empty R s gk), s)
           | Some (current_owner, current_generation, _) \<Rightarrow>
               if current_owner = owner \<and> current_generation = generation
               then (let s' = rd_del R s lk
                     in (Some (''released'', current, unwrap_or (rd_get R s' gk) current_generation), s'))
               else (Some (''lost'', current, unwrap_or (rd_get R s gk) current_generation), s)))"

definition lua_validate :: "'s redis \<Rightarrow> string \<Rightarrow> string \<Rightarrow> 's \<Rightarrow> string \<times> string" where
  "lua_validate R lk gk s = (get_or_empty R s lk, get_or_empty R s gk)"

section \<open>The directory\<close>

text \<open>Run a script under a fault: the store after the call, and the reply if one arrives.\<close>

definition invoke ::
  "fault \<Rightarrow> ('s \<Rightarrow> reply \<times> 's) \<Rightarrow> 's \<Rightarrow> (DirectoryError, string \<times> string \<times> string) result \<times> 's" where
  "invoke f script s =
     (case f of
        PoolFault e \<Rightarrow> (Err (Pool e), s)
      | RequestLost e \<Rightarrow> (Err (Redis e), s)
      | ReplyLost e \<Rightarrow> (Err (Redis e), snd (script s))
      | NoFault \<Rightarrow>
          (case script s of
             (None, s') \<Rightarrow> (Err (Redis ''script error''), s')
           | (Some r, s') \<Rightarrow> (Ok r, s')))"

definition acquire ::
  "'s redis \<Rightarrow> int \<Rightarrow> fault \<Rightarrow> CommunityId \<Rightarrow> uuid \<Rightarrow> RuntimeId \<Rightarrow> Profile \<Rightarrow> 's \<Rightarrow>
   (DirectoryError, AcquireResult) result \<times> 's" where
  "acquire R lease_ttl f c sid owner profile s =
     (case ttl_ms lease_ttl of
        Inl e \<Rightarrow> (Err e, s)
      | Inr ttl \<Rightarrow>
          (case invoke f (lua_acquire R (lease_key c sid) (generation_key c sid)
                   (hex_encode R owner) (as_wire_str profile) ttl) s of
             (Inl e, s') \<Rightarrow> (Err e, s')
           | (Inr (status, value, _), s') \<Rightarrow>
               (case parse_lease R c sid value of
                  Inl e \<Rightarrow> (Err e, s')
                | Inr lease \<Rightarrow>
                    (if status = ''acquired'' then Ok (Acquired lease)
                     else if status = ''exists'' then Ok (Exists lease)
                     else Err (UnexpectedScriptStatus status), s'))))"

definition takeover ::
  "'s redis \<Rightarrow> int \<Rightarrow> fault \<Rightarrow> CommunityId \<Rightarrow> uuid \<Rightarrow> RuntimeId \<Rightarrow> Profile \<Rightarrow> 's \<Rightarrow>
   (DirectoryError, AcquireResult) result \<times> 's" where
  "takeover R lease_ttl f c sid owner profile s = acquire R lease_ttl f c sid owner profile s"

text \<open>The common tail of \<open>renew\<close> and \<open>release\<close>; \<open>None\<close> is the panic of \<open>expect\<close>.\<close>

definition owned_reply ::
  "'s redis \<Rightarrow> SessionLease \<Rightarrow> string \<Rightarrow> (SessionLease \<Rightarrow> 'r) \<Rightarrow>
   (SessionLease option \<Rightarrow> u64 option \<Rightarrow> 'r) \<Rightarrow> string \<times> string \<times> string \<Rightarrow>
   (DirectoryError, 'r) result option" where
  "owned_reply R lease done_status mine other r =
     (case r of (status, value, known_generation) \<Rightarrow>
       (case parse_optional_lease R (sl_community_id lease) (sl_session_id lease) value of
          Inl e \<Rightarrow> Some (Err e)
        | Inr current \<Rightarrow>
            if status = done_status then map_option (\<lambda>l. Ok (mine l)) current
            else if status = ''missing'' \<or> status = ''lost''
            then (case parse_optional_generation (sl_community_id lease) (sl_session_id lease)
                       known_generation of
                Inl e \<Rightarrow> Some (Err e)
              | Inr known \<Rightarrow> Some (Ok (other current known)))
            else Some (Err (UnexpectedScriptStatus status))))"

definition renew ::
  "'s redis \<Rightarrow> int \<Rightarrow> fault \<Rightarrow> SessionLease \<Rightarrow> 's \<Rightarrow>
   (DirectoryError, RenewResult) result option \<times> 's" where
  "renew R lease_ttl f lease s =
     (case ttl_ms lease_ttl of
        Inl e \<Rightarrow> (Some (Err e), s)
      | Inr ttl \<Rightarrow>
          (case invoke f (lua_renew R (lease_key (sl_community_id lease) (sl_session_id lease))
                   (generation_key (sl_community_id lease) (sl_session_id lease))
                   (hex_encode R (sl_owner_runtime_id lease))
                   (nat_to_string (unat (sl_generation lease))) ttl) s of
             (Inl e, s') \<Rightarrow> (Some (Err e), s')
           | (Inr r, s') \<Rightarrow> (owned_reply R lease ''renewed'' Renewed Lost r, s')))"

definition release_lease ::
  "'s redis \<Rightarrow> fault \<Rightarrow> SessionLease \<Rightarrow> 's \<Rightarrow>
   (DirectoryError, ReleaseResult) result option \<times> 's" where
  "release_lease R f lease s =
     (case invoke f (lua_release R (lease_key (sl_community_id lease) (sl_session_id lease))
               (generation_key (sl_community_id lease) (sl_session_id lease))
               (hex_encode R (sl_owner_runtime_id lease))
               (nat_to_string (unat (sl_generation lease)))) s of
        (Inl e, s') \<Rightarrow> (Some (Err e), s')
      | (Inr r, s') \<Rightarrow> (owned_reply R lease ''released'' Released NotOwner r, s'))"

definition lookup_lease ::
  "'s redis \<Rightarrow> CommunityId \<Rightarrow> uuid \<Rightarrow> 's \<Rightarrow> (DirectoryError, SessionLease option) result" where
  "lookup_lease R c sid s =
     (case rd_get R s (lease_key c sid) of
        None \<Rightarrow> Ok None
      | Some v \<Rightarrow> map_sum id Some (parse_lease R c sid v))"

definition known_generation ::
  "'s redis \<Rightarrow> CommunityId \<Rightarrow> uuid \<Rightarrow> 's \<Rightarrow> (DirectoryError, u64 option) result" where
  "known_generation R c sid s =
     (case rd_get R s (generation_key c sid) of
        None \<Rightarrow> Ok None
      | Some v \<Rightarrow> parse_optional_generation c sid v)"

text \<open>\<open>validate_fenced_header\<close>; \<open>show_err\<close> is the display of a directory error.\<close>

definition check_fence ::
  "SessionLease option \<Rightarrow> u64 \<Rightarrow> FencedHeader \<Rightarrow> (MeshError, unit) result" where
  "check_fence current known_from_counter fenced =
     (let known = max (case current of Some l \<Rightarrow> sl_generation l | None \<Rightarrow> known_from_counter)
                      known_from_counter
      in if known > 0 \<and> fh_generation fenced < known
         then Err (StaleGeneration (fh_session_id fenced) (fh_generation fenced) known)
         else (case current of
             None \<Rightarrow> Err (NoActiveLease (fh_session_id fenced) (fh_generation fenced) known
                          (fh_owner_runtime_id fenced))
           | Some l \<Rightarrow>
               if fh_generation fenced \<noteq> sl_generation l
               then Err (FutureGeneration (fh_session_id fenced) (fh_generation fenced) (sl_generation l))
               else if fh_owner_runtime_id fenced \<noteq> sl_owner_runtime_id l
               then Err (OwnerMismatch (fh_session_id fenced) (fh_generation fenced)
                          (fh_owner_runtime_id fenced) (sl_owner_runtime_id l))
               else Ok ()))"

definition validate_fenced_header ::
  "'s redis \<Rightarrow> (DirectoryError \<Rightarrow> string) \<Rightarrow> fault \<Rightarrow> CommunityId \<Rightarrow> FencedHeader \<Rightarrow> 's \<Rightarrow>
   (MeshError, unit) result" where
  "validate_fenced_header R show_err f c fenced s =
     (case f of
        PoolFault e \<Rightarrow> Err (Transport (''redis pool: '' @ e))
      | RequestLost e \<Rightarrow> Err (RedisErr e)
      | ReplyLost e \<Rightarrow> Err (RedisErr e)
      | NoFault \<Rightarrow>
          (case lua_validate R (lease_key c (fh_session_id fenced))
                  (generation_key c (fh_session_id fenced)) s of
             (lease_value, known) \<Rightarrow>
               (case parse_optional_generation c (fh_session_id fenced) known of
                  Inl e \<Rightarrow> Err (Transport (show_err e))
                | Inr known_opt \<Rightarrow>
                    (case parse_optional_lease R c (fh_session_id fenced) lease_value of
                       Inl e \<Rightarrow> Err (Transport (show_err e))
                     | Inr current \<Rightarrow> check_fence current (unwrap_or known_opt 0) fenced))))"

definition fenced_header :: "SessionLease \<Rightarrow> FencedHeader" where
  "fenced_header l = \<lparr>fh_session_id = sl_session_id l, fh_generation = sl_generation l,
     fh_owner_runtime_id = sl_owner_runtime_id l\<rparr>"

section \<open>What the store promises\<close>

definition incr_to :: "'s redis \<Rightarrow> 's \<Rightarrow> string \<Rightarrow> nat \<Rightarrow> 's \<Rightarrow> bool" where
  "incr_to R s k n s' \<longleftrightarrow>
     rd_incr R s k = Some (n, s')
     \<and> (\<forall>k'. rd_get R s' k' = (if k' = k then Some (nat_to_string n) else rd_get R s k'))
     \<and> rd_ttl R s' = rd_ttl R s"

definition redis_laws :: "'s redis \<Rightarrow> bool" where
  "redis_laws R \<longleftrightarrow>
     (\<forall>s k v t k'. rd_get R (rd_set_px R s k v t) k' = (if k' = k then Some v else rd_get R s k'))
     \<and> (\<forall>s k v t k'. rd_ttl R (rd_set_px R s k v t) k' = (if k' = k then Some t else rd_ttl R s k'))
     \<and> (\<forall>s k t k'. rd_get R (rd_pexpire R s k t) k' = rd_get R s k')
     \<and> (\<forall>s k t k'. rd_ttl R (rd_pexpire R s k t) k' =
          (if k' = k \<and> rd_get R s k \<noteq> None then Some t else rd_ttl R s k'))
     \<and> (\<forall>s k k'. rd_get R (rd_del R s k) k' = (if k' = k then None else rd_get R s k'))
     \<and> (\<forall>s k k'. rd_ttl R (rd_del R s k) k' = (if k' = k then None else rd_ttl R s k'))
     \<and> (\<forall>s d k. rd_get R (rd_elapse R s d) k =
          (case rd_ttl R s k of None \<Rightarrow> rd_get R s k | Some t \<Rightarrow> if t \<le> d then None else rd_get R s k))
     \<and> (\<forall>s d k. rd_ttl R (rd_elapse R s d) k =
          (case rd_ttl R s k of None \<Rightarrow> None | Some t \<Rightarrow> if t \<le> d then None else Some (t - d)))
     \<and> (\<forall>s k. rd_get R s k = None \<longrightarrow> (\<exists>s'. incr_to R s k 1 s'))
     \<and> (\<forall>s k n. rd_get R s k = Some (nat_to_string n) \<and> int n < 9223372036854775807 \<longrightarrow>
          (\<exists>s'. incr_to R s k (Suc n) s'))
     \<and> (\<forall>n. int n < 100000000000000 \<longrightarrow> lua_tostring R n = nat_to_string n)"

definition runtime_hex :: "'s redis \<Rightarrow> bool" where
  "runtime_hex R \<longleftrightarrow>
     (\<forall>b. length b = 32 \<longrightarrow> hex_decode R (hex_encode R b) = Some b
        \<and> hex_encode R b \<noteq> [] \<and> CHR ''|'' \<notin> set (hex_encode R b))"

text \<open>The textual form of a UUID has no colon.\<close>

definition uuid_text :: "uuid \<Rightarrow> bool" where
  "uuid_text u \<longleftrightarrow> CHR '':'' \<notin> set u"

lemma redis_get [redis_simps]:
  assumes "redis_laws R"
  shows "rd_get R (rd_set_px R s k v t) k' = (if k' = k then Some v else rd_get R s k')"
    and "rd_ttl R (rd_set_px R s k v t) k' = (if k' = k then Some t else rd_ttl R s k')"
    and "rd_get R (rd_pexpire R s k t) k' = rd_get R s k'"
    and "rd_ttl R (rd_pexpire R s k t) k' =
          (if k' = k \<and> rd_get R s k \<noteq> None then Some t else rd_ttl R s k')"
    and "rd_get R (rd_del R s k) k' = (if k' = k then None else rd_get R s k')"
    and "rd_ttl R (rd_del R s k) k' = (if k' = k then None else rd_ttl R s k')"
    and "rd_get R (rd_elapse R s d) k =
          (case rd_ttl R s k of None \<Rightarrow> rd_get R s k | Some t \<Rightarrow> if t \<le> d then None else rd_get R s k)"
    and "rd_ttl R (rd_elapse R s d) k =
          (case rd_ttl R s k of None \<Rightarrow> None | Some t \<Rightarrow> if t \<le> d then None else Some (t - d))"
  using assms by (simp_all add: redis_laws_def)

lemma redis_incr:
  assumes "redis_laws R" and "rd_get R s k = (if n = 0 then None else Some (nat_to_string n))"
    and "int n < 99999999999999"
  obtains s' where "incr_to R s k (Suc n) s'"
proof (cases "n = 0")
  case True
  with assms have "\<exists>s'. incr_to R s k 1 s'" unfolding redis_laws_def by simp
  with True show thesis by (auto intro: that)
next
  case False
  with assms have "rd_get R s k = Some (nat_to_string n) \<and> int n < 9223372036854775807" by simp
  then have "\<exists>s'. incr_to R s k (Suc n) s'" using assms(1) unfolding redis_laws_def by blast
  then show thesis by (auto intro: that)
qed

lemma redis_tostring [redis_simps]:
  "redis_laws R \<Longrightarrow> int n < 100000000000000 \<Longrightarrow> lua_tostring R n = nat_to_string n"
  unfolding redis_laws_def by blast

lemma runtime_hex_inj:
  "runtime_hex R \<Longrightarrow> length a = 32 \<Longrightarrow> length b = 32 \<Longrightarrow> hex_encode R a = hex_encode R b \<longleftrightarrow> a = b"
  unfolding runtime_hex_def by (metis option.inject)

subsection \<open>Keys\<close>

lemma uuid_split:
  "uuid_text c \<Longrightarrow> uuid_text sid \<Longrightarrow> CHR '':'' \<notin> set t \<Longrightarrow>
   split_on CHR '':'' (''lenos:'' @ c @ '':tunnel:'' @ sid @ '':'' @ t) =
     [''lenos'', c, ''tunnel'', sid, t]"
  by (simp add: uuid_text_def split_on_append split_on_no_sep)

lemma keys_inject [simp]:
  assumes "uuid_text c" "uuid_text sid" "uuid_text c'" "uuid_text sid'"
  shows "lease_key c sid = lease_key c' sid' \<longleftrightarrow> c = c' \<and> sid = sid'"
    and "generation_key c sid = generation_key c' sid' \<longleftrightarrow> c = c' \<and> sid = sid'"
    and "lease_key c sid \<noteq> generation_key c' sid'"
    and "generation_key c' sid' \<noteq> lease_key c sid"
proof -
  have l: "split_on CHR '':'' (lease_key c sid) = [''lenos'', c, ''tunnel'', sid, ''lease'']"
    and g: "split_on CHR '':'' (generation_key c sid) = [''lenos'', c, ''tunnel'', sid, ''generation'']"
    if "uuid_text c" "uuid_text sid" for c sid
    using uuid_split [OF that, of "''lease''"] uuid_split [OF that, of "''generation''"]
    by (simp_all add: lease_key_def generation_key_def)
  note l = l [OF assms(1,2)] l [OF assms(3,4)] and g = g [OF assms(1,2)] g [OF assms(3,4)]
  have inj: "c = c' \<and> sid = sid' \<and> t = t'"
    if "split_on CHR '':'' k = [''lenos'', c, ''tunnel'', sid, t]"
      "split_on CHR '':'' k' = [''lenos'', c', ''tunnel'', sid', t']" "k = k'" for k k' t t'
    using that(1,2) unfolding that(3) by simp
  show "lease_key c sid = lease_key c' sid' \<longleftrightarrow> c = c' \<and> sid = sid'"
    using inj [OF l] by blast
  show "generation_key c sid = generation_key c' sid' \<longleftrightarrow> c = c' \<and> sid = sid'"
    using inj [OF g] by blast
  have "(''lease'' :: string) \<noteq> ''generation''" by simp
  then show "lease_key c sid \<noteq> generation_key c' sid'" "generation_key c' sid' \<noteq> lease_key c sid"
    using inj [OF l(1) g(2)] by metis+
qed

subsection \<open>Values\<close>

definition lease_value :: "'s redis \<Rightarrow> RuntimeId \<Rightarrow> nat \<Rightarrow> Profile \<Rightarrow> string" where
  "lease_value R owner n p = hex_encode R owner @ ''|'' @ nat_to_string n @ ''|'' @ as_wire_str p"

lemma profile_round_trip [wire_simps]: "profile_from_wire (as_wire_str p) = Some p"
  by (cases p) (simp_all add: profile_from_wire_def)

lemma as_wire_str_text: "as_wire_str p \<noteq> []" "CHR ''|'' \<notin> set (as_wire_str p)"
  by (cases p; simp)+

lemma gen_word: "int n < 100000000000000 \<Longrightarrow> unat (of_nat n :: u64) = n"
  by (simp add: unsigned_of_nat take_bit_nat_eq_self)

lemma gen_word_0: "int n < 100000000000000 \<Longrightarrow> (of_nat n :: u64) = 0 \<longleftrightarrow> n = 0"
  using gen_word [of n] by (auto simp: unat_eq_zero [symmetric])

lemma split_lease_value:
  assumes "runtime_hex R" and "length owner = 32"
  shows "split_on CHR ''|'' (lease_value R owner n p) =
    [hex_encode R owner, nat_to_string n, as_wire_str p]"
  using assms by (simp add: lease_value_def runtime_hex_def split_on_append split_on_no_sep
      nat_to_string_sep as_wire_str_text)

lemma lua_match3_value [wire_simps]:
  assumes "runtime_hex R" and "length owner = 32"
  shows "lua_match3 (lease_value R owner n p) = Some (hex_encode R owner, nat_to_string n, as_wire_str p)"
  using assms by (simp add: lua_match3_def split_lease_value as_wire_str_text) (simp add: runtime_hex_def)

lemma parse_lease_value [wire_simps]:
  assumes "runtime_hex R" and "length owner = 32" and "0 < n" and "int n < 100000000000000"
  shows "parse_lease R c sid (lease_value R owner n p) =
    Ok \<lparr>sl_community_id = c, sl_session_id = sid, sl_owner_runtime_id = owner,
        sl_generation = of_nat n, sl_profile = p\<rparr>"
  using assms by (simp add: parse_lease_def Let_def split_lease_value parse_u64_nat_to_string gen_word_0
      profile_round_trip runtime_from_hex_def) (simp add: runtime_hex_def)

lemma lease_value_ne [simp]: "lease_value R owner n p \<noteq> []"
  by (simp add: lease_value_def)

section \<open>The abstract directory of one session\<close>

record session_view =
  sv_generation :: nat
  sv_lease :: "(RuntimeId \<times> Profile \<times> nat) option"

definition spec_acquire :: "nat \<Rightarrow> RuntimeId \<Rightarrow> Profile \<Rightarrow> session_view \<Rightarrow> session_view" where
  "spec_acquire ttl owner p v =
     (if sv_lease v = None
      then \<lparr>sv_generation = Suc (sv_generation v), sv_lease = Some (owner, p, ttl)\<rparr> else v)"

definition spec_owned :: "RuntimeId \<Rightarrow> nat \<Rightarrow> session_view \<Rightarrow> bool" where
  "spec_owned owner g v = (g = sv_generation v \<and> map_option fst (sv_lease v) = Some owner)"

definition spec_renew :: "nat \<Rightarrow> RuntimeId \<Rightarrow> nat \<Rightarrow> session_view \<Rightarrow> session_view" where
  "spec_renew ttl owner g v =
     (if spec_owned owner g v
      then v\<lparr>sv_lease := map_option (\<lambda>(o', p, _). (o', p, ttl)) (sv_lease v)\<rparr> else v)"

definition spec_release :: "RuntimeId \<Rightarrow> nat \<Rightarrow> session_view \<Rightarrow> session_view" where
  "spec_release owner g v = (if spec_owned owner g v then v\<lparr>sv_lease := None\<rparr> else v)"

definition spec_elapse :: "nat \<Rightarrow> session_view \<Rightarrow> session_view" where
  "spec_elapse d v = v\<lparr>sv_lease :=
     (case sv_lease v of
        None \<Rightarrow> None | Some (owner, p, t) \<Rightarrow> if t \<le> d then None else Some (owner, p, t - d))\<rparr>"

definition view_lease :: "CommunityId \<Rightarrow> uuid \<Rightarrow> session_view \<Rightarrow> SessionLease option" where
  "view_lease c sid v = map_option (\<lambda>(owner, p, _).
     \<lparr>sl_community_id = c, sl_session_id = sid, sl_owner_runtime_id = owner,
      sl_generation = of_nat (sv_generation v), sl_profile = p\<rparr>) (sv_lease v)"

definition view_known :: "session_view \<Rightarrow> u64 option" where
  "view_known v = (if sv_generation v = 0 then None else Some (of_nat (sv_generation v)))"

definition dir_rep :: "'s redis \<Rightarrow> 's \<Rightarrow> CommunityId \<Rightarrow> uuid \<Rightarrow> session_view \<Rightarrow> bool" where
  "dir_rep R s c sid v \<longleftrightarrow>
     rd_get R s (generation_key c sid) =
       (if sv_generation v = 0 then None else Some (nat_to_string (sv_generation v)))
     \<and> rd_ttl R s (generation_key c sid) = None
     \<and> (case sv_lease v of
          None \<Rightarrow> rd_get R s (lease_key c sid) = None
        | Some (owner, p, t) \<Rightarrow>
            length owner = 32 \<and> 0 < sv_generation v
            \<and> rd_get R s (lease_key c sid) = Some (lease_value R owner (sv_generation v) p)
            \<and> rd_ttl R s (lease_key c sid) = Some t)"

text \<open>Two stores that agree outside the keys of one session.\<close>

definition same_elsewhere :: "'s redis \<Rightarrow> CommunityId \<Rightarrow> uuid \<Rightarrow> 's \<Rightarrow> 's \<Rightarrow> bool" where
  "same_elsewhere R c sid s s' \<longleftrightarrow>
     (\<forall>k. k \<noteq> lease_key c sid \<and> k \<noteq> generation_key c sid \<longrightarrow>
        rd_get R s' k = rd_get R s k \<and> rd_ttl R s' k = rd_ttl R s k)"

lemma same_elsewhere_refl [simp]: "same_elsewhere R c sid s s"
  by (simp add: same_elsewhere_def)

lemma dir_rep_elsewhere:
  assumes "same_elsewhere R c sid s s'" and "(c', sid') \<noteq> (c, sid)"
    and "uuid_text c" "uuid_text sid" "uuid_text c'" "uuid_text sid'"
  shows "dir_rep R s' c' sid' v = dir_rep R s c' sid' v"
proof -
  have "lease_key c' sid' \<noteq> lease_key c sid" "lease_key c' sid' \<noteq> generation_key c sid"
    "generation_key c' sid' \<noteq> lease_key c sid" "generation_key c' sid' \<noteq> generation_key c sid"
    using assms(2-) keys_inject [of c' sid' c sid] keys_inject [of c sid c' sid'] by auto
  then have eqs: "rd_get R s' (lease_key c' sid') = rd_get R s (lease_key c' sid')"
    "rd_ttl R s' (lease_key c' sid') = rd_ttl R s (lease_key c' sid')"
    "rd_get R s' (generation_key c' sid') = rd_get R s (generation_key c' sid')"
    "rd_ttl R s' (generation_key c' sid') = rd_ttl R s (generation_key c' sid')"
    using assms(1) unfolding same_elsewhere_def by blast+
  show ?thesis unfolding dir_rep_def eqs ..
qed

subsection \<open>Scripts against the view\<close>

lemma lua_acquire_rep:
  assumes "redis_laws R" "runtime_hex R" "uuid_text c" "uuid_text sid"
    and "dir_rep R s c sid v" and "length owner = 32" and "int (sv_generation v) < 99999999999999"
  obtains s' k owner' p' t where
    "lua_acquire R (lease_key c sid) (generation_key c sid) (hex_encode R owner) (as_wire_str p) ttl s =
       (Some (if sv_lease v = None then ''acquired'' else ''exists'',
          lease_value R owner' (sv_generation (spec_acquire ttl owner p v)) p', k), s')"
    and "sv_lease (spec_acquire ttl owner p v) = Some (owner', p', t)" and "length owner' = 32"
    and "dir_rep R s' c sid (spec_acquire ttl owner p v)" and "same_elsewhere R c sid s s'"
proof (cases "sv_lease v")
  case None
  let ?n = "Suc (sv_generation v)" and ?lk = "lease_key c sid" and ?gk = "generation_key c sid"
  obtain s1 where s1: "incr_to R s ?gk ?n s1"
    using redis_incr [OF assms(1), of s ?gk "sv_generation v"] assms(5,7) unfolding dir_rep_def by blast
  have str: "lua_tostring R ?n = nat_to_string ?n"
    using assms(7) by (intro redis_tostring [OF assms(1)]) simp
  let ?s' = "rd_set_px R s1 ?lk (lease_value R owner ?n p) ttl"
  have "dir_rep R ?s' c sid (spec_acquire ttl owner p v)"
    using s1 None assms by (auto simp: dir_rep_def spec_acquire_def incr_to_def redis_simps)
  moreover have "same_elsewhere R c sid s ?s'"
    using s1 by (simp add: same_elsewhere_def incr_to_def redis_get [OF assms(1)])
  ultimately show thesis
    using None s1 assms(5,6) str
    by (intro that [of owner p "lua_tostring R ?n" ?s' ttl])
      (simp_all add: lua_acquire_def dir_rep_def spec_acquire_def incr_to_def lease_value_def Let_def)
next
  case (Some l)
  obtain owner' p' t where l: "l = (owner', p', t)" by (cases l)
  with Some assms(5) show thesis
    by (intro that [of owner' p' "get_or_empty R s (generation_key c sid)" s t])
      (simp_all add: lua_acquire_def dir_rep_def spec_acquire_def)
qed

lemma dir_rep_owned:
  assumes "runtime_hex R" and "dir_rep R s c sid v" and "length owner = 32"
    and "sv_lease v = Some (owner', p, t)"
  shows "hex_encode R owner' = hex_encode R owner \<and> nat_to_string (sv_generation v) = nat_to_string g
    \<longleftrightarrow> spec_owned owner g v"
  using assms runtime_hex_inj [OF assms(1), of owner' owner]
  by (auto simp: dir_rep_def spec_owned_def dest: nat_to_string_inj)

lemma lua_renew_rep:
  assumes "redis_laws R" "runtime_hex R" "uuid_text c" "uuid_text sid"
    and "dir_rep R s c sid v" and "length owner = 32"
  obtains s' where
    "lua_renew R (lease_key c sid) (generation_key c sid) (hex_encode R owner) (nat_to_string g) ttl s =
       (Some (case sv_lease v of
          None \<Rightarrow> (''missing'', [], get_or_empty R s (generation_key c sid))
        | Some (owner', p, t) \<Rightarrow>
            (if spec_owned owner g v then ''renewed'' else ''lost'',
             lease_value R owner' (sv_generation v) p, nat_to_string (sv_generation v))), s')"
    and "dir_rep R s' c sid (spec_renew ttl owner g v)" and "same_elsewhere R c sid s s'"
proof (cases "sv_lease v")
  case None
  with assms(5) show thesis
    by (intro that [of s]) (simp_all add: lua_renew_def dir_rep_def spec_renew_def spec_owned_def)
next
  case (Some l)
  obtain owner' p t where l: "l = (owner', p, t)" by (cases l)
  note own = dir_rep_owned [OF assms(2,5,6) Some [unfolded l], of g]
  let ?s' = "if spec_owned owner g v then rd_pexpire R s (lease_key c sid) ttl else s"
  have "dir_rep R ?s' c sid (spec_renew ttl owner g v)"
    using Some l assms by (simp add: dir_rep_def spec_renew_def redis_simps)
  moreover have "same_elsewhere R c sid s ?s'"
    by (simp add: same_elsewhere_def redis_get [OF assms(1)])
  ultimately show thesis
    using Some l assms own
    by (intro that [of ?s'])
      (auto simp: lua_renew_def dir_rep_def lua_match3_value redis_get [OF assms(1)])
qed

lemma lua_release_rep:
  assumes "redis_laws R" "runtime_hex R" "uuid_text c" "uuid_text sid"
    and "dir_rep R s c sid v" and "length owner = 32"
  obtains s' where
    "lua_release R (lease_key c sid) (generation_key c sid) (hex_encode R owner) (nat_to_string g) s =
       (Some (case sv_lease v of
          None \<Rightarrow> (''missing'', [], get_or_empty R s (generation_key c sid))
        | Some (owner', p, t) \<Rightarrow>
            (if spec_owned owner g v then ''released'' else ''lost'',
             lease_value R owner' (sv_generation v) p, nat_to_string (sv_generation v))), s')"
    and "dir_rep R s' c sid (spec_release owner g v)" and "same_elsewhere R c sid s s'"
proof (cases "sv_lease v")
  case None
  with assms(5) show thesis
    by (intro that [of s]) (simp_all add: lua_release_def dir_rep_def spec_release_def spec_owned_def)
next
  case (Some l)
  obtain owner' p t where l: "l = (owner', p, t)" by (cases l)
  note own = dir_rep_owned [OF assms(2,5,6) Some [unfolded l], of g]
  let ?s' = "if spec_owned owner g v then rd_del R s (lease_key c sid) else s"
  have "dir_rep R ?s' c sid (spec_release owner g v)"
    using Some l assms by (simp add: dir_rep_def spec_release_def redis_simps)
  moreover have "same_elsewhere R c sid s ?s'"
    by (simp add: same_elsewhere_def redis_get [OF assms(1)])
  ultimately show thesis
    using Some l assms own
    by (intro that [of ?s'])
      (auto simp: lua_release_def dir_rep_def lua_match3_value redis_get [OF assms(1)])
qed

lemma elapse_rep:
  assumes "redis_laws R" and "dir_rep R s c sid v"
  shows "dir_rep R (rd_elapse R s d) c sid (spec_elapse d v)"
  using assms(2) unfolding dir_rep_def spec_elapse_def
  by (auto simp: redis_get [OF assms(1)] split: option.splits prod.splits)

subsection \<open>Operations against the view\<close>

lemma view_lease_SomeI:
  "sv_lease v = Some (owner, p, t) \<Longrightarrow> view_lease c sid v =
    Some \<lparr>sl_community_id = c, sl_session_id = sid, sl_owner_runtime_id = owner,
      sl_generation = of_nat (sv_generation v), sl_profile = p\<rparr>"
  by (simp add: view_lease_def)

lemma rep_parse_lease:
  assumes "runtime_hex R" and "dir_rep R s c sid v" and "int (sv_generation v) < 100000000000000"
    and "sv_lease v = Some (owner, p, t)"
  shows "Some (parse_lease R c' sid' (lease_value R owner (sv_generation v) p)) =
    map_option Inr (view_lease c' sid' v)"
  using assms by (simp add: dir_rep_def view_lease_SomeI parse_lease_value)

lemma rep_known:
  assumes "dir_rep R s c sid v" and "int (sv_generation v) < 100000000000000"
  shows "parse_optional_generation c' sid' (get_or_empty R s (generation_key c sid)) = Inr (view_known v)"
    and "0 < sv_generation v \<Longrightarrow>
      parse_optional_generation c' sid' (nat_to_string (sv_generation v)) = Inr (view_known v)"
  using assms by (simp_all add: dir_rep_def parse_optional_generation_def view_known_def get_or_empty_def
      parse_u64_nat_to_string gen_word_0)

lemma rep_current:
  assumes "runtime_hex R" and "dir_rep R s c sid v" and "int (sv_generation v) < 100000000000000"
  shows "parse_optional_lease R c' sid' (get_or_empty R s (lease_key c sid)) = Inr (view_lease c' sid' v)"
proof (cases "sv_lease v")
  case None
  with assms(2) show ?thesis
    by (simp add: dir_rep_def parse_optional_lease_def get_or_empty_def view_lease_def)
next
  case (Some l)
  obtain owner p t where "l = (owner, p, t)" by (cases l)
  with Some assms show ?thesis
    by (simp add: dir_rep_def parse_optional_lease_def get_or_empty_def parse_lease_value view_lease_SomeI)
qed

lemma acquire_rep:
  assumes "redis_laws R" "runtime_hex R" "uuid_text c" "uuid_text sid"
    and "dir_rep R s c sid v" and "length owner = 32" and "int (sv_generation v) < 99999999999999"
    and "ttl_ms ms = Inr ttl"
  shows "\<exists>s'. acquire R ms NoFault c sid owner p s =
      (Ok ((if sv_lease v = None then Acquired else Exists)
         (the (view_lease c sid (spec_acquire ttl owner p v)))), s')
    \<and> dir_rep R s' c sid (spec_acquire ttl owner p v) \<and> same_elsewhere R c sid s s'"
proof -
  let ?v = "spec_acquire ttl owner p v"
  have "int (sv_generation ?v) < 100000000000000" using assms(7) by (simp add: spec_acquire_def)
  moreover obtain s' k owner' p' t where r:
    "lua_acquire R (lease_key c sid) (generation_key c sid) (hex_encode R owner) (as_wire_str p) ttl s =
       (Some (if sv_lease v = None then ''acquired'' else ''exists'',
          lease_value R owner' (sv_generation ?v) p', k), s')"
    "sv_lease ?v = Some (owner', p', t)" "dir_rep R s' c sid ?v" "same_elsewhere R c sid s s'"
    by (rule lua_acquire_rep [OF assms(1-7)])
  moreover have "0 < sv_generation ?v" "length owner' = 32" using r(2,3) by (simp_all add: dir_rep_def)
  ultimately show ?thesis
    using assms(2,8) by (simp add: acquire_def invoke_def parse_lease_value view_lease_SomeI)
qed

lemma owned_reply_rep:
  assumes "runtime_hex R" "dir_rep R s (sl_community_id l) (sl_session_id l) v"
    and "int (sv_generation v) < 100000000000000"
    and "done_status \<noteq> ''missing''" "done_status \<noteq> ''lost''" and "owned \<longrightarrow> sv_lease v \<noteq> None"
  shows "owned_reply R l done_status mine other
      (case sv_lease v of
         None \<Rightarrow> (''missing'', [], get_or_empty R s (generation_key (sl_community_id l) (sl_session_id l)))
       | Some (owner, p, t) \<Rightarrow> (if owned then done_status else ''lost'',
           lease_value R owner (sv_generation v) p, nat_to_string (sv_generation v))) =
    Some (Ok (if owned then mine (the (view_lease (sl_community_id l) (sl_session_id l) v))
              else other (view_lease (sl_community_id l) (sl_session_id l) v) (view_known v)))"
proof (cases "sv_lease v")
  case None
  with assms rep_known(1) [OF assms(2,3)] show ?thesis
    by (simp add: owned_reply_def parse_optional_lease_def view_lease_def)
next
  case (Some x)
  obtain owner p t where x: "x = (owner, p, t)" by (cases x)
  have "length owner = 32" "0 < sv_generation v" using Some x assms(2) by (simp_all add: dir_rep_def)
  with assms(1,3-5) Some x rep_known(2) [OF assms(2,3)] show ?thesis
    by (simp add: owned_reply_def parse_optional_lease_def parse_lease_value view_lease_SomeI)
qed

lemma spec_owned_lease: "spec_owned owner g v \<Longrightarrow> sv_lease v \<noteq> None"
  by (auto simp: spec_owned_def)

lemma renew_rep:
  assumes "redis_laws R" "runtime_hex R" "uuid_text c" "uuid_text sid"
    and "dir_rep R s c sid v" and "length owner = 32" and "int (sv_generation v) < 100000000000000"
    and "ttl_ms ms = Inr ttl"
    and l: "sl_community_id l = c" "sl_session_id l = sid" "sl_owner_runtime_id l = owner"
      "unat (sl_generation l) = g"
  shows "\<exists>s'. renew R ms NoFault l s =
      (Some (Ok (if spec_owned owner g v then Renewed (the (view_lease c sid v))
                 else Lost (view_lease c sid v) (view_known v))), s')
    \<and> dir_rep R s' c sid (spec_renew ttl owner g v) \<and> same_elsewhere R c sid s s'"
proof -
  have "dir_rep R s (sl_community_id l) (sl_session_id l) v" using assms(5) l by simp
  then have reply: "owned_reply R l ''renewed'' Renewed Lost
      (case sv_lease v of
         None \<Rightarrow> (''missing'', [], get_or_empty R s (generation_key c sid))
       | Some (owner', p, t) \<Rightarrow> (if spec_owned owner g v then ''renewed'' else ''lost'',
           lease_value R owner' (sv_generation v) p, nat_to_string (sv_generation v))) =
    Some (Ok (if spec_owned owner g v then Renewed (the (view_lease c sid v))
              else Lost (view_lease c sid v) (view_known v)))"
    using owned_reply_rep [of R s l v "''renewed''" "spec_owned owner g v" Renewed Lost] assms(2,7)
      spec_owned_lease [of owner g v] unfolding l by blast
  obtain s' where "lua_renew R (lease_key c sid) (generation_key c sid) (hex_encode R owner) (nat_to_string g) ttl s =
       (Some (case sv_lease v of
          None \<Rightarrow> (''missing'', [], get_or_empty R s (generation_key c sid))
        | Some (owner', p, t) \<Rightarrow>
            (if spec_owned owner g v then ''renewed'' else ''lost'',
             lease_value R owner' (sv_generation v) p, nat_to_string (sv_generation v))), s')"
      "dir_rep R s' c sid (spec_renew ttl owner g v)" "same_elsewhere R c sid s s'"
    by (rule lua_renew_rep [OF assms(1-6)])
  with assms(8) show ?thesis
    by (intro exI [of _ s']) (simp add: renew_def invoke_def reply l split del: if_split)
qed

lemma release_rep:
  assumes "redis_laws R" "runtime_hex R" "uuid_text c" "uuid_text sid"
    and "dir_rep R s c sid v" and "length owner = 32" and "int (sv_generation v) < 100000000000000"
    and l: "sl_community_id l = c" "sl_session_id l = sid" "sl_owner_runtime_id l = owner"
      "unat (sl_generation l) = g"
  shows "\<exists>s'. release_lease R NoFault l s =
      (Some (Ok (if spec_owned owner g v then Released (the (view_lease c sid v))
                 else NotOwner (view_lease c sid v) (view_known v))), s')
    \<and> dir_rep R s' c sid (spec_release owner g v) \<and> same_elsewhere R c sid s s'"
proof -
  have "dir_rep R s (sl_community_id l) (sl_session_id l) v" using assms(5) l by simp
  then have reply: "owned_reply R l ''released'' Released NotOwner
      (case sv_lease v of
         None \<Rightarrow> (''missing'', [], get_or_empty R s (generation_key c sid))
       | Some (owner', p, t) \<Rightarrow> (if spec_owned owner g v then ''released'' else ''lost'',
           lease_value R owner' (sv_generation v) p, nat_to_string (sv_generation v))) =
    Some (Ok (if spec_owned owner g v then Released (the (view_lease c sid v))
              else NotOwner (view_lease c sid v) (view_known v)))"
    using owned_reply_rep [of R s l v "''released''" "spec_owned owner g v" Released NotOwner] assms(2,7)
      spec_owned_lease [of owner g v] unfolding l by blast
  obtain s' where "lua_release R (lease_key c sid) (generation_key c sid) (hex_encode R owner) (nat_to_string g) s =
       (Some (case sv_lease v of
          None \<Rightarrow> (''missing'', [], get_or_empty R s (generation_key c sid))
        | Some (owner', p, t) \<Rightarrow>
            (if spec_owned owner g v then ''released'' else ''lost'',
             lease_value R owner' (sv_generation v) p, nat_to_string (sv_generation v))), s')"
      "dir_rep R s' c sid (spec_release owner g v)" "same_elsewhere R c sid s s'"
    by (rule lua_release_rep [OF assms(1-6)])
  then show ?thesis
    by (intro exI [of _ s']) (simp add: release_lease_def invoke_def reply l split del: if_split)
qed

lemma lookup_rep:
  assumes "runtime_hex R" and "dir_rep R s c sid v" and "int (sv_generation v) < 100000000000000"
  shows "lookup_lease R c sid s = Inr (view_lease c sid v)"
    and "known_generation R c sid s = Inr (view_known v)"
proof -
  show "known_generation R c sid s = Inr (view_known v)"
    using rep_known(1) [OF assms(2,3), of c sid]
    by (auto simp: known_generation_def get_or_empty_def parse_optional_generation_def split: option.splits)
  show "lookup_lease R c sid s = Inr (view_lease c sid v)"
  proof (cases "rd_get R s (lease_key c sid)")
    case None
    then show ?thesis
      using rep_current [OF assms, of c sid] by (simp add: lookup_lease_def get_or_empty_def parse_optional_lease_def)
  next
    case (Some x)
    moreover have "x \<noteq> []" using Some assms(2) by (auto simp: dir_rep_def split: option.splits)
    ultimately show ?thesis
      using rep_current [OF assms, of c sid] by (simp add: lookup_lease_def get_or_empty_def parse_optional_lease_def)
  qed
qed

lemma validate_rep:
  assumes "runtime_hex R" and "dir_rep R s c sid v" and "int (sv_generation v) < 100000000000000"
    and "fh_session_id fh = sid"
  shows "validate_fenced_header R show_err NoFault c fh s =
    check_fence (view_lease c sid v) (of_nat (sv_generation v)) fh"
proof -
  have "unwrap_or (view_known v) 0 = of_nat (sv_generation v)" by (simp add: view_known_def)
  then show ?thesis
    using rep_known(1) [OF assms(2,3), of c sid] rep_current [OF assms(1-3), of c sid] assms(4)
    by (simp add: validate_fenced_header_def lua_validate_def)
qed

text \<open>The decision on a view, with generations as numbers.\<close>

lemma check_fence_view:
  assumes "int (sv_generation v) < 100000000000000" and "fh_session_id fh = sid"
  shows "check_fence (view_lease c sid v) (of_nat (sv_generation v)) fh =
    (if unat (fh_generation fh) < sv_generation v
     then Err (StaleGeneration sid (fh_generation fh) (of_nat (sv_generation v)))
     else (case sv_lease v of
         None \<Rightarrow> Err (NoActiveLease sid (fh_generation fh) (of_nat (sv_generation v)) (fh_owner_runtime_id fh))
       | Some (owner, p, t) \<Rightarrow>
           if unat (fh_generation fh) \<noteq> sv_generation v
           then Err (FutureGeneration sid (fh_generation fh) (of_nat (sv_generation v)))
           else if fh_owner_runtime_id fh \<noteq> owner
           then Err (OwnerMismatch sid (fh_generation fh) (fh_owner_runtime_id fh) owner)
           else Ok ()))"
proof -
  have "fh_generation fh < of_nat (sv_generation v) \<longleftrightarrow> unat (fh_generation fh) < sv_generation v"
    using gen_word [OF assms(1)] by (simp add: word_less_nat_alt)
  moreover have "fh_generation fh = of_nat (sv_generation v) \<longleftrightarrow> unat (fh_generation fh) = sv_generation v"
    using gen_word [OF assms(1)] by (simp add: word_unat_eq_iff)
  moreover have "unat (fh_generation fh) < sv_generation v \<Longrightarrow> (0 :: u64) < of_nat (sv_generation v)"
    using gen_word_0 [OF assms(1)] by (simp add: word_neq_0_conv [symmetric])
  ultimately show ?thesis
    using assms(2) by (auto simp: check_fence_def view_lease_def Let_def split: option.splits)
qed

lemma validate_accepts:
  assumes "runtime_hex R" "dir_rep R s c sid v" "int (sv_generation v) < 100000000000000"
    and "fh_session_id fh = sid" and "validate_fenced_header R show_err f c fh s = Inr ()"
  shows "f = NoFault \<and> map_option fenced_header (view_lease c sid v) = Some fh"
proof -
  have f: "f = NoFault" using assms(5) by (auto simp: validate_fenced_header_def split: fault.splits)
  with assms(5) obtain owner p t where v: "sv_lease v = Some (owner, p, t)"
      "unat (fh_generation fh) = sv_generation v" "fh_owner_runtime_id fh = owner"
    using validate_rep [OF assms(1-4)] check_fence_view [OF assms(3,4), of c]
    by (auto split: if_splits option.splits)
  then have "fh_generation fh = of_nat (sv_generation v)"
    using gen_word [OF assms(3)] by (simp add: word_unat_eq_iff)
  with f v assms(4) show ?thesis by (simp add: view_lease_SomeI fenced_header_def)
qed

section \<open>Runs\<close>

text \<open>
  Any number of runtimes call the directory, in any order, with any faults, and time passes. The log
  holds the leases the callers were told they acquired.
\<close>

datatype DirOp =
    OpAcquire int fault CommunityId uuid RuntimeId Profile
  | OpRenew int fault SessionLease
  | OpRelease fault SessionLease
  | OpElapse nat

fun dir_step :: "'s redis \<Rightarrow> 's \<times> SessionLease list \<Rightarrow> DirOp \<Rightarrow> 's \<times> SessionLease list" where
  "dir_step R (s, log) (OpAcquire ms f c sid owner p) =
     (case acquire R ms f c sid owner p s of
        (Inr (Acquired l), s') \<Rightarrow> (s', log @ [l])
      | (_, s') \<Rightarrow> (s', log))"
| "dir_step R (s, log) (OpRenew ms f l) = (snd (renew R ms f l s), log)"
| "dir_step R (s, log) (OpRelease f l) = (snd (release_lease R f l s), log)"
| "dir_step R (s, log) (OpElapse d) = (rd_elapse R s d, log)"

fun op_ok :: "DirOp \<Rightarrow> bool" where
  "op_ok (OpAcquire _ _ c sid owner _) = (uuid_text c \<and> uuid_text sid \<and> length owner = 32)"
| "op_ok (OpRenew _ _ l) =
     (uuid_text (sl_community_id l) \<and> uuid_text (sl_session_id l) \<and> length (sl_owner_runtime_id l) = 32)"
| "op_ok (OpRelease _ l) =
     (uuid_text (sl_community_id l) \<and> uuid_text (sl_session_id l) \<and> length (sl_owner_runtime_id l) = 32)"
| "op_ok (OpElapse _) = True"

definition session_leases :: "CommunityId \<Rightarrow> uuid \<Rightarrow> SessionLease list \<Rightarrow> SessionLease list" where
  "session_leases c sid log = filter (\<lambda>l. sl_community_id l = c \<and> sl_session_id l = sid) log"

text \<open>Time only moves a view forward: the generation grows, or the owner can only disappear.\<close>

definition view_later :: "session_view \<Rightarrow> session_view \<Rightarrow> bool" where
  "view_later v v' \<longleftrightarrow>
     sv_generation v < sv_generation v'
     \<or> sv_generation v = sv_generation v'
        \<and> (\<forall>owner. map_option fst (sv_lease v') = Some owner \<longrightarrow> map_option fst (sv_lease v) = Some owner)"

lemma view_later_specs [simp, intro]:
  "view_later v v" "view_later v (spec_acquire ttl owner p v)" "view_later v (spec_renew ttl owner g v)"
  "view_later v (spec_release owner g v)" "view_later v (spec_elapse d v)"
  by (auto simp: view_later_def spec_acquire_def spec_renew_def spec_release_def spec_elapse_def
      split: option.splits)

definition fenced_log :: "session_view \<Rightarrow> SessionLease list \<Rightarrow> bool" where
  "fenced_log v ls \<longleftrightarrow>
     sorted_wrt (\<lambda>a b. sl_generation a < sl_generation b) ls
     \<and> (\<forall>l \<in> set ls. unat (sl_generation l) \<le> sv_generation v
          \<and> (unat (sl_generation l) = sv_generation v \<longrightarrow>
              (\<forall>owner. map_option fst (sv_lease v) = Some owner \<longrightarrow> sl_owner_runtime_id l = owner)))"

lemma fenced_log_later: "fenced_log v ls \<Longrightarrow> view_later v v' \<Longrightarrow> fenced_log v' ls"
  unfolding fenced_log_def view_later_def by force

lemma fenced_log_acquired:
  assumes "fenced_log v ls" and "int (sv_generation v) < 99999999999999" and "sv_lease v = None"
    and "view_lease c sid (spec_acquire ttl owner p v) = Some l"
  shows "fenced_log (spec_acquire ttl owner p v) (ls @ [l])"
proof -
  have g: "unat (sl_generation l) = Suc (sv_generation v)" "sl_owner_runtime_id l = owner"
    using assms(2-) gen_word [of "Suc (sv_generation v)"]
    by (auto simp: view_lease_def spec_acquire_def simp del: of_nat_Suc)
  have "sl_generation a < sl_generation l" if "a \<in> set ls" for a
    using assms(1) that g(1) unfolding fenced_log_def word_less_nat_alt by fastforce
  with assms(1,3) g show ?thesis
    unfolding fenced_log_def by (auto simp: sorted_wrt_append spec_acquire_def)
qed

subsection \<open>One step\<close>

text \<open>A call changes the store as its script does, or not at all.\<close>

lemma invoke_state: "snd (invoke f script s) \<in> {s, snd (script s)}"
  by (auto simp: invoke_def split: fault.splits prod.splits option.splits)

lemma acquire_state:
  "snd (acquire R ms f c sid owner p s) = s \<or>
   (\<exists>ttl. ttl_ms ms = Inr ttl \<and> snd (acquire R ms f c sid owner p s) =
     snd (lua_acquire R (lease_key c sid) (generation_key c sid) (hex_encode R owner) (as_wire_str p) ttl s))"
proof (cases "ttl_ms ms")
  case (Inr ttl)
  let ?script = "lua_acquire R (lease_key c sid) (generation_key c sid) (hex_encode R owner) (as_wire_str p) ttl"
  have "snd (acquire R ms f c sid owner p s) = snd (invoke f ?script s)"
    using Inr by (auto simp: acquire_def split: prod.splits sum.splits)
  with Inr invoke_state [of f ?script s] show ?thesis by auto
qed (simp add: acquire_def)

lemma acquire_told:
  assumes "acquire R ms f c sid owner p s = (Inr (Acquired l), s')"
  shows "f = NoFault \<and> (\<exists>ttl. ttl_ms ms = Inr ttl)"
  using assms by (auto simp: acquire_def invoke_def split: sum.splits fault.splits)

lemma renew_state:
  "snd (renew R ms f l s) = s \<or>
   (\<exists>ttl. snd (renew R ms f l s) =
     snd (lua_renew R (lease_key (sl_community_id l) (sl_session_id l))
       (generation_key (sl_community_id l) (sl_session_id l)) (hex_encode R (sl_owner_runtime_id l))
       (nat_to_string (unat (sl_generation l))) ttl s))"
proof (cases "ttl_ms ms")
  case (Inr ttl)
  let ?script = "lua_renew R (lease_key (sl_community_id l) (sl_session_id l))
       (generation_key (sl_community_id l) (sl_session_id l)) (hex_encode R (sl_owner_runtime_id l))
       (nat_to_string (unat (sl_generation l))) ttl"
  have "snd (renew R ms f l s) = snd (invoke f ?script s)"
    using Inr by (auto simp: renew_def split: prod.splits sum.splits)
  with invoke_state [of f ?script s] show ?thesis by auto
qed (simp add: renew_def)

lemma release_state:
  "snd (release_lease R f l s) = s \<or>
   snd (release_lease R f l s) =
     snd (lua_release R (lease_key (sl_community_id l) (sl_session_id l))
       (generation_key (sl_community_id l) (sl_session_id l)) (hex_encode R (sl_owner_runtime_id l))
       (nat_to_string (unat (sl_generation l))) s)"
proof -
  let ?script = "lua_release R (lease_key (sl_community_id l) (sl_session_id l))
       (generation_key (sl_community_id l) (sl_session_id l)) (hex_encode R (sl_owner_runtime_id l))
       (nat_to_string (unat (sl_generation l)))"
  have "snd (release_lease R f l s) = snd (invoke f ?script s)"
    by (auto simp: release_lease_def split: prod.splits sum.splits)
  with invoke_state [of f ?script s] show ?thesis by auto
qed

text \<open>The session an operation addresses, if any.\<close>

fun op_session :: "DirOp \<Rightarrow> (CommunityId \<times> uuid) option" where
  "op_session (OpAcquire _ _ c sid _ _) = Some (c, sid)"
| "op_session (OpRenew _ _ l) = Some (sl_community_id l, sl_session_id l)"
| "op_session (OpRelease _ l) = Some (sl_community_id l, sl_session_id l)"
| "op_session (OpElapse _) = None"

lemma acquired_session:
  "acquire R ms f c sid owner p s = (Inr (Acquired l), s') \<Longrightarrow>
   sl_community_id l = c \<and> sl_session_id l = sid"
  by (auto simp: acquire_def parse_lease_def Let_def split: sum.splits prod.splits list.splits option.splits if_splits)

text \<open>What the scripts leave in the store.\<close>

lemma lua_acquire_snd:
  assumes "redis_laws R" "runtime_hex R" "uuid_text c" "uuid_text sid"
    and "dir_rep R s c sid v" and "length owner = 32" and "int (sv_generation v) < 99999999999999"
    and "s' = snd (lua_acquire R (lease_key c sid) (generation_key c sid) (hex_encode R owner)
      (as_wire_str p) ttl s)"
  shows "dir_rep R s' c sid (spec_acquire ttl owner p v)" and "same_elsewhere R c sid s s'"
  by (rule lua_acquire_rep [OF assms(1-7), of p ttl], simp add: assms(8))+

lemma lua_renew_snd:
  assumes "redis_laws R" "runtime_hex R" "uuid_text c" "uuid_text sid"
    and "dir_rep R s c sid v" and "length owner = 32"
    and "s' = snd (lua_renew R (lease_key c sid) (generation_key c sid) (hex_encode R owner)
      (nat_to_string g) ttl s)"
  shows "dir_rep R s' c sid (spec_renew ttl owner g v)" and "same_elsewhere R c sid s s'"
  by (rule lua_renew_rep [OF assms(1-6), of g ttl], simp add: assms(7))+

lemma lua_release_snd:
  assumes "redis_laws R" "runtime_hex R" "uuid_text c" "uuid_text sid"
    and "dir_rep R s c sid v" and "length owner = 32"
    and "s' = snd (lua_release R (lease_key c sid) (generation_key c sid) (hex_encode R owner)
      (nat_to_string g) s)"
  shows "dir_rep R s' c sid (spec_release owner g v)" and "same_elsewhere R c sid s s'"
  by (rule lua_release_rep [OF assms(1-6), of g], simp add: assms(7))+

definition run_inv :: "'s redis \<Rightarrow> nat \<Rightarrow> 's \<times> SessionLease list \<Rightarrow> bool" where
  "run_inv R k st \<longleftrightarrow>
     (\<forall>c sid. uuid_text c \<and> uuid_text sid \<longrightarrow>
        (\<exists>v. dir_rep R (fst st) c sid v \<and> sv_generation v \<le> k
           \<and> fenced_log v (session_leases c sid (snd st))))"

lemma run_invE:
  assumes "run_inv R k (s, log)" and "uuid_text c" and "uuid_text sid"
  obtains v where "dir_rep R s c sid v" and "sv_generation v \<le> k"
    and "fenced_log v (session_leases c sid log)"
  using assms unfolding run_inv_def by auto

text \<open>To keep the invariant it is enough to look at the session that was addressed.\<close>

lemma run_inv_update:
  assumes "run_inv R k (s, log)" and "uuid_text c" "uuid_text sid"
    and "same_elsewhere R c sid s s'" and "dir_rep R s' c sid v'" and "sv_generation v' \<le> Suc k"
    and "fenced_log v' (session_leases c sid log')"
    and "\<And>c' sid'. (c', sid') \<noteq> (c, sid) \<Longrightarrow> session_leases c' sid' log' = session_leases c' sid' log"
  shows "run_inv R (Suc k) (s', log')"
  unfolding run_inv_def
proof (intro allI impI)
  fix c' sid' assume u: "uuid_text c' \<and> uuid_text sid'"
  show "\<exists>v. dir_rep R (fst (s', log')) c' sid' v \<and> sv_generation v \<le> Suc k
      \<and> fenced_log v (session_leases c' sid' (snd (s', log')))"
  proof (cases "(c', sid') = (c, sid)")
    case True
    with assms(5-7) show ?thesis by auto
  next
    case False
    obtain v where "dir_rep R s c' sid' v" "sv_generation v \<le> k" "fenced_log v (session_leases c' sid' log)"
      using run_invE [OF assms(1)] u by blast
    with False assms(8) dir_rep_elsewhere [OF assms(4) False assms(2,3)] u show ?thesis by auto
  qed
qed

lemma run_inv_mono: "run_inv R k st \<Longrightarrow> k \<le> k' \<Longrightarrow> run_inv R k' st"
  unfolding run_inv_def by (meson le_trans)

text \<open>A step that leaves the log alone and moves the addressed view forward.\<close>

lemma run_inv_later:
  assumes "run_inv R k (s, log)" and "uuid_text c" "uuid_text sid"
    and "same_elsewhere R c sid s s'" and "dir_rep R s' c sid v'" and "view_later v v'"
    and "sv_generation v' \<le> Suc k" and "fenced_log v (session_leases c sid log)"
  shows "run_inv R (Suc k) (s', log)"
  using run_inv_update [OF assms(1-5,7)] fenced_log_later [OF assms(8,6)] by blast

lemma spec_generation [simp]:
  "sv_generation (spec_acquire ttl owner p v) \<le> Suc (sv_generation v)"
  "sv_generation (spec_renew ttl owner g v) = sv_generation v"
  "sv_generation (spec_release owner g v) = sv_generation v"
  "sv_generation (spec_elapse d v) = sv_generation v"
  by (simp_all add: spec_acquire_def spec_renew_def spec_release_def spec_elapse_def)

lemma acquire_keeps_inv:
  assumes "redis_laws R" "runtime_hex R" "uuid_text c" "uuid_text sid"
    and "run_inv R k (s, log)" and "length owner = 32" and "int k < 99999999999999"
  shows "run_inv R (Suc k) (dir_step R (s, log) (OpAcquire ms f c sid owner p))"
proof -
  obtain v where v: "dir_rep R s c sid v" "sv_generation v \<le> k"
      "fenced_log v (session_leases c sid log)"
    by (rule run_invE [OF assms(5,3,4)])
  then have bound: "int (sv_generation v) < 99999999999999" using assms(7) by simp
  show ?thesis
  proof (cases "\<exists>l. fst (acquire R ms f c sid owner p s) = Inr (Acquired l)")
    case True
    then obtain l s' where a: "acquire R ms f c sid owner p s = (Inr (Acquired l), s')"
      by (metis prod.collapse)
    obtain ttl where t: "f = NoFault" "ttl_ms ms = Inr ttl" using acquire_told [OF a] by blast
    let ?v = "spec_acquire ttl owner p v"
    from acquire_rep [OF assms(1-4) v(1) assms(6) bound t(2), of p] a t(1)
    have r: "sv_lease v = None" "l = the (view_lease c sid ?v)" "dir_rep R s' c sid ?v"
        "same_elsewhere R c sid s s'" by (auto split: if_splits)
    then have "view_lease c sid ?v = Some l" by (simp add: view_lease_def spec_acquire_def)
    from fenced_log_acquired [OF v(3) bound r(1) this]
    have "fenced_log ?v (session_leases c sid (log @ [l]))"
      using acquired_session [OF a] by (simp add: session_leases_def)
    moreover have "session_leases c' sid' (log @ [l]) = session_leases c' sid' log"
      if "(c', sid') \<noteq> (c, sid)" for c' sid'
      using acquired_session [OF a] that by (auto simp: session_leases_def)
    moreover have "sv_generation ?v \<le> Suc k" using v(2) by (simp add: spec_acquire_def)
    ultimately have "run_inv R (Suc k) (s', log @ [l])"
      using run_inv_update [OF assms(5,3,4) r(4,3)] by blast
    with a show ?thesis by simp
  next
    case False
    then have step: "dir_step R (s, log) (OpAcquire ms f c sid owner p) =
        (snd (acquire R ms f c sid owner p s), log)"
      by (auto split: prod.splits sum.splits AcquireResult.splits)
    show ?thesis
    proof (cases "snd (acquire R ms f c sid owner p s) = s")
      case True
      with step run_inv_mono [OF assms(5)] show ?thesis by simp
    next
      case False
      then obtain ttl where s': "snd (acquire R ms f c sid owner p s) =
          snd (lua_acquire R (lease_key c sid) (generation_key c sid) (hex_encode R owner) (as_wire_str p) ttl s)"
        using acquire_state [of R ms f c sid owner p s] by (elim disjE exE conjE) blast+
      note rep = lua_acquire_snd [OF assms(1-4) v(1) assms(6) bound s']
      have "sv_generation (spec_acquire ttl owner p v) \<le> Suc k"
        using v(2) by (simp add: spec_acquire_def)
      then show ?thesis
        unfolding step by (rule run_inv_later [OF assms(5,3,4) rep(2,1) view_later_specs(2) _ v(3)])
    qed
  qed
qed

lemma renew_keeps_inv:
  assumes "redis_laws R" "runtime_hex R" "op_ok (OpRenew ms f l)" and "run_inv R k (s, log)"
  shows "run_inv R (Suc k) (dir_step R (s, log) (OpRenew ms f l))"
proof (cases "snd (renew R ms f l s) = s")
  case True
  with run_inv_mono [OF assms(4)] show ?thesis by simp
next
  case False
  let ?c = "sl_community_id l" and ?sid = "sl_session_id l" and ?g = "unat (sl_generation l)"
  have u: "uuid_text ?c" "uuid_text ?sid" "length (sl_owner_runtime_id l) = 32" using assms(3) by simp_all
  obtain v where v: "dir_rep R s ?c ?sid v" "sv_generation v \<le> k" "fenced_log v (session_leases ?c ?sid log)"
    by (rule run_invE [OF assms(4) u(1,2)])
  obtain ttl where s': "snd (renew R ms f l s) =
      snd (lua_renew R (lease_key ?c ?sid) (generation_key ?c ?sid) (hex_encode R (sl_owner_runtime_id l))
        (nat_to_string ?g) ttl s)"
    using renew_state [of R ms f l s] False by (elim disjE exE) blast+
  note rep = lua_renew_snd [OF assms(1,2) u(1,2) v(1) u(3) s']
  show ?thesis
    unfolding dir_step.simps
    by (rule run_inv_later [OF assms(4) u(1,2) rep(2,1) view_later_specs(3) _ v(3)]) (use v(2) in simp)
qed

lemma release_keeps_inv:
  assumes "redis_laws R" "runtime_hex R" "op_ok (OpRelease f l)" and "run_inv R k (s, log)"
  shows "run_inv R (Suc k) (dir_step R (s, log) (OpRelease f l))"
proof (cases "snd (release_lease R f l s) = s")
  case True
  with run_inv_mono [OF assms(4)] show ?thesis by simp
next
  case False
  let ?c = "sl_community_id l" and ?sid = "sl_session_id l" and ?g = "unat (sl_generation l)"
  have u: "uuid_text ?c" "uuid_text ?sid" "length (sl_owner_runtime_id l) = 32" using assms(3) by simp_all
  obtain v where v: "dir_rep R s ?c ?sid v" "sv_generation v \<le> k" "fenced_log v (session_leases ?c ?sid log)"
    by (rule run_invE [OF assms(4) u(1,2)])
  have s': "snd (release_lease R f l s) =
      snd (lua_release R (lease_key ?c ?sid) (generation_key ?c ?sid) (hex_encode R (sl_owner_runtime_id l))
        (nat_to_string ?g) s)"
    using release_state [of R f l s] False by (elim disjE) blast+
  note rep = lua_release_snd [OF assms(1,2) u(1,2) v(1) u(3) s']
  show ?thesis
    unfolding dir_step.simps
    by (rule run_inv_later [OF assms(4) u(1,2) rep(2,1) view_later_specs(4) _ v(3)]) (use v(2) in simp)
qed

lemma elapse_keeps_inv:
  assumes "redis_laws R" and "run_inv R k (s, log)"
  shows "run_inv R (Suc k) (rd_elapse R s d, log)"
  unfolding run_inv_def
proof (intro allI impI)
  fix c sid assume "uuid_text c \<and> uuid_text sid"
  then obtain v where v: "dir_rep R s c sid v" "sv_generation v \<le> k" "fenced_log v (session_leases c sid log)"
    using run_invE [OF assms(2)] by blast
  then show "\<exists>v. dir_rep R (fst (rd_elapse R s d, log)) c sid v \<and> sv_generation v \<le> Suc k
      \<and> fenced_log v (session_leases c sid (snd (rd_elapse R s d, log)))"
    using elapse_rep [OF assms(1) v(1), of d] fenced_log_later [OF v(3), of "spec_elapse d v"]
    by (intro exI [of _ "spec_elapse d v"]) simp
qed

lemma step_keeps_inv:
  assumes "redis_laws R" "runtime_hex R" "op_ok op" "run_inv R k st" "int k < 99999999999999"
  shows "run_inv R (Suc k) (dir_step R st op)"
proof -
  obtain s log where st: "st = (s, log)" by (cases st)
  with assms show ?thesis
    by (cases op) (auto simp del: dir_step.simps(1-3) intro: acquire_keeps_inv renew_keeps_inv
        release_keeps_inv elapse_keeps_inv)
qed

lemma run_keeps_inv:
  "redis_laws R \<Longrightarrow> runtime_hex R \<Longrightarrow> list_all op_ok ops \<Longrightarrow> run_inv R k st \<Longrightarrow>
   int (k + length ops) \<le> 99999999999999 \<Longrightarrow> run_inv R (k + length ops) (foldl (dir_step R) st ops)"
proof (induction ops arbitrary: st k)
  case (Cons op ops)
  then have "run_inv R (Suc k) (dir_step R st op)" by (intro step_keeps_inv) auto
  with Cons have "run_inv R (Suc k + length ops) (foldl (dir_step R) (dir_step R st op) ops)"
    by (intro Cons.IH) auto
  then show ?case by simp
qed simp

text \<open>A store without any key of the directory.\<close>

definition no_sessions :: "'s redis \<Rightarrow> 's \<Rightarrow> bool" where
  "no_sessions R s \<longleftrightarrow>
     (\<forall>c sid. rd_get R s (lease_key c sid) = None \<and> rd_get R s (generation_key c sid) = None
        \<and> rd_ttl R s (generation_key c sid) = None)"

lemma no_sessions_inv: "no_sessions R s \<Longrightarrow> run_inv R 0 (s, [])"
  unfolding run_inv_def
  by (auto simp: no_sessions_def dir_rep_def fenced_log_def session_leases_def
      intro!: exI [of _ "\<lparr>sv_generation = 0, sv_lease = None\<rparr>"])

section \<open>A store\<close>

text \<open>A Redis without memory limits, and the hexadecimal coding of the pairing samples.\<close>

definition sample_redis :: "(string \<Rightarrow> (string \<times> nat option) option) redis" where
  "sample_redis = \<lparr>
     rd_get = (\<lambda>s k. map_option fst (s k)),
     rd_ttl = (\<lambda>s k. case s k of None \<Rightarrow> None | Some (_, t) \<Rightarrow> t),
     rd_incr = (\<lambda>s k. case s k of
        None \<Rightarrow> Some (1, s(k \<mapsto> (''1'', None)))
      | Some (v, t) \<Rightarrow> Some (Suc (digits_value v), s(k \<mapsto> (nat_to_string (Suc (digits_value v)), t)))),
     rd_set_px = (\<lambda>s k v t. s(k \<mapsto> (v, Some t))),
     rd_pexpire = (\<lambda>s k t. case s k of None \<Rightarrow> s | Some (v, _) \<Rightarrow> s(k \<mapsto> (v, Some t))),
     rd_del = (\<lambda>s k. s(k := None)),
     rd_elapse = (\<lambda>s d k. case s k of
        None \<Rightarrow> None
      | Some (v, None) \<Rightarrow> Some (v, None)
      | Some (v, Some t) \<Rightarrow> if t \<le> d then None else Some (v, Some (t - d))),
     lua_tostring = nat_to_string,
     hex_encode = hex_encode_bytes sample_env,
     hex_decode = (\<lambda>s. case hex_decode_str sample_env s of Inl _ \<Rightarrow> None | Inr b \<Rightarrow> Some b)\<rparr>"

lemma sample_redis_laws: "redis_laws sample_redis"
proof -
  have one: "nat_to_string 1 = ''1''" by code_simp
  have first: "\<exists>s'. incr_to sample_redis s k 1 s'" if "rd_get sample_redis s k = None" for s k
    using that one
    by (intro exI [of _ "s(k \<mapsto> (''1'', None))"]) (auto simp: incr_to_def sample_redis_def fun_eq_iff)
  have succ: "\<exists>s'. incr_to sample_redis s k (Suc n) s'"
    if get: "rd_get sample_redis s k = Some (nat_to_string n)" for s k n
  proof -
    obtain t where "s k = Some (nat_to_string n, t)" using get by (auto simp: sample_redis_def)
    then show ?thesis
      by (intro exI [of _ "s(k \<mapsto> (nat_to_string (Suc n), t))"])
        (auto simp: incr_to_def sample_redis_def fun_eq_iff)
  qed
  show ?thesis
    unfolding redis_laws_def using first succ
    by (auto simp: sample_redis_def split: option.splits)
qed

lemma sample_runtime_hex: "runtime_hex sample_redis"
proof -
  have "hex_decode_str sample_env (hex_encode_bytes sample_env b) = Ok b"
    "length (hex_encode_bytes sample_env b) = 2 * length b"
    "CHR ''|'' \<notin> set (hex_encode_bytes sample_env b)" for b
    using sample_hex_laws [of b] by (auto simp: hex_laws_def list_all_iff is_lowercase_hex_def is_ascii_digit_def)
  moreover have "hex_encode_bytes sample_env b \<noteq> []" if "length b = 32" for b
    using calculation(2) [of b] that by auto
  ultimately show ?thesis unfolding runtime_hex_def by (auto simp: sample_redis_def)
qed

definition sample_ops :: "DirOp list" where
  "sample_ops =
     [OpAcquire 5 NoFault ''c'' ''s'' (replicate 32 1) ReliableStream,
      OpElapse 9,
      OpAcquire 5 NoFault ''c'' ''s'' (replicate 32 2) ReliableStream]"

definition sample_run :: "(string \<Rightarrow> (string \<times> nat option) option) \<times> SessionLease list" where
  "sample_run = foldl (dir_step sample_redis) (\<lambda>_. None, []) sample_ops"

lemma sample_run_log:
  "map (\<lambda>l. (sl_generation l, sl_owner_runtime_id l)) (session_leases ''c'' ''s'' (snd sample_run)) =
     [(1, replicate 32 1), (2, replicate 32 2)]"
  by code_simp

section \<open>Properties\<close>

text \<open>
  C13. Session ownership is fenced. Let any number of runtimes acquire, renew and release leases in
  any order, with lost requests and lost replies, while leases expire. Then the leases handed out for
  a session have strictly increasing generations; a frame older than any lease handed out is refused
  as stale, forever; and a frame that is accepted is at least as new as every lease handed out and,
  at the same generation, names the same owner: two runtimes are never accepted as owners of one
  generation.
\<close>

theorem session_fencing:
  assumes "redis_laws R" "runtime_hex R" "no_sessions R s0" "list_all op_ok ops"
    and "int (length ops) < 100000000000000" and "uuid_text c" "uuid_text sid"
    and run: "foldl (dir_step R) (s0, []) ops = (s, log)"
  shows "sorted_wrt (\<lambda>a b. sl_generation a < sl_generation b) (session_leases c sid log)
    \<and> (\<forall>l \<in> set (session_leases c sid log). \<forall>fh. fh_session_id fh = sid \<longrightarrow>
         (fh_generation fh < sl_generation l \<longrightarrow>
           (\<exists>known \<ge> sl_generation l. validate_fenced_header R show_err NoFault c fh s =
              Err (StaleGeneration sid (fh_generation fh) known)))
         \<and> (validate_fenced_header R show_err NoFault c fh s = Ok () \<longrightarrow>
              sl_generation l \<le> fh_generation fh
              \<and> (sl_generation l = fh_generation fh \<longrightarrow> sl_owner_runtime_id l = fh_owner_runtime_id fh)))"
proof -
  have "run_inv R (0 + length ops) (foldl (dir_step R) (s0, []) ops)"
    by (intro run_keeps_inv no_sessions_inv) (use assms in auto)
  then obtain v where v: "dir_rep R s c sid v" "sv_generation v \<le> length ops"
      "fenced_log v (session_leases c sid log)"
    unfolding run using assms(6,7) by (auto elim: run_invE [of R _ s log c sid])
  then have bound: "int (sv_generation v) < 100000000000000" using assms(5) by simp
  have dec: "validate_fenced_header R show_err NoFault c fh s =
      check_fence (view_lease c sid v) (of_nat (sv_generation v)) fh" if "fh_session_id fh = sid" for fh
    using validate_rep [OF assms(2) v(1) bound that] .
  show ?thesis
  proof (intro conjI ballI allI impI)
    show "sorted_wrt (\<lambda>a b. sl_generation a < sl_generation b) (session_leases c sid log)"
      using v(3) by (simp add: fenced_log_def)
    fix l :: SessionLease and fh :: FencedHeader
    assume l: "l \<in> set (session_leases c sid log)" and fh: "fh_session_id fh = sid"
    have le: "unat (sl_generation l) \<le> sv_generation v"
      and owner: "unat (sl_generation l) = sv_generation v \<Longrightarrow> map_option fst (sv_lease v) = Some w \<Longrightarrow>
        sl_owner_runtime_id l = w" for w
      using v(3) l unfolding fenced_log_def by blast+
    show "\<exists>known \<ge> sl_generation l. validate_fenced_header R show_err NoFault c fh s =
        Err (StaleGeneration sid (fh_generation fh) known)" if "fh_generation fh < sl_generation l"
      using that le gen_word [OF bound] check_fence_view [OF bound fh, of c]
      by (intro exI [of _ "of_nat (sv_generation v)"])
        (simp add: dec [OF fh] word_less_nat_alt word_le_nat_alt)
    assume "validate_fenced_header R show_err NoFault c fh s = Ok ()"
    then obtain w p t where w: "sv_lease v = Some (w, p, t)" "unat (fh_generation fh) = sv_generation v"
        "fh_owner_runtime_id fh = w"
      using check_fence_view [OF bound fh, of c]
      by (auto simp: dec [OF fh] split: if_splits option.splits)
    show "sl_generation l \<le> fh_generation fh" using le w(2) by (simp add: word_le_nat_alt)
    show "sl_owner_runtime_id l = fh_owner_runtime_id fh" if "sl_generation l = fh_generation fh"
      using that owner w by simp
  qed
qed

theorem session_fencing_witness:
  "\<exists>l1 l2. session_leases ''c'' ''s'' (snd sample_run) = [l1, l2]
     \<and> sl_generation l1 = 1 \<and> sl_generation l2 = 2
     \<and> (\<exists>known. validate_fenced_header sample_redis (\<lambda>_. []) NoFault ''c'' (fenced_header l1) (fst sample_run)
          = Err (StaleGeneration ''s'' 1 known))"
proof -
  obtain l1 l2 where ls: "session_leases ''c'' ''s'' (snd sample_run) = [l1, l2]"
    and g: "sl_generation l1 = 1" "sl_generation l2 = 2"
    using sample_run_log by auto
  have sid: "sl_session_id l1 = ''s''"
  proof -
    have "l1 \<in> set (session_leases ''c'' ''s'' (snd sample_run))" using ls by simp
    then show ?thesis by (simp add: session_leases_def)
  qed
  have ns: "no_sessions sample_redis (\<lambda>_. None)" by (simp add: no_sessions_def sample_redis_def)
  have oks: "list_all op_ok sample_ops" "int (length sample_ops) < 100000000000000"
    by (simp_all add: sample_ops_def uuid_text_def)
  have u: "uuid_text ''c''" "uuid_text ''s''" by (simp_all add: uuid_text_def)
  have run: "foldl (dir_step sample_redis) (\<lambda>_. None, []) sample_ops = (fst sample_run, snd sample_run)"
    by (simp add: sample_run_def)
  note all = session_fencing [OF sample_redis_laws sample_runtime_hex ns oks u run, of "\<lambda>_. []", THEN conjunct2]
  have "l2 \<in> set (session_leases ''c'' ''s'' (snd sample_run))" "fh_session_id (fenced_header l1) = ''s''"
    "fh_generation (fenced_header l1) < sl_generation l2"
    using ls g sid by (simp_all add: fenced_header_def)
  with all have "\<exists>known \<ge> sl_generation l2. validate_fenced_header sample_redis (\<lambda>_. []) NoFault ''c''
      (fenced_header l1) (fst sample_run) = Err (StaleGeneration ''s'' (fh_generation (fenced_header l1)) known)"
    by blast
  with ls g show ?thesis by (auto simp: fenced_header_def)
qed

text \<open>
  The Redis directory refines the abstract one. On a store that represents a session as a
  generation and an optional lease, \<open>acquire\<close> grants the next generation exactly when no lease is
  live and otherwise reports the live one; \<open>renew\<close> and \<open>release\<close> act exactly when owner and
  generation are those of the live lease and otherwise change nothing and report what is live;
  \<open>lookup\<close> and \<open>known_generation\<close> read the view. Every result is well formed (no malformed value, no
  panic), and no other key is touched, so the sessions of other tenants keep their view.
\<close>

theorem directory_refines_spec:
  assumes "redis_laws R" "runtime_hex R" "uuid_text c" "uuid_text sid" "dir_rep R s c sid v"
    and "length owner = 32" "int (sv_generation v) < 99999999999999" "ttl_ms ms = Ok ttl"
  shows "(\<exists>s'. acquire R ms NoFault c sid owner p s =
        (Ok ((if sv_lease v = None then Acquired else Exists)
           (the (view_lease c sid (spec_acquire ttl owner p v)))), s')
      \<and> dir_rep R s' c sid (spec_acquire ttl owner p v) \<and> same_elsewhere R c sid s s')
    \<and> (\<forall>l. sl_community_id l = c \<and> sl_session_id l = sid \<and> sl_owner_runtime_id l = owner \<longrightarrow>
        (\<exists>s'. renew R ms NoFault l s =
          (Some (Ok (if spec_owned owner (unat (sl_generation l)) v then Renewed (the (view_lease c sid v))
                     else Lost (view_lease c sid v) (view_known v))), s')
          \<and> dir_rep R s' c sid (spec_renew ttl owner (unat (sl_generation l)) v)
          \<and> same_elsewhere R c sid s s')
      \<and> (\<exists>s'. release_lease R NoFault l s =
          (Some (Ok (if spec_owned owner (unat (sl_generation l)) v then Released (the (view_lease c sid v))
                     else NotOwner (view_lease c sid v) (view_known v))), s')
          \<and> dir_rep R s' c sid (spec_release owner (unat (sl_generation l)) v)
          \<and> same_elsewhere R c sid s s'))
    \<and> lookup_lease R c sid s = Ok (view_lease c sid v)
    \<and> known_generation R c sid s = Ok (view_known v)"
proof -
  have bound: "int (sv_generation v) < 100000000000000" using assms(7) by simp
  note rep = acquire_rep [OF assms] renew_rep [OF assms(1-6) bound assms(8)]
    release_rep [OF assms(1-6) bound] lookup_rep [OF assms(2,5) bound]
  show ?thesis
  proof (intro conjI allI impI)
    show "lookup_lease R c sid s = Ok (view_lease c sid v)"
      "known_generation R c sid s = Ok (view_known v)" by (rule rep)+
  qed (use rep(1) in blast, (rule rep(2); simp), (rule rep(3); simp))
qed

theorem directory_refines_spec_witness:
  "\<exists>s'. acquire sample_redis 5 NoFault ''c'' ''s'' (replicate 32 7) HuddleControl (\<lambda>_. None) =
     (Ok (Acquired \<lparr>sl_community_id = ''c'', sl_session_id = ''s'', sl_owner_runtime_id = replicate 32 7,
        sl_generation = 1, sl_profile = HuddleControl\<rparr>), s')"
proof -
  let ?v = "\<lparr>sv_generation = 0, sv_lease = None\<rparr>"
  have u: "uuid_text ''c''" "uuid_text ''s''" by (simp_all add: uuid_text_def)
  have rep: "dir_rep sample_redis (\<lambda>_. None) ''c'' ''s'' ?v" by (simp add: dir_rep_def sample_redis_def)
  show ?thesis
    using directory_refines_spec [OF sample_redis_laws sample_runtime_hex u rep, of "replicate 32 7" 5 5 HuddleControl]
    by (auto simp: ttl_ms_def view_lease_def spec_acquire_def)
qed

text \<open>
  The fence check answers every frame with its typed verdict. A frame older than the counter is
  \<open>StaleGeneration\<close>; otherwise without a live lease it is \<open>NoActiveLease\<close>; a newer generation is
  \<open>FutureGeneration\<close>, a foreign owner \<open>OwnerMismatch\<close>; and it is accepted exactly when it is the
  header of the live lease. A Redis failure accepts nothing.
\<close>

theorem fence_decision:
  assumes "runtime_hex R" "dir_rep R s c sid v" "int (sv_generation v) < 100000000000000"
    and "fh_session_id fh = sid"
  shows "validate_fenced_header R show_err NoFault c fh s =
      (if unat (fh_generation fh) < sv_generation v
       then Err (StaleGeneration sid (fh_generation fh) (of_nat (sv_generation v)))
       else (case sv_lease v of
           None \<Rightarrow> Err (NoActiveLease sid (fh_generation fh) (of_nat (sv_generation v)) (fh_owner_runtime_id fh))
         | Some (owner, p, t) \<Rightarrow>
             if unat (fh_generation fh) \<noteq> sv_generation v
             then Err (FutureGeneration sid (fh_generation fh) (of_nat (sv_generation v)))
             else if fh_owner_runtime_id fh \<noteq> owner
             then Err (OwnerMismatch sid (fh_generation fh) (fh_owner_runtime_id fh) owner)
             else Ok ()))
    \<and> (\<forall>f. validate_fenced_header R show_err f c fh s = Ok () \<longrightarrow>
         f = NoFault \<and> map_option fenced_header (view_lease c sid v) = Some fh)"
proof -
  note dec = validate_rep [OF assms] check_fence_view [OF assms(3,4), of c]
  show ?thesis using dec validate_accepts [OF assms] by (simp only: simp_thms) blast
qed

theorem fence_decision_witness:
  "validate_fenced_header sample_redis (\<lambda>_. []) NoFault ''c''
     \<lparr>fh_session_id = ''s'', fh_generation = 4, fh_owner_runtime_id = []\<rparr> (\<lambda>_. None) =
   Err (NoActiveLease ''s'' 4 0 [])"
proof -
  have "dir_rep sample_redis (\<lambda>_. None) ''c'' ''s'' \<lparr>sv_generation = 0, sv_lease = None\<rparr>"
    by (simp add: dir_rep_def sample_redis_def)
  from fence_decision [OF sample_runtime_hex this,
      of "\<lparr>fh_session_id = ''s'', fh_generation = 4, fh_owner_runtime_id = []\<rparr>" "\<lambda>_. []"]
  show ?thesis by simp
qed

end
