(* ===== verification/TunnelReliable.thy ===== *)
theory TunnelReliable
  imports TunnelDirectory
begin

text \<open>
  \<^verbatim>\<open>crates/lenos-relay/src/tunnel/reliable.rs\<close>: reliable-stream sessions over the mesh.

  A mesh stream is a record of what the transport will deliver (the results of the coming
  \<open>recv_frame\<close> calls), of the frames sent so far, and of the outcome of each send. The bytes of a UUID
  come from the \<open>uuid\<close> crate (\<open>uuid_ops\<close>, \<open>uuid_law\<close>). A method takes the store of the directory as
  it is at the time of the call. The renewal task is its loop over the events the runtime delivers to
  it (ticks and the caller's cancellation), followed by the release.
\<close>

section \<open>Wire frames\<close>

definition MAX_RELIABLE_PAYLOAD_BYTES :: nat where "MAX_RELIABLE_PAYLOAD_BYTES = 1024 * 1024"

record uuid_ops =
  uuid_as_bytes :: "uuid \<Rightarrow> bytes"
  uuid_from_bytes :: "bytes \<Rightarrow> uuid"

definition uuid_law :: "uuid_ops \<Rightarrow> uuid \<Rightarrow> bool" where
  "uuid_law U u \<longleftrightarrow> length (uuid_as_bytes U u) = 16 \<and> uuid_from_bytes U (uuid_as_bytes U u) = u"

datatype ReliableWireFrame = WData CommunityId bytes | WGoodbye CommunityId GoodbyeReason

datatype ReliableFrame = RData bytes | RGoodbye GoodbyeReason

datatype ReliableStreamError =
    DirectoryE DirectoryError
  | MeshE MeshError
  | ProfileMismatch uuid Profile Profile
  | SenderMismatch RuntimeId RuntimeId
  | UnexpectedStreamRole
  | OwnerIsNotLocal uuid RuntimeId RuntimeId
  | UnexpectedFrame string
  | FrameFenceMismatch FencedHeader FencedHeader
  | CommunityMismatch CommunityId CommunityId
  | MalformedReliableFrame string

fun to_wire_byte :: "GoodbyeReason \<Rightarrow> u8" where
  "to_wire_byte SessionEnded = 1"
| "to_wire_byte Draining = 2"
| "to_wire_byte StaleGenerationReason = 3"

definition from_wire_byte :: "u8 \<Rightarrow> (ReliableStreamError, GoodbyeReason) result" where
  "from_wire_byte b =
     (if b = 1 then Ok SessionEnded
      else if b = 2 then Ok Draining
      else if b = 3 then Ok StaleGenerationReason
      else Err (MalformedReliableFrame ''unknown goodbye reason''))"

fun frame_community_id :: "ReliableWireFrame \<Rightarrow> CommunityId" where
  "frame_community_id (WData c _) = c"
| "frame_community_id (WGoodbye c _) = c"

definition RW_VERSION :: u8 where "RW_VERSION = 1"
definition RW_DATA :: u8 where "RW_DATA = 1"
definition RW_GOODBYE :: u8 where "RW_GOODBYE = 2"

fun reliable_encode :: "uuid_ops \<Rightarrow> ReliableWireFrame \<Rightarrow> bytes" where
  "reliable_encode U (WData c payload) = RW_VERSION # RW_DATA # uuid_as_bytes U c @ payload"
| "reliable_encode U (WGoodbye c reason) =
     RW_VERSION # RW_GOODBYE # uuid_as_bytes U c @ [to_wire_byte reason]"

definition reliable_decode :: "uuid_ops \<Rightarrow> bytes \<Rightarrow> (ReliableStreamError, ReliableWireFrame) result" where
  "reliable_decode U b =
     (if length b < 18 then Err (MalformedReliableFrame ''too short'')
      else if b ! 0 \<noteq> RW_VERSION then Err (MalformedReliableFrame ''unknown version'')
      else let c = uuid_from_bytes U (take 16 (drop 2 b))
        in if b ! 1 = RW_DATA then Ok (WData c (drop 18 b))
           else if b ! 1 = RW_GOODBYE
           then (if length b \<noteq> 19 then Err (MalformedReliableFrame ''bad goodbye length'')
                 else (case from_wire_byte (b ! 18) of
                     Inl e \<Rightarrow> Err e | Inr reason \<Rightarrow> Ok (WGoodbye c reason)))
           else Err (MalformedReliableFrame ''unknown kind''))"

section \<open>Streams\<close>

record MeshStream =
  ms_in :: "(MeshError, MeshStreamFrame option) result list"
  ms_out :: "MeshStreamFrame list"
  ms_send_error :: "nat \<Rightarrow> MeshError option"
  ms_finish_error :: "MeshError option"
  ms_finished :: bool

text \<open>A stream with nothing more to deliver is at its end.\<close>

definition ms_recv :: "MeshStream \<Rightarrow> (MeshError, MeshStreamFrame option) result \<times> MeshStream" where
  "ms_recv st = (case ms_in st of [] \<Rightarrow> (Ok None, st) | r # rs \<Rightarrow> (r, st\<lparr>ms_in := rs\<rparr>))"

definition ms_send :: "MeshStreamFrame \<Rightarrow> MeshStream \<Rightarrow> (MeshError, MeshStream) result" where
  "ms_send frame st =
     (case ms_send_error st (length (ms_out st)) of
        Some e \<Rightarrow> Err e
      | None \<Rightarrow> Ok (st\<lparr>ms_out := ms_out st @ [frame]\<rparr>))"

definition ms_finish :: "MeshStream \<Rightarrow> (MeshError, MeshStream) result" where
  "ms_finish st =
     (case ms_finish_error st of Some e \<Rightarrow> Err e | None \<Rightarrow> Ok (st\<lparr>ms_finished := True\<rparr>))"

record ReliableMeshStream =
  rs_fenced :: FencedHeader
  rs_stream :: MeshStream
  rs_community_id :: "CommunityId option"

definition reliable_new :: "FencedHeader \<Rightarrow> MeshStream \<Rightarrow> ReliableMeshStream" where
  "reliable_new fenced stream = \<lparr>rs_fenced = fenced, rs_stream = stream, rs_community_id = None\<rparr>"

definition new_inbound :: "FencedHeader \<Rightarrow> MeshStream \<Rightarrow> ReliableMeshStream" where
  "new_inbound fenced stream = reliable_new fenced stream"

definition with_community :: "CommunityId \<Rightarrow> ReliableMeshStream \<Rightarrow> ReliableMeshStream" where
  "with_community c st = st\<lparr>rs_community_id := Some c\<rparr>"

definition ensure_outbound_community ::
  "CommunityId \<Rightarrow> ReliableMeshStream \<Rightarrow> (ReliableStreamError, ReliableMeshStream) result" where
  "ensure_outbound_community c st =
     (case rs_community_id st of
        Some expected \<Rightarrow> if expected \<noteq> c then Err (CommunityMismatch expected c) else Ok st
      | None \<Rightarrow> Ok (st\<lparr>rs_community_id := Some c\<rparr>))"

text \<open>\<open>bytes.chunks(n)\<close>\<close>

function chunks :: "nat \<Rightarrow> 'a list \<Rightarrow> 'a list list" where
  "chunks n xs = (if xs = [] \<or> n = 0 then [] else take n xs # chunks n (drop n xs))"
  by pat_completeness auto
termination
  by (relation "measure (\<lambda>(n, xs). length xs)") (auto simp: not_le)

declare chunks.simps [simp del]

definition data_frame :: "uuid_ops \<Rightarrow> FencedHeader \<Rightarrow> CommunityId \<Rightarrow> bytes \<Rightarrow> MeshStreamFrame" where
  "data_frame U fenced c chunk = Data fenced (reliable_encode U (WData c chunk))"

text \<open>The loop over the chunks; a failed send keeps the frames sent before it.\<close>

fun send_chunks ::
  "uuid_ops \<Rightarrow> CommunityId \<Rightarrow> bytes list \<Rightarrow> ReliableMeshStream \<Rightarrow>
   (ReliableStreamError, unit) result \<times> ReliableMeshStream" where
  "send_chunks U c [] st = (Ok (), st)"
| "send_chunks U c (chunk # rest) st =
     (case ms_send (data_frame U (rs_fenced st) c chunk) (rs_stream st) of
        Inl e \<Rightarrow> (Err (MeshE e), st)
      | Inr stream \<Rightarrow> send_chunks U c rest (st\<lparr>rs_stream := stream\<rparr>))"

definition send_bytes ::
  "uuid_ops \<Rightarrow> CommunityId \<Rightarrow> bytes \<Rightarrow> ReliableMeshStream \<Rightarrow>
   (ReliableStreamError, unit) result \<times> ReliableMeshStream" where
  "send_bytes U c b st =
     (case ensure_outbound_community c st of
        Inl e \<Rightarrow> (Err e, st)
      | Inr st' \<Rightarrow> send_chunks U c (chunks MAX_RELIABLE_PAYLOAD_BYTES b) st')"

definition reliable_finish ::
  "ReliableMeshStream \<Rightarrow> (ReliableStreamError, unit) result \<times> ReliableMeshStream" where
  "reliable_finish st =
     (case ms_finish (rs_stream st) of
        Inl e \<Rightarrow> (Err (MeshE e), st)
      | Inr stream \<Rightarrow> (Ok (), st\<lparr>rs_stream := stream\<rparr>))"

definition send_goodbye ::
  "uuid_ops \<Rightarrow> CommunityId \<Rightarrow> GoodbyeReason \<Rightarrow> ReliableMeshStream \<Rightarrow>
   (ReliableStreamError, unit) result \<times> ReliableMeshStream" where
  "send_goodbye U c reason st =
     (case ensure_outbound_community c st of
        Inl e \<Rightarrow> (Err e, st)
      | Inr st' \<Rightarrow>
          (case ms_send (Data (rs_fenced st') (reliable_encode U (WGoodbye c reason))) (rs_stream st') of
             Inl e \<Rightarrow> (Err (MeshE e), st')
           | Inr stream \<Rightarrow> reliable_finish (st'\<lparr>rs_stream := stream\<rparr>)))"

definition validate_frame_fence ::
  "'s redis \<Rightarrow> (DirectoryError \<Rightarrow> string) \<Rightarrow> fault \<Rightarrow> 's \<Rightarrow> CommunityId \<Rightarrow> FencedHeader \<Rightarrow>
   ReliableMeshStream \<Rightarrow> (ReliableStreamError, unit) result \<times> ReliableMeshStream" where
  "validate_frame_fence R show_err f s c fenced st =
     (if fenced \<noteq> rs_fenced st then (Err (FrameFenceMismatch (rs_fenced st) fenced), st)
      else (case (case rs_community_id st of
               Some expected \<Rightarrow> if expected \<noteq> c then Some (CommunityMismatch expected c) else None
             | None \<Rightarrow> None) of
          Some e \<Rightarrow> (Err e, st)
        | None \<Rightarrow>
            (case validate_fenced_header R show_err f c fenced s of
               Inl e \<Rightarrow> (Err (MeshE e), st)
             | Inr _ \<Rightarrow>
                 (Ok (), if rs_community_id st = None then st\<lparr>rs_community_id := Some c\<rparr> else st))))"

fun to_reliable_frame :: "ReliableWireFrame \<Rightarrow> ReliableFrame" where
  "to_reliable_frame (WData _ payload) = RData payload"
| "to_reliable_frame (WGoodbye _ reason) = RGoodbye reason"

definition recv_validated ::
  "'s redis \<Rightarrow> uuid_ops \<Rightarrow> (DirectoryError \<Rightarrow> string) \<Rightarrow> fault \<Rightarrow> 's \<Rightarrow> ReliableMeshStream \<Rightarrow>
   (ReliableStreamError, ReliableFrame option) result \<times> ReliableMeshStream" where
  "recv_validated R U show_err f s st =
     (case ms_recv (rs_stream st) of
        (r, stream) \<Rightarrow>
          (let st1 = st\<lparr>rs_stream := stream\<rparr> in
           case r of
             Inl e \<Rightarrow> (Err (MeshE e), st1)
           | Inr None \<Rightarrow> (Ok None, st1)
           | Inr (Some (Data fenced payload)) \<Rightarrow>
               (case reliable_decode U payload of
                  Inl e \<Rightarrow> (Err e, st1)
                | Inr frame \<Rightarrow>
                    (case validate_frame_fence R show_err f s (frame_community_id frame) fenced st1 of
                       (Inl e, st2) \<Rightarrow> (Err e, st2)
                     | (Inr _, st2) \<Rightarrow> (Ok (Some (to_reliable_frame frame)), st2)))
           | Inr (Some (Goodbye _ _)) \<Rightarrow> (Err (UnexpectedFrame ''goodbye''), st1)
           | Inr (Some (Hello _)) \<Rightarrow> (Err (UnexpectedFrame ''hello''), st1)
           | Inr (Some (Gossip _)) \<Rightarrow> (Err (UnexpectedFrame ''gossip''), st1)))"

section \<open>Routing\<close>

datatype ReliableJoin = Owned SessionLease | Forwarded SessionLease ReliableMeshStream

record ReliableInbound =
  ri_fenced :: FencedHeader
  ri_from :: RuntimeId
  ri_stream :: ReliableMeshStream

text \<open>\<open>open_stream\<close> is the mesh transport's \<open>open_session_stream\<close>.\<close>

definition join_session ::
  "'s redis \<Rightarrow> int \<Rightarrow> fault \<Rightarrow> (RuntimeId \<Rightarrow> StreamHello \<Rightarrow> (MeshError, MeshStream) result) \<Rightarrow>
   RuntimeId \<Rightarrow> CommunityId \<Rightarrow> uuid \<Rightarrow> 's \<Rightarrow> (ReliableStreamError, ReliableJoin) result \<times> 's" where
  "join_session R ms f open_stream local_id c sid s =
     (case acquire R ms f c sid local_id ReliableStream s of
        (Inl e, s') \<Rightarrow> (Err (DirectoryE e), s')
      | (Inr (Acquired lease), s') \<Rightarrow> (Ok (Owned lease), s')
      | (Inr (Exists lease), s') \<Rightarrow>
          (if sl_profile lease \<noteq> ReliableStream
           then Err (ProfileMismatch sid ReliableStream (sl_profile lease))
           else if sl_owner_runtime_id lease = local_id then Ok (Owned lease)
           else (case open_stream (sl_owner_runtime_id lease)
                   \<lparr>sh_sender = local_id, sh_role = Session (fenced_header lease) ReliableStream\<rparr> of
               Inl e \<Rightarrow> Err (MeshE e)
             | Inr stream \<Rightarrow> Ok (Forwarded lease (reliable_new (fenced_header lease) stream))), s'))"

definition accept_inbound ::
  "RuntimeId \<Rightarrow> RuntimeId \<Rightarrow> StreamHello \<Rightarrow> MeshStream \<Rightarrow> (ReliableStreamError, ReliableInbound) result" where
  "accept_inbound local_id from_id hello stream =
     (if sh_sender hello \<noteq> from_id then Err (SenderMismatch from_id (sh_sender hello))
      else (case sh_role hello of
          Control \<Rightarrow> Err UnexpectedStreamRole
        | Session fenced profile \<Rightarrow>
            if profile \<noteq> ReliableStream
            then Err (ProfileMismatch (fh_session_id fenced) ReliableStream profile)
            else if fh_owner_runtime_id fenced \<noteq> local_id
            then Err (OwnerIsNotLocal (fh_session_id fenced) (fh_owner_runtime_id fenced) local_id)
            else Ok \<lparr>ri_fenced = fenced, ri_from = from_id, ri_stream = new_inbound fenced stream\<rparr>))"

section \<open>Lease renewal\<close>

text \<open>
  What the renewal task sees: time passes and the interval ticks (with the fault of that renewal), or
  the caller cancels. Its loop ends with the flags \<open>caller_cancelled\<close> and \<open>lost\<close>; then it releases.
  \<open>None\<close> is a task that is still running when the events end, or that panicked.
\<close>

datatype renew_event = Tick nat fault | Cancelled

fun renew_loop ::
  "'s redis \<Rightarrow> int \<Rightarrow> SessionLease \<Rightarrow> renew_event list \<Rightarrow> 's \<Rightarrow> (bool \<times> bool) option \<times> 's" where
  "renew_loop R ms lease [] s = (None, s)"
| "renew_loop R ms lease (Cancelled # _) s = (Some (True, False), s)"
| "renew_loop R ms lease (Tick d f # rest) s =
     (case renew R ms f lease (rd_elapse R s d) of
        (None, s') \<Rightarrow> (None, s')
      | (Some (Inr (Renewed _)), s') \<Rightarrow> renew_loop R ms lease rest s'
      | (Some _, s') \<Rightarrow> (Some (False, True), s'))"

definition lease_renewer ::
  "'s redis \<Rightarrow> int \<Rightarrow> SessionLease \<Rightarrow> renew_event list \<Rightarrow> fault \<Rightarrow> 's \<Rightarrow> bool option \<times> 's" where
  "lease_renewer R ms lease events f s =
     (case renew_loop R ms lease events s of
        (None, s') \<Rightarrow> (None, s')
      | (Some (caller_cancelled, lost), s') \<Rightarrow>
          (case release_lease R f lease s' of
             (None, s'') \<Rightarrow> (None, s'')
           | (Some (Inr (Released _)), s'') \<Rightarrow> (Some lost, s'')
           | (Some (Inr (NotOwner _ _)), s'') \<Rightarrow> (Some True, s'')
           | (Some (Inl _), s'') \<Rightarrow> (Some (if caller_cancelled then lost else True), s'')))"

section \<open>Lemmas\<close>

subsection \<open>Wire frames\<close>

lemma goodbye_byte [wire_simps]: "from_wire_byte (to_wire_byte r) = Inr r"
  by (cases r) (simp_all add: from_wire_byte_def)

lemma goodbye_byte_back: "from_wire_byte b = Inr r \<Longrightarrow> b = to_wire_byte r"
  by (auto simp: from_wire_byte_def split: if_splits)

lemma reliable_decode_encode [wire_simps]:
  assumes "uuid_law U (frame_community_id f)"
  shows "reliable_decode U (reliable_encode U f) = Inr f"
  using assms
  by (cases f) (auto simp: reliable_decode_def uuid_law_def RW_VERSION_def RW_DATA_def RW_GOODBYE_def
      goodbye_byte Let_def nth_append)

lemma reliable_split:
  assumes "18 \<le> length b"
  shows "b = b ! 0 # b ! 1 # take 16 (drop 2 b) @ drop 18 b"
proof -
  have "b = b ! 0 # b ! 1 # drop 2 b"
    using assms by (cases b; cases "tl b") (auto simp: numeral_2_eq_2)
  also have "drop 2 b = take 16 (drop 2 b) @ drop 18 b"
    using append_take_drop_id [of 16 "drop 2 b"] by simp
  finally show ?thesis .
qed

lemma reliable_encode_decode:
  assumes "\<forall>x. length x = 16 \<longrightarrow> uuid_as_bytes U (uuid_from_bytes U x) = x"
    and "reliable_decode U b = Inr f"
  shows "b = reliable_encode U f"
proof -
  have len: "18 \<le> length b" using assms(2) by (auto simp: reliable_decode_def split: if_splits)
  then have "uuid_as_bytes U (uuid_from_bytes U (take 16 (drop 2 b))) = take 16 (drop 2 b)"
    using assms(1) by simp
  moreover have "length b = 19 \<Longrightarrow> drop 18 b = [b ! 18]"
    using Cons_nth_drop_Suc [of 18 b] by simp
  ultimately show ?thesis
    using assms(2) reliable_split [OF len]
    by (auto simp: reliable_decode_def Let_def dest!: goodbye_byte_back split: if_splits sum.splits)
qed

subsection \<open>Chunks\<close>

lemma concat_chunks: "0 < n \<Longrightarrow> concat (chunks n xs) = xs"
proof (induction n xs rule: chunks.induct)
  case (1 n xs)
  show ?case
  proof (cases "xs = []")
    case True
    then show ?thesis by (simp add: chunks.simps [of n "[]"])
  next
    case False
    with 1 show ?thesis by (simp add: chunks.simps [of n xs])
  qed
qed

lemma chunks_bound: "p \<in> set (chunks n xs) \<Longrightarrow> p \<noteq> [] \<and> length p \<le> n"
proof (induction n xs rule: chunks.induct)
  case (1 n xs)
  then show ?case by (auto simp: chunks.simps [of n xs] split: if_splits)
qed

subsection \<open>Sending and receiving\<close>

lemma send_chunks_ok:
  assumes "\<And>n. ms_send_error (rs_stream st) n = None"
  shows "send_chunks U c cs st =
    (Inr (), st\<lparr>rs_stream := rs_stream st\<lparr>ms_out := ms_out (rs_stream st) @ map (data_frame U (rs_fenced st) c) cs\<rparr>\<rparr>)"
  using assms by (induction cs arbitrary: st) (simp_all add: ms_send_def)

text \<open>The consumer's loop: at most \<open>n\<close> frames, until the end of the stream or an error.\<close>

fun recv_many ::
  "'s redis \<Rightarrow> uuid_ops \<Rightarrow> (DirectoryError \<Rightarrow> string) \<Rightarrow> 's \<Rightarrow> nat \<Rightarrow> ReliableMeshStream \<Rightarrow>
   ReliableFrame list \<times> ReliableMeshStream" where
  "recv_many R U show_err s 0 st = ([], st)"
| "recv_many R U show_err s (Suc n) st =
     (case recv_validated R U show_err NoFault s st of
        (Inr (Some fr), st') \<Rightarrow> (let (frs, st'') = recv_many R U show_err s n st' in (fr # frs, st''))
      | (_, st') \<Rightarrow> ([], st'))"

lemma recv_one_data:
  assumes "uuid_law U c" and "rs_community_id rx \<in> {None, Some c}"
    and "validate_fenced_header R show_err NoFault c (rs_fenced rx) s = Inr ()"
    and "ms_in (rs_stream rx) = Inr (Some (data_frame U (rs_fenced rx) c chunk)) # rest"
  shows "recv_validated R U show_err NoFault s rx =
    (Inr (Some (RData chunk)), rx\<lparr>rs_stream := rs_stream rx\<lparr>ms_in := rest\<rparr>, rs_community_id := Some c\<rparr>)"
  using assms reliable_decode_encode [of U "WData c chunk"]
  by (auto simp: recv_validated_def ms_recv_def data_frame_def validate_frame_fence_def Let_def
      simp del: reliable_encode.simps)

lemma recv_many_data:
  assumes "uuid_law U c" and "rs_community_id rx \<in> {None, Some c}"
    and "validate_fenced_header R show_err NoFault c (rs_fenced rx) s = Inr ()"
    and "ms_in (rs_stream rx) = map (\<lambda>x. Inr (Some (data_frame U (rs_fenced rx) c x))) cs @ rest"
  shows "\<exists>rx'. recv_many R U show_err s (length cs) rx = (map RData cs, rx')
    \<and> ms_in (rs_stream rx') = rest \<and> rs_fenced rx' = rs_fenced rx \<and> rs_community_id rx' \<in> {None, Some c}"
  using assms
proof (induction cs arbitrary: rx)
  case (Cons x cs)
  let ?rx = "rx\<lparr>rs_stream := rs_stream rx\<lparr>ms_in := map (\<lambda>x. Inr (Some (data_frame U (rs_fenced rx) c x))) cs @ rest\<rparr>,
    rs_community_id := Some c\<rparr>"
  have one: "recv_validated R U show_err NoFault s rx = (Inr (Some (RData x)), ?rx)"
    using Cons.prems by (intro recv_one_data) simp_all
  have "\<exists>rx'. recv_many R U show_err s (length cs) ?rx = (map RData cs, rx')
    \<and> ms_in (rs_stream rx') = rest \<and> rs_fenced rx' = rs_fenced ?rx \<and> rs_community_id rx' \<in> {None, Some c}"
    using Cons.prems by (intro Cons.IH) simp_all
  with one show ?case by auto
qed auto

lemma recv_validated_Some:
  assumes "recv_validated R U show_err f s st = (Inr (Some fr), st')"
  obtains w payload rest where
    "ms_in (rs_stream st) = Inr (Some (Data (rs_fenced st) payload)) # rest"
    and "reliable_decode U payload = Inr w" and "fr = to_reliable_frame w"
    and "validate_fenced_header R show_err f (frame_community_id w) (rs_fenced st) s = Inr ()"
    and "rs_community_id st \<in> {None, Some (frame_community_id w)}"
    and "rs_community_id st' = Some (frame_community_id w)" and "rs_fenced st' = rs_fenced st"
proof -
  have "\<exists>w payload rest. ms_in (rs_stream st) = Inr (Some (Data (rs_fenced st) payload)) # rest
    \<and> reliable_decode U payload = Inr w \<and> fr = to_reliable_frame w
    \<and> validate_fenced_header R show_err f (frame_community_id w) (rs_fenced st) s = Inr ()
    \<and> rs_community_id st \<in> {None, Some (frame_community_id w)}
    \<and> rs_community_id st' = Some (frame_community_id w) \<and> rs_fenced st' = rs_fenced st"
    using assms
    by (auto simp: recv_validated_def ms_recv_def Let_def validate_frame_fence_def
        split: list.splits sum.splits option.splits MeshStreamFrame.splits if_splits)
  then show thesis by (auto intro: that)
qed

lemma recv_keeps_community:
  "rs_community_id st = Some c \<Longrightarrow>
   rs_community_id (snd (recv_validated R U show_err f s st)) = Some c
   \<and> rs_fenced (snd (recv_validated R U show_err f s st)) = rs_fenced st"
  by (auto simp: recv_validated_def ms_recv_def Let_def validate_frame_fence_def
      split: list.splits sum.splits option.splits MeshStreamFrame.splits if_splits)

subsection \<open>Renewal\<close>

lemma renewed_view:
  assumes "spec_owned owner g v" and "sv_lease v = Some (owner', p, t)" and "d < t"
  shows "spec_owned owner g (spec_elapse d v)"
    and "spec_renew ttl owner g (spec_elapse d v) = v\<lparr>sv_lease := Some (owner, p, ttl)\<rparr>"
  using assms by (auto simp: spec_owned_def spec_elapse_def spec_renew_def)

lemma renew_loop_ticks:
  assumes "redis_laws R" "runtime_hex R" "uuid_text (sl_community_id l)" "uuid_text (sl_session_id l)"
    and "length (sl_owner_runtime_id l) = 32" and "ttl_ms ms = Inr ttl"
    and "int (sv_generation v) < 100000000000000"
    and "dir_rep R s (sl_community_id l) (sl_session_id l) v"
    and "unat (sl_generation l) = sv_generation v"
    and "sv_lease v = Some (sl_owner_runtime_id l, p, t)"
    and "list_all (\<lambda>d. d < ttl) ds" and "ds \<noteq> [] \<Longrightarrow> hd ds < t"
  shows "\<exists>s' t'. renew_loop R ms l (map (\<lambda>d. Tick d NoFault) ds) s = (None, s')
    \<and> dir_rep R s' (sl_community_id l) (sl_session_id l) (v\<lparr>sv_lease := Some (sl_owner_runtime_id l, p, t')\<rparr>)"
  using assms(7-)
proof (induction ds arbitrary: s t v)
  case Nil
  have same: "v\<lparr>sv_lease := Some (sl_owner_runtime_id l, p, t)\<rparr> = v" using Nil.prems(4) by (cases v) simp
  show ?case
    by (rule exI [of _ s], rule exI [of _ t]) (simp only: same list.map renew_loop.simps Nil.prems(2) simp_thms)
next
  case (Cons d ds)
  let ?c = "sl_community_id l" and ?sid = "sl_session_id l" and ?o = "sl_owner_runtime_id l"
    and ?g = "unat (sl_generation l)"
  let ?v1 = "spec_elapse d v" and ?v2 = "v\<lparr>sv_lease := Some (?o, p, ttl)\<rparr>"
  have own: "spec_owned ?o ?g v" using Cons.prems by (simp add: spec_owned_def)
  note rv = renewed_view [OF own Cons.prems(4), of d]
  have rep: "dir_rep R (rd_elapse R s d) ?c ?sid ?v1" by (rule elapse_rep [OF assms(1) Cons.prems(2)])
  have "int (sv_generation ?v1) < 100000000000000" using Cons.prems(1) by simp
  from renew_rep [OF assms(1-4) rep assms(5) this assms(6), of l] rv Cons.prems(6)
  obtain s1 where s1: "renew R ms NoFault l (rd_elapse R s d) =
      (Some (Inr (Renewed (the (view_lease ?c ?sid ?v1)))), s1)" "dir_rep R s1 ?c ?sid ?v2" by auto
  have "\<exists>s' t'. renew_loop R ms l (map (\<lambda>d. Tick d NoFault) ds) s1 = (None, s')
    \<and> dir_rep R s' ?c ?sid (?v2\<lparr>sv_lease := Some (?o, p, t')\<rparr>)"
    using Cons.prems s1(2) by (intro Cons.IH [of ?v2 s1 ttl]) (auto simp: hd_conv_nth list_all_iff)
  with s1(1) show ?case by auto
qed

lemma renewer_lost:
  assumes "redis_laws R" "runtime_hex R" "uuid_text (sl_community_id l)" "uuid_text (sl_session_id l)"
    and "length (sl_owner_runtime_id l) = 32" and "ttl_ms ms = Inr ttl"
    and "int (sv_generation v) < 100000000000000"
    and "dir_rep R s (sl_community_id l) (sl_session_id l) v"
    and "\<not> spec_owned (sl_owner_runtime_id l) (unat (sl_generation l)) (spec_elapse d v)"
  shows "\<exists>s'. lease_renewer R ms l (Tick d NoFault # rest) NoFault s = (Some True, s')
    \<and> dir_rep R s' (sl_community_id l) (sl_session_id l) (spec_elapse d v)"
proof -
  let ?c = "sl_community_id l" and ?sid = "sl_session_id l" and ?o = "sl_owner_runtime_id l"
    and ?g = "unat (sl_generation l)" and ?v = "spec_elapse d v"
  have rep: "dir_rep R (rd_elapse R s d) ?c ?sid ?v" by (rule elapse_rep [OF assms(1,8)])
  have bound: "int (sv_generation ?v) < 100000000000000" using assms(7) by simp
  from renew_rep [OF assms(1-4) rep assms(5) bound assms(6), of l] assms(9)
  obtain s1 where s1: "renew R ms NoFault l (rd_elapse R s d) =
      (Some (Inr (Lost (view_lease ?c ?sid ?v) (view_known ?v))), s1)" "dir_rep R s1 ?c ?sid ?v"
    by (auto simp: spec_renew_def)
  from release_rep [OF assms(1-4) s1(2) assms(5) bound, of l] assms(9)
  obtain s2 where "release_lease R NoFault l s1 =
      (Some (Inr (NotOwner (view_lease ?c ?sid ?v) (view_known ?v))), s2)" "dir_rep R s2 ?c ?sid ?v"
    by (auto simp: spec_release_def)
  with s1 show ?thesis by (simp add: lease_renewer_def)
qed

section \<open>Properties\<close>

definition sample_uuid_ops :: uuid_ops where
  "sample_uuid_ops = \<lparr>uuid_as_bytes = map (\<lambda>c. of_nat (of_char c)),
     uuid_from_bytes = map (\<lambda>b. char_of (unat b))\<rparr>"

lemma sample_uuid_law: "length u = 16 \<Longrightarrow> uuid_law sample_uuid_ops u"
proof -
  have "char_of (unat (of_nat (of_char c) :: u8)) = c" for c
    by (simp add: unsigned_of_nat char_of_take_bit_eq)
  then show "length u = 16 \<Longrightarrow> uuid_law sample_uuid_ops u"
    by (simp add: uuid_law_def sample_uuid_ops_def comp_def)
qed

lemma sample_uuid_bytes: "uuid_as_bytes sample_uuid_ops (uuid_from_bytes sample_uuid_ops x) = x"
proof -
  have "of_nat (of_char (char_of (unat b) :: char)) = b" for b :: u8
    using unsigned_less [of b, where ?'a = nat] by simp
  then show ?thesis by (simp add: sample_uuid_ops_def comp_def)
qed

text \<open>
  The reliable frame format is exact: decoding accepts a byte string exactly when it is the
  encoding of the frame it returns, so no two byte strings decode to one frame, no frame is read two
  ways, and everything too short, of another version or kind, or with an unknown goodbye reason is
  refused.
\<close>

theorem reliable_wire_exact:
  assumes "uuid_law U (frame_community_id f)"
    and "\<forall>x. length x = 16 \<longrightarrow> uuid_as_bytes U (uuid_from_bytes U x) = x"
  shows "reliable_decode U b = Ok f \<longleftrightarrow> b = reliable_encode U f"
  using reliable_decode_encode [OF assms(1)] reliable_encode_decode [OF assms(2)] by blast

theorem reliable_wire_exact_witness:
  "reliable_decode sample_uuid_ops (1 # 2 # replicate 16 65 @ [3]) =
     Ok (WGoodbye (replicate 16 (CHR ''A'')) StaleGenerationReason)"
proof -
  have "\<forall>x. length x = 16 \<longrightarrow>
      uuid_as_bytes sample_uuid_ops (uuid_from_bytes sample_uuid_ops x) = x"
    by (simp add: sample_uuid_bytes)
  moreover have "uuid_law sample_uuid_ops (replicate 16 (CHR ''A''))" by (simp add: sample_uuid_law)
  ultimately have "reliable_decode sample_uuid_ops (1 # 2 # replicate 16 65 @ [3]) =
      Ok (WGoodbye (replicate 16 (CHR ''A'')) StaleGenerationReason) \<longleftrightarrow>
      1 # 2 # replicate 16 65 @ [3] =
        reliable_encode sample_uuid_ops (WGoodbye (replicate 16 (CHR ''A'')) StaleGenerationReason)"
    by (intro reliable_wire_exact) simp_all
  then show ?thesis
    by (simp add: sample_uuid_ops_def RW_VERSION_def RW_GOODBYE_def of_char_def)
qed

text \<open>
  Bytes sent through a reliable session arrive unchanged: on a working stream \<open>send_bytes\<close> sends
  non-empty chunks of at most 1 MiB, after whatever was sent before, and a receiver pinned to the same
  fence, while the directory accepts it, reads back exactly those chunks, in order, whose
  concatenation is the bytes sent, and then whatever follows on the stream.
\<close>

theorem reliable_stream_integrity:
  assumes "uuid_law U c" and "rs_community_id tx \<in> {None, Some c}"
    and "\<And>n. ms_send_error (rs_stream tx) n = None"
  shows "\<exists>cs tx'. send_bytes U c b tx = (Ok (), tx') \<and> concat cs = b
    \<and> (\<forall>p \<in> set cs. p \<noteq> [] \<and> length p \<le> 1048576)
    \<and> ms_out (rs_stream tx') = ms_out (rs_stream tx) @ map (data_frame U (rs_fenced tx) c) cs
    \<and> (\<forall>R show_err s rx rest.
         rs_fenced rx = rs_fenced tx \<and> rs_community_id rx \<in> {None, Some c}
         \<and> validate_fenced_header R show_err NoFault c (rs_fenced tx) s = Ok ()
         \<and> ms_in (rs_stream rx) = map (Ok \<circ> Some) (map (data_frame U (rs_fenced tx) c) cs) @ rest \<longrightarrow>
         (\<exists>rx'. recv_many R U show_err s (length cs) rx = (map RData cs, rx')
            \<and> ms_in (rs_stream rx') = rest \<and> rs_fenced rx' = rs_fenced tx
            \<and> rs_community_id rx' \<in> {None, Some c}))"
proof -
  let ?cs = "chunks MAX_RELIABLE_PAYLOAD_BYTES b"
  obtain tx1 where tx1: "ensure_outbound_community c tx = Inr tx1" "rs_stream tx1 = rs_stream tx"
      "rs_fenced tx1 = rs_fenced tx"
    using assms(2) by (auto simp: ensure_outbound_community_def)
  have c1: "concat ?cs = b" by (simp add: concat_chunks MAX_RELIABLE_PAYLOAD_BYTES_def)
  have c2: "\<forall>p \<in> set ?cs. p \<noteq> [] \<and> length p \<le> 1048576"
    using chunks_bound [of _ MAX_RELIABLE_PAYLOAD_BYTES b] by (simp add: MAX_RELIABLE_PAYLOAD_BYTES_def)
  obtain tx' where tx': "send_bytes U c b tx = (Ok (), tx')"
      "ms_out (rs_stream tx') = ms_out (rs_stream tx) @ map (data_frame U (rs_fenced tx) c) ?cs"
    using tx1 send_chunks_ok [of tx1 U c ?cs] assms(3) by (simp add: send_bytes_def)
  have r: "\<exists>rx'. recv_many R U show_err s (length ?cs) rx = (map RData ?cs, rx')
      \<and> ms_in (rs_stream rx') = rest \<and> rs_fenced rx' = rs_fenced tx \<and> rs_community_id rx' \<in> {None, Some c}"
    if "rs_fenced rx = rs_fenced tx" "rs_community_id rx \<in> {None, Some c}"
      "validate_fenced_header R show_err NoFault c (rs_fenced tx) s = Ok ()"
      "ms_in (rs_stream rx) = map (Ok \<circ> Some) (map (data_frame U (rs_fenced tx) c) ?cs) @ rest"
    for R :: "'s redis" and show_err s rx rest
    using recv_many_data [OF assms(1) that(2), of R show_err s ?cs rest] that by (simp add: comp_def)
  show ?thesis
  proof (rule exI [of _ ?cs], rule exI [of _ tx'], intro conjI c1 c2 tx')
    show "\<forall>(R :: 's redis) show_err s rx rest.
         rs_fenced rx = rs_fenced tx \<and> rs_community_id rx \<in> {None, Some c}
         \<and> validate_fenced_header R show_err NoFault c (rs_fenced tx) s = Ok ()
         \<and> ms_in (rs_stream rx) = map (Ok \<circ> Some) (map (data_frame U (rs_fenced tx) c) ?cs) @ rest \<longrightarrow>
         (\<exists>rx'. recv_many R U show_err s (length ?cs) rx = (map RData ?cs, rx')
            \<and> ms_in (rs_stream rx') = rest \<and> rs_fenced rx' = rs_fenced tx
            \<and> rs_community_id rx' \<in> {None, Some c})"
      by (intro allI impI, elim conjE) (rule r)
  qed
qed

text \<open>A store in which one runtime holds a live lease.\<close>

definition sample_community :: CommunityId where "sample_community = replicate 16 (CHR ''A'')"

definition sample_fence :: FencedHeader where
  "sample_fence = \<lparr>fh_session_id = ''s'', fh_generation = 1, fh_owner_runtime_id = replicate 32 7\<rparr>"

definition sample_lease :: SessionLease where
  "sample_lease = \<lparr>sl_community_id = sample_community, sl_session_id = ''s'',
     sl_owner_runtime_id = replicate 32 7, sl_generation = 1, sl_profile = ReliableStream\<rparr>"

definition sample_live :: "string \<Rightarrow> (string \<times> nat option) option" where
  "sample_live = snd (acquire sample_redis 5 NoFault sample_community ''s'' (replicate 32 7) ReliableStream (\<lambda>_. None))"

lemma sample_uuids: "uuid_text sample_community" "uuid_text ''s''" "uuid_law sample_uuid_ops sample_community"
  by (simp_all add: uuid_text_def sample_community_def sample_uuid_law)

lemma sample_empty_rep: "dir_rep sample_redis (\<lambda>_. None) c sid \<lparr>sv_generation = 0, sv_lease = None\<rparr>"
  by (simp add: dir_rep_def sample_redis_def)

lemma sample_live_rep:
  "dir_rep sample_redis sample_live sample_community ''s''
     \<lparr>sv_generation = 1, sv_lease = Some (replicate 32 7, ReliableStream, 5)\<rparr>"
  using acquire_rep [OF sample_redis_laws sample_runtime_hex sample_uuids(1,2) sample_empty_rep,
      of "replicate 32 7" 5 5 ReliableStream]
  by (auto simp: sample_live_def ttl_ms_def spec_acquire_def)

lemma sample_live_accepts:
  "validate_fenced_header sample_redis show_err NoFault sample_community sample_fence sample_live = Ok ()"
  using validate_rep [OF sample_runtime_hex sample_live_rep, of sample_fence show_err]
    check_fence_view [of "\<lparr>sv_generation = 1, sv_lease = Some (replicate 32 7, ReliableStream, 5)\<rparr>"
      sample_fence "''s''" sample_community]
  by (simp add: sample_fence_def)

definition sample_stream :: "(MeshError, MeshStreamFrame option) result list \<Rightarrow> ReliableMeshStream" where
  "sample_stream inp = \<lparr>rs_fenced = sample_fence,
     rs_stream = \<lparr>ms_in = inp, ms_out = [], ms_send_error = (\<lambda>_. None), ms_finish_error = None,
       ms_finished = False\<rparr>,
     rs_community_id = None\<rparr>"

theorem reliable_stream_integrity_witness:
  "\<exists>cs rx'. recv_many sample_redis sample_uuid_ops (\<lambda>_. []) sample_live (length cs)
       (sample_stream (map (Ok \<circ> Some) (map (data_frame sample_uuid_ops sample_fence sample_community) cs)))
     = (map RData cs, rx') \<and> concat cs = [1, 2, 3]"
proof -
  let ?tx = "sample_stream []" and ?R = sample_redis and ?U = sample_uuid_ops and ?c = sample_community
  have tx: "rs_community_id ?tx \<in> {None, Some ?c}" "\<And>n. ms_send_error (rs_stream ?tx) n = None"
    "rs_fenced ?tx = sample_fence"
    by (simp_all add: sample_stream_def)
  obtain cs where cs: "concat cs = [1, 2, 3]" and recv: "\<forall>rx rest.
       rs_fenced rx = rs_fenced ?tx \<and> rs_community_id rx \<in> {None, Some ?c}
       \<and> validate_fenced_header ?R (\<lambda>_. []) NoFault ?c (rs_fenced ?tx) sample_live = Ok ()
       \<and> ms_in (rs_stream rx) = map (Ok \<circ> Some) (map (data_frame ?U (rs_fenced ?tx) ?c) cs) @ rest \<longrightarrow>
       (\<exists>rx'. recv_many ?R ?U (\<lambda>_. []) sample_live (length cs) rx = (map RData cs, rx')
          \<and> ms_in (rs_stream rx') = rest \<and> rs_fenced rx' = rs_fenced ?tx
          \<and> rs_community_id rx' \<in> {None, Some ?c})"
    using reliable_stream_integrity [OF sample_uuids(3) tx(1,2), of "[1, 2, 3]",
        where ?'a = "string \<Rightarrow> (string \<times> nat option) option"]
    by (elim exE conjE) (rule that, assumption,
      drule spec [of _ ?R], drule spec [of _ "\<lambda>_. []"], drule spec [of _ sample_live], assumption)
  let ?rx = "sample_stream (map (Ok \<circ> Some) (map (data_frame ?U sample_fence ?c) cs))"
  have "rs_fenced ?rx = rs_fenced ?tx \<and> rs_community_id ?rx \<in> {None, Some ?c}
       \<and> validate_fenced_header ?R (\<lambda>_. []) NoFault ?c (rs_fenced ?tx) sample_live = Ok ()
       \<and> ms_in (rs_stream ?rx) = map (Ok \<circ> Some) (map (data_frame ?U (rs_fenced ?tx) ?c) cs) @ []"
    using sample_live_accepts by (simp add: sample_stream_def)
  then show ?thesis using recv cs by blast
qed

text \<open>
  C14. A reliable stream delivers only frames of the session's live owner and of one tenant. Whatever
  the peer sends and whatever the directory holds, a delivered frame was decoded from a data frame
  that carries exactly the stream's fence, the directory accepted that fence without a failure (so it
  is the header of the live lease), the stream's community is that of the frame, equal to the one
  latched before if any, and no later receive changes it.
\<close>

theorem tunnel_delivers_only_owner:
  assumes "runtime_hex R" and "recv_validated R U show_err f s st = (Ok (Some fr), st')"
  shows "\<exists>w payload rest. let c = frame_community_id w; sid = fh_session_id (rs_fenced st) in
      ms_in (rs_stream st) = Ok (Some (Data (rs_fenced st) payload)) # rest
    \<and> reliable_decode U payload = Ok w \<and> fr = to_reliable_frame w \<and> f = NoFault
    \<and> rs_community_id st \<in> {None, Some c} \<and> rs_community_id st' = Some c \<and> rs_fenced st' = rs_fenced st
    \<and> (\<forall>v. dir_rep R s c sid v \<and> int (sv_generation v) < 100000000000000 \<longrightarrow>
         map_option fenced_header (view_lease c sid v) = Some (rs_fenced st))
    \<and> (\<forall>f' s'. rs_community_id (snd (recv_validated R U show_err f' s' st')) = Some c)"
proof -
  obtain w payload rest where w:
    "ms_in (rs_stream st) = Inr (Some (Data (rs_fenced st) payload)) # rest"
    "reliable_decode U payload = Inr w" "fr = to_reliable_frame w"
    "validate_fenced_header R show_err f (frame_community_id w) (rs_fenced st) s = Inr ()"
    "rs_community_id st \<in> {None, Some (frame_community_id w)}"
    "rs_community_id st' = Some (frame_community_id w)" "rs_fenced st' = rs_fenced st"
    by (rule recv_validated_Some [OF assms(2)])
  have f: "f = NoFault" using w(4) by (auto simp: validate_fenced_header_def split: fault.splits)
  have live: "map_option fenced_header (view_lease (frame_community_id w) (fh_session_id (rs_fenced st)) v) =
      Some (rs_fenced st)"
    if "dir_rep R s (frame_community_id w) (fh_session_id (rs_fenced st)) v"
      "int (sv_generation v) < 100000000000000" for v
    using validate_accepts [OF assms(1) that refl] w(4) f by blast
  have keep: "rs_community_id (snd (recv_validated R U show_err f' s' st')) = Some (frame_community_id w)"
    for f' s' using recv_keeps_community [OF w(6), of R U show_err f' s'] by (rule conjunct1)
  show ?thesis
    unfolding Let_def
    by (rule exI [of _ w], rule exI [of _ payload], rule exI [of _ rest])
      (intro conjI allI impI w f keep; elim conjE; rule live)
qed

theorem tunnel_delivers_only_owner_witness:
  "\<exists>st'. recv_validated sample_redis sample_uuid_ops (\<lambda>_. []) NoFault sample_live
      (sample_stream [Ok (Some (data_frame sample_uuid_ops sample_fence sample_community [5]))])
      = (Ok (Some (RData [5])), st') \<and> rs_community_id st' = Some sample_community"
proof -
  let ?st = "sample_stream [Ok (Some (data_frame sample_uuid_ops sample_fence sample_community [5]))]"
  obtain st' where r: "recv_validated sample_redis sample_uuid_ops (\<lambda>_. []) NoFault sample_live ?st =
      (Ok (Some (RData [5])), st')"
    using recv_one_data [OF sample_uuids(3), of ?st sample_redis "\<lambda>_. []" sample_live "[5]" "[]"]
      sample_live_accepts by (auto simp: sample_stream_def)
  obtain w payload rest where "ms_in (rs_stream ?st) = Ok (Some (Data (rs_fenced ?st) payload)) # rest"
      "reliable_decode sample_uuid_ops payload = Ok w" "rs_community_id st' = Some (frame_community_id w)"
    using tunnel_delivers_only_owner [OF sample_runtime_hex r] by (auto simp: Let_def)
  moreover have "reliable_decode sample_uuid_ops (reliable_encode sample_uuid_ops (WData sample_community [5])) =
      Inr (WData sample_community [5])"
    by (rule reliable_decode_encode) (simp add: sample_uuids)
  ultimately have "rs_community_id st' = Some sample_community"
    by (auto simp: sample_stream_def data_frame_def simp del: reliable_encode.simps)
  with r show ?thesis by blast
qed

text \<open>
  Joining routes everyone to one owner. On a session without a live lease the first runtime to
  join becomes the owner, of the next generation. As long as that lease is live, any other runtime
  that joins opens a stream to that owner, with a hello carrying the lease's fence; the owner accepts
  exactly that hello on an authenticated connection from the joiner, pins its end of the stream to
  the same fence, and the directory accepts the frames of both ends.
\<close>

theorem join_routes_to_owner:
  assumes "redis_laws R" "runtime_hex R" "uuid_text c" "uuid_text sid" "dir_rep R s c sid v"
    and "sv_lease v = None" "int (sv_generation v) < 99999999999998" "ttl_ms ms = Ok ttl"
    and "length a = 32" "length b = 32" "a \<noteq> b"
  shows "\<exists>l s1 s2. join_session R ms NoFault open_a a c sid s = (Ok (Owned l), s1)
    \<and> sl_owner_runtime_id l = a \<and> unat (sl_generation l) = Suc (sv_generation v)
    \<and> join_session R ms NoFault open_b b c sid s1 =
        (case open_b a \<lparr>sh_sender = b, sh_role = Session (fenced_header l) ReliableStream\<rparr> of
           Inl e \<Rightarrow> Err (MeshE e)
         | Inr stream \<Rightarrow> Ok (Forwarded l (reliable_new (fenced_header l) stream)), s2)
    \<and> (\<forall>stream. accept_inbound a b \<lparr>sh_sender = b, sh_role = Session (fenced_header l) ReliableStream\<rparr> stream =
         Ok \<lparr>ri_fenced = fenced_header l, ri_from = b, ri_stream = new_inbound (fenced_header l) stream\<rparr>)
    \<and> validate_fenced_header R show_err NoFault c (fenced_header l) s2 = Ok ()"
proof -
  let ?v = "spec_acquire ttl a ReliableStream v"
  let ?l = "\<lparr>sl_community_id = c, sl_session_id = sid, sl_owner_runtime_id = a,
    sl_generation = of_nat (Suc (sv_generation v)), sl_profile = ReliableStream\<rparr>"
  have v': "sv_lease ?v = Some (a, ReliableStream, ttl)" "sv_generation ?v = Suc (sv_generation v)"
    "spec_acquire ttl b ReliableStream ?v = ?v"
    using assms(6) by (simp_all add: spec_acquire_def)
  have lease: "view_lease c sid ?v = Some ?l" using v' by (simp add: view_lease_SomeI del: of_nat_Suc)
  have bound: "int (sv_generation v) < 99999999999999" "int (sv_generation ?v) < 99999999999999"
    "int (sv_generation ?v) < 100000000000000" using assms(7) v'(2) by simp_all
  obtain s1 where s1: "acquire R ms NoFault c sid a ReliableStream s = (Ok (Acquired ?l), s1)"
      "dir_rep R s1 c sid ?v"
    using acquire_rep [OF assms(1-5,9) bound(1) assms(8), of ReliableStream] assms(6) lease
    by (auto simp del: of_nat_Suc)
  obtain s2 where s2: "acquire R ms NoFault c sid b ReliableStream s1 = (Ok (Exists ?l), s2)"
      "dir_rep R s2 c sid ?v"
    using acquire_rep [OF assms(1-4) s1(2) assms(10) bound(2) assms(8), of ReliableStream] v' lease
    by (auto simp del: of_nat_Suc)
  have gen: "unat (of_nat (Suc (sv_generation v)) :: u64) = Suc (sv_generation v)"
    using gen_word [OF bound(3)] v'(2) by (simp del: of_nat_Suc)
  have "check_fence (view_lease c sid ?v) (of_nat (sv_generation ?v)) (fenced_header ?l) = Ok ()"
    using check_fence_view [OF bound(3), of "fenced_header ?l" sid c] v' gen
    by (simp add: fenced_header_def del: of_nat_Suc)
  then have "validate_fenced_header R show_err NoFault c (fenced_header ?l) s2 = Ok ()"
    using validate_rep [OF assms(2) s2(2) bound(3), of "fenced_header ?l" show_err]
    by (simp add: fenced_header_def del: of_nat_Suc)
  with s1 s2 gen assms(11) show ?thesis
    by (intro exI [of _ ?l] exI [of _ s1] exI [of _ s2])
      (auto simp: join_session_def accept_inbound_def fenced_header_def simp del: of_nat_Suc split: sum.splits)
qed

theorem join_routes_to_owner_witness:
  "\<exists>l s1 s2. join_session sample_redis 5 NoFault (\<lambda>_ _. Err Disabled) (replicate 32 7) ''c'' ''s'' (\<lambda>_. None)
       = (Ok (Owned l), s1)
     \<and> join_session sample_redis 5 NoFault (\<lambda>to _. Err (PeerNotConnected to)) (replicate 32 8) ''c'' ''s'' s1
       = (Err (MeshE (PeerNotConnected (replicate 32 7))), s2)"
proof -
  have u: "uuid_text ''c''" "uuid_text ''s''" by (simp_all add: uuid_text_def)
  have "\<not> replicate 32 7 = (replicate 32 8 :: RuntimeId)" by simp
  then show ?thesis
    using join_routes_to_owner [OF sample_redis_laws sample_runtime_hex u sample_empty_rep, of 5 5
        "replicate 32 7" "replicate 32 8" "\<lambda>_ _. Err Disabled" "\<lambda>to _. Err (PeerNotConnected to)" "\<lambda>_. []"]
    by (auto simp: ttl_ms_def)
qed

text \<open>
  The renewal task keeps the lease or reports its loss. While every tick comes before the time to
  live runs out, the task keeps running and the runtime stays the owner of the same generation, for
  any number of ticks. When the lease has expired or belongs to another generation at a tick, the
  task ends, raises the loss signal, and its final release leaves the new state of the session
  untouched.
\<close>

theorem renewer_keeps_or_reports:
  assumes "redis_laws R" "runtime_hex R" "uuid_text (sl_community_id l)" "uuid_text (sl_session_id l)"
    and "length (sl_owner_runtime_id l) = 32" "ttl_ms ms = Ok ttl"
    and "int (sv_generation v) < 100000000000000"
    and "dir_rep R s (sl_community_id l) (sl_session_id l) v"
  shows "(\<forall>p t ds. unat (sl_generation l) = sv_generation v
        \<and> sv_lease v = Some (sl_owner_runtime_id l, p, t)
        \<and> list_all (\<lambda>d. d < ttl) ds \<and> (ds \<noteq> [] \<longrightarrow> hd ds < t) \<longrightarrow>
        (\<exists>s' t'. renew_loop R ms l (map (\<lambda>d. Tick d NoFault) ds) s = (None, s')
           \<and> dir_rep R s' (sl_community_id l) (sl_session_id l)
               (v\<lparr>sv_lease := Some (sl_owner_runtime_id l, p, t')\<rparr>)))
    \<and> (\<forall>d rest. \<not> spec_owned (sl_owner_runtime_id l) (unat (sl_generation l)) (spec_elapse d v) \<longrightarrow>
        (\<exists>s'. lease_renewer R ms l (Tick d NoFault # rest) NoFault s = (Some True, s')
           \<and> dir_rep R s' (sl_community_id l) (sl_session_id l) (spec_elapse d v)))"
  using renew_loop_ticks [OF assms] renewer_lost [OF assms] by blast

theorem renewer_keeps_or_reports_witness:
  "(\<exists>s' t'. renew_loop sample_redis 5 sample_lease [Tick 3 NoFault, Tick 4 NoFault] sample_live = (None, s')
     \<and> dir_rep sample_redis s' sample_community ''s''
         \<lparr>sv_generation = 1, sv_lease = Some (replicate 32 7, ReliableStream, t')\<rparr>)
   \<and> (\<exists>s'. lease_renewer sample_redis 5 sample_lease [Tick 6 NoFault] NoFault sample_live = (Some True, s'))"
proof -
  let ?v = "\<lparr>sv_generation = 1, sv_lease = Some (replicate 32 7, ReliableStream, 5)\<rparr>"
  have l: "sl_community_id sample_lease = sample_community" "sl_session_id sample_lease = ''s''"
    "sl_owner_runtime_id sample_lease = replicate 32 7" "unat (sl_generation sample_lease) = 1"
    by (simp_all add: sample_lease_def)
  have pre: "uuid_text (sl_community_id sample_lease)" "uuid_text (sl_session_id sample_lease)"
    "length (sl_owner_runtime_id sample_lease) = 32" "ttl_ms 5 = Ok 5"
    "int (sv_generation ?v) < 100000000000000"
    "dir_rep sample_redis sample_live (sl_community_id sample_lease) (sl_session_id sample_lease) ?v"
    using sample_uuids sample_live_rep l by (simp_all add: ttl_ms_def)
  note both = renewer_keeps_or_reports [OF sample_redis_laws sample_runtime_hex pre, unfolded l]
  have "\<exists>s' t'. renew_loop sample_redis 5 sample_lease (map (\<lambda>d. Tick d NoFault) [3, 4]) sample_live = (None, s')
      \<and> dir_rep sample_redis s' sample_community ''s'' (?v\<lparr>sv_lease := Some (replicate 32 7, ReliableStream, t')\<rparr>)"
    by (rule both [THEN conjunct1, rule_format, of ReliableStream 5]) simp
  moreover have "\<exists>s'. lease_renewer sample_redis 5 sample_lease (Tick 6 NoFault # []) NoFault sample_live = (Some True, s')
      \<and> dir_rep sample_redis s' sample_community ''s'' (spec_elapse 6 ?v)"
    by (rule both [THEN conjunct2, rule_format]) (simp add: spec_owned_def spec_elapse_def)
  ultimately show ?thesis by auto
qed

end
