(* ===== verification/MeshGossip.thy ===== *)
theory MeshGossip
  imports MeshWire "HOL-Library.List_Lexorder" "HOL-Library.Char_ord" Complex_Main
begin

text \<open>
  Membership of the relay mesh: \<^verbatim>\<open>crates/lenos-relay-mesh/src/gossip.rs\<close> (scuttlebutt records, digests
  and deltas, the phi-accrual detector), \<^verbatim>\<open>membership.rs\<close> (the membership table), the attestation of
  \<^verbatim>\<open>registry.rs\<close>, and the decisions of \<^verbatim>\<open>runtime.rs\<close> (gossip dispatch, admission, dial candidates, the
  tie-break of simultaneous dials).

  Times are nanoseconds and milliseconds since the epoch; the clock is an argument. \<open>f32\<close> and \<open>f64\<close>
  values are rationals: the load is only carried, and phi is the exact quotient instead of its
  floating-point rounding. Hexadecimal, the postcard codec and the secp256k1 calls of the attestation
  are parameters. Lock poisoning cannot occur: no operation panics while it holds a lock.
\<close>

type_synonym f32 = rat
type_synonym f64 = rat

section \<open>Gossip\<close>

definition GOSSIP_PAYLOAD_VERSION :: u8 where "GOSSIP_PAYLOAD_VERSION = 1"

record GossipRecord =
  gr_runtime_id :: RuntimeId
  gr_endpoint_addrs :: "string list"
  gr_proto_version :: u16
  gr_load :: f32
  gr_draining :: bool
  gr_capabilities :: "string list"
  gr_version :: u64
  gr_heartbeat_millis :: u64

definition GossipRecord_new :: "u64 \<Rightarrow> RuntimeId \<Rightarrow> string list \<Rightarrow> u16 \<Rightarrow> GossipRecord" where
  "GossipRecord_new now_ms runtime_id endpoint_addrs proto_version =
     \<lparr>gr_runtime_id = runtime_id, gr_endpoint_addrs = endpoint_addrs, gr_proto_version = proto_version,
      gr_load = 0, gr_draining = False, gr_capabilities = [], gr_version = 1,
      gr_heartbeat_millis = now_ms\<rparr>"

record GossipDigestEntry =
  de_runtime_id :: RuntimeId
  de_version :: u64

datatype GossipMessage = Digest u8 "GossipDigestEntry list" | Delta u8 "GossipRecord list"

definition encode_message :: "GossipMessage codec \<Rightarrow> GossipMessage \<Rightarrow> (MeshError, bytes) result" where
  "encode_message c msg = (case pc_to c msg of Inl e \<Rightarrow> Err (Encode e) | Inr b \<Rightarrow> Ok b)"

fun message_version :: "GossipMessage \<Rightarrow> u8" where
  "message_version (Digest v _) = v"
| "message_version (Delta v _) = v"

definition decode_message :: "GossipMessage codec \<Rightarrow> bytes \<Rightarrow> (MeshError, GossipMessage) result" where
  "decode_message c b =
     (case pc_from c b of
        Inl e \<Rightarrow> Err (Decode e)
      | Inr msg \<Rightarrow>
          if message_version msg \<noteq> GOSSIP_PAYLOAD_VERSION
          then Err (Transport (''unknown gossip payload version '' @ nat_to_string (unat (message_version msg))))
          else Ok msg)"

text \<open>\<open>saturating_add(1)\<close>\<close>

definition sat_succ :: "u64 \<Rightarrow> u64" where
  "sat_succ n = (if n = - 1 then n else n + 1)"

text \<open>\<open>iter().map(|e| (id, version)).collect::<HashMap>()\<close>: a later entry replaces an earlier one.\<close>

definition digest_versions :: "GossipDigestEntry list \<Rightarrow> (RuntimeId, u64) hmap" where
  "digest_versions es = foldl (\<lambda>m e. hm_insert (de_runtime_id e) (de_version e) m) [] es"

definition digest_entry :: "GossipRecord \<Rightarrow> GossipDigestEntry" where
  "digest_entry r = \<lparr>de_runtime_id = gr_runtime_id r, de_version = gr_version r\<rparr>"

text \<open>The digest and the delta over a collection of records; \<open>hx\<close> is \<open>RuntimeId::to_hex\<close>.\<close>

definition digest_of :: "(RuntimeId \<Rightarrow> string) \<Rightarrow> GossipRecord list \<Rightarrow> GossipMessage" where
  "digest_of hx rs = Digest GOSSIP_PAYLOAD_VERSION
     (sort_key (\<lambda>e. hx (de_runtime_id e)) (map digest_entry rs))"

definition behind :: "(RuntimeId, u64) hmap \<Rightarrow> GossipRecord \<Rightarrow> bool" where
  "behind remote r = is_none_or (hm_get remote (gr_runtime_id r)) (\<lambda>version. version < gr_version r)"

definition delta_of :: "(RuntimeId \<Rightarrow> string) \<Rightarrow> GossipRecord list \<Rightarrow> GossipDigestEntry list \<Rightarrow> GossipMessage" where
  "delta_of hx rs digest = Delta GOSSIP_PAYLOAD_VERSION
     (sort_key (\<lambda>r. hx (gr_runtime_id r)) (filter (behind (digest_versions digest)) rs))"

type_synonym GossipState = "(RuntimeId, GossipRecord) hmap"

definition GossipState_new :: "GossipRecord \<Rightarrow> GossipState" where
  "GossipState_new r = hm_insert (gr_runtime_id r) r []"

definition gossip_update_local ::
  "u64 \<Rightarrow> RuntimeId \<Rightarrow> (GossipRecord \<Rightarrow> GossipRecord) \<Rightarrow> GossipState \<Rightarrow> GossipRecord option \<times> GossipState" where
  "gossip_update_local now_ms runtime_id update st =
     (case hm_get st runtime_id of
        None \<Rightarrow> (None, st)
      | Some r \<Rightarrow>
          (let r1 = update r;
               r2 = r1\<lparr>gr_version := sat_succ (gr_version r1), gr_heartbeat_millis := now_ms\<rparr>
           in (Some r2, hm_insert runtime_id r2 st)))"

definition gossip_digest :: "(RuntimeId \<Rightarrow> string) \<Rightarrow> GossipState \<Rightarrow> GossipMessage" where
  "gossip_digest hx st = digest_of hx (hm_values st)"

definition gossip_delta_for :: "(RuntimeId \<Rightarrow> string) \<Rightarrow> GossipState \<Rightarrow> GossipDigestEntry list \<Rightarrow> GossipMessage" where
  "gossip_delta_for hx st digest = delta_of hx (hm_values st) digest"

definition apply_record :: "RuntimeId list \<times> GossipState \<Rightarrow> GossipRecord \<Rightarrow> RuntimeId list \<times> GossipState" where
  "apply_record acc r =
     (case acc of (changed, st) \<Rightarrow>
        if is_none_or (hm_get st (gr_runtime_id r)) (\<lambda>existing. gr_version r > gr_version existing)
        then (changed @ [gr_runtime_id r], hm_insert (gr_runtime_id r) r st)
        else (changed, st))"

definition apply_delta :: "GossipRecord list \<Rightarrow> GossipState \<Rightarrow> RuntimeId list \<times> GossipState" where
  "apply_delta rs st = foldl apply_record ([], st) rs"

section \<open>Phi accrual\<close>

record PhiAccrual =
  ph_samples :: "nat list"
  ph_last_heartbeat :: "nat option"
  ph_max_samples :: nat

definition PhiAccrual_new :: "nat \<Rightarrow> PhiAccrual" where
  "PhiAccrual_new max_samples =
     \<lparr>ph_samples = [], ph_last_heartbeat = None, ph_max_samples = max max_samples 1\<rparr>"

definition PhiAccrual_default :: PhiAccrual where
  "PhiAccrual_default = PhiAccrual_new 100"

text \<open>\<open>samples.push(x); if samples.len() > max { samples.remove(0) }\<close>\<close>

definition push_sample :: "nat \<Rightarrow> nat \<Rightarrow> nat list \<Rightarrow> nat list" where
  "push_sample max_samples x xs =
     (let ys = xs @ [x] in if length ys > max_samples then tl ys else ys)"

definition observe :: "nat \<Rightarrow> PhiAccrual \<Rightarrow> PhiAccrual" where
  "observe t p =
     (let p1 = (case ph_last_heartbeat p of
          None \<Rightarrow> p
        | Some prev \<Rightarrow>
            if t > prev
            then p\<lparr>ph_samples := push_sample (ph_max_samples p) (t - prev) (ph_samples p)\<rparr> else p)
      in p1\<lparr>ph_last_heartbeat := Some t\<rparr>)"

definition secs :: "nat \<Rightarrow> f64" where
  "secs nanos = of_nat nanos / 1000000000"

definition mean_secs :: "PhiAccrual \<Rightarrow> f64" where
  "mean_secs p = sum_list (map secs (ph_samples p)) / of_nat (length (ph_samples p))"

definition LN_10 :: f64 where
  "LN_10 = 230258509299404568401799145468436421 / 100000000000000000000000000000000000"

definition f64_EPSILON :: f64 where "f64_EPSILON = 1 / 4503599627370496"

definition phi_at :: "nat \<Rightarrow> PhiAccrual \<Rightarrow> f64 option" where
  "phi_at now p =
     (case ph_last_heartbeat p of
        None \<Rightarrow> None
      | Some hb \<Rightarrow>
          if ph_samples p = [] then None
          else if now < hb then None
          else let mean = mean_secs p
            in if mean \<le> f64_EPSILON then None else Some (secs (now - hb) / mean / LN_10))"

definition system_time_from_millis :: "u64 \<Rightarrow> nat" where
  "system_time_from_millis ms = unat ms * 1000000"

section \<open>Attested ready records\<close>

text \<open>
  The \<open>nostr\<close> and \<open>secp256k1\<close> calls: hex to public key (an error text, or its canonical hex), public
  key to x-only key, text to signature, and verification over the SHA-256 digest of the preimage.
\<close>

record attest_env =
  at_hex :: "RuntimeId \<Rightarrow> string"
  at_pubkey :: "string \<Rightarrow> (string, string) result"
  at_xonly :: "string \<Rightarrow> (string, string) result"
  at_signature :: "string \<Rightarrow> (string, string) result"
  at_verify :: "string \<Rightarrow> string \<Rightarrow> string \<Rightarrow> (string, unit) result"

definition ATTESTATION_CONTEXT :: string where "ATTESTATION_CONTEXT = ''lenos-relay-mesh-ready-v1''"
definition READY_KEY_PREFIX :: string where "READY_KEY_PREFIX = ''mesh:ready:''"
definition REGISTRY_EXPIRY_MULTIPLIER :: nat where "REGISTRY_EXPIRY_MULTIPLIER = 3"

definition attestation_preimage :: "attest_env \<Rightarrow> RuntimeId \<Rightarrow> string \<Rightarrow> string" where
  "attestation_preimage E runtime_id relay_pubkey =
     ATTESTATION_CONTEXT @ [CHR 0x0A] @ ''runtime_pubkey='' @ at_hex E runtime_id @ [CHR 0x0A]
     @ ''relay_pubkey='' @ relay_pubkey"

definition verify_attestation_sig :: "attest_env \<Rightarrow> RuntimeId \<Rightarrow> string \<Rightarrow> string \<Rightarrow> (MeshError, unit) result" where
  "verify_attestation_sig E runtime_id relay_pubkey relay_sig =
     (case at_pubkey E relay_pubkey of
        Inl e \<Rightarrow> Err (Transport (''ready registry attestation invalid relay_pubkey: '' @ e))
      | Inr pk \<Rightarrow>
          (case at_xonly E pk of
             Inl e \<Rightarrow> Err (Transport (''ready registry attestation relay_pubkey xonly conversion failed: '' @ e))
           | Inr xonly \<Rightarrow>
               (case at_signature E relay_sig of
                  Inl e \<Rightarrow> Err (Transport (''ready registry attestation invalid relay_sig: '' @ e))
                | Inr sig \<Rightarrow>
                    (case at_verify E sig (attestation_preimage E runtime_id pk) xonly of
                       Inl e \<Rightarrow> Err (Transport (''ready registry attestation signature verification failed: '' @ e))
                     | Inr _ \<Rightarrow> Ok ()))))"

record ReadyRecord =
  rr_runtime_id :: RuntimeId
  rr_runtime_pubkey :: string
  rr_relay_pubkey :: string
  rr_relay_sig :: string
  rr_endpoint_addrs :: "string list"
  rr_proto_version :: u16
  rr_capabilities :: "string list"

definition verify_attestation :: "attest_env \<Rightarrow> ReadyRecord \<Rightarrow> (MeshError, unit) result" where
  "verify_attestation E r =
     (if rr_runtime_pubkey r \<noteq> at_hex E (rr_runtime_id r)
      then Err (Transport (''ready registry runtime_id/runtime_pubkey mismatch: '' @ at_hex E (rr_runtime_id r)
             @ '' != '' @ rr_runtime_pubkey r))
      else verify_attestation_sig E (rr_runtime_id r) (rr_relay_pubkey r) (rr_relay_sig r))"

definition ready_key :: "attest_env \<Rightarrow> RuntimeId \<Rightarrow> string" where
  "ready_key E runtime_id = READY_KEY_PREFIX @ at_hex E runtime_id"

text \<open>The body of the scan loop: one key with the value \<open>GET\<close> returned and its JSON decoding.\<close>

definition scan_key ::
  "attest_env \<Rightarrow> (string \<Rightarrow> (string, ReadyRecord) result) \<Rightarrow> ReadyRecord list \<Rightarrow> string \<times> string option \<Rightarrow>
   ReadyRecord list" where
  "scan_key E from_json out kv =
     (case kv of
        (key, None) \<Rightarrow> out
      | (key, Some raw) \<Rightarrow>
          (case from_json raw of
             Inl _ \<Rightarrow> out
           | Inr record \<Rightarrow>
               if ready_key E (rr_runtime_id record) = key
               then (if is_ok (verify_attestation E record) then out @ [record] else out)
               else out))"

text \<open>The readiness-gated heartbeat: the state is \<open>published\<close>, the registry calls may fail.\<close>

datatype registry_call = PublishReady | ClearReady

definition heartbeat_tick ::
  "bool \<Rightarrow> (registry_call \<Rightarrow> (MeshError, unit) result) \<Rightarrow> bool \<Rightarrow>
   (MeshError, unit) result \<times> registry_call list \<times> bool" where
  "heartbeat_tick ready call published =
     (if ready
      then (case call PublishReady of
          Inl e \<Rightarrow> (Err e, [PublishReady], published)
        | Inr _ \<Rightarrow> (Ok (), [PublishReady], True))
      else if published
      then (case call ClearReady of
          Inl e \<Rightarrow> (Err e, [ClearReady], published)
        | Inr _ \<Rightarrow> (Ok (), [ClearReady], False))
      else (Ok (), [], published))"

definition heartbeat_shutdown ::
  "(registry_call \<Rightarrow> (MeshError, unit) result) \<Rightarrow> bool \<Rightarrow>
   (MeshError, unit) result \<times> registry_call list \<times> bool" where
  "heartbeat_shutdown call published =
     (if published
      then (case call ClearReady of
          Inl e \<Rightarrow> (Err e, [ClearReady], published)
        | Inr _ \<Rightarrow> (Ok (), [ClearReady], False))
      else (Ok (), [], published))"

section \<open>The membership table\<close>

datatype ConnectionState = Disconnected | Connecting | Connected | Suspect

record MeshPeerCounters =
  pc_runtime_id :: string
  pc_streams_opened :: u64
  pc_streams_received :: u64
  pc_datagrams_sent :: u64
  pc_datagrams_received :: u64
  pc_gossip_frames_sent :: u64
  pc_gossip_frames_received :: u64
  pc_stale_generation_rejections :: u64

record PeerState =
  pr_record :: GossipRecord
  pr_phi :: PhiAccrual
  pr_connection_state :: ConnectionState
  pr_counters :: MeshPeerCounters

definition DEFAULT_PHI_SUSPECT_THRESHOLD :: f64 where "DEFAULT_PHI_SUSPECT_THRESHOLD = 8"

record MeshMembership =
  mm_local_runtime_id :: RuntimeId
  mm_local_record :: GossipRecord
  mm_peers :: "(RuntimeId, PeerState) hmap"
  mm_draining :: bool
  mm_stale_generation_rejections :: u64
  mm_foreign_relay_rejections :: u64
  mm_expected_relay_pubkey :: "string option"
  mm_phi_suspect_threshold :: f64

definition MeshMembership_new :: "GossipRecord \<Rightarrow> MeshMembership" where
  "MeshMembership_new r =
     \<lparr>mm_local_runtime_id = gr_runtime_id r, mm_local_record = r, mm_peers = [], mm_draining = False,
      mm_stale_generation_rejections = 0, mm_foreign_relay_rejections = 0,
      mm_expected_relay_pubkey = None, mm_phi_suspect_threshold = DEFAULT_PHI_SUSPECT_THRESHOLD\<rparr>"

definition with_expected_relay_pubkey :: "string \<Rightarrow> MeshMembership \<Rightarrow> MeshMembership" where
  "with_expected_relay_pubkey pk mm = mm\<lparr>mm_expected_relay_pubkey := Some pk\<rparr>"

definition with_phi_suspect_threshold :: "f64 \<Rightarrow> MeshMembership \<Rightarrow> MeshMembership" where
  "with_phi_suspect_threshold t mm = mm\<lparr>mm_phi_suspect_threshold := t\<rparr>"

definition fresh_counters :: "string \<Rightarrow> MeshPeerCounters" where
  "fresh_counters rid =
     \<lparr>pc_runtime_id = rid, pc_streams_opened = 0, pc_streams_received = 0, pc_datagrams_sent = 0,
      pc_datagrams_received = 0, pc_gossip_frames_sent = 0, pc_gossip_frames_received = 0,
      pc_stale_generation_rejections = 0\<rparr>"

definition apply_gossip_record ::
  "(RuntimeId \<Rightarrow> string) \<Rightarrow> GossipRecord \<Rightarrow> MeshMembership \<Rightarrow> bool \<times> MeshMembership" where
  "apply_gossip_record hx r mm =
     (if gr_runtime_id r = mm_local_runtime_id mm then (False, mm)
      else (let heartbeat = system_time_from_millis (gr_heartbeat_millis r)
        in case hm_get (mm_peers mm) (gr_runtime_id r) of
             Some peer \<Rightarrow>
               if gr_version r \<le> gr_version (pr_record peer) then (False, mm)
               else (True, mm\<lparr>mm_peers := hm_insert (gr_runtime_id r)
                      (peer\<lparr>pr_record := r, pr_connection_state := Connected,
                            pr_phi := observe heartbeat (pr_phi peer)\<rparr>) (mm_peers mm)\<rparr>)
           | None \<Rightarrow>
               (True, mm\<lparr>mm_peers := hm_insert (gr_runtime_id r)
                  \<lparr>pr_record = r, pr_phi = observe heartbeat PhiAccrual_default,
                   pr_connection_state = Connected,
                   pr_counters = fresh_counters (hx (gr_runtime_id r))\<rparr> (mm_peers mm)\<rparr>)))"

definition apply_gossip_records ::
  "(RuntimeId \<Rightarrow> string) \<Rightarrow> GossipRecord list \<Rightarrow> MeshMembership \<Rightarrow> MeshMembership" where
  "apply_gossip_records hx rs mm = foldl (\<lambda>mm r. snd (apply_gossip_record hx r mm)) mm rs"

definition apply_ready_record ::
  "attest_env \<Rightarrow> u64 \<Rightarrow> MeshMembership \<Rightarrow> ReadyRecord \<Rightarrow> MeshMembership" where
  "apply_ready_record E now_ms mm ready =
     (if rr_runtime_id ready = mm_local_runtime_id mm then mm
      else if mm_expected_relay_pubkey mm \<noteq> Some (rr_relay_pubkey ready)
      then mm\<lparr>mm_foreign_relay_rejections := mm_foreign_relay_rejections mm + 1\<rparr>
      else if \<not> is_ok (verify_attestation E ready) then mm
      else snd (apply_gossip_record (at_hex E)
        ((GossipRecord_new now_ms (rr_runtime_id ready) (rr_endpoint_addrs ready) (rr_proto_version ready))
          \<lparr>gr_capabilities := rr_capabilities ready\<rparr>) mm))"

definition apply_ready_records ::
  "attest_env \<Rightarrow> u64 \<Rightarrow> ReadyRecord list \<Rightarrow> MeshMembership \<Rightarrow> MeshMembership" where
  "apply_ready_records E now_ms rs mm = foldl (apply_ready_record E now_ms) mm rs"

definition mark_connection_state :: "RuntimeId \<Rightarrow> ConnectionState \<Rightarrow> MeshMembership \<Rightarrow> MeshMembership" where
  "mark_connection_state rid st mm =
     mm\<lparr>mm_peers := hm_modify rid (\<lambda>p. p\<lparr>pr_connection_state := st\<rparr>) (mm_peers mm)\<rparr>"

definition update_local ::
  "u64 \<Rightarrow> (GossipRecord \<Rightarrow> GossipRecord) \<Rightarrow> MeshMembership \<Rightarrow> GossipRecord \<times> MeshMembership" where
  "update_local now_ms update mm =
     (let r1 = update (mm_local_record mm);
          r2 = r1\<lparr>gr_version := sat_succ (gr_version r1), gr_heartbeat_millis := now_ms\<rparr>
      in (r2, mm\<lparr>mm_local_record := r2\<rparr>))"

definition has_peer :: "RuntimeId \<Rightarrow> MeshMembership \<Rightarrow> bool" where
  "has_peer rid mm = (hm_get (mm_peers mm) rid \<noteq> None)"

definition mm_records :: "MeshMembership \<Rightarrow> GossipRecord list" where
  "mm_records mm = map pr_record (hm_values (mm_peers mm)) @ [mm_local_record mm]"

definition mm_digest :: "(RuntimeId \<Rightarrow> string) \<Rightarrow> MeshMembership \<Rightarrow> GossipMessage" where
  "mm_digest hx mm = digest_of hx (mm_records mm)"

definition mm_delta_for ::
  "(RuntimeId \<Rightarrow> string) \<Rightarrow> MeshMembership \<Rightarrow> GossipDigestEntry list \<Rightarrow> GossipMessage" where
  "mm_delta_for hx mm digest = delta_of hx (mm_records mm) digest"

definition update_peer_counters ::
  "RuntimeId \<Rightarrow> (MeshPeerCounters \<Rightarrow> MeshPeerCounters) \<Rightarrow> MeshMembership \<Rightarrow> MeshMembership" where
  "update_peer_counters rid update mm =
     mm\<lparr>mm_peers := hm_modify rid (\<lambda>p. p\<lparr>pr_counters := update (pr_counters p)\<rparr>) (mm_peers mm)\<rparr>"

definition record_stream_opened :: "RuntimeId \<Rightarrow> MeshMembership \<Rightarrow> MeshMembership" where
  "record_stream_opened rid = update_peer_counters rid (pc_streams_opened_update sat_succ)"

definition record_stream_received :: "RuntimeId \<Rightarrow> MeshMembership \<Rightarrow> MeshMembership" where
  "record_stream_received rid = update_peer_counters rid (pc_streams_received_update sat_succ)"

definition record_datagram_sent :: "RuntimeId \<Rightarrow> MeshMembership \<Rightarrow> MeshMembership" where
  "record_datagram_sent rid = update_peer_counters rid (pc_datagrams_sent_update sat_succ)"

definition record_datagram_received :: "RuntimeId \<Rightarrow> MeshMembership \<Rightarrow> MeshMembership" where
  "record_datagram_received rid = update_peer_counters rid (pc_datagrams_received_update sat_succ)"

definition record_gossip_frame_sent :: "RuntimeId \<Rightarrow> MeshMembership \<Rightarrow> MeshMembership" where
  "record_gossip_frame_sent rid = update_peer_counters rid (pc_gossip_frames_sent_update sat_succ)"

definition record_gossip_frame_received :: "RuntimeId \<Rightarrow> MeshMembership \<Rightarrow> MeshMembership" where
  "record_gossip_frame_received rid = update_peer_counters rid (pc_gossip_frames_received_update sat_succ)"

definition record_stale_generation_rejection :: "RuntimeId option \<Rightarrow> MeshMembership \<Rightarrow> MeshMembership" where
  "record_stale_generation_rejection rid mm =
     (let mm1 = mm\<lparr>mm_stale_generation_rejections := mm_stale_generation_rejections mm + 1\<rparr>
      in case rid of
           None \<Rightarrow> mm1
         | Some r \<Rightarrow> update_peer_counters r (pc_stale_generation_rejections_update sat_succ) mm1)"

definition is_suspect :: "nat \<Rightarrow> MeshMembership \<Rightarrow> PeerState \<Rightarrow> bool" where
  "is_suspect now mm peer = is_some_and (phi_at now (pr_phi peer)) (\<lambda>p. p \<ge> mm_phi_suspect_threshold mm)"

record PeerInfo =
  pi_runtime_id :: RuntimeId
  pi_draining :: bool
  pi_phi :: "f64 option"
  pi_load :: f32

definition peer_info :: "nat \<Rightarrow> PeerState \<Rightarrow> PeerInfo" where
  "peer_info now p =
     \<lparr>pi_runtime_id = gr_runtime_id (pr_record p), pi_draining = gr_draining (pr_record p),
      pi_phi = phi_at now (pr_phi p), pi_load = gr_load (pr_record p)\<rparr>"

definition live_peers :: "nat \<Rightarrow> MeshMembership \<Rightarrow> PeerInfo list" where
  "live_peers now mm =
     List.map_filter (\<lambda>p. if is_suspect now mm p then None else Some (peer_info now p)) (hm_values (mm_peers mm))"

definition shown_state :: "nat \<Rightarrow> MeshMembership \<Rightarrow> PeerState \<Rightarrow> ConnectionState" where
  "shown_state now mm p = (if is_suspect now mm p then Suspect else pr_connection_state p)"

definition begin_drain :: "u64 \<Rightarrow> MeshMembership \<Rightarrow> MeshMembership" where
  "begin_drain now_ms mm = snd (update_local now_ms (gr_draining_update (\<lambda>_. True)) (mm\<lparr>mm_draining := True\<rparr>))"

section \<open>The runtime's decisions\<close>

text \<open>One gossip payload on a control stream: the new table and the payload queued in reply.\<close>

definition on_gossip ::
  "GossipMessage codec \<Rightarrow> (RuntimeId \<Rightarrow> string) \<Rightarrow> RuntimeId \<Rightarrow> bytes \<Rightarrow> MeshMembership \<Rightarrow>
   bytes option \<times> MeshMembership" where
  "on_gossip c hx remote payload mm =
     (let mm1 = record_gossip_frame_received remote mm
      in case decode_message c payload of
           Inl _ \<Rightarrow> (None, mm1)
         | Inr (Digest _ entries) \<Rightarrow>
             ((case encode_message c (mm_delta_for hx mm1 entries) of Inl _ \<Rightarrow> None | Inr b \<Rightarrow> Some b), mm1)
         | Inr (Delta _ records) \<Rightarrow> (None, apply_gossip_records hx records mm1))"

text \<open>One round of \<open>gossip_tick_loop\<close>: the heartbeat and the digest payload for every control stream.\<close>

definition gossip_tick ::
  "GossipMessage codec \<Rightarrow> (RuntimeId \<Rightarrow> string) \<Rightarrow> u64 \<Rightarrow> MeshMembership \<Rightarrow> bytes option \<times> MeshMembership" where
  "gossip_tick c hx now_ms mm =
     (let mm1 = snd (update_local now_ms (\<lambda>r. r) mm)
      in ((case encode_message c (mm_digest hx mm1) of Inl _ \<Rightarrow> None | Inr b \<Rightarrow> Some b), mm1))"

text \<open>\<open>scan\<close> is the registry rescan, if there is a registry and it answers.\<close>

definition is_known_peer ::
  "attest_env \<Rightarrow> u64 \<Rightarrow> ReadyRecord list option \<Rightarrow> RuntimeId \<Rightarrow> MeshMembership \<Rightarrow> bool \<times> MeshMembership" where
  "is_known_peer E now_ms scan rid mm =
     (if has_peer rid mm then (True, mm)
      else (let mm1 = (case scan of None \<Rightarrow> mm | Some rs \<Rightarrow> apply_ready_records E now_ms rs mm)
            in (has_peer rid mm1, mm1)))"

definition dial_candidates :: "MeshMembership \<Rightarrow> GossipRecord list" where
  "dial_candidates mm = filter (\<lambda>r. gr_runtime_id r \<noteq> mm_local_runtime_id mm \<and> \<not> gr_draining r) (mm_records mm)"

definition new_connection_wins :: "RuntimeId \<Rightarrow> RuntimeId \<Rightarrow> bool \<Rightarrow> bool" where
  "new_connection_wins local_id remote new_dialed_by_us =
     (if local_id < remote then new_dialed_by_us else \<not> new_dialed_by_us)"

text \<open>The connection table, reduced to who dialed the connection kept with each peer.\<close>

definition install_peer ::
  "RuntimeId \<Rightarrow> RuntimeId \<Rightarrow> bool \<Rightarrow> (RuntimeId, bool) hmap \<times> MeshMembership \<Rightarrow>
   bool \<times> (RuntimeId, bool) hmap \<times> MeshMembership" where
  "install_peer local_id remote dialed_by_us st =
     (case st of (conns, mm) \<Rightarrow>
        if hm_get conns remote \<noteq> None \<and> \<not> new_connection_wins local_id remote dialed_by_us
        then (False, conns, mm)
        else (True, hm_insert remote dialed_by_us conns, mark_connection_state remote Connected mm))"

definition remove_conn ::
  "RuntimeId \<Rightarrow> (RuntimeId, bool) hmap \<times> MeshMembership \<Rightarrow> (RuntimeId, bool) hmap \<times> MeshMembership" where
  "remove_conn remote st =
     (case st of (conns, mm) \<Rightarrow>
        if hm_get conns remote \<noteq> None
        then (hm_remove remote conns, mark_connection_state remote Disconnected mm) else (conns, mm))"

section \<open>Stores where the last version wins\<close>

definition newer :: "GossipRecord \<Rightarrow> GossipRecord option \<Rightarrow> bool" where
  "newer r x = is_none_or x (\<lambda>q. gr_version q < gr_version r)"

text \<open>The newer of what is known and what arrives; what is known wins a tie.\<close>

definition merge_record :: "GossipRecord option \<Rightarrow> GossipRecord option \<Rightarrow> GossipRecord option" where
  "merge_record x y = (case y of None \<Rightarrow> x | Some r \<Rightarrow> if newer r x then Some r else x)"

definition version_of :: "GossipRecord option \<Rightarrow> nat" where
  "version_of x = (case x of None \<Rightarrow> 0 | Some r \<Rightarrow> Suc (unat (gr_version r)))"

lemma newer_version: "newer r x \<longleftrightarrow> version_of x < version_of (Some r)"
  by (cases x) (simp_all add: newer_def version_of_def word_less_nat_alt)

lemma version_merge [simp]: "version_of (merge_record x y) = max (version_of x) (version_of y)"
  by (cases y) (auto simp: merge_record_def newer_version version_of_def split: option.splits)

lemma merge_record_cases: "merge_record x y = x \<or> merge_record x y = y"
  by (cases y) (simp_all add: merge_record_def)

lemma version_of_0 [simp]: "version_of x = 0 \<longleftrightarrow> x = None"
  by (cases x) (simp_all add: version_of_def)

lemma Max_insert_max: "finite S \<Longrightarrow> Max (insert (max a b) S) = Max (insert a (insert (b :: nat) S))"
  by (cases "S = {}") (simp_all add: max.assoc)

text \<open>A version is written once by its owner: records with the same runtime and version are the same.\<close>

definition coherent :: "GossipRecord set \<Rightarrow> bool" where
  "coherent S \<longleftrightarrow> (\<forall>q \<in> S. \<forall>r \<in> S. gr_runtime_id q = gr_runtime_id r \<and> gr_version q = gr_version r \<longrightarrow> q = r)"

lemma same_version_same:
  assumes "coherent S" and "x = None \<or> (\<exists>q \<in> S. gr_runtime_id q = k \<and> x = Some q)"
    and "y = None \<or> (\<exists>q \<in> S. gr_runtime_id q = k \<and> y = Some q)"
    and "version_of x = version_of y"
  shows "x = y"
  using assms by (cases x; cases y) (auto simp: version_of_def coherent_def word_unat_eq_iff)

locale gossip_store =
  fixes lookup :: "'m \<Rightarrow> RuntimeId \<Rightarrow> GossipRecord option"
    and put :: "GossipRecord \<Rightarrow> 'm \<Rightarrow> 'm"
    and accepts :: "'m \<Rightarrow> RuntimeId \<Rightarrow> bool"
  assumes lookup_put: "lookup (put r m) k =
      (if k = gr_runtime_id r \<and> accepts m k then merge_record (lookup m k) (Some r) else lookup m k)"
    and accepts_put: "accepts (put r m) k = accepts m k"
begin

definition put_all :: "GossipRecord list \<Rightarrow> 'm \<Rightarrow> 'm" where
  "put_all rs m = foldl (\<lambda>m r. put r m) m rs"

lemma accepts_put_all: "accepts (put_all rs m) k = accepts m k"
  unfolding put_all_def by (induction rs arbitrary: m) (simp_all add: accepts_put)

lemma refused_unchanged: "\<not> accepts m k \<Longrightarrow> lookup (put_all rs m) k = lookup m k"
  unfolding put_all_def by (induction rs arbitrary: m) (simp_all add: accepts_put lookup_put)

text \<open>The version known of a runtime after any deltas is the largest ever offered.\<close>

lemma version_put_all:
  "accepts m k \<Longrightarrow> version_of (lookup (put_all rs m) k) =
     Max (insert (version_of (lookup m k)) ((\<lambda>r. version_of (Some r)) ` {r \<in> set rs. gr_runtime_id r = k}))"
proof (induction rs arbitrary: m)
  case (Cons r rs)
  let ?S = "(\<lambda>r. version_of (Some r)) ` {r \<in> set rs. gr_runtime_id r = k}"
  have split: "{q \<in> set (r # rs). gr_runtime_id q = k} =
      (if gr_runtime_id r = k then insert r {q \<in> set rs. gr_runtime_id q = k} else {q \<in> set rs. gr_runtime_id q = k})"
    by auto
  have "version_of (lookup (put_all (r # rs) m) k) = Max (insert (version_of (lookup (put r m) k)) ?S)"
    using Cons by (simp add: put_all_def accepts_put)
  also have "\<dots> = (if gr_runtime_id r = k then Max (insert (version_of (lookup m k)) (insert (version_of (Some r)) ?S))
      else Max (insert (version_of (lookup m k)) ?S))"
    using Cons.prems by (simp add: lookup_put Max_insert_max)
  finally show ?case
    unfolding split by (cases "gr_runtime_id r = k") (simp_all only: simp_thms if_True if_False image_insert)
qed (simp add: put_all_def)

lemma put_all_source:
  "lookup (put_all rs m) k = lookup m k \<or>
   (\<exists>r \<in> set rs. gr_runtime_id r = k \<and> accepts m k \<and> lookup (put_all rs m) k = Some r)"
proof (induction rs arbitrary: m)
  case (Cons r rs)
  have "put_all (r # rs) m = put_all rs (put r m)" by (simp add: put_all_def)
  with Cons.IH [of "put r m"] show ?case
    using merge_record_cases [of "lookup m k" "Some r"] by (auto simp: lookup_put accepts_put split: if_splits)
qed (simp add: put_all_def)

text \<open>A delta names each runtime once.\<close>

lemma put_all_distinct:
  "distinct (map gr_runtime_id rs) \<Longrightarrow> accepts m k \<Longrightarrow>
   lookup (put_all rs m) k = merge_record (lookup m k) (map_of (map (\<lambda>r. (gr_runtime_id r, r)) rs) k)"
proof (induction rs arbitrary: m)
  case (Cons r rs)
  have "put_all (r # rs) m = put_all rs (put r m)" by (simp add: put_all_def)
  moreover have "map_of (map (\<lambda>r. (gr_runtime_id r, r)) rs) k = None" if "gr_runtime_id r = k"
    using Cons.prems(1) that by (auto simp: map_of_eq_None_iff comp_def)
  ultimately show ?case
    using Cons.IH [of "put r m"] Cons.prems by (auto simp: lookup_put accepts_put merge_record_def)
qed (simp add: put_all_def merge_record_def)

text \<open>For coherent records the order, the grouping and the repetition of deltas do not matter.\<close>

lemma put_all_order:
  assumes "set rs = set rs'" and "coherent (set rs \<union> set_option (lookup m k))"
    and "\<And>q. lookup m k = Some q \<Longrightarrow> gr_runtime_id q = k"
  shows "lookup (put_all rs m) k = lookup (put_all rs' m) k"
proof (cases "accepts m k")
  case True
  have known: "lookup (put_all xs m) k = None \<or>
      (\<exists>q \<in> set rs \<union> set_option (lookup m k). gr_runtime_id q = k \<and> lookup (put_all xs m) k = Some q)"
    if "set xs = set rs" for xs
    using put_all_source [of xs m k] assms(3) that by (cases "lookup m k") auto
  show ?thesis
    by (rule same_version_same [OF assms(2) known [OF refl] known [OF assms(1) [symmetric]]])
      (simp add: version_put_all [OF True] assms(1))
qed (simp add: refused_unchanged)

end

subsection \<open>The two providers\<close>

lemma put_gossip_state:
  "hm_get (snd (apply_record (changed, st) r)) k =
     (if k = gr_runtime_id r \<and> True then merge_record (hm_get st k) (Some r) else hm_get st k)"
  by (auto simp: apply_record_def merge_record_def newer_def is_none_or_def split: option.splits)

interpretation gst: gossip_store hm_get "\<lambda>r st. snd (apply_record ([], st) r)" "\<lambda>_ _. True"
  by unfold_locales (simp_all only: put_gossip_state)

definition peer_record :: "MeshMembership \<Rightarrow> RuntimeId \<Rightarrow> GossipRecord option" where
  "peer_record mm k = map_option pr_record (hm_get (mm_peers mm) k)"

lemma put_membership:
  "peer_record (snd (apply_gossip_record hx r mm)) k =
     (if k = gr_runtime_id r \<and> k \<noteq> mm_local_runtime_id mm
      then merge_record (peer_record mm k) (Some r) else peer_record mm k)"
  by (auto simp: apply_gossip_record_def peer_record_def merge_record_def newer_def is_none_or_def Let_def
      split: option.splits)

lemma apply_gossip_local [simp]:
  "mm_local_runtime_id (snd (apply_gossip_record hx r mm)) = mm_local_runtime_id mm"
  "mm_local_record (snd (apply_gossip_record hx r mm)) = mm_local_record mm"
  by (simp_all add: apply_gossip_record_def Let_def split: option.splits)

interpretation mst: gossip_store peer_record "\<lambda>r mm. snd (apply_gossip_record hx r mm)"
  "\<lambda>mm k. k \<noteq> mm_local_runtime_id mm"
  by unfold_locales (simp_all add: put_membership)

lemma mst_put_all: "mst.put_all hx rs mm = apply_gossip_records hx rs mm"
  by (simp add: mst.put_all_def apply_gossip_records_def)

section \<open>The table invariant\<close>

definition phi_ok :: "PhiAccrual \<Rightarrow> bool" where
  "phi_ok p \<longleftrightarrow> length (ph_samples p) \<le> ph_max_samples p \<and> list_all (\<lambda>x. 0 < x) (ph_samples p)
     \<and> ph_max_samples p = 100"

definition mm_inv :: "MeshMembership \<Rightarrow> bool" where
  "mm_inv mm \<longleftrightarrow>
     hm_wf (mm_peers mm) \<and> hm_get (mm_peers mm) (mm_local_runtime_id mm) = None
     \<and> gr_runtime_id (mm_local_record mm) = mm_local_runtime_id mm
     \<and> (\<forall>k p. hm_get (mm_peers mm) k = Some p \<longrightarrow> gr_runtime_id (pr_record p) = k \<and> phi_ok (pr_phi p))"

lemma phi_ok_default [simp]: "phi_ok PhiAccrual_default"
  by (simp add: phi_ok_def PhiAccrual_default_def PhiAccrual_new_def)

lemma phi_ok_observe [simp]: "phi_ok p \<Longrightarrow> phi_ok (observe t p)"
  by (cases "ph_samples p")
    (auto simp: phi_ok_def observe_def push_sample_def Let_def list_all_iff split: option.splits)

lemma mm_inv_apply [simp]: "mm_inv mm \<Longrightarrow> mm_inv (snd (apply_gossip_record hx r mm))"
  by (auto simp: mm_inv_def apply_gossip_record_def Let_def split: option.splits)

lemma mm_inv_apply_all: "mm_inv mm \<Longrightarrow> mm_inv (apply_gossip_records hx rs mm)"
  unfolding apply_gossip_records_def by (induction rs arbitrary: mm) simp_all

lemma mm_inv_ready [simp]: "mm_inv mm \<Longrightarrow> mm_inv (apply_ready_record E now_ms mm ready)"
proof -
  assume inv: "mm_inv mm"
  then have "mm_inv (mm\<lparr>mm_foreign_relay_rejections := n\<rparr>)" for n by (simp add: mm_inv_def)
  with inv show ?thesis by (simp add: apply_ready_record_def)
qed

lemma mm_inv_modify:
  assumes "mm_inv mm" and "\<And>p. pr_record (f p) = pr_record p \<and> pr_phi (f p) = pr_phi p"
  shows "mm_inv (mm\<lparr>mm_peers := hm_modify rid f (mm_peers mm)\<rparr>)"
  using assms by (auto simp: mm_inv_def)

lemma mm_inv_counters [simp]: "mm_inv mm \<Longrightarrow> mm_inv (update_peer_counters rid f mm)"
  unfolding update_peer_counters_def by (rule mm_inv_modify) simp_all

lemma mm_inv_mark [simp]: "mm_inv mm \<Longrightarrow> mm_inv (mark_connection_state rid st mm)"
  unfolding mark_connection_state_def by (rule mm_inv_modify) simp_all

lemma mm_inv_update_local:
  "mm_inv mm \<Longrightarrow> (\<And>r. gr_runtime_id (f r) = gr_runtime_id r) \<Longrightarrow> mm_inv (snd (update_local now_ms f mm))"
  by (simp add: mm_inv_def update_local_def Let_def)

lemma mm_inv_drain [simp]: "mm_inv mm \<Longrightarrow> mm_inv (begin_drain now_ms mm)"
proof -
  assume "mm_inv mm"
  then have "mm_inv (mm\<lparr>mm_draining := True\<rparr>)" by (simp add: mm_inv_def)
  then show ?thesis unfolding begin_drain_def by (rule mm_inv_update_local) simp
qed

datatype MeshOp =
    MGossip "GossipRecord list"
  | MReady u64 "ReadyRecord list"
  | MMark RuntimeId ConnectionState
  | MHeartbeat u64
  | MDrain u64
  | MCount RuntimeId "MeshPeerCounters \<Rightarrow> MeshPeerCounters"
  | MStale "RuntimeId option"

fun mesh_step :: "attest_env \<Rightarrow> MeshMembership \<Rightarrow> MeshOp \<Rightarrow> MeshMembership" where
  "mesh_step E mm (MGossip rs) = apply_gossip_records (at_hex E) rs mm"
| "mesh_step E mm (MReady now_ms rs) = apply_ready_records E now_ms rs mm"
| "mesh_step E mm (MMark rid st) = mark_connection_state rid st mm"
| "mesh_step E mm (MHeartbeat now_ms) = snd (update_local now_ms (\<lambda>r. r) mm)"
| "mesh_step E mm (MDrain now_ms) = begin_drain now_ms mm"
| "mesh_step E mm (MCount rid f) = update_peer_counters rid f mm"
| "mesh_step E mm (MStale rid) = record_stale_generation_rejection rid mm"

lemma mm_inv_ready_all: "mm_inv mm \<Longrightarrow> mm_inv (apply_ready_records E now_ms rs mm)"
  unfolding apply_ready_records_def by (induction rs arbitrary: mm) simp_all

lemma mm_inv_stale [simp]: "mm_inv mm \<Longrightarrow> mm_inv (record_stale_generation_rejection rid mm)"
proof -
  assume "mm_inv mm"
  then have "mm_inv (mm\<lparr>mm_stale_generation_rejections := n\<rparr>)" for n by (simp add: mm_inv_def)
  then show ?thesis by (simp add: record_stale_generation_rejection_def Let_def split: option.splits)
qed

lemma mesh_step_inv: "mm_inv mm \<Longrightarrow> mm_inv (mesh_step E mm op)"
  by (cases op) (simp_all add: mm_inv_apply_all mm_inv_ready_all mm_inv_update_local)

lemma mm_inv_new [simp]: "mm_inv (MeshMembership_new r\<lparr>mm_expected_relay_pubkey := pk, mm_phi_suspect_threshold := t\<rparr>)"
  by (simp add: mm_inv_def MeshMembership_new_def)

text \<open>A fresh table, with or without an anchor.\<close>

definition fresh_table :: "GossipRecord \<Rightarrow> string option \<Rightarrow> f64 \<Rightarrow> MeshMembership" where
  "fresh_table r pk t = MeshMembership_new r\<lparr>mm_expected_relay_pubkey := pk, mm_phi_suspect_threshold := t\<rparr>"

interpretation mesh: invariant_machine "mesh_step E" "fresh_table r pk t" mm_inv
  by unfold_locales (simp_all add: mesh_step_inv fresh_table_def)

subsection \<open>Who gets into the table\<close>

definition admissible :: "attest_env \<Rightarrow> string option \<Rightarrow> ReadyRecord \<Rightarrow> bool" where
  "admissible E pk ready \<longleftrightarrow> pk = Some (rr_relay_pubkey ready) \<and> verify_attestation E ready = Ok ()"

fun op_names :: "attest_env \<Rightarrow> string option \<Rightarrow> MeshOp \<Rightarrow> RuntimeId set" where
  "op_names E pk (MGossip rs) = gr_runtime_id ` set rs"
| "op_names E pk (MReady _ rs) = rr_runtime_id ` {r \<in> set rs. admissible E pk r}"
| "op_names E pk _ = {}"

definition table_ids :: "MeshMembership \<Rightarrow> RuntimeId set" where
  "table_ids mm = {k. has_peer k mm}"

lemma table_apply [simp]:
  "table_ids (snd (apply_gossip_record hx r mm)) =
     table_ids mm \<union> ({gr_runtime_id r} - {mm_local_runtime_id mm})"
  by (auto simp: table_ids_def has_peer_def apply_gossip_record_def Let_def split: option.splits if_splits)

lemma apply_gossip_anchor [simp]:
  "mm_expected_relay_pubkey (snd (apply_gossip_record hx r mm)) = mm_expected_relay_pubkey mm"
  by (simp add: apply_gossip_record_def Let_def split: option.splits)

lemma table_apply_all:
  "table_ids (apply_gossip_records hx rs mm) =
     table_ids mm \<union> (gr_runtime_id ` set rs - {mm_local_runtime_id mm})
   \<and> mm_local_runtime_id (apply_gossip_records hx rs mm) = mm_local_runtime_id mm
   \<and> mm_expected_relay_pubkey (apply_gossip_records hx rs mm) = mm_expected_relay_pubkey mm"
  unfolding apply_gossip_records_def by (induction rs arbitrary: mm) auto

lemma table_ready:
  "table_ids (apply_ready_record E now_ms mm ready) =
     table_ids mm \<union> ((if admissible E (mm_expected_relay_pubkey mm) ready then {rr_runtime_id ready} else {})
        - {mm_local_runtime_id mm})
   \<and> mm_local_runtime_id (apply_ready_record E now_ms mm ready) = mm_local_runtime_id mm
   \<and> mm_expected_relay_pubkey (apply_ready_record E now_ms mm ready) = mm_expected_relay_pubkey mm"
proof -
  have "table_ids (mm\<lparr>mm_foreign_relay_rejections := n\<rparr>) = table_ids mm" for n
    by (simp add: table_ids_def has_peer_def)
  then show ?thesis
    by (auto simp: apply_ready_record_def admissible_def is_ok_unit_conv GossipRecord_new_def)
qed

lemma table_ready_all:
  "table_ids (apply_ready_records E now_ms rs mm) =
     table_ids mm \<union> (rr_runtime_id ` {r \<in> set rs. admissible E (mm_expected_relay_pubkey mm) r}
        - {mm_local_runtime_id mm})
   \<and> mm_local_runtime_id (apply_ready_records E now_ms rs mm) = mm_local_runtime_id mm
   \<and> mm_expected_relay_pubkey (apply_ready_records E now_ms rs mm) = mm_expected_relay_pubkey mm"
  unfolding apply_ready_records_def
proof (induction rs arbitrary: mm)
  case (Cons r rs)
  show ?case using Cons.IH [of "apply_ready_record E now_ms mm r"] table_ready [of E now_ms mm r] by auto
qed simp

lemma table_step:
  "table_ids (mesh_step E mm op) =
     table_ids mm \<union> (op_names E (mm_expected_relay_pubkey mm) op - {mm_local_runtime_id mm})
   \<and> mm_local_runtime_id (mesh_step E mm op) = mm_local_runtime_id mm
   \<and> mm_expected_relay_pubkey (mesh_step E mm op) = mm_expected_relay_pubkey mm"
  using table_apply_all table_ready_all
  by (cases op)
    (auto simp: table_ids_def has_peer_def mark_connection_state_def update_peer_counters_def
      update_local_def begin_drain_def record_stale_generation_rejection_def Let_def
      split: option.splits if_splits)

lemma table_run:
  "table_ids (foldl (mesh_step E) mm ops) =
     table_ids mm \<union> ((\<Union>op \<in> set ops. op_names E (mm_expected_relay_pubkey mm) op) - {mm_local_runtime_id mm})
   \<and> mm_local_runtime_id (foldl (mesh_step E) mm ops) = mm_local_runtime_id mm"
proof (induction ops arbitrary: mm)
  case (Cons op ops)
  show ?case using Cons.IH [of "mesh_step E mm op"] table_step [of E mm op] by auto
qed simp

section \<open>Exchanges\<close>

text \<open>What a runtime knows: its own record and the table.\<close>

definition known :: "MeshMembership \<Rightarrow> RuntimeId \<Rightarrow> GossipRecord option" where
  "known mm k = (if k = mm_local_runtime_id mm then Some (mm_local_record mm) else peer_record mm k)"

lemma records_known:
  assumes "mm_inv mm"
  shows "r \<in> set (mm_records mm) \<longleftrightarrow> known mm (gr_runtime_id r) = Some r"
proof -
  have wf: "hm_wf (mm_peers mm)"
    and ids: "hm_get (mm_peers mm) k = Some p \<Longrightarrow> gr_runtime_id (pr_record p) = k" for k p
    using assms unfolding mm_inv_def by blast+
  have "r \<in> pr_record ` snd ` set (mm_peers mm) \<longleftrightarrow> (\<exists>k p. hm_get (mm_peers mm) k = Some p \<and> pr_record p = r)"
    unfolding hm.entries_get [OF wf, symmetric] by (force simp: image_iff)
  also have "\<dots> \<longleftrightarrow> peer_record mm (gr_runtime_id r) = Some r"
    using ids unfolding peer_record_def by (auto simp: map_option_case split: option.splits)
  finally have "r \<in> pr_record ` snd ` set (mm_peers mm) \<longleftrightarrow> peer_record mm (gr_runtime_id r) = Some r" .
  moreover have "peer_record mm (mm_local_runtime_id mm) = None"
    using assms by (simp add: mm_inv_def peer_record_def)
  ultimately show ?thesis
    using assms by (auto simp: mm_records_def hm_values_def known_def mm_inv_def)
qed

lemma records_id: "mm_inv mm \<Longrightarrow> known mm k = Some r \<Longrightarrow> gr_runtime_id r = k"
  by (auto simp: known_def mm_inv_def peer_record_def split: if_splits)

lemma records_distinct:
  assumes "mm_inv mm"
  shows "distinct (map gr_runtime_id (mm_records mm))"
proof -
  let ?id = "\<lambda>x :: RuntimeId \<times> PeerState. gr_runtime_id (pr_record (snd x))"
  have keys: "map ?id (mm_peers mm) = map fst (mm_peers mm)"
    using assms unfolding mm_inv_def by (intro map_cong) (auto simp: hm.entries_get)
  have "mm_local_runtime_id mm \<notin> set (map ?id (mm_peers mm))" "distinct (map ?id (mm_peers mm))"
    using assms hm_key_iff [of "mm_local_runtime_id mm" "mm_peers mm"] unfolding keys
    by (simp_all add: mm_inv_def hm_wf_def hm_keys_def)
  then show ?thesis
    using assms by (simp add: mm_records_def hm_values_def mm_inv_def comp_def)
qed

lemma option_eqI: "(\<And>w. x = Some w \<longleftrightarrow> y = Some w) \<Longrightarrow> x = y"
  by (cases x; cases y) auto

lemma distinct_ids_sort:
  "distinct (map f xs) \<Longrightarrow> distinct (map f (sort_key g xs))"
  by (simp add: distinct_map)

lemma hm_get_fold_insert:
  "hm_get (foldl (\<lambda>m e. hm_insert (f e) (g e) m) m es) k =
     (case map_of (rev (map (\<lambda>e. (f e, g e)) es)) k of None \<Rightarrow> hm_get m k | Some v \<Rightarrow> Some v)"
  by (induction es arbitrary: m) (auto simp: map_add_def split: option.splits)

lemma digest_versions_get:
  assumes "distinct (map de_runtime_id es)"
  shows "hm_get (digest_versions es) k = Some v \<longleftrightarrow> (\<exists>e \<in> set es. de_runtime_id e = k \<and> de_version e = v)"
proof -
  let ?xs = "map (\<lambda>e. (de_runtime_id e, de_version e)) es"
  have "distinct (map fst (rev ?xs))" using assms by (simp add: rev_map [symmetric] comp_def)
  then have "map_of (rev ?xs) k = Some v \<longleftrightarrow> (k, v) \<in> set ?xs" by (simp add: map_of_eq_Some_iff)
  then show ?thesis
    by (auto simp: digest_versions_def hm_get_fold_insert split: option.splits)
qed

lemma digest_covers:
  assumes "mm_inv mm" and "mm_digest hx mm = Digest v es"
  shows "hm_get (digest_versions es) k = map_option gr_version (known mm k)"
proof -
  have es: "es = sort_key (\<lambda>e. hx (de_runtime_id e)) (map digest_entry (mm_records mm))"
    using assms(2) by (simp add: mm_digest_def digest_of_def)
  have "distinct (map de_runtime_id es)"
    unfolding es using records_distinct [OF assms(1)]
    by (intro distinct_ids_sort) (simp add: digest_entry_def comp_def)
  moreover have "(\<exists>e \<in> set es. de_runtime_id e = k \<and> de_version e = w) \<longleftrightarrow>
      map_option gr_version (known mm k) = Some w" for w
  proof -
    have "(\<exists>e \<in> set es. de_runtime_id e = k \<and> de_version e = w) \<longleftrightarrow>
        (\<exists>r \<in> set (mm_records mm). gr_runtime_id r = k \<and> gr_version r = w)"
      unfolding es by (simp add: digest_entry_def)
    also have "\<dots> \<longleftrightarrow> (\<exists>r. known mm k = Some r \<and> gr_version r = w)"
      unfolding Bex_def records_known [OF assms(1)] using records_id [OF assms(1), of k] by blast
    finally show ?thesis by simp
  qed
  ultimately show ?thesis by (intro option_eqI) (simp add: digest_versions_get)
qed

lemma delta_behind:
  assumes "mm_inv mm" and "mm_digest hx mm = Digest v es"
  shows "behind (digest_versions es) r \<longleftrightarrow> newer r (known mm (gr_runtime_id r))"
  by (simp add: behind_def newer_def digest_covers [OF assms] is_none_or_def split: option.splits)

lemma delta_records:
  assumes "mm_inv A" "mm_inv B" and "mm_digest hx A = Digest v es" and "mm_delta_for hx B es = Delta w rs"
  shows "distinct (map gr_runtime_id rs)"
    and "r \<in> set rs \<longleftrightarrow> known B (gr_runtime_id r) = Some r \<and> newer r (known A (gr_runtime_id r))"
proof -
  have rs: "rs = sort_key (\<lambda>r. hx (gr_runtime_id r)) (filter (behind (digest_versions es)) (mm_records B))"
    using assms(4) by (simp add: mm_delta_for_def delta_of_def)
  show "distinct (map gr_runtime_id rs)"
    unfolding rs using records_distinct [OF assms(2)] by (intro distinct_ids_sort distinct_map_filter)
  show "r \<in> set rs \<longleftrightarrow> known B (gr_runtime_id r) = Some r \<and> newer r (known A (gr_runtime_id r))"
    unfolding rs by (auto simp: records_known [OF assms(2)] delta_behind [OF assms(1,3)])
qed

lemma known_apply_all:
  "known (apply_gossip_records hx rs mm) k =
     (if k = mm_local_runtime_id mm then Some (mm_local_record mm)
      else peer_record (apply_gossip_records hx rs mm) k)"
proof -
  have "mm_local_runtime_id (apply_gossip_records hx rs mm) = mm_local_runtime_id mm"
    "mm_local_record (apply_gossip_records hx rs mm) = mm_local_record mm"
    unfolding apply_gossip_records_def by (induction rs arbitrary: mm) simp_all
  then show ?thesis by (simp add: known_def)
qed

lemma map_of_key:
  "distinct (map f xs) \<Longrightarrow> map_of (map (\<lambda>x. (f x, x)) xs) k = Some x \<longleftrightarrow> x \<in> set xs \<and> f x = k"
  by (induction xs) (auto simp: image_iff)

lemma delta_joins:
  assumes "mm_inv A" "mm_inv B" and "mm_digest hx A = Digest v es" and "mm_delta_for hx B es = Delta w rs"
    and "known A1 = known A"
  shows "known (apply_gossip_records hx rs A1) k =
    (if k = mm_local_runtime_id A1 then Some (mm_local_record A1) else merge_record (known A k) (known B k))"
proof (cases "k = mm_local_runtime_id A1")
  case False
  note d = delta_records [OF assms(1-4)]
  let ?found = "map_of (map (\<lambda>r. (gr_runtime_id r, r)) rs) k"
  have found: "?found = Some r \<longleftrightarrow> known B k = Some r \<and> newer r (known A k)" for r
  proof -
    have "?found = Some r \<longleftrightarrow> r \<in> set rs \<and> gr_runtime_id r = k" by (rule map_of_key [OF d(1)])
    also have "\<dots> \<longleftrightarrow> known B k = Some r \<and> newer r (known A k)"
    proof
      assume "r \<in> set rs \<and> gr_runtime_id r = k"
      then show "known B k = Some r \<and> newer r (known A k)" using d(2) [of r] by blast
    next
      assume a: "known B k = Some r \<and> newer r (known A k)"
      then have "gr_runtime_id r = k" using records_id [OF assms(2)] by blast
      with a d(2) [of r] show "r \<in> set rs \<and> gr_runtime_id r = k" by blast
    qed
    finally show ?thesis .
  qed
  have "merge_record (known A k) ?found = merge_record (known A k) (known B k)"
  proof (cases "known B k")
    case None
    with found have "?found = None" by (cases ?found) auto
    with None show ?thesis by simp
  next
    case (Some r)
    with found [of r] have "newer r (known A k) \<Longrightarrow> ?found = Some r" by blast
    moreover have "?found = None" if "\<not> newer r (known A k)"
      using found Some that by (cases ?found) (simp, metis option.inject)
    ultimately show ?thesis using Some by (cases "newer r (known A k)") (simp_all add: merge_record_def)
  qed
  moreover have "peer_record A1 k = known A k" using False assms(5) by (simp add: known_def [of A1] flip: assms(5))
  ultimately show ?thesis
    using False mst.put_all_distinct [OF d(1), where m = A1 and k = k and hx = hx] by (simp add: known_apply_all mst_put_all)
qed (simp add: known_apply_all)

lemma counters_local [simp]:
  "mm_local_runtime_id (update_peer_counters rid f mm) = mm_local_runtime_id mm"
  "mm_local_record (update_peer_counters rid f mm) = mm_local_record mm"
  by (simp_all add: update_peer_counters_def)

lemma known_counters [simp]: "known (update_peer_counters rid f mm) = known mm"
  by (rule ext) (simp add: known_def peer_record_def update_peer_counters_def option.map_comp comp_def)

text \<open>
  One exchange on a control stream: \<open>A\<close> sends its digest, \<open>B\<close> answers with a delta, \<open>A\<close> applies it.
  \<open>None\<close> when a message does not encode.
\<close>

definition gossip_pull ::
  "GossipMessage codec \<Rightarrow> (RuntimeId \<Rightarrow> string) \<Rightarrow> MeshMembership \<Rightarrow> MeshMembership \<Rightarrow>
   (MeshMembership \<times> MeshMembership) option" where
  "gossip_pull c hx A B =
     (case encode_message c (mm_digest hx A) of
        Inl _ \<Rightarrow> None
      | Inr p1 \<Rightarrow>
          (case on_gossip c hx (mm_local_runtime_id A) p1 B of
             (None, _) \<Rightarrow> None
           | (Some p2, B1) \<Rightarrow> Some (snd (on_gossip c hx (mm_local_runtime_id B) p2 A), B1)))"

definition codec_works :: "GossipMessage codec \<Rightarrow> GossipMessage \<Rightarrow> bool" where
  "codec_works c msg \<longleftrightarrow> (\<exists>b. pc_to c msg = Ok b \<and> pc_from c b = Ok msg)"

lemma codec_worksD:
  assumes "codec_works c msg" and "message_version msg = GOSSIP_PAYLOAD_VERSION"
  obtains b where "encode_message c msg = Inr b" and "decode_message c b = Inr msg"
  using assms by (auto simp: codec_works_def encode_message_def decode_message_def)

lemma pull_joins:
  assumes "mm_inv A" "mm_inv B" and "codec_works c (mm_digest hx A)"
    and "\<And>es. codec_works c (mm_delta_for hx (record_gossip_frame_received (mm_local_runtime_id A) B) es)"
  shows "\<exists>A1 B1. gossip_pull c hx A B = Some (A1, B1) \<and> known B1 = known B
    \<and> (\<forall>k. known A1 k = (if k = mm_local_runtime_id A then Some (mm_local_record A)
                           else merge_record (known A k) (known B k)))"
proof -
  let ?a = "mm_local_runtime_id A" and ?b = "mm_local_runtime_id B"
  let ?B1 = "record_gossip_frame_received ?a B" and ?A1 = "record_gossip_frame_received ?b A"
  have B1: "mm_inv ?B1" "known ?B1 = known B" and A1: "mm_inv ?A1" "known ?A1 = known A"
    "mm_local_runtime_id ?A1 = ?a" "mm_local_record ?A1 = mm_local_record A"
    using assms(1,2) by (simp_all add: record_gossip_frame_received_def)
  obtain v es where dig: "mm_digest hx A = Digest v es" "v = GOSSIP_PAYLOAD_VERSION"
    by (simp add: mm_digest_def digest_of_def)
  obtain w rs where del: "mm_delta_for hx ?B1 es = Delta w rs" "w = GOSSIP_PAYLOAD_VERSION"
    by (simp add: mm_delta_for_def delta_of_def)
  obtain p1 where p1: "encode_message c (Digest v es) = Inr p1" "decode_message c p1 = Inr (Digest v es)"
    using codec_worksD [OF assms(3)] dig by auto
  obtain p2 where p2: "encode_message c (Delta w rs) = Inr p2" "decode_message c p2 = Inr (Delta w rs)"
    using codec_worksD [OF assms(4) [of es]] del by auto
  have "gossip_pull c hx A B = Some (apply_gossip_records hx rs ?A1, ?B1)"
    using p1 p2 dig(1) del(1) by (simp add: gossip_pull_def on_gossip_def Let_def)
  with delta_joins [OF assms(1) B1(1) dig(1) del(1) A1(2)] B1(2) A1(3,4) show ?thesis by simp
qed

section \<open>Suspicion\<close>

lemma mean_positive:
  assumes "phi_ok p" and "ph_samples p \<noteq> []"
  shows "f64_EPSILON < mean_secs p" and "0 < mean_secs p"
proof -
  have "of_nat (length xs) / 1000000000 \<le> sum_list (map secs xs)" if "list_all (\<lambda>x. 0 < x) xs" for xs
    using that
  proof (induction xs)
    case (Cons x xs)
    then have "1 / 1000000000 \<le> secs x" by (simp add: secs_def divide_right_mono)
    with Cons show ?case by (simp add: add_divide_distrib)
  qed simp
  with assms have "1 / 1000000000 \<le> mean_secs p"
    by (simp add: phi_ok_def mean_secs_def pos_le_divide_eq)
  then show "f64_EPSILON < mean_secs p" "0 < mean_secs p" by (simp_all add: f64_EPSILON_def)
qed

lemma suspect_iff:
  assumes "phi_ok (pr_phi p)"
  shows "is_suspect now mm p \<longleftrightarrow>
    ph_samples (pr_phi p) \<noteq> [] \<and> (\<exists>hb. ph_last_heartbeat (pr_phi p) = Some hb \<and> hb \<le> now
      \<and> mm_phi_suspect_threshold mm * (LN_10 * mean_secs (pr_phi p)) \<le> secs (now - hb))"
proof (cases "ph_samples (pr_phi p) = []")
  case False
  note mean = mean_positive [OF assms False]
  have ln: "(0 :: rat) < LN_10" by (simp add: LN_10_def)
  have "t \<le> x / mean_secs (pr_phi p) / LN_10 \<longleftrightarrow> t * (LN_10 * mean_secs (pr_phi p)) \<le> x" for t x
    using mean(2) ln by (simp add: pos_le_divide_eq ac_simps)
  with False mean(1) show ?thesis
    by (auto simp: is_suspect_def phi_at_def Let_def not_le not_less split: option.splits)
qed (auto simp: is_suspect_def phi_at_def split: option.splits)

lemma live_peers_ids:
  assumes "mm_inv mm"
  shows "set (map pi_runtime_id (live_peers now mm)) =
      {k. \<exists>p. hm_get (mm_peers mm) k = Some p \<and> \<not> is_suspect now mm p}"
    and "distinct (map pi_runtime_id (live_peers now mm))"
proof -
  have wf: "hm_wf (mm_peers mm)"
    and ids: "\<And>k p. hm_get (mm_peers mm) k = Some p \<Longrightarrow> gr_runtime_id (pr_record p) = k"
    using assms unfolding mm_inv_def by blast+
  have eq: "map pi_runtime_id (live_peers now mm) =
      map fst (filter (\<lambda>x. \<not> is_suspect now mm (snd x)) (mm_peers mm))"
  proof -
    have "map pi_runtime_id (List.map_filter (\<lambda>p. if is_suspect now mm p then None else Some (peer_info now p)) (map snd xs)) =
        map fst (filter (\<lambda>x. \<not> is_suspect now mm (snd x)) xs)"
      if "\<And>k p. (k, p) \<in> set xs \<Longrightarrow> gr_runtime_id (pr_record p) = k" for xs
      using that by (induction xs) (auto simp: List.map_filter_simps peer_info_def)
    then show ?thesis
      unfolding live_peers_def hm_values_def using ids hm.entries_get [OF wf] by blast
  qed
  show "set (map pi_runtime_id (live_peers now mm)) =
      {k. \<exists>p. hm_get (mm_peers mm) k = Some p \<and> \<not> is_suspect now mm p}"
    unfolding eq hm.entries_get [OF wf, symmetric] by force
  show "distinct (map pi_runtime_id (live_peers now mm))"
    unfolding eq using wf by (simp add: hm_wf_def hm_keys_def distinct_map_filter)
qed

section \<open>Properties\<close>

text \<open>
  C15. Only named runtimes are members, and only live members are offered for routing. After any
  sequence of operations on a fresh table, its members are exactly the runtimes named in a gossip
  record or in a ready record that carries the expected relay key and a valid attestation (without an
  expected key, no ready record counts), never the local runtime, whose own record no gossip can
  change. The peers offered for routing are, each once, the members that are not suspect, and a
  member is suspect exactly when its last heartbeat is older than the threshold times \<open>ln 10\<close> times
  its mean heartbeat interval.
\<close>

theorem membership_admission:
  "let mm = foldl (mesh_step E) (fresh_table r pk t) ops in {k. has_peer k mm} = (\<Union>op \<in> set ops. op_names E pk op) - {gr_runtime_id r}
    \<and> gr_runtime_id (mm_local_record mm) = gr_runtime_id r
    \<and> distinct (map pi_runtime_id (live_peers now mm))
    \<and> set (map pi_runtime_id (live_peers now mm)) =
        {k. \<exists>p. hm_get (mm_peers mm) k = Some p
           \<and> \<not> (ph_samples (pr_phi p) \<noteq> [] \<and> (\<exists>hb. ph_last_heartbeat (pr_phi p) = Some hb \<and> hb \<le> now
                \<and> mm_phi_suspect_threshold mm * (LN_10 * mean_secs (pr_phi p)) \<le> secs (now - hb)))}"
proof -
  define mm where "mm = foldl (mesh_step E) (fresh_table r pk t) ops"
  have inv: "mm_inv mm" unfolding mm_def by (rule mesh.inv_reachable)
  have fresh: "table_ids (fresh_table r pk t) = {}" "mm_expected_relay_pubkey (fresh_table r pk t) = pk"
    "mm_local_runtime_id (fresh_table r pk t) = gr_runtime_id r"
    by (simp_all add: table_ids_def has_peer_def fresh_table_def MeshMembership_new_def)
  have suspect: "is_suspect now mm p \<longleftrightarrow> ph_samples (pr_phi p) \<noteq> [] \<and>
      (\<exists>hb. ph_last_heartbeat (pr_phi p) = Some hb \<and> hb \<le> now
        \<and> mm_phi_suspect_threshold mm * (LN_10 * mean_secs (pr_phi p)) \<le> secs (now - hb))"
    if "hm_get (mm_peers mm) k = Some p" for k p
    using inv that by (intro suspect_iff) (auto simp: mm_inv_def)
  show ?thesis unfolding Let_def mm_def [symmetric]
  proof (intro conjI)
    show "{k. has_peer k mm} = (\<Union>op \<in> set ops. op_names E pk op) - {gr_runtime_id r}"
      using table_run [of E "fresh_table r pk t" ops] fresh unfolding mm_def table_ids_def by simp
    show "gr_runtime_id (mm_local_record mm) = gr_runtime_id r"
      using inv table_run [of E "fresh_table r pk t" ops] fresh(3) unfolding mm_inv_def mm_def by simp
    show "distinct (map pi_runtime_id (live_peers now mm))" by (rule live_peers_ids(2) [OF inv])
    show "set (map pi_runtime_id (live_peers now mm)) =
        {k. \<exists>p. hm_get (mm_peers mm) k = Some p
           \<and> \<not> (ph_samples (pr_phi p) \<noteq> [] \<and> (\<exists>hb. ph_last_heartbeat (pr_phi p) = Some hb \<and> hb \<le> now
                \<and> mm_phi_suspect_threshold mm * (LN_10 * mean_secs (pr_phi p)) \<le> secs (now - hb)))}"
      unfolding live_peers_ids(1) [OF inv] using suspect by blast
  qed
qed

text \<open>
  A gossip exchange is a join. When \<open>A\<close> pulls from \<open>B\<close> (digest, delta, apply) with messages that
  encode, the exchange succeeds, \<open>B\<close> knows what it knew, and for every runtime but itself \<open>A\<close> then
  knows the newer of the two records. Deltas may arrive in any order, be split, or be repeated: as
  long as a version of a record is written once, what is known depends only on the set of records
  received.
\<close>

theorem gossip_exchange_joins:
  assumes "mm_inv A" "mm_inv B" and "codec_works c (mm_digest hx A)"
    and "\<And>es. codec_works c (mm_delta_for hx (record_gossip_frame_received (mm_local_runtime_id A) B) es)"
  shows "(\<exists>A1 B1. gossip_pull c hx A B = Some (A1, B1) \<and> known B1 = known B
      \<and> (\<forall>k. known A1 k = (if k = mm_local_runtime_id A then Some (mm_local_record A)
                             else merge_record (known A k) (known B k))))
    \<and> (\<forall>rs rs' k. set rs = set rs' \<and> coherent (set rs \<union> set_option (peer_record A k)) \<longrightarrow>
         known (apply_gossip_records hx rs A) k = known (apply_gossip_records hx rs' A) k)"
proof (intro conjI allI impI)
  fix rs rs' k assume a: "set rs = set rs' \<and> coherent (set rs \<union> set_option (peer_record A k))"
  have "peer_record (apply_gossip_records hx rs A) k = peer_record (apply_gossip_records hx rs' A) k"
  proof -
    have "gr_runtime_id q = k" if "peer_record A k = Some q" for q
      using that assms(1) unfolding mm_inv_def peer_record_def by auto
    with a show ?thesis
      using mst.put_all_order [where m = A and hx = hx and rs = rs and rs' = rs' and k = k] unfolding mst_put_all
      by blast
  qed
  then show "known (apply_gossip_records hx rs A) k = known (apply_gossip_records hx rs' A) k"
    by (simp add: known_apply_all)
qed (rule pull_joins [OF assms])

text \<open>Two fresh runtimes, and a codec that knows their three messages.\<close>

definition sample_record :: "u8 \<Rightarrow> u64 \<Rightarrow> GossipRecord" where
  "sample_record i v = (GossipRecord_new 0 [i] [] 1)\<lparr>gr_version := v\<rparr>"

definition sample_gossip_codec :: "GossipMessage codec" where
  "sample_gossip_codec = \<lparr>
     pc_to = (\<lambda>m. if m = Digest 1 [\<lparr>de_runtime_id = [1], de_version = 1\<rparr>] then Ok [1]
                  else if m = Delta 1 [] then Ok [2]
                  else if m = Delta 1 [sample_record 2 7] then Ok [3] else Err ''unsupported''),
     pc_from = (\<lambda>b. if b = [1] then Ok (Digest 1 [\<lparr>de_runtime_id = [1], de_version = 1\<rparr>])
                    else if b = [2] then Ok (Delta 1 [])
                    else if b = [3] then Ok (Delta 1 [sample_record 2 7]) else Err ''unsupported'')\<rparr>"

theorem gossip_exchange_joins_witness:
  "\<exists>A1 B1. gossip_pull sample_gossip_codec (\<lambda>_. []) (MeshMembership_new (sample_record 1 1))
      (MeshMembership_new (sample_record 2 7)) = Some (A1, B1)
    \<and> known A1 [2] = Some (sample_record 2 7)"
proof -
  let ?A = "MeshMembership_new (sample_record 1 1)" and ?B = "MeshMembership_new (sample_record 2 7)"
  have inv: "mm_inv ?A" "mm_inv ?B" by (simp_all add: mm_inv_def MeshMembership_new_def)
  have B1: "mm_records (record_gossip_frame_received (mm_local_runtime_id ?A) ?B) = [sample_record 2 7]"
    by (simp add: mm_records_def record_gossip_frame_received_def update_peer_counters_def hm_modify_def
        MeshMembership_new_def hm_values_def)
  have "codec_works sample_gossip_codec (mm_digest (\<lambda>_. []) ?A)"
    by (simp add: codec_works_def mm_digest_def digest_of_def mm_records_def MeshMembership_new_def hm_values_def
        digest_entry_def sample_record_def GossipRecord_new_def GOSSIP_PAYLOAD_VERSION_def sample_gossip_codec_def)
  moreover have "codec_works sample_gossip_codec
      (mm_delta_for (\<lambda>_. []) (record_gossip_frame_received (mm_local_runtime_id ?A) ?B) es)" for es
    unfolding mm_delta_for_def B1
    by (simp add: codec_works_def delta_of_def GOSSIP_PAYLOAD_VERSION_def sample_gossip_codec_def)
  ultimately have "\<exists>A1 B1. gossip_pull sample_gossip_codec (\<lambda>_. []) ?A ?B = Some (A1, B1) \<and> known B1 = known ?B
      \<and> (\<forall>k. known A1 k = (if k = mm_local_runtime_id ?A then Some (mm_local_record ?A)
                             else merge_record (known ?A k) (known ?B k)))"
    using gossip_exchange_joins [OF inv] by blast
  moreover have "merge_record (known ?A [2]) (known ?B [2]) = Some (sample_record 2 7)"
    "[2] \<noteq> mm_local_runtime_id ?A"
    by (simp_all add: known_def peer_record_def MeshMembership_new_def sample_record_def GossipRecord_new_def
        merge_record_def newer_def)
  ultimately show ?thesis by metis
qed

text \<open>
  Simultaneous dials end in one connection. Whatever connections two runtimes establish with each
  other, in whatever order each end installs them, an end that has seen a connection dialed by the
  smaller runtime id keeps such a connection; so when both ends have installed both dials of a race,
  they keep the same one.
\<close>

theorem simultaneous_dial_agreement:
  assumes "a \<noteq> b" and "ds \<noteq> []" and "hm_get conns b = None"
  shows "hm_get (fst (foldl (\<lambda>st d. snd (install_peer a b d st)) (conns, mm) ds)) b =
      Some (if (a < b) \<in> set ds then a < b else \<not> a < b)
    \<and> (set ds = {True, False} \<and> set ds' = {True, False} \<and> hm_get conns' a = None \<longrightarrow>
        hm_get (fst (foldl (\<lambda>st d. snd (install_peer a b d st)) (conns, mm) ds)) b = Some (a < b)
        \<and> hm_get (fst (foldl (\<lambda>st d. snd (install_peer b a d st)) (conns', mm') ds')) a = Some (\<not> a < b))"
proof -
  have kept: "hm_get (fst (foldl (\<lambda>st d. snd (install_peer x y d st)) st ds)) y =
      (if hm_get (fst st) y = Some (x < y) \<or> (x < y) \<in> set ds then Some (x < y)
       else if ds = [] then hm_get (fst st) y else Some (\<not> x < y))" for x y st ds
  proof (induction ds arbitrary: st)
    case (Cons d ds)
    obtain conns mm where st: "st = (conns, mm)" by (cases st)
    have step: "hm_get (fst (snd (install_peer x y d st))) y =
        (if hm_get conns y \<noteq> None \<and> d \<noteq> (x < y) then hm_get conns y else Some d)"
      by (simp add: st install_peer_def new_connection_wins_def)
    show ?case
      using Cons.IH [of "snd (install_peer x y d st)"] step st
      by (cases "hm_get conns y"; cases "x < y"; cases d) (auto split: if_splits)
  qed simp
  have order: "b < a \<longleftrightarrow> \<not> a < b" using assms(1) by (meson less_asym linorder_less_linear)
  show ?thesis using kept [of a b "(conns, mm)" ds] kept [of b a "(conns', mm')" ds'] assms order by auto
qed

theorem simultaneous_dial_agreement_witness:
  "hm_get (fst (foldl (\<lambda>st d. snd (install_peer [1] [2] d st)) ([], MeshMembership_new (sample_record 1 1))
      [False, True])) [2] = Some True"
  using simultaneous_dial_agreement [of "[1]" "[2]" "[False, True]" "[]" "MeshMembership_new (sample_record 1 1)"]
  by simp

end
