(* ===== verification/AuditLog.thy ===== *)
theory AuditLog
  imports Prelude "HOL-Library.List_Lexorder" "HOL-Library.Char_ord"
begin

text \<open>
  \<^verbatim>\<open>crates/lenos-audit/src\<close>: the append-only audit log, one hash chain per community (\<^verbatim>\<open>action.rs\<close>,
  \<^verbatim>\<open>entry.rs\<close>, \<^verbatim>\<open>hash.rs\<close>, \<^verbatim>\<open>service.rs\<close>).

  The table is the list of its rows; a query is a filter and a sort, an insert checks the primary key
  \<open>(community_id, seq)\<close> and the unique index on \<open>(community_id, hash)\<close>. Writers in several relay
  processes interleave: \<open>audit_step\<close> has one rule for each database call of \<open>AuditService::log\<close>, and
  any call may fail or lose its session. SHA-256, the bytes of a UUID, the RFC 3339 text of a time, the
  JSON text of scalars, what \<open>JSONB\<close> returns for a stored value, and the advisory lock key are
  parameters (\<open>audit_env\<close>). Times are nanoseconds since the epoch.
\<close>

section \<open>Actions and entries\<close>

datatype AuditAction = EventCreated | EventDeleted | ChannelCreated | ChannelUpdated | ChannelDeleted
  | MemberAdded | MemberRemoved | AuthSuccess | AuthFailure | RateLimitExceeded | MediaUploaded

fun action_as_str :: "AuditAction \<Rightarrow> string" where
  "action_as_str EventCreated = ''event_created''"
| "action_as_str EventDeleted = ''event_deleted''"
| "action_as_str ChannelCreated = ''channel_created''"
| "action_as_str ChannelUpdated = ''channel_updated''"
| "action_as_str ChannelDeleted = ''channel_deleted''"
| "action_as_str MemberAdded = ''member_added''"
| "action_as_str MemberRemoved = ''member_removed''"
| "action_as_str AuthSuccess = ''auth_success''"
| "action_as_str AuthFailure = ''auth_failure''"
| "action_as_str RateLimitExceeded = ''rate_limit_exceeded''"
| "action_as_str MediaUploaded = ''media_uploaded''"

definition ALL_ACTIONS :: "AuditAction list" where
  "ALL_ACTIONS = [EventCreated, EventDeleted, ChannelCreated, ChannelUpdated, ChannelDeleted,
     MemberAdded, MemberRemoved, AuthSuccess, AuthFailure, RateLimitExceeded, MediaUploaded]"

definition action_from_str :: "string \<Rightarrow> (string, AuditAction) result" where
  "action_from_str s =
     ok_or (List.find (\<lambda>a. action_as_str a = s) ALL_ACTIONS) (''unknown audit action: '' @ s)"

datatype AuditError = Database string | ChainViolation int | HashMismatch int | UnknownAction
  | Serialization string

record AuditEntry =
  ae_community_id :: uuid
  ae_seq :: int
  ae_hash :: bytes
  ae_prev_hash :: "bytes option"
  ae_action :: AuditAction
  ae_actor_pubkey :: "bytes option"
  ae_object_id :: "string option"
  ae_detail :: Value
  ae_created_at :: int

record NewAuditEntry =
  ne_community_id :: uuid
  ne_action :: AuditAction
  ne_actor_pubkey :: "bytes option"
  ne_object_id :: "string option"
  ne_detail :: Value

record audit_env =
  sha256 :: "bytes \<Rightarrow> bytes"
  uuid_bytes :: "uuid \<Rightarrow> bytes"
  to_rfc3339 :: "int \<Rightarrow> string"
  json_text :: "Value \<Rightarrow> (string, string) result"
  jsonb :: "Value \<Rightarrow> Value"
  hashtextextended :: "string \<Rightarrow> int"

section \<open>Hashing\<close>

definition GENESIS_HASH :: bytes where "GENESIS_HASH = replicate 32 0"

definition to_storage_precision :: "int \<Rightarrow> int" where
  "to_storage_precision t = t div 1000 * 1000"

definition str_bytes :: "string \<Rightarrow> bytes" where
  "str_bytes s = map of_char s"

definition to_be_bytes :: "int \<Rightarrow> bytes" where
  "to_be_bytes n = map (\<lambda>i. of_int (n div 256 ^ i)) [7, 6, 5, 4, 3, 2, 1, 0]"

text \<open>\<open>out\<close> with the texts of the members, separated by commas, or the first error.\<close>

fun push_parts :: "bool \<Rightarrow> string \<Rightarrow> (string, string) result list \<Rightarrow> (string, string) result" where
  "push_parts first out [] = Ok out"
| "push_parts first out (p # ps) =
     (case p of
        Inl e \<Rightarrow> Err e
      | Inr s \<Rightarrow> push_parts False (out @ (if first then [] else '','') @ s) ps)"

definition member_text :: "(string, string) result \<Rightarrow> (string, string) result \<Rightarrow> (string, string) result" where
  "member_text key val =
     (case key of
        Inl e \<Rightarrow> Err e
      | Inr k \<Rightarrow> (case val of Inl e \<Rightarrow> Err e | Inr v \<Rightarrow> Ok (k @ '':'' @ v)))"

definition closed :: "string \<Rightarrow> (string, string) result \<Rightarrow> (string, string) result" where
  "closed c r = (case r of Inl e \<Rightarrow> Err e | Inr out \<Rightarrow> Ok (out @ c))"

function canonical_json :: "audit_env \<Rightarrow> Value \<Rightarrow> (string, string) result" where
  "canonical_json E (Object m) =
     closed ''}'' (push_parts True ''{''
       (map (\<lambda>kv. member_text (json_text E (String (fst kv))) (canonical_json E (snd kv))) (sort_key fst m)))"
| "canonical_json E (Array arr) =
     closed '']'' (push_parts True ''['' (map (\<lambda>v. canonical_json E v) arr))"
| "canonical_json E Null = json_text E Null"
| "canonical_json E (Bool b) = json_text E (Bool b)"
| "canonical_json E (Number n) = json_text E (Number n)"
| "canonical_json E (String s) = json_text E (String s)"
  by pat_completeness auto
termination
proof (relation "measure (\<lambda>(E, v). size v)", goal_cases)
  case (2 E m kv)
  then have "kv \<in> set m" by simp
  then have "size (snd kv) \<le> size_list (size_prod (\<lambda>_. 0) size) m"
    by (induction m) (auto simp: size_prod_def)
  then show ?case by (simp add: size_prod_def)
next
  case (3 E arr v)
  then show ?case by (induction arr) auto
qed simp

definition opt_part :: "bytes option \<Rightarrow> bytes" where
  "opt_part x = (case x of Some b \<Rightarrow> 1 # b | None \<Rightarrow> [0])"

definition hash_preimage :: "audit_env \<Rightarrow> AuditEntry \<Rightarrow> (AuditError, bytes) result" where
  "hash_preimage E e =
     (case canonical_json E (ae_detail e) of
        Inl why \<Rightarrow> Err (Serialization why)
      | Inr detail \<Rightarrow>
          Ok (uuid_bytes E (ae_community_id e)
            @ to_be_bytes (ae_seq e)
            @ str_bytes (to_rfc3339 E (to_storage_precision (ae_created_at e)))
            @ str_bytes (action_as_str (ae_action e))
            @ opt_part (ae_actor_pubkey e)
            @ opt_part (map_option str_bytes (ae_object_id e))
            @ str_bytes detail
            @ (case ae_prev_hash e of Some h \<Rightarrow> h | None \<Rightarrow> GENESIS_HASH)))"

definition compute_hash :: "audit_env \<Rightarrow> AuditEntry \<Rightarrow> (AuditError, bytes) result" where
  "compute_hash E e = map_sum id (sha256 E) (hash_preimage E e)"

section \<open>The table\<close>

record AuditRow =
  ar_community_id :: uuid
  ar_seq :: int
  ar_hash :: bytes
  ar_prev_hash :: "bytes option"
  ar_action :: string
  ar_actor_pubkey :: "bytes option"
  ar_object_id :: "string option"
  ar_detail :: Value
  ar_created_at :: int

text \<open>The bindings of the \<open>INSERT\<close>; \<open>TIMESTAMPTZ\<close> keeps microseconds, \<open>JSONB\<close> what \<open>jsonb\<close> says.\<close>

definition row_of :: "audit_env \<Rightarrow> AuditEntry \<Rightarrow> AuditRow" where
  "row_of E e =
     \<lparr>ar_community_id = ae_community_id e, ar_seq = ae_seq e, ar_hash = ae_hash e,
      ar_prev_hash = ae_prev_hash e, ar_action = action_as_str (ae_action e),
      ar_actor_pubkey = ae_actor_pubkey e, ar_object_id = ae_object_id e,
      ar_detail = jsonb E (ae_detail e), ar_created_at = ae_created_at e div 1000 * 1000\<rparr>"

definition row_to_audit_entry :: "AuditRow \<Rightarrow> (AuditError, AuditEntry) result" where
  "row_to_audit_entry r =
     (case action_from_str (ar_action r) of
        Inl _ \<Rightarrow> Err UnknownAction
      | Inr action \<Rightarrow>
          Ok \<lparr>ae_community_id = ar_community_id r, ae_seq = ar_seq r, ae_hash = ar_hash r,
              ae_prev_hash = ar_prev_hash r, ae_action = action, ae_actor_pubkey = ar_actor_pubkey r,
              ae_object_id = ar_object_id r, ae_detail = ar_detail r, ae_created_at = ar_created_at r\<rparr>)"

definition select_rows :: "(AuditRow \<Rightarrow> bool) \<Rightarrow> AuditRow list \<Rightarrow> AuditRow list" where
  "select_rows P db = sort_key ar_seq (filter P db)"

definition read_head :: "uuid \<Rightarrow> AuditRow list \<Rightarrow> int \<times> bytes option" where
  "read_head c db =
     (let rows = select_rows (\<lambda>r. ar_community_id r = c) db
      in if rows = [] then (0, None) else (ar_seq (last rows), Some (ar_hash (last rows))))"

text \<open>\<open>i64\<close> addition in a release build.\<close>

definition i64_add :: "int \<Rightarrow> int \<Rightarrow> int" where
  "i64_add a b = (a + b + 2 ^ 63) mod 2 ^ 64 - 2 ^ 63"

definition log_timestamp :: "int \<Rightarrow> int" where
  "log_timestamp now = to_storage_precision now"

definition build_entry ::
  "audit_env \<Rightarrow> int \<Rightarrow> NewAuditEntry \<Rightarrow> int \<times> bytes option \<Rightarrow> (AuditError, AuditEntry) result" where
  "build_entry E now new head =
     (let audit_entry =
        \<lparr>ae_community_id = ne_community_id new, ae_seq = i64_add (fst head) 1, ae_hash = [],
         ae_prev_hash = snd head, ae_action = ne_action new, ae_actor_pubkey = ne_actor_pubkey new,
         ae_object_id = ne_object_id new, ae_detail = ne_detail new, ae_created_at = log_timestamp now\<rparr>
      in case compute_hash E audit_entry of
           Inl e \<Rightarrow> Err e
         | Inr h \<Rightarrow> Ok (audit_entry\<lparr>ae_hash := h\<rparr>))"

definition insert_row :: "audit_env \<Rightarrow> AuditEntry \<Rightarrow> AuditRow list \<Rightarrow> (AuditError, AuditRow list) result" where
  "insert_row E e db =
     (if \<exists>r \<in> set db. ar_community_id r = ae_community_id e \<and> (ar_seq r = ae_seq e \<or> ar_hash r = ae_hash e)
      then Err (Database ''duplicate key'') else Ok (db @ [row_of E e]))"

text \<open>\<open>log_inner\<close> with every call answered, and the part after the head has been read.\<close>

definition append_after ::
  "audit_env \<Rightarrow> int \<Rightarrow> NewAuditEntry \<Rightarrow> int \<times> bytes option \<Rightarrow> AuditRow list \<Rightarrow>
   (AuditError, AuditEntry) result \<times> AuditRow list" where
  "append_after E now new head db =
     (case build_entry E now new head of
        Inl e \<Rightarrow> (Err e, db)
      | Inr audit_entry \<Rightarrow>
          (case insert_row E audit_entry db of
             Inl e \<Rightarrow> (Err e, db)
           | Inr db' \<Rightarrow> (Ok audit_entry, db')))"

definition log_inner ::
  "audit_env \<Rightarrow> int \<Rightarrow> NewAuditEntry \<Rightarrow> AuditRow list \<Rightarrow> (AuditError, AuditEntry) result \<times> AuditRow list" where
  "log_inner E now new db = append_after E now new (read_head (ne_community_id new) db) db"

fun verify_loop :: "audit_env \<Rightarrow> bytes option \<Rightarrow> AuditRow list \<Rightarrow> (AuditError, bool) result" where
  "verify_loop E expected_prev [] = Ok True"
| "verify_loop E expected_prev (row # rows) =
     (case row_to_audit_entry row of
        Inl e \<Rightarrow> Err e
      | Inr entry \<Rightarrow>
          if expected_prev \<noteq> None \<and> ae_prev_hash entry \<noteq> expected_prev
          then Err (ChainViolation (ae_seq entry))
          else (case compute_hash E entry of
             Inl e \<Rightarrow> Err e
           | Inr computed \<Rightarrow>
               if computed \<noteq> ae_hash entry then Err (HashMismatch (ae_seq entry))
               else verify_loop E (Some (ae_hash entry)) rows))"

definition verify_chain :: "audit_env \<Rightarrow> AuditRow list \<Rightarrow> uuid \<Rightarrow> int \<Rightarrow> int \<Rightarrow> (AuditError, bool) result" where
  "verify_chain E db community from_seq to_seq =
     (let rows = select_rows (\<lambda>r. ar_community_id r = community \<and> from_seq \<le> ar_seq r \<and> ar_seq r \<le> to_seq) db
      in if rows = [] then Ok False else verify_loop E None rows)"

fun collect_entries :: "AuditRow list \<Rightarrow> (AuditError, AuditEntry list) result" where
  "collect_entries [] = Ok []"
| "collect_entries (r # rs) =
     (case row_to_audit_entry r of
        Inl e \<Rightarrow> Err e
      | Inr x \<Rightarrow> map_sum id (Cons x) (collect_entries rs))"

definition get_entries :: "AuditRow list \<Rightarrow> uuid \<Rightarrow> int \<Rightarrow> nat \<Rightarrow> (AuditError, AuditEntry list) result" where
  "get_entries db community from_seq limit =
     collect_entries (take limit (select_rows (\<lambda>r. ar_community_id r = community \<and> from_seq \<le> ar_seq r) db))"

section \<open>Concurrent writers\<close>

definition AUDIT_LOCK_NAMESPACE :: string where "AUDIT_LOCK_NAMESPACE = ''lenos_audit:''"

definition lock_key :: "audit_env \<Rightarrow> uuid \<Rightarrow> int" where
  "lock_key E c = hashtextextended E (AUDIT_LOCK_NAMESPACE @ c)"

datatype log_phase = Idle | Locked NewAuditEntry | HeadRead NewAuditEntry "int \<times> bytes option"
  | Finished NewAuditEntry "(AuditError, AuditEntry) result"

record audit_state =
  al_rows :: "AuditRow list"
  al_holder :: "int \<Rightarrow> nat option"
  al_phase :: "nat \<Rightarrow> log_phase"

definition audit_init :: audit_state where
  "audit_init = \<lparr>al_rows = [], al_holder = (\<lambda>_. None), al_phase = (\<lambda>_. Idle)\<rparr>"

text \<open>
  One database call of one writer \<open>p\<close>: \<open>pg_advisory_lock\<close>, the query of the head, insert and commit
  (or any failed call, which rolls the transaction back), \<open>pg_advisory_unlock\<close>, and the loss of the
  session, at which Postgres drops the transaction and the lock.
\<close>

inductive audit_step :: "audit_env \<Rightarrow> audit_state \<Rightarrow> audit_state \<Rightarrow> bool" for E where
  acquire_lock: "al_phase s p = Idle \<Longrightarrow> al_holder s (lock_key E (ne_community_id new)) = None \<Longrightarrow>
    audit_step E s (s\<lparr>al_holder := (al_holder s)(lock_key E (ne_community_id new) := Some p),
                      al_phase := (al_phase s)(p := Locked new)\<rparr>)"
| select_head: "al_phase s p = Locked new \<Longrightarrow>
    audit_step E s (s\<lparr>al_phase := (al_phase s)(p := HeadRead new (read_head (ne_community_id new) (al_rows s)))\<rparr>)"
| insert_commit: "al_phase s p = HeadRead new head \<Longrightarrow>
    append_after E now new head (al_rows s) = (r, rows) \<Longrightarrow>
    audit_step E s (s\<lparr>al_rows := rows, al_phase := (al_phase s)(p := Finished new r)\<rparr>)"
| call_failed: "al_phase s p = Locked new \<or> al_phase s p = HeadRead new head \<Longrightarrow>
    audit_step E s (s\<lparr>al_phase := (al_phase s)(p := Finished new (Err (Database e)))\<rparr>)"
| unlock: "al_phase s p = Finished new r \<Longrightarrow>
    audit_step E s (s\<lparr>al_holder := (al_holder s)(lock_key E (ne_community_id new) := None),
                      al_phase := (al_phase s)(p := Idle)\<rparr>)"
| session_lost: "al_phase s p \<in> {Locked new, HeadRead new head, Finished new r} \<Longrightarrow>
    audit_step E s (s\<lparr>al_holder := (al_holder s)(lock_key E (ne_community_id new) := None),
                      al_phase := (al_phase s)(p := Idle)\<rparr>)"

inductive_cases audit_stepE: "audit_step E s s'"

inductive audit_reachable :: "audit_env \<Rightarrow> audit_state \<Rightarrow> bool" for E where
  start: "audit_reachable E audit_init"
| step: "audit_reachable E s \<Longrightarrow> audit_step E s s' \<Longrightarrow> audit_reachable E s'"

section \<open>A chain of hashes\<close>

text \<open>
  What a hash chain promises, for any rows: newest first, every row hashes to its own digest and names
  the digest of its predecessor.
\<close>

locale hash_chain =
  fixes preimage :: "'r \<Rightarrow> bytes option"
    and digest :: "'r \<Rightarrow> bytes"
    and link :: "'r \<Rightarrow> bytes"
    and H :: "bytes \<Rightarrow> bytes"
  assumes link_in_preimage:
    "preimage r = Some x \<Longrightarrow> preimage q = Some x \<Longrightarrow> length (link r) = length (link q) \<Longrightarrow> link r = link q"
begin

fun chained :: "'r list \<Rightarrow> bool" where
  "chained [] \<longleftrightarrow> True"
| "chained (r # rs) \<longleftrightarrow> (\<exists>x. preimage r = Some x \<and> H x = digest r)
     \<and> (rs \<noteq> [] \<longrightarrow> link r = digest (hd rs)) \<and> chained rs"

definition collision :: "'r list \<Rightarrow> 'r list \<Rightarrow> bool" where
  "collision rs qs \<longleftrightarrow> (\<exists>r \<in> set rs. \<exists>q \<in> set qs. \<exists>x y. preimage r = Some x \<and> preimage q = Some y \<and> x \<noteq> y \<and> H x = H y)"

lemma collision_mono: "collision rs qs \<Longrightarrow> set rs \<subseteq> set rs' \<Longrightarrow> set qs \<subseteq> set qs' \<Longrightarrow> collision rs' qs'"
  unfolding collision_def by blast

lemma digest_length:
  assumes "chained rs" "r \<in> set rs" "\<And>x. length (H x) = n"
  shows "length (digest r) = n"
  using assms(1,2) by (induction rs) (auto simp: assms(3) dest: arg_cong [where f = length])

text \<open>Two chains with the same newest digest agree as far back as both reach, or two rows collide.\<close>

lemma head_determines:
  assumes "chained rs" "chained qs" "rs \<noteq> []" "qs \<noteq> []" "digest (hd rs) = digest (hd qs)"
    and len: "\<And>x. length (H x) = n"
  shows "collision rs qs \<or> (\<forall>i < min (length rs) (length qs). preimage (rs ! i) = preimage (qs ! i))"
  using assms(1-5)
proof (induction rs arbitrary: qs)
  case (Cons r rs)
  obtain q qs' where qs: "qs = q # qs'" using Cons.prems by (cases qs) auto
  obtain x y where x: "preimage r = Some x" "H x = digest r" and y: "preimage q = Some y" "H y = digest q"
    using Cons.prems qs by auto
  show ?case
  proof (cases "x = y")
    case False
    then have "collision (r # rs) qs" unfolding collision_def using x y Cons.prems(5) qs by fastforce
    then show ?thesis ..
  next
    case True
    show ?thesis
    proof (cases "rs = [] \<or> qs' = []")
      case True
      then show ?thesis using x y \<open>x = y\<close> qs by auto
    next
      case False
      have heads: "link r = digest (hd rs)" "link q = digest (hd qs')" using Cons.prems qs False by auto
      have "length (digest (hd rs)) = n" "length (digest (hd qs')) = n"
        using digest_length [of rs "hd rs" n] digest_length [of qs' "hd qs'" n] Cons.prems(1,2) qs False len by simp_all
      then have "digest (hd rs) = digest (hd qs')"
        using link_in_preimage [of r x q] x y True heads by simp
      then have "collision rs qs' \<or> (\<forall>i < min (length rs) (length qs'). preimage (rs ! i) = preimage (qs' ! i))"
        using Cons.IH [of qs'] Cons.prems qs False by simp
      then show ?thesis
      proof
        assume "collision rs qs'"
        then have "collision (r # rs) qs" unfolding qs by (rule collision_mono) auto
        then show ?thesis ..
      next
        assume *: "\<forall>i < min (length rs) (length qs'). preimage (rs ! i) = preimage (qs' ! i)"
        then have "preimage ((r # rs) ! i) = preimage (qs ! i)" if "i < min (length (r # rs)) (length qs)" for i
          using that x y True qs by (cases i) auto
        then show ?thesis by blast
      qed
    qed
  qed
qed simp

end

definition row_preimage :: "audit_env \<Rightarrow> AuditRow \<Rightarrow> bytes option" where
  "row_preimage E r =
     (case row_to_audit_entry r of
        Inl _ \<Rightarrow> None
      | Inr e \<Rightarrow> (case hash_preimage E e of Inl _ \<Rightarrow> None | Inr x \<Rightarrow> Some x))"

definition row_link :: "AuditRow \<Rightarrow> bytes" where
  "row_link r = unwrap_or (ar_prev_hash r) GENESIS_HASH"

lemma row_preimage_ends: "row_preimage E r = Some x \<Longrightarrow> \<exists>z. x = z @ row_link r"
  by (auto simp: row_preimage_def row_to_audit_entry_def hash_preimage_def row_link_def unwrap_or_def
      split: sum.splits option.splits)

interpretation ac: hash_chain "row_preimage E" ar_hash row_link "sha256 E"
  by unfold_locales (metis row_preimage_ends append_eq_append_conv)

lemma verify_row:
  "verify_loop E prev (r # rs) = Ok True \<longleftrightarrow>
     (\<exists>x. row_preimage E r = Some x \<and> sha256 E x = ar_hash r) \<and> (prev \<noteq> None \<longrightarrow> ar_prev_hash r = prev)
     \<and> verify_loop E (Some (ar_hash r)) rs = Ok True"
  by (auto simp: row_preimage_def row_to_audit_entry_def compute_hash_def split: sum.splits)

lemma verify_loop_result: "verify_loop E prev rs \<noteq> Ok False"
  by (induction E prev rs rule: verify_loop.induct) (auto split: sum.splits if_splits)

lemma chained_append:
  "ac.chained E (qs @ rs) \<longleftrightarrow> ac.chained E qs \<and> ac.chained E rs
     \<and> (qs \<noteq> [] \<and> rs \<noteq> [] \<longrightarrow> row_link (last qs) = ar_hash (hd rs))"
  by (induction qs) (auto simp: hd_append)

lemma verify_chained: "verify_loop E prev rs = Ok True \<Longrightarrow> ac.chained E (rev rs)"
proof (induction rs arbitrary: prev)
  case (Cons r rs)
  have v: "\<exists>x. row_preimage E r = Some x \<and> sha256 E x = ar_hash r"
    "verify_loop E (Some (ar_hash r)) rs = Ok True"
    using Cons.prems unfolding verify_row by blast+
  moreover have "row_link (hd rs) = ar_hash r" if "rs \<noteq> []"
    using v(2) that by (cases rs) (auto simp: verify_row row_link_def simp del: verify_loop.simps)
  ultimately show ?case
    using Cons.IH by (auto simp: chained_append last_rev)
qed simp

section \<open>The chain of a community\<close>

text \<open>
  A row as one call of \<open>log_inner\<close> wrote it: the entry it built, hashed before storage, as the columns keep it. Its detail is
  \<open>kept\<close> when \<^verbatim>\<open>JSONB\<close> gives back a value of the same canonical text, which Postgres does not do for every number
  (\<^verbatim>\<open>1e16\<close> comes back as \<^verbatim>\<open>10000000000000000\<close>).
\<close>

definition written :: "audit_env \<Rightarrow> AuditEntry \<Rightarrow> AuditRow \<Rightarrow> bool" where
  "written E e r \<longleftrightarrow> r = row_of E e \<and> compute_hash E e = Ok (ae_hash e)"

definition detail_kept :: "audit_env \<Rightarrow> AuditEntry \<Rightarrow> bool" where
  "detail_kept E e \<longleftrightarrow> canonical_json E (jsonb E (ae_detail e)) = canonical_json E (ae_detail e)"

fun chain_from :: "int \<Rightarrow> bytes option \<Rightarrow> AuditRow list \<Rightarrow> bool" where
  "chain_from n prev [] \<longleftrightarrow> True"
| "chain_from n prev (r # rs) \<longleftrightarrow> ar_seq r = n \<and> ar_prev_hash r = prev \<and> chain_from (n + 1) (Some (ar_hash r)) rs"

definition chain_rows :: "uuid \<Rightarrow> AuditRow list \<Rightarrow> AuditRow list" where
  "chain_rows c db = filter (\<lambda>r. ar_community_id r = c) db"

definition chains_ok :: "audit_env \<Rightarrow> AuditRow list \<Rightarrow> bool" where
  "chains_ok E db \<longleftrightarrow> (\<forall>c. chain_from 1 None (chain_rows c db)) \<and> (\<forall>r \<in> set db. \<exists>e. written E e r)"

lemma chain_from_append:
  "chain_from n prev (rs @ qs) \<longleftrightarrow> chain_from n prev rs
     \<and> chain_from (n + int (length rs)) (if rs = [] then prev else Some (ar_hash (last rs))) qs"
  by (induction rs arbitrary: n prev) (auto simp: algebra_simps)

lemma chain_from_seqs: "chain_from n prev rs \<Longrightarrow> map ar_seq rs = map (\<lambda>i. n + int i) [0..<length rs]"
proof (induction rs arbitrary: n prev)
  case (Cons r rs)
  have "map ar_seq rs = map (\<lambda>i. n + 1 + int i) [0..<length rs]" by (rule Cons.IH [of "n + 1" "Some (ar_hash r)"]) (use Cons.prems in simp)
  also have "\<dots> = map (\<lambda>i. n + int i) (map Suc [0..<length rs])" by simp
  finally show ?case using Cons.prems by (simp add: upt_conv_Cons map_Suc_upt del: upt_Suc)
qed simp

lemma sorted_seqs: "chain_from n prev rs \<Longrightarrow> sorted (map ar_seq rs)"
  by (simp only: chain_from_seqs) (simp add: sorted_iff_nth_mono)

lemma select_chain:
  assumes "chains_ok E db"
  shows "select_rows (\<lambda>r. ar_community_id r = c \<and> P r) db = filter P (chain_rows c db)"
    and "select_rows (\<lambda>r. ar_community_id r = c) db = chain_rows c db"
proof -
  have "sorted (map ar_seq (chain_rows c db))" using assms sorted_seqs unfolding chains_ok_def by blast
  moreover from this have "sorted (map ar_seq (filter P (chain_rows c db)))" by (rule sorted_filter)
  moreover have "filter (\<lambda>r. ar_community_id r = c \<and> P r) db = filter P (chain_rows c db)"
    by (simp add: chain_rows_def conj_commute)
  ultimately show "select_rows (\<lambda>r. ar_community_id r = c \<and> P r) db = filter P (chain_rows c db)"
    "select_rows (\<lambda>r. ar_community_id r = c) db = chain_rows c db"
    unfolding select_rows_def chain_rows_def [symmetric] by (simp_all only: sort_key_id_if_sorted)
qed

lemma chain_from_above: "chain_from n prev rs \<Longrightarrow> r \<in> set rs \<Longrightarrow> n \<le> ar_seq r"
  by (induction rs arbitrary: n prev) (force+)

lemma chain_prefix:
  "chain_from n prev rs \<Longrightarrow> a \<le> n \<Longrightarrow> chain_from n prev (filter (\<lambda>r. a \<le> ar_seq r \<and> ar_seq r \<le> b) rs)"
proof (induction rs arbitrary: n prev)
  case (Cons r rs)
  have rest: "chain_from (n + 1) (Some (ar_hash r)) rs" and n: "ar_seq r = n" using Cons.prems(1) by auto
  have "filter (\<lambda>r. a \<le> ar_seq r \<and> ar_seq r \<le> b) rs = []" if "b < n"
    using chain_from_above [OF rest] that by (force simp: filter_empty_conv)
  with Cons.IH [OF rest] Cons.prems n show ?case by auto
qed simp

lemma chain_segment:
  "chain_from n prev rs \<Longrightarrow> \<exists>m p. chain_from m p (filter (\<lambda>r. a \<le> ar_seq r \<and> ar_seq r \<le> b) rs)"
proof (induction rs arbitrary: n prev)
  case (Cons r rs)
  show ?case
  proof (cases "a \<le> ar_seq r")
    case True
    then have "a \<le> n" using Cons.prems by simp
    then show ?thesis using chain_prefix [OF Cons.prems] by blast
  qed (use Cons in auto)
qed simp

lemma chain_verifies:
  "chain_from n prev rs \<Longrightarrow> q = None \<or> q = prev \<Longrightarrow> \<forall>r \<in> set rs. \<exists>x. row_preimage E r = Some x \<and> sha256 E x = ar_hash r
     \<Longrightarrow> verify_loop E q rs = Ok True"
  by (induction rs arbitrary: n prev q) (simp, auto simp: verify_row simp del: verify_loop.simps)

lemma chain_links:
  "chain_from n prev rs \<Longrightarrow> i < length rs \<Longrightarrow>
     ar_prev_hash (rs ! i) = (if i = 0 then prev else Some (ar_hash (rs ! (i - 1))))"
proof (induction rs arbitrary: n prev i)
  case (Cons r rs)
  show ?case
  proof (cases i)
    case (Suc j)
    have "ar_prev_hash (rs ! j) = (if j = 0 then Some (ar_hash r) else Some (ar_hash (rs ! (j - 1))))"
      by (rule Cons.IH) (use Cons.prems Suc in auto)
    then show ?thesis using Suc by (cases j) auto
  qed (use Cons.prems in auto)
qed simp

lemma read_head_chain:
  assumes "chains_ok E db"
  shows "read_head c db = (int (length (chain_rows c db)),
    if chain_rows c db = [] then None else Some (ar_hash (last (chain_rows c db))))"
proof -
  have "ar_seq (last rs) = int (length rs)" if "chain_from 1 None rs" "rs \<noteq> []" for rs
    using arg_cong [OF chain_from_seqs [OF that(1)], of last] that(2) by (simp add: last_map) (cases rs; simp)
  with assms show ?thesis
    unfolding read_head_def select_chain(2) [OF assms] chains_ok_def by (auto simp: Let_def)
qed

section \<open>Appending\<close>

lemma action_round_trip [simp]: "action_from_str (action_as_str a) = Ok a"
  by (cases a) (simp_all add: action_from_str_def ALL_ACTIONS_def)

lemma storage_precision_idem [simp]: "to_storage_precision (t div 1000 * 1000) = to_storage_precision t"
  by (simp add: to_storage_precision_def)

lemma i64_succ: "n < 2 ^ 63 - 1 \<Longrightarrow> i64_add (int n) 1 = int n + 1"
  by (simp add: i64_add_def)

lemma build_entry_row:
  assumes "build_entry E now new head = Ok e"
  shows "written E e (row_of E e)" "ae_community_id e = ne_community_id new" "ae_seq e = i64_add (fst head) 1"
    "ae_prev_hash e = snd head"
  using assms by (auto simp: build_entry_def Let_def compute_hash_def written_def hash_preimage_def split: sum.splits)

text \<open>The preimage of an entry around the text of its detail.\<close>

definition preimage_with :: "audit_env \<Rightarrow> AuditEntry \<Rightarrow> string \<Rightarrow> bytes" where
  "preimage_with E e detail =
     (uuid_bytes E (ae_community_id e) @ to_be_bytes (ae_seq e)
      @ str_bytes (to_rfc3339 E (to_storage_precision (ae_created_at e))) @ str_bytes (action_as_str (ae_action e))
      @ opt_part (ae_actor_pubkey e) @ opt_part (map_option str_bytes (ae_object_id e))
      @ str_bytes detail @ (case ae_prev_hash e of Some h \<Rightarrow> h | None \<Rightarrow> GENESIS_HASH))"

lemma written_preimage:
  assumes "written E e r"
  shows "row_preimage E r = (case canonical_json E (jsonb E (ae_detail e)) of
      Inl _ \<Rightarrow> None | Inr d \<Rightarrow> Some (preimage_with E e d))"
    "\<exists>d. canonical_json E (ae_detail e) = Ok d \<and> ar_hash r = sha256 E (preimage_with E e d)"
  using assms
  by (auto simp: written_def row_preimage_def row_of_def row_to_audit_entry_def hash_preimage_def preimage_with_def
      compute_hash_def split: sum.splits)

lemma kept_row_sound:
  "written E e r \<Longrightarrow> detail_kept E e \<Longrightarrow> \<exists>x. row_preimage E r = Some x \<and> sha256 E x = ar_hash r"
  using written_preimage [of E e r] by (auto simp: detail_kept_def)

lemma append_keeps_chains:
  assumes "chains_ok E db" and "length db < 2 ^ 63 - 1"
    and app: "append_after E now new (read_head (ne_community_id new) db) db = (r, db')"
  shows "chains_ok E db'" and "case r of Inl _ \<Rightarrow> db' = db | Inr e \<Rightarrow> db' = db @ [row_of E e]"
proof -
  let ?c = "ne_community_id new"
  show res: "case r of Inl _ \<Rightarrow> db' = db | Inr e \<Rightarrow> db' = db @ [row_of E e]"
    using app by (auto simp: append_after_def insert_row_def split: sum.splits if_splits)
  show "chains_ok E db'"
  proof (cases r)
    case (Inr e)
    then have b: "build_entry E now new (read_head ?c db) = Ok e"
      using app by (auto simp: append_after_def split: sum.splits)
    note row = build_entry_row [OF b]
    have "length (chain_rows ?c db) < 2 ^ 63 - 1"
      unfolding chain_rows_def by (rule le_less_trans [OF length_filter_le assms(2)])
    then have seq: "ae_seq e = int (length (chain_rows ?c db)) + 1"
      using row(3) by (simp add: read_head_chain [OF assms(1)] i64_succ)
    have fields: "ar_seq (row_of E e) = ae_seq e" "ar_prev_hash (row_of E e) = ae_prev_hash e"
      "ar_hash (row_of E e) = ae_hash e" "ar_community_id (row_of E e) = ?c"
      using row(2) by (simp_all add: row_of_def)
    have "chain_from 1 None (chain_rows c db')" for c
      using assms(1) res Inr row(4) seq fields
      by (auto simp: chains_ok_def chain_rows_def chain_from_append read_head_chain [OF assms(1)])
    moreover have "\<forall>r \<in> set db'. \<exists>e. written E e r" using assms(1) res Inr row(1) by (auto simp: chains_ok_def)
    ultimately show ?thesis by (simp add: chains_ok_def)
  qed (use res assms(1) in simp)
qed

section \<open>Concurrent writers\<close>

fun busy :: "log_phase \<Rightarrow> NewAuditEntry option" where
  "busy Idle = None"
| "busy (Locked new) = Some new"
| "busy (HeadRead new _) = Some new"
| "busy (Finished new _) = Some new"

definition audit_inv :: "audit_env \<Rightarrow> audit_state \<Rightarrow> bool" where
  "audit_inv E s \<longleftrightarrow> chains_ok E (al_rows s)
     \<and> (\<forall>p new. busy (al_phase s p) = Some new \<longrightarrow> al_holder s (lock_key E (ne_community_id new)) = Some p)
     \<and> (\<forall>p new head. al_phase s p = HeadRead new head \<longrightarrow> head = read_head (ne_community_id new) (al_rows s))
     \<and> (\<forall>p new e. al_phase s p = Finished new (Ok e) \<longrightarrow> written E e (row_of E e) \<and> row_of E e \<in> set (al_rows s))"

lemma read_head_other: "ar_community_id r \<noteq> c \<Longrightarrow> read_head c (db @ [r]) = read_head c db"
  by (simp add: read_head_def select_rows_def)

lemma rows_grow: "audit_step E s s' \<Longrightarrow> length (al_rows s) \<le> length (al_rows s')"
  by (erule audit_stepE) (auto simp: append_after_def insert_row_def split: sum.splits if_splits)

lemma append_keeps_inv:
  assumes inv: "audit_inv E s" and p: "al_phase s p = HeadRead new head"
    and app: "append_after E now new head (al_rows s) = (r, rows)" and len: "length rows < 2 ^ 63"
  shows "audit_inv E (s\<lparr>al_rows := rows, al_phase := (al_phase s)(p := Finished new r)\<rparr>)"
proof -
  let ?c = "ne_community_id new"
  have chains: "chains_ok E (al_rows s)" and head: "head = read_head ?c (al_rows s)"
    and lock: "\<And>q new'. busy (al_phase s q) = Some new' \<Longrightarrow> al_holder s (lock_key E (ne_community_id new')) = Some q"
    and heads: "\<And>q new' h. al_phase s q = HeadRead new' h \<Longrightarrow> h = read_head (ne_community_id new') (al_rows s)"
    and acked: "\<And>q new' e. al_phase s q = Finished new' (Ok e) \<Longrightarrow> written E e (row_of E e) \<and> row_of E e \<in> set (al_rows s)"
    using inv p unfolding audit_inv_def by blast+
  show ?thesis
  proof (cases r)
    case (Inl x)
    then have "rows = al_rows s" using app by (auto simp: append_after_def split: sum.splits)
    with Inl chains lock heads acked p show ?thesis by (auto simp: audit_inv_def)
  next
    case (Inr e)
    then have rows: "rows = al_rows s @ [row_of E e]" and b: "build_entry E now new head = Ok e"
      using app by (auto simp: append_after_def insert_row_def split: sum.splits if_splits)
    have c: "ar_community_id (row_of E e) = ?c" using build_entry_row(2) [OF b] by (simp add: row_of_def)
    have other: "ne_community_id new' \<noteq> ?c" if "al_phase s q = HeadRead new' h" "q \<noteq> p" for q new' h
      using lock [of q new'] lock [of p new] that p by auto
    have "chains_ok E rows"
      using append_keeps_chains(1) [OF chains _ app [unfolded head]] len rows by simp
    moreover have "h = read_head (ne_community_id new') rows" if "al_phase s q = HeadRead new' h" "q \<noteq> p" for q new' h
      using heads [OF that(1)] read_head_other [of "row_of E e" "ne_community_id new'" "al_rows s"] c other [OF that] rows
      by simp
    ultimately show ?thesis using lock acked p Inr rows build_entry_row(1) [OF b] by (auto simp: audit_inv_def)
  qed
qed

lemma phase_keeps_inv:
  assumes inv: "audit_inv E s" and same: "al_rows s' = al_rows s" "al_phase s' = (al_phase s)(p := ph)"
    and held: "\<And>new. busy ph = Some new \<Longrightarrow> al_holder s' (lock_key E (ne_community_id new)) = Some p"
    and others: "\<And>q k. q \<noteq> p \<Longrightarrow> al_holder s k = Some q \<Longrightarrow> al_holder s' k = Some q"
    and head: "\<And>new h. ph = HeadRead new h \<Longrightarrow> h = read_head (ne_community_id new) (al_rows s)"
    and not_ok: "\<And>new e. ph \<noteq> Finished new (Ok e)"
  shows "audit_inv E s'"
proof -
  have "al_holder s' (lock_key E (ne_community_id new)) = Some q" if "busy (al_phase s' q) = Some new" for q new
    using that held others inv unfolding same audit_inv_def by (cases "q = p") simp_all
  moreover have "h = read_head (ne_community_id new) (al_rows s')" if "al_phase s' q = HeadRead new h" for q new h
    using that head inv unfolding same audit_inv_def by (cases "q = p"; cases h) simp_all
  moreover have "written E e (row_of E e) \<and> row_of E e \<in> set (al_rows s')" if "al_phase s' q = Finished new (Ok e)" for q new e
    using that not_ok inv unfolding same audit_inv_def by (cases "q = p") auto
  ultimately show ?thesis using inv same(1) unfolding audit_inv_def by metis
qed

lemma holder_busy:
  "audit_inv E s \<Longrightarrow> busy (al_phase s p) = Some new \<Longrightarrow> al_holder s (lock_key E (ne_community_id new)) = Some p"
  unfolding audit_inv_def by blast

lemma audit_inv_step:
  assumes "audit_step E s s'" and inv: "audit_inv E s" and "length (al_rows s') < 2 ^ 63"
  shows "audit_inv E s'"
  using assms(1)
proof cases
  case (insert_commit p new head now r rows)
  then show ?thesis using append_keeps_inv [of E s p new head now r rows] assms by simp
next
  case (acquire_lock p new)
  show ?thesis
    by (rule phase_keeps_inv [OF inv, where p = p and ph = "Locked new"]) (use acquire_lock in auto)
next
  case (select_head p new)
  then show ?thesis
    using holder_busy [OF inv, of p new] by (intro phase_keeps_inv [OF inv, where p = p and
      ph = "HeadRead new (read_head (ne_community_id new) (al_rows s))"]) auto
next
  case (call_failed p new head e)
  then show ?thesis
    using holder_busy [OF inv, of p new]
    by (intro phase_keeps_inv [OF inv, where p = p and ph = "Finished new (Err (Database e))"]) auto
next
  case (unlock p new r)
  then show ?thesis
    using holder_busy [OF inv, of p new] by (intro phase_keeps_inv [OF inv, where p = p and ph = Idle]) auto
next
  case (session_lost p new head r)
  then show ?thesis
    using holder_busy [OF inv, of p new] by (intro phase_keeps_inv [OF inv, where p = p and ph = Idle]) auto
qed

lemma audit_inv_reachable:
  "audit_reachable E s \<Longrightarrow> length (al_rows s) < 2 ^ 63 \<Longrightarrow> audit_inv E s"
proof (induction rule: audit_reachable.induct)
  case (step s s')
  then show ?case using audit_inv_step rows_grow [of E s s'] by fastforce
qed (simp add: audit_inv_def audit_init_def chains_ok_def chain_rows_def)

section \<open>What the preimage determines\<close>

lemma sep_unique:
  assumes "x @ c # xs = y @ c # ys" "c \<notin> set x" "c \<notin> set y"
  shows "x = y \<and> xs = ys"
proof -
  have "takeWhile (\<lambda>b. b \<noteq> c) (z @ c # zs) = z" if "c \<notin> set z" for z zs
    using that by (induction z) auto
  then show ?thesis using assms by (metis append_same_eq same_append_eq list.inject)
qed

lemma of_char_u8_inj: "(of_char c :: u8) = of_char d \<Longrightarrow> c = d"
proof -
  have "unat (of_char x :: u8) = of_char x" for x
  proof -
    have "unat (of_nat (of_char x) :: u8) = of_char x"
      by (simp add: unsigned_of_nat take_bit_nat_eq_self)
    then show ?thesis by (simp only: of_nat_of_char)
  qed
  then show "(of_char c :: u8) = of_char d \<Longrightarrow> c = d" by (metis of_char_eq_iff)
qed

lemma str_bytes_inj: "str_bytes s = str_bytes t \<longleftrightarrow> s = t"
  unfolding str_bytes_def by (rule inj_map_eq_map) (auto intro: injI of_char_u8_inj)

lemma str_bytes_append [simp]: "str_bytes (s @ t) = str_bytes s @ str_bytes t" "str_bytes [] = []"
  "str_bytes (c # s) = of_char c # str_bytes s"
  by (simp_all add: str_bytes_def)

lemma str_bytes_mem: "of_char c \<in> set (str_bytes s) \<longleftrightarrow> c \<in> set s"
  unfolding str_bytes_def using of_char_u8_inj by auto

lemma str_sep:
  assumes "str_bytes s @ of_char c # xs = str_bytes t @ of_char c # ys" "c \<notin> set s" "c \<notin> set t"
  shows "s = t \<and> xs = ys"
  using sep_unique [OF assms(1)] assms(2,3) unfolding str_bytes_mem str_bytes_inj by blast

lemma base256_digits:
  "(\<forall>i < k. n div 256 ^ i mod 256 = m div 256 ^ i mod (256 :: int)) \<Longrightarrow> n mod 256 ^ k = m mod 256 ^ k"
proof (induction k)
  case (Suc k)
  have "x mod 256 ^ Suc k = 256 ^ k * (x div 256 ^ k mod 256) + x mod 256 ^ k" for x :: int
    using zmod_zmult2_eq [of 256 x "256 ^ k"] by (simp add: mult.commute)
  with Suc show ?case by simp
qed simp

lemma to_be_bytes_inj:
  assumes "to_be_bytes n = to_be_bytes m" "- (2 ^ 63) \<le> n" "n < 2 ^ 63" "- (2 ^ 63) \<le> m" "m < 2 ^ 63"
  shows "n = m"
proof -
  have "n div 256 ^ i mod 256 = m div 256 ^ i mod 256" if "i < 8" for i
  proof -
    have "i \<in> {0, 1, 2, 3, 4, 5, 6, 7}" using that by (simp add: eval_nat_numeral less_Suc_eq)
    then have "(of_int (n div 256 ^ i) :: u8) = of_int (m div 256 ^ i)"
      using assms(1) by (auto simp: to_be_bytes_def)
    then show ?thesis by (simp add: word_of_int_eq_iff take_bit_eq_mod)
  qed
  then have "n mod 2 ^ 64 = m mod 2 ^ 64" using base256_digits [of 8 n m] by simp
  then have "(n + 2 ^ 63) mod 2 ^ 64 = (m + 2 ^ 63) mod 2 ^ 64" by (metis mod_add_left_eq)
  then show ?thesis using assms by simp
qed

lemma action_before_tag:
  assumes "str_bytes (action_as_str a) @ opt_part x @ xs = str_bytes (action_as_str b) @ opt_part y @ ys"
  shows "a = b \<and> opt_part x @ xs = opt_part y @ ys"
proof -
  have "takeWhile (\<lambda>w. 1 < w) (str_bytes (action_as_str a) @ opt_part x @ xs) = str_bytes (action_as_str a)" for a x xs
    by (cases a; cases x) (simp_all add: opt_part_def of_char_def)
  then have "action_as_str a = action_as_str b" using assms by (metis str_bytes_inj)
  moreover from this have "a = b" by (metis action_round_trip sum.inject(2))
  ultimately show ?thesis using assms by simp
qed

lemma opt_part_fixed:
  assumes "opt_part x @ xs = opt_part y @ ys" "is_none_or x (\<lambda>b. length b = n)" "is_none_or y (\<lambda>b. length b = n)"
  shows "x = y \<and> xs = ys"
  using assms by (cases x; cases y) (auto simp: opt_part_def)

lemma object_part:
  assumes "opt_part (map_option str_bytes x) @ str_bytes (CHR ''{'' # d) @ xs =
      opt_part (map_option str_bytes y) @ str_bytes (CHR ''{'' # e) @ ys"
    and "is_none_or x (\<lambda>s. CHR ''{'' \<notin> set s)" "is_none_or y (\<lambda>s. CHR ''{'' \<notin> set s)"
    and "length xs = length ys"
  shows "x = y \<and> d = e \<and> xs = ys"
proof -
  have "x = y \<and> str_bytes d @ xs = str_bytes e @ ys"
  proof (cases x; cases y)
    fix s t assume st: "x = Some s" "y = Some t"
    then have "str_bytes s @ of_char CHR ''{'' # (str_bytes d @ xs) = str_bytes t @ of_char CHR ''{'' # (str_bytes e @ ys)"
      using assms(1) by (simp add: opt_part_def)
    from str_sep [OF this] show ?thesis using assms(2,3) st by simp
  qed (use assms in \<open>auto simp: opt_part_def\<close>)
  with assms(4) show ?thesis by (simp add: str_bytes_inj)
qed

lemma push_parts_prefix: "push_parts first out ps = Ok s \<Longrightarrow> prefix out s"
  by (induction ps arbitrary: first out) (auto split: sum.splits intro: append_prefixD)

lemma object_text: "canonical_json E (Object m) = Ok s \<Longrightarrow> \<exists>d. s = CHR ''{'' # d"
  using push_parts_prefix by (fastforce simp: closed_def prefix_def split: sum.splits)

definition MAX_TIME :: int where "MAX_TIME = 253402300800 * 10 ^ 9"

text \<open>
  chrono's documented text of a UTC time of the years 1970 to 9999: the offset \<open>+00:00\<close> at the end, no
  other plus sign, and different texts for different times.
\<close>

definition rfc3339_ok :: "audit_env \<Rightarrow> bool" where
  "rfc3339_ok E \<longleftrightarrow> (\<forall>t. 0 \<le> t \<and> t < MAX_TIME \<longrightarrow>
     (\<exists>body. to_rfc3339 E t = body @ ''+00:00'' \<and> CHR ''+'' \<notin> set body)
     \<and> (\<forall>t'. 0 \<le> t' \<and> t' < MAX_TIME \<and> to_rfc3339 E t = to_rfc3339 E t' \<longrightarrow> t = t'))"

text \<open>Rows as the relay writes them: 32-byte keys, identifiers without braces, objects as details.\<close>

definition relay_shaped :: "AuditRow \<Rightarrow> bool" where
  "relay_shaped r \<longleftrightarrow> - (2 ^ 63) \<le> ar_seq r \<and> ar_seq r < 2 ^ 63 \<and> is_none_or (ar_actor_pubkey r) (\<lambda>b. length b = 32)
     \<and> is_none_or (ar_object_id r) (\<lambda>s. CHR ''{'' \<notin> set s) \<and> is_none_or (ar_prev_hash r) (\<lambda>b. length b = 32)
     \<and> (case ar_detail r of Object _ \<Rightarrow> True | _ \<Rightarrow> False) \<and> 0 \<le> ar_created_at r \<and> ar_created_at r < MAX_TIME"

text \<open>The same record, up to the order of the keys of its detail and below the microsecond.\<close>

definition same_record :: "audit_env \<Rightarrow> AuditRow \<Rightarrow> AuditRow \<Rightarrow> bool" where
  "same_record E r q \<longleftrightarrow> ar_seq r = ar_seq q \<and> ar_action r = ar_action q \<and> ar_actor_pubkey r = ar_actor_pubkey q
     \<and> ar_object_id r = ar_object_id q \<and> canonical_json E (ar_detail r) = canonical_json E (ar_detail q)
     \<and> to_storage_precision (ar_created_at r) = to_storage_precision (ar_created_at q)"

lemma action_from_str_Ok: "action_from_str s = Ok a \<Longrightarrow> s = action_as_str a"
  unfolding action_from_str_def by (cases "List.find (\<lambda>a. action_as_str a = s) ALL_ACTIONS")
    (auto simp: find_Some_iff)

lemma relay_preimage:
  assumes "row_preimage E r = Some x" "relay_shaped r"
  obtains d a where "canonical_json E (ar_detail r) = Ok (CHR ''{'' # d)" "ar_action r = action_as_str a"
    "x = uuid_bytes E (ar_community_id r) @ to_be_bytes (ar_seq r)
       @ str_bytes (to_rfc3339 E (to_storage_precision (ar_created_at r))) @ str_bytes (action_as_str a)
       @ opt_part (ar_actor_pubkey r) @ opt_part (map_option str_bytes (ar_object_id r))
       @ str_bytes (CHR ''{'' # d) @ row_link r"
proof -
  obtain a where a: "action_from_str (ar_action r) = Ok a"
    using assms(1) by (auto simp: row_preimage_def row_to_audit_entry_def split: sum.splits)
  obtain s where s: "canonical_json E (ar_detail r) = Ok s"
    using assms(1) a by (auto simp: row_preimage_def row_to_audit_entry_def hash_preimage_def split: sum.splits)
  obtain m where "ar_detail r = Object m" using assms(2) by (auto simp: relay_shaped_def split: Value.splits)
  then obtain d where d: "s = CHR ''{'' # d" using object_text s by metis
  show thesis
  proof (rule that [of d a])
    show "canonical_json E (ar_detail r) = Ok (CHR ''{'' # d)" using s d by simp
    show "ar_action r = action_as_str a" by (rule action_from_str_Ok [OF a])
    show "x = uuid_bytes E (ar_community_id r) @ to_be_bytes (ar_seq r)
       @ str_bytes (to_rfc3339 E (to_storage_precision (ar_created_at r))) @ str_bytes (action_as_str a)
       @ opt_part (ar_actor_pubkey r) @ opt_part (map_option str_bytes (ar_object_id r))
       @ str_bytes (CHR ''{'' # d) @ row_link r"
      using assms(1) a s d by (simp add: row_preimage_def row_to_audit_entry_def hash_preimage_def row_link_def
          unwrap_or_def split: option.splits)
  qed
qed

lemma time_part:
  assumes "rfc3339_ok E" "str_bytes (to_rfc3339 E t) @ xs = str_bytes (to_rfc3339 E t') @ ys"
    and "0 \<le> t" "t < MAX_TIME" "0 \<le> t'" "t' < MAX_TIME"
  shows "t = t' \<and> xs = ys"
proof -
  obtain b b' where b: "to_rfc3339 E t = b @ ''+00:00''" "CHR ''+'' \<notin> set b"
    "to_rfc3339 E t' = b' @ ''+00:00''" "CHR ''+'' \<notin> set b'"
    using assms unfolding rfc3339_ok_def by metis
  have "str_bytes b @ of_char CHR ''+'' # (str_bytes ''00:00'' @ xs) = str_bytes b' @ of_char CHR ''+'' # (str_bytes ''00:00'' @ ys)"
    using assms(2) b by simp
  from str_sep [OF this b(2,4)] have "b = b'" "xs = ys" by blast+
  then show ?thesis using assms b unfolding rfc3339_ok_def by metis
qed

lemma same_preimage_same_record:
  assumes "rfc3339_ok E" "relay_shaped r" "relay_shaped q" "ar_community_id r = ar_community_id q"
    and "row_preimage E r = Some x" "row_preimage E q = Some x"
  shows "same_record E r q"
proof -
  obtain d a where r: "canonical_json E (ar_detail r) = Ok (CHR ''{'' # d)" "ar_action r = action_as_str a"
    "x = uuid_bytes E (ar_community_id r) @ to_be_bytes (ar_seq r)
       @ str_bytes (to_rfc3339 E (to_storage_precision (ar_created_at r))) @ str_bytes (action_as_str a)
       @ opt_part (ar_actor_pubkey r) @ opt_part (map_option str_bytes (ar_object_id r))
       @ str_bytes (CHR ''{'' # d) @ row_link r" by (rule relay_preimage [OF assms(5,2)])
  obtain e b where q: "canonical_json E (ar_detail q) = Ok (CHR ''{'' # e)" "ar_action q = action_as_str b"
    "x = uuid_bytes E (ar_community_id q) @ to_be_bytes (ar_seq q)
       @ str_bytes (to_rfc3339 E (to_storage_precision (ar_created_at q))) @ str_bytes (action_as_str b)
       @ opt_part (ar_actor_pubkey q) @ opt_part (map_option str_bytes (ar_object_id q))
       @ str_bytes (CHR ''{'' # e) @ row_link q" by (rule relay_preimage [OF assms(6,3)])
  have range: "0 \<le> to_storage_precision t \<and> to_storage_precision t < MAX_TIME" if "0 \<le> t" "t < MAX_TIME" for t
    using that div_mult_mod_eq [of t 1000] pos_mod_sign [of 1000 t]
    by (simp add: to_storage_precision_def pos_imp_zdiv_nonneg_iff)
  have link: "length (row_link r) = length (row_link q)"
    using assms(2,3) by (cases "ar_prev_hash r"; cases "ar_prev_hash q")
      (auto simp: relay_shaped_def row_link_def GENESIS_HASH_def)
  have 1: "to_be_bytes (ar_seq r) = to_be_bytes (ar_seq q)"
    and 2: "str_bytes (to_rfc3339 E (to_storage_precision (ar_created_at r))) @ str_bytes (action_as_str a)
       @ opt_part (ar_actor_pubkey r) @ opt_part (map_option str_bytes (ar_object_id r))
       @ str_bytes (CHR ''{'' # d) @ row_link r =
      str_bytes (to_rfc3339 E (to_storage_precision (ar_created_at q))) @ str_bytes (action_as_str b)
       @ opt_part (ar_actor_pubkey q) @ opt_part (map_option str_bytes (ar_object_id q))
       @ str_bytes (CHR ''{'' # e) @ row_link q"
    using r(3) q(3) assms(4) append_eq_append_conv [of "to_be_bytes (ar_seq r)" "to_be_bytes (ar_seq q)"]
    by (simp_all add: to_be_bytes_def)
  note shaped = assms(2,3) [unfolded relay_shaped_def]
  from time_part [OF assms(1) 2] range shaped
  have 3: "to_storage_precision (ar_created_at r) = to_storage_precision (ar_created_at q)"
    and 4: "str_bytes (action_as_str a) @ opt_part (ar_actor_pubkey r) @ opt_part (map_option str_bytes (ar_object_id r))
       @ str_bytes (CHR ''{'' # d) @ row_link r =
      str_bytes (action_as_str b) @ opt_part (ar_actor_pubkey q) @ opt_part (map_option str_bytes (ar_object_id q))
       @ str_bytes (CHR ''{'' # e) @ row_link q"
    by blast+
  from action_before_tag [OF 4] have "a = b" and 5: "opt_part (ar_actor_pubkey r) @ opt_part (map_option str_bytes (ar_object_id r))
       @ str_bytes (CHR ''{'' # d) @ row_link r =
      opt_part (ar_actor_pubkey q) @ opt_part (map_option str_bytes (ar_object_id q))
       @ str_bytes (CHR ''{'' # e) @ row_link q" by blast+
  from opt_part_fixed [OF 5] shaped have 6: "ar_actor_pubkey r = ar_actor_pubkey q"
    "opt_part (map_option str_bytes (ar_object_id r)) @ str_bytes (CHR ''{'' # d) @ row_link r =
      opt_part (map_option str_bytes (ar_object_id q)) @ str_bytes (CHR ''{'' # e) @ row_link q" by blast+
  from object_part [OF 6(2) _ _ link] shaped have "ar_object_id r = ar_object_id q" "d = e" by blast+
  with 3 6(1) \<open>a = b\<close> r q to_be_bytes_inj [OF 1] shaped show ?thesis by (simp add: same_record_def)
qed

section \<open>A concrete environment\<close>

text \<open>Hash, clock text and JSON as simple functions that satisfy what the properties assume.\<close>

definition sample_env :: audit_env where
  "sample_env = \<lparr>sha256 = (\<lambda>b. replicate 31 0 @ [of_nat (length b)]), uuid_bytes = str_bytes,
     to_rfc3339 = (\<lambda>t. nat_to_string (nat t) @ ''+00:00''),
     json_text = (\<lambda>v. case v of Number n \<Rightarrow> Ok n | String s \<Rightarrow> Ok (CHR 0x22 # s @ [CHR 0x22])
       | Bool b \<Rightarrow> Ok (if b then ''true'' else ''false'') | _ \<Rightarrow> Ok ''null''),
     jsonb = (\<lambda>v. v), hashtextextended = (\<lambda>s. int (length s))\<rparr>"

definition sample_new :: NewAuditEntry where
  "sample_new = \<lparr>ne_community_id = ''c'', ne_action = EventCreated, ne_actor_pubkey = None,
     ne_object_id = Some ''e1'', ne_detail = Object []\<rparr>"

lemma sample_env_ok: "rfc3339_ok sample_env" "length (sha256 sample_env x) = 32"
proof -
  have "\<not> is_ascii_digit CHR ''+''" by (simp add: is_ascii_digit_def)
  then show "rfc3339_ok sample_env"
    using nat_to_string_sep nat_to_string_inj by (auto simp: rfc3339_ok_def sample_env_def dest!: nat_to_string_inj)
qed (simp_all add: sample_env_def)

text \<open>One writer that has logged one entry, before it releases the lock.\<close>

definition single_run :: "audit_env \<Rightarrow> int \<Rightarrow> NewAuditEntry \<Rightarrow> audit_state" where
  "single_run E now new = \<lparr>al_rows = snd (log_inner E now new []),
     al_holder = (\<lambda>k. if k = lock_key E (ne_community_id new) then Some 0 else None),
     al_phase = (\<lambda>p. if p = 0 then Finished new (fst (log_inner E now new [])) else Idle)\<rparr>"

lemma single_run_reachable: "audit_reachable E (single_run E now new)"
proof -
  let ?s1 = "audit_init\<lparr>al_holder := (al_holder audit_init)(lock_key E (ne_community_id new) := Some 0),
      al_phase := (al_phase audit_init)(0 := Locked new)\<rparr>"
  let ?s2 = "?s1\<lparr>al_phase := (al_phase ?s1)(0 := HeadRead new (read_head (ne_community_id new) (al_rows ?s1)))\<rparr>"
  let ?r = "log_inner E now new []"
  have "audit_reachable E ?s1"
    by (rule audit_reachable.step [OF audit_reachable.start acquire_lock]) (simp_all add: audit_init_def)
  then have "audit_reachable E ?s2" by (rule audit_reachable.step) (rule select_head, simp)
  then have "audit_reachable E (?s2\<lparr>al_rows := snd ?r, al_phase := (al_phase ?s2)(0 := Finished new (fst ?r))\<rparr>)"
    by (rule audit_reachable.step)
      (rule insert_commit [where now = now], simp, simp add: audit_init_def log_inner_def)
  moreover have "?s2\<lparr>al_rows := snd ?r, al_phase := (al_phase ?s2)(0 := Finished new (fst ?r))\<rparr> = single_run E now new"
    by (auto simp: single_run_def audit_init_def)
  ultimately show ?thesis by simp
qed

definition sample_run :: audit_state where "sample_run = single_run sample_env 5000 sample_new"

lemma sample_run_reachable: "audit_reachable sample_env sample_run"
  unfolding sample_run_def by (rule single_run_reachable)

definition sample_row :: AuditRow where
  "sample_row = hd (al_rows sample_run)"

lemma sample_rows [simp]:
  "al_rows sample_run = [sample_row]" "chain_rows ''c'' [sample_row] = [sample_row]" "ar_seq sample_row = 1"
  "ar_community_id sample_row = ''c''" "relay_shaped sample_row"
  by (simp_all add: sample_row_def sample_run_def single_run_def log_inner_def append_after_def build_entry_def compute_hash_def
      hash_preimage_def insert_row_def read_head_def select_rows_def sample_env_def sample_new_def Let_def
      closed_def row_of_def chain_rows_def relay_shaped_def i64_add_def log_timestamp_def to_storage_precision_def
      MAX_TIME_def)

lemma sample_kept [simp]: "detail_kept sample_env e"
  by (simp add: detail_kept_def sample_env_def)

lemma sample_rows_verify: "verify_loop sample_env None [sample_row] = Ok True"
proof -
  have inv: "audit_inv sample_env sample_run"
    by (rule audit_inv_reachable [OF sample_run_reachable]) simp
  then have "chain_from 1 None (chain_rows ''c'' (al_rows sample_run))"
    unfolding audit_inv_def chains_ok_def by blast
  moreover have "\<exists>e. written sample_env e sample_row" using inv by (auto simp: audit_inv_def chains_ok_def)
  ultimately show ?thesis using chain_verifies [of 1 None "[sample_row]" None sample_env] kept_row_sound sample_kept by fastforce
qed

section \<open>Properties\<close>

text \<open>
  C16. Concurrent writers build one chain per community. In every interleaving of any number of
  writers, with failed calls and lost sessions at any point, the rows of a community carry the sequence
  numbers 1, 2, 3, ... in order, each names the hash of its predecessor (the first names none), each is the stored form of an
  entry hashed by a call, a call
  that reported success has its row in the table, and verifying any range in which every entry was written with a detail that
  \<^verbatim>\<open>JSONB\<close> gives back with its canonical text reports a consistent chain,
  or \<open>false\<close> when the range is empty. (For other details it need not: see \<open>stored_detail_changes\<close>.) A writer that holds the lock is
  never refused for its sequence
  number: the database can only refuse a hash that an earlier row of the community already has.
\<close>

theorem audit_chains_under_concurrency:
  assumes "audit_reachable E s" "length (al_rows s) < 2 ^ 63"
  shows "map ar_seq (chain_rows c (al_rows s)) = map int [1..<Suc (length (chain_rows c (al_rows s)))]
    \<and> (\<forall>i < length (chain_rows c (al_rows s)). ar_prev_hash (chain_rows c (al_rows s) ! i) =
         (if i = 0 then None else Some (ar_hash (chain_rows c (al_rows s) ! (i - 1)))))
    \<and> (\<forall>r \<in> set (chain_rows c (al_rows s)). \<exists>e. written E e r)
    \<and> ((\<forall>r \<in> set (chain_rows c (al_rows s)). a \<le> ar_seq r \<and> ar_seq r \<le> b \<longrightarrow> (\<exists>e. written E e r \<and> detail_kept E e)) \<longrightarrow>
         verify_chain E (al_rows s) c a b = Ok (\<exists>r \<in> set (chain_rows c (al_rows s)). a \<le> ar_seq r \<and> ar_seq r \<le> b))
    \<and> (al_phase s p = Finished new (Ok e) \<longrightarrow> row_of E e \<in> set (al_rows s))
    \<and> (al_phase s p = HeadRead new head \<and> build_entry E now new head = Ok e \<and> insert_row E e (al_rows s) = Err x
         \<and> Suc (length (al_rows s)) < 2 ^ 63 \<longrightarrow>
         (\<exists>r \<in> set (chain_rows (ne_community_id new) (al_rows s)). ar_hash r = ae_hash e))"
proof -
  let ?rs = "chain_rows c (al_rows s)"
  have inv: "audit_inv E s" by (rule audit_inv_reachable [OF assms])
  then have chains: "chains_ok E (al_rows s)" by (simp add: audit_inv_def)
  then have chain: "chain_from 1 None (chain_rows c (al_rows s))" for c by (simp add: chains_ok_def)
  have "map ar_seq ?rs = map int (map Suc [0..<length ?rs])"
    unfolding chain_from_seqs [OF chain] by simp
  then have seqs: "map ar_seq ?rs = map int [1..<Suc (length ?rs)]" by (simp add: map_Suc_upt)
  have entries: "\<forall>r \<in> set ?rs. \<exists>e. written E e r" using chains by (auto simp: chains_ok_def chain_rows_def)
  have verify: "verify_chain E (al_rows s) c a b = Ok (\<exists>r \<in> set ?rs. a \<le> ar_seq r \<and> ar_seq r \<le> b)"
    if "\<forall>r \<in> set ?rs. a \<le> ar_seq r \<and> ar_seq r \<le> b \<longrightarrow> (\<exists>e. written E e r \<and> detail_kept E e)"
  proof -
    have "\<forall>r \<in> set (filter (\<lambda>r. a \<le> ar_seq r \<and> ar_seq r \<le> b) ?rs). \<exists>x. row_preimage E r = Some x \<and> sha256 E x = ar_hash r"
      using that kept_row_sound by fastforce
    then have "verify_loop E None (filter (\<lambda>r. a \<le> ar_seq r \<and> ar_seq r \<le> b) ?rs) = Ok True"
      using chain_segment [OF chain, where a = a and b = b] chain_verifies by blast
    then show ?thesis
      unfolding verify_chain_def select_chain(1) [OF chains] by (auto simp: Let_def filter_empty_conv)
  qed
  have refused: "\<exists>r \<in> set (chain_rows (ne_community_id new) (al_rows s)). ar_hash r = ae_hash e"
    if h: "al_phase s p = HeadRead new head" and b: "build_entry E now new head = Ok e"
      and x: "insert_row E e (al_rows s) = Err x" and len: "Suc (length (al_rows s)) < 2 ^ 63"
  proof -
    let ?qs = "chain_rows (ne_community_id new) (al_rows s)"
    have "head = read_head (ne_community_id new) (al_rows s)" using inv h by (cases head) (auto simp: audit_inv_def)
    moreover have "length ?qs < 2 ^ 63 - 1"
      unfolding chain_rows_def using len by (intro le_less_trans [OF length_filter_le]) simp
    ultimately have seq: "ae_seq e = int (length ?qs) + 1"
      using build_entry_row(3) [OF b] by (simp add: read_head_chain [OF chains] i64_succ)
    have "ar_seq r \<le> int (length ?qs)" if "r \<in> set ?qs" for r
      using chain_from_seqs [OF chain, of "ne_community_id new"] imageI [OF that, of ar_seq]
      unfolding set_map [symmetric] by auto
    with seq x show ?thesis
      using build_entry_row(2) [OF b] by (fastforce simp: insert_row_def chain_rows_def split: if_splits)
  qed
  have "row_of E e \<in> set (al_rows s)" if "al_phase s p = Finished new (Ok e)"
    using inv that unfolding audit_inv_def by blast
  with seqs chain_links [OF chain] entries verify refused show ?thesis by blast
qed

theorem audit_chains_under_concurrency_witness:
  "verify_chain sample_env (al_rows sample_run) ''c'' 1 9 = Ok True"
  using audit_chains_under_concurrency [OF sample_run_reachable, of "''c''" 1 9] sample_rows by simp

text \<open>
  A detail whose text the database changes makes an untampered chain fail. Whenever a call has reported the success of an entry
  whose detail comes back from \<^verbatim>\<open>JSONB\<close> with another canonical text, in any interleaving of writers, verifying the range that is
  just this row answers \<open>HashMismatch\<close> for its sequence number, unless the two preimages, which differ, are a SHA-256 collision: the hash is taken of
  the value as submitted, before storage, and recomputed from the value as stored.
\<close>

theorem stored_detail_changes:
  assumes "audit_reachable E s" "length (al_rows s) < 2 ^ 63" "al_phase s p = Finished new (Ok e)"
    and "canonical_json E (ae_detail e) = Ok d" "canonical_json E (jsonb E (ae_detail e)) = Ok d'" "d \<noteq> d'"
  shows "preimage_with E e d \<noteq> preimage_with E e d'
    \<and> (verify_chain E (al_rows s) (ae_community_id e) (ae_seq e) (ae_seq e) = Err (HashMismatch (ae_seq e))
    \<or> sha256 E (preimage_with E e d) = sha256 E (preimage_with E e d'))"
proof -
  have inv: "audit_inv E s" by (rule audit_inv_reachable [OF assms(1,2)])
  then have chains: "chains_ok E (al_rows s)" and wr: "written E e (row_of E e)" and row: "row_of E e \<in> set (al_rows s)"
    using assms(3) unfolding audit_inv_def by blast+
  let ?rs = "chain_rows (ae_community_id e) (al_rows s)"
  let ?seg = "filter (\<lambda>r. ae_seq e \<le> ar_seq r \<and> ar_seq r \<le> ae_seq e) ?rs"
  have mem: "row_of E e \<in> set ?seg" using row by (simp add: chain_rows_def row_of_def)
  have once: "distinct (replicate n x) \<Longrightarrow> n \<le> 1" for n and x :: int
  proof (cases n)
    case (Suc m)
    then show "distinct (replicate n x) \<Longrightarrow> n \<le> 1" by (cases m) auto
  qed simp
  have "distinct (map ar_seq ?rs)"
    using chain_from_seqs [of 1 None ?rs] chains by (simp add: chains_ok_def distinct_map inj_on_def)
  then have distinct: "distinct (map ar_seq ?seg)" by (rule distinct_map_filter)
  have same: "replicate (length (map ar_seq ?seg)) (ae_seq e) = map ar_seq ?seg" by (rule replicate_length_same) auto
  have "length (map ar_seq ?seg) \<le> 1" by (rule once [of _ "ae_seq e"]) (simp only: same distinct)
  then have short: "length ?seg \<le> 1" by (simp only: length_map)
  have "xs = [r]" if "length xs \<le> 1" "r \<in> set xs" for xs and r :: AuditRow
    using that by (cases xs) auto
  then have seg: "?seg = [row_of E e]" using short mem by blast
  then have *: "verify_chain E (al_rows s) (ae_community_id e) (ae_seq e) (ae_seq e) = verify_loop E None [row_of E e]"
    unfolding verify_chain_def select_chain(1) [OF chains] by (simp add: Let_def)
  have "preimage_with E e d \<noteq> preimage_with E e d'" using assms(6) by (simp add: preimage_with_def str_bytes_inj)
  note pre = written_preimage [OF wr]
  have "ar_hash (row_of E e) = sha256 E (preimage_with E e d)" using pre(2) assms(4) by simp
  moreover have "row_preimage E (row_of E e) = Some (preimage_with E e d')" using pre(1) assms(5) by simp
  ultimately show ?thesis
    using \<open>preimage_with E e d \<noteq> preimage_with E e d'\<close>
    unfolding * by (auto simp: row_preimage_def compute_hash_def row_to_audit_entry_def row_of_def split: sum.splits)
qed

text \<open>A database whose \<^verbatim>\<open>JSONB\<close> prints a float as Postgres does, and one entry with such a detail.\<close>

definition sample_jsonb_env :: audit_env where
  "sample_jsonb_env = sample_env\<lparr>jsonb := (\<lambda>v. if v = Number ''1e16'' then Number ''10000000000000000'' else v)\<rparr>"

definition sample_float :: NewAuditEntry where "sample_float = sample_new\<lparr>ne_detail := Number ''1e16''\<rparr>"

theorem stored_detail_changes_witness:
  "verify_chain sample_jsonb_env (al_rows (single_run sample_jsonb_env 5000 sample_float)) ''c'' 1 1 = Err (HashMismatch 1)"
proof -
  let ?E = sample_jsonb_env and ?s = "single_run sample_jsonb_env 5000 sample_float"
  obtain e where e: "fst (log_inner ?E 5000 sample_float []) = Ok e" "ae_community_id e = ''c''" "ae_seq e = 1"
    "ae_detail e = Number ''1e16''" "ae_created_at e = 5000" "ae_action e = EventCreated" "ae_actor_pubkey e = None"
    "ae_object_id e = Some ''e1''" "ae_prev_hash e = None" and len: "length (al_rows ?s) < 2 ^ 63"
    by (simp add: single_run_def log_inner_def append_after_def build_entry_def compute_hash_def
        hash_preimage_def insert_row_def read_head_def select_rows_def sample_jsonb_env_def sample_env_def sample_float_def
        sample_new_def Let_def i64_add_def log_timestamp_def to_storage_precision_def)
  then have "al_phase ?s 0 = Finished sample_float (Ok e)" by (simp add: single_run_def)
  from stored_detail_changes [OF single_run_reachable len this, of "''1e16''" "''10000000000000000''"] e show ?thesis
    by (simp add: sample_jsonb_env_def sample_env_def preimage_with_def to_be_bytes_def GENESIS_HASH_def)
qed

text \<open>
  C17. Tampering is evident. Take the rows of a community as the writers left them and any other rows
  for the same community with positive, strictly increasing sequence numbers, both written in the
  relay's form, that verify and end in the same hash. Then the other rows are the newest ones of the
  chain, record for record (all of them when they start with sequence number 1), or two of the rows
  exhibit a SHA-256 collision.
\<close>

theorem audit_tamper_evident:
  assumes laws: "rfc3339_ok E" "\<And>x. length (sha256 E x) = 32"
    and rs: "verify_loop E None rs = Ok True" "rs \<noteq> []" "map ar_seq rs = map int [1..<Suc (length rs)]"
    and qs: "verify_loop E None qs = Ok True" "qs \<noteq> []" "sorted_wrt (<) (map ar_seq qs)" "\<forall>q \<in> set qs. 1 \<le> ar_seq q"
    and shape: "\<forall>r \<in> set rs \<union> set qs. relay_shaped r \<and> ar_community_id r = c"
    and "ar_hash (last rs) = ar_hash (last qs)"
  shows "(length qs \<le> length rs \<and> list_all2 (same_record E) (drop (length rs - length qs) rs) qs
       \<and> (ar_seq (hd qs) = 1 \<longrightarrow> length qs = length rs))
    \<or> (\<exists>r \<in> set rs. \<exists>q \<in> set qs. \<exists>x y. row_preimage E r = Some x \<and> row_preimage E q = Some y
         \<and> x \<noteq> y \<and> sha256 E x = sha256 E y)"
proof (cases "ac.collision E (rev rs) (rev qs)")
  case True
  then show ?thesis unfolding ac.collision_def by auto
next
  case False
  let ?m = "min (length rs) (length qs)"
  have chained: "ac.chained E (rev rs)" "ac.chained E (rev qs)"
    using verify_chained rs(1) qs(1) by blast+
  have pre: "row_preimage E (rev rs ! i) = row_preimage E (rev qs ! i)" if "i < ?m" for i
    using ac.head_determines [OF chained, of 32] False rs(2) qs(2) assms(11) laws(2) that by (auto simp: hd_rev)
  have some: "row_preimage E r \<noteq> None" if "r \<in> set rs" for r
  proof -
    have "r \<in> set ks \<Longrightarrow> ac.chained E ks \<Longrightarrow> row_preimage E r \<noteq> None" for ks by (induction ks) auto
    then show ?thesis using chained(1) that by (metis set_rev)
  qed
  have same: "same_record E (rev rs ! i) (rev qs ! i)" if "i < ?m" for i
  proof -
    have mem: "rev rs ! i \<in> set rs" "rev qs ! i \<in> set qs"
      using that by (metis length_rev min_less_iff_conj nth_mem set_rev)+
    obtain x where x: "row_preimage E (rev rs ! i) = Some x" using some [OF mem(1)] by auto
    show ?thesis
      by (rule same_preimage_same_record [OF laws(1) _ _ _ x]) (use shape mem pre [OF that] x in auto)
  qed
  have seq_rs: "ar_seq (rev rs ! i) = int (length rs) - int i" if "i < length rs" for i
  proof -
    have "ar_seq (rs ! j) = int j + 1" if "j < length rs" for j
      using arg_cong [OF rs(3), of "\<lambda>l. l ! j"] that by (simp del: upt_Suc)
    then show ?thesis using that by (simp add: rev_nth)
  qed
  have last_seq: "ar_seq (last qs) = int (length rs)"
    using same [of 0] seq_rs [of 0] rs(2) qs(2) by (simp add: same_record_def hd_rev [symmetric] hd_conv_nth)
  have grow: "ar_seq (qs ! 0) + int j \<le> ar_seq (qs ! j)" if "j < length qs" for j
    using that
  proof (induction j)
    case (Suc j)
    then have "ar_seq (qs ! j) < ar_seq (qs ! Suc j)" using qs(3) by (simp add: sorted_wrt_iff_nth_less)
    with Suc show ?case by simp
  qed simp
  have len: "length qs \<le> length rs"
  proof -
    have "1 \<le> ar_seq (qs ! 0)" using qs(2,4) by simp
    then show ?thesis using grow [of "length qs - 1"] last_seq qs(2) by (cases "length qs") (simp_all add: last_conv_nth)
  qed
  have "list_all2 (same_record E) (take (length qs) (rev rs)) (rev qs)"
    using same len by (auto intro!: list_all2_all_nthI)
  then have tail: "list_all2 (same_record E) (drop (length rs - length qs) rs) qs"
    using list_all2_rev1 [of "same_record E" "take (length qs) (rev rs)" qs] by (simp add: rev_take)
  have "length qs = length rs" if "ar_seq (hd qs) = 1"
  proof -
    have "ar_seq (rs ! (length rs - length qs)) = ar_seq (qs ! 0)"
      using tail list_all2_nthD [OF tail, of 0] qs(2) len by (simp add: same_record_def)
    moreover have "ar_seq (rs ! j) = int j + 1" if "j < length rs" for j
      using arg_cong [OF rs(3), of "\<lambda>l. l ! j"] that by (simp del: upt_Suc)
    ultimately show ?thesis using that len qs(2) rs(2) by (simp add: hd_conv_nth)
  qed
  with len tail show ?thesis by blast
qed

theorem audit_tamper_evident_witness:
  "list_all2 (same_record sample_env) [sample_row] [sample_row]
    \<or> (\<exists>x y. row_preimage sample_env sample_row = Some x \<and> row_preimage sample_env sample_row = Some y \<and> x \<noteq> y)"
  using audit_tamper_evident [OF sample_env_ok(1,2) sample_rows_verify _ _ sample_rows_verify, of "''c''"] by auto

text \<open>
  What verification cannot see. The hash covers the object id and the detail without a separator:
  bytes may move from the end of the id to the front of a detail that is a bare number, and the hash
  stays the same. And every segment of a chain verifies on its own, so rows removed at either end of
  the range leave no trace in the rows that remain.
\<close>

theorem audit_verification_limits:
  assumes "\<And>s. json_text E (Number s) = Ok s"
  shows "compute_hash E (e\<lparr>ae_object_id := Some (i @ t), ae_detail := Number u\<rparr>) =
      compute_hash E (e\<lparr>ae_object_id := Some i, ae_detail := Number (t @ u)\<rparr>)
    \<and> (verify_loop E prev rs = Ok True \<longrightarrow>
         verify_loop E None (drop k rs) = Ok True \<and> verify_loop E prev (take k rs) = Ok True)"
proof -
  have drop: "verify_loop E None rs = Ok True" if "verify_loop E prev rs = Ok True" for prev rs
    using that by (cases rs) (auto simp: verify_row simp del: verify_loop.simps(2))
  have "verify_loop E None (drop k rs) = Ok True \<and> verify_loop E prev (take k rs) = Ok True"
    if "verify_loop E prev rs = Ok True"
    using that
  proof (induction rs arbitrary: prev k)
    case (Cons r rs)
    have v: "verify_loop E (Some (ar_hash r)) rs = Ok True" using Cons.prems unfolding verify_row by blast
    show ?case
      using drop [OF Cons.prems] Cons.prems Cons.IH [OF v]
      by (cases k) (simp_all add: verify_row del: verify_loop.simps(2))
  qed simp
  then show ?thesis by (simp add: compute_hash_def hash_preimage_def assms opt_part_def)
qed

theorem audit_verification_limits_witness:
  "compute_hash sample_env ((projr (row_to_audit_entry sample_row))\<lparr>ae_object_id := Some ''e12'', ae_detail := Number ''3''\<rparr>) =
   compute_hash sample_env ((projr (row_to_audit_entry sample_row))\<lparr>ae_object_id := Some ''e1'', ae_detail := Number ''23''\<rparr>)
   \<and> verify_loop sample_env None (drop 1 [sample_row]) = Ok True"
proof -
  have "json_text sample_env (Number s) = Ok s" for s by (simp add: sample_env_def)
  note limits = audit_verification_limits [of sample_env, OF this]
  show ?thesis
    using limits [where e = "projr (row_to_audit_entry sample_row)" and i = "''e1''" and t = "''2''" and u = "''3''"
        and prev = None and rs = "[sample_row]" and k = 1] sample_rows_verify
    by simp
qed

end
