(* ===== verification/WorkflowDef.thy ===== *)
theory WorkflowDef
  imports Prelude
begin

text \<open>
  \<^verbatim>\<open>crates/lenos-workflow/src/schema.rs\<close> (definitions and their validation) and the pure half of
  \<^verbatim>\<open>executor.rs\<close>: templates, filters, durations, the variables of a condition, the target channel.

  Parameters (\<open>text_env\<close>): the bech32 form of a public key, the JSON text of a value, the classification
  of JSON numbers, UUID parsing, the \<open>cron\<close> crate, and \<open>evalexpr\<close>, which receives the sequence of
  \<open>set_value\<close> calls and the expression. Strings are UTF-8 bytes; \<open>HashMap\<close> iteration is the order of
  the association list.
\<close>

section \<open>Definitions\<close>

datatype TriggerDef = MessagePosted "string option" | ReactionAdded "string option" | DiffPosted "string option"
  | Schedule "string option" "string option" | Webhook

datatype ActionDef =
    SendMessage string "string option"
  | SendDm string string
  | SetChannelTopic string
  | AddReaction string
  | CallWebhook string "string option" "(string, string) hmap option" "string option"
  | RequestApproval string string "string option"
  | Delay string

record Step =
  st_id :: string
  st_name :: "string option"
  st_if_expr :: "string option"
  st_timeout_secs :: "u64 option"
  st_action :: ActionDef

record WorkflowDef =
  wd_name :: string
  wd_description :: "string option"
  wd_trigger :: TriggerDef
  wd_steps :: "Step list"
  wd_enabled :: bool

datatype WorkflowError = InvalidYaml string | InvalidDefinition string | ConditionError string
  | TemplateError string | StepTimeout string u64 | WebhookError string | CapacityExceeded
  | Database string | Unauthorized string | NotImplemented string

datatype EvalValue = EString string | EBoolean bool | EInt int | EFloat string | EEmpty

text \<open>What an evaluation may answer: an error while the context is built, a value, the timeout, a panic.\<close>

datatype eval_outcome = ContextError string | Evaluated "(string, bool) result" | TimedOut | Panicked string

record text_env =
  te_npub :: "string \<Rightarrow> string option"
  te_json_show :: "Value \<Rightarrow> string"
  te_as_i64 :: "string \<Rightarrow> int option"
  te_as_f64 :: "string \<Rightarrow> string option"
  te_uuid_parse :: "string \<Rightarrow> (string, uuid) result"
  te_cron_parse :: "string \<Rightarrow> (string, unit) result"
  te_eval :: "(string \<times> EvalValue) list \<Rightarrow> string \<Rightarrow> eval_outcome"

definition requires_elevated_authority :: "WorkflowDef \<Rightarrow> bool" where
  "requires_elevated_authority d =
     list_ex (\<lambda>s. case st_action s of CallWebhook _ _ _ _ \<Rightarrow> True | _ \<Rightarrow> False) (wd_steps d)"

section \<open>Durations\<close>

definition checked_mul :: "u64 \<Rightarrow> u64 \<Rightarrow> u64 option" where
  "checked_mul a b = (if int (unat a) * int (unat b) < 2 ^ 64 then Some (a * b) else None)"

definition duration_part :: "string \<Rightarrow> string \<Rightarrow> u64 \<Rightarrow> (WorkflowError, u64) result" where
  "duration_part duration n unit_secs =
     (case parse_u64 (trim n) of
        None \<Rightarrow> Err (InvalidDefinition (''invalid duration: '' @ duration))
      | Some k \<Rightarrow> ok_or (checked_mul k unit_secs) (InvalidDefinition (''duration overflow: '' @ duration)))"

definition parse_duration_secs :: "string \<Rightarrow> (WorkflowError, u64) result" where
  "parse_duration_secs text =
     (let duration = trim text
      in case strip_suffix_str ''h'' duration of
           Some n \<Rightarrow> duration_part duration n 3600
         | None \<Rightarrow>
             (case strip_suffix_str ''m'' duration of
                Some n \<Rightarrow> duration_part duration n 60
              | None \<Rightarrow>
                  (case strip_suffix_str ''s'' duration of
                     Some n \<Rightarrow> ok_or (parse_u64 (trim n)) (InvalidDefinition (''invalid duration: '' @ duration))
                   | None \<Rightarrow> ok_or (parse_u64 duration) (InvalidDefinition (''invalid duration: '' @ duration)))))"

section \<open>Validation\<close>

definition valid_step_id :: "string \<Rightarrow> bool" where
  "valid_step_id i = (i \<noteq> [] \<and> length i \<le> 64 \<and> list_all (\<lambda>c. is_ascii_alphanumeric c \<or> c = CHR ''_'') i)"

fun validate_steps :: "string list \<Rightarrow> Step list \<Rightarrow> (WorkflowError, unit) result" where
  "validate_steps seen [] = Ok ()"
| "validate_steps seen (s # ss) =
     (if trim (st_id s) = [] then Err (InvalidDefinition ''step id must not be empty'')
      else if \<not> valid_step_id (st_id s)
      then Err (InvalidDefinition (''step id '' @ [CHR 0x27] @ st_id s @ [CHR 0x27]
             @ '' is invalid: must contain only alphanumeric characters and underscores''))
      else if st_id s \<in> set seen then Err (InvalidDefinition (''duplicate step id: '' @ st_id s))
      else validate_steps (st_id s # seen) ss)"

text \<open>\<open>split_whitespace().count()\<close>: the next word ends where white space begins.\<close>

fun drop_word :: "string \<Rightarrow> string" where
  "drop_word [] = []"
| "drop_word (x # xs) = (if trim_start (x # xs) \<noteq> x # xs then x # xs else drop_word xs)"

lemma trim_start_suffix: "suffix (trim_start s) s"
proof (induction s rule: trim_start.induct)
  case (2 a s)
  show ?case
    by (subst trim_start.simps)
      (use 2 in \<open>auto intro: suffix_ConsI split: list.split simp del: trim_start.simps; blast intro: suffix_ConsI\<close>)
qed simp

lemma trim_start_le: "length (trim_start s) \<le> length s"
  by (rule suffix_length_le [OF trim_start_suffix])

lemma drop_word_le: "length (drop_word s) \<le> length s"
  by (induction s) auto

lemma drop_word_less: "trim_start s = x # xs \<Longrightarrow> length (drop_word xs) < length s"
  using trim_start_le [of s] drop_word_le [of xs] by simp

function word_count :: "string \<Rightarrow> nat" where
  "word_count s = (case trim_start s of [] \<Rightarrow> 0 | x # xs \<Rightarrow> Suc (word_count (drop_word xs)))"
  by pat_completeness auto
termination
  by (relation "measure length") (auto dest: drop_word_less)

declare word_count.simps [simp del]

definition normalize_cron :: "string \<Rightarrow> string" where
  "normalize_cron expr =
     (let field_count = word_count expr
      in if field_count = 5 then ''0 '' @ expr @ '' *'' else if field_count = 6 then expr @ '' *'' else expr)"

definition validate_cron :: "text_env \<Rightarrow> string \<Rightarrow> (WorkflowError, unit) result" where
  "validate_cron T expr =
     (case te_cron_parse T (normalize_cron expr) of
        Inl e \<Rightarrow> Err (InvalidDefinition (''invalid cron expression '' @ expr @ '': '' @ e))
      | Inr _ \<Rightarrow> Ok ())"

definition validate_interval :: "string \<Rightarrow> (WorkflowError, unit) result" where
  "validate_interval dur =
     (case parse_duration_secs dur of
        Inl _ \<Rightarrow> Err (InvalidDefinition (''invalid interval '' @ dur))
      | Inr secs \<Rightarrow>
          if secs < 60 then Err (InvalidDefinition ''interval must be at least 60s (cron loop ticks every 60 seconds)'')
          else Ok ())"

definition validate_trigger :: "text_env \<Rightarrow> TriggerDef \<Rightarrow> (WorkflowError, unit) result" where
  "validate_trigger T trigger =
     (case trigger of
        Schedule None None \<Rightarrow> Err (InvalidDefinition ''schedule trigger requires either cron or interval'')
      | Schedule (Some _) (Some _) \<Rightarrow>
          Err (InvalidDefinition ''schedule trigger cannot specify both cron and interval; use one or the other'')
      | Schedule (Some expr) None \<Rightarrow> validate_cron T expr
      | Schedule None (Some dur) \<Rightarrow> validate_interval dur
      | _ \<Rightarrow> Ok ())"

definition validate_def :: "text_env \<Rightarrow> WorkflowDef \<Rightarrow> (WorkflowError, unit) result" where
  "validate_def T d =
     (if trim (wd_name d) = [] then Err (InvalidDefinition ''name is required and must not be empty'')
      else if wd_steps d = [] then Err (InvalidDefinition ''at least one step is required'')
      else (case validate_steps [] (wd_steps d) of
          Inl e \<Rightarrow> Err e
        | Inr _ \<Rightarrow> validate_trigger T (wd_trigger d)))"

section \<open>Templates\<close>

record TriggerContext =
  tc_text :: string
  tc_author :: string
  tc_channel_id :: string
  tc_timestamp :: string
  tc_emoji :: string
  tc_message_id :: string
  tc_webhook_fields :: "(string, string) hmap"

type_synonym outputs = "(string, Value) hmap"

definition get_field :: "TriggerContext \<Rightarrow> string \<Rightarrow> string option" where
  "get_field tc name =
     (if name = ''text'' then Some (tc_text tc)
      else if name = ''author'' then Some (tc_author tc)
      else if name = ''channel_id'' then Some (tc_channel_id tc)
      else if name = ''timestamp'' then Some (tc_timestamp tc)
      else if name = ''emoji'' then Some (tc_emoji tc)
      else if name = ''message_id'' then Some (tc_message_id tc)
      else hm_get (tc_webhook_fields tc) name)"

definition json_to_string :: "text_env \<Rightarrow> Value \<Rightarrow> string" where
  "json_to_string T v =
     (case v of
        String s \<Rightarrow> s
      | Bool b \<Rightarrow> if b then ''true'' else ''false''
      | Number n \<Rightarrow> n
      | Null \<Rightarrow> []
      | _ \<Rightarrow> te_json_show T v)"

definition json_get_str :: "text_env \<Rightarrow> Value \<Rightarrow> string \<Rightarrow> string option" where
  "json_get_str T v key =
     (case v of Object m \<Rightarrow> map_option (json_to_string T) (hm_get m key) | _ \<Rightarrow> None)"

definition resolve_variable :: "text_env \<Rightarrow> TriggerContext \<Rightarrow> outputs \<Rightarrow> string \<Rightarrow> string option" where
  "resolve_variable T tc outs path =
     (case strip_prefix_str ''trigger.'' path of
        Some field \<Rightarrow> get_field tc field
      | None \<Rightarrow>
          (case strip_prefix_str ''steps.'' path of
             Some rest \<Rightarrow>
               (case split_once CHR ''.'' rest of
                  None \<Rightarrow> None
                | Some (step_id, rest1) \<Rightarrow>
                    (case split_once CHR ''.'' rest1 of
                       None \<Rightarrow> None
                     | Some (middle, field) \<Rightarrow>
                         if middle \<noteq> ''output'' then None
                         else (case hm_get outs step_id of
                             None \<Rightarrow> None
                           | Some output \<Rightarrow> json_get_str T output field)))
           | None \<Rightarrow> None))"

text \<open>\<open>value.chars().take(n)\<close>: a byte from 128 to 191 continues a character.\<close>

fun take_chars :: "nat \<Rightarrow> string \<Rightarrow> string" where
  "take_chars n [] = []"
| "take_chars n (c # s) =
     (if 128 \<le> (of_char c :: nat) \<and> (of_char c :: nat) < 192 then c # take_chars n s
      else (case n of 0 \<Rightarrow> [] | Suc m \<Rightarrow> c # take_chars m s))"

definition apply_filter :: "text_env \<Rightarrow> string \<Rightarrow> string \<Rightarrow> (WorkflowError, string) result" where
  "apply_filter T v filter_text =
     (let f = trim filter_text
      in case Option.bind (strip_prefix_str ''truncate('' f) (strip_suffix_str '')'') of
           Some inner \<Rightarrow>
             (case parse_u64 (trim inner) of
                None \<Rightarrow> Err (TemplateError (''truncate() requires a number, got: '' @ inner))
              | Some n \<Rightarrow> Ok (take_chars (unat n) v))
         | None \<Rightarrow>
             if f = ''npub'' \<or> f = ''truncate_pubkey'' then Ok (unwrap_or (te_npub T v) v)
             else Err (TemplateError (''unknown filter: '' @ f)))"

text \<open>\<open>expr.splitn(2, '|')\<close>, both parts trimmed.\<close>

definition split_filter :: "string \<Rightarrow> string \<times> string option" where
  "split_filter expr =
     (case split_once CHR ''|'' expr of
        None \<Rightarrow> (trim expr, None)
      | Some (v, f) \<Rightarrow> (trim v, Some (trim f)))"

function template_loop ::
  "text_env \<Rightarrow> TriggerContext \<Rightarrow> outputs \<Rightarrow> string \<Rightarrow> string \<Rightarrow> (WorkflowError, string) result" where
  "template_loop T tc outs res remaining =
     (case split_at ''{{'' remaining of
        None \<Rightarrow> Ok (res @ remaining)
      | Some (before, rest) \<Rightarrow>
          (case split_at ''}}'' rest of
             None \<Rightarrow> Ok (res @ before @ ''{{'' @ rest)
           | Some (inner, rest1) \<Rightarrow>
               (case resolve_variable T tc outs (fst (split_filter (trim inner))) of
                  None \<Rightarrow> template_loop T tc outs (res @ before @ ''{{'' @ trim inner @ ''}}'') rest1
                | Some v \<Rightarrow>
                    (case snd (split_filter (trim inner)) of
                       None \<Rightarrow> template_loop T tc outs (res @ before @ v) rest1
                     | Some f \<Rightarrow>
                         (case apply_filter T v f of
                            Inl e \<Rightarrow> Err e
                          | Inr w \<Rightarrow> template_loop T tc outs (res @ before @ w) rest1)))))"
  by pat_completeness auto
termination
proof (relation "measure (\<lambda>(T, tc, outs, res, remaining). length remaining)")
qed (auto dest!: split_at_shorter)

declare template_loop.simps [simp del]

definition resolve_template ::
  "text_env \<Rightarrow> TriggerContext \<Rightarrow> outputs \<Rightarrow> string \<Rightarrow> (WorkflowError, string) result" where
  "resolve_template T tc outs template =
     (if split_at ''{{'' template = None then Ok template else template_loop T tc outs [] template)"

section \<open>Conditions\<close>

definition json_value_to_eval :: "text_env \<Rightarrow> Value \<Rightarrow> EvalValue" where
  "json_value_to_eval T v =
     (case v of
        String s \<Rightarrow> EString s
      | Bool b \<Rightarrow> EBoolean b
      | Number n \<Rightarrow>
          (case te_as_i64 T n of
             Some i \<Rightarrow> EInt i
           | None \<Rightarrow> (case te_as_f64 T n of Some f \<Rightarrow> EFloat f | None \<Rightarrow> EString n))
      | Null \<Rightarrow> EEmpty
      | _ \<Rightarrow> EString (te_json_show T v))"

definition webhook_vars :: "TriggerContext \<Rightarrow> (string \<times> EvalValue) list" where
  "webhook_vars tc =
     concat (map (\<lambda>(key, val). if prefix ''trigger_'' key \<or> prefix ''steps_'' key then []
                                else [(''trigger_'' @ key, EString val)]) (tc_webhook_fields tc))"

definition trigger_vars :: "TriggerContext \<Rightarrow> (string \<times> EvalValue) list" where
  "trigger_vars tc =
     [(''trigger_text'', EString (tc_text tc)), (''trigger_author'', EString (tc_author tc)),
      (''trigger_channel_id'', EString (tc_channel_id tc)), (''trigger_timestamp'', EString (tc_timestamp tc)),
      (''trigger_emoji'', EString (tc_emoji tc)), (''trigger_message_id'', EString (tc_message_id tc))]"

definition output_var :: "string \<Rightarrow> string \<Rightarrow> string" where
  "output_var step_id field = ''steps_'' @ step_id @ ''_output_'' @ field"

definition output_vars :: "text_env \<Rightarrow> outputs \<Rightarrow> (string \<times> EvalValue) list" where
  "output_vars T outs =
     concat (map (\<lambda>(step_id, output). case output of
        Object m \<Rightarrow> map (\<lambda>(field, val). (output_var step_id field, json_value_to_eval T val)) m
      | _ \<Rightarrow> []) outs)"

text \<open>The \<open>set_value\<close> calls, in order.\<close>

definition build_eval_context :: "text_env \<Rightarrow> TriggerContext \<Rightarrow> outputs \<Rightarrow> (string \<times> EvalValue) list" where
  "build_eval_context T tc outs = webhook_vars tc @ trigger_vars tc @ output_vars T outs"

definition MAX_EXPR_LEN :: nat where "MAX_EXPR_LEN = 4096"

definition evaluate_condition ::
  "text_env \<Rightarrow> string \<Rightarrow> TriggerContext \<Rightarrow> outputs \<Rightarrow> (WorkflowError, bool) result" where
  "evaluate_condition T expr tc outs =
     (case te_eval T (build_eval_context T tc outs) expr of
        ContextError e \<Rightarrow> Err (ConditionError e)
      | outcome \<Rightarrow>
          if length expr > MAX_EXPR_LEN
          then Err (ConditionError (''condition expression exceeds '' @ nat_to_string MAX_EXPR_LEN @ '' byte limit''))
          else (case outcome of
              Evaluated (Inr b) \<Rightarrow> Ok b
            | Evaluated (Inl e) \<Rightarrow> Err (ConditionError (expr @ '': '' @ e))
            | Panicked e \<Rightarrow> Err (ConditionError (expr @ '': eval task panicked: '' @ e))
            | _ \<Rightarrow> Err (ConditionError (expr @ '': evaluation timed out after 100ms''))))"

section \<open>Resolved actions\<close>

definition res_bind :: "('e, 'a) result \<Rightarrow> ('a \<Rightarrow> ('e, 'b) result) \<Rightarrow> ('e, 'b) result" where
  "res_bind r f = (case r of Inl e \<Rightarrow> Err e | Inr a \<Rightarrow> f a)"

definition resolve_opt ::
  "(string \<Rightarrow> (WorkflowError, string) result) \<Rightarrow> string option \<Rightarrow> (WorkflowError, string option) result" where
  "resolve_opt t x = (case x of None \<Rightarrow> Ok None | Some v \<Rightarrow> res_bind (t v) (\<lambda>w. Ok (Some w)))"

fun resolve_headers ::
  "(string \<Rightarrow> (WorkflowError, string) result) \<Rightarrow> (string, string) hmap \<Rightarrow> (string, string) hmap \<Rightarrow>
   (WorkflowError, (string, string) hmap) result" where
  "resolve_headers t out [] = Ok out"
| "resolve_headers t out ((k, v) # h) = res_bind (t v) (\<lambda>w. resolve_headers t (hm_insert k w out) h)"

definition resolve_step_templates ::
  "text_env \<Rightarrow> Step \<Rightarrow> TriggerContext \<Rightarrow> outputs \<Rightarrow> (WorkflowError, ActionDef) result" where
  "resolve_step_templates T step tc outs =
     (let t = resolve_template T tc outs
      in case st_action step of
           SendMessage text channel \<Rightarrow>
             res_bind (t text) (\<lambda>text'. res_bind (resolve_opt t channel) (\<lambda>channel'. Ok (SendMessage text' channel')))
         | SendDm to text \<Rightarrow> res_bind (t to) (\<lambda>to'. res_bind (t text) (\<lambda>text'. Ok (SendDm to' text')))
         | SetChannelTopic topic \<Rightarrow> res_bind (t topic) (\<lambda>topic'. Ok (SetChannelTopic topic'))
         | AddReaction emoji \<Rightarrow> res_bind (t emoji) (\<lambda>emoji'. Ok (AddReaction emoji'))
         | CallWebhook url http_method headers body \<Rightarrow>
             res_bind (case headers of None \<Rightarrow> Ok None
                       | Some h \<Rightarrow> res_bind (resolve_headers t [] h) (\<lambda>out. Ok (Some out)))
               (\<lambda>headers'. res_bind (t url) (\<lambda>url'. res_bind (resolve_opt t body) (\<lambda>body'.
                  Ok (CallWebhook url' http_method headers' body'))))
         | RequestApproval from_spec message timeout \<Rightarrow>
             res_bind (t from_spec) (\<lambda>from'. res_bind (t message) (\<lambda>message'.
               Ok (RequestApproval from' message' timeout)))
         | Delay duration \<Rightarrow> Ok (Delay duration))"

definition resolve_send_message_channel ::
  "text_env \<Rightarrow> string option \<Rightarrow> string \<Rightarrow> uuid option \<Rightarrow> (WorkflowError, string) result" where
  "resolve_send_message_channel T explicit_channel trigger_channel workflow_channel_id =
     (let explicit = (case explicit_channel of
            None \<Rightarrow> None | Some c \<Rightarrow> if trim c = [] then None else Some (trim c))
      in case workflow_channel_id of
           Some wf_channel \<Rightarrow>
             (case explicit of
                Some e \<Rightarrow>
                  (case te_uuid_parse T e of
                     Inl why \<Rightarrow> Err (InvalidDefinition (''SendMessage: invalid channel override UUID: '' @ why))
                   | Inr override \<Rightarrow>
                       if override \<noteq> wf_channel
                       then Err (InvalidDefinition
                         (''SendMessage: channel override must match the workflow channel ('' @ wf_channel @ '')''))
                       else Ok wf_channel)
              | None \<Rightarrow> Ok wf_channel)
         | None \<Rightarrow>
             (case explicit of
                Some e \<Rightarrow>
                  (case te_uuid_parse T e of
                     Inl why \<Rightarrow> Err (InvalidDefinition (''SendMessage: invalid channel override UUID: '' @ why))
                   | Inr override \<Rightarrow> Ok override)
              | None \<Rightarrow>
                  if trim trigger_channel = []
                  then Err (InvalidDefinition (''SendMessage: no channel_id available (trigger has no channel ''
                         @ ''context and no channel override was specified)''))
                  else Ok (trim trigger_channel)))"

section \<open>A template is parsed once\<close>

text \<open>The reference: a template is text and holes, found without looking at any value.\<close>

datatype segment = Lit string | Hole string

function parse_template :: "string \<Rightarrow> segment list" where
  "parse_template s =
     (case split_at ''{{'' s of
        None \<Rightarrow> [Lit s]
      | Some (before, rest) \<Rightarrow>
          (case split_at ''}}'' rest of
             None \<Rightarrow> [Lit (before @ ''{{'' @ rest)]
           | Some (inner, rest1) \<Rightarrow> Lit before # Hole (trim inner) # parse_template rest1))"
  by pat_completeness auto
termination by (relation "measure length") (auto dest!: split_at_shorter)

declare parse_template.simps [simp del]

fun fill :: "text_env \<Rightarrow> TriggerContext \<Rightarrow> outputs \<Rightarrow> segment \<Rightarrow> (WorkflowError, string) result" where
  "fill T tc outs (Lit s) = Ok s"
| "fill T tc outs (Hole e) =
     (case resolve_variable T tc outs (fst (split_filter e)) of
        None \<Rightarrow> Ok (''{{'' @ e @ ''}}'')
      | Some v \<Rightarrow> (case snd (split_filter e) of None \<Rightarrow> Ok v | Some f \<Rightarrow> apply_filter T v f))"

fun join_filled :: "string \<Rightarrow> (WorkflowError, string) result list \<Rightarrow> (WorkflowError, string) result" where
  "join_filled out [] = Ok out"
| "join_filled out (r # rs) = (case r of Inl e \<Rightarrow> Err e | Inr s \<Rightarrow> join_filled (out @ s) rs)"

lemma template_loop_parse:
  "template_loop T tc outs res s = join_filled res (map (fill T tc outs) (parse_template s))"
proof (induction T tc outs res s rule: template_loop.induct)
  case (1 T tc outs res s)
  show ?case
    by (subst template_loop.simps, subst parse_template.simps)
      (auto simp: 1 1 [simplified] split: option.split sum.split)
qed

lemma join_filled_Ok: "join_filled out rs = Ok s \<longleftrightarrow> (\<exists>ss. rs = map Ok ss \<and> s = out @ concat ss)"
proof (induction rs arbitrary: out)
  case (Cons r rs)
  then show ?case by (cases r) (auto simp: Cons_eq_map_conv)
qed auto

section \<open>Validated definitions\<close>

lemma validate_steps_ok:
  "validate_steps seen ss = Ok () \<longleftrightarrow> distinct (map st_id ss) \<and> set (map st_id ss) \<inter> set seen = {}
     \<and> (\<forall>s \<in> set ss. trim (st_id s) \<noteq> [] \<and> valid_step_id (st_id s))"
  by (induction seen ss rule: validate_steps.induct) auto

lemma validate_def_ok:
  assumes "validate_def T d = Ok ()"
  shows "wd_steps d \<noteq> []" and "distinct (map st_id (wd_steps d))" and "\<forall>s \<in> set (wd_steps d). valid_step_id (st_id s)"
  using assms by (auto simp: validate_def_def validate_steps_ok split: if_splits sum.splits)

section \<open>Names of variables\<close>

lemma output_vars_names: "x \<in> set (output_vars T outs) \<Longrightarrow> prefix ''steps_'' (fst x)"
  by (auto simp: output_vars_def output_var_def split: Value.splits)

lemma webhook_vars_names:
  "x \<in> set (webhook_vars tc) \<Longrightarrow> prefix ''trigger_'' (fst x) \<and> (\<exists>s. snd x = EString s)"
  by (auto simp: webhook_vars_def split: if_splits)

section \<open>Properties\<close>

text \<open>
  C18. A template is substituted once. Resolving a template equals splitting its text into literals and
  holes, without looking at any value, and filling each hole on its own: text that a message, a webhook
  or an earlier step supplies is never itself searched for placeholders.
\<close>

theorem template_single_pass:
  "resolve_template T tc outs t = join_filled [] (map (fill T tc outs) (parse_template t))"
proof (cases "split_at ''{{'' t")
  case None
  then show ?thesis by (subst parse_template.simps) (simp add: resolve_template_def)
qed (simp add: resolve_template_def template_loop_parse)

text \<open>
  Conditions see the real trigger. Whatever fields a webhook body has, the last value a condition
  receives for each of the six trigger variables is the trigger's own, with the same type as any value a
  webhook field gave that name before; variables of step outputs come from step outputs only, and a
  webhook field is only ever visible under its own name.
\<close>

theorem condition_variables_unspoofable:
  "map (map_of (rev (build_eval_context T tc outs))) (map fst (trigger_vars tc)) = map (\<lambda>x. Some (snd x)) (trigger_vars tc)
    \<and> (\<exists>ss. map snd (filter (\<lambda>x. fst x \<in> fst ` set (trigger_vars tc)) (build_eval_context T tc outs)) = map EString ss)
    \<and> filter (\<lambda>x. prefix ''steps_'' (fst x)) (build_eval_context T tc outs) = output_vars T outs
    \<and> filter (\<lambda>x. prefix ''trigger_'' (fst x)) (build_eval_context T tc outs) = webhook_vars tc @ trigger_vars tc"
proof -
  note outs = output_vars_names [of _ T outs] and hooks = webhook_vars_names [of _ tc]
  have names: "prefix ''trigger_'' (fst x)" if "x \<in> set (webhook_vars tc) \<or> x \<in> set (trigger_vars tc)" for x
    using that hooks [of x] by (auto simp: trigger_vars_def)
  have disjoint: "prefix ''trigger_'' n \<Longrightarrow> prefix ''steps_'' n \<Longrightarrow> False" for n by (auto simp: prefix_def)
  have none: "map_of (rev (output_vars T outs)) n = None" if "n \<in> fst ` set (trigger_vars tc)" for n
    using that outs names disjoint by (force simp: map_of_eq_None_iff)
  have "map_of (rev (build_eval_context T tc outs)) n = map_of (rev (trigger_vars tc)) n" if "n \<in> fst ` set (trigger_vars tc)" for n
  proof -
    have "map_of (rev (trigger_vars tc)) n \<noteq> None" using that by (auto simp: map_of_eq_None_iff)
    then show ?thesis using none [OF that] by (auto simp: build_eval_context_def map_add_def split: option.split)
  qed
  then have 1: "map (map_of (rev (build_eval_context T tc outs))) (map fst (trigger_vars tc)) = map (\<lambda>x. Some (snd x)) (trigger_vars tc)"
    by (simp add: trigger_vars_def)
  have strings: "\<exists>s. snd x = EString s" if x: "x \<in> set (build_eval_context T tc outs)" "fst x \<in> fst ` set (trigger_vars tc)" for x
  proof -
    obtain y where "y \<in> set (trigger_vars tc)" "fst x = fst y" using x(2) by blast
    then have "prefix ''trigger_'' (fst x)" using names [of y] by simp
    then have "x \<notin> set (output_vars T outs)" using outs [of x] disjoint by blast
    then have "x \<in> set (webhook_vars tc) \<or> x \<in> set (trigger_vars tc)" using x(1) by (simp add: build_eval_context_def)
    moreover have "\<exists>s. snd x = EString s" if "x \<in> set (trigger_vars tc)" using that by (auto simp: trigger_vars_def)
    ultimately show ?thesis using hooks [of x] by blast
  qed
  have 2: "\<exists>ss. map snd (filter (\<lambda>x. fst x \<in> fst ` set (trigger_vars tc)) (build_eval_context T tc outs)) = map EString ss"
    unfolding ex_map_conv using strings by auto
  have "filter (\<lambda>x. prefix ''steps_'' (fst x)) (webhook_vars tc) = []" "filter (\<lambda>x. prefix ''steps_'' (fst x)) (trigger_vars tc) = []"
    "filter (\<lambda>x. prefix ''steps_'' (fst x)) (output_vars T outs) = output_vars T outs"
    "filter (\<lambda>x. prefix ''trigger_'' (fst x)) (webhook_vars tc) = webhook_vars tc"
    "filter (\<lambda>x. prefix ''trigger_'' (fst x)) (trigger_vars tc) = trigger_vars tc"
    "filter (\<lambda>x. prefix ''trigger_'' (fst x)) (output_vars T outs) = []"
    unfolding filter_id_conv filter_empty_conv using names outs disjoint by blast+
  with 1 2 show ?thesis by (simp add: build_eval_context_def)
qed

text \<open>Different outputs can share a variable: a step id may contain the infix that separates id and field.\<close>

theorem output_variables_collide:
  "valid_step_id ''a'' \<and> valid_step_id ''a_output_b'' \<and> output_var ''a'' ''b_output_c'' = output_var ''a_output_b'' ''c''"
  by (simp add: valid_step_id_def output_var_def is_ascii_alphanumeric_def is_ascii_lower_def)

end
