(* ===== verification/WorkflowDb.thy ===== *)
theory WorkflowDb
  imports WorkflowDef
begin

text \<open>
  \<^verbatim>\<open>crates/lenos-db/src/workflow.rs\<close> over the tables of \<^verbatim>\<open>schema/schema.sql\<close>: workflow definitions,
  runs, approvals and the claims of scheduled fires. Each operation is one SQL statement, so it is atomic;
  primary keys, foreign keys and cascades are those of the schema.

  Parameters (\<open>wf_env\<close>): \<open>db_fault E n\<close> is the error of call number \<open>n\<close> when it fails for a reason outside
  the tables (connection, column types), in which case nothing is written; \<open>db_now E n\<close> is the clock at that
  call, in nanoseconds; \<open>db_uuid E n\<close> is the UUID drawn there; \<open>db_jsonb\<close> and \<open>db_json_parse\<close> are the stored
  form of a JSON value and of JSON text, \<open>db_sha256\<close> the digest. Row order is the list order, so rows that tie
  under \<open>ORDER BY\<close> keep it.
\<close>

type_synonym instant = int
type_synonym i32 = "32 word"

datatype DbError = Sqlx string | NotFound string | AccessDenied string | InvalidData string

fun DbError_display :: "DbError \<Rightarrow> string" where
  "DbError_display (Sqlx e) = ''database error: '' @ e"
| "DbError_display (NotFound e) = ''not found: '' @ e"
| "DbError_display (AccessDenied e) = ''access denied: '' @ e"
| "DbError_display (InvalidData e) = ''invalid data: '' @ e"

record wf_env =
  db_fault :: "nat \<Rightarrow> string option"
  db_now :: "nat \<Rightarrow> instant"
  db_uuid :: "nat \<Rightarrow> uuid"
  db_jsonb :: "Value \<Rightarrow> Value"
  db_json_parse :: "string \<Rightarrow> Value option"
  db_sha256 :: "string \<Rightarrow> bytes"

section \<open>Status columns\<close>

datatype WorkflowStatus = Active | Disabled | Archived
datatype RunStatus = RunPending | Running | WaitingApproval | Completed | Failed | Cancelled
datatype ApprovalStatus = Pending | Granted | Denied | Expired

fun WorkflowStatus_display :: "WorkflowStatus \<Rightarrow> string" where
  "WorkflowStatus_display Active = ''active''"
| "WorkflowStatus_display Disabled = ''disabled''"
| "WorkflowStatus_display Archived = ''archived''"

definition WorkflowStatus_from_str :: "string \<Rightarrow> (DbError, WorkflowStatus) result" where
  "WorkflowStatus_from_str s =
     (if s = ''active'' then Ok Active else if s = ''disabled'' then Ok Disabled
      else if s = ''archived'' then Ok Archived else Err (InvalidData (''unknown workflow status: '' @ s)))"

fun RunStatus_display :: "RunStatus \<Rightarrow> string" where
  "RunStatus_display RunPending = ''pending''"
| "RunStatus_display Running = ''running''"
| "RunStatus_display WaitingApproval = ''waiting_approval''"
| "RunStatus_display Completed = ''completed''"
| "RunStatus_display Failed = ''failed''"
| "RunStatus_display Cancelled = ''cancelled''"

definition RunStatus_from_str :: "string \<Rightarrow> (DbError, RunStatus) result" where
  "RunStatus_from_str s =
     (if s = ''pending'' then Ok RunPending else if s = ''running'' then Ok Running
      else if s = ''waiting_approval'' then Ok WaitingApproval else if s = ''completed'' then Ok Completed
      else if s = ''failed'' then Ok Failed else if s = ''cancelled'' then Ok Cancelled
      else Err (InvalidData (''unknown run status: '' @ s)))"

fun ApprovalStatus_display :: "ApprovalStatus \<Rightarrow> string" where
  "ApprovalStatus_display Pending = ''pending''"
| "ApprovalStatus_display Granted = ''granted''"
| "ApprovalStatus_display Denied = ''denied''"
| "ApprovalStatus_display Expired = ''expired''"

definition ApprovalStatus_from_str :: "string \<Rightarrow> (DbError, ApprovalStatus) result" where
  "ApprovalStatus_from_str s =
     (if s = ''pending'' then Ok Pending else if s = ''granted'' then Ok Granted
      else if s = ''denied'' then Ok Denied else if s = ''expired'' then Ok Expired
      else Err (InvalidData (''unknown approval status: '' @ s)))"

lemma WorkflowStatus_round_trip [simp]: "WorkflowStatus_from_str (WorkflowStatus_display w) = Ok w"
  by (cases w) (simp_all add: WorkflowStatus_from_str_def)

lemma RunStatus_round_trip [simp]: "RunStatus_from_str (RunStatus_display r) = Ok r"
  by (cases r) (simp_all add: RunStatus_from_str_def)

lemma ApprovalStatus_round_trip [simp]: "ApprovalStatus_from_str (ApprovalStatus_display a) = Ok a"
  by (cases a) (simp_all add: ApprovalStatus_from_str_def)

section \<open>Tables\<close>

record WorkflowRecord =
  wr_id :: uuid
  wr_community_id :: uuid
  wr_name :: string
  wr_owner_pubkey :: bytes
  wr_channel_id :: "uuid option"
  wr_definition :: Value
  wr_definition_hash :: bytes
  wr_status :: WorkflowStatus
  wr_enabled :: bool
  wr_created_at :: instant
  wr_updated_at :: instant

record WorkflowRunRecord =
  rr_id :: uuid
  rr_community_id :: uuid
  rr_workflow_id :: uuid
  rr_status :: RunStatus
  rr_trigger_event_id :: "bytes option"
  rr_current_step :: i32
  rr_execution_trace :: Value
  rr_trigger_context :: "Value option"
  rr_started_at :: "instant option"
  rr_completed_at :: "instant option"
  rr_error_message :: "string option"
  rr_created_at :: instant

record ApprovalRecord =
  ap_community_id :: uuid
  ap_token :: bytes
  ap_workflow_id :: uuid
  ap_run_id :: uuid
  ap_step_id :: string
  ap_step_index :: i32
  ap_approver_spec :: string
  ap_status :: ApprovalStatus
  ap_approver_pubkey :: "bytes option"
  ap_note :: "string option"
  ap_expires_at :: instant
  ap_created_at :: instant
  ap_granted_at :: "instant option"
  ap_denied_at :: "instant option"

record ScheduledFire =
  fr_community_id :: uuid
  fr_workflow_id :: uuid
  fr_scheduled_for :: instant
  fr_claimed_at :: instant
  fr_workflow_run_id :: "uuid option"

text \<open>The tables the workflow tables refer to are lists of keys; a community also says whether it is archived.\<close>

record WfDb =
  t_communities :: "(uuid \<times> bool) list"
  t_users :: "(uuid \<times> bytes) list"
  t_channels :: "(uuid \<times> uuid) list"
  t_workflows :: "WorkflowRecord list"
  t_runs :: "WorkflowRunRecord list"
  t_approvals :: "ApprovalRecord list"
  t_fires :: "ScheduledFire list"

abbreviation wf_key :: "WorkflowRecord \<Rightarrow> uuid \<times> uuid" where
  "wf_key w \<equiv> (wr_community_id w, wr_id w)"

abbreviation run_key :: "WorkflowRunRecord \<Rightarrow> uuid \<times> uuid" where
  "run_key r \<equiv> (rr_community_id r, rr_id r)"

abbreviation ap_key :: "ApprovalRecord \<Rightarrow> uuid \<times> bytes" where
  "ap_key a \<equiv> (ap_community_id a, ap_token a)"

abbreviation fire_key :: "ScheduledFire \<Rightarrow> uuid \<times> uuid \<times> instant" where
  "fire_key f \<equiv> (fr_community_id f, fr_workflow_id f, fr_scheduled_for f)"

type_synonym 'a db_result = "(DbError, 'a) result \<times> WfDb"

definition stmt :: "wf_env \<Rightarrow> nat \<Rightarrow> WfDb \<Rightarrow> 'a db_result \<Rightarrow> 'a db_result" where
  "stmt E n db res = (case db_fault E n of Some e \<Rightarrow> (Err (Sqlx e), db) | None \<Rightarrow> res)"

definition update_rows :: "('r \<Rightarrow> bool) \<Rightarrow> ('r \<Rightarrow> 'r) \<Rightarrow> 'r list \<Rightarrow> 'r list" where
  "update_rows P f rows = map (\<lambda>r. if P r then f r else r) rows"

definition constraint :: "string \<Rightarrow> DbError" where
  "constraint name = Sqlx (''violates '' @ name)"

text \<open>The row mappers: the status column is read as text and parsed.\<close>

definition row_to_workflow_record :: "WorkflowRecord \<Rightarrow> (DbError, WorkflowRecord) result" where
  "row_to_workflow_record r =
     res_bind (WorkflowStatus_from_str (WorkflowStatus_display (wr_status r))) (\<lambda>st. Ok (r\<lparr>wr_status := st\<rparr>))"

definition row_to_run_record :: "WorkflowRunRecord \<Rightarrow> (DbError, WorkflowRunRecord) result" where
  "row_to_run_record r =
     res_bind (RunStatus_from_str (RunStatus_display (rr_status r))) (\<lambda>st. Ok (r\<lparr>rr_status := st\<rparr>))"

definition row_to_approval_record :: "ApprovalRecord \<Rightarrow> (DbError, ApprovalRecord) result" where
  "row_to_approval_record r =
     res_bind (ApprovalStatus_from_str (ApprovalStatus_display (ap_status r))) (\<lambda>st. Ok (r\<lparr>ap_status := st\<rparr>))"

fun collect_rows :: "('r \<Rightarrow> (DbError, 'a) result) \<Rightarrow> 'r list \<Rightarrow> (DbError, 'a list) result" where
  "collect_rows f [] = Ok []"
| "collect_rows f (r # rs) = res_bind (f r) (\<lambda>a. res_bind (collect_rows f rs) (\<lambda>as. Ok (a # as)))"

lemma row_mappers [simp]:
  "row_to_workflow_record w = Ok w" "row_to_run_record r = Ok r" "row_to_approval_record a = Ok a"
  by (simp_all add: row_to_workflow_record_def row_to_run_record_def row_to_approval_record_def res_bind_def)

lemma collect_rows_Ok [simp]: "(\<And>r. f r = Ok (g r)) \<Longrightarrow> collect_rows f rs = Ok (map g rs)"
  by (induction rs) (simp_all add: res_bind_def)

section \<open>Workflow definitions\<close>

definition LIST_DEFAULT_LIMIT :: int where "LIST_DEFAULT_LIMIT = 100"
definition LIST_MAX_LIMIT :: int where "LIST_MAX_LIMIT = 1000"

definition hash_approval_token :: "wf_env \<Rightarrow> string \<Rightarrow> bytes" where
  "hash_approval_token E token = db_sha256 E token"

definition workflow_refs :: "WfDb \<Rightarrow> WorkflowRecord \<Rightarrow> bool" where
  "workflow_refs db w \<longleftrightarrow>
     wr_community_id w \<in> fst ` set (t_communities db)
     \<and> (wr_community_id w, wr_owner_pubkey w) \<in> set (t_users db)
     \<and> (case wr_channel_id w of None \<Rightarrow> True | Some ch \<Rightarrow> (wr_community_id w, ch) \<in> set (t_channels db))"

definition create_workflow ::
  "wf_env \<Rightarrow> nat \<Rightarrow> uuid \<Rightarrow> uuid option \<Rightarrow> bytes \<Rightarrow> string \<Rightarrow> string \<Rightarrow> bytes \<Rightarrow> WfDb \<Rightarrow> uuid db_result" where
  "create_workflow E n community channel owner name definition_json definition_hash db =
     stmt E n db
       (case db_json_parse E definition_json of
          None \<Rightarrow> (Err (Sqlx ''invalid input syntax for type json''), db)
        | Some v \<Rightarrow>
            let row = \<lparr>wr_id = db_uuid E n, wr_community_id = community, wr_name = name, wr_owner_pubkey = owner,
                  wr_channel_id = channel, wr_definition = db_jsonb E v, wr_definition_hash = definition_hash,
                  wr_status = Active, wr_enabled = True, wr_created_at = db_now E n, wr_updated_at = db_now E n\<rparr>
            in if wf_key row \<in> wf_key ` set (t_workflows db) then (Err (constraint ''workflows_pkey''), db)
               else if \<not> workflow_refs db row then (Err (constraint ''workflows_fkey''), db)
               else (Ok (db_uuid E n), db\<lparr>t_workflows := t_workflows db @ [row]\<rparr>))"

text \<open>The row of the \<open>d\<close> tag: inserted, or updated when owner and channel agree, or refused.\<close>

definition upsert_workflow ::
  "wf_env \<Rightarrow> nat \<Rightarrow> uuid \<Rightarrow> uuid \<Rightarrow> uuid option \<Rightarrow> bytes \<Rightarrow> string \<Rightarrow> string \<Rightarrow> bytes \<Rightarrow> WfDb \<Rightarrow> unit db_result" where
  "upsert_workflow E n community ident channel owner name definition_json definition_hash db =
     stmt E n db
       (case db_json_parse E definition_json of
          None \<Rightarrow> (Err (Sqlx ''invalid input syntax for type json''), db)
        | Some v \<Rightarrow>
            let row = \<lparr>wr_id = ident, wr_community_id = community, wr_name = name, wr_owner_pubkey = owner,
                  wr_channel_id = channel, wr_definition = db_jsonb E v, wr_definition_hash = definition_hash,
                  wr_status = Active, wr_enabled = True, wr_created_at = db_now E n, wr_updated_at = db_now E n\<rparr>
            in case find (\<lambda>w. wf_key w = (community, ident)) (t_workflows db) of
                 Some w \<Rightarrow>
                   if wr_owner_pubkey w = owner \<and> wr_channel_id w = channel
                   then (Ok (), db\<lparr>t_workflows := update_rows (\<lambda>w. wf_key w = (community, ident))
                          (\<lambda>w. w\<lparr>wr_name := name, wr_definition := db_jsonb E v,
                                  wr_definition_hash := definition_hash, wr_updated_at := db_now E n\<rparr>)
                          (t_workflows db)\<rparr>)
                   else (Err (AccessDenied (''workflow '' @ ident @ '' belongs to a different owner or channel'')), db)
               | None \<Rightarrow>
                   if \<not> workflow_refs db row then (Err (constraint ''workflows_fkey''), db)
                   else (Ok (), db\<lparr>t_workflows := t_workflows db @ [row]\<rparr>))"

definition get_workflow :: "wf_env \<Rightarrow> nat \<Rightarrow> uuid \<Rightarrow> uuid \<Rightarrow> WfDb \<Rightarrow> WorkflowRecord db_result" where
  "get_workflow E n community ident db =
     stmt E n db
       ((case find (\<lambda>w. wf_key w = (community, ident)) (t_workflows db) of
           None \<Rightarrow> Err (NotFound (''workflow '' @ ident))
         | Some w \<Rightarrow> row_to_workflow_record w), db)"

definition list_channel_workflows ::
  "wf_env \<Rightarrow> nat \<Rightarrow> uuid \<Rightarrow> uuid \<Rightarrow> int option \<Rightarrow> int option \<Rightarrow> WfDb \<Rightarrow> WorkflowRecord list db_result" where
  "list_channel_workflows E n community channel limit_opt offset_opt db =
     stmt E n db
       (let lim = max 1 (min LIST_MAX_LIMIT (unwrap_or limit_opt LIST_DEFAULT_LIMIT));
            off = max 0 (unwrap_or offset_opt 0);
            rows = sort_key (\<lambda>w. - wr_created_at w)
              (filter (\<lambda>w. wr_community_id w = community \<and> wr_channel_id w = Some channel) (t_workflows db))
        in (collect_rows row_to_workflow_record (take (nat lim) (drop (nat off) rows)), db))"

definition list_enabled_channel_workflows ::
  "wf_env \<Rightarrow> nat \<Rightarrow> uuid \<Rightarrow> uuid \<Rightarrow> WfDb \<Rightarrow> WorkflowRecord list db_result" where
  "list_enabled_channel_workflows E n community channel db =
     stmt E n db
       (collect_rows row_to_workflow_record (take (nat LIST_MAX_LIMIT) (sort_key (\<lambda>w. - wr_created_at w)
          (filter (\<lambda>w. wr_community_id w = community \<and> wr_channel_id w = Some channel
                     \<and> wr_status w = Active \<and> wr_enabled w) (t_workflows db)))), db)"

definition trigger_on :: "Value \<Rightarrow> string option" where
  "trigger_on v =
     (case v of
        Object m \<Rightarrow>
          (case hm_get m ''trigger'' of
             Some (Object t) \<Rightarrow> (case hm_get t ''on'' of Some (String s) \<Rightarrow> Some s | _ \<Rightarrow> None)
           | _ \<Rightarrow> None)
      | _ \<Rightarrow> None)"

definition list_all_enabled_workflows :: "wf_env \<Rightarrow> nat \<Rightarrow> WfDb \<Rightarrow> WorkflowRecord list db_result" where
  "list_all_enabled_workflows E n db =
     stmt E n db
       (collect_rows row_to_workflow_record (take (nat LIST_MAX_LIMIT) (sort_key wr_created_at
          (filter (\<lambda>w. wr_status w = Active \<and> wr_enabled w \<and> trigger_on (wr_definition w) = Some ''schedule''
                     \<and> (wr_community_id w, False) \<in> set (t_communities db)) (t_workflows db)))), db)"

definition update_workflow ::
  "wf_env \<Rightarrow> nat \<Rightarrow> uuid \<Rightarrow> uuid \<Rightarrow> string \<Rightarrow> string \<Rightarrow> bytes \<Rightarrow> WfDb \<Rightarrow> unit db_result" where
  "update_workflow E n community ident name definition_json definition_hash db =
     stmt E n db
       (case db_json_parse E definition_json of
          None \<Rightarrow> (Err (Sqlx ''invalid input syntax for type json''), db)
        | Some v \<Rightarrow>
            if (community, ident) \<notin> wf_key ` set (t_workflows db) then (Err (NotFound (''workflow '' @ ident)), db)
            else (Ok (), db\<lparr>t_workflows := update_rows (\<lambda>w. wf_key w = (community, ident))
                   (\<lambda>w. w\<lparr>wr_name := name, wr_definition := db_jsonb E v, wr_definition_hash := definition_hash\<rparr>)
                   (t_workflows db)\<rparr>))"

definition update_workflow_status ::
  "wf_env \<Rightarrow> nat \<Rightarrow> uuid \<Rightarrow> uuid \<Rightarrow> WorkflowStatus \<Rightarrow> WfDb \<Rightarrow> unit db_result" where
  "update_workflow_status E n community ident status db =
     stmt E n db
       (if (community, ident) \<notin> wf_key ` set (t_workflows db) then (Err (NotFound (''workflow '' @ ident)), db)
        else (Ok (), db\<lparr>t_workflows := update_rows (\<lambda>w. wf_key w = (community, ident))
               (\<lambda>w. w\<lparr>wr_status := status\<rparr>) (t_workflows db)\<rparr>))"

definition set_workflow_enabled :: "wf_env \<Rightarrow> nat \<Rightarrow> uuid \<Rightarrow> uuid \<Rightarrow> bool \<Rightarrow> WfDb \<Rightarrow> unit db_result" where
  "set_workflow_enabled E n community ident enabled db =
     stmt E n db
       (if (community, ident) \<notin> wf_key ` set (t_workflows db) then (Err (NotFound (''workflow '' @ ident)), db)
        else (Ok (), db\<lparr>t_workflows := update_rows (\<lambda>w. wf_key w = (community, ident))
               (\<lambda>w. w\<lparr>wr_enabled := enabled\<rparr>) (t_workflows db)\<rparr>))"

definition disable_workflows_for_owner_in_channel ::
  "wf_env \<Rightarrow> nat \<Rightarrow> uuid \<Rightarrow> uuid \<Rightarrow> bytes \<Rightarrow> WfDb \<Rightarrow> nat db_result" where
  "disable_workflows_for_owner_in_channel E n community channel owner db =
     stmt E n db
       (let P = (\<lambda>w. wr_community_id w = community \<and> wr_channel_id w = Some channel
                    \<and> wr_owner_pubkey w = owner \<and> wr_enabled w)
        in (Ok (length (filter P (t_workflows db))),
            db\<lparr>t_workflows := update_rows P (\<lambda>w. w\<lparr>wr_enabled := False\<rparr>) (t_workflows db)\<rparr>))"

text \<open>
  \<open>DELETE FROM workflows\<close>: runs, approvals and fires of the deleted workflows go with them, the approvals of the
  deleted runs too; a fire that would keep naming a deleted run makes the statement fail (\<open>NO ACTION\<close>).
\<close>

definition cascade :: "(WorkflowRecord \<Rightarrow> bool) \<Rightarrow> WfDb \<Rightarrow> WfDb" where
  "cascade P db =
     (let gone = wf_key ` set (filter P (t_workflows db));
          runs = filter (\<lambda>r. (rr_community_id r, rr_workflow_id r) \<notin> gone) (t_runs db);
          lost = run_key ` {r \<in> set (t_runs db). (rr_community_id r, rr_workflow_id r) \<in> gone}
      in db\<lparr>t_workflows := filter (\<lambda>w. \<not> P w) (t_workflows db), t_runs := runs,
            t_approvals := filter (\<lambda>a. (ap_community_id a, ap_workflow_id a) \<notin> gone
                                     \<and> (ap_community_id a, ap_run_id a) \<notin> lost) (t_approvals db),
            t_fires := filter (\<lambda>f. (fr_community_id f, fr_workflow_id f) \<notin> gone) (t_fires db)\<rparr>)"

definition fire_run_ok :: "WfDb \<Rightarrow> ScheduledFire \<Rightarrow> bool" where
  "fire_run_ok db f = (case fr_workflow_run_id f of None \<Rightarrow> True | Some r \<Rightarrow> (fr_community_id f, r) \<in> run_key ` set (t_runs db))"

definition fire_runs_exist :: "WfDb \<Rightarrow> bool" where
  "fire_runs_exist db = list_all (fire_run_ok db) (t_fires db)"

definition delete_workflow :: "wf_env \<Rightarrow> nat \<Rightarrow> uuid \<Rightarrow> uuid \<Rightarrow> WfDb \<Rightarrow> unit db_result" where
  "delete_workflow E n community ident db =
     stmt E n db
       (let db' = cascade (\<lambda>w. wf_key w = (community, ident)) db
        in if (community, ident) \<notin> wf_key ` set (t_workflows db) then (Err (NotFound (''workflow '' @ ident)), db)
           else if \<not> fire_runs_exist db' then (Err (constraint ''scheduled_workflow_fires_run_fkey''), db)
           else (Ok (), db'))"

definition delete_workflow_for_owner ::
  "wf_env \<Rightarrow> nat \<Rightarrow> uuid \<Rightarrow> uuid \<Rightarrow> bytes \<Rightarrow> WfDb \<Rightarrow> uuid option db_result" where
  "delete_workflow_for_owner E n community ident owner db =
     stmt E n db
       (let P = (\<lambda>w. wf_key w = (community, ident) \<and> wr_owner_pubkey w = owner); db' = cascade P db
        in case find P (t_workflows db) of
             None \<Rightarrow> (Err (NotFound (''workflow '' @ ident)), db)
           | Some w \<Rightarrow>
               if \<not> fire_runs_exist db' then (Err (constraint ''scheduled_workflow_fires_run_fkey''), db)
               else (Ok (wr_channel_id w), db'))"

definition find_by_owner_and_name ::
  "wf_env \<Rightarrow> nat \<Rightarrow> uuid \<Rightarrow> bytes \<Rightarrow> string \<Rightarrow> WfDb \<Rightarrow> WorkflowRecord option db_result" where
  "find_by_owner_and_name E n community owner name db =
     stmt E n db
       ((case find (\<lambda>w. wr_community_id w = community \<and> wr_owner_pubkey w = owner \<and> wr_name w = name) (t_workflows db) of
           None \<Rightarrow> Ok None
         | Some w \<Rightarrow> res_bind (row_to_workflow_record w) (\<lambda>r. Ok (Some r))), db)"

section \<open>Claims of scheduled fires\<close>

definition claim_scheduled_workflow_fire ::
  "wf_env \<Rightarrow> nat \<Rightarrow> uuid \<Rightarrow> uuid \<Rightarrow> instant \<Rightarrow> WfDb \<Rightarrow> ScheduledFire option db_result" where
  "claim_scheduled_workflow_fire E n community workflow scheduled_for db =
     stmt E n db
       (let row = \<lparr>fr_community_id = community, fr_workflow_id = workflow, fr_scheduled_for = scheduled_for,
              fr_claimed_at = db_now E n, fr_workflow_run_id = None\<rparr>
        in if (community, workflow) \<notin> wf_key ` set (t_workflows db) then (Ok None, db)
           else if (community, workflow, scheduled_for) \<in> fire_key ` set (t_fires db) then (Ok None, db)
           else (Ok (Some row), db\<lparr>t_fires := t_fires db @ [row]\<rparr>))"

definition latest_scheduled_workflow_fire :: "wf_env \<Rightarrow> nat \<Rightarrow> uuid \<Rightarrow> uuid \<Rightarrow> WfDb \<Rightarrow> instant option db_result" where
  "latest_scheduled_workflow_fire E n community workflow db =
     stmt E n db
       (case map fr_scheduled_for (filter (\<lambda>f. fr_community_id f = community \<and> fr_workflow_id f = workflow) (t_fires db)) of
          [] \<Rightarrow> (Ok None, db)
        | t # ts \<Rightarrow> (Ok (Some (foldl max t ts)), db))"

definition attach_scheduled_workflow_run ::
  "wf_env \<Rightarrow> nat \<Rightarrow> uuid \<Rightarrow> uuid \<Rightarrow> instant \<Rightarrow> uuid \<Rightarrow> WfDb \<Rightarrow> bool db_result" where
  "attach_scheduled_workflow_run E n community workflow scheduled_for run_id db =
     stmt E n db
       (let P = (\<lambda>f. fire_key f = (community, workflow, scheduled_for) \<and> fr_workflow_run_id f = None)
        in if filter P (t_fires db) \<noteq> [] \<and> (community, run_id) \<notin> run_key ` set (t_runs db)
           then (Err (constraint ''scheduled_workflow_fires_run_fkey''), db)
           else (Ok (length (filter P (t_fires db)) = 1),
                 db\<lparr>t_fires := update_rows P (\<lambda>f. f\<lparr>fr_workflow_run_id := Some run_id\<rparr>) (t_fires db)\<rparr>))"

definition prune_scheduled_workflow_fires_before :: "wf_env \<Rightarrow> nat \<Rightarrow> instant \<Rightarrow> WfDb \<Rightarrow> nat db_result" where
  "prune_scheduled_workflow_fires_before E n older_than db =
     stmt E n db
       (Ok (length (filter (\<lambda>f. fr_claimed_at f < older_than) (t_fires db))),
        db\<lparr>t_fires := filter (\<lambda>f. \<not> fr_claimed_at f < older_than) (t_fires db)\<rparr>)"

section \<open>Runs\<close>

definition create_workflow_run ::
  "wf_env \<Rightarrow> nat \<Rightarrow> uuid \<Rightarrow> uuid \<Rightarrow> bytes option \<Rightarrow> Value option \<Rightarrow> WfDb \<Rightarrow> uuid db_result" where
  "create_workflow_run E n community workflow trigger_event_id trigger_context db =
     stmt E n db
       (let row = \<lparr>rr_id = db_uuid E n, rr_community_id = community, rr_workflow_id = workflow,
              rr_status = RunPending, rr_trigger_event_id = trigger_event_id, rr_current_step = 0,
              rr_execution_trace = Array [], rr_trigger_context = map_option (db_jsonb E) trigger_context,
              rr_started_at = None, rr_completed_at = None, rr_error_message = None, rr_created_at = db_now E n\<rparr>
        in if run_key row \<in> run_key ` set (t_runs db) then (Err (constraint ''workflow_runs_pkey''), db)
           else if (community, workflow) \<notin> wf_key ` set (t_workflows db)
           then (Err (constraint ''workflow_runs_fkey''), db)
           else (Ok (db_uuid E n), db\<lparr>t_runs := t_runs db @ [row]\<rparr>))"

definition get_workflow_run :: "wf_env \<Rightarrow> nat \<Rightarrow> uuid \<Rightarrow> uuid \<Rightarrow> WfDb \<Rightarrow> WorkflowRunRecord db_result" where
  "get_workflow_run E n community ident db =
     stmt E n db
       ((case find (\<lambda>r. run_key r = (community, ident)) (t_runs db) of
           None \<Rightarrow> Err (NotFound (''workflow_run '' @ ident))
         | Some r \<Rightarrow> row_to_run_record r), db)"

definition list_workflow_runs ::
  "wf_env \<Rightarrow> nat \<Rightarrow> uuid \<Rightarrow> uuid \<Rightarrow> int \<Rightarrow> WfDb \<Rightarrow> WorkflowRunRecord list db_result" where
  "list_workflow_runs E n community workflow limit_rows db =
     stmt E n db
       (if limit_rows < 0 then (Err (Sqlx ''LIMIT must not be negative''), db)
        else (collect_rows row_to_run_record (take (nat (min limit_rows 1000)) (sort_key (\<lambda>r. - rr_created_at r)
               (filter (\<lambda>r. rr_community_id r = community \<and> rr_workflow_id r = workflow) (t_runs db)))), db))"

definition update_workflow_run ::
  "wf_env \<Rightarrow> nat \<Rightarrow> uuid \<Rightarrow> uuid \<Rightarrow> RunStatus \<Rightarrow> i32 \<Rightarrow> Value \<Rightarrow> string option \<Rightarrow> WfDb \<Rightarrow> unit db_result" where
  "update_workflow_run E n community ident status current_step tr error db =
     stmt E n db
       (if (community, ident) \<notin> run_key ` set (t_runs db) then (Err (NotFound (''workflow_run '' @ ident)), db)
        else (Ok (), db\<lparr>t_runs := update_rows (\<lambda>r. run_key r = (community, ident))
               (\<lambda>r. r\<lparr>rr_status := status, rr_current_step := current_step,
                       rr_execution_trace := db_jsonb E tr, rr_error_message := error,
                       rr_started_at := (if status = Running \<and> rr_started_at r = None
                                         then Some (db_now E n) else rr_started_at r),
                       rr_completed_at := (if status \<in> {Completed, Failed, Cancelled}
                                           then Some (db_now E n) else rr_completed_at r)\<rparr>)
               (t_runs db)\<rparr>))"

section \<open>Approvals\<close>

record CreateApprovalParams =
  cp_community_id :: uuid
  cp_token :: string
  cp_workflow_id :: uuid
  cp_run_id :: uuid
  cp_step_id :: string
  cp_step_index :: i32
  cp_approver_spec :: string
  cp_expires_at :: instant

definition create_approval :: "wf_env \<Rightarrow> nat \<Rightarrow> CreateApprovalParams \<Rightarrow> WfDb \<Rightarrow> unit db_result" where
  "create_approval E n p db =
     stmt E n db
       (let row = \<lparr>ap_community_id = cp_community_id p, ap_token = hash_approval_token E (cp_token p),
              ap_workflow_id = cp_workflow_id p, ap_run_id = cp_run_id p, ap_step_id = cp_step_id p,
              ap_step_index = cp_step_index p, ap_approver_spec = cp_approver_spec p, ap_status = Pending,
              ap_approver_pubkey = None, ap_note = None, ap_expires_at = cp_expires_at p,
              ap_created_at = db_now E n, ap_granted_at = None, ap_denied_at = None\<rparr>
        in if ap_key row \<in> ap_key ` set (t_approvals db) then (Err (constraint ''workflow_approvals_pkey''), db)
           else if (cp_community_id p, cp_workflow_id p) \<notin> wf_key ` set (t_workflows db)
             \<or> (cp_community_id p, cp_run_id p) \<notin> run_key ` set (t_runs db)
           then (Err (constraint ''workflow_approvals_fkey''), db)
           else (Ok (), db\<lparr>t_approvals := t_approvals db @ [row]\<rparr>))"

definition get_approval_by_stored_hash :: "wf_env \<Rightarrow> nat \<Rightarrow> uuid \<Rightarrow> bytes \<Rightarrow> WfDb \<Rightarrow> ApprovalRecord db_result" where
  "get_approval_by_stored_hash E n community token_hash db =
     stmt E n db
       ((case find (\<lambda>a. ap_key a = (community, token_hash)) (t_approvals db) of
           None \<Rightarrow> Err (NotFound ''approval token (hashed)'')
         | Some a \<Rightarrow> row_to_approval_record a), db)"

definition get_approval :: "wf_env \<Rightarrow> nat \<Rightarrow> uuid \<Rightarrow> string \<Rightarrow> WfDb \<Rightarrow> ApprovalRecord db_result" where
  "get_approval E n community token db = get_approval_by_stored_hash E n community (hash_approval_token E token) db"

definition get_run_approvals ::
  "wf_env \<Rightarrow> nat \<Rightarrow> uuid \<Rightarrow> uuid \<Rightarrow> uuid \<Rightarrow> WfDb \<Rightarrow> ApprovalRecord list db_result" where
  "get_run_approvals E n community workflow run_id db =
     stmt E n db
       (collect_rows row_to_approval_record
          (sort_key (\<lambda>a. sint (ap_step_index a)) (sort_key ap_created_at
             (filter (\<lambda>a. ap_community_id a = community \<and> ap_run_id a = run_id \<and> ap_workflow_id a = workflow)
                (t_approvals db)))), db)"

definition update_approval_by_stored_hash ::
  "wf_env \<Rightarrow> nat \<Rightarrow> uuid \<Rightarrow> bytes \<Rightarrow> ApprovalStatus \<Rightarrow> bytes option \<Rightarrow> string option \<Rightarrow> WfDb \<Rightarrow> bool db_result" where
  "update_approval_by_stored_hash E n community token_hash status approver note db =
     stmt E n db
       (let P = (\<lambda>a. ap_key a = (community, token_hash) \<and> ap_status a = Pending)
        in (Ok (filter P (t_approvals db) \<noteq> []),
            db\<lparr>t_approvals := update_rows P
                 (\<lambda>a. a\<lparr>ap_status := status, ap_approver_pubkey := approver, ap_note := note,
                         ap_granted_at := (if status = Granted then Some (db_now E n) else ap_granted_at a),
                         ap_denied_at := (if status = Denied then Some (db_now E n) else ap_denied_at a)\<rparr>)
                 (t_approvals db)\<rparr>))"

definition update_approval ::
  "wf_env \<Rightarrow> nat \<Rightarrow> uuid \<Rightarrow> string \<Rightarrow> ApprovalStatus \<Rightarrow> bytes option \<Rightarrow> string option \<Rightarrow> WfDb \<Rightarrow> bool db_result" where
  "update_approval E n community token status approver note db =
     update_approval_by_stored_hash E n community (hash_approval_token E token) status approver note db"

section \<open>Sequences of statements\<close>

text \<open>Every statement that writes, from any pod, in any order, each with its call number.\<close>

datatype db_op =
    CreateWorkflow uuid "uuid option" bytes string string bytes
  | UpsertWorkflow uuid uuid "uuid option" bytes string string bytes
  | UpdateWorkflow uuid uuid string string bytes
  | UpdateWorkflowStatus uuid uuid WorkflowStatus
  | SetWorkflowEnabled uuid uuid bool
  | DisableWorkflows uuid uuid bytes
  | DeleteWorkflow uuid uuid
  | DeleteWorkflowForOwner uuid uuid bytes
  | ClaimFire uuid uuid instant
  | AttachRun uuid uuid instant uuid
  | PruneFires instant
  | CreateRun uuid uuid "bytes option" "Value option"
  | UpdateRun uuid uuid RunStatus i32 Value "string option"
  | CreateApproval CreateApprovalParams
  | UpdateApproval uuid bytes ApprovalStatus "bytes option" "string option"

definition db_exec :: "wf_env \<Rightarrow> nat \<Rightarrow> db_op \<Rightarrow> WfDb \<Rightarrow> WfDb" where
  "db_exec E n oper db =
     (case oper of
        CreateWorkflow c ch ow nm js h \<Rightarrow> snd (create_workflow E n c ch ow nm js h db)
      | UpsertWorkflow c i ch ow nm js h \<Rightarrow> snd (upsert_workflow E n c i ch ow nm js h db)
      | UpdateWorkflow c i nm js h \<Rightarrow> snd (update_workflow E n c i nm js h db)
      | UpdateWorkflowStatus c i st \<Rightarrow> snd (update_workflow_status E n c i st db)
      | SetWorkflowEnabled c i b \<Rightarrow> snd (set_workflow_enabled E n c i b db)
      | DisableWorkflows c ch ow \<Rightarrow> snd (disable_workflows_for_owner_in_channel E n c ch ow db)
      | DeleteWorkflow c i \<Rightarrow> snd (delete_workflow E n c i db)
      | DeleteWorkflowForOwner c i ow \<Rightarrow> snd (delete_workflow_for_owner E n c i ow db)
      | ClaimFire c w t \<Rightarrow> snd (claim_scheduled_workflow_fire E n c w t db)
      | AttachRun c w t r \<Rightarrow> snd (attach_scheduled_workflow_run E n c w t r db)
      | PruneFires t \<Rightarrow> snd (prune_scheduled_workflow_fires_before E n t db)
      | CreateRun c w ev ctx \<Rightarrow> snd (create_workflow_run E n c w ev ctx db)
      | UpdateRun c i st k tr er \<Rightarrow> snd (update_workflow_run E n c i st k tr er db)
      | CreateApproval p \<Rightarrow> snd (create_approval E n p db)
      | UpdateApproval c t st who note \<Rightarrow> snd (update_approval_by_stored_hash E n c t st who note db))"

definition db_run :: "wf_env \<Rightarrow> (nat \<times> db_op) list \<Rightarrow> WfDb \<Rightarrow> WfDb" where
  "db_run E xs db = foldl (\<lambda>db (n, x). db_exec E n x db) db xs"

text \<open>The state before each statement of a sequence.\<close>

fun db_states :: "wf_env \<Rightarrow> (nat \<times> db_op) list \<Rightarrow> WfDb \<Rightarrow> (WfDb \<times> nat \<times> db_op) list" where
  "db_states E [] db = []"
| "db_states E ((n, x) # xs) db = (db, n, x) # db_states E xs (db_exec E n x db)"

section \<open>Integrity of the tables\<close>

definition db_ok :: "WfDb \<Rightarrow> bool" where
  "db_ok db \<longleftrightarrow>
     distinct (map wf_key (t_workflows db)) \<and> distinct (map run_key (t_runs db))
     \<and> distinct (map ap_key (t_approvals db)) \<and> distinct (map fire_key (t_fires db))
     \<and> (\<forall>w\<in>set (t_workflows db). workflow_refs db w)
     \<and> (\<forall>r\<in>set (t_runs db). (rr_community_id r, rr_workflow_id r) \<in> wf_key ` set (t_workflows db))
     \<and> (\<forall>a\<in>set (t_approvals db). (ap_community_id a, ap_workflow_id a) \<in> wf_key ` set (t_workflows db)
            \<and> (ap_community_id a, ap_run_id a) \<in> run_key ` set (t_runs db))
     \<and> (\<forall>f\<in>set (t_fires db). (fr_community_id f, fr_workflow_id f) \<in> wf_key ` set (t_workflows db))
     \<and> fire_runs_exist db"

definition empty_db :: "(uuid \<times> bool) list \<Rightarrow> (uuid \<times> bytes) list \<Rightarrow> (uuid \<times> uuid) list \<Rightarrow> WfDb" where
  "empty_db communities users channels =
     \<lparr>t_communities = communities, t_users = users, t_channels = channels,
      t_workflows = [], t_runs = [], t_approvals = [], t_fires = []\<rparr>"

lemma stmt_cases: "snd (stmt E n db res) = db \<or> snd (stmt E n db res) = snd res"
  by (simp add: stmt_def split: option.split)

lemma update_rows_keys: "(\<And>r. k (f r) = k r) \<Longrightarrow> map k (update_rows P f rows) = map k rows"
  by (simp add: update_rows_def)

lemma update_rows_image: "(\<And>r. k (f r) = k r) \<Longrightarrow> k ` set (update_rows P f rows) = k ` set rows"
  using update_rows_keys [of k f P rows] by (metis list.set_map)

lemma update_rows_ball: "\<forall>r\<in>set rows. Q r \<Longrightarrow> (\<And>r. Q r \<Longrightarrow> Q (f r)) \<Longrightarrow> \<forall>r\<in>set (update_rows P f rows). Q r"
  by (auto simp: update_rows_def)

lemma find_None_key: "find (\<lambda>r. k r = x) rows = None \<longleftrightarrow> x \<notin> k ` set rows"
  by (auto simp: find_None_iff)

lemma workflow_refs_tables [simp]:
  "workflow_refs (db\<lparr>t_workflows := ws\<rparr>) w = workflow_refs db w" "workflow_refs (db\<lparr>t_runs := rs\<rparr>) w = workflow_refs db w"
  "workflow_refs (db\<lparr>t_approvals := as\<rparr>) w = workflow_refs db w" "workflow_refs (db\<lparr>t_fires := fs\<rparr>) w = workflow_refs db w"
  by (simp_all add: workflow_refs_def split: option.split)

lemma fire_run_ok_tables [simp]:
  "fire_run_ok (db\<lparr>t_workflows := ws\<rparr>) f = fire_run_ok db f" "fire_run_ok (db\<lparr>t_approvals := as\<rparr>) f = fire_run_ok db f"
  "fire_run_ok (db\<lparr>t_fires := fs\<rparr>) f = fire_run_ok db f"
  by (simp_all add: fire_run_ok_def split: option.split)

lemma fire_runs_exist_iff: "fire_runs_exist db \<longleftrightarrow> (\<forall>f\<in>set (t_fires db). fire_run_ok db f)"
  by (simp add: fire_runs_exist_def list_all_iff)

lemma fire_run_ok_runs: "run_key ` set rs = run_key ` set (t_runs db) \<Longrightarrow> fire_run_ok (db\<lparr>t_runs := rs\<rparr>) f = fire_run_ok db f"
  by (simp add: fire_run_ok_def split: option.split)

lemma workflows_update_ok:
  assumes "db_ok db" "\<And>w. wf_key (f w) = wf_key w" "\<And>w. wr_owner_pubkey (f w) = wr_owner_pubkey w"
    "\<And>w. wr_channel_id (f w) = wr_channel_id w"
  shows "db_ok (db\<lparr>t_workflows := update_rows P f (t_workflows db)\<rparr>)"
proof -
  have "workflow_refs db (f w) = workflow_refs db w" for w
    using assms(2-4) [of w] by (simp add: workflow_refs_def split: option.split)
  then have "\<forall>w\<in>set (update_rows P f (t_workflows db)). workflow_refs db w"
    using assms(1) by (intro update_rows_ball) (simp_all add: db_ok_def)
  moreover have "map wf_key (update_rows P f (t_workflows db)) = map wf_key (t_workflows db)"
    using assms(2) by (rule update_rows_keys)
  moreover have "wf_key ` set (update_rows P f (t_workflows db)) = wf_key ` set (t_workflows db)"
    using assms(2) by (rule update_rows_image)
  ultimately show ?thesis
    using assms(1) by (simp add: db_ok_def fire_runs_exist_iff)
qed

lemma workflows_append_ok:
  assumes "db_ok db" "wf_key w \<notin> wf_key ` set (t_workflows db)" "workflow_refs db w"
  shows "db_ok (db\<lparr>t_workflows := t_workflows db @ [w]\<rparr>)"
  using assms by (auto simp: db_ok_def fire_runs_exist_iff)

lemma runs_update_ok:
  assumes "db_ok db" "\<And>r. run_key (f r) = run_key r" "\<And>r. rr_workflow_id (f r) = rr_workflow_id r"
  shows "db_ok (db\<lparr>t_runs := update_rows P f (t_runs db)\<rparr>)"
proof -
  have "map run_key (update_rows P f (t_runs db)) = map run_key (t_runs db)"
    using assms(2) by (rule update_rows_keys)
  moreover have "run_key ` set (update_rows P f (t_runs db)) = run_key ` set (t_runs db)"
    using assms(2) by (rule update_rows_image)
  moreover have "\<forall>r\<in>set (update_rows P f (t_runs db)). (rr_community_id r, rr_workflow_id r) \<in> wf_key ` set (t_workflows db)"
    using assms by (intro update_rows_ball) (simp_all add: db_ok_def)
  ultimately show ?thesis
    using assms(1) by (simp add: db_ok_def fire_runs_exist_iff fire_run_ok_runs)
qed

lemma runs_append_ok:
  assumes "db_ok db" "run_key r \<notin> run_key ` set (t_runs db)"
    "(rr_community_id r, rr_workflow_id r) \<in> wf_key ` set (t_workflows db)"
  shows "db_ok (db\<lparr>t_runs := t_runs db @ [r]\<rparr>)"
proof -
  have "fire_runs_exist (db\<lparr>t_runs := t_runs db @ [r]\<rparr>)"
    using assms(1) by (fastforce simp: db_ok_def fire_runs_exist_iff fire_run_ok_def split: option.splits)
  then show ?thesis using assms by (auto simp: db_ok_def)
qed

lemma approvals_update_ok:
  assumes "db_ok db" "\<And>a. ap_key (f a) = ap_key a" "\<And>a. ap_workflow_id (f a) = ap_workflow_id a"
    "\<And>a. ap_run_id (f a) = ap_run_id a"
  shows "db_ok (db\<lparr>t_approvals := update_rows P f (t_approvals db)\<rparr>)"
proof -
  have "map ap_key (update_rows P f (t_approvals db)) = map ap_key (t_approvals db)"
    using assms(2) by (rule update_rows_keys)
  moreover have "\<forall>a\<in>set (update_rows P f (t_approvals db)). (ap_community_id a, ap_workflow_id a) \<in> wf_key ` set (t_workflows db)
      \<and> (ap_community_id a, ap_run_id a) \<in> run_key ` set (t_runs db)"
    using assms by (intro update_rows_ball) (simp_all add: db_ok_def)
  ultimately show ?thesis
    using assms(1) by (simp add: db_ok_def fire_runs_exist_iff)
qed

lemma fires_update_ok:
  assumes "db_ok db" "\<And>f. fire_key (g f) = fire_key f"
    "\<And>f. P f \<Longrightarrow> f \<in> set (t_fires db) \<Longrightarrow> fr_workflow_run_id (g f) = Some r \<and> (fr_community_id f, r) \<in> run_key ` set (t_runs db)"
  shows "db_ok (db\<lparr>t_fires := update_rows P g (t_fires db)\<rparr>)"
proof -
  have "map fire_key (update_rows P g (t_fires db)) = map fire_key (t_fires db)"
    using assms(2) by (rule update_rows_keys)
  moreover have "\<forall>f\<in>set (update_rows P g (t_fires db)). (fr_community_id f, fr_workflow_id f) \<in> wf_key ` set (t_workflows db)"
    using assms(1,2) by (intro update_rows_ball) (simp_all add: db_ok_def)
  moreover have "fire_runs_exist (db\<lparr>t_fires := update_rows P g (t_fires db)\<rparr>)"
  proof -
    have old: "fire_run_ok db f" if "f \<in> set (t_fires db)" for f
      using that assms(1) by (simp add: db_ok_def fire_runs_exist_iff)
    have new: "fire_run_ok db (g f)" if "f \<in> set (t_fires db)" "P f" for f
      using that assms(2) [of f] assms(3) [of f] by (simp add: fire_run_ok_def)
    show ?thesis
      using old new unfolding fire_runs_exist_iff update_rows_def
      by (auto split: if_splits simp del: fire_run_ok_tables) (simp_all add: old new)
  qed
  ultimately show ?thesis
    using assms(1) by (simp add: db_ok_def)
qed

lemma distinct_filter_keys: "distinct (map k xs) \<Longrightarrow> distinct (map k (filter P xs))"
  by (induction xs) auto

lemma cascade_ok:
  assumes "db_ok db" "fire_runs_exist (cascade P db)"
  shows "db_ok (cascade P db)"
proof -
  let ?gone = "wf_key ` set (filter P (t_workflows db))"
  have kept: "x \<in> wf_key ` set (filter (\<lambda>w. \<not> P w) (t_workflows db))"
    if "x \<in> wf_key ` set (t_workflows db)" "x \<notin> ?gone" for x
    using that by auto
  have refs: "workflow_refs (cascade P db) w = workflow_refs db w" for w
    by (simp add: cascade_def Let_def workflow_refs_def split: option.split)
  have runs: "(ap_community_id a, ap_run_id a) \<in> run_key ` set (t_runs (cascade P db))"
    if "a \<in> set (t_approvals (cascade P db))" for a
    using that assms(1) by (fastforce simp: cascade_def Let_def db_ok_def)
  show ?thesis
    using assms kept refs runs unfolding db_ok_def
    by (simp add: distinct_filter_keys cascade_def Let_def)
qed

lemma cascade_keeps_integrity:
  assumes "db_ok db" and "db' = (if \<not> fire_runs_exist (cascade P db) then db else cascade P db)"
  shows "db_ok db'"
  using assms cascade_ok [of db P] by simp

lemmas db_ops_def = create_workflow_def upsert_workflow_def update_workflow_def update_workflow_status_def
  set_workflow_enabled_def disable_workflows_for_owner_in_channel_def delete_workflow_def
  delete_workflow_for_owner_def claim_scheduled_workflow_fire_def attach_scheduled_workflow_run_def
  prune_scheduled_workflow_fires_before_def create_workflow_run_def update_workflow_run_def create_approval_def
  update_approval_by_stored_hash_def

lemma fires_append_ok:
  assumes "db_ok db" "fire_key f \<notin> fire_key ` set (t_fires db)" "fr_workflow_run_id f = None"
    "(fr_community_id f, fr_workflow_id f) \<in> wf_key ` set (t_workflows db)"
  shows "db_ok (db\<lparr>t_fires := t_fires db @ [f]\<rparr>)"
  using assms by (auto simp: db_ok_def fire_runs_exist_iff) (auto simp: fire_run_ok_def)

lemma fires_filter_ok: "db_ok db \<Longrightarrow> db_ok (db\<lparr>t_fires := filter P (t_fires db)\<rparr>)"
  by (auto simp: db_ok_def fire_runs_exist_iff distinct_filter_keys)

lemma approvals_append_ok:
  assumes "db_ok db" "ap_key a \<notin> ap_key ` set (t_approvals db)"
    "(ap_community_id a, ap_workflow_id a) \<in> wf_key ` set (t_workflows db)"
    "(ap_community_id a, ap_run_id a) \<in> run_key ` set (t_runs db)"
  shows "db_ok (db\<lparr>t_approvals := t_approvals db @ [a]\<rparr>)"
  using assms by (auto simp: db_ok_def fire_runs_exist_iff)

lemma upsert_workflow_ok: "db_ok db \<Longrightarrow> db_ok (snd (upsert_workflow E n c i ch ow nm js h db))"
proof -
  assume ok: "db_ok db"
  have "find (\<lambda>w. wf_key w = (c, i)) (t_workflows db) = None \<Longrightarrow> (c, i) \<notin> wf_key ` set (t_workflows db)"
    by (simp only: find_None_key not_False_eq_True)
  then show ?thesis
    using ok by (auto simp: upsert_workflow_def stmt_def Let_def split: option.split
        intro!: workflows_update_ok workflows_append_ok)
qed

lemma attach_scheduled_workflow_run_ok:
  assumes "db_ok db"
  shows "db_ok (snd (attach_scheduled_workflow_run E n c w t r db))"
proof -
  let ?P = "\<lambda>f. fire_key f = (c, w, t) \<and> fr_workflow_run_id f = None"
  have "db_ok (db\<lparr>t_fires := update_rows ?P (\<lambda>f. f\<lparr>fr_workflow_run_id := Some r\<rparr>) (t_fires db)\<rparr>)"
    if "filter ?P (t_fires db) = [] \<or> (c, r) \<in> run_key ` set (t_runs db)"
    using assms that by (intro fires_update_ok [where r = r]) (auto simp: filter_empty_conv)
  then show ?thesis
    using assms by (auto simp: attach_scheduled_workflow_run_def stmt_def Let_def split: option.split)
qed

lemma create_approval_ok: "db_ok db \<Longrightarrow> db_ok (snd (create_approval E n p db))"
  by (simp add: create_approval_def stmt_def Let_def approvals_append_ok split: option.split)

lemma db_exec_ok: "db_ok db \<Longrightarrow> db_ok (db_exec E n x db)"
proof (cases x)
  case (DeleteWorkflow c i)
  assume "db_ok db"
  then show ?thesis
    by (simp add: DeleteWorkflow db_exec_def delete_workflow_def stmt_def Let_def cascade_ok split: option.split)
next
  case (DeleteWorkflowForOwner c i ow)
  assume "db_ok db"
  then show ?thesis
    by (simp add: DeleteWorkflowForOwner db_exec_def delete_workflow_for_owner_def stmt_def Let_def cascade_ok split: option.split)
next
  case (UpsertWorkflow c i ch ow nm js h)
  assume "db_ok db"
  then show ?thesis by (simp add: UpsertWorkflow db_exec_def upsert_workflow_ok)
next
  case (AttachRun c w t r)
  assume "db_ok db"
  then show ?thesis by (simp add: AttachRun db_exec_def attach_scheduled_workflow_run_ok)
next
  case (CreateApproval p)
  assume "db_ok db"
  then show ?thesis by (simp add: CreateApproval db_exec_def create_approval_ok)
qed (auto simp: db_exec_def db_ops_def stmt_def Let_def split: option.split
    intro!: workflows_update_ok workflows_append_ok runs_update_ok runs_append_ok approvals_update_ok
      approvals_append_ok fires_append_ok fires_filter_ok)

interpretation wdb: invariant_machine "\<lambda>db (n, x). db_exec E n x db" "empty_db cs us chs" db_ok for E cs us chs
proof unfold_locales
  show "db_ok (empty_db cs us chs)"
    by (simp add: empty_db_def db_ok_def fire_runs_exist_def)
  show "db_ok ((\<lambda>(n, x). db_exec E n x s) oper)" if "db_ok s" for s oper
    using that by (cases oper) (simp add: db_exec_ok)
qed

text \<open>
  The workflow tables stay well formed: after any sequence of statements no two rows share a primary key and every
  reference resolves. This is the work of the schema's constraints; the properties below rest on it.
\<close>

lemma workflow_tables_sound: "db_ok (db_run E xs (empty_db communities users channels))"
  unfolding db_run_def by (rule wdb.inv_reachable)

section \<open>The rows a statement may touch\<close>

text \<open>
  What each statement is for, row by row: the workflow rows it may update or delete, the rows it may add, and how an
  updated row may differ. The identity of a row never changes.
\<close>

fun updates_workflow :: "db_op \<Rightarrow> WorkflowRecord \<Rightarrow> bool" where
  "updates_workflow (UpsertWorkflow c i ch ow nm js h) w \<longleftrightarrow> wf_key w = (c, i) \<and> wr_owner_pubkey w = ow \<and> wr_channel_id w = ch"
| "updates_workflow (UpdateWorkflow c i nm js h) w \<longleftrightarrow> wf_key w = (c, i)"
| "updates_workflow (UpdateWorkflowStatus c i st) w \<longleftrightarrow> wf_key w = (c, i)"
| "updates_workflow (SetWorkflowEnabled c i b) w \<longleftrightarrow> wf_key w = (c, i)"
| "updates_workflow (DisableWorkflows c ch ow) w \<longleftrightarrow>
     wr_community_id w = c \<and> wr_channel_id w = Some ch \<and> wr_owner_pubkey w = ow"
| "updates_workflow x w \<longleftrightarrow> False"

fun deletes_workflow :: "db_op \<Rightarrow> WorkflowRecord \<Rightarrow> bool" where
  "deletes_workflow (DeleteWorkflow c i) w \<longleftrightarrow> wf_key w = (c, i)"
| "deletes_workflow (DeleteWorkflowForOwner c i ow) w \<longleftrightarrow> wf_key w = (c, i) \<and> wr_owner_pubkey w = ow"
| "deletes_workflow x w \<longleftrightarrow> False"

fun creates_workflow :: "db_op \<Rightarrow> WorkflowRecord \<Rightarrow> bool" where
  "creates_workflow (CreateWorkflow c ch ow nm js h) w \<longleftrightarrow> wr_community_id w = c \<and> wr_channel_id w = ch
     \<and> wr_owner_pubkey w = ow \<and> wr_name w = nm \<and> wr_definition_hash w = h \<and> wr_status w = Active \<and> wr_enabled w"
| "creates_workflow (UpsertWorkflow c i ch ow nm js h) w \<longleftrightarrow> wf_key w = (c, i) \<and> wr_channel_id w = ch
     \<and> wr_owner_pubkey w = ow \<and> wr_name w = nm \<and> wr_definition_hash w = h \<and> wr_status w = Active \<and> wr_enabled w"
| "creates_workflow x w \<longleftrightarrow> False"

definition edits_definition :: "db_op \<Rightarrow> bool" where
  "edits_definition x = (case x of UpsertWorkflow _ _ _ _ _ _ _ \<Rightarrow> True | UpdateWorkflow _ _ _ _ _ \<Rightarrow> True | _ \<Rightarrow> False)"

definition workflow_change :: "db_op \<Rightarrow> WorkflowRecord \<Rightarrow> WorkflowRecord \<Rightarrow> bool" where
  "workflow_change x w w' \<longleftrightarrow>
     updates_workflow x w
     \<and> (wf_key w', wr_owner_pubkey w', wr_channel_id w', wr_created_at w')
       = (wf_key w, wr_owner_pubkey w, wr_channel_id w, wr_created_at w)
     \<and> (edits_definition x \<or> (wr_name w', wr_definition w', wr_definition_hash w') = (wr_name w, wr_definition w, wr_definition_hash w))
     \<and> (wr_status w' = wr_status w \<or> (\<exists>c i. x = UpdateWorkflowStatus c i (wr_status w')))
     \<and> (wr_enabled w' = wr_enabled w \<or> (\<exists>c i. x = SetWorkflowEnabled c i (wr_enabled w'))
        \<or> (\<exists>c ch ow. x = DisableWorkflows c ch ow \<and> \<not> wr_enabled w'))"

definition run_change :: "db_op \<Rightarrow> WorkflowRunRecord \<Rightarrow> WorkflowRunRecord \<Rightarrow> bool" where
  "run_change x r r' \<longleftrightarrow>
     (\<exists>st k tr er. x = UpdateRun (rr_community_id r) (rr_id r) st k tr er
        \<and> (rr_status r', rr_current_step r', rr_error_message r') = (st, k, er)
        \<and> (run_key r', rr_workflow_id r', rr_trigger_event_id r', rr_trigger_context r', rr_created_at r')
          = (run_key r, rr_workflow_id r, rr_trigger_event_id r, rr_trigger_context r, rr_created_at r)
        \<and> (rr_started_at r \<noteq> None \<or> st \<noteq> Running \<longrightarrow> rr_started_at r' = rr_started_at r)
        \<and> (st \<notin> {Completed, Failed, Cancelled} \<longrightarrow> rr_completed_at r' = rr_completed_at r))"

definition creates_run :: "db_op \<Rightarrow> WorkflowRunRecord \<Rightarrow> bool" where
  "creates_run x r \<longleftrightarrow>
     (\<exists>ctx. x = CreateRun (rr_community_id r) (rr_workflow_id r) (rr_trigger_event_id r) ctx)
     \<and> rr_status r = RunPending \<and> rr_current_step r = 0 \<and> rr_started_at r = None \<and> rr_completed_at r = None"

definition approval_change :: "db_op \<Rightarrow> ApprovalRecord \<Rightarrow> ApprovalRecord \<Rightarrow> bool" where
  "approval_change x a a' \<longleftrightarrow>
     ap_status a = Pending
     \<and> x = UpdateApproval (ap_community_id a) (ap_token a) (ap_status a') (ap_approver_pubkey a') (ap_note a')
     \<and> (ap_key a', ap_workflow_id a', ap_run_id a', ap_step_id a', ap_step_index a', ap_approver_spec a', ap_expires_at a')
       = (ap_key a, ap_workflow_id a, ap_run_id a, ap_step_id a, ap_step_index a, ap_approver_spec a, ap_expires_at a)"

definition creates_approval :: "wf_env \<Rightarrow> db_op \<Rightarrow> ApprovalRecord \<Rightarrow> bool" where
  "creates_approval E x a \<longleftrightarrow>
     (\<exists>p. x = CreateApproval p \<and> ap_key a = (cp_community_id p, hash_approval_token E (cp_token p))
        \<and> (ap_workflow_id a, ap_run_id a, ap_step_id a, ap_step_index a, ap_approver_spec a, ap_expires_at a)
          = (cp_workflow_id p, cp_run_id p, cp_step_id p, cp_step_index p, cp_approver_spec p, cp_expires_at p))
     \<and> ap_status a = Pending \<and> ap_approver_pubkey a = None"

definition fire_change :: "db_op \<Rightarrow> ScheduledFire \<Rightarrow> ScheduledFire \<Rightarrow> bool" where
  "fire_change x f f' \<longleftrightarrow>
     fr_workflow_run_id f = None
     \<and> (\<exists>r. x = AttachRun (fr_community_id f) (fr_workflow_id f) (fr_scheduled_for f) r \<and> f' = f\<lparr>fr_workflow_run_id := Some r\<rparr>)"

definition creates_fire :: "db_op \<Rightarrow> ScheduledFire \<Rightarrow> bool" where
  "creates_fire x f \<longleftrightarrow>
     x = ClaimFire (fr_community_id f) (fr_workflow_id f) (fr_scheduled_for f) \<and> fr_workflow_run_id f = None"

text \<open>One table before and after a statement: old rows stay, change or go as allowed, and new rows are old, changed or fresh ones.\<close>

definition table_step :: "('r \<Rightarrow> 'r \<Rightarrow> bool) \<Rightarrow> ('r \<Rightarrow> bool) \<Rightarrow> ('r \<Rightarrow> bool) \<Rightarrow> 'r list \<Rightarrow> 'r list \<Rightarrow> bool" where
  "table_step change gone fresh rows rows' \<longleftrightarrow>
     (\<forall>r\<in>set rows. r \<in> set rows' \<or> gone r \<or> (\<exists>r'\<in>set rows'. change r r'))
     \<and> (\<forall>r'\<in>set rows'. r' \<in> set rows \<or> fresh r' \<or> (\<exists>r\<in>set rows. change r r'))"

lemma table_step_refl [simp]: "table_step change gone fresh rows rows"
  by (simp add: table_step_def)

lemma table_step_append: "fresh r \<Longrightarrow> table_step change gone fresh rows (rows @ [r])"
  by (auto simp: table_step_def)

lemma table_step_filter: "(\<And>r. r \<in> set rows \<Longrightarrow> \<not> P r \<Longrightarrow> gone r) \<Longrightarrow> table_step change gone fresh rows (filter P rows)"
  by (auto simp: table_step_def)

lemma table_step_update:
  "(\<And>r. r \<in> set rows \<Longrightarrow> P r \<Longrightarrow> change r (f r)) \<Longrightarrow> table_step change gone fresh rows (update_rows P f rows)"
  unfolding table_step_def update_rows_def by (force split: if_splits)

definition run_of_gone :: "db_op \<Rightarrow> WfDb \<Rightarrow> WorkflowRunRecord \<Rightarrow> bool" where
  "run_of_gone x db r \<longleftrightarrow> (\<exists>w\<in>set (t_workflows db). deletes_workflow x w \<and> wf_key w = (rr_community_id r, rr_workflow_id r))"

definition approval_of_gone :: "db_op \<Rightarrow> WfDb \<Rightarrow> ApprovalRecord \<Rightarrow> bool" where
  "approval_of_gone x db a \<longleftrightarrow>
     (\<exists>w\<in>set (t_workflows db). deletes_workflow x w \<and> wf_key w = (ap_community_id a, ap_workflow_id a))
     \<or> (\<exists>r\<in>set (t_runs db). run_of_gone x db r \<and> run_key r = (ap_community_id a, ap_run_id a))"

definition fire_gone :: "db_op \<Rightarrow> WfDb \<Rightarrow> ScheduledFire \<Rightarrow> bool" where
  "fire_gone x db f \<longleftrightarrow>
     (\<exists>w\<in>set (t_workflows db). deletes_workflow x w \<and> wf_key w = (fr_community_id f, fr_workflow_id f))
     \<or> (\<exists>t. x = PruneFires t \<and> fr_claimed_at f < t)"

definition in_scope :: "wf_env \<Rightarrow> db_op \<Rightarrow> WfDb \<Rightarrow> WfDb \<Rightarrow> bool" where
  "in_scope E x db db' \<longleftrightarrow>
     table_step (workflow_change x) (deletes_workflow x) (creates_workflow x) (t_workflows db) (t_workflows db')
     \<and> table_step (run_change x) (run_of_gone x db) (creates_run x) (t_runs db) (t_runs db')
     \<and> table_step (approval_change x) (approval_of_gone x db) (creates_approval E x) (t_approvals db) (t_approvals db')
     \<and> table_step (fire_change x) (fire_gone x db) (creates_fire x) (t_fires db) (t_fires db')
     \<and> (t_communities db', t_users db', t_channels db') = (t_communities db, t_users db, t_channels db)"

lemma in_scope_refl [simp]: "in_scope E x db db"
  by (simp add: in_scope_def)

lemma cascade_in_scope:
  assumes "\<And>w. w \<in> set (t_workflows db) \<Longrightarrow> P w \<Longrightarrow> deletes_workflow x w"
  shows "in_scope E x db (cascade P db)"
proof -
  have gone: "\<exists>w\<in>set (t_workflows db). deletes_workflow x w \<and> wf_key w = k"
    if "k \<in> wf_key ` set (filter P (t_workflows db))" for k
    using that assms by auto
  have runs: "run_of_gone x db r" if "(rr_community_id r, rr_workflow_id r) \<in> wf_key ` set (filter P (t_workflows db))" for r
    unfolding run_of_gone_def by (rule gone [OF that])
  show ?thesis
    unfolding in_scope_def cascade_def Let_def
    using assms gone runs
    by (auto intro!: table_step_filter simp: approval_of_gone_def fire_gone_def simp del: set_filter) blast+
qed

lemma unique_row:
  "distinct (map k rows) \<Longrightarrow> find (\<lambda>r. k r = x) rows = Some r \<Longrightarrow> r' \<in> set rows \<Longrightarrow> k r' = x \<Longrightarrow> r' = r"
  by (induction rows) (auto split: if_splits)

lemmas change_defs = workflow_change_def edits_definition_def run_change_def approval_change_def fire_change_def
  creates_run_def creates_approval_def creates_fire_def

lemma db_exec_in_scope:
  assumes "db_ok db"
  shows "in_scope E x db (db_exec E n x db)"
proof (cases x)
  case (UpsertWorkflow c i ch ow nm js h)
  have keys: "distinct (map wf_key (t_workflows db))" using assms by (simp add: db_ok_def)
  have one: "w' = w" if "find (\<lambda>w. wr_community_id w = wr_community_id w' \<and> wr_id w = wr_id w') (t_workflows db) = Some w"
    "w' \<in> set (t_workflows db)" for w w'
    using unique_row [OF keys, of "(wr_community_id w', wr_id w')" w w'] that by simp
  show ?thesis
    unfolding UpsertWorkflow db_exec_def upsert_workflow_def
    by (auto simp: stmt_def Let_def in_scope_def change_defs split: option.split
        intro!: table_step_append table_step_update dest!: one)
next
  case (DeleteWorkflow c i)
  then show ?thesis
    by (simp add: db_exec_def delete_workflow_def stmt_def Let_def cascade_in_scope split: option.split)
next
  case (DeleteWorkflowForOwner c i ow)
  then show ?thesis
    by (simp add: db_exec_def delete_workflow_for_owner_def stmt_def Let_def cascade_in_scope split: option.split)
next
  case (PruneFires t)
  then show ?thesis
    by (auto simp: db_exec_def prune_scheduled_workflow_fires_before_def stmt_def in_scope_def fire_gone_def
        split: option.split intro!: table_step_filter)
qed (auto simp: db_exec_def db_ops_def stmt_def Let_def in_scope_def change_defs split: option.split
    intro!: table_step_append table_step_update)


section \<open>Decisions and claims\<close>

definition pending_rows :: "uuid \<times> bytes \<Rightarrow> WfDb \<Rightarrow> nat" where
  "pending_rows k db = length (filter (\<lambda>a. ap_key a = k \<and> ap_status a = Pending) (t_approvals db))"

definition requests_approval :: "wf_env \<Rightarrow> uuid \<times> bytes \<Rightarrow> WfDb \<times> nat \<times> db_op \<Rightarrow> bool" where
  "requests_approval E k q =
     (case q of (db, n, x) \<Rightarrow>
        (case x of CreateApproval p \<Rightarrow>
           (cp_community_id p, hash_approval_token E (cp_token p)) = k \<and> is_ok (fst (create_approval E n p db))
         | _ \<Rightarrow> False))"

definition decides_approval :: "wf_env \<Rightarrow> uuid \<times> bytes \<Rightarrow> WfDb \<times> nat \<times> db_op \<Rightarrow> bool" where
  "decides_approval E k q =
     (case q of (db, n, x) \<Rightarrow>
        (case x of UpdateApproval c t st who note \<Rightarrow>
           (c, t) = k \<and> st \<noteq> Pending \<and> fst (update_approval_by_stored_hash E n c t st who note db) = Ok True
         | _ \<Rightarrow> False))"

definition fire_claimed :: "uuid \<times> uuid \<times> instant \<Rightarrow> WfDb \<Rightarrow> bool" where
  "fire_claimed k db \<longleftrightarrow> k \<in> fire_key ` set (t_fires db)"

definition wins_fire :: "wf_env \<Rightarrow> uuid \<times> uuid \<times> instant \<Rightarrow> WfDb \<times> nat \<times> db_op \<Rightarrow> bool" where
  "wins_fire E k q =
     (case q of (db, n, x) \<Rightarrow>
        (case x of ClaimFire c w t \<Rightarrow>
           (c, w, t) = k \<and> (case fst (claim_scheduled_workflow_fire E n c w t db) of Inr (Some _) \<Rightarrow> True | _ \<Rightarrow> False)
         | _ \<Rightarrow> False))"

text \<open>A claim disappears only by pruning or with its workflow.\<close>

definition drops_fire :: "wf_env \<Rightarrow> uuid \<times> uuid \<times> instant \<Rightarrow> WfDb \<times> nat \<times> db_op \<Rightarrow> bool" where
  "drops_fire E k q =
     (case q of (db, n, x) \<Rightarrow>
        (case x of PruneFires _ \<Rightarrow> True | DeleteWorkflow _ _ \<Rightarrow> True | DeleteWorkflowForOwner _ _ _ \<Rightarrow> True | _ \<Rightarrow> False)
        \<and> fire_claimed k db \<and> \<not> fire_claimed k (db_exec E n x db))"

lemma length_filter_mono: "(\<And>x. P x \<Longrightarrow> Q x) \<Longrightarrow> length (filter P xs) \<le> length (filter Q xs)"
  by (induction xs) auto

lemma pending_rows_cascade: "pending_rows k (cascade Q db) \<le> pending_rows k db"
  by (auto simp: pending_rows_def cascade_def Let_def intro!: length_filter_mono)

lemma pending_rows_update:
  "pending_rows k (snd (update_approval_by_stored_hash E n c t st who memo db)) \<le> pending_rows k db"
proof -
  have "length (filter (\<lambda>a. ap_key a = k \<and> ap_status a = Pending)
      (update_rows (\<lambda>a. ap_community_id a = c \<and> ap_token a = t \<and> ap_status a = Pending) f as))
    \<le> length (filter (\<lambda>a. ap_key a = k \<and> ap_status a = Pending) as)"
    if "\<And>a. ap_key (f a) = ap_key a" for f as
    using that by (induction as) (auto simp: update_rows_def)
  then show ?thesis
    by (simp add: update_approval_by_stored_hash_def stmt_def pending_rows_def Let_def split: option.split)
qed

lemma pending_rows_le: "\<forall>p. x \<noteq> CreateApproval p \<Longrightarrow> pending_rows k (db_exec E n x db) \<le> pending_rows k db"
proof (cases x)
  case (DeleteWorkflow c i)
  then show ?thesis
    by (simp add: db_exec_def delete_workflow_def stmt_def Let_def pending_rows_cascade split: option.split)
next
  case (DeleteWorkflowForOwner c i ow)
  then show ?thesis
    by (simp add: db_exec_def delete_workflow_for_owner_def stmt_def Let_def pending_rows_cascade split: option.split)
next
  case (UpdateApproval c t st who memo)
  then show ?thesis by (simp add: db_exec_def pending_rows_update)
qed (simp_all add: db_exec_def db_ops_def stmt_def Let_def pending_rows_def split: option.split)

lemma decided_pending_rows:
  assumes "decides_approval E k (db, n, x)"
  shows "pending_rows k (db_exec E n x db) = 0" "0 < pending_rows k db" "\<forall>p. x \<noteq> CreateApproval p"
proof -
  obtain c t st who memo where x: "x = UpdateApproval c t st who memo" "k = (c, t)" "st \<noteq> Pending"
    and yes: "fst (update_approval_by_stored_hash E n c t st who memo db) = Ok True"
    using assms by (auto simp: decides_approval_def split: db_op.splits)
  then have fault: "db_fault E n = None"
    by (auto simp: update_approval_by_stored_hash_def stmt_def split: option.splits)
  show "0 < pending_rows k db"
    using yes fault x by (simp add: update_approval_by_stored_hash_def stmt_def pending_rows_def Let_def)
  have none: "filter (\<lambda>a. ap_community_id a = c \<and> ap_token a = t \<and> ap_status a = Pending)
      (update_rows (\<lambda>a. ap_community_id a = c \<and> ap_token a = t \<and> ap_status a = Pending) f as) = []"
    if "\<And>a. ap_status (f a) = st" for f as
    using that x(3) by (auto simp: update_rows_def filter_empty_conv)
  show "pending_rows k (db_exec E n x db) = 0"
    using fault x
    by (simp add: db_exec_def update_approval_by_stored_hash_def stmt_def pending_rows_def Let_def) (rule none, simp)
  show "\<forall>p. x \<noteq> CreateApproval p" using x by simp
qed

lemma pending_rows_create:
  "pending_rows k (db_exec E n (CreateApproval p) db)
   \<le> pending_rows k db + (if requests_approval E k (db, n, CreateApproval p) then 1 else 0)"
  by (simp add: requests_approval_def db_exec_def create_approval_def stmt_def Let_def pending_rows_def split: option.split)

lemma pending_rows_step:
  "pending_rows k (db_exec E n x db) + (if decides_approval E k (db, n, x) then 1 else 0)
     \<le> pending_rows k db + (if requests_approval E k (db, n, x) then 1 else 0)"
proof (cases "\<exists>p. x = CreateApproval p")
  case True
  then obtain p where "x = CreateApproval p" by blast
  then show ?thesis
    using pending_rows_create [of k E n p db] decided_pending_rows(3) [of E k db n x] by auto
next
  case False
  then show ?thesis
    using pending_rows_le [of x k E n db] decided_pending_rows(1,2) [of E k db n x] by auto
qed

text \<open>
  C21. An approval is decided at most once. In any sequence of statements of the workflow store, by any pods and
  in any order, the decisions (grants and denials that reported success) for one approval key number at most the
  approval requests stored under that key, plus those already pending at the start: of two concurrent decisions
  of the same request only one succeeds, and a decided request cannot be decided again.
\<close>

theorem approval_decided_once:
  "length (filter (decides_approval E k) (db_states E xs db))
     \<le> length (filter (requests_approval E k) (db_states E xs db)) + pending_rows k db"
proof -
  have "length (filter (decides_approval E k) (db_states E xs db)) + pending_rows k (db_run E xs db)
     \<le> length (filter (requests_approval E k) (db_states E xs db)) + pending_rows k db"
  proof (induction xs arbitrary: db)
    case (Cons y xs)
    obtain n x where "y = (n, x)" by (cases y)
    then show ?case
      using Cons [of "db_exec E n x db"] pending_rows_step [of k E n x db] by (auto simp: db_run_def)
  qed (simp add: db_run_def)
  then show ?thesis by simp
qed

lemma fire_claimed_cascade: "fire_claimed k (cascade Q db) \<Longrightarrow> fire_claimed k db"
  by (auto simp: fire_claimed_def cascade_def Let_def)

lemma fire_keys_update:
  "fire_key ` set (update_rows P (\<lambda>f. f\<lparr>fr_workflow_run_id := r\<rparr>) fs) = fire_key ` set fs"
  by (rule update_rows_image) simp

lemma fire_claimed_step:
  "of_bool (fire_claimed k db) + of_bool (wins_fire E k (db, n, x))
     = of_bool (fire_claimed k (db_exec E n x db)) + (of_bool (drops_fire E k (db, n, x)) :: nat)"
proof (cases x)
  case (ClaimFire c w t)
  then show ?thesis
    by (auto simp: wins_fire_def drops_fire_def db_exec_def claim_scheduled_workflow_fire_def stmt_def Let_def
        fire_claimed_def split: option.split)
next
  case (AttachRun c w t r)
  then show ?thesis
    by (auto simp: wins_fire_def drops_fire_def db_exec_def attach_scheduled_workflow_run_def stmt_def Let_def
        fire_claimed_def fire_keys_update split: option.split)
next
  case (DeleteWorkflow c i)
  then show ?thesis
    by (auto simp: wins_fire_def drops_fire_def db_exec_def delete_workflow_def stmt_def Let_def
        split: option.split dest: fire_claimed_cascade)
next
  case (DeleteWorkflowForOwner c i ow)
  then show ?thesis
    by (auto simp: wins_fire_def drops_fire_def db_exec_def delete_workflow_for_owner_def stmt_def Let_def
        split: option.split dest: fire_claimed_cascade)
next
  case (PruneFires t)
  then show ?thesis
    by (auto simp: wins_fire_def drops_fire_def db_exec_def prune_scheduled_workflow_fires_before_def stmt_def Let_def
        fire_claimed_def split: option.split)
qed (simp_all add: wins_fire_def drops_fire_def db_exec_def db_ops_def stmt_def Let_def fire_claimed_def split: option.split)

text \<open>
  A scheduled instant fires at most once. In any sequence of statements, by any pods and in any order, the
  claims won for one \<open>(community, workflow, instant)\<close> number at most one more than the times its claim row was
  removed, by retention pruning or with its workflow: while the row stays, every other pod and every restarted pod
  loses.
\<close>

theorem scheduled_fire_claimed_once:
  "length (filter (wins_fire E k) (db_states E xs db)) \<le> length (filter (drops_fire E k) (db_states E xs db)) + 1"
proof -
  have "of_bool (fire_claimed k db) + length (filter (wins_fire E k) (db_states E xs db))
      = of_bool (fire_claimed k (db_run E xs db)) + length (filter (drops_fire E k) (db_states E xs db))"
  proof (induction xs arbitrary: db)
    case (Cons y xs)
    obtain n x where "y = (n, x)" by (cases y)
    then show ?case
      using Cons [of "db_exec E n x db"] fire_claimed_step [of k db E n x] by (auto simp: db_run_def)
  qed (simp add: db_run_def)
  moreover have "of_bool (fire_claimed k (db_run E xs db)) \<le> (1::nat)" by simp
  ultimately show ?thesis by linarith
qed

end
