(* ===== verification/Network.thy ===== *)
theory Network
  imports Prelude
begin

text \<open>
  \<^verbatim>\<open>crates/lenos-core/src/network.rs\<close>: the addresses an outgoing request must not reach. An address is
  its four octets or its eight segments; \<open>std::net\<close>'s predicates are written out.
\<close>

unbundle bit_operations_syntax

datatype IpAddr = V4 u8 u8 u8 u8 | V6 u16 u16 u16 u16 u16 u16 u16 u16

definition is_loopback_v4 :: "u8 \<Rightarrow> bool" where
  "is_loopback_v4 a = (a = 127)"

definition is_private_v4 :: "u8 \<Rightarrow> u8 \<Rightarrow> bool" where
  "is_private_v4 a b = (a = 10 \<or> a = 172 \<and> 16 \<le> b \<and> b \<le> 31 \<or> a = 192 \<and> b = 168)"

definition is_link_local_v4 :: "u8 \<Rightarrow> u8 \<Rightarrow> bool" where
  "is_link_local_v4 a b = (a = 169 \<and> b = 254)"

definition is_broadcast_v4 :: "u8 \<Rightarrow> u8 \<Rightarrow> u8 \<Rightarrow> u8 \<Rightarrow> bool" where
  "is_broadcast_v4 a b c d = (a = 255 \<and> b = 255 \<and> c = 255 \<and> d = 255)"

definition is_private_ip4 :: "u8 \<Rightarrow> u8 \<Rightarrow> u8 \<Rightarrow> u8 \<Rightarrow> bool" where
  "is_private_ip4 a b c d =
     (is_loopback_v4 a \<or> is_private_v4 a b \<or> is_link_local_v4 a b \<or> a = 0 \<or> is_broadcast_v4 a b c d
      \<or> a = 100 \<and> b AND 0xC0 = 64 \<or> a = 198 \<and> b AND 0xFE = 18)"

definition seg_octets :: "u16 \<Rightarrow> u8 list" where
  "seg_octets s = [ucast (drop_bit 8 s), ucast s]"

definition octets_v6 :: "u16 list \<Rightarrow> u8 list" where
  "octets_v6 ss = concat (map seg_octets ss)"

definition NAT64_WELL_KNOWN_PREFIX :: "u8 list" where
  "NAT64_WELL_KNOWN_PREFIX = [0, 0x64, 0xff, 0x9b, 0, 0, 0, 0, 0, 0, 0, 0]"

definition IPV4_TRANSLATED_PREFIX :: "u8 list" where
  "IPV4_TRANSLATED_PREFIX = [0, 0, 0, 0, 0, 0, 0, 0, 0xff, 0xff, 0, 0]"

definition embedded_ipv4 :: "u16 list \<Rightarrow> u8 list \<Rightarrow> (u8 \<times> u8 \<times> u8 \<times> u8) option" where
  "embedded_ipv4 ss pre =
     (let octets = octets_v6 ss
      in if prefix pre octets then Some (octets ! 12, octets ! 13, octets ! 14, octets ! 15) else None)"

text \<open>\<open>Ipv6Addr::to_ipv4\<close>: the compatible (\<open>::a.b.c.d\<close>) and mapped (\<open>::ffff:a.b.c.d\<close>) forms.\<close>

definition to_ipv4 :: "u16 list \<Rightarrow> (u8 \<times> u8 \<times> u8 \<times> u8) option" where
  "to_ipv4 ss =
     (if take 5 ss = [0, 0, 0, 0, 0] \<and> (ss ! 5 = 0 \<or> ss ! 5 = 0xffff)
      then (let octets = octets_v6 ss in Some (octets ! 12, octets ! 13, octets ! 14, octets ! 15)) else None)"

fun is_private_ip :: "IpAddr \<Rightarrow> bool" where
  "is_private_ip (V4 a b c d) = is_private_ip4 a b c d"
| "is_private_ip (V6 s0 s1 s2 s3 s4 s5 s6 s7) =
     (let ss = [s0, s1, s2, s3, s4, s5, s6, s7]
      in case to_ipv4 ss of
           Some (a, b, c, d) \<Rightarrow> is_private_ip4 a b c d
         | None \<Rightarrow>
             (case embedded_ipv4 ss NAT64_WELL_KNOWN_PREFIX of
                Some (a, b, c, d) \<Rightarrow> is_private_ip4 a b c d
              | None \<Rightarrow>
                  (case embedded_ipv4 ss IPV4_TRANSLATED_PREFIX of
                     Some (a, b, c, d) \<Rightarrow> is_private_ip4 a b c d
                   | None \<Rightarrow>
                       ss = [0, 0, 0, 0, 0, 0, 0, 1] \<or> ss = [0, 0, 0, 0, 0, 0, 0, 0]
                       \<or> s0 AND 0xfe00 = 0xfc00 \<or> s0 AND 0xffc0 = 0xfe80 \<or> s0 AND 0xff00 = 0xff00
                       \<or> s0 = 0x0064 \<and> s1 = 0xff9b \<and> s2 = 1
                       \<or> s0 = 0x2001 \<and> s1 = 0 \<or> s0 = 0x2002 \<or> s0 = 0x2001 \<and> s1 = 0x0db8)))"

section \<open>Ranges\<close>

text \<open>Addresses as numbers, and a range as the numbers with the same first bits.\<close>

definition num_of :: "nat \<Rightarrow> nat list \<Rightarrow> nat" where
  "num_of base ds = foldl (\<lambda>n d. n * base + d) 0 ds"

definition in_cidr :: "nat \<Rightarrow> nat \<times> nat \<Rightarrow> nat \<Rightarrow> bool" where
  "in_cidr bits cidr n = (case cidr of (net, len) \<Rightarrow> n div 2 ^ (bits - len) = net div 2 ^ (bits - len))"

definition v4_num :: "u8 \<Rightarrow> u8 \<Rightarrow> u8 \<Rightarrow> u8 \<Rightarrow> nat" where
  "v4_num a b c d = num_of 256 [unat a, unat b, unat c, unat d]"

definition v6_num :: "u16 list \<Rightarrow> nat" where
  "v6_num ss = num_of 65536 (map unat ss)"

definition v4_ranges :: "(nat \<times> nat) list" where
  "v4_ranges = map (\<lambda>(a, len). (num_of 256 a, len))
     [([127, 0, 0, 0], 8), ([10, 0, 0, 0], 8), ([172, 16, 0, 0], 12), ([192, 168, 0, 0], 16),
      ([169, 254, 0, 0], 16), ([0, 0, 0, 0], 8), ([255, 255, 255, 255], 32), ([100, 64, 0, 0], 10),
      ([198, 18, 0, 0], 15)]"

definition v6_ranges :: "(nat \<times> nat) list" where
  "v6_ranges = map (\<lambda>(a, len). (num_of 65536 a, len))
     [([0, 0, 0, 0, 0, 0, 0, 1], 128), ([0, 0, 0, 0, 0, 0, 0, 0], 128), ([0xfc00, 0, 0, 0, 0, 0, 0, 0], 7),
      ([0xfe80, 0, 0, 0, 0, 0, 0, 0], 10), ([0xff00, 0, 0, 0, 0, 0, 0, 0], 8),
      ([0x2001, 0x0db8, 0, 0, 0, 0, 0, 0], 32), ([0x64, 0xff9b, 1, 0, 0, 0, 0, 0], 48),
      ([0x2001, 0, 0, 0, 0, 0, 0, 0], 32), ([0x2002, 0, 0, 0, 0, 0, 0, 0], 16)]"

text \<open>The ranges whose last 32 bits are an IPv4 address: compatible, mapped, translated, NAT64.\<close>

definition v6_embeddings :: "(nat \<times> nat) list" where
  "v6_embeddings = map (\<lambda>(a, len). (num_of 65536 a, len))
     [([0, 0, 0, 0, 0, 0, 0, 0], 96), ([0, 0, 0, 0, 0, 0xffff, 0, 0], 96), ([0, 0, 0, 0, 0xffff, 0, 0, 0], 96),
      ([0x64, 0xff9b, 0, 0, 0, 0, 0, 0], 96)]"


lemma unat_and_not_mask: "unat (s AND NOT (mask n)) = unat s div 2 ^ n * 2 ^ n" for s :: "'a::len word"
  by (rule bit_eqI) (auto simp: bit_unsigned_iff bit_simps bit_push_bit_iff bit_drop_bit_eq not_less
        simp flip: drop_bit_eq_div push_bit_eq_mult dest: bit_imp_le_length)

lemma and_mask_iff:
  fixes s :: "'a::len word"
  assumes "m = NOT (mask n)" "unat c = k * 2 ^ n"
  shows "s AND m = c \<longleftrightarrow> unat s div 2 ^ n = k"
  unfolding assms(1) word_unat_eq_iff using assms(2) by (simp add: unat_and_not_mask)

lemma mask_c0: "b AND 0xC0 = 64 \<longleftrightarrow> unat b div 64 = 1" for b :: u8
  using and_mask_iff [of "0xC0 :: u8" 6 64 1 b] by (simp add: mask_eq_exp_minus_1)

lemma mask_fe: "b AND 0xFE = 18 \<longleftrightarrow> unat b div 2 = 9" for b :: u8
  using and_mask_iff [of "0xFE :: u8" 1 18 9 b] by (simp add: mask_eq_exp_minus_1)

lemma mask_fe00: "s AND 0xfe00 = 0xfc00 \<longleftrightarrow> unat s div 512 = 126" for s :: u16
  using and_mask_iff [of "0xfe00 :: u16" 9 "0xfc00" 126 s] by (simp add: mask_eq_exp_minus_1)

lemma mask_ffc0: "s AND 0xffc0 = 0xfe80 \<longleftrightarrow> unat s div 64 = 1018" for s :: u16
  using and_mask_iff [of "0xffc0 :: u16" 6 "0xfe80" 1018 s] by (simp add: mask_eq_exp_minus_1)

lemma mask_ff00: "s AND 0xff00 = 0xff00 \<longleftrightarrow> unat s div 256 = 255" for s :: u16
  using and_mask_iff [of "0xff00 :: u16" 8 "0xff00" 255 s] by (simp add: mask_eq_exp_minus_1)

lemma num_of_snoc [simp]: "num_of b (ds @ [d]) = num_of b ds * b + d"
  by (simp add: num_of_def)

lemma num_of_append: "num_of b (ds @ es) = num_of b ds * b ^ length es + num_of b es"
proof (induction es rule: rev_induct)
  case (snoc e es)
  have "num_of b (ds @ es @ [e]) = num_of b (ds @ es) * b + e"
    using num_of_snoc [of b "ds @ es" e] by simp
  then show ?case by (simp add: snoc algebra_simps)
qed (simp add: num_of_def)

lemma num_of_less: "\<forall>d\<in>set ds. d < b \<Longrightarrow> num_of b ds < b ^ length ds"
proof (induction ds rule: rev_induct)
  case (snoc d ds)
  then have "num_of b ds * b + d < (num_of b ds + 1) * b" by simp
  also have "\<dots> \<le> b ^ length ds * b"
    using snoc by (intro mult_right_mono) auto
  finally show ?case by (simp add: mult.commute)
qed (simp add: num_of_def)

lemma num_of_div: "\<forall>e\<in>set es. e < b \<Longrightarrow> num_of b (ds @ es) div b ^ length es = num_of b ds"
  using num_of_less [of es b] by (cases "b = 0") (auto simp: num_of_append)

lemma num_of_inj:
  "length ds = length es \<Longrightarrow> \<forall>d\<in>set ds. d < b \<Longrightarrow> \<forall>e\<in>set es. e < b \<Longrightarrow> num_of b ds = num_of b es \<longleftrightarrow> ds = es"
proof (induction ds arbitrary: es rule: rev_induct)
  case (snoc d ds)
  then obtain es' e where es: "es = es' @ [e]" by (cases es rule: rev_exhaust) auto
  have "num_of b ds * b + d = num_of b es' * b + e \<longleftrightarrow> num_of b ds = num_of b es' \<and> d = e"
  proof
    assume "num_of b ds * b + d = num_of b es' * b + e"
    then have "(num_of b ds * b + d) div b = (num_of b es' * b + e) div b"
      "(num_of b ds * b + d) mod b = (num_of b es' * b + e) mod b" by simp_all
    then show "num_of b ds = num_of b es' \<and> d = e" using snoc.prems es by auto
  qed simp
  then show ?case using snoc es by simp
qed simp


text \<open>A range of \<open>w * k + j\<close> bits fixes the first \<open>k\<close> digits and the upper \<open>j\<close> bits of the next.\<close>

lemma in_cidr_digits:
  assumes "length ds = l" "length cs = l" "k < l" "j \<le> w"
    and "\<forall>d\<in>set ds. d < 2 ^ w" "\<forall>d\<in>set cs. d < 2 ^ w"
  shows "in_cidr (w * l) (num_of (2 ^ w) cs, w * k + j) (num_of (2 ^ w) ds) \<longleftrightarrow>
    take k ds = take k cs \<and> ds ! k div 2 ^ (w - j) = cs ! k div 2 ^ (w - j)"
proof -
  have bits: "w * l - (w * k + j) = w * (l - Suc k) + (w - j)"
    using assms(3,4) by (auto simp: algebra_simps diff_mult_distrib2 dest!: less_imp_Suc_add)
  have top: "num_of (2 ^ w) xs div 2 ^ (w * l - (w * k + j)) =
      num_of (2 ^ w) (take k xs) * 2 ^ j + xs ! k div 2 ^ (w - j)"
    if xs: "length xs = l" "\<forall>d\<in>set xs. d < 2 ^ w" for xs
  proof -
    have split: "(take k xs @ [xs ! k]) @ drop (Suc k) xs = xs"
      using xs assms(3) by (simp add: id_take_nth_drop [symmetric])
    have "num_of (2 ^ w) xs div (2 ^ w) ^ (l - Suc k) = num_of (2 ^ w) (take k xs @ [xs ! k])"
      using num_of_div [of "drop (Suc k) xs" "2 ^ w" "take k xs @ [xs ! k]"] split xs
      by (auto dest: in_set_dropD)
    moreover have "(n * 2 ^ w + x) div 2 ^ (w - j) = n * 2 ^ j + x div 2 ^ (w - j)" for n x :: nat
    proof -
      have "n * 2 ^ w = (n * 2 ^ j) * 2 ^ (w - j)"
        using assms(4) by (simp flip: power_add)
      then show ?thesis by (simp only: div_mult_self3) simp
    qed
    ultimately show ?thesis
      by (simp add: bits power_add power_mult div_mult2_eq)
  qed
  have digit: "xs ! k div 2 ^ (w - j) < 2 ^ j" if "length xs = l" "\<forall>d\<in>set xs. d < 2 ^ w" for xs :: "nat list"
    using that assms(3,4) by (simp add: less_mult_imp_div_less flip: power_add)
  have "a * 2 ^ j + x = b * 2 ^ j + y \<longleftrightarrow> a = b \<and> x = y" if "x < 2 ^ j" "y < 2 ^ j" for a b x y :: nat
    using num_of_inj [of "[a, x]" "[b, y]" "2 ^ j"] that
    by (metis add.commute div_mult_self3 mod_mult_self2 div_less mod_less add_0 mult.commute power_not_zero zero_neq_numeral)
  moreover have "num_of (2 ^ w) (take k ds) = num_of (2 ^ w) (take k cs) \<longleftrightarrow> take k ds = take k cs"
    using assms by (intro num_of_inj) (auto dest: in_set_takeD)
  ultimately show ?thesis
    using top [of ds] top [of cs] digit [of ds] digit [of cs] assms by (simp add: in_cidr_def)
qed


lemma unat_u8_less: "unat (a :: u8) < 256" and unat_u16_less: "unat (s :: u16) < 65536"
  using unsigned_less [of a, where 'a = nat] unsigned_less [of s, where 'a = nat] by simp_all

lemma in_cidr_v4:
  assumes "k < 4" "j \<le> 8" "length cs = 4" "\<forall>c\<in>set cs. c < 256"
  shows "in_cidr 32 (num_of 256 cs, 8 * k + j) (v4_num a b c d) \<longleftrightarrow>
    take k (map unat [a, b, c, d]) = take k cs \<and> map unat [a, b, c, d] ! k div 2 ^ (8 - j) = cs ! k div 2 ^ (8 - j)"
  using in_cidr_digits [of "map unat [a, b, c, d]" 4 cs k j 8] assms by (simp add: v4_num_def unat_u8_less)

lemma in_cidr_v6:
  assumes "k < 8" "j \<le> 16" "length cs = 8" "\<forall>c\<in>set cs. c < 65536" "length ss = 8"
  shows "in_cidr 128 (num_of 65536 cs, 16 * k + j) (v6_num ss) \<longleftrightarrow>
    take k (map unat ss) = take k cs \<and> map unat ss ! k div 2 ^ (16 - j) = cs ! k div 2 ^ (16 - j)"
  using in_cidr_digits [of "map unat ss" 8 cs k j 16] assms by (auto simp: v6_num_def unat_u16_less)

lemma is_private_ip4_ranges: "is_private_ip4 a b c d \<longleftrightarrow> (\<exists>r\<in>set v4_ranges. in_cidr 32 r (v4_num a b c d))"
proof -
  have "16 \<le> b \<and> b \<le> 31 \<longleftrightarrow> unat b div 16 = 1"
    by (auto simp: word_le_nat_alt)
  then show ?thesis
    using in_cidr_v4 [of 0 8 "[127, 0, 0, 0]" a b c d] in_cidr_v4 [of 0 8 "[10, 0, 0, 0]" a b c d]
      in_cidr_v4 [of 1 4 "[172, 16, 0, 0]" a b c d] in_cidr_v4 [of 1 8 "[192, 168, 0, 0]" a b c d]
      in_cidr_v4 [of 1 8 "[169, 254, 0, 0]" a b c d] in_cidr_v4 [of 0 8 "[0, 0, 0, 0]" a b c d]
      in_cidr_v4 [of 3 8 "[255, 255, 255, 255]" a b c d] in_cidr_v4 [of 1 2 "[100, 64, 0, 0]" a b c d]
      in_cidr_v4 [of 1 7 "[198, 18, 0, 0]" a b c d]
    unfolding is_private_ip4_def is_loopback_v4_def is_private_v4_def is_link_local_v4_def is_broadcast_v4_def
      mask_c0 mask_fe
    by (simp add: v4_ranges_def word_unat_eq_iff)
qed

lemma seg_octets_unat: "unat (ucast (drop_bit 8 s) :: u8) * 256 + unat (ucast s :: u8) = unat s" for s :: u16
proof -
  have "unat (ucast s :: u8) = unat s mod 256"
    by (simp add: unsigned_ucast_eq take_bit_eq_mod)
  moreover have "unat (ucast (drop_bit 8 s) :: u8) = unat s div 256"
    using unat_u16_less [of s] by (simp add: unsigned_ucast_eq take_bit_eq_mod drop_bit_eq_div unat_div)
  ultimately show ?thesis by simp
qed

lemma seg_octets_iff: "seg_octets s = [x, y] \<longleftrightarrow> unat s = unat x * 256 + unat y"
proof -
  have "(h :: nat) * 256 + l = h' * 256 + l' \<longleftrightarrow> h = h' \<and> l = l'" if "l < 256" "l' < 256" for h l h' l'
    using num_of_inj [of "[h, l]" "[h', l']"] that by (auto simp: num_of_def dest: arg_cong [where f = "\<lambda>x. x mod 256"] arg_cong [where f = "\<lambda>x. x div 256"])
  then show ?thesis
    by (simp add: seg_octets_def word_unat_eq_iff seg_octets_unat [of s, symmetric] unat_u8_less)
qed


definition blocked_v4 :: "nat \<Rightarrow> bool" where
  "blocked_v4 n = (\<exists>r\<in>set v4_ranges. in_cidr 32 r n)"

definition blocked_v6 :: "nat \<Rightarrow> bool" where
  "blocked_v6 n =
     ((\<exists>r\<in>set v6_ranges. in_cidr 128 r n)
      \<or> (\<exists>r\<in>set v6_embeddings. in_cidr 128 r n) \<and> blocked_v4 (n mod 2 ^ 32))"

lemma octets_last:
  "v4_num (ucast (drop_bit 8 s6)) (ucast s6) (ucast (drop_bit 8 s7)) (ucast s7) =
   v6_num [s0, s1, s2, s3, s4, s5, s6, s7] mod 2 ^ 32"
proof -
  have "v4_num (ucast (drop_bit 8 s6)) (ucast s6) (ucast (drop_bit 8 s7)) (ucast s7) = unat s6 * 65536 + unat s7"
    using seg_octets_unat [of s6] seg_octets_unat [of s7] by (simp add: v4_num_def num_of_def)
  moreover have "v6_num [s0, s1, s2, s3, s4, s5, s6, s7] =
      v6_num [s0, s1, s2, s3, s4, s5] * 2 ^ 32 + (unat s6 * 65536 + unat s7)"
    by (simp add: v6_num_def num_of_def)
  moreover have "unat s6 * 65536 + unat s7 < 2 ^ 32"
    using unat_u16_less [of s6] unat_u16_less [of s7] by simp
  ultimately show ?thesis by simp
qed

lemma embedding_cidr:
  assumes "length cs = 8" "\<forall>c\<in>set cs. c < 65536" "length ss = 8"
  shows "in_cidr 128 (num_of 65536 cs, 96) (v6_num ss) \<longleftrightarrow> take 6 (map unat ss) = take 6 cs"
proof -
  have "take 6 xs = take 5 xs @ [xs ! 5]" if "length xs = 8" for xs :: "nat list"
    using that take_Suc_conv_app_nth [of 5 xs] by simp
  then show ?thesis
    using in_cidr_v6 [of 5 16 cs ss] assms by simp
qed

lemma embedded_ipv4_iff:
  assumes "ps = concat (map (\<lambda>c. [of_nat (c div 256), of_nat (c mod 256)]) cs)" "length cs = 6" "\<forall>c\<in>set cs. c < 65536"
  shows "prefix ps (octets_v6 [s0, s1, s2, s3, s4, s5, s6, s7]) \<longleftrightarrow> map unat [s0, s1, s2, s3, s4, s5] = cs"
proof -
  have seg: "[of_nat (c div 256), of_nat (c mod 256)] = seg_octets s \<longleftrightarrow> unat s = c" if "c < 65536" for c s
    unfolding eq_commute [of _ "seg_octets s"] using that by (simp add: seg_octets_iff unsigned_of_nat take_bit_eq_mod)
  obtain c0 c1 c2 c3 c4 c5 where cs: "cs = [c0, c1, c2, c3, c4, c5]"
    using assms(2) by (auto simp: numeral_eq_Suc length_Suc_conv)
  show ?thesis
    using assms(3) seg [of c0 s0] seg [of c1 s1] seg [of c2 s2] seg [of c3 s3] seg [of c4 s4] seg [of c5 s5]
    unfolding assms(1) cs octets_v6_def seg_octets_def by simp blast
qed


lemma v6_ranges_iff:
  "(\<exists>r\<in>set v6_ranges. in_cidr 128 r (v6_num [s0, s1, s2, s3, s4, s5, s6, s7])) \<longleftrightarrow>
     [s0, s1, s2, s3, s4, s5, s6, s7] = [0, 0, 0, 0, 0, 0, 0, 1] \<or> [s0, s1, s2, s3, s4, s5, s6, s7] = [0, 0, 0, 0, 0, 0, 0, 0]
     \<or> s0 AND 0xfe00 = 0xfc00 \<or> s0 AND 0xffc0 = 0xfe80 \<or> s0 AND 0xff00 = 0xff00
     \<or> s0 = 0x0064 \<and> s1 = 0xff9b \<and> s2 = 1
     \<or> s0 = 0x2001 \<and> s1 = 0 \<or> s0 = 0x2002 \<or> s0 = 0x2001 \<and> s1 = 0x0db8"
  using in_cidr_v6 [of 7 16 "[0, 0, 0, 0, 0, 0, 0, 1]" "[s0, s1, s2, s3, s4, s5, s6, s7]"]
    in_cidr_v6 [of 7 16 "[0, 0, 0, 0, 0, 0, 0, 0]" "[s0, s1, s2, s3, s4, s5, s6, s7]"]
    in_cidr_v6 [of 0 7 "[0xfc00, 0, 0, 0, 0, 0, 0, 0]" "[s0, s1, s2, s3, s4, s5, s6, s7]"]
    in_cidr_v6 [of 0 10 "[0xfe80, 0, 0, 0, 0, 0, 0, 0]" "[s0, s1, s2, s3, s4, s5, s6, s7]"]
    in_cidr_v6 [of 0 8 "[0xff00, 0, 0, 0, 0, 0, 0, 0]" "[s0, s1, s2, s3, s4, s5, s6, s7]"]
    in_cidr_v6 [of 1 16 "[0x2001, 0x0db8, 0, 0, 0, 0, 0, 0]" "[s0, s1, s2, s3, s4, s5, s6, s7]"]
    in_cidr_v6 [of 2 16 "[0x64, 0xff9b, 1, 0, 0, 0, 0, 0]" "[s0, s1, s2, s3, s4, s5, s6, s7]"]
    in_cidr_v6 [of 1 16 "[0x2001, 0, 0, 0, 0, 0, 0, 0]" "[s0, s1, s2, s3, s4, s5, s6, s7]"]
    in_cidr_v6 [of 0 16 "[0x2002, 0, 0, 0, 0, 0, 0, 0]" "[s0, s1, s2, s3, s4, s5, s6, s7]"]
  unfolding mask_fe00 mask_ffc0 mask_ff00 v6_ranges_def by (simp add: word_unat_eq_iff) blast

lemma v6_embeddings_iff:
  "(\<exists>r\<in>set v6_embeddings. in_cidr 128 r (v6_num [s0, s1, s2, s3, s4, s5, s6, s7])) \<longleftrightarrow>
     take 5 [s0, s1, s2, s3, s4, s5, s6, s7] = [0, 0, 0, 0, 0] \<and> (s5 = 0 \<or> s5 = 0xffff)
     \<or> map unat [s0, s1, s2, s3, s4, s5] = [0x64, 0xff9b, 0, 0, 0, 0]
     \<or> map unat [s0, s1, s2, s3, s4, s5] = [0, 0, 0, 0, 0xffff, 0]"
  using embedding_cidr [of "[0, 0, 0, 0, 0, 0, 0, 0]" "[s0, s1, s2, s3, s4, s5, s6, s7]"]
    embedding_cidr [of "[0, 0, 0, 0, 0, 0xffff, 0, 0]" "[s0, s1, s2, s3, s4, s5, s6, s7]"]
    embedding_cidr [of "[0, 0, 0, 0, 0xffff, 0, 0, 0]" "[s0, s1, s2, s3, s4, s5, s6, s7]"]
    embedding_cidr [of "[0x64, 0xff9b, 0, 0, 0, 0, 0, 0]" "[s0, s1, s2, s3, s4, s5, s6, s7]"]
  by (simp add: v6_embeddings_def word_unat_eq_iff) blast

lemma embedded_known:
  "prefix NAT64_WELL_KNOWN_PREFIX (octets_v6 [s0, s1, s2, s3, s4, s5, s6, s7]) \<longleftrightarrow>
     map unat [s0, s1, s2, s3, s4, s5] = [0x64, 0xff9b, 0, 0, 0, 0]"
  "prefix IPV4_TRANSLATED_PREFIX (octets_v6 [s0, s1, s2, s3, s4, s5, s6, s7]) \<longleftrightarrow>
     map unat [s0, s1, s2, s3, s4, s5] = [0, 0, 0, 0, 0xffff, 0]"
  by (rule embedded_ipv4_iff; simp add: NAT64_WELL_KNOWN_PREFIX_def IPV4_TRANSLATED_PREFIX_def)+


definition ip_blocked :: "IpAddr \<Rightarrow> bool" where
  "ip_blocked ip =
     (case ip of
        V4 a b c d \<Rightarrow> blocked_v4 (v4_num a b c d)
      | V6 s0 s1 s2 s3 s4 s5 s6 s7 \<Rightarrow> blocked_v6 (v6_num [s0, s1, s2, s3, s4, s5, s6, s7]))"

lemma is_private_ip4_last:
  "is_private_ip4 (octets_v6 [s0, s1, s2, s3, s4, s5, s6, s7] ! 12) (octets_v6 [s0, s1, s2, s3, s4, s5, s6, s7] ! 13)
     (octets_v6 [s0, s1, s2, s3, s4, s5, s6, s7] ! 14) (octets_v6 [s0, s1, s2, s3, s4, s5, s6, s7] ! 15) \<longleftrightarrow>
   blocked_v4 (v6_num [s0, s1, s2, s3, s4, s5, s6, s7] mod 2 ^ 32)"
  unfolding blocked_v4_def octets_last [of s6 s7 s0 s1 s2 s3 s4 s5, symmetric] is_private_ip4_ranges [symmetric]
  by (simp add: octets_v6_def seg_octets_def)

lemma zero_page_blocked: "n < 2 ^ 24 \<Longrightarrow> blocked_v4 n"
  by (simp add: blocked_v4_def v4_ranges_def in_cidr_def num_of_def)

lemma is_private_ip_v6:
  fixes s0 s1 s2 s3 s4 s5 s6 s7
  defines "ss \<equiv> [s0, s1, s2, s3, s4, s5, s6, s7]"
  shows "is_private_ip (V6 s0 s1 s2 s3 s4 s5 s6 s7) =
    (if \<exists>r\<in>set v6_embeddings. in_cidr 128 r (v6_num ss) then blocked_v4 (v6_num ss mod 2 ^ 32)
     else \<exists>r\<in>set v6_ranges. in_cidr 128 r (v6_num ss))"
proof -
  have last: "is_private_ip4 (octets_v6 ss ! 12) (octets_v6 ss ! 13) (octets_v6 ss ! 14) (octets_v6 ss ! 15) =
      blocked_v4 (v6_num ss mod 2 ^ 32)"
    unfolding ss_def by (rule is_private_ip4_last)
  have emb: "(\<exists>r\<in>set v6_embeddings. in_cidr 128 r (v6_num ss)) \<longleftrightarrow>
      (take 5 ss = [0, 0, 0, 0, 0] \<and> (ss ! 5 = 0 \<or> ss ! 5 = 0xffff)) \<or> prefix NAT64_WELL_KNOWN_PREFIX (octets_v6 ss)
      \<or> prefix IPV4_TRANSLATED_PREFIX (octets_v6 ss)"
    unfolding ss_def v6_embeddings_iff embedded_known by simp
  show ?thesis
    unfolding is_private_ip.simps Let_def ss_def [symmetric] to_ipv4_def embedded_ipv4_def emb
      v6_ranges_iff [of s0 s1 s2 s3 s4 s5 s6 s7, folded ss_def]
    by (simp only: last option.case prod.case split: if_split) (simp, blast)
qed

lemma is_private_ip_blocked: "is_private_ip ip = ip_blocked ip"
proof (cases ip)
  case (V4 a b c d)
  then show ?thesis by (simp add: ip_blocked_def blocked_v4_def is_private_ip4_ranges)
next
  case (V6 s0 s1 s2 s3 s4 s5 s6 s7)
  let ?ss = "[s0, s1, s2, s3, s4, s5, s6, s7]"
  show ?thesis
  proof (cases "\<exists>r\<in>set v6_embeddings. in_cidr 128 r (v6_num ?ss)")
    case True
    have "blocked_v4 (v6_num ?ss mod 2 ^ 32)" if "\<exists>r\<in>set v6_ranges. in_cidr 128 r (v6_num ?ss)"
    proof -
      have "?ss = [0, 0, 0, 0, 0, 0, 0, 1] \<or> ?ss = [0, 0, 0, 0, 0, 0, 0, 0]"
      proof -
        have "s0 = 0 \<or> s0 = 0x64 \<and> s2 = 0"
          using True unfolding v6_embeddings_iff by (auto simp: word_unat_eq_iff)
        then show ?thesis
          using that unfolding v6_ranges_iff by (elim disjE conjE) simp_all
      qed
      then have "v6_num ?ss < 2 ^ 24" by (elim disjE) (simp_all add: v6_num_def num_of_def)
      then show ?thesis by (simp add: zero_page_blocked)
    qed
    with True show ?thesis
      unfolding V6 is_private_ip_v6 ip_blocked_def blocked_v6_def IpAddr.case by (simp only: if_True) blast
  next
    case False
    then show ?thesis
      unfolding V6 is_private_ip_v6 by (simp add: ip_blocked_def blocked_v6_def)
  qed
qed

text \<open>
  C19. The address check that guards outgoing requests is the documented list of ranges: written as the sequence
  of octet tests, segment masks and embedded-address recursions of the source, it accepts exactly the addresses
  whose number lies in one of the CIDR blocks of its documentation, or in one of the four \<open>/96\<close> blocks that
  embed an IPv4 address (compatible, mapped, translated, NAT64) with the embedded address itself in a block.
\<close>

theorem private_ip_ranges: "is_private_ip = ip_blocked"
  by (rule ext) (rule is_private_ip_blocked)

end
