(* ===== verification/WorkflowRun.thy ===== *)
theory WorkflowRun
  imports WorkflowDb Network
begin

text \<open>
  The stateful half of \<^verbatim>\<open>crates/lenos-workflow/src/executor.rs\<close> (actions, their outgoing calls, the loop
  over the steps) and \<open>finalize_run\<close> of \<^verbatim>\<open>lib.rs\<close>.

  The state is the database, the free permits of the run semaphore, whether the action sink is set, the log of
  effects outside the process and the number of external calls so far; what the outside answers to call \<open>n\<close> is a
  function of \<open>n\<close> in the environment. An outgoing HTTP request goes to the address the client is pinned to
  (\<open>ClientBuilder::resolve\<close> with no proxy and no redirects). A panic is the outcome \<open>None\<close>.

  Parameters (\<open>run_env\<close>), besides those of \<open>wf_env\<close> and \<open>text_env\<close>: the answers of the action sink, DNS,
  HTTP and the clock of a step; \<open>url\<close> parsing, HTTP method names and status lines, lossy UTF-8 decoding, JSON
  parsing, hexadecimal, the process environment; the \<open>serde\<close> forms of a definition and of a trigger context.
\<close>

section \<open>State and environment\<close>

datatype effect =
    SinkMessage uuid string string string
  | SinkDm uuid string string string
  | SinkTopic uuid string string string
  | RelayPost string string "(string \<times> string) list"
  | HttpRequest IpAddr u16 string string "(string, string) hmap option" "string option"
  | Sleep u64

record wf_state =
  ws_n :: nat
  ws_db :: WfDb
  ws_permits :: nat
  ws_sink_set :: bool
  ws_effects :: "effect list"

text \<open>A response: the status and the chunks of its body, each of which may be a read error.\<close>

type_synonym http_response = "nat \<times> (string, string) result list"

record run_env =
  re_db :: wf_env
  re_text :: text_env
  re_default_timeout_secs :: u64
  re_reqwest :: bool
  re_sink :: "nat \<Rightarrow> (string, string) result"
  re_resolve :: "nat \<Rightarrow> string \<Rightarrow> u16 \<Rightarrow> (string, IpAddr list) result"
  re_ip_show :: "IpAddr \<Rightarrow> string"
  re_http :: "nat \<Rightarrow> (string, http_response) result"
  re_client :: "nat \<Rightarrow> (string, unit) result"
  re_elapsed :: "nat \<Rightarrow> nat option"
  re_url :: "string \<Rightarrow> (string, string option \<times> u16 option) result"
  re_method :: "string \<Rightarrow> (string, unit) result"
  re_status_show :: "nat \<Rightarrow> string"
  re_utf8_lossy :: "string \<Rightarrow> string"
  re_json_parse :: "string \<Rightarrow> (string, Value) result"
  re_var :: "string \<Rightarrow> string option"
  re_hex :: "bytes \<Rightarrow> string"
  re_unhex :: "string \<Rightarrow> bytes option"
  re_def_of_json :: "Value \<Rightarrow> (string, WorkflowDef) result"
  re_tc_to_json :: "TriggerContext \<Rightarrow> (string, Value) result"
  re_tc_of_json :: "Value \<Rightarrow> TriggerContext option"

definition db_call :: "(nat \<Rightarrow> WfDb \<Rightarrow> 'a db_result) \<Rightarrow> wf_state \<Rightarrow> (DbError, 'a) result \<times> wf_state" where
  "db_call f s = (case f (ws_n s) (ws_db s) of (r, db) \<Rightarrow> (r, s\<lparr>ws_n := Suc (ws_n s), ws_db := db\<rparr>))"

definition tick :: "wf_state \<Rightarrow> wf_state" where
  "tick s = s\<lparr>ws_n := Suc (ws_n s)\<rparr>"

definition effect :: "effect \<Rightarrow> wf_state \<Rightarrow> wf_state" where
  "effect e s = s\<lparr>ws_n := Suc (ws_n s), ws_effects := ws_effects s @ [e]\<rparr>"

definition em_dash :: string where
  "em_dash = [CHR 0xE2, CHR 0x80, CHR 0x94]"

definition json_u64 :: "nat \<Rightarrow> Value" where
  "json_u64 n = Number (nat_to_string n)"

section \<open>Actions\<close>

record ApprovalContext =
  ac_step_id :: string
  ac_approver_spec :: string
  ac_expires_at :: instant

datatype StepResult = StepCompleted Value | Suspended string ApprovalContext | StepSkipped

text \<open>\<open>engine.action_sink()\<close>\<close>

definition action_sink :: "wf_state \<Rightarrow> (WorkflowError, unit) result" where
  "action_sink s =
     (if ws_sink_set s then Ok ()
      else Err (InvalidDefinition (''action_sink not initialized '' @ em_dash @ '' call set_action_sink() before executing workflows'')))"

text \<open>The run and its workflow, as the three sink actions load them.\<close>

definition load_workflow ::
  "run_env \<Rightarrow> string \<Rightarrow> uuid \<Rightarrow> uuid \<Rightarrow> wf_state \<Rightarrow> (WorkflowError, WorkflowRecord) result \<times> wf_state" where
  "load_workflow R what community run_id s =
     (case db_call (\<lambda>n. get_workflow_run (re_db R) n community run_id) s of
        (Inl e, s) \<Rightarrow> (Err (WebhookError (what @ '': failed to load workflow run '' @ run_id @ '': '' @ DbError_display e)), s)
      | (Inr wf_run, s) \<Rightarrow>
          (case db_call (\<lambda>n. get_workflow (re_db R) n community (rr_workflow_id wf_run)) s of
             (Inl e, s) \<Rightarrow> (Err (WebhookError (what @ '': failed to load workflow '' @ rr_workflow_id wf_run @ '': ''
                              @ DbError_display e)), s)
           | (Inr workflow, s) \<Rightarrow> (Ok workflow, s)))"

definition sink_call :: "run_env \<Rightarrow> effect \<Rightarrow> wf_state \<Rightarrow> (WorkflowError, string) result \<times> wf_state" where
  "sink_call R e s =
     (case action_sink s of
        Inl e0 \<Rightarrow> (Err e0, s)
      | Inr _ \<Rightarrow> ((case re_sink R (ws_n s) of Inl why \<Rightarrow> Err (WebhookError why) | Inr i \<Rightarrow> Ok i), effect e s))"

definition sent_output :: "string \<Rightarrow> Value" where
  "sent_output event_id = Object [(''event_id'', String event_id), (''sent'', Bool True)]"

text \<open>\<open>add_reaction_impl\<close>: POST to the relay's own HTTP API.\<close>

definition add_reaction_impl ::
  "run_env \<Rightarrow> string \<Rightarrow> string \<Rightarrow> wf_state \<Rightarrow> (WorkflowError, Value) result \<times> wf_state" where
  "add_reaction_impl R message_id emoji s =
     (let base_url = unwrap_or (re_var R ''LENOS_RELAY_BASE_URL'') ''http://localhost:3000'';
          url = base_url @ ''/api/messages/'' @ message_id @ ''/reactions'';
          headers = (''Content-Type'', ''application/json'') #
            (case re_var R ''LENOS_API_TOKEN'' of
               Some token \<Rightarrow> [(''Authorization'', ''Bearer '' @ token)]
             | None \<Rightarrow> (case re_var R ''LENOS_RELAY_PUBKEY'' of Some pk \<Rightarrow> [(''X-Pubkey'', pk)] | None \<Rightarrow> []));
          text_of = (\<lambda>chunks. if list_all is_ok chunks then Some (concat (map (\<lambda>c. case c of Inl _ \<Rightarrow> [] | Inr b \<Rightarrow> b) chunks))
                              else None)
      in ((case re_http R (ws_n s) of
             Inl e \<Rightarrow> Err (WebhookError (''AddReaction HTTP error: '' @ e))
           | Inr (status, chunks) \<Rightarrow>
               if \<not> (200 \<le> status \<and> status < 300)
               then Err (WebhookError (''AddReaction: relay returned '' @ re_status_show R status @ '' for message ''
                      @ message_id @ '': '' @ (case text_of chunks of None \<Rightarrow> ''<unreadable>'' | Some t \<Rightarrow> re_utf8_lossy R t)))
               else (let body_text = (case text_of chunks of None \<Rightarrow> [] | Some t \<Rightarrow> re_utf8_lossy R t);
                         body_json = (case re_json_parse R body_text of
                             Inl _ \<Rightarrow> Object [(''raw'', String body_text)] | Inr v \<Rightarrow> v)
                     in Ok (Object [(''added'', Bool True), (''response'', body_json), (''status'', json_u64 status)]))),
          effect (RelayPost url emoji headers) s))"

text \<open>\<open>check_ssrf\<close>: every address of the host is checked, the first is returned.\<close>

definition ssrf_verdict :: "run_env \<Rightarrow> nat \<Rightarrow> string \<Rightarrow> u16 \<Rightarrow> (WorkflowError, IpAddr) result" where
  "ssrf_verdict R n host port =
     (case re_resolve R n host port of
        Inl e \<Rightarrow> Err (WebhookError (''DNS resolution failed: '' @ e))
      | Inr [] \<Rightarrow> Err (WebhookError ''DNS resolution returned no addresses'')
      | Inr (ip # ips) \<Rightarrow>
          (case find is_private_ip (ip # ips) of
             Some bad \<Rightarrow> Err (WebhookError (''SSRF blocked: '' @ [CHR 0x27] @ host @ [CHR 0x27]
               @ '' resolved to private/reserved address '' @ re_ip_show R bad))
           | None \<Rightarrow> Ok ip))"

definition check_ssrf ::
  "run_env \<Rightarrow> string \<Rightarrow> u16 \<Rightarrow> wf_state \<Rightarrow> (WorkflowError, IpAddr) result \<times> wf_state" where
  "check_ssrf R host port s = (ssrf_verdict R (ws_n s) host port, tick s)"

definition WEBHOOK_MAX_RESPONSE_BYTES :: nat where "WEBHOOK_MAX_RESPONSE_BYTES = 1024 * 1024"

fun read_body :: "string \<Rightarrow> (string, string) result list \<Rightarrow> (WorkflowError, string) result" where
  "read_body body [] = Ok body"
| "read_body body (Inl e # chunks) = Err (WebhookError (''reading response body: '' @ e))"
| "read_body body (Inr bs # chunks) =
     (if length (body @ bs) > WEBHOOK_MAX_RESPONSE_BYTES
      then Err (WebhookError (''response body exceeds '' @ nat_to_string WEBHOOK_MAX_RESPONSE_BYTES @ '' byte limit''))
      else read_body (body @ bs) chunks)"

definition call_webhook_impl ::
  "run_env \<Rightarrow> string \<Rightarrow> string \<Rightarrow> (string, string) hmap option \<Rightarrow> string option \<Rightarrow> wf_state \<Rightarrow>
   (WorkflowError, Value) result \<times> wf_state" where
  "call_webhook_impl R url http_method headers body s =
     (case re_url R url of
        Inl e \<Rightarrow> (Err (WebhookError (''invalid URL: '' @ e)), s)
      | Inr (None, _) \<Rightarrow> (Err (WebhookError ''URL has no host''), s)
      | Inr (Some host, port_opt) \<Rightarrow>
          (let port = unwrap_or port_opt 80
           in case check_ssrf R host port s of
                (Inl e, s) \<Rightarrow> (Err e, s)
              | (Inr safe_ip, s) \<Rightarrow>
                  (case re_client R (ws_n s) of
                     Inl e \<Rightarrow> (Err (WebhookError e), s)
                   | Inr _ \<Rightarrow>
                       (case re_method R http_method of
                          Inl e \<Rightarrow> (Err (WebhookError e), s)
                        | Inr _ \<Rightarrow>
                            ((case re_http R (ws_n s) of
                                Inl e \<Rightarrow> Err (WebhookError e)
                              | Inr (status, chunks) \<Rightarrow>
                                  res_bind (read_body [] chunks) (\<lambda>bytes.
                                    Ok (Object [(''body'', String (re_utf8_lossy R bytes)), (''status'', json_u64 status)]))),
                             effect (HttpRequest safe_ip port http_method url headers body) s)))))"

text \<open>
  \<open>chrono\<close>: \<open>Duration::seconds\<close> panics beyond the milliseconds of an \<open>i64\<close>, the addition beyond the years
  -262143 to 262142. \<open>timeout_secs as i64\<close> reinterprets the 64 bits.
\<close>

definition MIN_UTC :: instant where "MIN_UTC = -8334601228800 * 10 ^ 9"
definition MAX_UTC :: instant where "MAX_UTC = 8210266876799 * 10 ^ 9 + 999999999"

definition approval_deadline :: "instant \<Rightarrow> u64 \<Rightarrow> instant option" where
  "approval_deadline now secs =
     (let s = sint secs; t = now + s * 10 ^ 9
      in if s < - 9223372036854775 \<or> s > 9223372036854775 then None
         else if t < MIN_UTC \<or> t > MAX_UTC then None else Some t)"

definition MAX_DELAY_SECS :: u64 where "MAX_DELAY_SECS = 270"

definition dispatch_action ::
  "run_env \<Rightarrow> string \<Rightarrow> ActionDef \<Rightarrow> uuid \<Rightarrow> uuid \<Rightarrow> TriggerContext \<Rightarrow> wf_state \<Rightarrow>
   (WorkflowError, StepResult) result option \<times> wf_state" where
  "dispatch_action R step_id action community run_id tc s =
     (case action of
        SendMessage text channel \<Rightarrow>
          (case load_workflow R ''SendMessage'' community run_id s of
             (Inl e, s) \<Rightarrow> (Some (Err e), s)
           | (Inr workflow, s) \<Rightarrow>
               (case resolve_send_message_channel (re_text R) channel (tc_channel_id tc) (wr_channel_id workflow) of
                  Inl e \<Rightarrow> (Some (Err e), s)
                | Inr target \<Rightarrow>
                    (case sink_call R (SinkMessage community target text (re_hex R (wr_owner_pubkey workflow))) s of
                       (Inl e, s) \<Rightarrow> (Some (Err e), s)
                     | (Inr event_id, s) \<Rightarrow> (Some (Ok (StepCompleted (sent_output event_id))), s))))
      | SendDm to text \<Rightarrow>
          (case load_workflow R ''SendDm'' community run_id s of
             (Inl e, s) \<Rightarrow> (Some (Err e), s)
           | (Inr workflow, s) \<Rightarrow>
               (case sink_call R (SinkDm community (re_hex R (wr_owner_pubkey workflow)) to text) s of
                  (Inl e, s) \<Rightarrow> (Some (Err e), s)
                | (Inr event_id, s) \<Rightarrow> (Some (Ok (StepCompleted (sent_output event_id))), s)))
      | SetChannelTopic topic \<Rightarrow>
          if tc_channel_id tc = []
          then (Some (Err (InvalidDefinition ''SetChannelTopic: no trigger.channel_id available'')), s)
          else (case load_workflow R ''SetChannelTopic'' community run_id s of
             (Inl e, s) \<Rightarrow> (Some (Err e), s)
           | (Inr workflow, s) \<Rightarrow>
               (case sink_call R (SinkTopic community (tc_channel_id tc) topic (re_hex R (wr_owner_pubkey workflow))) s of
                  (Inl e, s) \<Rightarrow> (Some (Err e), s)
                | (Inr _, s) \<Rightarrow>
                    (Some (Ok (StepCompleted (Object [(''channel_id'', String (tc_channel_id tc)), (''updated'', Bool True)]))), s)))
      | AddReaction emoji \<Rightarrow>
          if tc_message_id tc = []
          then (Some (Err (InvalidDefinition ''AddReaction: no trigger.message_id available'')), s)
          else if re_reqwest R
          then (case add_reaction_impl R (tc_message_id tc) emoji s of
             (Inl e, s) \<Rightarrow> (Some (Err e), s) | (Inr v, s) \<Rightarrow> (Some (Ok (StepCompleted v)), s))
          else (Some (Ok (StepCompleted (Object [(''added'', Bool False), (''skipped'', Bool True)]))), s)
      | CallWebhook url http_method headers body \<Rightarrow>
          if re_reqwest R
          then (case call_webhook_impl R url (unwrap_or http_method ''POST'') headers body s of
             (Inl e, s) \<Rightarrow> (Some (Err e), s) | (Inr v, s) \<Rightarrow> (Some (Ok (StepCompleted v)), s))
          else (Some (Ok (StepCompleted (Object [(''body'', Null), (''skipped'', Bool True), (''status'', json_u64 0)]))), s)
      | RequestApproval from_spec message timeout \<Rightarrow>
          (let token = db_uuid (re_db R) (ws_n s);
               timeout_secs = (case parse_duration_secs (unwrap_or timeout ''24h'') of Inl _ \<Rightarrow> 86400 | Inr k \<Rightarrow> k)
           in case approval_deadline (db_now (re_db R) (ws_n s)) timeout_secs of
                None \<Rightarrow> (None, tick s)
              | Some expires_at \<Rightarrow>
                  (Some (Ok (Suspended token
                     \<lparr>ac_step_id = step_id, ac_approver_spec = from_spec, ac_expires_at = expires_at\<rparr>)), tick s))
      | Delay duration \<Rightarrow>
          (case parse_duration_secs duration of
             Inl e \<Rightarrow> (Some (Err e), s)
           | Inr secs \<Rightarrow>
               if secs > MAX_DELAY_SECS
               then (Some (Err (InvalidDefinition (''delay exceeds maximum of 270 seconds (got ''
                      @ nat_to_string (unat secs) @ ''s); use the scheduled resume pattern for long delays''))), s)
               else (Some (Ok (StepCompleted (Object [(''slept_secs'', json_u64 (unat secs))]))), effect (Sleep secs) s)))"

definition is_approval_request :: "ActionDef \<Rightarrow> bool" where
  "is_approval_request action = (case action of RequestApproval _ _ _ \<Rightarrow> True | _ \<Rightarrow> False)"

text \<open>
  \<open>tokio::time::timeout\<close> around an action: when the timer elapses first, the action is dropped after some of its
  effects. An action that makes no call, and an approval request, finish before the timer is looked at.
\<close>

definition dispatch_with_timeout ::
  "run_env \<Rightarrow> Step \<Rightarrow> ActionDef \<Rightarrow> uuid \<Rightarrow> uuid \<Rightarrow> TriggerContext \<Rightarrow> wf_state \<Rightarrow>
   (WorkflowError, StepResult) result option \<times> wf_state" where
  "dispatch_with_timeout R step action community run_id tc s =
     (let timeout_secs = unwrap_or (st_timeout_secs step) (re_default_timeout_secs R);
          (res, s') = dispatch_action R (st_id step) action community run_id tc s
      in case re_elapsed R (ws_n s) of
           Some k \<Rightarrow>
             if ws_n s' = ws_n s \<or> is_approval_request action then (res, s')
             else (Some (Err (StepTimeout (st_id step) timeout_secs)),
                   s'\<lparr>ws_effects := take (length (ws_effects s) + k) (ws_effects s')\<rparr>)
         | None \<Rightarrow> (res, s'))"

section \<open>Runs\<close>

record PartialProgress =
  pp_step_index :: nat
  pp_trace :: "Value list"

record ExecutionResult =
  er_approval_token :: "string option"
  er_approval_context :: "ApprovalContext option"
  er_step_index :: nat
  er_step_outputs :: outputs
  er_trace :: "Value list"

definition default_progress :: PartialProgress where
  "default_progress = \<lparr>pp_step_index = 0, pp_trace = []\<rparr>"

type_synonym exec_result = "(WorkflowError \<times> PartialProgress, ExecutionResult) result"

definition skipped_entry :: "string \<Rightarrow> Value" where
  "skipped_entry step_id = Object [(''status'', String ''skipped''), (''step_id'', String step_id)]"

definition completed_entry :: "string \<Rightarrow> Value \<Rightarrow> Value" where
  "completed_entry step_id output =
     Object [(''output'', output), (''status'', String ''completed''), (''step_id'', String step_id)]"

text \<open>
  One iteration of the loop of \<open>execute_steps\<close>: it ends the run, or goes on with the outputs and the trace. A panic,
  which ends the task, is the result \<open>None\<close>.
\<close>

datatype iteration = Stop "exec_result option" | Next outputs "Value list"

definition run_step ::
  "run_env \<Rightarrow> uuid \<Rightarrow> uuid \<Rightarrow> TriggerContext \<Rightarrow> nat \<Rightarrow> Step \<Rightarrow> outputs \<Rightarrow> Value list \<Rightarrow> wf_state \<Rightarrow>
   iteration \<times> wf_state" where
  "run_step R community run_id tc i step outs trc s =
     (let fail = (\<lambda>e. Stop (Some (Err (e, \<lparr>pp_step_index = i, pp_trace = trc\<rparr>))))
      in case (case st_if_expr step of None \<Rightarrow> Ok True | Some expr \<Rightarrow> evaluate_condition (re_text R) expr tc outs) of
           Inl e \<Rightarrow> (fail e, s)
         | Inr False \<Rightarrow> (Next outs (trc @ [skipped_entry (st_id step)]), s)
         | Inr True \<Rightarrow>
             (case resolve_step_templates (re_text R) step tc outs of
                Inl e \<Rightarrow> (fail e, s)
              | Inr action \<Rightarrow>
                  (case dispatch_with_timeout R step action community run_id tc s of
                     (res, s') \<Rightarrow>
                       ((case res of
                           None \<Rightarrow> Stop None
                         | Some (Inl e) \<Rightarrow> fail e
                         | Some (Inr (StepCompleted output)) \<Rightarrow>
                             Next (hm_insert (st_id step) output outs) (trc @ [completed_entry (st_id step) output])
                         | Some (Inr (Suspended token ctx)) \<Rightarrow>
                             Stop (Some (Ok \<lparr>er_approval_token = Some token, er_approval_context = Some ctx,
                               er_step_index = i, er_step_outputs = outs, er_trace = trc\<rparr>))
                         | Some (Inr StepSkipped) \<Rightarrow> Next outs (trc @ [skipped_entry (st_id step)])), s'))))"

fun steps_loop ::
  "run_env \<Rightarrow> uuid \<Rightarrow> uuid \<Rightarrow> TriggerContext \<Rightarrow> nat \<Rightarrow> nat \<Rightarrow> Step list \<Rightarrow> outputs \<Rightarrow> Value list \<Rightarrow> wf_state \<Rightarrow>
   exec_result option \<times> wf_state" where
  "steps_loop R community run_id tc start i [] outs trc s =
     (Some (Ok \<lparr>er_approval_token = None, er_approval_context = None, er_step_index = i,
                er_step_outputs = outs, er_trace = trc\<rparr>), s)"
| "steps_loop R community run_id tc start i (step # steps) outs trc s =
     (if i < start then steps_loop R community run_id tc start (Suc i) steps outs trc s
      else (case run_step R community run_id tc i step outs trc s of
          (Stop res, s') \<Rightarrow> (res, s')
        | (Next outs' trc', s') \<Rightarrow> steps_loop R community run_id tc start (Suc i) steps outs' trc' s'))"

definition execute_steps ::
  "run_env \<Rightarrow> uuid \<Rightarrow> uuid \<Rightarrow> WorkflowDef \<Rightarrow> TriggerContext \<Rightarrow> nat \<Rightarrow> outputs option \<Rightarrow> wf_state \<Rightarrow>
   exec_result option \<times> wf_state" where
  "execute_steps R community run_id d tc start initial_outputs s =
     steps_loop R community run_id tc start 0 (wd_steps d) (unwrap_or initial_outputs []) [] s"

text \<open>A permit is held while the steps run and given back however they end.\<close>

definition with_permit ::
  "(wf_state \<Rightarrow> exec_result option \<times> wf_state) \<Rightarrow> wf_state \<Rightarrow> exec_result option \<times> wf_state" where
  "with_permit body s =
     (if ws_permits s = 0 then (Some (Err (CapacityExceeded, default_progress)), s)
      else (case body (s\<lparr>ws_permits := ws_permits s - 1\<rparr>) of
          (res, s') \<Rightarrow> (res, s'\<lparr>ws_permits := ws_permits s' + 1\<rparr>)))"

definition execute_run ::
  "run_env \<Rightarrow> uuid \<Rightarrow> uuid \<Rightarrow> WorkflowDef \<Rightarrow> TriggerContext \<Rightarrow> wf_state \<Rightarrow> exec_result option \<times> wf_state" where
  "execute_run R community run_id d tc s =
     with_permit (\<lambda>s.
       (case db_call (\<lambda>n. update_workflow_run (re_db R) n community run_id Running 0 (Array []) None) s of
          (Inl e, s) \<Rightarrow> (Some (Err (Database (DbError_display e), default_progress)), s)
        | (Inr _, s) \<Rightarrow> execute_steps R community run_id d tc 0 None s)) s"

definition execute_from_step ::
  "run_env \<Rightarrow> uuid \<Rightarrow> uuid \<Rightarrow> WorkflowDef \<Rightarrow> TriggerContext \<Rightarrow> nat \<Rightarrow> outputs option \<Rightarrow> wf_state \<Rightarrow>
   exec_result option \<times> wf_state" where
  "execute_from_step R community run_id d tc start initial_outputs s =
     with_permit (\<lambda>s.
       (case db_call (\<lambda>n. get_workflow_run (re_db R) n community run_id) s of
          (found, s) \<Rightarrow>
            (let existing_trace = (case found of Inl _ \<Rightarrow> Array [] | Inr r \<Rightarrow> rr_execution_trace r)
             in case db_call (\<lambda>n. update_workflow_run (re_db R) n community run_id Running (of_nat start) existing_trace None) s of
                  (Inl e, s) \<Rightarrow> (Some (Err (Database (DbError_display e), default_progress)), s)
                | (Inr _, s) \<Rightarrow> execute_steps R community run_id d tc start initial_outputs s))) s"

fun WorkflowError_display :: "WorkflowError \<Rightarrow> string" where
  "WorkflowError_display (InvalidYaml e) = ''invalid YAML: '' @ e"
| "WorkflowError_display (InvalidDefinition e) = ''invalid definition: '' @ e"
| "WorkflowError_display (ConditionError e) = ''condition evaluation error: '' @ e"
| "WorkflowError_display (TemplateError e) = ''template error: '' @ e"
| "WorkflowError_display (StepTimeout i k) =
     ''step '' @ [CHR 0x27] @ i @ [CHR 0x27] @ '' timed out after '' @ nat_to_string (unat k) @ ''s''"
| "WorkflowError_display (WebhookError e) = ''webhook error: '' @ e"
| "WorkflowError_display CapacityExceeded = ''capacity exceeded''"
| "WorkflowError_display (Database e) = ''database error: '' @ e"
| "WorkflowError_display (Unauthorized e) = ''unauthorized: '' @ e"
| "WorkflowError_display (NotImplemented e) = ''action not implemented: '' @ e"

definition finalize_run ::
  "run_env \<Rightarrow> uuid \<Rightarrow> uuid \<Rightarrow> exec_result \<Rightarrow> Value list option \<Rightarrow> wf_state \<Rightarrow> wf_state" where
  "finalize_run R community run_id res existing_trace s =
     (let pre = unwrap_or existing_trace []
      in case res of
           Inr r \<Rightarrow>
             (let trace_json = Array (pre @ er_trace r); step_count = of_nat (er_step_index r)
              in case (er_approval_token r, er_approval_context r) of
                   (Some token, Some ctx) \<Rightarrow>
                     (case db_call (\<lambda>n. get_workflow_run (re_db R) n community run_id) s of
                        (Inl _, s) \<Rightarrow> s
                      | (Inr wf_run, s) \<Rightarrow>
                          (let s1 = snd (db_call (\<lambda>n. create_approval (re_db R) n
                               \<lparr>cp_community_id = community, cp_token = token, cp_workflow_id = rr_workflow_id wf_run,
                                cp_run_id = run_id, cp_step_id = ac_step_id ctx, cp_step_index = step_count,
                                cp_approver_spec = ac_approver_spec ctx, cp_expires_at = ac_expires_at ctx\<rparr>) s)
                           in snd (db_call (\<lambda>n. update_workflow_run (re_db R) n community run_id WaitingApproval
                                              step_count trace_json None) s1)))
                 | _ \<Rightarrow> snd (db_call (\<lambda>n. update_workflow_run (re_db R) n community run_id Completed
                                        step_count trace_json None) s))
         | Inl (e, progress) \<Rightarrow>
             snd (db_call (\<lambda>n. update_workflow_run (re_db R) n community run_id Failed
               (of_nat (pp_step_index progress)) (Array (pre @ pp_trace progress)) (Some (WorkflowError_display e))) s))"

text \<open>The spawned tasks: execute, then finalize; a panic skips the second part.\<close>

definition finish_run ::
  "run_env \<Rightarrow> uuid \<Rightarrow> uuid \<Rightarrow> Value list option \<Rightarrow> exec_result option \<times> wf_state \<Rightarrow> wf_state" where
  "finish_run R community run_id existing_trace out =
     (case out of (None, s) \<Rightarrow> s | (Some res, s) \<Rightarrow> finalize_run R community run_id res existing_trace s)"

definition run_task :: "run_env \<Rightarrow> uuid \<Rightarrow> uuid \<Rightarrow> WorkflowDef \<Rightarrow> TriggerContext \<Rightarrow> wf_state \<Rightarrow> wf_state" where
  "run_task R community run_id d tc s = finish_run R community run_id None (execute_run R community run_id d tc s)"

section \<open>What an action may touch\<close>

text \<open>A connection to an address outside the blocked ranges; the sink and the relay's own API are not addresses.\<close>

definition safe_effect :: "effect \<Rightarrow> bool" where
  "safe_effect e = (case e of HttpRequest ip _ _ _ _ _ \<Rightarrow> \<not> ip_blocked ip | _ \<Rightarrow> True)"

text \<open>From one state to a later one: tables, permits and sink unchanged, only safe effects added, no call undone.\<close>

definition calm :: "wf_state \<Rightarrow> wf_state \<Rightarrow> bool" where
  "calm s s' \<longleftrightarrow> ws_db s' = ws_db s \<and> ws_permits s' = ws_permits s \<and> ws_sink_set s' = ws_sink_set s
     \<and> ws_n s \<le> ws_n s'
     \<and> (\<exists>es. ws_effects s' = ws_effects s @ es \<and> list_all safe_effect es)"

lemma calm_refl [simp]: "calm s s"
  by (simp add: calm_def)

lemma calm_trans: "calm s t \<Longrightarrow> calm t u \<Longrightarrow> calm s u"
  unfolding calm_def by (metis append.assoc list_all_append order_trans)

lemma calm_tick [simp]: "calm s (tick s)"
  by (simp add: calm_def tick_def)

lemma calm_effect [simp]: "safe_effect e \<Longrightarrow> calm s (effect e s)"
  by (simp add: calm_def effect_def)

lemma db_call_reads [simp]:
  "db_call (\<lambda>n. get_workflow_run E n c i) s = (fst (get_workflow_run E (ws_n s) c i (ws_db s)), tick s)"
  "db_call (\<lambda>n. get_workflow E n c i) s = (fst (get_workflow E (ws_n s) c i (ws_db s)), tick s)"
  by (simp_all add: db_call_def get_workflow_run_def get_workflow_def stmt_def tick_def split: option.split)

lemma load_workflow_calm: "load_workflow R what c r s = (res, s') \<Longrightarrow> calm s s'"
  by (auto simp: load_workflow_def split: sum.splits intro: calm_trans [OF calm_tick calm_tick])

lemma sink_call_calm: "sink_call R e s = (res, s') \<Longrightarrow> safe_effect e \<Longrightarrow> calm s s'"
  by (auto simp: sink_call_def split: sum.splits)

lemma add_reaction_impl_calm: "add_reaction_impl R m e s = (res, s') \<Longrightarrow> calm s s'"
  by (auto simp: add_reaction_impl_def Let_def safe_effect_def)

lemma ssrf_verdict_safe: "ssrf_verdict R n h p = Ok ip \<Longrightarrow> \<not> ip_blocked ip"
  by (auto simp: ssrf_verdict_def is_private_ip_blocked [symmetric] split: sum.splits list.splits option.splits if_splits)

lemma call_webhook_impl_calm: "call_webhook_impl R u m h b s = (res, s') \<Longrightarrow> calm s s'"
  by (auto simp: call_webhook_impl_def check_ssrf_def Let_def safe_effect_def split: sum.splits prod.splits option.splits
      dest: ssrf_verdict_safe intro!: calm_trans [OF calm_tick calm_effect])

lemma dispatch_action_calm: "dispatch_action R i a c r tc s = (res, s') \<Longrightarrow> calm s s'"
proof (cases a)
  case (SendMessage msg channel)
  then show "dispatch_action R i a c r tc s = (res, s') \<Longrightarrow> ?thesis"
    by (auto simp: dispatch_action_def split: prod.splits sum.splits dest: load_workflow_calm
        intro: calm_trans [OF load_workflow_calm sink_call_calm] simp: safe_effect_def)
next
  case (SendDm to msg)
  then show "dispatch_action R i a c r tc s = (res, s') \<Longrightarrow> ?thesis"
    by (auto simp: dispatch_action_def split: prod.splits sum.splits dest: load_workflow_calm
        intro: calm_trans [OF load_workflow_calm sink_call_calm] simp: safe_effect_def)
next
  case (SetChannelTopic topic)
  then show "dispatch_action R i a c r tc s = (res, s') \<Longrightarrow> ?thesis"
    by (auto simp: dispatch_action_def split: prod.splits sum.splits if_splits dest: load_workflow_calm
        intro: calm_trans [OF load_workflow_calm sink_call_calm] simp: safe_effect_def)
next
  case (AddReaction emoji)
  then show "dispatch_action R i a c r tc s = (res, s') \<Longrightarrow> ?thesis"
    by (auto simp: dispatch_action_def split: prod.splits sum.splits if_splits dest: add_reaction_impl_calm)
next
  case (CallWebhook u m h b)
  then show "dispatch_action R i a c r tc s = (res, s') \<Longrightarrow> ?thesis"
    by (auto simp: dispatch_action_def split: prod.splits sum.splits if_splits dest: call_webhook_impl_calm)
next
  case (RequestApproval f m t)
  then show "dispatch_action R i a c r tc s = (res, s') \<Longrightarrow> ?thesis"
    by (auto simp: dispatch_action_def Let_def split: option.splits)
next
  case (Delay d)
  then show "dispatch_action R i a c r tc s = (res, s') \<Longrightarrow> ?thesis"
    by (auto simp: dispatch_action_def safe_effect_def split: sum.splits if_splits)
qed

lemma dispatch_with_timeout_calm:
  assumes "dispatch_with_timeout R st a c r tc s = (res, s')"
  shows "calm s s'"
proof -
  obtain res0 t where d: "dispatch_action R (st_id st) a c r tc s = (res0, t)" by fastforce
  then have "calm s t" by (rule dispatch_action_calm)
  have "calm s (t\<lparr>ws_effects := take (length (ws_effects s) + k) (ws_effects t)\<rparr>)" for k
  proof -
    obtain es where "ws_effects t = ws_effects s @ es" "list_all safe_effect es"
      using \<open>calm s t\<close> by (auto simp: calm_def)
    then have "ws_effects s @ take k es = take (length (ws_effects s) + k) (ws_effects t)" "list_all safe_effect (take k es)"
      by (auto simp: list_all_iff dest: in_set_takeD)
    with \<open>calm s t\<close> show ?thesis by (auto simp: calm_def)
  qed
  with \<open>calm s t\<close> d assms show ?thesis
    by (auto simp: dispatch_with_timeout_def Let_def split: option.splits if_splits)
qed

lemma run_step_calm: "run_step R c r tc i st outs trc s = (it, s') \<Longrightarrow> calm s s'"
  by (auto simp: run_step_def Let_def split: sum.splits bool.splits prod.splits dest!: dispatch_with_timeout_calm)

lemma steps_loop_calm: "steps_loop R c r tc start i steps outs trc s = (res, s') \<Longrightarrow> calm s s'"
proof (induction steps arbitrary: i outs trc s)
  case (Cons st steps)
  obtain it t where step: "run_step R c r tc i st outs trc s = (it, t)" by fastforce
  show ?case
    using Cons.prems Cons.IH [of "Suc i"] run_step_calm [OF step] step
    by (auto split: if_splits iteration.splits intro: calm_trans)
qed simp

section \<open>The trace\<close>

text \<open>The outputs a resumed run starts from, rebuilt from the stored trace (\<open>resume_workflow_after_approval\<close>).\<close>

definition collect_entry :: "outputs \<Rightarrow> Value \<Rightarrow> outputs" where
  "collect_entry outs entry =
     (case entry of
        Object m \<Rightarrow>
          (case (hm_get m ''step_id'', hm_get m ''output'') of
             (Some (String step_id), Some output) \<Rightarrow> hm_insert step_id output outs
           | _ \<Rightarrow> outs)
      | _ \<Rightarrow> outs)"

definition collect_outputs :: "Value list \<Rightarrow> outputs" where
  "collect_outputs trc = foldl collect_entry [] trc"

text \<open>An entry of the trace is the record of a step: skipped, or completed with its output.\<close>

definition records_step :: "Value \<Rightarrow> Step \<Rightarrow> bool" where
  "records_step entry step \<longleftrightarrow>
     entry = skipped_entry (st_id step) \<or> (\<exists>output. entry = completed_entry (st_id step) output)"

lemma collect_skipped [simp]: "collect_entry outs (skipped_entry i) = outs"
  by (simp add: collect_entry_def skipped_entry_def hm_get_def)

lemma collect_completed [simp]: "collect_entry outs (completed_entry i v) = hm_insert i v outs"
  by (simp add: collect_entry_def completed_entry_def hm_get_def)

lemma records_step_simps [simp]: "records_step (skipped_entry (st_id st)) st" "records_step (completed_entry (st_id st) v) st"
  by (auto simp: records_step_def)

text \<open>Only an approval request suspends or panics.\<close>

lemma dispatch_action_pauses:
  assumes "dispatch_action R i a c r tc s = (res, s')" "res = None \<or> (\<exists>t x. res = Some (Ok (Suspended t x)))"
  shows "\<exists>f m t. a = RequestApproval f m t"
  using assms by (cases a) (auto simp: dispatch_action_def Let_def split: prod.splits sum.splits if_splits option.splits)

lemma dispatch_never_skips:
  assumes "dispatch_action R i a c r tc s = (res, s')" shows "res \<noteq> Some (Ok StepSkipped)"
  using assms by (cases a) (auto simp: dispatch_action_def Let_def split: prod.splits sum.splits if_splits option.splits)

lemma resolved_approval:
  "resolve_step_templates T st tc outs = Ok (RequestApproval f m t) \<Longrightarrow> \<exists>f' m'. st_action st = RequestApproval f' m' t"
  by (cases "st_action st")
    (auto simp: resolve_step_templates_def Let_def res_bind_def split: sum.splits option.splits)

lemma run_step_cases:
  assumes "run_step R c r tc i st outs trc s = (it, s')"
  obtains (panic) "it = Stop None" "\<exists>f m t. st_action st = RequestApproval f m t"
  | (fail) e where "it = Stop (Some (Err (e, \<lparr>pp_step_index = i, pp_trace = trc\<rparr>)))"
  | (suspend) token ctx where "it = Stop (Some (Ok \<lparr>er_approval_token = Some token, er_approval_context = Some ctx,
        er_step_index = i, er_step_outputs = outs, er_trace = trc\<rparr>))"
  | (go) entry where "it = Next (collect_entry outs entry) (trc @ [entry])" "records_step entry st"
proof -
  have pauses: "\<exists>f m t. st_action st = RequestApproval f m t"
    if "resolve_step_templates (re_text R) st tc outs = Ok a" "dispatch_with_timeout R st a c r tc s = (None, u)" for a u
    using that by (auto simp: dispatch_with_timeout_def Let_def split: prod.splits option.splits if_splits
        dest!: dispatch_action_pauses resolved_approval)
  show thesis
    using assms that pauses unfolding run_step_def Let_def
    by (auto split: sum.splits bool.splits prod.splits option.splits StepResult.splits)
qed

text \<open>The token of a suspended run is the UUID drawn by the call that suspended it.\<close>

lemma dispatch_action_token:
  assumes "dispatch_action R i a c r tc s = (Some (Ok (Suspended token x)), s')"
  shows "token = db_uuid (re_db R) (ws_n s)" "ws_n s' = Suc (ws_n s)"
  using assms by (cases a; auto simp: dispatch_action_def Let_def tick_def split: prod.splits sum.splits if_splits option.splits)+

lemma run_step_token:
  assumes "run_step R c r tc i st outs trc s = (Stop (Some (Ok er)), s')" "er_approval_token er = Some token"
  shows "token = db_uuid (re_db R) (ws_n s)" "ws_n s' = Suc (ws_n s)"
proof -
  obtain a x where "dispatch_with_timeout R st a c r tc s = (Some (Ok (Suspended token x)), s')"
    using assms unfolding run_step_def Let_def
    by (auto split: sum.splits bool.splits prod.splits option.splits StepResult.splits)
  then have "dispatch_action R (st_id st) a c r tc s = (Some (Ok (Suspended token x)), s')"
    by (auto simp: dispatch_with_timeout_def Let_def split: prod.splits option.splits if_splits)
  then show "token = db_uuid (re_db R) (ws_n s)" "ws_n s' = Suc (ws_n s)"
    by (rule dispatch_action_token)+
qed

lemma steps_loop_token:
  assumes "steps_loop R c r tc start i steps outs trc s = (Some (Ok er), s')" "er_approval_token er = Some token"
  shows "\<exists>m. ws_n s \<le> m \<and> m < ws_n s' \<and> token = db_uuid (re_db R) m"
  using assms
proof (induction steps arbitrary: i outs trc s)
  case (Cons st steps)
  obtain it t where step: "run_step R c r tc i st outs trc s = (it, t)" by fastforce
  have "ws_n s \<le> ws_n t" using run_step_calm [OF step] by (simp add: calm_def)
  show ?case
  proof (cases "i < start")
    case True
    then show ?thesis using Cons by simp
  next
    case False
    show ?thesis
    proof (cases it)
      case (Stop res)
      then show ?thesis
        using Cons.prems False step run_step_token [of R c r tc i st outs trc s er t token] by auto
    next
      case (Next outs' trc')
      then have "\<exists>m. ws_n t \<le> m \<and> m < ws_n s' \<and> token = db_uuid (re_db R) m"
        using Cons.prems False step by (intro Cons.IH) simp_all
      then show ?thesis using \<open>ws_n s \<le> ws_n t\<close> order_trans by blast
    qed
  qed
qed auto

text \<open>What the loop has done when it ends, starting at index \<open>i\<close> with the trace \<open>trc\<close>.\<close>

fun loop_done :: "nat \<Rightarrow> nat \<Rightarrow> Step list \<Rightarrow> outputs \<Rightarrow> Value list \<Rightarrow> exec_result option \<Rightarrow> bool" where
  "loop_done start i steps outs trc None \<longleftrightarrow> (\<exists>st\<in>set steps. \<exists>f m t. st_action st = RequestApproval f m t)"
| "loop_done start i steps outs trc (Some (Inl (e, p))) \<longleftrightarrow>
     i \<le> pp_step_index p \<and> pp_step_index p < i + length steps
     \<and> (\<exists>new. pp_trace p = trc @ new \<and> list_all2 records_step new (drop (start - i) (take (pp_step_index p - i) steps)))"
| "loop_done start i steps outs trc (Some (Inr r)) \<longleftrightarrow>
     i \<le> er_step_index r \<and> er_step_index r \<le> i + length steps
     \<and> (er_approval_token r = None \<longleftrightarrow> er_step_index r = i + length steps)
     \<and> (er_approval_token r = None \<longleftrightarrow> er_approval_context r = None)
     \<and> (er_step_index r < i + length steps \<longrightarrow> start \<le> er_step_index r)
     \<and> (\<exists>new. er_trace r = trc @ new \<and> list_all2 records_step new (drop (start - i) (take (er_step_index r - i) steps))
          \<and> er_step_outputs r = foldl collect_entry outs new)"

lemma loop_done_skip:
  "i < start \<Longrightarrow> loop_done start (Suc i) steps outs trc res \<Longrightarrow> loop_done start i (st # steps) outs trc res"
  by (cases "(start, i, steps, outs, trc, res)" rule: loop_done.cases)
    (auto simp: take_Cons' drop_Cons' diff_diff_left split: if_splits)

lemma loop_done_go:
  assumes "\<not> i < start" "records_step entry st"
    "loop_done start (Suc i) steps (collect_entry outs entry) (trc @ [entry]) res"
  shows "loop_done start i (st # steps) outs trc res"
  using assms
  by (cases "(start, i, steps, outs, trc, res)" rule: loop_done.cases)
    (fastforce simp: take_Cons' intro: exI [where x = "entry # _"])+

lemma steps_loop_done:
  "loop_done start i steps outs trc (fst (steps_loop R c r tc start i steps outs trc s))"
proof (induction steps arbitrary: i outs trc s)
  case (Cons st steps)
  show ?case
  proof (cases "i < start")
    case True
    then show ?thesis using Cons [of "Suc i" outs trc s] by (simp add: loop_done_skip)
  next
    case False
    obtain it t where step: "run_step R c r tc i st outs trc s = (it, t)" by fastforce
    then show ?thesis
    proof (cases rule: run_step_cases)
      case (go entry)
      then show ?thesis
        using False step Cons [of "Suc i" "collect_entry outs entry" "trc @ [entry]" t] by (simp add: loop_done_go)
    qed (use False step in auto)
  qed
qed simp

text \<open>
  C22. Running a workflow records exactly what it did, and the record is enough to resume. Whatever the actions,
  conditions and templates do, a run of the steps from \<open>start\<close> that suspends or completes leaves one trace entry
  for each step from \<open>start\<close> up to the reported index, in order, skipped or completed; it has completed exactly
  when the index is the number of steps; and the outputs rebuilt from the earlier trace and the new one are the
  outputs the run ended with, so a resumed run sees what an uninterrupted one would. A failure reports the index
  of the failing step and the entries of those before it. Only an approval request can panic.
\<close>

theorem run_trace_exact:
  "case fst (execute_steps R community run_id d tc start (Some (collect_outputs earlier)) s) of
     None \<Rightarrow> list_ex (\<lambda>st. case st_action st of RequestApproval _ _ _ \<Rightarrow> True | _ \<Rightarrow> False) (wd_steps d)
   | Some (Inl (e, p)) \<Rightarrow>
       pp_step_index p < length (wd_steps d)
       \<and> list_all2 records_step (pp_trace p) (drop start (take (pp_step_index p) (wd_steps d)))
   | Some (Inr r) \<Rightarrow>
       (er_approval_token r = None \<longleftrightarrow> er_step_index r = length (wd_steps d))
       \<and> list_all2 records_step (er_trace r) (drop start (take (er_step_index r) (wd_steps d)))
       \<and> collect_outputs (earlier @ er_trace r) = er_step_outputs r"
proof -
  have ex: "list_ex (\<lambda>st. case st_action st of RequestApproval _ _ _ \<Rightarrow> True | _ \<Rightarrow> False) steps"
    if "\<exists>st\<in>set steps. \<exists>f m t. st_action st = RequestApproval f m t" for steps
    using that by (induction steps) auto
  show ?thesis
    using steps_loop_done [of start 0 "wd_steps d" "collect_outputs earlier" "[]" R community run_id tc s]
    by (auto simp: execute_steps_def collect_outputs_def ex split: option.split sum.split)
qed

section \<open>Whole runs\<close>

text \<open>Permits and effects across a task: every permit given back, only safe effects added, no call undone.\<close>

definition orderly :: "wf_state \<Rightarrow> wf_state \<Rightarrow> bool" where
  "orderly s s' \<longleftrightarrow> ws_permits s' = ws_permits s \<and> ws_sink_set s' = ws_sink_set s \<and> ws_n s \<le> ws_n s'
     \<and> (\<exists>es. ws_effects s' = ws_effects s @ es \<and> list_all safe_effect es)"

lemma orderly_refl [simp]: "orderly s s"
  by (simp add: orderly_def)

lemma orderly_trans: "orderly s t \<Longrightarrow> orderly t u \<Longrightarrow> orderly s u"
  unfolding orderly_def by (metis append.assoc list_all_append order_trans)

lemma calm_orderly: "calm s t \<Longrightarrow> orderly s t"
  by (simp add: calm_def orderly_def)

lemma orderly_db [simp]: "orderly s (snd (db_call f s))"
  by (simp add: orderly_def db_call_def split: prod.split)

lemma db_call_orderly: "db_call f s = (res, s') \<Longrightarrow> orderly s s'"
  using orderly_db [of s f] by simp

lemma with_permit_orderly:
  assumes "\<And>s res s'. body s = (res, s') \<Longrightarrow> orderly s s'" "with_permit body s = (res, s')"
  shows "orderly s s'"
proof (cases "ws_permits s = 0")
  case False
  obtain res0 t where b: "body (s\<lparr>ws_permits := ws_permits s - 1\<rparr>) = (res0, t)" by fastforce
  show ?thesis
    using assms(1) [OF b] assms(2) b False by (auto simp: with_permit_def orderly_def)
qed (use assms(2) in \<open>simp add: with_permit_def\<close>)

lemma execute_steps_orderly: "execute_steps R c r d tc start outs s = (res, s') \<Longrightarrow> orderly s s'"
  unfolding execute_steps_def by (intro calm_orderly steps_loop_calm)

lemma execute_run_orderly: "execute_run R c r d tc s = (res, s') \<Longrightarrow> orderly s s'"
  unfolding execute_run_def
  by (rule with_permit_orderly)
    (auto split: prod.splits sum.splits dest!: db_call_orderly execute_steps_orderly intro: orderly_trans)

lemma execute_from_step_orderly: "execute_from_step R c r d tc start outs s = (res, s') \<Longrightarrow> orderly s s'"
  unfolding execute_from_step_def
proof (erule with_permit_orderly [rotated])
  fix s res s'
  assume a: "(case db_call (\<lambda>n. get_workflow_run (re_db R) n c r) s of
          (found, s) \<Rightarrow>
            (let existing_trace = (case found of Inl _ \<Rightarrow> Array [] | Inr r \<Rightarrow> rr_execution_trace r)
             in case db_call (\<lambda>n. update_workflow_run (re_db R) n c r Running (of_nat start) existing_trace None) s of
                  (Inl e, s) \<Rightarrow> (Some (Err (Database (DbError_display e), default_progress)), s)
                | (Inr _, s) \<Rightarrow> execute_steps R c r d tc start outs s)) = (res, s')"
  have "orderly (tick s) s'"
    using a by (auto simp: Let_def split: prod.splits sum.splits dest!: db_call_orderly execute_steps_orderly intro: orderly_trans)
  then show "orderly s s'" using orderly_trans [OF calm_orderly [OF calm_tick]] by blast
qed

lemma finalize_run_orderly: "orderly s (finalize_run R c r res pre s)"
proof -
  have "orderly s (snd (db_call f (snd (db_call g (tick s)))))" for f :: "nat \<Rightarrow> WfDb \<Rightarrow> unit db_result" and g :: "nat \<Rightarrow> WfDb \<Rightarrow> unit db_result"
    by (rule orderly_trans [OF calm_orderly [OF calm_tick] orderly_trans [OF orderly_db orderly_db]])
  then show ?thesis
    using calm_orderly [OF calm_tick [of s]]
    by (auto simp: finalize_run_def Let_def split: sum.split option.split prod.split)
qed

lemma finish_run_orderly: "orderly s (snd out) \<Longrightarrow> orderly s (finish_run R c r pre out)"
  unfolding finish_run_def using finalize_run_orderly orderly_trans by (fastforce split: prod.split option.split)

text \<open>
  C23. A run reaches no internal address and leaks no permit. Whatever a workflow definition contains, whatever its
  templates expand to and whatever DNS answers, the requests its \<open>call_webhook\<close> steps send go to addresses outside
  every blocked range (the first resolved address, checked before the client is pinned to it), and the concurrency
  permit taken for the run is given back when it completes, suspends, fails or panics.
\<close>

theorem webhook_never_internal:
  "ws_permits (run_task R community run_id d tc s) = ws_permits s
   \<and> (\<exists>es. ws_effects (run_task R community run_id d tc s) = ws_effects s @ es \<and> list_all safe_effect es)"
proof -
  obtain res s' where "execute_run R community run_id d tc s = (res, s')" by fastforce
  then have "orderly s (snd (execute_run R community run_id d tc s))"
    by (simp add: execute_run_orderly)
  then have "orderly s (run_task R community run_id d tc s)"
    unfolding run_task_def by (rule finish_run_orderly)
  then show ?thesis by (simp add: orderly_def)
qed

section \<open>Approval deadlines\<close>

lemma sint_u64: "sint (w :: u64) = (if uint w < 2 ^ 63 then uint w else uint w - 2 ^ 64)"
proof -
  have lt: "uint w < 2 ^ 64" "0 \<le> uint w" using unsigned_less [of w, where 'a = int] by simp_all
  have "sint w = (uint w + 2 ^ 63) mod 2 ^ 64 - 2 ^ 63"
    using int_word_sint [of "uint w", where 'a = 64] by simp
  moreover have "(uint w + 2 ^ 63) mod 2 ^ 64 = uint w + 2 ^ 63" if "uint w < 2 ^ 63"
    using that lt by (intro mod_pos_pos_trivial) simp_all
  moreover have "(uint w + 2 ^ 63) mod 2 ^ 64 = uint w - 2 ^ 63" if "\<not> uint w < 2 ^ 63"
  proof -
    have "(uint w - 2 ^ 63 + 2 ^ 64) mod 2 ^ 64 = (uint w - 2 ^ 63) mod 2 ^ 64"
      by (rule mod_add_self2)
    also have "\<dots> = uint w - 2 ^ 63"
      using that lt by (intro mod_pos_pos_trivial) simp_all
    finally show ?thesis by (simp add: add.commute)
  qed
  ultimately show ?thesis by simp
qed

text \<open>
  C24. The deadline of an approval request is its timeout after now, up to the end of the calendar. A timeout that
  would end later panics when it is below \<open>2 ^ 63\<close> seconds, so the task dies and the run is never finalized; from
  \<open>2 ^ 63\<close> seconds on, the conversion to a signed number makes it negative, and the deadline lies in the past or
  before the calendar, which panics too. The validation of a definition does not look at the timeout.
\<close>

theorem approval_deadline_exact:
  assumes "MIN_UTC \<le> now" "now \<le> MAX_UTC"
  shows "approval_deadline now secs =
    (let t = now + uint secs * 10 ^ 9; wrapped = now + (uint secs - 2 ^ 64) * 10 ^ 9
     in if t \<le> MAX_UTC then Some t
        else if uint secs < 2 ^ 63 then None
        else if MIN_UTC \<le> wrapped then Some wrapped else None)"
proof -
  have "uint secs < 2 ^ 64" "0 \<le> uint secs" using unsigned_less [of secs, where 'a = int] by simp_all
  moreover define k where "k = uint secs"
  ultimately have "k < 2 ^ 64" "0 \<le> k" by simp_all
  then show ?thesis
    unfolding approval_deadline_def sint_u64 k_def [symmetric] Let_def MIN_UTC_def MAX_UTC_def
    using assms by (simp add: MIN_UTC_def MAX_UTC_def)
qed

theorem approval_deadline_exact_witness:
  "MIN_UTC \<le> 0 \<and> (0 :: instant) \<le> MAX_UTC \<and> approval_deadline 0 86400 = Some (86400 * 10 ^ 9)
   \<and> approval_deadline 0 (2 ^ 62) = None \<and> approval_deadline 0 (2 ^ 64 - 1) = Some (- (10 ^ 9))"
  using approval_deadline_exact [of 0 86400] approval_deadline_exact [of 0 "2 ^ 62"]
    approval_deadline_exact [of 0 "2 ^ 64 - 1"]
  by (simp add: MIN_UTC_def MAX_UTC_def Let_def)

end
