(* ===== verification/WorkflowApproval.thy ===== *)
theory WorkflowApproval
  imports WorkflowRun Nostr "HOL-Library.List_Lexorder" "HOL-Library.Char_ord"
begin

text \<open>
  The command events of \<^verbatim>\<open>crates/lenos-relay/src/handlers/command_executor.rs\<close> that decide approvals:
  the idempotent store of the command event, the check of the approver, granting, denying and resuming.

  A handler runs with the application state: the engine, the \<open>events\<close> table and the tasks spawned so far. The open
  transaction of a command is the row it will add (and the coordinate it replaces), applied by its commit; the
  advisory lock it takes orders writers of one coordinate and has no other effect here. Spawned tasks run one at a
  time; what single statements may interleave is the subject of \<^verbatim>\<open>WorkflowDb\<close>.
\<close>

section \<open>Application state\<close>

datatype IngestError = Rejected string | AuthFailed string | Internal string

record IngestResult =
  ir_event_id :: string
  ir_accepted :: bool
  ir_message :: string

record EventRow =
  evr_community_id :: uuid
  evr_id :: string
  evr_pubkey :: string
  evr_created_at :: instant
  evr_kind :: nat
  evr_tags :: "Tag list"
  evr_content :: string
  evr_channel_id :: "uuid option"
  evr_d_tag :: "string option"
  evr_deleted_at :: "instant option"

datatype task =
    RunFromStart uuid uuid WorkflowDef TriggerContext
  | RunStored uuid uuid Value TriggerContext
  | ResumeRun uuid uuid uuid nat
  | CancelRun uuid uuid string

record app_state =
  as_ws :: wf_state
  as_events :: "EventRow list"
  as_tasks :: "task list"

definition as_db_call :: "(nat \<Rightarrow> WfDb \<Rightarrow> 'a db_result) \<Rightarrow> app_state \<Rightarrow> (DbError, 'a) result \<times> app_state" where
  "as_db_call f s = (case db_call f (as_ws s) of (r, ws) \<Rightarrow> (r, s\<lparr>as_ws := ws\<rparr>))"

text \<open>A statement on the \<open>events\<close> table, a transaction start or a commit: it may fail like any other call.\<close>

definition sql :: "run_env \<Rightarrow> app_state \<Rightarrow> (string, unit) result \<times> app_state" where
  "sql R s = ((case db_fault (re_db R) (ws_n (as_ws s)) of None \<Rightarrow> Ok () | Some e \<Rightarrow> Err e),
              s\<lparr>as_ws := tick (as_ws s)\<rparr>)"

definition spawn :: "task \<Rightarrow> app_state \<Rightarrow> app_state" where
  "spawn t s = s\<lparr>as_tasks := as_tasks s @ [t]\<rparr>"

section \<open>Tags of a command event\<close>

fun find_map :: "('a \<Rightarrow> 'b option) \<Rightarrow> 'a list \<Rightarrow> 'b option" where
  "find_map f [] = None"
| "find_map f (x # xs) = (case f x of Some y \<Rightarrow> Some y | None \<Rightarrow> find_map f xs)"

definition extract_tag :: "Event \<Rightarrow> string \<Rightarrow> string option" where
  "extract_tag ev name = find_map (\<lambda>t. if tag_kind t = name then tag_content t else None) (ev_tags ev)"

definition extract_h_tag :: "Event \<Rightarrow> string option" where
  "extract_h_tag ev = find_map (\<lambda>t. if tag_kind t = ''h'' then tag_content t else None) (ev_tags ev)"

definition extract_d_tag :: "Event \<Rightarrow> string option" where
  "extract_d_tag ev = find_map (\<lambda>t. if tag_kind t = ''d'' then tag_content t else None) (ev_tags ev)"

definition extract_e_tag :: "Event \<Rightarrow> string option" where
  "extract_e_tag ev = find_map (\<lambda>t. if tag_kind t = ''e'' then tag_content t else None) (ev_tags ev)"

definition or_else :: "'a option \<Rightarrow> 'a option \<Rightarrow> 'a option" where
  "or_else a b = (case a of Some x \<Rightarrow> Some x | None \<Rightarrow> b)"

definition extract_channel_id :: "run_env \<Rightarrow> Event \<Rightarrow> uuid option" where
  "extract_channel_id R ev =
     find_map (\<lambda>t. if tag_kind t = ''h''
                   then (case tag_content t of None \<Rightarrow> None
                         | Some v \<Rightarrow> (case te_uuid_parse (re_text R) v of Inl _ \<Rightarrow> None | Inr i \<Rightarrow> Some i))
                   else None) (ev_tags ev)"

text \<open>\<open>lenos_db::event::extract_d_tag\<close>: the coordinate of a parameterized replaceable event.\<close>

definition event_d_tag :: "Event \<Rightarrow> string option" where
  "event_d_tag ev =
     (if \<not> is_parameterized_replaceable (ev_kind ev) then None
      else Some (unwrap_or (find_map (\<lambda>t. let parts = tag_slice t
                     in if length parts \<ge> 2 \<and> parts ! 0 = ''d'' then Some (parts ! 1) else None) (ev_tags ev)) []))"

definition D_TAG_MAX_LEN :: nat where "D_TAG_MAX_LEN = 1024"

section \<open>Storing the command event\<close>

record event_tx =
  tx_row :: EventRow
  tx_replaces :: bool

datatype PersistResult = Duplicate | Inserted event_tx

definition same_coordinate :: "EventRow \<Rightarrow> EventRow \<Rightarrow> bool" where
  "same_coordinate row r \<longleftrightarrow>
     evr_community_id r = evr_community_id row \<and> evr_kind r = evr_kind row \<and> evr_pubkey r = evr_pubkey row
     \<and> evr_d_tag r = evr_d_tag row \<and> evr_d_tag row \<noteq> None \<and> evr_deleted_at r = None"

text \<open>\<open>ORDER BY created_at DESC, id ASC LIMIT 1\<close>\<close>

definition newest :: "EventRow list \<Rightarrow> EventRow option" where
  "newest rows = (case sort_key (\<lambda>r. - evr_created_at r) (sort_key evr_id rows) of [] \<Rightarrow> None | r # _ \<Rightarrow> Some r)"

definition int_to_string :: "int \<Rightarrow> string" where
  "int_to_string i = (if i < 0 then CHR ''-'' # nat_to_string (nat (- i)) else nat_to_string (nat i))"

definition persist_command_event ::
  "run_env \<Rightarrow> uuid \<Rightarrow> Event \<Rightarrow> uuid option \<Rightarrow> app_state \<Rightarrow> (IngestError, PersistResult) result \<times> app_state" where
  "persist_command_event R community ev channel_override s =
     (case sql R s of
        (Inl e, s) \<Rightarrow> (Err (Internal (''error: begin transaction: '' @ e)), s)
      | (Inr _, s) \<Rightarrow>
          (let created_at_secs = sint (of_nat (ev_created_at ev) :: u64); created_at = created_at_secs * 10 ^ 9;
               row = \<lparr>evr_community_id = community, evr_id = ev_id ev, evr_pubkey = ev_pubkey ev,
                 evr_created_at = created_at, evr_kind = ev_kind ev, evr_tags = ev_tags ev, evr_content = ev_content ev,
                 evr_channel_id = or_else channel_override (extract_channel_id R ev), evr_d_tag = event_d_tag ev,
                 evr_deleted_at = None\<rparr>;
               insert_row = (\<lambda>replaces s.
                 (case sql R s of
                    (Inl e, s) \<Rightarrow> (Err (Internal (''error: insert event: '' @ e)), s)
                  | (Inr _, s) \<Rightarrow>
                      (if list_ex (\<lambda>r. evr_community_id r = community \<and> evr_created_at r = created_at \<and> evr_id r = ev_id ev)
                            (as_events s)
                       then Ok Duplicate else Ok (Inserted \<lparr>tx_row = row, tx_replaces = replaces\<rparr>), s)))
           in if created_at < MIN_UTC \<or> created_at > MAX_UTC
              then (Err (Rejected (''invalid: bad timestamp '' @ int_to_string created_at_secs)), s)
              else (case event_d_tag ev of
                  None \<Rightarrow> insert_row False s
                | Some d \<Rightarrow>
                    if length d > D_TAG_MAX_LEN
                    then (Err (Rejected (''invalid: d tag too long ('' @ nat_to_string (length d) @ '' bytes, max ''
                           @ nat_to_string D_TAG_MAX_LEN @ '')'')), s)
                    else (case sql R s of
                        (Inl e, s) \<Rightarrow> (Err (Internal (''error: lock event coordinate: '' @ e)), s)
                      | (Inr _, s) \<Rightarrow>
                          (case sql R s of
                             (Inl e, s) \<Rightarrow> (Err (Internal (''error: query event coordinate: '' @ e)), s)
                           | (Inr _, s) \<Rightarrow>
                               (case newest (filter (same_coordinate row) (as_events s)) of
                                  None \<Rightarrow> insert_row False s
                                | Some old \<Rightarrow>
                                    if created_at < evr_created_at old
                                       \<or> created_at = evr_created_at old \<and> ev_id ev \<ge> evr_id old
                                    then (Ok Duplicate, s)
                                    else (case sql R s of
                                        (Inl e, s) \<Rightarrow> (Err (Internal (''error: replace old event: '' @ e)), s)
                                      | (Inr _, s) \<Rightarrow> insert_row True s)))))))"

definition commit_tx :: "run_env \<Rightarrow> event_tx \<Rightarrow> app_state \<Rightarrow> (IngestError, unit) result \<times> app_state" where
  "commit_tx R tx s =
     (case sql R s of
        (Inl e, s) \<Rightarrow> (Err (Internal (''error: commit transaction: '' @ e)), s)
      | (Inr _, s) \<Rightarrow>
          (Ok (), s\<lparr>as_events :=
             map (\<lambda>r. if tx_replaces tx \<and> same_coordinate (tx_row tx) r
                      then r\<lparr>evr_deleted_at := Some (db_now (re_db R) (ws_n (as_ws s)))\<rparr> else r) (as_events s)
             @ [tx_row tx]\<rparr>))"

section \<open>Deciding an approval\<close>

definition to_lowercase :: "string \<Rightarrow> string" where
  "to_lowercase s = map (\<lambda>c. if is_ascii_upper c then char_of ((of_char c :: nat) + 32) else c) s"

definition check_approver_spec :: "string \<Rightarrow> string \<Rightarrow> (IngestError, unit) result" where
  "check_approver_spec approver_spec requester_hex =
     (let spec = trim approver_spec
      in if spec = [] \<or> spec = ''any'' then Ok ()
         else if length spec = 64 \<and> list_all is_ascii_hexdigit spec then
           (if to_lowercase requester_hex = to_lowercase spec then Ok ()
            else Err (Rejected ''forbidden: not the designated approver for this request''))
         else Err (Rejected (''forbidden: approver spec '' @ [CHR 0x27] @ spec @ [CHR 0x27] @ '' is not yet supported'')))"

text \<open>
  Steps 1 to 4 of \<open>handle_approval_grant\<close> and \<open>handle_approval_deny\<close>, which are the same text: the token hash of the
  \<open>d\<close> or \<open>e\<close> tag, the approval record, still pending, not expired, and the caller an approver.
\<close>

definition authorize_decision ::
  "run_env \<Rightarrow> uuid \<Rightarrow> Event \<Rightarrow> bytes \<Rightarrow> app_state \<Rightarrow> (IngestError, bytes \<times> ApprovalRecord) result \<times> app_state" where
  "authorize_decision R community ev self_bytes s =
     (case or_else (extract_d_tag ev) (extract_e_tag ev) of
        None \<Rightarrow> (Err (Rejected ''invalid: missing approval reference (d or e tag)''), s)
      | Some token_hash_hex \<Rightarrow>
          (case re_unhex R token_hash_hex of
             None \<Rightarrow> (Err (Rejected ''invalid: bad approval token hash hex''), s)
           | Some token_hash \<Rightarrow>
               (case as_db_call (\<lambda>n. get_approval_by_stored_hash (re_db R) n community token_hash) s of
                  (Inl _, s) \<Rightarrow> (Err (Rejected ''invalid: approval not found''), s)
                | (Inr approval, s) \<Rightarrow>
                    ((if ap_status approval \<noteq> Pending
                      then Err (Rejected (''invalid: approval already '' @ ApprovalStatus_display (ap_status approval)))
                      else if db_now (re_db R) (ws_n (as_ws s)) > ap_expires_at approval
                      then Err (Rejected ''invalid: approval token has expired'')
                      else (case check_approver_spec (ap_approver_spec approval) (re_hex R self_bytes) of
                          Inl e \<Rightarrow> Err e
                        | Inr _ \<Rightarrow> Ok (token_hash, approval))), s\<lparr>as_ws := tick (as_ws s)\<rparr>))))"

definition duplicate_result :: "Event \<Rightarrow> IngestResult" where
  "duplicate_result ev = \<lparr>ir_event_id = ev_id ev, ir_accepted = True, ir_message = ''duplicate: already processed''\<rparr>"

definition decision_result :: "run_env \<Rightarrow> Event \<Rightarrow> string \<Rightarrow> uuid \<Rightarrow> IngestResult" where
  "decision_result R ev status run_id =
     \<lparr>ir_event_id = ev_id ev, ir_accepted = True,
      ir_message = ''response:'' @ te_json_show (re_text R) (Object [(''run_id'', String run_id), (''status'', String status)])\<rparr>"

text \<open>Step 5 and the commit: the update runs on the pool, outside the event's transaction.\<close>

definition record_decision ::
  "run_env \<Rightarrow> uuid \<Rightarrow> Event \<Rightarrow> bytes \<Rightarrow> ApprovalStatus \<Rightarrow> bytes \<Rightarrow> event_tx \<Rightarrow> app_state \<Rightarrow>
   (IngestError, unit) result \<times> app_state" where
  "record_decision R community ev self_bytes status token_hash tx s =
     (let memo = (if ev_content ev = [] then None else Some (ev_content ev))
      in case as_db_call (\<lambda>n. update_approval_by_stored_hash (re_db R) n community token_hash status (Some self_bytes) memo) s of
           (Inl e, s) \<Rightarrow> (Err (Internal (''error: db update_approval: '' @ DbError_display e)), s)
         | (Inr updated, s) \<Rightarrow>
             if \<not> updated then (Err (Rejected ''invalid: approval already acted on (race)''), s)
             else commit_tx R tx s)"

text \<open>The two handlers differ in the status they record, its name and the task they spawn.\<close>

definition handle_decision ::
  "run_env \<Rightarrow> ApprovalStatus \<Rightarrow> string \<Rightarrow> (ApprovalRecord \<Rightarrow> task) \<Rightarrow> uuid \<Rightarrow> Event \<Rightarrow> bytes \<Rightarrow> app_state \<Rightarrow>
   (IngestError, IngestResult) result \<times> app_state" where
  "handle_decision R status name follow_up community ev self_bytes s =
     (case authorize_decision R community ev self_bytes s of
        (Inl e, s) \<Rightarrow> (Err e, s)
      | (Inr (token_hash, approval), s) \<Rightarrow>
          (case persist_command_event R community ev None s of
             (Inl e, s) \<Rightarrow> (Err e, s)
           | (Inr Duplicate, s) \<Rightarrow> (Ok (duplicate_result ev), s)
           | (Inr (Inserted tx), s) \<Rightarrow>
               (case record_decision R community ev self_bytes status token_hash tx s of
                  (Inl e, s) \<Rightarrow> (Err e, s)
                | (Inr _, s) \<Rightarrow>
                    (Ok (decision_result R ev name (ap_run_id approval)), spawn (follow_up approval) s))))"

definition resume_task :: "uuid \<Rightarrow> ApprovalRecord \<Rightarrow> task" where
  "resume_task community a =
     ResumeRun community (ap_run_id a) (ap_workflow_id a) (unat (scast (ap_step_index a) + 1 :: u64))"

definition handle_approval_grant ::
  "run_env \<Rightarrow> uuid \<Rightarrow> Event \<Rightarrow> bytes \<Rightarrow> app_state \<Rightarrow> (IngestError, IngestResult) result \<times> app_state" where
  "handle_approval_grant R community ev self_bytes s =
     handle_decision R Granted ''granted'' (resume_task community) community ev self_bytes s"

definition handle_approval_deny ::
  "run_env \<Rightarrow> uuid \<Rightarrow> Event \<Rightarrow> bytes \<Rightarrow> app_state \<Rightarrow> (IngestError, IngestResult) result \<times> app_state" where
  "handle_approval_deny R community ev self_bytes s =
     handle_decision R Denied ''denied'' (\<lambda>a. CancelRun community (ap_run_id a) (re_hex R self_bytes)) community ev self_bytes s"

section \<open>Tasks\<close>

text \<open>The task a denial spawns.\<close>

definition cancel_run :: "run_env \<Rightarrow> uuid \<Rightarrow> uuid \<Rightarrow> string \<Rightarrow> wf_state \<Rightarrow> wf_state" where
  "cancel_run R community run_id pubkey_hex s =
     (case db_call (\<lambda>n. get_workflow_run (re_db R) n community run_id) s of
        (Inl _, s) \<Rightarrow> s
      | (Inr run, s) \<Rightarrow>
          if rr_status run \<noteq> WaitingApproval then s
          else snd (db_call (\<lambda>n. update_workflow_run (re_db R) n community run_id Cancelled (rr_current_step run)
                 (rr_execution_trace run) (Some (''workflow cancelled: approval denied by '' @ pubkey_hex))) s))"

definition json_array :: "Value \<Rightarrow> Value list option" where
  "json_array v = (case v of Array vs \<Rightarrow> Some vs | _ \<Rightarrow> None)"

definition default_trigger_context :: TriggerContext where
  "default_trigger_context = \<lparr>tc_text = [], tc_author = [], tc_channel_id = [], tc_timestamp = [], tc_emoji = [],
     tc_message_id = [], tc_webhook_fields = []\<rparr>"

definition resume_workflow_after_approval ::
  "run_env \<Rightarrow> uuid \<Rightarrow> uuid \<Rightarrow> uuid \<Rightarrow> nat \<Rightarrow> wf_state \<Rightarrow> wf_state" where
  "resume_workflow_after_approval R community run_id workflow_id resume_index s =
     (case db_call (\<lambda>n. get_workflow_run (re_db R) n community run_id) s of
        (Inl _, s) \<Rightarrow> s
      | (Inr run, s) \<Rightarrow>
          if rr_status run \<noteq> WaitingApproval then s
          else (case db_call (\<lambda>n. get_workflow (re_db R) n community workflow_id) s of
              (Inl _, s) \<Rightarrow> s
            | (Inr workflow, s) \<Rightarrow>
                (case re_def_of_json R (wr_definition workflow) of
                   Inl e \<Rightarrow> snd (db_call (\<lambda>n. update_workflow_run (re_db R) n community run_id Failed (rr_current_step run)
                     (rr_execution_trace run) (Some (''definition parse error: '' @ e))) s)
                 | Inr d \<Rightarrow>
                     (let existing_trace = json_array (rr_execution_trace run);
                          initial_outputs = (case existing_trace of None \<Rightarrow> [] | Some trc \<Rightarrow> collect_outputs trc);
                          tc = unwrap_or (Option.bind (rr_trigger_context run) (re_tc_of_json R)) default_trigger_context
                      in finish_run R community run_id existing_trace
                           (execute_from_step R community run_id d tc resume_index (Some initial_outputs) s)))))"

text \<open>The task of a manual or webhook trigger: the stored definition is parsed again.\<close>

definition run_stored :: "run_env \<Rightarrow> uuid \<Rightarrow> uuid \<Rightarrow> Value \<Rightarrow> TriggerContext \<Rightarrow> wf_state \<Rightarrow> wf_state" where
  "run_stored R community run_id def_value tc s =
     (case re_def_of_json R def_value of
        Inl e \<Rightarrow> snd (db_call (\<lambda>n. update_workflow_run (re_db R) n community run_id Failed 0 (Array [])
          (Some (''definition parse error: '' @ e))) s)
      | Inr d \<Rightarrow> finish_run R community run_id None (execute_from_step R community run_id d tc 0 None s))"

definition perform_task :: "run_env \<Rightarrow> task \<Rightarrow> wf_state \<Rightarrow> wf_state" where
  "perform_task R t s =
     (case t of
        RunFromStart c r d tc \<Rightarrow> run_task R c r d tc s
      | RunStored c r v tc \<Rightarrow> run_stored R c r v tc s
      | ResumeRun c r w i \<Rightarrow> resume_workflow_after_approval R c r w i s
      | CancelRun c r who \<Rightarrow> cancel_run R c r who s)"

section \<open>Who decides\<close>

text \<open>What a recorded decision means: the row was pending, unexpired and open to the caller; now it is decided by them.\<close>

definition decision_made ::
  "run_env \<Rightarrow> uuid \<Rightarrow> bytes \<Rightarrow> ApprovalStatus \<Rightarrow> app_state \<Rightarrow> app_state \<Rightarrow> ApprovalRecord \<Rightarrow> bool" where
  "decision_made R community self_bytes status s s' a \<longleftrightarrow>
     a \<in> set (t_approvals (ws_db (as_ws s))) \<and> ap_community_id a = community \<and> ap_status a = Pending
     \<and> db_now (re_db R) (Suc (ws_n (as_ws s))) \<le> ap_expires_at a
     \<and> is_ok (check_approver_spec (ap_approver_spec a) (re_hex R self_bytes))
     \<and> (\<exists>a'\<in>set (t_approvals (ws_db (as_ws s'))). ap_key a' = ap_key a \<and> ap_run_id a' = ap_run_id a
           \<and> ap_status a' = status \<and> ap_approver_pubkey a' = Some self_bytes)"

lemma as_db_call_approval:
  "as_db_call (\<lambda>n. get_approval_by_stored_hash E n c t) s =
     (fst (get_approval_by_stored_hash E (ws_n (as_ws s)) c t (ws_db (as_ws s))), s\<lparr>as_ws := tick (as_ws s)\<rparr>)"
  by (simp add: as_db_call_def db_call_def get_approval_by_stored_hash_def stmt_def tick_def split: option.split)

lemma authorize_decision_state:
  assumes "authorize_decision R c ev self s = (res, s')"
  shows "ws_db (as_ws s') = ws_db (as_ws s)" "as_tasks s' = as_tasks s" "as_events s' = as_events s"
  using assms by (auto simp: authorize_decision_def as_db_call_approval tick_def split: option.splits sum.splits)

lemma find_SomeD: "find P xs = Some x \<Longrightarrow> x \<in> set xs \<and> P x"
  by (induction xs) (auto split: if_splits)

lemma authorize_decision_Ok:
  assumes "authorize_decision R c ev self s = (Ok (token, a), s')"
  shows "a \<in> set (t_approvals (ws_db (as_ws s)))" "ap_key a = (c, token)" "ap_status a = Pending"
    "db_now (re_db R) (Suc (ws_n (as_ws s))) \<le> ap_expires_at a"
    "is_ok (check_approver_spec (ap_approver_spec a) (re_hex R self))"
proof -
  have got: "fst (get_approval_by_stored_hash (re_db R) (ws_n (as_ws s)) c token (ws_db (as_ws s))) = Ok a"
    and rest: "ap_status a = Pending" "db_now (re_db R) (Suc (ws_n (as_ws s))) \<le> ap_expires_at a"
      "is_ok (check_approver_spec (ap_approver_spec a) (re_hex R self))"
    using assms by (auto simp: authorize_decision_def as_db_call_approval tick_def split: option.splits sum.splits if_splits)
  then show "a \<in> set (t_approvals (ws_db (as_ws s)))" "ap_key a = (c, token)"
    by (auto simp: get_approval_by_stored_hash_def stmt_def split: option.splits dest!: find_SomeD)
  show "ap_status a = Pending" "db_now (re_db R) (Suc (ws_n (as_ws s))) \<le> ap_expires_at a"
      "is_ok (check_approver_spec (ap_approver_spec a) (re_hex R self))"
    using rest by auto
qed

text \<open>A call that leaves the workflow tables and the spawned tasks alone.\<close>

definition quiet :: "app_state \<Rightarrow> app_state \<Rightarrow> bool" where
  "quiet s s' \<longleftrightarrow> ws_db (as_ws s') = ws_db (as_ws s) \<and> as_tasks s' = as_tasks s \<and> ws_n (as_ws s) \<le> ws_n (as_ws s')"

lemma quiet_trans: "quiet s t \<Longrightarrow> quiet t u \<Longrightarrow> quiet s u"
  by (simp add: quiet_def)

lemma quiet_sql: "quiet s (snd (sql R s))"
  by (simp add: sql_def quiet_def tick_def)

lemma quiet_then:
  assumes "quiet s (snd m)" "\<And>e t. quiet s t \<Longrightarrow> quiet s (snd (f e t))" "\<And>a t. quiet s t \<Longrightarrow> quiet s (snd (g a t))"
  shows "quiet s (snd (case m of (Inl e, t) \<Rightarrow> f e t | (Inr a, t) \<Rightarrow> g a t))"
  using assms by (cases m) (auto split: sum.split)

lemma quiet_after: "quiet s t \<Longrightarrow> quiet s (snd (sql R t))"
  by (rule quiet_trans [OF _ quiet_sql])

lemma persist_quiet: "quiet s (snd (persist_command_event R c ev ch s))"
  unfolding persist_command_event_def Let_def
  by (auto intro!: quiet_then quiet_sql quiet_after split: option.split)

lemma commit_quiet: "quiet s (snd (commit_tx R tx s))"
  unfolding commit_tx_def by (rule quiet_then [OF quiet_sql]) (simp_all add: quiet_def)

lemma persist_state:
  assumes "persist_command_event R c ev ch s = (res, s')"
  shows "ws_db (as_ws s') = ws_db (as_ws s)" "as_tasks s' = as_tasks s" "ws_n (as_ws s) \<le> ws_n (as_ws s')"
  using persist_quiet [of s R c ev ch] assms by (simp_all add: quiet_def)

lemma commit_state:
  assumes "commit_tx R tx s = (res, s')"
  shows "ws_db (as_ws s') = ws_db (as_ws s)" "as_tasks s' = as_tasks s" "ws_n (as_ws s) \<le> ws_n (as_ws s')"
  using commit_quiet [of s R tx] assms by (simp_all add: quiet_def)

lemma record_decision_tasks:
  assumes "record_decision R c ev self st token tx s = (res, s')"
  shows "as_tasks s' = as_tasks s"
  using assms by (auto simp: record_decision_def as_db_call_def Let_def split: prod.splits sum.splits if_splits dest!: commit_state(2))

lemma update_approval_decides:
  assumes "update_approval_by_stored_hash E n c token st who memo db = (Ok True, db')"
    and "a \<in> set (t_approvals db)" "ap_key a = (c, token)" "ap_status a = Pending"
  shows "\<exists>a'\<in>set (t_approvals db'). ap_key a' = ap_key a \<and> ap_run_id a' = ap_run_id a
           \<and> ap_status a' = st \<and> ap_approver_pubkey a' = who"
proof -
  let ?P = "\<lambda>a. ap_key a = (c, token) \<and> ap_status a = Pending"
  let ?f = "\<lambda>a. a\<lparr>ap_status := st, ap_approver_pubkey := who, ap_note := memo,
    ap_granted_at := (if st = Granted then Some (db_now E n) else ap_granted_at a),
    ap_denied_at := (if st = Denied then Some (db_now E n) else ap_denied_at a)\<rparr>"
  have "t_approvals db' = update_rows ?P ?f (t_approvals db)"
    using assms(1) by (cases "db_fault E n") (simp_all add: update_approval_by_stored_hash_def stmt_def Let_def, force)
  moreover have "?f a \<in> set (update_rows ?P ?f (t_approvals db))"
    using assms(2-4) by (force simp: update_rows_def)
  ultimately show ?thesis by (intro bexI [where x = "?f a"]) simp_all
qed

lemma record_decision_Ok:
  assumes "record_decision R c ev self st token tx s = (Ok u, s')"
    and a: "a \<in> set (t_approvals (ws_db (as_ws s)))" "ap_key a = (c, token)" "ap_status a = Pending"
  shows "\<exists>a'\<in>set (t_approvals (ws_db (as_ws s'))). ap_key a' = ap_key a \<and> ap_run_id a' = ap_run_id a
           \<and> ap_status a' = st \<and> ap_approver_pubkey a' = Some self"
proof -
  let ?upd = "\<lambda>n. update_approval_by_stored_hash (re_db R) n c token st (Some self)
    (if ev_content ev = [] then None else Some (ev_content ev))"
  obtain res db where upd: "?upd (ws_n (as_ws s)) (ws_db (as_ws s)) = (res, db)" by fastforce
  then have "res = Ok True" "ws_db (as_ws s') = db"
    using assms(1) by (auto simp: record_decision_def as_db_call_def db_call_def Let_def split: sum.splits if_splits dest!: commit_state(1))
  with update_approval_decides [OF upd [unfolded \<open>res = Ok True\<close>] a] show ?thesis by simp
qed

lemma decision_path:
  assumes auth: "authorize_decision R c ev self s = (Ok (token, a), s1)"
    and per: "persist_command_event R c ev None s1 = (res, s2)"
    and rcd: "record_decision R c ev self st token tx s2 = (Ok u, s3)"
  shows "decision_made R c self st s (spawn t s3) a" "as_tasks (spawn t s3) = as_tasks s @ [t]"
proof -
  note state = authorize_decision_state [OF auth] persist_state [OF per] record_decision_tasks [OF rcd]
  note row = authorize_decision_Ok [OF auth]
  have "\<exists>a'\<in>set (t_approvals (ws_db (as_ws s3))). ap_key a' = ap_key a \<and> ap_run_id a' = ap_run_id a
      \<and> ap_status a' = st \<and> ap_approver_pubkey a' = Some self"
    using record_decision_Ok [OF rcd, of a] row state by simp
  with row show "decision_made R c self st s (spawn t s3) a"
    by (simp add: decision_made_def spawn_def)
  show "as_tasks (spawn t s3) = as_tasks s @ [t]"
    using state by (simp add: spawn_def)
qed

lemma handle_decision_outcome:
  assumes "handle_decision R st name follow_up c ev self s = (res, s')"
  shows "as_tasks s' = as_tasks s \<or> (\<exists>a. decision_made R c self st s s' a \<and> as_tasks s' = as_tasks s @ [follow_up a])"
proof -
  obtain v s1 where auth: "authorize_decision R c ev self s = (v, s1)" by fastforce
  obtain p s2 where per: "persist_command_event R c ev None s1 = (p, s2)" by fastforce
  note quiet = authorize_decision_state(2) [OF auth] persist_state(2) [OF per]
  show ?thesis
  proof (cases v)
    case (Inr ta)
    obtain token a where ta: "ta = (token, a)" by fastforce
    show ?thesis
    proof (cases "\<exists>tx. p = Ok (Inserted tx)")
      case True
      then obtain tx where tx: "p = Ok (Inserted tx)" by blast
      obtain w s3 where rcd: "record_decision R c ev self st token tx s2 = (w, s3)" by fastforce
      show ?thesis
      proof (cases w)
        case (Inr u)
        then show ?thesis
          using assms auth per rcd ta tx \<open>v = Inr ta\<close> decision_path [of R c ev self s token a s1 p s2 st tx u s3]
          unfolding handle_decision_def by auto
      qed (use assms auth per rcd ta tx Inr quiet record_decision_tasks [OF rcd] in \<open>simp add: handle_decision_def\<close>)
    qed (use assms auth per ta Inr quiet in \<open>auto simp: handle_decision_def split: sum.splits PersistResult.splits\<close>)
  qed (use assms auth quiet in \<open>simp add: handle_decision_def\<close>)
qed

text \<open>
  C25. Only an authorised, timely decision of a pending approval has consequences. After a grant or a denial
  command, either no task was spawned, or the named approval was pending in the caller's community, had not
  expired, and its approver specification admits the caller (\<open>any\<close>, or exactly that public key); the row is now
  granted, respectively denied, by the caller; and the one spawned task resumes that run after the approved step,
  respectively cancels that run. Refused, duplicate and failed commands spawn nothing.
\<close>

theorem decision_authorised:
  "let granted = snd (handle_approval_grant R community ev self s);
       denied = snd (handle_approval_deny R community ev self s)
   in (as_tasks granted = as_tasks s \<or> (\<exists>a. decision_made R community self Granted s granted a
        \<and> as_tasks granted = as_tasks s @ [resume_task community a]))
      \<and> (as_tasks denied = as_tasks s \<or> (\<exists>a. decision_made R community self Denied s denied a
        \<and> as_tasks denied = as_tasks s @ [CancelRun community (ap_run_id a) (re_hex R self)]))"
  using handle_decision_outcome [of R Granted "''granted''" "resume_task community" community ev self s]
    handle_decision_outcome [of R Denied "''denied''" "\<lambda>a. CancelRun community (ap_run_id a) (re_hex R self)" community ev self s]
  by (simp add: handle_approval_grant_def handle_approval_deny_def Let_def prod_eq_iff)

section \<open>Approved runs end\<close>

definition run_of :: "uuid \<Rightarrow> uuid \<Rightarrow> WfDb \<Rightarrow> WorkflowRunRecord option" where
  "run_of community run_id db = find (\<lambda>r. run_key r = (community, run_id)) (t_runs db)"

text \<open>The pending approval request of the step a run waits at, if there is one.\<close>

definition open_approval :: "uuid \<Rightarrow> WorkflowRunRecord \<Rightarrow> ApprovalRecord \<Rightarrow> bool" where
  "open_approval community run a \<longleftrightarrow>
     ap_community_id a = community \<and> ap_run_id a = rr_id run \<and> ap_workflow_id a = rr_workflow_id run
     \<and> ap_step_index a = rr_current_step run \<and> ap_status a = Pending"

definition waits_for :: "uuid \<Rightarrow> uuid \<Rightarrow> WfDb \<Rightarrow> ApprovalRecord option" where
  "waits_for community run_id db =
     (case run_of community run_id db of
        None \<Rightarrow> None
      | Some run \<Rightarrow> if rr_status run = WaitingApproval then find (open_approval community run) (t_approvals db) else None)"

text \<open>The tasks spawned after the first \<open>n\<close> are performed, in order.\<close>

definition perform_spawned :: "run_env \<Rightarrow> nat \<Rightarrow> app_state \<Rightarrow> app_state" where
  "perform_spawned R n s = s\<lparr>as_ws := foldl (\<lambda>ws t. perform_task R t ws) (as_ws s) (drop n (as_tasks s))\<rparr>"

text \<open>
  Up to \<open>k\<close> grant commands, one for each approval the run waits for: \<open>decide k a\<close> is the command event and the public
  key of its sender for the \<open>k\<close>-th last command and the request \<open>a\<close>. What a command spawns runs before the next one;
  the first refused command ends the series.
\<close>

fun grant_all ::
  "run_env \<Rightarrow> uuid \<Rightarrow> uuid \<Rightarrow> (nat \<Rightarrow> ApprovalRecord \<Rightarrow> Event \<times> bytes) \<Rightarrow> nat \<Rightarrow> app_state \<Rightarrow> app_state" where
  "grant_all R community run_id decide 0 s = s"
| "grant_all R community run_id decide (Suc k) s =
     (case waits_for community run_id (ws_db (as_ws s)) of
        None \<Rightarrow> s
      | Some a \<Rightarrow>
          (case decide k a of (ev, self_bytes) \<Rightarrow>
             (case handle_approval_grant R community ev self_bytes s of
                (Inl _, s') \<Rightarrow> s'
              | (Inr _, s') \<Rightarrow> grant_all R community run_id decide k (perform_spawned R (length (as_tasks s)) s'))))"

text \<open>A well-formed grant command for the request \<open>a\<close>: kind, reference to the token hash, a date of the calendar.\<close>

definition grants :: "run_env \<Rightarrow> Event \<Rightarrow> ApprovalRecord \<Rightarrow> bool" where
  "grants R ev a \<longleftrightarrow>
     ev_kind ev = KIND_APPROVAL_GRANT
     \<and> Option.bind (or_else (extract_d_tag ev) (extract_e_tag ev)) (re_unhex R) = Some (ap_token a)
     \<and> (let t = sint (of_nat (ev_created_at ev) :: u64) * 10 ^ 9 in MIN_UTC \<le> t \<and> t \<le> MAX_UTC)"

text \<open>The \<open>k\<close> last commands: each grants the request it is given, under an event id of its own, not yet stored.\<close>

definition grants_each :: "run_env \<Rightarrow> (nat \<Rightarrow> ApprovalRecord \<Rightarrow> Event \<times> bytes) \<Rightarrow> nat \<Rightarrow> EventRow list \<Rightarrow> bool" where
  "grants_each R decide k stored \<longleftrightarrow>
     (\<forall>i<k. \<forall>a. grants R (fst (decide i a)) a \<and> ev_id (fst (decide i a)) \<notin> evr_id ` set stored
        \<and> (\<forall>j<i. \<forall>b. ev_id (fst (decide j b)) \<noteq> ev_id (fst (decide i a))))"

text \<open>The request \<open>a\<close> is refused: its deadline has passed, or its specification does not admit the sender.\<close>

definition refused :: "run_env \<Rightarrow> nat \<Rightarrow> bytes \<Rightarrow> ApprovalRecord \<Rightarrow> bool" where
  "refused R n self_bytes a \<longleftrightarrow>
     db_now (re_db R) n > ap_expires_at a \<or> \<not> is_ok (check_approver_spec (ap_approver_spec a) (re_hex R self_bytes))"

text \<open>No approval request of the definition has a timeout that leaves the calendar.\<close>

definition step_fits :: "run_env \<Rightarrow> Step \<Rightarrow> bool" where
  "step_fits R st =
     (case st_action st of
        RequestApproval _ _ timeout \<Rightarrow>
          (\<forall>n. approval_deadline (db_now (re_db R) n)
                 (case parse_duration_secs (unwrap_or timeout ''24h'') of Inl _ \<Rightarrow> 86400 | Inr k \<Rightarrow> k) \<noteq> None)
      | _ \<Rightarrow> True)"

text \<open>The database answers, the tables are sound, and the run's definition is \<open>d\<close>.\<close>

definition healthy :: "run_env \<Rightarrow> uuid \<Rightarrow> uuid \<Rightarrow> WorkflowDef \<Rightarrow> wf_state \<Rightarrow> bool" where
  "healthy R community run_id d s \<longleftrightarrow>
     (\<forall>n. db_fault (re_db R) n = None) \<and> db_ok (ws_db s) \<and> list_all (step_fits R) (wd_steps d)
     \<and> wd_steps d \<noteq> [] \<and> length (wd_steps d) < 2 ^ 31
     \<and> (\<exists>run w. run_of community run_id (ws_db s) = Some run
          \<and> w \<in> set (t_workflows (ws_db s)) \<and> wf_key w = (community, rr_workflow_id run)
          \<and> re_def_of_json R (wr_definition w) = Ok d)"

lemma find_update_rows:
  assumes "\<And>r. k (f r) = k r" "find (\<lambda>r. k r = x) rows = Some r"
  shows "find (\<lambda>r. k r = x) (update_rows (\<lambda>r. k r = x) f rows) = Some (f r)"
  using assms by (induction rows) (auto simp: update_rows_def split: if_splits)

lemma find_distinct: "distinct (map k rows) \<Longrightarrow> w \<in> set rows \<Longrightarrow> find (\<lambda>r. k r = k w) rows = Some w"
  by (induction rows) (auto simp: rev_image_eqI)

lemma update_run_effect:
  assumes "db_fault E n = None" "run_of c r db = Some run"
  obtains db' run' where "update_workflow_run E n c r st k tr er db = (Ok (), db')"
    "run_of c r db' = Some run'" "rr_status run' = st" "rr_current_step run' = k" "rr_workflow_id run' = rr_workflow_id run"
    "t_workflows db' = t_workflows db" "t_approvals db' = t_approvals db" "db_ok db \<Longrightarrow> db_ok db'"
proof -
  have "(c, r) \<in> run_key ` set (t_runs db)"
    using assms(2) by (auto simp: run_of_def dest!: find_SomeD intro: rev_image_eqI)
  then show thesis
    using assms that find_update_rows [of run_key _ "(c, r)" "t_runs db" run] db_exec_ok [of db E n "UpdateRun c r st k tr er"]
    by (auto simp: update_workflow_run_def stmt_def run_of_def db_exec_def)
qed

lemma run_of_id: "run_of c r db = Some run \<Longrightarrow> rr_id run = r"
  by (auto simp: run_of_def dest: find_SomeD)

text \<open>Requesting an approval under a token not yet used adds the open request of that step.\<close>

lemma create_approval_effect:
  assumes "db_fault E n = None" "run_of (cp_community_id p) (cp_run_id p) db = Some run"
    "(cp_community_id p, cp_workflow_id p) \<in> wf_key ` set (t_workflows db)"
    "hash_approval_token E (cp_token p) \<notin> ap_token ` set (t_approvals db)"
  obtains row where "create_approval E n p db = (Ok (), db\<lparr>t_approvals := t_approvals db @ [row]\<rparr>)"
    "ap_community_id row = cp_community_id p" "ap_run_id row = cp_run_id p" "ap_workflow_id row = cp_workflow_id p"
    "ap_step_index row = cp_step_index p" "ap_status row = Pending" "ap_token row = hash_approval_token E (cp_token p)"
proof -
  have "(cp_community_id p, cp_run_id p) \<in> run_key ` set (t_runs db)"
    using assms(2) by (auto simp: run_of_def dest!: find_SomeD intro: rev_image_eqI)
  then show thesis
    using assms
    by (intro that [of "\<lparr>ap_community_id = cp_community_id p, ap_token = hash_approval_token E (cp_token p),
        ap_workflow_id = cp_workflow_id p, ap_run_id = cp_run_id p, ap_step_id = cp_step_id p,
        ap_step_index = cp_step_index p, ap_approver_spec = cp_approver_spec p, ap_status = Pending,
        ap_approver_pubkey = None, ap_note = None, ap_expires_at = cp_expires_at p,
        ap_created_at = db_now E n, ap_granted_at = None, ap_denied_at = None\<rparr>"])
      (auto simp: create_approval_def stmt_def Let_def)
qed

lemma run_step_no_panic:
  assumes "step_fits R st" shows "fst (run_step R c r tc i st outs trc s) \<noteq> Stop None"
proof
  assume "fst (run_step R c r tc i st outs trc s) = Stop None"
  then obtain a t where a: "resolve_step_templates (re_text R) st tc outs = Ok a"
      and "dispatch_with_timeout R st a c r tc s = (None, t)"
    unfolding run_step_def Let_def
    by (auto split: sum.splits bool.splits prod.splits option.splits StepResult.splits)
  then obtain u where d: "dispatch_action R (st_id st) a c r tc s = (None, u)"
    by (auto simp: dispatch_with_timeout_def Let_def split: prod.splits option.splits if_splits)
  then obtain f m x where "a = RequestApproval f m x" using dispatch_action_pauses [OF d] by auto
  moreover from this obtain f' m' where "st_action st = RequestApproval f' m' x"
    using a resolved_approval by blast
  ultimately show False
    using d assms by (auto simp: dispatch_action_def Let_def step_fits_def split: option.splits) (metis option.distinct(1))
qed

lemma steps_loop_no_panic:
  "list_all (step_fits R) steps \<Longrightarrow> fst (steps_loop R c r tc start i steps outs trc s) \<noteq> None"
proof (induction steps arbitrary: i outs trc s)
  case (Cons st steps)
  then show ?case
    using run_step_no_panic [of R st c r tc i outs trc s] by (auto split: prod.split iteration.split)
qed simp

text \<open>
  The tokens the calls before \<open>N\<close> may still draw: their hashes differ from each other and from the stored ones.
\<close>

definition token_hash :: "run_env \<Rightarrow> nat \<Rightarrow> bytes" where
  "token_hash R n = hash_approval_token (re_db R) (db_uuid (re_db R) n)"

definition tokens_fresh :: "run_env \<Rightarrow> nat \<Rightarrow> wf_state \<Rightarrow> bool" where
  "tokens_fresh R N s \<longleftrightarrow>
     inj_on (token_hash R) {ws_n s..<N}
     \<and> ap_token ` set (t_approvals (ws_db s)) \<inter> token_hash R ` {ws_n s..<N} = {}"

lemma tokens_fresh_later:
  assumes "tokens_fresh R N s" "ws_n s \<le> ws_n s'"
    "ap_token ` set (t_approvals (ws_db s')) \<subseteq> ap_token ` set (t_approvals (ws_db s))"
  shows "tokens_fresh R N s'"
proof -
  have sub: "{ws_n s'..<N} \<subseteq> {ws_n s..<N}" using assms(2) by auto
  have "inj_on (token_hash R) {ws_n s'..<N}" using assms(1) sub by (auto simp: tokens_fresh_def intro: inj_on_subset)
  then show ?thesis using assms(1,3) image_mono [OF sub, of "token_hash R"] unfolding tokens_fresh_def by blast
qed

text \<open>A token drawn since then may be stored: the later ones are still fresh.\<close>

lemma tokens_fresh_drawn:
  assumes "tokens_fresh R N s" "ws_n s \<le> m" "m < ws_n s'" "m < N"
    "ap_token ` set (t_approvals (ws_db s')) \<subseteq> insert (token_hash R m) (ap_token ` set (t_approvals (ws_db s)))"
  shows "tokens_fresh R N s'"
proof -
  have inj: "inj_on (token_hash R) {ws_n s..<N}" using assms(1) by (simp add: tokens_fresh_def)
  have "token_hash R m \<notin> token_hash R ` {ws_n s'..<N}"
    using inj_onD [OF inj, of m] assms(2-4) by fastforce
  moreover have "ap_token ` set (t_approvals (ws_db s)) \<inter> token_hash R ` {ws_n s'..<N} = {}"
  proof -
    have "token_hash R ` {ws_n s'..<N} \<subseteq> token_hash R ` {ws_n s..<N}" by (rule image_mono) (use assms(2,3) in auto)
    then show ?thesis using assms(1) unfolding tokens_fresh_def by blast
  qed
  moreover have "inj_on (token_hash R) {ws_n s'..<N}"
    by (rule inj_on_subset [OF inj]) (use assms(2,3) in auto)
  moreover have "A \<inter> T = {} \<Longrightarrow> x \<notin> T \<Longrightarrow> B \<subseteq> insert x A \<Longrightarrow> B \<inter> T = {}" for A B T :: "bytes set" and x by blast
  ultimately show ?thesis using assms(5) unfolding tokens_fresh_def by metis
qed

lemma tokens_fresh_unused:
  "tokens_fresh R N s \<Longrightarrow> ws_n s \<le> m \<Longrightarrow> m < N \<Longrightarrow> token_hash R m \<notin> ap_token ` set (t_approvals (ws_db s))"
  by (fastforce simp: tokens_fresh_def)

text \<open>Finished, or waiting at a later step, with an open request for it.\<close>

definition progressed :: "uuid \<Rightarrow> uuid \<Rightarrow> uuid \<Rightarrow> WorkflowDef \<Rightarrow> nat \<Rightarrow> wf_state \<Rightarrow> bool" where
  "progressed community run_id workflow_id d start s \<longleftrightarrow>
     (\<exists>run. run_of community run_id (ws_db s) = Some run \<and> rr_workflow_id run = workflow_id
        \<and> (rr_status run \<in> {Completed, Failed}
           \<or> rr_status run = WaitingApproval \<and> start \<le> unat (rr_current_step run)
             \<and> unat (rr_current_step run) < length (wd_steps d)
             \<and> (\<exists>a\<in>set (t_approvals (ws_db s)). open_approval community run a)))"

lemma small_index: "j < 2 ^ 31 \<Longrightarrow> unat (of_nat j :: i32) = j"
  by (simp add: unat_of_nat)

lemma healthy_update:
  assumes "healthy R c r d s" "run_of c r (ws_db s) = Some run"
    "db_call (\<lambda>n. update_workflow_run (re_db R) n c r st k tr er) s = (res, s')"
  shows "res = Ok ()" "healthy R c r d s'" "t_approvals (ws_db s') = t_approvals (ws_db s)" "ws_n s' = Suc (ws_n s)"
    "\<exists>run'. run_of c r (ws_db s') = Some run' \<and> rr_status run' = st \<and> rr_current_step run' = k
       \<and> rr_workflow_id run' = rr_workflow_id run"
proof -
  have ok: "db_fault (re_db R) (ws_n s) = None" "db_ok (ws_db s)" using assms(1) by (auto simp: healthy_def)
  obtain db' run' where upd: "update_workflow_run (re_db R) (ws_n s) c r st k tr er (ws_db s) = (Ok (), db')"
    "run_of c r db' = Some run'" "rr_status run' = st" "rr_current_step run' = k" "rr_workflow_id run' = rr_workflow_id run"
    "t_workflows db' = t_workflows (ws_db s)" "t_approvals db' = t_approvals (ws_db s)" "db_ok db'"
    by (rule update_run_effect [OF ok(1) assms(2), of st k tr er]) (use ok(2) in auto)
  then have eqs: "res = Ok ()" "s' = s\<lparr>ws_n := Suc (ws_n s), ws_db := db'\<rparr>"
    using assms(3) by (simp_all add: db_call_def)
  show "res = Ok ()" by (rule eqs)
  show "t_approvals (ws_db s') = t_approvals (ws_db s)" "ws_n s' = Suc (ws_n s)" using upd eqs by simp_all
  show "\<exists>run'. run_of c r (ws_db s') = Some run' \<and> rr_status run' = st \<and> rr_current_step run' = k
       \<and> rr_workflow_id run' = rr_workflow_id run"
    using upd eqs by simp
  show "healthy R c r d s'"
    using assms upd eqs by (auto simp: healthy_def)
qed

lemma healthy_calm: "healthy R c r d s \<Longrightarrow> calm s s' \<Longrightarrow> healthy R c r d s'"
  by (auto simp: healthy_def calm_def)

lemma healthy_get:
  assumes "healthy R c r d s" shows "\<exists>run. fst (get_workflow_run (re_db R) n c r (ws_db s)) = Ok run \<and> run_of c r (ws_db s) = Some run"
  using assms by (auto simp: healthy_def get_workflow_run_def stmt_def run_of_def)

lemma healthy_create:
  assumes "healthy R c r d s" "run_of c r (ws_db s) = Some run"
    "cp_community_id p = c" "cp_run_id p = r" "cp_workflow_id p = rr_workflow_id run"
    "hash_approval_token (re_db R) (cp_token p) \<notin> ap_token ` set (t_approvals (ws_db s))"
    "db_call (\<lambda>n. create_approval (re_db R) n p) s = (res, s')"
  shows "healthy R c r d s'" "run_of c r (ws_db s') = Some run" "ws_n s' = Suc (ws_n s)"
    "\<exists>row. t_approvals (ws_db s') = t_approvals (ws_db s) @ [row] \<and> ap_token row = hash_approval_token (re_db R) (cp_token p)
       \<and> (\<forall>run'. rr_id run' = r \<longrightarrow> rr_workflow_id run' = rr_workflow_id run \<longrightarrow> rr_current_step run' = cp_step_index p
            \<longrightarrow> open_approval c run' row)"
proof -
  have ok: "db_fault (re_db R) (ws_n s) = None" "db_ok (ws_db s)"
    and wf: "(c, rr_workflow_id run) \<in> wf_key ` set (t_workflows (ws_db s))"
    using assms(1,2) by (auto simp: healthy_def intro: rev_image_eqI)
  obtain row where row: "create_approval (re_db R) (ws_n s) p (ws_db s)
        = (Ok (), (ws_db s)\<lparr>t_approvals := t_approvals (ws_db s) @ [row]\<rparr>)"
      "ap_community_id row = c" "ap_run_id row = r" "ap_workflow_id row = rr_workflow_id run"
      "ap_step_index row = cp_step_index p" "ap_status row = Pending" "ap_token row = hash_approval_token (re_db R) (cp_token p)"
    by (rule create_approval_effect [of "re_db R" "ws_n s" p "ws_db s" run]) (use assms ok wf in auto)
  then have eq: "s' = s\<lparr>ws_n := Suc (ws_n s), ws_db := (ws_db s)\<lparr>t_approvals := t_approvals (ws_db s) @ [row]\<rparr>\<rparr>"
    using assms(7) by (simp add: db_call_def)
  show "run_of c r (ws_db s') = Some run" "ws_n s' = Suc (ws_n s)" using eq assms(2) by (simp_all add: run_of_def)
  have "db_ok (ws_db s')"
    using create_approval_ok [OF ok(2), of "re_db R" "ws_n s" p] row(1) eq by simp
  then show "healthy R c r d s'"
    using assms(1) eq by (simp add: healthy_def run_of_def)
  show "\<exists>row. t_approvals (ws_db s') = t_approvals (ws_db s) @ [row] \<and> ap_token row = hash_approval_token (re_db R) (cp_token p)
       \<and> (\<forall>run'. rr_id run' = r \<longrightarrow> rr_workflow_id run' = rr_workflow_id run \<longrightarrow> rr_current_step run' = cp_step_index p
            \<longrightarrow> open_approval c run' row)"
    using row eq by (auto simp: open_approval_def)
qed

text \<open>The last update of a run: it ends, or it waits at a later step whose request is there.\<close>

lemma update_progress:
  assumes h: "healthy R c r d s" and run: "run_of c r (ws_db s) = Some run"
    and upd: "db_call (\<lambda>n. update_workflow_run (re_db R) n c r st k tr er) s = (res, s')"
    and st: "st \<in> {Completed, Failed} \<or> st = WaitingApproval \<and> (\<exists>j. k = of_nat j \<and> start \<le> j \<and> j < length (wd_steps d))
      \<and> (\<exists>a\<in>set (t_approvals (ws_db s)). \<forall>run'. rr_id run' = r \<longrightarrow> rr_workflow_id run' = rr_workflow_id run
            \<longrightarrow> rr_current_step run' = k \<longrightarrow> open_approval c run' a)"
  shows "progressed c r (rr_workflow_id run) d start s'"
proof -
  note eff = healthy_update [OF h run upd]
  obtain run' where run': "run_of c r (ws_db s') = Some run'" "rr_status run' = st" "rr_current_step run' = k"
    "rr_workflow_id run' = rr_workflow_id run" using eff(5) by blast
  have "length (wd_steps d) < 2 ^ 31" using h by (simp add: healthy_def)
  then have small: "unat (of_nat j :: i32) = j" if "j < length (wd_steps d)" for j
    using that by (intro small_index) simp
  show ?thesis
  proof (cases "st \<in> {Completed, Failed}")
    case False
    then obtain j a where j: "st = WaitingApproval" "k = of_nat j" "start \<le> j" "j < length (wd_steps d)"
      and a: "a \<in> set (t_approvals (ws_db s'))" "open_approval c run' a"
      using st run' run_of_id [OF run'(1)] eff(3) by auto
    then show ?thesis using run' small [OF j(4)] unfolding progressed_def by auto
  qed (use run' in \<open>auto simp: progressed_def\<close>)
qed

lemma finalize_progress:
  fixes pre
  assumes h: "healthy R c r d s" and run: "run_of c r (ws_db s) = Some run" and fin: "loop_done start 0 (wd_steps d) outs [] (Some res)"
    and new: "\<forall>er token. res = Inr er \<longrightarrow> er_approval_token er = Some token \<longrightarrow>
      hash_approval_token (re_db R) token \<notin> ap_token ` set (t_approvals (ws_db s))"
  defines "t \<equiv> finalize_run R c r res pre s"
  shows "progressed c r (rr_workflow_id run) d start t" "healthy R c r d t" "ws_n s < ws_n t"
    "ap_token ` set (t_approvals (ws_db t)) = ap_token ` set (t_approvals (ws_db s))
     \<or> (\<exists>er token. res = Inr er \<and> er_approval_token er = Some token \<and> ap_token ` set (t_approvals (ws_db t))
          = insert (hash_approval_token (re_db R) token) (ap_token ` set (t_approvals (ws_db s))))"
proof -
  let ?goal = "progressed c r (rr_workflow_id run) d start t \<and> healthy R c r d t \<and> ws_n s < ws_n t
    \<and> (ap_token ` set (t_approvals (ws_db t)) = ap_token ` set (t_approvals (ws_db s))
       \<or> (\<exists>er token. res = Inr er \<and> er_approval_token er = Some token \<and> ap_token ` set (t_approvals (ws_db t))
            = insert (hash_approval_token (re_db R) token) (ap_token ` set (t_approvals (ws_db s)))))"
  have get: "fst (get_workflow_run (re_db R) (ws_n s) c r (ws_db s)) = Ok run"
    using healthy_get [OF h] run by auto
  have ended: ?goal if eq: "t = snd (db_call (\<lambda>n. update_workflow_run (re_db R) n c r st k tr er) s)"
    and "st \<in> {Completed, Failed}" for st k tr er
  proof -
    obtain u where "db_call (\<lambda>n. update_workflow_run (re_db R) n c r st k tr er) s = (u, t)"
      using eq by (metis prod.collapse)
    from healthy_update [OF h run this] update_progress [OF h run this] that(2) show ?thesis by auto
  qed
  have ?goal
  proof (cases res)
    case (Inl ep)
    then have "\<exists>k tr er. t = snd (db_call (\<lambda>n. update_workflow_run (re_db R) n c r Failed k tr er) s)"
      unfolding t_def finalize_run_def Let_def by (cases ep) auto
    then show ?thesis using ended by blast
  next
    case (Inr er)
    show ?thesis
    proof (cases "er_approval_token er")
      case None
      then have "\<exists>k tr er. t = snd (db_call (\<lambda>n. update_workflow_run (re_db R) n c r Completed k tr er) s)"
        unfolding t_def finalize_run_def Let_def Inr by auto
      then show ?thesis using ended by blast
    next
      case (Some token)
      then obtain ctx where ctx: "er_approval_context er = Some ctx"
        and idx: "start \<le> er_step_index er" "er_step_index er < length (wd_steps d)"
        using fin Inr by (cases "er_approval_context er") auto
      define p where "p = \<lparr>cp_community_id = c, cp_token = token, cp_workflow_id = rr_workflow_id run,
        cp_run_id = r, cp_step_id = ac_step_id ctx, cp_step_index = of_nat (er_step_index er),
        cp_approver_spec = ac_approver_spec ctx, cp_expires_at = ac_expires_at ctx\<rparr>"
      have ht: "healthy R c r d (tick s)" using h by (rule healthy_calm) simp
      obtain q s1 where cre: "db_call (\<lambda>n. create_approval (re_db R) n p) (tick s) = (q, s1)" by fastforce
      have pre: "run_of c r (ws_db (tick s)) = Some run" "cp_community_id p = c" "cp_run_id p = r"
        "cp_workflow_id p = rr_workflow_id run" "cp_step_index p = of_nat (er_step_index er)" "cp_token p = token"
        "hash_approval_token (re_db R) (cp_token p) \<notin> ap_token ` set (t_approvals (ws_db (tick s)))"
        using run new Inr Some by (simp_all add: p_def tick_def)
      note c1 = healthy_create [OF ht pre(1-4,7) cre]
      obtain u where upd: "db_call (\<lambda>n. update_workflow_run (re_db R) n c r WaitingApproval (of_nat (er_step_index er))
          (Array (unwrap_or pre [] @ er_trace er)) None) s1 = (u, t)"
        using Inr Some ctx get cre by (simp add: t_def finalize_run_def Let_def p_def) (metis prod.collapse snd_conv)
      obtain row where row: "t_approvals (ws_db s1) = t_approvals (ws_db s) @ [row]" "ap_token row = hash_approval_token (re_db R) token"
        "\<forall>run'. rr_id run' = r \<longrightarrow> rr_workflow_id run' = rr_workflow_id run \<longrightarrow> rr_current_step run' = of_nat (er_step_index er)
            \<longrightarrow> open_approval c run' row"
        using c1(4) pre by (auto simp: tick_def)
      have "progressed c r (rr_workflow_id run) d start t"
        by (rule update_progress [OF c1(1,2) upd]) (use idx row in auto)
      moreover note healthy_update(2-4) [OF c1(1,2) upd]
      moreover have "ws_n s1 = Suc (Suc (ws_n s))" using c1(3) by (simp add: tick_def)
      ultimately show ?thesis using Inr Some row by auto
    qed
  qed
  then show "progressed c r (rr_workflow_id run) d start t" "healthy R c r d t" "ws_n s < ws_n t"
    "ap_token ` set (t_approvals (ws_db t)) = ap_token ` set (t_approvals (ws_db s))
     \<or> (\<exists>er token. res = Inr er \<and> er_approval_token er = Some token \<and> ap_token ` set (t_approvals (ws_db t))
          = insert (hash_approval_token (re_db R) token) (ap_token ` set (t_approvals (ws_db s))))"
    by blast+
qed

lemma healthy_permits: "healthy R c r d (s\<lparr>ws_permits := p\<rparr>) = healthy R c r d s"
  by (simp add: healthy_def)

lemma execute_from_step_progress:
  assumes h: "healthy R c r d s" and run: "run_of c r (ws_db s) = Some run" and pos: "0 < ws_permits s"
    and ex: "execute_from_step R c r d tc start (Some outs) s = (res, s')"
  shows "healthy R c r d s'" "t_approvals (ws_db s') = t_approvals (ws_db s)" "ws_n s \<le> ws_n s'"
    "\<exists>run'. run_of c r (ws_db s') = Some run' \<and> rr_workflow_id run' = rr_workflow_id run"
    "\<exists>q. res = Some q \<and> loop_done start 0 (wd_steps d) outs [] (Some q)
       \<and> (\<forall>er token. q = Inr er \<longrightarrow> er_approval_token er = Some token \<longrightarrow>
            (\<exists>m. ws_n s \<le> m \<and> m < ws_n s' \<and> token = db_uuid (re_db R) m))"
proof -
  let ?s0 = "s\<lparr>ws_permits := ws_permits s - 1\<rparr>"
  have get: "fst (get_workflow_run (re_db R) (ws_n ?s0) c r (ws_db ?s0)) = Ok run"
    using healthy_get [OF h] run by force
  have h1: "healthy R c r d (tick ?s0)"
    using h healthy_calm [OF _ calm_tick] by (simp add: healthy_permits)
  have run0: "run_of c r (ws_db (tick ?s0)) = Some run" using run by (simp add: tick_def)
  obtain q s2 where upd: "db_call (\<lambda>n. update_workflow_run (re_db R) n c r Running (of_nat start) (rr_execution_trace run) None)
      (tick ?s0) = (q, s2)" by fastforce
  note h2 = healthy_update [OF h1 run0 upd]
  obtain p s3 where steps: "steps_loop R c r tc start 0 (wd_steps d) outs [] s2 = (p, s3)" by fastforce
  note calm = steps_loop_calm [OF steps]
  have eqs: "res = p" "s' = s3\<lparr>ws_permits := ws_permits s3 + 1\<rparr>"
    using ex pos get upd h2(1) steps
    by (auto simp: execute_from_step_def with_permit_def execute_steps_def Let_def)
  show "healthy R c r d s'"
    using healthy_calm [OF h2(2) calm] eqs by (simp add: healthy_permits)
  show "t_approvals (ws_db s') = t_approvals (ws_db s)"
    using calm h2(3) eqs by (simp add: calm_def tick_def)
  show "\<exists>run'. run_of c r (ws_db s') = Some run' \<and> rr_workflow_id run' = rr_workflow_id run"
    using calm h2(5) eqs by (auto simp: calm_def)
  have late: "ws_n s \<le> ws_n s2" "ws_n s2 \<le> ws_n s'" using calm h2(4) eqs by (simp_all add: calm_def tick_def)
  then show "ws_n s \<le> ws_n s'" by simp
  have "list_all (step_fits R) (wd_steps d)" using h by (simp add: healthy_def)
  then obtain v where v: "res = Some v" "loop_done start 0 (wd_steps d) outs [] (Some v)"
    using steps_loop_done [of start 0 "wd_steps d" outs "[]" R c r tc s2] steps eqs
      steps_loop_no_panic [of R "wd_steps d" c r tc start 0 outs "[]" s2] by auto
  have "\<exists>m. ws_n s2 \<le> m \<and> m < ws_n s3 \<and> token = db_uuid (re_db R) m"
    if "v = Inr er" "er_approval_token er = Some token" for er token
    using steps_loop_token [of R c r tc start 0 "wd_steps d" outs "[]" s2 er s3 token] steps eqs v that by simp
  then show "\<exists>q. res = Some q \<and> loop_done start 0 (wd_steps d) outs [] (Some q)
       \<and> (\<forall>er token. q = Inr er \<longrightarrow> er_approval_token er = Some token \<longrightarrow>
            (\<exists>m. ws_n s \<le> m \<and> m < ws_n s' \<and> token = db_uuid (re_db R) m))"
    using v late(1) eqs(2) order_trans by (fastforce intro!: exI [of _ v])
qed

lemma next_index: "unat w < 2 ^ 31 \<Longrightarrow> unat (scast w + 1 :: u64) = Suc (unat w)" for w :: i32
proof -
  assume w: "unat w < 2 ^ 31"
  then have "int (unat w) < int (2 ^ 31)" by (simp only: of_nat_less_iff)
  then have u: "uint w < 2 ^ 31" by simp
  then have "(uint w + 2 ^ 31) mod 2 ^ 32 = uint w + 2 ^ 31"
    by (intro mod_pos_pos_trivial) simp_all
  then have "sint w = uint w"
    using int_word_sint [of "uint w", where 'a = 32] by simp
  then have "(scast w :: u64) = of_nat (unat w)"
    by (simp add: scast_eq)
  then have "scast w + 1 = (of_nat (Suc (unat w)) :: u64)" by simp
  then show ?thesis using w by (simp only: unat_of_nat) simp
qed

lemma healthy_workflow:
  assumes "healthy R c r d s" "run_of c r (ws_db s) = Some run"
  shows "\<exists>w. fst (get_workflow (re_db R) n c (rr_workflow_id run) (ws_db s)) = Ok w \<and> re_def_of_json R (wr_definition w) = Ok d"
proof -
  obtain w where w: "w \<in> set (t_workflows (ws_db s))" "wf_key w = (c, rr_workflow_id run)" "re_def_of_json R (wr_definition w) = Ok d"
    using assms by (auto simp: healthy_def)
  have "distinct (map wf_key (t_workflows (ws_db s)))" using assms(1) by (simp add: healthy_def db_ok_def)
  then have "find (\<lambda>x. wf_key x = wf_key w) (t_workflows (ws_db s)) = Some w" using w(1) by (rule find_distinct)
  moreover have "db_fault (re_db R) n = None" using assms(1) by (simp add: healthy_def)
  ultimately show ?thesis
    using w by (auto simp: get_workflow_def stmt_def)
qed

lemma resume_progress:
  fixes start
  assumes h: "healthy R c r d s" and pos: "0 < ws_permits s"
    and run: "run_of c r (ws_db s) = Some run" "rr_status run = WaitingApproval"
  defines "t \<equiv> resume_workflow_after_approval R c r (rr_workflow_id run) start s"
  assumes fresh: "tokens_fresh R N s" "ws_n t \<le> N"
  shows "progressed c r (rr_workflow_id run) d start t" "healthy R c r d t" "ws_permits t = ws_permits s" "tokens_fresh R N t"
proof -
  let ?t = "tick (tick s)"
  have ht: "healthy R c r d ?t" using h healthy_calm [OF _ calm_tick] by blast
  have get: "fst (get_workflow_run (re_db R) (ws_n s) c r (ws_db s)) = Ok run"
    using healthy_get [OF h] run(1) by auto
  obtain w where w: "fst (get_workflow (re_db R) (ws_n (tick s)) c (rr_workflow_id run) (ws_db (tick s))) = Ok w"
    "re_def_of_json R (wr_definition w) = Ok d"
    using healthy_workflow [OF h run(1)] by (force simp: tick_def)
  define pre where "pre = json_array (rr_execution_trace run)"
  define outs where "outs = (case pre of None \<Rightarrow> [] | Some trc \<Rightarrow> collect_outputs trc)"
  define tc where "tc = unwrap_or (Option.bind (rr_trigger_context run) (re_tc_of_json R)) default_trigger_context"
  obtain res s' where ex: "execute_from_step R c r d tc start (Some outs) ?t = (res, s')" by fastforce
  have post: "0 < ws_permits ?t" using pos by (simp add: tick_def)
  have runt: "run_of c r (ws_db ?t) = Some run" using run(1) by (simp add: tick_def)
  note exec = execute_from_step_progress [OF ht runt post ex]
  obtain run' where run': "run_of c r (ws_db s') = Some run'" "rr_workflow_id run' = rr_workflow_id run"
    using exec(4) by blast
  obtain q where q: "res = Some q" "loop_done start 0 (wd_steps d) outs [] (Some q)"
    and dr: "\<forall>er token. q = Inr er \<longrightarrow> er_approval_token er = Some token \<longrightarrow>
      (\<exists>m. ws_n ?t \<le> m \<and> m < ws_n s' \<and> token = db_uuid (re_db R) m)"
    using exec(5) by blast
  have "ws_n s \<le> ws_n ?t" by (simp add: tick_def)
  then have drawn: "\<exists>m. ws_n s \<le> m \<and> m < ws_n s' \<and> token = db_uuid (re_db R) m"
    if "q = Inr er" "er_approval_token er = Some token" for er token
    using dr that order_trans by blast
  have eq: "t = finalize_run R c r q pre s'"
    using get w run(2) ex q(1)
    by (simp add: t_def resume_workflow_after_approval_def Let_def finish_run_def flip: pre_def outs_def tc_def)
  have same: "t_approvals (ws_db s') = t_approvals (ws_db s)" "ws_n s \<le> ws_n s'" "ws_n s' \<le> ws_n t"
    using exec(2,3) finalize_run_orderly [of s' R c r q pre] eq by (simp_all add: tick_def orderly_def)
  have hashes: "\<forall>er token. q = Inr er \<longrightarrow> er_approval_token er = Some token \<longrightarrow>
      hash_approval_token (re_db R) token \<notin> ap_token ` set (t_approvals (ws_db s'))"
  proof (intro allI impI)
    fix er token assume "q = Inr er" "er_approval_token er = Some token"
    from drawn [OF this] obtain m where m: "ws_n s \<le> m" "m < ws_n s'" "token = db_uuid (re_db R) m" by blast
    then have "m < N" using same(3) fresh(2) by linarith
    then show "hash_approval_token (re_db R) token \<notin> ap_token ` set (t_approvals (ws_db s'))"
      using tokens_fresh_unused [OF fresh(1) m(1)] m(3) same(1) by (simp add: token_hash_def)
  qed
  note fin = finalize_progress [where pre = pre, OF exec(1) run'(1) q(2) hashes, folded eq]
  show "progressed c r (rr_workflow_id run) d start t" "healthy R c r d t" using fin(1,2) run'(2) by auto
  show "ws_permits t = ws_permits s"
    using finalize_run_orderly [of s' R c r q pre] execute_from_step_orderly [OF ex] eq by (simp add: orderly_def tick_def)
  show "tokens_fresh R N t"
  proof (cases "ap_token ` set (t_approvals (ws_db t)) = ap_token ` set (t_approvals (ws_db s'))")
    case True
    then show ?thesis using tokens_fresh_later [OF fresh(1)] same by simp
  next
    case False
    then obtain er token where er: "q = Inr er" "er_approval_token er = Some token" "ap_token ` set (t_approvals (ws_db t))
        = insert (hash_approval_token (re_db R) token) (ap_token ` set (t_approvals (ws_db s')))"
      using fin(4) by auto
    from drawn [OF er(1,2)] obtain m where "ws_n s \<le> m" "m < ws_n s'" "token = db_uuid (re_db R) m" by blast
    then show ?thesis
      using tokens_fresh_drawn [OF fresh(1), of m t] same fresh(2) er(3) by (simp add: token_hash_def)
  qed
qed

text \<open>Time only passes.\<close>

lemma resume_orderly: "orderly s (resume_workflow_after_approval R c r w i s)"
proof -
  have "orderly (tick (tick s)) (finish_run R c r trc (execute_from_step R c r d tc i outs (tick (tick s))))" for trc d tc outs
    by (rule finish_run_orderly) (metis execute_from_step_orderly prod.collapse)
  then have "orderly s (finish_run R c r trc (execute_from_step R c r d tc i outs (tick (tick s))))" for trc d tc outs
    by (meson calm_orderly calm_tick orderly_trans)
  moreover have "orderly s (snd (db_call f (tick (tick s))))" for f :: "nat \<Rightarrow> WfDb \<Rightarrow> unit db_result"
    by (meson calm_orderly calm_tick orderly_db orderly_trans)
  ultimately show ?thesis
    using calm_orderly [OF calm_tick [of s]] calm_orderly [OF calm_trans [OF calm_tick calm_tick], of s]
    by (simp add: resume_workflow_after_approval_def Let_def split: sum.split)
qed

lemma perform_task_orderly: "orderly s (perform_task R t s)"
proof -
  have "orderly s (snd (db_call f (tick s)))" for f :: "nat \<Rightarrow> WfDb \<Rightarrow> unit db_result"
    by (meson calm_orderly calm_tick orderly_db orderly_trans)
  then have cancel: "orderly s (cancel_run R c r who s)" for c r who
    using calm_orderly [OF calm_tick [of s]] by (simp add: cancel_run_def split: sum.split)
  have run: "orderly s (run_task R c r d tc s)" for c r d tc
    unfolding run_task_def by (rule finish_run_orderly) (metis execute_run_orderly prod.collapse)
  have "orderly s (finish_run R c r None (execute_from_step R c r d tc 0 None s))" for c r d tc
    by (rule finish_run_orderly) (metis execute_from_step_orderly prod.collapse)
  then have stored: "orderly s (run_stored R c r v tc s)" for c r v tc
    by (simp add: run_stored_def split: sum.split)
  show ?thesis using cancel run stored resume_orderly by (simp add: perform_task_def split: task.split)
qed

lemma perform_spawned_later: "ws_n (as_ws s) \<le> ws_n (as_ws (perform_spawned R n s))"
proof -
  have "ws_n ws \<le> ws_n (foldl (\<lambda>ws t. perform_task R t ws) ws ts)" for ws ts
  proof (induction ts arbitrary: ws)
    case (Cons t ts)
    have "ws_n ws \<le> ws_n (perform_task R t ws)" using perform_task_orderly [of ws R t] by (simp add: orderly_def)
    then show ?case using Cons [of "perform_task R t ws"] by simp
  qed simp
  then show ?thesis by (simp add: perform_spawned_def)
qed

lemma grant_later:
  assumes "handle_approval_grant R c ev self s = (res, s')" shows "ws_n (as_ws s) \<le> ws_n (as_ws s')"
proof -
  have auth: "ws_n (as_ws s) \<le> ws_n (as_ws s1)" if "authorize_decision R c ev self s = (v, s1)" for v s s1
    using that by (auto simp: authorize_decision_def as_db_call_approval tick_def split: option.splits sum.splits)
  have rcd: "ws_n (as_ws s) \<le> ws_n (as_ws s1)" if "record_decision R c ev self st token tx s = (v, s1)" for v s s1 st token tx
    using that by (auto simp: record_decision_def as_db_call_def db_call_def Let_def split: prod.splits sum.splits if_splits
        dest!: commit_state(3))
  show ?thesis
    using assms unfolding handle_approval_grant_def handle_decision_def
    by (auto simp: spawn_def split: prod.splits sum.splits PersistResult.splits
        dest!: auth rcd persist_state(3))
qed

lemma grant_all_later: "ws_n (as_ws s) \<le> ws_n (as_ws (grant_all R c r decide k s))"
proof (induction k arbitrary: s)
  case (Suc k)
  have "ws_n (as_ws s) \<le> ws_n (as_ws (grant_all R c r decide k (perform_spawned R n s')))"
    if "handle_approval_grant R c ev self s = (v, s')" for ev self v s' n
    using grant_later [OF that] perform_spawned_later [of s' R n] Suc [of "perform_spawned R n s'"] by linarith
  then show ?case
    using grant_later by (auto split: option.split prod.split sum.split)
qed simp

section \<open>One grant\<close>

text \<open>Whether the grant of an open request goes through depends on its deadline and its specification only.\<close>

lemma authorize_open:
  assumes "\<forall>n. db_fault (re_db R) n = None" "db_ok (ws_db (as_ws s))"
    and a: "a \<in> set (t_approvals (ws_db (as_ws s)))" "ap_community_id a = c" "ap_status a = Pending" "grants R ev a"
  defines "s1 \<equiv> s\<lparr>as_ws := tick (tick (as_ws s))\<rparr>"
  shows "refused R (Suc (ws_n (as_ws s))) self a \<Longrightarrow> \<exists>e. authorize_decision R c ev self s = (Err e, s1)"
    "\<not> refused R (Suc (ws_n (as_ws s))) self a \<Longrightarrow> authorize_decision R c ev self s = (Ok (ap_token a, a), s1)"
proof -
  obtain v where v: "or_else (extract_d_tag ev) (extract_e_tag ev) = Some v" "re_unhex R v = Some (ap_token a)"
    using a(4) by (auto simp: grants_def bind_eq_Some_conv)
  have "distinct (map ap_key (t_approvals (ws_db (as_ws s))))" using assms(2) by (simp add: db_ok_def)
  then have "find (\<lambda>x. ap_key x = ap_key a) (t_approvals (ws_db (as_ws s))) = Some a" using a(1) by (rule find_distinct)
  then have got: "fst (get_approval_by_stored_hash (re_db R) (ws_n (as_ws s)) c (ap_token a) (ws_db (as_ws s))) = Ok a"
    using assms(1) a(2) by (simp add: get_approval_by_stored_hash_def stmt_def)
  show "refused R (Suc (ws_n (as_ws s))) self a \<Longrightarrow> \<exists>e. authorize_decision R c ev self s = (Err e, s1)"
    "\<not> refused R (Suc (ws_n (as_ws s))) self a \<Longrightarrow> authorize_decision R c ev self s = (Ok (ap_token a, a), s1)"
    using v got a(3) by (auto simp: authorize_decision_def as_db_call_approval refused_def s1_def tick_def split: sum.split)
qed

lemma grant_persists:
  assumes "\<forall>n. db_fault (re_db R) n = None" "grants R ev a" "ev_id ev \<notin> evr_id ` set (as_events s)"
  shows "\<exists>row. persist_command_event R c ev None s
      = (Ok (Inserted \<lparr>tx_row = row, tx_replaces = False\<rparr>), s\<lparr>as_ws := tick (tick (as_ws s))\<rparr>) \<and> evr_id row = ev_id ev"
proof -
  have "event_d_tag ev = None"
    using assms(2) by (simp add: grants_def event_d_tag_def is_parameterized_replaceable_def KIND_APPROVAL_GRANT_def
        PARAM_REPLACEABLE_KIND_MIN_def PARAM_REPLACEABLE_KIND_MAX_def)
  moreover have "\<not> list_ex (\<lambda>r. evr_community_id r = c \<and> evr_created_at r = t \<and> evr_id r = ev_id ev) (as_events s)" for t
    using assms(3) by (auto simp: list_ex_iff rev_image_eqI)
  ultimately show ?thesis
    using assms(1,2) by (auto simp: persist_command_event_def sql_def grants_def Let_def)
qed

lemma update_approval_tokens:
  "ap_token ` set (t_approvals (snd (update_approval_by_stored_hash E n c t st who memo db))) = ap_token ` set (t_approvals db)"
  by (simp add: update_approval_by_stored_hash_def stmt_def Let_def update_rows_image split: option.split)

lemma grant_records:
  assumes "\<forall>n. db_fault (re_db R) n = None" "db_ok (ws_db (as_ws s))" "\<not> tx_replaces tx"
    and a: "a \<in> set (t_approvals (ws_db (as_ws s)))" "ap_community_id a = c" "ap_status a = Pending"
  shows "\<exists>s'. record_decision R c ev self st (ap_token a) tx s = (Ok (), s')
    \<and> as_events s' = as_events s @ [tx_row tx] \<and> ws_permits (as_ws s') = ws_permits (as_ws s)
    \<and> db_ok (ws_db (as_ws s')) \<and> t_runs (ws_db (as_ws s')) = t_runs (ws_db (as_ws s))
    \<and> t_workflows (ws_db (as_ws s')) = t_workflows (ws_db (as_ws s))
    \<and> ap_token ` set (t_approvals (ws_db (as_ws s'))) = ap_token ` set (t_approvals (ws_db (as_ws s)))"
proof -
  let ?n = "ws_n (as_ws s)" and ?memo = "if ev_content ev = [] then None else Some (ev_content ev)"
  obtain b db where upd: "update_approval_by_stored_hash (re_db R) ?n c (ap_token a) st (Some self) ?memo (ws_db (as_ws s)) = (b, db)"
    by fastforce
  have "b = Ok True"
    using upd assms(1) a by (auto simp: update_approval_by_stored_hash_def stmt_def Let_def filter_empty_conv)
  moreover have "db_ok db"
    using db_exec_ok [OF assms(2), of "re_db R" ?n "UpdateApproval c (ap_token a) st (Some self) ?memo"] upd
    by (simp add: db_exec_def)
  moreover have "t_runs db = t_runs (ws_db (as_ws s))" "t_workflows db = t_workflows (ws_db (as_ws s))"
    using upd assms(1) by (auto simp: update_approval_by_stored_hash_def stmt_def Let_def)
  moreover have "ap_token ` set (t_approvals db) = ap_token ` set (t_approvals (ws_db (as_ws s)))"
    using update_approval_tokens [of "re_db R" ?n c "ap_token a" st "Some self" ?memo "ws_db (as_ws s)"] upd by simp
  ultimately show ?thesis
    using upd assms(1,3) by (simp add: record_decision_def as_db_call_def db_call_def commit_tx_def sql_def tick_def Let_def)
qed

lemma grant_outcome:
  assumes nf: "\<forall>n. db_fault (re_db R) n = None" and ok: "db_ok (ws_db (as_ws s))"
    and a: "a \<in> set (t_approvals (ws_db (as_ws s)))" "ap_community_id a = c" "ap_status a = Pending"
    and ev: "grants R ev a" "ev_id ev \<notin> evr_id ` set (as_events s)"
    and run: "handle_approval_grant R c ev self s = (res, s')"
  obtains (declined) e where "res = Err e" "refused R (ws_n (as_ws s') - 1) self a"
      "ws_db (as_ws s') = ws_db (as_ws s)" "as_tasks s' = as_tasks s"
  | (granted) v where "res = Ok v" "as_tasks s' = as_tasks s @ [resume_task c a]"
      "evr_id ` set (as_events s') = insert (ev_id ev) (evr_id ` set (as_events s))"
      "ws_permits (as_ws s') = ws_permits (as_ws s)" "db_ok (ws_db (as_ws s'))"
      "t_runs (ws_db (as_ws s')) = t_runs (ws_db (as_ws s))" "t_workflows (ws_db (as_ws s')) = t_workflows (ws_db (as_ws s))"
      "ap_token ` set (t_approvals (ws_db (as_ws s'))) = ap_token ` set (t_approvals (ws_db (as_ws s)))"
proof (cases "refused R (Suc (ws_n (as_ws s))) self a")
  case True
  then obtain e where "authorize_decision R c ev self s = (Err e, s\<lparr>as_ws := tick (tick (as_ws s))\<rparr>)"
    using authorize_open(1) [OF nf ok a ev(1)] by blast
  then have "res = Err e" "s' = s\<lparr>as_ws := tick (tick (as_ws s))\<rparr>"
    using run by (simp_all add: handle_approval_grant_def handle_decision_def)
  then show thesis using True by (intro declined) (simp_all add: tick_def)
next
  case False
  define s1 where "s1 = s\<lparr>as_ws := tick (tick (as_ws s))\<rparr>"
  define s2 where "s2 = s1\<lparr>as_ws := tick (tick (as_ws s1))\<rparr>"
  have auth: "authorize_decision R c ev self s = (Ok (ap_token a, a), s1)"
    using authorize_open(2) [OF nf ok a ev(1) False] by (simp add: s1_def)
  obtain row where per: "persist_command_event R c ev None s1 = (Ok (Inserted \<lparr>tx_row = row, tx_replaces = False\<rparr>), s2)"
    "evr_id row = ev_id ev"
    using grant_persists [OF nf ev(1), of s1 c] ev(2) by (auto simp: s1_def s2_def)
  obtain s3 where rcd: "record_decision R c ev self Granted (ap_token a) \<lparr>tx_row = row, tx_replaces = False\<rparr> s2 = (Ok (), s3)"
    "as_events s3 = as_events s2 @ [row]" "ws_permits (as_ws s3) = ws_permits (as_ws s2)"
    "db_ok (ws_db (as_ws s3))" "t_runs (ws_db (as_ws s3)) = t_runs (ws_db (as_ws s2))"
    "t_workflows (ws_db (as_ws s3)) = t_workflows (ws_db (as_ws s2))"
    "ap_token ` set (t_approvals (ws_db (as_ws s3))) = ap_token ` set (t_approvals (ws_db (as_ws s2)))"
    using grant_records [of R s2 "\<lparr>tx_row = row, tx_replaces = False\<rparr>" a c ev self Granted] nf ok a
    by (auto simp: s1_def s2_def tick_def)
  have "res = Ok (decision_result R ev ''granted'' (ap_run_id a))" "s' = spawn (resume_task c a) s3"
    using run auth per(1) rcd(1) by (simp_all add: handle_approval_grant_def handle_decision_def)
  then show thesis
    using rcd per(2) record_decision_tasks [OF rcd(1)]
    by (intro granted) (simp_all add: spawn_def s1_def s2_def tick_def)
qed

section \<open>A series of grants\<close>

lemma waits_forD:
  assumes "waits_for c r db = Some a"
  obtains run where "run_of c r db = Some run" "rr_status run = WaitingApproval" "a \<in> set (t_approvals db)"
    "open_approval c run a" "rr_id run = r"
  using assms run_of_id by (auto simp: waits_for_def split: option.splits if_splits dest!: find_SomeD)

lemma waits_forI:
  assumes "run_of c r db = Some run" "rr_status run = WaitingApproval" "a \<in> set (t_approvals db)" "open_approval c run a"
  shows "\<exists>b. waits_for c r db = Some b \<and> open_approval c run b"
proof -
  obtain b where "find (open_approval c run) (t_approvals db) = Some b"
    using assms(3,4) by (cases "find (open_approval c run) (t_approvals db)") (auto simp: find_None_iff)
  then show ?thesis using assms(1,2) by (auto simp: waits_for_def dest: find_SomeD)
qed

text \<open>A granted request: its task resumes the run, which ends or waits at a later step with a new open request.\<close>

lemma grant_step:
  assumes h: "healthy R c r d (as_ws s)" and pos: "0 < ws_permits (as_ws s)"
    and w: "waits_for c r (ws_db (as_ws s)) = Some a" "unat (ap_step_index a) < 2 ^ 31"
    and ev: "grants R ev a" "ev_id ev \<notin> evr_id ` set (as_events s)"
    and run: "handle_approval_grant R c ev self s = (Ok v, s')"
  defines "t \<equiv> perform_spawned R (length (as_tasks s)) s'"
  assumes fresh: "tokens_fresh R N (as_ws s)" "ws_n (as_ws t) \<le> N"
  shows "as_tasks t = as_tasks s @ [ResumeRun c r (ap_workflow_id a) (Suc (unat (ap_step_index a)))]"
    "evr_id ` set (as_events t) = insert (ev_id ev) (evr_id ` set (as_events s))"
    "healthy R c r d (as_ws t)" "0 < ws_permits (as_ws t)" "tokens_fresh R N (as_ws t)"
    "\<exists>run'. run_of c r (ws_db (as_ws t)) = Some run' \<and> (rr_status run' \<in> {Completed, Failed}
       \<or> (\<exists>b. waits_for c r (ws_db (as_ws t)) = Some b \<and> ap_workflow_id b = ap_workflow_id a
            \<and> unat (ap_step_index a) < unat (ap_step_index b) \<and> unat (ap_step_index b) < length (wd_steps d)))"
proof -
  obtain run where rr: "run_of c r (ws_db (as_ws s)) = Some run" "rr_status run = WaitingApproval"
    "a \<in> set (t_approvals (ws_db (as_ws s)))" "open_approval c run a" "rr_id run = r"
    by (rule waits_forD [OF w(1)])
  have "\<forall>n. db_fault (re_db R) n = None" "db_ok (ws_db (as_ws s))" using h by (auto simp: healthy_def)
  moreover have "ap_community_id a = c" "ap_status a = Pending" using rr(4) by (auto simp: open_approval_def)
  ultimately have g: "as_tasks s' = as_tasks s @ [resume_task c a]"
      "evr_id ` set (as_events s') = insert (ev_id ev) (evr_id ` set (as_events s))"
      "ws_permits (as_ws s') = ws_permits (as_ws s)" "db_ok (ws_db (as_ws s'))"
      "t_runs (ws_db (as_ws s')) = t_runs (ws_db (as_ws s))" "t_workflows (ws_db (as_ws s')) = t_workflows (ws_db (as_ws s))"
      "ap_token ` set (t_approvals (ws_db (as_ws s'))) = ap_token ` set (t_approvals (ws_db (as_ws s)))"
    by (auto elim!: grant_outcome [OF _ _ rr(3) _ _ ev run])
  let ?i = "Suc (unat (ap_step_index a))"
  have task: "resume_task c a = ResumeRun c r (ap_workflow_id a) ?i" and wid: "ap_workflow_id a = rr_workflow_id run"
    using rr(4,5) w(2) by (simp_all add: resume_task_def next_index open_approval_def)
  have eq: "as_ws t = resume_workflow_after_approval R c r (rr_workflow_id run) ?i (as_ws s')"
    using g(1) by (simp add: t_def perform_spawned_def task perform_task_def wid)
  have run': "run_of c r (ws_db (as_ws s')) = Some run" using rr(1) g(5) by (simp add: run_of_def)
  have h': "healthy R c r d (as_ws s')" using h g(4-6) rr(1) run' by (auto simp: healthy_def)
  have fresh': "tokens_fresh R N (as_ws s')"
    by (rule tokens_fresh_later [OF fresh(1) grant_later [OF run]]) (use g(7) in simp)
  have pos': "0 < ws_permits (as_ws s')" using pos g(3) by simp
  have late: "ws_n (resume_workflow_after_approval R c r (rr_workflow_id run) ?i (as_ws s')) \<le> N" using fresh(2) eq by simp
  note step = resume_progress [OF h' pos' run' rr(2) fresh' late, folded eq]
  show "as_tasks t = as_tasks s @ [ResumeRun c r (ap_workflow_id a) ?i]"
    using g(1) by (simp add: t_def perform_spawned_def task)
  show "evr_id ` set (as_events t) = insert (ev_id ev) (evr_id ` set (as_events s))"
    using g(2) by (simp add: t_def perform_spawned_def)
  show "healthy R c r d (as_ws t)" "0 < ws_permits (as_ws t)" "tokens_fresh R N (as_ws t)" using step pos' by auto
  obtain run2 where run2: "run_of c r (ws_db (as_ws t)) = Some run2" "rr_workflow_id run2 = rr_workflow_id run"
    "rr_status run2 \<in> {Completed, Failed} \<or> rr_status run2 = WaitingApproval \<and> ?i \<le> unat (rr_current_step run2)
      \<and> unat (rr_current_step run2) < length (wd_steps d) \<and> (\<exists>b\<in>set (t_approvals (ws_db (as_ws t))). open_approval c run2 b)"
    using step(1) by (auto simp: progressed_def)
  then show "\<exists>run'. run_of c r (ws_db (as_ws t)) = Some run' \<and> (rr_status run' \<in> {Completed, Failed}
       \<or> (\<exists>b. waits_for c r (ws_db (as_ws t)) = Some b \<and> ap_workflow_id b = ap_workflow_id a
            \<and> unat (ap_step_index a) < unat (ap_step_index b) \<and> unat (ap_step_index b) < length (wd_steps d)))"
    using waits_forI [of c r "ws_db (as_ws t)" run2] wid by (fastforce simp: open_approval_def)
qed

lemma grants_each_step:
  assumes "grants_each R decide (Suc k) stored" "evr_id ` set stored' = insert (ev_id (fst (decide k a))) (evr_id ` set stored)"
  shows "grants_each R decide k stored'"
proof -
  have all: "grants R (fst (decide i b)) b \<and> ev_id (fst (decide i b)) \<notin> evr_id ` set stored
      \<and> (\<forall>j<i. \<forall>b'. ev_id (fst (decide j b')) \<noteq> ev_id (fst (decide i b)))" if "i < Suc k" for i b
    using assms(1) that by (simp add: grants_each_def)
  have "grants R (fst (decide i b)) b \<and> ev_id (fst (decide i b)) \<notin> evr_id ` set stored'
      \<and> (\<forall>j<i. \<forall>b'. ev_id (fst (decide j b')) \<noteq> ev_id (fst (decide i b)))" if "i < k" for i b
    using all [of i b] all [of k a] that assms(2) by auto
  then show ?thesis by (simp add: grants_each_def)
qed

text \<open>How a series of grants ends: the run is over, or a grant for the request it waits for was refused.\<close>

definition series_over ::
  "run_env \<Rightarrow> uuid \<Rightarrow> uuid \<Rightarrow> (nat \<Rightarrow> ApprovalRecord \<Rightarrow> Event \<times> bytes) \<Rightarrow> nat \<Rightarrow> app_state \<Rightarrow> bool" where
  "series_over R community run_id decide k s \<longleftrightarrow>
     (\<exists>run. run_of community run_id (ws_db (as_ws s)) = Some run \<and> rr_status run \<in> {Completed, Failed})
     \<or> (\<exists>a. waits_for community run_id (ws_db (as_ws s)) = Some a
          \<and> (\<exists>i<k. refused R (ws_n (as_ws s) - 1) (snd (decide i a)) a))"

lemma grant_all_ends:
  assumes "healthy R c r d (as_ws s)" "0 < ws_permits (as_ws s)"
    "waits_for c r (ws_db (as_ws s)) = Some a" "unat (ap_step_index a) < 2 ^ 31"
    "length (wd_steps d) \<le> unat (ap_step_index a) + k" "0 < k"
    "grants_each R decide k (as_events s)"
    "tokens_fresh R N (as_ws s)" "ws_n (as_ws (grant_all R c r decide k s)) \<le> N"
  shows "series_over R c r decide k (grant_all R c r decide k s)
    \<and> (\<exists>is. as_tasks (grant_all R c r decide k s) = as_tasks s @ map (\<lambda>i. ResumeRun c r (ap_workflow_id a) (Suc i)) is
         \<and> sorted_wrt (<) is \<and> (is = [] \<or> hd is = unat (ap_step_index a)))"
  using assms
proof (induction k arbitrary: s a)
  case (Suc k)
  let ?ga = "grant_all R c r decide (Suc k) s"
  obtain ev self where dec: "decide k a = (ev, self)" by fastforce
  have ev: "grants R ev a" "ev_id ev \<notin> evr_id ` set (as_events s)"
    using Suc.prems(7) dec unfolding grants_each_def by (metis fst_conv lessI)+
  obtain res s' where run: "handle_approval_grant R c ev self s = (res, s')" by fastforce
  show ?case
  proof (cases res)
    case (Inl e)
    have ga: "?ga = s'" using Suc.prems(3) dec run Inl by simp
    obtain rr where rr: "a \<in> set (t_approvals (ws_db (as_ws s)))" "open_approval c rr a"
      by (rule waits_forD [OF Suc.prems(3)])
    have "\<forall>n. db_fault (re_db R) n = None" "db_ok (ws_db (as_ws s))" using Suc.prems(1) by (auto simp: healthy_def)
    moreover have "ap_community_id a = c" "ap_status a = Pending" using rr(2) by (auto simp: open_approval_def)
    ultimately have "refused R (ws_n (as_ws s') - 1) self a" "ws_db (as_ws s') = ws_db (as_ws s)" "as_tasks s' = as_tasks s"
      by (auto elim!: grant_outcome [OF _ _ rr(1) _ _ ev run] simp: Inl)
    then show ?thesis
      using ga Suc.prems(3) dec by (auto simp: series_over_def intro!: exI [of _ k])
  next
    case (Inr v)
    define t where "t = perform_spawned R (length (as_tasks s)) s'"
    have ga: "?ga = grant_all R c r decide k t" using Suc.prems(3) dec run Inr by (simp add: t_def)
    have "ws_n (as_ws t) \<le> N" using grant_all_later [of t R c r decide k] Suc.prems(9) ga by simp
    note step = grant_step [OF Suc.prems(1-4) ev run [unfolded Inr] Suc.prems(8), folded t_def, OF this]
    obtain run' where run': "run_of c r (ws_db (as_ws t)) = Some run'" using step(6) by blast
    show ?thesis
    proof (cases "rr_status run' \<in> {Completed, Failed}")
      case True
      then have "waits_for c r (ws_db (as_ws t)) = None" using run' by (auto simp: waits_for_def)
      then have "grant_all R c r decide k t = t" by (cases k) simp_all
      then show ?thesis
        using True run' step(1) ga by (auto simp: series_over_def intro!: exI [of _ "[unat (ap_step_index a)]"])
    next
      case False
      then obtain b where b: "waits_for c r (ws_db (as_ws t)) = Some b" "ap_workflow_id b = ap_workflow_id a"
          "unat (ap_step_index a) < unat (ap_step_index b)" "unat (ap_step_index b) < length (wd_steps d)"
        using step(6) run' by auto
      have "length (wd_steps d) < 2 ^ 31" using Suc.prems(1) by (simp add: healthy_def)
      moreover have "grants_each R decide k (as_events t)"
        by (rule grants_each_step [OF Suc.prems(7), where a = a]) (use step(2) dec in simp)
      ultimately have IH: "series_over R c r decide k ?ga" "\<exists>is. as_tasks ?ga = as_tasks t @ map (\<lambda>i. ResumeRun c r (ap_workflow_id b) (Suc i)) is
           \<and> sorted_wrt (<) is \<and> (is = [] \<or> hd is = unat (ap_step_index b))"
        using Suc.IH [of t b] step(3-5) b Suc.prems(5,9) ga by auto
      then obtain "is" where "is": "as_tasks ?ga = as_tasks t @ map (\<lambda>i. ResumeRun c r (ap_workflow_id b) (Suc i)) is"
        "sorted_wrt (<) is" "is = [] \<or> hd is = unat (ap_step_index b)" by blast
      have "sorted_wrt (<) (unat (ap_step_index a) # is)"
        using "is"(2,3) b(3) by (cases "is") auto
      moreover have "series_over R c r decide (Suc k) ?ga"
        using IH(1) less_SucI by (fastforce simp: series_over_def)
      ultimately show ?thesis
        using "is"(1) step(1) b(2) by (intro conjI exI [of _ "unat (ap_step_index a) # is"]) simp_all
    qed
  qed
qed simp

text \<open>
  C26. A run whose approvals are granted ends. Let a run wait with an open approval request, the database answer, a
  permit be free, no approval timeout leave the calendar, and the tokens drawn meanwhile be distinct from each other
  and from the stored ones. Well-formed grant commands for the request it waits for, and for every later one, each
  followed by the task it spawns, then leave the run completed or failed after at most as many commands as the
  definition has steps, unless the last one was refused: the request it waits for had expired or its specification
  does not admit the sender. Each granted command spawned one resumption, at the step after the one approved, and
  the approved steps are ever later ones. Whatever actions, conditions and templates do, a granted run does not wait
  without a request that can be granted.
\<close>

theorem approved_run_terminates:
  fixes R community run_id decide d s
  defines "s' \<equiv> grant_all R community run_id decide (length (wd_steps d)) s"
  assumes "healthy R community run_id d (as_ws s)" "0 < ws_permits (as_ws s)"
    and "waits_for community run_id (ws_db (as_ws s)) = Some a" "unat (ap_step_index a) < 2 ^ 31"
    and "grants_each R decide (length (wd_steps d)) (as_events s)" "tokens_fresh R (ws_n (as_ws s')) (as_ws s)"
  shows "series_over R community run_id decide (length (wd_steps d)) s'
    \<and> (\<exists>is. as_tasks s' = as_tasks s @ map (\<lambda>i. ResumeRun community run_id (ap_workflow_id a) (Suc i)) is
         \<and> sorted_wrt (<) is \<and> (is = [] \<or> hd is = unat (ap_step_index a)))"
  unfolding s'_def
proof (rule grant_all_ends [OF assms(2-5) _ _ assms(6) assms(7) [unfolded s'_def] order_refl])
  show "length (wd_steps d) \<le> unat (ap_step_index a) + length (wd_steps d)" by simp
  show "0 < length (wd_steps d)" using assms(2) by (simp add: healthy_def)
qed


section \<open>A run that waits\<close>

definition sample_text_env :: text_env where
  "sample_text_env = \<lparr>te_npub = (\<lambda>_. None), te_json_show = (\<lambda>_. []), te_as_i64 = (\<lambda>_. None), te_as_f64 = (\<lambda>_. None),
     te_uuid_parse = Ok, te_cron_parse = (\<lambda>_. Ok ()), te_eval = (\<lambda>_ _. Evaluated (Ok True))\<rparr>"

text \<open>Bytes and strings of the sample environment: one character a byte.\<close>

definition sample_hex :: "bytes \<Rightarrow> string" where
  "sample_hex b = map (\<lambda>x. char_of (unat x)) b"

definition sample_unhex :: "string \<Rightarrow> bytes" where
  "sample_unhex s = map (\<lambda>c. of_nat (of_char c)) s"

definition sample_db_env :: wf_env where
  "sample_db_env = \<lparr>db_fault = (\<lambda>_. None), db_now = (\<lambda>_. 0), db_uuid = nat_to_string, db_jsonb = (\<lambda>v. v),
     db_json_parse = (\<lambda>_. None), db_sha256 = sample_unhex\<rparr>"

definition sample_def :: WorkflowDef where
  "sample_def = \<lparr>wd_name = ''release'', wd_description = None, wd_trigger = Webhook,
     wd_steps = [\<lparr>st_id = ''ask'', st_name = None, st_if_expr = None, st_timeout_secs = None,
                    st_action = RequestApproval ''any'' ''ship?'' None\<rparr>,
                 \<lparr>st_id = ''wait'', st_name = None, st_if_expr = None, st_timeout_secs = None, st_action = Delay ''1s''\<rparr>],
     wd_enabled = True\<rparr>"

definition sample_env :: run_env where
  "sample_env = \<lparr>re_db = sample_db_env, re_text = sample_text_env, re_default_timeout_secs = 300, re_reqwest = True,
     re_sink = (\<lambda>_. Ok ''event''), re_resolve = (\<lambda>_ _ _. Ok [V4 8 8 8 8]), re_ip_show = (\<lambda>_. []),
     re_http = (\<lambda>_. Ok (200, [])), re_client = (\<lambda>_. Ok ()), re_elapsed = (\<lambda>_. None),
     re_url = (\<lambda>u. Ok (Some u, None)), re_method = (\<lambda>_. Ok ()), re_status_show = nat_to_string,
     re_utf8_lossy = (\<lambda>b. b), re_json_parse = (\<lambda>_. Ok Null), re_var = (\<lambda>_. None), re_hex = sample_hex,
     re_unhex = (\<lambda>s. Some (sample_unhex s)), re_def_of_json = (\<lambda>_. Ok sample_def), re_tc_to_json = (\<lambda>_. Ok Null), re_tc_of_json = (\<lambda>_. None)\<rparr>"

definition sample_request :: ApprovalRecord where
  "sample_request = \<lparr>ap_community_id = ''c'', ap_token = [0], ap_workflow_id = ''w'', ap_run_id = ''r'', ap_step_id = ''ask'',
     ap_step_index = 0, ap_approver_spec = ''any'', ap_status = Pending, ap_approver_pubkey = None, ap_note = None,
     ap_expires_at = 86400 * 10 ^ 9, ap_created_at = 0, ap_granted_at = None, ap_denied_at = None\<rparr>"

definition sample_waiting :: app_state where
  "sample_waiting = \<lparr>as_ws = \<lparr>ws_n = 0,
     ws_db = \<lparr>t_communities = [(''c'', False)], t_users = [(''c'', [])], t_channels = [],
       t_workflows = [\<lparr>wr_id = ''w'', wr_community_id = ''c'', wr_name = ''release'', wr_owner_pubkey = [], wr_channel_id = None,
         wr_definition = Null, wr_definition_hash = [], wr_status = Active, wr_enabled = True, wr_created_at = 0, wr_updated_at = 0\<rparr>],
       t_runs = [\<lparr>rr_id = ''r'', rr_community_id = ''c'', rr_workflow_id = ''w'', rr_status = WaitingApproval,
         rr_trigger_event_id = None, rr_current_step = 0, rr_execution_trace = Array [], rr_trigger_context = None,
         rr_started_at = None, rr_completed_at = None, rr_error_message = None, rr_created_at = 0\<rparr>],
       t_approvals = [sample_request], t_fires = []\<rparr>,
     ws_permits = 1, ws_sink_set = True, ws_effects = []\<rparr>, as_events = [], as_tasks = []\<rparr>"

text \<open>Grants by the empty key, referring to the one stored hash, with their number as event id.\<close>

definition sample_grant :: "nat \<Rightarrow> ApprovalRecord \<Rightarrow> Event \<times> bytes" where
  "sample_grant k a = (\<lparr>ev_id = nat_to_string k, ev_pubkey = [], ev_created_at = 1700000000, ev_kind = KIND_APPROVAL_GRANT,
     ev_tags = [\<lparr>tag_kind = ''d'', tag_content = Some (sample_hex (ap_token a)), tag_slice = []\<rparr>], ev_content = []\<rparr>, [])"

lemma sample_unhex: "sample_unhex (sample_hex b) = b"
proof -
  have "(of_nat (of_char (char_of (unat x) :: char)) :: u8) = x" for x :: u8
    using unsigned_less [of x, where 'a = nat] by (simp add: of_char_of)
  then show ?thesis by (induction b) (simp_all add: sample_hex_def sample_unhex_def)
qed

lemma sample_unhex_inj: "sample_unhex s = sample_unhex t \<Longrightarrow> s = t"
proof -
  have "c = c'" if "(of_nat (of_char c) :: u8) = of_nat (of_char c')" for c c' :: char
  proof -
    have "of_char c < (256 :: nat)" "of_char c' < (256 :: nat)" by simp_all
    then show ?thesis using arg_cong [OF that, of unat] by (simp add: unat_of_nat)
  qed
  then show "sample_unhex s = sample_unhex t \<Longrightarrow> s = t"
    by (induction s arbitrary: t) (auto simp: sample_unhex_def)
qed

lemma sample_tokens: "tokens_fresh sample_env N (as_ws sample_waiting)"
proof -
  have "nat_to_string m = nat_to_string n \<Longrightarrow> m = n" for m n by (metis digits_value_nat_to_string)
  then have "inj (\<lambda>n. sample_unhex (nat_to_string n))" by (auto intro: injI dest: sample_unhex_inj)
  moreover have "[0] \<notin> range (\<lambda>n. sample_unhex (nat_to_string n))"
  proof
    assume "[0] \<in> range (\<lambda>n. sample_unhex (nat_to_string n))"
    then obtain n where "sample_unhex (nat_to_string n) = [0]" by auto
    then have "nat_to_string n = [CHR 0x00]" using sample_unhex_inj [of _ "[CHR 0x00]"] by (simp add: sample_unhex_def)
    then show False using nat_to_string_digits [of "CHR 0x00" n] by (simp add: is_ascii_digit_def)
  qed
  ultimately show ?thesis
    by (auto simp: tokens_fresh_def token_hash_def [abs_def] hash_approval_token_def sample_env_def sample_db_env_def
        sample_waiting_def sample_request_def intro: inj_on_subset)
qed

lemma sample_grants: "grants_each sample_env sample_grant k []"
proof -
  have "nat_to_string m = nat_to_string n \<Longrightarrow> m = n" for m n by (metis digits_value_nat_to_string)
  moreover have "sint (1700000000 :: u64) = 1700000000" by code_simp
  ultimately show ?thesis
    by (auto simp: grants_each_def grants_def sample_grant_def sample_env_def extract_d_tag_def or_else_def sample_unhex
        Let_def MIN_UTC_def MAX_UTC_def)
qed

lemma sample_waits: "waits_for ''c'' ''r'' (ws_db (as_ws sample_waiting)) = Some sample_request"
  by (simp add: waits_for_def run_of_def sample_waiting_def open_approval_def sample_request_def)

lemma sample_healthy: "healthy sample_env ''c'' ''r'' sample_def (as_ws sample_waiting)"
proof -
  have "approval_deadline 0 (case parse_duration_secs ''24h'' of Inl _ \<Rightarrow> 86400 | Inr k \<Rightarrow> k) \<noteq> None"
    by code_simp
  then show ?thesis
    by (simp add: healthy_def sample_env_def sample_db_env_def sample_def_def sample_waiting_def sample_request_def step_fits_def
        db_ok_def workflow_refs_def fire_runs_exist_def run_of_def)
qed

theorem approved_run_terminates_witness:
  "series_over sample_env ''c'' ''r'' sample_grant 2 (grant_all sample_env ''c'' ''r'' sample_grant 2 sample_waiting)"
  using approved_run_terminates [OF sample_healthy _ sample_waits, of sample_grant] sample_grants [of 2] sample_tokens
  by (simp add: sample_waiting_def sample_def_def sample_request_def numeral_2_eq_2)

end
