(* ===== verification/WorkflowTriggers.thy ===== *)
theory WorkflowTriggers
  imports WorkflowApproval
begin

text \<open>
  The doors through which runs are created: channel events (\<open>on_event\<close>) and the scheduler (\<open>run\<close>) of
  \<^verbatim>\<open>crates/lenos-workflow/src/lib.rs\<close>, the manual trigger and the definition command of
  \<^verbatim>\<open>crates/lenos-relay/src/handlers/command_executor.rs\<close>, and the webhook endpoint of
  \<^verbatim>\<open>crates/lenos-relay/src/api/bridge.rs\<close> with \<^verbatim>\<open>webhook_secret.rs\<close>.

  Parameters (\<open>trig_env\<close>), functions of the call number where the answer may change: the owner's current role and
  membership in a channel, whether a channel exists, the community of a host, the \<open>cron\<close> crate's next instant, YAML
  and JSON forms of a definition, and whether the cache has dropped an entry.
\<close>

record trig_env =
  tr_run :: run_env
  tr_role :: "nat \<Rightarrow> uuid \<Rightarrow> uuid \<Rightarrow> bytes \<Rightarrow> (string, string option) result"
  tr_member :: "nat \<Rightarrow> uuid \<Rightarrow> uuid \<Rightarrow> bytes \<Rightarrow> (string, bool) result"
  tr_channel_exists :: "nat \<Rightarrow> uuid \<Rightarrow> uuid \<Rightarrow> bool"
  tr_bind_community :: "nat \<Rightarrow> string \<Rightarrow> uuid option"
  tr_cron_next :: "string \<Rightarrow> instant \<Rightarrow> instant option"
  tr_yaml :: "string \<Rightarrow> (string, WorkflowDef) result"
  tr_def_to_json :: "WorkflowDef \<Rightarrow> (string, string) result"
  tr_evicted :: "nat \<Rightarrow> bool"

record trig_state =
  ts_app :: app_state
  ts_last_fired :: "(uuid \<times> uuid, instant) hmap"
  ts_cache :: "(uuid \<times> uuid, WorkflowRecord list \<times> instant) hmap"

abbreviation ts_n :: "trig_state \<Rightarrow> nat" where "ts_n s \<equiv> ws_n (as_ws (ts_app s))"
abbreviation ts_db :: "trig_state \<Rightarrow> WfDb" where "ts_db s \<equiv> ws_db (as_ws (ts_app s))"
abbreviation tr_db :: "trig_env \<Rightarrow> wf_env" where "tr_db T \<equiv> re_db (tr_run T)"

definition ts_db_call :: "(nat \<Rightarrow> WfDb \<Rightarrow> 'a db_result) \<Rightarrow> trig_state \<Rightarrow> (DbError, 'a) result \<times> trig_state" where
  "ts_db_call f s = (case as_db_call f (ts_app s) of (r, a) \<Rightarrow> (r, s\<lparr>ts_app := a\<rparr>))"

definition ts_tick :: "trig_state \<Rightarrow> trig_state" where
  "ts_tick s = s\<lparr>ts_app := (ts_app s)\<lparr>as_ws := tick (as_ws (ts_app s))\<rparr>\<rparr>"

definition ts_spawn :: "task \<Rightarrow> trig_state \<Rightarrow> trig_state" where
  "ts_spawn t s = s\<lparr>ts_app := spawn t (ts_app s)\<rparr>"

section \<open>Authority of the owner\<close>

definition owner_authority_allows :: "string option \<Rightarrow> bool \<Rightarrow> bool" where
  "owner_authority_allows role needs_elevated =
     (case role of
        None \<Rightarrow> False
      | Some r \<Rightarrow> if needs_elevated then r = ''owner'' \<or> r = ''admin'' else True)"

definition check_owner_authority ::
  "trig_env \<Rightarrow> uuid \<Rightarrow> uuid \<Rightarrow> bytes \<Rightarrow> WorkflowDef \<Rightarrow> trig_state \<Rightarrow> (WorkflowError, unit) result \<times> trig_state" where
  "check_owner_authority T community channel owner d s =
     ((case tr_role T (ts_n s) community channel owner of
         Inl e \<Rightarrow> Err (Unauthorized (''owner authority lookup failed (fail-closed): '' @ e))
       | Inr role \<Rightarrow>
           if owner_authority_allows role (requires_elevated_authority d) then Ok ()
           else Err (Unauthorized ''workflow owner lacks current channel authority'')), ts_tick s)"

section \<open>Channel events\<close>

definition trigger_matches_event :: "TriggerDef \<Rightarrow> nat \<Rightarrow> bool" where
  "trigger_matches_event trigger kind =
     (case trigger of
        MessagePosted _ \<Rightarrow> kind = KIND_STREAM_MESSAGE
      | ReactionAdded _ \<Rightarrow> kind = KIND_REACTION
      | DiffPosted _ \<Rightarrow> kind = KIND_STREAM_MESSAGE_DIFF
      | Schedule _ _ \<Rightarrow> False
      | Webhook \<Rightarrow> False)"

definition filter_passes :: "trig_env \<Rightarrow> string \<Rightarrow> TriggerContext \<Rightarrow> bool" where
  "filter_passes T expr tc = (evaluate_condition (re_text (tr_run T)) expr tc [] = Ok True)"

definition should_fire_workflow :: "trig_env \<Rightarrow> WorkflowDef \<Rightarrow> TriggerContext \<Rightarrow> bool" where
  "should_fire_workflow T d tc =
     (case wd_trigger d of
        ReactionAdded (Some expected) \<Rightarrow> tc_emoji tc = expected
      | MessagePosted (Some expr) \<Rightarrow> filter_passes T expr tc
      | DiffPosted (Some expr) \<Rightarrow> filter_passes T expr tc
      | _ \<Rightarrow> True)"

definition build_trigger_context :: "StoredEvent \<Rightarrow> TriggerContext" where
  "build_trigger_context ev =
     (let e = event ev;
          author = unwrap_or (find_map (\<lambda>t. if tag_kind t = ''actor'' then tag_content t else None) (ev_tags e)) (ev_pubkey e);
          emoji = (if ev_kind e = KIND_REACTION then ev_content e else []);
          message_id =
            (if ev_kind e = KIND_REACTION
             then unwrap_or (find_map (\<lambda>t. if tag_kind t = ''e''
                    then (case tag_content t of None \<Rightarrow> None
                          | Some v \<Rightarrow> if length v = 64 \<and> list_all is_ascii_hexdigit v then Some v else None)
                    else None) (rev (ev_tags e))) (ev_id e)
             else ev_id e)
      in \<lparr>tc_text = ev_content e, tc_author = author, tc_channel_id = unwrap_or (channel_id ev) [],
          tc_timestamp = nat_to_string (ev_created_at e), tc_emoji = emoji, tc_message_id = message_id,
          tc_webhook_fields = []\<rparr>)"

text \<open>One workflow of the list: parse, match, filter, authority, run, task; any refusal goes on to the next.\<close>

definition fire_for_event ::
  "trig_env \<Rightarrow> uuid \<Rightarrow> uuid \<Rightarrow> StoredEvent \<Rightarrow> TriggerContext \<Rightarrow> Value \<Rightarrow> WorkflowRecord \<Rightarrow> trig_state \<Rightarrow> trig_state" where
  "fire_for_event T community channel ev tc tc_json w s =
     (case re_def_of_json (tr_run T) (wr_definition w) of
        Inl _ \<Rightarrow> s
      | Inr d \<Rightarrow>
          if \<not> wd_enabled d \<or> \<not> trigger_matches_event (wd_trigger d) (ev_kind (event ev)) then s
          else if \<not> should_fire_workflow T d tc then s
          else (case check_owner_authority T community channel (wr_owner_pubkey w) d s of
              (Inl _, s) \<Rightarrow> s
            | (Inr _, s) \<Rightarrow>
                (case ts_db_call (\<lambda>n. create_workflow_run (tr_db T) n community (wr_id w)
                        (re_unhex (tr_run T) (ev_id (event ev))) (Some tc_json)) s of
                   (Inl _, s) \<Rightarrow> s
                 | (Inr run_id, s) \<Rightarrow> ts_spawn (RunFromStart community run_id d tc) s)))"

definition CACHE_TTL :: instant where "CACHE_TTL = 10 * 10 ^ 9"

definition cached_workflows :: "trig_env \<Rightarrow> uuid \<times> uuid \<Rightarrow> trig_state \<Rightarrow> WorkflowRecord list option" where
  "cached_workflows T key s =
     (case hm_get (ts_cache s) key of
        None \<Rightarrow> None
      | Some (ws, at) \<Rightarrow>
          if db_now (tr_db T) (ts_n s) - at < CACHE_TTL \<and> \<not> tr_evicted T (ts_n s) then Some ws else None)"

definition lookup_workflows ::
  "trig_env \<Rightarrow> uuid \<Rightarrow> uuid \<Rightarrow> trig_state \<Rightarrow> (WorkflowError, WorkflowRecord list) result \<times> trig_state" where
  "lookup_workflows T community channel s =
     (case cached_workflows T (community, channel) s of
        Some ws \<Rightarrow> (Ok ws, ts_tick s)
      | None \<Rightarrow>
          (case ts_db_call (\<lambda>n. list_enabled_channel_workflows (tr_db T) n community channel) s of
             (Inl e, s) \<Rightarrow> (Err (Database (DbError_display e)), s)
           | (Inr ws, s) \<Rightarrow>
               (Ok ws, s\<lparr>ts_cache := hm_insert (community, channel) (ws, db_now (tr_db T) (ts_n s)) (ts_cache s)\<rparr>)))"

definition on_event ::
  "trig_env \<Rightarrow> uuid \<Rightarrow> StoredEvent \<Rightarrow> trig_state \<Rightarrow> (WorkflowError, unit) result \<times> trig_state" where
  "on_event T community ev s =
     (case channel_id ev of
        None \<Rightarrow> (Ok (), s)
      | Some channel \<Rightarrow>
          if is_workflow_execution_kind (ev_kind (event ev)) then (Ok (), s)
          else (case lookup_workflows T community channel s of
              (Inl e, s) \<Rightarrow> (Err e, s)
            | (Inr ws, s) \<Rightarrow>
                if ws = [] then (Ok (), s)
                else (let tc = build_trigger_context ev
                      in case re_tc_to_json (tr_run T) tc of
                           Inl _ \<Rightarrow> (Ok (), s)
                         | Inr tc_json \<Rightarrow> (Ok (), foldl (\<lambda>s w. fire_for_event T community channel ev tc tc_json w s) s ws))))"

definition invalidate_channel_workflows :: "uuid \<Rightarrow> uuid \<Rightarrow> trig_state \<Rightarrow> trig_state" where
  "invalidate_channel_workflows community channel s = s\<lparr>ts_cache := hm_remove (community, channel) (ts_cache s)\<rparr>"

section \<open>The scheduler\<close>

definition cron_fire_instant :: "trig_env \<Rightarrow> string \<Rightarrow> instant \<Rightarrow> int \<Rightarrow> instant option" where
  "cron_fire_instant T expr now window_secs =
     (case te_cron_parse (re_text (tr_run T)) (normalize_cron expr) of
        Inl _ \<Rightarrow> None
      | Inr _ \<Rightarrow>
          (case tr_cron_next T (normalize_cron expr) (now - window_secs * 10 ^ 9) of
             None \<Rightarrow> None
           | Some t \<Rightarrow> if t \<le> now then Some t else None))"

text \<open>\<open>i64::div_euclid\<close> and \<open>DateTime::timestamp\<close>\<close>

definition div_euclid :: "int \<Rightarrow> int \<Rightarrow> int" where
  "div_euclid a b = (if b > 0 then a div b else - (a div (- b)))"

definition timestamp :: "instant \<Rightarrow> int" where
  "timestamp t = t div 10 ^ 9"

definition interval_fire_instant :: "string \<Rightarrow> instant \<Rightarrow> instant option" where
  "interval_fire_instant dur now =
     (case parse_duration_secs dur of
        Inl _ \<Rightarrow> None
      | Inr interval_secs \<Rightarrow>
          if interval_secs = 0 then None
          else (let secs = sint interval_secs; bucket = div_euclid (timestamp now) secs * secs; t = bucket * 10 ^ 9
                in if t < MIN_UTC \<or> t > MAX_UTC then None else Some t))"

definition interval_should_fire :: "string \<Rightarrow> instant option \<Rightarrow> instant \<Rightarrow> bool" where
  "interval_should_fire dur last_fired now =
     (case parse_duration_secs dur of
        Inl _ \<Rightarrow> False
      | Inr interval_secs \<Rightarrow>
          (let last_at = unwrap_or last_fired now; elapsed = \<bar>now - last_at\<bar> div 10 ^ 9
           in elapsed \<ge> int (unat interval_secs)))"

definition interval_prefilter_should_fire ::
  "(uuid \<times> uuid, instant) hmap \<Rightarrow> uuid \<Rightarrow> uuid \<Rightarrow> string \<Rightarrow> instant option \<Rightarrow> instant \<Rightarrow>
   bool \<times> (uuid \<times> uuid, instant) hmap" where
  "interval_prefilter_should_fire last_fired community workflow dur last_at now =
     (if interval_should_fire dur last_at now then (True, last_fired)
      else if last_at = None then (False, hm_insert (community, workflow) now last_fired)
      else (False, last_fired))"

text \<open>The instant a tick fires a workflow for, and whether it is an interval's.\<close>

definition due_instant ::
  "trig_env \<Rightarrow> instant \<Rightarrow> WorkflowRecord \<Rightarrow> WorkflowDef \<Rightarrow> trig_state \<Rightarrow> (instant \<times> bool) option \<times> trig_state" where
  "due_instant T now w d s =
     (case wd_trigger d of
        Schedule (Some expr) None \<Rightarrow>
          ((case cron_fire_instant T expr now 60 of None \<Rightarrow> None | Some t \<Rightarrow> Some (t, False)), s)
      | Schedule None (Some dur) \<Rightarrow>
          (let key = (wr_community_id w, wr_id w);
               (last_at, s) = (case hm_get (ts_last_fired s) key of
                   Some t \<Rightarrow> (Some t, s)
                 | None \<Rightarrow>
                     (case ts_db_call (\<lambda>n. latest_scheduled_workflow_fire (tr_db T) n (wr_community_id w) (wr_id w)) s of
                        (Inl _, s) \<Rightarrow> (None, s) | (Inr anchor, s) \<Rightarrow> (anchor, s)));
               (fire, lf) = interval_prefilter_should_fire (ts_last_fired s) (wr_community_id w) (wr_id w) dur last_at now;
               s = s\<lparr>ts_last_fired := lf\<rparr>
           in if \<not> fire then (None, s)
              else ((case interval_fire_instant dur now of None \<Rightarrow> None | Some t \<Rightarrow> Some (t, True)), s))
      | _ \<Rightarrow> (None, s))"

definition note_fired :: "bool \<Rightarrow> WorkflowRecord \<Rightarrow> instant \<Rightarrow> trig_state \<Rightarrow> trig_state" where
  "note_fired is_interval w now s =
     (if is_interval then s\<lparr>ts_last_fired := hm_insert (wr_community_id w, wr_id w) now (ts_last_fired s)\<rparr> else s)"

text \<open>The body of the loop over the scheduled workflows: due, authority, claim, run, link, task.\<close>

definition tick_workflow :: "trig_env \<Rightarrow> instant \<Rightarrow> WorkflowRecord \<Rightarrow> trig_state \<Rightarrow> trig_state" where
  "tick_workflow T now w s =
     (case re_def_of_json (tr_run T) (wr_definition w) of
        Inl _ \<Rightarrow> s
      | Inr d \<Rightarrow>
          if \<not> wd_enabled d then s
          else (case wr_channel_id w of
              None \<Rightarrow> s
            | Some channel \<Rightarrow>
                (case due_instant T now w d s of
                   (None, s) \<Rightarrow> s
                 | (Some (scheduled_for, is_interval), s) \<Rightarrow>
                     (case check_owner_authority T (wr_community_id w) channel (wr_owner_pubkey w) d s of
                        (Inl _, s) \<Rightarrow> s
                      | (Inr _, s) \<Rightarrow>
                          (case ts_db_call (\<lambda>n. claim_scheduled_workflow_fire (tr_db T) n (wr_community_id w) (wr_id w)
                                  scheduled_for) s of
                             (Inl _, s) \<Rightarrow> s
                           | (Inr None, s) \<Rightarrow> note_fired is_interval w now s
                           | (Inr (Some _), s) \<Rightarrow>
                               (let tc = default_trigger_context\<lparr>tc_channel_id := channel,
                                           tc_timestamp := int_to_string (timestamp now)\<rparr>
                                in case re_tc_to_json (tr_run T) tc of
                                     Inl _ \<Rightarrow> s
                                   | Inr tc_json \<Rightarrow>
                                       (case ts_db_call (\<lambda>n. create_workflow_run (tr_db T) n (wr_community_id w) (wr_id w)
                                               None (Some tc_json)) s of
                                          (Inl _, s) \<Rightarrow> s
                                        | (Inr run_id, s) \<Rightarrow>
                                            (let s = snd (ts_db_call (\<lambda>n. attach_scheduled_workflow_run (tr_db T) n
                                                   (wr_community_id w) (wr_id w) scheduled_for run_id) s)
                                             in ts_spawn (RunFromStart (wr_community_id w) run_id d tc)
                                                  (note_fired is_interval w now s)))))))))"

text \<open>One turn of the 60-second loop.\<close>

definition scheduler_tick :: "trig_env \<Rightarrow> trig_state \<Rightarrow> trig_state" where
  "scheduler_tick T s =
     (let now = db_now (tr_db T) (ts_n s)
      in case ts_db_call (\<lambda>n. list_all_enabled_workflows (tr_db T) n) (ts_tick s) of
           (Inl _, s) \<Rightarrow> s
         | (Inr ws, s) \<Rightarrow>
             (let s = foldl (\<lambda>s w. tick_workflow T now w s) s ws; active = map wf_key ws
              in s\<lparr>ts_last_fired := hm_retain (\<lambda>key _. key \<in> set active) (ts_last_fired s)\<rparr>))"

section \<open>Webhook secrets\<close>

definition inject_secret :: "Value \<Rightarrow> string \<Rightarrow> Value" where
  "inject_secret d secret =
     (case d of Object m \<Rightarrow> Object (hm_insert ''_webhook_secret'' (String secret) m) | _ \<Rightarrow> d)"

definition extract_secret :: "Value \<Rightarrow> string option" where
  "extract_secret d =
     (case d of
        Object m \<Rightarrow> (case hm_get m ''_webhook_secret'' of Some (String s) \<Rightarrow> Some s | _ \<Rightarrow> None)
      | _ \<Rightarrow> None)"

definition strip_secret :: "Value \<Rightarrow> Value" where
  "strip_secret d =
     (case d of Object m \<Rightarrow> Object (filter (\<lambda>(k, v). k \<noteq> ''_webhook_secret'') m) | _ \<Rightarrow> d)"

definition char_byte :: "char \<Rightarrow> u8" where
  "char_byte c = of_nat (of_char c)"

definition verify_secret :: "string \<Rightarrow> string \<Rightarrow> bool" where
  "verify_secret provided stored =
     (if length provided \<noteq> length stored then False
      else foldl (\<lambda>r (a, b). or r (xor (char_byte a) (char_byte b))) 0 (zip provided stored) = 0)"

section \<open>Manual triggers\<close>

text \<open>The fields of a JSON object as strings.\<close>

definition body_fields :: "run_env \<Rightarrow> Value \<Rightarrow> (string, string) hmap" where
  "body_fields R v =
     (case v of
        Object m \<Rightarrow> foldl (\<lambda>h (k, x). hm_insert k (case x of String t \<Rightarrow> t | _ \<Rightarrow> te_json_show (re_text R) x) h) [] m
      | _ \<Rightarrow> [])"

definition ok_of :: "('e, 'a) result \<Rightarrow> 'a option" where
  "ok_of r = (case r of Inl _ \<Rightarrow> None | Inr a \<Rightarrow> Some a)"

definition ts_lift :: "(app_state \<Rightarrow> 'a \<times> app_state) \<Rightarrow> trig_state \<Rightarrow> 'a \<times> trig_state" where
  "ts_lift f s = (case f (ts_app s) of (r, a) \<Rightarrow> (r, s\<lparr>ts_app := a\<rparr>))"

definition handle_workflow_trigger ::
  "trig_env \<Rightarrow> uuid \<Rightarrow> Event \<Rightarrow> bytes \<Rightarrow> trig_state \<Rightarrow> (IngestError, IngestResult) result \<times> trig_state" where
  "handle_workflow_trigger T community ev self_bytes s =
     (let R = tr_run T
      in case or_else (extract_d_tag ev) (extract_e_tag ev) of
           None \<Rightarrow> (Err (Rejected ''invalid: missing workflow reference (d or e tag)''), s)
         | Some workflow_id_str \<Rightarrow>
             (case te_uuid_parse (re_text R) workflow_id_str of
                Inl _ \<Rightarrow> (Err (Rejected ''invalid: bad workflow_id format''), s)
              | Inr workflow_id \<Rightarrow>
                  (case ts_db_call (\<lambda>n. get_workflow (tr_db T) n community workflow_id) s of
                     (Inl _, s) \<Rightarrow> (Err (Rejected ''invalid: workflow not found''), s)
                   | (Inr w, s) \<Rightarrow>
                       if wr_owner_pubkey w \<noteq> self_bytes
                       then (Err (Rejected ''forbidden: not authorized to trigger this workflow''), s)
                       else if \<not> wr_enabled w \<or> wr_status w \<noteq> Active
                       then (Err (Rejected ''forbidden: workflow is disabled or inactive''), s)
                       else (case re_def_of_json R (wr_definition w) of
                           Inl e \<Rightarrow> (Err (Internal (''error: corrupt workflow definition: '' @ e)), s)
                         | Inr d \<Rightarrow>
                             (case wr_channel_id w of
                                None \<Rightarrow> (Err (Rejected ''forbidden: workflow has no channel scope''), s)
                              | Some channel \<Rightarrow>
                                  (case check_owner_authority T community channel (wr_owner_pubkey w) d s of
                                     (Inl _, s) \<Rightarrow> (Err (Rejected ''forbidden: not authorized to trigger this workflow''), s)
                                   | (Inr _, s) \<Rightarrow>
                                       (case ts_lift (persist_command_event R community ev (wr_channel_id w)) s of
                                          (Inl e, s) \<Rightarrow> (Err e, s)
                                        | (Inr Duplicate, s) \<Rightarrow> (Ok (duplicate_result ev), s)
                                        | (Inr (Inserted tx), s) \<Rightarrow>
                                            (let fields = (if ev_content ev = [] then []
                                                   else (case re_json_parse R (ev_content ev) of Inl _ \<Rightarrow> []
                                                         | Inr v \<Rightarrow> body_fields R v));
                                                 tc = default_trigger_context\<lparr>tc_channel_id := channel,
                                                   tc_author := re_hex R self_bytes, tc_webhook_fields := fields\<rparr>
                                             in case ts_db_call (\<lambda>n. create_workflow_run (tr_db T) n community workflow_id
                                                       (re_unhex R (ev_id ev)) (ok_of (re_tc_to_json R tc))) s of
                                                  (Inl e, s) \<Rightarrow>
                                                    (Err (Internal (''error: db create_workflow_run: '' @ DbError_display e)), s)
                                                | (Inr run_id, s) \<Rightarrow>
                                                    (case ts_lift (commit_tx R tx) s of
                                                       (Inl e, s) \<Rightarrow> (Err e, s)
                                                     | (Inr _, s) \<Rightarrow>
                                                         (Ok \<lparr>ir_event_id = ev_id ev, ir_accepted = True,
                                                              ir_message = ''response:'' @ te_json_show (re_text R)
                                                                (Object [(''run_id'', String run_id)])\<rparr>,
                                                          ts_spawn (RunStored community run_id (wr_definition w) tc) s))))))))))"

section \<open>The webhook endpoint\<close>

datatype http_status = BAD_REQUEST | NOT_FOUND | UNAUTHORIZED | INTERNAL | ACCEPTED

text \<open>The request: the path's id, the \<open>Host\<close> and \<open>X-Webhook-Secret\<close> headers, the \<open>secret\<close> query parameter, the body.\<close>

record webhook_request =
  wq_id :: string
  wq_host :: "string option"
  wq_secret_header :: "string option"
  wq_secret_query :: "string option"
  wq_body :: string

definition workflow_webhook ::
  "trig_env \<Rightarrow> webhook_request \<Rightarrow> trig_state \<Rightarrow> (http_status \<times> string, Value) result \<times> trig_state" where
  "workflow_webhook T q s =
     (let R = tr_run T; missing = (NOT_FOUND, ''workflow not found'')
      in case te_uuid_parse (re_text R) (wq_id q) of
           Inl _ \<Rightarrow> (Err (BAD_REQUEST, ''invalid workflow UUID''), s)
         | Inr wid \<Rightarrow>
             (case tr_bind_community T (ts_n s) (unwrap_or (wq_host q) []) of
                None \<Rightarrow> (Err missing, ts_tick s)
              | Some community \<Rightarrow>
                  (case ts_db_call (\<lambda>n. get_workflow (tr_db T) n community wid) (ts_tick s) of
                     (Inl _, s) \<Rightarrow> (Err missing, s)
                   | (Inr w, s) \<Rightarrow>
                       (case re_def_of_json R (wr_definition w) of
                          Inl e \<Rightarrow> (Err (INTERNAL, ''corrupt workflow definition: '' @ e), s)
                        | Inr d \<Rightarrow>
                            if wd_trigger d \<noteq> Webhook
                            then (Err (BAD_REQUEST, ''workflow does not have a webhook trigger''), s)
                            else (case extract_secret (wr_definition w) of
                                None \<Rightarrow> (Err (UNAUTHORIZED, ''webhook secret required but not configured '' @ em_dash
                                    @ '' re-save the workflow to generate one''), s)
                              | Some secret \<Rightarrow>
                                  if \<not> verify_secret (unwrap_or (or_else (wq_secret_header q) (wq_secret_query q)) []) secret
                                  then (Err (UNAUTHORIZED, ''authentication failed''), s)
                                  else (case (if wq_body q = [] then Ok None
                                              else (case re_json_parse R (wq_body q) of Inl e \<Rightarrow> Err e | Inr v \<Rightarrow> Ok (Some v))) of
                                      Inl e \<Rightarrow> (Err (BAD_REQUEST, ''invalid JSON body: '' @ e), s)
                                    | Inr body_json \<Rightarrow>
                                        (let tc = default_trigger_context\<lparr>tc_channel_id := unwrap_or (wr_channel_id w) [],
                                               tc_webhook_fields := (case body_json of None \<Rightarrow> [] | Some v \<Rightarrow> body_fields R v)\<rparr>
                                         in if \<not> wr_enabled w \<or> wr_status w \<noteq> Active then (Err missing, s)
                                            else (case wr_channel_id w of
                                                None \<Rightarrow> (Err missing, s)
                                              | Some channel \<Rightarrow>
                                                  (case check_owner_authority T community channel (wr_owner_pubkey w) d s of
                                                     (Inl _, s) \<Rightarrow> (Err missing, s)
                                                   | (Inr _, s) \<Rightarrow>
                                                       (case ts_db_call (\<lambda>n. create_workflow_run (tr_db T) n community wid None
                                                               (ok_of (re_tc_to_json R tc))) s of
                                                          (Inl e, s) \<Rightarrow> (Err (INTERNAL, ''db error: '' @ DbError_display e), s)
                                                        | (Inr run_id, s) \<Rightarrow>
                                                            (Ok (Object [(''run_id'', String run_id), (''status'', String ''pending''),
                                                                   (''workflow_id'', String wid)]),
                                                             ts_spawn (RunStored community run_id (wr_definition w) tc) s)))))))))))"

section \<open>Saving a definition\<close>

definition parse_yaml :: "trig_env \<Rightarrow> string \<Rightarrow> (WorkflowError, WorkflowDef \<times> string) result" where
  "parse_yaml T yaml =
     (case tr_yaml T yaml of
        Inl e \<Rightarrow> Err (InvalidYaml e)
      | Inr d \<Rightarrow>
          res_bind (validate_def (re_text (tr_run T)) d) (\<lambda>_.
            (case tr_def_to_json T d of Inl e \<Rightarrow> Err (InvalidDefinition e) | Inr json \<Rightarrow> Ok (d, json))))"

definition compute_definition_hash :: "trig_env \<Rightarrow> string \<Rightarrow> bytes" where
  "compute_definition_hash T json_str = db_sha256 (tr_db T) json_str"

text \<open>The channel and the workflow a definition event names.\<close>

definition definition_target :: "run_env \<Rightarrow> Event \<Rightarrow> (IngestError, uuid \<times> uuid) result" where
  "definition_target R ev =
     res_bind (ok_or (extract_h_tag ev) (Rejected ''invalid: missing h tag (channel_id)'')) (\<lambda>channel_str.
     res_bind (case te_uuid_parse (re_text R) channel_str of
                 Inl _ \<Rightarrow> Err (Rejected ''invalid: bad channel_id format'') | Inr c \<Rightarrow> Ok c) (\<lambda>channel.
     res_bind (ok_or (extract_d_tag ev) (Rejected ''invalid: missing d tag (workflow_id)'')) (\<lambda>workflow_str.
     res_bind (case te_uuid_parse (re_text R) workflow_str of
                 Inl _ \<Rightarrow> Err (Rejected ''invalid: bad workflow_id format'') | Inr w \<Rightarrow> Ok w) (\<lambda>wid.
     Ok (channel, wid)))))"

text \<open>The role a definition with \<open>call_webhook\<close> actions needs to be saved.\<close>

definition check_save_role ::
  "trig_env \<Rightarrow> uuid \<Rightarrow> uuid \<Rightarrow> bytes \<Rightarrow> WorkflowDef \<Rightarrow> trig_state \<Rightarrow> (IngestError, unit) result \<times> trig_state" where
  "check_save_role T community channel self_bytes d s =
     (if \<not> requires_elevated_authority d then (Ok (), s)
      else ((case tr_role T (ts_n s) community channel self_bytes of
               Inl e \<Rightarrow> Err (Internal (''error: role check: '' @ e))
             | Inr r \<Rightarrow>
                 if r = Some ''owner'' \<or> r = Some ''admin'' then Ok ()
                 else Err (Rejected ''forbidden: workflows with call_webhook actions require the owner or admin role'')),
            ts_tick s))"

text \<open>The stored workflow of that id, if any, which must have the same owner and channel.\<close>

definition existing_workflow ::
  "bytes \<Rightarrow> uuid \<Rightarrow> (DbError, WorkflowRecord) result \<Rightarrow> (IngestError, WorkflowRecord option) result" where
  "existing_workflow self_bytes channel found =
     (case found of
        Inr w \<Rightarrow> if wr_owner_pubkey w \<noteq> self_bytes \<or> wr_channel_id w \<noteq> Some channel
                 then Err (Rejected ''forbidden: workflow belongs to a different owner or channel'') else Ok (Some w)
      | Inl (NotFound _) \<Rightarrow> Ok None
      | Inl e \<Rightarrow> Err (Internal (''error: db get_workflow: '' @ DbError_display e)))"

text \<open>The definition as stored, and the secret to report: an existing secret survives, a first one is drawn.\<close>

definition with_secret :: "WorkflowDef \<Rightarrow> Value \<Rightarrow> string option \<Rightarrow> string \<Rightarrow> Value \<times> string option" where
  "with_secret d definition_json old_secret fresh =
     (if wd_trigger d = Webhook
      then (inject_secret definition_json (unwrap_or old_secret fresh), if old_secret = None then Some fresh else None)
      else (definition_json, None))"

definition store_definition ::
  "trig_env \<Rightarrow> uuid \<Rightarrow> Event \<Rightarrow> bytes \<Rightarrow> uuid \<Rightarrow> uuid \<Rightarrow> WorkflowDef \<Rightarrow> Value \<times> string option \<Rightarrow> trig_state \<Rightarrow>
   (IngestError, IngestResult) result \<times> trig_state" where
  "store_definition T community ev self_bytes channel wid d prepared s =
     (let R = tr_run T; final_json = te_json_show (re_text R) (fst prepared)
      in case ts_lift (persist_command_event R community ev None) s of
           (Inl e, s) \<Rightarrow> (Err e, s)
         | (Inr Duplicate, s) \<Rightarrow> (Ok (duplicate_result ev), s)
         | (Inr (Inserted tx), s) \<Rightarrow>
             if \<not> tr_channel_exists T (ts_n s) community channel
             then (Err (Rejected ''invalid: workflow channel not found''), ts_tick s)
             else (case ts_db_call (\<lambda>n. upsert_workflow (tr_db T) n community wid (Some channel) self_bytes
                       (unwrap_or (extract_tag ev ''name'') (wd_name d)) final_json
                       (compute_definition_hash T final_json)) (ts_tick s) of
                 (Inl (AccessDenied _), s) \<Rightarrow>
                   (Err (Rejected ''forbidden: workflow belongs to a different owner or channel''), s)
               | (Inl e, s) \<Rightarrow> (Err (Internal (''error: db upsert_workflow: '' @ DbError_display e)), s)
               | (Inr _, s) \<Rightarrow>
                   (case ts_lift (commit_tx R tx) (invalidate_channel_workflows community channel s) of
                      (Inl e, s) \<Rightarrow> (Err e, s)
                    | (Inr _, s) \<Rightarrow>
                        (Ok \<lparr>ir_event_id = ev_id ev, ir_accepted = True,
                             ir_message = ''response:'' @ te_json_show (re_text R)
                               (Object ((case snd prepared of None \<Rightarrow> [] | Some x \<Rightarrow> [(''webhook_secret'', String x)])
                                        @ [(''workflow_id'', String wid)]))\<rparr>, s))))"

definition handle_workflow_def ::
  "trig_env \<Rightarrow> uuid \<Rightarrow> Event \<Rightarrow> bytes \<Rightarrow> trig_state \<Rightarrow> (IngestError, IngestResult) result \<times> trig_state" where
  "handle_workflow_def T community ev self_bytes s =
     (case definition_target (tr_run T) ev of
        Inl e \<Rightarrow> (Err e, s)
      | Inr (channel, wid) \<Rightarrow>
          (case tr_member T (ts_n s) community channel self_bytes of
             Inl e \<Rightarrow> (Err (Internal (''error: membership check: '' @ e)), ts_tick s)
           | Inr is_member \<Rightarrow>
               if \<not> is_member then (Err (Rejected ''forbidden: not a member of this channel''), ts_tick s)
               else (case parse_yaml T (ev_content ev) of
                   Inl e \<Rightarrow>
                     (Err (Rejected (''invalid: workflow YAML parse error: '' @ WorkflowError_display e)), ts_tick s)
                 | Inr (d, json_str) \<Rightarrow>
                     (case check_save_role T community channel self_bytes d (ts_tick s) of
                        (Inl e, s) \<Rightarrow> (Err e, s)
                      | (Inr _, s) \<Rightarrow>
                          (case re_json_parse (tr_run T) json_str of
                             Inl e \<Rightarrow> (Err (Internal (''error: json parse of definition: '' @ e)), s)
                           | Inr definition_json \<Rightarrow>
                               (case ts_db_call (\<lambda>n. get_workflow (tr_db T) n community wid) s of
                                  (found, s) \<Rightarrow>
                                    (case existing_workflow self_bytes channel found of
                                       Inl e \<Rightarrow> (Err e, s)
                                     | Inr existing \<Rightarrow>
                                         store_definition T community ev self_bytes channel wid d
                                           (with_secret d definition_json
                                              (Option.bind existing (\<lambda>w. extract_secret (wr_definition w)))
                                              (db_uuid (tr_db T) (ts_n s))) (ts_tick s))))))))"

section \<open>Every door checks the owner\<close>

definition task_run :: "task \<Rightarrow> uuid \<times> uuid" where
  "task_run t = (case t of RunFromStart c r _ _ \<Rightarrow> (c, r) | RunStored c r _ _ \<Rightarrow> (c, r) | ResumeRun c r _ _ \<Rightarrow> (c, r) | CancelRun c r _ \<Rightarrow> (c, r))"

text \<open>
  A run is authorised when the role its workflow's owner held in the channel, looked up between calls \<open>lo\<close> and \<open>hi\<close>,
  allows the definition: a member for ordinary definitions, owner or admin for those with \<open>call_webhook\<close> actions.
\<close>

definition authorised_run :: "trig_env \<Rightarrow> (uuid \<times> uuid \<times> WorkflowRecord) set \<Rightarrow> nat \<Rightarrow> nat \<Rightarrow> WorkflowRunRecord \<Rightarrow> bool" where
  "authorised_run T ws lo hi r \<longleftrightarrow>
     (\<exists>channel w d n role. (rr_community_id r, channel, w) \<in> ws \<and> rr_workflow_id r = wr_id w \<and> rr_status r = RunPending
        \<and> re_def_of_json (tr_run T) (wr_definition w) = Ok d \<and> lo \<le> n \<and> n < hi
        \<and> tr_role T n (rr_community_id r) channel (wr_owner_pubkey w) = Ok role
        \<and> owner_authority_allows role (requires_elevated_authority d))"

text \<open>From one state to a later one, only authorised runs were added, and only their tasks spawned.\<close>

definition runs_by_authority :: "trig_env \<Rightarrow> (uuid \<times> uuid \<times> WorkflowRecord) set \<Rightarrow> trig_state \<Rightarrow> trig_state \<Rightarrow> bool" where
  "runs_by_authority T ws s s' \<longleftrightarrow> ts_n s \<le> ts_n s' \<and>
     (\<exists>new tasks. t_runs (ts_db s') = t_runs (ts_db s) @ new \<and> list_all (authorised_run T ws (ts_n s) (ts_n s')) new
        \<and> as_tasks (ts_app s') = as_tasks (ts_app s) @ tasks \<and> set (map task_run tasks) \<subseteq> set (map run_key new))"

lemma authorised_run_mono: "authorised_run T ws lo hi r \<Longrightarrow> lo' \<le> lo \<Longrightarrow> hi \<le> hi' \<Longrightarrow> authorised_run T ws lo' hi' r"
  unfolding authorised_run_def by (meson le_trans less_le_trans)

lemma runs_by_authority_same:
  "ts_n s \<le> ts_n s' \<Longrightarrow> t_runs (ts_db s') = t_runs (ts_db s) \<Longrightarrow> as_tasks (ts_app s') = as_tasks (ts_app s) \<Longrightarrow> runs_by_authority T ws s s'"
  by (simp add: runs_by_authority_def)

lemma runs_by_authority_refl [simp]: "runs_by_authority T ws s s"
  by (simp add: runs_by_authority_same)

lemma runs_by_authority_trans:
  assumes "runs_by_authority T ws s t" "runs_by_authority T ws t u"
  shows "runs_by_authority T ws s u"
proof -
  obtain n1 k1 where 1: "ts_n s \<le> ts_n t" "t_runs (ts_db t) = t_runs (ts_db s) @ n1" "list_all (authorised_run T ws (ts_n s) (ts_n t)) n1"
    "as_tasks (ts_app t) = as_tasks (ts_app s) @ k1" "set (map task_run k1) \<subseteq> set (map run_key n1)"
    using assms(1) by (auto simp: runs_by_authority_def)
  obtain n2 k2 where 2: "ts_n t \<le> ts_n u" "t_runs (ts_db u) = t_runs (ts_db t) @ n2" "list_all (authorised_run T ws (ts_n t) (ts_n u)) n2"
    "as_tasks (ts_app u) = as_tasks (ts_app t) @ k2" "set (map task_run k2) \<subseteq> set (map run_key n2)"
    using assms(2) by (auto simp: runs_by_authority_def)
  have "list_all (authorised_run T ws (ts_n s) (ts_n u)) (n1 @ n2)"
    using 1(1,3) 2(1,3) by (auto simp: list_all_iff intro: authorised_run_mono)
  moreover have "set (map task_run (k1 @ k2)) \<subseteq> set (map run_key (n1 @ n2))"
    using 1(5) 2(5) by auto
  ultimately show ?thesis
    unfolding runs_by_authority_def using 1(1,2,4) 2(1,2,4)
    by (intro conjI exI [where x = "n1 @ n2"] exI [where x = "k1 @ k2"]) auto
qed

lemma ts_db_call_read:
  assumes "ts_db_call f s = (res, s')" "\<And>n db. snd (f n db) = db"
  shows "s' = ts_tick s"
proof -
  obtain r db where f: "f (ts_n s) (ts_db s) = (r, db)" by fastforce
  then have "db = ts_db s" using assms(2) [of "ts_n s" "ts_db s"] by simp
  then show ?thesis
    using assms(1) f by (auto simp: ts_db_call_def as_db_call_def db_call_def ts_tick_def tick_def)
qed

lemma ts_tick_simps [simp]:
  "ts_n (ts_tick s) = Suc (ts_n s)" "ts_db (ts_tick s) = ts_db s" "as_tasks (ts_app (ts_tick s)) = as_tasks (ts_app s)"
  "ts_cache (ts_tick s) = ts_cache s" "ts_last_fired (ts_tick s) = ts_last_fired s"
  by (simp_all add: ts_tick_def tick_def)

lemma check_owner_authority_state: "check_owner_authority T c ch ow d s = (res, s') \<Longrightarrow> s' = ts_tick s"
  by (simp add: check_owner_authority_def)

lemma check_owner_authority_adds_none: "check_owner_authority T c ch ow d s = (res, s') \<Longrightarrow> runs_by_authority T ws s s'"
  by (drule check_owner_authority_state) (simp add: runs_by_authority_same)

lemma check_owner_authority_Ok:
  "check_owner_authority T c ch ow d s = (Ok u, s') \<Longrightarrow>
   \<exists>role. tr_role T (ts_n s) c ch ow = Ok role \<and> owner_authority_allows role (requires_elevated_authority d)"
  by (auto simp: check_owner_authority_def split: sum.splits if_splits)

lemma create_run_rows:
  assumes "create_workflow_run E n c w ev ctx db = (res, db')"
  shows "(\<exists>e. res = Err e) \<and> db' = db \<or> (\<exists>i r. res = Ok i \<and> t_runs db' = t_runs db @ [r] \<and> run_key r = (c, i)
    \<and> rr_workflow_id r = w \<and> rr_status r = RunPending \<and> t_workflows db' = t_workflows db \<and> t_fires db' = t_fires db)"
  using assms by (auto simp: create_workflow_run_def stmt_def Let_def split: option.splits if_splits)

text \<open>The common end of every door: authority granted, then the run created.\<close>

lemma authorised_creation:
  assumes auth: "check_owner_authority T c ch (wr_owner_pubkey w) d s = (Ok u, s1)"
    and mid: "ts_n s1 \<le> ts_n s2" "t_runs (ts_db s2) = t_runs (ts_db s1)" "as_tasks (ts_app s2) = as_tasks (ts_app s1)"
    and create: "ts_db_call (\<lambda>n. create_workflow_run (tr_db T) n c (wr_id w) ev ctx) s2 = (res, s3)"
    and known: "(c, ch, w) \<in> ws" "re_def_of_json (tr_run T) (wr_definition w) = Ok d"
  shows "runs_by_authority T ws s s3"
    "res = Ok i \<Longrightarrow> task_run t = (c, i) \<Longrightarrow> ts_n s3 \<le> ts_n s4 \<Longrightarrow> t_runs (ts_db s4) = t_runs (ts_db s3) \<Longrightarrow>
     as_tasks (ts_app s4) = as_tasks (ts_app s3) \<Longrightarrow> runs_by_authority T ws s (ts_spawn t s4)"
proof -
  obtain role where role: "tr_role T (ts_n s) c ch (wr_owner_pubkey w) = Ok role" "owner_authority_allows role (requires_elevated_authority d)"
    using check_owner_authority_Ok [OF auth] by blast
  have s1: "s1 = ts_tick s" using check_owner_authority_state [OF auth] .
  obtain db' where db': "create_workflow_run (tr_db T) (ts_n s2) c (wr_id w) ev ctx (ts_db s2) = (res, db')"
    using create by (auto simp: ts_db_call_def as_db_call_def db_call_def split: prod.splits)
  then have s3: "ts_n s3 = Suc (ts_n s2)" "ts_db s3 = db'" "as_tasks (ts_app s3) = as_tasks (ts_app s2)"
    using create by (auto simp: ts_db_call_def as_db_call_def db_call_def split: prod.splits)
  have auth_run: "authorised_run T ws (ts_n s) hi r"
    if "rr_workflow_id r = wr_id w" "rr_status r = RunPending" "rr_community_id r = c" "ts_n s3 \<le> hi" for r hi
    unfolding authorised_run_def using that known role s1 s3(1) mid(1)
    by (intro exI [of _ ch] exI [of _ w] exI [of _ d] exI [of _ "ts_n s"] exI [of _ role]) auto
  show "runs_by_authority T ws s s3"
    using create_run_rows [OF db'] auth_run s1 s3 mid by (auto simp: runs_by_authority_def)
  show "runs_by_authority T ws s (ts_spawn t s4)" if "res = Ok i" "task_run t = (c, i)" "ts_n s3 \<le> ts_n s4"
      "t_runs (ts_db s4) = t_runs (ts_db s3)" "as_tasks (ts_app s4) = as_tasks (ts_app s3)"
    using create_run_rows [OF db'] auth_run s1 s3 mid that
    by (auto simp: runs_by_authority_def ts_spawn_def spawn_def)
qed

lemma fire_for_event_authority: "(c, ch, w) \<in> ws \<Longrightarrow> runs_by_authority T ws s (fire_for_event T c ch ev tc j w s)"
  unfolding fire_for_event_def
  by (auto split: sum.split prod.split intro: check_owner_authority_adds_none authorised_creation simp: task_run_def)


text \<open>The workflows a state knows, each with the community and the channel it is listed under: table rows and cached lists.\<close>

definition known_workflows :: "trig_state \<Rightarrow> (uuid \<times> uuid \<times> WorkflowRecord) set" where
  "known_workflows s =
     {(c, ch, w). w \<in> set (t_workflows (ts_db s)) \<and> wr_community_id w = c \<and> wr_channel_id w = Some ch}
     \<union> {(c, ch, w). \<exists>ws at. ((c, ch), (ws, at)) \<in> set (ts_cache s) \<and> w \<in> set ws}"

lemma list_enabled_known:
  assumes "list_enabled_channel_workflows E n c ch db = (Ok ws, db')" "w \<in> set ws"
  shows "w \<in> set (t_workflows db) \<and> wr_community_id w = c \<and> wr_channel_id w = Some ch"
  using assms by (auto simp: list_enabled_channel_workflows_def stmt_def split: option.splits dest!: in_set_takeD)

lemma lookup_workflows_adds_none:
  assumes "lookup_workflows T c ch s = (res, s')"
  shows "runs_by_authority T W s s'" "res = Ok ws \<Longrightarrow> w \<in> set ws \<Longrightarrow> (c, ch, w) \<in> known_workflows s"
proof -
  show "runs_by_authority T W s s'"
    using assms by (auto simp: lookup_workflows_def ts_db_call_def as_db_call_def db_call_def list_enabled_channel_workflows_def
        stmt_def split: option.splits prod.splits sum.splits intro!: runs_by_authority_same)
  show "(c, ch, w) \<in> known_workflows s" if "res = Ok ws" "w \<in> set ws"
  proof (cases "cached_workflows T (c, ch) s")
    case None
    then show ?thesis
      using assms that by (auto simp: lookup_workflows_def ts_db_call_def as_db_call_def db_call_def known_workflows_def
          split: prod.splits sum.splits dest!: list_enabled_known)
  next
    case (Some xs)
    then show ?thesis
      using assms that by (auto simp: lookup_workflows_def cached_workflows_def known_workflows_def hm_get_def
          split: option.splits if_splits dest!: map_of_SomeD intro: bexI)
  qed
qed

lemma fire_all_authority:
  "(\<And>w. w \<in> set xs \<Longrightarrow> (c, ch, w) \<in> W) \<Longrightarrow> runs_by_authority T W s (foldl (\<lambda>s w. fire_for_event T c ch ev tc j w s) s xs)"
proof (induction xs arbitrary: s)
  case (Cons w xs)
  then show ?case
    using runs_by_authority_trans [OF fire_for_event_authority [of c ch w W T s ev tc j]] by simp
qed simp

lemma on_event_authority: "runs_by_authority T (known_workflows s) s (snd (on_event T c ev s))"
proof (cases "channel_id ev")
  case (Some ch)
  obtain res t where look: "lookup_workflows T c ch s = (res, t)" by fastforce
  note none = lookup_workflows_adds_none(1) [OF look] and known = lookup_workflows_adds_none(2) [OF look]
  show ?thesis
    using Some look none runs_by_authority_trans [OF none fire_all_authority [OF known]]
    by (auto simp: on_event_def Let_def split: sum.split)
qed (simp add: on_event_def)

lemma ts_lift_persist:
  assumes "ts_lift (persist_command_event R c ev ch) s = (res, s')"
  shows "ts_n s \<le> ts_n s'" "ts_db s' = ts_db s" "as_tasks (ts_app s') = as_tasks (ts_app s)"
  using assms by (auto simp: ts_lift_def split: prod.splits dest: persist_state)

lemma ts_lift_commit:
  assumes "ts_lift (commit_tx R tx) s = (res, s')"
  shows "ts_n s \<le> ts_n s'" "ts_db s' = ts_db s" "as_tasks (ts_app s') = as_tasks (ts_app s)"
  using assms by (auto simp: ts_lift_def split: prod.splits dest: commit_state)

lemma ts_get_workflow:
  assumes "ts_db_call (\<lambda>n. get_workflow (tr_db T) n c i) s = (res, s')"
  shows "s' = ts_tick s" "res = Ok w \<Longrightarrow> w \<in> set (t_workflows (ts_db s)) \<and> wr_community_id w = c \<and> wr_id w = i"
proof -
  show "s' = ts_tick s"
    using assms by (rule ts_db_call_read) (simp add: get_workflow_def stmt_def split: option.split)
  show "w \<in> set (t_workflows (ts_db s)) \<and> wr_community_id w = c \<and> wr_id w = i" if "res = Ok w"
    using assms that
    by (auto simp: ts_db_call_def as_db_call_def db_call_def get_workflow_def stmt_def split: prod.splits option.splits dest!: find_SomeD)
qed

lemma runs_by_authority_tick: "runs_by_authority T W s (ts_tick s)"
  by (simp add: runs_by_authority_same)

lemma runs_by_authority_quiet:
  "runs_by_authority T W s t \<Longrightarrow> ts_n t \<le> ts_n u \<Longrightarrow> ts_db u = ts_db t \<Longrightarrow> as_tasks (ts_app u) = as_tasks (ts_app t) \<Longrightarrow>
   runs_by_authority T W s u"
  by (erule runs_by_authority_trans) (simp add: runs_by_authority_same)

lemma webhook_authority: "runs_by_authority T (known_workflows s) s (snd (workflow_webhook T q s))"
proof -
  have door: "runs_by_authority T (known_workflows s) s s3 \<and>
      (res = Ok i \<longrightarrow> runs_by_authority T (known_workflows s) s (ts_spawn (RunStored c i v tc) s3))"
    if "ts_db_call (\<lambda>n. get_workflow (tr_db T) n c wid) (ts_tick s) = (Ok w, s1)"
      "re_def_of_json (tr_run T) (wr_definition w) = Ok d"
      "check_owner_authority T c ch (wr_owner_pubkey w) d s1 = (Ok u, s2)"
      "ts_db_call (\<lambda>n. create_workflow_run (tr_db T) n c wid None ctx) s2 = (res, s3)" "wr_channel_id w = Some ch" for c wid w s1 d ch u s2 ctx res s3 i v tc
  proof -
    have w: "(c, ch, w) \<in> known_workflows s" "wr_id w = wid" "s1 = ts_tick (ts_tick s)"
      using ts_get_workflow [OF that(1)] that(5) by (auto simp: known_workflows_def)
    have pre: "runs_by_authority T (known_workflows s) s s1"
      using w(3) by (simp add: runs_by_authority_same)
    show ?thesis
      using authorised_creation [OF that(3) order_refl refl refl that(4) [folded w(2)] w(1) that(2)]
        runs_by_authority_trans [OF pre] by (auto simp: task_run_def)
  qed
  have early: "runs_by_authority T (known_workflows s) s s1" if "ts_db_call (\<lambda>n. get_workflow (tr_db T) n c wid) (ts_tick s) = (r, s1)" for c wid r s1
    using ts_get_workflow(1) [OF that] by (simp add: runs_by_authority_same)
  have late: "runs_by_authority T (known_workflows s) s s2"
    if "ts_db_call (\<lambda>n. get_workflow (tr_db T) n c wid) (ts_tick s) = (r, s1)" "check_owner_authority T c ch ow d s1 = (r', s2)"
    for c wid r s1 ch ow d r' s2
    by (rule runs_by_authority_trans [OF early [OF that(1)] check_owner_authority_adds_none [OF that(2)]])
  show ?thesis
    unfolding workflow_webhook_def Let_def
    by (auto split: sum.split option.split prod.split dest: door intro: runs_by_authority_tick early late simp del: split_paired_All)
qed

lemma trigger_authority: "runs_by_authority T (known_workflows s) s (snd (handle_workflow_trigger T c ev self s))"
proof -
  let ?W = "known_workflows s"
  have early: "runs_by_authority T ?W s s1" if "ts_db_call (\<lambda>n. get_workflow (tr_db T) n c wid) s = (r, s1)" for wid r s1
    using ts_get_workflow(1) [OF that] by (simp add: runs_by_authority_tick)
  have checked: "runs_by_authority T ?W s s2"
    if "ts_db_call (\<lambda>n. get_workflow (tr_db T) n c wid) s = (r, s1)" "check_owner_authority T c ch ow d s1 = (r', s2)"
    for wid r s1 ch ow d r' s2
    by (rule runs_by_authority_trans [OF early [OF that(1)] check_owner_authority_adds_none [OF that(2)]])
  have stored: "runs_by_authority T ?W s s3"
    if "ts_db_call (\<lambda>n. get_workflow (tr_db T) n c wid) s = (r, s1)" "check_owner_authority T c ch ow d s1 = (r', s2)"
      "ts_lift (persist_command_event R c ev x) s2 = (r'', s3)" for wid r s1 ch ow d r' s2 R x r'' s3
    using runs_by_authority_quiet [OF checked [OF that(1,2)]] ts_lift_persist [OF that(3)] by blast
  have door: "runs_by_authority T ?W s s4 \<and> (\<forall>R tx r'' s5. ts_lift (commit_tx R tx) s4 = (r'', s5) \<longrightarrow>
      runs_by_authority T ?W s s5 \<and> (\<forall>i v tc. res = Ok i \<longrightarrow> runs_by_authority T ?W s (ts_spawn (RunStored c i v tc) s5)))"
    if "ts_db_call (\<lambda>n. get_workflow (tr_db T) n c wid) s = (Ok w, s1)"
      "re_def_of_json (tr_run T) (wr_definition w) = Ok d"
      "check_owner_authority T c ch (wr_owner_pubkey w) d s1 = (Ok u, s2)"
      "ts_lift (persist_command_event R' c ev x) s2 = (r', s3)"
      "ts_db_call (\<lambda>n. create_workflow_run (tr_db T) n c wid e ctx) s3 = (res, s4)" "wr_channel_id w = Some ch" for wid w s1 d ch u s2 R' x r' s3 e ctx res s4
  proof -
    have w: "(c, ch, w) \<in> ?W" "wr_id w = wid" using ts_get_workflow(2) [OF that(1), of w] that(6) by (auto simp: known_workflows_def)
    have mid: "ts_n s2 \<le> ts_n s3" "t_runs (ts_db s3) = t_runs (ts_db s2)" "as_tasks (ts_app s3) = as_tasks (ts_app s2)"
      using ts_lift_persist [OF that(4)] by auto
    note creation = authorised_creation [OF that(3) mid that(5) [folded w(2)] w(1) that(2)]
    note whole = runs_by_authority_trans [OF early [OF that(1)]]
    show ?thesis
    proof (intro conjI allI impI)
      show made: "runs_by_authority T ?W s s4" by (rule whole [OF creation(1)])
      fix R tx r'' s5 assume commit: "ts_lift (commit_tx R tx) s4 = (r'', s5)"
      show "runs_by_authority T ?W s s5"
        using runs_by_authority_quiet [OF made] ts_lift_commit [OF commit] by blast
      show "runs_by_authority T ?W s (ts_spawn (RunStored c i v tc) s5)" if "res = Ok i" for i v tc
        using whole [OF creation(2), of i "RunStored c i v tc" s5] ts_lift_commit [OF commit] that by (simp add: task_run_def)
    qed
  qed
  show ?thesis
    unfolding handle_workflow_trigger_def Let_def
    by (auto split: sum.split option.split prod.split PersistResult.split dest: door intro: early checked stored simp del: split_paired_All)
qed

section \<open>The scheduler's runs\<close>

text \<open>The number of (community, workflow, instant) triples that have been claimed.\<close>

definition fire_slots :: "WfDb \<Rightarrow> nat" where
  "fire_slots db = card (fire_key ` set (t_fires db))"

lemma fire_slots_attach [simp]:
  "fire_slots (db\<lparr>t_fires := update_rows P (\<lambda>f. f\<lparr>fr_workflow_run_id := r\<rparr>) (t_fires db)\<rparr>) = fire_slots db"
proof -
  have "map fire_key (update_rows P (\<lambda>f. f\<lparr>fr_workflow_run_id := r\<rparr>) xs) = map fire_key xs" for xs
    by (induction xs) (auto simp: update_rows_def)
  then show ?thesis by (simp add: fire_slots_def set_map [symmetric] del: set_map)
qed

lemma fire_slots_claim [simp]:
  "fire_key f \<notin> fire_key ` set (t_fires db) \<Longrightarrow> fire_slots (db\<lparr>t_fires := t_fires db @ [f]\<rparr>) = Suc (fire_slots db)"
  by (simp add: fire_slots_def)

text \<open>Between two states of a tick: the calls that neither create runs nor spawn tasks, and what they do to the fires.\<close>

definition idle :: "trig_state \<Rightarrow> trig_state \<Rightarrow> bool" where
  "idle s s' \<longleftrightarrow> ts_n s \<le> ts_n s' \<and> t_runs (ts_db s') = t_runs (ts_db s) \<and> as_tasks (ts_app s') = as_tasks (ts_app s)
     \<and> fire_slots (ts_db s) \<le> fire_slots (ts_db s')"

lemma idle_refl [simp]: "idle s s"
  by (simp add: idle_def)

lemma idle_trans: "idle s t \<Longrightarrow> idle t u \<Longrightarrow> idle s u"
  by (simp add: idle_def)

lemma idle_authority: "idle s s' \<Longrightarrow> runs_by_authority T W s s'"
  by (simp add: idle_def runs_by_authority_same)

lemma idle_call:
  assumes "ts_db_call f s = (res, s')"
    "\<And>n db. t_runs (snd (f n db)) = t_runs db \<and> fire_slots db \<le> fire_slots (snd (f n db))"
  shows "idle s s'"
proof -
  obtain r db where f: "f (ts_n s) (ts_db s) = (r, db)" by fastforce
  then show ?thesis
    using assms(1) assms(2) [of "ts_n s" "ts_db s"] by (auto simp: ts_db_call_def as_db_call_def db_call_def idle_def)
qed

lemma idle_note_fired [simp]: "idle s (note_fired b w now s)"
  by (simp add: note_fired_def idle_def)

lemma idle_attach: "idle s (snd (ts_db_call (\<lambda>n. attach_scheduled_workflow_run E n c w t r) s))"
proof -
  obtain res s' where call: "ts_db_call (\<lambda>n. attach_scheduled_workflow_run E n c w t r) s = (res, s')" by fastforce
  have "idle s s'"
    by (rule idle_call [OF call]) (simp add: attach_scheduled_workflow_run_def stmt_def Let_def split: option.split)
  then show ?thesis using call by simp
qed

lemma idle_due: "due_instant T now w d s = (res, s') \<Longrightarrow> idle s s'"
proof -
  have look: "idle s t" if "ts_db_call (\<lambda>n. latest_scheduled_workflow_fire E n c i) s = (r, t)" for E c i r t
    by (rule idle_call [OF that]) (simp add: latest_scheduled_workflow_fire_def stmt_def split: option.split list.split)
  have upd: "idle s (t\<lparr>ts_last_fired := lf\<rparr>) = idle s t" for t lf
    by (simp add: idle_def)
  assume "due_instant T now w d s = (res, s')"
  then show ?thesis
    unfolding due_instant_def Let_def
    by (auto simp: upd split: TriggerDef.splits option.splits prod.splits sum.splits if_splits dest: look)
qed

text \<open>A claim either adds exactly one fire or answers that there is nothing to run.\<close>

lemma claim_pays:
  assumes "ts_db_call (\<lambda>n. claim_scheduled_workflow_fire E n c w t) s = (res, s')"
  shows "idle s s'" "res = Ok (Some x) \<Longrightarrow> fire_slots (ts_db s') = Suc (fire_slots (ts_db s))"
proof -
  show "idle s s'"
    by (rule idle_call [OF assms]) (simp add: claim_scheduled_workflow_fire_def stmt_def Let_def split: option.split)
  show "fire_slots (ts_db s') = Suc (fire_slots (ts_db s))" if "res = Ok (Some x)"
    using assms that by (auto simp: ts_db_call_def as_db_call_def db_call_def claim_scheduled_workflow_fire_def stmt_def Let_def
        split: option.splits if_splits)
qed

text \<open>Runs are paid for by fires: none is created without a fire claimed for it.\<close>

definition paid :: "trig_state \<Rightarrow> trig_state \<Rightarrow> bool" where
  "paid s s' \<longleftrightarrow> length (t_runs (ts_db s')) + fire_slots (ts_db s) \<le> length (t_runs (ts_db s)) + fire_slots (ts_db s')"

lemma paid_trans: "paid s t \<Longrightarrow> paid t u \<Longrightarrow> paid s u"
  by (simp add: paid_def)

lemma idle_paid: "idle s s' \<Longrightarrow> paid s s'"
  by (simp add: idle_def paid_def)

definition lawful :: "trig_env \<Rightarrow> (uuid \<times> uuid \<times> WorkflowRecord) set \<Rightarrow> trig_state \<Rightarrow> trig_state \<Rightarrow> bool" where
  "lawful T W s s' \<longleftrightarrow> runs_by_authority T W s s' \<and> paid s s'"

lemma lawful_trans: "lawful T W s t \<Longrightarrow> lawful T W t u \<Longrightarrow> lawful T W s u"
  by (auto simp: lawful_def intro: runs_by_authority_trans paid_trans)

lemma idle_lawful: "idle s s' \<Longrightarrow> lawful T W s s'"
  by (simp add: lawful_def idle_authority idle_paid)

text \<open>One workflow of a tick that came as far as creating its run.\<close>

lemma tick_creation:
  assumes due: "due_instant T now w d s = (Some (t, b), s1)"
    and auth: "check_owner_authority T (wr_community_id w) ch (wr_owner_pubkey w) d s1 = (Ok u, s2)"
    and claim: "ts_db_call (\<lambda>n. claim_scheduled_workflow_fire (tr_db T) n (wr_community_id w) (wr_id w) t) s2 = (Ok (Some x), s3)"
    and create: "ts_db_call (\<lambda>n. create_workflow_run (tr_db T) n (wr_community_id w) (wr_id w) ev ctx) s3 = (res, s4)"
    and known: "(wr_community_id w, ch, w) \<in> W" "re_def_of_json (tr_run T) (wr_definition w) = Ok d"
  shows "lawful T W s s4"
    "res = Ok i \<Longrightarrow> task_run k = (wr_community_id w, i) \<Longrightarrow> idle s4 s5 \<Longrightarrow>
     lawful T W s (ts_spawn k s5)"
proof -
  have s2: "s2 = ts_tick s1" by (rule check_owner_authority_state [OF auth])
  have mid: "ts_n s2 \<le> ts_n s3" "t_runs (ts_db s3) = t_runs (ts_db s2)" "as_tasks (ts_app s3) = as_tasks (ts_app s2)"
    using claim_pays(1) [OF claim] by (auto simp: idle_def)
  note creation = authorised_creation [OF auth mid create known]
  note whole = runs_by_authority_trans [OF idle_authority [OF idle_due [OF due]]]
  obtain db' where db': "create_workflow_run (tr_db T) (ts_n s3) (wr_community_id w) (wr_id w) ev ctx (ts_db s3) = (res, db')"
    "ts_db s4 = db'"
    using create by (auto simp: ts_db_call_def as_db_call_def db_call_def split: prod.splits)
  have s4: "paid s s4"
    using idle_due [OF due] claim_pays [OF claim] create_run_rows [OF db'(1)] db'(2) s2 by (auto simp: paid_def idle_def fire_slots_def)
  then show "lawful T W s s4" using whole [OF creation(1)] by (simp add: lawful_def)
  show "lawful T W s (ts_spawn k s5)"
    if "res = Ok i" "task_run k = (wr_community_id w, i)" "idle s4 s5"
    using whole [OF creation(2), of i k s5] that s4 by (auto simp: lawful_def idle_def paid_def ts_spawn_def spawn_def)
qed

lemma tick_workflow_sound:
  assumes "\<And>ch. wr_channel_id w = Some ch \<Longrightarrow> (wr_community_id w, ch, w) \<in> W"
  shows "lawful T W s (tick_workflow T now w s)"
proof -
  have due: "idle s s1" if "due_instant T now w d s = (r, s1)" for d r s1
    using that by (rule idle_due)
  have auth: "idle s s2" if "due_instant T now w d s = (r, s1)" "check_owner_authority T c ch ow d s1 = (r', s2)" for d r s1 c ch ow r' s2
    using idle_due [OF that(1)] check_owner_authority_state [OF that(2)] by (simp add: idle_def)
  have claim: "idle s s3" if "due_instant T now w d s = (r, s1)" "check_owner_authority T c ch ow d s1 = (r', s2)"
      "ts_db_call (\<lambda>n. claim_scheduled_workflow_fire E n c' i t) s2 = (r'', s3)" for d r s1 c ch ow r' s2 E c' i t r'' s3
    by (rule idle_trans [OF auth [OF that(1,2)] claim_pays(1) [OF that(3)]])
  have noted: "idle s (note_fired b w now s3)" if "idle s s3" for s3 b
    using that by (rule idle_trans) simp
  have late: "idle s4 (note_fired b w now (snd (ts_db_call (\<lambda>n. attach_scheduled_workflow_run E n c i t r) s4)))" for s4 b E c i t r
    by (rule idle_trans [OF idle_attach idle_note_fired])
  note created = tick_creation(2) [OF _ _ _ _ assms _ refl _ late, where k = "RunFromStart (wr_community_id w) i d tc" and i = i for i d tc]
  show ?thesis
    unfolding tick_workflow_def Let_def
    by (auto split: sum.split option.split prod.split simp del: split_paired_All
        dest: tick_creation(1) [OF _ _ _ _ assms] intro: idle_lawful due auth claim noted created simp: task_run_def)
qed

lemma tick_all_lawful:
  "(\<And>w ch. w \<in> set ws \<Longrightarrow> wr_channel_id w = Some ch \<Longrightarrow> (wr_community_id w, ch, w) \<in> W) \<Longrightarrow>
   lawful T W s (foldl (\<lambda>s w. tick_workflow T now w s) s ws)"
proof (induction ws arbitrary: s)
  case (Cons w ws)
  have "lawful T W s (tick_workflow T now w s)" by (rule tick_workflow_sound) (simp add: Cons.prems)
  moreover have "lawful T W (tick_workflow T now w s) (foldl (\<lambda>s w. tick_workflow T now w s) (tick_workflow T now w s) ws)"
    by (rule Cons.IH) (simp add: Cons.prems)
  ultimately show ?case by (simp add: lawful_trans)
qed (simp add: idle_lawful)

lemma scheduler_lawful: "lawful T (known_workflows s) s (scheduler_tick T s)"
proof -
  obtain res t where list: "ts_db_call (\<lambda>n. list_all_enabled_workflows (tr_db T) n) (ts_tick s) = (res, t)" by fastforce
  have t: "t = ts_tick (ts_tick s)"
    by (rule ts_db_call_read [OF list]) (simp add: list_all_enabled_workflows_def stmt_def split: option.split)
  have rows: "w \<in> set (t_workflows (ts_db s))" if "res = Ok ws" "w \<in> set ws" for ws w
    using list that by (auto simp: ts_db_call_def as_db_call_def db_call_def list_all_enabled_workflows_def stmt_def
        split: prod.splits option.splits dest!: in_set_takeD)
  have quiet: "lawful T (known_workflows s) s t" using t by (simp add: idle_lawful idle_def)
  have clean: "lawful T W s (u\<lparr>ts_last_fired := lf\<rparr>) = lawful T W s u" for W u lf
    by (simp add: lawful_def runs_by_authority_def paid_def)
  have "lawful T (known_workflows s) t (foldl (\<lambda>s w. tick_workflow T now w s) t ws)" if "res = Ok ws" for ws now
    by (rule tick_all_lawful) (use rows that in \<open>simp add: known_workflows_def\<close>)
  then show ?thesis
    using list quiet lawful_trans [OF quiet] by (auto simp: scheduler_tick_def Let_def clean split: sum.split)
qed


text \<open>Ticks of any number of relay instances over the shared tables, each with its own clock, roles and memory of past fires.\<close>

fun scheduler_ticks :: "(trig_env \<times> (uuid \<times> uuid, instant) hmap) list \<Rightarrow> trig_state \<Rightarrow> trig_state" where
  "scheduler_ticks [] s = s"
| "scheduler_ticks ((T, memory) # pods) s = scheduler_ticks pods (scheduler_tick T (s\<lparr>ts_last_fired := memory\<rparr>))"

lemma scheduler_ticks_paid: "paid s (scheduler_ticks pods s)"
proof (induction pods s rule: scheduler_ticks.induct)
  case (2 T memory pods s)
  have "paid (s\<lparr>ts_last_fired := memory\<rparr>) (scheduler_tick T (s\<lparr>ts_last_fired := memory\<rparr>))"
    using scheduler_lawful [of T "s\<lparr>ts_last_fired := memory\<rparr>"] by (simp add: lawful_def)
  then have "paid s (scheduler_tick T (s\<lparr>ts_last_fired := memory\<rparr>))" by (simp add: paid_def)
  then show ?case using 2 by (auto intro: paid_trans)
qed (simp add: paid_def)

section \<open>Comparison of webhook secrets\<close>

lemma char_byte_inj: "char_byte a = char_byte b \<longleftrightarrow> a = b"
proof -
  have "unat (char_byte c) = of_char c" for c
    using nat_of_char_less_256 [of c] by (simp add: char_byte_def unsigned_of_nat take_bit_nat_eq_self)
  then show ?thesis by (metis of_char_eq_iff)
qed

lemma or_eq_zero: "or (a :: u8) b = 0 \<longleftrightarrow> a = 0 \<and> b = 0"
  by (auto simp: bit_eq_iff bit_simps)

lemma xor_eq_zero: "xor (a :: u8) b = 0 \<longleftrightarrow> a = b"
  by (auto simp: bit_eq_iff bit_simps)

lemma xor_fold_zero:
  "length p = length q \<Longrightarrow>
   foldl (\<lambda>r (a, b). or r (xor (char_byte a) (char_byte b))) r (zip p q) = 0 \<longleftrightarrow> r = 0 \<and> p = q"
  by (induction p q arbitrary: r rule: list_induct2) (auto simp: or_eq_zero xor_eq_zero char_byte_inj)

section \<open>Properties\<close>

text \<open>
  C27. Every door through which a workflow run is created, that is a channel event, a turn of the scheduler, a manual trigger
  and the webhook endpoint, adds only pending runs of workflows listed under that community and channel, each after a
  lookup in that very call found that the owner still holds a role in the channel that allows the definition (owner or
  admin when it calls webhooks); a failed lookup creates nothing. The tasks spawned are those of the runs created.
\<close>

theorem run_doors_authorised:
  "runs_by_authority T (known_workflows s) s (snd (on_event T c stored s)) \<and>
   runs_by_authority T (known_workflows s) s (scheduler_tick T s) \<and>
   runs_by_authority T (known_workflows s) s (snd (handle_workflow_trigger T c ev self s)) \<and>
   runs_by_authority T (known_workflows s) s (snd (workflow_webhook T q s))"
  using on_event_authority scheduler_lawful trigger_authority webhook_authority by (auto simp: lawful_def)

text \<open>
  C28. The scheduler never runs a workflow twice for one instant: over any sequence of ticks by any relay instances sharing the
  tables, whatever each remembers of past fires, the runs created are at most the (community, workflow, instant) triples
  newly claimed.
\<close>

theorem scheduler_runs_bounded:
  "length (t_runs (ts_db (scheduler_ticks pods s))) + card (fire_key ` set (t_fires (ts_db s)))
   \<le> length (t_runs (ts_db s)) + card (fire_key ` set (t_fires (ts_db (scheduler_ticks pods s))))"
  using scheduler_ticks_paid [of s pods] by (simp add: paid_def fire_slots_def)

text \<open>
  The comparison of a webhook secret, which folds the differences of all bytes and never returns at the first one, accepts
  exactly the stored secret.
\<close>

theorem verify_secret_exact: "verify_secret = (\<lambda>provided stored. provided = stored)"
  by (intro ext) (auto simp: verify_secret_def xor_fold_zero)

end
