(* ===== verification/Auth.thy ===== *)
theory Auth
  imports PairingCrypto
begin

text \<open>
  Who a request comes from: \<^verbatim>\<open>crates/lenos-auth/src\<close> (scopes, channel access, NIP-42, NIP-98),
  \<^verbatim>\<open>lenos-core/src/tenant.rs\<close> and \<^verbatim>\<open>verification.rs\<close>, \<^verbatim>\<open>lenos-relay/src/tenant.rs\<close>, the owner attestations of
  \<^verbatim>\<open>lenos-sdk/src/nip_oa.rs\<close>, the membership gate of \<^verbatim>\<open>lenos-relay/src/api/mod.rs\<close>, the request authentication
  of \<^verbatim>\<open>api/bridge.rs\<close>, and the AUTH handler of \<^verbatim>\<open>handlers/auth.rs\<close> over the tables its lookups read.

  Parameters (\<open>auth_env\<close>): the \<open>nostr\<close>, \<open>url\<close>, \<open>serde_json\<close>, \<open>base64\<close>, \<open>hex\<close>, \<open>sha2\<close> and \<open>secp256k1\<close> crates, Unicode
  lower case, and for the database which calls fail and what time a call sees. Parsed URLs are an abstract type.
\<close>

record SignedEvent = Event +
  ev_sig :: string

datatype url_host = Domain string | Ipv4 string | Ipv6 string

record 'u auth_env =
  ae_verify_id :: "SignedEvent \<Rightarrow> bool"
  ae_event_id :: "SignedEvent \<Rightarrow> string"
  ae_verify_signature :: "SignedEvent \<Rightarrow> bool"
  ae_event_json :: "string \<Rightarrow> (string, SignedEvent) result"
  ae_url_parse :: "string \<Rightarrow> 'u option"
  ae_host :: "'u \<Rightarrow> url_host option"
  ae_host_str :: "'u \<Rightarrow> string option"
  ae_port :: "'u \<Rightarrow> nat option"
  ae_path :: "'u \<Rightarrow> string"
  ae_set_host :: "'u \<Rightarrow> string \<Rightarrow> 'u"
  ae_set_path :: "'u \<Rightarrow> string \<Rightarrow> 'u"
  ae_url_show :: "'u \<Rightarrow> string"
  ae_to_lowercase :: "string \<Rightarrow> string"
  ae_base64 :: "string \<Rightarrow> bytes option"
  ae_utf8 :: "bytes \<Rightarrow> string option"
  ae_sha256 :: "bytes \<Rightarrow> bytes"
  ae_hex :: "bytes \<Rightarrow> string"
  ae_pubkey_from_hex :: "string \<Rightarrow> (string, PublicKey) result"
  ae_pubkey_from_slice :: "bytes \<Rightarrow> (string, PublicKey) result"
  ae_pubkey_bytes :: "PublicKey \<Rightarrow> bytes"
  ae_json_parse :: "string \<Rightarrow> (string, Value) result"
  ae_json_show :: "Value \<Rightarrow> string"
  ae_debug :: "string \<Rightarrow> string"
  ae_sig_parse :: "string \<Rightarrow> (string, bytes) result"
  ae_sig_show :: "bytes \<Rightarrow> string"
  ae_xonly :: "PublicKey \<Rightarrow> (string, bytes) result"
  ae_verify_schnorr :: "bytes \<Rightarrow> bytes \<Rightarrow> bytes \<Rightarrow> (string, unit) result"
  ae_sign_schnorr :: "SecretKey \<Rightarrow> bytes \<Rightarrow> bytes"
  ae_public_key :: "SecretKey \<Rightarrow> PublicKey"
  ae_db_fault :: "nat \<Rightarrow> string option"
  ae_db_now :: "nat \<Rightarrow> int"
  ae_now :: "nat \<Rightarrow> nat"

section \<open>Communities\<close>

record TenantContext =
  tn_community :: CommunityId
  tn_host :: string

definition to_ascii_lowercase :: "string \<Rightarrow> string" where
  "to_ascii_lowercase s = map (\<lambda>c. if is_ascii_upper c then char_of ((of_char c :: nat) + 32) else c) s"

definition normalize_host :: "string \<Rightarrow> string" where
  "normalize_host host =
     (let h = to_ascii_lowercase (trim host);
          h = (case strip_suffix_str '':443'' h of Some t \<Rightarrow> t
               | None \<Rightarrow> (case strip_suffix_str '':80'' h of Some t \<Rightarrow> t | None \<Rightarrow> h))
      in case strip_suffix_str ''.'' h of Some t \<Rightarrow> t | None \<Rightarrow> h)"

definition relay_url_authority :: "'u auth_env \<Rightarrow> string \<Rightarrow> string" where
  "relay_url_authority E relay_url =
     (case ae_url_parse E relay_url of
        None \<Rightarrow> []
      | Some u \<Rightarrow>
          (case ae_host E u of
             None \<Rightarrow> []
           | Some host \<Rightarrow>
               (let h = (case host of Domain d \<Rightarrow> d | Ipv4 a \<Rightarrow> a | Ipv6 a \<Rightarrow> ''['' @ a @ '']'');
                    authority = (case ae_port E u of Some p \<Rightarrow> h @ '':'' @ nat_to_string p | None \<Rightarrow> h)
                in normalize_host authority)))"

datatype 'e BindError = UnmappedHost | Lookup 'e

definition bind_community ::
  "(string \<Rightarrow> ('e, CommunityId option) result) \<Rightarrow> string \<Rightarrow> ('e BindError, TenantContext) result" where
  "bind_community resolve_host raw_host =
     (let host = normalize_host raw_host
      in if host = [] then Err UnmappedHost
         else (case resolve_host host of
             Inr (Some community) \<Rightarrow> Ok \<lparr>tn_community = community, tn_host = host\<rparr>
           | Inr None \<Rightarrow> Err UnmappedHost
           | Inl e \<Rightarrow> Err (Lookup e)))"

definition bind_deployment_community ::
  "'u auth_env \<Rightarrow> (string \<Rightarrow> ('e, CommunityId option) result) \<Rightarrow> string \<Rightarrow> ('e BindError, TenantContext) result" where
  "bind_deployment_community E resolve_host relay_url = bind_community resolve_host (relay_url_authority E relay_url)"

definition wss_relay :: "string \<Rightarrow> bool" where
  "wss_relay config_relay_url = prefix ''wss://'' (trim_start config_relay_url)"

definition nip98_expected_url :: "string \<Rightarrow> TenantContext \<Rightarrow> string \<Rightarrow> string" where
  "nip98_expected_url config_relay_url tenant path =
     (if wss_relay config_relay_url then ''https'' else ''http'') @ ''://'' @ tn_host tenant @ path"

definition nip42_expected_relay_url :: "string \<Rightarrow> TenantContext \<Rightarrow> string" where
  "nip42_expected_relay_url config_relay_url tenant =
     (if wss_relay config_relay_url then ''wss'' else ''ws'') @ ''://'' @ tn_host tenant"

section \<open>Scopes and channel access\<close>

datatype AuthError = InvalidSignature | ChallengeMismatch | RelayUrlMismatch | EventExpired | Nip98Invalid string
  | Nip98Replay | PubkeyMismatch | InsufficientScope string "string list" | ChannelAccessDenied | AuthInternal string

datatype Scope = MessagesRead | MessagesWrite | ChannelsRead | ChannelsWrite | AdminChannels | UsersRead | UsersWrite
  | AdminUsers | JobsRead | JobsWrite | SubscriptionsRead | SubscriptionsWrite | FilesRead | FilesWrite | ReposRead
  | ReposWrite | UnknownScope string

definition all_known :: "Scope list" where
  "all_known = [MessagesRead, MessagesWrite, ChannelsRead, ChannelsWrite, AdminChannels, UsersRead, UsersWrite, AdminUsers,
     JobsRead, JobsWrite, SubscriptionsRead, SubscriptionsWrite, FilesRead, FilesWrite, ReposRead, ReposWrite]"

definition all_non_admin :: "Scope list" where
  "all_non_admin = [MessagesRead, MessagesWrite, ChannelsRead, ChannelsWrite, UsersRead, UsersWrite,
     JobsRead, JobsWrite, SubscriptionsRead, SubscriptionsWrite, FilesRead, FilesWrite, ReposRead, ReposWrite]"

fun scope_as_str :: "Scope \<Rightarrow> string" where
  "scope_as_str MessagesRead = ''messages:read''"
| "scope_as_str MessagesWrite = ''messages:write''"
| "scope_as_str ChannelsRead = ''channels:read''"
| "scope_as_str ChannelsWrite = ''channels:write''"
| "scope_as_str AdminChannels = ''admin:channels''"
| "scope_as_str UsersRead = ''users:read''"
| "scope_as_str UsersWrite = ''users:write''"
| "scope_as_str AdminUsers = ''admin:users''"
| "scope_as_str JobsRead = ''jobs:read''"
| "scope_as_str JobsWrite = ''jobs:write''"
| "scope_as_str SubscriptionsRead = ''subscriptions:read''"
| "scope_as_str SubscriptionsWrite = ''subscriptions:write''"
| "scope_as_str FilesRead = ''files:read''"
| "scope_as_str FilesWrite = ''files:write''"
| "scope_as_str ReposRead = ''repos:read''"
| "scope_as_str ReposWrite = ''repos:write''"
| "scope_as_str (UnknownScope s) = s"

definition scope_from_str :: "string \<Rightarrow> Scope" where
  "scope_from_str s =
     (if s = ''messages:read'' then MessagesRead else if s = ''messages:write'' then MessagesWrite
      else if s = ''channels:read'' then ChannelsRead else if s = ''channels:write'' then ChannelsWrite
      else if s = ''admin:channels'' then AdminChannels else if s = ''users:read'' then UsersRead
      else if s = ''users:write'' then UsersWrite else if s = ''admin:users'' then AdminUsers
      else if s = ''jobs:read'' then JobsRead else if s = ''jobs:write'' then JobsWrite
      else if s = ''subscriptions:read'' then SubscriptionsRead else if s = ''subscriptions:write'' then SubscriptionsWrite
      else if s = ''files:read'' then FilesRead else if s = ''files:write'' then FilesWrite
      else if s = ''repos:read'' then ReposRead else if s = ''repos:write'' then ReposWrite
      else UnknownScope s)"

definition parse_scopes :: "string list \<Rightarrow> Scope list" where
  "parse_scopes raw = map scope_from_str raw"

definition require_scope :: "Scope list \<Rightarrow> Scope \<Rightarrow> (AuthError, unit) result" where
  "require_scope scopes required =
     (if required \<in> set scopes then Ok ()
      else Err (InsufficientScope (scope_as_str required) (map scope_as_str scopes)))"

text \<open>The default \<open>can_access\<close> of the trait, over what the implementor answers for the accessible channels.\<close>

type_synonym access_checker = "TenantContext \<Rightarrow> PublicKey \<Rightarrow> (AuthError, uuid set) result"

definition can_access :: "access_checker \<Rightarrow> TenantContext \<Rightarrow> PublicKey \<Rightarrow> uuid \<Rightarrow> (AuthError, bool) result" where
  "can_access checker ctx pubkey channel =
     (case checker ctx pubkey of Inl e \<Rightarrow> Err e | Inr ids \<Rightarrow> Ok (channel \<in> ids))"

definition check_access ::
  "Scope \<Rightarrow> access_checker \<Rightarrow> TenantContext \<Rightarrow> PublicKey \<Rightarrow> uuid \<Rightarrow> Scope list \<Rightarrow> (AuthError, unit) result" where
  "check_access required checker ctx pubkey channel scopes =
     (case require_scope scopes required of
        Inl e \<Rightarrow> Err e
      | Inr _ \<Rightarrow>
          (case can_access checker ctx pubkey channel of
             Inl e \<Rightarrow> Err e
           | Inr allowed \<Rightarrow> if allowed then Ok () else Err ChannelAccessDenied))"

definition check_read_access ::
  "access_checker \<Rightarrow> TenantContext \<Rightarrow> PublicKey \<Rightarrow> uuid \<Rightarrow> Scope list \<Rightarrow> (AuthError, unit) result" where
  "check_read_access = check_access MessagesRead"

definition check_write_access ::
  "access_checker \<Rightarrow> TenantContext \<Rightarrow> PublicKey \<Rightarrow> uuid \<Rightarrow> Scope list \<Rightarrow> (AuthError, unit) result" where
  "check_write_access = check_access MessagesWrite"

section \<open>Signed events\<close>

datatype VerificationError = InvalidId string string | BadSignature

definition verify_event :: "'u auth_env \<Rightarrow> SignedEvent \<Rightarrow> (VerificationError, unit) result" where
  "verify_event E e =
     (if \<not> ae_verify_id E e then Err (InvalidId (ae_event_id E e) (ev_id e))
      else if \<not> ae_verify_signature E e then Err BadSignature
      else Ok ())"

definition TIMESTAMP_TOLERANCE_SECS :: nat where "TIMESTAMP_TOLERANCE_SECS = 60"

definition abs_diff :: "nat \<Rightarrow> nat \<Rightarrow> nat" where
  "abs_diff a b = (if a < b then b - a else a - b)"

text \<open>\<open>tags.find(kind).and_then(content)\<close>: the content of the first tag of that kind.\<close>

definition tag_value :: "SignedEvent \<Rightarrow> string \<Rightarrow> string option" where
  "tag_value e k = Option.bind (find (\<lambda>t. tag_kind t = k) (ev_tags e)) tag_content"

definition trim_slashes :: "string \<Rightarrow> string" where
  "trim_slashes s = rev (dropWhile (\<lambda>c. c = CHR ''/'') (rev s))"

definition normalize_relay_url :: "'u auth_env \<Rightarrow> string \<Rightarrow> string" where
  "normalize_relay_url E raw =
     (case ae_url_parse E raw of
        None \<Rightarrow> raw
      | Some parsed \<Rightarrow>
          (let u = (case ae_host_str E parsed of
                  Some host \<Rightarrow> if host = ''localhost'' \<or> host = ''::1'' then ae_set_host E parsed ''127.0.0.1'' else parsed
                | None \<Rightarrow> parsed)
           in ae_url_show E (ae_set_path E u (trim_slashes (ae_path E u)))))"

definition KIND_AUTHENTICATION :: nat where "KIND_AUTHENTICATION = 22242"

definition verify_nip42_event ::
  "'u auth_env \<Rightarrow> nat \<Rightarrow> SignedEvent \<Rightarrow> string \<Rightarrow> string \<Rightarrow> (AuthError, unit) result" where
  "verify_nip42_event E now e expected_challenge relay_url =
     (if ev_kind e \<noteq> KIND_AUTHENTICATION then Err InvalidSignature
      else (case verify_event E e of
          Inl _ \<Rightarrow> Err InvalidSignature
        | Inr _ \<Rightarrow>
            (case tag_value e ''challenge'' of
               None \<Rightarrow> Err ChallengeMismatch
             | Some challenge \<Rightarrow>
                 if challenge \<noteq> expected_challenge then Err ChallengeMismatch
                 else (case tag_value e ''relay'' of
                     None \<Rightarrow> Err RelayUrlMismatch
                   | Some relay \<Rightarrow>
                       if normalize_relay_url E relay \<noteq> normalize_relay_url E relay_url then Err RelayUrlMismatch
                       else if abs_diff now (ev_created_at e) > TIMESTAMP_TOLERANCE_SECS then Err EventExpired
                       else Ok ()))))"

definition normalize_url :: "'u auth_env \<Rightarrow> string \<Rightarrow> string" where
  "normalize_url E raw =
     (case ae_url_parse E raw of
        None \<Rightarrow> ae_to_lowercase E raw
      | Some u \<Rightarrow> ae_url_show E (ae_set_path E u (trim_slashes (ae_path E u))))"

definition eq_ignore_ascii_case :: "string \<Rightarrow> string \<Rightarrow> bool" where
  "eq_ignore_ascii_case a b = (to_ascii_lowercase a = to_ascii_lowercase b)"

definition plus_minus :: string where "plus_minus = [CHR 0xC2, CHR 0xB1]"

text \<open>Steps 2 to 8 of \<open>verify_nip98_event\<close>, on the parsed event.\<close>

definition verify_http_event ::
  "'u auth_env \<Rightarrow> nat \<Rightarrow> SignedEvent \<Rightarrow> string \<Rightarrow> string \<Rightarrow> bytes option \<Rightarrow> (AuthError, PublicKey) result" where
  "verify_http_event E now e expected_url expected_method body =
     (let invalid = (\<lambda>m. Err (Nip98Invalid m)); delta = abs_diff now (ev_created_at e)
      in if ev_kind e \<noteq> KIND_HTTP_AUTH
         then invalid (''expected kind 27235, got '' @ nat_to_string (ev_kind e))
         else (case verify_event E e of
             Inl _ \<Rightarrow> invalid ''invalid Schnorr signature''
           | Inr _ \<Rightarrow>
               if delta > TIMESTAMP_TOLERANCE_SECS
               then invalid (''event timestamp outside '' @ plus_minus @ nat_to_string TIMESTAMP_TOLERANCE_SECS
                      @ ''s window (delta: '' @ nat_to_string delta @ ''s)'')
               else (case tag_value e ''u'' of
                   None \<Rightarrow> invalid ''missing `u` tag''
                 | Some u_tag \<Rightarrow>
                     if normalize_url E u_tag \<noteq> normalize_url E expected_url
                     then invalid (''URL mismatch: event has `'' @ u_tag @ ''`, expected `'' @ expected_url @ ''`'')
                     else (case tag_value e ''method'' of
                         None \<Rightarrow> invalid ''missing `method` tag''
                       | Some method_tag \<Rightarrow>
                           if \<not> eq_ignore_ascii_case method_tag expected_method
                           then invalid (''method mismatch: event has `'' @ method_tag @ ''`, expected `'' @ expected_method @ ''`'')
                           else (case (tag_value e ''payload'', body) of
                               (Some payload_hex, Some b) \<Rightarrow>
                                 if ae_hex E (ae_sha256 E b) \<noteq> payload_hex
                                 then invalid ''payload tag SHA-256 mismatch: request body does not match signed hash''
                                 else Ok (ev_pubkey e)
                             | _ \<Rightarrow> Ok (ev_pubkey e))))))"

definition verify_nip98_event ::
  "'u auth_env \<Rightarrow> nat \<Rightarrow> string \<Rightarrow> string \<Rightarrow> string \<Rightarrow> bytes option \<Rightarrow> (AuthError, PublicKey) result" where
  "verify_nip98_event E now event_json expected_url expected_method body =
     (case ae_event_json E event_json of
        Inl e \<Rightarrow> Err (Nip98Invalid (''event JSON parse error: '' @ e))
      | Inr e \<Rightarrow> verify_http_event E now e expected_url expected_method body)"

section \<open>Owner attestations\<close>

datatype SdkError = InvalidInput string

definition is_ascii_whitespace :: "char \<Rightarrow> bool" where
  "is_ascii_whitespace c = ((of_char c :: nat) \<in> {9, 10, 12, 13, 32})"

definition validate_canonical_decimal ::
  "'u auth_env \<Rightarrow> string \<Rightarrow> nat \<Rightarrow> nat \<Rightarrow> string \<Rightarrow> (SdkError, unit) result" where
  "validate_canonical_decimal E s min_val max_val label =
     (if s = [] then Err (InvalidInput (label @ '' value must not be empty''))
      else if length s > 1 \<and> hd s = CHR ''0'' then Err (InvalidInput (label @ '' value has leading zero: '' @ ae_debug E s))
      else if \<not> list_all is_ascii_digit s then Err (InvalidInput (label @ '' value is not a valid decimal: '' @ ae_debug E s))
      else (case parse_u64 s of
          None \<Rightarrow> Err (InvalidInput (label @ '' value out of range: number too large to fit in target type''))
        | Some v \<Rightarrow>
            if unat v < min_val \<or> unat v > max_val
            then Err (InvalidInput (label @ '' value '' @ nat_to_string (unat v) @ '' out of range ['' @ nat_to_string min_val
                   @ '', '' @ nat_to_string max_val @ '']''))
            else Ok ()))"

definition validate_clause :: "'u auth_env \<Rightarrow> string \<Rightarrow> (SdkError, unit) result" where
  "validate_clause E clause =
     (case strip_prefix_str ''kind='' clause of
        Some v \<Rightarrow> validate_canonical_decimal E v 0 65535 ''kind''
      | None \<Rightarrow>
          (case strip_prefix_str ''created_at<'' clause of
             Some v \<Rightarrow> validate_canonical_decimal E v 0 4294967295 ''created_at<''
           | None \<Rightarrow>
               (case strip_prefix_str ''created_at>'' clause of
                  Some v \<Rightarrow> validate_canonical_decimal E v 0 4294967295 ''created_at>''
                | None \<Rightarrow> Err (InvalidInput (''unsupported clause: '' @ ae_debug E clause)))))"

fun validate_clauses :: "'u auth_env \<Rightarrow> string list \<Rightarrow> (SdkError, unit) result" where
  "validate_clauses E [] = Ok ()"
| "validate_clauses E (clause # cs) =
     (if clause = [] then Err (InvalidInput ''empty clause in conditions (leading/trailing/double '&')'')
      else (case validate_clause E clause of Inl e \<Rightarrow> Err e | Inr _ \<Rightarrow> validate_clauses E cs))"

definition validate_conditions :: "'u auth_env \<Rightarrow> string \<Rightarrow> (SdkError, unit) result" where
  "validate_conditions E conditions =
     (if conditions = [] then Ok ()
      else if list_ex is_ascii_whitespace conditions then Err (InvalidInput ''conditions must not contain whitespace'')
      else validate_clauses E (split_on (CHR ''&'') conditions))"

definition build_preimage :: "PublicKey \<Rightarrow> string \<Rightarrow> string" where
  "build_preimage agent_pubkey conditions = ''nostr:agent-auth:'' @ agent_pubkey @ '':'' @ conditions"

definition hash_attestation :: "'u auth_env \<Rightarrow> string \<Rightarrow> bytes" where
  "hash_attestation E preimage = ae_sha256 E (byte_str preimage)"

definition parse_json_array :: "'u auth_env \<Rightarrow> string \<Rightarrow> (SdkError, Value list) result" where
  "parse_json_array E s =
     (case ae_json_parse E s of
        Inl e \<Rightarrow> Err (InvalidInput (''invalid JSON: '' @ e))
      | Inr (Array arr) \<Rightarrow> Ok arr
      | Inr _ \<Rightarrow> Err (InvalidInput ''auth tag must be a JSON array''))"

definition self_attestation :: SdkError where
  "self_attestation = InvalidInput ''owner and agent pubkeys must differ (self-attestation rejected)''"

definition compute_auth_tag :: "'u auth_env \<Rightarrow> SecretKey \<Rightarrow> PublicKey \<Rightarrow> string \<Rightarrow> (SdkError, string) result" where
  "compute_auth_tag E owner_keys agent_pubkey conditions =
     (let owner_pubkey = ae_public_key E owner_keys
      in if owner_pubkey = agent_pubkey then Err self_attestation
         else (case validate_conditions E conditions of
             Inl e \<Rightarrow> Err e
           | Inr _ \<Rightarrow>
               (let sg = ae_sign_schnorr E owner_keys (hash_attestation E (build_preimage agent_pubkey conditions))
                in Ok (ae_json_show E (Array [String ''auth'', String owner_pubkey, String conditions, String (ae_sig_show E sg)])))))"

text \<open>The four strings of an \<open>auth\<close> tag; the elements are read one by one, and the first bad one is reported.\<close>

definition auth_tag_strings :: "'u auth_env \<Rightarrow> string \<Rightarrow> (SdkError, string \<times> string \<times> string) result" where
  "auth_tag_strings E json =
     (case parse_json_array E json of
        Inl e \<Rightarrow> Err e
      | Inr [a, b, c, d] \<Rightarrow>
          (case a of
             String label \<Rightarrow>
               if label \<noteq> ''auth''
               then Err (InvalidInput (''first element must be '' @ [CHR 0x22] @ ''auth'' @ [CHR 0x22] @ '', got '' @ [CHR 0x22] @ label @ [CHR 0x22]))
               else (case (b, c, d) of
                   (String owner, String conditions, String sg) \<Rightarrow> Ok (owner, conditions, sg)
                 | (String _, String _, _) \<Rightarrow> Err (InvalidInput ''element 3 (signature) must be a string'')
                 | (String _, _, _) \<Rightarrow> Err (InvalidInput ''element 2 (conditions) must be a string'')
                 | _ \<Rightarrow> Err (InvalidInput ''element 1 (owner pubkey) must be a string''))
           | _ \<Rightarrow> Err (InvalidInput ''element 0 must be a string''))
      | Inr arr \<Rightarrow> Err (InvalidInput (''auth tag must have 4 elements, got '' @ nat_to_string (length arr))))"

definition verify_auth_tag :: "'u auth_env \<Rightarrow> string \<Rightarrow> PublicKey \<Rightarrow> (SdkError, PublicKey) result" where
  "verify_auth_tag E auth_tag_json agent_pubkey =
     (case auth_tag_strings E auth_tag_json of
        Inl e \<Rightarrow> Err e
      | Inr (owner_hex, conditions, sig_hex) \<Rightarrow>
          (case ae_pubkey_from_hex E owner_hex of
             Inl e \<Rightarrow> Err (InvalidInput (''invalid owner pubkey: '' @ e))
           | Inr owner_pubkey \<Rightarrow>
               (case validate_conditions E conditions of
                  Inl e \<Rightarrow> Err e
                | Inr _ \<Rightarrow>
                    if owner_pubkey = agent_pubkey then Err self_attestation
                    else (case ae_sig_parse E sig_hex of
                        Inl e \<Rightarrow> Err (InvalidInput (''invalid signature hex: '' @ e))
                      | Inr sg \<Rightarrow>
                          (case ae_xonly E owner_pubkey of
                             Inl e \<Rightarrow> Err (InvalidInput (''owner pubkey xonly conversion failed: '' @ e))
                           | Inr xonly \<Rightarrow>
                               (case ae_verify_schnorr E sg (hash_attestation E (build_preimage agent_pubkey conditions)) xonly of
                                  Inl e \<Rightarrow> Err (InvalidInput (''signature verification failed: '' @ e))
                                | Inr _ \<Rightarrow> Ok owner_pubkey))))))"

text \<open>\<open>Tag::parse\<close> of four strings is the tag of these strings.\<close>

definition parse_auth_tag :: "'u auth_env \<Rightarrow> string \<Rightarrow> (SdkError, string list) result" where
  "parse_auth_tag E json =
     (case parse_json_array E json of
        Inl e \<Rightarrow> Err e
      | Inr [String label, b, c, d] \<Rightarrow>
          if label \<noteq> ''auth''
          then Err (InvalidInput (''first element must be '' @ [CHR 0x22] @ ''auth'' @ [CHR 0x22] @ '', got '' @ [CHR 0x22] @ label @ [CHR 0x22]))
          else (case b of
              String owner \<Rightarrow>
                if length owner \<noteq> 64 \<or> \<not> list_all is_lowercase_hex owner
                then Err (InvalidInput (''owner pubkey must be 64 hex chars, got '' @ ae_debug E owner))
                else (case c of
                    String conditions \<Rightarrow>
                      (case validate_conditions E conditions of
                         Inl e \<Rightarrow> Err e
                       | Inr _ \<Rightarrow>
                           (case d of
                              String sg \<Rightarrow>
                                if length sg \<noteq> 128 \<or> \<not> list_all is_lowercase_hex sg
                                then Err (InvalidInput (''signature must be 128 hex chars, got length '' @ nat_to_string (length sg)))
                                else Ok [''auth'', owner, conditions, sg]
                            | _ \<Rightarrow> Err (InvalidInput ''element 3 (signature) must be a string'')))
                  | _ \<Rightarrow> Err (InvalidInput ''element 2 (conditions) must be a string''))
            | _ \<Rightarrow> Err (InvalidInput ''element 1 (owner pubkey) must be a string''))
      | Inr [_, _, _, _] \<Rightarrow> Err (InvalidInput ''element 0 must be a string'')
      | Inr arr \<Rightarrow> Err (InvalidInput (''auth tag must have 4 elements, got '' @ nat_to_string (length arr))))"

section \<open>Tables behind the gates\<close>

text \<open>The columns of \<open>community_bans\<close>, \<open>users\<close>, \<open>relay_members\<close> and \<open>pubkey_allowlist\<close> that the gates read.\<close>

record ban_row =
  br_community :: CommunityId
  br_pubkey :: bytes
  br_banned :: bool
  br_expires_at :: "int option"
  br_muted_until :: "int option"

record user_row =
  ur_community :: CommunityId
  ur_pubkey :: bytes
  ur_agent_owner :: "bytes option"

record AuthDb =
  ad_bans :: "ban_row list"
  ad_members :: "(CommunityId \<times> string) list"
  ad_allowlist :: "(CommunityId \<times> bytes) list"
  ad_users :: "user_row list"

text \<open>What the gates share: the number of the next call, the tables, the caches of the relay.\<close>

record auth_world =
  aw_n :: nat
  aw_db :: AuthDb
  aw_author_types :: "(CommunityId \<times> bytes) list"
  aw_observer_owners :: "(CommunityId \<times> bytes \<times> bytes) list"
  aw_authenticated :: "(uuid, bytes) hmap"

definition aw_tick :: "auth_world \<Rightarrow> auth_world" where
  "aw_tick w = w\<lparr>aw_n := Suc (aw_n w)\<rparr>"

definition auth_sql ::
  "'u auth_env \<Rightarrow> (nat \<Rightarrow> AuthDb \<Rightarrow> (string, 'a) result \<times> AuthDb) \<Rightarrow> auth_world \<Rightarrow> (string, 'a) result \<times> auth_world" where
  "auth_sql E f w =
     (case ae_db_fault E (aw_n w) of
        Some e \<Rightarrow> (Err e, aw_tick w)
      | None \<Rightarrow> (case f (aw_n w) (aw_db w) of (r, db) \<Rightarrow> (r, (aw_tick w)\<lparr>aw_db := db\<rparr>)))"

record RestrictionState =
  rs_banned :: bool
  rs_muted_until :: "int option"

definition restriction_state ::
  "'u auth_env \<Rightarrow> CommunityId \<Rightarrow> bytes \<Rightarrow> auth_world \<Rightarrow> (string, RestrictionState) result \<times> auth_world" where
  "restriction_state E community pubkey =
     auth_sql E (\<lambda>n db.
       (Ok (case find (\<lambda>r. br_community r = community \<and> br_pubkey r = pubkey) (ad_bans db) of
              Some r \<Rightarrow> \<lparr>rs_banned = (br_banned r \<and> is_none_or (br_expires_at r) (\<lambda>t. t > ae_db_now E n)),
                          rs_muted_until = (case br_muted_until r of
                            Some t \<Rightarrow> if t > ae_db_now E n then Some t else None | None \<Rightarrow> None)\<rparr>
            | None \<Rightarrow> \<lparr>rs_banned = False, rs_muted_until = None\<rparr>), db))"

definition is_pubkey_allowed ::
  "'u auth_env \<Rightarrow> CommunityId \<Rightarrow> bytes \<Rightarrow> auth_world \<Rightarrow> (string, bool) result \<times> auth_world" where
  "is_pubkey_allowed E community pubkey = auth_sql E (\<lambda>n db. (Ok ((community, pubkey) \<in> set (ad_allowlist db)), db))"

definition is_relay_member ::
  "'u auth_env \<Rightarrow> CommunityId \<Rightarrow> string \<Rightarrow> auth_world \<Rightarrow> (string, bool) result \<times> auth_world" where
  "is_relay_member E community pubkey = auth_sql E (\<lambda>n db. (Ok ((community, pubkey) \<in> set (ad_members db)), db))"

definition ur_key :: "user_row \<Rightarrow> CommunityId \<times> bytes" where
  "ur_key r = (ur_community r, ur_pubkey r)"

definition ensure_user ::
  "'u auth_env \<Rightarrow> CommunityId \<Rightarrow> bytes \<Rightarrow> auth_world \<Rightarrow> (string, bool) result \<times> auth_world" where
  "ensure_user E community pubkey =
     auth_sql E (\<lambda>n db.
       if (community, pubkey) \<in> ur_key ` set (ad_users db) then (Ok False, db)
       else (Ok True, db\<lparr>ad_users := ad_users db @ [\<lparr>ur_community = community, ur_pubkey = pubkey, ur_agent_owner = None\<rparr>]\<rparr>))"

text \<open>\<open>set_agent_owner\<close>: a conditional update, and when no row changed a second query that tells why.\<close>

definition set_agent_owner ::
  "'u auth_env \<Rightarrow> CommunityId \<Rightarrow> bytes \<Rightarrow> bytes \<Rightarrow> auth_world \<Rightarrow> (string, bool) result \<times> auth_world" where
  "set_agent_owner E community agent owner w =
     (let P = (\<lambda>r. ur_key r = (community, agent) \<and> ur_agent_owner r = None)
      in case auth_sql E (\<lambda>n db.
             if list_ex P (ad_users db) \<and> (community, owner) \<notin> ur_key ` set (ad_users db)
             then (Err ''violates foreign key constraint'', db)
             else (Ok (list_ex P (ad_users db)),
                   db\<lparr>ad_users := map (\<lambda>r. if P r then r\<lparr>ur_agent_owner := Some owner\<rparr> else r) (ad_users db)\<rparr>)) w of
           (Inl e, w) \<Rightarrow> (Err e, w)
         | (Inr True, w) \<Rightarrow> (Ok True, w)
         | (Inr False, w) \<Rightarrow>
             (case auth_sql E (\<lambda>n db. (Ok ((community, agent) \<in> ur_key ` set (ad_users db)), db)) w of
                (Inl e, w) \<Rightarrow> (Err e, w)
              | (Inr exists, w) \<Rightarrow> (if exists then Ok False else Err ''not found: agent pubkey not found in users table'', w)))"

definition is_agent_owner ::
  "'u auth_env \<Rightarrow> CommunityId \<Rightarrow> bytes \<Rightarrow> bytes \<Rightarrow> auth_world \<Rightarrow> (string, bool) result \<times> auth_world" where
  "is_agent_owner E community target actor =
     auth_sql E (\<lambda>n db.
       (Ok (case find (\<lambda>r. ur_key r = (community, target) \<and> ur_agent_owner r \<noteq> None) (ad_users db) of
              Some r \<Rightarrow> ur_agent_owner r = Some actor | None \<Rightarrow> False), db))"

section \<open>Relay membership\<close>

record relay_config =
  rc_relay_url :: string
  rc_require_auth_token :: bool
  rc_pubkey_allowlist_enabled :: bool
  rc_require_relay_membership :: bool
  rc_allow_nip_oa_auth :: bool

datatype MembershipDecision = OpenRelay | DirectMember | ViaOwner PublicKey | NotAdmitted

definition check_relay_membership ::
  "'u auth_env \<Rightarrow> relay_config \<Rightarrow> CommunityId \<Rightarrow> bytes \<Rightarrow> string option \<Rightarrow> auth_world \<Rightarrow>
   (string, MembershipDecision) result \<times> auth_world" where
  "check_relay_membership E cfg community pubkey_bytes auth_tag w =
     (if \<not> rc_require_relay_membership cfg then (Ok OpenRelay, w)
      else (case is_relay_member E community (ae_hex E pubkey_bytes) w of
          (Inl e, w) \<Rightarrow> (Err (''relay membership check failed: '' @ e), w)
        | (Inr True, w) \<Rightarrow> (Ok DirectMember, w)
        | (Inr False, w) \<Rightarrow>
            if \<not> rc_allow_nip_oa_auth cfg then (Ok NotAdmitted, w)
            else (case auth_tag of
                None \<Rightarrow> (Ok NotAdmitted, w)
              | Some tag_json \<Rightarrow>
                  (case ae_pubkey_from_slice E pubkey_bytes of
                     Inl e \<Rightarrow> (Err (''invalid agent pubkey for NIP-OA check: '' @ e), w)
                   | Inr agent \<Rightarrow>
                       (case verify_auth_tag E tag_json agent of
                          Inl _ \<Rightarrow> (Ok NotAdmitted, w)
                        | Inr owner \<Rightarrow>
                            (case is_relay_member E community owner w of
                               (Inl e, w) \<Rightarrow> (Err (''relay membership check (owner) failed: '' @ e), w)
                             | (Inr owner_is_member, w) \<Rightarrow>
                                 (Ok (if owner_is_member then ViaOwner owner else NotAdmitted), w)))))))"

type_synonym http_error = "nat \<times> string"

definition enforce_relay_membership ::
  "'u auth_env \<Rightarrow> relay_config \<Rightarrow> CommunityId \<Rightarrow> bytes \<Rightarrow> string option \<Rightarrow> auth_world \<Rightarrow>
   (http_error, PublicKey option) result \<times> auth_world" where
  "enforce_relay_membership E cfg community pubkey_bytes auth_tag w =
     (case check_relay_membership E cfg community pubkey_bytes auth_tag w of
        (Inr OpenRelay, w) \<Rightarrow> (Ok None, w)
      | (Inr DirectMember, w) \<Rightarrow> (Ok None, w)
      | (Inr (ViaOwner owner), w) \<Rightarrow> (Ok (Some owner), w)
      | (Inr NotAdmitted, w) \<Rightarrow> (Err (403, ''relay_membership_required''), w)
      | (Inl _, w) \<Rightarrow> (Err (500, ''internal server error''), w))"

definition extract_nip_oa_owner :: "'u auth_env \<Rightarrow> bytes \<Rightarrow> string option \<Rightarrow> PublicKey option" where
  "extract_nip_oa_owner E pubkey_bytes auth_tag =
     (case auth_tag of
        None \<Rightarrow> None
      | Some tag_json \<Rightarrow>
          (case ae_pubkey_from_slice E pubkey_bytes of
             Inl _ \<Rightarrow> None
           | Inr agent \<Rightarrow> (case verify_auth_tag E tag_json agent of Inl _ \<Rightarrow> None | Inr owner \<Rightarrow> Some owner)))"

definition materialize_nip_oa_owner ::
  "'u auth_env \<Rightarrow> TenantContext \<Rightarrow> PublicKey \<Rightarrow> PublicKey \<Rightarrow> auth_world \<Rightarrow> bool \<times> auth_world" where
  "materialize_nip_oa_owner E tenant agent owner w =
     (let c = tn_community tenant; a = ae_pubkey_bytes E agent; ow = ae_pubkey_bytes E owner
      in case ensure_user E c a w of
           (Inl _, w) \<Rightarrow> (False, w)
         | (Inr _, w) \<Rightarrow>
             (case ensure_user E c ow w of
                (Inl _, w) \<Rightarrow> (False, w)
              | (Inr _, w) \<Rightarrow>
                  (case (case set_agent_owner E c a ow w of
                           (Inr True, w) \<Rightarrow> (True, w)
                         | (Inr False, w) \<Rightarrow>
                             (case is_agent_owner E c a ow w of (Inl _, w) \<Rightarrow> (False, w) | (Inr b, w) \<Rightarrow> (b, w))
                         | (Inl _, w) \<Rightarrow> (False, w)) of
                     (False, w) \<Rightarrow> (False, w)
                   | (True, w) \<Rightarrow>
                       (True, w\<lparr>aw_author_types := push_new (aw_author_types w) (c, a),
                                aw_observer_owners := push_new (aw_observer_owners w) (c, a, ow)\<rparr>))))"

section \<open>Authentication of HTTP requests\<close>

text \<open>The headers the bridge reads, those that are valid text.\<close>

record auth_headers =
  hd_authorization :: "string option"
  hd_x_pubkey :: "string option"
  hd_x_auth_tag :: "string option"

text \<open>Event ids are their hexadecimal text; \<open>[0u8; 32]\<close> is sixty-four zeros.\<close>

definition ZERO_EVENT_ID :: string where
  "ZERO_EVENT_ID = replicate 64 (CHR ''0'')"

definition unauthorized :: "string \<Rightarrow> http_error" where
  "unauthorized m = (401, m)"

fun join_sep :: "string \<Rightarrow> string list \<Rightarrow> string" where
  "join_sep sep [] = []"
| "join_sep sep [s] = s"
| "join_sep sep (s # ss) = s @ sep @ join_sep sep ss"

fun AuthError_display :: "'u auth_env \<Rightarrow> AuthError \<Rightarrow> string" where
  "AuthError_display E InvalidSignature = ''invalid signature or malformed auth event''"
| "AuthError_display E ChallengeMismatch = ''challenge mismatch''"
| "AuthError_display E RelayUrlMismatch = ''relay url mismatch''"
| "AuthError_display E EventExpired = ''auth event timestamp outside '' @ plus_minus @ ''60s window''"
| "AuthError_display E (Nip98Invalid m) = ''NIP-98 HTTP Auth verification failed: '' @ m"
| "AuthError_display E Nip98Replay = ''NIP-98 replay: event id already seen within window''"
| "AuthError_display E PubkeyMismatch = ''pubkey mismatch: event pubkey does not match authenticated identity''"
| "AuthError_display E (InsufficientScope required have) =
     ''insufficient scope: required '' @ required @ '', have ['' @ join_sep '', '' (map (ae_debug E) have) @ '']''"
| "AuthError_display E ChannelAccessDenied = ''channel access denied''"
| "AuthError_display E (AuthInternal m) = ''internal auth error: '' @ m"

definition verify_bridge_auth_with_options ::
  "'u auth_env \<Rightarrow> nat \<Rightarrow> auth_headers \<Rightarrow> string \<Rightarrow> string \<Rightarrow> bytes option \<Rightarrow> bool \<Rightarrow> bool \<Rightarrow>
   (http_error, PublicKey \<times> string) result" where
  "verify_bridge_auth_with_options E now headers http_method url body require_auth_token require_payload =
     (case Option.bind (hd_authorization headers) (strip_prefix_str ''Nostr '') of
        Some auth_str \<Rightarrow>
          (case ae_base64 E auth_str of
             None \<Rightarrow> Err (unauthorized ''invalid base64 in Nostr auth'')
           | Some bs \<Rightarrow>
               (case ae_utf8 E bs of
                  None \<Rightarrow> Err (unauthorized ''invalid UTF-8 in Nostr auth'')
                | Some event_json \<Rightarrow>
                    (case ae_event_json E event_json of
                       Inl _ \<Rightarrow> Err (unauthorized ''invalid NIP-98 event JSON'')
                     | Inr e \<Rightarrow>
                         if require_payload \<and> \<not> list_ex (\<lambda>t. tag_kind t = ''payload'') (ev_tags e)
                         then Err (unauthorized ''NIP-98: missing payload tag'')
                         else (case verify_nip98_event E now event_json url http_method body of
                             Inl x \<Rightarrow> Err (unauthorized (''NIP-98: '' @ AuthError_display E x))
                           | Inr pubkey \<Rightarrow> Ok (pubkey, ev_id e)))))
      | None \<Rightarrow>
          if require_auth_token then Err (unauthorized ''missing Nostr auth'')
          else (case hd_x_pubkey headers of
              None \<Rightarrow> Err (unauthorized ''missing Nostr auth'')
            | Some hex_val \<Rightarrow>
                (case ae_pubkey_from_hex E hex_val of
                   Inl _ \<Rightarrow> Err (unauthorized ''invalid X-Pubkey hex'')
                 | Inr pubkey \<Rightarrow> Ok (pubkey, ZERO_EVENT_ID))))"

definition verify_bridge_auth ::
  "'u auth_env \<Rightarrow> nat \<Rightarrow> auth_headers \<Rightarrow> string \<Rightarrow> string \<Rightarrow> bytes option \<Rightarrow> bool \<Rightarrow> (http_error, PublicKey \<times> string) result" where
  "verify_bridge_auth E now headers http_method url body require_auth_token =
     verify_bridge_auth_with_options E now headers http_method url body require_auth_token False"

section \<open>The AUTH handler\<close>

datatype AuthMethod = Nip42 | Nip98

record AuthContext =
  ac_pubkey :: PublicKey
  ac_scopes :: "Scope list"
  ac_channel_ids :: "uuid list option"
  ac_auth_method :: AuthMethod
  ac_agent_owner_pubkey :: "PublicKey option"

definition has_scope :: "AuthContext \<Rightarrow> Scope \<Rightarrow> bool" where
  "has_scope ctx scope = (scope \<in> set (ac_scopes ctx))"

datatype AuthState = AuthPending string | Authenticated AuthContext | AuthFailedState

text \<open>A connection: its tenant, its state, the \<open>OK\<close> frames sent on the data and the control channel, and whether it is closed.\<close>

record auth_conn =
  cn_id :: uuid
  cn_tenant :: TenantContext
  cn_auth :: AuthState
  cn_sent :: "(string \<times> bool \<times> string) list"
  cn_ctrl :: "(string \<times> bool \<times> string) list"
  cn_cancelled :: bool

definition conn_send :: "string \<Rightarrow> bool \<Rightarrow> string \<Rightarrow> auth_conn \<Rightarrow> auth_conn" where
  "conn_send event_id accepted message conn = conn\<lparr>cn_sent := cn_sent conn @ [(event_id, accepted, message)]\<rparr>"

definition verify_auth_event ::
  "'u auth_env \<Rightarrow> nat \<Rightarrow> SignedEvent \<Rightarrow> string \<Rightarrow> string \<Rightarrow> (AuthError, AuthContext) result" where
  "verify_auth_event E now e expected_challenge relay_url =
     (case verify_nip42_event E now e expected_challenge relay_url of
        Inl x \<Rightarrow> Err x
      | Inr _ \<Rightarrow> Ok \<lparr>ac_pubkey = ev_pubkey e, ac_scopes = all_known, ac_channel_ids = None, ac_auth_method = Nip42,
                   ac_agent_owner_pubkey = None\<rparr>)"

definition extract_auth_tag_json :: "'u auth_env \<Rightarrow> SignedEvent \<Rightarrow> string option" where
  "extract_auth_tag_json E e =
     (case filter (\<lambda>t. tag_slice t \<noteq> [] \<and> hd (tag_slice t) = ''auth'') (ev_tags e) of
        [t] \<Rightarrow> Some (ae_json_show E (Array (map String (tag_slice t))))
      | _ \<Rightarrow> None)"

datatype BanOutcome = Clear | Banned | BanDbError

definition ban_of ::
  "'u auth_env \<Rightarrow> CommunityId \<Rightarrow> bytes \<Rightarrow> auth_world \<Rightarrow> BanOutcome \<times> auth_world" where
  "ban_of E community pubkey w =
     (case restriction_state E community pubkey w of
        (Inr r, w) \<Rightarrow> (if rs_banned r then Banned else Clear, w)
      | (Inl _, w) \<Rightarrow> (BanDbError, w))"

text \<open>The ban of the key itself, then, only when that is clear, of its attested owner.\<close>

definition ban_gate ::
  "'u auth_env \<Rightarrow> CommunityId \<Rightarrow> bytes \<Rightarrow> string option \<Rightarrow> auth_world \<Rightarrow> BanOutcome \<times> auth_world" where
  "ban_gate E community pubkey auth_tag w =
     (case ban_of E community pubkey w of
        (Clear, w) \<Rightarrow>
          (case extract_nip_oa_owner E pubkey auth_tag of
             None \<Rightarrow> (Clear, w)
           | Some owner \<Rightarrow> ban_of E community (ae_pubkey_bytes E owner) w)
      | (outcome, w) \<Rightarrow> (outcome, w))"

definition ban_denial :: "BanOutcome \<Rightarrow> string option" where
  "ban_denial outcome =
     (case outcome of
        Clear \<Rightarrow> None
      | Banned \<Rightarrow> Some ''blocked: you are banned from this community''
      | BanDbError \<Rightarrow> Some ''error: internal error checking restriction state'')"

definition allowlist_gate ::
  "'u auth_env \<Rightarrow> relay_config \<Rightarrow> CommunityId \<Rightarrow> bytes \<Rightarrow> AuthMethod \<Rightarrow> auth_world \<Rightarrow> bool \<times> auth_world" where
  "allowlist_gate E cfg community pubkey meth w =
     (if rc_pubkey_allowlist_enabled cfg \<and> \<not> rc_require_relay_membership cfg \<and> meth = Nip42
      then (case is_pubkey_allowed E community pubkey w of (Inl _, w) \<Rightarrow> (False, w) | (Inr b, w) \<Rightarrow> (b, w))
      else (True, w))"

text \<open>The owner to record: the one membership was granted through, or on an open relay the attested one.\<close>

definition attested_owner ::
  "'u auth_env \<Rightarrow> relay_config \<Rightarrow> bytes \<Rightarrow> string option \<Rightarrow> PublicKey option \<Rightarrow> PublicKey option" where
  "attested_owner E cfg pubkey auth_tag via =
     (case via of
        Some owner \<Rightarrow> Some owner
      | None \<Rightarrow> if \<not> rc_require_relay_membership cfg \<and> auth_tag \<noteq> None then extract_nip_oa_owner E pubkey auth_tag else None)"

definition record_owner ::
  "'u auth_env \<Rightarrow> TenantContext \<Rightarrow> PublicKey option \<Rightarrow> AuthContext \<Rightarrow> auth_world \<Rightarrow> AuthContext \<times> auth_world" where
  "record_owner E tenant owner ctx w =
     (case owner of
        None \<Rightarrow> (ctx, w)
      | Some ow \<Rightarrow>
          (case materialize_nip_oa_owner E tenant (ac_pubkey ctx) ow w of
             (True, w) \<Rightarrow> (ctx\<lparr>ac_agent_owner_pubkey := Some ow\<rparr>, w)
           | (False, w) \<Rightarrow> (ctx, w)))"

definition handle_auth ::
  "'u auth_env \<Rightarrow> relay_config \<Rightarrow> SignedEvent \<Rightarrow> auth_conn \<Rightarrow> auth_world \<Rightarrow> auth_conn \<times> auth_world" where
  "handle_auth E cfg e conn w =
     (let failed = (\<lambda>message c. conn_send (ev_id e) False message (c\<lparr>cn_auth := AuthFailedState\<rparr>));
          community = tn_community (cn_tenant conn)
      in case cn_auth conn of
           Authenticated _ \<Rightarrow> (conn_send (ev_id e) False ''auth-required: already authenticated'' conn, w)
         | AuthFailedState \<Rightarrow> (conn_send (ev_id e) False ''auth-required: authentication already failed'' conn, w)
         | AuthPending challenge \<Rightarrow>
             (case verify_auth_event E (ae_now E (aw_n w)) e challenge
                     (nip42_expected_relay_url (rc_relay_url cfg) (cn_tenant conn)) of
                Inl _ \<Rightarrow> (failed ''auth-required: verification failed'' conn, aw_tick w)
              | Inr ctx \<Rightarrow>
                  (let pubkey = ae_pubkey_bytes E (ac_pubkey ctx); auth_tag = extract_auth_tag_json E e
                   in case ban_gate E community pubkey auth_tag (aw_tick w) of
                        (outcome, w) \<Rightarrow>
                          (case ban_denial outcome of
                             Some reason \<Rightarrow>
                               (conn\<lparr>cn_auth := AuthFailedState, cn_ctrl := cn_ctrl conn @ [(ev_id e, False, reason)],
                                     cn_cancelled := True\<rparr>, w)
                           | None \<Rightarrow>
                               (case allowlist_gate E cfg community pubkey (ac_auth_method ctx) w of
                                  (False, w) \<Rightarrow> (failed ''auth-required: verification failed'' conn, w)
                                | (True, w) \<Rightarrow>
                                    (case enforce_relay_membership E cfg community pubkey auth_tag w of
                                       (Inl _, w) \<Rightarrow> (failed ''restricted: not a relay member'' conn, w)
                                     | (Inr via, w) \<Rightarrow>
                                         (case record_owner E (cn_tenant conn) (attested_owner E cfg pubkey auth_tag via) ctx w of
                                            (ctx, w) \<Rightarrow>
                                              (conn_send (ev_id e) True [] (conn\<lparr>cn_auth := Authenticated ctx\<rparr>),
                                               w\<lparr>aw_authenticated := hm_insert (cn_id conn) pubkey (aw_authenticated w)\<rparr>))))))))"

section \<open>What an authenticated connection has proved\<close>

definition banned_at :: "AuthDb \<Rightarrow> int \<Rightarrow> CommunityId \<Rightarrow> bytes \<Rightarrow> bool" where
  "banned_at db t community pubkey \<longleftrightarrow>
     (case find (\<lambda>r. br_community r = community \<and> br_pubkey r = pubkey) (ad_bans db) of
        Some r \<Rightarrow> br_banned r \<and> is_none_or (br_expires_at r) (\<lambda>e. e > t) | None \<Rightarrow> False)"

definition recorded_owners :: "AuthDb \<Rightarrow> (CommunityId \<times> bytes \<times> bytes) set" where
  "recorded_owners db = {(ur_community r, ur_pubkey r, ow) | r ow. r \<in> set (ad_users db) \<and> ur_agent_owner r = Some ow}"

definition attested :: "'u auth_env \<Rightarrow> SignedEvent \<Rightarrow> PublicKey \<Rightarrow> bool" where
  "attested E e owner \<longleftrightarrow> extract_nip_oa_owner E (ae_pubkey_bytes E (ev_pubkey e)) (extract_auth_tag_json E e) = Some owner"

text \<open>The event answers the challenge of this connection, for the URL of its tenant, now.\<close>

definition answers_challenge :: "'u auth_env \<Rightarrow> nat \<Rightarrow> string \<Rightarrow> string \<Rightarrow> SignedEvent \<Rightarrow> bool" where
  "answers_challenge E now challenge relay_url e \<longleftrightarrow>
     ev_kind e = KIND_AUTHENTICATION \<and> ae_verify_id E e \<and> ae_verify_signature E e
     \<and> tag_value e ''challenge'' = Some challenge
     \<and> (\<exists>relay. tag_value e ''relay'' = Some relay \<and> normalize_relay_url E relay = normalize_relay_url E relay_url)
     \<and> now \<le> ev_created_at e + 60 \<and> ev_created_at e \<le> now + 60"

definition admitted :: "'u auth_env \<Rightarrow> relay_config \<Rightarrow> AuthDb \<Rightarrow> CommunityId \<Rightarrow> SignedEvent \<Rightarrow> bool" where
  "admitted E cfg db community e \<longleftrightarrow>
     (let pubkey = ae_pubkey_bytes E (ev_pubkey e)
      in (\<exists>n. \<not> banned_at db (ae_db_now E n) community pubkey)
         \<and> (\<forall>owner. attested E e owner \<longrightarrow> (\<exists>n. \<not> banned_at db (ae_db_now E n) community (ae_pubkey_bytes E owner)))
         \<and> (rc_pubkey_allowlist_enabled cfg \<and> \<not> rc_require_relay_membership cfg \<longrightarrow> (community, pubkey) \<in> set (ad_allowlist db))
         \<and> (rc_require_relay_membership cfg \<longrightarrow> (community, ae_hex E pubkey) \<in> set (ad_members db)
              \<or> rc_allow_nip_oa_auth cfg \<and> (\<exists>owner. attested E e owner \<and> (community, owner) \<in> set (ad_members db))))"

text \<open>Calls that read only; calls that change no more than the users, and there never a recorded owner.\<close>

definition reads :: "auth_world \<Rightarrow> auth_world \<Rightarrow> bool" where
  "reads w w' \<longleftrightarrow> aw_db w' = aw_db w"

definition keeps_owners :: "auth_world \<Rightarrow> auth_world \<Rightarrow> bool" where
  "keeps_owners w w' \<longleftrightarrow> recorded_owners (aw_db w) \<subseteq> recorded_owners (aw_db w')
     \<and> (ad_bans (aw_db w'), ad_members (aw_db w'), ad_allowlist (aw_db w')) = (ad_bans (aw_db w), ad_members (aw_db w), ad_allowlist (aw_db w))"

lemma reads_tick [simp]: "reads w (aw_tick w)" "reads w w"
  by (simp_all add: reads_def aw_tick_def)

lemma reads_keeps: "reads w w' \<Longrightarrow> keeps_owners w w'"
  by (simp add: reads_def keeps_owners_def)

lemma keeps_trans: "keeps_owners w v \<Longrightarrow> keeps_owners v u \<Longrightarrow> keeps_owners w u"
  by (auto simp: keeps_owners_def)

lemma auth_sql_read:
  "auth_sql E (\<lambda>n db. (Ok (f n db), db)) w = (res, w') \<Longrightarrow>
   reads w w' \<and> (\<forall>x. res = Ok x \<longrightarrow> x = f (aw_n w) (aw_db w))"
  by (auto simp: auth_sql_def aw_tick_def reads_def split: option.splits)

lemma ban_of_eq:
  "ban_of E c pk w =
     (case ae_db_fault E (aw_n w) of
        Some _ \<Rightarrow> (BanDbError, aw_tick w)
      | None \<Rightarrow> (if banned_at (aw_db w) (ae_db_now E (aw_n w)) c pk then Banned else Clear, aw_tick w))"
proof -
  have "(aw_tick w)\<lparr>aw_db := aw_db w\<rparr> = aw_tick w" by (simp add: aw_tick_def)
  then show ?thesis
    by (cases "ae_db_fault E (aw_n w)"; cases "find (\<lambda>r. br_community r = c \<and> br_pubkey r = pk) (ad_bans (aw_db w))")
      (simp_all add: ban_of_def restriction_state_def auth_sql_def banned_at_def)
qed

lemma ban_of_reads:
  assumes "ban_of E c pk w = (out, w')"
  shows "reads w w'" "out = Clear \<Longrightarrow> \<exists>n. \<not> banned_at (aw_db w) (ae_db_now E n) c pk"
  using assms by (auto simp: ban_of_eq split: option.splits if_splits)

lemma ban_gate_reads:
  assumes "ban_gate E c pk tag w = (out, w')"
  shows "reads w w'" "out = Clear \<Longrightarrow> \<exists>n. \<not> banned_at (aw_db w) (ae_db_now E n) c pk"
    "out = Clear \<Longrightarrow> extract_nip_oa_owner E pk tag = Some ow \<Longrightarrow> \<exists>n. \<not> banned_at (aw_db w) (ae_db_now E n) c (ae_pubkey_bytes E ow)"
proof -
  obtain o1 w1 where first: "ban_of E c pk w = (o1, w1)" by fastforce
  note r1 = ban_of_reads [OF first]
  have db: "aw_db w1 = aw_db w" using r1(1) by (simp add: reads_def)
  have second: "reads w w2" "o2 = Clear \<Longrightarrow> \<exists>n. \<not> banned_at (aw_db w) (ae_db_now E n) c p"
    if "ban_of E c p w1 = (o2, w2)" for p o2 w2
    using ban_of_reads [OF that] db by (auto simp: reads_def)
  have "reads w w' \<and> (out = Clear \<longrightarrow> (\<exists>n. \<not> banned_at (aw_db w) (ae_db_now E n) c pk)
      \<and> (extract_nip_oa_owner E pk tag = Some ow \<longrightarrow> (\<exists>n. \<not> banned_at (aw_db w) (ae_db_now E n) c (ae_pubkey_bytes E ow))))"
  proof (cases o1)
    case Clear
    then show ?thesis
      using assms first r1 second by (cases "extract_nip_oa_owner E pk tag") (auto simp: ban_gate_def)
  qed (use assms first r1 in \<open>simp_all add: ban_gate_def\<close>)
  then show "reads w w'" "out = Clear \<Longrightarrow> \<exists>n. \<not> banned_at (aw_db w) (ae_db_now E n) c pk"
    "out = Clear \<Longrightarrow> extract_nip_oa_owner E pk tag = Some ow \<Longrightarrow> \<exists>n. \<not> banned_at (aw_db w) (ae_db_now E n) c (ae_pubkey_bytes E ow)"
    by simp_all
qed

lemma allowlist_gate_reads:
  assumes "allowlist_gate E cfg c pk m w = (b, w')"
  shows "reads w w'" "b \<Longrightarrow> m = Nip42 \<Longrightarrow> rc_pubkey_allowlist_enabled cfg \<Longrightarrow> \<not> rc_require_relay_membership cfg \<Longrightarrow>
    (c, pk) \<in> set (ad_allowlist (aw_db w))"
  using assms by (auto simp: allowlist_gate_def is_pubkey_allowed_def dest!: auth_sql_read split: prod.splits sum.splits if_splits)

lemma is_relay_member_reads:
  "is_relay_member E c p w = (res, w') \<Longrightarrow> reads w w' \<and> (res = Ok True \<longrightarrow> (c, p) \<in> set (ad_members (aw_db w)))"
  by (auto simp: is_relay_member_def dest!: auth_sql_read)

lemma membership_reads:
  assumes "enforce_relay_membership E cfg c pk tag w = (res, w')"
  shows "reads w w'"
    "res = Ok via \<Longrightarrow> rc_require_relay_membership cfg \<Longrightarrow> (c, ae_hex E pk) \<in> set (ad_members (aw_db w))
      \<or> rc_allow_nip_oa_auth cfg \<and> (\<exists>ow. extract_nip_oa_owner E pk tag = Some ow \<and> (c, ow) \<in> set (ad_members (aw_db w)))"
    "res = Ok (Some ow) \<Longrightarrow> extract_nip_oa_owner E pk tag = Some ow"
proof -
  obtain dec w1 where d: "check_relay_membership E cfg c pk tag w = (dec, w1)" by fastforce
  have via: "\<exists>t a. tag = Some t \<and> ae_pubkey_from_slice E pk = Ok a \<and> verify_auth_tag E t a = Ok ow"
    if "dec = Ok (ViaOwner ow)" for ow
    using d that by (auto simp: check_relay_membership_def split: if_splits prod.splits sum.splits bool.splits option.splits)
  have base: "reads w w1 \<and> (dec = Ok DirectMember \<longrightarrow> (c, ae_hex E pk) \<in> set (ad_members (aw_db w)))
      \<and> (\<forall>ow. dec = Ok (ViaOwner ow) \<longrightarrow> rc_allow_nip_oa_auth cfg \<and> (c, ow) \<in> set (ad_members (aw_db w)))
      \<and> (dec = Ok OpenRelay \<longrightarrow> \<not> rc_require_relay_membership cfg)"
    using d by (auto simp: check_relay_membership_def reads_def split: if_splits prod.splits sum.splits bool.splits option.splits
        dest!: is_relay_member_reads)
  have ext: "extract_nip_oa_owner E pk tag = Some ow" if "dec = Ok (ViaOwner ow)" for ow
    using via [OF that] by (auto simp: extract_nip_oa_owner_def)
  show "reads w w'" using assms d base by (auto simp: enforce_relay_membership_def split: sum.splits MembershipDecision.splits)
  show "(c, ae_hex E pk) \<in> set (ad_members (aw_db w))
      \<or> rc_allow_nip_oa_auth cfg \<and> (\<exists>ow. extract_nip_oa_owner E pk tag = Some ow \<and> (c, ow) \<in> set (ad_members (aw_db w)))"
    if "res = Ok via" "rc_require_relay_membership cfg"
    using assms d base ext that by (auto simp: enforce_relay_membership_def split: sum.splits MembershipDecision.splits)
  show "extract_nip_oa_owner E pk tag = Some ow" if "res = Ok (Some ow)"
    using assms d ext that by (auto simp: enforce_relay_membership_def split: sum.splits MembershipDecision.splits)
qed

lemma recorded_ownersI:
  "r \<in> set (ad_users db) \<Longrightarrow> ur_agent_owner r = Some ow \<Longrightarrow> ur_key r = (c, a) \<Longrightarrow> (c, a, ow) \<in> recorded_owners db"
  by (auto simp: recorded_owners_def ur_key_def)

lemma ensure_user_keeps: "ensure_user E c p w = (res, w') \<Longrightarrow> keeps_owners w w'"
  by (auto simp: ensure_user_def auth_sql_def aw_tick_def keeps_owners_def recorded_owners_def split: option.splits if_splits)

lemma set_owner_keeps:
  fixes w :: auth_world
  shows "set_agent_owner E c a ow w = (res, w') \<Longrightarrow> keeps_owners w w' \<and> (res = Ok True \<longrightarrow> (c, a, ow) \<in> recorded_owners (aw_db w'))"
proof -
  let ?P = "\<lambda>r. ur_key r = (c, a) \<and> ur_agent_owner r = None"
  let ?upd = "map (\<lambda>r. if ?P r then r\<lparr>ur_agent_owner := Some ow\<rparr> else r)"
  have grow: "recorded_owners db \<subseteq> recorded_owners (db\<lparr>ad_users := ?upd (ad_users db)\<rparr>)" for db
    by (fastforce simp: recorded_owners_def)
  have new: "(c, a, ow) \<in> recorded_owners (db\<lparr>ad_users := ?upd (ad_users db)\<rparr>)" if hit: "list_ex ?P (ad_users db)" for db
  proof -
    obtain r where "r \<in> set (ad_users db)" "?P r" using hit by (auto simp: list_ex_iff)
    then have "r\<lparr>ur_agent_owner := Some ow\<rparr> \<in> set (?upd (ad_users db))" "ur_key (r\<lparr>ur_agent_owner := Some ow\<rparr>) = (c, a)"
      by (force simp: ur_key_def)+
    then show ?thesis by (intro recorded_ownersI [of "r\<lparr>ur_agent_owner := Some ow\<rparr>"]) simp_all
  qed
  assume "set_agent_owner E c a ow w = (res, w')"
  then show ?thesis
    unfolding set_agent_owner_def Let_def
    by (auto simp: auth_sql_def aw_tick_def keeps_owners_def grow new split: prod.splits option.splits if_splits bool.splits sum.splits
        dest: grow [THEN subsetD])
qed

lemma is_owner_reads:
  assumes "is_agent_owner E c a ow w = (res, w')"
  shows "reads w w' \<and> (res = Ok True \<longrightarrow> (c, a, ow) \<in> recorded_owners (aw_db w'))"
proof -
  let ?Q = "\<lambda>r. ur_key r = (c, a) \<and> ur_agent_owner r \<noteq> None"
  have read: "reads w w'" "res = Ok x \<Longrightarrow> x = (case find ?Q (ad_users (aw_db w)) of Some r \<Rightarrow> ur_agent_owner r = Some ow | None \<Rightarrow> False)" for x
    using auth_sql_read [OF assms [unfolded is_agent_owner_def]] by blast+
  have "(c, a, ow) \<in> recorded_owners (aw_db w')" if yes: "res = Ok True"
  proof -
    obtain r where r: "find ?Q (ad_users (aw_db w)) = Some r" "ur_agent_owner r = Some ow"
      using read(2) [OF yes] by (auto split: option.splits)
    then have "r \<in> set (ad_users (aw_db w'))" "ur_key r = (c, a)"
      using read(1) by (auto simp: find_Some_iff reads_def)
    then show ?thesis using r(2) by (intro recorded_ownersI)
  qed
  then show ?thesis using read(1) by simp
qed

lemma materialize_keeps:
  assumes "materialize_nip_oa_owner E tn agent owner w = (b, w')"
  shows "keeps_owners w w'" "b \<Longrightarrow> (tn_community tn, ae_pubkey_bytes E agent, ae_pubkey_bytes E owner) \<in> recorded_owners (aw_db w')"
proof -
  let ?c = "tn_community tn" and ?a = "ae_pubkey_bytes E agent" and ?o = "ae_pubkey_bytes E owner"
  obtain r1 w1 where 1: "ensure_user E ?c ?a w = (r1, w1)" by fastforce
  obtain r2 w2 where 2: "ensure_user E ?c ?o w1 = (r2, w2)" by fastforce
  obtain r3 w3 where 3: "set_agent_owner E ?c ?a ?o w2 = (r3, w3)" by fastforce
  obtain r4 w4 where 4: "is_agent_owner E ?c ?a ?o w3 = (r4, w4)" by fastforce
  have k1: "keeps_owners w w1" by (rule ensure_user_keeps [OF 1])
  have k2: "keeps_owners w w2" by (rule keeps_trans [OF k1 ensure_user_keeps [OF 2]])
  have k3: "keeps_owners w w3" "r3 = Ok True \<longrightarrow> (?c, ?a, ?o) \<in> recorded_owners (aw_db w3)"
    using keeps_trans [OF k2] set_owner_keeps [OF 3] by auto
  have k4: "keeps_owners w w4" "r4 = Ok True \<longrightarrow> (?c, ?a, ?o) \<in> recorded_owners (aw_db w4)"
    using keeps_trans [OF k3(1) reads_keeps] is_owner_reads [OF 4] by auto
  have more: "keeps_owners w (v\<lparr>aw_author_types := x, aw_observer_owners := y\<rparr>) = keeps_owners w v" for v x y
    by (simp add: keeps_owners_def)
  note splits = sum.splits bool.splits
  show "keeps_owners w w'"
    using assms 1 2 3 4 k1 k2 k3(1) k4(1) by (auto simp: materialize_nip_oa_owner_def Let_def more split: splits)
  show "(?c, ?a, ?o) \<in> recorded_owners (aw_db w')" if b
    using assms 1 2 3 4 k3(2) k4(2) that by (auto simp: materialize_nip_oa_owner_def Let_def split: splits)
qed

lemma record_owner_keeps:
  assumes "record_owner E tn owner ctx w = (ctx', w')"
  shows "keeps_owners w w'" "ctx' = ctx \<or> (\<exists>ow. owner = Some ow \<and> ctx' = ctx\<lparr>ac_agent_owner_pubkey := Some ow\<rparr>
    \<and> (tn_community tn, ae_pubkey_bytes E (ac_pubkey ctx), ae_pubkey_bytes E ow) \<in> recorded_owners (aw_db w'))"
  using assms by (auto simp: record_owner_def reads_keeps split: option.splits prod.splits bool.splits
      dest: materialize_keeps(1) materialize_keeps(2) [OF _ TrueI])

lemma attested_owner_sound:
  "attested_owner E cfg pk tag via = Some ow \<Longrightarrow> (\<And>x. via = Some x \<Longrightarrow> extract_nip_oa_owner E pk tag = Some x) \<Longrightarrow>
   extract_nip_oa_owner E pk tag = Some ow"
  by (auto simp: attested_owner_def split: option.splits if_splits)

lemma verify_auth_event_iff:
  "verify_auth_event E now e ch url =
     (if answers_challenge E now ch url e
      then Ok \<lparr>ac_pubkey = ev_pubkey e, ac_scopes = all_known, ac_channel_ids = None, ac_auth_method = Nip42, ac_agent_owner_pubkey = None\<rparr>
      else case verify_auth_event E now e ch url of Inl x \<Rightarrow> Err x | Inr _ \<Rightarrow> Err InvalidSignature)"
proof -
  have "verify_nip42_event E now e ch url = Ok () \<longleftrightarrow> answers_challenge E now ch url e"
    by (auto simp: verify_nip42_event_def verify_event_def answers_challenge_def TIMESTAMP_TOLERANCE_SECS_def abs_diff_def
        split: option.splits sum.splits if_splits)
  then show ?thesis by (auto simp: verify_auth_event_def split: sum.splits)
qed

text \<open>The context of a connection whose AUTH event passed every gate on the tables \<open>db\<close>, leaving the tables \<open>db'\<close>.\<close>

definition entitled ::
  "'u auth_env \<Rightarrow> relay_config \<Rightarrow> TenantContext \<Rightarrow> string \<Rightarrow> nat \<Rightarrow> AuthDb \<Rightarrow> AuthDb \<Rightarrow> SignedEvent \<Rightarrow> AuthContext \<Rightarrow> bool" where
  "entitled E cfg tenant challenge now db db' e ctx \<longleftrightarrow>
     answers_challenge E now challenge (nip42_expected_relay_url (rc_relay_url cfg) tenant) e
     \<and> admitted E cfg db (tn_community tenant) e
     \<and> ac_pubkey ctx = ev_pubkey e \<and> ac_scopes ctx = all_known \<and> ac_auth_method ctx = Nip42
     \<and> (\<forall>owner. ac_agent_owner_pubkey ctx = Some owner \<longrightarrow> attested E e owner
          \<and> (tn_community tenant, ae_pubkey_bytes E (ev_pubkey e), ae_pubkey_bytes E owner) \<in> recorded_owners db')"

lemma handle_auth_pending:
  assumes "cn_auth conn = AuthPending challenge" "handle_auth E cfg e conn w = (conn', w')"
  shows "keeps_owners w w'"
    "cn_auth conn' = AuthFailedState \<or>
     (\<exists>ctx. cn_auth conn' = Authenticated ctx \<and> cn_sent conn' = cn_sent conn @ [(ev_id e, True, [])] \<and>
        entitled E cfg (cn_tenant conn) challenge (ae_now E (aw_n w)) (aw_db w) (aw_db w') e ctx)"
    "cn_auth conn' = AuthFailedState \<Longrightarrow> filter (\<lambda>(_, ok, _). ok) (cn_sent conn') = filter (\<lambda>(_, ok, _). ok) (cn_sent conn)"
proof -
  let ?c = "tn_community (cn_tenant conn)" and ?pk = "ae_pubkey_bytes E (ev_pubkey e)" and ?tag = "extract_auth_tag_json E e"
  let ?url = "nip42_expected_relay_url (rc_relay_url cfg) (cn_tenant conn)" and ?now = "ae_now E (aw_n w)"
  let ?ctx = "\<lparr>ac_pubkey = ev_pubkey e, ac_scopes = all_known, ac_channel_ids = None, ac_auth_method = Nip42, ac_agent_owner_pubkey = None\<rparr>"
  obtain out w1 where 1: "ban_gate E ?c ?pk ?tag (aw_tick w) = (out, w1)" by fastforce
  obtain ok w2 where 2: "allowlist_gate E cfg ?c ?pk Nip42 w1 = (ok, w2)" by fastforce
  obtain mem w3 where 3: "enforce_relay_membership E cfg ?c ?pk ?tag w2 = (mem, w3)" by fastforce
  have dbs: "aw_db w1 = aw_db w" "aw_db w2 = aw_db w" "aw_db w3 = aw_db w"
    using ban_gate_reads(1) [OF 1] allowlist_gate_reads(1) [OF 2] membership_reads(1) [OF 3] by (simp_all add: reads_def aw_tick_def)
  have k: "keeps_owners w (aw_tick w)" "keeps_owners w w1" "keeps_owners w w2" "keeps_owners w w3"
    using dbs by (simp_all add: keeps_owners_def aw_tick_def)
  have ban: "\<exists>n. \<not> banned_at (aw_db w) (ae_db_now E n) ?c ?pk"
      "\<And>ow. attested E e ow \<Longrightarrow> \<exists>n. \<not> banned_at (aw_db w) (ae_db_now E n) ?c (ae_pubkey_bytes E ow)" if "out = Clear"
    using ban_gate_reads(2) [OF 1 that] ban_gate_reads(3) [OF 1 that] by (simp_all add: attested_def aw_tick_def)
  have adm: "admitted E cfg (aw_db w) ?c e" if "out = Clear" ok "mem = Ok via" for via
    using ban [OF that(1)] allowlist_gate_reads(2) [OF 2 that(2) refl] membership_reads(2) [OF 3 that(3)] dbs
    by (auto simp: admitted_def Let_def attested_def)
  have final: "keeps_owners w w4 \<and> entitled E cfg (cn_tenant conn) challenge ?now (aw_db w) (aw_db w4) e ctx"
    if gates: "answers_challenge E ?now challenge ?url e" "out = Clear" ok "mem = Ok via"
      and rec: "record_owner E (cn_tenant conn) (attested_owner E cfg ?pk ?tag via) ?ctx w3 = (ctx, w4)" for via ctx w4
  proof -
    have own: "attested E e ow" if "attested_owner E cfg ?pk ?tag via = Some ow" for ow
      unfolding attested_def
      by (rule attested_owner_sound [OF that]) (use membership_reads(3) [OF 3] gates(4) in auto)
    show ?thesis
      using record_owner_keeps [OF rec] keeps_trans [OF k(4)] gates(1) adm [OF gates(2,3,4)] own
      by (auto simp: entitled_def)
  qed
  have clear: "ban_denial out = None \<Longrightarrow> out = Clear" by (simp add: ban_denial_def split: BanOutcome.splits)
  have unfolded: "handle_auth E cfg e conn w =
     (if answers_challenge E ?now challenge ?url e then
        (case ban_denial out of
           Some reason \<Rightarrow>
             (conn\<lparr>cn_auth := AuthFailedState, cn_ctrl := cn_ctrl conn @ [(ev_id e, False, reason)], cn_cancelled := True\<rparr>, w1)
         | None \<Rightarrow>
             if \<not> ok then (conn_send (ev_id e) False ''auth-required: verification failed'' (conn\<lparr>cn_auth := AuthFailedState\<rparr>), w2)
             else (case mem of
                 Inl _ \<Rightarrow> (conn_send (ev_id e) False ''restricted: not a relay member'' (conn\<lparr>cn_auth := AuthFailedState\<rparr>), w3)
               | Inr via \<Rightarrow>
                   (case record_owner E (cn_tenant conn) (attested_owner E cfg ?pk ?tag via) ?ctx w3 of
                      (ctx, w4) \<Rightarrow> (conn_send (ev_id e) True [] (conn\<lparr>cn_auth := Authenticated ctx\<rparr>),
                        w4\<lparr>aw_authenticated := hm_insert (cn_id conn) ?pk (aw_authenticated w4)\<rparr>))))
      else (conn_send (ev_id e) False ''auth-required: verification failed'' (conn\<lparr>cn_auth := AuthFailedState\<rparr>), aw_tick w))"
    using assms(1) 1 2 3
    by (subst handle_auth_def, subst verify_auth_event_iff) (auto simp: Let_def split: sum.split option.split bool.split)
  have upd: "keeps_owners w (v\<lparr>aw_authenticated := x\<rparr>) = keeps_owners w v" for v x by (simp add: keeps_owners_def)
  note run = assms(2) [unfolded unfolded]
  show "keeps_owners w w'"
    using run k final clear by (auto simp: upd split: if_splits option.splits sum.splits prod.splits)
  show "cn_auth conn' = AuthFailedState \<or>
     (\<exists>ctx. cn_auth conn' = Authenticated ctx \<and> cn_sent conn' = cn_sent conn @ [(ev_id e, True, [])] \<and>
        entitled E cfg (cn_tenant conn) challenge ?now (aw_db w) (aw_db w') e ctx)"
    using run final clear by (auto simp: conn_send_def split: if_splits option.splits sum.splits prod.splits)
  show "filter (\<lambda>(_, ok, _). ok) (cn_sent conn') = filter (\<lambda>(_, ok, _). ok) (cn_sent conn)" if "cn_auth conn' = AuthFailedState"
    using run that by (auto simp: conn_send_def split: if_splits option.splits sum.splits prod.splits)
qed

fun auth_run :: "'u auth_env \<Rightarrow> relay_config \<Rightarrow> SignedEvent list \<Rightarrow> auth_conn \<times> auth_world \<Rightarrow> auth_conn \<times> auth_world" where
  "auth_run E cfg [] (conn, w) = (conn, w)"
| "auth_run E cfg (e # es) (conn, w) = auth_run E cfg es (handle_auth E cfg e conn w)"

lemma handle_auth_settled:
  assumes "\<forall>ch. cn_auth conn \<noteq> AuthPending ch"
  shows "\<exists>m. handle_auth E cfg e conn w = (conn_send (ev_id e) False m conn, w)"
  using assms by (cases "cn_auth conn") (auto simp: handle_auth_def Let_def)

lemma auth_run_settled:
  assumes "\<forall>ch. cn_auth conn \<noteq> AuthPending ch" "auth_run E cfg es (conn, w) = (conn', w')"
  shows "w' = w \<and> cn_auth conn' = cn_auth conn \<and> filter (\<lambda>(_, ok, _). ok) (cn_sent conn') = filter (\<lambda>(_, ok, _). ok) (cn_sent conn)"
  using assms
proof (induction es arbitrary: conn)
  case (Cons e es)
  then obtain m where m: "handle_auth E cfg e conn w = (conn_send (ev_id e) False m conn, w)"
    using handle_auth_settled by metis
  show ?case
    using Cons.IH [of "conn_send (ev_id e) False m conn"] Cons.prems m by (simp add: conn_send_def)
qed simp

text \<open>
  C29. A connection gets one chance to authenticate. Of any sequence of AUTH messages only the first is considered: it
  leaves the connection failed for good, or authenticated for good, with exactly one accepting answer; and it is
  authenticated only when the event is validly signed, answers this connection's challenge for the URL of this
  connection's tenant within 60 seconds, neither its key nor the owner it attests is banned in the community, and the
  key is on the allowlist or is a relay member (directly, or through the attested owner where that is enabled), as the
  relay is configured. An owner is reported only when attested and recorded, and a recorded owner is never replaced.
\<close>

theorem connection_auth_sound:
  "let start = conn\<lparr>cn_auth := AuthPending challenge, cn_sent := []\<rparr>; (conn', w') = auth_run E cfg (e # es) (start, w)
   in recorded_owners (aw_db w) \<subseteq> recorded_owners (aw_db w')
      \<and> length (filter (\<lambda>(_, ok, _). ok) (cn_sent conn')) = of_bool (cn_auth conn' \<noteq> AuthFailedState)
      \<and> (cn_auth conn' = AuthFailedState \<or> (\<exists>ctx. cn_auth conn' = Authenticated ctx
           \<and> entitled E cfg (cn_tenant conn) challenge (ae_now E (aw_n w)) (aw_db w) (aw_db w') e ctx))"
proof -
  let ?start = "conn\<lparr>cn_auth := AuthPending challenge, cn_sent := []\<rparr>"
  obtain c1 w1 where 1: "handle_auth E cfg e ?start w = (c1, w1)" by fastforce
  obtain conn' w' where rest: "auth_run E cfg es (c1, w1) = (conn', w')" by fastforce
  note first = handle_auth_pending [OF _ 1, of challenge, simplified]
  then have "\<forall>ch. cn_auth c1 \<noteq> AuthPending ch" by auto
  note last = auth_run_settled [OF this rest]
  show ?thesis
    using 1 rest first last by (auto simp: keeps_owners_def)
qed

section \<open>The grammar of conditions\<close>

lemma canonical_decimal:
  "s \<noteq> [] \<Longrightarrow> list_all is_ascii_digit s \<Longrightarrow> (length s > 1 \<Longrightarrow> hd s \<noteq> CHR ''0'') \<Longrightarrow> nat_to_string (digits_value s) = s"
proof (induction s rule: rev_induct)
  case (snoc c t)
  have c: "48 \<le> (of_char c :: nat)" "(of_char c :: nat) \<le> 57" using snoc.prems by (auto simp: is_ascii_digit_def)
  define d where "d = (of_char c :: nat) - 48"
  have d: "d < 10" "char_of (48 + d) = c" using c by (auto simp: d_def)
  have value_app: "digits_value (t @ [c]) = 10 * digits_value t + d" by (simp add: digits_value_def d_def)
  show ?case
  proof (cases "t = []")
    case True
    then show ?thesis using d value_app by (simp add: nat_to_string.simps [of d] digits_value_def)
  next
    case False
    then have head: "hd t \<noteq> CHR ''0''" using snoc.prems(3) by (cases t) auto
    have t: "nat_to_string (digits_value t) = t"
      using snoc.IH snoc.prems(2) False head by auto
    have "nat_to_string 0 = ''0''" by code_simp
    then have "digits_value t \<noteq> 0" using t head by (metis list.sel(1))
    then have "nat_to_string (10 * digits_value t + d) = nat_to_string (digits_value t) @ [char_of (48 + d)]"
      using d(1) by (subst nat_to_string.simps) (simp add: div_mult_self4)
    then show ?thesis using value_app t d(2) by simp
  qed
qed simp

lemma nat_to_string_head: "length (nat_to_string n) > 1 \<Longrightarrow> hd (nat_to_string n) \<noteq> CHR ''0''"
proof (induction n rule: nat_to_string.induct)
  case (1 n)
  have big: "\<not> n < 10" using "1.prems" by (auto simp: nat_to_string.simps [of n])
  have step: "nat_to_string n = nat_to_string (n div 10) @ [char_of (48 + n mod 10)]"
    using big by (subst nat_to_string.simps) simp
  show ?case
  proof (cases "n div 10 < 10")
    case True
    then have "nat_to_string (n div 10) = [char_of (48 + n div 10)]" by (subst nat_to_string.simps) simp
    moreover have "char_of (48 + n div 10) \<noteq> CHR ''0''"
    proof
      assume "char_of (48 + n div 10) = CHR ''0''"
      then have "(of_char (char_of (48 + n div 10) :: char) :: nat) = 48" by simp
      then show False using True big by simp
    qed
    ultimately show ?thesis using step by simp
  next
    case False
    then have "length (nat_to_string (n div 10)) > 1" by (subst nat_to_string.simps) (simp add: Suc_lessI)
    then show ?thesis using "1.IH" big step by (simp add: hd_append)
  qed
qed

datatype clause = KindIs nat | CreatedBefore nat | CreatedAfter nat

fun clause_text :: "clause \<Rightarrow> string" where
  "clause_text (KindIs n) = ''kind='' @ nat_to_string n"
| "clause_text (CreatedBefore n) = ''created_at<'' @ nat_to_string n"
| "clause_text (CreatedAfter n) = ''created_at>'' @ nat_to_string n"

fun clause_ok :: "clause \<Rightarrow> bool" where
  "clause_ok (KindIs n) = (n \<le> 65535)"
| "clause_ok (CreatedBefore n) = (n \<le> 4294967295)"
| "clause_ok (CreatedAfter n) = (n \<le> 4294967295)"

definition conditions_text :: "clause list \<Rightarrow> string" where
  "conditions_text cs = join_with (CHR ''&'') (map clause_text cs)"

lemma validate_decimal_iff:
  assumes "max_val \<le> 4294967295"
  shows "validate_canonical_decimal E s 0 max_val label = Ok () \<longleftrightarrow> (\<exists>n\<le>max_val. s = nat_to_string n)"
proof
  assume ok: "validate_canonical_decimal E s 0 max_val label = Ok ()"
  then obtain v where s: "s \<noteq> []" "length s > 1 \<Longrightarrow> hd s \<noteq> CHR ''0''" "list_all is_ascii_digit s" "parse_u64 s = Some v" "unat v \<le> max_val"
    by (auto simp: validate_canonical_decimal_def split: if_splits option.splits)
  have "hd s \<noteq> CHR ''+''" using s(1,3) by (cases s) (auto simp: is_ascii_digit_def)
  then have "v = of_nat (digits_value s)" "int (digits_value s) < 18446744073709551616"
    using s(1,4) by (cases s; auto simp: parse_u64_def Let_def split: if_splits)+
  then have "unat v = digits_value s" by (simp add: unsigned_of_nat take_bit_nat_eq_self)
  then show "\<exists>n\<le>max_val. s = nat_to_string n"
    using canonical_decimal [OF s(1,3,2)] s(5) by (intro exI [of _ "digits_value s"]) simp
next
  assume "\<exists>n\<le>max_val. s = nat_to_string n"
  then obtain n where n: "n \<le> max_val" "s = nat_to_string n" by blast
  then have "parse_u64 s = Some (of_nat n)" "unat (of_nat n :: u64) = n"
    using assms parse_u64_nat_to_string [of n] by (simp_all add: unsigned_of_nat take_bit_nat_eq_self)
  moreover have "list_all is_ascii_digit s" using n(2) nat_to_string_digits by (auto simp: list_all_iff)
  ultimately show "validate_canonical_decimal E s 0 max_val label = Ok ()"
    using n nat_to_string_head [of n] by (auto simp: validate_canonical_decimal_def)
qed

lemma validate_clause_iff: "validate_clause E s = Ok () \<longleftrightarrow> (\<exists>c. clause_ok c \<and> s = clause_text c)"
proof -
  have cases: "(\<exists>c. P c) \<longleftrightarrow> (\<exists>n. P (KindIs n)) \<or> (\<exists>n. P (CreatedBefore n)) \<or> (\<exists>n. P (CreatedAfter n))" for P
    by (metis clause.exhaust)
  show ?thesis
  proof (cases "strip_prefix_str ''kind='' s")
    case (Some v)
    then have "s = ''kind='' @ v" by (simp add: strip_prefix_str_Some)
    then show ?thesis by (auto simp: validate_clause_def cases validate_decimal_iff strip_prefix_str_def)
  next
    case kind: None
    then have nk: "s \<noteq> ''kind='' @ v" for v by (auto simp: strip_prefix_str_def)
    show ?thesis
    proof (cases "strip_prefix_str ''created_at<'' s")
      case (Some v)
      then have "s = ''created_at<'' @ v" by (simp add: strip_prefix_str_Some)
      then show ?thesis using kind by (auto simp: validate_clause_def cases validate_decimal_iff strip_prefix_str_def)
    next
      case before: None
      then have nb: "s \<noteq> ''created_at<'' @ v" for v by (auto simp: strip_prefix_str_def)
      show ?thesis
      proof (cases "strip_prefix_str ''created_at>'' s")
        case (Some v)
        then have "s = ''created_at>'' @ v" by (simp add: strip_prefix_str_Some)
        then show ?thesis using kind before by (auto simp: validate_clause_def cases validate_decimal_iff strip_prefix_str_def)
      next
        case None
        then have "s \<noteq> ''created_at>'' @ v" for v by (auto simp: strip_prefix_str_def)
        then show ?thesis using kind before None nk nb by (auto simp: validate_clause_def cases)
      qed
    qed
  qed
qed

lemma validate_clauses_iff:
  "validate_clauses E ss = Ok () \<longleftrightarrow> (\<exists>cs. list_all clause_ok cs \<and> ss = map clause_text cs)"
proof (induction ss)
  case (Cons s ss)
  have ne: "clause_text c \<noteq> []" for c by (cases c) simp_all
  have "validate_clauses E (s # ss) = Ok () \<longleftrightarrow> s \<noteq> [] \<and> validate_clause E s = Ok () \<and> validate_clauses E ss = Ok ()"
    by (cases "validate_clause E s") simp_all
  also have "\<dots> \<longleftrightarrow> (\<exists>c cs. clause_ok c \<and> s = clause_text c \<and> list_all clause_ok cs \<and> ss = map clause_text cs)"
    unfolding Cons validate_clause_iff using ne by auto
  also have "\<dots> \<longleftrightarrow> (\<exists>cs. list_all clause_ok cs \<and> s # ss = map clause_text cs)"
  proof
    assume "\<exists>c cs. clause_ok c \<and> s = clause_text c \<and> list_all clause_ok cs \<and> ss = map clause_text cs"
    then obtain c cs where "clause_ok c" "s = clause_text c" "list_all clause_ok cs" "ss = map clause_text cs" by blast
    then show "\<exists>cs. list_all clause_ok cs \<and> s # ss = map clause_text cs" by (intro exI [of _ "c # cs"]) simp
  next
    assume "\<exists>cs. list_all clause_ok cs \<and> s # ss = map clause_text cs"
    then obtain cs where cs: "list_all clause_ok cs \<and> s # ss = map clause_text cs" ..
    then obtain d ds where "cs = d # ds" by (cases cs) simp_all
    then show "\<exists>c cs. clause_ok c \<and> s = clause_text c \<and> list_all clause_ok cs \<and> ss = map clause_text cs"
      using cs by (intro exI [of _ d] exI [of _ ds]) simp
  qed
  finally show ?case .
qed simp

lemma clause_text_plain:
  "CHR ''&'' \<notin> set (clause_text c)" "x \<in> set (clause_text c) \<Longrightarrow> \<not> is_ascii_whitespace x" "clause_text c \<noteq> []"
proof -
  have amp: "CHR ''&'' \<notin> set (nat_to_string n)" for n
    using nat_to_string_digits by (force simp: is_ascii_digit_def)
  have white: "x \<in> set (nat_to_string n) \<Longrightarrow> \<not> is_ascii_whitespace x" for n
    using nat_to_string_digits by (force simp: is_ascii_digit_def is_ascii_whitespace_def)
  show "CHR ''&'' \<notin> set (clause_text c)" by (cases c) (simp_all add: amp)
  show "\<not> is_ascii_whitespace x" if "x \<in> set (clause_text c)"
    using that white by (cases c) (auto simp: is_ascii_whitespace_def)
  show "clause_text c \<noteq> []" by (cases c) simp_all
qed

lemma join_with_set: "x \<in> set (join_with c ss) \<Longrightarrow> x = c \<or> (\<exists>s\<in>set ss. x \<in> set s)"
  by (induction c ss rule: join_with.induct) auto

lemma conditions_accepts:
  "validate_conditions E s = Ok () \<longleftrightarrow> (\<exists>cs. list_all clause_ok cs \<and> s = conditions_text cs)"
proof (cases "s = []")
  case True
  have "conditions_text [] = []" by (simp add: conditions_text_def)
  then show ?thesis using True by (auto simp: validate_conditions_def intro!: exI [of _ "[]"])
next
  case False
  have parts: "validate_clauses E (split_on (CHR ''&'') s) = Ok () \<longleftrightarrow> (\<exists>cs. list_all clause_ok cs \<and> s = conditions_text cs)"
  proof -
    have "split_on (CHR ''&'') s = map clause_text cs \<longleftrightarrow> s = conditions_text cs" for cs
    proof (cases "cs = []")
      case True
      then show ?thesis using False by (simp add: conditions_text_def)
    next
      case ne: False
      show ?thesis
      proof
        assume "split_on (CHR ''&'') s = map clause_text cs"
        then show "s = conditions_text cs" unfolding conditions_text_def by (metis join_split)
      next
        assume "s = conditions_text cs"
        then show "split_on (CHR ''&'') s = map clause_text cs"
          unfolding conditions_text_def using ne clause_text_plain(1) by (simp add: split_join)
      qed
    qed
    then show ?thesis by (simp add: validate_clauses_iff)
  qed
  have "\<not> list_ex is_ascii_whitespace s" if "s = conditions_text cs" for cs
    using that clause_text_plain(2) by (fastforce simp: conditions_text_def list_ex_iff is_ascii_whitespace_def dest: join_with_set)
  then show ?thesis using False parts by (auto simp: validate_conditions_def)
qed

text \<open>
  C30. The conditions of an owner attestation are exactly the texts of clause lists: a text is accepted when it is empty or
  the \<open>&\<close>-separated list of one or more clauses \<open>kind=\<close>, \<open>created_at<\<close>, \<open>created_at>\<close> with a number in canonical decimal
  form, at most 65535 for kinds and 4294967295 for times.
\<close>

theorem conditions_grammar:
  "validate_conditions E s = Ok () \<longleftrightarrow> (\<exists>cs. list_all clause_ok cs \<and> s = conditions_text cs)"
  by (rule conditions_accepts)

section \<open>Attestations in use\<close>

text \<open>
  What the crates document: texts of arrays of strings parse back, a public key is 64 and a signature 128 lower-case
  hexadecimal digits that parse back, and a signature made with a key verifies under its public key.
\<close>

definition signer_laws :: "'u auth_env \<Rightarrow> SecretKey \<Rightarrow> bool" where
  "signer_laws E sk =
     ((\<forall>ss. ae_json_parse E (ae_json_show E (Array (map String ss))) = Ok (Array (map String ss)))
      \<and> ae_pubkey_from_hex E (ae_public_key E sk) = Ok (ae_public_key E sk)
      \<and> length (ae_public_key E sk) = 64 \<and> list_all is_lowercase_hex (ae_public_key E sk)
      \<and> (\<forall>h. let sg = ae_sign_schnorr E sk h; hex = ae_sig_show E sg
             in ae_sig_parse E hex = Ok sg \<and> length hex = 128 \<and> list_all is_lowercase_hex hex)
      \<and> (\<exists>x. ae_xonly E (ae_public_key E sk) = Ok x
             \<and> (\<forall>h. ae_verify_schnorr E (ae_sign_schnorr E sk h) h x = Ok ())))"

lemma strings_round_trip:
  assumes "signer_laws E sk"
  shows "parse_json_array E (ae_json_show E (Array [String a, String b, String c, String d])) = Ok [String a, String b, String c, String d]"
proof -
  have "ae_json_parse E (ae_json_show E (Array (map String [a, b, c, d]))) = Ok (Array (map String [a, b, c, d]))"
    using assms unfolding signer_laws_def by blast
  then show ?thesis by (simp add: parse_json_array_def)
qed

lemma conditions_accepted: "list_all clause_ok cs \<Longrightarrow> validate_conditions E (conditions_text cs) = Ok ()"
  by (rule conditions_accepts [THEN iffD2]) auto

lemma computed_tag:
  assumes laws: "signer_laws E sk" and cs: "list_all clause_ok cs" and other: "agent \<noteq> ae_public_key E sk"
  shows "\<exists>tag sg. compute_auth_tag E sk agent (conditions_text cs) = Ok tag
           \<and> verify_auth_tag E tag agent = Ok (ae_public_key E sk)
           \<and> parse_auth_tag E tag = Ok [''auth'', ae_public_key E sk, conditions_text cs, sg]"
proof -
  define sg where "sg = ae_sign_schnorr E sk (hash_attestation E (build_preimage agent (conditions_text cs)))"
  define tag where "tag = ae_json_show E (Array [String ''auth'', String (ae_public_key E sk), String (conditions_text cs), String (ae_sig_show E sg)])"
  have key: "ae_pubkey_from_hex E (ae_public_key E sk) = Ok (ae_public_key E sk)" "length (ae_public_key E sk) = 64"
      "list_all is_lowercase_hex (ae_public_key E sk)"
    using laws by (simp_all add: signer_laws_def)
  have sig: "ae_sig_parse E (ae_sig_show E sg) = Ok sg" "length (ae_sig_show E sg) = 128" "list_all is_lowercase_hex (ae_sig_show E sg)"
    using laws unfolding signer_laws_def sg_def Let_def by blast+
  obtain x where x: "ae_xonly E (ae_public_key E sk) = Ok x" "\<And>h. ae_verify_schnorr E (ae_sign_schnorr E sk h) h x = Ok ()"
    using laws unfolding signer_laws_def by blast
  note ok = conditions_accepted [OF cs, of E]
  note arr = strings_round_trip [OF laws, of "''auth''" "ae_public_key E sk" "conditions_text cs" "ae_sig_show E sg", folded tag_def]
  have "compute_auth_tag E sk agent (conditions_text cs) = Ok tag"
    using other ok by (simp add: compute_auth_tag_def Let_def tag_def sg_def)
  moreover have "verify_auth_tag E tag agent = Ok (ae_public_key E sk)"
    using other ok key(1) sig(1) x by (simp add: verify_auth_tag_def auth_tag_strings_def arr sg_def)
  moreover have "parse_auth_tag E tag = Ok [''auth'', ae_public_key E sk, conditions_text cs, ae_sig_show E sg]"
    using ok key sig by (simp add: parse_auth_tag_def arr)
  ultimately show ?thesis by blast
qed

text \<open>
  An attestation round-trips: for any list of well-formed clauses and any agent other than the owner, the tag the
  owner computes is verified for that agent and names that owner, and its parsed form is the four fields that were signed.
\<close>

theorem attestation_round_trip:
  assumes "signer_laws E sk" "list_all clause_ok cs" "agent \<noteq> ae_public_key E sk"
  shows "\<exists>tag sg. compute_auth_tag E sk agent (conditions_text cs) = Ok tag
           \<and> verify_auth_tag E tag agent = Ok (ae_public_key E sk)
           \<and> parse_auth_tag E tag = Ok [''auth'', ae_public_key E sk, conditions_text cs, sg]"
  using assms by (rule computed_tag)

text \<open>
  C31. The time limits of an attestation are not enforced at admission: an agent that is no member is admitted through its
  owner by an AUTH event created at or after the time \<open>t\<close> of the attestation's \<open>created_at<t\<close> clause.
\<close>

theorem expired_attestation_admits:
  assumes laws: "signer_laws E sk" and other: "agent \<noteq> ae_public_key E sk" and t: "t \<le> 4294967295"
    and tag: "compute_auth_tag E sk agent (conditions_text [CreatedBefore t]) = Ok tag"
    and event: "extract_auth_tag_json E e = Some tag" and expired: "t \<le> ev_created_at e"
    and key: "ae_pubkey_from_slice E pubkey = Ok agent"
    and cfg: "rc_require_relay_membership cfg" "rc_allow_nip_oa_auth cfg"
    and faults: "ae_db_fault E (aw_n w) = None" "ae_db_fault E (Suc (aw_n w)) = None"
    and members: "(c, ae_hex E pubkey) \<notin> set (ad_members (aw_db w))" "(c, ae_public_key E sk) \<in> set (ad_members (aw_db w))"
  shows "fst (enforce_relay_membership E cfg c pubkey (extract_auth_tag_json E e) w) = Ok (Some (ae_public_key E sk))"
proof -
  have "list_all clause_ok [CreatedBefore t]" using t by simp
  from computed_tag [OF laws this other] have "verify_auth_tag E tag agent = Ok (ae_public_key E sk)"
    using tag by auto
  then show ?thesis
    using event key cfg faults members
    by (simp add: enforce_relay_membership_def check_relay_membership_def is_relay_member_def auth_sql_def aw_tick_def)
qed

section \<open>A sample environment\<close>

text \<open>
  A toy instance of the crates: one key pair, one signature, and a text form of string arrays in which each character
  follows a \<open>c\<close> and each string ends with a semicolon.
\<close>

definition sample_json_show :: "Value \<Rightarrow> string" where
  "sample_json_show v =
     (case v of
        Array vs \<Rightarrow> concat (map (\<lambda>x. case x of String s \<Rightarrow> concat (map (\<lambda>c. [CHR ''c'', c]) s) @ '';'' | _ \<Rightarrow> []) vs)
      | _ \<Rightarrow> [])"

fun sample_json_strings :: "string \<Rightarrow> string \<Rightarrow> string list" where
  "sample_json_strings acc [] = []"
| "sample_json_strings acc [x] = [acc]"
| "sample_json_strings acc (x # y # r) =
     (if x = CHR ''c'' then sample_json_strings (acc @ [y]) r else acc # sample_json_strings [] (y # r))"

lemma sample_json_string:
  "sample_json_strings acc (concat (map (\<lambda>c. [CHR ''c'', c]) s) @ CHR '';'' # r) = (acc @ s) # sample_json_strings [] r"
proof (induction s arbitrary: acc)
  case Nil
  then show ?case by (cases r) simp_all
qed simp

lemma sample_json_round_trip: "map String (sample_json_strings [] (sample_json_show (Array (map String ss)))) = map String ss"
  by (induction ss) (simp_all add: sample_json_show_def sample_json_string)

definition sample_owner :: PublicKey where "sample_owner = replicate 64 (CHR ''a'')"
definition sample_agent :: PublicKey where "sample_agent = replicate 64 (CHR ''b'')"

definition sample_auth_env :: "unit auth_env" where
  "sample_auth_env =
     \<lparr>ae_verify_id = (\<lambda>_. True), ae_event_id = ev_id, ae_verify_signature = (\<lambda>_. True), ae_event_json = (\<lambda>_. Err []),
      ae_url_parse = (\<lambda>_. None), ae_host = (\<lambda>_. None), ae_host_str = (\<lambda>_. None), ae_port = (\<lambda>_. None), ae_path = (\<lambda>_. []),
      ae_set_host = (\<lambda>u _. u), ae_set_path = (\<lambda>u _. u), ae_url_show = (\<lambda>_. []), ae_to_lowercase = to_ascii_lowercase,
      ae_base64 = (\<lambda>_. None), ae_utf8 = (\<lambda>_. None), ae_sha256 = (\<lambda>_. []), ae_hex = (\<lambda>_. sample_agent),
      ae_pubkey_from_hex = Ok, ae_pubkey_from_slice = (\<lambda>_. Ok sample_agent), ae_pubkey_bytes = byte_str,
      ae_json_parse = (\<lambda>s. Ok (Array (map String (sample_json_strings [] s)))), ae_json_show = sample_json_show,
      ae_debug = (\<lambda>s. s), ae_sig_parse = (\<lambda>_. Ok []), ae_sig_show = (\<lambda>_. replicate 128 (CHR ''c'')),
      ae_xonly = (\<lambda>_. Ok []), ae_verify_schnorr = (\<lambda>sg _ _. if sg = [] then Ok () else Err ''malformed''),
      ae_sign_schnorr = (\<lambda>_ _. []), ae_public_key = (\<lambda>_. sample_owner), ae_db_fault = (\<lambda>_. None),
      ae_db_now = (\<lambda>_. 0), ae_now = (\<lambda>_. 1000)\<rparr>"

lemma sample_signer_laws: "signer_laws sample_auth_env sk"
  by (simp add: signer_laws_def sample_auth_env_def sample_json_round_trip sample_owner_def is_lowercase_hex_def
      is_ascii_digit_def list_all_length)

lemma sample_keys_differ: "sample_agent \<noteq> ae_public_key sample_auth_env sk"
  by (simp add: sample_auth_env_def sample_agent_def sample_owner_def numeral_eq_Suc)

theorem attestation_round_trip_witness:
  "\<exists>tag sg. compute_auth_tag sample_auth_env [] sample_agent (conditions_text [KindIs 9, CreatedBefore 2000]) = Ok tag
     \<and> verify_auth_tag sample_auth_env tag sample_agent = Ok sample_owner
     \<and> parse_auth_tag sample_auth_env tag = Ok [''auth'', sample_owner, conditions_text [KindIs 9, CreatedBefore 2000], sg]"
proof -
  have "list_all clause_ok [KindIs 9, CreatedBefore 2000]" by simp
  from attestation_round_trip [OF sample_signer_laws this sample_keys_differ, of "[]"] show ?thesis
    by (simp add: sample_auth_env_def)
qed

definition sample_tag_strings :: "string list" where
  "sample_tag_strings = [''auth'', sample_owner, conditions_text [CreatedBefore 500], replicate 128 (CHR ''c'')]"

definition sample_auth_event :: SignedEvent where
  "sample_auth_event =
     \<lparr>ev_id = ''01'', ev_pubkey = sample_agent, ev_created_at = 1000, ev_kind = KIND_AUTHENTICATION,
      ev_tags = [\<lparr>tag_kind = ''auth'', tag_content = Some sample_owner, tag_slice = sample_tag_strings\<rparr>],
      ev_content = [], ev_sig = []\<rparr>"

definition sample_relay_config :: relay_config where
  "sample_relay_config =
     \<lparr>rc_relay_url = ''wss://relay.example'', rc_require_auth_token = True, rc_pubkey_allowlist_enabled = False,
      rc_require_relay_membership = True, rc_allow_nip_oa_auth = True\<rparr>"

definition sample_auth_world :: "CommunityId \<Rightarrow> auth_world" where
  "sample_auth_world c =
     \<lparr>aw_n = 0, aw_db = \<lparr>ad_bans = [], ad_members = [(c, sample_owner)], ad_allowlist = [], ad_users = []\<rparr>,
      aw_author_types = [], aw_observer_owners = [], aw_authenticated = []\<rparr>"

theorem expired_attestation_admits_witness:
  "ev_created_at sample_auth_event = 1000
   \<and> extract_auth_tag_json sample_auth_env sample_auth_event = Some (sample_json_show (Array (map String sample_tag_strings)))
   \<and> fst (enforce_relay_membership sample_auth_env sample_relay_config [] [] (extract_auth_tag_json sample_auth_env sample_auth_event)
            (sample_auth_world [])) = Ok (Some sample_owner)"
proof -
  let ?tag = "sample_json_show (Array (map String sample_tag_strings))"
  have differ: "sample_owner \<noteq> sample_agent" using sample_keys_differ [of "[]"] by (simp add: sample_auth_env_def)
  have tag: "compute_auth_tag sample_auth_env [] sample_agent (conditions_text [CreatedBefore 500]) = Ok ?tag"
    using conditions_accepted [of "[CreatedBefore 500]" sample_auth_env] differ
    by (simp add: compute_auth_tag_def Let_def sample_tag_strings_def) (simp add: sample_auth_env_def)
  have event: "extract_auth_tag_json sample_auth_env sample_auth_event = Some ?tag"
    by (simp add: extract_auth_tag_json_def sample_auth_event_def sample_auth_env_def sample_tag_strings_def)
  have "fst (enforce_relay_membership sample_auth_env sample_relay_config [] [] (extract_auth_tag_json sample_auth_env sample_auth_event)
          (sample_auth_world [])) = Ok (Some (ae_public_key sample_auth_env []))"
    by (rule expired_attestation_admits [OF sample_signer_laws sample_keys_differ _ tag event])
      (use differ in \<open>simp_all add: sample_auth_event_def sample_auth_env_def sample_relay_config_def sample_auth_world_def\<close>)
  then show ?thesis using event by (simp add: sample_auth_event_def) (simp add: sample_auth_env_def)
qed

end
