(* ===== verification/Protocol.thy ===== *)
theory Protocol
  imports Auth
begin

text \<open>
  The client and relay messages of a WebSocket connection: \<^verbatim>\<open>lenos-relay/src/protocol.rs\<close>.

  Parameters (\<open>wire_env\<close>): JSON, and the JSON forms of events and filters, of the \<open>serde_json\<close> and \<open>nostr\<close> crates.
\<close>

record wire_env =
  we_json_parse :: "string \<Rightarrow> (string, Value) result"
  we_json_show :: "Value \<Rightarrow> string"
  we_event :: "Value \<Rightarrow> (string, SignedEvent) result"
  we_event_value :: "SignedEvent \<Rightarrow> Value"
  we_filter :: "Value \<Rightarrow> (string, Filter) result"

definition MAX_SUB_ID_LENGTH :: nat where "MAX_SUB_ID_LENGTH = 256"
definition MAX_FILTERS_PER_REQ :: nat where "MAX_FILTERS_PER_REQ = 10"

section \<open>Client messages\<close>

datatype ClientMessage = CmEvent SignedEvent | CmReq string "Filter list" | CmClose string
  | CmCount string "Filter list" | CmAuth SignedEvent

datatype RelayError = InvalidMessage string

fun parse_filters :: "wire_env \<Rightarrow> Value list \<Rightarrow> (RelayError, Filter list) result" where
  "parse_filters W [] = Ok []"
| "parse_filters W (v # vs) =
     (case we_filter W v of
        Inl e \<Rightarrow> Err (InvalidMessage (''invalid filter: '' @ e))
      | Inr f \<Rightarrow> (case parse_filters W vs of Inl e \<Rightarrow> Err e | Inr fs \<Rightarrow> Ok (f # fs)))"

text \<open>The arms of \<open>REQ\<close> and \<open>COUNT\<close> differ in the name they report.\<close>

definition parse_subscription ::
  "wire_env \<Rightarrow> string \<Rightarrow> Value list \<Rightarrow> (RelayError, string \<times> Filter list) result" where
  "parse_subscription W label args =
     (let invalid = (\<lambda>m. Err (InvalidMessage (label @ m)))
      in case args of
           [] \<Rightarrow> invalid '' requires sub_id''
         | String sub_id # filter_values \<Rightarrow>
             if sub_id = [] then invalid '' sub_id must not be empty''
             else if length sub_id > MAX_SUB_ID_LENGTH
             then invalid ('' sub_id exceeds maximum length of '' @ nat_to_string MAX_SUB_ID_LENGTH @ '' bytes'')
             else if length filter_values > MAX_FILTERS_PER_REQ
             then invalid ('' contains '' @ nat_to_string (length filter_values) @ '' filters, maximum is ''
                    @ nat_to_string MAX_FILTERS_PER_REQ)
             else (case parse_filters W filter_values of Inl e \<Rightarrow> Err e | Inr fs \<Rightarrow> Ok (sub_id, fs))
         | _ \<Rightarrow> invalid '' sub_id must be a string'')"

definition parse_event_arg ::
  "wire_env \<Rightarrow> string \<Rightarrow> string \<Rightarrow> Value list \<Rightarrow> (RelayError, SignedEvent) result" where
  "parse_event_arg W label what args =
     (case args of
        [] \<Rightarrow> Err (InvalidMessage (label @ '' requires event object''))
      | v # _ \<Rightarrow> (case we_event W v of Inl e \<Rightarrow> Err (InvalidMessage (what @ e)) | Inr e \<Rightarrow> Ok e))"

definition parse_close_arg :: "Value list \<Rightarrow> (RelayError, string) result" where
  "parse_close_arg args =
     (case args of
        [] \<Rightarrow> Err (InvalidMessage ''CLOSE requires sub_id'')
      | String sub_id # _ \<Rightarrow> Ok sub_id
      | _ \<Rightarrow> Err (InvalidMessage ''CLOSE sub_id must be a string''))"

definition result_map :: "('a \<Rightarrow> 'b) \<Rightarrow> ('e, 'a) result \<Rightarrow> ('e, 'b) result" where
  "result_map f r = (case r of Inl e \<Rightarrow> Err e | Inr a \<Rightarrow> Ok (f a))"

definition ClientMessage_parse :: "wire_env \<Rightarrow> string \<Rightarrow> (RelayError, ClientMessage) result" where
  "ClientMessage_parse W raw =
     (case we_json_parse W raw of
        Inl e \<Rightarrow> Err (InvalidMessage (''JSON parse error: '' @ e))
      | Inr (Array []) \<Rightarrow> Err (InvalidMessage ''empty array'')
      | Inr (Array (String msg_type # args)) \<Rightarrow>
          (if msg_type = ''EVENT'' then result_map CmEvent (parse_event_arg W ''EVENT'' ''invalid event: '' args)
           else if msg_type = ''REQ'' then result_map (\<lambda>(sub_id, fs). CmReq sub_id fs) (parse_subscription W ''REQ'' args)
           else if msg_type = ''COUNT'' then result_map (\<lambda>(sub_id, fs). CmCount sub_id fs) (parse_subscription W ''COUNT'' args)
           else if msg_type = ''CLOSE'' then result_map CmClose (parse_close_arg args)
           else if msg_type = ''AUTH'' then result_map CmAuth (parse_event_arg W ''AUTH'' ''invalid auth event: '' args)
           else Err (InvalidMessage (''unknown message type: '' @ msg_type)))
      | Inr (Array _) \<Rightarrow> Err (InvalidMessage ''first element must be a string'')
      | Inr _ \<Rightarrow> Err (InvalidMessage ''expected JSON array''))"

section \<open>Relay messages\<close>

definition rm_auth_challenge :: "wire_env \<Rightarrow> string \<Rightarrow> string" where
  "rm_auth_challenge W challenge = we_json_show W (Array [String ''AUTH'', String challenge])"

definition rm_event :: "wire_env \<Rightarrow> string \<Rightarrow> SignedEvent \<Rightarrow> string" where
  "rm_event W sub_id e = we_json_show W (Array [String ''EVENT'', String sub_id, we_event_value W e])"

definition rm_notice :: "wire_env \<Rightarrow> string \<Rightarrow> string" where
  "rm_notice W message = we_json_show W (Array [String ''NOTICE'', String message])"

definition rm_eose :: "wire_env \<Rightarrow> string \<Rightarrow> string" where
  "rm_eose W sub_id = we_json_show W (Array [String ''EOSE'', String sub_id])"

definition rm_ok :: "wire_env \<Rightarrow> string \<Rightarrow> bool \<Rightarrow> string \<Rightarrow> string" where
  "rm_ok W event_id accepted message =
     we_json_show W (Array [String ''OK'', String event_id, Bool accepted, String message])"

definition rm_closed :: "wire_env \<Rightarrow> string \<Rightarrow> string \<Rightarrow> string" where
  "rm_closed W sub_id message = we_json_show W (Array [String ''CLOSED'', String sub_id, String message])"

definition rm_count :: "wire_env \<Rightarrow> string \<Rightarrow> nat \<Rightarrow> string" where
  "rm_count W sub_id count =
     we_json_show W (Array [String ''COUNT'', String sub_id, Object [(''count'', Number (nat_to_string count))]])"

section \<open>What a frame means\<close>

text \<open>The JSON arrays that carry a client message. What follows the arguments of EVENT, AUTH and CLOSE is ignored.\<close>

definition subscription_args :: "wire_env \<Rightarrow> string \<Rightarrow> Filter list \<Rightarrow> Value list \<Rightarrow> bool" where
  "subscription_args W sub_id fs args \<longleftrightarrow>
     (\<exists>vs. args = String sub_id # vs \<and> map (we_filter W) vs = map Inr fs
           \<and> 0 < length sub_id \<and> length sub_id \<le> 256 \<and> length fs \<le> 10)"

fun frame_of :: "wire_env \<Rightarrow> ClientMessage \<Rightarrow> string \<Rightarrow> Value list \<Rightarrow> bool" where
  "frame_of W (CmEvent e) t args = (t = ''EVENT'' \<and> (\<exists>v vs. args = v # vs \<and> we_event W v = Ok e))"
| "frame_of W (CmReq s fs) t args = (t = ''REQ'' \<and> subscription_args W s fs args)"
| "frame_of W (CmClose s) t args = (t = ''CLOSE'' \<and> (\<exists>vs. args = String s # vs))"
| "frame_of W (CmCount s fs) t args = (t = ''COUNT'' \<and> subscription_args W s fs args)"
| "frame_of W (CmAuth e) t args = (t = ''AUTH'' \<and> (\<exists>v vs. args = v # vs \<and> we_event W v = Ok e))"

lemma parse_filters_iff: "parse_filters W vs = Ok fs \<longleftrightarrow> map (we_filter W) vs = map Inr fs"
proof (induction vs arbitrary: fs)
  case (Cons v vs)
  have "parse_filters W (v # vs) = Ok fs \<longleftrightarrow>
      (\<exists>f gs. fs = f # gs \<and> we_filter W v = Ok f \<and> parse_filters W vs = Ok gs)"
    by (auto split: sum.splits)
  also have "\<dots> \<longleftrightarrow> map (we_filter W) (v # vs) = map Inr fs"
    unfolding Cons.IH by (cases fs) simp_all
  finally show ?case .
qed auto

lemma parse_filters_length: "parse_filters W vs = Ok fs \<Longrightarrow> length vs = length fs"
  unfolding parse_filters_iff by (metis length_map)

lemma parse_subscription_iff: "parse_subscription W l args = Ok (s, fs) \<longleftrightarrow> subscription_args W s fs args"
proof (cases args)
  case (Cons a vs)
  show ?thesis
  proof (cases "\<exists>t. a = String t")
    case True
    then obtain t where a: "a = String t" by blast
    show ?thesis
      by (auto simp: parse_subscription_def subscription_args_def Let_def Cons a parse_filters_iff [symmetric]
          MAX_SUB_ID_LENGTH_def MAX_FILTERS_PER_REQ_def dest: parse_filters_length split: sum.splits)
  next
    case False
    then show ?thesis
      by (cases a) (auto simp: parse_subscription_def subscription_args_def Let_def Cons)
  qed
qed (simp add: parse_subscription_def subscription_args_def Let_def)

lemma parse_event_arg_iff: "parse_event_arg W l what args = Ok e \<longleftrightarrow> (\<exists>v vs. args = v # vs \<and> we_event W v = Ok e)"
  by (cases args) (auto simp: parse_event_arg_def split: sum.splits)

lemma parse_close_arg_iff: "parse_close_arg args = Ok s \<longleftrightarrow> (\<exists>vs. args = String s # vs)"
  by (cases args) (auto simp: parse_close_arg_def split: Value.splits)

lemma result_map_Ok: "result_map f r = Ok b \<longleftrightarrow> (\<exists>a. r = Ok a \<and> f a = b)"
  by (cases r) (auto simp: result_map_def)

text \<open>
  C32. The parser accepts exactly the frames of the protocol: a text parses to a message when it is a JSON array headed by
  the message's name whose arguments are that message's, with a subscription id of 1 to 256 bytes and at most ten
  filters, each of which parses; every other text is refused.
\<close>

theorem client_frames_exact:
  "ClientMessage_parse W raw = Ok m \<longleftrightarrow> (\<exists>t args. we_json_parse W raw = Ok (Array (String t # args)) \<and> frame_of W m t args)"
proof (cases "\<exists>t args. we_json_parse W raw = Ok (Array (String t # args))")
  case True
  then obtain t args where "we_json_parse W raw = Ok (Array (String t # args))" by blast
  then show ?thesis
    by (cases m) (auto simp: ClientMessage_parse_def result_map_Ok parse_event_arg_iff parse_subscription_iff parse_close_arg_iff)
next
  case False
  then show ?thesis
    by (auto simp: ClientMessage_parse_def split: sum.splits Value.splits list.splits)
qed

end
