(* ===== verification/Admission.thy ===== *)
theory Admission
  imports Protocol TunnelDirectory
begin

text \<open>
  Quotas and replay protection in front of the relay's doors: \<^verbatim>\<open>lenos-auth/src/rate_limit.rs\<close> and
  \<^verbatim>\<open>nip98_replay.rs\<close>, their Redis implementations in \<^verbatim>\<open>lenos-pubsub\<close>, \<^verbatim>\<open>lenos-relay/src/admission.rs\<close>, the gates of
  \<^verbatim>\<open>api/bridge.rs\<close> in the order of \<open>submit_event\<close>, and \<open>enforce_ws_admission\<close> of \<^verbatim>\<open>connection.rs\<close>.

  Parameters: the Redis of \<open>TunnelDirectory\<close> with how its \<open>TTL\<close> rounds to seconds, the largest time \<open>EXPIRE\<close> takes and its
  error texts (\<open>limiter_env\<close>); which commands of a call are lost (\<open>fault\<close>, by number).
\<close>

record 's limiter_env =
  lm_redis :: "'s redis"
  lm_ttl_secs :: "nat \<Rightarrow> nat"
  lm_expire_max :: int
  lm_incr_error :: string
  lm_expire_error :: string

section \<open>Quotas\<close>

record RateLimitResult =
  rl_allowed :: bool
  rl_current :: nat
  rl_limit :: nat
  rl_reset_in_secs :: nat

definition rl_allow :: "nat \<Rightarrow> nat \<Rightarrow> nat \<Rightarrow> RateLimitResult" where
  "rl_allow current limit reset = \<lparr>rl_allowed = True, rl_current = current, rl_limit = limit, rl_reset_in_secs = reset\<rparr>"

definition rl_deny :: "nat \<Rightarrow> nat \<Rightarrow> nat \<Rightarrow> RateLimitResult" where
  "rl_deny current limit reset = \<lparr>rl_allowed = False, rl_current = current, rl_limit = limit, rl_reset_in_secs = reset\<rparr>"

datatype LimitType = LtMessages | LtApiCalls | LtWsEvents | LtIpConnections

fun key_suffix :: "LimitType \<Rightarrow> string" where
  "key_suffix LtMessages = ''msg''"
| "key_suffix LtApiCalls = ''api''"
| "key_suffix LtWsEvents = ''ws''"
| "key_suffix LtIpConnections = ''conn''"

record RateLimitConfig =
  human_messages_per_min :: u64
  human_api_calls_per_min :: u64
  human_ws_events_per_sec :: u64
  agent_standard_messages_per_min :: u64
  agent_standard_api_calls_per_min :: u64
  agent_elevated_messages_per_min :: u64
  agent_platform_messages_per_min :: u64

definition default_rate_limits :: RateLimitConfig where
  "default_rate_limits =
     \<lparr>human_messages_per_min = 60, human_api_calls_per_min = 300, human_ws_events_per_sec = 10,
      agent_standard_messages_per_min = 120, agent_standard_api_calls_per_min = 600,
      agent_elevated_messages_per_min = 300, agent_platform_messages_per_min = 600\<rparr>"

definition rate_limit_key :: "TenantContext \<Rightarrow> PublicKey \<Rightarrow> LimitType \<Rightarrow> string" where
  "rate_limit_key ctx pubkey limit_type =
     ''lenos:'' @ tn_community ctx @ '':ratelimit:'' @ pubkey @ '':'' @ key_suffix limit_type"

definition ip_rate_limit_key :: "string \<Rightarrow> string" where
  "ip_rate_limit_key ip = ''lenos:ratelimit:ip:'' @ ip @ '':conn''"

text \<open>\<open>window_secs as i64\<close>; \<open>EXPIRE\<close> deletes the key at a time that is not positive and refuses one that is too large.\<close>

definition as_i64 :: "u64 \<Rightarrow> int" where
  "as_i64 n = sint n"

definition redis_expire :: "'s limiter_env \<Rightarrow> string \<Rightarrow> int \<Rightarrow> 's \<Rightarrow> 's option" where
  "redis_expire L k secs s =
     (if secs > lm_expire_max L then None
      else Some (if secs \<le> 0 then rd_del (lm_redis L) s k else rd_pexpire (lm_redis L) s k (nat secs * 1000)))"

definition redis_ttl :: "'s limiter_env \<Rightarrow> string \<Rightarrow> 's \<Rightarrow> int" where
  "redis_ttl L k s =
     (if rd_get (lm_redis L) s k = None then -2
      else (case rd_ttl (lm_redis L) s k of None \<Rightarrow> -1 | Some ms \<Rightarrow> int (lm_ttl_secs L ms)))"

text \<open>\<open>RATE_LIMIT_SCRIPT\<close>: an error stops the script, what it did before stays.\<close>

definition rate_limit_script :: "'s limiter_env \<Rightarrow> string \<Rightarrow> int \<Rightarrow> 's \<Rightarrow> (string, nat \<times> int) result \<times> 's" where
  "rate_limit_script L k window s =
     (case rd_incr (lm_redis L) s k of
        None \<Rightarrow> (Err (lm_incr_error L), s)
      | Some (count, s) \<Rightarrow>
          (case (if count = 1 then redis_expire L k window s else Some s) of
             None \<Rightarrow> (Err (lm_expire_error L), s)
           | Some s \<Rightarrow> (Ok (count, redis_ttl L k s), s)))"

text \<open>A command that is lost, with its reply or before it ran; the pool is asked once, before the script.\<close>

definition lossy :: "fault \<Rightarrow> ('s \<Rightarrow> (string, 'a) result \<times> 's) \<Rightarrow> 's \<Rightarrow> (string, 'a) result \<times> 's" where
  "lossy flt f s =
     (case flt of
        NoFault \<Rightarrow> f s
      | ReplyLost e \<Rightarrow> (Err e, snd (f s))
      | RequestLost e \<Rightarrow> (Err e, s)
      | PoolFault e \<Rightarrow> (Err e, s))"

definition run_rate_limit ::
  "'s limiter_env \<Rightarrow> fault \<Rightarrow> fault \<Rightarrow> string \<Rightarrow> u64 \<Rightarrow> u64 \<Rightarrow> 's \<Rightarrow> (AuthError, RateLimitResult) result \<times> 's" where
  "run_rate_limit L flt repair k window_secs limit s =
     (case flt of
        PoolFault e \<Rightarrow> (Err (AuthInternal (''Redis pool: '' @ e)), s)
      | _ \<Rightarrow>
          (case lossy flt (rate_limit_script L k (as_i64 window_secs)) s of
             (Inl e, s) \<Rightarrow> (Err (AuthInternal (''Redis rate limit script: '' @ e)), s)
           | (Inr (count, ttl), s) \<Rightarrow>
               (case (if ttl < 0
                      then lossy repair (\<lambda>s. case redis_expire L k (as_i64 window_secs) s of
                             None \<Rightarrow> (Err (lm_expire_error L), s) | Some s \<Rightarrow> (Ok (unat window_secs), s)) s
                      else (Ok (nat (max ttl 0)), s)) of
                  (Inl e, s) \<Rightarrow> (Err (AuthInternal (''Redis EXPIRE repair: '' @ e)), s)
                | (Inr reset_in_secs, s) \<Rightarrow>
                    (Ok (if count \<le> unat limit then rl_allow count (unat limit) reset_in_secs
                         else rl_deny count (unat limit) reset_in_secs), s))))"

definition check_and_increment ::
  "'s limiter_env \<Rightarrow> fault \<Rightarrow> fault \<Rightarrow> TenantContext \<Rightarrow> PublicKey \<Rightarrow> LimitType \<Rightarrow> u64 \<Rightarrow> u64 \<Rightarrow> 's \<Rightarrow>
   (AuthError, RateLimitResult) result \<times> 's" where
  "check_and_increment L flt repair ctx pubkey limit_type = run_rate_limit L flt repair (rate_limit_key ctx pubkey limit_type)"

definition check_ip_connection ::
  "'s limiter_env \<Rightarrow> fault \<Rightarrow> fault \<Rightarrow> string \<Rightarrow> u64 \<Rightarrow> u64 \<Rightarrow> 's \<Rightarrow> (AuthError, RateLimitResult) result \<times> 's" where
  "check_ip_connection L flt repair ip = run_rate_limit L flt repair (ip_rate_limit_key ip)"

definition WS_BURST_WINDOW_SECS :: u64 where "WS_BURST_WINDOW_SECS = 5"

datatype QuotaError = Exceeded nat | Unavailable

definition check_principal ::
  "'s limiter_env \<Rightarrow> fault \<Rightarrow> fault \<Rightarrow> TenantContext \<Rightarrow> PublicKey \<Rightarrow> LimitType \<Rightarrow> u64 \<Rightarrow> u64 \<Rightarrow> 's \<Rightarrow>
   (QuotaError, unit) result \<times> 's" where
  "check_principal L flt repair tenant pubkey limit_type window_secs limit s =
     (case check_and_increment L flt repair tenant pubkey limit_type window_secs limit s of
        (Inr r, s) \<Rightarrow> (if rl_allowed r then Ok () else Err (Exceeded (rl_reset_in_secs r)), s)
      | (Inl _, s) \<Rightarrow> (Err Unavailable, s))"

definition saturating_mul :: "u64 \<Rightarrow> u64 \<Rightarrow> u64" where
  "saturating_mul a b = (if unat a * unat b \<ge> 2 ^ 64 then -1 else a * b)"

definition ws_admission_budget :: "u64 \<Rightarrow> u64 \<times> u64" where
  "ws_admission_budget per_second_limit =
     (WS_BURST_WINDOW_SECS, saturating_mul per_second_limit WS_BURST_WINDOW_SECS)"

section \<open>Replay of HTTP requests\<close>

definition DEFAULT_REPLAY_TTL_SECS :: nat where "DEFAULT_REPLAY_TTL_SECS = 120"
definition MAX_REPLAY_TTL_SECS :: nat where "MAX_REPLAY_TTL_SECS = 3600"

definition nip98_replay_key_for_scope :: "string \<Rightarrow> string \<Rightarrow> string" where
  "nip98_replay_key_for_scope scope event_id = ''lenos:'' @ scope @ '':nip98:'' @ event_id"

definition nip98_replay_key :: "TenantContext \<Rightarrow> string \<Rightarrow> string" where
  "nip98_replay_key ctx = nip98_replay_key_for_scope (tn_community ctx)"

text \<open>\<open>SET k 1 NX EX ttl\<close> answers \<open>OK\<close>, or nothing when the key exists.\<close>

definition set_nx_ex :: "'s limiter_env \<Rightarrow> string \<Rightarrow> nat \<Rightarrow> 's \<Rightarrow> (string, string option) result \<times> 's" where
  "set_nx_ex L k secs s =
     (if rd_get (lm_redis L) s k \<noteq> None then (Ok None, s)
      else (Ok (Some ''OK''), rd_set_px (lm_redis L) s k ''1'' (secs * 1000)))"

definition try_mark_in_scope ::
  "'s limiter_env \<Rightarrow> fault \<Rightarrow> string \<Rightarrow> string \<Rightarrow> nat \<Rightarrow> 's \<Rightarrow> (AuthError, bool) result \<times> 's" where
  "try_mark_in_scope L flt scope event_id ttl_secs s =
     (let ttl = max DEFAULT_REPLAY_TTL_SECS (min ttl_secs MAX_REPLAY_TTL_SECS)
      in case flt of
           PoolFault e \<Rightarrow> (Err (AuthInternal (''Redis pool: '' @ e)), s)
         | _ \<Rightarrow>
             (case lossy flt (set_nx_ex L (nip98_replay_key_for_scope scope event_id) ttl) s of
                (Inl e, s) \<Rightarrow> (Err (AuthInternal (''Redis SET NX EX: '' @ e)), s)
              | (Inr None, s) \<Rightarrow> (Ok False, s)
              | (Inr (Some other), s) \<Rightarrow>
                  (if other = ''OK'' then Ok True else Err (AuthInternal (''unexpected SET NX EX reply: '' @ other)), s)))"

definition try_mark ::
  "'s limiter_env \<Rightarrow> fault \<Rightarrow> TenantContext \<Rightarrow> string \<Rightarrow> nat \<Rightarrow> 's \<Rightarrow> (AuthError, bool) result \<times> 's" where
  "try_mark L flt ctx = try_mark_in_scope L flt (tn_community ctx)"

section \<open>The doors\<close>

text \<open>What the gates of a relay share.\<close>

record ('u, 's, 'e) doors =
  dr_auth :: "'u auth_env"
  dr_wire :: wire_env
  dr_limiter :: "'s limiter_env"
  dr_config :: relay_config
  dr_rates :: RateLimitConfig
  dr_resolve :: "string \<Rightarrow> ('e, CommunityId option) result"

definition quota_message :: "nat \<Rightarrow> string" where
  "quota_message reset_in_secs = ''rate-limited: quota exceeded; retry in '' @ nat_to_string reset_in_secs @ ''s''"

definition enforce_http_admission ::
  "('u, 's, 'e) doors \<Rightarrow> fault \<Rightarrow> fault \<Rightarrow> TenantContext \<Rightarrow> PublicKey \<Rightarrow> 's \<Rightarrow> (http_error, unit) result \<times> 's" where
  "enforce_http_admission D flt repair tenant pubkey s =
     (case check_principal (dr_limiter D) flt repair tenant pubkey LtApiCalls 60 (human_api_calls_per_min (dr_rates D)) s of
        (Inr _, s) \<Rightarrow> (Ok (), s)
      | (Inl (Exceeded reset_in_secs), s) \<Rightarrow> (Err (429, quota_message reset_in_secs), s)
      | (Inl Unavailable, s) \<Rightarrow> (Err (503, ''rate-limited: shared admission unavailable''), s))"

definition check_nip98_replay ::
  "('u, 's, 'e) doors \<Rightarrow> fault \<Rightarrow> TenantContext \<Rightarrow> string \<Rightarrow> 's \<Rightarrow> (http_error, unit) result \<times> 's" where
  "check_nip98_replay D flt tenant event_id s =
     (if event_id = ZERO_EVENT_ID then (Ok (), s)
      else (case try_mark (dr_limiter D) flt tenant event_id DEFAULT_REPLAY_TTL_SECS s of
          (Inr True, s) \<Rightarrow> (Ok (), s)
        | (Inr False, s) \<Rightarrow> (Err (401, ''NIP-98: replay detected''), s)
        | (Inl _, s) \<Rightarrow> (Err (401, ''NIP-98: replay check unavailable''), s)))"

text \<open>
  The head of \<open>submit_event_authed\<close>, the same in \<open>query_events_authed\<close> and \<open>count_events_authed\<close>: the quota, then the
  replay mark. The three commands of the call have the faults 0 to 2.
\<close>

definition authed_gate ::
  "('u, 's, 'e) doors \<Rightarrow> (nat \<Rightarrow> fault) \<Rightarrow> TenantContext \<Rightarrow> PublicKey \<Rightarrow> string \<Rightarrow> 's \<Rightarrow> (http_error, unit) result \<times> 's" where
  "authed_gate D flt tenant pubkey event_id s =
     (case enforce_http_admission D (flt 0) (flt 1) tenant pubkey s of
        (Inl e, s) \<Rightarrow> (Err e, s)
      | (Inr _, s) \<Rightarrow> check_nip98_replay D (flt 2) tenant event_id s)"

text \<open>The door of \<open>submit_event\<close>, \<open>query_events\<close> and \<open>count_events\<close>, which differ in the path.\<close>

definition http_door ::
  "('u, 's, 'e) doors \<Rightarrow> (nat \<Rightarrow> fault) \<Rightarrow> nat \<Rightarrow> string \<Rightarrow> auth_headers \<Rightarrow> string option \<Rightarrow> bytes \<Rightarrow> 's \<Rightarrow>
   (http_error, TenantContext \<times> PublicKey \<times> string) result \<times> 's" where
  "http_door D flt now path headers host body s =
     (case bind_community (dr_resolve D) (unwrap_or host []) of
        Inl _ \<Rightarrow> (Err (404, ''relay: no community is configured for this host''), s)
      | Inr tenant \<Rightarrow>
          (let url = nip98_expected_url (rc_relay_url (dr_config D)) tenant path
           in case verify_bridge_auth (dr_auth D) now headers ''POST'' url (Some body) (rc_require_auth_token (dr_config D)) of
                Inl e \<Rightarrow> (Err e, s)
              | Inr (pubkey, event_id) \<Rightarrow>
                  (case authed_gate D flt tenant pubkey event_id s of
                     (Inl e, s) \<Rightarrow> (Err e, s)
                   | (Inr _, s) \<Rightarrow> (Ok (tenant, pubkey, event_id), s))))"

section \<open>WebSocket requests\<close>

definition request_rejection_message :: "wire_env \<Rightarrow> string option \<Rightarrow> string \<Rightarrow> string" where
  "request_rejection_message W sub_id reason =
     (case sub_id of Some sid \<Rightarrow> rm_closed W sid reason | None \<Rightarrow> rm_notice W reason)"

text \<open>Whether the message goes on, and the frames sent.\<close>

definition send_admission_result ::
  "wire_env \<Rightarrow> (QuotaError, unit) result \<Rightarrow> string option \<Rightarrow> bool \<times> string list" where
  "send_admission_result W r sub_id =
     (case r of
        Inr _ \<Rightarrow> (True, [])
      | Inl (Exceeded reset_in_secs) \<Rightarrow> (False, [request_rejection_message W sub_id (quota_message reset_in_secs)])
      | Inl Unavailable \<Rightarrow> (False, [request_rejection_message W sub_id ''rate-limited: shared admission unavailable'']))"

definition is_event :: "ClientMessage \<Rightarrow> bool" where
  "is_event m = (case m of CmEvent _ \<Rightarrow> True | _ \<Rightarrow> False)"

definition is_limited :: "ClientMessage \<Rightarrow> bool" where
  "is_limited m = (case m of CmEvent _ \<Rightarrow> True | CmReq _ _ \<Rightarrow> True | CmCount _ _ \<Rightarrow> True | _ \<Rightarrow> False)"

definition enforce_ws_admission ::
  "('u, 's, 'e) doors \<Rightarrow> (nat \<Rightarrow> fault) \<Rightarrow> ClientMessage \<Rightarrow> auth_conn \<Rightarrow> 's \<Rightarrow> (bool \<times> string list) \<times> 's" where
  "enforce_ws_admission D flt m conn s =
     (if \<not> is_limited m then ((True, []), s)
      else (case cn_auth conn of
          Authenticated ctx \<Rightarrow>
            (let is_agent = (ac_agent_owner_pubkey ctx \<noteq> None); limits = dr_rates D; W = dr_wire D;
                 (ws_window_secs, ws_limit) = ws_admission_budget (human_ws_events_per_sec limits);
                 sub_id = (case m of CmReq sid _ \<Rightarrow> Some sid | _ \<Rightarrow> None)
             in case check_principal (dr_limiter D) (flt 0) (flt 1) (cn_tenant conn) (ac_pubkey ctx) LtWsEvents
                       ws_window_secs ws_limit s of
                  (ws_result, s) \<Rightarrow>
                    (case send_admission_result W ws_result sub_id of
                       (False, frames) \<Rightarrow> ((False, frames), s)
                     | (True, _) \<Rightarrow>
                         (if \<not> is_event m then ((True, []), s)
                          else (let message_limit = (if is_agent then agent_standard_messages_per_min limits
                                                     else human_messages_per_min limits)
                                in case check_principal (dr_limiter D) (flt 2) (flt 3) (cn_tenant conn) (ac_pubkey ctx) LtMessages
                                          60 message_limit s of
                                     (message_result, s) \<Rightarrow> (send_admission_result W message_result None, s)))))
        | _ \<Rightarrow> ((True, []), s)))"

text \<open>
  \<open>handle_text_message\<close>: AUTH runs in place; the other messages go to a handler, of which a request needs a permit of the
  semaphore. \<open>Handled\<close> is a message that was passed on or run.
\<close>

datatype ws_outcome = Refused | Handled ClientMessage

definition permit_denied :: "wire_env \<Rightarrow> ClientMessage \<Rightarrow> string list" where
  "permit_denied W m =
     [(case m of
         CmReq sub_id _ \<Rightarrow> request_rejection_message W (Some sub_id) ''rate-limited: too many concurrent requests''
       | _ \<Rightarrow> rm_notice W ''rate-limited: too many concurrent requests'')]"

definition handle_text_message ::
  "('u, 's, 'e) doors \<Rightarrow> (nat \<Rightarrow> fault) \<Rightarrow> bool \<Rightarrow> string \<Rightarrow> auth_conn \<times> auth_world \<times> 's \<Rightarrow>
   (ws_outcome \<times> string list) \<times> auth_conn \<times> auth_world \<times> 's" where
  "handle_text_message D flt permit raw st =
     (case st of (conn, w, s) \<Rightarrow>
       (case ClientMessage_parse (dr_wire D) raw of
          Inl (InvalidMessage e) \<Rightarrow> ((Refused, [rm_notice (dr_wire D) (''invalid message: '' @ ''Invalid message format: '' @ e)]), conn, w, s)
        | Inr m \<Rightarrow>
            (case enforce_ws_admission D flt m conn s of
               ((False, frames), s) \<Rightarrow> ((Refused, frames), conn, w, s)
             | ((True, _), s) \<Rightarrow>
                 (case m of
                    CmAuth e \<Rightarrow> (case handle_auth (dr_auth D) (dr_config D) e conn w of (conn, w) \<Rightarrow> ((Handled m, []), conn, w, s))
                  | CmClose _ \<Rightarrow> ((Handled m, []), conn, w, s)
                  | _ \<Rightarrow> if permit then ((Handled m, []), conn, w, s) else ((Refused, permit_denied (dr_wire D) m), conn, w, s)))))"

section \<open>One quota\<close>

definition limiter_laws :: "'s limiter_env \<Rightarrow> bool" where
  "limiter_laws L \<longleftrightarrow> redis_laws (lm_redis L) \<and> 60 \<le> lm_expire_max L"

text \<open>The requests a key can still admit within a time \<open>T\<close>, for a limit \<open>M\<close> and windows of \<open>W\<close> milliseconds.\<close>

definition quota_left :: "nat \<Rightarrow> nat \<Rightarrow> 's limiter_env \<Rightarrow> string \<Rightarrow> 's \<Rightarrow> nat \<Rightarrow> nat" where
  "quota_left M W L k s T =
     (case rd_get (lm_redis L) s k of
        None \<Rightarrow> M * (T div W + 1)
      | Some v \<Rightarrow>
          (M - digits_value v)
          + (case rd_ttl (lm_redis L) s k of
               None \<Rightarrow> M * (T div W)
             | Some r \<Rightarrow> if r \<le> T then M * ((T - r) div W + 1) else 0))"

definition counter_ok :: "'s limiter_env \<Rightarrow> string \<Rightarrow> nat \<Rightarrow> 's \<Rightarrow> bool" where
  "counter_ok L k N s \<longleftrightarrow>
     rd_get (lm_redis L) s k = None \<or> (\<exists>n. rd_get (lm_redis L) s k = Some (nat_to_string n) \<and> 0 < n \<and> n \<le> N)"

definition same_key :: "'s limiter_env \<Rightarrow> string \<Rightarrow> 's \<Rightarrow> 's \<Rightarrow> bool" where
  "same_key L k s s' \<longleftrightarrow>
     rd_get (lm_redis L) s' k = rd_get (lm_redis L) s k \<and> rd_ttl (lm_redis L) s' k = rd_ttl (lm_redis L) s k"

lemma same_key_refl [simp]: "same_key L k s s"
  by (simp add: same_key_def)

lemma same_key_trans: "same_key L k s s1 \<Longrightarrow> same_key L k s1 s2 \<Longrightarrow> same_key L k s s2"
  by (simp add: same_key_def)

lemma same_key_quota: "same_key L k s s' \<Longrightarrow> quota_left M W L k s' T = quota_left M W L k s T"
  by (cases "rd_get (lm_redis L) s k") (simp_all add: same_key_def quota_left_def)

lemma same_key_counter: "same_key L k s s' \<Longrightarrow> counter_ok L k N s' = counter_ok L k N s"
  by (simp add: same_key_def counter_ok_def)

lemma counter_ok_mono: "counter_ok L k N s \<Longrightarrow> N \<le> N' \<Longrightarrow> counter_ok L k N' s"
  by (auto simp: counter_ok_def)

definition passes :: "(AuthError, RateLimitResult) result \<Rightarrow> bool" where
  "passes r = (case r of Inr x \<Rightarrow> rl_allowed x | Inl _ \<Rightarrow> False)"

text \<open>What a run of the script leaves: the next count, with a time to live that the first count and a repair set.\<close>

definition bumped :: "'s limiter_env \<Rightarrow> string \<Rightarrow> nat \<Rightarrow> nat \<Rightarrow> 's \<Rightarrow> 's \<Rightarrow> bool" where
  "bumped L k W n s s' \<longleftrightarrow>
     rd_get (lm_redis L) s k = (if n = 0 then None else Some (nat_to_string n))
     \<and> rd_get (lm_redis L) s' k = Some (nat_to_string (Suc n))
     \<and> (rd_ttl (lm_redis L) s' k = (if n = 0 then Some W else rd_ttl (lm_redis L) s k)
        \<or> rd_ttl (lm_redis L) s k = None \<and> rd_ttl (lm_redis L) s' k = Some W)
     \<and> (\<forall>k'. k' \<noteq> k \<longrightarrow> same_key L k' s s')"

lemma expire_sets:
  assumes "limiter_laws L" "0 < W" "W \<le> 60"
  shows "redis_expire L k (int W) s = Some (rd_pexpire (lm_redis L) s k (W * 1000))"
  using assms by (simp add: redis_expire_def limiter_laws_def)

lemma script_bumps:
  assumes laws: "limiter_laws L" and W: "0 < W" "W \<le> 60" and ok: "counter_ok L k N s" and N: "int N < 99999999999999"
  shows "\<exists>n s'. n \<le> N \<and> rate_limit_script L k (int W) s = (Ok (Suc n, redis_ttl L k s'), s') \<and> bumped L k (W * 1000) n s s'"
proof -
  let ?R = "lm_redis L"
  have R: "redis_laws ?R" using laws by (simp add: limiter_laws_def)
  obtain n where n: "n \<le> N" "rd_get ?R s k = (if n = 0 then None else Some (nat_to_string n))"
  proof (cases "rd_get ?R s k")
    case None
    then show ?thesis by (intro that [of 0]) auto
  next
    case (Some v)
    then obtain m where "rd_get ?R s k = Some (nat_to_string m)" "0 < m" "m \<le> N"
      using ok by (auto simp: counter_ok_def)
    then show ?thesis by (intro that [of m]) auto
  qed
  obtain s1 where s1: "incr_to ?R s k (Suc n) s1"
    using redis_incr [OF R n(2)] n(1) N by auto
  then have incr: "rd_incr ?R s k = Some (Suc n, s1)" "rd_get ?R s1 k = Some (nat_to_string (Suc n))"
      "rd_ttl ?R s1 = rd_ttl ?R s" "\<And>k'. k' \<noteq> k \<Longrightarrow> rd_get ?R s1 k' = rd_get ?R s k'"
    by (simp_all add: incr_to_def)
  show ?thesis
  proof (cases "n = 0")
    case True
    let ?s = "rd_pexpire ?R s1 k (W * 1000)"
    have "rate_limit_script L k (int W) s = (Ok (Suc n, redis_ttl L k ?s), ?s)"
      using incr(1) True expire_sets [OF laws W] by (simp add: rate_limit_script_def)
    moreover have "bumped L k (W * 1000) n s ?s"
      using n(2) incr True by (auto simp: bumped_def same_key_def redis_get [OF R])
    ultimately show ?thesis using n(1) by blast
  next
    case False
    have "rate_limit_script L k (int W) s = (Ok (Suc n, redis_ttl L k s1), s1)"
      using incr(1) False by (simp add: rate_limit_script_def)
    moreover have "bumped L k (W * 1000) n s s1"
      using n(2) incr False by (auto simp: bumped_def same_key_def)
    ultimately show ?thesis using n(1) by blast
  qed
qed

lemma repair_bumps:
  assumes "limiter_laws L" "bumped L k W n s s1" "rd_ttl (lm_redis L) s1 k = None"
  shows "bumped L k W n s (rd_pexpire (lm_redis L) s1 k W)"
proof -
  have R: "redis_laws (lm_redis L)" using assms by (simp add: limiter_laws_def)
  show ?thesis
    using assms(2,3) by (auto simp: bumped_def same_key_def redis_get [OF R] split: if_splits)
qed

lemma ttl_negative: "rd_get (lm_redis L) s k = Some v \<Longrightarrow> redis_ttl L k s < 0 \<longleftrightarrow> rd_ttl (lm_redis L) s k = None"
  by (cases "rd_ttl (lm_redis L) s k") (simp_all add: redis_ttl_def)

lemma run_rate_limit_cases:
  assumes laws: "limiter_laws L" and W: "0 < W" "W \<le> 60" "as_i64 w = int W" and ok: "counter_ok L k N s"
    and N: "int N < 99999999999999" and run: "run_rate_limit L flt repair k w l s = (r, s')"
  shows "s' = s \<and> \<not> passes r
    \<or> (\<exists>n\<le>N. bumped L k (W * 1000) n s s' \<and> (passes r \<longrightarrow> Suc n \<le> unat l \<and> rd_ttl (lm_redis L) s' k \<noteq> None))"
proof -
  obtain n s1 where n: "n \<le> N" and script: "rate_limit_script L k (int W) s = (Ok (Suc n, redis_ttl L k s1), s1)"
      and b: "bumped L k (W * 1000) n s s1"
    using script_bumps [OF laws W(1,2) ok N] by blast
  have v: "rd_get (lm_redis L) s1 k = Some (nat_to_string (Suc n))" using b by (simp add: bumped_def)
  note expire = expire_sets [OF laws W(1,2), of k s1]
  let ?s2 = "rd_pexpire (lm_redis L) s1 k (W * 1000)"
  have ttl2: "rd_ttl (lm_redis L) ?s2 k = Some (W * 1000)"
    using laws v by (simp add: limiter_laws_def redis_get)
  show ?thesis
  proof (cases flt)
    case NoFault
    show ?thesis
    proof (cases "rd_ttl (lm_redis L) s1 k = None")
      case True
      then have "redis_ttl L k s1 < 0" using ttl_negative [OF v] by simp
      then have "s' = s1 \<and> \<not> passes r \<or> s' = ?s2 \<and> (passes r \<longrightarrow> Suc n \<le> unat l)"
        using run NoFault script expire W(3)
        by (cases repair) (auto simp: run_rate_limit_def lossy_def passes_def rl_allow_def rl_deny_def split: if_splits)
      then show ?thesis using n b ttl2 repair_bumps [OF laws b True] by auto
    next
      case False
      then have "\<not> redis_ttl L k s1 < 0" using ttl_negative [OF v] by simp
      then have "s' = s1 \<and> (passes r \<longrightarrow> Suc n \<le> unat l)"
        using run NoFault script W(3)
        by (auto simp: run_rate_limit_def lossy_def passes_def rl_allow_def rl_deny_def split: if_splits)
      then show ?thesis using n b False by auto
    qed
  next
    case (ReplyLost e)
    then have "s' = s1 \<and> \<not> passes r"
      using run script W(3) by (auto simp: run_rate_limit_def lossy_def passes_def)
    then show ?thesis using n b by auto
  qed (use run in \<open>auto simp: run_rate_limit_def lossy_def passes_def\<close>)
qed

lemma bumped_quota:
  assumes b: "bumped L k W n s s'" and W: "0 < W" and p: "p \<Longrightarrow> Suc n \<le> M \<and> rd_ttl (lm_redis L) s' k \<noteq> None"
  shows "of_bool p + quota_left M W L k s' T \<le> quota_left M W L k s T"
proof -
  let ?R = "lm_redis L"
  have get: "rd_get ?R s k = (if n = 0 then None else Some (nat_to_string n))" "rd_get ?R s' k = Some (nat_to_string (Suc n))"
    using b by (simp_all add: bumped_def)
  have fresh: "(if W \<le> T then M * ((T - W) div W + 1) else 0) \<le> M * (T div W)"
    using W by (simp add: le_div_geq)
  have one: "of_bool p + (M - Suc n) \<le> M - n" using p by (cases p) auto
  show ?thesis
  proof (cases "rd_ttl ?R s' k = Some W \<and> (n = 0 \<or> rd_ttl ?R s k = None)")
    case True
    have "of_bool p + quota_left M W L k s' T \<le> (M - n) + M * (T div W)"
      using True get(2) one fresh by (simp add: quota_left_def)
    also have "\<dots> \<le> quota_left M W L k s T"
      using get(1) True by (auto simp: quota_left_def)
    finally show ?thesis .
  next
    case False
    then have "n \<noteq> 0" "rd_ttl ?R s' k = rd_ttl ?R s k" using b by (auto simp: bumped_def split: if_splits)
    then show ?thesis using get one by (auto simp: quota_left_def)
  qed
qed

lemma run_rate_limit_quota:
  assumes laws: "limiter_laws L" and W: "0 < W" "W \<le> 60" "as_i64 w = int W" and ok: "counter_ok L k N s"
    and N: "int N < 99999999999999" and run: "run_rate_limit L flt repair k w l s = (r, s')"
  shows "counter_ok L k (Suc N) s'" and "k' \<noteq> k \<Longrightarrow> same_key L k' s s'"
    and "unat l \<le> M \<Longrightarrow> of_bool (passes r) + quota_left M (W * 1000) L k s' T \<le> quota_left M (W * 1000) L k s T"
proof -
  note cases = run_rate_limit_cases [OF assms]
  show "counter_ok L k (Suc N) s'"
    using cases counter_ok_mono [OF ok, of "Suc N"] by (auto simp: bumped_def counter_ok_def)
  show "k' \<noteq> k \<Longrightarrow> same_key L k' s s'" using cases by (auto simp: bumped_def)
  show "of_bool (passes r) + quota_left M (W * 1000) L k s' T \<le> quota_left M (W * 1000) L k s T" if l: "unat l \<le> M"
    using cases
  proof
    assume "\<exists>n\<le>N. bumped L k (W * 1000) n s s' \<and> (passes r \<longrightarrow> Suc n \<le> unat l \<and> rd_ttl (lm_redis L) s' k \<noteq> None)"
    then obtain n where n: "bumped L k (W * 1000) n s s'" "passes r \<Longrightarrow> Suc n \<le> unat l \<and> rd_ttl (lm_redis L) s' k \<noteq> None"
      by blast
    show ?thesis using n(2) l W(1) by (intro bumped_quota [OF n(1)]) auto
  qed simp
qed

lemma elapse_quota:
  assumes laws: "limiter_laws L" and W: "0 < W"
  shows "quota_left M W L k (rd_elapse (lm_redis L) s d) T \<le> quota_left M W L k s (d + T)"
proof -
  have R: "redis_laws (lm_redis L)" using laws by (simp add: limiter_laws_def)
  have mono: "M * (T div W) \<le> M * ((d + T) div W)" by (simp add: div_le_mono)
  show ?thesis
  proof (cases "rd_get (lm_redis L) s k")
    case None
    then show ?thesis using mono by (auto simp: quota_left_def redis_get [OF R] split: option.splits)
  next
    case (Some v)
    show ?thesis
    proof (cases "rd_ttl (lm_redis L) s k")
      case None
      then show ?thesis using Some mono by (simp add: quota_left_def redis_get [OF R])
    next
      case ttl: (Some r)
      show ?thesis
      proof (cases "r \<le> d")
        case True
        then have "M * (T div W) \<le> M - digits_value v + M * ((d + T - r) div W)"
          by (intro trans_le_add2 mult_le_mono2 div_le_mono) simp
        then show ?thesis using Some ttl True by (simp add: quota_left_def redis_get [OF R])
      next
        case False
        then have "T - (r - d) = d + T - r" "r - d \<le> T \<longleftrightarrow> r \<le> d + T" by auto
        then show ?thesis using Some ttl False by (simp add: quota_left_def redis_get [OF R])
      qed
    qed
  qed
qed

lemma elapse_counter:
  "limiter_laws L \<Longrightarrow> counter_ok L k N s \<Longrightarrow> counter_ok L k N (rd_elapse (lm_redis L) s d)"
  by (auto simp: counter_ok_def limiter_laws_def redis_get split: option.splits)

lemma quota_left_bound: "quota_left M W L k s T \<le> M * (T div W + 2)"
proof (cases "rd_get (lm_redis L) s k")
  case None
  then show ?thesis by (simp add: quota_left_def)
next
  case (Some v)
  show ?thesis
  proof (cases "rd_ttl (lm_redis L) s k")
    case None
    have "(M - digits_value v) + M * (T div W) \<le> M + (M + M * (T div W))" by simp
    then show ?thesis using Some None by (simp add: quota_left_def)
  next
    case ttl: (Some r)
    have "M * ((T - r) div W) \<le> M * (T div W)" by (intro mult_le_mono2 div_le_mono) simp
    then have "(M - digits_value v) + (M + M * ((T - r) div W)) \<le> M + (M + M * (T div W))"
      by (rule add_mono [OF diff_le_self add_mono [OF order_refl]])
    then show ?thesis using Some ttl by (simp add: quota_left_def)
  qed
qed

section \<open>Keys\<close>

lemma colon_cancel:
  "CHR '':'' \<notin> set a \<Longrightarrow> CHR '':'' \<notin> set b \<Longrightarrow> a @ CHR '':'' # x = b @ CHR '':'' # y \<longleftrightarrow> a = b \<and> x = y"
  by (metis option.inject prod.inject split_once_append)

lemma key_suffix_plain: "CHR '':'' \<notin> set (key_suffix t)"
  by (cases t) simp_all

lemma key_suffix_inj: "key_suffix t = key_suffix t' \<longleftrightarrow> t = t'"
  by (cases t; cases t') simp_all

lemma rate_limit_key_inj:
  assumes "uuid_text (tn_community c)" "uuid_text (tn_community c')"
  shows "rate_limit_key c pk t = rate_limit_key c' pk' t' \<longleftrightarrow> tn_community c = tn_community c' \<and> pk = pk' \<and> t = t'"
proof -
  have "pk @ CHR '':'' # key_suffix t = pk' @ CHR '':'' # key_suffix t'
      \<longleftrightarrow> rev (key_suffix t) @ CHR '':'' # rev pk = rev (key_suffix t') @ CHR '':'' # rev pk'"
    by (subst rev_is_rev_conv [symmetric]) simp
  also have "\<dots> \<longleftrightarrow> t = t' \<and> pk = pk'"
    by (subst colon_cancel) (auto simp: key_suffix_plain key_suffix_inj)
  finally have tail: "pk @ CHR '':'' # key_suffix t = pk' @ CHR '':'' # key_suffix t' \<longleftrightarrow> t = t' \<and> pk = pk'" .
  show ?thesis
    using assms tail by (auto simp: rate_limit_key_def uuid_text_def colon_cancel)
qed

lemma nip98_replay_key_inj:
  assumes "uuid_text c" "uuid_text c'"
  shows "nip98_replay_key_for_scope c e = nip98_replay_key_for_scope c' e' \<longleftrightarrow> c = c' \<and> e = e'"
  using assms by (simp add: nip98_replay_key_for_scope_def uuid_text_def colon_cancel)

lemma replay_key_not_quota:
  assumes "uuid_text c" "uuid_text (tn_community ctx)"
  shows "nip98_replay_key_for_scope c e \<noteq> rate_limit_key ctx pk t"
  using assms by (simp add: nip98_replay_key_for_scope_def rate_limit_key_def uuid_text_def colon_cancel)

lemma ip_key_apart:
  assumes "uuid_text (tn_community ctx)" "uuid_text c"
  shows "ip_rate_limit_key ip \<noteq> rate_limit_key ctx pk t" "ip_rate_limit_key ip \<noteq> nip98_replay_key_for_scope c e"
proof -
  have ip: "ip_rate_limit_key ip = ''lenos:'' @ ''ratelimit'' @ CHR '':'' # (''ip:'' @ ip @ '':conn'')"
    by (simp add: ip_rate_limit_key_def)
  have "CHR '':'' \<notin> set ''ratelimit''" by simp
  note cancel = colon_cancel [OF this]
  show "ip_rate_limit_key ip \<noteq> rate_limit_key ctx pk t" "ip_rate_limit_key ip \<noteq> nip98_replay_key_for_scope c e"
    unfolding ip rate_limit_key_def nip98_replay_key_for_scope_def
    using assms cancel [of "tn_community ctx"] cancel [of c] by (auto simp: uuid_text_def)
qed

section \<open>Replay marks\<close>

lemma try_mark_cases:
  assumes "try_mark L flt ctx e DEFAULT_REPLAY_TTL_SECS s = (r, s')"
  shows "(s' = s \<or> rd_get (lm_redis L) s (nip98_replay_key ctx e) = None
            \<and> s' = rd_set_px (lm_redis L) s (nip98_replay_key ctx e) ''1'' 120000)
     \<and> (r = Ok True \<longrightarrow> rd_get (lm_redis L) s (nip98_replay_key ctx e) = None
            \<and> s' = rd_set_px (lm_redis L) s (nip98_replay_key ctx e) ''1'' 120000)"
  using assms
  by (cases flt) (auto simp: try_mark_def try_mark_in_scope_def Let_def lossy_def set_nx_ex_def nip98_replay_key_def
      DEFAULT_REPLAY_TTL_SECS_def MAX_REPLAY_TTL_SECS_def split: if_splits)

lemma check_nip98_replay_cases:
  assumes "check_nip98_replay D flt ctx e s = (r, s')"
  shows "(s' = s \<or> rd_get (lm_redis (dr_limiter D)) s (nip98_replay_key ctx e) = None
            \<and> s' = rd_set_px (lm_redis (dr_limiter D)) s (nip98_replay_key ctx e) ''1'' 120000)
     \<and> (r = Ok () \<and> e \<noteq> ZERO_EVENT_ID \<longrightarrow> rd_get (lm_redis (dr_limiter D)) s (nip98_replay_key ctx e) = None
            \<and> s' = rd_set_px (lm_redis (dr_limiter D)) s (nip98_replay_key ctx e) ''1'' 120000)"
proof (cases "e = ZERO_EVENT_ID")
  case True
  then show ?thesis using assms by (simp add: check_nip98_replay_def)
next
  case False
  obtain m s1 where m: "try_mark (dr_limiter D) flt ctx e DEFAULT_REPLAY_TTL_SECS s = (m, s1)" by fastforce
  have s1: "s' = s1" and ok: "r = Ok () \<Longrightarrow> m = Ok True"
    using assms False m by (auto simp: check_nip98_replay_def split: sum.splits bool.splits)
  show ?thesis using try_mark_cases [OF m] s1 ok by blast
qed

section \<open>All doors over time\<close>

text \<open>What got through, with the time in milliseconds: an HTTP request with its event id, a WebSocket request.\<close>

datatype passed = HttpPassed nat CommunityId PublicKey string | WsPassed nat CommunityId PublicKey bool

datatype gate_op = GoHttp "nat \<Rightarrow> fault" string auth_headers "string option" bytes
  | GoWs "nat \<Rightarrow> fault" ClientMessage auth_conn | GoElapse nat

record 's gate_state =
  gs_ms :: nat
  gs_redis :: 's
  gs_passed :: "passed list"

definition ws_passed :: "nat \<Rightarrow> ClientMessage \<Rightarrow> auth_conn \<Rightarrow> bool \<Rightarrow> passed list" where
  "ws_passed ms m conn allowed =
     (case cn_auth conn of
        Authenticated ctx \<Rightarrow>
          if allowed \<and> is_limited m then [WsPassed ms (tn_community (cn_tenant conn)) (ac_pubkey ctx) (is_event m)] else []
      | _ \<Rightarrow> [])"

fun gate_step :: "('u, 's, 'e) doors \<Rightarrow> 's gate_state \<Rightarrow> gate_op \<Rightarrow> 's gate_state" where
  "gate_step D st (GoElapse d) =
     st\<lparr>gs_ms := gs_ms st + d, gs_redis := rd_elapse (lm_redis (dr_limiter D)) (gs_redis st) d\<rparr>"
| "gate_step D st (GoHttp flt path headers host body) =
     (case http_door D flt (gs_ms st div 1000) path headers host body (gs_redis st) of
        (Inl _, s) \<Rightarrow> st\<lparr>gs_redis := s\<rparr>
      | (Inr (tenant, pubkey, event_id), s) \<Rightarrow>
          st\<lparr>gs_redis := s, gs_passed := gs_passed st @ [HttpPassed (gs_ms st) (tn_community tenant) pubkey event_id]\<rparr>)"
| "gate_step D st (GoWs flt m conn) =
     (case enforce_ws_admission D flt m conn (gs_redis st) of
        ((allowed, _), s) \<Rightarrow> st\<lparr>gs_redis := s, gs_passed := gs_passed st @ ws_passed (gs_ms st) m conn allowed\<rparr>)"

definition gate_run :: "('u, 's, 'e) doors \<Rightarrow> gate_op list \<Rightarrow> 's gate_state \<Rightarrow> 's gate_state" where
  "gate_run D ops st = foldl (gate_step D) st ops"

fun op_elapsed :: "gate_op \<Rightarrow> nat" where
  "op_elapsed (GoElapse d) = d"
| "op_elapsed _ = 0"

definition elapsed :: "gate_op list \<Rightarrow> nat" where
  "elapsed ops = sum_list (map op_elapsed ops)"

fun counted :: "LimitType \<Rightarrow> CommunityId \<Rightarrow> PublicKey \<Rightarrow> passed \<Rightarrow> bool" where
  "counted LtApiCalls c pk (HttpPassed _ c' pk' _) = (c' = c \<and> pk' = pk)"
| "counted LtWsEvents c pk (WsPassed _ c' pk' _) = (c' = c \<and> pk' = pk)"
| "counted LtMessages c pk (WsPassed _ c' pk' ev) = (c' = c \<and> pk' = pk \<and> ev)"
| "counted _ _ _ _ = False"

definition admitted_count :: "LimitType \<Rightarrow> CommunityId \<Rightarrow> PublicKey \<Rightarrow> passed list \<Rightarrow> nat" where
  "admitted_count t c pk ps = length (filter (counted t c pk) ps)"

fun window_of :: "LimitType \<Rightarrow> nat" where
  "window_of LtWsEvents = 5"
| "window_of _ = 60"

fun limit_of :: "RateLimitConfig \<Rightarrow> LimitType \<Rightarrow> nat" where
  "limit_of r LtApiCalls = unat (human_api_calls_per_min r)"
| "limit_of r LtWsEvents = min (5 * unat (human_ws_events_per_sec r)) (2 ^ 64 - 1)"
| "limit_of r LtMessages = max (unat (human_messages_per_min r)) (unat (agent_standard_messages_per_min r))"
| "limit_of r LtIpConnections = 0"

text \<open>Communities are UUIDs: those the resolver knows and those of the connections.\<close>

definition resolver_uuids :: "('u, 's, 'e) doors \<Rightarrow> bool" where
  "resolver_uuids D \<longleftrightarrow> (\<forall>h c. dr_resolve D h = Ok (Some c) \<longrightarrow> uuid_text c)"

fun op_ok :: "gate_op \<Rightarrow> bool" where
  "op_ok (GoWs _ _ conn) = uuid_text (tn_community (cn_tenant conn))"
| "op_ok _ = True"

definition counters_ok :: "'s limiter_env \<Rightarrow> nat \<Rightarrow> 's \<Rightarrow> bool" where
  "counters_ok L N s \<longleftrightarrow> (\<forall>ctx pk t. uuid_text (tn_community ctx) \<longrightarrow> counter_ok L (rate_limit_key ctx pk t) N s)"

definition marks_same :: "'s limiter_env \<Rightarrow> 's \<Rightarrow> 's \<Rightarrow> bool" where
  "marks_same L s s' \<longleftrightarrow> (\<forall>c e. uuid_text c \<longrightarrow> same_key L (nip98_replay_key_for_scope c e) s s')"

lemma marks_same_refl [simp]: "marks_same L s s"
  by (simp add: marks_same_def)

lemma marks_same_trans: "marks_same L s s1 \<Longrightarrow> marks_same L s1 s2 \<Longrightarrow> marks_same L s s2"
  unfolding marks_same_def by (metis same_key_trans)

lemma counters_ok_mono: "counters_ok L N s \<Longrightarrow> N \<le> N' \<Longrightarrow> counters_ok L N' s"
  by (auto simp: counters_ok_def intro: counter_ok_mono)

text \<open>The potential of one quota.\<close>

definition left_for :: "('u, 's, 'e) doors \<Rightarrow> LimitType \<Rightarrow> TenantContext \<Rightarrow> PublicKey \<Rightarrow> 's \<Rightarrow> nat \<Rightarrow> nat" where
  "left_for D t ctx pk s T =
     quota_left (limit_of (dr_rates D) t) (window_of t * 1000) (dr_limiter D) (rate_limit_key ctx pk t) s T"

lemma windows [simp]: "0 < window_of t" "window_of t \<le> 60"
  by (cases t; simp)+

lemma principal_step:
  assumes laws: "limiter_laws (dr_limiter D)" and w: "as_i64 w = int (window_of t)" and l: "unat l \<le> limit_of (dr_rates D) t"
    and c: "uuid_text (tn_community ctx)" and ok: "counters_ok (dr_limiter D) N s" and N: "int N < 99999999999999"
    and run: "check_principal (dr_limiter D) flt repair ctx pk t w l s = (r, s')"
  shows "counters_ok (dr_limiter D) (Suc N) s'" and "marks_same (dr_limiter D) s s'"
    and "uuid_text (tn_community ctx') \<Longrightarrow>
      of_bool (r = Ok () \<and> tn_community ctx = tn_community ctx' \<and> pk = pk' \<and> t = t') + left_for D t' ctx' pk' s' T
        \<le> left_for D t' ctx' pk' s T"
proof -
  let ?L = "dr_limiter D" and ?k = "rate_limit_key ctx pk t"
  obtain x s1 where "run_rate_limit ?L flt repair ?k w l s = (x, s1)" by fastforce
  moreover from this have s1: "s1 = s'" "r = Ok () \<Longrightarrow> passes x"
    using run by (auto simp: check_principal_def check_and_increment_def passes_def split: sum.splits if_splits)
  ultimately have go: "run_rate_limit ?L flt repair ?k w l s = (x, s')" by simp
  have own: "counter_ok ?L ?k N s" using ok c by (simp add: counters_ok_def)
  note q = run_rate_limit_quota [OF laws windows w own N go]
  show "counters_ok ?L (Suc N) s'"
    unfolding counters_ok_def
  proof (intro allI impI)
    fix ctx2 :: TenantContext and pk2 t2 assume c2: "uuid_text (tn_community ctx2)"
    then have "counter_ok ?L (rate_limit_key ctx2 pk2 t2) N s" using ok unfolding counters_ok_def by blast
    then have "counter_ok ?L (rate_limit_key ctx2 pk2 t2) (Suc N) s" by (rule counter_ok_mono) simp
    then show "counter_ok ?L (rate_limit_key ctx2 pk2 t2) (Suc N) s'"
      using q(1) q(2) [of "rate_limit_key ctx2 pk2 t2"] same_key_counter by metis
  qed
  show "marks_same ?L s s'"
    unfolding marks_same_def using q(2) replay_key_not_quota c by blast
  show "of_bool (r = Ok () \<and> tn_community ctx = tn_community ctx' \<and> pk = pk' \<and> t = t') + left_for D t' ctx' pk' s' T
        \<le> left_for D t' ctx' pk' s T" if c': "uuid_text (tn_community ctx')"
  proof (cases "tn_community ctx = tn_community ctx' \<and> pk = pk' \<and> t = t'")
    case True
    then have "rate_limit_key ctx' pk' t' = ?k" using rate_limit_key_inj [OF c' c] by simp
    moreover have "of_bool (r = Ok ()) + n \<le> of_bool (passes x) + n" for n :: nat using s1(2) by auto
    then have "of_bool (r = Ok ()) + left_for D t ctx pk s' T \<le> of_bool (passes x) + left_for D t ctx pk s' T" .
    ultimately show ?thesis
      using q(3) [OF l, of T] True by (auto simp: left_for_def intro: order_trans)
  next
    case False
    then have "?k \<noteq> rate_limit_key ctx' pk' t'" using rate_limit_key_inj [OF c c'] by blast
    then have "same_key ?L (rate_limit_key ctx' pk' t') s s'" by (intro q(2)) simp
    then show ?thesis using False by (auto simp: left_for_def same_key_quota)
  qed
qed

lemma windows_as_i64 [simp]: "as_i64 60 = 60" "as_i64 WS_BURST_WINDOW_SECS = 5"
  by (simp_all add: as_i64_def WS_BURST_WINDOW_SECS_def)

lemma ws_budget: "ws_admission_budget r = (WS_BURST_WINDOW_SECS, saturating_mul r WS_BURST_WINDOW_SECS)"
  by (simp add: ws_admission_budget_def)

lemma ws_limit: "unat (saturating_mul (human_ws_events_per_sec rates) WS_BURST_WINDOW_SECS) = limit_of rates LtWsEvents"
proof -
  let ?r = "human_ws_events_per_sec rates"
  have five: "unat WS_BURST_WINDOW_SECS = 5" by (simp add: WS_BURST_WINDOW_SECS_def)
  have max: "unat (-1 :: u64) = 2 ^ 64 - 1" by (simp add: unsigned_minus_1_eq_mask mask_eq_exp_minus_1)
  show ?thesis
  proof (cases "unat ?r * 5 \<ge> 2 ^ 64")
    case True
    then show ?thesis using five max by (simp add: saturating_mul_def min_def)
  next
    case False
    then have "unat (?r * WS_BURST_WINDOW_SECS) = unat ?r * 5"
      using five by (simp add: unat_word_ariths)
    then show ?thesis using False five by (simp add: saturating_mul_def min_def)
  qed
qed

lemma http_door_cases:
  assumes "http_door D flt now path headers host body s = (r, s')"
  shows "s' = s \<and> \<not> is_ok r
    \<or> (\<exists>ctx pk e r1 s1. bind_community (dr_resolve D) (unwrap_or host []) = Ok ctx
         \<and> verify_bridge_auth (dr_auth D) now headers ''POST'' (nip98_expected_url (rc_relay_url (dr_config D)) ctx path) (Some body)
             (rc_require_auth_token (dr_config D)) = Ok (pk, e)
         \<and> check_principal (dr_limiter D) (flt 0) (flt 1) ctx pk LtApiCalls 60 (human_api_calls_per_min (dr_rates D)) s = (r1, s1)
         \<and> (r1 \<noteq> Ok () \<and> s' = s1 \<and> \<not> is_ok r
            \<or> r1 = Ok () \<and> (\<exists>r2. check_nip98_replay D (flt 2) ctx e s1 = (r2, s')
                  \<and> (is_ok r \<longrightarrow> r = Ok (ctx, pk, e) \<and> r2 = Ok ()))))"
proof (cases "bind_community (dr_resolve D) (unwrap_or host [])")
  case (Inl x)
  then show ?thesis using assms by (auto simp: http_door_def)
next
  case bound: (Inr ctx)
  let ?v = "verify_bridge_auth (dr_auth D) now headers ''POST'' (nip98_expected_url (rc_relay_url (dr_config D)) ctx path) (Some body)
             (rc_require_auth_token (dr_config D))"
  show ?thesis
  proof (cases ?v)
    case (Inl x)
    then show ?thesis using assms bound by (auto simp: http_door_def)
  next
    case (Inr a)
    obtain pk e where v: "?v = Ok (pk, e)" using Inr by (cases a) simp
    obtain r1 s1 where p: "check_principal (dr_limiter D) (flt 0) (flt 1) ctx pk LtApiCalls 60 (human_api_calls_per_min (dr_rates D)) s = (r1, s1)"
      by fastforce
    obtain r2 s2 where m: "check_nip98_replay D (flt 2) ctx e s1 = (r2, s2)" by fastforce
    have "r1 \<noteq> Ok () \<and> s' = s1 \<and> \<not> is_ok r
        \<or> r1 = Ok () \<and> s' = s2 \<and> (is_ok r \<longrightarrow> r = Ok (ctx, pk, e) \<and> r2 = Ok ())"
      using assms bound v p m
      by (cases r1; cases r2) (auto simp: http_door_def authed_gate_def enforce_http_admission_def split: QuotaError.splits)
    then show ?thesis using bound v p m by blast
  qed
qed

lemma mark_keeps_quota:
  assumes laws: "limiter_laws L" and c: "uuid_text c" "uuid_text (tn_community ctx)"
  shows "same_key L (rate_limit_key ctx pk t) s (rd_set_px (lm_redis L) s (nip98_replay_key_for_scope c e) v d)"
proof -
  have R: "redis_laws (lm_redis L)" using laws by (simp add: limiter_laws_def)
  show ?thesis using replay_key_not_quota [OF c, of e pk t] by (simp add: same_key_def redis_get [OF R])
qed

lemma replay_keeps_quota:
  assumes laws: "limiter_laws (dr_limiter D)" and c: "uuid_text (tn_community ctx)" "uuid_text (tn_community ctx')"
    and m: "check_nip98_replay D flt ctx e s = (r, s')"
  shows "same_key (dr_limiter D) (rate_limit_key ctx' pk t) s s'"
  using check_nip98_replay_cases [OF m] mark_keeps_quota [OF laws c] by (auto simp: nip98_replay_key_def)

lemma counters_ok_cong:
  assumes ok: "counters_ok L N s"
    and same: "\<And>ctx pk t. uuid_text (tn_community (ctx :: TenantContext)) \<Longrightarrow> same_key L (rate_limit_key ctx pk t) s s'"
  shows "counters_ok L N s'"
  using ok same_key_counter [OF same] by (auto simp: counters_ok_def)

lemma admitted_append: "admitted_count t c pk (ps @ qs) = admitted_count t c pk ps + admitted_count t c pk qs"
  by (simp add: admitted_count_def)

text \<open>One step pays for what it admits.\<close>

definition step_pays :: "('u, 's, 'e) doors \<Rightarrow> nat \<Rightarrow> nat \<Rightarrow> 's gate_state \<Rightarrow> 's gate_state \<Rightarrow> bool" where
  "step_pays D N d st st' \<longleftrightarrow>
     counters_ok (dr_limiter D) (N + 2) (gs_redis st')
     \<and> (\<forall>t ctx pk T. uuid_text (tn_community (ctx :: TenantContext)) \<longrightarrow>
          admitted_count t (tn_community ctx) pk (gs_passed st') + left_for D t ctx pk (gs_redis st') T
          \<le> admitted_count t (tn_community ctx) pk (gs_passed st) + left_for D t ctx pk (gs_redis st) (d + T))"

lemma bound_uuid: "resolver_uuids D \<Longrightarrow> bind_community (dr_resolve D) h = Ok ctx \<Longrightarrow> uuid_text (tn_community ctx)"
  by (auto simp: bind_community_def resolver_uuids_def Let_def split: if_splits sum.splits option.splits)

lemma http_pays:
  assumes laws: "limiter_laws (dr_limiter D)" "resolver_uuids D"
    and ok: "counters_ok (dr_limiter D) N (gs_redis st)" and N: "int N < 99999999999999"
  shows "step_pays D N 0 st (gate_step D st (GoHttp flt path headers host body))"
proof -
  let ?L = "dr_limiter D"
  obtain r s' where door: "http_door D flt (gs_ms st div 1000) path headers host body (gs_redis st) = (r, s')" by fastforce
  let ?st' = "gate_step D st (GoHttp flt path headers host body)"
  have st': "gs_redis ?st' = s'" using door by (cases r) (auto simp: split_beta)
  from http_door_cases [OF door] show ?thesis
  proof
    assume "s' = gs_redis st \<and> \<not> is_ok r"
    then have "?st' = st" using door by (cases r) auto
    then show ?thesis using counters_ok_mono [OF ok] by (simp add: step_pays_def)
  next
    assume "\<exists>ctx pk e r1 s1. bind_community (dr_resolve D) (unwrap_or host []) = Ok ctx
         \<and> verify_bridge_auth (dr_auth D) (gs_ms st div 1000) headers ''POST'' (nip98_expected_url (rc_relay_url (dr_config D)) ctx path)
             (Some body) (rc_require_auth_token (dr_config D)) = Ok (pk, e)
         \<and> check_principal ?L (flt 0) (flt 1) ctx pk LtApiCalls 60 (human_api_calls_per_min (dr_rates D)) (gs_redis st) = (r1, s1)
         \<and> (r1 \<noteq> Ok () \<and> s' = s1 \<and> \<not> is_ok r
            \<or> r1 = Ok () \<and> (\<exists>r2. check_nip98_replay D (flt 2) ctx e s1 = (r2, s') \<and> (is_ok r \<longrightarrow> r = Ok (ctx, pk, e) \<and> r2 = Ok ())))"
    then obtain ctx pk e r1 s1 where bound: "bind_community (dr_resolve D) (unwrap_or host []) = Ok ctx"
        and p: "check_principal ?L (flt 0) (flt 1) ctx pk LtApiCalls 60 (human_api_calls_per_min (dr_rates D)) (gs_redis st) = (r1, s1)"
        and rest: "r1 \<noteq> Ok () \<and> s' = s1 \<and> \<not> is_ok r
            \<or> r1 = Ok () \<and> (\<exists>r2. check_nip98_replay D (flt 2) ctx e s1 = (r2, s') \<and> (is_ok r \<longrightarrow> r = Ok (ctx, pk, e) \<and> r2 = Ok ()))"
      by blast
    have c: "uuid_text (tn_community ctx)" using bound_uuid laws(2) bound by blast
    have w: "as_i64 60 = int (window_of LtApiCalls)" and l: "unat (human_api_calls_per_min (dr_rates D)) \<le> limit_of (dr_rates D) LtApiCalls"
      by simp_all
    note q = principal_step [OF laws(1) w l c ok N p]
    have same: "same_key ?L (rate_limit_key ctx' pk' t') s1 s'" if "uuid_text (tn_community ctx')" for ctx' pk' t'
      using rest replay_keeps_quota [OF laws(1) c that] by auto
    have log: "gs_passed ?st' = gs_passed st
        \<or> r1 = Ok () \<and> gs_passed ?st' = gs_passed st @ [HttpPassed (gs_ms st) (tn_community ctx) pk e]"
      using door rest by (cases r) auto
    have "counters_ok ?L (Suc N) s'" by (rule counters_ok_cong [OF q(1)]) (rule same)
    then have "counters_ok ?L (N + 2) s'" by (rule counters_ok_mono) simp
    moreover have "admitted_count t (tn_community ctx') pk' (gs_passed ?st') + left_for D t ctx' pk' s' T
          \<le> admitted_count t (tn_community ctx') pk' (gs_passed st) + left_for D t ctx' pk' (gs_redis st) T"
      if c': "uuid_text (tn_community ctx')" for t pk' T and ctx' :: TenantContext
    proof -
      have left: "left_for D t ctx' pk' s' T = left_for D t ctx' pk' s1 T"
        using same_key_quota [OF same [OF c']] by (simp add: left_for_def)
      have "admitted_count t (tn_community ctx') pk' (gs_passed ?st') \<le> admitted_count t (tn_community ctx') pk' (gs_passed st)
          + of_bool (r1 = Ok () \<and> tn_community ctx = tn_community ctx' \<and> pk = pk' \<and> LtApiCalls = t)"
        using log by (cases t) (auto simp: admitted_append admitted_count_def)
      then show ?thesis using q(3) [OF c', of pk' t T] left by simp
    qed
    ultimately show ?thesis using st' by (simp add: step_pays_def)
  qed
qed

lemma send_admission_allows: "fst (send_admission_result W r sub_id) \<longleftrightarrow> r = Ok ()"
  by (cases r) (auto simp: send_admission_result_def split: QuotaError.splits)

definition message_limit :: "RateLimitConfig \<Rightarrow> AuthContext \<Rightarrow> u64" where
  "message_limit rates ctx =
     (if ac_agent_owner_pubkey ctx \<noteq> None then agent_standard_messages_per_min rates else human_messages_per_min rates)"

lemma message_limit_bound: "unat (message_limit rates ctx) \<le> limit_of rates LtMessages"
  by (auto simp: message_limit_def)

lemma ws_admission_cases:
  assumes "enforce_ws_admission D flt m conn s = ((ok, frames), s')"
  shows "s' = s \<and> ws_passed ms m conn ok = []
    \<or> (\<exists>ctx r1 s1. cn_auth conn = Authenticated ctx \<and> is_limited m
         \<and> check_principal (dr_limiter D) (flt 0) (flt 1) (cn_tenant conn) (ac_pubkey ctx) LtWsEvents WS_BURST_WINDOW_SECS
             (saturating_mul (human_ws_events_per_sec (dr_rates D)) WS_BURST_WINDOW_SECS) s = (r1, s1)
         \<and> (\<not> ok \<and> s' = s1
            \<or> r1 = Ok () \<and> \<not> is_event m \<and> ok \<and> s' = s1
            \<or> r1 = Ok () \<and> is_event m \<and> (\<exists>r2. check_principal (dr_limiter D) (flt 2) (flt 3) (cn_tenant conn) (ac_pubkey ctx)
                  LtMessages 60 (message_limit (dr_rates D) ctx) s1 = (r2, s') \<and> ok = (r2 = Ok ()))))"
proof (cases "is_limited m \<and> (\<exists>ctx. cn_auth conn = Authenticated ctx)")
  case False
  then show ?thesis
    using assms by (cases "cn_auth conn") (auto simp: enforce_ws_admission_def ws_passed_def split: if_splits)
next
  case True
  then obtain ctx where ctx: "cn_auth conn = Authenticated ctx" "is_limited m" by blast
  obtain r1 s1 where p: "check_principal (dr_limiter D) (flt 0) (flt 1) (cn_tenant conn) (ac_pubkey ctx) LtWsEvents WS_BURST_WINDOW_SECS
             (saturating_mul (human_ws_events_per_sec (dr_rates D)) WS_BURST_WINDOW_SECS) s = (r1, s1)" by fastforce
  obtain r2 s2 where q: "check_principal (dr_limiter D) (flt 2) (flt 3) (cn_tenant conn) (ac_pubkey ctx)
                  LtMessages 60 (message_limit (dr_rates D) ctx) s1 = (r2, s2)" by fastforce
  let ?sub = "case m of CmReq sid _ \<Rightarrow> Some sid | _ \<Rightarrow> None"
  obtain b1 f1 where a1: "send_admission_result (dr_wire D) r1 ?sub = (b1, f1)" by fastforce
  obtain b2 f2 where a2: "send_admission_result (dr_wire D) r2 None = (b2, f2)" by fastforce
  have b: "b1 = (r1 = Ok ())" "b2 = (r2 = Ok ())"
    using send_admission_allows [of "dr_wire D" r1 ?sub] send_admission_allows [of "dr_wire D" r2 None] a1 a2 by simp_all
  have "enforce_ws_admission D flt m conn s =
      (if \<not> b1 then ((False, f1), s1) else if \<not> is_event m then ((True, []), s1) else ((b2, f2), s2))"
    using ctx p q [unfolded message_limit_def] a1 a2 by (simp add: enforce_ws_admission_def ws_budget Let_def)
  then have "\<not> ok \<and> s' = s1 \<or> r1 = Ok () \<and> \<not> is_event m \<and> ok \<and> s' = s1 \<or> r1 = Ok () \<and> is_event m \<and> s' = s2 \<and> ok = (r2 = Ok ())"
    using assms b by (auto split: if_splits)
  then show ?thesis using ctx p q by blast
qed

lemma ws_pays:
  assumes laws: "limiter_laws (dr_limiter D)" and c: "uuid_text (tn_community (cn_tenant conn))"
    and ok: "counters_ok (dr_limiter D) N (gs_redis st)" and N: "int (Suc N) < 99999999999999"
  shows "step_pays D N 0 st (gate_step D st (GoWs flt m conn))"
proof -
  let ?L = "dr_limiter D" and ?c = "tn_community (cn_tenant conn)"
  obtain b frames s' where door: "enforce_ws_admission D flt m conn (gs_redis st) = ((b, frames), s')"
    by (metis prod.exhaust)
  let ?st' = "gate_step D st (GoWs flt m conn)"
  have st': "gs_redis ?st' = s'" "gs_passed ?st' = gs_passed st @ ws_passed (gs_ms st) m conn b" using door by simp_all
  from ws_admission_cases [OF door, of "gs_ms st"] show ?thesis
  proof
    assume "s' = gs_redis st \<and> ws_passed (gs_ms st) m conn b = []"
    then show ?thesis using counters_ok_mono [OF ok, of "N + 2"] st' by (simp add: step_pays_def)
  next
    assume "\<exists>ctx r1 s1. cn_auth conn = Authenticated ctx \<and> is_limited m
         \<and> check_principal ?L (flt 0) (flt 1) (cn_tenant conn) (ac_pubkey ctx) LtWsEvents WS_BURST_WINDOW_SECS
             (saturating_mul (human_ws_events_per_sec (dr_rates D)) WS_BURST_WINDOW_SECS) (gs_redis st) = (r1, s1)
         \<and> (\<not> b \<and> s' = s1 \<or> r1 = Ok () \<and> \<not> is_event m \<and> b \<and> s' = s1
            \<or> r1 = Ok () \<and> is_event m \<and> (\<exists>r2. check_principal ?L (flt 2) (flt 3) (cn_tenant conn) (ac_pubkey ctx)
                  LtMessages 60 (message_limit (dr_rates D) ctx) s1 = (r2, s') \<and> b = (r2 = Ok ())))"
    then obtain ctx r1 s1 where ctx: "cn_auth conn = Authenticated ctx" "is_limited m"
      and p: "check_principal ?L (flt 0) (flt 1) (cn_tenant conn) (ac_pubkey ctx) LtWsEvents WS_BURST_WINDOW_SECS
             (saturating_mul (human_ws_events_per_sec (dr_rates D)) WS_BURST_WINDOW_SECS) (gs_redis st) = (r1, s1)"
      and rest: "\<not> b \<and> s' = s1 \<or> r1 = Ok () \<and> \<not> is_event m \<and> b \<and> s' = s1
            \<or> r1 = Ok () \<and> is_event m \<and> (\<exists>r2. check_principal ?L (flt 2) (flt 3) (cn_tenant conn) (ac_pubkey ctx)
                  LtMessages 60 (message_limit (dr_rates D) ctx) s1 = (r2, s') \<and> b = (r2 = Ok ()))"
      by blast
    have w: "as_i64 WS_BURST_WINDOW_SECS = int (window_of LtWsEvents)" "as_i64 60 = int (window_of LtMessages)" by simp_all
    have l: "unat (saturating_mul (human_ws_events_per_sec (dr_rates D)) WS_BURST_WINDOW_SECS) \<le> limit_of (dr_rates D) LtWsEvents"
      by (simp only: ws_limit)
    have N': "int N < 99999999999999" using N by simp
    note q1 = principal_step [OF laws w(1) l c ok N' p]
    have log: "gs_passed ?st' = gs_passed st @ (if b then [WsPassed (gs_ms st) ?c (ac_pubkey ctx) (is_event m)] else [])"
      using st'(2) ctx by (simp add: ws_passed_def)
    show ?thesis
    proof (cases "r1 = Ok () \<and> is_event m \<and> (\<exists>r2. check_principal ?L (flt 2) (flt 3) (cn_tenant conn) (ac_pubkey ctx)
                  LtMessages 60 (message_limit (dr_rates D) ctx) s1 = (r2, s') \<and> b = (r2 = Ok ()))")
      case True
      then obtain r2 where p2: "check_principal ?L (flt 2) (flt 3) (cn_tenant conn) (ac_pubkey ctx) LtMessages 60
            (message_limit (dr_rates D) ctx) s1 = (r2, s')" and b: "b = (r2 = Ok ())" "r1 = Ok ()" "is_event m" by blast
      note q2 = principal_step [OF laws w(2) message_limit_bound c q1(1) N p2]
      have "admitted_count t (tn_community ctx') pk' (gs_passed ?st') + left_for D t ctx' pk' s' T
          \<le> admitted_count t (tn_community ctx') pk' (gs_passed st) + left_for D t ctx' pk' (gs_redis st) T"
        if c': "uuid_text (tn_community ctx')" for t pk' T and ctx' :: TenantContext
      proof -
        have "admitted_count t (tn_community ctx') pk' (gs_passed ?st') \<le> admitted_count t (tn_community ctx') pk' (gs_passed st)
            + of_bool (r1 = Ok () \<and> ?c = tn_community ctx' \<and> ac_pubkey ctx = pk' \<and> LtWsEvents = t)
            + of_bool (r2 = Ok () \<and> ?c = tn_community ctx' \<and> ac_pubkey ctx = pk' \<and> LtMessages = t)"
          using log b by (cases t) (auto simp: admitted_append admitted_count_def)
        then show ?thesis using q1(3) [OF c', of pk' t T] q2(3) [OF c', of pk' t T] by linarith
      qed
      then show ?thesis using q2(1) st'(1) by (simp add: step_pays_def)
    next
      case False
      then have s': "s' = s1" and b: "b \<Longrightarrow> r1 = Ok () \<and> \<not> is_event m" using rest by auto
      have "admitted_count t (tn_community ctx') pk' (gs_passed ?st') + left_for D t ctx' pk' s' T
          \<le> admitted_count t (tn_community ctx') pk' (gs_passed st) + left_for D t ctx' pk' (gs_redis st) T"
        if c': "uuid_text (tn_community ctx')" for t pk' T and ctx' :: TenantContext
      proof -
        have "admitted_count t (tn_community ctx') pk' (gs_passed ?st') \<le> admitted_count t (tn_community ctx') pk' (gs_passed st)
            + of_bool (r1 = Ok () \<and> ?c = tn_community ctx' \<and> ac_pubkey ctx = pk' \<and> LtWsEvents = t)"
          using log b by (cases t) (auto simp: admitted_append admitted_count_def)
        then show ?thesis unfolding s' using q1(3) [OF c', of pk' t T] by linarith
      qed
      then show ?thesis using counters_ok_mono [OF q1(1), of "N + 2"] s' st'(1) by (simp add: step_pays_def)
    qed
  qed
qed

lemma elapse_pays:
  assumes laws: "limiter_laws (dr_limiter D)" and ok: "counters_ok (dr_limiter D) N (gs_redis st)"
  shows "step_pays D N d st (gate_step D st (GoElapse d))"
proof -
  have "counters_ok (dr_limiter D) N (rd_elapse (lm_redis (dr_limiter D)) (gs_redis st) d)"
    using ok elapse_counter [OF laws] unfolding counters_ok_def by blast
  then have "counters_ok (dr_limiter D) (N + 2) (rd_elapse (lm_redis (dr_limiter D)) (gs_redis st) d)"
    by (rule counters_ok_mono) simp
  moreover have "left_for D t ctx pk (rd_elapse (lm_redis (dr_limiter D)) (gs_redis st) d) T
      \<le> left_for D t ctx pk (gs_redis st) (d + T)" for t ctx pk T
    unfolding left_for_def by (rule elapse_quota [OF laws]) simp
  ultimately show ?thesis by (simp add: step_pays_def)
qed

lemma step_pays_op:
  assumes laws: "limiter_laws (dr_limiter D)" "resolver_uuids D" and "op_ok op"
    and ok: "counters_ok (dr_limiter D) N (gs_redis st)" and N: "int (Suc N) < 99999999999999"
  shows "step_pays D N (op_elapsed op) st (gate_step D st op)"
proof (cases op)
  case (GoHttp flt path headers host body)
  then show ?thesis using http_pays [OF laws ok] N by simp
next
  case (GoWs flt m conn)
  then show ?thesis using ws_pays [OF laws(1) _ ok N] \<open>op_ok op\<close> by simp
next
  case (GoElapse d)
  then show ?thesis using elapse_pays [OF laws(1) ok] by simp
qed

lemma run_pays:
  assumes laws: "limiter_laws (dr_limiter D)" "resolver_uuids D"
  shows "list_all op_ok ops \<Longrightarrow> counters_ok (dr_limiter D) N (gs_redis st) \<Longrightarrow> int (N + 2 * length ops) < 99999999999999 \<Longrightarrow>
     counters_ok (dr_limiter D) (N + 2 * length ops) (gs_redis (gate_run D ops st))
     \<and> (uuid_text (tn_community (ctx :: TenantContext)) \<longrightarrow>
          admitted_count t (tn_community ctx) pk (gs_passed (gate_run D ops st)) + left_for D t ctx pk (gs_redis (gate_run D ops st)) T
          \<le> admitted_count t (tn_community ctx) pk (gs_passed st) + left_for D t ctx pk (gs_redis st) (elapsed ops + T))"
proof (induction ops arbitrary: st N)
  case (Cons op ops)
  let ?st = "gate_step D st op"
  have pay: "step_pays D N (op_elapsed op) st ?st"
    using Cons.prems by (intro step_pays_op [OF laws]) simp_all
  then have ok: "counters_ok (dr_limiter D) (N + 2) (gs_redis ?st)" by (simp add: step_pays_def)
  have len: "int (N + 2 + 2 * length ops) < 99999999999999" and ops: "list_all op_ok ops" using Cons.prems by simp_all
  note IH = Cons.IH [OF ops ok len]
  have run: "gate_run D (op # ops) st = gate_run D ops ?st" by (simp add: gate_run_def)
  have "admitted_count t (tn_community ctx) pk (gs_passed ?st) + left_for D t ctx pk (gs_redis ?st) (elapsed ops + T)
      \<le> admitted_count t (tn_community ctx) pk (gs_passed st) + left_for D t ctx pk (gs_redis st) (elapsed (op # ops) + T)"
    if "uuid_text (tn_community ctx)"
    using pay that by (simp add: step_pays_def elapsed_def add.assoc)
  then show ?case using IH unfolding run by (auto simp: add.assoc intro: order_trans)
qed (simp add: gate_run_def elapsed_def)

text \<open>
  C33. Quotas hold across all doors: whatever requests, retries and lost commands came before, during any later stretch of
  \<open>T\<close> milliseconds one key is admitted, per kind of request, at most the kind's limit times (windows in \<open>T\<close>) plus 2 times in
  one community, where the windows are 60 seconds for HTTP requests and events and 5 seconds for WebSocket requests; a
  shorter stretch admits at most twice the limit.
\<close>

theorem quota_bounds:
  assumes "limiter_laws (dr_limiter D)" "resolver_uuids D" "uuid_text c" "list_all op_ok (before @ ops)"
    and "counters_ok (dr_limiter D) 0 s" and "int (2 * length (before @ ops)) < 99999999999999"
  shows "let st = gate_run D before \<lparr>gs_ms = t0, gs_redis = s, gs_passed = []\<rparr>
    in admitted_count t c pk (gs_passed (gate_run D ops st))
       \<le> admitted_count t c pk (gs_passed st) + limit_of (dr_rates D) t * (elapsed ops div (window_of t * 1000) + 2)"
proof -
  let ?L = "dr_limiter D" and ?ctx = "\<lparr>tn_community = c, tn_host = []\<rparr> :: TenantContext"
  define st where "st = gate_run D before \<lparr>gs_ms = t0, gs_redis = s, gs_passed = []\<rparr>"
  have ops: "list_all op_ok before" "list_all op_ok ops" using assms(4) by simp_all
  have "counters_ok ?L (0 + 2 * length before) (gs_redis st)"
    unfolding st_def
    using run_pays [OF assms(1,2) ops(1), of 0 "\<lparr>gs_ms = t0, gs_redis = s, gs_passed = []\<rparr>" ?ctx] assms(5,6) by simp
  moreover have "int (0 + 2 * length before + 2 * length ops) < 99999999999999" using assms(6) by simp
  ultimately have "admitted_count t c pk (gs_passed (gate_run D ops st)) + left_for D t ?ctx pk (gs_redis (gate_run D ops st)) 0
      \<le> admitted_count t c pk (gs_passed st) + left_for D t ?ctx pk (gs_redis st) (elapsed ops + 0)"
    using run_pays [OF assms(1,2) ops(2), of "0 + 2 * length before" st ?ctx t pk 0] assms(3) by simp
  moreover have "left_for D t ?ctx pk (gs_redis st) (elapsed ops + 0) \<le> limit_of (dr_rates D) t * (elapsed ops div (window_of t * 1000) + 2)"
    unfolding left_for_def using quota_left_bound by simp
  ultimately show ?thesis unfolding Let_def st_def [symmetric] by linarith
qed

section \<open>Replays\<close>

text \<open>A passed request leaves a mark for 120 seconds, so passes of one signed request are that far apart.\<close>

definition replay_apart :: "passed \<Rightarrow> passed \<Rightarrow> bool" where
  "replay_apart p q =
     (case (p, q) of
        (HttpPassed t c _ e, HttpPassed t' c' _ e') \<Rightarrow> c = c' \<and> e = e' \<and> e \<noteq> ZERO_EVENT_ID \<longrightarrow> t + 120000 \<le> t'
      | _ \<Rightarrow> True)"

definition mark_lives :: "'s limiter_env \<Rightarrow> nat \<Rightarrow> 's \<Rightarrow> passed \<Rightarrow> bool" where
  "mark_lives L ms s p =
     (case p of
        HttpPassed t c _ e \<Rightarrow> uuid_text c \<and> t \<le> ms
          \<and> (e = ZERO_EVENT_ID \<or> t + 120000 \<le> ms
             \<or> rd_get (lm_redis L) s (nip98_replay_key_for_scope c e) \<noteq> None
               \<and> rd_ttl (lm_redis L) s (nip98_replay_key_for_scope c e) = Some (t + 120000 - ms))
      | _ \<Rightarrow> True)"

definition marks_ok :: "'s limiter_env \<Rightarrow> 's gate_state \<Rightarrow> bool" where
  "marks_ok L st \<longleftrightarrow> list_all (mark_lives L (gs_ms st) (gs_redis st)) (gs_passed st) \<and> sorted_wrt replay_apart (gs_passed st)"

lemma mark_lives_same: "marks_same L s s' \<Longrightarrow> mark_lives L ms s p \<Longrightarrow> mark_lives L ms s' p"
  by (cases p) (simp_all add: mark_lives_def marks_same_def same_key_def)

lemma mark_lives_elapse:
  assumes "limiter_laws L" "mark_lives L ms s p"
  shows "mark_lives L (ms + d) (rd_elapse (lm_redis L) s d) p"
proof (cases p)
  case (HttpPassed t c pk e)
  have R: "redis_laws (lm_redis L)" using assms(1) by (simp add: limiter_laws_def)
  show ?thesis using assms(2) by (auto simp: HttpPassed mark_lives_def redis_get [OF R])
qed (simp add: mark_lives_def)

lemma mark_lives_set:
  assumes laws: "limiter_laws L" and c: "uuid_text c" and p: "mark_lives L ms s p"
    and free: "rd_get (lm_redis L) s (nip98_replay_key_for_scope c e) = None"
  shows "mark_lives L ms (rd_set_px (lm_redis L) s (nip98_replay_key_for_scope c e) v d) p"
    and "e \<noteq> ZERO_EVENT_ID \<Longrightarrow> replay_apart p (HttpPassed ms c pk e)"
proof -
  have R: "redis_laws (lm_redis L)" using laws by (simp add: limiter_laws_def)
  show "mark_lives L ms (rd_set_px (lm_redis L) s (nip98_replay_key_for_scope c e) v d) p"
    using p free by (cases p) (auto simp: mark_lives_def redis_get [OF R])
  show "replay_apart p (HttpPassed ms c pk e)" if "e \<noteq> ZERO_EVENT_ID"
    using p free by (cases p) (auto simp: mark_lives_def replay_apart_def)
qed

lemma mark_lives_new:
  assumes "limiter_laws L" "uuid_text c"
  shows "mark_lives L ms (rd_set_px (lm_redis L) s (nip98_replay_key_for_scope c e) ''1'' 120000) (HttpPassed ms c pk e)"
proof -
  have R: "redis_laws (lm_redis L)" using assms by (simp add: limiter_laws_def)
  show ?thesis using assms(2) by (simp add: mark_lives_def redis_get [OF R])
qed

lemma http_marks:
  assumes laws: "limiter_laws (dr_limiter D)" "resolver_uuids D"
    and ok: "counters_ok (dr_limiter D) N (gs_redis st)" and N: "int N < 99999999999999"
    and marks: "marks_ok (dr_limiter D) st"
  shows "marks_ok (dr_limiter D) (gate_step D st (GoHttp flt path headers host body))"
proof -
  let ?L = "dr_limiter D"
  obtain r s' where door: "http_door D flt (gs_ms st div 1000) path headers host body (gs_redis st) = (r, s')" by fastforce
  let ?st' = "gate_step D st (GoHttp flt path headers host body)"
  from http_door_cases [OF door] show ?thesis
  proof
    assume "s' = gs_redis st \<and> \<not> is_ok r"
    then have "?st' = st" using door by (cases r) auto
    then show ?thesis using marks by simp
  next
    assume "\<exists>ctx pk e r1 s1. bind_community (dr_resolve D) (unwrap_or host []) = Ok ctx
         \<and> verify_bridge_auth (dr_auth D) (gs_ms st div 1000) headers ''POST'' (nip98_expected_url (rc_relay_url (dr_config D)) ctx path)
             (Some body) (rc_require_auth_token (dr_config D)) = Ok (pk, e)
         \<and> check_principal ?L (flt 0) (flt 1) ctx pk LtApiCalls 60 (human_api_calls_per_min (dr_rates D)) (gs_redis st) = (r1, s1)
         \<and> (r1 \<noteq> Ok () \<and> s' = s1 \<and> \<not> is_ok r
            \<or> r1 = Ok () \<and> (\<exists>r2. check_nip98_replay D (flt 2) ctx e s1 = (r2, s') \<and> (is_ok r \<longrightarrow> r = Ok (ctx, pk, e) \<and> r2 = Ok ())))"
    then obtain ctx pk e r1 s1 where bound: "bind_community (dr_resolve D) (unwrap_or host []) = Ok ctx"
        and p: "check_principal ?L (flt 0) (flt 1) ctx pk LtApiCalls 60 (human_api_calls_per_min (dr_rates D)) (gs_redis st) = (r1, s1)"
        and rest: "r1 \<noteq> Ok () \<and> s' = s1 \<and> \<not> is_ok r
            \<or> r1 = Ok () \<and> (\<exists>r2. check_nip98_replay D (flt 2) ctx e s1 = (r2, s') \<and> (is_ok r \<longrightarrow> r = Ok (ctx, pk, e) \<and> r2 = Ok ()))"
      by blast
    have c: "uuid_text (tn_community ctx)" using bound_uuid laws(2) bound by blast
    have w: "as_i64 60 = int (window_of LtApiCalls)" and l: "unat (human_api_calls_per_min (dr_rates D)) \<le> limit_of (dr_rates D) LtApiCalls"
      by simp_all
    note same = principal_step(2) [OF laws(1) w l c ok N p]
    let ?c = "tn_community ctx" and ?ms = "gs_ms st"
    let ?set = "rd_set_px (lm_redis ?L) s1 (nip98_replay_key_for_scope ?c e) ''1'' 120000"
    let ?free = "rd_get (lm_redis ?L) s1 (nip98_replay_key_for_scope ?c e) = None"
    have old: "list_all (mark_lives ?L ?ms s1) (gs_passed st)" and apart: "sorted_wrt replay_apart (gs_passed st)"
      using marks mark_lives_same [OF same] by (auto simp: marks_ok_def list_all_iff)
    have s': "s' = s1 \<or> ?free \<and> s' = ?set"
      using rest check_nip98_replay_cases by (metis nip98_replay_key_def)
    have new: "list_all (mark_lives ?L ?ms s') (gs_passed st)"
      using s' old mark_lives_set(1) [OF laws(1) c] by (auto simp: list_all_iff)
    show ?thesis
    proof (cases "is_ok r")
      case False
      then have "?st' = st\<lparr>gs_redis := s'\<rparr>" using door by (cases r) auto
      then show ?thesis using new apart by (simp add: marks_ok_def)
    next
      case True
      then have r: "r = Ok (ctx, pk, e)" and m: "check_nip98_replay D (flt 2) ctx e s1 = (Ok (), s')" using rest by auto
      have done_e: "?free \<and> s' = ?set" if "e \<noteq> ZERO_EVENT_ID"
        using check_nip98_replay_cases [OF m] that by (simp add: nip98_replay_key_def)
      have st': "?st' = st\<lparr>gs_redis := s', gs_passed := gs_passed st @ [HttpPassed ?ms ?c pk e]\<rparr>" using door r by simp
      have "mark_lives ?L ?ms s' (HttpPassed ?ms ?c pk e)"
        using done_e mark_lives_new [OF laws(1) c] c by (cases "e = ZERO_EVENT_ID") (auto simp: mark_lives_def)
      moreover have "replay_apart p (HttpPassed ?ms ?c pk e)" if "p \<in> set (gs_passed st)" for p
      proof (cases "e = ZERO_EVENT_ID")
        case True
        then show ?thesis by (simp add: replay_apart_def split: passed.splits)
      next
        case False
        have "mark_lives ?L ?ms s1 p" using old that by (simp add: list_all_iff)
        then show ?thesis by (rule mark_lives_set(2) [OF laws(1) c _ _ False]) (simp add: done_e [OF False])
      qed
      ultimately show ?thesis unfolding st' using new apart by (simp add: marks_ok_def sorted_wrt_append)
    qed
  qed
qed

lemma ws_marks:
  assumes laws: "limiter_laws (dr_limiter D)" and c: "uuid_text (tn_community (cn_tenant conn))"
    and ok: "counters_ok (dr_limiter D) N (gs_redis st)" and N: "int (Suc N) < 99999999999999"
    and marks: "marks_ok (dr_limiter D) st"
  shows "marks_ok (dr_limiter D) (gate_step D st (GoWs flt m conn))"
proof -
  let ?L = "dr_limiter D"
  obtain b frames s' where door: "enforce_ws_admission D flt m conn (gs_redis st) = ((b, frames), s')"
    by (metis prod.exhaust)
  have w: "as_i64 WS_BURST_WINDOW_SECS = int (window_of LtWsEvents)" "as_i64 60 = int (window_of LtMessages)" by simp_all
  have l: "unat (saturating_mul (human_ws_events_per_sec (dr_rates D)) WS_BURST_WINDOW_SECS) \<le> limit_of (dr_rates D) LtWsEvents"
    by (simp only: ws_limit)
  have N': "int N < 99999999999999" using N by simp
  have same: "marks_same ?L (gs_redis st) s'"
    using ws_admission_cases [OF door, of 0]
  proof
    assume "s' = gs_redis st \<and> ws_passed 0 m conn b = []"
    then show ?thesis by simp
  next
    assume "\<exists>ctx r1 s1. cn_auth conn = Authenticated ctx \<and> is_limited m
         \<and> check_principal ?L (flt 0) (flt 1) (cn_tenant conn) (ac_pubkey ctx) LtWsEvents WS_BURST_WINDOW_SECS
             (saturating_mul (human_ws_events_per_sec (dr_rates D)) WS_BURST_WINDOW_SECS) (gs_redis st) = (r1, s1)
         \<and> (\<not> b \<and> s' = s1 \<or> r1 = Ok () \<and> \<not> is_event m \<and> b \<and> s' = s1
            \<or> r1 = Ok () \<and> is_event m \<and> (\<exists>r2. check_principal ?L (flt 2) (flt 3) (cn_tenant conn) (ac_pubkey ctx)
                  LtMessages 60 (message_limit (dr_rates D) ctx) s1 = (r2, s') \<and> b = (r2 = Ok ())))"
    then obtain ctx r1 s1 where
        p: "check_principal ?L (flt 0) (flt 1) (cn_tenant conn) (ac_pubkey ctx) LtWsEvents WS_BURST_WINDOW_SECS
             (saturating_mul (human_ws_events_per_sec (dr_rates D)) WS_BURST_WINDOW_SECS) (gs_redis st) = (r1, s1)"
        and rest: "s' = s1 \<or> (\<exists>r2. check_principal ?L (flt 2) (flt 3) (cn_tenant conn) (ac_pubkey ctx)
                  LtMessages 60 (message_limit (dr_rates D) ctx) s1 = (r2, s'))" by blast
    note q1 = principal_step [OF laws w(1) l c ok N' p]
    show ?thesis using rest
    proof
      assume "\<exists>r2. check_principal ?L (flt 2) (flt 3) (cn_tenant conn) (ac_pubkey ctx)
                  LtMessages 60 (message_limit (dr_rates D) ctx) s1 = (r2, s')"
      then obtain r2 where "check_principal ?L (flt 2) (flt 3) (cn_tenant conn) (ac_pubkey ctx)
                  LtMessages 60 (message_limit (dr_rates D) ctx) s1 = (r2, s')" ..
      from principal_step(2) [OF laws w(2) message_limit_bound c q1(1) N this] show ?thesis
        by (rule marks_same_trans [OF q1(2)])
    qed (use q1(2) in simp)
  qed
  have "mark_lives ?L ms s p" if "p \<in> set (ws_passed t m conn b)" for ms s p t
    using that by (auto simp: ws_passed_def mark_lives_def split: AuthState.splits if_splits)
  moreover have "sorted_wrt replay_apart (ws_passed t m conn b)" for t
    by (auto simp: ws_passed_def split: AuthState.splits)
  moreover have "replay_apart p q" if "q \<in> set (ws_passed t m conn b)" for p q t
    using that by (auto simp: ws_passed_def replay_apart_def split: AuthState.splits if_splits passed.splits)
  ultimately show ?thesis
    using door marks mark_lives_same [OF same] by (auto simp: marks_ok_def list_all_iff sorted_wrt_append)
qed

lemma step_marks:
  assumes laws: "limiter_laws (dr_limiter D)" "resolver_uuids D" and "op_ok op"
    and ok: "counters_ok (dr_limiter D) N (gs_redis st)" and N: "int (Suc N) < 99999999999999"
    and marks: "marks_ok (dr_limiter D) st"
  shows "marks_ok (dr_limiter D) (gate_step D st op)"
proof (cases op)
  case (GoHttp flt path headers host body)
  then show ?thesis using http_marks [OF laws ok _ marks] N by simp
next
  case (GoWs flt m conn)
  then show ?thesis using ws_marks [OF laws(1) _ ok N marks] \<open>op_ok op\<close> by simp
next
  case (GoElapse d)
  then show ?thesis using marks mark_lives_elapse [OF laws(1)] by (auto simp: marks_ok_def list_all_iff)
qed

lemma run_marks:
  assumes laws: "limiter_laws (dr_limiter D)" "resolver_uuids D"
  shows "list_all op_ok ops \<Longrightarrow> counters_ok (dr_limiter D) N (gs_redis st) \<Longrightarrow> int (N + 2 * length ops) < 99999999999999 \<Longrightarrow>
     marks_ok (dr_limiter D) st \<Longrightarrow> marks_ok (dr_limiter D) (gate_run D ops st)"
proof (induction ops arbitrary: st N)
  case (Cons op ops)
  let ?st = "gate_step D st op"
  have op: "op_ok op" "list_all op_ok ops" "int (Suc N) < 99999999999999" "int (N + 2 + 2 * length ops) < 99999999999999"
    using Cons.prems by simp_all
  have "step_pays D N (op_elapsed op) st ?st" by (rule step_pays_op [OF laws op(1) Cons.prems(2) op(3)])
  then have ok: "counters_ok (dr_limiter D) (N + 2) (gs_redis ?st)" by (simp add: step_pays_def)
  have "marks_ok (dr_limiter D) ?st" by (rule step_marks [OF laws op(1) Cons.prems(2) op(3) Cons.prems(4)])
  from Cons.IH [OF op(2) ok op(4) this] show ?case by (simp add: gate_run_def)
qed (simp add: gate_run_def)

lemma bridge_auth_event:
  assumes "verify_bridge_auth E now headers meth url body req = Ok (pk, e)"
  shows "e = ZERO_EVENT_ID
    \<or> (\<exists>ev. ae_verify_id E ev \<and> ev_id ev = e \<and> abs_diff now (ev_created_at ev) \<le> TIMESTAMP_TOLERANCE_SECS)"
proof (cases "Option.bind (hd_authorization headers) (strip_prefix_str ''Nostr '')")
  case None
  then show ?thesis
    using assms by (auto simp: verify_bridge_auth_def verify_bridge_auth_with_options_def split: if_splits option.splits sum.splits)
next
  case (Some a)
  then obtain js ev pk' where ev: "ae_event_json E js = Ok ev" "verify_nip98_event E now js url meth body = Ok pk'" "e = ev_id ev"
    using assms by (auto simp: verify_bridge_auth_def verify_bridge_auth_with_options_def split: option.splits sum.splits)
  have "verify_http_event E now ev url meth body = Ok pk'" using ev by (simp add: verify_nip98_event_def)
  then have "ae_verify_id E ev \<and> abs_diff now (ev_created_at ev) \<le> TIMESTAMP_TOLERANCE_SECS"
    by (auto simp: verify_http_event_def verify_event_def Let_def split: if_splits)
  then show ?thesis using ev(3) by blast
qed

definition seen_in_time :: "'u auth_env \<Rightarrow> passed \<Rightarrow> bool" where
  "seen_in_time E p =
     (case p of
        HttpPassed t _ _ e \<Rightarrow> e = ZERO_EVENT_ID
          \<or> (\<exists>ev. ae_verify_id E ev \<and> ev_id ev = e \<and> abs_diff (t div 1000) (ev_created_at ev) \<le> TIMESTAMP_TOLERANCE_SECS)
      | _ \<Rightarrow> True)"

lemma step_seen:
  assumes "list_all (seen_in_time (dr_auth D)) (gs_passed st)"
  shows "list_all (seen_in_time (dr_auth D)) (gs_passed (gate_step D st op))"
proof (cases op)
  case (GoHttp flt path headers host body)
  obtain r s' where door: "http_door D flt (gs_ms st div 1000) path headers host body (gs_redis st) = (r, s')" by fastforce
  show ?thesis
  proof (cases r)
    case (Inl x)
    then show ?thesis using assms door GoHttp by simp
  next
    case (Inr a)
    obtain ctx pk e where r: "r = Ok (ctx, pk, e)" using Inr by (cases a) auto
    then have "\<exists>url. verify_bridge_auth (dr_auth D) (gs_ms st div 1000) headers ''POST'' url (Some body)
        (rc_require_auth_token (dr_config D)) = Ok (pk, e)"
      using http_door_cases [OF door] by (elim disjE) auto
    then have "seen_in_time (dr_auth D) (HttpPassed (gs_ms st) (tn_community ctx) pk e)"
      using bridge_auth_event by (fastforce simp: seen_in_time_def)
    then show ?thesis using assms door GoHttp r by simp
  qed
next
  case (GoWs flt m conn)
  obtain b frames s' where door: "enforce_ws_admission D flt m conn (gs_redis st) = ((b, frames), s')"
    by (metis prod.exhaust)
  have "list_all (seen_in_time (dr_auth D)) (ws_passed t m conn b)" for t
    by (auto simp: ws_passed_def seen_in_time_def split: AuthState.splits)
  then show ?thesis using assms door GoWs by simp
qed (use assms in simp)

lemma run_seen:
  "list_all (seen_in_time (dr_auth D)) (gs_passed st) \<Longrightarrow> list_all (seen_in_time (dr_auth D)) (gs_passed (gate_run D ops st))"
proof (induction ops arbitrary: st)
  case (Cons op ops)
  from Cons.IH [OF step_seen [OF Cons.prems, of op]] show ?case by (simp add: gate_run_def)
qed (simp add: gate_run_def)

fun pass_time :: "CommunityId \<Rightarrow> string \<Rightarrow> passed \<Rightarrow> nat list" where
  "pass_time c e (HttpPassed t c' _ e') = (if c' = c \<and> e' = e then [t] else [])"
| "pass_time c e (WsPassed _ _ _ _) = []"

definition pass_times :: "CommunityId \<Rightarrow> string \<Rightarrow> passed list \<Rightarrow> nat list" where
  "pass_times c e ps = concat (map (pass_time c e) ps)"

lemma pass_time_member: "t \<in> set (pass_time c e p) \<Longrightarrow> \<exists>pk. p = HttpPassed t c pk e"
  by (cases p) (auto split: if_splits)

lemma pass_times_apart:
  assumes "sorted_wrt replay_apart ps" "e \<noteq> ZERO_EVENT_ID"
  shows "sorted_wrt (\<lambda>t t'. t + 120000 \<le> t') (pass_times c e ps)"
  using assms(1)
proof (induction ps)
  case (Cons p ps)
  have "t + 120000 \<le> t'" if a: "t \<in> set (pass_time c e p)" and b: "t' \<in> set (pass_times c e ps)" for t t'
  proof -
    obtain pk where p: "p = HttpPassed t c pk e" using pass_time_member [OF a] by blast
    obtain q where q: "q \<in> set ps" "t' \<in> set (pass_time c e q)" using b by (auto simp: pass_times_def)
    then obtain pk' where "q = HttpPassed t' c pk' e" using pass_time_member by blast
    then show ?thesis using Cons.prems p q(1) assms(2) by (auto simp: replay_apart_def)
  qed
  moreover have "sorted_wrt R (pass_time c e p)" for R by (cases p) auto
  ultimately show ?case using Cons by (auto simp: pass_times_def sorted_wrt_append)
qed (simp add: pass_times_def)

lemma pass_times_seen:
  assumes "list_all (seen_in_time E) ps" "e \<noteq> ZERO_EVENT_ID" "t \<in> set (pass_times c e ps)"
  shows "\<exists>ev. ae_verify_id E ev \<and> ev_id ev = e \<and> abs_diff (t div 1000) (ev_created_at ev) \<le> 60"
proof -
  obtain p where p: "p \<in> set ps" "t \<in> set (pass_time c e p)" using assms(3) by (auto simp: pass_times_def)
  then obtain pk where "p = HttpPassed t c pk e" using pass_time_member by blast
  then show ?thesis using assms(1,2) p(1) by (auto simp: list_all_iff seen_in_time_def TIMESTAMP_TOLERANCE_SECS_def)
qed

lemma two_in_window:
  assumes "sorted_wrt (\<lambda>t t'. t + 120000 \<le> t') ts" "\<And>t. t \<in> set ts \<Longrightarrow> abs_diff (t div 1000) c \<le> 60"
  shows "length ts \<le> 2 \<and> (length ts = 2 \<longrightarrow> hd ts div 1000 + 60 = c \<and> last ts div 1000 = c + 60)"
proof -
  have window: "t div 1000 \<le> c + 60" "c \<le> t div 1000 + 60" if "t \<in> set ts" for t
    using assms(2) [OF that] by (auto simp: abs_diff_def split: if_splits)
  show ?thesis
  proof (cases ts)
    case (Cons a us)
    show ?thesis
    proof (cases us)
      case us: (Cons b vs)
      have ab: "a + 120000 \<le> b" using assms(1) Cons us by simp
      then have far: "a div 1000 + 120 \<le> b div 1000" by linarith
      have "vs = []"
      proof (rule ccontr)
        assume "vs \<noteq> []"
        then obtain d ds where vs: "vs = d # ds" by (cases vs) auto
        have "b + 120000 \<le> d" using assms(1) Cons us vs by simp
        then have "b div 1000 + 120 \<le> d div 1000" by linarith
        then show False using far window [of a] window [of d] Cons us vs by simp
      qed
      then show ?thesis using far window [of a] window [of b] Cons us by simp
    qed (simp add: Cons)
  qed simp
qed

text \<open>
  C34. A signed HTTP request is good for one use, except at the very ends of its window: over any run of all doors, with lost
  commands and any other traffic, a request that carries the event \<open>ev\<close> passes at most twice in a community, and twice only
  when it first passes in the first second it is valid (its creation time less 60) and again in the last one (plus 60).
\<close>

theorem signed_request_uses:
  assumes "limiter_laws (dr_limiter D)" "resolver_uuids D" "list_all op_ok ops"
    and "counters_ok (dr_limiter D) 0 s" and "int (2 * length ops) < 99999999999999"
    and "ev_id ev \<noteq> ZERO_EVENT_ID"
    and "\<And>ev'. ae_verify_id (dr_auth D) ev' \<Longrightarrow> ev_id ev' = ev_id ev \<Longrightarrow> ev_created_at ev' = ev_created_at ev"
  shows "let ts = pass_times c (ev_id ev) (gs_passed (gate_run D ops \<lparr>gs_ms = t0, gs_redis = s, gs_passed = []\<rparr>))
    in length ts \<le> 2 \<and> (length ts = 2 \<longrightarrow> hd ts div 1000 + 60 = ev_created_at ev \<and> last ts div 1000 = ev_created_at ev + 60)"
proof -
  let ?st = "\<lparr>gs_ms = t0, gs_redis = s, gs_passed = []\<rparr>"
  have "marks_ok (dr_limiter D) ?st" by (simp add: marks_ok_def)
  then have "marks_ok (dr_limiter D) (gate_run D ops ?st)"
    using run_marks [OF assms(1-3), of 0 ?st] assms(4,5) by simp
  then have apart: "sorted_wrt (\<lambda>t t'. t + 120000 \<le> t') (pass_times c (ev_id ev) (gs_passed (gate_run D ops ?st)))"
    by (intro pass_times_apart assms(6)) (simp add: marks_ok_def)
  have seen: "list_all (seen_in_time (dr_auth D)) (gs_passed (gate_run D ops ?st))" by (rule run_seen) simp
  have "abs_diff (t div 1000) (ev_created_at ev) \<le> 60"
    if "t \<in> set (pass_times c (ev_id ev) (gs_passed (gate_run D ops ?st)))" for t
    using pass_times_seen [OF seen assms(6) that] assms(7) by auto
  from two_in_window [OF apart this] show ?thesis unfolding Let_def .
qed

section \<open>When a replay passes\<close>

lemma http_event_later:
  assumes "verify_http_event E now e url meth body = Ok pk"
  shows "verify_http_event E now' e url meth body = Ok pk \<longleftrightarrow> abs_diff now' (ev_created_at e) \<le> TIMESTAMP_TOLERANCE_SECS"
    "is_ok (verify_http_event E now' e url meth body) \<longleftrightarrow> abs_diff now' (ev_created_at e) \<le> TIMESTAMP_TOLERANCE_SECS"
  using assms by (auto simp: verify_http_event_def Let_def split: sum.splits option.splits if_splits)

text \<open>The clock decides nothing about a signed request but whether it is in its window.\<close>

lemma bridge_auth_later:
  assumes "verify_bridge_auth E now headers meth url body req = Ok (pk, e)" "e \<noteq> ZERO_EVENT_ID"
  shows "\<exists>ev. ae_verify_id E ev \<and> ev_id ev = e \<and> abs_diff now (ev_created_at ev) \<le> 60
    \<and> (\<forall>now'. is_ok (verify_bridge_auth E now' headers meth url body req) \<longleftrightarrow> abs_diff now' (ev_created_at ev) \<le> 60)
    \<and> (\<forall>now'. abs_diff now' (ev_created_at ev) \<le> 60 \<longrightarrow> verify_bridge_auth E now' headers meth url body req = Ok (pk, e))"
proof (cases "Option.bind (hd_authorization headers) (strip_prefix_str ''Nostr '')")
  case None
  then show ?thesis
    using assms by (auto simp: verify_bridge_auth_def verify_bridge_auth_with_options_def split: if_splits option.splits sum.splits)
next
  case (Some a)
  then obtain bs js ev where js: "ae_base64 E a = Some bs" "ae_utf8 E bs = Some js" "ae_event_json E js = Ok ev"
      "verify_nip98_event E now js url meth body = Ok pk" "e = ev_id ev"
    using assms(1) by (auto simp: verify_bridge_auth_def verify_bridge_auth_with_options_def split: option.splits sum.splits)
  then have http: "verify_http_event E now ev url meth body = Ok pk" by (simp add: verify_nip98_event_def)
  have later: "verify_bridge_auth E now' headers meth url body req
      = (case verify_http_event E now' ev url meth body of
           Inl x \<Rightarrow> Err (unauthorized (''NIP-98: '' @ AuthError_display E x)) | Inr pk \<Rightarrow> Ok (pk, e))" for now'
    using Some js by (simp add: verify_bridge_auth_def verify_bridge_auth_with_options_def verify_nip98_event_def split: sum.split)
  have id: "ae_verify_id E ev"
    using http by (auto simp: verify_http_event_def verify_event_def Let_def split: if_splits)
  have "abs_diff now (ev_created_at ev) \<le> 60"
    using http_event_later(1) [OF http, of now] http by (simp add: TIMESTAMP_TOLERANCE_SECS_def)
  moreover have "is_ok (verify_bridge_auth E now' headers meth url body req) \<longleftrightarrow> abs_diff now' (ev_created_at ev) \<le> 60" for now'
    using http_event_later(2) [OF http, of now'] unfolding later
    by (cases "verify_http_event E now' ev url meth body") (simp_all add: TIMESTAMP_TOLERANCE_SECS_def)
  moreover have "verify_bridge_auth E now' headers meth url body req = Ok (pk, e)" if "abs_diff now' (ev_created_at ev) \<le> 60" for now'
    using http_event_later(1) [OF http, of now'] that unfolding later by (simp add: TIMESTAMP_TOLERANCE_SECS_def)
  ultimately show ?thesis using id js(5) by blast
qed

lemma first_of_window:
  assumes "limiter_laws L" "0 < W" "W \<le> 60" "as_i64 w = int W" "rd_get (lm_redis L) s k = None" "0 < unat l"
  shows "passes (fst (run_rate_limit L NoFault NoFault k w l s))"
proof -
  obtain n s' where n: "n \<le> 0" "rate_limit_script L k (int W) s = (Ok (Suc n, redis_ttl L k s'), s')" "bumped L k (W * 1000) n s s'"
    using script_bumps [OF assms(1-3), of k 0 s] assms(5) by (auto simp: counter_ok_def)
  then have "rd_ttl (lm_redis L) s' k \<noteq> None" by (auto simp: bumped_def)
  then have "\<not> redis_ttl L k s' < 0" using ttl_negative [of L s' k] n(3) by (simp add: bumped_def)
  then show ?thesis
    using n assms(4,6) by (simp add: run_rate_limit_def lossy_def passes_def rl_allow_def)
qed

text \<open>A quota counter never outlives its window.\<close>

definition api_window_ok :: "'s limiter_env \<Rightarrow> TenantContext \<Rightarrow> PublicKey \<Rightarrow> 's \<Rightarrow> bool" where
  "api_window_ok L ctx pk s =
     (case rd_ttl (lm_redis L) s (rate_limit_key ctx pk LtApiCalls) of None \<Rightarrow> True | Some t \<Rightarrow> t \<le> 60000)"

lemma passed_leaves:
  assumes laws: "limiter_laws (dr_limiter D)" "resolver_uuids D" and ok: "counters_ok (dr_limiter D) N s" "int N < 99999999999999"
    and pass: "http_door D (\<lambda>_. NoFault) now path headers host body s = (Ok (ctx, pk, e), s')" "e \<noteq> ZERO_EVENT_ID"
    and ttl: "api_window_ok (dr_limiter D) ctx pk s"
  defines "R \<equiv> lm_redis (dr_limiter D)" and "k \<equiv> rate_limit_key ctx pk LtApiCalls"
  shows "bind_community (dr_resolve D) (unwrap_or host []) = Ok ctx" "uuid_text (tn_community ctx)"
    "verify_bridge_auth (dr_auth D) now headers ''POST'' (nip98_expected_url (rc_relay_url (dr_config D)) ctx path) (Some body)
       (rc_require_auth_token (dr_config D)) = Ok (pk, e)"
    "0 < unat (human_api_calls_per_min (dr_rates D))" "\<exists>t\<le>60000. rd_ttl R s' k = Some t"
    "rd_get R s' (nip98_replay_key ctx e) \<noteq> None" "rd_ttl R s' (nip98_replay_key ctx e) = Some 120000"
    "counter_ok (dr_limiter D) k (Suc N) s'"
proof -
  obtain r1 s1 r2 where bind: "bind_community (dr_resolve D) (unwrap_or host []) = Ok ctx"
    and v: "verify_bridge_auth (dr_auth D) now headers ''POST'' (nip98_expected_url (rc_relay_url (dr_config D)) ctx path) (Some body)
       (rc_require_auth_token (dr_config D)) = Ok (pk, e)"
    and p: "check_principal (dr_limiter D) NoFault NoFault ctx pk LtApiCalls 60 (human_api_calls_per_min (dr_rates D)) s = (r1, s1)"
      "r1 = Ok ()" and m: "check_nip98_replay D NoFault ctx e s1 = (r2, s')" "r2 = Ok ()"
    using http_door_cases [OF pass(1)] by auto
  show "bind_community (dr_resolve D) (unwrap_or host []) = Ok ctx" by (rule bind)
  show c: "uuid_text (tn_community ctx)" by (rule bound_uuid [OF laws(2) bind])
  show "verify_bridge_auth (dr_auth D) now headers ''POST'' (nip98_expected_url (rc_relay_url (dr_config D)) ctx path) (Some body)
       (rc_require_auth_token (dr_config D)) = Ok (pk, e)" by (rule v)
  obtain x where x: "run_rate_limit (dr_limiter D) NoFault NoFault k 60 (human_api_calls_per_min (dr_rates D)) s = (x, s1)" "passes x"
    using p by (auto simp: check_principal_def check_and_increment_def passes_def k_def split: prod.splits sum.splits if_splits)
  have "counter_ok (dr_limiter D) k N s" using ok(1) c by (simp add: counters_ok_def k_def)
  from run_rate_limit_cases [OF laws(1) _ _ _ this ok(2) x(1), of 60] x(2) obtain n where
    n: "n \<le> N" "bumped (dr_limiter D) k 60000 n s s1" "Suc n \<le> unat (human_api_calls_per_min (dr_rates D))" "rd_ttl R s1 k \<noteq> None"
    by (auto simp: R_def)
  then show "0 < unat (human_api_calls_per_min (dr_rates D))" by simp
  have "\<exists>t\<le>60000. rd_ttl R s1 k = Some t"
    using n(2,4) ttl by (auto simp: bumped_def api_window_ok_def R_def k_def split: if_splits option.splits)
  moreover have same: "same_key (dr_limiter D) k s1 s'" unfolding k_def by (rule replay_keeps_quota [OF laws(1) c c m(1)])
  ultimately show "\<exists>t\<le>60000. rd_ttl R s' k = Some t" by (simp add: same_key_def R_def)
  show "counter_ok (dr_limiter D) k (Suc N) s'"
    using n(1,2) same_key_counter [OF same] by (auto simp: bumped_def counter_ok_def)
  have "s' = rd_set_px R s1 (nip98_replay_key ctx e) ''1'' 120000"
    using check_nip98_replay_cases [OF m(1)] m(2) pass(2) by (simp add: R_def)
  moreover have "redis_laws R" using laws(1) by (simp add: limiter_laws_def R_def)
  ultimately show "rd_get R s' (nip98_replay_key ctx e) \<noteq> None" "rd_ttl R s' (nip98_replay_key ctx e) = Some 120000"
    by (simp_all add: redis_get)
qed

text \<open>
  C35. Exactly when a replay passes. A signed request passes the HTTP door; the same request is sent again \<open>d\<close> milliseconds
  later, with nothing in between and no command lost. It passes again if and only if 120 seconds have gone by (its mark
  is gone) and its window is still open, that is, the clock reads at most its creation time plus 60. Since seconds are
  whole, a request first used in the first second of its window does pass again in its last one. This holds for every
  Redis that keeps its laws, every configuration and every signed request; a quota counter never outlives its window.
\<close>

theorem replay_passes_exactly:
  assumes "limiter_laws (dr_limiter D)" "resolver_uuids D" "counters_ok (dr_limiter D) N s" "int (Suc N) < 99999999999999"
    and "http_door D (\<lambda>_. NoFault) (ms div 1000) path headers host body s = (Ok (ctx, pk, e), s')" "e \<noteq> ZERO_EVENT_ID"
    and "api_window_ok (dr_limiter D) ctx pk s"
  shows "\<exists>ev. ae_verify_id (dr_auth D) ev \<and> ev_id ev = e \<and> abs_diff (ms div 1000) (ev_created_at ev) \<le> 60
    \<and> (\<forall>d. is_ok (fst (http_door D (\<lambda>_. NoFault) ((ms + d) div 1000) path headers host body
                          (rd_elapse (lm_redis (dr_limiter D)) s' d)))
         \<longleftrightarrow> 120000 \<le> d \<and> (ms + d) div 1000 \<le> ev_created_at ev + 60)"
proof -
  let ?R = "lm_redis (dr_limiter D)" and ?k = "rate_limit_key ctx pk LtApiCalls" and ?m = "nip98_replay_key ctx e"
  let ?v = "\<lambda>now. verify_bridge_auth (dr_auth D) now headers ''POST'' (nip98_expected_url (rc_relay_url (dr_config D)) ctx path)
    (Some body) (rc_require_auth_token (dr_config D))"
  have N: "int N < 99999999999999" using assms(4) by simp
  note left = passed_leaves [OF assms(1-3) N assms(5-7)]
  have R: "redis_laws ?R" using assms(1) by (simp add: limiter_laws_def)
  obtain ev where ev: "ae_verify_id (dr_auth D) ev" "ev_id ev = e" "abs_diff (ms div 1000) (ev_created_at ev) \<le> 60"
    and later: "\<And>now. is_ok (?v now) \<longleftrightarrow> abs_diff now (ev_created_at ev) \<le> 60"
      "\<And>now. abs_diff now (ev_created_at ev) \<le> 60 \<Longrightarrow> ?v now = Ok (pk, e)"
    using bridge_auth_later [OF left(3) assms(6)] by blast
  have "is_ok (fst (http_door D (\<lambda>_. NoFault) ((ms + d) div 1000) path headers host body (rd_elapse ?R s' d)))
      \<longleftrightarrow> 120000 \<le> d \<and> (ms + d) div 1000 \<le> ev_created_at ev + 60" for d
  proof -
    let ?now = "(ms + d) div 1000" and ?s = "rd_elapse ?R s' d"
    obtain r s2 where door: "http_door D (\<lambda>_. NoFault) ?now path headers host body ?s = (r, s2)" by fastforce
    obtain r1 s1 where p: "check_principal (dr_limiter D) NoFault NoFault ctx pk LtApiCalls 60 (human_api_calls_per_min (dr_rates D)) ?s
      = (r1, s1)" by fastforce
    obtain x where x: "run_rate_limit (dr_limiter D) NoFault NoFault ?k 60 (human_api_calls_per_min (dr_rates D)) ?s = (x, s1)"
        "passes x \<Longrightarrow> r1 = Ok ()"
      using p by (auto simp: check_principal_def check_and_increment_def passes_def split: prod.splits sum.splits if_splits)
    have "same_key (dr_limiter D) ?m ?s s1"
      using run_rate_limit_quota(2) [OF assms(1) _ _ _ elapse_counter [OF assms(1) left(8)] assms(4) x(1), of 60 ?m]
        replay_key_not_quota [OF left(2,2)] by (simp add: nip98_replay_key_def)
    then have mark: "rd_get ?R s1 ?m = None \<longleftrightarrow> 120000 \<le> d"
      using left(6,7) by (simp add: same_key_def redis_get [OF R])
    show ?thesis
    proof (cases "120000 \<le> d \<and> ?now \<le> ev_created_at ev + 60")
      case True
      have "abs_diff ?now (ev_created_at ev) \<le> 60"
        using ev(3) True by (auto simp: abs_diff_def split: if_splits)
      then have v: "?v ?now = Ok (pk, e)" by (rule later)
      have "rd_get ?R ?s ?k = None" using left(5) True by (auto simp: redis_get [OF R])
      then have "passes (fst (run_rate_limit (dr_limiter D) NoFault NoFault ?k 60 (human_api_calls_per_min (dr_rates D)) ?s))"
        using left(4) by (intro first_of_window [OF assms(1), of 60]) simp_all
      then have "r1 = Ok ()" using x by simp
      moreover have "fst (check_nip98_replay D NoFault ctx e s1) = Ok ()"
        using assms(6) mark True
        by (simp add: check_nip98_replay_def try_mark_def try_mark_in_scope_def lossy_def set_nx_ex_def nip98_replay_key_def)
      ultimately show ?thesis
        using True left(1) v p
        by (auto simp: http_door_def authed_gate_def enforce_http_admission_def split: prod.splits sum.splits)
    next
      case False
      have "\<not> is_ok r"
      proof
        assume "is_ok r"
        then obtain ctx' pk' e' s1' r2 where c': "bind_community (dr_resolve D) (unwrap_or host []) = Ok ctx'"
          and v': "verify_bridge_auth (dr_auth D) ?now headers ''POST'' (nip98_expected_url (rc_relay_url (dr_config D)) ctx' path)
             (Some body) (rc_require_auth_token (dr_config D)) = Ok (pk', e')"
          and p': "check_principal (dr_limiter D) NoFault NoFault ctx' pk' LtApiCalls 60 (human_api_calls_per_min (dr_rates D)) ?s = (Ok (), s1')"
          and m': "check_nip98_replay D NoFault ctx' e' s1' = (Ok (), s2)"
          using http_door_cases [OF door] by auto
        have ctx: "ctx' = ctx" using c' left(1) by simp
        then have near: "abs_diff ?now (ev_created_at ev) \<le> 60" using later(1) [of ?now] v' by simp
        then have "pk' = pk" "e' = e" using later(2) [OF near] v' ctx by simp_all
        then have "rd_get ?R s1 ?m = None"
          using check_nip98_replay_cases [OF m'] p p' ctx assms(6) by simp
        then show False using mark near False by (auto simp: abs_diff_def split: if_splits)
      qed
      then show ?thesis using door False by simp
    qed
  qed
  then show ?thesis using ev by blast
qed

section \<open>Sample runs\<close>

definition sample_limiter :: "(string \<Rightarrow> (string \<times> nat option) option) limiter_env" where
  "sample_limiter =
     \<lparr>lm_redis = sample_redis, lm_ttl_secs = (\<lambda>ms. (ms + 500) div 1000), lm_expire_max = 9223372036854775,
      lm_incr_error = ''ERR increment or decrement would overflow'', lm_expire_error = ''ERR invalid expire time''\<rparr>"

definition sample_http_event :: SignedEvent where
  "sample_http_event =
     \<lparr>ev_id = ''e1'', ev_pubkey = sample_agent, ev_created_at = 1060, ev_kind = KIND_HTTP_AUTH,
      ev_tags = [\<lparr>tag_kind = ''u'', tag_content = Some ''https://r.io/events'', tag_slice = []\<rparr>,
        \<lparr>tag_kind = ''method'', tag_content = Some ''POST'', tag_slice = []\<rparr>],
      ev_content = [], ev_sig = []\<rparr>"

definition sample_http_env :: "unit auth_env" where
  "sample_http_env = sample_auth_env\<lparr>ae_base64 := \<lambda>_. Some [], ae_utf8 := \<lambda>_. Some [], ae_event_json := \<lambda>_. Ok sample_http_event,
     ae_verify_id := \<lambda>ev. ev = sample_http_event\<rparr>"

definition sample_doors :: "(unit, string \<Rightarrow> (string \<times> nat option) option, unit) doors" where
  "sample_doors =
     \<lparr>dr_auth = sample_http_env,
      dr_wire = \<lparr>we_json_parse = (\<lambda>_. Err []), we_json_show = sample_json_show, we_event = (\<lambda>_. Err []),
        we_event_value = (\<lambda>_. Null), we_filter = (\<lambda>_. Err [])\<rparr>,
      dr_limiter = sample_limiter, dr_config = sample_relay_config, dr_rates = default_rate_limits,
      dr_resolve = (\<lambda>h. if h = ''r.io'' then Ok (Some ''c1'') else Ok None)\<rparr>"

definition sample_request :: gate_op where
  "sample_request =
     GoHttp (\<lambda>_. NoFault) ''/events'' \<lparr>hd_authorization = Some ''Nostr e30='', hd_x_pubkey = None, hd_x_auth_tag = None\<rparr>
       (Some ''r.io'') []"

lemma sample_limiter_laws: "limiter_laws (dr_limiter sample_doors)"
  using sample_redis_laws by (simp add: limiter_laws_def sample_doors_def sample_limiter_def)

lemma sample_resolver: "resolver_uuids sample_doors"
  by (simp add: resolver_uuids_def sample_doors_def uuid_text_def)

lemma sample_counters: "counters_ok (dr_limiter sample_doors) 0 (\<lambda>_. None)"
  by (simp add: counters_ok_def counter_ok_def sample_doors_def sample_limiter_def sample_redis_def)

lemma sample_bind: "bind_community (dr_resolve sample_doors) ''r.io'' = Ok \<lparr>tn_community = ''c1'', tn_host = ''r.io''\<rparr>"
proof -
  have "normalize_host ''r.io'' = ''r.io''" by code_simp
  then show ?thesis by (simp add: bind_community_def sample_doors_def)
qed

lemma sample_verify:
  assumes "1000 \<le> now" "now \<le> 1120"
  shows "verify_bridge_auth sample_http_env now \<lparr>hd_authorization = Some ''Nostr e30='', hd_x_pubkey = None, hd_x_auth_tag = None\<rparr> ''POST''
     (nip98_expected_url (rc_relay_url sample_relay_config) \<lparr>tn_community = ''c1'', tn_host = ''r.io''\<rparr> ''/events'') (Some []) r
   = Ok (sample_agent, ''e1'')"
proof -
  have url: "nip98_expected_url (rc_relay_url sample_relay_config) \<lparr>tn_community = ''c1'', tn_host = ''r.io''\<rparr> ''/events'' = ''https://r.io/events''"
    by code_simp
  have head: "strip_prefix_str ''Nostr '' ''Nostr e30='' = Some ''e30=''" by code_simp
  have meth: "eq_ignore_ascii_case ''POST'' ''POST''" by (simp add: eq_ignore_ascii_case_def)
  have time: "\<not> abs_diff now 1060 > 60" using assms by (auto simp: abs_diff_def)
  show ?thesis
    using time unfolding url
    by (simp add: verify_bridge_auth_def verify_bridge_auth_with_options_def head sample_http_env_def verify_nip98_event_def
        verify_http_event_def sample_http_event_def verify_event_def tag_value_def meth TIMESTAMP_TOLERANCE_SECS_def sample_auth_env_def
        normalize_url_def)
qed

lemma sample_pass:
  assumes "1000 \<le> now" "now \<le> 1120" and api: "s (rate_limit_key \<lparr>tn_community = ''c1'', tn_host = ''r.io''\<rparr> sample_agent LtApiCalls) = None"
    and mark: "s (nip98_replay_key_for_scope ''c1'' ''e1'') = None"
  shows "http_door sample_doors (\<lambda>_. NoFault) now ''/events'' \<lparr>hd_authorization = Some ''Nostr e30='', hd_x_pubkey = None, hd_x_auth_tag = None\<rparr>
      (Some ''r.io'') [] s
    = (Ok (\<lparr>tn_community = ''c1'', tn_host = ''r.io''\<rparr>, sample_agent, ''e1''),
       s(rate_limit_key \<lparr>tn_community = ''c1'', tn_host = ''r.io''\<rparr> sample_agent LtApiCalls \<mapsto> (''1'', Some 60000),
         nip98_replay_key_for_scope ''c1'' ''e1'' \<mapsto> (''1'', Some 120000)))"
proof -
  let ?k = "rate_limit_key \<lparr>tn_community = ''c1'', tn_host = ''r.io''\<rparr> sample_agent LtApiCalls"
  let ?s = "s(?k \<mapsto> (''1'', Some 60000))"
  have "run_rate_limit sample_limiter NoFault NoFault ?k 60 300 s = (Ok (rl_allow 1 300 60), ?s)"
    using api by (simp add: run_rate_limit_def lossy_def rate_limit_script_def sample_limiter_def sample_redis_def redis_expire_def redis_ttl_def)
  then have quota: "enforce_http_admission sample_doors NoFault NoFault \<lparr>tn_community = ''c1'', tn_host = ''r.io''\<rparr> sample_agent s = (Ok (), ?s)"
    by (simp add: enforce_http_admission_def check_principal_def check_and_increment_def sample_doors_def default_rate_limits_def rl_allow_def)
  have "uuid_text ''c1''" by (simp add: uuid_text_def)
  then have "nip98_replay_key_for_scope ''c1'' ''e1'' \<noteq> ?k" using replay_key_not_quota by simp
  moreover have "''e1'' \<noteq> ZERO_EVENT_ID" by (simp add: ZERO_EVENT_ID_def numeral_eq_Suc)
  ultimately have "check_nip98_replay sample_doors NoFault \<lparr>tn_community = ''c1'', tn_host = ''r.io''\<rparr> ''e1'' ?s
      = (Ok (), ?s(nip98_replay_key_for_scope ''c1'' ''e1'' \<mapsto> (''1'', Some 120000)))"
    using mark by (simp add: check_nip98_replay_def try_mark_def try_mark_in_scope_def lossy_def set_nx_ex_def sample_doors_def
        sample_limiter_def sample_redis_def DEFAULT_REPLAY_TTL_SECS_def MAX_REPLAY_TTL_SECS_def)
  moreover have "dr_auth sample_doors = sample_http_env" "dr_config sample_doors = sample_relay_config"
    by (simp_all add: sample_doors_def)
  ultimately show ?thesis
    using quota sample_verify [OF assms(1,2)] by (simp add: http_door_def sample_bind authed_gate_def)
qed

theorem replay_passes_exactly_witness:
  "\<exists>ev. ae_verify_id sample_http_env ev \<and> ev_id ev = ''e1'' \<and> abs_diff 1000 (ev_created_at ev) \<le> 60
    \<and> (\<forall>d. is_ok (fst (http_door sample_doors (\<lambda>_. NoFault) ((1000000 + d) div 1000) ''/events''
            \<lparr>hd_authorization = Some ''Nostr e30='', hd_x_pubkey = None, hd_x_auth_tag = None\<rparr> (Some ''r.io'') []
            (rd_elapse sample_redis [rate_limit_key \<lparr>tn_community = ''c1'', tn_host = ''r.io''\<rparr> sample_agent LtApiCalls \<mapsto> (''1'', Some 60000),
               nip98_replay_key_for_scope ''c1'' ''e1'' \<mapsto> (''1'', Some 120000)] d)))
         \<longleftrightarrow> 120000 \<le> d \<and> (1000000 + d) div 1000 \<le> ev_created_at ev + 60)"
proof -
  have "http_door sample_doors (\<lambda>_. NoFault) (1000000 div 1000) ''/events''
      \<lparr>hd_authorization = Some ''Nostr e30='', hd_x_pubkey = None, hd_x_auth_tag = None\<rparr> (Some ''r.io'') [] (\<lambda>_. None)
    = (Ok (\<lparr>tn_community = ''c1'', tn_host = ''r.io''\<rparr>, sample_agent, ''e1''),
       [rate_limit_key \<lparr>tn_community = ''c1'', tn_host = ''r.io''\<rparr> sample_agent LtApiCalls \<mapsto> (''1'', Some 60000),
        nip98_replay_key_for_scope ''c1'' ''e1'' \<mapsto> (''1'', Some 120000)])"
    using sample_pass [of 1000 "\<lambda>_. None"] by simp
  moreover have "''e1'' \<noteq> ZERO_EVENT_ID" by (simp add: ZERO_EVENT_ID_def numeral_eq_Suc)
  moreover have "dr_auth sample_doors = sample_http_env" "lm_redis (dr_limiter sample_doors) = sample_redis"
    by (simp_all add: sample_doors_def sample_limiter_def)
  moreover from this have "api_window_ok (dr_limiter sample_doors) \<lparr>tn_community = ''c1'', tn_host = ''r.io''\<rparr> sample_agent (\<lambda>_. None)"
    by (simp add: api_window_ok_def sample_redis_def)
  ultimately show ?thesis
    using replay_passes_exactly [OF sample_limiter_laws sample_resolver sample_counters, of 1000000] by simp
qed

theorem quota_bounds_witness:
  "let st = gate_run sample_doors [sample_request] \<lparr>gs_ms = 1000000, gs_redis = \<lambda>_. None, gs_passed = []\<rparr>
   in admitted_count LtApiCalls ''c1'' sample_agent (gs_passed (gate_run sample_doors [GoElapse 120000, sample_request] st))
      \<le> admitted_count LtApiCalls ''c1'' sample_agent (gs_passed st) + 1200"
proof -
  have "uuid_text ''c1''" by (simp add: uuid_text_def)
  moreover have "list_all op_ok ([sample_request] @ [GoElapse 120000, sample_request])" by (simp add: sample_request_def)
  ultimately show ?thesis
    using quota_bounds [OF sample_limiter_laws sample_resolver _ _ sample_counters, of "''c1''" "[sample_request]" "[GoElapse 120000, sample_request]"
        1000000 LtApiCalls sample_agent]
    by (simp add: elapsed_def sample_request_def) (simp add: sample_doors_def default_rate_limits_def Let_def)
qed

theorem signed_request_uses_witness:
  "let ts = pass_times ''c1'' ''e1'' (gs_passed (gate_run sample_doors [sample_request, GoElapse 120000, sample_request]
        \<lparr>gs_ms = 1000000, gs_redis = \<lambda>_. None, gs_passed = []\<rparr>))
   in length ts \<le> 2 \<and> (length ts = 2 \<longrightarrow> hd ts div 1000 + 60 = 1060 \<and> last ts div 1000 = 1060 + 60)"
proof -
  have ops: "list_all op_ok [sample_request, GoElapse 120000, sample_request]" by (simp add: sample_request_def)
  have zero: "ev_id sample_http_event \<noteq> ZERO_EVENT_ID" by (simp add: sample_http_event_def ZERO_EVENT_ID_def numeral_eq_Suc)
  have unique: "ae_verify_id (dr_auth sample_doors) ev' \<Longrightarrow> ev_id ev' = ev_id sample_http_event
      \<Longrightarrow> ev_created_at ev' = ev_created_at sample_http_event" for ev'
    by (simp add: sample_doors_def sample_http_env_def)
  have at: "ev_id sample_http_event = ''e1''" "ev_created_at sample_http_event = 1060" by (simp_all add: sample_http_event_def)
  from signed_request_uses [OF sample_limiter_laws sample_resolver ops sample_counters _ zero unique, of "''c1''" 1000000]
  show ?thesis by (simp add: at)
qed

end
