(* ===== verification/GitManifest.thy ===== *)
theory GitManifest
  imports GitPolicy
begin

text \<open>
  \<^verbatim>\<open>crates/lenos-relay/src/api/git/manifest.rs\<close>, the pure parts of \<^verbatim>\<open>cas_publish.rs\<close> and \<^verbatim>\<open>transport.rs\<close> and
  \<^verbatim>\<open>manifest_event.rs\<close>: the manifest, which is the published state of a repository, with its validation and its
  canonical bytes; how the manifest of a push is composed from its parent; the names a request may use; the pkt-line
  frames, the advertisement built from a manifest, and the scan of a receive-pack report for a rejected ref; the
  tags of the ref-state event. A \<open>BTreeMap<String, String>\<close> is a list sorted by key (\<open>bt_ok\<close>), in the byte order of the
  strings. \<^verbatim>\<open>serde_json\<close> is the pair of functions of a \<open>manifest_codec\<close>.
\<close>

section \<open>Ordered maps and text\<close>

type_synonym 'v btree = "(string \<times> 'v) list"

fun bt_insert :: "string \<Rightarrow> 'v \<Rightarrow> 'v btree \<Rightarrow> 'v btree" where
  "bt_insert k v [] = [(k, v)]"
| "bt_insert k v ((k', v') # m) =
     (if k = k' then (k, v) # m
      else if k < k' then (k, v) # (k', v') # m
      else (k', v') # bt_insert k v m)"

definition bt_ok :: "'v btree \<Rightarrow> bool" where
  "bt_ok m = sorted_wrt (<) (map fst m)"

fun contains_str :: "string \<Rightarrow> string \<Rightarrow> bool" where
  "contains_str p [] = (p = [])"
| "contains_str p (c # s) = (prefix p (c # s) \<or> contains_str p s)"

text \<open>\<open>str::lines\<close>: the parts between newlines, without a carriage return at their ends; a final newline starts no line.\<close>

definition strip_cr :: "string \<Rightarrow> string" where
  "strip_cr l = (if l \<noteq> [] \<and> last l = CHR 0x0D then butlast l else l)"

definition str_lines :: "string \<Rightarrow> string list" where
  "str_lines s =
     (let ps = split_on (CHR 0x0A) s
      in map strip_cr (if last ps = [] then butlast ps else ps))"

text \<open>\<open>std::str::from_utf8\<close> succeeds on exactly these byte strings.\<close>

definition utf8_cont :: "nat \<Rightarrow> bool" where "utf8_cont b = (0x80 \<le> b \<and> b \<le> 0xBF)"

fun utf8_bytes :: "nat list \<Rightarrow> bool" where
  "utf8_bytes [] = True"
| "utf8_bytes (a # s) =
     (if a < 0x80 then utf8_bytes s
      else if 0xC2 \<le> a \<and> a \<le> 0xDF then
        (case s of b # t \<Rightarrow> utf8_cont b \<and> utf8_bytes t | _ \<Rightarrow> False)
      else if 0xE0 \<le> a \<and> a \<le> 0xEF then
        (case s of
           b # c # t \<Rightarrow>
             utf8_cont b \<and> utf8_cont c \<and> (a = 0xE0 \<longrightarrow> 0xA0 \<le> b) \<and> (a = 0xED \<longrightarrow> b \<le> 0x9F) \<and> utf8_bytes t
         | _ \<Rightarrow> False)
      else if 0xF0 \<le> a \<and> a \<le> 0xF4 then
        (case s of
           b # c # d # t \<Rightarrow>
             utf8_cont b \<and> utf8_cont c \<and> utf8_cont d \<and> (a = 0xF0 \<longrightarrow> 0x90 \<le> b) \<and> (a = 0xF4 \<longrightarrow> b \<le> 0x8F)
             \<and> utf8_bytes t
         | _ \<Rightarrow> False)
      else False)"

definition from_utf8 :: "string \<Rightarrow> string option" where
  "from_utf8 s = (if utf8_bytes (map of_char s) then Some s else None)"

section \<open>The manifest\<close>

definition MANIFEST_VERSION :: u32 where "MANIFEST_VERSION = 1"
definition MAX_MANIFEST_PACKS :: nat where "MAX_MANIFEST_PACKS = 128"
definition PACK_COMPACTION_THRESHOLD :: nat where "PACK_COMPACTION_THRESHOLD = MAX_MANIFEST_PACKS * 3 div 4"
definition MAX_MANIFEST_REFS :: nat where "MAX_MANIFEST_REFS = 10000"

record Manifest =
  mf_version :: u32
  mf_head :: string
  mf_refs :: "string btree"
  mf_packs :: "string list"
  mf_parent :: "string option"

datatype ManifestError =
    Serde
  | UnsupportedVersion u32
  | UnsafeRefName string
  | MalformedOid string string
  | EmptyHead
  | MalformedParent string
  | TooManyPacks nat
  | TooManyRefs nat
  | MalformedPackKey string

definition is_safe_refname :: "string \<Rightarrow> bool" where
  "is_safe_refname s =
     (prefix ''refs/'' s
      \<and> \<not> (contains_str ''..'' s \<or> contains_str ''//'' s \<or> prefix ''/'' s \<or> suffix ''/'' s)
      \<and> list_all (\<lambda>c. is_ascii_alphanumeric c \<or> c \<in> set ''/_.-'') s)"

definition is_hex_oid :: "string \<Rightarrow> bool" where
  "is_hex_oid s = ((length s = 40 \<or> length s = 64) \<and> list_all is_ascii_hexdigit s)"

definition is_manifest_digest :: "string \<Rightarrow> bool" where
  "is_manifest_digest s = (length s = 64 \<and> list_all (\<lambda>c. c \<in> set ''0123456789abcdef'') s)"

definition is_pack_key :: "string \<Rightarrow> bool" where
  "is_pack_key s = is_some_and (strip_prefix_str ''packs/'' s) is_manifest_digest"

definition strip_git :: "string \<Rightarrow> string" where
  "strip_git repo = unwrap_or (strip_suffix_str ''.git'' repo) repo"

definition pointer_key :: "uuid \<Rightarrow> string \<Rightarrow> string \<Rightarrow> string" where
  "pointer_key community owner repo =
     ''repos/'' @ community @ ''/'' @ owner @ ''/'' @ strip_git repo @ ''/pointer''"

fun validate_refs :: "string btree \<Rightarrow> (ManifestError, unit) result" where
  "validate_refs [] = Ok ()"
| "validate_refs ((refname, oid) # m) =
     (if \<not> is_safe_refname refname then Err (UnsafeRefName refname)
      else if \<not> is_hex_oid oid then Err (MalformedOid refname oid)
      else validate_refs m)"

fun validate_packs :: "string list \<Rightarrow> (ManifestError, unit) result" where
  "validate_packs [] = Ok ()"
| "validate_packs (p # ps) = (if \<not> is_pack_key p then Err (MalformedPackKey p) else validate_packs ps)"

definition validate_manifest :: "Manifest \<Rightarrow> (ManifestError, unit) result" where
  "validate_manifest m =
     (if length (mf_packs m) > MAX_MANIFEST_PACKS then Err (TooManyPacks (length (mf_packs m)))
      else if length (mf_refs m) > MAX_MANIFEST_REFS then Err (TooManyRefs (length (mf_refs m)))
      else if mf_head m = [] then Err EmptyHead
      else if \<not> is_safe_refname (mf_head m) then Err (UnsafeRefName (mf_head m))
      else (case validate_refs (mf_refs m) of
          Inl e \<Rightarrow> Err e
        | Inr _ \<Rightarrow>
            (case validate_packs (mf_packs m) of
               Inl e \<Rightarrow> Err e
             | Inr _ \<Rightarrow>
                 (case mf_parent m of
                    Some p \<Rightarrow> if \<not> is_manifest_digest p then Err (MalformedParent p) else Ok ()
                  | None \<Rightarrow> Ok ()))))"

record manifest_codec =
  mc_to_vec :: "Manifest \<Rightarrow> string option"
  mc_from_slice :: "string \<Rightarrow> Manifest option"

text \<open>\<open>Vec::sort\<close> and \<open>Vec::dedup\<close>, as every writer of a pack list applies them.\<close>

definition sort_dedup :: "string list \<Rightarrow> string list" where
  "sort_dedup ps = remdups_adj (sort ps)"

definition canonical_form :: "Manifest \<Rightarrow> Manifest" where
  "canonical_form m = m\<lparr>mf_packs := sort_dedup (mf_packs m)\<rparr>"

definition canonical_bytes :: "manifest_codec \<Rightarrow> Manifest \<Rightarrow> (ManifestError, string) result" where
  "canonical_bytes C m = ok_or (mc_to_vec C (canonical_form m)) Serde"

definition manifest_from_bytes :: "manifest_codec \<Rightarrow> string \<Rightarrow> (ManifestError, Manifest) result" where
  "manifest_from_bytes C b =
     (case mc_from_slice C b of
        None \<Rightarrow> Err Serde
      | Some m \<Rightarrow> if mf_version m \<noteq> MANIFEST_VERSION then Err (UnsupportedVersion (mf_version m)) else Ok m)"

section \<open>The manifest of a push\<close>

text \<open>\<open>cas_publish.rs\<close>: the refs of the workspace as \<^verbatim>\<open>git for-each-ref\<close> lists them, and its HEAD.\<close>

definition MAX_REF_SNAPSHOT_BYTES :: nat where "MAX_REF_SNAPSHOT_BYTES = 4 * 1024 * 1024"

text \<open>The loop over the lines; \<open>None\<close> is the refusal of too many refs.\<close>

fun snapshot_refs :: "string list \<Rightarrow> string btree \<Rightarrow> string btree option" where
  "snapshot_refs [] refs = Some refs"
| "snapshot_refs (line # ls) refs =
     (case split_once CHR '' '' line of
        None \<Rightarrow> snapshot_refs ls refs
      | Some (name, oid) \<Rightarrow>
          if length oid \<noteq> 40 \<or> \<not> list_all is_ascii_hexdigit oid then snapshot_refs ls refs
          else if length refs \<ge> MAX_MANIFEST_REFS \<and> map_of refs name = None then None
          else snapshot_refs ls (bt_insert name oid refs))"

definition parse_ref_listing :: "string \<Rightarrow> string btree option" where
  "parse_ref_listing stdout = snapshot_refs (str_lines (unwrap_or (from_utf8 stdout) [])) []"

definition is_published_branch :: "string btree \<Rightarrow> string \<Rightarrow> bool" where
  "is_published_branch refs name = (prefix ''refs/heads/'' name \<and> map_of refs name \<noteq> None)"

definition resolve_published_head :: "string btree \<Rightarrow> string \<Rightarrow> string \<Rightarrow> string" where
  "resolve_published_head refs observed_head parent_head =
     (if is_published_branch refs observed_head then observed_head
      else if is_published_branch refs parent_head then parent_head
      else (case find (\<lambda>n. map_of refs n \<noteq> None) [''refs/heads/main'', ''refs/heads/master''] of
          Some preferred \<Rightarrow> preferred
        | None \<Rightarrow>
            (case find (prefix ''refs/heads/'') (map fst refs) of
               Some branch \<Rightarrow> branch
             | None \<Rightarrow> if observed_head \<noteq> [] then observed_head else parent_head)))"

definition compose_after ::
    "Manifest \<Rightarrow> string option \<Rightarrow> string \<Rightarrow> string btree \<Rightarrow> string option \<Rightarrow> Manifest" where
  "compose_after parent parent_digest head refs new_pack_key =
     \<lparr>mf_version = MANIFEST_VERSION, mf_head = head, mf_refs = refs,
      mf_packs = sort_dedup (case new_pack_key of
                    Some k \<Rightarrow> if k \<in> set (mf_packs parent) then mf_packs parent else mf_packs parent @ [k]
                  | None \<Rightarrow> mf_packs parent),
      mf_parent = parent_digest\<rparr>"

definition compose_compacted_after ::
    "string option \<Rightarrow> string \<Rightarrow> string btree \<Rightarrow> string list \<Rightarrow> Manifest" where
  "compose_compacted_after parent_digest head refs compacted_pack_keys =
     \<lparr>mf_version = MANIFEST_VERSION, mf_head = head, mf_refs = refs,
      mf_packs = sort_dedup compacted_pack_keys, mf_parent = parent_digest\<rparr>"

definition should_compact :: "nat \<Rightarrow> nat \<Rightarrow> bool" where
  "should_compact parent_pack_count threshold = (parent_pack_count \<ge> threshold)"

definition compacted_pack_set_is_usable :: "nat \<Rightarrow> nat \<Rightarrow> bool" where
  "compacted_pack_set_is_usable parent_pack_count compacted_pack_count =
     (compacted_pack_count < parent_pack_count
      \<or> parent_pack_count \<ge> MAX_MANIFEST_PACKS \<and> compacted_pack_count \<le> MAX_MANIFEST_PACKS)"

text \<open>The revisions fed to \<^verbatim>\<open>git pack-objects --revs\<close>; \<open>None\<close> when there is no tip to cover.\<close>

definition pack_objects_stdin :: "string btree \<Rightarrow> string btree \<Rightarrow> string option" where
  "pack_objects_stdin refs_before refs_after =
     (if refs_after = [] then None
      else Some (concat (map (\<lambda>(_, oid). oid @ [CHR 0x0A]) refs_after)
                 @ concat (map (\<lambda>(_, oid). ''^'' @ oid @ [CHR 0x0A]) refs_before)))"

definition compaction_stdin :: "string btree \<Rightarrow> string" where
  "compaction_stdin refs_after = concat (map (\<lambda>oid. oid @ [CHR 0x0A]) (rev (remdups (rev (map snd refs_after)))))"

definition u64_checked_add :: "nat \<Rightarrow> nat \<Rightarrow> nat option" where
  "u64_checked_add a b = (if a + b < 2 ^ 64 then Some (a + b) else None)"

text \<open>One line \<open>name value\<close> of \<^verbatim>\<open>git count-objects -v\<close>.\<close>

definition parse_count :: "string \<Rightarrow> string \<Rightarrow> u64 option" where
  "parse_count output name =
     (case find (prefix name) (str_lines output) of
        Some line \<Rightarrow> parse_u64 (trim (drop (length name) line))
      | None \<Rightarrow> None)"

section \<open>Repository names in requests\<close>

type_synonym git_response = "nat \<times> string"

definition owner_ok :: "string \<Rightarrow> bool" where
  "owner_ok owner = (length owner = 64 \<and> list_all (\<lambda>c. is_ascii_hexdigit c \<and> \<not> is_ascii_upper c) owner)"

definition repo_name_ok :: "string \<Rightarrow> bool" where
  "repo_name_ok name =
     (name \<noteq> [] \<and> length name \<le> 64 \<and> \<not> prefix ''.'' name \<and> \<not> contains_str ''..'' name
      \<and> list_all (\<lambda>c. is_ascii_alphanumeric c \<or> c = CHR ''.'' \<or> c = CHR ''_'' \<or> c = CHR ''-'') name)"

definition validate_repo_id :: "string \<Rightarrow> string \<Rightarrow> (git_response, string) result" where
  "validate_repo_id owner repo =
     (if \<not> owner_ok owner then Err (400, ''invalid owner'')
      else if \<not> repo_name_ok (strip_git repo) then Err (400, ''invalid repo name'')
      else Ok (strip_git repo))"

text \<open>The read gate: the announcement names a channel, and the caller holds a recognised role in it.\<close>

definition read_role_allows :: "string option \<Rightarrow> bool" where
  "read_role_allows role = (case role of Some r \<Rightarrow> role_from_str r \<noteq> None | None \<Rightarrow> False)"

definition not_found :: git_response where "not_found = (404, ''repository not found'')"

definition bind_hint :: "string \<Rightarrow> string" where
  "bind_hint repo_name =
     ''run: lenos repos bind --id '' @ repo_name @ '' --channel <channel-uuid> '' @ [CHR 0xE2, CHR 0x80, CHR 0x94]
     @ '' repository '' @ CHR 0x22 # repo_name @ CHR 0x22 # '' has no channel binding, so the relay cannot authorize access''"

definition authorize_git_read ::
    "policy_env \<Rightarrow> uuid \<Rightarrow> string \<Rightarrow> string \<Rightarrow> string \<Rightarrow> (git_response, unit) result" where
  "authorize_git_read P community caller owner_hex repo_name =
     (case hex_decode P owner_hex of
        None \<Rightarrow> Err not_found
      | Some owner_bytes \<Rightarrow>
          if length owner_bytes \<noteq> 32 then Err not_found
          else (case query_repo P community owner_bytes repo_name of
              Inl _ \<Rightarrow> Err not_found
            | Inr None \<Rightarrow> Err not_found
            | Inr (Some repo_event) \<Rightarrow>
                (case resolve_repo_binding P (repo_tags repo_event) of
                   NotBound \<Rightarrow>
                     if repo_author repo_event = caller then Err (404, bind_hint repo_name) else Err not_found
                 | Broken \<Rightarrow> Err not_found
                 | Bound channel_id \<Rightarrow>
                     (case get_member_role P community channel_id (unwrap_or (hex_decode P caller) []) of
                        Inl _ \<Rightarrow> Err not_found
                      | Inr role \<Rightarrow> if read_role_allows role then Ok () else Err not_found))))"

section \<open>Pkt-lines\<close>

definition nibble :: "nat \<Rightarrow> char" where
  "nibble n = (if n < 10 then char_of (48 + n) else char_of (87 + n))"

text \<open>\<open>format!("{len:04x}")\<close> for lengths that four digits can hold.\<close>

definition hex04 :: "nat \<Rightarrow> string" where
  "hex04 n = [nibble (n div 4096 mod 16), nibble (n div 256 mod 16), nibble (n div 16 mod 16), nibble (n mod 16)]"

definition nibble_value :: "char \<Rightarrow> nat" where
  "nibble_value c =
     (let n = of_char c in if n \<le> 57 then n - 48 else if n \<le> 70 then n - 55 else n - 87)"

text \<open>\<open>usize::from_str_radix(s, 16)\<close>, which takes a leading plus sign.\<close>

definition from_str_radix16 :: "string \<Rightarrow> nat option" where
  "from_str_radix16 s =
     (let d = (case s of [] \<Rightarrow> s | c # cs \<Rightarrow> if c = CHR ''+'' then cs else s)
      in if d \<noteq> [] \<and> list_all is_ascii_hexdigit d then Some (foldl (\<lambda>a c. 16 * a + nibble_value c) 0 d) else None)"

definition PKT_LINE_MAX_PAYLOAD :: nat where "PKT_LINE_MAX_PAYLOAD = 0xffff - 4"

definition pkt_line :: "string \<Rightarrow> string" where
  "pkt_line payload =
     (if length payload > PKT_LINE_MAX_PAYLOAD then ''0004'' else hex04 (length payload + 4) @ payload)"

definition flush_pkt :: string where "flush_pkt = ''0000''"

text \<open>\<open>PktLineIter\<close>: the payloads up to the first malformed length or truncated frame.\<close>

fun pkt_payloads :: "string \<Rightarrow> string list" where
  "pkt_payloads buf =
     (if length buf < 4 then []
      else (case Option.bind (from_utf8 (take 4 buf)) from_str_radix16 of
          None \<Rightarrow> []
        | Some len \<Rightarrow>
            if len < 4 then pkt_payloads (drop 4 buf)
            else if length buf < len then []
            else take (len - 4) (drop 4 buf) # pkt_payloads (drop len buf)))"

declare pkt_payloads.simps [simp del]

definition status_rejected :: "string \<Rightarrow> bool" where
  "status_rejected payload =
     (case payload of
        [] \<Rightarrow> False
      | c # rest \<Rightarrow>
          if c = CHR 0x01 then list_ex (prefix ''ng '') (pkt_payloads rest)
          else if c = CHR 0x02 \<or> c = CHR 0x03 then False
          else prefix ''ng '' payload)"

definition receive_pack_report_rejected :: "string \<Rightarrow> bool" where
  "receive_pack_report_rejected stdout = list_ex status_rejected (pkt_payloads stdout)"

section \<open>The advertisement built from a manifest\<close>

definition MAX_FAST_PATH_REFNAME_LEN :: nat where "MAX_FAST_PATH_REFNAME_LEN = 4096"

definition fast_path_eligible :: "Manifest \<Rightarrow> bool" where
  "fast_path_eligible m =
     (\<not> list_ex (\<lambda>(r, _). prefix ''refs/tags/'' r) (mf_refs m)
      \<and> map_of (mf_refs m) (mf_head m) \<noteq> None
      \<and> list_all (\<lambda>(refname, oid).
            is_safe_refname refname \<and> length refname \<le> MAX_FAST_PATH_REFNAME_LEN \<and> is_hex_oid oid) (mf_refs m))"

definition service_line :: string where "service_line = ''# service=git-upload-pack'' @ [CHR 0x0A]"

definition advertised_caps :: "string \<Rightarrow> string \<Rightarrow> string" where
  "advertised_caps head object_format =
     ''multi_ack thin-pack side-band side-band-64k ofs-delta shallow deepen-since deepen-not deepen-relative no-progress include-tag multi_ack_detailed no-done symref=HEAD:''
     @ head @ '' object-format='' @ object_format @ '' agent=lenos-git''"

definition head_line :: "string \<Rightarrow> string \<Rightarrow> string" where
  "head_line head_oid head =
     head_oid @ '' HEAD'' @ [CHR 0x00] @ advertised_caps head (if length head_oid = 64 then ''sha256'' else ''sha1'') @ [CHR 0x0A]"

definition ref_line :: "string \<times> string \<Rightarrow> string" where
  "ref_line r = (case r of (refname, oid) \<Rightarrow> oid @ '' '' @ refname @ [CHR 0x0A])"

text \<open>\<open>None\<close> is the panic of indexing the refs with a HEAD they do not have.\<close>

definition build_upload_pack_advertisement :: "Manifest \<Rightarrow> string option" where
  "build_upload_pack_advertisement m =
     (case map_of (mf_refs m) (mf_head m) of
        None \<Rightarrow> None
      | Some head_oid \<Rightarrow>
          Some (pkt_line service_line @ flush_pkt @ pkt_line (head_line head_oid (mf_head m))
                @ concat (map (pkt_line \<circ> ref_line) (mf_refs m)) @ flush_pkt))"

section \<open>The ref-state event\<close>

record RefStateInputs =
  rs_repo_id :: string
  rs_head :: string
  rs_refs :: "string btree"
  rs_actor_pubkey_hex :: string

datatype BuildError = InvalidActor | SignFailed

definition is_emittable_ref :: "string \<Rightarrow> bool" where
  "is_emittable_ref name =
     ((prefix ''refs/heads/'' name \<or> prefix ''refs/tags/'' name)
      \<and> \<not> (prefix ''/'' name \<or> contains_str ''//'' name)
      \<and> list_all (\<lambda>c. is_ascii_alphanumeric c \<or> c \<in> set ''/_.-'') name)"

definition ref_state_tags :: "RefStateInputs \<Rightarrow> string list list" where
  "ref_state_tags i =
     [''d'', rs_repo_id i]
     # map (\<lambda>(r, oid). [r, oid]) (filter (\<lambda>(r, oid). is_emittable_ref r \<and> is_hex_oid oid) (rs_refs i))
     @ (if rs_head i \<noteq> [] \<and> is_emittable_ref (rs_head i) then [[''HEAD'', ''ref: '' @ rs_head i]] else [])
     @ [[''p'', rs_actor_pubkey_hex i]]"

text \<open>\<open>public_key\<close> is \<open>PublicKey::from_hex\<close> and \<open>sign\<close> the signature with the relay's keys.\<close>

definition build_ref_state_event ::
    "(string \<Rightarrow> bool) \<Rightarrow> (nat \<Rightarrow> string list list \<Rightarrow> 'ev option) \<Rightarrow> RefStateInputs \<Rightarrow> (BuildError, 'ev) result" where
  "build_ref_state_event public_key sign i =
     (if \<not> public_key (rs_actor_pubkey_hex i) then Err InvalidActor
      else ok_or (sign 30618 (ref_state_tags i)) SignFailed)"

section \<open>Facts about ordered maps and names\<close>

lemma map_of_bt_insert [simp]: "map_of (bt_insert k v m) = (map_of m)(k \<mapsto> v)"
  by (induction k v m rule: bt_insert.induct) (auto simp: fun_eq_iff)

lemma keys_bt_insert [simp]: "fst ` set (bt_insert k v m) = insert k (fst ` set m)"
  by (induction k v m rule: bt_insert.induct) auto

lemma bt_ok_Nil [simp]: "bt_ok []"
  by (simp add: bt_ok_def)

lemma bt_ok_insert [simp]: "bt_ok m \<Longrightarrow> bt_ok (bt_insert k v m)"
  unfolding bt_ok_def
proof (induction k v m rule: bt_insert.induct)
  case (2 k v k' v' m)
  show ?case
  proof (cases "k = k' \<or> k < k'")
    case True
    with 2 show ?thesis by (auto dest: order.strict_trans)
  next
    case False
    have "set (map fst (bt_insert k v m)) = insert k (set (map fst m))" by simp
    with False 2 show ?thesis by (auto simp: not_less_iff_gr_or_eq)
  qed
qed simp

lemma bt_ok_distinct: "bt_ok m \<Longrightarrow> distinct (map fst m)"
  unfolding bt_ok_def by (simp add: strict_sorted_iff)

lemma length_bt_insert:
  "length (bt_insert k v m) \<le> (if map_of m k = None then Suc (length m) else length m) \<or> \<not> bt_ok m"
proof (induction k v m rule: bt_insert.induct)
  case (2 k v k' v' m)
  have "\<not> (k < k' \<and> map_of ((k', v') # m) k \<noteq> None)" if "bt_ok ((k', v') # m)"
  proof
    assume *: "k < k' \<and> map_of ((k', v') # m) k \<noteq> None"
    then have "k \<in> fst ` set ((k', v') # m)" by (metis map_of_eq_None_iff)
    then have "k = k' \<or> k \<in> fst ` set m" by auto
    with * that show False by (auto simp: bt_ok_def)
  qed
  with 2 show ?case by (auto simp: bt_ok_def)
qed simp

lemma snapshot_refs_ok:
  "snapshot_refs ls refs = Some refs' \<Longrightarrow> bt_ok refs \<Longrightarrow> length refs \<le> MAX_MANIFEST_REFS
    \<Longrightarrow> (\<And>r oid. (r, oid) \<in> set refs \<Longrightarrow> length oid = 40 \<and> list_all is_ascii_hexdigit oid)
    \<Longrightarrow> bt_ok refs' \<and> length refs' \<le> MAX_MANIFEST_REFS
        \<and> (\<forall>(r, oid) \<in> set refs'. length oid = 40 \<and> list_all is_ascii_hexdigit oid)"
proof (induction ls refs rule: snapshot_refs.induct)
  case (2 line ls refs)
  show ?case
  proof (cases "split_once CHR '' '' line")
    case None
    with 2 show ?thesis by simp
  next
    case (Some p)
    obtain name oid where p: "p = (name, oid)" by (cases p)
    show ?thesis
    proof (cases "length oid \<noteq> 40 \<or> \<not> list_all is_ascii_hexdigit oid")
      case True
      with 2 Some p show ?thesis by auto
    next
      case False
      with 2(4) Some p have room: "\<not> (length refs \<ge> MAX_MANIFEST_REFS \<and> map_of refs name = None)"
        and rest: "snapshot_refs ls (bt_insert name oid refs) = Some refs'"
        by (auto split: if_splits)
      have "set (bt_insert name oid refs) \<subseteq> insert (name, oid) (set refs)"
        by (induction name oid refs rule: bt_insert.induct) auto
      with 2(7) False have
        "(r, oid') \<in> set (bt_insert name oid refs) \<Longrightarrow> length oid' = 40 \<and> list_all is_ascii_hexdigit oid'" for r oid'
        by auto
      moreover have "length (bt_insert name oid refs) \<le> MAX_MANIFEST_REFS"
        using length_bt_insert [of name oid refs] room 2(5,6) by (auto split: if_splits)
      ultimately show ?thesis
        using 2(3) [OF Some p [symmetric] False room rest] 2(5) by simp
    qed
  qed
qed auto

lemma parse_ref_listing_ok:
  "parse_ref_listing s = Some refs \<Longrightarrow>
    bt_ok refs \<and> length refs \<le> MAX_MANIFEST_REFS
    \<and> (\<forall>(r, oid) \<in> set refs. length oid = 40 \<and> list_all is_ascii_hexdigit oid)"
  unfolding parse_ref_listing_def by (erule snapshot_refs_ok) simp_all

section \<open>Facts about manifests\<close>

lemma remdups_adj_strict: "sorted xs \<Longrightarrow> sorted_wrt (<) (remdups_adj (xs :: 'a :: linorder list))"
  by (induction xs rule: remdups_adj.induct) (auto simp: less_le)

lemma set_sort_dedup [simp]: "set (sort_dedup ps) = set ps"
  by (simp add: sort_dedup_def)

lemma sort_dedup_strict: "sorted_wrt (<) (sort_dedup ps)"
  by (simp add: sort_dedup_def remdups_adj_strict)

lemma sort_dedup_distinct [simp]: "distinct (sort_dedup ps)"
  using sort_dedup_strict by (simp add: strict_sorted_iff)

lemma sort_dedup_idem [simp]: "sort_dedup (sort_dedup ps) = sort_dedup ps"
proof -
  have "sorted (sort_dedup ps)" using sort_dedup_strict by (simp add: strict_sorted_iff)
  then show ?thesis
    by (metis sort_dedup_def sort_dedup_distinct sorted_sort_id remdups_adj_distinct)
qed

lemma canonical_form_simps [simp]:
  "mf_version (canonical_form m) = mf_version m" "mf_head (canonical_form m) = mf_head m"
  "mf_refs (canonical_form m) = mf_refs m" "mf_parent (canonical_form m) = mf_parent m"
  "mf_packs (canonical_form m) = sort_dedup (mf_packs m)"
  by (simp_all add: canonical_form_def)

lemma canonical_form_compose [simp]:
  "canonical_form (compose_after p d h r k) = compose_after p d h r k"
  "canonical_form (compose_compacted_after d h r ks) = compose_compacted_after d h r ks"
  by (simp_all add: canonical_form_def compose_after_def compose_compacted_after_def)

lemma compose_after_simps [simp]:
  "mf_version (compose_after p d h r k) = MANIFEST_VERSION" "mf_head (compose_after p d h r k) = h"
  "mf_refs (compose_after p d h r k) = r" "mf_parent (compose_after p d h r k) = d"
  "set (mf_packs (compose_after p d h r k)) = set (mf_packs p) \<union> set_option k"
  by (auto simp: compose_after_def split: option.splits)

lemma compose_compacted_simps [simp]:
  "mf_version (compose_compacted_after d h r ks) = MANIFEST_VERSION" "mf_head (compose_compacted_after d h r ks) = h"
  "mf_refs (compose_compacted_after d h r ks) = r" "mf_parent (compose_compacted_after d h r ks) = d"
  "set (mf_packs (compose_compacted_after d h r ks)) = set ks"
  by (simp_all add: compose_compacted_after_def)

lemma validate_refs_ok:
  "validate_refs m = Ok () \<longleftrightarrow> (\<forall>(r, oid) \<in> set m. is_safe_refname r \<and> is_hex_oid oid)"
  by (induction m rule: validate_refs.induct) auto

lemma validate_packs_ok: "validate_packs ps = Ok () \<longleftrightarrow> (\<forall>p \<in> set ps. is_pack_key p)"
  by (induction ps rule: validate_packs.induct) auto

lemma validate_manifest_ok:
  "validate_manifest m = Ok () \<longleftrightarrow>
     length (mf_packs m) \<le> MAX_MANIFEST_PACKS \<and> length (mf_refs m) \<le> MAX_MANIFEST_REFS
     \<and> is_safe_refname (mf_head m)
     \<and> (\<forall>(r, oid) \<in> set (mf_refs m). is_safe_refname r \<and> is_hex_oid oid)
     \<and> (\<forall>p \<in> set (mf_packs m). is_pack_key p)
     \<and> (\<forall>p. mf_parent m = Some p \<longrightarrow> is_manifest_digest p)"
proof -
  have "\<not> is_safe_refname []" by (simp add: is_safe_refname_def)
  then show ?thesis
    unfolding validate_refs_ok [symmetric] validate_packs_ok [symmetric]
    by (auto simp: validate_manifest_def split: sum.splits option.splits)
qed

lemma manifest_digest_chars:
  "is_manifest_digest d \<Longrightarrow> c \<in> set d \<Longrightarrow> c \<in> set ''0123456789abcdef''"
  by (auto simp: is_manifest_digest_def list_all_iff)

lemma trim_ascii_id:
  assumes "\<forall>c \<in> set s. of_char c > (32::nat) \<and> of_char c < (128::nat)"
  shows "trim s = s"
proof -
  have start: "trim_start t = t" if "\<forall>c \<in> set t. of_char c > (32::nat) \<and> of_char c < (128::nat)" for t
    using that by (cases t rule: trim_start.cases) (auto simp: ws1_def ws2_def ws3_def split: list.splits)
  have finish: "trim_end_rev t = t" if "\<forall>c \<in> set t. of_char c > (32::nat) \<and> of_char c < (128::nat)" for t
    using that by (cases t rule: trim_end_rev.cases) (auto simp: ws1_def ws2_def ws3_def split: list.splits)
  show ?thesis using assms start [of s] finish [of "rev s"] by (simp add: trim_def)
qed

lemma utf8_ascii: "\<forall>c \<in> set s. of_char c < (128::nat) \<Longrightarrow> from_utf8 s = Some s"
proof -
  have "\<forall>b \<in> set bs. b < 128 \<Longrightarrow> utf8_bytes bs" for bs
    by (induction bs) auto
  then show "\<forall>c \<in> set s. of_char c < (128::nat) \<Longrightarrow> from_utf8 s = Some s"
    by (simp add: from_utf8_def)
qed

lemma digest_text:
  assumes "is_manifest_digest d"
  shows "from_utf8 d = Some d" "trim d = d" "length d = 64" "list_all is_ascii_hexdigit d"
proof -
  have c: "of_char c > (32::nat) \<and> of_char c < (128::nat) \<and> is_ascii_hexdigit c" if "c \<in> set d" for c
    using manifest_digest_chars [OF assms that] by (auto simp: is_ascii_hexdigit_def is_ascii_digit_def)
  from c show "from_utf8 d = Some d" by (intro utf8_ascii) auto
  from c show "trim d = d" by (intro trim_ascii_id) auto
  from c show "list_all is_ascii_hexdigit d" by (auto simp: list_all_iff)
  from assms show "length d = 64" by (simp add: is_manifest_digest_def)
qed

text \<open>
  The HEAD a push publishes is a branch of the published refs whenever the refs have a branch, so that a
  clone never finds HEAD on a branch the advertisement does not list; without a branch it is the HEAD observed
  in the workspace, or the parent's when the workspace has none.
\<close>

theorem published_head_is_branch:
  "(if \<exists>r oid. (r, oid) \<in> set refs \<and> prefix ''refs/heads/'' r
    then is_published_branch refs (resolve_published_head refs observed parent)
    else resolve_published_head refs observed parent = (if observed \<noteq> [] then observed else parent))"
proof (cases "\<exists>r oid. (r, oid) \<in> set refs \<and> prefix ''refs/heads/'' r")
  case True
  then obtain r where "r \<in> set (map fst refs)" "prefix ''refs/heads/'' r" by force
  then have "find (prefix ''refs/heads/'') (map fst refs) \<noteq> None" by (metis find_None_iff)
  moreover have "is_published_branch refs b" if "find (prefix ''refs/heads/'') (map fst refs) = Some b" for b
  proof -
    from that have "b \<in> set (map fst refs)" "prefix ''refs/heads/'' b" by (auto simp: find_Some_iff)
    then show ?thesis by (auto simp: is_published_branch_def map_of_eq_None_iff)
  qed
  moreover have "is_published_branch refs b"
    if "find (\<lambda>n. map_of refs n \<noteq> None) [''refs/heads/main'', ''refs/heads/master''] = Some b" for b
    using that by (auto simp: is_published_branch_def split: if_splits)
  ultimately show ?thesis
    using True by (auto simp: resolve_published_head_def split: option.splits)
next
  case False
  then have none: "\<not> is_published_branch refs n" for n
    using map_of_SomeD [of refs n] by (cases "map_of refs n") (auto simp: is_published_branch_def)
  from False have "find (prefix ''refs/heads/'') (map fst refs) = None" by (auto simp: find_None_iff)
  moreover have "map_of refs ''refs/heads/main'' = None" "map_of refs ''refs/heads/master'' = None"
    using none [of "''refs/heads/main''"] none [of "''refs/heads/master''"] by (simp_all add: is_published_branch_def)
  ultimately show ?thesis using False none by (simp add: resolve_published_head_def)
qed

section \<open>Pkt-lines and reports\<close>

lemma nibble_facts:
  assumes "d < 16"
  shows "is_ascii_hexdigit (nibble d)" "nibble_value (nibble d) = d" "of_char (nibble d) < (128::nat)" "nibble d \<noteq> CHR ''+''"
proof -
  have "d \<in> {0,1,2,3,4,5,6,7,8,9,10,11,12,13,14,15}" using assms by (simp only: insert_iff empty_iff) arith
  then have "is_ascii_hexdigit (nibble d) \<and> nibble_value (nibble d) = d \<and> of_char (nibble d) < (128::nat) \<and> nibble d \<noteq> CHR ''+''"
    by (elim insertE emptyE; simp only:; code_simp)
  then show "is_ascii_hexdigit (nibble d)" "nibble_value (nibble d) = d" "of_char (nibble d) < (128::nat)" "nibble d \<noteq> CHR ''+''"
    by auto
qed

lemma hex04_decode:
  assumes "n < 65536"
  shows "Option.bind (from_utf8 (hex04 n)) from_str_radix16 = Some n"
proof -
  have "from_utf8 (hex04 n) = Some (hex04 n)"
    by (rule utf8_ascii) (auto simp: hex04_def nibble_facts)
  moreover have "from_str_radix16 (hex04 n)
      = Some (16 * (16 * (16 * (n div 4096 mod 16) + n div 256 mod 16) + n div 16 mod 16) + n mod 16)"
    by (simp add: from_str_radix16_def hex04_def nibble_facts)
  moreover have "16 * (16 * (16 * (n div 4096 mod 16) + n div 256 mod 16) + n div 16 mod 16) + n mod 16 = n"
  proof -
    have "n div 256 = n div 16 div 16" "n div 4096 = n div 256 div 16" "n div 4096 < 16"
      using assms by (simp_all add: div_mult2_eq [symmetric])
    then show ?thesis by simp
  qed
  ultimately show ?thesis by (simp only: Option.bind.simps option.inject)
qed

lemma length_hex04 [simp]: "length (hex04 n) = 4"
  by (simp add: hex04_def)

lemma pkt_payloads_line:
  assumes "length p \<le> PKT_LINE_MAX_PAYLOAD"
  shows "pkt_payloads (pkt_line p @ rest) = p # pkt_payloads rest"
proof -
  have frame: "pkt_line p @ rest = hex04 (length p + 4) @ p @ rest"
    using assms by (simp add: pkt_line_def)
  have "Option.bind (from_utf8 (hex04 (length p + 4))) from_str_radix16 = Some (length p + 4)"
    using assms by (intro hex04_decode) (simp add: PKT_LINE_MAX_PAYLOAD_def)
  then show ?thesis
    unfolding frame by (subst pkt_payloads.simps) simp
qed

lemma pkt_payloads_flush: "pkt_payloads (flush_pkt @ rest) = pkt_payloads rest"
proof -
  have "hex04 0 = ''0000''" by code_simp
  then have "Option.bind (from_utf8 ''0000'') from_str_radix16 = Some 0"
    using hex04_decode [of 0] by simp
  then show ?thesis unfolding flush_pkt_def by (subst pkt_payloads.simps) simp
qed

lemma pkt_payloads_Nil [simp]: "pkt_payloads [] = []"
  by (subst pkt_payloads.simps) simp

lemma pkt_payloads_lines:
  "\<forall>p \<in> set ps. length p \<le> PKT_LINE_MAX_PAYLOAD \<Longrightarrow>
    pkt_payloads (concat (map pkt_line ps) @ rest) = ps @ pkt_payloads rest"
  by (induction ps) (simp_all add: pkt_payloads_line)

lemmas pkt_stream = pkt_payloads_line pkt_payloads_lines pkt_payloads_flush pkt_payloads_flush [of "[]", simplified]

definition status_line :: "string \<Rightarrow> bool" where
  "status_line l = (prefix ''unpack '' l \<or> prefix ''ok '' l \<or> prefix ''ng '' l)"

lemma status_line_head: "status_line l \<Longrightarrow> status_rejected l = prefix ''ng '' l"
  by (auto simp: status_line_def status_rejected_def prefix_def)

text \<open>
  A frame of a side-band report: whole status lines on band 1, with git's flush in the last of them, or text of the
  progress bands.
\<close>

datatype report_frame = StatusFrame "string list" bool | TextFrame char string

fun frame_payload :: "report_frame \<Rightarrow> string" where
  "frame_payload (StatusFrame ls fin) = CHR 0x01 # concat (map pkt_line ls) @ (if fin then flush_pkt else [])"
| "frame_payload (TextFrame band text) = band # text"

fun frame_lines :: "report_frame \<Rightarrow> string list" where
  "frame_lines (StatusFrame ls fin) = ls"
| "frame_lines (TextFrame band text) = []"

fun frame_ok :: "report_frame \<Rightarrow> bool" where
  "frame_ok (StatusFrame ls fin) = list_all status_line ls"
| "frame_ok (TextFrame band text) = (band \<in> {CHR 0x02, CHR 0x03})"

text \<open>The two ways git sends its status lines without cutting one: as plain pkt-lines, or in frames.\<close>

definition plain_report :: "string list \<Rightarrow> string" where
  "plain_report ls = concat (map pkt_line ls) @ flush_pkt"

definition framed_report :: "report_frame list \<Rightarrow> string" where
  "framed_report fs = concat (map (pkt_line \<circ> frame_payload) fs) @ flush_pkt"

lemma line_fits: "l \<in> set ls \<Longrightarrow> length l \<le> length (concat (map pkt_line ls)) \<or> length l > PKT_LINE_MAX_PAYLOAD"
  by (induction ls) (auto simp: pkt_line_def)

lemma frame_rejected:
  assumes "frame_ok f" "length (frame_payload f) \<le> PKT_LINE_MAX_PAYLOAD"
    and "\<forall>l \<in> set (frame_lines f). length l \<le> PKT_LINE_MAX_PAYLOAD"
  shows "status_rejected (frame_payload f) = list_ex (prefix ''ng '') (frame_lines f)"
proof (cases f)
  case (StatusFrame ls fin)
  with assms(3) have "pkt_payloads (concat (map pkt_line ls) @ (if fin then flush_pkt else [])) = ls"
    by (subst pkt_payloads_lines) (simp_all add: pkt_stream)
  with StatusFrame show ?thesis by (simp add: status_rejected_def)
qed (use assms in \<open>auto simp: status_rejected_def\<close>)

lemma plain_report_scan:
  assumes "\<forall>l \<in> set ls. status_line l \<and> length l \<le> PKT_LINE_MAX_PAYLOAD"
  shows "receive_pack_report_rejected (plain_report ls) = list_ex (prefix ''ng '') ls"
proof -
  have "pkt_payloads (concat (map pkt_line ls) @ flush_pkt) = ls"
    using assms by (subst pkt_payloads_lines) (simp_all add: pkt_stream)
  with assms show ?thesis
    by (auto simp: receive_pack_report_rejected_def plain_report_def list_ex_iff status_line_head)
qed

lemma framed_report_scan:
  assumes "\<forall>f \<in> set fs. frame_ok f \<and> length (frame_payload f) \<le> PKT_LINE_MAX_PAYLOAD
      \<and> (\<forall>l \<in> set (frame_lines f). length l \<le> PKT_LINE_MAX_PAYLOAD)"
  shows "receive_pack_report_rejected (framed_report fs) = list_ex (prefix ''ng '') (concat (map frame_lines fs))"
proof -
  have "\<forall>p \<in> set (map frame_payload fs). length p \<le> PKT_LINE_MAX_PAYLOAD" using assms by simp
  then have "pkt_payloads (framed_report fs) = map frame_payload fs"
    unfolding framed_report_def map_map [symmetric] by (subst pkt_payloads_lines) (simp_all add: pkt_stream)
  moreover have "list_ex status_rejected (map frame_payload fs) = list_ex (prefix ''ng '') (concat (map frame_lines fs))"
    using assms by (induction fs) (simp_all add: frame_rejected)
  ultimately show ?thesis by (simp add: receive_pack_report_rejected_def)
qed

lemma pkt_payloads_no_length:
  "\<not> is_ascii_hexdigit c \<Longrightarrow> c \<noteq> CHR ''+'' \<Longrightarrow> pkt_payloads (c # cs) = []"
  by (subst pkt_payloads.simps)
    (auto simp: from_utf8_def from_str_radix16_def numeral_eq_Suc split: option.splits if_splits)

lemma pkt_payloads_truncated:
  assumes "pkt_line p = x @ y" "y \<noteq> []" "length p \<le> PKT_LINE_MAX_PAYLOAD"
  shows "pkt_payloads x = []"
proof (cases "length x < 4")
  case False
  from assms have line: "hex04 (length p + 4) @ p = x @ y" by (simp add: pkt_line_def)
  from arg_cong [OF this, of "take 4"] False have "take 4 x = hex04 (length p + 4)" by simp
  moreover have "Option.bind (from_utf8 (hex04 (length p + 4))) from_str_radix16 = Some (length p + 4)"
    using assms(3) by (intro hex04_decode) (simp add: PKT_LINE_MAX_PAYLOAD_def)
  moreover from arg_cong [OF line, of length] assms(2) have "length x < length p + 4" by (cases y) auto
  ultimately show ?thesis using False by (subst pkt_payloads.simps) simp
qed (subst pkt_payloads.simps, simp)

text \<open>A line cut at the end of a frame is seen in neither frame, and hides every line after it.\<close>

lemma split_report_scan:
  assumes lines: "\<forall>l \<in> set before. length l \<le> PKT_LINE_MAX_PAYLOAD \<and> \<not> prefix ''ng '' l"
    and cut: "pkt_line l = x @ c # y" "length l \<le> PKT_LINE_MAX_PAYLOAD" "\<not> is_ascii_hexdigit c" "c \<noteq> CHR ''+''"
    and fit: "length (CHR 0x01 # concat (map pkt_line before) @ x) \<le> PKT_LINE_MAX_PAYLOAD"
      "length (CHR 0x01 # c # y @ rest) \<le> PKT_LINE_MAX_PAYLOAD"
  shows "\<not> receive_pack_report_rejected
    (pkt_line (CHR 0x01 # concat (map pkt_line before) @ x) @ pkt_line (CHR 0x01 # c # y @ rest) @ flush_pkt)"
proof -
  have "pkt_payloads (pkt_line (CHR 0x01 # concat (map pkt_line before) @ x) @ pkt_line (CHR 0x01 # c # y @ rest) @ flush_pkt)
      = [CHR 0x01 # concat (map pkt_line before) @ x, CHR 0x01 # c # y @ rest]"
    by (simp only: pkt_stream fit)
  moreover have "pkt_payloads (concat (map pkt_line before) @ x) = before"
    using lines pkt_payloads_truncated [OF cut(1) _ cut(2)] by (subst pkt_payloads_lines) simp_all
  moreover have "\<not> list_ex (prefix ''ng '') before" using lines by (auto simp: list_ex_iff)
  ultimately show ?thesis
    using cut by (simp add: receive_pack_report_rejected_def status_rejected_def pkt_payloads_no_length)
qed

section \<open>The advertisement\<close>

lemma head_line_length:
  assumes "length head \<le> MAX_FAST_PATH_REFNAME_LEN" "length oid \<le> 64"
  shows "length (head_line oid head) \<le> PKT_LINE_MAX_PAYLOAD"
  using assms by (simp add: head_line_def advertised_caps_def MAX_FAST_PATH_REFNAME_LEN_def PKT_LINE_MAX_PAYLOAD_def)

text \<open>
  A clone is told exactly the published refs. For a manifest on the fast path the advertisement, read back
  frame by frame, is the service line, HEAD with its object and its branch as symref, and then every ref of the
  manifest with its object, in the order of the names: nothing is dropped, cut or added.
\<close>

theorem advertisement_lists_refs:
  assumes "fast_path_eligible m"
  shows "\<exists>b head_oid. build_upload_pack_advertisement m = Some b
      \<and> (mf_head m, head_oid) \<in> set (mf_refs m)
      \<and> pkt_payloads b = service_line # head_line head_oid (mf_head m) # map ref_line (mf_refs m)"
proof -
  obtain head_oid where head: "map_of (mf_refs m) (mf_head m) = Some head_oid"
    using assms by (auto simp: fast_path_eligible_def)
  then have mem: "(mf_head m, head_oid) \<in> set (mf_refs m)" by (rule map_of_SomeD)
  have each: "length r \<le> MAX_FAST_PATH_REFNAME_LEN \<and> length oid \<le> 64" if "(r, oid) \<in> set (mf_refs m)" for r oid
    using assms that by (auto simp: fast_path_eligible_def list_all_iff is_hex_oid_def)
  have "length (ref_line r) \<le> PKT_LINE_MAX_PAYLOAD" if "r \<in> set (mf_refs m)" for r
    using each [of "fst r" "snd r"] that
    by (cases r) (simp add: ref_line_def MAX_FAST_PATH_REFNAME_LEN_def PKT_LINE_MAX_PAYLOAD_def)
  then have refs: "pkt_payloads (concat (map pkt_line (map ref_line (mf_refs m))) @ flush_pkt) = map ref_line (mf_refs m)"
    by (subst pkt_payloads_lines) (auto simp: pkt_stream)
  have "length service_line \<le> PKT_LINE_MAX_PAYLOAD" by (simp add: service_line_def PKT_LINE_MAX_PAYLOAD_def)
  moreover have "length (head_line head_oid (mf_head m)) \<le> PKT_LINE_MAX_PAYLOAD"
    using each [OF mem] by (simp add: head_line_length)
  ultimately have "pkt_payloads (pkt_line service_line @ flush_pkt @ pkt_line (head_line head_oid (mf_head m))
        @ concat (map pkt_line (map ref_line (mf_refs m))) @ flush_pkt)
      = service_line # head_line head_oid (mf_head m) # map ref_line (mf_refs m)"
    by (simp only: pkt_payloads_line pkt_payloads_flush refs)
  with head mem show ?thesis by (auto simp: build_upload_pack_advertisement_def)
qed

definition sample_manifest :: Manifest where
  "sample_manifest =
     \<lparr>mf_version = 1, mf_head = ''refs/heads/main'',
      mf_refs = [(''refs/heads/dev'', replicate 40 CHR ''a''), (''refs/heads/main'', replicate 40 CHR ''b'')],
      mf_packs = [''packs/'' @ replicate 64 CHR ''c''], mf_parent = None\<rparr>"

theorem advertisement_lists_refs_witness:
  "\<exists>b. build_upload_pack_advertisement sample_manifest = Some b \<and> length (pkt_payloads b) = 4"
proof -
  have "fast_path_eligible sample_manifest" by code_simp
  from advertisement_lists_refs [OF this] show ?thesis by (auto simp: sample_manifest_def)
qed

section \<open>Who may read a repository\<close>

text \<open>
  A repository is read only by a member of its channel. The gate lets a caller through exactly when the
  current announcement of that owner and name in the community binds a channel and the caller's role there is one
  the relay knows; there is no exception for the owner, and every refusal, failed lookups included, is a 404.
\<close>

theorem git_read_gate:
  "(authorize_git_read P community caller owner repo = Ok () \<longleftrightarrow>
      (\<exists>owner_bytes ev channel_id role.
         hex_decode P owner = Some owner_bytes \<and> length owner_bytes = 32
         \<and> query_repo P community owner_bytes repo = Ok (Some ev)
         \<and> resolve_repo_binding P (repo_tags ev) = Bound channel_id
         \<and> get_member_role P community channel_id (unwrap_or (hex_decode P caller) []) = Ok (Some role)
         \<and> role_from_str role \<noteq> None))
   \<and> (case authorize_git_read P community caller owner repo of Inl r \<Rightarrow> fst r = 404 | Inr _ \<Rightarrow> True)"
  by (auto simp: authorize_git_read_def not_found_def read_role_allows_def
      split: option.splits sum.splits RepoBinding.splits if_splits)

section \<open>The pointer of a repository\<close>

lemma strip_git_id: "\<not> suffix ''.git'' repo \<Longrightarrow> strip_git repo = repo"
  by (simp add: strip_git_def strip_suffix_str_def)

lemma strip_git_suffix [simp]: "strip_git (repo @ ''.git'') = repo"
  by (simp add: strip_git_def strip_suffix_str_def suffix_def)

text \<open>Without a slash in the community and the owner, and with owners of one length, keys of different repositories differ.\<close>

lemma pointer_key_inj:
  assumes "pointer_key c o1 r = pointer_key c' o2 r'" "CHR ''/'' \<notin> set c" "CHR ''/'' \<notin> set c'"
    and "CHR ''/'' \<notin> set o1" "CHR ''/'' \<notin> set o2"
  shows "c = c' \<and> o1 = o2 \<and> strip_git r = strip_git r'"
proof -
  have split: "a = a' \<and> b = b'" if "a @ CHR ''/'' # b = a' @ CHR ''/'' # b'" "CHR ''/'' \<notin> set a" "CHR ''/'' \<notin> set a'"
    for a b a' b' :: string
    using that split_once_append by (metis option.inject prod.inject)
  from assms(1) have *: "c @ CHR ''/'' # (o1 @ CHR ''/'' # strip_git r) = c' @ CHR ''/'' # (o2 @ CHR ''/'' # strip_git r')"
    by (simp add: pointer_key_def)
  from split [OF * assms(2,3)] have "c = c'" and **: "o1 @ CHR ''/'' # strip_git r = o2 @ CHR ''/'' # strip_git r'"
    by auto
  with split [OF ** assms(4,5)] show ?thesis by simp
qed

text \<open>
  The announcement of a repository \<^verbatim>\<open>x.git\<close> is a name of its own in the registry and in the read gate, but its
  manifest is seeded under the pointer of \<^verbatim>\<open>x\<close>; the URL that reaches the announcement reads another pointer.
\<close>

theorem announced_git_suffix:
  assumes "owner_ok owner" "repo_name_ok (x @ ''.git'')"
  shows "validate_repo_id owner (x @ ''.git.git'') = Ok (x @ ''.git'')"
    and "pointer_key c owner (x @ ''.git'') = pointer_key c owner x \<or> suffix ''.git'' x"
    and "pointer_key c owner (x @ ''.git.git'') \<noteq> pointer_key c owner (x @ ''.git'')"
proof -
  have eq: "strip_git (x @ ''.git.git'') = x @ ''.git''" using strip_git_suffix [of "x @ ''.git''"] by simp
  with assms show "validate_repo_id owner (x @ ''.git.git'') = Ok (x @ ''.git'')" by (simp add: validate_repo_id_def)
  show "pointer_key c owner (x @ ''.git'') = pointer_key c owner x \<or> suffix ''.git'' x"
    by (auto simp: pointer_key_def strip_git_id)
  show "pointer_key c owner (x @ ''.git.git'') \<noteq> pointer_key c owner (x @ ''.git'')"
    using eq by (simp add: pointer_key_def)
qed

end
