(* ===== verification/GitStore.thy ===== *)
theory GitStore
  imports GitManifest
begin

text \<open>
  \<^verbatim>\<open>crates/lenos-relay/src/api/git/store.rs\<close>, \<^verbatim>\<open>hydrate.rs\<close>, \<^verbatim>\<open>pack_cache.rs\<close> (the path of one pack), \<^verbatim>\<open>cas_publish.rs\<close>,
  the handlers of \<^verbatim>\<open>transport.rs\<close> and the announcement of \<^verbatim>\<open>handlers/side_effects.rs\<close>. An async function that talks to
  the object store is a \<open>prog\<close>: it returns, or sends one request to the bucket and goes on with the reply. Every
  \<open>await\<close> on the store is one \<open>Call\<close>, so tasks interleave exactly there. What happens on the local disk and in the git
  subprocesses is an argument: the records \<open>pack_host\<close> (hydration) and \<open>push_git\<close> (one push, given its workspace).
\<close>

section \<open>Programs of store requests\<close>

datatype Precond = IfNoneMatchStar | IfMatch string

datatype s3_request =
    HeadObject string
  | GetObject string
  | PutObject string string Precond

text \<open>
  \<open>Response\<close>: status, ETag header, Content-Length header, body. A status outside 2xx comes as \<open>HttpFailWithBody\<close> (the
  client is built with \<^verbatim>\<open>fail-on-err\<close>). \<open>OtherFailure\<close> is any transport or decoding error, \<open>Elapsed\<close> the deadline of the caller.
\<close>

datatype s3_reply =
    Response nat "string option" "int option" string
  | HttpFailWithBody nat
  | OtherFailure
  | Elapsed

datatype 'r prog = Return 'r | Call s3_request "s3_reply \<Rightarrow> 'r prog"

primrec bind :: "'a prog \<Rightarrow> ('a \<Rightarrow> 'b prog) \<Rightarrow> 'b prog" where
  "bind (Return a) g = g a"
| "bind (Call q k) g = Call q (\<lambda>r. bind (k r) g)"

text \<open>The question mark on a result.\<close>

definition attempt :: "('e + 'a) prog \<Rightarrow> ('a \<Rightarrow> ('e + 'b) prog) \<Rightarrow> ('e + 'b) prog" where
  "attempt p g = bind p (\<lambda>r. case r of Inl e \<Rightarrow> Return (Inl e) | Inr a \<Rightarrow> g a)"

definition map_err :: "('e \<Rightarrow> 'f) \<Rightarrow> ('e + 'a) prog \<Rightarrow> ('f + 'a) prog" where
  "map_err f p = bind p (\<lambda>r. Return (map_sum f id r))"

text \<open>\<open>tokio::time::timeout\<close>: the operation is dropped at the request it waits for.\<close>

primrec deadline :: "'a prog \<Rightarrow> 'a option prog" where
  "deadline (Return a) = Return (Some a)"
| "deadline (Call q k) = Call q (\<lambda>r. if r = Elapsed then Return None else deadline (k r))"

record git_env =
  ge_codec :: manifest_codec
  ge_sha256_hex :: "string \<Rightarrow> string"
  ge_header_ok :: "string \<Rightarrow> bool"
  ge_public_key_ok :: "string \<Rightarrow> bool"
  ge_sign :: "nat \<Rightarrow> string list list \<Rightarrow> string option"

section \<open>The store client\<close>

datatype CasOutcome = Won string | LostRace

datatype StoreError =
    NotFound string
  | ObjectTooLarge string nat nat
  | DigestMismatch string string string
  | Backend "nat option"

fun backend_error :: "s3_reply \<Rightarrow> StoreError" where
  "backend_error (Response st _ _ _) = Backend (Some st)"
| "backend_error (HttpFailWithBody st) = Backend (Some st)"
| "backend_error _ = Backend None"

definition success_status :: "nat \<Rightarrow> bool" where "success_status st = (200 \<le> st \<and> st < 300)"

definition content_key :: "git_env \<Rightarrow> string \<Rightarrow> string \<Rightarrow> string" where
  "content_key E pre bytes = pre @ ''/'' @ ge_sha256_hex E bytes"

definition idx_key_for_pack_digest :: "string \<Rightarrow> (StoreError, string) result" where
  "idx_key_for_pack_digest pack_digest =
     (if length pack_digest \<noteq> 64 \<or> \<not> list_all is_ascii_hexdigit pack_digest then Err (Backend (Some 400))
      else Ok (''idx/'' @ pack_digest))"

fun created_or_present :: "string \<Rightarrow> s3_reply \<Rightarrow> (StoreError, string) result" where
  "created_or_present key (Response st et cl b) =
     (if success_status st then Ok key else Err (Backend (Some st)))"
| "created_or_present key (HttpFailWithBody st) = (if st = 412 then Ok key else Err (Backend (Some st)))"
| "created_or_present key r = Err (Backend None)"

definition put_immutable :: "git_env \<Rightarrow> string \<Rightarrow> string \<Rightarrow> (StoreError, string) result prog" where
  "put_immutable E pre bytes =
     (let key = content_key E pre bytes
      in Call (PutObject key bytes IfNoneMatchStar) (\<lambda>r. Return (created_or_present key r)))"

definition put_pack :: "git_env \<Rightarrow> string \<Rightarrow> (StoreError, string) result prog" where
  "put_pack E bytes = put_immutable E ''packs'' bytes"

definition put_manifest :: "git_env \<Rightarrow> string \<Rightarrow> (StoreError, string) result prog" where
  "put_manifest E bytes = put_immutable E ''manifests'' bytes"

definition put_idx :: "string \<Rightarrow> string \<Rightarrow> (StoreError, string) result prog" where
  "put_idx pack_digest idx_bytes =
     (case idx_key_for_pack_digest pack_digest of
        Inl e \<Rightarrow> Return (Err e)
      | Inr key \<Rightarrow> Call (PutObject key idx_bytes IfNoneMatchStar) (\<lambda>r. Return (created_or_present key r)))"

fun got_object :: "string \<Rightarrow> s3_reply \<Rightarrow> (StoreError, string) result" where
  "got_object key (Response st et cl b) = Ok b"
| "got_object key (HttpFailWithBody st) = (if st = 404 then Err (NotFound key) else Err (Backend (Some st)))"
| "got_object key r = Err (Backend None)"

definition store_get :: "string \<Rightarrow> (StoreError, string) result prog" where
  "store_get key = Call (GetObject key) (\<lambda>r. Return (got_object key r))"

definition verify_digest :: "git_env \<Rightarrow> string \<Rightarrow> string \<Rightarrow> string \<Rightarrow> (StoreError, string) result" where
  "verify_digest E key expected bytes =
     (if ge_sha256_hex E bytes \<noteq> expected then Err (DigestMismatch key expected (ge_sha256_hex E bytes)) else Ok bytes)"

definition get_verified :: "git_env \<Rightarrow> string \<Rightarrow> string \<Rightarrow> (StoreError, string) result prog" where
  "get_verified E key expected = attempt (store_get key) (\<lambda>bytes. Return (verify_digest E key expected bytes))"

text \<open>\<open>u64::try_from(content_length).unwrap_or(u64::MAX)\<close>\<close>

definition header_size :: "int \<Rightarrow> nat" where
  "header_size n = (if n < 0 then 2 ^ 64 - 1 else nat n)"

fun head_check :: "string \<Rightarrow> nat \<Rightarrow> s3_reply \<Rightarrow> (StoreError, unit) result" where
  "head_check key max_bytes (Response st et cl b) =
     (if st = 404 then Err (NotFound key)
      else if \<not> success_status st then Err (Backend (Some st))
      else (case cl of
          Some n \<Rightarrow> if header_size n > max_bytes then Err (ObjectTooLarge key (header_size n) max_bytes) else Ok ()
        | None \<Rightarrow> Ok ()))"
| "head_check key max_bytes (HttpFailWithBody st) = (if st = 404 then Err (NotFound key) else Err (Backend (Some st)))"
| "head_check key max_bytes r = Err (Backend None)"

definition get_limited :: "string \<Rightarrow> nat \<Rightarrow> (StoreError, string) result prog" where
  "get_limited key max_bytes =
     attempt (Call (HeadObject key) (\<lambda>r. Return (head_check key max_bytes r)))
       (\<lambda>_. attempt (store_get key)
          (\<lambda>bytes. Return (if length bytes > max_bytes then Err (ObjectTooLarge key (length bytes) max_bytes) else Ok bytes)))"

definition get_verified_limited ::
    "git_env \<Rightarrow> string \<Rightarrow> string \<Rightarrow> nat \<Rightarrow> (StoreError, string) result prog" where
  "get_verified_limited E key expected max_bytes =
     attempt (get_limited key max_bytes) (\<lambda>bytes. Return (verify_digest E key expected bytes))"

definition get_idx :: "string \<Rightarrow> nat \<Rightarrow> (StoreError, string option) result prog" where
  "get_idx pack_digest max_bytes =
     (case idx_key_for_pack_digest pack_digest of
        Inl e \<Rightarrow> Return (Err e)
      | Inr key \<Rightarrow>
          bind (get_limited key max_bytes)
            (\<lambda>r. Return (case r of
                Inr bytes \<Rightarrow> Ok (Some bytes)
              | Inl (NotFound _) \<Rightarrow> Ok None
              | Inl e \<Rightarrow> Err e)))"

fun got_pointer :: "s3_reply \<Rightarrow> (StoreError, (string \<times> string) option) result" where
  "got_pointer (Response st et cl b) =
     (case et of Some e \<Rightarrow> Ok (Some (e, b)) | None \<Rightarrow> Err (Backend (Some 500)))"
| "got_pointer (HttpFailWithBody st) = (if st = 404 then Ok None else Err (Backend (Some st)))"
| "got_pointer r = Err (Backend None)"

definition get_pointer :: "string \<Rightarrow> (StoreError, (string \<times> string) option) result prog" where
  "get_pointer key = Call (GetObject key) (\<lambda>r. Return (got_pointer r))"

fun classify_cas :: "s3_reply \<Rightarrow> (StoreError, CasOutcome) result" where
  "classify_cas (Response st et cl b) =
     (if success_status st then (case et of Some e \<Rightarrow> Ok (Won e) | None \<Rightarrow> Err (Backend (Some st)))
      else Err (Backend (Some st)))"
| "classify_cas (HttpFailWithBody st) = (if st = 412 then Ok LostRace else Err (Backend (Some st)))"
| "classify_cas r = Err (Backend None)"

definition put_pointer :: "git_env \<Rightarrow> string \<Rightarrow> string \<Rightarrow> Precond \<Rightarrow> (StoreError, CasOutcome) result prog" where
  "put_pointer E key body pre =
     (if (case pre of IfMatch tag \<Rightarrow> \<not> ge_header_ok E tag | IfNoneMatchStar \<Rightarrow> False) then Return (Err (Backend (Some 400)))
      else Call (PutObject key body pre) (\<lambda>r. Return (classify_cas r)))"

section \<open>Hydration\<close>

definition MAX_MANIFEST_BYTES :: nat where "MAX_MANIFEST_BYTES = 4 * 1024 * 1024"

record HydratedRepo =
  hr_refs :: "string btree"
  hr_head :: "string option"
  hr_pack_files :: "(string \<times> string) list"
  hr_hydrated_bytes :: nat

datatype HydrateError =
    InvalidPointer
  | HydrateManifest ManifestError
  | HydrateStore StoreError
  | HydrateFailed
  | HydrateLimit

text \<open>
  What the local disk and the git subprocesses answer while a repository is hydrated: the scratch directory with
  \<^verbatim>\<open>git init\<close>; the pack cached under a digest, when it is and could be linked into the workspace; the steps of filling
  the cache; \<^verbatim>\<open>git verify-pack\<close> and \<^verbatim>\<open>git index-pack\<close>; the writing of refs and HEAD; and the configured limits.
\<close>

record pack_host =
  ph_scratch :: bool
  ph_cached :: "string \<Rightarrow> string option"
  ph_staged :: "string \<Rightarrow> bool"
  ph_pack_written :: "string \<Rightarrow> bool"
  ph_idx_written :: "string \<Rightarrow> bool"
  ph_idx_valid :: "string \<Rightarrow> string \<Rightarrow> bool"
  ph_index_pack :: "string \<Rightarrow> nat option"
  ph_installed :: "string \<Rightarrow> bool"
  ph_refs_written :: "Manifest \<Rightarrow> bool"
  ph_max_pack_bytes :: nat
  ph_max_repo_bytes :: nat

fun hydrate_store_error :: "StoreError \<Rightarrow> HydrateError" where
  "hydrate_store_error (ObjectTooLarge _ _ _) = HydrateLimit"
| "hydrate_store_error e = HydrateStore e"

definition hydrate_get_verified ::
    "git_env \<Rightarrow> string \<Rightarrow> string \<Rightarrow> nat \<Rightarrow> (HydrateError, string) result prog" where
  "hydrate_get_verified E key digest max_bytes = map_err hydrate_store_error (get_verified_limited E key digest max_bytes)"

text \<open>The digest in a pointer body, if it has the shape of one.\<close>

definition pointer_digest :: "string \<Rightarrow> string option" where
  "pointer_digest body =
     (case from_utf8 body of
        None \<Rightarrow> None
      | Some s \<Rightarrow> if length (trim s) \<noteq> 64 \<or> \<not> list_all is_ascii_hexdigit (trim s) then None else Some (trim s))"

definition load_pointer ::
    "git_env \<Rightarrow> uuid \<Rightarrow> string \<Rightarrow> string \<Rightarrow> (HydrateError, (string \<times> string \<times> Manifest) option) result prog" where
  "load_pointer E community owner repo =
     attempt (map_err HydrateStore (get_pointer (pointer_key community owner repo)))
       (\<lambda>p. case p of
          None \<Rightarrow> Return (Ok None)
        | Some (etag, body) \<Rightarrow>
            (case pointer_digest body of
               None \<Rightarrow> Return (Err InvalidPointer)
             | Some digest \<Rightarrow>
                 attempt (hydrate_get_verified E (''manifests/'' @ digest) digest MAX_MANIFEST_BYTES)
                   (\<lambda>bytes. Return
                      (case manifest_from_bytes (ge_codec E) bytes of
                         Inl e \<Rightarrow> Err (HydrateManifest e)
                       | Inr m \<Rightarrow>
                           (case validate_manifest m of
                              Inl e \<Rightarrow> Err (HydrateManifest e)
                            | Inr _ \<Rightarrow> Ok (Some (etag, digest, m)))))))"

definition generate_idx :: "pack_host \<Rightarrow> string \<Rightarrow> nat \<Rightarrow> (HydrateError, unit) result" where
  "generate_idx H digest max_bytes =
     (case ph_index_pack H digest of
        None \<Rightarrow> Err HydrateFailed
      | Some idx_size \<Rightarrow> if idx_size > max_bytes then Err HydrateLimit else Ok ())"

definition install_or_generate_idx :: "pack_host \<Rightarrow> string \<Rightarrow> nat \<Rightarrow> (HydrateError, unit) result prog" where
  "install_or_generate_idx H digest max_bytes =
     bind (get_idx digest max_bytes)
       (\<lambda>r. Return (case r of
           Inr (Some idx_bytes) \<Rightarrow>
             if \<not> ph_idx_written H digest then Err HydrateFailed
             else if ph_idx_valid H digest idx_bytes then Ok ()
             else generate_idx H digest max_bytes
         | _ \<Rightarrow> generate_idx H digest max_bytes))"

definition populate ::
    "git_env \<Rightarrow> pack_host \<Rightarrow> string \<Rightarrow> string \<Rightarrow> nat \<Rightarrow> (HydrateError, string) result prog" where
  "populate E H key digest max_bytes =
     (if \<not> ph_staged H digest then Return (Err HydrateFailed)
      else attempt (hydrate_get_verified E key digest max_bytes)
        (\<lambda>bytes.
           if \<not> ph_pack_written H digest then Return (Err HydrateFailed)
           else attempt (install_or_generate_idx H digest max_bytes)
             (\<lambda>_. Return (if ph_installed H digest then Ok bytes else Err HydrateFailed))))"

definition materialize_pack ::
    "git_env \<Rightarrow> pack_host \<Rightarrow> string \<Rightarrow> string \<Rightarrow> nat \<Rightarrow> (HydrateError, string) result prog" where
  "materialize_pack E H key digest max_bytes =
     (if length digest \<noteq> 64 \<or> \<not> list_all is_ascii_hexdigit digest then Return (Err HydrateFailed)
      else (case ph_cached H digest of
          Some body \<Rightarrow> Return (Ok body)
        | None \<Rightarrow> populate E H key digest max_bytes))"

fun materialize_packs ::
    "git_env \<Rightarrow> pack_host \<Rightarrow> string list \<Rightarrow> nat \<Rightarrow> (string \<times> string) list
      \<Rightarrow> (HydrateError, nat \<times> (string \<times> string) list) result prog" where
  "materialize_packs E H [] sofar files = Return (Ok (sofar, files))"
| "materialize_packs E H (key # keys) sofar files =
     (case strip_prefix_str ''packs/'' key of
        None \<Rightarrow> Return (Err HydrateFailed)
      | Some digest \<Rightarrow>
          attempt (materialize_pack E H key digest (ph_max_pack_bytes H))
            (\<lambda>body.
               if length body > ph_max_pack_bytes H then Return (Err HydrateLimit)
               else (case u64_checked_add sofar (length body) of
                   None \<Rightarrow> Return (Err HydrateLimit)
                 | Some sofar' \<Rightarrow>
                     if sofar' > ph_max_repo_bytes H then Return (Err HydrateLimit)
                     else materialize_packs E H keys sofar' (files @ [(digest, body)]))))"

definition materialize_manifest ::
    "git_env \<Rightarrow> pack_host \<Rightarrow> Manifest \<Rightarrow> (HydrateError, HydratedRepo) result prog" where
  "materialize_manifest E H m =
     (if \<not> ph_scratch H then Return (Err HydrateFailed)
      else attempt (materialize_packs E H (mf_packs m) 0 [])
        (\<lambda>(sofar, files). Return
           (if \<not> list_all (\<lambda>(r, oid). is_safe_refname r \<and> is_hex_oid oid) (mf_refs m)
               \<or> \<not> is_safe_refname (mf_head m) \<or> \<not> ph_refs_written H m
            then Err HydrateFailed
            else Ok \<lparr>hr_refs = mf_refs m, hr_head = Some (mf_head m), hr_pack_files = files,
                      hr_hydrated_bytes = sofar\<rparr>)))"

definition load_manifest_for_read ::
    "git_env \<Rightarrow> uuid \<Rightarrow> string \<Rightarrow> string \<Rightarrow> (HydrateError, Manifest option) result prog" where
  "load_manifest_for_read E community owner repo =
     attempt (load_pointer E community owner repo)
       (\<lambda>p. Return (Ok (map_option (\<lambda>(_, _, m). m) p)))"

definition hydrate_for_read ::
    "git_env \<Rightarrow> pack_host \<Rightarrow> uuid \<Rightarrow> string \<Rightarrow> string \<Rightarrow> (HydrateError, HydratedRepo option) result prog" where
  "hydrate_for_read E H community owner repo =
     attempt (load_pointer E community owner repo)
       (\<lambda>p. case p of
          None \<Rightarrow> Return (Ok None)
        | Some (_, _, m) \<Rightarrow> attempt (materialize_manifest E H m) (\<lambda>r. Return (Ok (Some r))))"

record ParentState =
  ps_if_match :: "string option"
  ps_parent_digest :: "string option"
  ps_parent :: Manifest

definition ParentState_fresh :: ParentState where
  "ParentState_fresh =
     \<lparr>ps_if_match = None, ps_parent_digest = None,
      ps_parent = \<lparr>mf_version = MANIFEST_VERSION, mf_head = [], mf_refs = [], mf_packs = [], mf_parent = None\<rparr>\<rparr>"

definition ParentState_from_loaded :: "string \<Rightarrow> string \<Rightarrow> Manifest \<Rightarrow> ParentState" where
  "ParentState_from_loaded etag digest m =
     \<lparr>ps_if_match = Some etag, ps_parent_digest = Some digest, ps_parent = m\<rparr>"

definition hydrate_for_write ::
    "git_env \<Rightarrow> pack_host \<Rightarrow> uuid \<Rightarrow> string \<Rightarrow> string
      \<Rightarrow> (HydrateError, HydratedRepo \<times> ParentState) result prog" where
  "hydrate_for_write E H community owner repo =
     attempt (load_pointer E community owner repo)
       (\<lambda>p. case p of
          Some (etag, digest, m) \<Rightarrow>
            attempt (materialize_manifest E H m)
              (\<lambda>r. Return (Ok (r, ParentState_from_loaded etag digest m)))
        | None \<Rightarrow>
            if \<not> ph_scratch H then Return (Err HydrateFailed)
            else Return (Ok (\<lparr>hr_refs = [], hr_head = None, hr_pack_files = [], hr_hydrated_bytes = 0\<rparr>,
                             ParentState_fresh)))"

section \<open>Publication of a push\<close>

definition MAX_COMPACTION_OBJECTS :: nat where "MAX_COMPACTION_OBJECTS = 1000000"
definition MAX_COUNT_OBJECTS_OUTPUT_BYTES :: nat where "MAX_COUNT_OBJECTS_OUTPUT_BYTES = 64 * 1024"

datatype CasError =
    Conflict Manifest string
  | ManifestReadFailed
  | ManifestInvalid ManifestError
  | CasBackend StoreError
  | PackCapture
  | CasResourceLimit

record PublishLimits =
  pl_parent_hydrated_bytes :: nat
  pl_max_pack_bytes :: nat
  pl_max_repo_bytes :: nat

text \<open>One pack file of a compaction: the sizes its metadata gives, and what reading the pack and its index gives.\<close>

record CompactedPack =
  cp_pack_bytes :: nat
  cp_idx_bytes :: "nat option"
  cp_pack_read :: "string option"
  cp_idx_read :: "string option"

text \<open>
  A buffered git subprocess: it could not be run or its output not be read, it exceeded its deadline, or it exited,
  with what it wrote and whether its status is success.
\<close>

datatype git_process = GitFailed | GitElapsed | GitExited string bool

text \<open>
  What the hook installation and the git subprocesses of one push answer in its workspace (\<open>None\<close>: the command could
  not be run or failed): \<^verbatim>\<open>receive-pack\<close>, \<^verbatim>\<open>for-each-ref\<close>, \<^verbatim>\<open>symbolic-ref\<close>
  (the inner \<open>None\<close>: a non-zero exit), \<^verbatim>\<open>count-objects\<close>, \<^verbatim>\<open>pack-objects\<close> on its input with and without an output base, and
  \<^verbatim>\<open>index-pack\<close> on a pack; and whether the compaction permit was obtained in time.
\<close>

record push_git =
  pg_hook :: bool
  pg_receive :: git_process
  pg_for_each_ref :: "string option"
  pg_symbolic_ref :: "string option option"
  pg_permit :: bool
  pg_count_objects :: "string option"
  pg_compact :: "string \<Rightarrow> CompactedPack list option"
  pg_pack_objects :: "string \<Rightarrow> string option"
  pg_index_pack :: "string \<Rightarrow> string option"

record CasSuccess =
  cs_manifest :: Manifest
  cs_manifest_key :: string

text \<open>The symbolic HEAD; a HEAD that is no branch reads as empty.\<close>

definition snapshot_workspace_state :: "push_git \<Rightarrow> (CasError, string btree \<times> string) result" where
  "snapshot_workspace_state G =
     (case pg_for_each_ref G of
        None \<Rightarrow> Err PackCapture
      | Some stdout \<Rightarrow>
          if length stdout > MAX_REF_SNAPSHOT_BYTES then Err CasResourceLimit
          else (case parse_ref_listing stdout of
              None \<Rightarrow> Err CasResourceLimit
            | Some refs \<Rightarrow>
                (case pg_symbolic_ref G of
                   None \<Rightarrow> Err PackCapture
                 | Some None \<Rightarrow> Ok (refs, [])
                 | Some (Some out) \<Rightarrow> Ok (refs, trim out))))"

definition digest_from_pack_key :: "string \<Rightarrow> (CasError, string) result" where
  "digest_from_pack_key key =
     (case strip_prefix_str ''packs/'' key of
        Some digest \<Rightarrow>
          if length digest = 64 \<and> list_all is_ascii_hexdigit digest then Ok digest
          else Err (CasBackend (Backend (Some 500)))
      | None \<Rightarrow> Err (CasBackend (Backend (Some 500))))"

definition digest_from_manifest_key :: "string \<Rightarrow> (CasError, string) result" where
  "digest_from_manifest_key key =
     (case strip_prefix_str ''manifests/'' key of
        Some digest \<Rightarrow> Ok digest
      | None \<Rightarrow> Err (CasBackend (Backend (Some 500))))"

definition write_idx_sidecar :: "push_git \<Rightarrow> string \<Rightarrow> string \<Rightarrow> (CasError, unit) result prog" where
  "write_idx_sidecar G pack_key pack_bytes =
     (case digest_from_pack_key pack_key of
        Inl e \<Rightarrow> Return (Err e)
      | Inr pack_digest \<Rightarrow>
          (case pg_index_pack G pack_bytes of
             None \<Rightarrow> Return (Err PackCapture)
           | Some idx_bytes \<Rightarrow> attempt (map_err CasBackend (put_idx pack_digest idx_bytes)) (\<lambda>_. Return (Ok ()))))"

definition capture_pack ::
    "push_git \<Rightarrow> string btree \<Rightarrow> string btree \<Rightarrow> nat \<Rightarrow> (CasError, string option) result" where
  "capture_pack G refs_before refs_after max_pack_bytes =
     (case pack_objects_stdin refs_before refs_after of
        None \<Rightarrow> Ok None
      | Some stdin \<Rightarrow>
          (case pg_pack_objects G stdin of
             None \<Rightarrow> Err PackCapture
           | Some stdout \<Rightarrow>
               if length stdout > max_pack_bytes then Err CasResourceLimit
               else if stdout = [] then Ok None
               else Ok (Some stdout)))"

definition enforce_compaction_object_limit :: "push_git \<Rightarrow> (CasError, unit) result" where
  "enforce_compaction_object_limit G =
     (case pg_count_objects G of
        None \<Rightarrow> Err PackCapture
      | Some output \<Rightarrow>
          if length output > MAX_COUNT_OBJECTS_OUTPUT_BYTES then Err CasResourceLimit
          else (case parse_count output ''count:'' of
              None \<Rightarrow> Err PackCapture
            | Some loose \<Rightarrow>
                (case parse_count output ''in-pack:'' of
                   None \<Rightarrow> Err PackCapture
                 | Some packed \<Rightarrow>
                     (case u64_checked_add (unat loose) (unat packed) of
                        None \<Rightarrow> Err CasResourceLimit
                      | Some object_count \<Rightarrow>
                          if object_count > MAX_COMPACTION_OBJECTS then Err CasResourceLimit else Ok ()))))"

text \<open>The loop over the pack files, with the bytes so far.\<close>

fun check_compacted :: "PublishLimits \<Rightarrow> CompactedPack list \<Rightarrow> nat \<Rightarrow> (CasError, nat) result" where
  "check_compacted L [] sofar = Ok sofar"
| "check_compacted L (p # ps) sofar =
     (if cp_pack_bytes p > pl_max_pack_bytes L then Err CasResourceLimit
      else (case u64_checked_add sofar (cp_pack_bytes p) of
          None \<Rightarrow> Err CasResourceLimit
        | Some sofar' \<Rightarrow>
            if sofar' > pl_max_repo_bytes L then Err CasResourceLimit
            else (case cp_idx_bytes p of
                None \<Rightarrow> Err PackCapture
              | Some idx_bytes \<Rightarrow>
                  if idx_bytes > pl_max_pack_bytes L then Err CasResourceLimit
                  else check_compacted L ps sofar')))"

definition capture_compacted_packs ::
    "push_git \<Rightarrow> string btree \<Rightarrow> PublishLimits \<Rightarrow> (CasError, CompactedPack list) result" where
  "capture_compacted_packs G refs_after L =
     (if refs_after = [] then Ok []
      else (case enforce_compaction_object_limit G of
          Inl e \<Rightarrow> Err e
        | Inr _ \<Rightarrow>
            (case pg_compact G (compaction_stdin refs_after) of
               None \<Rightarrow> Err PackCapture
             | Some packs \<Rightarrow>
                 if length packs > MAX_MANIFEST_PACKS then Err CasResourceLimit
                 else (case check_compacted L packs 0 of Inl e \<Rightarrow> Err e | Inr _ \<Rightarrow> Ok packs))))"

fun upload_compacted_packs ::
    "git_env \<Rightarrow> CompactedPack list \<Rightarrow> string list \<Rightarrow> (CasError, string list) result prog" where
  "upload_compacted_packs E [] keys = Return (Ok (sort_dedup keys))"
| "upload_compacted_packs E (p # ps) keys =
     (case cp_pack_read p of
        None \<Rightarrow> Return (Err PackCapture)
      | Some pack_bytes \<Rightarrow>
          if length pack_bytes \<noteq> cp_pack_bytes p then Return (Err PackCapture)
          else attempt (map_err CasBackend (put_pack E pack_bytes))
            (\<lambda>pack_key. case digest_from_pack_key pack_key of
                Inl e \<Rightarrow> Return (Err e)
              | Inr pack_digest \<Rightarrow>
                  (case cp_idx_read p of
                     None \<Rightarrow> upload_compacted_packs E ps (keys @ [pack_key])
                   | Some idx_bytes \<Rightarrow>
                       bind (put_idx pack_digest idx_bytes)
                         (\<lambda>_. upload_compacted_packs E ps (keys @ [pack_key])))))"

definition prepare_compaction ::
    "git_env \<Rightarrow> push_git \<Rightarrow> string btree \<Rightarrow> PublishLimits \<Rightarrow> nat \<Rightarrow> (CasError, string list) result prog" where
  "prepare_compaction E G refs_after L packs_before =
     (case capture_compacted_packs G refs_after L of
        Inl e \<Rightarrow> Return (Err e)
      | Inr packs \<Rightarrow>
          if \<not> compacted_pack_set_is_usable packs_before (length packs) then Return (Err CasResourceLimit)
          else upload_compacted_packs E packs [])"

text \<open>The attempt to compact: \<open>None\<close> when the parent has few packs, else the keys of the packs or why it failed.\<close>

definition try_compaction ::
    "git_env \<Rightarrow> push_git \<Rightarrow> string btree \<Rightarrow> PublishLimits \<Rightarrow> nat \<Rightarrow> nat
      \<Rightarrow> (CasError, string list) result option prog" where
  "try_compaction E G refs_after L threshold packs_before =
     (if \<not> should_compact packs_before threshold then Return None
      else if \<not> pg_permit G then Return (Some (Err PackCapture))
      else bind (deadline (prepare_compaction E G refs_after L packs_before))
        (\<lambda>r. Return (Some (case r of Some res \<Rightarrow> res | None \<Rightarrow> Err PackCapture))))"

definition upload_delta ::
    "git_env \<Rightarrow> push_git \<Rightarrow> PublishLimits \<Rightarrow> string option \<Rightarrow> (CasError, string option) result prog" where
  "upload_delta E G L pack_bytes =
     (case pack_bytes of
        None \<Rightarrow> Return (Ok None)
      | Some bytes \<Rightarrow>
          (case u64_checked_add (pl_parent_hydrated_bytes L) (length bytes) of
             None \<Rightarrow> Return (Err CasResourceLimit)
           | Some total_bytes \<Rightarrow>
               if total_bytes > pl_max_repo_bytes L then Return (Err CasResourceLimit)
               else attempt (map_err CasBackend (put_pack E bytes))
                 (\<lambda>pack_key. bind (write_idx_sidecar G pack_key bytes) (\<lambda>_. Return (Ok (Some pack_key))))))"

text \<open>The manifest of the push, by compaction or as the parent's packs with a delta.\<close>

definition manifest_after ::
    "git_env \<Rightarrow> push_git \<Rightarrow> ParentState \<Rightarrow> PublishLimits \<Rightarrow> nat \<Rightarrow> string btree \<Rightarrow> string
      \<Rightarrow> (CasError, Manifest) result prog" where
  "manifest_after E G parent L threshold refs_after head =
     (let packs_before = length (mf_packs (ps_parent parent))
      in bind (try_compaction E G refs_after L threshold packs_before)
        (\<lambda>compaction. case compaction of
           Some (Inr keys) \<Rightarrow>
             Return (Ok (compose_compacted_after (ps_parent_digest parent) head refs_after keys))
         | _ \<Rightarrow>
             (case capture_pack G (mf_refs (ps_parent parent)) refs_after (pl_max_pack_bytes L) of
                Inl e \<Rightarrow> Return (Err e)
              | Inr pack_bytes \<Rightarrow>
                  if pack_bytes \<noteq> None \<and> packs_before \<ge> MAX_MANIFEST_PACKS
                  then Return (Err (case compaction of Some (Inl e) \<Rightarrow> e | _ \<Rightarrow> CasResourceLimit))
                  else attempt (upload_delta E G L pack_bytes)
                    (\<lambda>new_pack_key. Return (Ok
                       (compose_after (ps_parent parent) (ps_parent_digest parent) head refs_after new_pack_key))))))"

fun winner_store_error :: "StoreError \<Rightarrow> CasError" where
  "winner_store_error (DigestMismatch _ _ _) = ManifestReadFailed"
| "winner_store_error (NotFound _) = ManifestReadFailed"
| "winner_store_error e = CasBackend e"

definition read_winner_after_conflict :: "git_env \<Rightarrow> string \<Rightarrow> (CasError, Manifest \<times> string) result prog" where
  "read_winner_after_conflict E pkey =
     attempt (map_err CasBackend (get_pointer pkey))
       (\<lambda>p. case p of
          None \<Rightarrow> Return (Err ManifestReadFailed)
        | Some (_, body) \<Rightarrow>
            (case pointer_digest body of
               None \<Rightarrow> Return (Err ManifestReadFailed)
             | Some digest \<Rightarrow>
                 attempt (map_err winner_store_error (get_verified E (''manifests/'' @ digest) digest))
                   (\<lambda>bytes. Return
                      (case manifest_from_bytes (ge_codec E) bytes of
                         Inl e \<Rightarrow> Err ManifestReadFailed
                       | Inr winner \<Rightarrow> Ok (winner, ''manifests/'' @ digest)))))"

text \<open>Steps 6 and 7: the manifest is validated and written, then the pointer is swapped.\<close>

definition install_manifest ::
    "git_env \<Rightarrow> string \<Rightarrow> ParentState \<Rightarrow> Manifest \<Rightarrow> (CasError, CasSuccess) result prog" where
  "install_manifest E pkey parent m_after =
     (case validate_manifest m_after of
        Inl e \<Rightarrow> Return (Err (ManifestInvalid e))
      | Inr _ \<Rightarrow>
          (case canonical_bytes (ge_codec E) m_after of
             Inl e \<Rightarrow> Return (Err (ManifestInvalid e))
           | Inr manifest_bytes \<Rightarrow>
               attempt (map_err CasBackend (put_manifest E manifest_bytes))
                 (\<lambda>manifest_key. case digest_from_manifest_key manifest_key of
                    Inl e \<Rightarrow> Return (Err e)
                  | Inr manifest_digest \<Rightarrow>
                      attempt (map_err CasBackend
                          (put_pointer E pkey manifest_digest
                            (case ps_if_match parent of Some e \<Rightarrow> IfMatch e | None \<Rightarrow> IfNoneMatchStar)))
                        (\<lambda>outcome. case outcome of
                           Won _ \<Rightarrow> Return (Ok \<lparr>cs_manifest = m_after, cs_manifest_key = manifest_key\<rparr>)
                         | LostRace \<Rightarrow>
                             attempt (read_winner_after_conflict E pkey)
                               (\<lambda>(winner, key). Return (Err (Conflict winner key)))))))"

definition cas_publish_inner ::
    "git_env \<Rightarrow> push_git \<Rightarrow> uuid \<Rightarrow> string \<Rightarrow> string \<Rightarrow> ParentState \<Rightarrow> PublishLimits \<Rightarrow> nat
      \<Rightarrow> (CasError, CasSuccess) result prog" where
  "cas_publish_inner E G community owner repo parent L threshold =
     (case snapshot_workspace_state G of
        Inl e \<Rightarrow> Return (Err e)
      | Inr (refs_after, head_observed) \<Rightarrow>
          attempt (manifest_after E G parent L threshold refs_after
              (resolve_published_head refs_after head_observed (mf_head (ps_parent parent))))
            (install_manifest E (pointer_key community owner repo) parent))"

definition cas_publish ::
    "git_env \<Rightarrow> push_git \<Rightarrow> uuid \<Rightarrow> string \<Rightarrow> string \<Rightarrow> ParentState \<Rightarrow> PublishLimits
      \<Rightarrow> (CasError, CasSuccess) result prog" where
  "cas_publish E G community owner repo parent L =
     cas_publish_inner E G community owner repo parent L PACK_COMPACTION_THRESHOLD"

section \<open>The handlers\<close>

text \<open>The response of a push, with what \<open>cas_publish\<close> returned and the ref-state event handed to the database.\<close>

record push_outcome =
  po_response :: git_response
  po_publish :: "(CasError, CasSuccess) result option"
  po_event :: "string option"

definition no_publish :: "git_response \<Rightarrow> push_outcome" where
  "no_publish r = \<lparr>po_response = r, po_publish = None, po_event = None\<rparr>"

fun cas_error_response :: "CasError \<Rightarrow> git_response" where
  "cas_error_response (Conflict _ _) = (409, ''push superseded by a concurrent writer; pull and retry'')"
| "cas_error_response (ManifestInvalid _) = (400, ''push produced invalid manifest state'')"
| "cas_error_response CasResourceLimit = (413, ''repository exceeds relay resource limits'')"
| "cas_error_response _ = (500, ''git backend error'')"

definition manifest_changed :: "ParentState \<Rightarrow> CasSuccess \<Rightarrow> bool" where
  "manifest_changed parent success =
     (case (ps_parent_digest parent, strip_prefix_str ''manifests/'' (cs_manifest_key success)) of
        (Some before, Some after) \<Rightarrow> before \<noteq> after
      | _ \<Rightarrow> True)"

definition ref_state_event :: "git_env \<Rightarrow> string \<Rightarrow> string \<Rightarrow> ParentState \<Rightarrow> CasSuccess \<Rightarrow> string option" where
  "ref_state_event E repo_d pusher parent success =
     (if manifest_changed parent success
      then (case build_ref_state_event (ge_public_key_ok E) (ge_sign E)
                \<lparr>rs_repo_id = repo_d, rs_head = mf_head (cs_manifest success),
                 rs_refs = mf_refs (cs_manifest success), rs_actor_pubkey_hex = pusher\<rparr> of
              Inl _ \<Rightarrow> None
            | Inr ev \<Rightarrow> Some ev)
      else None)"

definition RECEIVE_PACK_MAX_OUTPUT_BYTES :: nat where "RECEIVE_PACK_MAX_OUTPUT_BYTES = 1024 * 1024"

record PackOutput =
  pk_stdout :: string
  pk_ok :: bool

definition run_git_at :: "string \<Rightarrow> git_process \<Rightarrow> nat \<Rightarrow> (git_response, PackOutput) result" where
  "run_git_at service process max_output_bytes =
     (case process of
        GitFailed \<Rightarrow> Err (500, ''git error'')
      | GitElapsed \<Rightarrow> Err (504, ''git operation timed out'')
      | GitExited stdout status_success \<Rightarrow>
          if length stdout > max_output_bytes then Err (413, ''git output exceeds relay limits'')
          else Ok \<lparr>pk_stdout = stdout,
                   pk_ok = status_success \<and> \<not> (service = ''receive-pack'' \<and> receive_pack_report_rejected stdout)\<rparr>)"

text \<open>\<open>PublishLimits\<close> of a push: what its workspace weighs, and the configured limits.\<close>

definition push_limits :: "pack_host \<Rightarrow> HydratedRepo \<Rightarrow> PublishLimits" where
  "push_limits H workspace =
     \<lparr>pl_parent_hydrated_bytes = hr_hydrated_bytes workspace,
      pl_max_pack_bytes = ph_max_pack_bytes H, pl_max_repo_bytes = ph_max_repo_bytes H\<rparr>"

definition finalize_push ::
    "git_env \<Rightarrow> push_git \<Rightarrow> uuid \<Rightarrow> string \<Rightarrow> string \<Rightarrow> string \<Rightarrow> string \<Rightarrow> ParentState \<Rightarrow> PublishLimits
      \<Rightarrow> PackOutput \<Rightarrow> push_outcome prog" where
  "finalize_push E G community owner repo repo_d pusher parent L pack =
     (if \<not> pk_ok pack then Return (no_publish (200, pk_stdout pack))
      else bind (cas_publish E G community owner repo parent L)
        (\<lambda>r. Return (case r of
            Inl e \<Rightarrow> \<lparr>po_response = cas_error_response e, po_publish = Some (Err e), po_event = None\<rparr>
          | Inr success \<Rightarrow>
              \<lparr>po_response = (200, pk_stdout pack), po_publish = Some (Ok success),
               po_event = ref_state_event E repo_d pusher parent success\<rparr>)))"

fun hydrate_error_to_response :: "HydrateError \<Rightarrow> git_response" where
  "hydrate_error_to_response HydrateLimit = (413, ''repository exceeds relay resource limits'')"
| "hydrate_error_to_response _ = (500, ''git backend hydration failed'')"

definition git_busy :: git_response where "git_busy = (503, ''git service busy'')"

text \<open>A push: the git side is a function of the workspace it runs in; \<open>permit\<close> is the git semaphore.\<close>

definition receive_pack ::
    "git_env \<Rightarrow> pack_host \<Rightarrow> (HydratedRepo \<Rightarrow> push_git) \<Rightarrow> bool \<Rightarrow> uuid \<Rightarrow> string \<Rightarrow> string \<Rightarrow> string
      \<Rightarrow> push_outcome prog" where
  "receive_pack E H G permit community owner repo pusher =
     (case validate_repo_id owner repo of
        Inl resp \<Rightarrow> Return (no_publish resp)
      | Inr repo_name \<Rightarrow>
          if \<not> permit then Return (no_publish git_busy)
          else bind (hydrate_for_write E H community owner repo)
            (\<lambda>r. case r of
               Inl e \<Rightarrow> Return (no_publish (hydrate_error_to_response e))
             | Inr (workspace, parent) \<Rightarrow>
                 if \<not> pg_hook (G workspace) then Return (no_publish (500, ''git hook install failed''))
                 else (case run_git_at ''receive-pack'' (pg_receive (G workspace)) RECEIVE_PACK_MAX_OUTPUT_BYTES of
                     Inl resp \<Rightarrow> Return (no_publish resp)
                   | Inr pack \<Rightarrow>
                       finalize_push E (G workspace) community owner repo repo_name pusher parent
                         (push_limits H workspace) pack)))"

text \<open>What a read serves: an advertisement built from a manifest, or a hydrated repository for a git subprocess.\<close>

datatype served = FromManifest Manifest string | FromRepo HydratedRepo

definition serve_from_repo ::
    "git_env \<Rightarrow> pack_host \<Rightarrow> bool \<Rightarrow> uuid \<Rightarrow> string \<Rightarrow> string \<Rightarrow> (git_response, served) result prog" where
  "serve_from_repo E H permit community owner repo =
     (if \<not> permit then Return (Err git_busy)
      else bind (hydrate_for_read E H community owner repo)
        (\<lambda>r. Return (case r of
            Inl e \<Rightarrow> Err (hydrate_error_to_response e)
          | Inr None \<Rightarrow> Err not_found
          | Inr (Some workspace) \<Rightarrow> Ok (FromRepo workspace))))"

definition info_refs ::
    "git_env \<Rightarrow> policy_env \<Rightarrow> pack_host \<Rightarrow> bool \<Rightarrow> uuid \<Rightarrow> string \<Rightarrow> string \<Rightarrow> string \<Rightarrow> string
      \<Rightarrow> (git_response, served) result prog" where
  "info_refs E P H permit community caller service owner repo =
     (if service \<noteq> ''git-upload-pack'' \<and> service \<noteq> ''git-receive-pack'' then Return (Err (400, ''invalid service''))
      else (case validate_repo_id owner repo of
          Inl resp \<Rightarrow> Return (Err resp)
        | Inr repo_name \<Rightarrow>
            (case authorize_git_read P community caller owner repo_name of
               Inl resp \<Rightarrow> Return (Err resp)
             | Inr _ \<Rightarrow>
                 if service = ''git-upload-pack''
                 then bind (load_manifest_for_read E community owner repo)
                   (\<lambda>r. case r of
                      Inl e \<Rightarrow> Return (Err (hydrate_error_to_response e))
                    | Inr None \<Rightarrow> Return (Err not_found)
                    | Inr (Some m) \<Rightarrow>
                        if fast_path_eligible m
                        then (case build_upload_pack_advertisement m of
                            Some body \<Rightarrow> Return (Ok (FromManifest m body))
                          | None \<Rightarrow> Return (Err (500, [])))
                        else serve_from_repo E H permit community owner repo)
                 else serve_from_repo E H permit community owner repo)))"

definition upload_pack ::
    "git_env \<Rightarrow> policy_env \<Rightarrow> pack_host \<Rightarrow> bool \<Rightarrow> uuid \<Rightarrow> string \<Rightarrow> string \<Rightarrow> string
      \<Rightarrow> (git_response, served) result prog" where
  "upload_pack E P H permit community caller owner repo =
     (case validate_repo_id owner repo of
        Inl resp \<Rightarrow> Return (Err resp)
      | Inr repo_name \<Rightarrow>
          (case authorize_git_read P community caller owner repo_name of
             Inl resp \<Rightarrow> Return (Err resp)
           | Inr _ \<Rightarrow> serve_from_repo E H permit community owner repo))"

section \<open>Announcing a repository\<close>

definition DEFAULT_HEAD :: string where "DEFAULT_HEAD = ''refs/heads/main''"

definition empty_manifest :: Manifest where
  "empty_manifest =
     \<lparr>mf_version = MANIFEST_VERSION, mf_head = DEFAULT_HEAD, mf_refs = [], mf_packs = [], mf_parent = None\<rparr>"

definition seed_manifest_pointer ::
    "git_env \<Rightarrow> uuid \<Rightarrow> string \<Rightarrow> string \<Rightarrow> (unit, unit) result prog" where
  "seed_manifest_pointer E community owner_hex repo_d =
     (case validate_manifest empty_manifest of
        Inl e \<Rightarrow> Return (Err ())
      | Inr _ \<Rightarrow>
          (case canonical_bytes (ge_codec E) empty_manifest of
             Inl e \<Rightarrow> Return (Err ())
           | Inr bytes \<Rightarrow>
               attempt (map_err (\<lambda>_. ()) (put_manifest E bytes))
                 (\<lambda>manifest_key. case strip_prefix_str ''manifests/'' manifest_key of
                    None \<Rightarrow> Return (Err ())
                  | Some digest \<Rightarrow>
                      attempt (map_err (\<lambda>_. ())
                          (put_pointer E (pointer_key community owner_hex repo_d) digest IfNoneMatchStar))
                        (\<lambda>outcome. case outcome of
                           Won _ \<Rightarrow> Return (Ok ())
                         | LostRace \<Rightarrow>
                             attempt (map_err (\<lambda>_. ()) (get_pointer (pointer_key community owner_hex repo_d)))
                               (\<lambda>p. Return (case p of
                                   None \<Rightarrow> Err ()
                                 | Some (_, body) \<Rightarrow>
                                     (case from_utf8 body of
                                        None \<Rightarrow> Err ()
                                      | Some s \<Rightarrow> if trim s \<noteq> digest then Err () else Ok ())))))))"

definition ensure_manifest_pointer ::
    "git_env \<Rightarrow> uuid \<Rightarrow> string \<Rightarrow> string \<Rightarrow> (unit, unit) result prog" where
  "ensure_manifest_pointer E community owner_hex repo_d =
     attempt (map_err (\<lambda>_. ()) (get_pointer (pointer_key community owner_hex repo_d)))
       (\<lambda>existing. case existing of
          Some _ \<Rightarrow> Return (Ok ())
        | None \<Rightarrow> seed_manifest_pointer E community owner_hex repo_d)"

datatype ReserveOutcome = Reserved | AlreadyOwned | TakenByOther

text \<open>
  What the name registry answers during one announcement: the holder of the name, how many names the owner has, the
  outcome of the claim; the limit is configuration.
\<close>

record name_registry =
  nr_holder :: "(unit, string option) result"
  nr_owned :: "(unit, nat) result"
  nr_limit :: nat
  nr_reserve :: "(unit, ReserveOutcome) result"

definition claim_name :: "name_registry \<Rightarrow> string \<Rightarrow> (unit, ReserveOutcome) result" where
  "claim_name N owner_hex =
     (case nr_holder N of
        Inl _ \<Rightarrow> Err ()
      | Inr (Some existing_owner) \<Rightarrow> if existing_owner \<noteq> owner_hex then Err () else Ok AlreadyOwned
      | Inr None \<Rightarrow>
          (case nr_owned N of
             Inl _ \<Rightarrow> Err ()
           | Inr owned \<Rightarrow>
               if owned \<ge> nr_limit N then Err ()
               else (case nr_reserve N of
                   Inl _ \<Rightarrow> Err ()
                 | Inr TakenByOther \<Rightarrow> Err ()
                 | Inr outcome \<Rightarrow> Ok outcome)))"

text \<open>The outcome of an announcement: accepted or not, the name released again, the initial ref-state event.\<close>

record announce_outcome =
  an_accepted :: bool
  an_released :: bool
  an_event :: "string option"

definition announce_refused :: announce_outcome where
  "announce_refused = \<lparr>an_accepted = False, an_released = False, an_event = None\<rparr>"

definition handle_git_repo_announcement ::
    "git_env \<Rightarrow> name_registry \<Rightarrow> uuid \<Rightarrow> string \<Rightarrow> string option \<Rightarrow> announce_outcome prog" where
  "handle_git_repo_announcement E N community owner_hex d_tag =
     (case d_tag of
        None \<Rightarrow> Return announce_refused
      | Some repo_d \<Rightarrow>
          if \<not> repo_name_ok repo_d then Return announce_refused
          else (case claim_name N owner_hex of
              Inl _ \<Rightarrow> Return announce_refused
            | Inr outcome \<Rightarrow>
                bind (if outcome = Reserved then seed_manifest_pointer E community owner_hex repo_d
                      else ensure_manifest_pointer E community owner_hex repo_d)
                  (\<lambda>r. Return (case r of
                      Inl _ \<Rightarrow> announce_refused\<lparr>an_released := (outcome = Reserved)\<rparr>
                    | Inr _ \<Rightarrow>
                        \<lparr>an_accepted = True, an_released = False,
                         an_event = (if outcome = Reserved
                            then (case build_ref_state_event (ge_public_key_ok E) (ge_sign E)
                                \<lparr>rs_repo_id = repo_d, rs_head = DEFAULT_HEAD, rs_refs = [],
                                 rs_actor_pubkey_hex = owner_hex\<rparr> of Inl _ \<Rightarrow> None | Inr ev \<Rightarrow> Some ev)
                            else None)\<rparr>))))"

end
