(* ===== verification/GitPublish.thy ===== *)
theory GitPublish
  imports GitStore "HOL-Library.Code_Target_Nat"
begin

text \<open>
  Why concurrent pushes to repositories kept as objects are safe (\<^verbatim>\<open>docs/git-on-object-storage.md\<close>). The object store
  is a service: a \<open>bucket\<close> whose history of versions and answers obey \<open>bucket_laws\<close>, the axioms A1 to A3 of that
  document, with lost replies, refused requests and crashes left free. A run interleaves any number of pushes, reads and
  announcements of any repositories request by request. The proof is rely-guarantee: \<open>keeps\<close> says that a program sends
  only permitted requests and ends in a stated result, whatever the other programs do to the store meanwhile.
\<close>

section \<open>The bucket\<close>

text \<open>A version of an object: its key, its ETag and its body. A history lists the versions, newest first.\<close>

type_synonym version = "string \<times> string \<times> string"

definition look :: "version list \<Rightarrow> string \<Rightarrow> (string \<times> string) option" where
  "look Hs k = map_of Hs k"

fun holds :: "Precond \<Rightarrow> (string \<times> string) option \<Rightarrow> bool" where
  "holds IfNoneMatchStar v = (v = None)"
| "holds (IfMatch tag) v = (case v of Some (e, _) \<Rightarrow> e = tag | None \<Rightarrow> False)"

text \<open>
  The documented answers to one request. A read answers the newest version; 404 means that there is none. A conditional
  write is applied only if its condition holds, an ETag names one content of its key, 412 means that the condition did
  not hold and nothing was written, and 2xx that it was written. Any other answer leaves open whether it was.
\<close>

fun s3_answers :: "version list \<Rightarrow> s3_request \<Rightarrow> version list \<Rightarrow> s3_reply \<Rightarrow> bool" where
  "s3_answers Hs (HeadObject k) Hs' r = (Hs' = Hs \<and> (r = HttpFailWithBody 404 \<longrightarrow> look Hs k = None))"
| "s3_answers Hs (GetObject k) Hs' r =
     (Hs' = Hs
      \<and> (case r of
           Response st et cl b \<Rightarrow> \<exists>e. look Hs k = Some (e, b) \<and> (et = None \<or> et = Some e)
         | HttpFailWithBody st \<Rightarrow> st = 404 \<longrightarrow> look Hs k = None
         | _ \<Rightarrow> True))"
| "s3_answers Hs (PutObject k b p) Hs' r =
     ((Hs' = Hs
       \<and> (case r of
            Response st et cl _ \<Rightarrow> \<not> success_status st
          | HttpFailWithBody st \<Rightarrow> st = 412 \<longrightarrow> \<not> holds p (look Hs k)
          | _ \<Rightarrow> True))
      \<or> (\<exists>e. Hs' = (k, e, b) # Hs \<and> holds p (look Hs k) \<and> (\<forall>b'. (k, e, b') \<in> set Hs \<longrightarrow> b' = b)
          \<and> r \<noteq> HttpFailWithBody 412
          \<and> (case r of Response st et cl _ \<Rightarrow> et = None \<or> et = Some e | _ \<Rightarrow> True)))"

text \<open>A bucket answers a request in a state; the number stands for what the service is free to choose.\<close>

record 's bucket =
  bk_history :: "'s \<Rightarrow> version list"
  bk_serve :: "'s \<Rightarrow> s3_request \<Rightarrow> nat \<Rightarrow> 's \<times> s3_reply"

definition bucket_laws :: "'s bucket \<Rightarrow> bool" where
  "bucket_laws K =
     (\<forall>s q c. case bk_serve K s q c of (s', r) \<Rightarrow> s3_answers (bk_history K s) q (bk_history K s') r)"

section \<open>Runs\<close>

text \<open>A schedule names the task whose request is served next, and the choice of the service.\<close>

fun run_tasks ::
    "'s bucket \<Rightarrow> (nat \<times> nat) list \<Rightarrow> 's \<times> 'r prog list \<times> s3_request list \<Rightarrow> 's \<times> 'r prog list \<times> s3_request list" where
  "run_tasks K [] st = st"
| "run_tasks K ((i, c) # sched) (s, ts, sent) =
     (case (if i < length ts then Some (ts ! i) else None) of
        Some (Call q k) \<Rightarrow>
          (case bk_serve K s q c of (s', r) \<Rightarrow> run_tasks K sched (s', ts[i := k r], sent @ [q]))
      | _ \<Rightarrow> run_tasks K sched (s, ts, sent))"

datatype git_op =
    Push pack_host "HydratedRepo \<Rightarrow> push_git" bool uuid string string string
  | InfoRefs policy_env pack_host bool uuid string string string string
  | UploadPack policy_env pack_host bool uuid string string string
  | Announce name_registry uuid string "string option"

datatype git_result =
    Pushed push_outcome
  | ServedRead "(git_response, served) result"
  | Announced announce_outcome

fun git_program :: "git_env \<Rightarrow> git_op \<Rightarrow> git_result prog" where
  "git_program E (Push H G permit c owner repo pusher) =
     bind (receive_pack E H G permit c owner repo pusher) (\<lambda>r. Return (Pushed r))"
| "git_program E (InfoRefs P H permit c caller service owner repo) =
     bind (info_refs E P H permit c caller service owner repo) (\<lambda>r. Return (ServedRead r))"
| "git_program E (UploadPack P H permit c caller owner repo) =
     bind (upload_pack E P H permit c caller owner repo) (\<lambda>r. Return (ServedRead r))"
| "git_program E (Announce N c owner d_tag) =
     bind (handle_git_repo_announcement E N c owner d_tag) (\<lambda>r. Return (Announced r))"

definition git_run ::
    "git_env \<Rightarrow> 's bucket \<Rightarrow> git_op list \<Rightarrow> (nat \<times> nat) list \<Rightarrow> 's
      \<Rightarrow> 's \<times> git_result prog list \<times> s3_request list" where
  "git_run E K ops sched s0 = run_tasks K sched (s0, map (git_program E) ops, [])"

definition bodies :: "s3_request list \<Rightarrow> string set" where
  "bodies sent = {b. \<exists>k p. PutObject k b p \<in> set sent}"

text \<open>
  What the relay relies on outside the bucket: SHA-256 in hex has the shape of a digest and separates the bodies that
  are written in the run, and \<^verbatim>\<open>serde_json\<close> reads back what it wrote.
\<close>

definition git_laws :: "git_env \<Rightarrow> string set \<Rightarrow> bool" where
  "git_laws E Bs =
     ((\<forall>b. is_manifest_digest (ge_sha256_hex E b)) \<and> inj_on (ge_sha256_hex E) Bs
      \<and> (\<forall>m b. mc_to_vec (ge_codec E) m = Some b \<longrightarrow> mc_from_slice (ge_codec E) b = Some m))"

section \<open>The published state\<close>

definition stored_manifest :: "git_env \<Rightarrow> version list \<Rightarrow> string \<Rightarrow> Manifest \<Rightarrow> bool" where
  "stored_manifest E Hs d m =
     (\<exists>e b. (''manifests/'' @ d, e, b) \<in> set Hs \<and> mc_from_slice (ge_codec E) b = Some m)"

definition pack_stored :: "git_env \<Rightarrow> version list \<Rightarrow> string \<Rightarrow> bool" where
  "pack_stored E Hs p = (\<exists>e b. (p, e, b) \<in> set Hs \<and> p = content_key E ''packs'' b)"

text \<open>The digests a pointer has held, newest first.\<close>

definition pointer_log :: "version list \<Rightarrow> string \<Rightarrow> string list" where
  "pointer_log Hs k = map (\<lambda>v. snd (snd v)) (filter (\<lambda>v. fst v = k) Hs)"

text \<open>Every digest names a stored manifest whose parent is the digest published before it.\<close>

fun linked :: "git_env \<Rightarrow> version list \<Rightarrow> string list \<Rightarrow> bool" where
  "linked E Hs [] = True"
| "linked E Hs (d # ds) =
     ((\<exists>m. stored_manifest E Hs d m \<and> mf_parent m = (case ds of [] \<Rightarrow> None | d' # _ \<Rightarrow> Some d')) \<and> linked E Hs ds)"

definition manifest_ok :: "git_env \<Rightarrow> version list \<Rightarrow> string \<Rightarrow> bool" where
  "manifest_ok E Hs b =
     (\<exists>m. mc_from_slice (ge_codec E) b = Some m \<and> mf_version m = MANIFEST_VERSION \<and> validate_manifest m = Ok ()
        \<and> (\<forall>p \<in> set (mf_packs m). pack_stored E Hs p))"

definition version_ok :: "git_env \<Rightarrow> version list \<Rightarrow> version \<Rightarrow> bool" where
  "version_ok E Hs v =
     (case v of (k, e, b) \<Rightarrow>
        prefix ''idx/'' k \<or> k = content_key E ''packs'' b
        \<or> k = content_key E ''manifests'' b \<and> manifest_ok E Hs b
        \<or> prefix ''repos/'' k \<and> is_manifest_digest b)"

definition store_ok :: "git_env \<Rightarrow> string set \<Rightarrow> version list \<Rightarrow> bool" where
  "store_ok E Bs Hs =
     ((\<forall>v \<in> set Hs. snd (snd v) \<in> Bs \<and> version_ok E Hs v)
      \<and> (\<forall>k. prefix ''repos/'' k \<longrightarrow> linked E Hs (pointer_log Hs k))
      \<and> (\<forall>k e b b'. (k, e, b) \<in> set Hs \<longrightarrow> (k, e, b') \<in> set Hs \<longrightarrow> b = b'))"

text \<open>The requests a program may send.\<close>

fun permitted :: "git_env \<Rightarrow> version list \<Rightarrow> s3_request \<Rightarrow> bool" where
  "permitted E Hs (PutObject k b p) =
     (prefix ''idx/'' k \<or> k = content_key E ''packs'' b
      \<or> k = content_key E ''manifests'' b \<and> manifest_ok E Hs b
      \<or> prefix ''repos/'' k \<and> is_manifest_digest b
        \<and> (\<exists>m. stored_manifest E Hs b m
             \<and> (case p of
                  IfNoneMatchStar \<Rightarrow> mf_parent m = None
                | IfMatch e \<Rightarrow> \<exists>d. (k, e, d) \<in> set Hs \<and> mf_parent m = Some d)))"
| "permitted E Hs q = True"

section \<open>The store under permitted requests\<close>

lemma stored_manifest_mono: "stored_manifest E Hs d m \<Longrightarrow> set Hs \<subseteq> set Hs' \<Longrightarrow> stored_manifest E Hs' d m"
  by (auto simp: stored_manifest_def)

lemma pack_stored_mono: "pack_stored E Hs p \<Longrightarrow> set Hs \<subseteq> set Hs' \<Longrightarrow> pack_stored E Hs' p"
  by (auto simp: pack_stored_def)

lemma manifest_ok_mono: "manifest_ok E Hs b \<Longrightarrow> set Hs \<subseteq> set Hs' \<Longrightarrow> manifest_ok E Hs' b"
  by (fastforce simp: manifest_ok_def intro: pack_stored_mono)

lemma version_ok_mono: "version_ok E Hs v \<Longrightarrow> set Hs \<subseteq> set Hs' \<Longrightarrow> version_ok E Hs' v"
  by (auto simp: version_ok_def intro: manifest_ok_mono split: prod.splits)

lemma linked_mono: "linked E Hs ds \<Longrightarrow> set Hs \<subseteq> set Hs' \<Longrightarrow> linked E Hs' ds"
  by (induction ds) (auto intro: stored_manifest_mono)

lemma permitted_mono: "permitted E Hs q \<Longrightarrow> set Hs \<subseteq> set Hs' \<Longrightarrow> permitted E Hs' q"
proof (cases q)
  case (PutObject k b p)
  assume *: "permitted E Hs q" "set Hs \<subseteq> set Hs'"
  show ?thesis
  proof (cases p)
    case IfNoneMatchStar
    with * PutObject show ?thesis
      by (auto intro: manifest_ok_mono [OF _ *(2)] stored_manifest_mono [OF _ *(2)])
  next
    case (IfMatch e)
    with * PutObject show ?thesis
      by (auto intro: manifest_ok_mono [OF _ *(2)] stored_manifest_mono [OF _ *(2)] dest: subsetD [OF *(2)])
  qed
qed simp_all

lemma pointer_log_simps [simp]:
  "pointer_log [] k = []"
  "pointer_log ((k', e, b) # Hs) k = (if k' = k then b # pointer_log Hs k else pointer_log Hs k)"
  by (simp_all add: pointer_log_def)

lemma look_log:
  "look Hs k = Some (e, b) \<Longrightarrow> (k, e, b) \<in> set Hs \<and> (\<exists>older. pointer_log Hs k = b # older)"
  by (induction Hs) (auto simp: look_def split: if_splits)

lemma look_None_log: "look Hs k = None \<Longrightarrow> pointer_log Hs k = []"
  by (induction Hs) (auto simp: look_def split: if_splits)

lemma pointer_log_member: "d \<in> set (pointer_log Hs k) \<longleftrightarrow> (\<exists>e. (k, e, d) \<in> set Hs)"
  by (force simp: pointer_log_def)

lemma pointer_log_suffix: "suffix Hs Hs' \<Longrightarrow> suffix (pointer_log Hs k) (pointer_log Hs' k)"
  by (auto simp: suffix_def pointer_log_def)

lemma content_key_parts:
  "content_key E ''packs'' b = ''packs/'' @ ge_sha256_hex E b"
  "content_key E ''manifests'' b = ''manifests/'' @ ge_sha256_hex E b"
  by (simp_all add: content_key_def)

lemma answers_put_suffix: "s3_answers Hs q Hs' r \<Longrightarrow> suffix Hs Hs'"
  by (induction Hs q Hs' r rule: s3_answers.induct) (auto simp: suffix_Cons)

lemma suffix_set: "suffix Hs Hs' \<Longrightarrow> set Hs \<subseteq> set Hs'"
  by (auto simp: suffix_def)

definition sent_body :: "s3_request \<Rightarrow> string set" where
  "sent_body q = (case q of PutObject _ b _ \<Rightarrow> {b} | _ \<Rightarrow> {})"

lemma linked_put:
  assumes ok: "store_ok E Bs Hs" and perm: "permitted E Hs (PutObject k b p)" and pre: "prefix ''repos/'' k"
    and holds: "holds p (look Hs k)"
  shows "\<exists>m. stored_manifest E Hs b m \<and> mf_parent m = (case pointer_log Hs k of [] \<Rightarrow> None | d' # _ \<Rightarrow> Some d')"
proof -
  from perm pre obtain m where m: "stored_manifest E Hs b m"
    and parent: "case p of IfNoneMatchStar \<Rightarrow> mf_parent m = None
                 | IfMatch e \<Rightarrow> \<exists>d. (k, e, d) \<in> set Hs \<and> mf_parent m = Some d"
    by (auto simp: content_key_parts prefix_def)
  show ?thesis
  proof (cases p)
    case IfNoneMatchStar
    with holds look_None_log [of Hs k] parent m show ?thesis by auto
  next
    case (IfMatch e)
    with holds obtain b0 where look: "look Hs k = Some (e, b0)" by (auto split: option.splits)
    from IfMatch parent obtain d where d: "(k, e, d) \<in> set Hs" "mf_parent m = Some d" by auto
    from look_log [OF look] d(1) ok have "d = b0" by (auto simp: store_ok_def)
    with look_log [OF look] d(2) m show ?thesis by auto
  qed
qed

lemma store_ok_put:
  assumes ok: "store_ok E Bs Hs" and perm: "permitted E Hs (PutObject k b p)" and b: "b \<in> Bs"
    and holds: "holds p (look Hs k)" and tag: "\<forall>b'. (k, e, b') \<in> set Hs \<longrightarrow> b' = b"
  shows "store_ok E Bs ((k, e, b) # Hs)"
proof -
  let ?Hs = "(k, e, b) # Hs"
  have sub: "set Hs \<subseteq> set ?Hs" by auto
  have "version_ok E ?Hs (k, e, b)"
    using permitted_mono [OF perm sub] by (auto simp: version_ok_def)
  moreover have "linked E ?Hs (pointer_log ?Hs k')" if "prefix ''repos/'' k'" for k'
  proof -
    have old: "linked E ?Hs (pointer_log Hs k')"
      using ok that by (auto simp: store_ok_def intro: linked_mono [OF _ sub])
    show ?thesis
    proof (cases "k' = k")
      case True
      with linked_put [OF ok perm _ holds] that old show ?thesis
        by (auto intro: stored_manifest_mono [OF _ sub])
    qed (simp add: old)
  qed
  ultimately show ?thesis
    using ok b tag by (auto simp: store_ok_def intro: version_ok_mono [OF _ sub])
qed

lemma store_ok_step:
  assumes "store_ok E Bs Hs" "permitted E Hs q" "sent_body q \<subseteq> Bs" "s3_answers Hs q Hs' r"
  shows "store_ok E Bs Hs'"
proof (cases q)
  case (PutObject k b p)
  with assms(4) consider "Hs' = Hs"
    | e where "Hs' = (k, e, b) # Hs" "holds p (look Hs k)" "\<forall>b'. (k, e, b') \<in> set Hs \<longrightarrow> b' = b"
    by auto
  then show ?thesis
  proof cases
    case 2
    with assms PutObject store_ok_put [of E Bs Hs k b p e] show ?thesis by (simp add: sent_body_def)
  qed (use assms in simp)
qed (use assms in auto)

section \<open>Programs among other programs\<close>

text \<open>
  Before each request the others may have extended the history; the request must be permitted then, and the
  program goes on from the history its request left.
\<close>

primrec keeps ::
    "git_env \<Rightarrow> string set \<Rightarrow> ('r \<Rightarrow> version list \<Rightarrow> bool) \<Rightarrow> 'r prog \<Rightarrow> version list \<Rightarrow> bool" where
  "keeps E Bs Q (Return r) = (\<lambda>Hs. Q r Hs)"
| "keeps E Bs Q (Call q k) =
     (\<lambda>Hs. \<forall>Hs1. suffix Hs Hs1 \<longrightarrow> store_ok E Bs Hs1 \<longrightarrow>
        permitted E Hs1 q
        \<and> (sent_body q \<subseteq> Bs \<longrightarrow> (\<forall>Hs2 r. s3_answers Hs1 q Hs2 r \<longrightarrow> keeps E Bs Q (k r) Hs2)))"

lemma keeps_later:
  assumes "keeps E Bs Q p Hs" "suffix Hs Hs'" "store_ok E Bs Hs'"
    and "\<And>r Hs Hs'. Q r Hs \<Longrightarrow> suffix Hs Hs' \<Longrightarrow> store_ok E Bs Hs' \<Longrightarrow> Q r Hs'"
  shows "keeps E Bs Q p Hs'"
proof (cases p)
  case (Return r)
  with assms show ?thesis by auto
next
  case (Call q k)
  show ?thesis
    using assms(1) suffix_order.trans [OF assms(2)] unfolding Call keeps.simps by blast
qed

lemma keeps_bind:
  assumes "keeps E Bs P p Hs" "store_ok E Bs Hs"
    and "\<And>r Hs'. suffix Hs Hs' \<Longrightarrow> store_ok E Bs Hs' \<Longrightarrow> P r Hs' \<Longrightarrow> keeps E Bs Q (g r) Hs'"
  shows "keeps E Bs Q (bind p g) Hs"
  using assms
proof (induction p arbitrary: Hs)
  case (Return a)
  then show ?case by simp
next
  case (Call q k)
  show ?case
    unfolding bind.simps keeps.simps
  proof (intro allI impI conjI)
    fix Hs1 assume 1: "suffix Hs Hs1" "store_ok E Bs Hs1"
    with Call.prems(1) show perm: "permitted E Hs1 q" by simp
    fix Hs2 r assume 2: "sent_body q \<subseteq> Bs" "s3_answers Hs1 q Hs2 r"
    then have ok2: "store_ok E Bs Hs2" using store_ok_step [OF 1(2) perm] by blast
    have suf: "suffix Hs Hs2" using 1(1) answers_put_suffix [OF 2(2)] by (rule suffix_order.trans)
    show "keeps E Bs Q (bind (k r) g) Hs2"
    proof (rule Call.IH)
      show "k r \<in> range k" by simp
      show "keeps E Bs P (k r) Hs2" using Call.prems(1) 1 2 by simp
      show "store_ok E Bs Hs2" by (rule ok2)
      show "keeps E Bs Q (g a) Hs'" if "suffix Hs2 Hs'" "store_ok E Bs Hs'" "P a Hs'" for a Hs'
        using Call.prems(3) suffix_order.trans [OF suf] that by blast
    qed
  qed
qed

lemma bind_Return [simp]: "bind p Return = p"
  by (induction p) auto

lemma keeps_weaken:
  assumes "keeps E Bs P p Hs" "store_ok E Bs Hs"
    and "\<And>r Hs'. suffix Hs Hs' \<Longrightarrow> store_ok E Bs Hs' \<Longrightarrow> P r Hs' \<Longrightarrow> Q r Hs'"
  shows "keeps E Bs Q p Hs"
  using keeps_bind [of E Bs P p Hs Q Return] assms by simp

lemma keeps_attempt:
  assumes "keeps E Bs P p Hs" "store_ok E Bs Hs"
    and "\<And>a Hs'. suffix Hs Hs' \<Longrightarrow> store_ok E Bs Hs' \<Longrightarrow> P (Ok a) Hs' \<Longrightarrow> keeps E Bs Q (g a) Hs'"
    and "\<And>e Hs'. suffix Hs Hs' \<Longrightarrow> store_ok E Bs Hs' \<Longrightarrow> P (Err e) Hs' \<Longrightarrow> Q (Err e) Hs'"
  shows "keeps E Bs Q (attempt p g) Hs"
  unfolding attempt_def using assms by (intro keeps_bind [of E Bs P]) (auto split: sum.splits)

lemma keeps_map_err:
  assumes "keeps E Bs P p Hs" "store_ok E Bs Hs"
    and "\<And>a Hs'. suffix Hs Hs' \<Longrightarrow> store_ok E Bs Hs' \<Longrightarrow> P (Ok a) Hs' \<Longrightarrow> Q (Ok a) Hs'"
    and "\<And>e Hs'. suffix Hs Hs' \<Longrightarrow> store_ok E Bs Hs' \<Longrightarrow> P (Err e) Hs' \<Longrightarrow> Q (Err (f e)) Hs'"
  shows "keeps E Bs Q (map_err f p) Hs"
  unfolding map_err_def using assms by (intro keeps_bind [of E Bs P]) (auto split: sum.splits simp: map_sum_def)

lemma run_tasks_idle:
  "\<not> (i < length ts \<and> (\<exists>q k. ts ! i = Call q k)) \<Longrightarrow>
    run_tasks K ((i, c) # sched) (s, ts, sent) = run_tasks K sched (s, ts, sent)"
  by (auto split: prog.splits)

lemma run_tasks_call:
  "i < length ts \<Longrightarrow> ts ! i = Call q k \<Longrightarrow> bk_serve K s q c = (s1, r) \<Longrightarrow>
    run_tasks K ((i, c) # sched) (s, ts, sent) = run_tasks K sched (s1, ts[i := k r], sent @ [q])"
  by simp

declare run_tasks.simps(2) [simp del]

lemma run_sent: "run_tasks K sched (s, ts, sent) = (s', ts', sent') \<Longrightarrow> set sent \<subseteq> set sent'"
proof (induction sched arbitrary: s ts sent)
  case (Cons x sched)
  obtain i c where x: "x = (i, c)" by (cases x)
  show ?case
  proof (cases "i < length ts \<and> (\<exists>q k. ts ! i = Call q k)")
    case True
    then obtain q k where i: "i < length ts" "ts ! i = Call q k" by auto
    obtain s1 r where "bk_serve K s q c = (s1, r)" by fastforce
    from Cons.prems [unfolded x run_tasks_call [OF i this]] Cons.IH show ?thesis by fastforce
  qed (use Cons x in \<open>simp add: run_tasks_idle\<close>)
qed simp

definition stable :: "git_env \<Rightarrow> string set \<Rightarrow> ('r \<Rightarrow> version list \<Rightarrow> bool) \<Rightarrow> bool" where
  "stable E Bs Q = (\<forall>r Hs Hs'. Q r Hs \<longrightarrow> suffix Hs Hs' \<longrightarrow> store_ok E Bs Hs' \<longrightarrow> Q r Hs')"

text \<open>If every task keeps to its requests, every run keeps the store in order and every task that ends does so in its result.\<close>

lemma run_keeps:
  assumes "bucket_laws K" "run_tasks K sched (s, ts, sent) = (s', ts', sent')" "bodies sent' \<subseteq> Bs"
    and "store_ok E Bs (bk_history K s)" "\<And>i. stable E Bs (Q i)"
    and "\<And>i. i < length ts \<Longrightarrow> keeps E Bs (Q i) (ts ! i) (bk_history K s)"
  shows "store_ok E Bs (bk_history K s') \<and> suffix (bk_history K s) (bk_history K s') \<and> length ts' = length ts
    \<and> (\<forall>i < length ts. keeps E Bs (Q i) (ts' ! i) (bk_history K s'))"
  using assms
proof (induction sched arbitrary: s ts sent)
  case (Cons x sched)
  obtain i c where x: "x = (i, c)" by (cases x)
  show ?case
  proof (cases "i < length ts \<and> (\<exists>q k. ts ! i = Call q k)")
    case False
    from Cons.prems(2) [unfolded x run_tasks_idle [OF this]] show ?thesis
      using Cons.prems by (intro Cons.IH) auto
  next
    case True
    then obtain q k where i: "i < length ts" "ts ! i = Call q k" by auto
    obtain s1 r where serve: "bk_serve K s q c = (s1, r)" by fastforce
    note run = Cons.prems(2) [unfolded x run_tasks_call [OF i serve]]
    have answers: "s3_answers (bk_history K s) q (bk_history K s1) r"
      using Cons.prems(1) serve by (auto simp: bucket_laws_def split: prod.splits)
    have "q \<in> set sent'" using run_sent [OF run] by auto
    then have sent: "sent_body q \<subseteq> Bs" using Cons.prems(3) by (auto simp: sent_body_def bodies_def split: s3_request.splits)
    have perm: "permitted E (bk_history K s) q" and next_i: "keeps E Bs (Q i) (k r) (bk_history K s1)"
      using Cons.prems(6) [OF i(1)] Cons.prems(4) sent answers unfolding i(2) keeps.simps by blast+
    have ok1: "store_ok E Bs (bk_history K s1)" using store_ok_step [OF Cons.prems(4) perm sent answers] .
    have suf: "suffix (bk_history K s) (bk_history K s1)" using answers by (rule answers_put_suffix)
    have "keeps E Bs (Q j) (ts[i := k r] ! j) (bk_history K s1)" if "j < length ts" for j
    proof (cases "j = i")
      case False
      have "keeps E Bs (Q j) (ts ! j) (bk_history K s1)"
        using Cons.prems(5) [of j] by (intro keeps_later [OF Cons.prems(6) [OF that] suf ok1]) (auto simp: stable_def)
      with False show ?thesis by simp
    qed (use i next_i in simp)
    with Cons.IH [OF Cons.prems(1) run Cons.prems(3) ok1 Cons.prems(5)] suf show ?thesis
      by (auto intro: suffix_order.trans)
  qed
qed simp

section \<open>What each operation keeps\<close>

text \<open>Requests that read, and the results of reading.\<close>

definition here :: "version list \<Rightarrow> string \<Rightarrow> string \<Rightarrow> bool" where
  "here Hs k b = (\<exists>e. (k, e, b) \<in> set Hs)"

lemma here_mono: "here Hs k b \<Longrightarrow> suffix Hs Hs' \<Longrightarrow> here Hs' k b"
  by (auto simp: here_def dest: suffix_set)

lemma keeps_store_get: "keeps E Bs (\<lambda>r Hs. \<forall>b. r = Ok b \<longrightarrow> here Hs key b) (store_get key) Hs"
  by (auto simp: store_get_def here_def split: s3_reply.splits dest: look_log)

lemma keeps_get_limited:
  assumes "store_ok E Bs Hs"
  shows "keeps E Bs (\<lambda>r Hs. \<forall>b. r = Ok b \<longrightarrow> here Hs key b) (get_limited key n) Hs"
  unfolding get_limited_def
proof (rule keeps_attempt [where P = "\<lambda>_ _. True"])
  show "keeps E Bs (\<lambda>_ _. True) (Call (HeadObject key) (\<lambda>r. Return (head_check key n r))) Hs" by simp
  fix a Hs' assume "store_ok E Bs Hs'"
  then show "keeps E Bs (\<lambda>r Hs. \<forall>b. r = Ok b \<longrightarrow> here Hs key b)
      (attempt (store_get key)
        (\<lambda>bytes. Return (if n < length bytes then Err (ObjectTooLarge key (length bytes) n) else Ok bytes))) Hs'"
    by (intro keeps_attempt [OF keeps_store_get]) auto
qed (use assms in auto)

lemma verify_digest_ok: "verify_digest E key d b = Ok b' \<longleftrightarrow> b' = b \<and> ge_sha256_hex E b = d"
  by (auto simp: verify_digest_def)

lemma keeps_get_verified_limited:
  assumes "store_ok E Bs Hs"
  shows "keeps E Bs (\<lambda>r Hs. \<forall>b. r = Ok b \<longrightarrow> here Hs key b \<and> ge_sha256_hex E b = d)
    (get_verified_limited E key d n) Hs"
  unfolding get_verified_limited_def
  by (rule keeps_attempt [OF keeps_get_limited [OF assms] assms]) (auto simp: verify_digest_ok)

lemma keeps_get_verified:
  assumes "store_ok E Bs Hs"
  shows "keeps E Bs (\<lambda>r Hs. \<forall>b. r = Ok b \<longrightarrow> here Hs key b \<and> ge_sha256_hex E b = d) (get_verified E key d) Hs"
  unfolding get_verified_def
  by (rule keeps_attempt [OF keeps_store_get assms]) (auto simp: verify_digest_ok)

lemma keeps_hydrate_get:
  assumes "store_ok E Bs Hs"
  shows "keeps E Bs (\<lambda>r Hs. \<forall>b. r = Ok b \<longrightarrow> here Hs key b \<and> ge_sha256_hex E b = d)
    (hydrate_get_verified E key d n) Hs"
  unfolding hydrate_get_verified_def
  by (rule keeps_map_err [OF keeps_get_verified_limited [OF assms] assms]) auto

lemma keeps_get_idx: "store_ok E Bs Hs \<Longrightarrow> keeps E Bs (\<lambda>_ _. True) (get_idx d n) Hs"
  by (auto simp: get_idx_def split: sum.splits intro!: keeps_bind [OF keeps_get_limited])

text \<open>A pointer that was read was the newest at that moment: the log of the start is at or below it.\<close>

definition read_at :: "version list \<Rightarrow> version list \<Rightarrow> string \<Rightarrow> string \<Rightarrow> bool" where
  "read_at Hs0 Hs k d = (\<exists>newer older. pointer_log Hs k = newer @ d # older \<and> suffix (pointer_log Hs0 k) (d # older))"

lemma read_at_later: "read_at Hs0 Hs k d \<Longrightarrow> suffix Hs Hs' \<Longrightarrow> read_at Hs0 Hs' k d"
  unfolding read_at_def
proof -
  assume "\<exists>newer older. pointer_log Hs k = newer @ d # older \<and> suffix (pointer_log Hs0 k) (d # older)"
    and suf: "suffix Hs Hs'"
  then obtain newer older where *: "pointer_log Hs k = newer @ d # older" "suffix (pointer_log Hs0 k) (d # older)"
    by blast
  from pointer_log_suffix [OF suf, of k] obtain zs where "pointer_log Hs' k = zs @ pointer_log Hs k"
    by (auto simp: suffix_def)
  with * show "\<exists>newer older. pointer_log Hs' k = newer @ d # older \<and> suffix (pointer_log Hs0 k) (d # older)"
    by (intro exI [of _ "zs @ newer"] exI [of _ older]) simp
qed

lemma keeps_get_pointer:
  "keeps E Bs (\<lambda>r Hs'. \<forall>e b. r = Ok (Some (e, b)) \<longrightarrow> (key, e, b) \<in> set Hs' \<and> read_at Hs Hs' key b)
    (get_pointer key) Hs"
proof -
  have "(key, e, b) \<in> set Hs1 \<and> read_at Hs Hs1 key b" if "suffix Hs Hs1" "look Hs1 key = Some (e, b)" for Hs1 e b
  proof -
    from look_log [OF that(2)] obtain older where *: "(key, e, b) \<in> set Hs1" "pointer_log Hs1 key = b # older"
      by blast
    with pointer_log_suffix [OF that(1), of key] show ?thesis
      unfolding read_at_def by (metis append_Nil)
  qed
  then show ?thesis
    unfolding get_pointer_def by (auto split: s3_reply.splits option.splits)
qed

text \<open>The prefixes keep the kinds of keys apart.\<close>

lemma stored_under_packs:
  assumes "store_ok E Bs Hs" "(''packs/'' @ d, e, b) \<in> set Hs"
  shows "d = ge_sha256_hex E b" "b \<in> Bs"
  using assms by (auto simp: store_ok_def version_ok_def content_key_parts prefix_def dest!: bspec)

lemma stored_under_manifests:
  assumes "store_ok E Bs Hs" "(''manifests/'' @ d, e, b) \<in> set Hs"
  shows "d = ge_sha256_hex E b" "b \<in> Bs" "manifest_ok E Hs b"
  using assms by (auto simp: store_ok_def version_ok_def content_key_parts prefix_def dest!: bspec)

lemma stored_under_repos:
  assumes "store_ok E Bs Hs" "(k, e, b) \<in> set Hs" "prefix ''repos/'' k"
  shows "is_manifest_digest b"
  using assms by (auto simp: store_ok_def version_ok_def content_key_parts prefix_def dest!: bspec)

lemma pointer_key_prefix [simp]: "prefix ''repos/'' (pointer_key c owner repo)"
  by (simp add: pointer_key_def)

lemma stored_manifest_unique:
  assumes "git_laws E Bs" "store_ok E Bs Hs" "stored_manifest E Hs d m" "stored_manifest E Hs d m'"
  shows "m = m'"
proof -
  from assms(3,4) obtain e b e' b' where v: "(''manifests/'' @ d, e, b) \<in> set Hs" "(''manifests/'' @ d, e', b') \<in> set Hs"
    and m: "mc_from_slice (ge_codec E) b = Some m" "mc_from_slice (ge_codec E) b' = Some m'"
    by (auto simp: stored_manifest_def)
  have "b = b'"
    using assms(1) stored_under_manifests [OF assms(2) v(1)] stored_under_manifests [OF assms(2) v(2)]
    by (auto simp: git_laws_def dest: inj_onD)
  with m show ?thesis by simp
qed

lemma content_present:
  assumes laws: "git_laws E Bs" and ok: "store_ok E Bs Hs" and b: "b \<in> Bs"
    and pre: "pre = ''packs'' \<or> pre = ''manifests''" and look: "look Hs (content_key E pre b) \<noteq> None"
  shows "here Hs (content_key E pre b) b"
proof -
  from look obtain e b' where v: "(content_key E pre b, e, b') \<in> set Hs" by (auto dest: look_log)
  with pre ok have "ge_sha256_hex E b = ge_sha256_hex E b' \<and> b' \<in> Bs"
    by (auto simp: content_key_parts dest: stored_under_packs stored_under_manifests)
  with laws b have "b' = b" by (auto simp: git_laws_def dest: inj_onD)
  with v show ?thesis by (auto simp: here_def)
qed

lemma keeps_put_immutable:
  assumes laws: "git_laws E Bs" and pre: "pre = ''packs'' \<or> pre = ''manifests''"
    and perm: "\<And>Hs'. suffix Hs Hs' \<Longrightarrow> permitted E Hs' (PutObject (content_key E pre b) b IfNoneMatchStar)"
  shows "keeps E Bs (\<lambda>r Hs. \<forall>key. r = Ok key \<longrightarrow> key = content_key E pre b \<and> here Hs key b) (put_immutable E pre b) Hs"
  unfolding put_immutable_def Let_def keeps.simps
proof (intro allI impI conjI perm)
  fix Hs1 Hs2 r key
  assume ok: "store_ok E Bs Hs1" and b: "sent_body (PutObject (content_key E pre b) b IfNoneMatchStar) \<subseteq> Bs"
    and answers: "s3_answers Hs1 (PutObject (content_key E pre b) b IfNoneMatchStar) Hs2 r"
    and res: "created_or_present (content_key E pre b) r = Ok key"
  from res show "key = content_key E pre b" by (cases r) (auto split: if_splits)
  from b have "b \<in> Bs" by (simp add: sent_body_def)
  then have "look Hs1 (content_key E pre b) \<noteq> None \<Longrightarrow> here Hs1 (content_key E pre b) b"
    by (rule content_present [OF laws ok _ pre])
  with answers res \<open>key = content_key E pre b\<close> show "here Hs2 key b"
    by (cases r) (auto simp: here_def split: if_splits)
qed

lemma keeps_put_pack:
  assumes "git_laws E Bs" "store_ok E Bs Hs"
  shows "keeps E Bs (\<lambda>r Hs. \<forall>key. r = Ok key \<longrightarrow> key = content_key E ''packs'' b \<and> pack_stored E Hs key) (put_pack E b) Hs"
  unfolding put_pack_def
  by (rule keeps_weaken [OF keeps_put_immutable [OF assms(1)] assms(2)]) (simp_all add: pack_stored_def here_def, blast)

lemma keeps_put_manifest:
  assumes "git_laws E Bs" "manifest_ok E Hs b"
  shows "keeps E Bs (\<lambda>r Hs. \<forall>key. r = Ok key \<longrightarrow> key = ''manifests/'' @ ge_sha256_hex E b \<and> here Hs key b)
    (put_manifest E b) Hs"
  unfolding put_manifest_def content_key_parts(2) [symmetric]
  by (rule keeps_put_immutable [OF assms(1)]) (auto intro: manifest_ok_mono [OF assms(2) suffix_set])

lemma keeps_put_idx: "keeps E Bs (\<lambda>_ _. True) (put_idx d b) Hs"
  by (auto simp: put_idx_def idx_key_for_pack_digest_def split: sum.splits)

lemma keeps_put_pointer:
  assumes "permitted E Hs (PutObject key d p)"
  shows "keeps E Bs (\<lambda>r Hs. \<forall>e. r = Ok (Won e) \<longrightarrow> d \<in> set (pointer_log Hs key)) (put_pointer E key d p) Hs"
proof -
  have perm: "suffix Hs Hs1 \<Longrightarrow> permitted E Hs1 (PutObject key d p)" for Hs1
    using permitted_mono [OF assms suffix_set] by blast
  have "d \<in> set (pointer_log Hs2 key)"
    if "s3_answers Hs1 (PutObject key d p) Hs2 r" "classify_cas r = Ok (Won e)" for Hs1 Hs2 r e
    using that by (cases r) (auto simp: pointer_log_member split: if_splits option.splits)
  with perm show ?thesis
    by (cases "case p of IfMatch tag \<Rightarrow> \<not> ge_header_ok E tag | IfNoneMatchStar \<Rightarrow> False")
      (auto simp: put_pointer_def simp del: permitted.simps s3_answers.simps)
qed

section \<open>Reading\<close>

definition loaded :: "git_env \<Rightarrow> version list \<Rightarrow> string \<Rightarrow> string \<Rightarrow> string \<Rightarrow> Manifest \<Rightarrow> bool" where
  "loaded E Hs k e d m =
     ((k, e, d) \<in> set Hs \<and> is_manifest_digest d \<and> stored_manifest E Hs d m \<and> validate_manifest m = Ok ()
      \<and> (\<forall>p \<in> set (mf_packs m). pack_stored E Hs p))"

lemma loaded_later: "loaded E Hs k e d m \<Longrightarrow> suffix Hs Hs' \<Longrightarrow> loaded E Hs' k e d m"
  by (auto simp: loaded_def dest: suffix_set intro: stored_manifest_mono pack_stored_mono)

lemma pointer_digest_id: "is_manifest_digest d \<Longrightarrow> pointer_digest d = Some d"
  by (simp add: pointer_digest_def digest_text)

lemma keeps_load_pointer:
  assumes ok: "store_ok E Bs Hs"
  shows "keeps E Bs (\<lambda>r Hs'. \<forall>e d m. r = Ok (Some (e, d, m)) \<longrightarrow>
      loaded E Hs' (pointer_key c owner repo) e d m \<and> read_at Hs Hs' (pointer_key c owner repo) d)
    (load_pointer E c owner repo) Hs"
  unfolding load_pointer_def
proof (rule keeps_attempt [where P = "\<lambda>r Hs'. \<forall>e b. r = Ok (Some (e, b)) \<longrightarrow>
      (pointer_key c owner repo, e, b) \<in> set Hs' \<and> read_at Hs Hs' (pointer_key c owner repo) b"])
  let ?k = "pointer_key c owner repo"
  show "keeps E Bs (\<lambda>r Hs'. \<forall>e b. r = Ok (Some (e, b)) \<longrightarrow> (?k, e, b) \<in> set Hs' \<and> read_at Hs Hs' ?k b)
      (map_err HydrateStore (get_pointer ?k)) Hs"
    by (rule keeps_map_err [OF keeps_get_pointer ok]) auto
  fix p Hs1 assume 1: "store_ok E Bs Hs1"
    "\<forall>e b. (Ok p :: (HydrateError, (string \<times> string) option) result) = Ok (Some (e, b)) \<longrightarrow>
      (?k, e, b) \<in> set Hs1 \<and> read_at Hs Hs1 ?k b"
  let ?Q = "\<lambda>(r :: (HydrateError, (string \<times> string \<times> Manifest) option) result) Hs'. \<forall>e d m. r = Ok (Some (e, d, m)) \<longrightarrow>
      loaded E Hs' ?k e d m \<and> read_at Hs Hs' ?k d"
  show "keeps E Bs ?Q (case p of None \<Rightarrow> Return (Ok None) | Some (etag, body) \<Rightarrow>
      (case pointer_digest body of None \<Rightarrow> Return (Err InvalidPointer)
       | Some digest \<Rightarrow> attempt (hydrate_get_verified E (''manifests/'' @ digest) digest MAX_MANIFEST_BYTES)
           (\<lambda>bytes. Return (case manifest_from_bytes (ge_codec E) bytes of Inl e \<Rightarrow> Err (HydrateManifest e)
              | Inr m \<Rightarrow> (case validate_manifest m of Inl e \<Rightarrow> Err (HydrateManifest e)
                  | Inr _ \<Rightarrow> Ok (Some (etag, digest, m))))))) Hs1"
  proof (cases p)
    case (Some q)
    obtain e d where q: "q = (e, d)" by (cases q)
    with 1 Some have ptr: "(?k, e, d) \<in> set Hs1" "read_at Hs Hs1 ?k d" by auto
    have dig: "is_manifest_digest d" using stored_under_repos [OF 1(1) ptr(1)] by simp
    have "?Q (case manifest_from_bytes (ge_codec E) b of Inl e \<Rightarrow> Err (HydrateManifest e)
        | Inr m \<Rightarrow> (case validate_manifest m of Inl e \<Rightarrow> Err (HydrateManifest e) | Inr _ \<Rightarrow> Ok (Some (e, d, m)))) Hs2"
      if "suffix Hs1 Hs2" "store_ok E Bs Hs2" "here Hs2 (''manifests/'' @ d) b" for Hs2 b
    proof -
      from that(3) obtain e' where v: "(''manifests/'' @ d, e', b) \<in> set Hs2" by (auto simp: here_def)
      with stored_under_manifests(3) [OF that(2) v] ptr dig that(1) read_at_later [OF ptr(2) that(1)] show ?thesis
        by (auto simp: manifest_from_bytes_def manifest_ok_def loaded_def stored_manifest_def dest: suffix_set
            split: option.splits sum.splits if_splits)
    qed
    then show ?thesis
      unfolding Some q option.case prod.case pointer_digest_id [OF dig]
      by (intro keeps_attempt [OF keeps_hydrate_get [OF 1(1)] 1(1)]) auto
  qed simp
qed (use ok in auto)

text \<open>The packs of a hydrated repository are the ones its manifest names, each with the bytes of its digest.\<close>

definition cache_sound :: "git_env \<Rightarrow> pack_host \<Rightarrow> bool" where
  "cache_sound E H = (\<forall>d b. ph_cached H d = Some b \<longrightarrow> ge_sha256_hex E b = d)"

lemma keeps_install_idx: "store_ok E Bs Hs \<Longrightarrow> keeps E Bs (\<lambda>_ _. True) (install_or_generate_idx H d n) Hs"
  unfolding install_or_generate_idx_def by (rule keeps_bind [OF keeps_get_idx]) auto

lemma keeps_materialize_pack:
  assumes ok: "store_ok E Bs Hs" and cache: "cache_sound E H"
  shows "keeps E Bs (\<lambda>r Hs. \<forall>b. r = Ok b \<longrightarrow> ge_sha256_hex E b = d) (materialize_pack E H key d n) Hs"
proof -
  have "keeps E Bs (\<lambda>r Hs. \<forall>b. r = Ok b \<longrightarrow> ge_sha256_hex E b = d) (populate E H key d n) Hs"
    unfolding populate_def
    by (auto intro!: keeps_attempt [OF keeps_hydrate_get [OF ok] ok] keeps_attempt [OF keeps_install_idx])
  with cache show ?thesis
    by (auto simp: materialize_pack_def cache_sound_def split: option.splits)
qed

definition files_of :: "git_env \<Rightarrow> string list \<Rightarrow> (string \<times> string) list \<Rightarrow> bool" where
  "files_of E keys files =
     (map (\<lambda>(d, _). ''packs/'' @ d) files = keys \<and> (\<forall>(d, b) \<in> set files. ge_sha256_hex E b = d))"

lemma keeps_materialize_packs:
  assumes "store_ok E Bs Hs" "cache_sound E H"
  shows "keeps E Bs (\<lambda>r Hs. \<forall>t fs. r = Ok (t, fs) \<longrightarrow> (\<exists>new. fs = files @ new \<and> files_of E keys new))
    (materialize_packs E H keys sofar files) Hs"
  using assms(1)
proof (induction keys arbitrary: sofar files Hs)
  case Nil
  then show ?case by (simp add: files_of_def)
next
  case (Cons key keys)
  show ?case
  proof (cases "strip_prefix_str ''packs/'' key")
    case (Some d)
    then have key: "key = ''packs/'' @ d" by (simp add: strip_prefix_str_Some)
    have "keeps E Bs (\<lambda>r Hs. \<forall>t fs. r = Ok (t, fs) \<longrightarrow> (\<exists>new. fs = files @ new \<and> files_of E (key # keys) new))
        (materialize_packs E H keys sofar' (files @ [(d, b)])) Hs'"
      if "store_ok E Bs Hs'" "ge_sha256_hex E b = d" for sofar' b Hs'
    proof (rule keeps_weaken [OF Cons.IH [OF that(1)] that(1)], intro allI impI)
      fix r :: "(HydrateError, nat \<times> (string \<times> string) list) result" and t fs
      assume "\<forall>t fs. r = Ok (t, fs) \<longrightarrow> (\<exists>new. fs = (files @ [(d, b)]) @ new \<and> files_of E keys new)" "r = Ok (t, fs)"
      then obtain new where "fs = (files @ [(d, b)]) @ new" "files_of E keys new" by blast
      then show "\<exists>new. fs = files @ new \<and> files_of E (key # keys) new"
        using that(2) key by (intro exI [of _ "(d, b) # new"]) (simp add: files_of_def)
    qed
    then show ?thesis
      using Some by (auto intro!: keeps_attempt [OF keeps_materialize_pack [OF Cons.prems assms(2)] Cons.prems]
          split: option.splits)
  qed simp
qed

definition hydrated_from :: "git_env \<Rightarrow> Manifest \<Rightarrow> HydratedRepo \<Rightarrow> bool" where
  "hydrated_from E m w =
     (hr_refs w = mf_refs m \<and> hr_head w = Some (mf_head m) \<and> files_of E (mf_packs m) (hr_pack_files w))"

lemma keeps_materialize_manifest:
  assumes "store_ok E Bs Hs" "cache_sound E H"
  shows "keeps E Bs (\<lambda>r Hs. \<forall>w. r = Ok w \<longrightarrow> hydrated_from E m w) (materialize_manifest E H m) Hs"
  unfolding materialize_manifest_def
  using assms
  by (auto intro!: keeps_attempt [OF keeps_materialize_packs [OF assms] assms(1)] simp: hydrated_from_def)

text \<open>What a read serves: a manifest that is published, not older than the newest when the read began.\<close>

definition served_from :: "git_env \<Rightarrow> version list \<Rightarrow> version list \<Rightarrow> string \<Rightarrow> (Manifest \<Rightarrow> bool) \<Rightarrow> bool" where
  "served_from E Hs0 Hs k P = (\<exists>d m. read_at Hs0 Hs k d \<and> stored_manifest E Hs d m \<and> P m)"

lemma served_from_later:
  "served_from E Hs0 Hs k P \<Longrightarrow> suffix Hs Hs' \<Longrightarrow> served_from E Hs0 Hs' k P"
  unfolding served_from_def by (metis read_at_later stored_manifest_mono suffix_set)

lemma served_fromI:
  "read_at Hs0 Hs k d \<Longrightarrow> loaded E Hs k e d m \<Longrightarrow> suffix Hs Hs' \<Longrightarrow> P m \<Longrightarrow> served_from E Hs0 Hs' k P"
  unfolding served_from_def loaded_def by (metis read_at_later stored_manifest_mono suffix_set)

lemma keeps_load_manifest:
  assumes ok: "store_ok E Bs Hs"
  shows "keeps E Bs (\<lambda>r Hs'. \<forall>m. r = Ok (Some m) \<longrightarrow> served_from E Hs Hs' (pointer_key c owner repo) (\<lambda>m'. m' = m))
    (load_manifest_for_read E c owner repo) Hs"
  unfolding load_manifest_for_read_def
  by (rule keeps_attempt [OF keeps_load_pointer [OF ok] ok]) (auto simp: served_from_def loaded_def)

lemma keeps_hydrate_for_read:
  assumes ok: "store_ok E Bs Hs" and cache: "cache_sound E H"
  shows "keeps E Bs (\<lambda>r Hs'. \<forall>w. r = Ok (Some w) \<longrightarrow>
      served_from E Hs Hs' (pointer_key c owner repo) (\<lambda>m. hydrated_from E m w))
    (hydrate_for_read E H c owner repo) Hs"
  unfolding hydrate_for_read_def
proof (rule keeps_attempt [OF keeps_load_pointer [OF ok] ok])
  let ?k = "pointer_key c owner repo"
  fix p Hs1 assume 1: "store_ok E Bs Hs1" "\<forall>e d m. (Ok p :: (HydrateError, (string \<times> string \<times> Manifest) option) result)
      = Ok (Some (e, d, m)) \<longrightarrow> loaded E Hs1 ?k e d m \<and> read_at Hs Hs1 ?k d"
  show "keeps E Bs (\<lambda>r Hs'. \<forall>w. r = Ok (Some w) \<longrightarrow> served_from E Hs Hs' ?k (\<lambda>m. hydrated_from E m w))
      (case p of None \<Rightarrow> Return (Ok None)
       | Some (_, _, m) \<Rightarrow> attempt (materialize_manifest E H m) (\<lambda>r. Return (Ok (Some r)))) Hs1"
  proof (cases p)
    case (Some q)
    obtain e d m where q: "q = (e, d, m)" by (cases q)
    with 1 Some have l: "loaded E Hs1 ?k e d m" "read_at Hs Hs1 ?k d" by auto
    have "served_from E Hs Hs2 ?k (\<lambda>m. hydrated_from E m w)" if "suffix Hs1 Hs2" "hydrated_from E m w" for Hs2 w
      using served_fromI [OF l(2,1) that(1), of "\<lambda>m. hydrated_from E m w"] that(2) by simp
    then show ?thesis
      unfolding Some q option.case prod.case
      by (intro keeps_attempt [OF keeps_materialize_manifest [OF 1(1) cache] 1(1)]) auto
  qed simp
qed auto

section \<open>Pushing\<close>

definition parent_ok :: "git_env \<Rightarrow> version list \<Rightarrow> string \<Rightarrow> ParentState \<Rightarrow> bool" where
  "parent_ok E Hs k ps =
     (case (ps_if_match ps, ps_parent_digest ps) of
        (Some e, Some d) \<Rightarrow> loaded E Hs k e d (ps_parent ps)
      | (None, None) \<Rightarrow> mf_packs (ps_parent ps) = []
      | _ \<Rightarrow> False)"

lemma parent_ok_later: "parent_ok E Hs k ps \<Longrightarrow> suffix Hs Hs' \<Longrightarrow> parent_ok E Hs' k ps"
  by (auto simp: parent_ok_def intro: loaded_later split: option.splits)

text \<open>
  The workspace a push starts in, and the parent it will name: the state published under the digest \<open>d\<close>, hydrated, or
  an empty repository when the pointer does not exist.
\<close>

definition started_from ::
    "git_env \<Rightarrow> version list \<Rightarrow> string \<Rightarrow> string option \<Rightarrow> Manifest \<Rightarrow> HydratedRepo \<Rightarrow> bool" where
  "started_from E Hs k d parent w =
     (case d of
        None \<Rightarrow> parent = ps_parent ParentState_fresh \<and> hr_refs w = [] \<and> hr_pack_files w = []
      | Some d \<Rightarrow> d \<in> set (pointer_log Hs k) \<and> stored_manifest E Hs d parent \<and> hydrated_from E parent w)"

lemma started_from_later: "started_from E Hs k d parent w \<Longrightarrow> suffix Hs Hs' \<Longrightarrow> started_from E Hs' k d parent w"
  unfolding started_from_def
  by (auto split: option.splits intro: stored_manifest_mono [OF _ suffix_set] subsetD [OF set_mono_suffix [OF pointer_log_suffix]])

lemma keeps_hydrate_for_write:
  assumes ok: "store_ok E Bs Hs" and cache: "cache_sound E H"
  shows "keeps E Bs (\<lambda>r Hs. \<forall>w ps. r = Ok (w, ps) \<longrightarrow> parent_ok E Hs (pointer_key c owner repo) ps
      \<and> started_from E Hs (pointer_key c owner repo) (ps_parent_digest ps) (ps_parent ps) w)
    (hydrate_for_write E H c owner repo) Hs"
  unfolding hydrate_for_write_def
proof (rule keeps_attempt [OF keeps_load_pointer [OF ok] ok])
  let ?k = "pointer_key c owner repo"
  fix p Hs1 assume 1: "store_ok E Bs Hs1" "\<forall>e d m. (Ok p :: (HydrateError, (string \<times> string \<times> Manifest) option) result)
      = Ok (Some (e, d, m)) \<longrightarrow> loaded E Hs1 ?k e d m \<and> read_at Hs Hs1 ?k d"
  show "keeps E Bs (\<lambda>r Hs. \<forall>w ps. r = Ok (w, ps) \<longrightarrow> parent_ok E Hs ?k ps \<and> started_from E Hs ?k (ps_parent_digest ps) (ps_parent ps) w)
      (case p of
         Some (etag, digest, m) \<Rightarrow> attempt (materialize_manifest E H m)
           (\<lambda>r. Return (Ok (r, ParentState_from_loaded etag digest m)))
       | None \<Rightarrow> if \<not> ph_scratch H then Return (Err HydrateFailed)
           else Return (Ok (\<lparr>hr_refs = [], hr_head = None, hr_pack_files = [], hr_hydrated_bytes = 0\<rparr>,
                            ParentState_fresh))) Hs1"
  proof (cases p)
    case None
    then show ?thesis by (auto simp: parent_ok_def started_from_def ParentState_fresh_def)
  next
    case (Some q)
    obtain e d m where q: "q = (e, d, m)" by (cases q)
    with 1 Some have l: "loaded E Hs1 ?k e d m" by auto
    then have "parent_ok E Hs1 ?k (ParentState_from_loaded e d m)"
      by (simp add: parent_ok_def ParentState_from_loaded_def)
    moreover have "started_from E Hs1 ?k (Some d) m w" if "hydrated_from E m w" for w
      using l that by (auto simp: started_from_def loaded_def pointer_log_member)
    ultimately show ?thesis
      unfolding Some q option.case prod.case
      by (intro keeps_attempt [OF keeps_materialize_manifest [OF 1(1) cache] 1(1)])
        (auto intro: parent_ok_later started_from_later simp: ParentState_from_loaded_def)
  qed
qed auto

lemma keeps_deadline:
  "keeps E Bs P p Hs \<Longrightarrow> keeps E Bs (\<lambda>r Hs. \<forall>a. r = Some a \<longrightarrow> P a Hs) (deadline p) Hs"
proof (induction p arbitrary: Hs)
  case (Call q k)
  show ?case
    unfolding deadline.simps keeps.simps
  proof (intro allI impI conjI)
    fix Hs1 assume 1: "suffix Hs Hs1" "store_ok E Bs Hs1"
    with Call.prems show "permitted E Hs1 q" by simp
    fix Hs2 r assume 2: "sent_body q \<subseteq> Bs" "s3_answers Hs1 q Hs2 r"
    show "keeps E Bs (\<lambda>r Hs. \<forall>a. r = Some a \<longrightarrow> P a Hs) (if r = Elapsed then Return None else deadline (k r)) Hs2"
    proof (cases "r = Elapsed")
      case False
      have "keeps E Bs P (k r) Hs2" using Call.prems 1 2 unfolding keeps.simps by blast
      with Call.IH [of "k r"] False show ?thesis by simp
    qed simp
  qed
qed simp

text \<open>The keys of compacted packs, from what was read of them.\<close>

definition compacted_keys :: "git_env \<Rightarrow> CompactedPack list \<Rightarrow> string set" where
  "compacted_keys E ps = {content_key E ''packs'' b | b. Some b \<in> cp_pack_read ` set ps}"

lemma compacted_keys_Cons [simp]:
  "compacted_keys E [] = {}"
  "compacted_keys E (p # ps)
   = (case cp_pack_read p of Some b \<Rightarrow> insert (content_key E ''packs'' b) (compacted_keys E ps) | None \<Rightarrow> compacted_keys E ps)"
  by (auto simp: compacted_keys_def split: option.splits)

lemma keeps_upload_compacted:
  assumes "git_laws E Bs" "store_ok E Bs Hs" "\<forall>p \<in> set keys. pack_stored E Hs p"
  shows "keeps E Bs (\<lambda>r Hs. \<forall>ks. r = Ok ks \<longrightarrow> (\<forall>p \<in> set ks. pack_stored E Hs p) \<and> set ks = set keys \<union> compacted_keys E ps)
    (upload_compacted_packs E ps keys) Hs"
  using assms(2,3)
proof (induction ps arbitrary: keys Hs)
  case (Cons p ps)
  have next_pack: "keeps E Bs (\<lambda>r Hs. \<forall>ks. r = Ok ks \<longrightarrow>
        (\<forall>p \<in> set ks. pack_stored E Hs p) \<and> set ks = insert key (set keys \<union> compacted_keys E ps))
      (upload_compacted_packs E ps (keys @ [key])) Hs'"
    if "suffix Hs Hs'" "store_ok E Bs Hs'" "pack_stored E Hs' key" for key Hs'
    using Cons.IH [of Hs' "keys @ [key]"] that Cons.prems(2) by (auto intro: pack_stored_mono [OF _ suffix_set])
  have "keeps E Bs (\<lambda>r Hs. \<forall>key. r = Ok key \<longrightarrow> key = content_key E ''packs'' b \<and> pack_stored E Hs key)
      (map_err CasBackend (put_pack E b)) Hs" for b
    by (rule keeps_map_err [OF keeps_put_pack [OF assms(1) Cons.prems(1)] Cons.prems(1)]) auto
  then show ?case
    by (auto split: option.splits sum.splits intro!: keeps_attempt [OF _ Cons.prems(1)] next_pack
        keeps_bind [OF keeps_put_idx] intro: suffix_order.trans pack_stored_mono [OF _ suffix_set])
qed simp

lemma keeps_try_compaction:
  assumes "git_laws E Bs" "store_ok E Bs Hs"
  shows "keeps E Bs (\<lambda>r Hs. \<forall>ks. r = Some (Ok ks) \<longrightarrow> (\<forall>p \<in> set ks. pack_stored E Hs p)
        \<and> (\<exists>ps. capture_compacted_packs G refs L = Ok ps \<and> set ks = compacted_keys E ps))
    (try_compaction E G refs L threshold n) Hs"
proof -
  have "keeps E Bs (\<lambda>r Hs. \<forall>ks. r = Ok ks \<longrightarrow> (\<forall>p \<in> set ks. pack_stored E Hs p)
        \<and> (\<exists>ps. capture_compacted_packs G refs L = Ok ps \<and> set ks = compacted_keys E ps)) (prepare_compaction E G refs L n) Hs"
    by (auto simp: prepare_compaction_def split: sum.splits
        intro!: keeps_weaken [OF keeps_upload_compacted [OF assms, of "[]"] assms(2)])
  then show ?thesis
    by (auto simp: try_compaction_def intro!: keeps_bind [OF keeps_deadline assms(2)] split: option.splits)
qed

lemma keeps_write_idx: "store_ok E Bs Hs \<Longrightarrow> keeps E Bs (\<lambda>_ _. True) (write_idx_sidecar G key b) Hs"
  by (auto simp: write_idx_sidecar_def split: sum.splits option.splits
      intro!: keeps_attempt [where P = "\<lambda>_ _. True"] keeps_map_err [OF keeps_put_idx])

lemma keeps_upload_delta:
  assumes "git_laws E Bs" "store_ok E Bs Hs"
  shows "keeps E Bs (\<lambda>r Hs. \<forall>key. r = Ok key \<longrightarrow> key = map_option (content_key E ''packs'') pb
      \<and> (\<forall>p \<in> set_option key. pack_stored E Hs p)) (upload_delta E G L pb) Hs"
proof -
  have "keeps E Bs (\<lambda>r Hs. \<forall>key. r = Ok key \<longrightarrow> key = content_key E ''packs'' b \<and> pack_stored E Hs key)
      (map_err CasBackend (put_pack E b)) Hs" for b
    by (rule keeps_map_err [OF keeps_put_pack [OF assms] assms(2)]) auto
  then show ?thesis
    by (auto simp: upload_delta_def split: option.splits intro!: keeps_attempt [OF _ assms(2)]
        keeps_bind [OF keeps_write_idx] intro: pack_stored_mono [OF _ suffix_set])
qed

text \<open>The manifest a push composes: derived from the parent it was hydrated from, naming stored packs only.\<close>

definition composed :: "git_env \<Rightarrow> version list \<Rightarrow> ParentState \<Rightarrow> Manifest \<Rightarrow> bool" where
  "composed E Hs ps m =
     (mf_version m = MANIFEST_VERSION \<and> mf_parent m = ps_parent_digest ps \<and> canonical_form m = m
      \<and> (\<forall>p \<in> set (mf_packs m). pack_stored E Hs p))"

lemma parent_packs: "parent_ok E Hs k ps \<Longrightarrow> p \<in> set (mf_packs (ps_parent ps)) \<Longrightarrow> pack_stored E Hs p"
  by (auto simp: parent_ok_def loaded_def split: option.splits)

text \<open>The packs of a push: the compacted ones, or the parent's with the pack git made of the new objects, if any.\<close>

definition pushed_packs ::
    "git_env \<Rightarrow> push_git \<Rightarrow> PublishLimits \<Rightarrow> Manifest \<Rightarrow> string btree \<Rightarrow> string set \<Rightarrow> bool" where
  "pushed_packs E G L parent refs packs =
     ((\<exists>ps. capture_compacted_packs G refs L = Ok ps \<and> packs = compacted_keys E ps)
      \<or> (\<exists>new. capture_pack G (mf_refs parent) refs (pl_max_pack_bytes L) = Ok new
           \<and> packs = set (mf_packs parent) \<union> set_option (map_option (content_key E ''packs'') new)))"

definition carries ::
    "git_env \<Rightarrow> push_git \<Rightarrow> PublishLimits \<Rightarrow> Manifest \<Rightarrow> string btree \<Rightarrow> string \<Rightarrow> Manifest \<Rightarrow> bool" where
  "carries E G L parent refs head m =
     (mf_refs m = refs \<and> mf_head m = head \<and> pushed_packs E G L parent refs (set (mf_packs m)))"

lemma keeps_manifest_after:
  assumes laws: "git_laws E Bs" and ok: "store_ok E Bs Hs" and parent: "parent_ok E Hs k ps"
  shows "keeps E Bs (\<lambda>r Hs. \<forall>m. r = Ok m \<longrightarrow> composed E Hs ps m \<and> carries E G L (ps_parent ps) refs h m) (manifest_after E G ps L threshold refs h) Hs"
  unfolding manifest_after_def Let_def
proof (rule keeps_bind [OF keeps_try_compaction [OF laws ok] ok])
  fix compaction :: "(CasError, string list) result option" and Hs1
  assume 1: "suffix Hs Hs1" "store_ok E Bs Hs1"
    "\<forall>ks. compaction = Some (Ok ks) \<longrightarrow> (\<forall>p \<in> set ks. pack_stored E Hs1 p)
      \<and> (\<exists>ps. capture_compacted_packs G refs L = Ok ps \<and> set ks = compacted_keys E ps)"
  note parent1 = parent_ok_later [OF parent 1(1)]
  have delta: "keeps E Bs (\<lambda>r Hs. \<forall>m. r = Ok m \<longrightarrow> composed E Hs ps m \<and> carries E G L (ps_parent ps) refs h m)
      (attempt (upload_delta E G L pb)
        (\<lambda>key. Return (Ok (compose_after (ps_parent ps) (ps_parent_digest ps) h refs key)))) Hs1"
    if "capture_pack G (mf_refs (ps_parent ps)) refs (pl_max_pack_bytes L) = Ok pb" for pb
    by (rule keeps_attempt [OF keeps_upload_delta [OF laws 1(2)] 1(2)])
      (use that in \<open>auto simp: composed_def carries_def pushed_packs_def intro: parent_packs [OF parent_ok_later [OF parent1]]\<close>)
  show "keeps E Bs (\<lambda>r Hs. \<forall>m. r = Ok m \<longrightarrow> composed E Hs ps m \<and> carries E G L (ps_parent ps) refs h m)
     (case compaction of
        Some (Inr keys) \<Rightarrow> Return (Ok (compose_compacted_after (ps_parent_digest ps) h refs keys))
      | _ \<Rightarrow> (case capture_pack G (mf_refs (ps_parent ps)) refs (pl_max_pack_bytes L) of
           Inl e \<Rightarrow> Return (Err e)
         | Inr pb \<Rightarrow>
             if pb \<noteq> None \<and> MAX_MANIFEST_PACKS \<le> length (mf_packs (ps_parent ps))
             then Return (Err (case compaction of Some (Inl e) \<Rightarrow> e | _ \<Rightarrow> CasResourceLimit))
             else attempt (upload_delta E G L pb)
               (\<lambda>key. Return (Ok (compose_after (ps_parent ps) (ps_parent_digest ps) h refs key))))) Hs1"
    using 1(3) delta by (cases compaction) (auto simp: composed_def carries_def pushed_packs_def split: sum.splits)
qed

definition published :: "git_env \<Rightarrow> version list \<Rightarrow> string \<Rightarrow> CasSuccess \<Rightarrow> bool" where
  "published E Hs k cs =
     (\<exists>d. cs_manifest_key cs = ''manifests/'' @ d \<and> d \<in> set (pointer_log Hs k)
        \<and> stored_manifest E Hs d (cs_manifest cs)
        \<and> (\<forall>p \<in> set (mf_packs (cs_manifest cs)). pack_stored E Hs p))"

lemma published_later: "published E Hs k cs \<Longrightarrow> suffix Hs Hs' \<Longrightarrow> published E Hs' k cs"
proof -
  assume suf: "suffix Hs Hs'" and "published E Hs k cs"
  then obtain d where d: "cs_manifest_key cs = ''manifests/'' @ d" "d \<in> set (pointer_log Hs k)"
      "stored_manifest E Hs d (cs_manifest cs)" "\<forall>p \<in> set (mf_packs (cs_manifest cs)). pack_stored E Hs p"
    by (auto simp: published_def)
  have "d \<in> set (pointer_log Hs' k)" using d(2) set_mono_suffix [OF pointer_log_suffix [OF suf]] by blast
  with d suffix_set [OF suf] show ?thesis
    unfolding published_def by (blast intro: stored_manifest_mono pack_stored_mono)
qed

lemma keeps_read_winner:
  assumes "store_ok E Bs Hs"
  shows "keeps E Bs (\<lambda>_ _. True) (read_winner_after_conflict E k) Hs"
proof -
  have "keeps E Bs (\<lambda>_ _. True) (map_err winner_store_error (get_verified E key d)) Hs'"
    if "store_ok E Bs Hs'" for key d Hs'
    by (rule keeps_map_err [OF keeps_get_verified [OF that] that]) auto
  moreover have "keeps E Bs (\<lambda>_ _. True) (map_err CasBackend (get_pointer k)) Hs"
    by (rule keeps_map_err [OF keeps_get_pointer assms]) auto
  ultimately show ?thesis
    unfolding read_winner_after_conflict_def
    by (auto intro!: keeps_attempt [OF _ assms, where P = "\<lambda>_ _. True"]
        keeps_attempt [where P = "\<lambda>_ _. True" and p = "map_err winner_store_error _"] split: option.splits)
qed

lemma digest_from_manifest_key_append: "digest_from_manifest_key (''manifests/'' @ d) = Ok d"
  unfolding digest_from_manifest_key_def strip_prefix_str_append by simp

text \<open>The swap is permitted: its new manifest names as parent what its condition requires to be current.\<close>

lemma swap_permitted:
  assumes laws: "git_laws E Bs" and parent: "parent_ok E Hs k ps" and pre: "prefix ''repos/'' k"
    and m: "composed E Hs ps m" "mc_from_slice (ge_codec E) b = Some m"
    and here: "here Hs (''manifests/'' @ ge_sha256_hex E b) b"
  shows "permitted E Hs (PutObject k (ge_sha256_hex E b) (case ps_if_match ps of Some e \<Rightarrow> IfMatch e | None \<Rightarrow> IfNoneMatchStar))"
proof -
  have "is_manifest_digest (ge_sha256_hex E b)" using laws by (simp add: git_laws_def)
  moreover have "stored_manifest E Hs (ge_sha256_hex E b) m" using here m(2) by (auto simp: stored_manifest_def here_def)
  ultimately show ?thesis
    using pre parent m(1) by (auto simp: parent_ok_def composed_def loaded_def split: option.splits)
qed

lemma keeps_install_manifest:
  assumes laws: "git_laws E Bs" and ok: "store_ok E Bs Hs" and parent: "parent_ok E Hs k ps"
    and pre: "prefix ''repos/'' k" and m: "composed E Hs ps m"
  shows "keeps E Bs (\<lambda>r Hs. \<forall>cs. r = Ok cs \<longrightarrow> published E Hs k cs \<and> cs_manifest cs = m)
    (install_manifest E k ps m) Hs"
proof (cases "validate_manifest m = Ok () \<and> (\<exists>b. mc_to_vec (ge_codec E) m = Some b)")
  case False
  with m show ?thesis
    by (auto simp: install_manifest_def canonical_bytes_def composed_def split: sum.splits option.splits)
next
  case True
  then obtain b where valid: "validate_manifest m = Ok ()" and vec: "mc_to_vec (ge_codec E) m = Some b" by blast
  with laws have slice: "mc_from_slice (ge_codec E) b = Some m" by (simp add: git_laws_def)
  have bytes: "canonical_bytes (ge_codec E) m = Ok b" using vec m by (simp add: canonical_bytes_def composed_def)
  let ?d = "ge_sha256_hex E b"
  let ?pre = "case ps_if_match ps of Some e \<Rightarrow> IfMatch e | None \<Rightarrow> IfNoneMatchStar"
  have mok: "manifest_ok E Hs b" using m slice valid by (auto simp: manifest_ok_def composed_def)
  have put: "keeps E Bs (\<lambda>r Hs. \<forall>key. r = Ok key \<longrightarrow> key = ''manifests/'' @ ?d \<and> here Hs key b)
      (map_err CasBackend (put_manifest E b)) Hs"
    by (rule keeps_map_err [OF keeps_put_manifest [OF laws mok] ok]) auto
  have swap: "keeps E Bs (\<lambda>r Hs. \<forall>cs. r = Ok cs \<longrightarrow> published E Hs k cs \<and> cs_manifest cs = m)
      (attempt (map_err CasBackend (put_pointer E k ?d ?pre))
        (\<lambda>outcome. case outcome of
             Won _ \<Rightarrow> Return (Ok \<lparr>cs_manifest = m, cs_manifest_key = ''manifests/'' @ ?d\<rparr>)
           | LostRace \<Rightarrow> attempt (read_winner_after_conflict E k) (\<lambda>(winner, key). Return (Err (Conflict winner key))))) Hs1"
    if 1: "suffix Hs Hs1" "store_ok E Bs Hs1" "here Hs1 (''manifests/'' @ ?d) b" for Hs1
  proof (rule keeps_attempt [OF _ 1(2)])
    have m1: "composed E Hs1 ps m" using m 1(1) by (auto simp: composed_def intro: pack_stored_mono [OF _ suffix_set])
    show "keeps E Bs (\<lambda>r Hs. \<forall>e. r = Ok (Won e) \<longrightarrow> ?d \<in> set (pointer_log Hs k)) (map_err CasBackend (put_pointer E k ?d ?pre)) Hs1"
      by (rule keeps_map_err [OF keeps_put_pointer
            [OF swap_permitted [OF laws parent_ok_later [OF parent 1(1)] pre m1 slice 1(3)]] 1(2)]) auto
    fix outcome Hs2 assume 2: "suffix Hs1 Hs2" "store_ok E Bs Hs2"
      "\<forall>e. (Ok outcome :: (CasError, CasOutcome) result) = Ok (Won e) \<longrightarrow> ?d \<in> set (pointer_log Hs2 k)"
    have "stored_manifest E Hs2 ?d m"
      using here_mono [OF 1(3) 2(1)] slice by (auto simp: stored_manifest_def here_def)
    moreover have "\<forall>p \<in> set (mf_packs m). pack_stored E Hs2 p"
      using m1 2(1) by (auto simp: composed_def intro: pack_stored_mono [OF _ suffix_set])
    ultimately show "keeps E Bs (\<lambda>r Hs. \<forall>cs. r = Ok cs \<longrightarrow> published E Hs k cs \<and> cs_manifest cs = m)
        (case outcome of
             Won _ \<Rightarrow> Return (Ok \<lparr>cs_manifest = m, cs_manifest_key = ''manifests/'' @ ?d\<rparr>)
           | LostRace \<Rightarrow> attempt (read_winner_after_conflict E k) (\<lambda>(winner, key). Return (Err (Conflict winner key)))) Hs2"
      using 2 by (auto simp: published_def split: CasOutcome.splits intro!: keeps_attempt [OF keeps_read_winner])
  qed auto
  show ?thesis
    unfolding install_manifest_def valid bytes sum.case
  proof (rule keeps_attempt [OF put ok])
    fix key Hs1
    assume 1: "suffix Hs Hs1" "store_ok E Bs Hs1"
      "\<forall>key'. (Ok key :: (CasError, string) result) = Ok key' \<longrightarrow> key' = ''manifests/'' @ ?d \<and> here Hs1 key' b"
    then have key: "key = ''manifests/'' @ ?d" and "here Hs1 (''manifests/'' @ ?d) b" by auto
    show "keeps E Bs (\<lambda>r Hs. \<forall>cs. r = Ok cs \<longrightarrow> published E Hs k cs \<and> cs_manifest cs = m)
      (case digest_from_manifest_key key of Inl e \<Rightarrow> Return (Err e)
       | Inr manifest_digest \<Rightarrow>
          attempt (map_err CasBackend (put_pointer E k manifest_digest ?pre))
            (\<lambda>outcome. case outcome of
               Won _ \<Rightarrow> Return (Ok \<lparr>cs_manifest = m, cs_manifest_key = key\<rparr>)
             | LostRace \<Rightarrow> attempt (read_winner_after_conflict E k)
                 (\<lambda>(winner, key). Return (Err (Conflict winner key))))) Hs1"
      unfolding key digest_from_manifest_key_append sum.case by (rule swap) fact+
  qed auto
qed

section \<open>Chains of published manifests\<close>

lemma linked_tail_unique:
  assumes "git_laws E Bs" "store_ok E Bs Hs"
  shows "linked E Hs (d # ys) \<Longrightarrow> linked E Hs (d # zs) \<Longrightarrow> ys = zs"
proof (induction ys arbitrary: d zs)
  case Nil
  then show ?case using stored_manifest_unique [OF assms] by (cases zs) fastforce+
next
  case (Cons y ys)
  from Cons.prems stored_manifest_unique [OF assms] obtain zs' where "zs = y # zs'" by (cases zs) fastforce+
  with Cons.IH [of y zs'] Cons.prems show ?case by simp
qed

lemma linked_append: "linked E Hs (xs @ ys) \<Longrightarrow> linked E Hs ys"
  by (induction xs) auto

lemma linked_distinct:
  assumes "git_laws E Bs" "store_ok E Bs Hs" "linked E Hs ds"
  shows "distinct ds"
  using assms(3)
proof (induction ds)
  case (Cons d ds)
  have "d \<notin> set ds"
  proof
    assume "d \<in> set ds"
    then obtain xs ys where ds: "ds = xs @ d # ys" by (auto simp: in_set_conv_decomp)
    with Cons.prems have "linked E Hs (d # ys)" using linked_append [of E Hs xs "d # ys"] by simp
    from linked_tail_unique [OF assms(1,2) this Cons.prems] ds show False by (auto dest: arg_cong [of _ _ length])
  qed
  with Cons show ?case by simp
qed simp

text \<open>A committed manifest differs from its parent, be its refs the same or not.\<close>

lemma chain_parent_differs:
  assumes "git_laws E Bs" "store_ok E Bs Hs" "prefix ''repos/'' k" "d \<in> set (pointer_log Hs k)"
    and "stored_manifest E Hs d m" "mf_parent m = Some d'"
  shows "d' \<noteq> d"
proof -
  from assms(4) obtain xs ys where log: "pointer_log Hs k = xs @ d # ys" by (auto simp: in_set_conv_decomp)
  have linked: "linked E Hs (pointer_log Hs k)" using assms(2,3) by (auto simp: store_ok_def)
  with log have "linked E Hs (d # ys)" by (metis linked_append)
  then obtain m' where "stored_manifest E Hs d m'" "mf_parent m' = (case ys of [] \<Rightarrow> None | y # _ \<Rightarrow> Some y)" by auto
  with stored_manifest_unique [OF assms(1,2,5)] assms(6) obtain zs where "ys = d' # zs" by (cases ys) auto
  with linked_distinct [OF assms(1,2) linked] log show ?thesis by auto
qed


text \<open>What a successful publication put under the pointer: the refs and objects of git's workspace, on top of the parent.\<close>

definition pushed_state ::
    "git_env \<Rightarrow> push_git \<Rightarrow> PublishLimits \<Rightarrow> string option \<Rightarrow> Manifest \<Rightarrow> Manifest \<Rightarrow> bool" where
  "pushed_state E G L d parent m =
     (mf_parent m = d
      \<and> (\<exists>refs observed. snapshot_workspace_state G = Ok (refs, observed)
           \<and> mf_refs m = refs \<and> mf_head m = resolve_published_head refs observed (mf_head parent)
           \<and> pushed_packs E G L parent refs (set (mf_packs m))))"

lemma keeps_cas_publish:
  assumes laws: "git_laws E Bs" and ok: "store_ok E Bs Hs" and parent: "parent_ok E Hs (pointer_key c owner repo) ps"
  shows "keeps E Bs (\<lambda>r Hs. \<forall>cs. r = Ok cs \<longrightarrow> published E Hs (pointer_key c owner repo) cs
      \<and> pushed_state E G L (ps_parent_digest ps) (ps_parent ps) (cs_manifest cs))
    (cas_publish E G c owner repo ps L) Hs"
proof (cases "snapshot_workspace_state G")
  case (Inr snap)
  obtain refs observed where snap: "snap = (refs, observed)" by (cases snap)
  let ?h = "resolve_published_head refs observed (mf_head (ps_parent ps))"
  show ?thesis
    unfolding cas_publish_def cas_publish_inner_def Inr snap sum.case prod.case
  proof (rule keeps_attempt [OF keeps_manifest_after [OF laws ok parent] ok])
    fix m Hs1 assume 1: "suffix Hs Hs1" "store_ok E Bs Hs1"
      "\<forall>m'. (Ok m :: (CasError, Manifest) result) = Ok m' \<longrightarrow> composed E Hs1 ps m' \<and> carries E G L (ps_parent ps) refs ?h m'"
    then have m: "composed E Hs1 ps m" "carries E G L (ps_parent ps) refs ?h m" by auto
    show "keeps E Bs (\<lambda>r Hs. \<forall>cs. r = Ok cs \<longrightarrow> published E Hs (pointer_key c owner repo) cs
        \<and> pushed_state E G L (ps_parent_digest ps) (ps_parent ps) (cs_manifest cs))
      (install_manifest E (pointer_key c owner repo) ps m) Hs1"
      by (rule keeps_weaken [OF keeps_install_manifest [OF laws 1(2) parent_ok_later [OF parent 1(1)] pointer_key_prefix m(1)] 1(2)])
        (use m in \<open>auto simp: pushed_state_def carries_def composed_def Inr snap\<close>)
  qed auto
qed (simp add: cas_publish_def cas_publish_inner_def)

text \<open>The event of a committed manifest.\<close>

definition commit_event :: "git_env \<Rightarrow> string \<Rightarrow> string \<Rightarrow> CasSuccess \<Rightarrow> string option" where
  "commit_event E d pusher cs =
     (case build_ref_state_event (ge_public_key_ok E) (ge_sign E)
          \<lparr>rs_repo_id = d, rs_head = mf_head (cs_manifest cs), rs_refs = mf_refs (cs_manifest cs),
           rs_actor_pubkey_hex = pusher\<rparr> of
        Inl _ \<Rightarrow> None | Inr ev \<Rightarrow> Some ev)"

lemma committed_changes:
  assumes "git_laws E Bs" "store_ok E Bs Hs" "published E Hs k cs" "prefix ''repos/'' k"
    and "mf_parent (cs_manifest cs) = ps_parent_digest ps"
  shows "manifest_changed ps cs"
proof -
  from assms(3) obtain d where d: "cs_manifest_key cs = ''manifests/'' @ d" "d \<in> set (pointer_log Hs k)"
      "stored_manifest E Hs d (cs_manifest cs)"
    by (auto simp: published_def)
  have "strip_prefix_str ''manifests/'' (cs_manifest_key cs) = Some d" unfolding d(1) by (rule strip_prefix_str_append)
  with chain_parent_differs [OF assms(1,2,4) d(2,3)] assms(5) show ?thesis
    by (auto simp: manifest_changed_def split: option.splits)
qed

text \<open>
  What a finished push did, by its answer. A 200 is the output of a \<open>receive-pack\<close> that ran in a workspace of a published
  state; it comes with a published manifest carrying that workspace's refs and objects if git exited with success and
  its report rejects nothing, and with no publication otherwise. Every other answer comes without committed
  manifest and without event.
\<close>

definition push_published ::
    "git_env \<Rightarrow> version list \<Rightarrow> string \<Rightarrow> string \<Rightarrow> string \<Rightarrow> pack_host \<Rightarrow> (HydratedRepo \<Rightarrow> push_git) \<Rightarrow> push_outcome \<Rightarrow> bool" where
  "push_published E Hs k name pusher H G po =
     (if fst (po_response po) = 200
      then \<exists>w d parent stdout exited_ok.
        started_from E Hs k d parent w \<and> pg_receive (G w) = GitExited stdout exited_ok \<and> po_response po = (200, stdout)
        \<and> (if exited_ok \<and> \<not> receive_pack_report_rejected stdout
           then \<exists>cs. po_publish po = Some (Ok cs) \<and> po_event po = commit_event E name pusher cs \<and> published E Hs k cs
                  \<and> pushed_state E (G w) (push_limits H w) d parent (cs_manifest cs)
           else po_publish po = None \<and> po_event po = None)
      else po_publish po \<notin> range (Some \<circ> Ok) \<and> po_event po = None)"

lemma push_published_later:
  "push_published E Hs k name pusher H G po \<Longrightarrow> suffix Hs Hs' \<Longrightarrow> push_published E Hs' k name pusher H G po"
  unfolding push_published_def using started_from_later published_later by (smt (verit, best))

lemma push_published_refused [simp]: "fst r \<noteq> 200 \<Longrightarrow> push_published E Hs k name pusher H G (no_publish r)"
  by (auto simp: push_published_def no_publish_def)

lemma cas_error_status: "fst (cas_error_response e) \<noteq> 200"
  by (cases e) simp_all

lemma keeps_finalize_push:
  assumes laws: "git_laws E Bs" and ok: "store_ok E Bs Hs" and parent: "parent_ok E Hs (pointer_key c owner repo) ps"
    and start: "started_from E Hs (pointer_key c owner repo) (ps_parent_digest ps) (ps_parent ps) w"
    and git: "pg_receive (G w) = GitExited out exited_ok"
    and pack: "pack = \<lparr>pk_stdout = out, pk_ok = exited_ok \<and> \<not> receive_pack_report_rejected out\<rparr>"
  shows "keeps E Bs (\<lambda>po Hs. push_published E Hs (pointer_key c owner repo) name pusher H G po)
    (finalize_push E (G w) c owner repo name pusher ps (push_limits H w) pack) Hs"
proof (cases "pk_ok pack")
  case True
  let ?k = "pointer_key c owner repo"
  have "push_published E Hs' ?k name pusher H G
      (case r of
          Inl e \<Rightarrow> \<lparr>po_response = cas_error_response e, po_publish = Some (Err e), po_event = None\<rparr>
        | Inr success \<Rightarrow> \<lparr>po_response = (200, pk_stdout pack), po_publish = Some (Ok success),
             po_event = ref_state_event E name pusher ps success\<rparr>)"
    if "suffix Hs Hs'" "store_ok E Bs Hs'" "\<forall>cs. r = Ok cs \<longrightarrow> published E Hs' ?k cs
      \<and> pushed_state E (G w) (push_limits H w) (ps_parent_digest ps) (ps_parent ps) (cs_manifest cs)" for r Hs'
  proof (cases r)
    case (Inl e)
    then show ?thesis by (auto simp: push_published_def cas_error_status)
  next
    case (Inr cs)
    with that(3) have cs: "published E Hs' ?k cs"
        "pushed_state E (G w) (push_limits H w) (ps_parent_digest ps) (ps_parent ps) (cs_manifest cs)" by auto
    then have "manifest_changed ps cs"
      using committed_changes [OF laws that(2) cs(1) pointer_key_prefix] by (simp add: pushed_state_def)
    with Inr cs git pack True started_from_later [OF start that(1)] show ?thesis
      by (auto simp: push_published_def ref_state_event_def commit_event_def)
  qed
  with True show ?thesis
    unfolding finalize_push_def by (auto intro!: keeps_bind [OF keeps_cas_publish [OF laws ok parent] ok])
next
  case False
  with start git pack show ?thesis by (auto simp: finalize_push_def push_published_def no_publish_def)
qed

lemma validate_repo_id_ok: "validate_repo_id owner repo = Ok name \<Longrightarrow> name = strip_git repo"
  by (auto simp: validate_repo_id_def split: if_splits)

lemma refusals:
  "validate_repo_id owner repo = Err resp \<Longrightarrow> fst resp \<noteq> 200" "fst git_busy \<noteq> 200"
  "fst (hydrate_error_to_response he) \<noteq> 200"
  "run_git_at service process limit = Err resp \<Longrightarrow> fst resp \<noteq> 200"
  by (auto simp: validate_repo_id_def not_found_def git_busy_def run_git_at_def split: if_splits git_process.splits)
    (cases he; simp)

lemma run_git_at_ok:
  "run_git_at ''receive-pack'' process limit = Ok pack \<longleftrightarrow>
    (\<exists>out exited_ok. process = GitExited out exited_ok \<and> length out \<le> limit
       \<and> pack = \<lparr>pk_stdout = out, pk_ok = exited_ok \<and> \<not> receive_pack_report_rejected out\<rparr>)"
  by (auto simp: run_git_at_def split: git_process.splits)

lemma keeps_receive_pack:
  assumes "git_laws E Bs" "store_ok E Bs Hs" "cache_sound E H"
  shows "keeps E Bs (\<lambda>po Hs. push_published E Hs (pointer_key c owner repo) (strip_git repo) pusher H G po)
    (receive_pack E H G permit c owner repo pusher) Hs"
  unfolding receive_pack_def
  by (auto simp: refusals run_git_at_ok split: sum.splits dest!: validate_repo_id_ok
      intro!: keeps_bind [OF keeps_hydrate_for_write [OF assms(2,3)] assms(2)] keeps_finalize_push [OF assms(1)])

section \<open>Announcing\<close>

lemma validate_empty: "validate_manifest empty_manifest = Ok ()"
proof -
  have "is_safe_refname DEFAULT_HEAD" by code_simp
  then show ?thesis by (simp add: validate_manifest_ok empty_manifest_def)
qed

lemma keeps_seed:
  assumes laws: "git_laws E Bs" and ok: "store_ok E Bs Hs"
  shows "keeps E Bs (\<lambda>r Hs. r = Ok () \<longrightarrow> pointer_log Hs (pointer_key c owner d) \<noteq> []) (seed_manifest_pointer E c owner d) Hs"
proof (cases "mc_to_vec (ge_codec E) empty_manifest")
  case None
  then show ?thesis
    unfolding seed_manifest_pointer_def validate_empty by (simp add: canonical_bytes_def canonical_form_def empty_manifest_def sort_dedup_def)
next
  case (Some b)
  let ?k = "pointer_key c owner d" and ?h = "ge_sha256_hex E b"
  have canon: "canonical_form empty_manifest = empty_manifest"
    by (simp add: canonical_form_def empty_manifest_def sort_dedup_def)
  have bytes: "canonical_bytes (ge_codec E) empty_manifest = Ok b" by (simp add: canonical_bytes_def canon Some)
  have slice: "mc_from_slice (ge_codec E) b = Some empty_manifest" using laws Some by (simp add: git_laws_def)
  have mok: "manifest_ok E Hs b" using slice validate_empty by (simp add: manifest_ok_def empty_manifest_def)
  have put: "keeps E Bs (\<lambda>r Hs. \<forall>key. r = Ok key \<longrightarrow> key = ''manifests/'' @ ?h \<and> here Hs key b)
      (map_err (\<lambda>_. ()) (put_manifest E b)) Hs"
    by (rule keeps_map_err [OF keeps_put_manifest [OF laws mok] ok]) auto
  have reread: "keeps E Bs (\<lambda>r Hs. \<forall>p. r = Ok (Some p) \<longrightarrow> pointer_log Hs ?k \<noteq> [])
      (map_err (\<lambda>_. ()) (get_pointer ?k)) Hs'" if "store_ok E Bs Hs'" for Hs'
    by (rule keeps_map_err [OF keeps_get_pointer that]) (auto simp: read_at_def)
  have swap: "keeps E Bs (\<lambda>r Hs. r = Ok () \<longrightarrow> pointer_log Hs ?k \<noteq> [])
      (attempt (map_err (\<lambda>_. ()) (put_pointer E ?k ?h IfNoneMatchStar))
        (\<lambda>outcome. case outcome of
           Won _ \<Rightarrow> Return (Ok ())
         | LostRace \<Rightarrow> attempt (map_err (\<lambda>_. ()) (get_pointer ?k))
             (\<lambda>p. Return (case p of None \<Rightarrow> Err ()
                | Some (_, body) \<Rightarrow> (case from_utf8 body of None \<Rightarrow> Err ()
                    | Some s \<Rightarrow> if trim s \<noteq> ?h then Err () else Ok ()))))) Hs1"
    if 1: "suffix Hs Hs1" "store_ok E Bs Hs1" "here Hs1 (''manifests/'' @ ?h) b" for Hs1
  proof -
    have "is_manifest_digest ?h" "stored_manifest E Hs1 ?h empty_manifest" "mf_parent empty_manifest = None"
      using laws slice 1(3) by (auto simp: git_laws_def stored_manifest_def here_def empty_manifest_def)
    then have "permitted E Hs1 (PutObject ?k ?h IfNoneMatchStar)" by auto
    then have "keeps E Bs (\<lambda>r Hs. \<forall>e. r = Ok (Won e) \<longrightarrow> ?h \<in> set (pointer_log Hs ?k))
        (map_err (\<lambda>_. ()) (put_pointer E ?k ?h IfNoneMatchStar)) Hs1"
      by (intro keeps_map_err [OF keeps_put_pointer 1(2)]) auto
    then show ?thesis
      by (rule keeps_attempt [OF _ 1(2)])
        (auto split: CasOutcome.splits option.splits intro!: keeps_attempt [OF reread])
  qed
  show ?thesis
    unfolding seed_manifest_pointer_def validate_empty bytes sum.case
  proof (rule keeps_attempt [OF put ok])
    fix key Hs1
    assume 1: "suffix Hs Hs1" "store_ok E Bs Hs1"
      "\<forall>key'. (Ok key :: (unit, string) result) = Ok key' \<longrightarrow> key' = ''manifests/'' @ ?h \<and> here Hs1 key' b"
    then have key: "key = ''manifests/'' @ ?h" and "here Hs1 (''manifests/'' @ ?h) b" by auto
    show "keeps E Bs (\<lambda>r Hs. r = Ok () \<longrightarrow> pointer_log Hs ?k \<noteq> [])
      (case strip_prefix_str ''manifests/'' key of
         None \<Rightarrow> Return (Err ())
       | Some digest \<Rightarrow>
          attempt (map_err (\<lambda>_. ()) (put_pointer E ?k digest IfNoneMatchStar))
            (\<lambda>outcome. case outcome of
               Won _ \<Rightarrow> Return (Ok ())
             | LostRace \<Rightarrow> attempt (map_err (\<lambda>_. ()) (get_pointer ?k))
                 (\<lambda>p. Return (case p of None \<Rightarrow> Err ()
                    | Some (_, body) \<Rightarrow> (case from_utf8 body of None \<Rightarrow> Err ()
                        | Some s \<Rightarrow> if trim s \<noteq> digest then Err () else Ok ()))))) Hs1"
      unfolding key strip_prefix_str_append option.case by (rule swap) fact+
  qed auto
qed

lemma keeps_ensure:
  assumes "git_laws E Bs" "store_ok E Bs Hs"
  shows "keeps E Bs (\<lambda>r Hs. r = Ok () \<longrightarrow> pointer_log Hs (pointer_key c owner d) \<noteq> []) (ensure_manifest_pointer E c owner d) Hs"
proof -
  let ?k = "pointer_key c owner d"
  have "keeps E Bs (\<lambda>r Hs. \<forall>p. r = Ok (Some p) \<longrightarrow> pointer_log Hs ?k \<noteq> []) (map_err (\<lambda>_. ()) (get_pointer ?k)) Hs"
    by (rule keeps_map_err [OF keeps_get_pointer assms(2)]) (auto simp: read_at_def)
  then show ?thesis
    unfolding ensure_manifest_pointer_def
    by (rule keeps_attempt [OF _ assms(2)]) (auto split: option.splits intro!: keeps_seed [OF assms(1)])
qed

lemma keeps_announce:
  assumes "git_laws E Bs" "store_ok E Bs Hs"
  shows "keeps E Bs (\<lambda>a Hs. an_accepted a \<longrightarrow> (\<exists>d. d_tag = Some d \<and> pointer_log Hs (pointer_key c owner d) \<noteq> []))
    (handle_git_repo_announcement E N c owner d_tag) Hs"
proof -
  have both: "keeps E Bs (\<lambda>r Hs. r = Ok () \<longrightarrow> pointer_log Hs (pointer_key c owner d) \<noteq> [])
      (if outcome = Reserved then seed_manifest_pointer E c owner d else ensure_manifest_pointer E c owner d) Hs"
    for outcome d
    using keeps_seed [OF assms] keeps_ensure [OF assms] by simp
  show ?thesis
  proof (cases "\<exists>d outcome. d_tag = Some d \<and> repo_name_ok d \<and> claim_name N owner = Ok outcome")
    case True
    then obtain d outcome where d: "d_tag = Some d" "repo_name_ok d" "claim_name N owner = Ok outcome" by blast
    show ?thesis
      unfolding handle_git_repo_announcement_def d option.case sum.case
      by (simp only: d(2) not_True_eq_False if_False, rule keeps_bind [OF both assms(2)])
        (simp add: announce_refused_def split: sum.splits)
  qed (auto simp: handle_git_repo_announcement_def announce_refused_def split: option.splits sum.splits)
qed

section \<open>Every operation, in every run\<close>

definition served_ok :: "git_env \<Rightarrow> version list \<Rightarrow> version list \<Rightarrow> string \<Rightarrow> (git_response, served) result \<Rightarrow> bool" where
  "served_ok E Hs0 Hs k r =
     (case r of
        Inr (FromManifest m body) \<Rightarrow>
          served_from E Hs0 Hs k (\<lambda>m'. m' = m) \<and> build_upload_pack_advertisement m = Some body
      | Inr (FromRepo w) \<Rightarrow> served_from E Hs0 Hs k (\<lambda>m. hydrated_from E m w)
      | Inl _ \<Rightarrow> True)"

lemma keeps_serve_from_repo:
  assumes "store_ok E Bs Hs" "cache_sound E H"
  shows "keeps E Bs (\<lambda>r Hs'. served_ok E Hs Hs' (pointer_key c owner repo) r) (serve_from_repo E H permit c owner repo) Hs"
  unfolding serve_from_repo_def
  by (auto simp: served_ok_def split: sum.splits option.splits
      intro!: keeps_bind [OF keeps_hydrate_for_read [OF assms] assms(1)])

lemma pointer_log_set_suffix: "suffix Hs Hs' \<Longrightarrow> suffix (pointer_log Hs k) (pointer_log Hs' k)"
  by (rule pointer_log_suffix)

lemma served_from_earlier:
  "served_from E Hs1 Hs k P \<Longrightarrow> suffix Hs0 Hs1 \<Longrightarrow> served_from E Hs0 Hs k P"
  unfolding served_from_def read_at_def using pointer_log_suffix suffix_order.trans by metis

lemma served_ok_later:
  "served_ok E Hs1 Hs k r \<Longrightarrow> suffix Hs0 Hs1 \<Longrightarrow> suffix Hs Hs' \<Longrightarrow> served_ok E Hs0 Hs' k r"
  unfolding served_ok_def
  by (auto split: sum.splits served.splits intro: served_from_earlier served_from_later)

lemma keeps_info_refs:
  assumes ok: "store_ok E Bs Hs" and cache: "cache_sound E H"
  shows "keeps E Bs (\<lambda>r Hs'. served_ok E Hs Hs' (pointer_key c owner repo) r)
    (info_refs E P H permit c caller service owner repo) Hs"
proof -
  let ?k = "pointer_key c owner repo"
  have repo: "keeps E Bs (\<lambda>r Hs'. served_ok E Hs Hs' ?k r) (serve_from_repo E H permit c owner repo) Hs1"
    if "suffix Hs Hs1" "store_ok E Bs Hs1" for Hs1
    by (rule keeps_weaken [OF keeps_serve_from_repo [OF that(2) cache] that(2)])
      (auto intro: served_ok_later [OF _ that(1)])
  have err: "served_ok E Hs Hs' ?k (Err x)" for Hs' x by (simp add: served_ok_def)
  have fast: "keeps E Bs (\<lambda>r Hs'. served_ok E Hs Hs' ?k r)
      (bind (load_manifest_for_read E c owner repo)
        (\<lambda>r. case r of
           Inl e \<Rightarrow> Return (Err (hydrate_error_to_response e))
         | Inr None \<Rightarrow> Return (Err not_found)
         | Inr (Some m) \<Rightarrow>
             if fast_path_eligible m
             then (case build_upload_pack_advertisement m of
                 Some body \<Rightarrow> Return (Ok (FromManifest m body))
               | None \<Rightarrow> Return (Err (500, [])))
             else serve_from_repo E H permit c owner repo)) Hs"
  proof (rule keeps_bind [OF keeps_load_manifest [OF ok] ok])
    fix r :: "(HydrateError, Manifest option) result" and Hs1
    assume "suffix Hs Hs1" "store_ok E Bs Hs1" "\<forall>m. r = Ok (Some m) \<longrightarrow> served_from E Hs Hs1 ?k (\<lambda>m'. m' = m)"
    then show "keeps E Bs (\<lambda>r Hs'. served_ok E Hs Hs' ?k r)
       (case r of
           Inl e \<Rightarrow> Return (Err (hydrate_error_to_response e))
         | Inr None \<Rightarrow> Return (Err not_found)
         | Inr (Some m) \<Rightarrow>
             if fast_path_eligible m
             then (case build_upload_pack_advertisement m of
                 Some body \<Rightarrow> Return (Ok (FromManifest m body))
               | None \<Rightarrow> Return (Err (500, [])))
             else serve_from_repo E H permit c owner repo) Hs1"
      using repo [of Hs1] by (auto simp: err split: sum.splits option.splits) (simp add: served_ok_def)
  qed
  show ?thesis
    unfolding info_refs_def using fast repo [of Hs] ok by (auto simp: err split: sum.splits)
qed

lemma keeps_upload_pack:
  assumes "store_ok E Bs Hs" "cache_sound E H"
  shows "keeps E Bs (\<lambda>r Hs'. served_ok E Hs Hs' (pointer_key c owner repo) r)
    (upload_pack E P H permit c caller owner repo) Hs"
  unfolding upload_pack_def using keeps_serve_from_repo [OF assms]
  by (auto simp: served_ok_def split: sum.splits)

fun op_key :: "git_op \<Rightarrow> string" where
  "op_key (Push H G permit c owner repo pusher) = pointer_key c owner repo"
| "op_key (InfoRefs P H permit c caller service owner repo) = pointer_key c owner repo"
| "op_key (UploadPack P H permit c caller owner repo) = pointer_key c owner repo"
| "op_key (Announce N c owner d_tag) = pointer_key c owner (unwrap_or d_tag [])"

fun op_ok :: "git_env \<Rightarrow> git_op \<Rightarrow> bool" where
  "op_ok E (Push H G permit c owner repo pusher) = cache_sound E H"
| "op_ok E (InfoRefs P H permit c caller service owner repo) = cache_sound E H"
| "op_ok E (UploadPack P H permit c caller owner repo) = cache_sound E H"
| "op_ok E (Announce N c owner d_tag) = True"

fun result_ok :: "git_env \<Rightarrow> version list \<Rightarrow> git_op \<Rightarrow> git_result \<Rightarrow> version list \<Rightarrow> bool" where
  "result_ok E Hs0 op (Pushed po) Hs =
     (case op of
        Push H G permit c owner repo pusher \<Rightarrow> push_published E Hs (op_key op) (strip_git repo) pusher H G po
      | _ \<Rightarrow> False)"
| "result_ok E Hs0 op (ServedRead r) Hs = served_ok E Hs0 Hs (op_key op) r"
| "result_ok E Hs0 op (Announced a) Hs = (an_accepted a \<longrightarrow> pointer_log Hs (op_key op) \<noteq> [])"

lemma result_ok_stable: "stable E Bs (result_ok E Hs0 op)"
  unfolding stable_def
proof (intro allI impI)
  fix r Hs Hs' assume "result_ok E Hs0 op r Hs" "suffix Hs Hs'" "store_ok E Bs Hs'"
  then show "result_ok E Hs0 op r Hs'"
    using pointer_log_suffix [of Hs Hs' "op_key op"]
    by (cases r) (auto simp: suffix_def intro: push_published_later served_ok_later split: git_op.splits)
qed

lemma keeps_program:
  assumes laws: "git_laws E Bs" and ok: "store_ok E Bs Hs" and cache: "op_ok E op"
  shows "keeps E Bs (result_ok E Hs op) (git_program E op) Hs"
proof (cases op)
  case (Push H G permit c owner repo pusher)
  with cache show ?thesis by (auto intro!: keeps_bind [OF keeps_receive_pack [OF laws ok] ok])
next
  case (InfoRefs P H permit c caller service owner repo)
  with cache show ?thesis by (auto intro!: keeps_bind [OF keeps_info_refs [OF ok] ok])
next
  case (UploadPack P H permit c caller owner repo)
  with cache show ?thesis by (auto intro!: keeps_bind [OF keeps_upload_pack [OF ok] ok])
next
  case (Announce N c owner d_tag)
  then show ?thesis by (auto intro!: keeps_bind [OF keeps_announce [OF laws ok] ok])
qed

lemma store_ok_Nil [simp]: "store_ok E Bs []"
  by (simp add: store_ok_def)

text \<open>A run in two parts: what is true at the seam holds for every task that starts after it.\<close>

lemma git_run_parts:
  assumes K: "bucket_laws K" and run: "git_run E K ops (sched1 @ sched2) s0 = (s, ts, sent)"
    and empty: "bk_history K s0 = []" and laws: "git_laws E (bodies sent)" and cache: "\<forall>op \<in> set ops. op_ok E op"
  obtains s1 ts1 sent1 where "git_run E K ops sched1 s0 = (s1, ts1, sent1)"
    "suffix (bk_history K s1) (bk_history K s)" "store_ok E (bodies sent) (bk_history K s)" "length ts = length ops"
    "\<And>i. i < length ops \<Longrightarrow> keeps E (bodies sent) (result_ok E [] (ops ! i)) (ts ! i) (bk_history K s)"
    "\<And>i. i < length ops \<Longrightarrow> keeps E (bodies sent) (result_ok E [] (ops ! i)) (ts1 ! i) (bk_history K s1)"
    "\<And>i. i < length ops \<Longrightarrow> ts1 ! i = git_program E (ops ! i) \<Longrightarrow>
       keeps E (bodies sent) (result_ok E (bk_history K s1) (ops ! i)) (ts ! i) (bk_history K s)"
proof -
  have app: "run_tasks K (a @ b) st = run_tasks K b (run_tasks K a st)" for a b st
  proof (induction a arbitrary: st)
    case (Cons x a)
    obtain i c where x: "x = (i, c)" by (cases x)
    obtain s ts sent where st: "st = (s, ts, sent)" by (cases st)
    show ?case
    proof (cases "i < length ts \<and> (\<exists>q k. ts ! i = Call q k)")
      case True
      then obtain q k where i: "i < length ts" "ts ! i = Call q k" by auto
      obtain s1 r where serve: "bk_serve K s q c = (s1, r)" by fastforce
      show ?thesis unfolding append_Cons x st run_tasks_call [OF i serve] by (rule Cons.IH)
    next
      case False
      show ?thesis unfolding append_Cons x st run_tasks_idle [OF False] by (rule Cons.IH)
    qed
  qed simp
  obtain s1 ts1 sent1 where first: "git_run E K ops sched1 s0 = (s1, ts1, sent1)" by (cases "git_run E K ops sched1 s0")
  have second: "run_tasks K sched2 (s1, ts1, sent1) = (s, ts, sent)"
    using run first by (simp add: git_run_def app)
  have "set sent1 \<subseteq> set sent" by (rule run_sent [OF second])
  then have sub: "bodies sent1 \<subseteq> bodies sent" by (auto simp: bodies_def)
  let ?Bs = "bodies sent"
  have start: "keeps E ?Bs (result_ok E [] (ops ! i)) (map (git_program E) ops ! i) (bk_history K s0)"
    if "i < length (map (git_program E) ops)" for i
    using keeps_program [OF laws store_ok_Nil, of "ops ! i"] cache that empty by simp
  have ok0: "store_ok E ?Bs (bk_history K s0)" using empty by simp
  note part1 = run_keeps [OF K first [unfolded git_run_def] sub ok0 result_ok_stable start]
  then have ok1: "store_ok E ?Bs (bk_history K s1)" and len1: "length ts1 = length ops"
    and k1: "\<And>i. i < length ops \<Longrightarrow> keeps E ?Bs (result_ok E [] (ops ! i)) (ts1 ! i) (bk_history K s1)"
    by auto
  define Q where "Q i = (if ts1 ! i = git_program E (ops ! i)
      then (\<lambda>r Hs. result_ok E (bk_history K s1) (ops ! i) r Hs \<and> result_ok E [] (ops ! i) r Hs)
      else result_ok E [] (ops ! i))" for i
  have stableQ: "stable E ?Bs (Q i)" for i
    unfolding Q_def using result_ok_stable [of E ?Bs "bk_history K s1" "ops ! i"]
      result_ok_stable [of E ?Bs "[]" "ops ! i"] by (auto simp: stable_def)
  have weaker: "result_ok E [] op r Hs" if "result_ok E Hs0 op r Hs" for Hs0 op r Hs
    using that by (cases r) (auto intro: served_ok_later [of E Hs0 Hs "op_key op" _ "[]" Hs])
  have "keeps E ?Bs (Q i) (ts1 ! i) (bk_history K s1)" if "i < length ts1" for i
  proof (cases "ts1 ! i = git_program E (ops ! i)")
    case True
    have "keeps E ?Bs (result_ok E (bk_history K s1) (ops ! i)) (ts1 ! i) (bk_history K s1)"
      unfolding True using that len1 cache by (intro keeps_program [OF laws ok1]) auto
    then show ?thesis
      by (rule keeps_weaken [OF _ ok1]) (auto simp: Q_def True intro: weaker)
  qed (use k1 that len1 in \<open>simp add: Q_def\<close>)
  from run_keeps [OF K second subset_refl ok1 stableQ this]
  have ok: "store_ok E ?Bs (bk_history K s)" and suf: "suffix (bk_history K s1) (bk_history K s)"
    and len: "length ts = length ops" and kQ: "\<And>i. i < length ops \<Longrightarrow> keeps E ?Bs (Q i) (ts ! i) (bk_history K s)"
    using len1 by auto
  show thesis
  proof (rule that [OF first suf ok len _ k1])
    fix i assume i: "i < length ops"
    show "keeps E ?Bs (result_ok E [] (ops ! i)) (ts ! i) (bk_history K s)"
      by (rule keeps_weaken [OF kQ [OF i] ok]) (auto simp: Q_def split: if_splits)
    show "keeps E ?Bs (result_ok E (bk_history K s1) (ops ! i)) (ts ! i) (bk_history K s)"
      if "ts1 ! i = git_program E (ops ! i)"
      by (rule keeps_weaken [OF kQ [OF i] ok]) (auto simp: Q_def that)
  qed
qed

section \<open>The theorems\<close>

text \<open>
  C36. Concurrent pushes never lose or fork a published state (Theorem 3 of the design). In every run of any pushes,
  reads and announcements, interleaved request by request, with replies lost, requests refused and tasks abandoned at
  any point, the digests a pointer has ever held form one chain: each names a stored manifest whose parent is the
  digest published just before it, the first has no parent, none is published twice, and every one is a valid
  manifest whose packs are all stored.
\<close>

theorem published_states_form_chain:
  assumes "bucket_laws K" "git_run E K ops sched s0 = (s, ts, sent)" "bk_history K s0 = []"
    and "git_laws E (bodies sent)" "\<forall>op \<in> set ops. op_ok E op"
  shows "linked E (bk_history K s) (pointer_log (bk_history K s) (pointer_key c owner repo))
    \<and> distinct (pointer_log (bk_history K s) (pointer_key c owner repo))
    \<and> (\<forall>d \<in> set (pointer_log (bk_history K s) (pointer_key c owner repo)). \<forall>m. stored_manifest E (bk_history K s) d m \<longrightarrow>
         validate_manifest m = Ok () \<and> (\<forall>p \<in> set (mf_packs m). pack_stored E (bk_history K s) p))"
proof -
  let ?Hs = "bk_history K s" and ?k = "pointer_key c owner repo"
  have ok: "store_ok E (bodies sent) ?Hs"
    using git_run_parts [OF assms(1) _ assms(3,4,5), of "[]" sched s ts] assms(2) by auto
  have linked: "linked E ?Hs (pointer_log ?Hs ?k)" using ok pointer_key_prefix by (simp only: store_ok_def)
  moreover have "validate_manifest m = Ok () \<and> (\<forall>p \<in> set (mf_packs m). pack_stored E ?Hs p)"
    if "stored_manifest E ?Hs d m" for d m
  proof -
    from that obtain e b where "(''manifests/'' @ d, e, b) \<in> set ?Hs" "mc_from_slice (ge_codec E) b = Some m"
      by (auto simp: stored_manifest_def)
    with stored_under_manifests(3) [OF ok this(1)] show ?thesis by (auto simp: manifest_ok_def)
  qed
  ultimately show ?thesis using linked_distinct [OF assms(4) ok linked] by blast
qed


text \<open>
  C38. Clones and fetches serve published states, and never go back in time (Theorem 2 of the design). A read that
  starts after the first part of a run serves a manifest that was published by its own pointer, with the bytes of
  exactly the packs it names, each matching its digest; everything the pointer held when the read started is that
  manifest or older, so a push that had succeeded by then is in what the read serves or behind it.
\<close>

theorem reads_serve_published_state:
  assumes "bucket_laws K" "git_run E K ops (sched1 @ sched2) s0 = (s, ts, sent)" "bk_history K s0 = []"
    and "git_laws E (bodies sent)" "\<forall>op \<in> set ops. op_ok E op"
    and "git_run E K ops sched1 s0 = (s1, ts1, sent1)"
    and "i < length ops" "ts1 ! i = git_program E (ops ! i)" "ts ! i = Return (ServedRead (Ok served))"
  shows "\<exists>d m newer older. stored_manifest E (bk_history K s) d m
      \<and> pointer_log (bk_history K s) (op_key (ops ! i)) = newer @ d # older
      \<and> suffix (pointer_log (bk_history K s1) (op_key (ops ! i))) (d # older)
      \<and> (case served of
           FromManifest m' body \<Rightarrow> m' = m \<and> build_upload_pack_advertisement m = Some body
         | FromRepo w \<Rightarrow> hydrated_from E m w)"
proof -
  have "keeps E (bodies sent) (result_ok E (bk_history K s1) (ops ! i)) (ts ! i) (bk_history K s)"
    by (rule git_run_parts [OF assms(1-5)]) (use assms(6-8) in auto)
  with assms(9) show ?thesis
    by (cases served; cases "ops ! i") (fastforce simp: served_ok_def served_from_def read_at_def)+
qed

section \<open>A concrete bucket and a concrete race\<close>

text \<open>The objects of the sample bucket with their bodies, newest first; the ETag of an object is its body.\<close>

definition sample_history :: "(string \<times> string) list \<Rightarrow> version list" where
  "sample_history vs = map (\<lambda>(k, b). (k, b, b)) vs"

fun sample_serve :: "(string \<times> string) list \<Rightarrow> s3_request \<Rightarrow> nat \<Rightarrow> (string \<times> string) list \<times> s3_reply" where
  "sample_serve vs (HeadObject k) c =
     (vs, case map_of vs k of
            Some b \<Rightarrow> Response 200 (Some b) (Some (int (length b))) [] | None \<Rightarrow> HttpFailWithBody 404)"
| "sample_serve vs (GetObject k) c =
     (vs, case map_of vs k of Some b \<Rightarrow> Response 200 (Some b) None b | None \<Rightarrow> HttpFailWithBody 404)"
| "sample_serve vs (PutObject k b p) c =
     (if c = 2 then (vs, HttpFailWithBody 503)
      else if holds p (map_option (\<lambda>b. (b, b)) (map_of vs k))
      then ((k, b) # vs, if c = 0 then Response 200 (Some b) None [] else OtherFailure)
      else (vs, HttpFailWithBody 412))"

definition sample_bucket :: "(string \<times> string) list bucket" where
  "sample_bucket = \<lparr>bk_history = sample_history, bk_serve = sample_serve\<rparr>"

lemma sample_look: "look (sample_history vs) k = map_option (\<lambda>b. (b, b)) (map_of vs k)"
  by (induction vs) (auto simp: look_def sample_history_def)

lemma sample_bucket_laws: "bucket_laws sample_bucket"
  unfolding bucket_laws_def
proof (intro allI)
  fix vs q c
  show "case bk_serve sample_bucket vs q c of (s', r) \<Rightarrow>
      s3_answers (bk_history sample_bucket vs) q (bk_history sample_bucket s') r"
  proof (cases q)
    case (PutObject k b p)
    have "(k, b, b') \<in> set (sample_history vs) \<Longrightarrow> b' = b" for b' by (auto simp: sample_history_def)
    with PutObject show ?thesis
      by (auto simp: sample_bucket_def sample_look sample_history_def [of "(k, b) # vs"] sample_history_def [symmetric])
  qed (auto simp: sample_bucket_def sample_look split: option.splits)
qed

definition sample_sha :: "string \<Rightarrow> string" where
  "sample_sha b = replicate 62 CHR ''0'' @ [nibble (length b mod 16), nibble (sum_list (map of_char b) mod 16)]"

lemma sample_sha_digest: "is_manifest_digest (sample_sha b)"
proof -
  have nib: "nibble d \<in> set ''0123456789abcdef''" if "d < 16" for d
  proof -
    have "d \<in> {0,1,2,3,4,5,6,7,8,9,10,11,12,13,14,15}" using that by (simp only: insert_iff empty_iff) arith
    then show ?thesis by (elim insertE emptyE; simp only:; code_simp)
  qed
  have chars: "P (CHR ''0'') \<Longrightarrow> P x \<Longrightarrow> P y \<Longrightarrow> list_all P (replicate 62 CHR ''0'' @ [x, y])" for P x y
    by (simp add: list_all_iff)
  have "list_all (\<lambda>c. c \<in> set ''0123456789abcdef'') (sample_sha b)"
    unfolding sample_sha_def by (rule chars) (use nib in auto)
  then show ?thesis by (simp add: is_manifest_digest_def sample_sha_def)
qed

definition sample_pushed :: Manifest where
  "sample_pushed =
     \<lparr>mf_version = MANIFEST_VERSION, mf_head = ''refs/heads/main'',
      mf_refs = [(''refs/heads/main'', replicate 40 CHR ''a'')],
      mf_packs = [''packs/'' @ sample_sha ''PACK''], mf_parent = Some (sample_sha ''E'')\<rparr>"

definition sample_git_env :: git_env where
  "sample_git_env =
     \<lparr>ge_codec = \<lparr>mc_to_vec = (\<lambda>m. if m = empty_manifest then Some ''E'' else if m = sample_pushed then Some ''MM'' else None),
                  mc_from_slice = (\<lambda>b. if b = ''E'' then Some empty_manifest
                     else if b = ''MM'' then Some sample_pushed else None)\<rparr>,
      ge_sha256_hex = sample_sha, ge_header_ok = (\<lambda>_. True), ge_public_key_ok = (\<lambda>_. True),
      ge_sign = (\<lambda>kind tags. Some (nat_to_string kind @ concat (concat tags)))\<rparr>"

definition sample_host :: pack_host where
  "sample_host =
     \<lparr>ph_scratch = True, ph_cached = (\<lambda>_. None), ph_staged = (\<lambda>_. True), ph_pack_written = (\<lambda>_. True),
      ph_idx_written = (\<lambda>_. True), ph_idx_valid = (\<lambda>_ _. True), ph_index_pack = (\<lambda>_. Some 1), ph_installed = (\<lambda>_. True),
      ph_refs_written = (\<lambda>_. True), ph_max_pack_bytes = 100, ph_max_repo_bytes = 1000\<rparr>"

definition sample_report :: string where
  "sample_report = pkt_line ''unpack ok'' @ pkt_line ''ok refs/heads/main'' @ flush_pkt"

definition sample_git :: push_git where
  "sample_git =
     \<lparr>pg_hook = True, pg_receive = GitExited sample_report True,
      pg_for_each_ref = Some (''refs/heads/main '' @ replicate 40 CHR ''a'' @ [CHR 0x0A]),
      pg_symbolic_ref = Some (Some (''refs/heads/main'' @ [CHR 0x0A])), pg_permit = True,
      pg_count_objects = None, pg_compact = (\<lambda>_. None), pg_pack_objects = (\<lambda>_. Some ''PACK''),
      pg_index_pack = (\<lambda>_. Some ''IDX'')\<rparr>"

definition sample_repo_owner :: string where "sample_repo_owner = replicate 64 CHR ''c''"

definition sample_push :: git_op where
  "sample_push = Push sample_host (\<lambda>_. sample_git) True ''u'' sample_repo_owner ''app.git'' sample_repo_owner"

definition sample_policy :: policy_env where
  "sample_policy =
     \<lparr>hmac_sha256 = (\<lambda>_ _. []), hex_decode = (\<lambda>_. Some (replicate 32 CHR ''c'')), uuid_parse = Some,
      now_secs = 0, hook_secret = [],
      query_repo = (\<lambda>_ _ _. Ok (Some \<lparr>repo_author = sample_repo_owner, repo_tags = [[''lenos-channel'', ''ch'']]\<rparr>)),
      get_channel_archived = (\<lambda>_ _. Ok False), is_agent_owner = (\<lambda>_ _ _. Ok False),
      get_member_role = (\<lambda>_ _ _. Ok (Some ''member''))\<rparr>"

text \<open>An announcement, two pushes that race, and a clone.\<close>

definition sample_ops :: "git_op list" where
  "sample_ops =
     [Announce \<lparr>nr_holder = Ok None, nr_owned = Ok 0, nr_limit = 10, nr_reserve = Ok Reserved\<rparr> ''u'' sample_repo_owner (Some ''app''),
      sample_push, sample_push,
      InfoRefs sample_policy sample_host True ''u'' sample_repo_owner ''git-upload-pack'' sample_repo_owner ''app'']"

definition sample_race :: "(nat \<times> nat) list" where
  "sample_race = replicate 2 (0, 0) @ replicate 6 (1, 0) @ replicate 6 (2, 0) @ [(1, 0), (2, 0), (2, 0), (2, 0)]"

definition sample_clone :: "(nat \<times> nat) list" where
  "sample_clone = replicate 3 (3, 0)"

definition sample_start :: "(string \<times> string) list" where "sample_start = []"

lemma sample_run_sent:
  "list_all (\<lambda>q. case q of PutObject k b p \<Rightarrow> b \<in> set [''E'', ''PACK'', ''IDX'', ''MM'', sample_sha ''E'', sample_sha ''MM''] | _ \<Rightarrow> True)
     (snd (snd (git_run sample_git_env sample_bucket sample_ops (sample_race @ sample_clone) [])))"
  by code_simp

lemma sample_run_results:
  "map (\<lambda>t. case t of
        Return (Pushed po) \<Rightarrow> (case po_publish po of Some (Inr cs) \<Rightarrow> ''published'' | _ \<Rightarrow> ''not published'')
      | Return (ServedRead (Inr (FromManifest m b))) \<Rightarrow> ''served'' | _ \<Rightarrow> '''')
     (fst (snd (git_run sample_git_env sample_bucket sample_ops (sample_race @ sample_clone) [])))
   = ['''', ''published'', ''not published'', ''served'']"
  by code_simp

lemma sample_git_log:
  "pointer_log (bk_history sample_bucket (fst (git_run sample_git_env sample_bucket sample_ops (sample_race @ sample_clone) [])))
     (pointer_key ''u'' sample_repo_owner ''app'') = [sample_sha ''MM'', sample_sha ''E'']"
  by code_simp

lemma run_tasks_unscheduled:
  "i \<notin> fst ` set sched \<Longrightarrow> run_tasks K sched (s, ts, sent) = (s', ts', sent') \<Longrightarrow> ts' ! i = ts ! i"
proof (induction sched arbitrary: s ts sent)
  case (Cons x sched)
  obtain j c where x: "x = (j, c)" by (cases x)
  show ?case
  proof (cases "j < length ts \<and> (\<exists>q k. ts ! j = Call q k)")
    case True
    then obtain q k where j: "j < length ts" "ts ! j = Call q k" by auto
    obtain s1 r where serve: "bk_serve K s q c = (s1, r)" by fastforce
    from Cons.IH [OF _ Cons.prems(2) [unfolded x run_tasks_call [OF j serve]]] Cons.prems(1) x show ?thesis by simp
  next
    case False
    from Cons.IH [OF _ Cons.prems(2) [unfolded x run_tasks_idle [OF False]]] Cons.prems(1) show ?thesis by simp
  qed
qed simp

lemma sample_run_laws:
  assumes "git_run sample_git_env sample_bucket sample_ops (sample_race @ sample_clone) [] = (s, ts, sent)"
  shows "git_laws sample_git_env (bodies sent)" "\<forall>op \<in> set sample_ops. op_ok sample_git_env op"
proof -
  let ?Bs = "[''E'', ''PACK'', ''IDX'', ''MM'', sample_sha ''E'', sample_sha ''MM'']"
  have "list_all (\<lambda>q. case q of PutObject k b p \<Rightarrow> b \<in> set ?Bs | _ \<Rightarrow> True) sent"
    using sample_run_sent assms by simp
  then have "bodies sent \<subseteq> set ?Bs" by (force simp: bodies_def list_all_iff)
  moreover
  have "distinct (map sample_sha ?Bs)" by code_simp
  then have "inj_on sample_sha (set ?Bs)" by (simp only: distinct_map)
  ultimately have "inj_on sample_sha (bodies sent)" by (blast intro: inj_on_subset)
  then show "git_laws sample_git_env (bodies sent)"
    by (simp add: git_laws_def sample_git_env_def sample_sha_digest)
  show "\<forall>op \<in> set sample_ops. op_ok sample_git_env op"
    by (simp add: sample_ops_def sample_push_def sample_host_def cache_sound_def)
qed

abbreviation sample_end :: "(string \<times> string) list \<times> git_result prog list \<times> s3_request list" where
  "sample_end \<equiv> git_run sample_git_env sample_bucket sample_ops (sample_race @ sample_clone) []"

lemma sample_results:
  assumes "sample_end = (s, ts, sent)"
  shows "(case ts ! 1 of Return (Pushed po) \<Rightarrow> (case po_publish po of Some (Inr cs) \<Rightarrow> ''published'' | _ \<Rightarrow> ''not published'')
      | Return (ServedRead (Inr (FromManifest m b))) \<Rightarrow> ''served'' | _ \<Rightarrow> '''') = ''published''"
    "(case ts ! 3 of Return (Pushed po) \<Rightarrow> (case po_publish po of Some (Inr cs) \<Rightarrow> ''published'' | _ \<Rightarrow> ''not published'')
      | Return (ServedRead (Inr (FromManifest m b))) \<Rightarrow> ''served'' | _ \<Rightarrow> '''') = ''served''"
proof -
  note tags = sample_run_results [unfolded assms fst_conv snd_conv]
  from arg_cong [OF tags, of length] have "length ts = 4" by simp
  with arg_cong [OF tags, of "\<lambda>xs. xs ! 1"] arg_cong [OF tags, of "\<lambda>xs. xs ! 3"]
  show "(case ts ! 1 of Return (Pushed po) \<Rightarrow> (case po_publish po of Some (Inr cs) \<Rightarrow> ''published'' | _ \<Rightarrow> ''not published'')
      | Return (ServedRead (Inr (FromManifest m b))) \<Rightarrow> ''served'' | _ \<Rightarrow> '''') = ''published''"
    "(case ts ! 3 of Return (Pushed po) \<Rightarrow> (case po_publish po of Some (Inr cs) \<Rightarrow> ''published'' | _ \<Rightarrow> ''not published'')
      | Return (ServedRead (Inr (FromManifest m b))) \<Rightarrow> ''served'' | _ \<Rightarrow> '''') = ''served''"
    by (simp_all only: nth_map) (simp_all add: numeral_eq_Suc)
qed

theorem published_states_form_chain_witness:
  "linked sample_git_env (bk_history sample_bucket (fst sample_end)) [sample_sha ''MM'', sample_sha ''E'']"
proof -
  obtain s ts sent where run: "sample_end = (s, ts, sent)" by (cases sample_end)
  have "bk_history sample_bucket [] = []" by (simp add: sample_bucket_def sample_history_def)
  from published_states_form_chain [OF sample_bucket_laws run this sample_run_laws [OF run], of "''u''" sample_repo_owner "''app''"]
  show ?thesis using sample_git_log run by simp
qed


theorem reads_serve_published_state_witness:
  "\<exists>m body. fst (snd sample_end) ! 3 = Return (ServedRead (Ok (FromManifest m body)))
     \<and> build_upload_pack_advertisement m = Some body"
proof -
  obtain s ts sent where run: "sample_end = (s, ts, sent)" by (cases sample_end)
  obtain s1 ts1 sent1 where first: "git_run sample_git_env sample_bucket sample_ops sample_race [] = (s1, ts1, sent1)"
    by (cases "git_run sample_git_env sample_bucket sample_ops sample_race []")
  have empty: "bk_history sample_bucket [] = []" by (simp add: sample_bucket_def sample_history_def)
  have "3 \<notin> fst ` set sample_race" by (auto simp: sample_race_def)
  from run_tasks_unscheduled [OF this first [unfolded git_run_def]]
  have fresh: "ts1 ! 3 = git_program sample_git_env (sample_ops ! 3)" by (simp add: sample_ops_def)
  have "\<exists>m body. ts ! 3 = Return (ServedRead (Ok (FromManifest m body)))"
    using sample_results [OF run] by (auto split: prog.splits git_result.splits option.splits sum.splits served.splits)
  then obtain m body where res: "ts ! 3 = Return (ServedRead (Ok (FromManifest m body)))" by blast
  have "3 < length sample_ops" by (simp add: sample_ops_def)
  from reads_serve_published_state [OF sample_bucket_laws run empty sample_run_laws [OF run] first this fresh res] res
  show ?thesis by (auto simp: run)
qed

end
