(* ===== verification/GitConversation.thy ===== *)
theory GitConversation
  imports GitPublish
begin

text \<open>
  One task of the git store layer, seen from its own side: the requests it sends and the replies it gets, whatever the
  bucket is. Where \<^verbatim>\<open>GitPublish\<close> shows what all tasks together do to a lawful bucket, the theorem here needs no law at
  all: it says what a push writes, and when, for every sequence of replies.
\<close>

section \<open>Conversations\<close>

text \<open>The exchange of a program with the replies given in order; \<open>None\<close> when they do not suffice.\<close>

primrec replay :: "'a prog \<Rightarrow> s3_reply list \<Rightarrow> (s3_request \<times> s3_reply) list \<times> 'a option" where
  "replay (Return a) rs = ([], Some a)"
| "replay (Call q k) rs =
     (case rs of [] \<Rightarrow> ([], None) | r # rs' \<Rightarrow> (case replay (k r) rs' of (tr, a) \<Rightarrow> ((q, r) # tr, a)))"

text \<open>\<open>conv p P\<close>: every finished exchange of \<open>p\<close> satisfies \<open>P\<close>.\<close>

primrec conv :: "'a prog \<Rightarrow> ((s3_request \<times> s3_reply) list \<Rightarrow> 'a \<Rightarrow> bool) \<Rightarrow> bool" where
  "conv (Return a) P = P [] a"
| "conv (Call q k) P = (\<forall>r. conv (k r) (\<lambda>tr. P ((q, r) # tr)))"

lemma conv_replay: "conv p P \<Longrightarrow> replay p rs = (tr, Some a) \<Longrightarrow> P tr a"
proof (induction p arbitrary: P rs tr)
  case (Call q k)
  from Call.prems(2) obtain r rs' tr' where "rs = r # rs'" "tr = (q, r) # tr'" "replay (k r) rs' = (tr', Some a)"
    by (auto split: list.splits prod.splits)
  moreover have "conv (k r) (\<lambda>tr. P ((q, r) # tr))" using Call.prems(1) by simp
  ultimately show ?case using Call.IH [OF rangeI] by blast
qed simp

lemma conv_mono: "conv p P \<Longrightarrow> (\<And>tr a. P tr a \<Longrightarrow> Q tr a) \<Longrightarrow> conv p Q"
proof (induction p arbitrary: P Q)
  case (Call q k)
  have "conv (k r) (\<lambda>tr. Q ((q, r) # tr))" for r
    by (rule Call.IH [OF rangeI, where P = "\<lambda>tr. P ((q, r) # tr)"]) (use Call.prems in auto)
  then show ?case by simp
qed simp

lemma conv_bind: "conv (bind p f) P = conv p (\<lambda>tr a. conv (f a) (\<lambda>tr'. P (tr @ tr')))"
  by (induction p arbitrary: P) simp_all

lemma conv_attempt:
  "conv (attempt p f) P
   = conv p (\<lambda>tr r. case r of Inl e \<Rightarrow> P tr (Inl e) | Inr a \<Rightarrow> conv (f a) (\<lambda>tr'. P (tr @ tr')))"
  unfolding attempt_def conv_bind by (rule arg_cong [of _ _ "conv p"]) (auto split: sum.splits)

lemma conv_map_err: "conv (map_err f p) P = conv p (\<lambda>tr r. P tr (map_sum f id r))"
  by (simp add: map_err_def conv_bind)

lemma conv_attempt_errI:
  "conv p (\<lambda>tr a. case a of Inl e \<Rightarrow> P tr (Inl (f e)) | Inr x \<Rightarrow> conv (g x) (\<lambda>tr'. P (tr @ tr')))
   \<Longrightarrow> conv (attempt (map_err f p) g) P"
  unfolding conv_attempt conv_map_err by (erule conv_mono, rename_tac tr a, case_tac a) simp_all

section \<open>Writes of pointers\<close>

fun pointer_write :: "s3_request \<Rightarrow> bool" where
  "pointer_write (PutObject k b p) = prefix ''repos/'' k"
| "pointer_write q = False"

definition pointer_writes :: "(s3_request \<times> s3_reply) list \<Rightarrow> (s3_request \<times> s3_reply) list" where
  "pointer_writes tr = filter (\<lambda>x. pointer_write (fst x)) tr"

lemma pointer_writes_simps [simp]:
  "pointer_writes [] = []"
  "pointer_writes (x # tr) = (if pointer_write (fst x) then x # pointer_writes tr else pointer_writes tr)"
  "pointer_writes (tr @ tr') = pointer_writes tr @ pointer_writes tr'"
  by (simp_all add: pointer_writes_def)

text \<open>Programs that write no pointer.\<close>

primrec silent :: "'a prog \<Rightarrow> bool" where
  "silent (Return a) = True"
| "silent (Call q k) = (\<not> pointer_write q \<and> (\<forall>r. silent (k r)))"

lemma silent_bind [intro]: "silent p \<Longrightarrow> (\<And>a. silent (f a)) \<Longrightarrow> silent (bind p f)"
  by (induction p) auto

lemma silent_attempt [intro]: "silent p \<Longrightarrow> (\<And>a. silent (f a)) \<Longrightarrow> silent (attempt p f)"
  unfolding attempt_def by (rule silent_bind) (auto split: sum.splits)

lemma silent_map_err [intro]: "silent p \<Longrightarrow> silent (map_err f p)"
  unfolding map_err_def by (rule silent_bind) auto

lemma silent_deadline [intro]: "silent p \<Longrightarrow> silent (deadline p)"
  by (induction p) auto

lemma silent_conv: "silent p \<Longrightarrow> conv p (\<lambda>tr a. pointer_writes tr = [])"
  by (induction p) auto

lemma content_key_no_pointer [simp]:
  "\<not> prefix ''repos/'' (content_key E ''packs'' b)" "\<not> prefix ''repos/'' (content_key E ''manifests'' b)"
  by (simp_all add: content_key_def)

lemma silent_store:
  "silent (store_get k)" "silent (get_verified E k d)" "silent (get_limited k n)"
  "silent (get_verified_limited E k d n)" "silent (get_idx d n)" "silent (get_pointer k)"
  "silent (put_pack E b)" "silent (put_manifest E b)" "silent (put_idx d b)"
  by (auto simp: store_get_def get_verified_def get_limited_def get_verified_limited_def get_idx_def get_pointer_def
      put_pack_def put_manifest_def put_immutable_def put_idx_def idx_key_for_pack_digest_def Let_def
      split: sum.splits if_splits intro!: silent_attempt silent_bind)

lemma conv_silentI: "silent p \<Longrightarrow> (\<And>tr a. pointer_writes tr = [] \<Longrightarrow> P tr a) \<Longrightarrow> conv p P"
  by (rule conv_mono [OF silent_conv]) auto

lemma silent_hydration:
  "silent (hydrate_get_verified E k d n)" "silent (install_or_generate_idx H d n)" "silent (populate E H k d n)"
  "silent (materialize_pack E H k d n)"
  by (auto simp: hydrate_get_verified_def install_or_generate_idx_def populate_def materialize_pack_def
      split: option.splits intro!: silent_attempt silent_bind silent_map_err silent_store)

lemma silent_materialize_packs: "silent (materialize_packs E H keys sofar files)"
  by (induction E H keys sofar files rule: materialize_packs.induct)
     (auto split: option.splits intro!: silent_attempt silent_hydration)

lemma silent_materialize_manifest: "silent (materialize_manifest E H m)"
  by (auto simp: materialize_manifest_def intro!: silent_attempt silent_materialize_packs split: prod.splits)

lemma silent_write_idx: "silent (write_idx_sidecar G k b)"
  by (auto simp: write_idx_sidecar_def split: sum.splits option.splits intro!: silent_attempt silent_map_err silent_store)

lemma silent_upload_compacted: "silent (upload_compacted_packs E ps keys)"
  by (induction E ps keys rule: upload_compacted_packs.induct)
     (auto split: option.splits sum.splits intro!: silent_attempt silent_bind silent_map_err silent_store)

lemma silent_try_compaction: "silent (try_compaction E G refs L threshold n)"
  by (auto simp: try_compaction_def prepare_compaction_def split: sum.splits
      intro!: silent_bind silent_deadline silent_upload_compacted)

lemma silent_upload_delta: "silent (upload_delta E G L b)"
  by (auto simp: upload_delta_def split: option.splits
      intro!: silent_attempt silent_bind silent_map_err silent_store silent_write_idx)

lemma silent_manifest_after: "silent (manifest_after E G parent L threshold refs head)"
  by (auto simp: manifest_after_def Let_def split: option.splits sum.splits
      intro!: silent_attempt silent_bind silent_try_compaction silent_upload_delta)

lemma silent_read_winner: "silent (read_winner_after_conflict E k)"
  by (auto simp: read_winner_after_conflict_def split: option.splits prod.splits
      intro!: silent_attempt silent_map_err silent_store)

text \<open>Before the swap no step of a publication ends in a conflict.\<close>

lemma conv_top [simp]: "conv p (\<lambda>tr a. True)"
  by (induction p) auto

lemma conv_conj: "conv p P \<Longrightarrow> conv p Q \<Longrightarrow> conv p (\<lambda>tr a. P tr a \<and> Q tr a)"
  by (induction p arbitrary: P Q) auto

fun is_conflict :: "CasError \<Rightarrow> bool" where
  "is_conflict (Conflict m key) = True"
| "is_conflict e = False"

fun no_conflict :: "(CasError, 'a) result \<Rightarrow> bool" where
  "no_conflict (Inl e) = (\<not> is_conflict e)"
| "no_conflict (Inr a) = True"

lemma no_conflict_map_err: "conv (map_err CasBackend p) (\<lambda>_. no_conflict)"
proof -
  have "no_conflict (map_sum CasBackend id r)" for r :: "(StoreError, 'a) result" by (cases r) auto
  then show ?thesis by (simp add: conv_map_err)
qed

lemma no_conflict_attempt:
  "conv p (\<lambda>_. no_conflict) \<Longrightarrow> (\<And>a. conv (f a) (\<lambda>_. no_conflict)) \<Longrightarrow> conv (attempt p f) (\<lambda>_. no_conflict)"
  unfolding conv_attempt by (erule conv_mono, rename_tac tr r, case_tac r) simp_all

lemma no_conflict_bind: "(\<And>a. conv (f a) (\<lambda>_. no_conflict)) \<Longrightarrow> conv (bind p f) (\<lambda>_. no_conflict)"
  unfolding conv_bind by (rule conv_mono [OF conv_top]) auto

lemma no_conflict_write_idx: "conv (write_idx_sidecar G k b) (\<lambda>_. no_conflict)"
  by (auto simp: write_idx_sidecar_def digest_from_pack_key_def split: sum.splits option.splits if_splits
      intro!: no_conflict_attempt no_conflict_map_err)

lemma no_conflict_upload_compacted: "conv (upload_compacted_packs E ps keys) (\<lambda>_. no_conflict)"
  by (induction E ps keys rule: upload_compacted_packs.induct)
     (auto simp: digest_from_pack_key_def split: option.splits sum.splits
       intro!: no_conflict_attempt no_conflict_bind no_conflict_map_err)

lemma no_conflict_capture:
  "no_conflict (capture_pack G before after n)" "no_conflict (capture_compacted_packs G refs L)"
  "no_conflict (snapshot_workspace_state G)"
proof -
  have "no_conflict (check_compacted L ps n)" for ps n
    by (induction L ps n rule: check_compacted.induct) (auto split: option.splits)
  then have "check_compacted L ps n = Inl e \<Longrightarrow> \<not> is_conflict e" for ps n e by (metis no_conflict.simps(1))
  then show "no_conflict (capture_compacted_packs G refs L)"
    by (auto simp: capture_compacted_packs_def enforce_compaction_object_limit_def
        split: option.splits sum.splits if_splits)
  show "no_conflict (capture_pack G before after n)" "no_conflict (snapshot_workspace_state G)"
    by (auto simp: capture_pack_def snapshot_workspace_state_def split: option.splits)
qed

lemma no_conflict_errors:
  "capture_pack G before after n = Inl e \<Longrightarrow> \<not> is_conflict e" "capture_compacted_packs G refs L = Inl e \<Longrightarrow> \<not> is_conflict e"
  "snapshot_workspace_state G = Inl e \<Longrightarrow> \<not> is_conflict e"
  using no_conflict_capture by (metis no_conflict.simps(1))+

lemma no_conflict_deadline:
  "conv p (\<lambda>_. no_conflict) \<Longrightarrow> conv (deadline p) (\<lambda>_ r. \<forall>x. r = Some x \<longrightarrow> no_conflict x)"
  by (induction p) auto

lemma no_conflict_try_compaction:
  "conv (try_compaction E G refs L threshold n) (\<lambda>_ r. \<forall>x. r = Some x \<longrightarrow> no_conflict x)"
proof -
  have "conv (prepare_compaction E G refs L n) (\<lambda>_. no_conflict)"
    by (auto simp: prepare_compaction_def no_conflict_upload_compacted no_conflict_errors split: sum.splits)
  then show ?thesis
    by (auto simp: try_compaction_def conv_bind split: option.splits intro!: conv_mono [OF no_conflict_deadline])
qed

lemma no_conflict_upload_delta: "conv (upload_delta E G L b) (\<lambda>_. no_conflict)"
  by (auto simp: upload_delta_def split: option.splits intro!: no_conflict_attempt no_conflict_bind no_conflict_map_err)

lemma no_conflict_manifest_after: "conv (manifest_after E G parent L threshold refs head) (\<lambda>_. no_conflict)"
  unfolding manifest_after_def Let_def conv_bind
proof (rule conv_mono [OF no_conflict_try_compaction], goal_cases)
  case (1 tr r)
  have delta: "conv (attempt (upload_delta E G L b) (\<lambda>key. Return (Ok (f key)))) (\<lambda>_. no_conflict)" for b and f :: "_ \<Rightarrow> Manifest"
    by (rule no_conflict_attempt [OF no_conflict_upload_delta]) simp
  have "\<not> is_conflict (case r of Some (Inl e) \<Rightarrow> e | _ \<Rightarrow> CasResourceLimit)"
    using 1 by (auto split: option.splits sum.splits)
  with delta show ?case by (auto simp: no_conflict_errors split: option.splits sum.splits)
qed

section \<open>What one push writes\<close>

text \<open>The precondition of a push, and the reply of the push's own read of the pointer that gave it.\<close>

definition own_precond :: "ParentState \<Rightarrow> Precond" where
  "own_precond ps = (case ps_if_match ps of Some e \<Rightarrow> IfMatch e | None \<Rightarrow> IfNoneMatchStar)"

fun read_precond :: "(s3_request \<times> s3_reply) list \<Rightarrow> string \<Rightarrow> Precond \<Rightarrow> bool" where
  "read_precond tr k (IfMatch e) = (\<exists>st n b. (GetObject k, Response st (Some e) n b) \<in> set tr)"
| "read_precond tr k IfNoneMatchStar = ((GetObject k, HttpFailWithBody 404) \<in> set tr)"

lemma read_precond_mono: "read_precond tr k p \<Longrightarrow> set tr \<subseteq> set tr' \<Longrightarrow> read_precond tr' k p"
  by (cases p) auto

lemma got_pointer_read:
  "got_pointer r = Inr (Some (e, b)) \<Longrightarrow> read_precond [(GetObject k, r)] k (IfMatch e)"
  "got_pointer r = Inr None \<Longrightarrow> read_precond [(GetObject k, r)] k IfNoneMatchStar"
  by (cases r; auto split: option.splits if_splits)+

lemma conv_load_pointer:
  "conv (load_pointer E c owner repo) (\<lambda>tr r. pointer_writes tr = []
     \<and> (case r of Inr (Some (e, d, m)) \<Rightarrow> read_precond tr (pointer_key c owner repo) (IfMatch e)
          | Inr None \<Rightarrow> read_precond tr (pointer_key c owner repo) IfNoneMatchStar | Inl _ \<Rightarrow> True))"
  (is "conv _ ?P")
proof -
  let ?k = "pointer_key c owner repo"
  let ?f = "\<lambda>p. case p of
          None \<Rightarrow> Return (Ok None)
        | Some (etag, body) \<Rightarrow>
            (case pointer_digest body of
               None \<Rightarrow> Return (Err InvalidPointer)
             | Some digest \<Rightarrow>
                 attempt (hydrate_get_verified E (''manifests/'' @ digest) digest MAX_MANIFEST_BYTES)
                   (\<lambda>bytes. Return
                      (case manifest_from_bytes (ge_codec E) bytes of
                         Inl e \<Rightarrow> Err (HydrateManifest e)
                       | Inr m \<Rightarrow>
                           (case validate_manifest m of
                              Inl e \<Rightarrow> Err (HydrateManifest e)
                            | Inr _ \<Rightarrow> Ok (Some (etag, digest, m))))))"
  have rest: "conv (?f p) (\<lambda>tr. ?P ([(GetObject ?k, r)] @ tr))" if got: "got_pointer r = Inr p" for r p
  proof (cases p)
    case (Some eb)
    obtain e b where "eb = (e, b)" by (cases eb)
    with Some got have read: "read_precond ([(GetObject ?k, r)] @ tr) ?k (IfMatch e)" for tr
      by (intro read_precond_mono [OF got_pointer_read(1) [of r e b ?k]]) (simp_all add: \<open>eb = (e, b)\<close>)
    show ?thesis unfolding Some \<open>eb = (e, b)\<close>
      by (auto simp: conv_attempt simp del: append_Cons read_precond.simps split: option.splits sum.splits
          intro!: conv_silentI silent_hydration read)
  qed (use got_pointer_read(2) [of r ?k] got in simp)
  have "case map_sum HydrateStore id (got_pointer r) of Inl e \<Rightarrow> ?P [(GetObject ?k, r)] (Inl e)
      | Inr p \<Rightarrow> conv (?f p) (\<lambda>tr. ?P ([(GetObject ?k, r)] @ tr))" for r
  proof (cases "got_pointer r")
    case (Inr p)
    from rest [OF this] show ?thesis by (simp only: Inr map_sum.simps sum.case id_apply)
  qed simp
  then show ?thesis
    unfolding load_pointer_def conv_attempt conv_map_err get_pointer_def conv.simps by (rule allI)
qed

lemma conv_hydrate_for_write:
  "conv (hydrate_for_write E H c owner repo) (\<lambda>tr r. pointer_writes tr = []
     \<and> (case r of Inr (w, ps) \<Rightarrow> read_precond tr (pointer_key c owner repo) (own_precond ps) | Inl _ \<Rightarrow> True))"
  unfolding hydrate_for_write_def conv_attempt
  by (rule conv_mono [OF conv_load_pointer])
     (auto simp: conv_attempt own_precond_def ParentState_fresh_def ParentState_from_loaded_def
       split: sum.splits option.splits intro!: conv_silentI silent_materialize_manifest)

text \<open>What the writes of pointers are, by what the publication returned.\<close>

fun swap_answer :: "string \<Rightarrow> Precond \<Rightarrow> (CasError, CasSuccess) result \<Rightarrow> (s3_request \<times> s3_reply) list \<Rightarrow> bool" where
  "swap_answer k p (Inr cs) ws =
     (\<exists>d st e n b. ws = [(PutObject k d p, Response st (Some e) n b)] \<and> success_status st
        \<and> cs_manifest_key cs = ''manifests/'' @ d)"
| "swap_answer k p (Inl (Conflict m key)) ws = (\<exists>d. ws = [(PutObject k d p, HttpFailWithBody 412)])"
| "swap_answer k p (Inl ManifestReadFailed) ws = (\<exists>d. ws = [(PutObject k d p, HttpFailWithBody 412)])"
| "swap_answer k p (Inl (CasBackend e)) ws = (ws = [] \<or> (\<exists>d r. ws = [(PutObject k d p, r)]))"
| "swap_answer k p (Inl e) ws = (ws = [])"

lemma classify_cas_reply:
  "classify_cas r = Inr (Won e) \<Longrightarrow> \<exists>st n b. r = Response st (Some e) n b \<and> success_status st"
  "classify_cas r = Inr LostRace \<Longrightarrow> r = HttpFailWithBody 412"
  by (cases r; auto split: option.splits if_splits)+

lemma created_or_present_key: "created_or_present k r = Inr k' \<Longrightarrow> k' = k"
  by (cases r) (auto split: if_splits)

lemma map_created_or_present:
  "map_sum f id (created_or_present k r) = Inr k' \<Longrightarrow> k' = k"
  "map_sum f id x = Inl e \<Longrightarrow> \<exists>e'. e = f e'"
   apply (cases "created_or_present k r"; auto dest: created_or_present_key)
  by (cases x) auto

lemma conv_put_pointer:
  "conv (put_pointer E k d p) (\<lambda>tr r. prefix ''repos/'' k \<longrightarrow> (case r of
       Inr (Won e) \<Rightarrow> \<exists>st n b. pointer_writes tr = [(PutObject k d p, Response st (Some e) n b)] \<and> success_status st
     | Inr LostRace \<Rightarrow> pointer_writes tr = [(PutObject k d p, HttpFailWithBody 412)]
     | Inl _ \<Rightarrow> pointer_writes tr = [] \<or> (\<exists>r. pointer_writes tr = [(PutObject k d p, r)])))"
  by (auto simp: put_pointer_def split: Precond.splits sum.splits CasOutcome.splits dest!: classify_cas_reply)

lemma winner_errors:
  "conv (read_winner_after_conflict E k) (\<lambda>tr r. pointer_writes tr = []
     \<and> (case r of Inl e \<Rightarrow> e = ManifestReadFailed \<or> (\<exists>se. e = CasBackend se) | Inr _ \<Rightarrow> True))"
  (is "conv _ ?P")
proof -
  have cases: "winner_store_error e = ManifestReadFailed \<or> (\<exists>se. winner_store_error e = CasBackend se)" for e
    by (cases e) auto
  have later: "map_sum winner_store_error id r = Inl e \<Longrightarrow> e = ManifestReadFailed \<or> (\<exists>se. e = CasBackend se)"
    for r :: "(StoreError, string) result" and e
    using cases by (cases r) auto
  have "conv (case p of
          None \<Rightarrow> Return (Err ManifestReadFailed)
        | Some (e, body) \<Rightarrow>
            (case pointer_digest body of
               None \<Rightarrow> Return (Err ManifestReadFailed)
             | Some digest \<Rightarrow>
                 attempt (map_err winner_store_error (get_verified E (''manifests/'' @ digest) digest))
                   (\<lambda>bytes. Return
                      (case manifest_from_bytes (ge_codec E) bytes of
                         Inl e \<Rightarrow> Err ManifestReadFailed
                       | Inr winner \<Rightarrow> Ok (winner, ''manifests/'' @ digest))))) (\<lambda>tr'. ?P (tr @ tr'))"
    if "pointer_writes tr = []" for p tr
    using that
    by (auto dest!: later simp: conv_attempt conv_map_err split: option.splits prod.splits intro!: conv_silentI silent_store
        split: sum.splits)
  then show ?thesis
    unfolding read_winner_after_conflict_def
    by (intro conv_attempt_errI conv_silentI [OF silent_store(6)], rename_tac tr a, case_tac a) simp_all
qed

lemma conv_install_manifest:
  assumes k: "prefix ''repos/'' k"
  shows "conv (install_manifest E k ps m) (\<lambda>tr r. swap_answer k (own_precond ps) r (pointer_writes tr))"
proof -
  have swap: "conv (attempt (map_err CasBackend (put_pointer E k d (own_precond ps)))
        (\<lambda>outcome. case outcome of
           Won _ \<Rightarrow> Return (Ok \<lparr>cs_manifest = m, cs_manifest_key = ''manifests/'' @ d\<rparr>)
         | LostRace \<Rightarrow> attempt (read_winner_after_conflict E k) (\<lambda>(winner, key). Return (Err (Conflict winner key)))))
      (\<lambda>tr r. swap_answer k (own_precond ps) r (pointer_writes tr))" for d
    unfolding conv_attempt conv_map_err
  proof (rule conv_mono [OF conv_put_pointer], goal_cases)
    case (1 tr r)
    have lost: "conv (attempt (read_winner_after_conflict E k) (\<lambda>(winner, key). Return (Err (Conflict winner key))))
        (\<lambda>tr'. \<lambda>r. swap_answer k (own_precond ps) r (pointer_writes (tr @ tr')))"
      if "pointer_writes tr = [(PutObject k d (own_precond ps), HttpFailWithBody 412)]"
      unfolding conv_attempt
      by (rule conv_mono [OF winner_errors]) (use that in \<open>auto split: sum.splits\<close>)
    from 1 k lost show ?case by (auto split: sum.splits CasOutcome.splits)
  qed
  have digest: "digest_from_manifest_key (content_key E ''manifests'' b) = Ok (ge_sha256_hex E b)" for b
    unfolding content_key_parts by (rule digest_from_manifest_key_append)
  have "conv (attempt (map_err CasBackend (put_manifest E bytes))
        (\<lambda>manifest_key. case digest_from_manifest_key manifest_key of
            Inl e \<Rightarrow> Return (Err e)
          | Inr d \<Rightarrow> attempt (map_err CasBackend (put_pointer E k d (own_precond ps)))
              (\<lambda>outcome. case outcome of
                 Won _ \<Rightarrow> Return (Ok \<lparr>cs_manifest = m, cs_manifest_key = manifest_key\<rparr>)
               | LostRace \<Rightarrow> attempt (read_winner_after_conflict E k)
                   (\<lambda>(winner, key). Return (Err (Conflict winner key))))))
      (\<lambda>tr r. swap_answer k (own_precond ps) r (pointer_writes tr))" for bytes
    using swap [of "ge_sha256_hex E bytes", folded content_key_parts(2)]
    by (subst conv_attempt)
       (auto simp: conv_map_err put_manifest_def put_immutable_def Let_def digest split: sum.splits dest!: map_created_or_present)
  then show ?thesis
    unfolding install_manifest_def own_precond_def [symmetric] by (auto split: sum.splits)
qed

lemma conv_cas_publish:
  "conv (cas_publish E G c owner repo ps L) (\<lambda>tr r. swap_answer (pointer_key c owner repo) (own_precond ps) r (pointer_writes tr)
     \<or> pointer_writes tr = [] \<and> r \<notin> range Inr \<and> no_conflict r)"
  (is "conv _ ?P")
proof -
  have "conv (attempt (manifest_after E G ps L t refs head) (install_manifest E (pointer_key c owner repo) ps)) ?P" for t refs head
    unfolding conv_attempt
  proof (rule conv_mono [OF conv_conj [OF silent_conv [OF silent_manifest_after] no_conflict_manifest_after]], goal_cases)
    case (1 tr r)
    show ?case
    proof (cases r)
      case (Inr m)
      show ?thesis unfolding Inr sum.case
        by (rule conv_mono [OF conv_install_manifest]) (use 1 in simp_all)
    qed (use 1 in auto)
  qed
  then show ?thesis
    unfolding cas_publish_def cas_publish_inner_def by (auto simp: no_conflict_errors split: sum.splits)
qed

text \<open>What one finished push did to its pointer, by its answer and by how git ended.\<close>

definition push_swapped ::
    "string \<Rightarrow> (HydratedRepo \<Rightarrow> push_git) \<Rightarrow> (s3_request \<times> s3_reply) list \<Rightarrow> push_outcome \<Rightarrow> bool" where
  "push_swapped k G tr po =
     ((pointer_writes tr = [] \<or> (\<exists>d p r. pointer_writes tr = [(PutObject k d p, r)] \<and> read_precond tr k p))
      \<and> (fst (po_response po) = 200 \<longrightarrow>
           (\<exists>w stdout exited_ok. pg_receive (G w) = GitExited stdout exited_ok \<and> po_response po = (200, stdout)
              \<and> (if exited_ok \<and> \<not> receive_pack_report_rejected stdout
                 then \<exists>cs d p st e n b. po_publish po = Some (Ok cs) \<and> cs_manifest_key cs = ''manifests/'' @ d
                        \<and> pointer_writes tr = [(PutObject k d p, Response st (Some e) n b)] \<and> success_status st
                 else pointer_writes tr = [])))
      \<and> (fst (po_response po) = 409 \<longrightarrow> (\<exists>d p. pointer_writes tr = [(PutObject k d p, HttpFailWithBody 412)]))
      \<and> (fst (po_response po) \<notin> {200, 409, 500} \<longrightarrow> pointer_writes tr = []))"

lemma push_swapped_refused [simp]:
  "pointer_writes tr = [] \<Longrightarrow> fst r \<notin> {200, 409} \<Longrightarrow> push_swapped k G tr (no_publish r)"
  by (simp add: push_swapped_def no_publish_def)

lemma push_swapped_error:
  assumes "swap_answer k p (Inl e) (pointer_writes tr) \<or> pointer_writes tr = [] \<and> \<not> is_conflict e"
    and "read_precond tr k p"
  shows "push_swapped k G tr \<lparr>po_response = cas_error_response e, po_publish = Some (Err e), po_event = None\<rparr>"
  using assms by (cases e) (auto simp: push_swapped_def)

lemma push_swapped_success:
  assumes "swap_answer k p (Inr cs) (pointer_writes tr)" "read_precond tr k p"
    and "pg_receive (G w) = GitExited stdout exited_ok" "exited_ok \<and> \<not> receive_pack_report_rejected stdout"
  shows "push_swapped k G tr \<lparr>po_response = (200, stdout), po_publish = Some (Ok cs), po_event = ev\<rparr>"
  using assms by (fastforce simp: push_swapped_def)

lemma conv_finalize_push:
  assumes "read_precond tr0 (pointer_key c owner repo) (own_precond ps)" "pointer_writes tr0 = []"
    and git: "pg_receive (G w) = GitExited out exited_ok"
    and pack: "pack = \<lparr>pk_stdout = out, pk_ok = exited_ok \<and> \<not> receive_pack_report_rejected out\<rparr>"
  shows "conv (finalize_push E (G w) c owner repo name pusher ps L pack)
    (\<lambda>tr. push_swapped (pointer_key c owner repo) G (tr0 @ tr))"
proof (cases "pk_ok pack")
  case True
  have "conv (cas_publish E (G w) c owner repo ps L) (\<lambda>tr r. push_swapped (pointer_key c owner repo) G (tr0 @ tr)
      (case r of
            Inl e \<Rightarrow> \<lparr>po_response = cas_error_response e, po_publish = Some (Err e), po_event = None\<rparr>
          | Inr success \<Rightarrow>
              \<lparr>po_response = (200, pk_stdout pack), po_publish = Some (Ok success),
               po_event = ref_state_event E name pusher ps success\<rparr>))"
  proof (rule conv_mono [OF conv_cas_publish], goal_cases)
    case (1 tr r)
    have pre: "read_precond (tr0 @ tr) (pointer_key c owner repo) (own_precond ps)"
      by (rule read_precond_mono [OF assms(1)]) auto
    show ?case
    proof (cases r)
      case (Inl e)
      with 1 assms(2) pre show ?thesis by (auto intro!: push_swapped_error)
    next
      case (Inr cs)
      with 1 assms(2) pre git pack True show ?thesis by (auto intro!: push_swapped_success)
    qed
  qed
  with True show ?thesis by (simp add: finalize_push_def conv_bind)
next
  case False
  with assms show ?thesis by (auto simp: finalize_push_def no_publish_def push_swapped_def)
qed

lemma refusal_status:
  "validate_repo_id owner repo = Err resp \<Longrightarrow> fst resp \<notin> {200, 409}" "fst git_busy \<notin> {200, 409}"
  "fst (hydrate_error_to_response he) \<notin> {200, 409}"
  "run_git_at service process limit = Err resp \<Longrightarrow> fst resp \<notin> {200, 409}"
  by (auto simp: validate_repo_id_def not_found_def git_busy_def run_git_at_def split: if_splits git_process.splits)
    (cases he; simp)+

lemma conv_receive_pack:
  "conv (receive_pack E H G permit c owner repo pusher) (\<lambda>tr. push_swapped (pointer_key c owner repo) G tr)"
proof -
  have accepted: "conv (finalize_push E (G w) c owner repo name pusher ps (push_limits H w) pack)
      (\<lambda>tr'. push_swapped (pointer_key c owner repo) G (tr @ tr'))"
    if "run_git_at ''receive-pack'' (pg_receive (G w)) RECEIVE_PACK_MAX_OUTPUT_BYTES = Ok pack"
      "read_precond tr (pointer_key c owner repo) (own_precond ps)" "pointer_writes tr = []" for tr w ps name pack
    using that by (auto simp: run_git_at_ok intro: conv_finalize_push)
  show ?thesis
    unfolding receive_pack_def using refusal_status
    by (auto simp: conv_bind split: sum.splits intro!: conv_mono [OF conv_hydrate_for_write] accepted)
qed

lemma push_swapped_200:
  assumes "replay (receive_pack E H G permit c owner repo pusher) rs = (tr, Some po)"
    and "\<forall>w. pg_receive (G w) = GitExited report ok" "fst (po_response po) = 200"
  shows "po_response po = (200, report)"
  using conv_replay [OF conv_receive_pack assms(1)] assms(2,3) by (auto simp: push_swapped_def)

text \<open>
  C39. One push swaps its pointer at most once, under the ETag it read itself, and its answer tells what the swap did.
  Whatever the bucket replies: a finished push sent at most one pointer write, carrying the ETag of its own read of that
  pointer, or asking that there be none after that read found none. Answered 200 with the output of a git that exited
  with success and a report that rejects no ref, the write was sent once and acknowledged, and its body is the digest of
  the manifest the push returned; answered 200 with anything else git wrote, no write was sent. A 409 is answered only after the
  bucket refused the write (412); any other answer than 500 only when no write was sent. A 500 alone leaves open whether
  the single write took effect.
\<close>

theorem push_swaps_once:
  assumes "replay (receive_pack E H G permit c owner repo pusher) rs = (tr, Some po)"
  shows "(pointer_writes tr = []
       \<or> (\<exists>d p r. pointer_writes tr = [(PutObject (pointer_key c owner repo) d p, r)]
            \<and> read_precond tr (pointer_key c owner repo) p))
    \<and> (fst (po_response po) = 200 \<longrightarrow>
         (\<exists>w stdout exited_ok. pg_receive (G w) = GitExited stdout exited_ok \<and> po_response po = (200, stdout)
            \<and> (if exited_ok \<and> \<not> receive_pack_report_rejected stdout
               then \<exists>cs d p st e n b. po_publish po = Some (Ok cs) \<and> cs_manifest_key cs = ''manifests/'' @ d
                      \<and> pointer_writes tr = [(PutObject (pointer_key c owner repo) d p, Response st (Some e) n b)]
                      \<and> success_status st
               else pointer_writes tr = [])))
    \<and> (fst (po_response po) = 409 \<longrightarrow>
         (\<exists>d p. pointer_writes tr = [(PutObject (pointer_key c owner repo) d p, HttpFailWithBody 412)]))
    \<and> (fst (po_response po) \<notin> {200, 409, 500} \<longrightarrow> pointer_writes tr = [])"
  using conv_replay [OF conv_receive_pack assms] unfolding push_swapped_def .

text \<open>A push that loses the race to another writer, and one that wins, on the sample repository.\<close>

abbreviation sample_conversation :: "s3_reply list \<Rightarrow> (s3_request \<times> s3_reply) list \<times> push_outcome option" where
  "sample_conversation \<equiv> replay (receive_pack sample_git_env sample_host (\<lambda>_. sample_git) True ''u'' sample_repo_owner
     ''app.git'' sample_repo_owner)"

definition sample_replies :: "s3_reply list" where
  "sample_replies =
     [Response 200 (Some ''v1'') None (sample_sha ''E''), Response 200 None (Some 1) [], Response 200 None None ''E'',
      Response 200 None None [], Response 200 None None [], HttpFailWithBody 412]"

lemma sample_conversations:
  "(case sample_conversation (sample_replies @ [HttpFailWithBody 412, Response 200 (Some ''v2'') None (sample_sha ''MM''),
       Response 200 None None ''MM'']) of
      (tr, Some po) \<Rightarrow> fst (po_response po) = 409 \<and> map (\<lambda>(q, r). r) (pointer_writes tr) = [HttpFailWithBody 412]
    | _ \<Rightarrow> False)"
  "(case sample_conversation (sample_replies @ [Response 200 (Some ''v2'') None []]) of
      (tr, Some po) \<Rightarrow> fst (po_response po) = 200 \<and> map (\<lambda>(q, r). case q of PutObject k d p \<Rightarrow> (d, p) | _ \<Rightarrow> ([], IfNoneMatchStar))
         (pointer_writes tr) = [(sample_sha ''MM'', IfMatch ''v1'')]
    | _ \<Rightarrow> False)"
  by code_simp+

theorem push_swaps_once_witness:
  "\<exists>tr po. sample_conversation (sample_replies @ [HttpFailWithBody 412, Response 200 (Some ''v2'') None (sample_sha ''MM''),
       Response 200 None None ''MM'']) = (tr, Some po)
     \<and> fst (po_response po) = 409 \<and> (\<exists>d p. pointer_writes tr = [(PutObject (pointer_key ''u'' sample_repo_owner ''app.git'') d p,
          HttpFailWithBody 412)])"
proof -
  obtain tr po where conv: "sample_conversation (sample_replies @ [HttpFailWithBody 412,
      Response 200 (Some ''v2'') None (sample_sha ''MM''), Response 200 None None ''MM'']) = (tr, Some po)"
    and res: "fst (po_response po) = 409" "map (\<lambda>(q, r). r) (pointer_writes tr) = [HttpFailWithBody 412]"
    using sample_conversations(1) by (auto split: prod.splits option.splits)
  from push_swaps_once [OF conv] res show ?thesis
    using conv by auto
qed

lemma conv_receive_pack_rejected:
  assumes "\<forall>w. pg_receive (G w) = GitExited stdout (ok w)" "receive_pack_report_rejected stdout"
  shows "conv (receive_pack E H G permit c owner repo pusher) (\<lambda>tr po. pointer_writes tr = []
    \<and> (po_response po = (200, stdout) \<or> fst (po_response po) \<noteq> 200)
    \<and> po_publish po = None \<and> po_event po = None)"
  unfolding receive_pack_def
  using assms refusals
  by (auto simp: no_publish_def run_git_at_ok conv_bind finalize_push_def
      split: sum.splits if_splits intro!: conv_mono [OF conv_hydrate_for_write])

text \<open>
  C40. A push that git accepts for some refs and rejects for others publishes none of them, when git's report cuts no
  status line: sent as plain pkt-lines, or in any number of side-band frames that each hold whole lines, with progress
  text between them. Then a single \<^verbatim>\<open>ng\<close> line suffices that no pointer is written and no event emitted, whatever the
  other lines say; and when such a push is answered 200, the answer is that report as git wrote it, with its \<^verbatim>\<open>ok\<close> lines.
  (For a line cut by a frame boundary the statement is false: see \<open>split_report_is_published\<close>.)
\<close>

theorem partial_push_publishes_nothing:
  assumes "report = plain_report ls \<or> report = framed_report fs \<and> ls = concat (map frame_lines fs)
      \<and> (\<forall>f \<in> set fs. frame_ok f \<and> length (frame_payload f) \<le> PKT_LINE_MAX_PAYLOAD)"
    and "\<forall>l \<in> set ls. status_line l \<and> length l \<le> PKT_LINE_MAX_PAYLOAD" and "list_ex (prefix ''ng '') ls"
    and "\<forall>w. pg_receive (G w) = GitExited report (exited_ok w)"
    and "replay (receive_pack E H G permit c owner repo pusher) rs = (tr, Some po)"
  shows "po_publish po = None \<and> po_event po = None \<and> pointer_writes tr = []
    \<and> (po_response po = (200, report) \<or> fst (po_response po) \<noteq> 200)"
proof -
  have "receive_pack_report_rejected report"
    using assms(1-3) by (auto simp: plain_report_scan framed_report_scan)
  from conv_replay [OF conv_receive_pack_rejected [OF assms(4) this] assms(5)] show ?thesis by blast
qed

definition sample_partial_frames :: "report_frame list" where
  "sample_partial_frames =
     [StatusFrame [''unpack ok'', ''ok refs/heads/a''] False, TextFrame (CHR 0x02) ''done'',
      StatusFrame [''ng refs/heads/b stale info''] True]"

definition sample_partial :: push_git where
  "sample_partial = sample_git\<lparr>pg_receive := GitExited (framed_report sample_partial_frames) True\<rparr>"

definition sample_answers :: "s3_reply list" where
  "sample_answers = [Response 200 (Some ''v1'') None (sample_sha ''E''), Response 200 None (Some 1) [], Response 200 None None ''E'']"

abbreviation sample_partial_replay :: "(s3_request \<times> s3_reply) list \<times> push_outcome option" where
  "sample_partial_replay \<equiv> replay (receive_pack sample_git_env sample_host (\<lambda>_. sample_partial) True ''u''
     sample_repo_owner ''app'' sample_repo_owner) sample_answers"

lemma sample_partial_ok: "case sample_partial_replay of (tr, Some po) \<Rightarrow> fst (po_response po) = 200 | _ \<Rightarrow> False"
  by code_simp

theorem partial_push_publishes_nothing_witness:
  "\<exists>tr po. sample_partial_replay = (tr, Some po)
    \<and> po_publish po = None \<and> po_response po = (200, framed_report sample_partial_frames)"
proof -
  obtain tr po where conv: "sample_partial_replay = (tr, Some po)" and ok: "fst (po_response po) = 200"
    using sample_partial_ok by (auto split: prod.splits option.splits)
  have "\<forall>w. pg_receive ((\<lambda>_. sample_partial) w) = GitExited (framed_report sample_partial_frames) True"
    by (simp add: sample_partial_def)
  note publishes_nothing = partial_push_publishes_nothing [OF _ _ _ this conv, of "concat (map frame_lines sample_partial_frames)"
      sample_partial_frames]
  have "\<forall>f \<in> set sample_partial_frames. frame_ok f \<and> length (frame_payload f) \<le> PKT_LINE_MAX_PAYLOAD"
    by (simp add: sample_partial_frames_def status_line_def PKT_LINE_MAX_PAYLOAD_def pkt_line_def flush_pkt_def)
  moreover have "\<forall>l \<in> set (concat (map frame_lines sample_partial_frames)). status_line l \<and> length l \<le> PKT_LINE_MAX_PAYLOAD"
    "list_ex (prefix ''ng '') (concat (map frame_lines sample_partial_frames))"
    by (simp_all add: sample_partial_frames_def status_line_def PKT_LINE_MAX_PAYLOAD_def)
  ultimately show ?thesis
    using publishes_nothing conv ok by auto
qed

text \<open>
  A rejection that git's framing cuts is missed, and the push is published. Take any report in two side-band frames in which the
  boundary falls inside the pkt-line of some line, no line before it is \<^verbatim>\<open>ng\<close>, and the rest of the cut line does not start
  like a number: whatever the cut line and all lines after it say, \<^verbatim>\<open>ng\<close> for every ref included, a push whose git exits with
  success (as it does when its hook declines) is finalised as accepted. Answered 200, it has written its pointer.
\<close>

theorem split_report_is_published:
  assumes "\<forall>l \<in> set before. length l \<le> PKT_LINE_MAX_PAYLOAD \<and> \<not> prefix ''ng '' l"
    and "pkt_line l = x @ c # y" "length l \<le> PKT_LINE_MAX_PAYLOAD" "\<not> is_ascii_hexdigit c" "c \<noteq> CHR ''+''"
    and "report = pkt_line (CHR 0x01 # concat (map pkt_line before) @ x)
        @ pkt_line (CHR 0x01 # c # y @ concat (map pkt_line after) @ flush_pkt) @ flush_pkt"
    and "length (CHR 0x01 # concat (map pkt_line before) @ x) \<le> PKT_LINE_MAX_PAYLOAD"
      "length (CHR 0x01 # c # y @ concat (map pkt_line after) @ flush_pkt) \<le> PKT_LINE_MAX_PAYLOAD"
    and "\<forall>w. pg_receive (G w) = GitExited report True"
    and "replay (receive_pack E H G permit c' owner repo pusher) rs = (tr, Some po)" "fst (po_response po) = 200"
  shows "\<exists>cs d p st e n b. po_publish po = Some (Ok cs) \<and> cs_manifest_key cs = ''manifests/'' @ d
    \<and> pointer_writes tr = [(PutObject (pointer_key c' owner repo) d p, Response st (Some e) n b)] \<and> success_status st"
proof -
  have "\<not> receive_pack_report_rejected report"
    unfolding assms(6) by (rule split_report_scan [OF assms(1-5,7,8)])
  with conv_replay [OF conv_receive_pack assms(10)] assms(9,11) show ?thesis by (auto simp: push_swapped_def)
qed

text \<open>
  A report as git frames it, with 65,515 bytes of data in its first frame: 642 accepted refs, then one whose hook declined, and
  the boundary falls into that line.
\<close>

definition long_ok :: string where "long_ok = ''ok refs/heads/'' @ replicate 83 CHR ''x'' @ [CHR 0x0A]"

definition long_before :: "string list" where "long_before = (''unpack ok'' @ [CHR 0x0A]) # replicate 642 long_ok"

definition long_report :: string where
  "long_report =
     pkt_line (CHR 0x01 # concat (map pkt_line long_before) @ ''0031ng refs/heads'')
     @ pkt_line (CHR 0x01 # CHR ''/'' # (''main pre-receive hook declined'' @ [CHR 0x0A]) @ concat (map pkt_line []) @ flush_pkt) @ flush_pkt"

lemma long_lengths:
  "length (pkt_line long_ok) = 102" "length (concat (map pkt_line long_before) @ ''0031ng refs/heads'') = 65515"
proof -
  show ok: "length (pkt_line long_ok) = 102" by (simp add: pkt_line_def long_ok_def PKT_LINE_MAX_PAYLOAD_def)
  have "length (concat (map pkt_line (replicate n long_ok))) = n * 102" for n
    using ok by (induction n) simp_all
  then show "length (concat (map pkt_line long_before) @ ''0031ng refs/heads'') = 65515"
    by (simp add: long_before_def pkt_line_def [of "[_, _, _, _, _, _, _, _, _, _]"] PKT_LINE_MAX_PAYLOAD_def)
qed

definition sample_split :: push_git where "sample_split = sample_git\<lparr>pg_receive := GitExited long_report True\<rparr>"

abbreviation sample_split_replay :: "(s3_request \<times> s3_reply) list \<times> push_outcome option" where
  "sample_split_replay \<equiv> replay (receive_pack sample_git_env sample_host (\<lambda>_. sample_split) True ''u''
     sample_repo_owner ''app.git'' sample_repo_owner) (sample_replies @ [Response 200 (Some ''v2'') None []])"

lemma sample_split_finalize:
  "case replay (bind (hydrate_for_write sample_git_env sample_host ''u'' sample_repo_owner ''app.git'')
      (\<lambda>r. case r of
         Inl e \<Rightarrow> Return (no_publish (hydrate_error_to_response e))
       | Inr (workspace, parent) \<Rightarrow>
           finalize_push sample_git_env (sample_git\<lparr>pg_receive := process\<rparr>) ''u'' sample_repo_owner ''app.git'' ''app'' sample_repo_owner parent
             (push_limits sample_host workspace) \<lparr>pk_stdout = out, pk_ok = True\<rparr>))
      (sample_replies @ [Response 200 (Some ''v2'') None []]) of
    (tr, Some po) \<Rightarrow> fst (po_response po) = 200 | _ \<Rightarrow> False"
  by code_simp

lemma split_hypotheses:
  "\<forall>l \<in> set long_before. length l \<le> PKT_LINE_MAX_PAYLOAD \<and> \<not> prefix ''ng '' l"
  "pkt_line (''ng refs/heads/main pre-receive hook declined'' @ [CHR 0x0A])
   = ''0031ng refs/heads'' @ CHR ''/'' # ''main pre-receive hook declined'' @ [CHR 0x0A]"
  "length (CHR 0x01 # concat (map pkt_line long_before) @ ''0031ng refs/heads'') \<le> PKT_LINE_MAX_PAYLOAD"
  "length (CHR 0x01 # CHR ''/'' # (''main pre-receive hook declined'' @ [CHR 0x0A]) @ concat (map pkt_line []) @ flush_pkt)
   \<le> PKT_LINE_MAX_PAYLOAD"
  "\<not> is_ascii_hexdigit (CHR ''/'')"
proof -
  show "\<forall>l \<in> set long_before. length l \<le> PKT_LINE_MAX_PAYLOAD \<and> \<not> prefix ''ng '' l"
    by (simp add: long_before_def long_ok_def PKT_LINE_MAX_PAYLOAD_def)
  show "length (CHR 0x01 # concat (map pkt_line long_before) @ ''0031ng refs/heads'') \<le> PKT_LINE_MAX_PAYLOAD"
    unfolding list.size(4) long_lengths(2) by (simp add: PKT_LINE_MAX_PAYLOAD_def)
  show "pkt_line (''ng refs/heads/main pre-receive hook declined'' @ [CHR 0x0A])
   = ''0031ng refs/heads'' @ CHR ''/'' # ''main pre-receive hook declined'' @ [CHR 0x0A]" "\<not> is_ascii_hexdigit (CHR ''/'')"
    by code_simp+
qed (simp add: flush_pkt_def PKT_LINE_MAX_PAYLOAD_def)

theorem split_report_is_published_witness:
  "length (concat (map pkt_line long_before) @ ''0031ng refs/heads'') = 65515
   \<and> (\<exists>tr po cs. sample_split_replay = (tr, Some po) \<and> po_response po = (200, long_report)
        \<and> po_publish po = Some (Ok cs) \<and> pointer_writes tr \<noteq> [])"
proof -
  have report: "\<not> receive_pack_report_rejected long_report"
    unfolding long_report_def by (rule split_report_scan [OF split_hypotheses(1,2) _ split_hypotheses(5) _ split_hypotheses(3,4)])
      (simp_all add: PKT_LINE_MAX_PAYLOAD_def)
  have "length long_report \<le> RECEIVE_PACK_MAX_OUTPUT_BYTES"
    using split_hypotheses(3,4)
    by (simp add: long_report_def pkt_line_def flush_pkt_def RECEIVE_PACK_MAX_OUTPUT_BYTES_def PKT_LINE_MAX_PAYLOAD_def)
  with report have run: "run_git_at ''receive-pack'' (GitExited long_report True) RECEIVE_PACK_MAX_OUTPUT_BYTES
      = Ok \<lparr>pk_stdout = long_report, pk_ok = True\<rparr>"
    by (simp add: run_git_at_def)
  have "validate_repo_id sample_repo_owner ''app.git'' = Ok ''app''" "pg_hook sample_git" by code_simp+
  with run sample_split_finalize [of "GitExited long_report True" long_report] obtain tr po
    where conv: "sample_split_replay = (tr, Some po)" and ok: "fst (po_response po) = 200"
    by (auto simp: receive_pack_def sample_split_def split: prod.splits option.splits)
  have git: "\<forall>w. pg_receive ((\<lambda>_. sample_split) w) = GitExited long_report True" by (simp add: sample_split_def)
  have "\<exists>cs d p st e n b. po_publish po = Some (Ok cs) \<and> cs_manifest_key cs = ''manifests/'' @ d
      \<and> pointer_writes tr = [(PutObject (pointer_key ''u'' sample_repo_owner ''app.git'') d p, Response st (Some e) n b)]
      \<and> success_status st"
    by (rule split_report_is_published [OF split_hypotheses(1,2) _ split_hypotheses(5) _ long_report_def split_hypotheses(3,4) git conv ok])
      (simp_all add: PKT_LINE_MAX_PAYLOAD_def)
  moreover from push_swapped_200 [OF conv git ok] have "po_response po = (200, long_report)" .
  ultimately show ?thesis using conv long_lengths(2) by auto
qed

end
