(* ===== verification/Spec2Isabelle.thy ===== *)
theory Spec2Isabelle
  imports GitPolicy Subscriptions PairingSession AudioRoom EventQueue TunnelReliable MeshGossip AuditLog WorkflowTriggers Admission GitConversation
begin

text \<open>
  LenOS is a relay for Nostr events that serves several communities (tenants) from one deployment:
  clients publish signed events, subscribe to filters, push to git repositories, join huddles, and pair
  devices; agents and workflows are driven from the same events. This development models the relay's own decision
  logic, state machine by state machine, and proves what each promises. It is a shallow embedding: one
  Isabelle definition per function, struct or enum of the source, with the source's names. Code outside
  the repository (cryptography, Redis, Postgres, iroh, serde, chrono) is a parameter of the definitions
  that use it, and what the code relies on is a named hypothesis with a witness.

  \<^bold>\<open>The parts and their theories\<close>, in the order of the sources:

  \<^item> \<^verbatim>\<open>Prelude\<close>: results, hash maps, buckets, machines with an invariant, JSON values, the \<open>str\<close> and
    integer operations of Rust. The interfaces are locales: \<open>hash_map\<close> and \<open>bucket_index\<close> (interpreted
    on association lists as \<open>hm\<close> and \<open>bk\<close>), \<open>invariant_machine\<close> (interpreted for the registry, the
    pairing sessions, the rooms, the room manager, the event queue, the mesh table and the workflow tables).
  \<^item> \<^verbatim>\<open>Channel\<close>, \<^verbatim>\<open>GitPerms\<close>, \<^verbatim>\<open>GitPolicy\<close> (\<^verbatim>\<open>lenos-core/src/channel.rs\<close>, \<^verbatim>\<open>git_perms.rs\<close>,
    \<^verbatim>\<open>lenos-relay/src/api/git/policy.rs\<close>, \<^verbatim>\<open>binding.rs\<close>): roles, ref patterns and protection rules, and the
    pre-receive hook that evaluates a push. A push is accepted exactly when every rule that matches each
    ref permits it, rules only ever restrict, and the hook endpoint fails closed.
  \<^item> \<^verbatim>\<open>GitManifest\<close>, \<^verbatim>\<open>GitStore\<close>, \<^verbatim>\<open>GitPublish\<close>, \<^verbatim>\<open>GitConversation\<close> (\<^verbatim>\<open>lenos-relay/src/api/git/manifest.rs\<close>,
    \<^verbatim>\<open>store.rs\<close>, \<^verbatim>\<open>hydrate.rs\<close>, \<^verbatim>\<open>cas_publish.rs\<close>, \<^verbatim>\<open>transport.rs\<close>, \<^verbatim>\<open>manifest_event.rs\<close>, the announcement in
    \<^verbatim>\<open>handlers/side_effects.rs\<close>): git on an object store. A repository is a pointer object that names an immutable
    manifest, swapped under its ETag. A handler is a program of store requests, and any set of pushes, clones and
    announcements runs interleaved request by request against a bucket known only by its laws, with replies lost and
    tasks abandoned. A rely-guarantee argument (\<open>keeps\<close>) carries the invariant of the store: every program sends only
    permitted requests, and permitted requests of others preserve what a program has seen. From it come the three
    theorems of \<^verbatim>\<open>docs/git-on-object-storage.md\<close>: success is durable, reads serve published states in order, published
    states form one chain. \<^verbatim>\<open>GitConversation\<close> adds, without any law of the bucket, what one push writes and answers:
    the answer tells whether the pointer was swapped. \<open>git receive-pack\<close> itself is a parameter (\<open>git_process\<close>), run
    under the code's limit on its output (\<open>run_git_at\<close>); its report is scanned frame by frame as the code does, so the
    theorem about rejected refs is about status lines that git's framing does not cut, and a lemma shows what happens
    to one that it cuts.
  \<^item> \<^verbatim>\<open>Kinds\<close>, \<^verbatim>\<open>Nostr\<close>, \<^verbatim>\<open>Subscriptions\<close> (\<^verbatim>\<open>lenos-core/src/kind.rs\<close>, \<^verbatim>\<open>event.rs\<close>, \<^verbatim>\<open>filter.rs\<close>,
    \<^verbatim>\<open>lenos-relay/src/subscription.rs\<close>): the kind registry, filter matching, and the subscription registry
    with its five indexes. The indexes refine a plain table of subscriptions, and fan-out delivers to
    exactly the matching subscriptions of the event's community and channel.
  \<^item> \<^verbatim>\<open>PairingCrypto\<close>, \<^verbatim>\<open>PairingSession\<close> (\<^verbatim>\<open>lenos-core/src/pairing\<close>): the NIP-AB device pairing. The calls
    of a session are a path of the protocol, events are accepted only from the bound peer, the short
    authentication string binds the transcript, and an undisturbed exchange completes.
  \<^item> \<^verbatim>\<open>Auth\<close>, \<^verbatim>\<open>Protocol\<close>, \<^verbatim>\<open>Admission\<close> (\<^verbatim>\<open>lenos-auth/src\<close>, \<^verbatim>\<open>lenos-core/src/tenant.rs\<close>, \<^verbatim>\<open>lenos-sdk/src/nip_oa.rs\<close>,
    \<^verbatim>\<open>lenos-relay/src/handlers/auth.rs\<close>, \<^verbatim>\<open>protocol.rs\<close>, \<^verbatim>\<open>admission.rs\<close>, the gates of \<^verbatim>\<open>api/bridge.rs\<close>, \<^verbatim>\<open>api/mod.rs\<close> and
    \<^verbatim>\<open>connection.rs\<close>, the limiter and the replay marks of \<^verbatim>\<open>lenos-pubsub/src\<close>): how a request is bound to its community,
    authenticated and admitted. A connection authenticates at most once and past every gate; an owner attestation
    verifies exactly as it was signed, with conditions of one grammar; a frame parses to exactly one message; over any
    traffic through the HTTP and WebSocket doors a quota admits at most its limit per window plus one limit at each end,
    and a signed request passes once, or twice at the very ends of its window, which is when its replay passes. The quota proof is a potential: what a key
    can still admit in a given time, which each step pays for.
  \<^item> \<^verbatim>\<open>AudioRoom\<close> (\<^verbatim>\<open>lenos-relay/src/audio/room.rs\<close>): huddle rooms. Seats are unique, the published roster
    replays to the room, a room ends at most once, rooms of different communities are disjoint.
  \<^item> \<^verbatim>\<open>EventQueue\<close> (\<^verbatim>\<open>lenos-acp/src/queue.rs\<close>): the agent harness's per-channel queue. Dispatch is fair and
    conserves events, retries are bounded.
  \<^item> \<^verbatim>\<open>MeshWire\<close>, \<^verbatim>\<open>TunnelDirectory\<close>, \<^verbatim>\<open>TunnelReliable\<close>, \<^verbatim>\<open>MeshGossip\<close> (\<^verbatim>\<open>lenos-relay-mesh/src\<close>,
    \<^verbatim>\<open>lenos-relay/src/tunnel\<close>): the relay mesh. Frames survive the stream framing; session leases in Redis
    (four Lua scripts over a record of Redis commands) have strictly increasing generations, so frames
    of an earlier owner are refused for ever; streams deliver only frames of the live owner; gossip is a
    join and simultaneous dials agree. Stores that keep the newest record are the locale \<open>gossip_store\<close>.
  \<^item> \<^verbatim>\<open>AuditLog\<close> (\<^verbatim>\<open>lenos-audit/src\<close>): the per-community hash chain under interleaved writers, and what
    verification does and does not detect. A row is hashed over the detail as submitted and stored as JSONB, which
    may change its text: verification is proved for entries whose text survives (\<open>detail_kept\<close>), and a lemma shows that
    it fails for one that does not. Chains are the locale \<open>hash_chain\<close>.
  \<^item> \<^verbatim>\<open>WorkflowDef\<close>, \<^verbatim>\<open>Network\<close>, \<^verbatim>\<open>WorkflowDb\<close>, \<^verbatim>\<open>WorkflowRun\<close>, \<^verbatim>\<open>WorkflowApproval\<close>, \<^verbatim>\<open>WorkflowTriggers\<close>
    (\<^verbatim>\<open>lenos-workflow/src\<close>, \<^verbatim>\<open>lenos-core/src/network.rs\<close>, \<^verbatim>\<open>lenos-db/src/workflow.rs\<close>, the workflow commands of
    \<^verbatim>\<open>lenos-relay/src/handlers/command_executor.rs\<close>, \<^verbatim>\<open>webhook_secret.rs\<close> and the webhook endpoint of
    \<^verbatim>\<open>api/bridge.rs\<close>): definitions with their validation, templates and condition variables; the address
    check behind outgoing requests; the four workflow tables with their keys and references; the executor; the
    approval commands; and the four doors through which runs start. The executor runs over the tables, the
    approval commands over the executor, and the doors over both, in one state that is passed along. Templates
    are expanded once and webhook fields cannot pass for trigger fields; no run reaches an internal address; the
    trace of a suspended run rebuilds its outputs; each statement of the tables changes
    the rows its \<open>WHERE\<close> clause names and their named columns, and no others; an approval is decided once, by a caller
    it admits, and a run whose approvals are granted by command after command, each resuming it at the next step, ends; every door checks the owner's current role, and a scheduled instant is run
    at most once whatever instances tick. Every call of a service has a number, and the answers of the outside
    are functions of that number, so that two calls may be answered differently and any of them may fail.

  \<^bold>\<open>Bounds.\<close> No definition needs fuel: loops over data are structural or have a measure, and the tasks
  that run for ever (renewal, gossip, heartbeat, scheduler) are folds over the sequence of events they react to.
  Session generations are followed up to \<open>10 ^ 14\<close>, because Redis' Lua prints fourteen digits; audit
  sequence numbers up to \<open>2 ^ 63\<close>, the range of their column; a quota counter for \<open>10 ^ 14\<close> calls, within what \<open>INCR\<close> counts.

  \<^bold>\<open>Idealisations.\<close> Collision-freeness of SHA-256 is assumed of the bodies a theorem speaks of, or its failure is a
  disjunct of the conclusion; event ids are the exception: in the pairing laws \<open>sign_laws\<close> an id determines the
  signed content, for all contents. A call of the object store is one call of its client library,
  answered under the laws of the store; retries inside that library are outside the model. The cache of packs on local
  disk (\<^verbatim>\<open>pack_cache.rs\<close>) is the hypothesis \<open>cache_sound\<close>: what it yields for a digest has that digest.

  \<^bold>\<open>Not modelled.\<close> Postgres queries beyond the tables named above, the HTTP and WebSocket glue, media
  decoding, subprocess supervision, LLM clients, user interfaces and metrics: they move data between the
  modelled parts and services outside the repository, or are text of another language.
\<close>

end
